(* ===== verification/Prelude.thy ===== *)
theory Prelude
  imports
    Main
    "HOL-Library.List_Lexorder"
    "HOL-Library.Char_ord"
    "HOL-Library.AList"
    "HOL-Library.Multiset"
begin

text \<open>
  Shared vocabulary of the development. A Go \<^verbatim>\<open>map\<close> is an association list with
  distinct keys whose order stands for the unspecified iteration order of
  \<^verbatim>\<open>range\<close>: a theorem that holds for every such list holds for every iteration
  order, and a determinism theorem says that permuted lists give the same result.
  A Go string is a \<^typ>\<open>string\<close> (a list of bytes); \<^verbatim>\<open>sort.Strings\<close> is
  \<^const>\<open>sort\<close> in the bytewise lexicographic order. Nil pointers are \<^const>\<open>None\<close>,
  errors are the left summand of a sum type.
\<close>

section \<open>Go maps\<close>

named_theorems gomap_simps \<open>rewriting of lookups and updates of Go maps\<close>

type_synonym ('k, 'v) gomap = "('k \<times> 'v) list"

type_synonym name = string

abbreviation gm_keys :: "('k, 'v) gomap \<Rightarrow> 'k list" where
  "gm_keys m \<equiv> map fst m"

abbreviation gm_ok :: "('k, 'v) gomap \<Rightarrow> bool" where
  "gm_ok m \<equiv> distinct (gm_keys m)"

abbreviation gm_put :: "'k \<Rightarrow> 'v \<Rightarrow> ('k, 'v) gomap \<Rightarrow> ('k, 'v) gomap" where
  "gm_put \<equiv> AList.update"

text \<open>Reading a key with the zero value of the element type as the default.\<close>

definition gm_get :: "'v \<Rightarrow> ('k, 'v) gomap \<Rightarrow> 'k \<Rightarrow> 'v" where
  "gm_get z m k = (case map_of m k of None \<Rightarrow> z | Some v \<Rightarrow> v)"

definition gm_has :: "('k, 'v) gomap \<Rightarrow> 'k \<Rightarrow> bool" where
  "gm_has m k = (map_of m k \<noteq> None)"

lemma gm_get_simps [simp, gomap_simps]:
  "gm_get z [] k = z"
  "gm_get z ((k', v) # m) k = (if k' = k then v else gm_get z m k)"
  by (simp_all add: gm_get_def)

lemma map_of_put [simp, gomap_simps]: "map_of (gm_put k v m) = (map_of m)(k \<mapsto> v)"
  by (rule update_conv')

lemma gm_get_put [simp, gomap_simps]:
  "gm_get z (gm_put k v m) k' = (if k = k' then v else gm_get z m k')"
  by (simp add: gm_get_def)

lemma gm_has_put [simp, gomap_simps]: "gm_has (gm_put k v m) k' \<longleftrightarrow> k = k' \<or> gm_has m k'"
  by (auto simp: gm_has_def)

lemma gm_has_iff: "gm_has m k \<longleftrightarrow> k \<in> set (gm_keys m)"
  by (simp add: gm_has_def map_of_eq_None_iff)

lemma gm_ok_put [simp, gomap_simps]: "gm_ok m \<Longrightarrow> gm_ok (gm_put k v m)"
  by (rule distinct_update)

lemma set_keys_put [simp, gomap_simps]:
  "set (gm_keys (gm_put k v m)) = insert k (set (gm_keys m))"
  by (auto simp: dom_update)

lemma set_keys_put_image [simp]: "fst ` set (gm_put k v m) = insert k (fst ` set m)"
  using set_keys_put [of k v m] by simp

lemma map_of_Some_key: "map_of m k = Some v \<Longrightarrow> k \<in> set (gm_keys m)"
  by (metis domI dom_map_of_conv_image_fst set_map)

lemma map_of_key_Some: "k \<in> set (gm_keys m) \<Longrightarrow> \<exists>v. map_of m k = Some v"
  by (cases "map_of m k") (auto simp: map_of_eq_None_iff)

text \<open>Mapping over the values of a Go map keeps its keys and commutes with lookup.\<close>

lemma map_of_map_val: "map_of (map (\<lambda>(k, v). (k, f k v)) m) k = map_option (f k) (map_of m k)"
  by (induction m) auto

lemma keys_map_val [simp]: "map fst (map (\<lambda>(k, v). (k, f k v)) m) = map fst m"
  by (induction m) auto

lemma keys_map_val_comp [simp]: "map (fst \<circ> (\<lambda>(k, v). (k, f k v))) m = map fst m"
  by (induction m) auto

text \<open>The keys whose value satisfies a condition, as a \<^verbatim>\<open>range\<close> loop collects them.\<close>

lemma keys_filter_val:
  assumes "gm_ok m"
  shows "k \<in> set (map fst (filter (\<lambda>(_, v). P v) m)) \<longleftrightarrow> (\<exists>v. map_of m k = Some v \<and> P v)"
proof -
  have "k \<in> set (map fst (filter (\<lambda>(_, v). P v) m)) \<longleftrightarrow> (\<exists>v. (k, v) \<in> set m \<and> P v)" by force
  then show ?thesis using map_of_eq_Some_iff [OF assms] by simp
qed

lemma keys_filter_get:
  assumes "gm_ok m"
  shows "k \<in> set (map fst (filter (\<lambda>(_, v). P v) m)) \<longleftrightarrow> k \<in> set (gm_keys m) \<and> P (gm_get z m k)"
  unfolding keys_filter_val [OF assms] gm_get_def
  using map_of_key_Some [of k m] map_of_Some_key [of m k] by fastforce

text \<open>Two iteration orders of one map.\<close>

lemma map_of_perm:
  assumes "gm_ok m" and "mset m = mset m'"
  shows "map_of m = map_of m'"
proof -
  have "gm_ok m'"
    using assms by (metis distinct_map mset_eq_setD mset_eq_imp_distinct_iff)
  moreover have "set m = set m'"
    using assms(2) by (rule mset_eq_setD)
  ultimately show ?thesis
    using assms(1) map_of_inject_set by blast
qed

lemma gm_ok_perm: "gm_ok m \<Longrightarrow> mset m = mset m' \<Longrightarrow> gm_ok m'"
  by (metis distinct_map mset_eq_setD mset_eq_imp_distinct_iff)

lemma keys_perm: "mset m = mset m' \<Longrightarrow> mset (gm_keys m) = mset (gm_keys m')"
  by (metis mset_map)

section \<open>Sorting\<close>

lemma sort_mset_cong: "mset xs = mset ys \<Longrightarrow> sort xs = sort (ys :: 'a::linorder list)"
  by (metis mset_sort properties_for_sort sorted_sort)

lemma sort_snoc_absorb: "sort (sort xs @ ys) = sort (xs @ (ys :: 'a::linorder list))"
  by (rule sort_mset_cong) simp

section \<open>Occurrence order in a list\<close>

text \<open>
  \<open>precedes xs a b\<close>: the list holds both names and an occurrence of \<open>a\<close> stands before
  an occurrence of \<open>b\<close>. On lists without duplicates this is the order a build follows.
\<close>

definition precedes :: "'a list \<Rightarrow> 'a \<Rightarrow> 'a \<Rightarrow> bool" where
  "precedes xs a b \<longleftrightarrow> (\<exists>us vs ws. xs = us @ a # vs @ b # ws)"

lemma precedes_snoc: "a \<in> set xs \<Longrightarrow> precedes (xs @ [b]) a b"
proof -
  assume "a \<in> set xs"
  then obtain us vs where "xs = us @ a # vs" by (meson split_list)
  then have "xs @ [b] = us @ a # vs @ b # []" by simp
  then show ?thesis unfolding precedes_def by blast
qed

lemma precedes_append: "precedes xs a b \<Longrightarrow> precedes (xs @ ys) a b"
  unfolding precedes_def by fastforce

lemma precedes_across: "a \<in> set xs \<Longrightarrow> b \<in> set ys \<Longrightarrow> precedes (xs @ ys) a b"
proof -
  assume "a \<in> set xs" and "b \<in> set ys"
  then obtain us vs us' vs' where "xs = us @ a # vs" and "ys = us' @ b # vs'"
    by (meson split_list)
  then have "xs @ ys = us @ a # (vs @ us') @ b # vs'" by simp
  then show ?thesis unfolding precedes_def by blast
qed

lemma precedes_mem: "precedes xs a b \<Longrightarrow> a \<in> set xs \<and> b \<in> set xs"
  unfolding precedes_def by auto

lemma precedes_irrefl: "distinct xs \<Longrightarrow> \<not> precedes xs a a"
  unfolding precedes_def by auto

lemma precedes_trans:
  assumes "distinct xs" and "precedes xs a b" and "precedes xs b c"
  shows "precedes xs a c"
proof -
  obtain us vs ws where 1: "xs = us @ a # vs @ b # ws"
    using assms(2) unfolding precedes_def by blast
  obtain us' vs' ws' where 2: "xs = us' @ b # vs' @ c # ws'"
    using assms(3) unfolding precedes_def by blast
  have nb: "b \<notin> set (us @ a # vs)" "b \<notin> set ws"
    using assms(1) unfolding 1 by auto
  have "(us @ a # vs) @ b # ws = us' @ b # (vs' @ c # ws')"
    using 1 2 by simp
  then have "ws = vs' @ c # ws'"
    using append_Cons_eq_iff [OF nb] by blast
  then have "xs = us @ a # (vs @ b # vs') @ c # ws'" using 1 by simp
  then show ?thesis unfolding precedes_def by blast
qed

lemma precedes_filter:
  assumes "precedes xs a b" and "P a" and "P b"
  shows "precedes (filter P xs) a b"
proof -
  obtain us vs ws where "xs = us @ a # vs @ b # ws"
    using assms(1) unfolding precedes_def by blast
  then have "filter P xs = filter P us @ a # filter P vs @ b # filter P ws"
    using assms(2,3) by simp
  then show ?thesis unfolding precedes_def by blast
qed

lemma precedes_acyclic:
  assumes "distinct ord" and "\<And>a b. (a, b) \<in> r \<Longrightarrow> precedes ord b a"
  shows "acyclic r"
proof -
  have "precedes ord b a" if "(a, b) \<in> r\<^sup>+" for a b
    using that by (induction) (auto intro: assms precedes_trans)
  then show ?thesis using precedes_irrefl [OF assms(1)] by (auto simp: acyclic_def)
qed

lemma precedes_acyclic_trancl:
  assumes "distinct ord" and "\<And>a b. (a, b) \<in> r \<Longrightarrow> a \<in> set ord \<Longrightarrow> precedes ord b a"
    and "(a, b) \<in> r\<^sup>+" and "a \<in> set ord"
  shows "precedes ord b a"
  using assms(3)
proof (induction)
  case (base y)
  then show ?case using assms(2,4) by blast
next
  case (step y z)
  then have "precedes ord z y" using assms(2) precedes_mem by metis
  with step.IH show ?case using precedes_trans [OF assms(1)] by blast
qed

text \<open>A finite set in which every element has a successor holds a cycle.\<close>

lemma finite_succ_cycle:
  assumes "finite S" and "S \<noteq> {}" and "\<And>x. x \<in> S \<Longrightarrow> \<exists>y \<in> S. (x, y) \<in> r"
  shows "\<exists>x \<in> S. (x, x) \<in> r\<^sup>+"
proof (rule ccontr)
  assume none: "\<not> (\<exists>x \<in> S. (x, x) \<in> r\<^sup>+)"
  let ?r = "r \<inter> S \<times> S"
  have "acyclic ?r"
  proof (rule acyclicI, intro allI notI)
    fix x
    assume "(x, x) \<in> ?r\<^sup>+"
    moreover then have "x \<in> S" by (metis (no_types, lifting) IntE SigmaD1 tranclD)
    moreover have "?r\<^sup>+ \<subseteq> r\<^sup>+" by (rule trancl_mono_subset) simp
    ultimately show False using none by blast
  qed
  then have "wf (?r\<inverse>)"
    using assms(1) by (intro finite_acyclic_wf_converse) auto
  then obtain z where "z \<in> S" "\<And>y. (y, z) \<in> ?r\<inverse> \<Longrightarrow> y \<notin> S"
    using assms(2) by (metis ex_in_conv wfE_min)
  with assms(3) [of z] show False by blast
qed

end
