(* ===== verification/Walks.thy ===== *)
theory Walks
  imports Prelude
begin

text \<open>
  Depth-first walks over a graph held in a Go map from a name to the names it points at.
  The recursive closures of the sources (\<^verbatim>\<open>walk\<close> in \<^verbatim>\<open>DepsOf\<close>,
  \<^verbatim>\<open>RdepsOf\<close> and \<^verbatim>\<open>TransitiveDeps\<close>, \<^verbatim>\<open>visit\<close> in \<^verbatim>\<open>DetectCycles\<close>)
  share this theory: the Go call stack becomes an explicit list of what the active calls
  have still to do, innermost call first.
\<close>

section \<open>Graphs\<close>

type_synonym graph = "(name, name list) gomap"

definition succs :: "graph \<Rightarrow> name \<Rightarrow> name list" where
  "succs g n = gm_get [] g n"

definition edges :: "graph \<Rightarrow> (name \<times> name) set" where
  "edges g = {(a, b). b \<in> set (succs g a)}"

text \<open>Every edge ends in a node of the graph.\<close>

definition closed_graph :: "graph \<Rightarrow> bool" where
  "closed_graph g \<longleftrightarrow> (\<forall>(n, ds) \<in> set g. set ds \<subseteq> set (gm_keys g))"

lemma edges_iff: "(a, b) \<in> edges g \<longleftrightarrow> b \<in> set (succs g a)"
  by (simp add: edges_def)

lemma succs_Some: "map_of g n = Some ds \<Longrightarrow> succs g n = ds"
  by (simp add: succs_def gm_get_def)

lemma succs_None: "map_of g n = None \<Longrightarrow> succs g n = []"
  by (simp add: succs_def gm_get_def)

lemma succs_not_key: "n \<notin> set (gm_keys g) \<Longrightarrow> succs g n = []"
  by (rule succs_None) (simp add: map_of_eq_None_iff)

lemma succs_key: "d \<in> set (succs g n) \<Longrightarrow> n \<in> set (gm_keys g)"
  using succs_not_key by fastforce

lemma closed_graph_succs: "closed_graph g \<Longrightarrow> set (succs g n) \<subseteq> set (gm_keys g)"
  by (cases "map_of g n")
    (auto simp: succs_def gm_get_def closed_graph_def dest!: map_of_SomeD)

lemma closed_graph_rtrancl:
  assumes "closed_graph g" and "a \<in> set (gm_keys g)" and "(a, b) \<in> (edges g)\<^sup>*"
  shows "b \<in> set (gm_keys g)"
  using assms(3,2) by (induction) (use closed_graph_succs [OF assms(1)] in \<open>auto simp: edges_iff\<close>)

lemma closed_graph_trancl:
  assumes "closed_graph g" and "(a, b) \<in> (edges g)\<^sup>+"
  shows "b \<in> set (gm_keys g)"
  using assms(2) closed_graph_succs [OF assms(1)] by (induction) (auto simp: edges_iff)

lemma succs_perm: "gm_ok g \<Longrightarrow> mset g = mset g' \<Longrightarrow> succs g = succs g'"
  by (auto simp: succs_def gm_get_def map_of_perm)

section \<open>Preorder walk\<close>

text \<open>
  \<^verbatim>\<open>for _, dep := range node.Deps { if !visited[dep] { visited[dep] = true; result = append(result, dep); walk(dep) } }\<close>.
  The names in \<open>res\<close> are the visited ones; \<open>None\<close> is the nil-pointer dereference of
  \<^verbatim>\<open>d.Nodes[n]\<close> for a name that is not a node.
\<close>

function walk_pre :: "graph \<Rightarrow> name list \<Rightarrow> name list \<Rightarrow> name list option" where
  "walk_pre g [] res = Some res"
| "walk_pre g (d # todo) res =
     (if d \<in> set res then walk_pre g todo res
      else (case map_of g d of
              None \<Rightarrow> None
            | Some ds \<Rightarrow> walk_pre g (ds @ todo) (res @ [d])))"
  by pat_completeness auto

lemma card_unvisited_less:
  "d \<in> set (gm_keys g) \<Longrightarrow> d \<notin> A \<Longrightarrow>
   card (set (gm_keys g) - insert d A) < card (set (gm_keys g) - A)"
  by (rule psubset_card_mono) auto

termination walk_pre
proof (relation "measures [\<lambda>(g, todo, res). card (set (gm_keys g) - set res), \<lambda>(g, todo, res). length todo]",
    goal_cases)
  case (3 g d todo res ds)
  then show ?case
    using card_unvisited_less [of d g "set res"] map_of_Some_key [of g d ds] by simp
qed auto

lemma walk_pre_mono: "walk_pre g todo res = Some r \<Longrightarrow> set res \<subseteq> set r \<and> set todo \<subseteq> set r"
  by (induction g todo res rule: walk_pre.induct) (auto split: if_splits option.splits)

lemma walk_pre_distinct: "walk_pre g todo res = Some r \<Longrightarrow> distinct res \<Longrightarrow> distinct r"
  by (induction g todo res rule: walk_pre.induct) (auto split: if_splits option.splits)

lemma walk_pre_closed:
  "walk_pre g todo res = Some r \<Longrightarrow> x \<in> set r \<Longrightarrow> x \<in> set res \<or> set (succs g x) \<subseteq> set r"
proof (induction g todo res rule: walk_pre.induct)
  case (2 g d todo res)
  show ?case
  proof (cases "d \<in> set res")
    case True
    with 2 show ?thesis by simp
  next
    case False
    with "2.prems"(1) obtain ds where ds: "map_of g d = Some ds"
      and run: "walk_pre g (ds @ todo) (res @ [d]) = Some r"
      by (auto split: option.splits)
    have "set ds \<subseteq> set r" using walk_pre_mono [OF run] by simp
    moreover have "x \<in> set (res @ [d]) \<or> set (succs g x) \<subseteq> set r"
      using "2.IH"(2) [OF False ds run] "2.prems"(2) by simp
    ultimately show ?thesis using succs_Some [OF ds] by auto
  qed
qed simp

lemma walk_pre_sound:
  "walk_pre g todo res = Some r \<Longrightarrow> x \<in> set r \<Longrightarrow>
   x \<in> set res \<or> (\<exists>t \<in> set todo. (t, x) \<in> (edges g)\<^sup>*)"
proof (induction g todo res rule: walk_pre.induct)
  case (2 g d todo res)
  show ?case
  proof (cases "d \<in> set res")
    case True
    with 2 show ?thesis by auto
  next
    case False
    with "2.prems"(1) obtain ds where ds: "map_of g d = Some ds"
      and run: "walk_pre g (ds @ todo) (res @ [d]) = Some r"
      by (auto split: option.splits)
    have "x \<in> set (res @ [d]) \<or> (\<exists>t \<in> set (ds @ todo). (t, x) \<in> (edges g)\<^sup>*)"
      by (rule "2.IH"(2) [OF False ds run "2.prems"(2)])
    moreover have "(d, t) \<in> edges g" if "t \<in> set ds" for t
      using that succs_Some [OF ds] by (simp add: edges_iff)
    ultimately show ?thesis
      by (auto intro: converse_rtrancl_into_rtrancl)
  qed
qed simp

lemma walk_pre_total:
  "closed_graph g \<Longrightarrow> set todo \<subseteq> set (gm_keys g) \<Longrightarrow> \<exists>r. walk_pre g todo res = Some r"
proof (induction g todo res rule: walk_pre.induct)
  case (2 g d todo res)
  then obtain ds where ds: "map_of g d = Some ds"
    using map_of_key_Some [of d g] by auto
  then have "set ds \<subseteq> set (gm_keys g)"
    using closed_graph_succs [OF "2.prems"(1), of d] succs_Some [OF ds] by simp
  with 2 ds show ?case by (cases "d \<in> set res") auto
qed simp

text \<open>The names a walk from \<open>todo\<close> collects are exactly the reachable ones.\<close>

lemma walk_pre_reach:
  assumes "walk_pre g todo [] = Some r"
  shows "set r = (edges g)\<^sup>* `` set todo"
proof
  show "set r \<subseteq> (edges g)\<^sup>* `` set todo"
    using walk_pre_sound [OF assms] by auto
  have closed: "b \<in> set r" if "a \<in> set r" "(a, b) \<in> edges g" for a b
    using walk_pre_closed [OF assms that(1)] that(2) by (auto simp: edges_iff)
  have "b \<in> set r" if "(a, b) \<in> (edges g)\<^sup>*" "a \<in> set r" for a b
    using that by (induction) (auto intro: closed)
  then show "(edges g)\<^sup>* `` set todo \<subseteq> set r"
    using walk_pre_mono [OF assms] by auto
qed

section \<open>Postorder walk\<close>

text \<open>
  \<open>Enter n\<close> is a call \<^verbatim>\<open>walk(n)\<close> still to be made, \<open>Leave n\<close> the rest of an active
  call whose loop over the successors has ended.
\<close>

datatype frame = Enter name | Leave name

fun frame_name :: "frame \<Rightarrow> name" where
  "frame_name (Enter n) = n"
| "frame_name (Leave n) = n"

fun frame_weight :: "frame \<Rightarrow> nat" where
  "frame_weight (Enter n) = 2"
| "frame_weight (Leave n) = 1"

text \<open>
  The walk of \<^verbatim>\<open>TransitiveDeps\<close>: skip a visited name, else mark it, walk its
  successors (none for a name that is not a node) and append it.
\<close>

function walk_post :: "graph \<Rightarrow> frame list \<Rightarrow> name list \<Rightarrow> name list \<Rightarrow> name list" where
  "walk_post g [] visited res = res"
| "walk_post g (Enter n # fs) visited res =
     (if n \<in> set visited then walk_post g fs visited res
      else walk_post g (map Enter (succs g n) @ Leave n # fs) (n # visited) res)"
| "walk_post g (Leave n # fs) visited res = walk_post g fs visited (res @ [n])"
  by pat_completeness auto

termination walk_post
proof (relation "measures [\<lambda>(g, fs, vis, res). card (set (gm_keys g) - set vis),
    \<lambda>(g, fs, vis, res). sum_list (map frame_weight fs)]", goal_cases)
  case (3 g n fs visited res)
  show ?case
  proof (cases "n \<in> set (gm_keys g)")
    case True
    with 3 show ?thesis using card_unvisited_less [of n g "set visited"] by simp
  next
    case False
    then have "set (gm_keys g) - insert n (set visited) = set (gm_keys g) - set visited" by auto
    with False show ?thesis by (simp add: succs_not_key)
  qed
qed auto


text \<open>The names whose call is active, innermost first.\<close>

fun leaves :: "frame list \<Rightarrow> name list" where
  "leaves [] = []"
| "leaves (Enter n # fs) = leaves fs"
| "leaves (Leave n # fs) = n # leaves fs"

lemma leaves_append [simp]: "leaves (fs @ fs') = leaves fs @ leaves fs'"
  by (induction fs rule: leaves.induct) auto

lemma leaves_map_Enter [simp]: "leaves (map Enter ns) = []"
  by (induction ns) auto

lemma leaves_iff: "n \<in> set (leaves fs) \<longleftrightarrow> Leave n \<in> set fs"
  by (induction fs rule: leaves.induct) auto

text \<open>
  The shape of the stack, read from the top with the frames already passed in \<open>A\<close>: an
  active call's successors are visited or still to be entered above it, and everything
  above an active call is reachable from it.
\<close>

fun stack_ok :: "graph \<Rightarrow> name set \<Rightarrow> frame set \<Rightarrow> frame list \<Rightarrow> bool" where
  "stack_ok g V A [] = True"
| "stack_ok g V A (Enter n # fs) = stack_ok g V (insert (Enter n) A) fs"
| "stack_ok g V A (Leave n # fs) =
     ((\<forall>d \<in> set (succs g n). d \<in> V \<or> Enter d \<in> A) \<and>
      (\<forall>f \<in> A. (n, frame_name f) \<in> (edges g)\<^sup>+) \<and>
      stack_ok g V (insert (Leave n) A) fs)"

lemma stack_ok_above:
  "stack_ok g V A fs \<Longrightarrow> Leave m \<in> set fs \<Longrightarrow> f \<in> A \<Longrightarrow> (m, frame_name f) \<in> (edges g)\<^sup>+"
  by (induction g V A fs rule: stack_ok.induct) auto

lemma stack_ok_mono:
  "stack_ok g V A fs \<Longrightarrow> V \<subseteq> V' \<Longrightarrow> (\<And>d. Enter d \<in> A \<Longrightarrow> Enter d \<in> A' \<or> d \<in> V') \<Longrightarrow>
   (\<And>f m. f \<in> A' \<Longrightarrow> Leave m \<in> set fs \<Longrightarrow> (m, frame_name f) \<in> (edges g)\<^sup>+) \<Longrightarrow>
   stack_ok g V' A' fs"
proof (induction g V A fs arbitrary: A' rule: stack_ok.induct)
  case (2 g V A n fs)
  have "stack_ok g V' (insert (Enter n) A') fs"
  proof (rule "2.IH")
    show "stack_ok g V (insert (Enter n) A) fs" using "2.prems"(1) by simp
    show "(m, frame_name f) \<in> (edges g)\<^sup>+"
      if "f \<in> insert (Enter n) A'" "Leave m \<in> set fs" for f m
      using that "2.prems"(4) stack_ok_above [OF \<open>stack_ok g V (insert (Enter n) A) fs\<close>]
      by auto
  qed (use "2.prems" in auto)
  then show ?case by simp
next
  case (3 g V A n fs)
  have below: "stack_ok g V (insert (Leave n) A) fs" using "3.prems"(1) by simp
  have "stack_ok g V' (insert (Leave n) A') fs"
  proof (rule "3.IH" [OF below])
    show "(m, frame_name f) \<in> (edges g)\<^sup>+"
      if "f \<in> insert (Leave n) A'" "Leave m \<in> set fs" for f m
      using that "3.prems"(4) stack_ok_above [OF below] by auto
  qed (use "3.prems" in auto)
  moreover have "\<forall>d \<in> set (succs g n). d \<in> V' \<or> Enter d \<in> A'"
  proof
    fix d
    assume "d \<in> set (succs g n)"
    then have "d \<in> V \<or> Enter d \<in> A" using "3.prems"(1) by simp
    then show "d \<in> V' \<or> Enter d \<in> A'" using "3.prems"(2,3) by blast
  qed
  ultimately show ?case using "3.prems"(4) by simp
qed simp

lemma stack_ok_push:
  "(\<And>m f. Leave m \<in> set fs \<Longrightarrow> f \<in> set es \<Longrightarrow> (m, frame_name f) \<in> (edges g)\<^sup>+) \<Longrightarrow>
   leaves es = [] \<Longrightarrow> stack_ok g V (A \<union> set es) fs \<Longrightarrow> stack_ok g V A (es @ fs)"
proof (induction es arbitrary: A)
  case (Cons e es)
  then obtain n where "e = Enter n" by (cases e) auto
  with Cons show ?case by simp
qed simp

text \<open>Popping a frame whose name is visited keeps the shape.\<close>

lemma stack_ok_skip: "stack_ok g V {} (Enter n # fs) \<Longrightarrow> n \<in> V \<Longrightarrow> stack_ok g V {} fs"
  by (auto elim!: stack_ok_mono)

lemma stack_ok_return: "stack_ok g V {} (Leave n # fs) \<Longrightarrow> stack_ok g V {} fs"
  by (auto elim!: stack_ok_mono)

text \<open>Making the call keeps it.\<close>

lemma stack_ok_call:
  assumes ok: "stack_ok g V {} (Enter n # fs)" and ns: "set ns \<subseteq> set (succs g n)"
    and rest: "\<And>d. d \<in> set (succs g n) \<Longrightarrow> d \<notin> set ns \<Longrightarrow> d \<in> insert n V"
  shows "stack_ok g (insert n V) {} (map Enter ns @ Leave n # fs)"
proof (rule stack_ok_push)
  have ok': "stack_ok g V {Enter n} fs" using ok by simp
  have up: "(m, n) \<in> (edges g)\<^sup>+" if "Leave m \<in> set fs" for m
    using stack_ok_above [OF ok' that, of "Enter n"] by simp
  have step: "(n, d) \<in> edges g" if "d \<in> set ns" for d
    using that ns by (auto simp: edges_iff)
  show "(m, frame_name f) \<in> (edges g)\<^sup>+"
    if "Leave m \<in> set (Leave n # fs)" "f \<in> set (map Enter ns)" for m f
    using that up step by (fastforce intro: trancl_into_trancl)
  have up2: "(m, d) \<in> (edges g)\<^sup>+" if "Leave m \<in> set fs" "d \<in> set ns" for m d
    using trancl_into_trancl [OF up [OF that(1)] step [OF that(2)]] .
  have "stack_ok g (insert n V) (insert (Leave n) (Enter ` set ns)) fs"
    by (rule stack_ok_mono [OF ok']) (use up up2 in auto)
  moreover have "\<forall>d \<in> set (succs g n). d \<in> insert n V \<or> Enter d \<in> Enter ` set ns"
    using rest by auto
  moreover have "\<forall>f \<in> Enter ` set ns. (n, frame_name f) \<in> (edges g)\<^sup>+"
    using step by auto
  ultimately show "stack_ok g (insert n V) ({} \<union> set (map Enter ns)) (Leave n # fs)"
    by simp
qed simp

text \<open>
  When a call returns, no successor is still active unless the graph has a cycle.
\<close>

lemma stack_ok_succs_done:
  assumes "stack_ok g V {} (Leave n # fs)" and "acyclic (edges g)"
    and "d \<in> set (succs g n)"
  shows "d \<in> V \<and> Leave d \<notin> set (Leave n # fs)"
proof -
  have "d \<in> V" using assms by simp
  moreover have "d \<noteq> n"
    using assms(2,3) by (metis acyclic_irrefl edges_iff irreflD r_into_trancl)
  moreover have False if "Leave d \<in> set fs"
  proof -
    have "stack_ok g V {Leave n} fs" using assms(1) by simp
    from stack_ok_above [OF this that, of "Leave n"] have "(d, n) \<in> (edges g)\<^sup>+" by simp
    moreover have "(n, d) \<in> edges g" using assms(3) by (simp add: edges_iff)
    ultimately have "(d, d) \<in> (edges g)\<^sup>+" by (rule trancl_into_trancl)
    with assms(2) show False by (simp add: acyclic_def)
  qed
  ultimately show ?thesis by auto
qed

text \<open>
  What holds whenever the postorder walk is at a stack \<open>fs\<close>: the visited names are those
  already appended and those of the active calls, none twice, and the result is closed
  under successors in order.
\<close>

definition post_inv :: "graph \<Rightarrow> frame list \<Rightarrow> name list \<Rightarrow> name list \<Rightarrow> bool" where
  "post_inv g fs visited res \<longleftrightarrow>
     set visited = set res \<union> set (leaves fs) \<and> distinct (res @ leaves fs) \<and>
     stack_ok g (set visited) {} fs \<and>
     (\<forall>x \<in> set res. \<forall>d \<in> set (succs g x). precedes res d x)"

lemma post_inv_skip:
  "post_inv g (Enter n # fs) visited res \<Longrightarrow> n \<in> set visited \<Longrightarrow> post_inv g fs visited res"
  unfolding post_inv_def by (metis leaves.simps(2) stack_ok_skip)

lemma post_inv_call:
  assumes "post_inv g (Enter n # fs) visited res" and "n \<notin> set visited"
  shows "post_inv g (map Enter (succs g n) @ Leave n # fs) (n # visited) res"
  using assms stack_ok_call [of g "set visited" n fs "succs g n"]
  unfolding post_inv_def by auto

lemma post_inv_return:
  assumes inv: "post_inv g (Leave n # fs) visited res" and ac: "acyclic (edges g)"
  shows "post_inv g fs visited (res @ [n])"
proof -
  have ok: "stack_ok g (set visited) {} (Leave n # fs)"
    using inv unfolding post_inv_def by blast
  have "d \<in> set res" if "d \<in> set (succs g n)" for d
    using stack_ok_succs_done [OF ok ac that] inv
    by (auto simp: post_inv_def leaves_iff)
  then have "precedes (res @ [n]) d n" if "d \<in> set (succs g n)" for d
    using that by (auto intro: precedes_snoc)
  then show ?thesis
    using inv stack_ok_return [OF ok] unfolding post_inv_def
    by (auto intro: precedes_append)
qed

lemma walk_post_inv:
  "acyclic (edges g) \<Longrightarrow> post_inv g fs visited res \<Longrightarrow>
   \<exists>vis. post_inv g [] vis (walk_post g fs visited res)"
proof (induction g fs visited res rule: walk_post.induct)
  case (2 g n fs visited res)
  then show ?case
    using post_inv_skip post_inv_call by (cases "n \<in> set visited") auto
qed (auto dest: post_inv_return)

lemma walk_post_mono: "set res \<union> set (leaves fs) \<subseteq> set (walk_post g fs visited res)"
  by (induction g fs visited res rule: walk_post.induct) auto

lemma walk_post_covers:
  "set visited \<subseteq> set res \<union> set (leaves fs) \<Longrightarrow>
   frame_name ` set fs \<subseteq> set (walk_post g fs visited res)"
proof (induction g fs visited res rule: walk_post.induct)
  case (2 g n fs visited res)
  show ?case
  proof (cases "n \<in> set visited")
    case True
    with 2 show ?thesis using walk_post_mono [of res fs g visited] by auto
  next
    case False
    with 2 have "frame_name ` set (map Enter (succs g n) @ Leave n # fs)
        \<subseteq> set (walk_post g (map Enter (succs g n) @ Leave n # fs) (n # visited) res)"
      by auto
    with False show ?thesis by auto
  qed
next
  case (3 g n fs visited res)
  then show ?case using walk_post_mono [of "res @ [n]" fs g visited] by auto
qed simp

lemma walk_post_sound:
  "x \<in> set (walk_post g fs visited res) \<Longrightarrow>
   x \<in> set res \<or> (\<exists>f \<in> set fs. (frame_name f, x) \<in> (edges g)\<^sup>*)"
proof (induction g fs visited res rule: walk_post.induct)
  case (2 g n fs visited res)
  have step: "(n, t) \<in> edges g" if "t \<in> set (succs g n)" for t
    using that by (simp add: edges_iff)
  have up: "(n, y) \<in> (edges g)\<^sup>*" if "t \<in> set (succs g n)" "(t, y) \<in> (edges g)\<^sup>*" for t y
    using converse_rtrancl_into_rtrancl [OF step [OF that(1)] that(2)] .
  show ?case
    using 2 up by (auto split: if_splits)
qed auto

lemma post_inv_start: "post_inv g (map Enter ns) [] []"
proof -
  have "stack_ok g V A (map Enter ns)" for V A
    by (induction ns arbitrary: A) auto
  then show ?thesis by (simp add: post_inv_def)
qed

text \<open>
  The postorder walk from \<open>ns\<close>: it collects the reachable names, each once, and in an
  acyclic graph each after its successors.
\<close>

lemma walk_post_correct:
  fixes g :: graph and ns :: "name list"
  assumes "acyclic (edges g)"
  defines "r \<equiv> walk_post g (map Enter ns) [] []"
  shows "set r = (edges g)\<^sup>* `` set ns" and "distinct r"
    and "(a, b) \<in> edges g \<Longrightarrow> a \<in> set r \<Longrightarrow> precedes r b a"
proof -
  obtain vis where inv: "post_inv g [] vis r"
    using walk_post_inv [OF assms(1) post_inv_start] unfolding r_def by blast
  show "distinct r" using inv by (simp add: post_inv_def)
  show ord: "precedes r b a" if "(a, b) \<in> edges g" "a \<in> set r" for a b
    using inv that by (simp add: post_inv_def edges_iff)
  have "b \<in> set r" if "(a, b) \<in> (edges g)\<^sup>*" "a \<in> set r" for a b
    using that by (induction) (auto dest!: ord precedes_mem)
  moreover have "set ns \<subseteq> set r"
    using walk_post_covers [of "[]" "[]" "map Enter ns" g] unfolding r_def by (simp add: image_image)
  ultimately show "set r = (edges g)\<^sup>* `` set ns"
    using walk_post_sound [of _ g "map Enter ns" "[]" "[]"] unfolding r_def by fastforce
qed

end
