(* ===== verification/Cycle.thy ===== *)
theory Cycle
  imports Walks
begin

text \<open>
  \<^verbatim>\<open>internal/starlark/cycle.go\<close>: the depth-first search that refuses a module graph
  with a dependency cycle. The recursion of \<^verbatim>\<open>visit\<close> is the frame stack of theory
  Walks; \<^verbatim>\<open>state\<close> and \<^verbatim>\<open>stack\<close> are the two captured variables. The theory shows
  that the search succeeds exactly on acyclic graphs, that a reported path is a cycle of
  the graph, and that the report does not depend on the iteration order of the map.
\<close>

section \<open>The search\<close>

datatype mark = Unvisited | Visiting | Visited

datatype CycleError = CycleError "name list"

text \<open>The sorted dependencies of a module that are themselves declared in the graph.\<close>

definition declared_deps :: "graph \<Rightarrow> name \<Rightarrow> name list" where
  "declared_deps graph node = filter (gm_has graph) (sort (succs graph node))"

text \<open>The reported path: the active calls from the first occurrence on, closed by the name.\<close>

definition cycle_path :: "name list \<Rightarrow> name \<Rightarrow> name list" where
  "cycle_path stack node =
     (if node \<in> set stack then dropWhile (\<lambda>n. n \<noteq> node) stack else stack) @ [node]"

function visit ::
  "graph \<Rightarrow> frame list \<Rightarrow> (name, mark) gomap \<Rightarrow> name list \<Rightarrow>
   CycleError + (name, mark) gomap \<times> name list" where
  "visit graph [] state stack = Inr (state, stack)"
| "visit graph (Enter node # fs) state stack =
     (case gm_get Unvisited state node of
        Visiting \<Rightarrow> Inl (CycleError (cycle_path stack node))
      | Visited \<Rightarrow> visit graph fs state stack
      | Unvisited \<Rightarrow>
          visit graph (map Enter (declared_deps graph node) @ Leave node # fs)
            (gm_put node Visiting state) (stack @ [node]))"
| "visit graph (Leave node # fs) state stack =
     visit graph fs (gm_put node Visited state) (butlast stack)"
  by pat_completeness auto

definition unmarked :: "graph \<Rightarrow> (name, mark) gomap \<Rightarrow> name set" where
  "unmarked graph state = {n \<in> set (gm_keys graph). gm_get Unvisited state n = Unvisited}"

lemma unmarked_put:
  "m \<noteq> Unvisited \<Longrightarrow> unmarked graph (gm_put n m state) = unmarked graph state - {n}"
  by (auto simp: unmarked_def)

lemma finite_unmarked [simp]: "finite (unmarked graph state)"
  by (simp add: unmarked_def)

termination visit
proof (relation "measures [\<lambda>(g, fs, st, stk). card (unmarked g st),
    \<lambda>(g, fs, st, stk). sum_list (map frame_weight fs)]", goal_cases)
  case (2 g n fs st stk)
  show ?case
  proof (cases "n \<in> set (gm_keys g)")
    case True
    with 2 have "n \<in> unmarked g st" by (simp add: unmarked_def)
    then have "card (unmarked g st - {n}) < card (unmarked g st)"
      by (intro psubset_card_mono) auto
    then show ?thesis by (simp add: unmarked_put)
  next
    case False
    then have "n \<notin> unmarked g st" by (simp add: unmarked_def)
    with False show ?thesis by (simp add: unmarked_put declared_deps_def succs_not_key)
  qed
next
  case (4 g n fs st stk)
  have "card (unmarked g st - {n}) \<le> card (unmarked g st)"
    by (rule card_mono) auto
  then show ?case by (auto simp: unmarked_put)
qed auto

fun visit_roots ::
  "graph \<Rightarrow> name list \<Rightarrow> (name, mark) gomap \<Rightarrow> name list \<Rightarrow> CycleError + unit" where
  "visit_roots graph [] state stack = Inr ()"
| "visit_roots graph (r # rs) state stack =
     (if gm_get Unvisited state r = Visited then visit_roots graph rs state stack
      else (case visit graph [Enter r] state stack of
              Inl err \<Rightarrow> Inl err
            | Inr (state', stack') \<Rightarrow> visit_roots graph rs state' stack'))"

definition DetectCycles :: "graph \<Rightarrow> CycleError + unit" where
  "DetectCycles graph = visit_roots graph (sort (gm_keys graph)) [] []"

section \<open>The invariant of the search\<close>

definition dep_edges :: "graph \<Rightarrow> (name \<times> name) set" where
  "dep_edges g = {(a, b). b \<in> set (succs g a) \<and> b \<in> set (gm_keys g)}"

lemma set_declared_deps: "b \<in> set (declared_deps g a) \<longleftrightarrow> (a, b) \<in> dep_edges g"
  by (auto simp: declared_deps_def dep_edges_def gm_has_iff)

text \<open>
  Read from the top with the names above in \<open>A\<close>: the successors of an active call are
  finished or still on the stack above it.
\<close>

fun pending_ok :: "graph \<Rightarrow> name set \<Rightarrow> name set \<Rightarrow> frame list \<Rightarrow> bool" where
  "pending_ok g D A [] = True"
| "pending_ok g D A (Enter n # fs) = pending_ok g D (insert n A) fs"
| "pending_ok g D A (Leave n # fs) =
     (set (declared_deps g n) \<subseteq> D \<union> A \<and> pending_ok g D (insert n A) fs)"

text \<open>Every frame is a successor of the innermost active call below it.\<close>

fun chain_ok :: "graph \<Rightarrow> frame list \<Rightarrow> bool" where
  "chain_ok g [] = True"
| "chain_ok g (f # fs) =
     ((case leaves fs of [] \<Rightarrow> True | m # _ \<Rightarrow> (m, frame_name f) \<in> dep_edges g) \<and> chain_ok g fs)"

lemma pending_ok_mono:
  "pending_ok g D A fs \<Longrightarrow> D \<union> A \<subseteq> D' \<union> A' \<Longrightarrow> pending_ok g D' A' fs"
proof (induction g D A fs arbitrary: A' rule: pending_ok.induct)
  case (2 g D A n fs)
  have "pending_ok g D' (insert n A') fs"
    by (rule "2.IH") (use "2.prems" in \<open>simp, blast\<close>)
  then show ?case by simp
next
  case (3 g D A n fs)
  have "pending_ok g D' (insert n A') fs"
    by (rule "3.IH") (use "3.prems" in \<open>simp, blast\<close>)
  moreover have "set (declared_deps g n) \<subseteq> D' \<union> A'"
    using "3.prems" by (simp, blast)
  ultimately show ?case by simp
qed simp

lemma pending_ok_push:
  "pending_ok g D A (map Enter ns @ fs) = pending_ok g D (A \<union> set ns) fs"
  by (induction ns arbitrary: A) auto

lemma chain_ok_push:
  "chain_ok g (map Enter ns @ Leave n # fs) \<longleftrightarrow>
   (\<forall>d \<in> set ns. (n, d) \<in> dep_edges g) \<and> chain_ok g (Leave n # fs)"
  by (induction ns) auto

lemma chain_ok_leaves:
  "chain_ok g fs \<Longrightarrow> leaves fs = xs @ b # a # ys \<Longrightarrow> (a, b) \<in> dep_edges g"
proof (induction fs arbitrary: xs)
  case (Cons f fs)
  then show ?case by (cases f; cases xs) auto
qed simp

definition finished :: "(name, mark) gomap \<Rightarrow> name set" where
  "finished st = {n. gm_get Unvisited st n = Visited}"

definition visit_inv ::
  "graph \<Rightarrow> frame list \<Rightarrow> (name, mark) gomap \<Rightarrow> name list \<Rightarrow> name list \<Rightarrow> bool" where
  "visit_inv g fs st stk ord \<longleftrightarrow>
     stk = rev (leaves fs) \<and> distinct stk \<and>
     (\<forall>n. gm_get Unvisited st n = Visiting \<longleftrightarrow> n \<in> set stk) \<and>
     set ord = finished st \<and> distinct ord \<and>
     (\<forall>x \<in> set ord. \<forall>d. (x, d) \<in> dep_edges g \<longrightarrow> precedes ord d x) \<and>
     pending_ok g (finished st) {} fs \<and> chain_ok g fs"

lemma visit_inv_skip:
  assumes "visit_inv g (Enter n # fs) st stk ord" and "gm_get Unvisited st n = Visited"
  shows "visit_inv g fs st stk ord"
proof -
  have "pending_ok g (finished st) {} fs"
    by (rule pending_ok_mono [of g "finished st" "{n}"])
      (use assms in \<open>auto simp: visit_inv_def finished_def\<close>)
  with assms show ?thesis by (auto simp: visit_inv_def)
qed

lemma visit_inv_call:
  assumes inv: "visit_inv g (Enter n # fs) st stk ord" and new: "gm_get Unvisited st n = Unvisited"
  shows "visit_inv g (map Enter (declared_deps g n) @ Leave n # fs) (gm_put n Visiting st) (stk @ [n]) ord"
proof -
  have same: "finished (gm_put n Visiting st) = finished st"
    using new by (auto simp: finished_def)
  have "pending_ok g (finished st) (insert n (set (declared_deps g n))) fs"
    by (rule pending_ok_mono [of g "finished st" "{n}"]) (use inv in \<open>auto simp: visit_inv_def\<close>)
  then have "pending_ok g (finished st) {} (map Enter (declared_deps g n) @ Leave n # fs)"
    by (simp add: pending_ok_push)
  moreover have "chain_ok g (map Enter (declared_deps g n) @ Leave n # fs)"
    using inv by (simp add: chain_ok_push set_declared_deps visit_inv_def split: list.splits)
  moreover have "n \<notin> set stk"
    using inv new by (metis mark.distinct(1) visit_inv_def)
  ultimately show ?thesis
    using inv unfolding visit_inv_def same by auto
qed

lemma visit_inv_return:
  assumes inv: "visit_inv g (Leave n # fs) st stk ord"
  shows "visit_inv g fs (gm_put n Visited st) (butlast stk) (ord @ [n])"
proof -
  have same: "finished (gm_put n Visited st) = insert n (finished st)"
    by (auto simp: finished_def)
  have n: "n \<in> set stk" "stk = rev (leaves fs) @ [n]" "n \<notin> set (leaves fs)"
    using inv by (auto simp: visit_inv_def)
  then have "gm_get Unvisited st n = Visiting"
    using inv unfolding visit_inv_def by blast
  then have "n \<notin> finished st" by (simp add: finished_def)
  then have "n \<notin> set ord"
    using inv by (simp add: visit_inv_def)
  have "precedes (ord @ [n]) d x" if "x \<in> set (ord @ [n])" "(x, d) \<in> dep_edges g" for x d
  proof (cases "x \<in> set ord")
    case True
    with inv that show ?thesis by (auto simp: visit_inv_def intro: precedes_append)
  next
    case False
    with that have "x = n" by simp
    moreover have "d \<in> set ord"
      using that(2) inv \<open>x = n\<close> by (auto simp: visit_inv_def set_declared_deps subset_iff)
    ultimately show ?thesis by (simp add: precedes_snoc)
  qed
  moreover have "pending_ok g (insert n (finished st)) {} fs"
    by (rule pending_ok_mono [of g "finished st" "{n}"]) (use inv in \<open>auto simp: visit_inv_def\<close>)
  ultimately show ?thesis
    using inv n \<open>n \<notin> set ord\<close> unfolding visit_inv_def same by auto
qed

section \<open>What the search returns\<close>

text \<open>A closed walk along declared dependencies: \<^verbatim>\<open>A \<rightarrow> B \<rightarrow> C \<rightarrow> A\<close>.\<close>

definition is_cycle :: "graph \<Rightarrow> name list \<Rightarrow> bool" where
  "is_cycle g p \<longleftrightarrow> 2 \<le> length p \<and> hd p = last p \<and>
     (\<forall>i. Suc i < length p \<longrightarrow> p ! Suc i \<in> set (succs g (p ! i)) \<and> p ! Suc i \<in> set (gm_keys g))"

lemma is_cycle_dep_edges:
  "is_cycle g p \<longleftrightarrow> 2 \<le> length p \<and> hd p = last p \<and>
     (\<forall>i. Suc i < length p \<longrightarrow> (p ! i, p ! Suc i) \<in> dep_edges g)"
  by (simp add: is_cycle_def dep_edges_def)

lemma cycle_path_is_cycle:
  assumes inv: "visit_inv g (Enter n # fs) st stk ord" and mk: "gm_get Unvisited st n = Visiting"
  shows "is_cycle g (cycle_path stk n)"
proof -
  have mem: "n \<in> set stk" using inv mk by (simp add: visit_inv_def)
  then obtain us vs where stk: "stk = us @ n # vs" "n \<notin> set us"
    by (meson split_list_first)
  moreover have "dropWhile (\<lambda>x. x \<noteq> n) (us @ n # vs) = n # vs"
    using stk(2) by (induction us) auto
  ultimately have path: "cycle_path stk n = n # vs @ [n]"
    by (simp add: cycle_path_def)
  have chain: "chain_ok g (Enter n # fs)" and lv: "leaves fs = rev stk"
    using inv by (auto simp: visit_inv_def)
  have "(p ! i, p ! Suc i) \<in> dep_edges g" if p: "p = n # vs @ [n]" and i: "Suc i < length p" for p i
  proof (cases "Suc i < length (n # vs)")
    case True
    then have "\<exists>xs ys. n # vs = xs @ (n # vs) ! i # (n # vs) ! Suc i # ys"
      by (metis Cons_nth_drop_Suc Suc_lessD append_take_drop_id)
    then obtain xs ys where "n # vs = xs @ (n # vs) ! i # (n # vs) ! Suc i # ys" by blast
    then have "leaves fs = rev ys @ (n # vs) ! Suc i # (n # vs) ! i # rev (us @ xs)"
      using lv stk(1) by (metis append.assoc append_Cons append_Nil rev.simps(2) rev_append)
    then have "((n # vs) ! i, (n # vs) ! Suc i) \<in> dep_edges g"
      using chain_ok_leaves [of g fs] chain by simp
    moreover have "p ! i = (n # vs) ! i" "p ! Suc i = (n # vs) ! Suc i"
      using True unfolding p by (simp_all add: nth_append nth_Cons split: nat.splits)
    ultimately show ?thesis by simp
  next
    case False
    with i p have "i = length vs" by simp
    then have "p ! Suc i = n" "p ! i = last (n # vs)"
      unfolding p by (simp_all add: nth_append last_conv_nth nth_Cons split: nat.splits)
    moreover have "hd (leaves fs) = last (n # vs)" "leaves fs \<noteq> []"
      using lv stk(1) by (simp_all add: hd_rev)
    ultimately show ?thesis using chain by (cases "leaves fs") auto
  qed
  then show ?thesis by (simp add: is_cycle_dep_edges path)
qed

text \<open>One call from the top level keeps the invariant or reports a cycle.\<close>

lemma visit_correct:
  "visit_inv g fs st stk ord \<Longrightarrow>
   case visit g fs st stk of
     Inl (CycleError p) \<Rightarrow> is_cycle g p
   | Inr (st', stk') \<Rightarrow> (\<exists>ord'. visit_inv g [] st' stk' ord')"
proof (induction g fs st stk arbitrary: ord rule: visit.induct)
  case (2 g n fs st stk)
  then show ?case
    by (cases "gm_get Unvisited st n")
      (auto intro: cycle_path_is_cycle visit_inv_skip visit_inv_call)
next
  case (3 g n fs st stk)
  show ?case using "3.IH" [OF visit_inv_return [OF "3.prems"]] by simp
qed auto

lemma visit_mono: "visit g fs st stk = Inr (st', stk') \<Longrightarrow> finished st \<subseteq> finished st'"
proof (induction g fs st stk rule: visit.induct)
  case (2 g n fs st stk)
  have "gm_get Unvisited st n = Unvisited \<Longrightarrow> finished (gm_put n Visiting st) = finished st"
    by (auto simp: finished_def)
  with 2 show ?case by (auto split: mark.splits)
next
  case (3 g n fs st stk)
  then show ?case by (auto simp: finished_def)
qed simp

lemma visit_covers:
  "visit g fs st stk = Inr (st', stk') \<Longrightarrow> frame_name ` set fs \<subseteq> finished st'"
proof (induction g fs st stk rule: visit.induct)
  case (2 g n fs st stk)
  then show ?case
    using visit_mono [of g fs st stk st' stk'] by (auto split: mark.splits simp: finished_def)
next
  case (3 g n fs st stk)
  then show ?case
    using visit_mono [of g fs "gm_put n Visited st" "butlast stk" st' stk'] by (auto simp: finished_def)
qed simp

lemma is_cycle_not_acyclic: "is_cycle g p \<Longrightarrow> \<not> acyclic (dep_edges g)"
proof -
  assume cyc: "is_cycle g p"
  have "(hd p, p ! i) \<in> (dep_edges g)\<^sup>+" if "0 < i" "i < length p" for i
    using that
  proof (induction i)
    case (Suc i)
    then have "(p ! i, p ! Suc i) \<in> dep_edges g" using cyc by (simp add: is_cycle_dep_edges)
    with Suc show ?case
      by (cases "i = 0"; cases p) (auto intro: trancl_into_trancl)
  qed simp
  moreover have "0 < length p - 1" "length p - 1 < length p"
    using cyc by (auto simp: is_cycle_def)
  ultimately have "(hd p, p ! (length p - 1)) \<in> (dep_edges g)\<^sup>+" by blast
  moreover have "p ! (length p - 1) = hd p"
    using cyc last_conv_nth [of p] unfolding is_cycle_def by fastforce
  ultimately have "(hd p, hd p) \<in> (dep_edges g)\<^sup>+" by simp
  then show ?thesis by (auto simp: acyclic_def)
qed

lemma visit_roots_correct:
  "visit_inv g [] st stk ord \<Longrightarrow> set (gm_keys g) \<subseteq> finished st \<union> set rs \<Longrightarrow>
   case visit_roots g rs st stk of
     Inl (CycleError p) \<Rightarrow> is_cycle g p
   | Inr _ \<Rightarrow> acyclic (dep_edges g)"
proof (induction g rs st stk arbitrary: ord rule: visit_roots.induct)
  case (1 g st stk)
  have "precedes ord b a" if "(a, b) \<in> dep_edges g" for a b
  proof -
    have "a \<in> set ord" using 1 that succs_key [of b g a] by (auto simp: visit_inv_def dep_edges_def)
    with 1 that show ?thesis by (auto simp: visit_inv_def)
  qed
  then show ?case using 1 precedes_acyclic [of ord] by (auto simp: visit_inv_def)
next
  case (2 g r rs st stk)
  have start: "visit_inv g [Enter r] st stk ord"
    using "2.prems"(1) by (simp add: visit_inv_def)
  show ?case
  proof (cases "gm_get Unvisited st r = Visited")
    case True
    with 2 show ?thesis by (auto simp: finished_def)
  next
    case False
    show ?thesis
    proof (cases "visit g [Enter r] st stk")
      case (Inl e)
      with False visit_correct [OF start] show ?thesis by (simp split: CycleError.splits)
    next
      case (Inr res)
      obtain st' stk' where res: "res = (st', stk')" by (cases res)
      obtain ord' where inv: "visit_inv g [] st' stk' ord'"
        using visit_correct [OF start] Inr res by auto
      have "set (gm_keys g) \<subseteq> finished st' \<union> set rs"
        using "2.prems"(2) visit_covers [of g "[Enter r]" st stk st' stk']
          visit_mono [of g "[Enter r]" st stk st' stk'] Inr res by auto
      from "2.IH"(2) [OF False Inr res [symmetric] inv this] False Inr res show ?thesis by simp
    qed
  qed
qed

lemma visit_inv_init: "visit_inv g [] [] [] []"
  by (auto simp: visit_inv_def finished_def)

lemma DetectCycles_cases:
  "case DetectCycles g of Inl (CycleError p) \<Rightarrow> is_cycle g p | Inr _ \<Rightarrow> acyclic (dep_edges g)"
  unfolding DetectCycles_def by (rule visit_roots_correct [OF visit_inv_init]) simp

lemma visit_cong:
  "succs g = succs g' \<Longrightarrow> gm_has g = gm_has g' \<Longrightarrow> visit g fs st stk = visit g' fs st stk"
  by (induction g fs st stk rule: visit.induct) (auto simp: declared_deps_def split: mark.splits)

lemma visit_roots_cong:
  "succs g = succs g' \<Longrightarrow> gm_has g = gm_has g' \<Longrightarrow> visit_roots g rs st stk = visit_roots g' rs st stk"
proof (induction g rs st stk rule: visit_roots.induct)
  case (2 g r rs st stk)
  have same: "visit g [Enter r] st stk = visit g' [Enter r] st stk"
    using "2.prems" by (rule visit_cong)
  show ?case
    using 2 unfolding visit_roots.simps same by (auto simp del: visit.simps split: sum.split)
qed simp

section \<open>Properties\<close>

text \<open>
  C35. The search succeeds exactly when the graph of declared dependencies has no cycle.
\<close>

theorem DetectCycles_iff_acyclic: "DetectCycles g = Inr () \<longleftrightarrow> acyclic (dep_edges g)"
proof (cases "DetectCycles g")
  case (Inl e)
  then show ?thesis
    using DetectCycles_cases [of g] is_cycle_not_acyclic by (cases e) auto
next
  case (Inr u)
  then show ?thesis using DetectCycles_cases [of g] by simp
qed

text \<open>
  The path of a reported error is a cycle of the graph: at least one step, closed by
  the repeated name, every step a declared dependency.
\<close>

theorem DetectCycles_path:
  assumes "DetectCycles g = Inl (CycleError p)"
  shows "is_cycle g p"
  using DetectCycles_cases [of g] assms by simp

theorem DetectCycles_path_witness:
  "is_cycle [(''b'', [''c'']), (''a'', [''zz'', ''b'']), (''c'', [''b''])] [''b'', ''c'', ''b'']"
  by (rule DetectCycles_path)
    (simp add: DetectCycles_def declared_deps_def succs_def cycle_path_def gm_has_def)

text \<open>The answer, the reported path included, does not depend on the iteration order of
  the map.
\<close>

theorem DetectCycles_deterministic:
  assumes "gm_ok g" and "mset g = mset g'"
  shows "DetectCycles g = DetectCycles g'"
proof -
  have "gm_has g = gm_has g'"
    using map_of_perm [OF assms] by (auto simp: gm_has_def)
  moreover have "sort (gm_keys g) = sort (gm_keys g')"
    using keys_perm [OF assms(2)] by (rule sort_mset_cong)
  ultimately show ?thesis
    using visit_roots_cong [OF succs_perm [OF assms]] by (simp add: DetectCycles_def)
qed

theorem DetectCycles_deterministic_witness:
  "DetectCycles [(''b'', [''a'']), (''a'', [''b''])] = DetectCycles [(''a'', [''b'']), (''b'', [''a''])]"
  by (rule DetectCycles_deterministic) simp_all

end
