(* ===== verification/GoStrings.thy ===== *)
theory GoStrings
  imports Prelude
begin

text \<open>
  The functions of Go's \<^verbatim>\<open>strings\<close>, \<^verbatim>\<open>strconv\<close> and \<^verbatim>\<open>fmt\<close> packages that the modelled
  sources call, on byte strings. Names and metadata are taken to be ASCII where the
  library is rune-based (\<^verbatim>\<open>ToLower\<close>, \<^verbatim>\<open>TrimSpace\<close>, \<^verbatim>\<open>%q\<close>).
\<close>

section \<open>Prefixes, suffixes and search\<close>

definition HasPrefix :: "string \<Rightarrow> string \<Rightarrow> bool" where
  "HasPrefix s p \<longleftrightarrow> take (length p) s = p"

definition HasSuffix :: "string \<Rightarrow> string \<Rightarrow> bool" where
  "HasSuffix s p \<longleftrightarrow> length p \<le> length s \<and> drop (length s - length p) s = p"

definition TrimPrefix :: "string \<Rightarrow> string \<Rightarrow> string" where
  "TrimPrefix s p = (if HasPrefix s p then drop (length p) s else s)"

definition TrimSuffix :: "string \<Rightarrow> string \<Rightarrow> string" where
  "TrimSuffix s p = (if HasSuffix s p then take (length s - length p) s else s)"

text \<open>\<^verbatim>\<open>strings.Index\<close>, with \<^const>\<open>None\<close> for -1.\<close>

fun Index :: "string \<Rightarrow> string \<Rightarrow> nat option" where
  "Index [] sub = (if sub = [] then Some 0 else None)"
| "Index (c # s) sub =
     (if HasPrefix (c # s) sub then Some 0 else map_option Suc (Index s sub))"

definition Contains :: "string \<Rightarrow> string \<Rightarrow> bool" where
  "Contains s sub \<longleftrightarrow> Index s sub \<noteq> None"

text \<open>\<^verbatim>\<open>strings.IndexByte\<close> and \<^verbatim>\<open>strings.LastIndexByte\<close>.\<close>

fun IndexByte :: "string \<Rightarrow> char \<Rightarrow> nat option" where
  "IndexByte [] c = None"
| "IndexByte (x # s) c = (if x = c then Some 0 else map_option Suc (IndexByte s c))"

fun LastIndexByte :: "string \<Rightarrow> char \<Rightarrow> nat option" where
  "LastIndexByte [] c = None"
| "LastIndexByte (x # s) c =
     (case LastIndexByte s c of
        Some i \<Rightarrow> Some (Suc i)
      | None \<Rightarrow> if x = c then Some 0 else None)"

lemma HasPrefix_append [simp]: "HasPrefix (p @ s) p"
  by (simp add: HasPrefix_def)

lemma HasPrefix_iff: "HasPrefix s p \<longleftrightarrow> (\<exists>t. s = p @ t)"
  unfolding HasPrefix_def by (metis append_eq_conv_conj append_take_drop_id)

lemma HasSuffix_append [simp]: "HasSuffix (s @ p) p"
  by (simp add: HasSuffix_def)

lemma HasSuffix_iff: "HasSuffix s p \<longleftrightarrow> (\<exists>t. s = t @ p)"
  unfolding HasSuffix_def by (metis append_take_drop_id diff_add_inverse2 append_eq_conv_conj le_add2 length_append)

lemma TrimPrefix_append [simp]: "TrimPrefix (p @ s) p = s"
  by (simp add: TrimPrefix_def)

lemma TrimSuffix_append [simp]: "TrimSuffix (s @ p) p = s"
  by (simp add: TrimSuffix_def)

lemma IndexByte_None: "IndexByte s c = None \<longleftrightarrow> c \<notin> set s"
  by (induction s c rule: IndexByte.induct) auto

lemma IndexByte_Some:
  "IndexByte s c = Some i \<Longrightarrow> i < length s \<and> s ! i = c \<and> c \<notin> set (take i s)"
  by (induction s c arbitrary: i rule: IndexByte.induct) (auto split: if_splits)

lemma IndexByte_append: "c \<notin> set s \<Longrightarrow> IndexByte (s @ c # t) c = Some (length s)"
  by (induction s) auto

lemma LastIndexByte_None: "LastIndexByte s c = None \<longleftrightarrow> c \<notin> set s"
  by (induction s c rule: LastIndexByte.induct) (auto split: option.splits)

lemma LastIndexByte_append: "c \<notin> set t \<Longrightarrow> LastIndexByte (s @ c # t) c = Some (length s)"
proof (induction s)
  case Nil
  then show ?case using LastIndexByte_None [of t c] by simp
qed simp

lemma LastIndexByte_Some:
  "LastIndexByte s c = Some i \<Longrightarrow> i < length s \<and> s ! i = c \<and> c \<notin> set (drop (Suc i) s)"
proof (induction s c arbitrary: i rule: LastIndexByte.induct)
  case (2 x s c)
  then show ?case using LastIndexByte_None [of s c] by (auto split: option.splits if_splits)
qed simp

section \<open>Splitting and joining\<close>

fun Join :: "string list \<Rightarrow> string \<Rightarrow> string" where
  "Join [] sep = []"
| "Join [x] sep = x"
| "Join (x # y # xs) sep = x @ sep @ Join (y # xs) sep"

text \<open>\<^verbatim>\<open>strings.Split\<close> at a separator of one byte.\<close>

fun Split :: "string \<Rightarrow> char \<Rightarrow> string list" where
  "Split [] c = [[]]"
| "Split (x # s) c =
     (if x = c then [] # Split s c
      else (case Split s c of [] \<Rightarrow> [[x]] | w # ws \<Rightarrow> (x # w) # ws))"

definition isSpace :: "char \<Rightarrow> bool" where
  "isSpace c \<longleftrightarrow> c = CHR '' '' \<or> (9 \<le> (of_char c :: nat) \<and> (of_char c :: nat) \<le> 13)"

definition TrimSpace :: "string \<Rightarrow> string" where
  "TrimSpace s = rev (dropWhile isSpace (rev (dropWhile isSpace s)))"

text \<open>\<^verbatim>\<open>strings.Fields\<close>: the maximal runs of bytes that are not spaces.\<close>

fun fields_aux :: "string \<Rightarrow> string \<Rightarrow> string list" where
  "fields_aux cur [] = (if cur = [] then [] else [cur])"
| "fields_aux cur (c # s) =
     (if isSpace c then (if cur = [] then fields_aux [] s else cur # fields_aux [] s)
      else fields_aux (cur @ [c]) s)"

definition Fields :: "string \<Rightarrow> string list" where
  "Fields s = fields_aux [] s"

lemma Split_not_Nil [simp]: "Split s c \<noteq> []"
  by (cases s) (auto split: list.splits)

lemma Split_no_sep: "c \<notin> set s \<Longrightarrow> Split s c = [s]"
  by (induction s) auto

lemma Split_append: "c \<notin> set s \<Longrightarrow> Split (s @ c # t) c = s # Split t c"
  by (induction s) auto

lemma Split_elems: "w \<in> set (Split s c) \<Longrightarrow> c \<notin> set w"
proof (induction s arbitrary: w)
  case (Cons x s)
  then show ?case by (cases "Split s c") (auto split: if_splits)
qed simp

lemma Join_Split: "Join (Split s c) [c] = s"
proof (induction s)
  case (Cons x s)
  show ?case
  proof (cases "Split s c")
    case (Cons w ws)
    with \<open>Join (Split s c) [c] = s\<close> show ?thesis by (cases ws) auto
  qed simp
qed simp

lemma Split_Join:
  "xs \<noteq> [] \<Longrightarrow> \<forall>x \<in> set xs. c \<notin> set x \<Longrightarrow> Split (Join xs [c]) c = xs"
proof (induction xs "[c]" rule: Join.induct)
  case (2 x)
  then show ?case by (simp add: Split_no_sep)
next
  case (3 x y xs)
  then show ?case using Split_append [of c x "Join (y # xs) [c]"] by simp
qed simp

lemma Join_append:
  "xs \<noteq> [] \<Longrightarrow> ys \<noteq> [] \<Longrightarrow> Join (xs @ ys) sep = Join xs sep @ sep @ Join ys sep"
proof (induction xs sep rule: Join.induct)
  case (2 x sep)
  then show ?case by (cases ys) auto
qed auto

lemma fields_aux_no_space:
  "w \<in> set (fields_aux cur s) \<Longrightarrow> \<forall>c \<in> set cur. \<not> isSpace c \<Longrightarrow>
   w \<noteq> [] \<and> (\<forall>c \<in> set w. \<not> isSpace c)"
proof (induction s arbitrary: cur)
  case (Cons c s)
  show ?case
  proof (cases "isSpace c")
    case True
    with Cons.prems consider "w = cur" "cur \<noteq> []" | "w \<in> set (fields_aux [] s)"
      by (cases "cur = []") (simp, simp, blast)
    then show ?thesis
    proof cases
      case 2
      then show ?thesis by (rule Cons.IH) simp
    qed (use Cons.prems(2) in simp)
  next
    case False
    with Cons.prems(1) have "w \<in> set (fields_aux (cur @ [c]) s)" by simp
    then show ?thesis by (rule Cons.IH) (use False Cons.prems(2) in auto)
  qed
qed (simp split: if_splits)

text \<open>Words that survive joining with blanks and splitting.\<close>

abbreviation plain :: "string \<Rightarrow> bool" where
  "plain s \<equiv> s \<noteq> [] \<and> (\<forall>c \<in> set s. \<not> isSpace c)"

lemma Fields_aux_word: "\<forall>c \<in> set w. \<not> isSpace c \<Longrightarrow> fields_aux cur (w @ s) = fields_aux (cur @ w) s"
  by (induction w arbitrary: cur) auto

lemma Fields_Join:
  "\<forall>w \<in> set ws. plain w \<Longrightarrow> Fields (Join ws '' '') = ws"
proof (induction ws "'' ''" rule: Join.induct)
  case (2 x)
  then show ?case using Fields_aux_word [of x "[]" "[]"] by (simp add: Fields_def)
next
  case (3 x y xs)
  have "Fields (Join (x # y # xs) '' '') = x # Fields (Join (y # xs) '' '')"
    using 3 Fields_aux_word [of x "[]" "'' '' @ Join (y # xs) '' ''"] by (simp add: Fields_def isSpace_def)
  with 3 show ?case by simp
qed (simp add: Fields_def)

lemma Fields_plain: "w \<in> set (Fields s) \<Longrightarrow> plain w"
  using fields_aux_no_space [of w "[]" s] by (simp add: Fields_def)

lemma isSpace_nat: "isSpace c \<longleftrightarrow> (of_char c :: nat) = 32 \<or> (9 \<le> (of_char c :: nat) \<and> (of_char c :: nat) \<le> 13)"
proof -
  have "c = CHR '' '' \<longleftrightarrow> (of_char c :: nat) = of_char (CHR '' '')" by (simp only: of_char_eq_iff)
  then show ?thesis by (simp add: isSpace_def)
qed

section \<open>Formatting\<close>

definition digit_char :: "nat \<Rightarrow> char" where
  "digit_char d = char_of (48 + d)"

fun nat_digits :: "nat \<Rightarrow> string" where
  "nat_digits n = (if n < 10 then [digit_char n] else nat_digits (n div 10) @ [digit_char (n mod 10)])"

declare nat_digits.simps [simp del]

text \<open>\<^verbatim>\<open>%d\<close> and \<^verbatim>\<open>strconv.Itoa\<close>.\<close>

definition Itoa :: "int \<Rightarrow> string" where
  "Itoa i = (if i < 0 then ''-'' @ nat_digits (nat (- i)) else nat_digits (nat i))"

definition isDigit :: "char \<Rightarrow> bool" where
  "isDigit c \<longleftrightarrow> 48 \<le> (of_char c :: nat) \<and> (of_char c :: nat) \<le> 57"

definition digit_val :: "char \<Rightarrow> nat" where
  "digit_val c = of_char c - 48"

text \<open>The value of a string of digits, most significant first.\<close>

definition digits_val :: "string \<Rightarrow> nat" where
  "digits_val s = foldl (\<lambda>n c. 10 * n + digit_val c) 0 s"

lemma digit_char_inverse [simp]: "d < 10 \<Longrightarrow> digit_val (digit_char d) = d"
  by (simp add: digit_val_def digit_char_def)

lemma isDigit_digit_char [simp]: "d < 10 \<Longrightarrow> isDigit (digit_char d)"
  by (simp add: isDigit_def digit_char_def)

lemma nat_digits_digits: "c \<in> set (nat_digits n) \<Longrightarrow> isDigit c"
proof (induction n rule: nat_digits.induct)
  case (1 n)
  then show ?case by (subst (asm) (2) nat_digits.simps) (auto split: if_splits)
qed

lemma nat_digits_not_Nil [simp]: "nat_digits n \<noteq> []"
  by (subst nat_digits.simps) simp

lemma digits_val_nat_digits [simp]: "digits_val (nat_digits n) = n"
proof (induction n rule: nat_digits.induct)
  case (1 n)
  show ?case
  proof (cases "n < 10")
    case True
    then show ?thesis by (subst nat_digits.simps) (simp add: digits_val_def)
  next
    case False
    with 1 show ?thesis by (subst nat_digits.simps) (simp add: digits_val_def)
  qed
qed

lemma nat_digits_inj: "nat_digits m = nat_digits n \<Longrightarrow> m = n"
  by (metis digits_val_nat_digits)

text \<open>\<^verbatim>\<open>%q\<close> on ASCII strings.\<close>

definition hex_char :: "nat \<Rightarrow> char" where
  "hex_char d = (if d < 10 then char_of (48 + d) else char_of (87 + d))"

text \<open>\<^verbatim>\<open>%x\<close> on a byte slice and \<^verbatim>\<open>%o\<close> on an integer.\<close>

definition byte_hex :: "char \<Rightarrow> string" where
  "byte_hex c = (let n = (of_char c :: nat) in [hex_char (n div 16), hex_char (n mod 16)])"

definition hex :: "string \<Rightarrow> string" where
  "hex s = concat (map byte_hex s)"

text \<open>The same by nibbles, for evaluation.\<close>

definition nibble :: "bool \<Rightarrow> bool \<Rightarrow> bool \<Rightarrow> bool \<Rightarrow> char" where
  "nibble b3 b2 b1 b0 =
     (if b3
      then (if b2 then (if b1 then (if b0 then CHR ''f'' else CHR ''e'') else (if b0 then CHR ''d'' else CHR ''c'')) else (if b1 then (if b0 then CHR ''b'' else CHR ''a'') else (if b0 then CHR ''9'' else CHR ''8'')))
      else (if b2 then (if b1 then (if b0 then CHR ''7'' else CHR ''6'') else (if b0 then CHR ''5'' else CHR ''4'')) else (if b1 then (if b0 then CHR ''3'' else CHR ''2'') else (if b0 then CHR ''1'' else CHR ''0''))))"

lemma hex_char_nibble: "hex_char (of_bool b0 + 2 * of_bool b1 + 4 * of_bool b2 + 8 * of_bool b3) = nibble b3 b2 b1 b0"
  by (cases b0; cases b1; cases b2; cases b3) (simp_all add: nibble_def hex_char_def char_of_eq_iff)

lemma byte_hex_code [code]: "byte_hex (Char b0 b1 b2 b3 b4 b5 b6 b7) = [nibble b7 b6 b5 b4, nibble b3 b2 b1 b0]"
proof -
  let ?lo = "of_bool b0 + 2 * of_bool b1 + 4 * of_bool b2 + 8 * of_bool b3 :: nat"
  let ?hi = "of_bool b4 + 2 * of_bool b5 + 4 * of_bool b6 + 8 * of_bool b7 :: nat"
  have n: "(of_char (Char b0 b1 b2 b3 b4 b5 b6 b7) :: nat) = ?lo + 16 * ?hi" by (simp add: of_char_def horner_sum_simps)
  have gen: "(l + 16 * h) div 16 = h" "(l + 16 * h) mod 16 = l" if "l < 16" for l h :: nat using that by simp_all
  have "?lo < 16" by (cases b0; cases b1; cases b2; cases b3) simp_all
  then have "(?lo + 16 * ?hi) div 16 = ?hi" "(?lo + 16 * ?hi) mod 16 = ?lo" by (rule gen)+
  then show ?thesis unfolding byte_hex_def n Let_def by (simp only: hex_char_nibble)
qed

fun oct_digits :: "nat \<Rightarrow> string" where
  "oct_digits n = (if n < 8 then [digit_char n] else oct_digits (n div 8) @ [digit_char (n mod 8)])"

declare oct_digits.simps [simp del]

definition octal :: "int \<Rightarrow> string" where
  "octal i = (if i < 0 then ''-'' @ oct_digits (nat (- i)) else oct_digits (nat i))"

definition bool_str :: "bool \<Rightarrow> string" where
  "bool_str b = (if b then ''true'' else ''false'')"

lemma hex_char_inj: "m < 16 \<Longrightarrow> n < 16 \<Longrightarrow> hex_char m = hex_char n \<Longrightarrow> m = n"
proof -
  have val: "(of_char (hex_char k) :: nat) = (if k < 10 then 48 + k else 87 + k)" if "k < 16" for k
    using that by (simp add: hex_char_def)
  assume b: "m < 16" "n < 16" "hex_char m = hex_char n"
  have "(if m < 10 then 48 + m else 87 + m) = (if n < 10 then 48 + n else 87 + n)"
    unfolding val [OF b(1), symmetric] val [OF b(2), symmetric] b(3) ..
  with b(1,2) show "m = n" by presburger
qed

lemma byte_hex_inj: "byte_hex c = byte_hex d \<Longrightarrow> c = d"
proof -
  assume eq: "byte_hex c = byte_hex d"
  let ?c = "of_char c :: nat" and ?d = "of_char d :: nat"
  have b: "?c < 256" "?d < 256" by simp_all
  then have "?c div 16 = ?d div 16" "?c mod 16 = ?d mod 16"
    using eq by (auto simp: byte_hex_def Let_def less_mult_imp_div_less intro: hex_char_inj)
  then have "?c = ?d" by (metis div_mult_mod_eq)
  then show ?thesis by simp
qed

lemma hex_inj: "hex s = hex t \<Longrightarrow> s = t"
proof (induction s arbitrary: t)
  case Nil
  then show ?case by (cases t) (auto simp: hex_def byte_hex_def Let_def)
next
  case (Cons a s)
  then obtain b t' where t: "t = b # t'" by (cases t) (auto simp: hex_def byte_hex_def Let_def)
  have "length (byte_hex a) = length (byte_hex b)" by (simp add: byte_hex_def Let_def)
  then have "byte_hex a = byte_hex b" "hex s = hex t'"
    using Cons.prems unfolding t hex_def by simp_all
  with Cons.IH byte_hex_inj t show ?case by blast
qed

lemma length_hex [simp]: "length (hex s) = 2 * length s"
  by (induction s) (auto simp: hex_def byte_hex_def Let_def)

definition quote_char :: "char \<Rightarrow> string" where
  "quote_char c =
     (let n = (of_char c :: nat) in
      if n = 34 then [char_of (92 :: nat), c]
      else if n = 92 then [c, c]
      else if n = 7 then char_of (92 :: nat) # ''a''
      else if n = 8 then char_of (92 :: nat) # ''b''
      else if n = 12 then char_of (92 :: nat) # ''f''
      else if n = 10 then char_of (92 :: nat) # ''n''
      else if n = 13 then char_of (92 :: nat) # ''r''
      else if n = 9 then char_of (92 :: nat) # ''t''
      else if n = 11 then char_of (92 :: nat) # ''v''
      else if n < 32 \<or> n = 127
        then char_of (92 :: nat) # ''x'' @ [hex_char (n div 16), hex_char (n mod 16)]
      else [c])"

definition Quote :: "string \<Rightarrow> string" where
  "Quote s = CHR 0x22 # concat (map quote_char s) @ [CHR 0x22]"

text \<open>\<^verbatim>\<open>strings.ToLower\<close> and \<^verbatim>\<open>strings.EqualFold\<close> on ASCII.\<close>

definition lower_char :: "char \<Rightarrow> char" where
  "lower_char c =
     (let n = (of_char c :: nat) in if 65 \<le> n \<and> n \<le> 90 then char_of (n + 32) else c)"

definition ToLower :: "string \<Rightarrow> string" where
  "ToLower s = map lower_char s"

lemma ToLower_append [simp]: "ToLower (a @ b) = ToLower a @ ToLower b"
  by (simp add: ToLower_def)

lemma lower_char_idem [simp]: "lower_char (lower_char c) = lower_char c"
  by (auto simp: lower_char_def Let_def)

lemma ToLower_idem [simp]: "ToLower (ToLower s) = ToLower s"
  by (simp add: ToLower_def)

end
