(* ===== verification/Units.thy ===== *)
theory Units
  imports GoStrings "HOL-Library.Word"
begin

text \<open>
  The data model of \<^verbatim>\<open>internal/starlark/types.go\<close> and
  \<^verbatim>\<open>internal/starlark/synthetic_module.go\<close>: units, tasks, steps, machines, feeds and the
  project that holds them, with the methods of these types that need no other component.
  Struct fields keep the source's names with a prefix for their struct. Pointers to
  shared immutable data are values, a pointer that may be nil is an option.
\<close>

section \<open>Units\<close>

text \<open>The values \<^verbatim>\<open>starlarkToGo\<close> puts under \<^verbatim>\<open>Unit.Extra\<close>; a float is its 64 bits.\<close>

datatype goany =
    GNil
  | GBool bool
  | GString string
  | GInt int
  | GFloat "64 word"
  | GList "goany list"
  | GMap "(string \<times> goany) list"

record Partition =
  ptLabel :: string
  ptType :: string
  ptSize :: string
  ptRoot :: bool
  ptContents :: "string list"

record InstallStep =
  isKind :: string
  isSrc :: string
  isDest :: string
  isMode :: int
  isBaseDir :: string

text \<open>A Starlark function is represented by what the sources read of it, its name.\<close>

record Step =
  stCommand :: string
  stFn :: "name option"
  stInstall :: "InstallStep option"

record Task =
  tName :: name
  tContainer :: string
  tDistros :: "name list"
  tSteps :: "Step list"

record Unit =
  uName :: name
  uVersion :: string
  uRelease :: int
  uClass :: string
  uScope :: string
  uDescription :: string
  uLicense :: string
  uDistro :: name
  uSource :: string
  uMirrors :: "string list"
  uSHA256 :: string
  uAPKChecksum :: string
  uTag :: string
  uBranch :: string
  uPatches :: "string list"
  uPassthroughAPK :: string
  uPassthroughDeb :: string
  uDeps :: "name list"
  uRuntimeDeps :: "name list"
  uDistroDeps :: "(name, name list) gomap"
  uDistroRuntimeDeps :: "(name, name list) gomap"
  uContainer :: string
  uContainerArch :: string
  uSandbox :: bool
  uShell :: string
  uTasks :: "Task list"
  uProvides :: "name list"
  uReplaces :: "name list"
  uModule :: name
  uModuleIndex :: int
  uDefinedIn :: string
  uServices :: "name list"
  uConffiles :: "string list"
  uEnvironment :: "(string, string) gomap"
  uCacheDirs :: "(string, string) gomap"
  uArtifacts :: "name list"
  uArtifactsExplicit :: "name list"
  uExclude :: "name list"
  uHostname :: string
  uTimezone :: string
  uLocale :: string
  uPartitions :: "Partition list"
  uUnbuildableMachine :: name
  uMachineKernelDistros :: "name list"
  uExtra :: "(string, goany) gomap"

text \<open>The zero value of the struct, from which the witnesses are built.\<close>

definition zero_unit :: Unit where
  "zero_unit = \<lparr>
     uName = [], uVersion = [], uRelease = 0, uClass = [], uScope = [], uDescription = [],
     uLicense = [], uDistro = [], uSource = [], uMirrors = [], uSHA256 = [], uAPKChecksum = [],
     uTag = [], uBranch = [], uPatches = [], uPassthroughAPK = [], uPassthroughDeb = [],
     uDeps = [], uRuntimeDeps = [], uDistroDeps = [], uDistroRuntimeDeps = [],
     uContainer = [], uContainerArch = [], uSandbox = False, uShell = [], uTasks = [],
     uProvides = [], uReplaces = [], uModule = [], uModuleIndex = 0, uDefinedIn = [],
     uServices = [], uConffiles = [], uEnvironment = [], uCacheDirs = [], uArtifacts = [],
     uArtifactsExplicit = [], uExclude = [], uHostname = [], uTimezone = [], uLocale = [],
     uPartitions = [], uUnbuildableMachine = [], uMachineKernelDistros = [], uExtra = []\<rparr>"

definition AppliesToDistro :: "Task \<Rightarrow> name \<Rightarrow> bool" where
  "AppliesToDistro t distro \<longleftrightarrow>
     (if tDistros t = [] then True else list_ex (\<lambda>d. d = distro) (tDistros t))"

definition NotBuildable :: "Unit option \<Rightarrow> bool" where
  "NotBuildable u = (case u of None \<Rightarrow> False | Some u \<Rightarrow> uUnbuildableMachine u \<noteq> [])"

definition UnbuildableMachineClause :: "Unit option \<Rightarrow> string" where
  "UnbuildableMachineClause u =
     (case u of
        None \<Rightarrow> []
      | Some v \<Rightarrow>
          if \<not> NotBuildable u then []
          else (let supported = Join (uMachineKernelDistros v) '', '';
                    supported' = (if supported = [] then ''(none)'' else supported)
                in ''machine '' @ Quote (uUnbuildableMachine v) @ '', whose kernel supports: '' @ supported'))"

definition UnbuildableReason :: "Unit option \<Rightarrow> string" where
  "UnbuildableReason u =
     (case u of
        None \<Rightarrow> []
      | Some v \<Rightarrow>
          if \<not> NotBuildable u then []
          else ''image '' @ Quote (uName v) @ '' (distro '' @ Quote (uDistro v) @
               '') is not buildable on '' @ UnbuildableMachineClause u)"

definition DepsForDistro :: "Unit \<Rightarrow> name \<Rightarrow> name list" where
  "DepsForDistro u distro =
     (if distro = [] \<or> uDistroDeps u = [] then uDeps u
      else (case map_of (uDistroDeps u) distro of
              None \<Rightarrow> uDeps u
            | Some extra \<Rightarrow> if extra = [] then uDeps u else uDeps u @ extra))"

definition RuntimeDepsForDistro :: "Unit \<Rightarrow> name \<Rightarrow> name list" where
  "RuntimeDepsForDistro u distro =
     (if distro = [] \<or> uDistroRuntimeDeps u = [] then uRuntimeDeps u
      else (case map_of (uDistroRuntimeDeps u) distro of
              None \<Rightarrow> uRuntimeDeps u
            | Some extra \<Rightarrow> if extra = [] then uRuntimeDeps u else uRuntimeDeps u @ extra))"

definition validScopes :: "string set" where
  "validScopes = {[], ''arch'', ''machine'', ''noarch''}"

definition validArchitectures :: "string set" where
  "validArchitectures = {''arm64'', ''riscv64'', ''x86_64''}"

text \<open>The guards of the two merge functions are redundant: they add the entry of the map.\<close>

lemma DepsForDistro_eq:
  "DepsForDistro u distro =
     uDeps u @ (if distro = [] then [] else gm_get [] (uDistroDeps u) distro)"
  by (auto simp: DepsForDistro_def gm_get_def split: option.splits)

lemma RuntimeDepsForDistro_eq:
  "RuntimeDepsForDistro u distro =
     uRuntimeDeps u @ (if distro = [] then [] else gm_get [] (uDistroRuntimeDeps u) distro)"
  by (auto simp: RuntimeDepsForDistro_def gm_get_def split: option.splits)

lemma AppliesToDistro_iff: "AppliesToDistro t d \<longleftrightarrow> tDistros t = [] \<or> d \<in> set (tDistros t)"
  by (auto simp: AppliesToDistro_def list_ex_iff)

section \<open>Source mirrors\<close>

record MirrorRule =
  mrPrefix :: string
  mrReplacement :: string

text \<open>The pair of the rewritten URL and whether the rule matched.\<close>

definition MirrorApply :: "MirrorRule \<Rightarrow> string \<Rightarrow> string \<times> bool" where
  "MirrorApply r url =
     (if \<not> HasPrefix url (mrPrefix r) then ([], False)
      else (mrReplacement r @ TrimPrefix url (mrPrefix r), True))"

section \<open>Machines\<close>

record KernelConfig =
  kcDefconfig :: string
  kcUnit :: name
  kcCmdline :: string
  kcProvides :: name
  kcDistroUnit :: "(name, name) gomap"

record QEMUConfig =
  qcMachine :: string
  qcCPU :: string
  qcMemory :: string
  qcFirmware :: string
  qcDisplay :: string
  qcPorts :: "string list"

record SerialConfig =
  scBaud :: int

record Machine =
  mName :: name
  mArch :: string
  mDescription :: string
  mKernel :: KernelConfig
  mQEMU :: "QEMUConfig option"
  mPackages :: "name list"
  mDistroPackages :: "(name, name list) gomap"
  mPartitions :: "Partition list"
  mSerial :: "SerialConfig option"

definition HasKernel :: "KernelConfig \<Rightarrow> bool" where
  "HasKernel k \<longleftrightarrow> kcUnit k \<noteq> [] \<or> 0 < length (kcDistroUnit k)"

definition QEMUPorts :: "Machine \<Rightarrow> string list" where
  "QEMUPorts m = (case mQEMU m of None \<Rightarrow> [] | Some q \<Rightarrow> qcPorts q)"

section \<open>Projects\<close>

record Defaults =
  dfMachine :: name
  dfImage :: name

record CacheConfig =
  ccPath :: string

record ModuleRef =
  mfURL :: string
  mfRef :: string
  mfPath :: string
  mfLocal :: string

record ModuleInfo =
  miName :: name
  miDescription :: string
  miDeps :: "ModuleRef list"

record ResolvedModule =
  rmName :: name
  rmURL :: string
  rmRef :: string
  rmPath :: string
  rmLocal :: string
  rmDir :: string
  rmCloneDir :: string
  rmAvailable :: bool

record ShadowEvent =
  seUnit :: name
  seWinnerModule :: name
  seWinnerDir :: string
  seLoserModule :: name
  seLoserDir :: string

record ProvidesEvent =
  peVirtual :: name
  peActive :: name
  peOthers :: "name list"

record Diagnostics =
  dgShadows :: "ShadowEvent list"
  dgDuplicateProvides :: "ProvidesEvent list"

text \<open>
  A feed. Its callbacks are code behind a function value (package index lookups): a
  lookup may fail with a message, miss, or give a unit. A nil callback is \<^const>\<open>None\<close>.
\<close>

record SyntheticModule =
  smName :: name
  smParent :: name
  smSuite :: string
  smCodename :: string
  smDistro :: name
  smRelease :: string
  smPriority :: int
  smLookup :: "(name \<Rightarrow> string + Unit option) option"
  smNames :: "name list option"

type_synonym catalog = "(name, (name, Unit) gomap) gomap"

record Project =
  pName :: string
  pVersion :: string
  pDefaults :: Defaults
  pCache :: CacheConfig
  pModules :: "ModuleRef list"
  pMachines :: "(name, Machine) gomap"
  pRoot :: string
  pUnitsByModule :: catalog
  pDistroViews :: "(name, (name, Unit) gomap) gomap"
  pProvidesViews :: "(name, (name, name) gomap) gomap option"
  pDefaultDistro :: name
  pDefaultDistroOverride :: name
  pPreferModules :: "(name, (name, name) gomap) gomap"
  pSourceMirrors :: "MirrorRule list"
  pProvides :: "(name, name) gomap"
  pSigningKey :: string
  pResolvedModules :: "ResolvedModule list"
  pDiagnostics :: Diagnostics
  pSyntheticModules :: "SyntheticModule list"

definition zero_project :: Project where
  "zero_project = \<lparr>
     pName = [], pVersion = [], pDefaults = \<lparr>dfMachine = [], dfImage = []\<rparr>,
     pCache = \<lparr>ccPath = []\<rparr>, pModules = [], pMachines = [], pRoot = [],
     pUnitsByModule = [], pDistroViews = [], pProvidesViews = None, pDefaultDistro = [],
     pDefaultDistroOverride = [], pPreferModules = [], pSourceMirrors = [], pProvides = [],
     pSigningKey = [], pResolvedModules = [],
     pDiagnostics = \<lparr>dgShadows = [], dgDuplicateProvides = []\<rparr>, pSyntheticModules = []\<rparr>"

definition AptFamilyDistros :: "name set" where
  "AptFamilyDistros = {''debian'', ''ubuntu''}"

definition IsAptFamily :: "name \<Rightarrow> bool" where
  "IsAptFamily distro \<longleftrightarrow> distro \<in> AptFamilyDistros"

section \<open>Feed releases\<close>

text \<open>
  The loop of \<^verbatim>\<open>CodenameForDistro\<close> with its two variables \<^verbatim>\<open>codename\<close> and \<^verbatim>\<open>from\<close>.
\<close>

datatype CodenameError =
    MixedReleases name name string name string
  | NoCodename name

fun codename_loop ::
  "name \<Rightarrow> SyntheticModule list \<Rightarrow> string \<Rightarrow> name \<Rightarrow> CodenameError + string" where
  "codename_loop distro [] codename from' = Inr codename"
| "codename_loop distro (sm # sms) codename from' =
     (if smCodename sm = [] \<or> smDistro sm \<noteq> distro then codename_loop distro sms codename from'
      else if codename = [] then codename_loop distro sms (smCodename sm) (smName sm)
      else if smCodename sm \<noteq> codename
        then Inl (MixedReleases distro from' codename (smName sm) (smCodename sm))
      else codename_loop distro sms codename from')"

definition CodenameForDistro :: "Project \<Rightarrow> name \<Rightarrow> CodenameError + string" where
  "CodenameForDistro p distro =
     (case codename_loop distro (pSyntheticModules p) [] [] of
        Inl e \<Rightarrow> Inl e
      | Inr codename \<Rightarrow> if codename = [] then Inl (NoCodename distro) else Inr codename)"

fun release_loop :: "name \<Rightarrow> SyntheticModule list \<Rightarrow> string" where
  "release_loop distro [] = []"
| "release_loop distro (sm # sms) =
     (if smDistro sm \<noteq> distro then release_loop distro sms
      else if smRelease sm \<noteq> [] then smRelease sm
      else release_loop distro sms)"

definition BaseVersionForDistro :: "Project \<Rightarrow> name \<Rightarrow> string" where
  "BaseVersionForDistro p distro =
     (case CodenameForDistro p distro of
        Inr codename \<Rightarrow> codename
      | Inl _ \<Rightarrow> release_loop distro (pSyntheticModules p))"

text \<open>The codenames declared by the feeds of a distro.\<close>

definition feed_codenames :: "name \<Rightarrow> SyntheticModule list \<Rightarrow> string set" where
  "feed_codenames distro sms = {smCodename sm |sm. sm \<in> set sms \<and> smDistro sm = distro} - {[]}"

lemma feed_codenames_simps:
  "feed_codenames distro [] = {}"
  "feed_codenames distro (sm # sms) =
     (if smCodename sm = [] \<or> smDistro sm \<noteq> distro then feed_codenames distro sms
      else insert (smCodename sm) (feed_codenames distro sms))"
  by (auto simp: feed_codenames_def)

lemma codename_loop_fixed:
  "c \<noteq> [] \<Longrightarrow>
   codename_loop distro sms c f = Inr r \<longleftrightarrow> r = c \<and> feed_codenames distro sms \<subseteq> {c}"
  by (induction sms arbitrary: f) (auto simp: feed_codenames_simps)

lemma codename_loop_start:
  "codename_loop distro sms [] f = Inr r \<longleftrightarrow>
   (r = [] \<and> feed_codenames distro sms = {}) \<or> (r \<noteq> [] \<and> feed_codenames distro sms = {r})"
proof (induction sms arbitrary: f)
  case (Cons sm sms)
  show ?case
  proof (cases "smCodename sm = [] \<or> smDistro sm \<noteq> distro")
    case True
    with Cons show ?thesis by (auto simp: feed_codenames_simps)
  next
    case False
    then show ?thesis
      using codename_loop_fixed [of "smCodename sm" distro sms "smName sm" r]
      by (auto simp: feed_codenames_simps)
  qed
qed (auto simp: feed_codenames_simps)

text \<open>A codename is returned exactly when it is the one codename the feeds of the distro
  declare: no codename, or two different ones, is an error.
\<close>

theorem CodenameForDistro_iff:
  "CodenameForDistro p distro = Inr c \<longleftrightarrow>
   c \<noteq> [] \<and> feed_codenames distro (pSyntheticModules p) = {c}"
proof (cases "codename_loop distro (pSyntheticModules p) [] []")
  case (Inl e)
  then show ?thesis
    using codename_loop_start [of distro "pSyntheticModules p" "[]" c]
    by (simp add: CodenameForDistro_def)
next
  case (Inr r)
  then show ?thesis
    using codename_loop_start [of distro "pSyntheticModules p" "[]" r]
    by (cases "r = []") (auto simp: CodenameForDistro_def)
qed

end
