(* ===== verification/Views.thy ===== *)
theory Views
  imports Units
begin

text \<open>
  Name resolution over a loaded project: the methods \<^verbatim>\<open>LookupUnit\<close>, \<^verbatim>\<open>AnyUnit\<close>,
  \<^verbatim>\<open>AllUnits\<close>, \<^verbatim>\<open>ResolveProvidesForDistro\<close>, \<^verbatim>\<open>EffectiveDistro\<close> and
  \<^verbatim>\<open>EffectiveDistroForImage\<close> of \<^verbatim>\<open>internal/starlark/types.go\<close>, and the per-distro views that
  \<^verbatim>\<open>internal/starlark/loader.go\<close> precomputes for them. The two caches are shown to give
  the answer of the computation they replace.
\<close>

section \<open>Resolution against the catalog\<close>

definition unitVisibleToDistro :: "Unit option \<Rightarrow> name \<Rightarrow> bool" where
  "unitVisibleToDistro u distro \<longleftrightarrow>
     (case u of
        None \<Rightarrow> False
      | Some u \<Rightarrow> if distro = [] then True else uDistro u = [] \<or> uDistro u = distro)"

text \<open>
  The scan for the highest module index; of equal indices the first one met stays.
\<close>

definition better :: "Unit option \<Rightarrow> Unit \<Rightarrow> Unit option" where
  "better best u =
     (case best of
        None \<Rightarrow> Some u
      | Some b \<Rightarrow> if uModuleIndex u > uModuleIndex b then Some u else Some b)"

fun scan_best :: "(Unit \<Rightarrow> bool) \<Rightarrow> name \<Rightarrow> catalog \<Rightarrow> Unit option \<Rightarrow> Unit option" where
  "scan_best ok name [] best = best"
| "scan_best ok name ((_, byName) # ms) best =
     scan_best ok name ms
       (case map_of byName name of
          None \<Rightarrow> best
        | Some u \<Rightarrow> if \<not> ok u then best else better best u)"

definition AnyUnit :: "Project \<Rightarrow> name \<Rightarrow> Unit option" where
  "AnyUnit p name = scan_best (\<lambda>_. True) name (pUnitsByModule p) None"

definition pinned_unit :: "Project \<Rightarrow> name \<Rightarrow> name \<Rightarrow> Unit option" where
  "pinned_unit proj distro name =
     (case map_of (pPreferModules proj) distro of
        None \<Rightarrow> None
      | Some pins \<Rightarrow>
          (case map_of pins name of
             None \<Rightarrow> None
           | Some pinned \<Rightarrow>
               if pinned = [] then None
               else (case map_of (pUnitsByModule proj) pinned of
                       None \<Rightarrow> None
                     | Some byName \<Rightarrow>
                         (case map_of byName name of
                            None \<Rightarrow> None
                          | Some u \<Rightarrow> if unitVisibleToDistro (Some u) distro then Some u else None))))"

definition resolveForDistro :: "Project \<Rightarrow> name \<Rightarrow> name \<Rightarrow> Unit option" where
  "resolveForDistro proj distro name =
     (case pinned_unit proj distro name of
        Some u \<Rightarrow> Some u
      | None \<Rightarrow>
          scan_best (\<lambda>u. unitVisibleToDistro (Some u) distro) name (pUnitsByModule proj) None)"

text \<open>\<^verbatim>\<open>AllUnits\<close> as the list of the pairs the iterator yields.\<close>

definition AllUnits :: "Project \<Rightarrow> (name \<times> Unit) list" where
  "AllUnits p = concat (map snd (pUnitsByModule p))"

definition LookupUnit :: "Project \<Rightarrow> name \<Rightarrow> name \<Rightarrow> Unit option" where
  "LookupUnit p distro name =
     (case map_of (pDistroViews p) distro of
        Some view \<Rightarrow>
          (case map_of view name of
             Some u \<Rightarrow> Some u
           | None \<Rightarrow> resolveForDistro p distro name)
      | None \<Rightarrow> if 0 < length (pDistroViews p) then None else AnyUnit p name)"

section \<open>The precomputed views\<close>

definition add_key :: "name \<Rightarrow> name list \<Rightarrow> name list" where
  "add_key k ks = (if k \<in> set ks then ks else ks @ [k])"

definition view_distros :: "Project \<Rightarrow> name list" where
  "view_distros proj =
     (let ds0 = (if pDefaultDistro proj \<noteq> [] then [pDefaultDistro proj] else []);
          ds1 = (if pDefaultDistroOverride proj \<noteq> []
                 then add_key (pDefaultDistroOverride proj) ds0 else ds0);
          ds2 = fold add_key (gm_keys (pPreferModules proj)) ds1
      in fold (\<lambda>(_, u) ds. if uDistro u \<noteq> [] then add_key (uDistro u) ds else ds)
           (AllUnits proj) ds2)"

definition all_names :: "Project \<Rightarrow> name list" where
  "all_names proj = fold (\<lambda>(n, _) ns. add_key n ns) (AllUnits proj) []"

definition distro_view :: "Project \<Rightarrow> name \<Rightarrow> (name, Unit) gomap" where
  "distro_view proj distro =
     concat (map (\<lambda>name. case resolveForDistro proj distro name of
                     None \<Rightarrow> [] | Some u \<Rightarrow> [(name, u)]) (all_names proj))"

definition buildDistroViews :: "Project \<Rightarrow> (name, (name, Unit) gomap) gomap" where
  "buildDistroViews proj = map (\<lambda>distro. (distro, distro_view proj distro)) (view_distros proj)"

fun add_provides :: "name \<Rightarrow> name list \<Rightarrow> (name, name) gomap \<Rightarrow> (name, name) gomap" where
  "add_provides unit [] view = view"
| "add_provides unit (v # vs) view =
     add_provides unit vs
       (if v = [] \<or> gm_has view v then view else gm_put v unit view)"

definition provides_step ::
  "Unit \<Rightarrow> (name, (name, name) gomap) gomap \<Rightarrow> (name, (name, name) gomap) gomap" where
  "provides_step u views =
     (if uDistro u = [] \<or> uProvides u = [] then views
      else gm_put (uDistro u)
             (add_provides (uName u) (uProvides u) (gm_get [] views (uDistro u))) views)"

definition buildProvidesViews :: "Project \<Rightarrow> (name, (name, name) gomap) gomap" where
  "buildProvidesViews proj = fold (\<lambda>(_, u). provides_step u) (AllUnits proj) []"

text \<open>
  The scan over the catalog that the provides view replaces: the first unit tagged for
  the distro that declares the virtual name.
\<close>

fun provides_scan :: "name \<Rightarrow> name \<Rightarrow> (name \<times> Unit) list \<Rightarrow> name option" where
  "provides_scan distro virtual [] = None"
| "provides_scan distro virtual ((_, u) # us) =
     (if uDistro u \<noteq> distro then provides_scan distro virtual us
      else if virtual \<in> set (uProvides u) then Some (uName u)
      else provides_scan distro virtual us)"

text \<open>The two lookups that only run for a known distro.\<close>

definition direct_provider :: "Project \<Rightarrow> name \<Rightarrow> name \<Rightarrow> name option" where
  "direct_provider p virtual effectiveDistro =
     (case LookupUnit p effectiveDistro virtual of
        None \<Rightarrow> None
      | Some u \<Rightarrow> if uDistro u = effectiveDistro then Some (uName u) else None)"

definition tagged_provider :: "Project \<Rightarrow> name \<Rightarrow> name \<Rightarrow> name option" where
  "tagged_provider p virtual effectiveDistro =
     (case pProvidesViews p of
        None \<Rightarrow> provides_scan effectiveDistro virtual (AllUnits p)
      | Some views \<Rightarrow>
          (case map_of views effectiveDistro of
             None \<Rightarrow> None
           | Some view \<Rightarrow> map_of view virtual))"

definition ResolveProvidesForDistro :: "Project \<Rightarrow> name \<Rightarrow> name \<Rightarrow> name" where
  "ResolveProvidesForDistro p virtual effectiveDistro =
     (if virtual = [] then []
      else if effectiveDistro = [] then gm_get [] (pProvides p) virtual
      else (case direct_provider p virtual effectiveDistro of
              Some n \<Rightarrow> n
            | None \<Rightarrow>
                (case tagged_provider p virtual effectiveDistro of
                   Some n \<Rightarrow> n
                 | None \<Rightarrow> gm_get [] (pProvides p) virtual)))"

section \<open>The effective distro\<close>

datatype DistroError =
    UnitNotFound name
  | NotAnImage name string
  | ImageNoDistro name
  | ProjectNoDistro

definition EffectiveDistro :: "Project \<Rightarrow> DistroError + name" where
  "EffectiveDistro p =
     (if pDefaultDistroOverride p \<noteq> [] then Inr (pDefaultDistroOverride p)
      else if pDefaultDistro p \<noteq> [] then Inr (pDefaultDistro p)
      else Inl ProjectNoDistro)"

definition EffectiveDistroForImage :: "Project \<Rightarrow> name \<Rightarrow> DistroError + name" where
  "EffectiveDistroForImage p imageName =
     (let projDistro = (if pDefaultDistroOverride p = [] then pDefaultDistro p
                        else pDefaultDistroOverride p);
          u0 = (if projDistro \<noteq> [] then LookupUnit p projDistro imageName else None);
          u1 = (case u0 of None \<Rightarrow> AnyUnit p imageName | Some u \<Rightarrow> Some u)
      in case u1 of
           None \<Rightarrow> Inl (UnitNotFound imageName)
         | Some u \<Rightarrow>
             if uClass u \<noteq> ''image'' then Inl (NotAnImage imageName (uClass u))
             else if uDistro u \<noteq> [] then Inr (uDistro u)
             else if pDefaultDistroOverride p \<noteq> [] then Inr (pDefaultDistroOverride p)
             else if pDefaultDistro p \<noteq> [] then Inr (pDefaultDistro p)
             else Inl (ImageNoDistro imageName))"

section \<open>Module pins\<close>

datatype PinError = PinModuleNotFound name name name "name list"

definition suggestModuleNames :: "name \<Rightarrow> name list \<Rightarrow> name list" where
  "suggestModuleNames target known =
     (let prefixed = filter (\<lambda>n. n \<noteq> target \<and> HasPrefix n (target @ ''.'')) known;
          contained = filter (\<lambda>n. n \<noteq> target \<and> \<not> HasPrefix n (target @ ''.'') \<and> Contains n target) known;
          out = sort prefixed @ sort contained
      in if length out > 3 then take 3 out else out)"

fun preflight_pins :: "name list \<Rightarrow> name \<Rightarrow> (name, name) gomap \<Rightarrow> PinError option" where
  "preflight_pins known distro [] = None"
| "preflight_pins known distro ((unit, modName) # pins) =
     (if modName = [] then preflight_pins known distro pins
      else if modName \<in> set known then preflight_pins known distro pins
      else Some (PinModuleNotFound distro unit modName (suggestModuleNames modName known)))"

fun preflightPreferModules :: "(name, (name, name) gomap) gomap \<Rightarrow> name list \<Rightarrow> PinError option" where
  "preflightPreferModules [] known = None"
| "preflightPreferModules ((distro, pins) # prefer) known =
     (case preflight_pins known distro pins of
        Some e \<Rightarrow> Some e
      | None \<Rightarrow> preflightPreferModules prefer known)"

definition validatePreferModules :: "Project \<Rightarrow> PinError option" where
  "validatePreferModules proj =
     (if pPreferModules proj = [] then None
      else
        let known0 = fold (\<lambda>rm ks. if rmName rm \<noteq> [] then add_key (rmName rm) ks else ks)
                       (pResolvedModules proj) [];
            known = fold (\<lambda>sm ks. if smName sm \<noteq> [] then add_key (smName sm) ks else ks)
                       (pSyntheticModules proj) known0
        in preflightPreferModules (pPreferModules proj) known)"

section \<open>Lemmas on the scan\<close>

definition candidates :: "name \<Rightarrow> catalog \<Rightarrow> Unit set" where
  "candidates name ms = {u. \<exists>(m, byName) \<in> set ms. map_of byName name = Some u}"

lemma candidates_simps [simp]:
  "candidates name [] = {}"
  "candidates name ((m, byName) # ms) = set_option (map_of byName name) \<union> candidates name ms"
  by (auto simp: candidates_def elem_set)

lemma scan_best_None:
  "scan_best ok name ms best = None \<longleftrightarrow> best = None \<and> (\<forall>u \<in> candidates name ms. \<not> ok u)"
  by (induction ok name ms best rule: scan_best.induct)
    (auto simp: better_def split: option.splits if_splits)

lemma scan_best_mem:
  "scan_best ok name ms best = Some u \<Longrightarrow> best = Some u \<or> (u \<in> candidates name ms \<and> ok u)"
  by (induction ok name ms best rule: scan_best.induct)
    (auto simp: better_def split: option.splits if_splits)

lemma scan_best_ge:
  "scan_best ok name ms best = Some u \<Longrightarrow>
   (\<forall>b. best = Some b \<longrightarrow> uModuleIndex b \<le> uModuleIndex u) \<and>
   (\<forall>v \<in> candidates name ms. ok v \<longrightarrow> uModuleIndex v \<le> uModuleIndex u)"
proof (induction ok name ms best rule: scan_best.induct)
  case (2 ok name m byName ms best)
  then show ?case
    by (cases "map_of byName name"; cases best) (auto simp: better_def split: if_splits)
qed simp

lemma pinned_unit_candidate:
  "pinned_unit p d n = Some u \<Longrightarrow>
   u \<in> candidates n (pUnitsByModule p) \<and> unitVisibleToDistro (Some u) d"
  by (fastforce simp: pinned_unit_def candidates_def dest: map_of_SomeD
      split: option.splits if_splits)

text \<open>Membership in the key sets the loader collects.\<close>

lemma set_add_key [simp]: "set (add_key k ks) = insert k (set ks)"
  by (auto simp: add_key_def)

lemma distinct_add_key [simp]: "distinct ks \<Longrightarrow> distinct (add_key k ks)"
  by (simp add: add_key_def)

lemma set_fold_add_key [simp]: "set (fold add_key ns ks) = set ns \<union> set ks"
  by (induction ns arbitrary: ks) auto

lemma set_fold_add_key_if:
  "set (fold (\<lambda>x ks. if P x then add_key (f x) ks else ks) xs ks) = f ` {x \<in> set xs. P x} \<union> set ks"
  by (induction xs arbitrary: ks) auto

lemma distinct_fold_add_key_if:
  "distinct ks \<Longrightarrow> distinct (fold (\<lambda>x ks. if P x then add_key (f x) ks else ks) xs ks)"
  by (induction xs arbitrary: ks) auto

lemma all_names_alt:
  "all_names p = fold (\<lambda>x ks. if True then add_key (fst x) ks else ks) (AllUnits p) []"
  by (simp add: all_names_def case_prod_unfold)

lemma set_all_names: "set (all_names p) = fst ` set (AllUnits p)"
  unfolding all_names_alt set_fold_add_key_if by simp

lemma distinct_all_names: "distinct (all_names p)"
  unfolding all_names_alt by (rule distinct_fold_add_key_if) simp

lemma candidates_AllUnits:
  assumes "u \<in> candidates n (pUnitsByModule p)"
  shows "(n, u) \<in> set (AllUnits p)"
proof -
  obtain m byName where "(m, byName) \<in> set (pUnitsByModule p)" "(n, u) \<in> set byName"
    using assms by (auto simp: candidates_def dest: map_of_SomeD)
  then show ?thesis by (auto simp: AllUnits_def intro: rev_bexI)
qed

lemma map_of_concat_opt:
  "distinct ns \<Longrightarrow>
   map_of (concat (map (\<lambda>n. case f n of None \<Rightarrow> [] | Some u \<Rightarrow> [(n, u)]) ns)) k =
   (if k \<in> set ns then f k else None)"
  by (induction ns) (auto split: option.splits)

lemma resolveForDistro_all_names:
  "resolveForDistro p d n = Some u \<Longrightarrow> n \<in> set (all_names p)"
  by (auto simp: resolveForDistro_def set_all_names split: option.splits
      dest!: pinned_unit_candidate scan_best_mem candidates_AllUnits intro: rev_image_eqI)

lemma map_of_distro_view: "map_of (distro_view p d) n = resolveForDistro p d n"
  unfolding distro_view_def map_of_concat_opt [OF distinct_all_names]
  using resolveForDistro_all_names [of p d n] by (cases "resolveForDistro p d n") auto

lemma map_of_buildDistroViews:
  "map_of (buildDistroViews p) d = (if d \<in> set (view_distros p) then Some (distro_view p d) else None)"
proof -
  have "map_of (map (\<lambda>x. (x, distro_view p x)) ds) d =
      (if d \<in> set ds then Some (distro_view p d) else None)" for ds
    by (induction ds) auto
  then show ?thesis by (simp only: buildDistroViews_def)
qed

lemma resolveForDistro_cong:
  "resolveForDistro (p\<lparr>pDistroViews := v\<rparr>) = resolveForDistro p"
  "resolveForDistro (p\<lparr>pProvidesViews := w\<rparr>) = resolveForDistro p"
  by (simp_all add: resolveForDistro_def pinned_unit_def fun_eq_iff cong: option.case_cong if_cong)

section \<open>Lemmas on the provides view\<close>

lemma add_provides_lookup:
  "v \<noteq> [] \<Longrightarrow>
   map_of (add_provides unit vs view) v =
   (case map_of view v of Some n \<Rightarrow> Some n | None \<Rightarrow> if v \<in> set vs then Some unit else None)"
  by (induction unit vs view rule: add_provides.induct)
    (auto simp: gm_has_def split: option.splits if_splits)

definition view_lookup :: "(name, (name, name) gomap) gomap \<Rightarrow> name \<Rightarrow> name \<Rightarrow> name option" where
  "view_lookup views d v = (case map_of views d of None \<Rightarrow> None | Some view \<Rightarrow> map_of view v)"

lemma provides_step_lookup:
  assumes "v \<noteq> []" and "d \<noteq> []"
  shows "view_lookup (provides_step u views) d v =
    (case view_lookup views d v of
       Some n \<Rightarrow> Some n
     | None \<Rightarrow> if uDistro u = d \<and> v \<in> set (uProvides u) then Some (uName u) else None)"
  using assms
  by (auto simp: provides_step_def view_lookup_def add_provides_lookup gm_get_def
      split: option.splits if_splits)

lemma provides_fold_lookup:
  assumes "v \<noteq> []" and "d \<noteq> []"
  shows "view_lookup (fold (\<lambda>(_, u). provides_step u) us views) d v =
    (case view_lookup views d v of Some n \<Rightarrow> Some n | None \<Rightarrow> provides_scan d v us)"
proof (induction us arbitrary: views)
  case (Cons x us)
  obtain n u where "x = (n, u)" by (cases x)
  with Cons show ?case
    by (simp add: provides_step_lookup [OF assms] split: option.splits)
qed (simp split: option.splits)

lemma buildProvidesViews_lookup:
  "v \<noteq> [] \<Longrightarrow> d \<noteq> [] \<Longrightarrow> view_lookup (buildProvidesViews p) d v = provides_scan d v (AllUnits p)"
  by (simp add: buildProvidesViews_def provides_fold_lookup) (simp add: view_lookup_def)

section \<open>Properties\<close>

text \<open>
  Per-distro resolution is complete and picks the right unit: it fails exactly when no
  module declares a visible unit of that name, and a result that is not a pin has the
  highest module index of the visible candidates.
\<close>

theorem resolveForDistro_spec:
  "(resolveForDistro p d n = None \<longleftrightarrow>
      (\<forall>u \<in> candidates n (pUnitsByModule p). \<not> unitVisibleToDistro (Some u) d)) \<and>
   (\<forall>u. resolveForDistro p d n = Some u \<longrightarrow>
      u \<in> candidates n (pUnitsByModule p) \<and> unitVisibleToDistro (Some u) d \<and>
      (pinned_unit p d n = Some u \<or>
       (\<forall>v \<in> candidates n (pUnitsByModule p).
          unitVisibleToDistro (Some v) d \<longrightarrow> uModuleIndex v \<le> uModuleIndex u)))"
proof (cases "pinned_unit p d n")
  case None
  then show ?thesis
    by (auto simp: resolveForDistro_def scan_best_None dest: scan_best_mem scan_best_ge)
next
  case (Some u)
  then show ?thesis using pinned_unit_candidate [of p d n u] by (auto simp: resolveForDistro_def)
qed

definition ex_unit :: "name \<Rightarrow> name \<Rightarrow> int \<Rightarrow> Unit" where
  "ex_unit n d i = zero_unit\<lparr>uName := n, uDistro := d, uModuleIndex := i\<rparr>"

definition ex_project :: Project where
  "ex_project = zero_project\<lparr>
     pUnitsByModule := [
       (''alpine'', [(''xz'', ex_unit ''xz'' ''alpine'' 1), (''musl'', (ex_unit ''musl'' ''alpine'' 1)\<lparr>uProvides := [''libc'']\<rparr>)]),
       (''debian'', [(''xz'', ex_unit ''xz'' ''debian'' 2), (''glibc'', (ex_unit ''glibc'' ''debian'' 2)\<lparr>uProvides := [''libc'']\<rparr>)]),
       (''core'', [(''xz'', ex_unit ''xz'' [] 3)])],
     pPreferModules := [(''alpine'', [(''xz'', ''alpine'')])],
     pDefaultDistro := ''alpine'',
     pProvides := [(''libc'', ''glibc'')]\<rparr>"

theorem resolveForDistro_spec_witness:
  "resolveForDistro ex_project ''debian'' ''xz'' = Some (ex_unit ''xz'' [] 3) \<and>
   ex_unit ''xz'' [] 3 \<in> candidates ''xz'' (pUnitsByModule ex_project)"
proof -
  have "resolveForDistro ex_project ''debian'' ''xz'' = Some (ex_unit ''xz'' [] 3)"
    by (simp add: resolveForDistro_def pinned_unit_def ex_project_def ex_unit_def
        unitVisibleToDistro_def better_def zero_unit_def)
  with resolveForDistro_spec [of ex_project "''debian''" "''xz''"] show ?thesis by simp
qed

text \<open>
  The precomputed distro views change no answer: with the views the loader builds,
  looking a unit up gives what resolution against the catalog gives for every distro the
  project knows, and nothing for any other distro.
\<close>

theorem LookupUnit_buildDistroViews:
  assumes "view_distros p \<noteq> []"
  shows "LookupUnit (p\<lparr>pDistroViews := buildDistroViews p\<rparr>) d n =
    (if d \<in> set (view_distros p) then resolveForDistro p d n else None)"
proof -
  have "buildDistroViews p \<noteq> []" using assms by (simp add: buildDistroViews_def)
  then show ?thesis
    by (simp add: LookupUnit_def map_of_buildDistroViews map_of_distro_view resolveForDistro_cong
        split: option.splits)
qed

theorem LookupUnit_buildDistroViews_witness:
  "LookupUnit (ex_project\<lparr>pDistroViews := buildDistroViews ex_project\<rparr>) ''alpine'' ''xz'' =
     Some (ex_unit ''xz'' ''alpine'' 1)"
proof -
  have ds: "view_distros ex_project = [''alpine'', ''debian'']"
    by (simp add: view_distros_def ex_project_def add_key_def AllUnits_def ex_unit_def
        zero_project_def zero_unit_def)
  have "resolveForDistro ex_project ''alpine'' ''xz'' = Some (ex_unit ''xz'' ''alpine'' 1)"
    by (simp add: resolveForDistro_def pinned_unit_def ex_project_def ex_unit_def
        unitVisibleToDistro_def zero_unit_def)
  then show ?thesis
    using LookupUnit_buildDistroViews [of ex_project "''alpine''" "''xz''"] ds by simp
qed

text \<open>The provides view changes no answer: resolving a virtual name with the view the
  loader builds equals the scan over the whole catalog that is used before it exists.
\<close>

theorem ResolveProvides_view_eq_scan:
  "ResolveProvidesForDistro (p\<lparr>pProvidesViews := Some (buildProvidesViews p)\<rparr>) v d =
   ResolveProvidesForDistro (p\<lparr>pProvidesViews := None\<rparr>) v d"
proof -
  have look: "LookupUnit (p\<lparr>pProvidesViews := w\<rparr>) d v = LookupUnit p d v" for w
    by (simp add: LookupUnit_def resolveForDistro_cong AnyUnit_def cong: option.case_cong)
  have "direct_provider (p\<lparr>pProvidesViews := w\<rparr>) v d = direct_provider p v d" for w
    by (simp add: direct_provider_def look)
  moreover have "tagged_provider (p\<lparr>pProvidesViews := Some (buildProvidesViews p)\<rparr>) v d =
      tagged_provider (p\<lparr>pProvidesViews := None\<rparr>) v d" if "v \<noteq> []" "d \<noteq> []"
    using buildProvidesViews_lookup [OF that, of p]
    by (simp add: tagged_provider_def view_lookup_def AllUnits_def)
  ultimately show ?thesis
    by (simp add: ResolveProvidesForDistro_def cong: option.case_cong)
qed

text \<open>The fall-back of provides resolution is not filtered by distro: a virtual name with no
  provider for the walk's distro resolves to the unit of the global table even when that
  unit is tagged for another distro.
\<close>

theorem ResolveProvides_crosses_distros:
  "\<exists>p v d u. ResolveProvidesForDistro p v d = uName u \<and> u \<in> snd ` set (AllUnits p) \<and>
     uName u \<noteq> [] \<and> uDistro u \<noteq> [] \<and> uDistro u \<noteq> d \<and> d \<noteq> []"
proof (intro exI conjI)
  let ?u = "(ex_unit ''glibc'' ''debian'' 2)\<lparr>uProvides := [''libc'']\<rparr>"
  show "ResolveProvidesForDistro ex_project ''libc'' ''ubuntu'' = uName ?u"
    by (simp add: ResolveProvidesForDistro_def direct_provider_def tagged_provider_def
        LookupUnit_def AnyUnit_def ex_project_def ex_unit_def zero_unit_def zero_project_def AllUnits_def)
  show "?u \<in> snd ` set (AllUnits ex_project)"
    by (simp add: AllUnits_def ex_project_def)
qed (simp_all add: ex_unit_def)

text \<open>The distro cascade of an image: a distro that is returned is never empty, it is the
  image's own tag if it has one and otherwise the project's effective distro, and the
  unit it was read from is an image.
\<close>

theorem EffectiveDistroForImage_cascade:
  assumes "EffectiveDistroForImage p i = Inr d"
  shows "\<exists>u. (AnyUnit p i = Some u \<or> (\<exists>d'. EffectiveDistro p = Inr d' \<and> LookupUnit p d' i = Some u)) \<and>
    uClass u = ''image'' \<and> d \<noteq> [] \<and>
    (if uDistro u \<noteq> [] then d = uDistro u else EffectiveDistro p = Inr d)"
proof -
  define pd where "pd = (if pDefaultDistroOverride p = [] then pDefaultDistro p else pDefaultDistroOverride p)"
  have pd: "EffectiveDistro p = Inr pd" if "pd \<noteq> []"
    using that by (auto simp: EffectiveDistro_def pd_def split: if_splits)
  obtain u where u: "(case (if pd \<noteq> [] then LookupUnit p pd i else None) of
      None \<Rightarrow> AnyUnit p i | Some u \<Rightarrow> Some u) = Some u"
    using assms unfolding EffectiveDistroForImage_def Let_def pd_def [symmetric]
    by (auto split: option.splits)
  then have "AnyUnit p i = Some u \<or> (\<exists>d'. EffectiveDistro p = Inr d' \<and> LookupUnit p d' i = Some u)"
    using pd by (auto split: if_splits option.splits)
  moreover have "uClass u = ''image'' \<and> d \<noteq> [] \<and>
    (if uDistro u \<noteq> [] then d = uDistro u else EffectiveDistro p = Inr d)"
    using assms u unfolding EffectiveDistroForImage_def Let_def pd_def [symmetric]
    by (auto simp: EffectiveDistro_def split: if_splits)
  ultimately show ?thesis by blast
qed

theorem EffectiveDistroForImage_cascade_witness:
  "EffectiveDistroForImage (zero_project\<lparr>pDefaultDistro := ''alpine'', pUnitsByModule :=
      [([], [(''img'', zero_unit\<lparr>uName := ''img'', uClass := ''image''\<rparr>)])]\<rparr>) ''img'' = Inr ''alpine'' \<and>
   (\<exists>d. EffectiveDistro (zero_project\<lparr>pDefaultDistro := ''alpine'', pUnitsByModule :=
      [([], [(''img'', zero_unit\<lparr>uName := ''img'', uClass := ''image''\<rparr>)])]\<rparr>) = Inr d \<and> d \<noteq> [])"
  (is "EffectiveDistroForImage ?p _ = _ \<and> _")
proof -
  have 1: "EffectiveDistroForImage ?p ''img'' = Inr ''alpine''"
    by (simp add: EffectiveDistroForImage_def LookupUnit_def AnyUnit_def zero_project_def
        zero_unit_def better_def)
  have "EffectiveDistro ?p = Inr ''alpine''"
    by (simp add: EffectiveDistro_def zero_project_def)
  with 1 EffectiveDistroForImage_cascade [OF 1] show ?thesis by blast
qed

end
