(* ===== verification/Dag.thy ===== *)
theory Dag
  imports Walks Views
begin

text \<open>
  \<^verbatim>\<open>internal/resolve/dag.go\<close>, \<^verbatim>\<open>runtime.go\<close> and \<^verbatim>\<open>container.go\<close>: building the dependency
  graph of a project. The theory shows that a graph \<^verbatim>\<open>BuildDAG\<close> returns is well formed
  (edges end in nodes, no edge twice, reverse edges exactly the converse), when it fails,
  and what the runtime-dependency expansions collect. Theory DagSort orders the graph,
  theory DagQuery walks it.
\<close>

section \<open>Data\<close>

record Node =
  ndUnit :: Unit
  ndDeps :: "name list"
  ndRdeps :: "name list"

type_synonym nodes = "(name, Node) gomap"

datatype DagError =
    MissingDep name name
  | DependencyCycle "name list"
  | NodeNotFound name
  | NilNode name

text \<open>
  The graph with its memoized order; \<^verbatim>\<open>order\<close> and \<^verbatim>\<open>orderErr\<close> are one sum value.
\<close>

record DAG =
  dNodes :: nodes
  dOrder :: "DagError + name list"
  dSorted :: bool

section \<open>Container references\<close>

record ContainerRef =
  crName :: name
  crExternal :: bool
  crUnit :: "Unit option"

definition ResolveContainer :: "Project \<Rightarrow> Unit option \<Rightarrow> string \<Rightarrow> name \<Rightarrow> ContainerRef" where
  "ResolveContainer proj consumer ref effectiveDistro =
     (if ref = [] then \<lparr>crName = [], crExternal = False, crUnit = None\<rparr>
      else if Contains ref '':'' \<or> Contains ref ''/''
        then \<lparr>crName = ref, crExternal = True, crUnit = None\<rparr>
      else
        let distro = (case consumer of
                        None \<Rightarrow> effectiveDistro
                      | Some c \<Rightarrow> if effectiveDistro = [] then uDistro c else effectiveDistro);
            resolved = ResolveProvidesForDistro proj ref distro;
            name = (if resolved \<noteq> [] then resolved else ref);
            u = (case LookupUnit proj distro name of
                   None \<Rightarrow> AnyUnit proj name
                 | Some v \<Rightarrow> Some v)
        in \<lparr>crName = name, crExternal = False, crUnit = u\<rparr>)"

definition ContainerRefsOf :: "Project \<Rightarrow> Unit \<Rightarrow> name \<Rightarrow> ContainerRef list" where
  "ContainerRefsOf proj unit effectiveDistro =
     filter (\<lambda>r. crName r \<noteq> [])
       (map (\<lambda>ref. ResolveContainer proj (Some unit) ref effectiveDistro)
          (uContainer unit # map tContainer (uTasks unit)))"

fun container_deps_loop ::
  "(name, Unit) gomap \<Rightarrow> name \<Rightarrow> ContainerRef list \<Rightarrow> name list \<Rightarrow> name list \<Rightarrow> name list" where
  "container_deps_loop units self [] seen deps = deps"
| "container_deps_loop units self (ref # refs) seen deps =
     (if crExternal ref \<or> crName ref = self \<or> crName ref \<in> set seen
      then container_deps_loop units self refs seen deps
      else if \<not> gm_has units (crName ref) then container_deps_loop units self refs seen deps
      else container_deps_loop units self refs (crName ref # seen) (deps @ [crName ref]))"

definition appendContainerDeps ::
  "name list \<Rightarrow> Project \<Rightarrow> (name, Unit) gomap \<Rightarrow> Unit \<Rightarrow> name \<Rightarrow> name list" where
  "appendContainerDeps deps proj units unit distro =
     container_deps_loop units (uName unit) (ContainerRefsOf proj unit distro) deps deps"

section \<open>Runtime closure of build dependencies\<close>

text \<open>
  The inner loop over the runtime dependencies of one unit, with the three variables it
  changes: the rest of the queue, \<^verbatim>\<open>seen\<close> and \<^verbatim>\<open>deps\<close>.
\<close>

fun runtime_push ::
  "(name, Unit) gomap \<Rightarrow> name \<Rightarrow> name list \<Rightarrow> name list \<times> name list \<times> name list \<Rightarrow>
   name list \<times> name list \<times> name list" where
  "runtime_push units self [] st = st"
| "runtime_push units self (r # rs) (queue, seen, deps) =
     (if r = self \<or> r \<in> set seen then runtime_push units self rs (queue, seen, deps)
      else if \<not> gm_has units r then runtime_push units self rs (queue, r # seen, deps)
      else runtime_push units self rs (queue @ [r], r # seen, deps @ [r]))"

definition unseen :: "(name, Unit) gomap \<Rightarrow> name list \<Rightarrow> nat" where
  "unseen units seen = card (set (gm_keys units) - set seen)"

lemma unseen_Cons_le: "unseen units (r # seen) \<le> unseen units seen"
  unfolding unseen_def by (rule card_mono) auto

lemma unseen_Cons_less:
  "gm_has units r \<Longrightarrow> r \<notin> set seen \<Longrightarrow> unseen units (r # seen) < unseen units seen"
  unfolding unseen_def gm_has_iff by (rule psubset_card_mono) auto

lemma runtime_push_unseen:
  "runtime_push units self rs (queue, seen, deps) = (queue', seen', deps') \<Longrightarrow>
   unseen units seen' < unseen units seen \<or> (unseen units seen' = unseen units seen \<and> queue' = queue)"
proof (induction rs arbitrary: queue seen deps)
  case (Cons r rs)
  consider "r = self \<or> r \<in> set seen" | "r \<noteq> self" "r \<notin> set seen" "\<not> gm_has units r"
    | "r \<noteq> self" "r \<notin> set seen" "gm_has units r" by blast
  then show ?case
  proof cases
    case 1
    with Cons show ?thesis by auto
  next
    case 2
    then have "unseen units seen' < unseen units (r # seen) \<or>
        (unseen units seen' = unseen units (r # seen) \<and> queue' = queue)"
      using Cons.IH [of queue "r # seen" deps] Cons.prems by simp
    then show ?thesis using unseen_Cons_le [of units r seen] by linarith
  next
    case 3
    then have "unseen units seen' \<le> unseen units (r # seen)"
      using Cons.IH [of "queue @ [r]" "r # seen" "deps @ [r]"] Cons.prems by auto
    then show ?thesis using unseen_Cons_less [OF 3(3,2)] by linarith
  qed
qed simp

function runtime_expand ::
  "(name, Unit) gomap \<Rightarrow> name \<Rightarrow> name \<Rightarrow> name list \<Rightarrow> name list \<Rightarrow> name list \<Rightarrow> name list" where
  "runtime_expand units self distro [] seen deps = deps"
| "runtime_expand units self distro (q # queue) seen deps =
     (case map_of units q of
        None \<Rightarrow> runtime_expand units self distro queue seen deps
      | Some u \<Rightarrow>
          (case runtime_push units self (RuntimeDepsForDistro u distro) (queue, seen, deps) of
             (queue', seen', deps') \<Rightarrow> runtime_expand units self distro queue' seen' deps'))"
  by pat_completeness auto

termination runtime_expand
proof (relation "measures [\<lambda>(units, self, distro, queue, seen, deps). unseen units seen,
    \<lambda>(units, self, distro, queue, seen, deps). length queue]", goal_cases)
  case (3 units self distro q queue seen deps u queue' y seen' deps')
  then have "runtime_push units self (RuntimeDepsForDistro u distro) (queue, seen, deps) =
      (queue', seen', deps')" by simp
  from runtime_push_unseen [OF this] show ?case by auto
qed auto

definition appendRuntimeClosureOfDeps ::
  "name list \<Rightarrow> (name, Unit) gomap \<Rightarrow> name \<Rightarrow> name \<Rightarrow> name list" where
  "appendRuntimeClosureOfDeps deps units self distro = runtime_expand units self distro deps deps deps"

section \<open>Building the graph\<close>

fun resolve_deps_loop :: "Project \<Rightarrow> name \<Rightarrow> name list \<Rightarrow> name list \<Rightarrow> name list" where
  "resolve_deps_loop proj distro [] out = out"
| "resolve_deps_loop proj distro (d # ds) out =
     (let r = ResolveProvidesForDistro proj d distro;
          resolved = (if r = [] then d else r)
      in if resolved \<in> set out then resolve_deps_loop proj distro ds out
         else resolve_deps_loop proj distro ds (out @ [resolved]))"

definition resolveDeps :: "name list \<Rightarrow> Project \<Rightarrow> name \<Rightarrow> name list" where
  "resolveDeps deps proj distro = resolve_deps_loop proj distro deps []"

text \<open>The catalog flattened by name, the first entry met for a name kept.\<close>

fun first_units :: "(name \<times> Unit) list \<Rightarrow> (name, Unit) gomap \<Rightarrow> (name, Unit) gomap" where
  "first_units [] units = units"
| "first_units ((name, u) # us) units =
     (if gm_has units name then first_units us units else first_units us (gm_put name u units))"

definition dag_units :: "Project \<Rightarrow> name \<Rightarrow> (name, Unit) gomap \<times> bool" where
  "dag_units proj effectiveDistro =
     (case (if effectiveDistro \<noteq> [] then map_of (pDistroViews proj) effectiveDistro else None) of
        Some view \<Rightarrow> (view, True)
      | None \<Rightarrow> (first_units (AllUnits proj) [], False))"

definition unit_node :: "Project \<Rightarrow> (name, Unit) gomap \<Rightarrow> name \<Rightarrow> name \<Rightarrow> Unit \<Rightarrow> Node" where
  "unit_node proj units effectiveDistro name unit =
     (let resolveDistro = (if effectiveDistro = [] then uDistro unit else effectiveDistro);
          deps0 = DepsForDistro unit resolveDistro;
          deps1 = (if uClass unit = ''image'' then deps0 @ uArtifacts unit else deps0);
          deps2 = appendContainerDeps deps1 proj units unit resolveDistro;
          deps3 = (if uClass unit \<noteq> ''image''
                   then appendRuntimeClosureOfDeps deps2 units name resolveDistro else deps2)
      in \<lparr>ndUnit = unit, ndDeps = resolveDeps deps3 proj resolveDistro, ndRdeps = []\<rparr>)"

text \<open>
  The validation of one node's dependencies: the reverse edge is appended at the target,
  the kept dependencies are collected in \<^verbatim>\<open>filtered\<close>.
\<close>

fun link_deps :: "bool \<Rightarrow> name \<Rightarrow> name list \<Rightarrow> nodes \<Rightarrow> name list \<Rightarrow> DagError + nodes \<times> name list" where
  "link_deps allow name [] nodes filtered = Inr (nodes, filtered)"
| "link_deps allow name (dep # deps) nodes filtered =
     (case map_of nodes dep of
        None \<Rightarrow> if allow then link_deps allow name deps nodes filtered
                else Inl (MissingDep name dep)
      | Some target \<Rightarrow>
          link_deps allow name deps
            (gm_put dep (target\<lparr>ndRdeps := ndRdeps target @ [name]\<rparr>) nodes) (filtered @ [dep]))"

fun link_nodes :: "bool \<Rightarrow> name list \<Rightarrow> nodes \<Rightarrow> DagError + nodes" where
  "link_nodes allow [] nodes = Inr nodes"
| "link_nodes allow (name # names) nodes =
     (case map_of nodes name of
        None \<Rightarrow> Inl (NilNode name)
      | Some node \<Rightarrow>
          (case link_deps allow name (ndDeps node) nodes [] of
             Inl e \<Rightarrow> Inl e
           | Inr (nodes', filtered) \<Rightarrow>
               (case map_of nodes' name of
                  None \<Rightarrow> Inl (NilNode name)
                | Some node' \<Rightarrow>
                    link_nodes allow names (gm_put name (node'\<lparr>ndDeps := filtered\<rparr>) nodes'))))"

definition BuildDAG :: "Project \<Rightarrow> name \<Rightarrow> DagError + DAG" where
  "BuildDAG proj effectiveDistro =
     (case dag_units proj effectiveDistro of
        (units, allowMissingDeps) \<Rightarrow>
          let nodes = map (\<lambda>(name, unit). (name, unit_node proj units effectiveDistro name unit)) units
          in case link_nodes allowMissingDeps (gm_keys nodes) nodes of
               Inl e \<Rightarrow> Inl e
             | Inr nodes' \<Rightarrow>
                 Inr \<lparr>dNodes = map (\<lambda>(name, node). (name, node\<lparr>ndRdeps := sort (ndRdeps node)\<rparr>)) nodes',
                      dOrder = Inr [], dSorted = False\<rparr>)"

section \<open>Well-formed graphs\<close>

definition deps_graph :: "nodes \<Rightarrow> graph" where
  "deps_graph ns = map (\<lambda>(n, nd). (n, ndDeps nd)) ns"

definition rdeps_graph :: "nodes \<Rightarrow> graph" where
  "rdeps_graph ns = map (\<lambda>(n, nd). (n, ndRdeps nd)) ns"

text \<open>
  What every reader of a graph relies on: names are unique, each edge occurs once and ends
  in a node, and the reverse edges are the converse of the edges.
\<close>

definition dag_ok :: "nodes \<Rightarrow> bool" where
  "dag_ok ns \<longleftrightarrow> gm_ok ns \<and>
     (\<forall>(n, nd) \<in> set ns. distinct (ndDeps nd) \<and> set (ndDeps nd) \<subseteq> set (gm_keys ns) \<and>
        distinct (ndRdeps nd) \<and> set (ndRdeps nd) = {m. n \<in> set (succs (deps_graph ns) m)})"

lemma keys_deps_graph [simp]: "map fst (deps_graph ns) = map fst ns"
  by (auto simp: deps_graph_def)

lemma keys_rdeps_graph [simp]: "map fst (rdeps_graph ns) = map fst ns"
  by (auto simp: rdeps_graph_def)

lemma map_of_deps_graph [simp]: "map_of (deps_graph ns) n = map_option ndDeps (map_of ns n)"
  unfolding deps_graph_def by (rule map_of_map_val)

lemma map_of_rdeps_graph [simp]: "map_of (rdeps_graph ns) n = map_option ndRdeps (map_of ns n)"
  unfolding rdeps_graph_def by (rule map_of_map_val)

lemma succs_deps_Some: "map_of ns n = Some nd \<Longrightarrow> succs (deps_graph ns) n = ndDeps nd"
  by (simp add: succs_def gm_get_def)

lemma succs_rdeps_Some: "map_of ns n = Some nd \<Longrightarrow> succs (rdeps_graph ns) n = ndRdeps nd"
  by (simp add: succs_def gm_get_def)

lemma dag_okD:
  assumes "dag_ok ns" and "map_of ns n = Some nd"
  shows "distinct (ndDeps nd)" and "set (ndDeps nd) \<subseteq> set (gm_keys ns)" and "distinct (ndRdeps nd)"
    and "set (ndRdeps nd) = {m. n \<in> set (succs (deps_graph ns) m)}"
  using assms map_of_SomeD [OF assms(2)] by (auto simp: dag_ok_def)

lemma dag_ok_closed: "dag_ok ns \<Longrightarrow> closed_graph (deps_graph ns)"
proof -
  assume ok: "dag_ok ns"
  have "set ds \<subseteq> set (gm_keys ns)" if "(n, ds) \<in> set (deps_graph ns)" for n ds
    using that ok by (fastforce simp: deps_graph_def dag_ok_def)
  then show ?thesis unfolding closed_graph_def keys_deps_graph by blast
qed

lemma dag_ok_rdeps_closed: "dag_ok ns \<Longrightarrow> closed_graph (rdeps_graph ns)"
proof -
  assume ok: "dag_ok ns"
  have "set rs \<subseteq> set (gm_keys ns)" if "(n, rs) \<in> set (rdeps_graph ns)" for n rs
    using that ok succs_key [of n "deps_graph ns"]
    by (fastforce simp: rdeps_graph_def dag_ok_def)
  then show ?thesis unfolding closed_graph_def keys_rdeps_graph by blast
qed

lemma rdeps_converse:
  assumes "dag_ok ns"
  shows "edges (rdeps_graph ns) = (edges (deps_graph ns))\<inverse>"
proof -
  have "(n, m) \<in> edges (rdeps_graph ns) \<longleftrightarrow> (m, n) \<in> edges (deps_graph ns)" for n m
  proof (cases "map_of ns n")
    case None
    then have "n \<notin> set (gm_keys ns)" by (simp add: map_of_eq_None_iff)
    then have "n \<notin> set (succs (deps_graph ns) m)"
      using closed_graph_succs [OF dag_ok_closed [OF assms], of m] by auto
    with None show ?thesis by (simp add: edges_iff succs_None)
  next
    case (Some nd)
    then show ?thesis
      using dag_okD(4) [OF assms Some] by (simp add: edges_iff succs_rdeps_Some)
  qed
  then show ?thesis by auto
qed

section \<open>What the linking pass computes\<close>

definition add_rdeps :: "name \<Rightarrow> name list \<Rightarrow> nodes \<Rightarrow> nodes" where
  "add_rdeps name deps ns =
     map (\<lambda>(x, nd). (x, nd\<lparr>ndRdeps := ndRdeps nd @ map (\<lambda>_. name) (filter (\<lambda>d. d = x) deps)\<rparr>)) ns"

lemma gm_put_existing:
  "gm_ok m \<Longrightarrow> map_of m k = Some v \<Longrightarrow>
   gm_put k (f v) m = map (\<lambda>(x, w). (x, if x = k then f w else w)) m"
proof (induction m)
  case (Cons a m)
  obtain x w where a: "a = (x, w)" by (cases a)
  show ?case
  proof (cases "x = k")
    case True
    then have "map (\<lambda>(x, w). (x, if x = k then f w else w)) m = m"
      using Cons.prems(1) a by (intro map_idI) force
    with True a Cons.prems(2) show ?thesis by simp
  next
    case False
    with a Cons show ?thesis by simp
  qed
qed simp

lemma keys_add_rdeps [simp]: "map fst (add_rdeps name deps ns) = map fst ns"
  by (auto simp: add_rdeps_def)

lemma gm_has_add_rdeps [simp]: "gm_has (add_rdeps name deps ns) = gm_has ns"
  using keys_add_rdeps [of name deps ns] by (auto simp: fun_eq_iff gm_has_iff)

lemma add_rdeps_Nil [simp]: "add_rdeps name [] ns = ns"
  by (auto simp: add_rdeps_def intro!: map_idI)

lemma add_rdeps_missing: "\<not> gm_has ns d \<Longrightarrow> add_rdeps name (d # deps) ns = add_rdeps name deps ns"
  unfolding add_rdeps_def gm_has_iff by (rule map_cong) (force, force)

lemma add_rdeps_step:
  assumes "gm_ok ns" and "map_of ns d = Some t"
  shows "add_rdeps name deps (gm_put d (t\<lparr>ndRdeps := ndRdeps t @ [name]\<rparr>) ns) = add_rdeps name (d # deps) ns"
  unfolding gm_put_existing [OF assms, of "\<lambda>t. t\<lparr>ndRdeps := ndRdeps t @ [name]\<rparr>"] add_rdeps_def
  by (auto intro!: map_cong)

lemma link_deps_eq:
  "gm_ok ns \<Longrightarrow>
   link_deps allow name deps ns acc =
     (if allow \<or> (\<forall>d \<in> set deps. gm_has ns d)
      then Inr (add_rdeps name deps ns, acc @ filter (gm_has ns) deps)
      else Inl (MissingDep name (hd (filter (\<lambda>d. \<not> gm_has ns d) deps))))"
proof (induction deps arbitrary: ns acc)
  case (Cons d deps)
  show ?case
  proof (cases "map_of ns d")
    case None
    then have "\<not> gm_has ns d" by (simp add: gm_has_def)
    with None Cons.IH [OF Cons.prems, of acc] show ?thesis
      by (cases allow) (simp_all add: add_rdeps_missing)
  next
    case (Some t)
    let ?ns = "gm_put d (t\<lparr>ndRdeps := ndRdeps t @ [name]\<rparr>) ns"
    have has: "gm_has ?ns = gm_has ns"
      using Some by (auto simp: gm_has_def fun_eq_iff)
    have "gm_has ns d" using Some by (simp add: gm_has_def)
    with Some Cons has show ?thesis
      by (simp add: add_rdeps_step [OF Cons.prems Some])
  qed
qed simp

text \<open>
  The graph after the nodes of \<open>ms\<close> have been linked, read off the initial nodes \<open>ns\<close>.
\<close>

definition linked :: "nodes \<Rightarrow> name list \<Rightarrow> name \<Rightarrow> Node \<Rightarrow> Node" where
  "linked ns ms x nd = nd\<lparr>
     ndDeps := (if x \<in> set ms then filter (gm_has ns) (ndDeps nd) else ndDeps nd),
     ndRdeps := ndRdeps nd @
       concat (map (\<lambda>m. map (\<lambda>_. m) (filter (\<lambda>d. d = x) (succs (deps_graph ns) m))) ms)\<rparr>"

abbreviation linked_nodes :: "nodes \<Rightarrow> name list \<Rightarrow> nodes" where
  "linked_nodes ns ms \<equiv> map (\<lambda>(x, nd). (x, linked ns ms x nd)) ns"

lemma map_of_linked: "map_of (linked_nodes ns ms) x = map_option (linked ns ms x) (map_of ns x)"
  by (rule map_of_map_val)

lemma linked_step:
  assumes ok: "gm_ok ns" and m: "map_of ns m = Some nd" "m \<notin> set ms"
  shows "gm_put m ((linked ns ms m nd)\<lparr>
      ndRdeps := ndRdeps (linked ns ms m nd) @ map (\<lambda>_. m) (filter (\<lambda>d. d = m) (ndDeps nd)),
      ndDeps := filter (gm_has ns) (ndDeps nd)\<rparr>)
    (add_rdeps m (ndDeps nd) (linked_nodes ns ms)) = linked_nodes ns (ms @ [m])"
proof -
  let ?mid = "add_rdeps m (ndDeps nd) (linked_nodes ns ms)"
  let ?nd = "(linked ns ms m nd)\<lparr>ndRdeps := ndRdeps (linked ns ms m nd) @
      map (\<lambda>_. m) (filter (\<lambda>d. d = m) (ndDeps nd))\<rparr>"
  have mid: "?mid = map (\<lambda>(x, w). (x, (linked ns ms x w)\<lparr>ndRdeps := ndRdeps (linked ns ms x w) @
      map (\<lambda>_. m) (filter (\<lambda>d. d = x) (ndDeps nd))\<rparr>)) ns"
    by (auto simp: add_rdeps_def)
  have ok': "gm_ok ?mid" using ok by simp
  have "map_of ?mid m = Some ?nd"
    unfolding mid map_of_map_val using m(1) by simp
  from gm_put_existing [OF ok' this, of "\<lambda>w. w\<lparr>ndDeps := filter (gm_has ns) (ndDeps nd)\<rparr>"]
  have put: "gm_put m (?nd\<lparr>ndDeps := filter (gm_has ns) (ndDeps nd)\<rparr>) ?mid =
      map (\<lambda>(x, w). (x, if x = m then w\<lparr>ndDeps := filter (gm_has ns) (ndDeps nd)\<rparr> else w)) ?mid" .
  have "(if x = m then ((linked ns ms x w)\<lparr>ndRdeps := ndRdeps (linked ns ms x w) @
          map (\<lambda>_. m) (filter (\<lambda>d. d = x) (ndDeps nd))\<rparr>)\<lparr>ndDeps := filter (gm_has ns) (ndDeps nd)\<rparr>
        else (linked ns ms x w)\<lparr>ndRdeps := ndRdeps (linked ns ms x w) @
          map (\<lambda>_. m) (filter (\<lambda>d. d = x) (ndDeps nd))\<rparr>) = linked ns (ms @ [m]) x w"
    if "(x, w) \<in> set ns" for x w
  proof -
    have "x = m \<Longrightarrow> w = nd" using that m(1) ok by (metis map_of_is_SomeI option.inject)
    then show ?thesis by (auto simp: linked_def succs_deps_Some [OF m(1)])
  qed
  then have "map (\<lambda>(x, w). (x, if x = m then w\<lparr>ndDeps := filter (gm_has ns) (ndDeps nd)\<rparr> else w)) ?mid =
      linked_nodes ns (ms @ [m])"
    unfolding mid map_map by (intro map_cong) auto
  with put show ?thesis by simp
qed

definition link_fine :: "bool \<Rightarrow> nodes \<Rightarrow> name \<Rightarrow> bool" where
  "link_fine allow ns m \<longleftrightarrow> allow \<or> set (succs (deps_graph ns) m) \<subseteq> set (gm_keys ns)"

lemma link_nodes_eq:
  assumes ok: "gm_ok ns"
  shows "distinct (ms @ rest) \<Longrightarrow> set rest \<subseteq> set (gm_keys ns) \<Longrightarrow>
    case link_nodes allow rest (linked_nodes ns ms) of
      Inr ns' \<Rightarrow> (\<forall>m \<in> set rest. link_fine allow ns m) \<and> ns' = linked_nodes ns (ms @ rest)
    | Inl e \<Rightarrow> \<exists>m d. e = MissingDep m d \<and> m \<in> set rest \<and> \<not> allow \<and>
                 d \<in> set (succs (deps_graph ns) m) \<and> d \<notin> set (gm_keys ns)"
proof (induction rest arbitrary: ms)
  case (Cons m rest)
  obtain nd where nd: "map_of ns m = Some nd"
    using Cons.prems(2) map_of_key_Some [of m ns] by auto
  have fresh: "m \<notin> set ms" using Cons.prems(1) by simp
  let ?cur = "linked_nodes ns ms"
  have cur: "map_of ?cur m = Some (linked ns ms m nd)" by (simp add: map_of_linked nd)
  have deps: "ndDeps (linked ns ms m nd) = ndDeps nd" using fresh by (simp add: linked_def)
  have has: "gm_has ?cur = gm_has ns" by (auto simp: fun_eq_iff gm_has_def map_of_linked)
  have okc: "gm_ok ?cur" using ok by simp
  have link: "link_deps allow m (ndDeps nd) ?cur [] =
     (if allow \<or> (\<forall>d \<in> set (ndDeps nd). gm_has ns d)
      then Inr (add_rdeps m (ndDeps nd) ?cur, filter (gm_has ns) (ndDeps nd))
      else Inl (MissingDep m (hd (filter (\<lambda>d. \<not> gm_has ns d) (ndDeps nd)))))"
    using link_deps_eq [OF okc, of allow m "ndDeps nd" "[]"] by (simp add: has)
  show ?case
  proof (cases "allow \<or> (\<forall>d \<in> set (ndDeps nd). gm_has ns d)")
    case True
    have look: "map_of (add_rdeps m (ndDeps nd) ?cur) m = Some ((linked ns ms m nd)\<lparr>ndRdeps :=
        ndRdeps (linked ns ms m nd) @ map (\<lambda>_. m) (filter (\<lambda>d. d = m) (ndDeps nd))\<rparr>)"
      unfolding add_rdeps_def map_of_map_val by (simp add: nd)
    have "link_nodes allow (m # rest) ?cur = link_nodes allow rest (linked_nodes ns (ms @ [m]))"
      using True linked_step [OF ok nd fresh] by (simp add: cur deps link look)
    moreover have "link_fine allow ns m"
      using True by (auto simp: link_fine_def succs_deps_Some [OF nd] gm_has_iff)
    ultimately show ?thesis
      using Cons.IH [of "ms @ [m]"] Cons.prems by (auto split: sum.splits)
  next
    case False
    then obtain d where "d \<in> set (ndDeps nd)" "\<not> gm_has ns d" by blast
    then have "filter (\<lambda>d. \<not> gm_has ns d) (ndDeps nd) \<noteq> []" by (auto simp: filter_empty_conv)
    then have "hd (filter (\<lambda>d. \<not> gm_has ns d) (ndDeps nd)) \<in> set (filter (\<lambda>d. \<not> gm_has ns d) (ndDeps nd))"
      by (rule hd_in_set)
    then have "hd (filter (\<lambda>d. \<not> gm_has ns d) (ndDeps nd)) \<in> set (succs (deps_graph ns) m)"
      "hd (filter (\<lambda>d. \<not> gm_has ns d) (ndDeps nd)) \<notin> set (gm_keys ns)"
      by (simp_all add: succs_deps_Some [OF nd] gm_has_iff)
    moreover have "link_deps allow m (ndDeps nd) ?cur [] =
        Inl (MissingDep m (hd (filter (\<lambda>d. \<not> gm_has ns d) (ndDeps nd))))"
      unfolding link using False by (rule if_not_P)
    then have err: "link_nodes allow (m # rest) ?cur =
        Inl (MissingDep m (hd (filter (\<lambda>d. \<not> gm_has ns d) (ndDeps nd))))"
      by (simp add: cur deps)
    ultimately show ?thesis unfolding err sum.case using False by auto
  qed
qed simp

text \<open>The nodes before linking and the well-formedness of the maps they are read from.\<close>

definition raw_nodes :: "Project \<Rightarrow> name \<Rightarrow> nodes" where
  "raw_nodes p d =
     map (\<lambda>(name, unit). (name, unit_node p (fst (dag_units p d)) d name unit)) (fst (dag_units p d))"

definition views_ok :: "Project \<Rightarrow> bool" where
  "views_ok p \<longleftrightarrow> list_all (\<lambda>(d, view). gm_ok view) (pDistroViews p)"

lemma first_units_ok: "gm_ok units \<Longrightarrow> gm_ok (first_units us units)"
  by (induction us units rule: first_units.induct) auto

lemma dag_units_ok: "views_ok p \<Longrightarrow> gm_ok (fst (dag_units p d))"
  by (auto simp: dag_units_def views_ok_def list_all_iff first_units_ok
      split: option.splits if_splits dest!: map_of_SomeD)

lemma keys_raw_nodes [simp]: "gm_keys (raw_nodes p d) = gm_keys (fst (dag_units p d))"
  by (simp add: raw_nodes_def)

lemma distinct_resolve_deps_loop: "distinct out \<Longrightarrow> distinct (resolve_deps_loop p d ds out)"
  by (induction ds arbitrary: out) (auto simp: Let_def)

lemma raw_node:
  assumes "(n, nd) \<in> set (raw_nodes p d)"
  shows "distinct (ndDeps nd)" and "ndRdeps nd = []"
  using assms
  by (auto simp: raw_nodes_def unit_node_def Let_def resolveDeps_def distinct_resolve_deps_loop)

definition final_node :: "nodes \<Rightarrow> name \<Rightarrow> Node \<Rightarrow> Node" where
  "final_node ns x nd = nd\<lparr>
     ndDeps := filter (gm_has ns) (ndDeps nd),
     ndRdeps := sort (filter (\<lambda>m. x \<in> set (succs (deps_graph ns) m)) (gm_keys ns))\<rparr>"

lemma filter_eq_distinct:
  "distinct xs \<Longrightarrow> filter (\<lambda>d. d = x) xs = (if x \<in> set xs then [x] else [])"
  by (induction xs) auto

lemma rdeps_once:
  "(\<And>m. m \<in> set ms \<Longrightarrow> distinct (f m)) \<Longrightarrow>
   concat (map (\<lambda>m. map (\<lambda>_. m) (filter (\<lambda>d. d = x) (f m))) ms) = filter (\<lambda>m. x \<in> set (f m)) ms"
  by (induction ms) (auto simp: filter_eq_distinct)

lemma final_linked:
  assumes "(x, nd) \<in> set (raw_nodes p d)" and "gm_ok (raw_nodes p d)"
  shows "(linked (raw_nodes p d) (gm_keys (raw_nodes p d)) x nd)\<lparr>ndRdeps :=
      sort (ndRdeps (linked (raw_nodes p d) (gm_keys (raw_nodes p d)) x nd))\<rparr> = final_node (raw_nodes p d) x nd"
proof -
  have "distinct (succs (deps_graph (raw_nodes p d)) m)" if key: "m \<in> set (gm_keys (raw_nodes p d))" for m
  proof -
    obtain md where "map_of (raw_nodes p d) m = Some md" using map_of_key_Some [OF key] by blast
    then show ?thesis using raw_node(1) [OF map_of_SomeD] by (simp add: succs_deps_Some)
  qed
  then have "concat (map (\<lambda>m. map (\<lambda>_. m) (filter (\<lambda>e. e = x) (succs (deps_graph (raw_nodes p d)) m)))
      (gm_keys (raw_nodes p d))) =
    filter (\<lambda>m. x \<in> set (succs (deps_graph (raw_nodes p d)) m)) (gm_keys (raw_nodes p d))"
    by (rule rdeps_once)
  moreover have "x \<in> set (gm_keys (raw_nodes p d))"
    unfolding set_map using assms(1) by (rule rev_image_eqI) simp
  ultimately show ?thesis
    unfolding linked_def final_node_def by (simp add: raw_node(2) [OF assms(1)] del: keys_raw_nodes)
qed

lemma linked_Nil [simp]: "linked ns [] x nd = nd"
  by (simp add: linked_def)

text \<open>The graph that is built, in closed form.\<close>

lemma BuildDAG_eq:
  assumes "views_ok p"
  shows "case BuildDAG p d of
      Inr g \<Rightarrow> (\<forall>m \<in> set (gm_keys (raw_nodes p d)). link_fine (snd (dag_units p d)) (raw_nodes p d) m) \<and>
        g = \<lparr>dNodes = map (\<lambda>(x, nd). (x, final_node (raw_nodes p d) x nd)) (raw_nodes p d),
             dOrder = Inr [], dSorted = False\<rparr>
    | Inl e \<Rightarrow> \<exists>m t. e = MissingDep m t \<and> m \<in> set (gm_keys (raw_nodes p d)) \<and> \<not> snd (dag_units p d) \<and>
        t \<in> set (succs (deps_graph (raw_nodes p d)) m) \<and> t \<notin> set (gm_keys (raw_nodes p d))"
proof -
  let ?ns = "raw_nodes p d" and ?allow = "snd (dag_units p d)"
  have ok: "gm_ok ?ns" using dag_units_ok [OF assms, of d] by simp
  have run: "BuildDAG p d =
    (case link_nodes ?allow (gm_keys ?ns) ?ns of
       Inl e \<Rightarrow> Inl e
     | Inr nodes' \<Rightarrow> Inr \<lparr>dNodes = map (\<lambda>(n, nd). (n, nd\<lparr>ndRdeps := sort (ndRdeps nd)\<rparr>)) nodes',
          dOrder = Inr [], dSorted = False\<rparr>)"
    by (simp add: BuildDAG_def raw_nodes_def case_prod_unfold Let_def)
  have start: "linked_nodes ?ns [] = ?ns" by (auto intro!: map_idI)
  have fin: "map (\<lambda>(n, nd). (n, nd\<lparr>ndRdeps := sort (ndRdeps nd)\<rparr>)) (linked_nodes ?ns (gm_keys ?ns)) =
      map (\<lambda>(x, nd). (x, final_node ?ns x nd)) ?ns"
    using final_linked [of _ _ p d] ok unfolding map_map by (intro map_cong) auto
  show ?thesis
    using link_nodes_eq [OF ok, of "[]" "gm_keys ?ns" ?allow] ok unfolding run start
    by (auto simp: fin simp del: keys_raw_nodes map_map split: sum.splits)
qed

lemma dag_ok_final:
  assumes ok: "gm_ok ns" and dist: "\<And>n nd. (n, nd) \<in> set ns \<Longrightarrow> distinct (ndDeps nd)"
  shows "dag_ok (map (\<lambda>(x, nd). (x, final_node ns x nd)) ns)" (is "dag_ok ?fs")
proof -
  have succs: "set (succs (deps_graph ?fs) m) = {d \<in> set (succs (deps_graph ns) m). gm_has ns d}" for m
    by (cases "map_of ns m") (auto simp: succs_def gm_get_def map_of_map_val final_node_def)
  have "distinct (ndDeps fd) \<and> set (ndDeps fd) \<subseteq> set (gm_keys ?fs) \<and> distinct (ndRdeps fd) \<and>
      set (ndRdeps fd) = {m. n \<in> set (succs (deps_graph ?fs) m)}" if mem: "(n, fd) \<in> set ?fs" for n fd
  proof -
    obtain nd where nd: "(n, nd) \<in> set ns" "fd = final_node ns n nd" using mem by auto
    have key: "n \<in> set (gm_keys ns)" unfolding set_map using nd(1) by (rule rev_image_eqI) simp
    have "n \<in> set (succs (deps_graph ns) m) \<Longrightarrow> m \<in> set (gm_keys ns)" for m
      using succs_key [of n "deps_graph ns" m] by simp
    then show ?thesis
      using key ok dist [OF nd(1)] unfolding nd(2) succs
      by (auto simp: final_node_def gm_has_iff)
  qed
  moreover have "gm_ok ?fs" using ok by simp
  ultimately show ?thesis unfolding dag_ok_def by blast
qed

lemma edges_final:
  "(a, b) \<in> edges (deps_graph (map (\<lambda>(x, nd). (x, final_node ns x nd)) ns)) \<longleftrightarrow>
   (\<exists>nd. map_of ns a = Some nd \<and> b \<in> set (ndDeps nd) \<and> gm_has ns b)"
  by (cases "map_of ns a") (auto simp: edges_iff succs_def gm_get_def map_of_map_val final_node_def)

section \<open>Properties of the construction\<close>

text \<open>
  C9. A graph that is built is well formed: names are unique, edges occur once and end in
  nodes, the reverse edges are the converse of the edges. Its nodes are the units of the
  chosen catalog, and its edges are the resolved dependencies of a unit that are nodes.
\<close>

theorem BuildDAG_well_formed:
  assumes "views_ok p" and "BuildDAG p d = Inr g"
  shows "dag_ok (dNodes g) \<and> gm_keys (dNodes g) = gm_keys (fst (dag_units p d)) \<and>
    (\<forall>a b. (a, b) \<in> edges (deps_graph (dNodes g)) \<longleftrightarrow>
       (\<exists>u. map_of (fst (dag_units p d)) a = Some u \<and>
            b \<in> set (ndDeps (unit_node p (fst (dag_units p d)) d a u)) \<and>
            gm_has (fst (dag_units p d)) b))"
proof -
  let ?ns = "raw_nodes p d"
  have nodes: "dNodes g = map (\<lambda>(x, nd). (x, final_node ?ns x nd)) ?ns"
    using BuildDAG_eq [OF assms(1), of d] assms(2) by simp
  have ok: "gm_ok ?ns" using dag_units_ok [OF assms(1), of d] by simp
  have "dag_ok (dNodes g)"
    unfolding nodes by (rule dag_ok_final [OF ok raw_node(1)])
  moreover have "gm_keys (dNodes g) = gm_keys (fst (dag_units p d))"
    unfolding nodes by simp
  moreover have "map_of ?ns a = map_option (unit_node p (fst (dag_units p d)) d a) (map_of (fst (dag_units p d)) a)" for a
    unfolding raw_nodes_def by (rule map_of_map_val)
  ultimately show ?thesis
    unfolding nodes edges_final gm_has_def by auto
qed

text \<open>
  A graph is always built for a distro with a view. Without one, building fails exactly
  when a dependency of some unit is no unit, and the error names such a pair.
\<close>

theorem BuildDAG_errors:
  assumes "views_ok p"
  shows "(snd (dag_units p d) \<longrightarrow> (\<exists>g. BuildDAG p d = Inr g)) \<and>
    (\<not> snd (dag_units p d) \<longrightarrow>
       ((\<exists>g. BuildDAG p d = Inr g) \<longleftrightarrow>
          (\<forall>n u. map_of (fst (dag_units p d)) n = Some u \<longrightarrow>
             set (ndDeps (unit_node p (fst (dag_units p d)) d n u)) \<subseteq> set (gm_keys (fst (dag_units p d)))))) \<and>
    (\<forall>e. BuildDAG p d = Inl e \<longrightarrow>
       (\<exists>n m u. e = MissingDep n m \<and> map_of (fst (dag_units p d)) n = Some u \<and>
          m \<in> set (ndDeps (unit_node p (fst (dag_units p d)) d n u)) \<and>
          m \<notin> set (gm_keys (fst (dag_units p d)))))"
proof -
  let ?units = "fst (dag_units p d)" and ?ns = "raw_nodes p d"
  have succs: "succs (deps_graph ?ns) n =
      (case map_of ?units n of None \<Rightarrow> [] | Some u \<Rightarrow> ndDeps (unit_node p ?units d n u))" for n
    unfolding raw_nodes_def by (simp add: succs_def gm_get_def map_of_map_val split: option.split)
  show ?thesis
  proof (cases "BuildDAG p d")
    case (Inl e)
    then obtain m t where e: "e = MissingDep m t" "\<not> snd (dag_units p d)"
      "t \<in> set (succs (deps_graph ?ns) m)" "t \<notin> set (gm_keys ?units)"
      using BuildDAG_eq [OF assms, of d] by auto
    from e(3) obtain u where "map_of ?units m = Some u" "t \<in> set (ndDeps (unit_node p ?units d m u))"
      unfolding succs by (cases "map_of ?units m") auto
    with e Inl show ?thesis by auto
  next
    case (Inr g)
    have fine: "link_fine (snd (dag_units p d)) ?ns n" if "n \<in> set (gm_keys ?units)" for n
      using BuildDAG_eq [OF assms, of d] that unfolding Inr sum.case keys_raw_nodes by blast
    have "set (ndDeps (unit_node p ?units d n u)) \<subseteq> set (gm_keys ?units)"
      if "map_of ?units n = Some u" "\<not> snd (dag_units p d)" for n u
      using fine [OF map_of_Some_key [OF that(1)]] that unfolding link_fine_def succs keys_raw_nodes by simp
    with Inr show ?thesis by auto
  qed
qed

definition ex_catalog :: Project where
  "ex_catalog = zero_project\<lparr>pUnitsByModule := [([], [
     (''app'', zero_unit\<lparr>uName := ''app'', uDeps := [''lib'']\<rparr>),
     (''lib'', zero_unit\<lparr>uName := ''lib'', uRuntimeDeps := [''musl'']\<rparr>),
     (''musl'', zero_unit\<lparr>uName := ''musl''\<rparr>)])]\<rparr>"

definition ex_dag :: DAG where
  "ex_dag = \<lparr>dNodes = [
     (''app'', \<lparr>ndUnit = zero_unit\<lparr>uName := ''app'', uDeps := [''lib'']\<rparr>, ndDeps = [''lib'', ''musl''], ndRdeps = []\<rparr>),
     (''lib'', \<lparr>ndUnit = zero_unit\<lparr>uName := ''lib'', uRuntimeDeps := [''musl'']\<rparr>, ndDeps = [], ndRdeps = [''app'']\<rparr>),
     (''musl'', \<lparr>ndUnit = zero_unit\<lparr>uName := ''musl''\<rparr>, ndDeps = [], ndRdeps = [''app'']\<rparr>)],
     dOrder = Inr [], dSorted = False\<rparr>"

lemma ex_BuildDAG: "BuildDAG ex_catalog [] = Inr ex_dag"
  by (simp add: BuildDAG_def ex_catalog_def ex_dag_def dag_units_def AllUnits_def gm_has_def
      unit_node_def DepsForDistro_def RuntimeDepsForDistro_def appendContainerDeps_def ContainerRefsOf_def
      ResolveContainer_def appendRuntimeClosureOfDeps_def resolveDeps_def ResolveProvidesForDistro_def
      zero_unit_def zero_project_def)

lemma ex_views_ok: "views_ok ex_catalog"
  by (simp add: views_ok_def ex_catalog_def zero_project_def)

theorem BuildDAG_well_formed_witness: "dag_ok (dNodes ex_dag)"
  using BuildDAG_well_formed [OF ex_views_ok ex_BuildDAG] by blast

theorem BuildDAG_errors_witness: "\<exists>g. BuildDAG ex_catalog [] = Inr g"
  using BuildDAG_errors [OF ex_views_ok, of "[]"] ex_BuildDAG by blast

end
