(* ===== verification/DagSort.thy ===== *)
theory DagSort
  imports Dag
begin

text \<open>
  \<^verbatim>\<open>DAG.topologicalSort\<close> and its memo \<^verbatim>\<open>DAG.TopologicalSort\<close> of
  \<^verbatim>\<open>internal/resolve/dag.go\<close>: Kahn's algorithm with a queue that is sorted after every
  append. The order it returns is shown to be the lexicographically least order in which
  dependencies come first, so it does not depend on map iteration; it fails exactly on
  cyclic graphs and then names exactly the units that depend on a cycle.
\<close>

section \<open>The algorithm\<close>

type_synonym degrees = "(name, int) gomap"

text \<open>
  \<^verbatim>\<open>for _, rdep := range node.Rdeps { inDegree[rdep]--; if inDegree[rdep] == 0 { ... } }\<close>.
\<close>

fun release :: "name list \<Rightarrow> degrees \<Rightarrow> name list \<Rightarrow> degrees \<times> name list" where
  "release [] inDegree queue = (inDegree, queue)"
| "release (rdep # rdeps) inDegree queue =
     (let n = gm_get 0 inDegree rdep - 1;
          inDegree' = gm_put rdep n inDegree
      in if n = 0 then release rdeps inDegree' (sort (queue @ [rdep]))
         else release rdeps inDegree' queue)"

definition waiting :: "degrees \<Rightarrow> nat" where
  "waiting m = length (filter (\<lambda>(_, v). 0 < v) m)"

lemma waiting_put:
  "waiting (gm_put k (gm_get 0 m k - 1) m) + (if gm_get 0 m k - 1 = 0 then 1 else 0) \<le> waiting m"
  by (induction m) (auto simp: waiting_def)

lemma release_measure:
  "length (snd (release rs m q)) + waiting (fst (release rs m q)) \<le> length q + waiting m"
proof (induction rs m q rule: release.induct)
  case (2 r rs m q)
  let ?n = "gm_get 0 m r - 1"
  show ?case
  proof (cases "?n = 0")
    case True
    then show ?thesis using "2.IH"(1) [OF refl refl True] waiting_put [of r m] by (simp add: Let_def)
  next
    case False
    then show ?thesis using "2.IH"(2) [OF refl refl False] waiting_put [of r m] by (simp add: Let_def)
  qed
qed simp

function kahn :: "nodes \<Rightarrow> degrees \<Rightarrow> name list \<Rightarrow> name list \<Rightarrow> DagError + degrees \<times> name list" where
  "kahn nodes inDegree [] order = Inr (inDegree, order)"
| "kahn nodes inDegree (name # queue) order =
     (case map_of nodes name of
        None \<Rightarrow> Inl (NilNode name)
      | Some node \<Rightarrow>
          kahn nodes (fst (release (ndRdeps node) inDegree queue))
            (snd (release (ndRdeps node) inDegree queue)) (order @ [name]))"
  by pat_completeness auto

termination kahn
proof (relation "measure (\<lambda>(nodes, m, q, order). length q + waiting m)", goal_cases)
  case (2 nodes m name q order node)
  then show ?case using release_measure [of "ndRdeps node" m q] by simp
qed simp

definition topologicalSort :: "nodes \<Rightarrow> DagError + name list" where
  "topologicalSort nodes =
     (let inDegree = map (\<lambda>(name, node). (name, int (length (ndDeps node)))) nodes;
          queue = sort (map fst (filter (\<lambda>(_, deg). deg = 0) inDegree))
      in case kahn nodes inDegree queue [] of
           Inl e \<Rightarrow> Inl e
         | Inr (inDegree', order) \<Rightarrow>
             if length order \<noteq> length nodes
             then Inl (DependencyCycle (sort (map fst (filter (\<lambda>(_, deg). 0 < deg) inDegree'))))
             else Inr order)"

text \<open>The memoizing method: the result and the graph afterwards.\<close>

definition TopologicalSort :: "DAG \<Rightarrow> (DagError + name list) \<times> DAG" where
  "TopologicalSort d =
     (let d' = (if \<not> dSorted d
                then d\<lparr>dOrder := topologicalSort (dNodes d), dSorted := True\<rparr>
                else d)
      in (dOrder d', d'))"

section \<open>Topological orders\<close>

definition topo_order :: "nodes \<Rightarrow> name list \<Rightarrow> bool" where
  "topo_order ns xs \<longleftrightarrow> distinct xs \<and> set xs = set (gm_keys ns) \<and>
     (\<forall>a b. (a, b) \<in> edges (deps_graph ns) \<longrightarrow> precedes xs b a)"

text \<open>The names that may come next after those of \<open>S\<close>.\<close>

definition schedulable :: "nodes \<Rightarrow> name set \<Rightarrow> name set" where
  "schedulable ns S = {n \<in> set (gm_keys ns). n \<notin> S \<and> set (succs (deps_graph ns) n) \<subseteq> S}"

text \<open>A list in which every name is the least one that may come next.\<close>

definition greedy :: "nodes \<Rightarrow> name list \<Rightarrow> bool" where
  "greedy ns xs \<longleftrightarrow> (\<forall>i < length xs. xs ! i \<in> schedulable ns (set (take i xs)) \<and>
      (\<forall>y \<in> schedulable ns (set (take i xs)). xs ! i \<le> y))"

lemma greedy_snoc:
  "greedy ns (xs @ [x]) \<longleftrightarrow> greedy ns xs \<and> x \<in> schedulable ns (set xs) \<and> (\<forall>y \<in> schedulable ns (set xs). x \<le> y)"
proof -
  have split: "(\<forall>i < Suc n. P i) \<longleftrightarrow> (\<forall>i < n. P i) \<and> P n" for n and P :: "nat \<Rightarrow> bool"
    by (auto simp: less_Suc_eq)
  show ?thesis
    unfolding greedy_def by (auto simp: split nth_append)
qed

lemma topo_nth_ready:
  assumes "topo_order ns ys" and "i < length ys"
  shows "ys ! i \<in> schedulable ns (set (take i ys))"
proof -
  have dist: "distinct ys" using assms(1) by (simp add: topo_order_def)
  have "b \<in> set (take i ys)" if b: "b \<in> set (succs (deps_graph ns) (ys ! i))" for b
  proof -
    have "precedes ys b (ys ! i)" using assms(1) b by (simp add: topo_order_def edges_iff)
    then obtain us vs ws where ys: "ys = us @ b # vs @ ys ! i # ws"
      unfolding precedes_def by blast
    then have "ys ! length (us @ b # vs) = ys ! i"
      by (metis append.assoc append_Cons nth_append_length)
    then have "i = length (us @ b # vs)"
      using dist assms(2) ys by (metis append.assoc append_Cons length_append less_add_same_cancel1
          length_greater_0_conv list.distinct(1) nth_eq_iff_index_eq)
    then have "take i ys = us @ b # vs" using ys by (metis append.assoc append_Cons append_eq_conv_conj)
    then show ?thesis by simp
  qed
  moreover have "ys ! i \<notin> set (take i ys)"
    using dist assms(2) by (metis distinct_take id_take_nth_drop not_distinct_conv_prefix
        append_take_drop_id distinct_append disjoint_insert(1) list.simps(15))
  moreover have "ys ! i \<in> set (gm_keys ns)"
    using assms by (metis nth_mem topo_order_def)
  ultimately show ?thesis unfolding schedulable_def by blast
qed

lemma lex_less_first_diff:
  fixes xs ys :: "'a::linorder list"
  assumes "i < length xs" "i < length ys" "take i xs = take i ys" "xs ! i < ys ! i"
  shows "xs \<le> ys"
proof -
  have "xs = take i xs @ xs ! i # drop (Suc i) xs" "ys = take i xs @ ys ! i # drop (Suc i) ys"
    using assms by (metis id_take_nth_drop)+
  moreover have "us @ a # vs < us @ b # ws" if "a < b" for us vs ws and a b :: 'a
    using that by (induction us) auto
  ultimately show ?thesis using assms(4) by (metis less_imp_le)
qed

text \<open>The greedy order is the least of all topological orders.\<close>

lemma greedy_least:
  assumes "greedy ns xs" and "topo_order ns ys" and "length xs = length ys"
  shows "xs \<le> ys"
proof (cases "xs = ys")
  case False
  then have "\<exists>i. i < length xs \<and> xs ! i \<noteq> ys ! i"
    using assms(3) nth_equalityI by blast
  then obtain i where i: "i < length xs" "xs ! i \<noteq> ys ! i" "\<forall>j < i. xs ! j = ys ! j"
    using exists_least_iff [of "\<lambda>i. i < length xs \<and> xs ! i \<noteq> ys ! i"] by auto
  have same: "take i xs = take i ys"
    using i assms(3) by (intro nth_take_lemma) auto
  have "ys ! i \<in> schedulable ns (set (take i xs))"
    using topo_nth_ready [OF assms(2), of i] i(1) assms(3) same by simp
  then have "xs ! i \<le> ys ! i" using assms(1) i(1) unfolding greedy_def by blast
  with i(2) have "xs ! i < ys ! i" by simp
  with i(1) assms(3) same show ?thesis by (intro lex_less_first_diff [of i]) auto
qed simp

section \<open>The invariant of the loop\<close>

lemma greedy_closed:
  assumes "greedy ns xs"
  shows "distinct xs" and "set xs \<subseteq> set (gm_keys ns)"
    and "x \<in> set xs \<Longrightarrow> set (succs (deps_graph ns) x) \<subseteq> set xs"
    and "x \<in> set xs \<Longrightarrow> b \<in> set (succs (deps_graph ns) x) \<Longrightarrow> precedes xs b x"
proof -
  have "distinct xs \<and> set xs \<subseteq> set (gm_keys ns) \<and>
      (\<forall>x \<in> set xs. \<forall>b \<in> set (succs (deps_graph ns) x). precedes xs b x)"
    using assms
  proof (induction xs rule: rev_induct)
    case (snoc x xs)
    then have "x \<in> schedulable ns (set xs)" and IH: "distinct xs \<and> set xs \<subseteq> set (gm_keys ns) \<and>
      (\<forall>x \<in> set xs. \<forall>b \<in> set (succs (deps_graph ns) x). precedes xs b x)"
      by (auto simp: greedy_snoc)
    then have x: "x \<notin> set xs" "x \<in> set (gm_keys ns)" "set (succs (deps_graph ns) x) \<subseteq> set xs"
      by (auto simp: schedulable_def)
    have "precedes (xs @ [x]) b y" if "y \<in> set (xs @ [x])" "b \<in> set (succs (deps_graph ns) y)" for y b
      using that x IH by (cases "y = x") (auto intro: precedes_snoc precedes_append)
    with x IH show ?case by auto
  qed simp
  then show "distinct xs" "set xs \<subseteq> set (gm_keys ns)"
    "x \<in> set xs \<Longrightarrow> set (succs (deps_graph ns) x) \<subseteq> set xs"
    "x \<in> set xs \<Longrightarrow> b \<in> set (succs (deps_graph ns) x) \<Longrightarrow> precedes xs b x"
    using precedes_mem [of xs] by blast+
qed

lemma release_get:
  "distinct rs \<Longrightarrow>
   gm_get 0 (fst (release rs m q)) x = gm_get 0 m x - (if x \<in> set rs then 1 else 0)"
  by (induction rs m q rule: release.induct) (auto simp: Let_def)

lemma release_keys:
  "gm_ok m \<Longrightarrow> gm_ok (fst (release rs m q)) \<and>
   set (gm_keys (fst (release rs m q))) = set (gm_keys m) \<union> set rs"
  by (induction rs m q rule: release.induct) (auto simp: Let_def simp del: set_map)

lemma release_queue:
  "distinct rs \<Longrightarrow> sorted q \<Longrightarrow>
   sorted (snd (release rs m q)) \<and>
   mset (snd (release rs m q)) = mset q + mset (filter (\<lambda>r. gm_get 0 m r = 1) rs)"
proof (induction rs m q rule: release.induct)
  case (2 r rs m q)
  let ?n = "gm_get 0 m r - 1"
  have same: "filter (\<lambda>x. gm_get 0 (gm_put r ?n m) x = 1) rs = filter (\<lambda>x. gm_get 0 m x = 1) rs"
    using "2.prems"(1) by (intro filter_cong) auto
  show ?case
  proof (cases "?n = 0")
    case True
    have "sorted (snd (release rs (gm_put r ?n m) (sort (q @ [r])))) \<and>
        mset (snd (release rs (gm_put r ?n m) (sort (q @ [r])))) =
        mset (sort (q @ [r])) + mset (filter (\<lambda>x. gm_get 0 m x = 1) rs)"
      using "2.IH"(1) [OF refl refl True] "2.prems"(1) unfolding same by (simp del: gm_get_put)
    with True show ?thesis by (simp add: Let_def)
  next
    case False
    have "sorted (snd (release rs (gm_put r ?n m) q)) \<and>
        mset (snd (release rs (gm_put r ?n m) q)) = mset q + mset (filter (\<lambda>x. gm_get 0 m x = 1) rs)"
      using "2.IH"(2) [OF refl refl False] "2.prems" unfolding same by (simp del: gm_get_put)
    with False show ?thesis by (simp add: Let_def)
  qed
qed simp

definition kahn_inv :: "nodes \<Rightarrow> degrees \<Rightarrow> name list \<Rightarrow> name list \<Rightarrow> bool" where
  "kahn_inv ns m q xs \<longleftrightarrow>
     gm_ok m \<and> set (gm_keys m) = set (gm_keys ns) \<and> sorted q \<and> distinct q \<and> greedy ns xs \<and>
     (\<forall>n \<in> set (gm_keys ns). gm_get 0 m n = int (card (set (succs (deps_graph ns) n) - set xs))) \<and>
     set q = schedulable ns (set xs)"

lemma schedulable_insert:
  assumes ok: "dag_ok ns" and g: "greedy ns xs" and x: "x \<in> schedulable ns (set xs)"
  shows "schedulable ns (insert x (set xs)) = schedulable ns (set xs) - {x} \<union>
    {n \<in> set (gm_keys ns). x \<in> set (succs (deps_graph ns) n) \<and>
       card (set (succs (deps_graph ns) n) - set xs) = 1}" (is "?l = ?r")
proof -
  have one: "card (S - set xs) = 1 \<longleftrightarrow> S \<subseteq> insert x (set xs)" if "x \<in> S" "x \<notin> set xs" for S
  proof
    assume "card (S - set xs) = 1"
    then obtain y where "S - set xs = {y}" by (rule card_1_singletonE)
    moreover from this that have "y = x" by (metis DiffI singletonD)
    ultimately have "S - set xs \<subseteq> {x}" by simp
    then show "S \<subseteq> insert x (set xs)" by (auto simp: Diff_subset_conv)
  next
    assume "S \<subseteq> insert x (set xs)"
    with that have "S - set xs = {x}" by blast
    then show "card (S - set xs) = 1" by simp
  qed
  have "x \<notin> set xs" using x by (simp add: schedulable_def)
  have "n \<notin> insert x (set xs)" if "x \<in> set (succs (deps_graph ns) n)" for n
    using that x greedy_closed(3) [OF g, of n] unfolding schedulable_def by blast
  moreover have "card (set (succs (deps_graph ns) n) - set xs) = 1 \<longleftrightarrow>
      set (succs (deps_graph ns) n) \<subseteq> insert x (set xs)" if "x \<in> set (succs (deps_graph ns) n)" for n
    using one [OF that \<open>x \<notin> set xs\<close>] .
  ultimately show ?thesis unfolding schedulable_def by blast
qed

lemma kahn_inv_step:
  assumes ok: "dag_ok ns" and inv: "kahn_inv ns m (x # q) xs" and nd: "map_of ns x = Some nd"
  shows "kahn_inv ns (fst (release (ndRdeps nd) m q)) (snd (release (ndRdeps nd) m q)) (xs @ [x])"
proof -
  let ?rel = "release (ndRdeps nd) m q"
  have g: "greedy ns xs" and x: "x \<in> schedulable ns (set xs)" and srt: "sorted q" "\<forall>y \<in> set q. x \<le> y"
    and okm: "gm_ok m" "set (gm_keys m) = set (gm_keys ns)"
    and deg: "\<And>n. n \<in> set (gm_keys ns) \<Longrightarrow> gm_get 0 m n = int (card (set (succs (deps_graph ns) n) - set xs))"
    and q: "set (x # q) = schedulable ns (set xs)" "distinct (x # q)"
    using inv by (auto simp: kahn_inv_def)
  have new: "x \<notin> set xs" using x by (simp add: schedulable_def)
  have rd: "distinct (ndRdeps nd)" "set (ndRdeps nd) = {n. x \<in> set (succs (deps_graph ns) n)}"
    using dag_okD(3,4) [OF ok nd] by auto
  have rk: "set (ndRdeps nd) \<subseteq> set (gm_keys ns)"
    unfolding rd(2) using succs_key [of x "deps_graph ns"] by auto
  have q': "sorted (snd ?rel)" "mset (snd ?rel) = mset q + mset (filter (\<lambda>r. gm_get 0 m r = 1) (ndRdeps nd))"
    using release_queue [OF rd(1) srt(1)] by auto
  have ones: "set (filter (\<lambda>r. gm_get 0 m r = 1) (ndRdeps nd)) =
      {n \<in> set (gm_keys ns). x \<in> set (succs (deps_graph ns) n) \<and> card (set (succs (deps_graph ns) n) - set xs) = 1}"
    using rk deg rd(2) by (auto simp: subset_iff)
  have setq: "set (snd ?rel) = schedulable ns (set (xs @ [x]))"
    using mset_eq_setD [of "snd ?rel" "q @ filter (\<lambda>r. gm_get 0 m r = 1) (ndRdeps nd)"] q'(2) q
      schedulable_insert [OF ok g x] ones by auto
  have "set q \<inter> set (filter (\<lambda>r. gm_get 0 m r = 1) (ndRdeps nd)) = {}"
  proof -
    have "x \<notin> set (succs (deps_graph ns) n)" if "n \<in> set q" for n
      using that q(1) new unfolding schedulable_def by auto
    then show ?thesis using rd(2) by auto
  qed
  then have "distinct (q @ filter (\<lambda>r. gm_get 0 m r = 1) (ndRdeps nd))" using q(2) rd(1) by simp
  then have "distinct (snd ?rel)"
    using q'(2) by (metis mset_append mset_eq_imp_distinct_iff)
  moreover have "greedy ns (xs @ [x])"
    using g x srt(2) q(1) by (auto simp: greedy_snoc)
  moreover have "gm_get 0 (fst ?rel) n = int (card (set (succs (deps_graph ns) n) - set (xs @ [x])))"
    if "n \<in> set (gm_keys ns)" for n
  proof -
    have "card (set (succs (deps_graph ns) n) - set (xs @ [x])) =
        card (set (succs (deps_graph ns) n) - set xs) - (if x \<in> set (succs (deps_graph ns) n) then 1 else 0)"
      using new by (auto simp: Diff_insert2 [symmetric] card_Diff_singleton_if insert_Diff_if
          Diff_insert [of _ x "set xs"])
    moreover have "x \<in> set (succs (deps_graph ns) n) \<Longrightarrow> 0 < card (set (succs (deps_graph ns) n) - set xs)"
      using new by (auto simp: card_gt_0_iff)
    ultimately show ?thesis
      unfolding release_get [OF rd(1)] using deg [OF that] rd(2) by auto
  qed
  moreover have "gm_ok (fst ?rel)" "set (gm_keys (fst ?rel)) = set (gm_keys ns)"
    using release_keys [OF okm(1), of "ndRdeps nd" q] unfolding okm(2) using rk by blast+
  ultimately show ?thesis
    using q'(1) setq unfolding kahn_inv_def by blast
qed

lemma kahn_correct:
  "dag_ok ns \<Longrightarrow> kahn_inv ns m q xs \<Longrightarrow>
   \<exists>m' xs'. kahn ns m q xs = Inr (m', xs') \<and> kahn_inv ns m' [] xs'"
proof (induction ns m q xs rule: kahn.induct)
  case (2 ns m x q xs)
  then have "set (x # q) = schedulable ns (set xs)" unfolding kahn_inv_def by blast
  then have "x \<in> set (gm_keys ns)" unfolding schedulable_def by auto
  from map_of_key_Some [OF this] obtain nd where nd: "map_of ns x = Some nd" ..
  show ?case
    using "2.IH" [OF nd "2.prems"(1) kahn_inv_step [OF "2.prems" nd]] nd by simp
qed simp

section \<open>The result\<close>

text \<open>The units that can never be scheduled: those that depend on a cycle.\<close>

definition on_cycle_path :: "nodes \<Rightarrow> name set" where
  "on_cycle_path ns = {n \<in> set (gm_keys ns).
     \<exists>c. (n, c) \<in> (edges (deps_graph ns))\<^sup>* \<and> (c, c) \<in> (edges (deps_graph ns))\<^sup>+}"

lemma on_cycle_path_empty:
  assumes "dag_ok ns"
  shows "on_cycle_path ns = {} \<longleftrightarrow> acyclic (edges (deps_graph ns))"
proof -
  have "c \<in> set (gm_keys ns)" if "(c, c) \<in> (edges (deps_graph ns))\<^sup>+" for c
    using closed_graph_trancl [OF dag_ok_closed [OF assms] that] by simp
  then show ?thesis unfolding on_cycle_path_def acyclic_def by blast
qed

lemma kahn_inv_init:
  assumes ok: "dag_ok ns"
  defines "m \<equiv> map (\<lambda>(n, nd). (n, int (length (ndDeps nd)))) ns"
  shows "kahn_inv ns m (sort (map fst (filter (\<lambda>(_, deg). deg = 0) m))) []"
proof -
  have okn: "gm_ok ns" using ok by (simp add: dag_ok_def)
  have keys: "gm_keys m = gm_keys ns" by (simp add: m_def)
  have deg: "gm_get 0 m n = int (card (set (succs (deps_graph ns) n)))" if key: "n \<in> set (gm_keys ns)" for n
  proof -
    obtain nd where nd: "map_of ns n = Some nd" using map_of_key_Some [OF key] ..
    then show ?thesis
      using dag_okD(1) [OF ok nd]
      by (simp add: m_def gm_get_def map_of_map_val succs_deps_Some [OF nd] distinct_card)
  qed
  have okm: "gm_ok m" using okn keys by simp
  have zero: "n \<in> set (map fst (filter (\<lambda>(_, deg). deg = 0) m)) \<longleftrightarrow> n \<in> set (gm_keys ns) \<and> gm_get 0 m n = 0" for n
    unfolding keys_filter_get [OF okm, where z = 0] keys ..
  have "distinct (map fst (filter (\<lambda>(_, deg). deg = 0) m))"
    using okn keys by (simp add: distinct_map_filter)
  moreover have "set (map fst (filter (\<lambda>(_, deg). deg = 0) m)) = schedulable ns {}"
  proof (intro set_eqI)
    fix n
    have "n \<in> set (gm_keys ns) \<Longrightarrow> gm_get 0 m n = 0 \<longleftrightarrow> set (succs (deps_graph ns) n) \<subseteq> {}"
      using deg [of n] by simp
    then show "n \<in> set (map fst (filter (\<lambda>(_, deg). deg = 0) m)) \<longleftrightarrow> n \<in> schedulable ns {}"
      unfolding zero schedulable_def by blast
  qed
  moreover have "greedy ns []" by (simp add: greedy_def)
  ultimately show ?thesis
    using okn keys deg unfolding kahn_inv_def by simp
qed

text \<open>Where the loop stops, the rest of the graph is what depends on a cycle.\<close>

lemma kahn_inv_final:
  assumes ok: "dag_ok ns" and inv: "kahn_inv ns m [] xs"
  shows "set (gm_keys ns) - set xs = on_cycle_path ns"
    and "set (map fst (filter (\<lambda>(_, deg). 0 < deg) m)) = on_cycle_path ns"
proof -
  let ?E = "edges (deps_graph ns)" and ?R = "set (gm_keys ns) - set xs"
  have g: "greedy ns xs" and none: "schedulable ns (set xs) = {}" and okm: "gm_ok m" "set (gm_keys m) = set (gm_keys ns)"
    and deg: "\<And>n. n \<in> set (gm_keys ns) \<Longrightarrow> gm_get 0 m n = int (card (set (succs (deps_graph ns) n) - set xs))"
    using inv by (auto simp: kahn_inv_def)
  have stuck: "\<exists>y \<in> ?R. (x, y) \<in> ?E" if "x \<in> ?R" for x
  proof -
    have "\<not> set (succs (deps_graph ns) x) \<subseteq> set xs" using that none unfolding schedulable_def by blast
    then show ?thesis
      using closed_graph_succs [OF dag_ok_closed [OF ok], of x] by (auto simp: edges_iff)
  qed
  show rest: "?R = on_cycle_path ns"
  proof (intro equalityI subsetI)
    fix n
    assume n: "n \<in> ?R"
    let ?S = "{y \<in> ?R. (n, y) \<in> ?E\<^sup>*}"
    have "\<exists>y \<in> ?S. (x, y) \<in> ?E" if "x \<in> ?S" for x
      using that stuck [of x] by (blast intro: rtrancl_into_rtrancl)
    moreover have "n \<in> ?S" using n by simp
    ultimately have "\<exists>x \<in> ?S. (x, x) \<in> ?E\<^sup>+" by (intro finite_succ_cycle) auto
    then show "n \<in> on_cycle_path ns" using n unfolding on_cycle_path_def by blast
  next
    fix n
    assume "n \<in> on_cycle_path ns"
    then obtain c where n: "n \<in> set (gm_keys ns)" and c: "(n, c) \<in> ?E\<^sup>*" "(c, c) \<in> ?E\<^sup>+"
      unfolding on_cycle_path_def by blast
    have "c \<in> set xs" if "n \<in> set xs"
      using c(1) that greedy_closed(3) [OF g] by (induction) (auto simp: edges_iff)
    moreover have "c \<notin> set xs"
    proof
      assume "c \<in> set xs"
      then have "precedes xs c c"
        using precedes_acyclic_trancl [OF greedy_closed(1) [OF g] _ c(2)] greedy_closed(4) [OF g]
        by (simp add: edges_iff)
      then show False using precedes_irrefl [OF greedy_closed(1) [OF g]] by blast
    qed
    ultimately show "n \<in> ?R" using n by blast
  qed
  have pos: "0 < gm_get 0 m n \<longleftrightarrow> n \<in> ?R" if n: "n \<in> set (gm_keys ns)" for n
  proof (cases "n \<in> set xs")
    case True
    then show ?thesis using greedy_closed(3) [OF g True] deg [OF n] by (simp add: Diff_eq_empty_iff [THEN iffD2])
  next
    case False
    then have "\<not> set (succs (deps_graph ns) n) \<subseteq> set xs" using n none unfolding schedulable_def by blast
    then have "0 < card (set (succs (deps_graph ns) n) - set xs)" by (auto simp: card_gt_0_iff)
    with False n deg [OF n] show ?thesis by simp
  qed
  have "n \<in> set (map fst (filter (\<lambda>(_, deg). 0 < deg) m)) \<longleftrightarrow> n \<in> set (gm_keys m) \<and> 0 < gm_get 0 m n" for n
    by (rule keys_filter_get [OF okm(1)])
  then show "set (map fst (filter (\<lambda>(_, deg). 0 < deg) m)) = on_cycle_path ns"
    using okm(2) pos rest by blast
qed

lemma topologicalSort_cases:
  assumes ok: "dag_ok ns"
  shows "(\<exists>xs. topologicalSort ns = Inr xs \<and> on_cycle_path ns = {} \<and> topo_order ns xs \<and> greedy ns xs) \<or>
    (\<exists>cs. topologicalSort ns = Inl (DependencyCycle cs) \<and> on_cycle_path ns \<noteq> {} \<and>
       sorted cs \<and> distinct cs \<and> set cs = on_cycle_path ns)"
proof -
  obtain m xs where run: "topologicalSort ns =
      (if length xs \<noteq> length ns then Inl (DependencyCycle (sort (map fst (filter (\<lambda>(_, deg). 0 < deg) m)))) else Inr xs)"
    and inv: "kahn_inv ns m [] xs"
    using kahn_correct [OF ok kahn_inv_init [OF ok]] by (auto simp: topologicalSort_def Let_def)
  have g: "greedy ns xs" and okm: "gm_ok m" using inv by (auto simp: kahn_inv_def)
  have okn: "gm_ok ns" using ok by (simp add: dag_ok_def)
  have len: "length ns = card (set (gm_keys ns))" "length xs = card (set xs)"
    using distinct_card [OF okn] distinct_card [OF greedy_closed(1) [OF g]] by simp_all
  have "length xs = length ns \<longleftrightarrow> set xs = set (gm_keys ns)"
    using len greedy_closed(2) [OF g] card_subset_eq [of "set (gm_keys ns)" "set xs"] by auto
  then have full: "length xs = length ns \<longleftrightarrow> on_cycle_path ns = {}"
    using kahn_inv_final(1) [OF ok inv] greedy_closed(2) [OF g] by blast
  show ?thesis
  proof (cases "length xs = length ns")
    case True
    then have "topo_order ns xs"
      using greedy_closed [OF g] \<open>length xs = length ns \<longleftrightarrow> set xs = set (gm_keys ns)\<close>
        succs_key [of _ "deps_graph ns"] by (auto simp: topo_order_def edges_iff)
    with True full run g show ?thesis by simp
  next
    case False
    have "distinct (map fst (filter (\<lambda>(_, deg). 0 < deg) m))" using okm by (simp add: distinct_map_filter)
    with False full run kahn_inv_final(2) [OF ok inv] show ?thesis by simp
  qed
qed

section \<open>Properties\<close>

text \<open>
  C1. On a well-formed graph without cycles the sort returns an order that holds every unit
  once, every unit after its dependencies, and it is the lexicographically least such
  order.
\<close>

theorem topologicalSort_least_order:
  assumes "dag_ok ns" and "acyclic (edges (deps_graph ns))"
  shows "\<exists>xs. topologicalSort ns = Inr xs \<and> topo_order ns xs \<and> (\<forall>ys. topo_order ns ys \<longrightarrow> xs \<le> ys)"
proof -
  obtain xs where xs: "topologicalSort ns = Inr xs" "topo_order ns xs" "greedy ns xs"
    using topologicalSort_cases [OF assms(1)] on_cycle_path_empty [OF assms(1)] assms(2) by auto
  have "length ys = length xs" if "topo_order ns ys" for ys
    using that xs(2) by (metis distinct_card topo_order_def)
  then show ?thesis using xs greedy_least by metis
qed

text \<open>
  C12. The sort fails exactly on a cyclic graph, with the sorted list of the units that
  depend on a cycle, directly or not.
\<close>

theorem topologicalSort_cycle_error:
  assumes "dag_ok ns"
  shows "((\<exists>e. topologicalSort ns = Inl e) \<longleftrightarrow> \<not> acyclic (edges (deps_graph ns))) \<and>
    (\<forall>e. topologicalSort ns = Inl e \<longrightarrow>
       e = DependencyCycle (sorted_list_of_set (on_cycle_path ns)))"
proof -
  have uniq: "cs = sorted_list_of_set (on_cycle_path ns)"
    if "sorted cs" "distinct cs" "set cs = on_cycle_path ns" for cs
    using that by (metis sorted_list_of_set_sort_remdups distinct_remdups_id sorted_sort_id)
  show ?thesis
    using topologicalSort_cases [OF assms] on_cycle_path_empty [OF assms] uniq by auto
qed

text \<open>Neither the order nor the error depends on the iteration order of the node map.
\<close>

theorem topologicalSort_deterministic:
  assumes ok: "dag_ok ns" and perm: "mset ns = mset ns'"
  shows "topologicalSort ns = topologicalSort ns'"
proof -
  have okn: "gm_ok ns" using ok by (simp add: dag_ok_def)
  have lookup: "map_of ns = map_of ns'" using map_of_perm [OF okn perm] .
  have keys: "set (gm_keys ns) = set (gm_keys ns')" using mset_eq_setD [OF keys_perm [OF perm]] .
  have succs: "succs (deps_graph ns) = succs (deps_graph ns')"
    by (simp add: succs_def gm_get_def fun_eq_iff lookup)
  have ok': "dag_ok ns'"
    using ok gm_ok_perm [OF okn perm] mset_eq_setD [OF perm] unfolding dag_ok_def keys succs by simp
  have same: "on_cycle_path ns = on_cycle_path ns'" "topo_order ns = topo_order ns'" "greedy ns = greedy ns'"
    unfolding on_cycle_path_def topo_order_def greedy_def schedulable_def edges_def keys succs by auto
  have len: "length xs = length ys" if "topo_order ns xs" "topo_order ns ys" for xs ys
    using that by (metis distinct_card topo_order_def)
  have "xs = ys" if "topo_order ns xs" "greedy ns xs" "topo_order ns ys" "greedy ns ys" for xs ys
    using that len greedy_least by (metis antisym)
  moreover have "cs = ds" if "sorted cs" "distinct cs" "sorted ds" "distinct ds" "set cs = set ds" for cs ds :: "name list"
    using that sorted_distinct_set_unique by blast
  ultimately show ?thesis
    using topologicalSort_cases [OF ok] topologicalSort_cases [OF ok'] unfolding same [symmetric] by metis
qed

end
