(* ===== verification/DagQuery.thy ===== *)
theory DagQuery
  imports DagSort
begin

text \<open>
  The walks over a built graph in \<^verbatim>\<open>internal/resolve/dag.go\<close> (\<^verbatim>\<open>DepsOf\<close>, \<^verbatim>\<open>RdepsOf\<close>,
  \<^verbatim>\<open>TransitiveDeps\<close>), and the interface other components use: a query answers with the
  sorted set of reachable names, the transitive dependencies come deepest first.
\<close>

section \<open>The walks\<close>

definition walk_sorted :: "graph \<Rightarrow> name \<Rightarrow> DagError + name list" where
  "walk_sorted g name =
     (if \<not> gm_has g name then Inl (NodeNotFound name)
      else (case walk_pre g (succs g name) [] of
              None \<Rightarrow> Inl (NilNode name)
            | Some result \<Rightarrow> Inr (sort result)))"

definition DepsOf :: "nodes \<Rightarrow> name \<Rightarrow> DagError + name list" where
  "DepsOf nodes name = walk_sorted (deps_graph nodes) name"

definition RdepsOf :: "nodes \<Rightarrow> name \<Rightarrow> DagError + name list" where
  "RdepsOf nodes name = walk_sorted (rdeps_graph nodes) name"

definition TransitiveDeps :: "nodes \<Rightarrow> name \<Rightarrow> name list" where
  "TransitiveDeps nodes name =
     walk_post (deps_graph nodes) (map Enter (succs (deps_graph nodes) name)) [] []"

section \<open>Reachability queries\<close>

lemma trancl_Image_succs: "(edges g)\<^sup>* `` set (succs g n) = (edges g)\<^sup>+ `` {n}"
  by (auto simp: edges_iff [symmetric] trancl_unfold_left)

lemma walk_sorted_spec:
  assumes "closed_graph g" and "gm_has g n"
  shows "\<exists>r. walk_sorted g n = Inr r \<and> sorted r \<and> distinct r \<and> set r = (edges g)\<^sup>+ `` {n}"
proof -
  obtain r where r: "walk_pre g (succs g n) [] = Some r"
    using walk_pre_total [OF assms(1) closed_graph_succs [OF assms(1)]] by blast
  then show ?thesis
    using assms(2) walk_pre_reach [OF r] walk_pre_distinct [OF r]
    by (simp add: walk_sorted_def trancl_Image_succs)
qed

text \<open>
  The contract of a reachability query over the nodes of a graph: it fails exactly on
  unknown names and otherwise lists the names related to the argument, sorted.
\<close>

locale reach_query =
  fixes query :: "nodes \<Rightarrow> name \<Rightarrow> DagError + name list"
    and rel :: "nodes \<Rightarrow> (name \<times> name) set"
  assumes unknown: "n \<notin> set (gm_keys ns) \<Longrightarrow> query ns n = Inl (NodeNotFound n)"
    and answer: "dag_ok ns \<Longrightarrow> n \<in> set (gm_keys ns) \<Longrightarrow>
      \<exists>r. query ns n = Inr r \<and> sorted r \<and> distinct r \<and> set r = (rel ns)\<^sup>+ `` {n}"
begin

lemma query_eq:
  "dag_ok ns \<Longrightarrow> n \<in> set (gm_keys ns) \<Longrightarrow>
   query ns n = Inr (sorted_list_of_set ((rel ns)\<^sup>+ `` {n}))"
  using answer by (metis distinct_remdups_id sorted_list_of_set_sort_remdups sorted_sort_id)

lemma query_trans:
  assumes "dag_ok ns" and "query ns a = Inr r" and "b \<in> set r" and "query ns b = Inr r'"
  shows "set r' \<subseteq> set r"
proof -
  have "a \<in> set (gm_keys ns)" "b \<in> set (gm_keys ns)"
    using assms(2,4) unknown by fastforce+
  then have "set r = (rel ns)\<^sup>+ `` {a}" "set r' = (rel ns)\<^sup>+ `` {b}"
    using answer [OF assms(1)] assms(2,4) by (metis sum.inject(2))+
  with assms(3) show ?thesis by (auto intro: trancl_trans)
qed

lemma query_cyclic: "dag_ok ns \<Longrightarrow> query ns a = Inr r \<Longrightarrow> a \<in> set r \<longleftrightarrow> (a, a) \<in> (rel ns)\<^sup>+"
  using answer unknown by (metis Image_singleton_iff sum.inject(2) sum.simps(4))

end

interpretation deps: reach_query DepsOf "\<lambda>ns. edges (deps_graph ns)"
proof
  show "DepsOf ns n = Inl (NodeNotFound n)" if "n \<notin> set (gm_keys ns)" for n ns
    using that by (simp add: DepsOf_def walk_sorted_def gm_has_iff del: set_map)
  show "\<exists>r. DepsOf ns n = Inr r \<and> sorted r \<and> distinct r \<and> set r = (edges (deps_graph ns))\<^sup>+ `` {n}"
    if "dag_ok ns" "n \<in> set (gm_keys ns)" for ns n
    unfolding DepsOf_def
    using walk_sorted_spec [OF dag_ok_closed [OF that(1)]] that(2) by (simp add: gm_has_iff del: set_map)
qed

interpretation rdeps: reach_query RdepsOf "\<lambda>ns. (edges (deps_graph ns))\<inverse>"
proof
  show "RdepsOf ns n = Inl (NodeNotFound n)" if "n \<notin> set (gm_keys ns)" for n ns
    using that by (simp add: RdepsOf_def walk_sorted_def gm_has_iff del: set_map)
  show "\<exists>r. RdepsOf ns n = Inr r \<and> sorted r \<and> distinct r \<and> set r = ((edges (deps_graph ns))\<inverse>)\<^sup>+ `` {n}"
    if "dag_ok ns" "n \<in> set (gm_keys ns)" for ns n
    unfolding RdepsOf_def
    using walk_sorted_spec [OF dag_ok_rdeps_closed [OF that(1)]] that(2) rdeps_converse [OF that(1)]
    by (simp add: gm_has_iff del: set_map)
qed

section \<open>Sorted builds\<close>

text \<open>
  What clients that process the units in order rely on: the order holds each unit once,
  after everything it depends on.
\<close>

locale build_order =
  fixes wf :: "nodes \<Rightarrow> bool" and sorter :: "nodes \<Rightarrow> DagError + name list"
  assumes sorted_ok: "wf ns \<Longrightarrow> sorter ns = Inr xs \<Longrightarrow> topo_order ns xs"
    and sorted_total: "wf ns \<Longrightarrow> acyclic (edges (deps_graph ns)) \<Longrightarrow> \<exists>xs. sorter ns = Inr xs"
begin

lemma deps_before:
  assumes "wf ns" and "sorter ns = Inr (us @ n # vs)" and "(n, d) \<in> (edges (deps_graph ns))\<^sup>+"
  shows "d \<in> set us"
proof -
  have topo: "topo_order ns (us @ n # vs)" using sorted_ok [OF assms(1,2)] .
  then have dist: "distinct (us @ n # vs)" by (simp add: topo_order_def)
  have "precedes (us @ n # vs) d n"
    using precedes_acyclic_trancl [OF dist _ assms(3)] topo by (simp add: topo_order_def)
  then obtain as bs cs where "us @ n # vs = (as @ d # bs) @ n # cs"
    unfolding precedes_def by auto
  moreover have "n \<notin> set us" "n \<notin> set vs" using dist by auto
  ultimately have "us = as @ d # bs" using append_Cons_eq_iff by metis
  then show ?thesis by simp
qed

lemma order_covers:
  "wf ns \<Longrightarrow> sorter ns = Inr xs \<Longrightarrow> n \<in> set xs \<longleftrightarrow> n \<in> set (gm_keys ns)"
  using sorted_ok [of ns xs] by (simp add: topo_order_def)

end

interpretation dag: build_order dag_ok topologicalSort
proof
  show "topo_order ns xs" if "dag_ok ns" "topologicalSort ns = Inr xs" for ns xs
    using topologicalSort_cases [OF that(1)] that(2) by auto
  show "\<exists>xs. topologicalSort ns = Inr xs" if "dag_ok ns" "acyclic (edges (deps_graph ns))" for ns
    using topologicalSort_cases [OF that(1)] on_cycle_path_empty [OF that(1)] that(2) by auto
qed

section \<open>Properties\<close>

definition ex_nodes :: nodes where
  "ex_nodes = [
     (''c'', \<lparr>ndUnit = zero_unit, ndDeps = [''b'', ''a''], ndRdeps = []\<rparr>),
     (''a'', \<lparr>ndUnit = zero_unit, ndDeps = [], ndRdeps = [''b'', ''c'']\<rparr>),
     (''b'', \<lparr>ndUnit = zero_unit, ndDeps = [''a''], ndRdeps = [''c'']\<rparr>)]"

lemma ex_nodes_ok: "dag_ok ex_nodes"
  by (auto simp: dag_ok_def ex_nodes_def deps_graph_def succs_def split: if_splits)

lemma ex_nodes_acyclic: "acyclic (edges (deps_graph ex_nodes))"
proof (rule precedes_acyclic [of "[''a'', ''b'', ''c'']"])
  fix a b
  assume "(a, b) \<in> edges (deps_graph ex_nodes)"
  then consider "a = ''c''" "b = ''b''" | "a = ''c''" "b = ''a''" | "a = ''b''" "b = ''a''"
    by (auto simp: edges_iff ex_nodes_def deps_graph_def succs_def split: if_splits)
  then show "precedes [''a'', ''b'', ''c''] b a"
  proof cases
    case 1
    then show ?thesis unfolding precedes_def by (intro exI [of _ "[''a'']"] exI [of _ "[]"]) simp
  next
    case 2
    then show ?thesis unfolding precedes_def by (intro exI [of _ "[]"] exI [of _ "[''b'']"]) simp
  next
    case 3
    then have "[''a'', ''b'', ''c''] = [] @ b # [] @ a # [''c'']" by simp
    then show ?thesis unfolding precedes_def by blast
  qed
qed simp

text \<open>Asking for the dependencies of a unit lists exactly the units it depends on, directly
  or not, sorted; an unknown name is refused.
\<close>

theorem DepsOf_spec:
  assumes "dag_ok ns"
  shows "DepsOf ns n =
    (if n \<in> set (gm_keys ns) then Inr (sorted_list_of_set {d. (n, d) \<in> (edges (deps_graph ns))\<^sup>+})
     else Inl (NodeNotFound n))"
  using deps.query_eq [OF assms, of n] deps.unknown [of n ns] by (simp add: Image_def)

theorem DepsOf_spec_witness:
  "DepsOf ex_nodes ''c'' = Inr (sorted_list_of_set {d. (''c'', d) \<in> (edges (deps_graph ex_nodes))\<^sup>+})"
  using DepsOf_spec [OF ex_nodes_ok, of "''c''"] by (simp add: ex_nodes_def)

text \<open>Asking what depends on a unit is the converse question: \<open>m\<close> is listed for \<open>n\<close> exactly
  when \<open>n\<close> is listed among the dependencies of \<open>m\<close>.
\<close>

theorem RdepsOf_converse:
  assumes "dag_ok ns" and "RdepsOf ns n = Inr rs" and "DepsOf ns m = Inr ds"
  shows "m \<in> set rs \<longleftrightarrow> n \<in> set ds"
proof -
  have "n \<in> set (gm_keys ns)" "m \<in> set (gm_keys ns)"
    using assms(2,3) rdeps.unknown deps.unknown by fastforce+
  then have "set rs = ((edges (deps_graph ns))\<inverse>)\<^sup>+ `` {n}" "set ds = (edges (deps_graph ns))\<^sup>+ `` {m}"
    using assms rdeps.answer [of ns n] deps.answer [of ns m] by auto
  then show ?thesis by (simp add: trancl_converse)
qed

theorem RdepsOf_converse_witness:
  "RdepsOf ex_nodes ''a'' = Inr [''b'', ''c''] \<and> DepsOf ex_nodes ''c'' = Inr [''a'', ''b''] \<and>
   (''c'' \<in> set [''b'', ''c''] \<longleftrightarrow> ''a'' \<in> set [''a'', ''b''])"
proof -
  have 1: "RdepsOf ex_nodes ''a'' = Inr [''b'', ''c'']" and 2: "DepsOf ex_nodes ''c'' = Inr [''a'', ''b'']"
    by (simp_all add: RdepsOf_def DepsOf_def walk_sorted_def ex_nodes_def rdeps_graph_def
        deps_graph_def gm_has_def succs_def)
  with RdepsOf_converse [OF ex_nodes_ok 1 2] show ?thesis by blast
qed

text \<open>
  The transitive dependencies that a sysroot is assembled from are exactly the units the
  unit depends on, each once, and in an acyclic graph each after its own dependencies.
\<close>

theorem TransitiveDeps_order:
  assumes "acyclic (edges (deps_graph ns))"
  shows "distinct (TransitiveDeps ns n) \<and>
    set (TransitiveDeps ns n) = {d. (n, d) \<in> (edges (deps_graph ns))\<^sup>+} \<and>
    (\<forall>a b. a \<in> set (TransitiveDeps ns n) \<and> (a, b) \<in> edges (deps_graph ns) \<longrightarrow>
       precedes (TransitiveDeps ns n) b a)"
  using walk_post_correct [OF assms, where ns = "succs (deps_graph ns) n"]
  unfolding TransitiveDeps_def trancl_Image_succs by auto

theorem TransitiveDeps_order_witness:
  "TransitiveDeps ex_nodes ''c'' = [''a'', ''b''] \<and> distinct (TransitiveDeps ex_nodes ''c'')"
proof -
  have "TransitiveDeps ex_nodes ''c'' = [''a'', ''b'']"
    by (simp add: TransitiveDeps_def ex_nodes_def deps_graph_def succs_def)
  with TransitiveDeps_order [OF ex_nodes_acyclic, of "''c''"] show ?thesis by blast
qed

theorem topologicalSort_least_order_witness:
  "\<exists>xs. topologicalSort ex_nodes = Inr xs \<and> topo_order ex_nodes xs \<and>
     (\<forall>ys. topo_order ex_nodes ys \<longrightarrow> xs \<le> ys)"
  by (rule topologicalSort_least_order [OF ex_nodes_ok ex_nodes_acyclic])

theorem topologicalSort_cycle_error_witness:
  "\<not> (\<exists>e. topologicalSort ex_nodes = Inl e)"
  using topologicalSort_cycle_error [OF ex_nodes_ok] ex_nodes_acyclic by blast

theorem topologicalSort_deterministic_witness:
  "topologicalSort ex_nodes = topologicalSort (rev ex_nodes)"
  by (rule topologicalSort_deterministic [OF ex_nodes_ok]) simp

end
