(* ===== verification/RuntimeClosure.thy ===== *)
theory RuntimeClosure
  imports Dag
begin

text \<open>
  The two breadth-first expansions of runtime dependencies: \<^verbatim>\<open>RuntimeClosure\<close> of
  \<^verbatim>\<open>internal/resolve/runtime.go\<close>, and what \<^verbatim>\<open>appendRuntimeClosureOfDeps\<close> of
  \<^verbatim>\<open>internal/resolve/dag.go\<close> (theory Dag) adds to the build dependencies of a unit. Both
  are shown to collect exactly the reachable names and to end on cyclic dependencies.
\<close>

section \<open>Reachability of a breadth-first expansion\<close>

text \<open>
  A step that replaces the collected set \<open>A\<close> by \<open>A \<union> B\<close> where \<open>B\<close> is reachable from \<open>A\<close>
  keeps what is reachable; a set closed under the relation is all that is reachable.
\<close>

lemma rtrancl_Image_grow: "B \<subseteq> r\<^sup>* `` A \<Longrightarrow> r\<^sup>* `` (A \<union> B) = r\<^sup>* `` A"
  by (auto intro: rtrancl_trans)

lemma rtrancl_Image_closed: "r `` A \<subseteq> A \<Longrightarrow> r\<^sup>* `` A = A"
  by (metis Image_closed_trancl)

lemma Image_drop: "r `` {q} = {} \<Longrightarrow> r `` (A - insert q Q) \<subseteq> B \<Longrightarrow> r `` (A - Q) \<subseteq> B"
  by (metis Image_Un Un_empty_left Diff_insert insert_Diff_if insert_is_Un
      Diff_empty Diff_insert0 insert_Diff)

section \<open>Runtime closure of build dependencies\<close>

definition rt_edges :: "(name, Unit) gomap \<Rightarrow> name \<Rightarrow> name \<Rightarrow> (name \<times> name) set" where
  "rt_edges units self distro = {(a, b). \<exists>u. map_of units a = Some u \<and>
     b \<in> set (RuntimeDepsForDistro u distro) \<and> gm_has units b \<and> b \<noteq> self}"

lemma runtime_push_eq:
  "runtime_push units self rs (queue, seen, deps) = (queue', seen', deps') \<Longrightarrow>
   \<exists>new. queue' = queue @ new \<and> deps' = deps @ new \<and> distinct new \<and>
     set new = {r \<in> set rs. r \<noteq> self \<and> r \<notin> set seen \<and> gm_has units r} \<and>
     set seen' = set seen \<union> {r \<in> set rs. r \<noteq> self}"
proof (induction rs arbitrary: queue seen deps)
  case (Cons r rs)
  consider "r = self \<or> r \<in> set seen" | "r \<noteq> self" "r \<notin> set seen" "\<not> gm_has units r"
    | "r \<noteq> self" "r \<notin> set seen" "gm_has units r" by blast
  then show ?case
  proof cases
    case 1
    with Cons.prems have "runtime_push units self rs (queue, seen, deps) = (queue', seen', deps')" by simp
    from Cons.IH [OF this] 1 show ?thesis by auto
  next
    case 2
    with Cons.prems have "runtime_push units self rs (queue, r # seen, deps) = (queue', seen', deps')" by simp
    from Cons.IH [OF this] 2 show ?thesis by auto
  next
    case 3
    with Cons.prems have "runtime_push units self rs (queue @ [r], r # seen, deps @ [r]) = (queue', seen', deps')"
      by simp
    from Cons.IH [OF this] obtain new where new: "queue' = (queue @ [r]) @ new" "deps' = (deps @ [r]) @ new"
      "distinct new" "set new = {x \<in> set rs. x \<noteq> self \<and> x \<notin> set (r # seen) \<and> gm_has units x}"
      "set seen' = set (r # seen) \<union> {x \<in> set rs. x \<noteq> self}" by blast
    with 3 show ?thesis by (intro exI [of _ "r # new"]) auto
  qed
qed simp

definition expand_inv ::
  "(name, Unit) gomap \<Rightarrow> name \<Rightarrow> name \<Rightarrow> name list \<Rightarrow> name list \<Rightarrow> name list \<Rightarrow> bool" where
  "expand_inv units self distro queue seen deps \<longleftrightarrow>
     set deps \<subseteq> set seen \<and> (\<forall>s \<in> set seen. s \<in> set deps \<or> \<not> gm_has units s) \<and> set queue \<subseteq> set deps \<and>
     rt_edges units self distro `` (set deps - set queue) \<subseteq> set deps"

lemma expand_inv_step:
  assumes inv: "expand_inv units self distro (q # queue) seen deps" and u: "map_of units q = Some u"
    and run: "runtime_push units self (RuntimeDepsForDistro u distro) (queue, seen, deps) = (queue', seen', deps')"
  shows "expand_inv units self distro queue' seen' deps'"
    and "(rt_edges units self distro)\<^sup>* `` set deps' = (rt_edges units self distro)\<^sup>* `` set deps"
    and "\<exists>new. deps' = deps @ new \<and> distinct new \<and> set new \<inter> set deps = {}"
proof -
  obtain new where new: "queue' = queue @ new" "deps' = deps @ new" "distinct new"
    "set new = {r \<in> set (RuntimeDepsForDistro u distro). r \<noteq> self \<and> r \<notin> set seen \<and> gm_has units r}"
    "set seen' = set seen \<union> {r \<in> set (RuntimeDepsForDistro u distro). r \<noteq> self}"
    using runtime_push_eq [OF run] by blast
  have q: "rt_edges units self distro `` {q} =
      {r \<in> set (RuntimeDepsForDistro u distro). r \<noteq> self \<and> gm_has units r}"
    using u by (auto simp: rt_edges_def)
  show "expand_inv units self distro queue' seen' deps'"
  proof -
    have "rt_edges units self distro `` {q} \<subseteq> set deps'"
      unfolding q using inv new(2,4) unfolding expand_inv_def by auto
    moreover have "set deps' - set queue' \<subseteq> insert q (set deps - set (q # queue))"
      using new(1,2) by auto
    then have "rt_edges units self distro `` (set deps' - set queue') \<subseteq>
        rt_edges units self distro `` {q} \<union> rt_edges units self distro `` (set deps - set (q # queue))" by blast
    moreover have "rt_edges units self distro `` (set deps - set (q # queue)) \<subseteq> set deps'"
      using inv unfolding expand_inv_def new(2) set_append by (meson le_supI1)
    ultimately have "rt_edges units self distro `` (set deps' - set queue') \<subseteq> set deps'"
      by (meson Un_least order_trans)
    moreover have "set deps' \<subseteq> set seen'" "set queue' \<subseteq> set deps'"
      using inv new unfolding expand_inv_def by auto
    moreover have "\<forall>s \<in> set seen'. s \<in> set deps' \<or> \<not> gm_has units s"
      unfolding new(2,5) set_append new(4) using inv unfolding expand_inv_def by blast
    ultimately show ?thesis unfolding expand_inv_def by blast
  qed
  have "set new \<subseteq> rt_edges units self distro `` set deps"
    using inv u new(4) unfolding expand_inv_def rt_edges_def by auto
  then have "set new \<subseteq> (rt_edges units self distro)\<^sup>* `` set deps" by auto
  then show "(rt_edges units self distro)\<^sup>* `` set deps' = (rt_edges units self distro)\<^sup>* `` set deps"
    unfolding new(2) set_append by (rule rtrancl_Image_grow)
  have "set new \<inter> set deps = {}" using inv new(4) unfolding expand_inv_def by auto
  then show "\<exists>new. deps' = deps @ new \<and> distinct new \<and> set new \<inter> set deps = {}"
    using new(2,3) by blast
qed

lemma runtime_expand_reach:
  "expand_inv units self distro queue seen deps \<Longrightarrow>
   set (runtime_expand units self distro queue seen deps) = (rt_edges units self distro)\<^sup>* `` set deps \<and>
   (\<exists>new. runtime_expand units self distro queue seen deps = deps @ new \<and> distinct new \<and> set new \<inter> set deps = {})"
proof (induction units self distro queue seen deps rule: runtime_expand.induct)
  case (1 units self distro seen deps)
  then show ?case using rtrancl_Image_closed [of "rt_edges units self distro" "set deps"]
    by (auto simp: expand_inv_def)
next
  case (2 units self distro q queue seen deps)
  show ?case
  proof (cases "map_of units q")
    case None
    then have "rt_edges units self distro `` {q} = {}" by (auto simp: rt_edges_def)
    then have "expand_inv units self distro queue seen deps"
      using "2.prems" Image_drop [of "rt_edges units self distro" q "set deps" "set queue" "set deps"]
      unfolding expand_inv_def by simp
    with 2 None show ?thesis by simp
  next
    case (Some u)
    obtain queue' seen' deps' where run:
      "runtime_push units self (RuntimeDepsForDistro u distro) (queue, seen, deps) = (queue', seen', deps')"
      by (metis prod_cases3)
    note step = expand_inv_step [OF "2.prems" Some run]
    obtain new where new: "deps' = deps @ new" "distinct new" "set new \<inter> set deps = {}"
      using step(3) by blast
    have "set (runtime_expand units self distro queue' seen' deps') =
        (rt_edges units self distro)\<^sup>* `` set deps' \<and>
      (\<exists>new. runtime_expand units self distro queue' seen' deps' = deps' @ new \<and> distinct new \<and>
         set new \<inter> set deps' = {})"
      using "2.IH"(2) [OF Some run [symmetric] refl step(1)] by simp
    then obtain more where more: "runtime_expand units self distro queue' seen' deps' = deps' @ more"
      "distinct more" "set more \<inter> set deps' = {}"
      "set (runtime_expand units self distro queue' seen' deps') = (rt_edges units self distro)\<^sup>* `` set deps'"
      by blast
    have "distinct (new @ more)" "set (new @ more) \<inter> set deps = {}"
      using new more by auto
    moreover have "runtime_expand units self distro queue' seen' deps' = deps @ (new @ more)"
      using new(1) more(1) by simp
    ultimately show ?thesis using Some run more(4) step(2) by auto
  qed
qed

section \<open>Runtime closure of a set of roots\<close>

text \<open>
  \<^verbatim>\<open>visit\<close>: the name after provides routing, if it is a unit this distro may see.
\<close>

definition visit_name :: "Project \<Rightarrow> name \<Rightarrow> name \<Rightarrow> name option" where
  "visit_name proj effectiveDistro name =
     (let real = ResolveProvidesForDistro proj name effectiveDistro;
          name' = (if real \<noteq> [] then real else name)
      in case LookupUnit proj effectiveDistro name' of
           None \<Rightarrow> None
         | Some u \<Rightarrow> if uDistro u \<noteq> [] \<and> uDistro u \<noteq> effectiveDistro then None else Some name')"

fun visit_all :: "Project \<Rightarrow> name \<Rightarrow> name list \<Rightarrow> name list \<Rightarrow> name list" where
  "visit_all proj d [] seen = []"
| "visit_all proj d (r # rs) seen =
     (case visit_name proj d r of
        None \<Rightarrow> visit_all proj d rs seen
      | Some n \<Rightarrow> if n \<in> set seen then visit_all proj d rs seen
                  else n # visit_all proj d rs (seen @ [n]))"

definition lookup_names :: "Project \<Rightarrow> name \<Rightarrow> name set" where
  "lookup_names p d = {n. LookupUnit p d n \<noteq> None}"

lemma finite_lookup_names: "finite (lookup_names p d)"
proof -
  have "lookup_names p d \<subseteq> (\<Union>(e, view) \<in> set (pDistroViews p). fst ` set view) \<union> fst ` set (AllUnits p)"
  proof
    fix n
    assume "n \<in> lookup_names p d"
    then obtain u where "LookupUnit p d n = Some u" by (auto simp: lookup_names_def)
    then consider view where "map_of (pDistroViews p) d = Some view" "map_of view n = Some u"
      | "resolveForDistro p d n = Some u" | "AnyUnit p n = Some u"
      by (auto simp: LookupUnit_def split: option.splits if_splits)
    then show "n \<in> (\<Union>(e, view) \<in> set (pDistroViews p). fst ` set view) \<union> fst ` set (AllUnits p)"
    proof cases
      case 1
      then have "(d, view) \<in> set (pDistroViews p)" "n \<in> fst ` set view"
        by (auto dest!: map_of_SomeD intro: rev_image_eqI)
      then show ?thesis by blast
    next
      case 2
      from resolveForDistro_all_names [OF this] show ?thesis by (auto simp: set_all_names)
    next
      case 3
      then have "u \<in> candidates n (pUnitsByModule p)"
        unfolding AnyUnit_def by (auto dest: scan_best_mem)
      from candidates_AllUnits [OF this] show ?thesis by (auto intro: rev_image_eqI)
    qed
  qed
  then show ?thesis by (rule finite_subset) auto
qed

lemma visit_name_Some: "visit_name p d r = Some n \<Longrightarrow>
    n \<in> lookup_names p d \<and> (\<forall>u. LookupUnit p d n = Some u \<longrightarrow> uDistro u = [] \<or> uDistro u = d)"
  by (auto simp: visit_name_def lookup_names_def Let_def split: option.splits if_splits)

lemma visit_all_spec:
  "distinct (visit_all p d rs seen) \<and> set (visit_all p d rs seen) \<inter> set seen = {} \<and>
   set (visit_all p d rs seen) = {n. \<exists>r \<in> set rs. visit_name p d r = Some n} - set seen"
proof (induction rs arbitrary: seen)
  case (Cons r rs)
  show ?case
  proof (cases "visit_name p d r")
    case None
    with Cons [of seen] show ?thesis by auto
  next
    case (Some n)
    with Cons [of seen] Cons [of "seen @ [n]"] show ?thesis by auto
  qed
qed simp

lemma visit_all_names: "set (visit_all p d rs seen) \<subseteq> lookup_names p d"
  using visit_all_spec [of p d rs seen] visit_name_Some [of p d] by blast

function closure_loop :: "Project \<Rightarrow> name \<Rightarrow> name list \<Rightarrow> name list \<Rightarrow> name list" where
  "closure_loop proj d [] seen = seen"
| "closure_loop proj d (q # queue) seen =
     (case LookupUnit proj d q of
        None \<Rightarrow> closure_loop proj d queue seen
      | Some u \<Rightarrow>
          closure_loop proj d (queue @ visit_all proj d (RuntimeDepsForDistro u d) seen)
            (seen @ visit_all proj d (RuntimeDepsForDistro u d) seen))"
  by pat_completeness auto

termination closure_loop
proof (relation "measures [\<lambda>(p, d, queue, seen). card (lookup_names p d - set seen),
    \<lambda>(p, d, queue, seen). length queue]", goal_cases)
  case (3 p d q queue seen u)
  let ?new = "visit_all p d (RuntimeDepsForDistro u d) seen"
  show ?case
  proof (cases "?new = []")
    case True
    then show ?thesis by simp
  next
    case False
    then obtain n where "n \<in> set ?new" by (meson list.set_sel(1))
    moreover from this have "n \<in> lookup_names p d" "n \<notin> set seen"
      using visit_all_names [of p d "RuntimeDepsForDistro u d" seen]
        visit_all_spec [of p d "RuntimeDepsForDistro u d" seen] by blast+
    ultimately have "lookup_names p d - set (seen @ ?new) \<subset> lookup_names p d - set seen"
      unfolding set_append by blast
    then have "card (lookup_names p d - set (seen @ ?new)) < card (lookup_names p d - set seen)"
      by (rule psubset_card_mono [OF finite_Diff [OF finite_lookup_names]])
    then show ?thesis by simp
  qed
qed auto

text \<open>
  The walk itself; \<^const>\<open>None\<close> is the panic on an empty distro. The source returns the
  names in the iteration order of a map: any permutation of this list.
\<close>

definition RuntimeClosure :: "Project \<Rightarrow> name list \<Rightarrow> name \<Rightarrow> name list option" where
  "RuntimeClosure proj roots effectiveDistro =
     (if effectiveDistro = [] then None
      else (let queue = visit_all proj effectiveDistro roots []
            in Some (closure_loop proj effectiveDistro queue queue)))"

definition runtime_edges :: "Project \<Rightarrow> name \<Rightarrow> (name \<times> name) set" where
  "runtime_edges p d = {(a, b). \<exists>u r. LookupUnit p d a = Some u \<and>
     r \<in> set (RuntimeDepsForDistro u d) \<and> visit_name p d r = Some b}"

lemma closure_loop_reach:
  "set queue \<subseteq> set seen \<Longrightarrow> distinct seen \<Longrightarrow>
   runtime_edges p d `` (set seen - set queue) \<subseteq> set seen \<Longrightarrow>
   distinct (closure_loop p d queue seen) \<and>
   set (closure_loop p d queue seen) = (runtime_edges p d)\<^sup>* `` set seen"
proof (induction p d queue seen rule: closure_loop.induct)
  case (1 p d seen)
  then show ?case using rtrancl_Image_closed [of "runtime_edges p d" "set seen"] by simp
next
  case (2 p d q queue seen)
  show ?case
  proof (cases "LookupUnit p d q")
    case None
    then have "runtime_edges p d `` {q} = {}" by (auto simp: runtime_edges_def)
    then have "runtime_edges p d `` (set seen - set queue) \<subseteq> set seen"
      using "2.prems"(3) Image_drop [of "runtime_edges p d" q "set seen" "set queue" "set seen"] by simp
    with 2 None show ?thesis by simp
  next
    case (Some u)
    let ?new = "visit_all p d (RuntimeDepsForDistro u d) seen"
    have new: "distinct ?new" "set ?new \<inter> set seen = {}"
      "set ?new = {n. \<exists>r \<in> set (RuntimeDepsForDistro u d). visit_name p d r = Some n} - set seen"
      using visit_all_spec [of p d "RuntimeDepsForDistro u d" seen] by auto
    have q: "runtime_edges p d `` {q} = {n. \<exists>r \<in> set (RuntimeDepsForDistro u d). visit_name p d r = Some n}"
      using Some by (auto simp: runtime_edges_def)
    have "set (seen @ ?new) - set (queue @ ?new) \<subseteq> insert q (set seen - set (q # queue))" by auto
    then have "runtime_edges p d `` (set (seen @ ?new) - set (queue @ ?new)) \<subseteq>
        runtime_edges p d `` {q} \<union> runtime_edges p d `` (set seen - set (q # queue))" by blast
    moreover have "runtime_edges p d `` {q} \<subseteq> set (seen @ ?new)" unfolding q using new(3) by auto
    ultimately have closed: "runtime_edges p d `` (set (seen @ ?new) - set (queue @ ?new)) \<subseteq> set (seen @ ?new)"
      using "2.prems"(3) by auto
    have "set ?new \<subseteq> runtime_edges p d `` {q}" unfolding q using new(3) by blast
    then have "set ?new \<subseteq> (runtime_edges p d)\<^sup>* `` set seen" using "2.prems"(1) by auto
    then have "(runtime_edges p d)\<^sup>* `` set (seen @ ?new) = (runtime_edges p d)\<^sup>* `` set seen"
      unfolding set_append by (rule rtrancl_Image_grow)
    moreover have "set (queue @ ?new) \<subseteq> set (seen @ ?new)" "distinct (seen @ ?new)"
      using "2.prems"(1,2) new by auto
    ultimately show ?thesis
      using "2.IH"(2) [OF Some _ _ closed] Some by simp
  qed
qed

section \<open>Properties\<close>

text \<open>
  C13. The runtime closure ends, also on cyclic runtime dependencies, and lists exactly the
  units reachable from the roots over routed runtime dependencies, each once and each
  visible to the distro of the walk.
\<close>

theorem RuntimeClosure_spec:
  assumes "d \<noteq> []"
  shows "\<exists>out. RuntimeClosure p roots d = Some out \<and> distinct out \<and>
    set out = (runtime_edges p d)\<^sup>* `` {n. \<exists>r \<in> set roots. visit_name p d r = Some n} \<and>
    (\<forall>n \<in> set out. \<exists>u. LookupUnit p d n = Some u \<and> (uDistro u = [] \<or> uDistro u = d))"
proof -
  let ?q = "visit_all p d roots []" and ?S = "{n. \<exists>r \<in> set roots. visit_name p d r = Some n}"
  have q: "distinct ?q" "set ?q = ?S" using visit_all_spec [of p d roots "[]"] by auto
  have out: "distinct (closure_loop p d ?q ?q)" "set (closure_loop p d ?q ?q) = (runtime_edges p d)\<^sup>* `` ?S"
    using closure_loop_reach [of ?q ?q p d] q by auto
  have routed: "\<exists>r. visit_name p d r = Some n" if "(a, n) \<in> (runtime_edges p d)\<^sup>*" "a \<in> ?S" for a n
    using that by (induction) (auto simp: runtime_edges_def)
  have "\<exists>u. LookupUnit p d n = Some u \<and> (uDistro u = [] \<or> uDistro u = d)"
    if "n \<in> (runtime_edges p d)\<^sup>* `` ?S" for n
  proof -
    obtain r where "visit_name p d r = Some n" using \<open>n \<in> _\<close> routed by blast
    from visit_name_Some [OF this] show ?thesis by (auto simp: lookup_names_def)
  qed
  then show ?thesis using assms out by (auto simp: RuntimeClosure_def Let_def)
qed

theorem RuntimeClosure_spec_witness:
  "\<exists>out. RuntimeClosure ex_project [''xz'', ''libc''] ''alpine'' = Some out \<and> distinct out"
  using RuntimeClosure_spec [of "''alpine''" ex_project "[''xz'', ''libc'']"] by auto

text \<open>The build dependencies of a unit are extended by the runtime closure: the result
  starts with the given dependencies, adds each further unit once, and holds exactly what is
  reachable from them over runtime dependencies that are units of the view other than the
  unit itself.
\<close>

theorem appendRuntimeClosureOfDeps_spec:
  "set (appendRuntimeClosureOfDeps deps units self distro) =
     (rt_edges units self distro)\<^sup>* `` set deps \<and>
   (\<exists>new. appendRuntimeClosureOfDeps deps units self distro = deps @ new \<and> distinct new \<and>
      set new \<inter> set deps = {})"
  unfolding appendRuntimeClosureOfDeps_def
  by (rule runtime_expand_reach) (simp add: expand_inv_def)

end
