(* ===== verification/TopoOrder.thy ===== *)
theory TopoOrder
  imports DagSort
begin

text \<open>
  \<^verbatim>\<open>topoOrder\<close> of \<^verbatim>\<open>internal/starlark/closure.go\<close>: the order of an image's artifact list.
  Kahn's algorithm in waves; what a cycle keeps from being scheduled is appended sorted.
  The theory shows that the result is always a permutation of the closure, that units
  come after their dependencies wherever no cycle is involved, and that the order does
  not depend on map iteration.
\<close>

section \<open>The algorithm\<close>

text \<open>
  The counting loop over the dependencies of one unit: \<^verbatim>\<open>indeg[name]++\<close> and
  \<^verbatim>\<open>rdeps[d] = append(rdeps[d], name)\<close> for every counted dependency.
\<close>

fun count_deps ::
  "graph \<Rightarrow> name \<Rightarrow> name list \<Rightarrow> name list \<Rightarrow> degrees \<Rightarrow> graph \<Rightarrow> degrees \<times> graph" where
  "count_deps deps name [] counted indeg rdeps = (indeg, rdeps)"
| "count_deps deps name (d # ds) counted indeg rdeps =
     (if d = name \<or> d \<in> set counted then count_deps deps name ds counted indeg rdeps
      else if \<not> gm_has deps d then count_deps deps name ds counted indeg rdeps
      else count_deps deps name ds (d # counted)
             (gm_put name (gm_get 0 indeg name + 1) indeg)
             (gm_put d (gm_get [] rdeps d @ [name]) rdeps))"

fun count_all :: "graph \<Rightarrow> graph \<Rightarrow> degrees \<Rightarrow> graph \<Rightarrow> degrees \<times> graph" where
  "count_all deps [] indeg rdeps = (indeg, rdeps)"
| "count_all deps ((name, ds) # rest) indeg rdeps =
     (case count_deps deps name ds [] (gm_put name (gm_get 0 indeg name + 0) indeg) rdeps of
        (indeg', rdeps') \<Rightarrow> count_all deps rest indeg' rdeps')"

fun wave :: "name list \<Rightarrow> degrees \<Rightarrow> name list \<Rightarrow> degrees \<times> name list" where
  "wave [] indeg next = (indeg, next)"
| "wave (rd # rds) indeg next =
     (let n = gm_get 0 indeg rd - 1;
          indeg' = gm_put rd n indeg
      in wave rds indeg' (if n = 0 then next @ [rd] else next))"

lemma wave_measure:
  "length (snd (wave rs m q)) + waiting (fst (wave rs m q)) \<le> length q + waiting m"
proof (induction rs m q rule: wave.induct)
  case (2 r rs m q)
  then show ?case using waiting_put [of r m] by (fastforce simp: Let_def)
qed simp

function waves :: "graph \<Rightarrow> degrees \<Rightarrow> name list \<Rightarrow> name list \<Rightarrow> name list" where
  "waves rdeps indeg ready ordered =
     (if ready = [] then ordered
      else waves rdeps
             (fst (wave (concat (map (succs rdeps) ready)) indeg []))
             (sort (snd (wave (concat (map (succs rdeps) ready)) indeg [])))
             (ordered @ ready))"
  by pat_completeness auto

termination waves
proof (relation "measure (\<lambda>(rdeps, m, ready, ordered). length ready + waiting m)", goal_cases)
  case (2 rdeps m ready ordered)
  then show ?case
    using wave_measure [of "concat (map (succs rdeps) ready)" m "[]"] by (cases ready) auto
qed simp

declare waves.simps [simp del]

definition topoOrder :: "graph \<Rightarrow> name list" where
  "topoOrder deps =
     (case count_all deps deps [] [] of
        (indeg, rdeps) \<Rightarrow>
          let ready = sort (map fst (filter (\<lambda>(_, n). n = 0) indeg));
              ordered = waves rdeps indeg ready []
          in if length ordered < length deps
             then ordered @ sort (filter (\<lambda>name. name \<notin> set ordered) (gm_keys deps))
             else ordered)"

section \<open>The counted dependencies\<close>

text \<open>What the order respects: dependencies inside the closure, other than the unit itself.\<close>

definition inner_deps :: "graph \<Rightarrow> name \<Rightarrow> name set" where
  "inner_deps g n = {d \<in> set (succs g n). d \<noteq> n \<and> d \<in> set (gm_keys g)}"

definition inner_edges :: "graph \<Rightarrow> (name \<times> name) set" where
  "inner_edges g = {(a, b). b \<in> inner_deps g a}"

lemma count_deps_spec:
  assumes "count_deps g n ds counted m r = (m', r')"
  shows "(gm_ok m \<longrightarrow> n \<in> set (gm_keys m) \<longrightarrow> gm_ok m' \<and> set (gm_keys m') = set (gm_keys m)) \<and>
    (\<forall>x. gm_get 0 m' x = gm_get 0 m x +
       (if x = n then int (card ({d \<in> set ds. d \<noteq> n \<and> gm_has g d} - set counted)) else 0)) \<and>
    (\<forall>d. gm_get [] r' d = gm_get [] r d @
       (if d \<in> {d \<in> set ds. d \<noteq> n \<and> gm_has g d} - set counted then [n] else []))"
  using assms
proof (induction ds arbitrary: counted m r)
  case (Cons d ds)
  show ?case
  proof (cases "d = n \<or> d \<in> set counted \<or> \<not> gm_has g d")
    case True
    then have "count_deps g n ds counted m r = (m', r')" using Cons.prems by (auto split: if_splits)
    note IH = Cons.IH [OF this]
    have same: "{x \<in> set (d # ds). x \<noteq> n \<and> gm_has g x} - set counted =
        {x \<in> set ds. x \<noteq> n \<and> gm_has g x} - set counted" using True by auto
    show ?thesis unfolding same by (rule IH)
  next
    case False
    then have run: "count_deps g n ds (d # counted) (gm_put n (gm_get 0 m n + 1) m)
        (gm_put d (gm_get [] r d @ [n]) r) = (m', r')" using Cons.prems by simp
    note IH = Cons.IH [OF run]
    let ?old = "{x \<in> set ds. x \<noteq> n \<and> gm_has g x} - set (d # counted)"
    have new: "{x \<in> set (d # ds). x \<noteq> n \<and> gm_has g x} - set counted = insert d ?old" and "d \<notin> ?old"
      using False by auto
    then have card: "card ({x \<in> set (d # ds). x \<noteq> n \<and> gm_has g x} - set counted) = Suc (card ?old)"
      by (simp add: card_insert_if)
    have "gm_ok m \<longrightarrow> n \<in> set (gm_keys m) \<longrightarrow> gm_ok m' \<and> set (gm_keys m') = set (gm_keys m)"
      using IH by (auto simp: insert_absorb)
    moreover have "\<forall>x. gm_get 0 m' x = gm_get 0 m x +
       (if x = n then int (card ({x \<in> set (d # ds). x \<noteq> n \<and> gm_has g x} - set counted)) else 0)"
      unfolding card using IH by auto
    moreover have "\<forall>x. gm_get [] r' x = gm_get [] r x @
       (if x \<in> {x \<in> set (d # ds). x \<noteq> n \<and> gm_has g x} - set counted then [n] else [])"
      unfolding new using IH by auto
    ultimately show ?thesis by blast
  qed
qed simp

lemma count_all_spec:
  assumes "count_all g rest m r = (m', r')" and "distinct (map fst rest)" and "gm_ok m"
    and "set (map fst rest) \<inter> set (gm_keys m) = {}"
    and "\<And>n ds. (n, ds) \<in> set rest \<Longrightarrow> succs g n = ds"
  shows "gm_ok m' \<and> set (gm_keys m') = set (gm_keys m) \<union> set (map fst rest) \<and>
    (\<forall>x. gm_get 0 m' x = gm_get 0 m x + (if x \<in> set (map fst rest) then int (card (inner_deps g x)) else 0)) \<and>
    (\<forall>d. gm_get [] r' d = gm_get [] r d @ filter (\<lambda>n. d \<in> inner_deps g n) (map fst rest))"
  using assms
proof (induction rest arbitrary: m r)
  case (Cons a rest)
  obtain n ds where a: "a = (n, ds)" by (cases a)
  let ?m0 = "gm_put n (gm_get 0 m n + 0) m"
  obtain m1 r1 where one: "count_deps g n ds [] ?m0 r = (m1, r1)" by (cases "count_deps g n ds [] ?m0 r")
  have inner: "{d \<in> set ds. d \<noteq> n \<and> gm_has g d} = inner_deps g n"
    using Cons.prems(5) [of n ds] a by (auto simp: inner_deps_def gm_has_iff)
  have n0: "gm_get 0 m n = 0"
    using Cons.prems(4) a by (simp add: gm_get_def map_of_eq_None_iff [THEN iffD2])
  note spec = count_deps_spec [OF one, unfolded list.set(1) Diff_empty inner]
  have keys: "gm_ok m1" "set (gm_keys m1) = insert n (set (gm_keys m))"
    using spec Cons.prems(3) by auto
  have "gm_ok m' \<and> set (gm_keys m') = set (gm_keys m1) \<union> set (map fst rest) \<and>
    (\<forall>x. gm_get 0 m' x = gm_get 0 m1 x + (if x \<in> set (map fst rest) then int (card (inner_deps g x)) else 0)) \<and>
    (\<forall>d. gm_get [] r' d = gm_get [] r1 d @ filter (\<lambda>n. d \<in> inner_deps g n) (map fst rest))"
  proof (rule Cons.IH)
    show "count_all g rest m1 r1 = (m', r')" using Cons.prems(1) a one by simp
    show "set (map fst rest) \<inter> set (gm_keys m1) = {}" using Cons.prems(2,4) a keys(2) by auto
  qed (use Cons.prems a keys in auto)
  moreover have "\<forall>x. gm_get 0 m1 x = (if x = n then int (card (inner_deps g n)) else gm_get 0 m x)"
    using spec n0 by auto
  moreover have "\<forall>d. gm_get [] r1 d = gm_get [] r d @ (if d \<in> inner_deps g n then [n] else [])"
    using spec by blast
  moreover have "n \<notin> set (map fst rest)" using Cons.prems(2) a by simp
  ultimately show ?case using a keys(2) n0 by (auto simp del: set_map)
qed simp

section \<open>One wave\<close>

lemma wave_get: "gm_get 0 (fst (wave rs m q)) x = gm_get 0 m x - int (count_list rs x)"
  by (induction rs m q rule: wave.induct) (auto simp: Let_def)

lemma wave_keys:
  "gm_ok m \<Longrightarrow> gm_ok (fst (wave rs m q)) \<and> set (gm_keys (fst (wave rs m q))) = set (gm_keys m) \<union> set rs"
  by (induction rs m q rule: wave.induct) (auto simp: Let_def simp del: set_map)

lemma wave_next:
  "(\<And>x. x \<in> set rs \<Longrightarrow> int (count_list rs x) \<le> gm_get 0 m x) \<Longrightarrow>
   \<exists>new. snd (wave rs m q) = q @ new \<and> distinct new \<and>
     set new = {x \<in> set rs. gm_get 0 m x = int (count_list rs x)}"
proof (induction rs m q rule: wave.induct)
  case (2 r rs m q)
  let ?n = "gm_get 0 m r - 1"
  let ?m = "gm_put r ?n m"
  have le: "int (count_list rs x) \<le> gm_get 0 ?m x" if "x \<in> set rs" for x
    using "2.prems" [of x] that by (auto split: if_splits)
  obtain new where new: "snd (wave rs ?m (if ?n = 0 then q @ [r] else q)) = (if ?n = 0 then q @ [r] else q) @ new"
    "distinct new" "set new = {x \<in> set rs. gm_get 0 ?m x = int (count_list rs x)}"
    using "2.IH" [OF refl refl le] by blast
  have eq: "x \<in> set rs \<Longrightarrow> gm_get 0 ?m x = int (count_list rs x) \<longleftrightarrow> gm_get 0 m x = int (count_list (r # rs) x)" for x
    by auto
  show ?case
  proof (cases "?n = 0")
    case True
    then have "r \<notin> set rs"
      using "2.prems" [of r] by (auto simp: count_list_0_iff [symmetric])
    then have "count_list rs r = 0" by (simp add: count_list_0_iff)
    with True new eq \<open>r \<notin> set rs\<close> show ?thesis
      by (intro exI [of _ "r # new"]) (auto simp: Let_def)
  next
    case False
    have "r \<notin> set rs \<Longrightarrow> count_list rs r = 0" by (simp add: count_list_0_iff)
    then have "r \<in> set rs" if "gm_get 0 m r = int (count_list (r # rs) r)"
      using that False by (cases "r \<in> set rs") simp_all
    then have "set new = {x \<in> set (r # rs). gm_get 0 m x = int (count_list (r # rs) x)}"
      unfolding new(3) using eq by fastforce
    moreover have "snd (wave (r # rs) m q) = q @ new" using False new(1) by (simp add: Let_def)
    ultimately show ?thesis using new(2) by blast
  qed
qed simp

lemma count_rdeps:
  "distinct ks \<Longrightarrow> x \<in> set ks \<Longrightarrow>
   count_list (concat (map (\<lambda>d. filter (\<lambda>n. d \<in> inner_deps g n) ks) rd)) x =
   length (filter (\<lambda>d. d \<in> inner_deps g x) rd)"
proof (induction rd)
  case (Cons d rd)
  have "count_list (filter P ks) x = (if P x then 1 else 0)" for P
    using Cons.prems by (induction ks) (auto simp: count_list_0_iff)
  with Cons show ?case by simp
qed simp

section \<open>The invariant of the waves\<close>

definition frontier :: "graph \<Rightarrow> name set \<Rightarrow> name set" where
  "frontier g S = {n \<in> set (gm_keys g). n \<notin> S \<and> inner_deps g n \<subseteq> S}"

definition wave_inv :: "graph \<Rightarrow> graph \<Rightarrow> degrees \<Rightarrow> name list \<Rightarrow> name list \<Rightarrow> bool" where
  "wave_inv g r m rd xs \<longleftrightarrow>
     gm_ok g \<and> (\<forall>d. gm_get [] r d = filter (\<lambda>n. d \<in> inner_deps g n) (gm_keys g)) \<and>
     gm_ok m \<and> set (gm_keys m) = set (gm_keys g) \<and>
     (\<forall>n \<in> set (gm_keys g). gm_get 0 m n = int (card (inner_deps g n - set xs))) \<and>
     distinct xs \<and> distinct rd \<and> sorted rd \<and> set xs \<subseteq> set (gm_keys g) \<and> set rd = frontier g (set xs) \<and>
     (\<forall>x \<in> set xs. \<forall>d \<in> inner_deps g x. precedes xs d x)"

lemma finite_inner_deps [simp]: "finite (inner_deps g n)"
  by (simp add: inner_deps_def)

lemma frontier_step:
  assumes rd: "R = frontier g S" and closed: "\<And>x. x \<in> S \<Longrightarrow> inner_deps g x \<subseteq> S"
  shows "frontier g (S \<union> R) = {x \<in> set (gm_keys g). inner_deps g x \<inter> R \<noteq> {} \<and> inner_deps g x \<subseteq> S \<union> R}"
proof -
  have "x \<notin> S \<union> R" if "inner_deps g x \<inter> R \<noteq> {}" for x
    using that closed [of x] unfolding rd frontier_def by blast
  moreover have "inner_deps g x \<inter> R \<noteq> {}"
    if "x \<in> set (gm_keys g)" "x \<notin> S \<union> R" "inner_deps g x \<subseteq> S \<union> R" for x
    using that unfolding rd frontier_def by blast
  ultimately show ?thesis unfolding frontier_def [of g "S \<union> R"] by blast
qed

lemma card_minus_split:
  assumes "finite A" and "S \<inter> R = {}"
  shows "card (A - S) = card (A - (S \<union> R)) + card (A \<inter> R)"
proof -
  have "A - S = (A - (S \<union> R)) \<union> (A \<inter> R)" using assms(2) by blast
  then have "card (A - S) = card ((A - (S \<union> R)) \<union> (A \<inter> R))" by simp
  also have "\<dots> = card (A - (S \<union> R)) + card (A \<inter> R)"
    by (rule card_Un_disjoint) (use assms(1) in auto)
  finally show ?thesis .
qed

lemma wave_inv_step:
  assumes inv: "wave_inv g r m rd xs"
  defines "rs \<equiv> concat (map (succs r) rd)"
  shows "wave_inv g r (fst (wave rs m [])) (sort (snd (wave rs m []))) (xs @ rd)"
proof -
  let ?K = "set (gm_keys g)"
  have okg: "gm_ok g" and r: "\<And>d. gm_get [] r d = filter (\<lambda>n. d \<in> inner_deps g n) (gm_keys g)"
    and okm: "gm_ok m" "set (gm_keys m) = ?K"
    and deg: "\<And>n. n \<in> ?K \<Longrightarrow> gm_get 0 m n = int (card (inner_deps g n - set xs))"
    and xs: "distinct xs" "set xs \<subseteq> ?K" and rd: "distinct rd" "set rd = frontier g (set xs)"
    and prec: "\<And>x d. x \<in> set xs \<Longrightarrow> d \<in> inner_deps g x \<Longrightarrow> precedes xs d x"
    using inv unfolding wave_inv_def by blast+
  have disj: "set xs \<inter> set rd = {}" unfolding rd(2) frontier_def by blast
  have rs: "rs = concat (map (\<lambda>d. filter (\<lambda>n. d \<in> inner_deps g n) (gm_keys g)) rd)"
    unfolding rs_def succs_def r ..
  have cnt: "count_list rs x = card (inner_deps g x \<inter> set rd)" if "x \<in> ?K" for x
  proof -
    have "count_list rs x = length (filter (\<lambda>d. d \<in> inner_deps g x) rd)"
      unfolding rs by (rule count_rdeps [OF okg that])
    also have "\<dots> = card (set (filter (\<lambda>d. d \<in> inner_deps g x) rd))"
      using rd(1) by (simp add: distinct_card del: set_filter)
    finally show ?thesis by (simp add: Int_commute Int_def conj_commute)
  qed
  have split: "card (inner_deps g x - set xs) = card (inner_deps g x - set (xs @ rd)) + card (inner_deps g x \<inter> set rd)" for x
    using card_minus_split [OF finite_inner_deps disj] by simp
  have setrs: "set rs = {x \<in> ?K. inner_deps g x \<inter> set rd \<noteq> {}}" unfolding rs by auto
  have le: "int (count_list rs x) \<le> gm_get 0 m x" if "x \<in> set rs" for x
    using that deg [of x] cnt [of x] split [of x] unfolding setrs by simp
  obtain new where new: "snd (wave rs m []) = new" "distinct new"
    "set new = {x \<in> set rs. gm_get 0 m x = int (count_list rs x)}"
    using wave_next [of rs m "[]", OF le] by auto
  have "gm_get 0 m x = int (count_list rs x) \<longleftrightarrow> inner_deps g x \<subseteq> set (xs @ rd)" if "x \<in> ?K" for x
    using deg [OF that] cnt [OF that] split [of x] by simp
  then have "set new = {x \<in> ?K. inner_deps g x \<inter> set rd \<noteq> {} \<and> inner_deps g x \<subseteq> set xs \<union> set rd}"
    unfolding new(3) setrs by auto
  moreover have "inner_deps g x \<subseteq> set xs" if "x \<in> set xs" for x
    using prec [OF that] precedes_mem [of xs _ x] by blast
  ultimately have front: "set new = frontier g (set (xs @ rd))"
    using frontier_step [OF rd(2)] by simp
  have "precedes (xs @ rd) d x" if "x \<in> set (xs @ rd)" "d \<in> inner_deps g x" for x d
  proof (cases "x \<in> set xs")
    case True
    show ?thesis by (rule precedes_append [OF prec [OF True that(2)]])
  next
    case False
    then have "x \<in> set rd" using that(1) by simp
    moreover from this have "d \<in> set xs" using that(2) unfolding rd(2) frontier_def by blast
    ultimately show ?thesis by (intro precedes_across)
  qed
  moreover have "gm_get 0 (fst (wave rs m [])) n = int (card (inner_deps g n - set (xs @ rd)))" if "n \<in> ?K" for n
    unfolding wave_get using deg [OF that] cnt [OF that] split [of n] by simp
  moreover have "gm_ok (fst (wave rs m []))" "set (gm_keys (fst (wave rs m []))) = ?K"
    using wave_keys [OF okm(1), of rs "[]"] unfolding okm(2) setrs by blast+
  moreover have "set (xs @ rd) \<subseteq> ?K" using xs(2) rd(2) unfolding frontier_def by auto
  moreover have "distinct (xs @ rd)" using xs(1) rd(1) disj by simp
  ultimately show ?thesis
    using okg r new front unfolding wave_inv_def by (simp del: set_map)
qed

lemma waves_correct: "wave_inv g r m rd xs \<Longrightarrow> \<exists>m'. wave_inv g r m' [] (waves r m rd xs)"
proof (induction r m rd xs rule: waves.induct)
  case (1 r m rd xs)
  show ?case
  proof (cases "rd = []")
    case True
    with 1 show ?thesis by (subst waves.simps) auto
  next
    case False
    with "1.IH" [OF False wave_inv_step [OF "1.prems"]] show ?thesis by (subst waves.simps) simp
  qed
qed

lemma waves_unique:
  "wave_inv g r m rd xs \<Longrightarrow> wave_inv g' r' m' rd xs \<Longrightarrow> inner_deps g = inner_deps g' \<Longrightarrow>
   set (gm_keys g) = set (gm_keys g') \<Longrightarrow> waves r m rd xs = waves r' m' rd xs"
proof (induction r m rd xs arbitrary: r' m' rule: waves.induct)
  case (1 r m rd xs)
  show ?case
  proof (cases "rd = []")
    case True
    then show ?thesis by (simp add: waves.simps)
  next
    case False
    let ?rs = "concat (map (succs r) rd)" and ?rs' = "concat (map (succs r') rd)"
    note s1 = wave_inv_step [OF "1.prems"(1)] and s2 = wave_inv_step [OF "1.prems"(2)]
    have "sort (snd (wave ?rs m [])) = sort (snd (wave ?rs' m' []))"
      using s1 s2 "1.prems"(3,4) unfolding wave_inv_def frontier_def
      by (intro sorted_distinct_set_unique) simp_all
    with "1.IH" [OF False s1 _ "1.prems"(3,4)] s2 False show ?thesis
      by (simp add: waves.simps [of r m rd xs] waves.simps [of r' m' rd xs])
  qed
qed

lemma wave_inv_init:
  assumes ok: "gm_ok g" and run: "count_all g g [] [] = (m, r)"
  shows "wave_inv g r m (sort (map fst (filter (\<lambda>(_, n). n = 0) m))) []"
proof -
  have "gm_ok m \<and> set (gm_keys m) = set (gm_keys ([] :: degrees)) \<union> set (map fst g) \<and>
    (\<forall>x. gm_get 0 m x = gm_get 0 [] x + (if x \<in> set (map fst g) then int (card (inner_deps g x)) else 0)) \<and>
    (\<forall>d. gm_get [] r d = gm_get [] [] d @ filter (\<lambda>n. d \<in> inner_deps g n) (map fst g))"
    by (rule count_all_spec [OF run ok]) (use ok in \<open>auto simp: succs_def gm_get_def\<close>)
  then have m: "gm_ok m" "set (gm_keys m) = set (gm_keys g)"
    "\<And>x. x \<in> set (gm_keys g) \<Longrightarrow> gm_get 0 m x = int (card (inner_deps g x))"
    and r: "\<And>d. gm_get [] r d = filter (\<lambda>n. d \<in> inner_deps g n) (gm_keys g)" by auto
  have "set (map fst (filter (\<lambda>(_, n). n = 0) m)) = frontier g {}"
  proof (intro set_eqI)
    fix n
    have "n \<in> set (gm_keys g) \<Longrightarrow> gm_get 0 m n = 0 \<longleftrightarrow> inner_deps g n \<subseteq> {}"
      using m(3) [of n] by simp
    then show "n \<in> set (map fst (filter (\<lambda>(_, n). n = 0) m)) \<longleftrightarrow> n \<in> frontier g {}"
      unfolding keys_filter_get [OF m(1), where z = 0] m(2) frontier_def by blast
  qed
  moreover have "distinct (map fst (filter (\<lambda>(_, n). n = 0) m))" using m(1) by (simp add: distinct_map_filter)
  ultimately show ?thesis
    using ok m r unfolding wave_inv_def by (simp del: set_map)
qed

section \<open>The result\<close>

text \<open>The units that depend on a cycle of the closure, directly or not.\<close>

definition cyclic_units :: "graph \<Rightarrow> name set" where
  "cyclic_units g = {n \<in> set (gm_keys g).
     \<exists>c. (n, c) \<in> (inner_edges g)\<^sup>* \<and> (c, c) \<in> (inner_edges g)\<^sup>+}"

lemma inner_edges_key: "(a, b) \<in> inner_edges g \<Longrightarrow> a \<in> set (gm_keys g) \<and> b \<in> set (gm_keys g)"
  using succs_key [of b g a] by (auto simp: inner_edges_def inner_deps_def)

lemma wave_inv_final:
  assumes inv: "wave_inv g r m [] xs"
  shows "set (gm_keys g) - set xs = cyclic_units g"
proof (intro equalityI subsetI)
  let ?E = "inner_edges g" and ?R = "set (gm_keys g) - set xs"
  have none: "frontier g (set xs) = {}" and dist: "distinct xs"
    and prec: "\<And>x d. x \<in> set xs \<Longrightarrow> d \<in> inner_deps g x \<Longrightarrow> precedes xs d x"
    using inv unfolding wave_inv_def by auto
  fix n
  {
    assume n: "n \<in> ?R"
    have stuck: "\<exists>y \<in> ?R. (x, y) \<in> ?E" if "x \<in> ?R" for x
    proof -
      have "\<not> inner_deps g x \<subseteq> set xs" using that none unfolding frontier_def by blast
      then obtain y where "y \<in> inner_deps g x" "y \<notin> set xs" by blast
      then show ?thesis using inner_edges_key [of x y g] by (auto simp: inner_edges_def)
    qed
    let ?S = "{y \<in> ?R. (n, y) \<in> ?E\<^sup>*}"
    have "\<exists>y \<in> ?S. (x, y) \<in> ?E" if "x \<in> ?S" for x
      using that stuck [of x] by (blast intro: rtrancl_into_rtrancl)
    moreover have "n \<in> ?S" using n by simp
    ultimately have "\<exists>x \<in> ?S. (x, x) \<in> ?E\<^sup>+" by (intro finite_succ_cycle) auto
    then show "n \<in> cyclic_units g" using n unfolding cyclic_units_def by blast
  next
    assume "n \<in> cyclic_units g"
    then obtain c where n: "n \<in> set (gm_keys g)" and c: "(n, c) \<in> ?E\<^sup>*" "(c, c) \<in> ?E\<^sup>+"
      unfolding cyclic_units_def by blast
    have "c \<in> set xs" if "n \<in> set xs"
      using c(1) that by (induction) (auto simp: inner_edges_def dest: prec precedes_mem)
    moreover have "c \<notin> set xs"
      using precedes_acyclic_trancl [OF dist _ c(2)] prec precedes_irrefl [OF dist]
      by (auto simp: inner_edges_def)
    ultimately show "n \<in> ?R" using n by blast
  }
qed

lemma topoOrder_shape:
  assumes ok: "gm_ok g"
  shows "\<exists>m r xs. wave_inv g r m [] xs \<and> topoOrder g = xs @ sorted_list_of_set (cyclic_units g)"
proof -
  obtain m r where run: "count_all g g [] [] = (m, r)" by (cases "count_all g g [] []")
  let ?xs = "waves r m (sort (map fst (filter (\<lambda>(_, n). n = 0) m))) []"
  obtain m' where inv: "wave_inv g r m' [] ?xs"
    using waves_correct [OF wave_inv_init [OF ok run]] by blast
  have rest: "set (filter (\<lambda>n. n \<notin> set ?xs) (gm_keys g)) = cyclic_units g"
    using wave_inv_final [OF inv] by auto
  have stuck: "sort (filter (\<lambda>n. n \<notin> set ?xs) (gm_keys g)) = sorted_list_of_set (cyclic_units g)"
    unfolding rest [symmetric] sorted_list_of_set_sort_remdups
    using ok by (simp add: distinct_remdups_id del: set_filter)
  have "distinct ?xs" "set ?xs \<subseteq> set (gm_keys g)" using inv unfolding wave_inv_def by blast+
  then have "length ?xs < length g \<or> set ?xs = set (gm_keys g)"
    using distinct_card [OF ok] distinct_card [of ?xs] psubset_card_mono [of "set (gm_keys g)" "set ?xs"]
    by auto
  moreover have "topoOrder g = (if length ?xs < length g
      then ?xs @ sort (filter (\<lambda>n. n \<notin> set ?xs) (gm_keys g)) else ?xs)"
    by (simp add: topoOrder_def run Let_def)
  moreover have "cyclic_units g = {}" if "set ?xs = set (gm_keys g)"
    using wave_inv_final [OF inv] that by blast
  ultimately have "topoOrder g = ?xs @ sorted_list_of_set (cyclic_units g)"
    using stuck by (cases "length ?xs < length g") auto
  with inv show ?thesis by blast
qed

lemma topoOrder_facts:
  assumes "gm_ok g"
  shows "distinct (topoOrder g)" and "set (topoOrder g) = set (gm_keys g)"
    and "(a, b) \<in> inner_edges g \<Longrightarrow> a \<notin> cyclic_units g \<Longrightarrow> precedes (topoOrder g) b a"
proof -
  obtain m r xs where inv: "wave_inv g r m [] xs"
    and shape: "topoOrder g = xs @ sorted_list_of_set (cyclic_units g)"
    using topoOrder_shape [OF assms] by blast
  have xs: "distinct xs" "set xs \<subseteq> set (gm_keys g)" "\<And>x d. x \<in> set xs \<Longrightarrow> d \<in> inner_deps g x \<Longrightarrow> precedes xs d x"
    using inv unfolding wave_inv_def by blast+
  have rest: "set (gm_keys g) - set xs = cyclic_units g" using wave_inv_final [OF inv] .
  then have fin: "set (sorted_list_of_set (cyclic_units g)) = cyclic_units g"
    by (metis finite_Diff finite_set set_sorted_list_of_set)
  show "precedes (topoOrder g) b a" if "(a, b) \<in> inner_edges g" "a \<notin> cyclic_units g"
  proof -
    have "a \<in> set xs" using that inner_edges_key [OF that(1)] rest by blast
    then have "precedes xs b a" using that(1) xs(3) by (simp add: inner_edges_def)
    then show ?thesis unfolding shape by (rule precedes_append)
  qed
  show "distinct (topoOrder g)" unfolding shape using xs(1) fin rest by auto
  show "set (topoOrder g) = set (gm_keys g)" unfolding shape set_append fin using rest xs(2) by blast
qed

section \<open>Properties\<close>

text \<open>
  The artifact order holds every unit of the closure exactly once. A unit comes after
  the dependencies it has in the closure unless it depends on a cycle; the units that do
  stand at the end, sorted.
\<close>

theorem topoOrder_spec:
  assumes "gm_ok g"
  shows "distinct (topoOrder g) \<and> set (topoOrder g) = set (gm_keys g) \<and>
    (\<forall>a b. (a, b) \<in> inner_edges g \<and> a \<notin> cyclic_units g \<longrightarrow> precedes (topoOrder g) b a) \<and>
    (\<exists>xs. topoOrder g = xs @ sorted_list_of_set (cyclic_units g))"
  using topoOrder_facts [OF assms] topoOrder_shape [OF assms] by blast

definition ex_closure :: graph where
  "ex_closure = [(''app'', [''lib'', ''app'', ''lib'']), (''lib'', []), (''x'', [''y'']), (''y'', [''x'', ''lib''])]"

theorem topoOrder_spec_witness:
  "topoOrder ex_closure = [''lib'', ''app'', ''x'', ''y''] \<and> distinct (topoOrder ex_closure)"
proof -
  have "topoOrder ex_closure = [''lib'', ''app'', ''x'', ''y'']"
    by (simp add: topoOrder_def ex_closure_def gm_has_def waves.simps succs_def)
  with topoOrder_spec [of ex_closure] show ?thesis by (simp add: ex_closure_def)
qed

text \<open>The artifact order does not depend on the iteration order of the map it is computed
  from.
\<close>

theorem topoOrder_deterministic:
  assumes ok: "gm_ok g" and perm: "mset g = mset g'"
  shows "topoOrder g = topoOrder g'"
proof -
  have ok': "gm_ok g'" by (rule gm_ok_perm [OF ok perm])
  have keys: "set (gm_keys g) = set (gm_keys g')" using mset_eq_setD [OF keys_perm [OF perm]] .
  have inner: "inner_deps g = inner_deps g'"
    unfolding inner_deps_def fun_eq_iff keys succs_perm [OF ok perm] by simp
  have cyc: "cyclic_units g = cyclic_units g'" unfolding cyclic_units_def inner_edges_def inner keys ..
  obtain m r where run: "count_all g g [] [] = (m, r)" by (cases "count_all g g [] []")
  obtain m' r' where run': "count_all g' g' [] [] = (m', r')" by (cases "count_all g' g' [] []")
  let ?rd = "sort (map fst (filter (\<lambda>(_, n). n = 0) m))" and ?rd' = "sort (map fst (filter (\<lambda>(_, n). n = 0) m'))"
  note i = wave_inv_init [OF ok run] and i' = wave_inv_init [OF ok' run']
  have rd: "?rd = ?rd'"
    using i i' unfolding wave_inv_def frontier_def inner keys by (intro sorted_distinct_set_unique) simp_all
  have xs: "waves r m ?rd [] = waves r' m' ?rd' []"
    using waves_unique [OF i _ inner keys] i' unfolding rd by blast
  have stuck: "sort (filter (\<lambda>n. n \<notin> S) (gm_keys g)) = sort (filter (\<lambda>n. n \<notin> S) (gm_keys g'))" for S
    using keys_perm [OF perm] by (intro sort_mset_cong) (simp add: mset_filter)
  have len: "length g = length g'" using perm by (rule mset_eq_length)
  show ?thesis
    by (simp add: topoOrder_def run run' Let_def xs stuck len del: sort_key_simps)
qed

theorem topoOrder_deterministic_witness: "topoOrder ex_closure = topoOrder (rev ex_closure)"
  by (rule topoOrder_deterministic) (simp_all add: ex_closure_def)

end
