(* ===== verification/Paths.thy ===== *)
theory Paths
  imports GoStrings
begin

text \<open>
  The lexical functions of Go's \<^verbatim>\<open>path/filepath\<close> on Unix that the sources use.
\<close>

text \<open>The component stack of \<^verbatim>\<open>Clean\<close>, innermost component first.\<close>

definition clean_push :: "bool \<Rightarrow> string \<Rightarrow> string list \<Rightarrow> string list" where
  "clean_push rooted c stack =
     (if c = [] \<or> c = ''.'' then stack
      else if c = ''..'' then
        (case stack of
           [] \<Rightarrow> if rooted then [] else [''..'']
         | t # rest \<Rightarrow> if t = ''..'' then ''..'' # stack else rest)
      else c # stack)"

definition IsAbs :: "string \<Rightarrow> bool" where
  "IsAbs p \<longleftrightarrow> HasPrefix p ''/''"

definition Clean :: "string \<Rightarrow> string" where
  "Clean p =
     (let rooted = IsAbs p;
          out = Join (rev (fold (clean_push rooted) (Split p CHR ''/'') [])) ''/''
      in if rooted then CHR ''/'' # out else if out = [] then ''.'' else out)"

definition PathJoin :: "string list \<Rightarrow> string" where
  "PathJoin elems =
     (let es = filter (\<lambda>e. e \<noteq> []) elems
      in if es = [] then [] else Clean (Join es ''/''))"

definition Dir :: "string \<Rightarrow> string" where
  "Dir p = (case LastIndexByte p CHR ''/'' of
              None \<Rightarrow> ''.''
            | Some i \<Rightarrow> Clean (take (Suc i) p))"

definition strip_slashes :: "string \<Rightarrow> string" where
  "strip_slashes p = rev (dropWhile (\<lambda>c. c = CHR ''/'') (rev p))"

definition Base :: "string \<Rightarrow> string" where
  "Base p =
     (if p = [] then ''.''
      else let q = strip_slashes p
           in if q = [] then ''/''
              else (case LastIndexByte q CHR ''/'' of None \<Rightarrow> q | Some i \<Rightarrow> drop (Suc i) q))"

text \<open>
  \<^verbatim>\<open>Rel\<close> on the components of two clean paths; \<^const>\<open>None\<close> is its error.
\<close>

fun strip_common :: "string list \<Rightarrow> string list \<Rightarrow> string list \<times> string list" where
  "strip_common (b # bs) (t # ts) = (if b = t then strip_common bs ts else (b # bs, t # ts))"
| "strip_common bs ts = (bs, ts)"

definition components :: "string \<Rightarrow> string list" where
  "components p = filter (\<lambda>c. c \<noteq> [] \<and> c \<noteq> ''.'') (Split p CHR ''/'')"

definition Rel :: "string \<Rightarrow> string \<Rightarrow> string option" where
  "Rel basepath targpath =
     (let base = Clean basepath; targ = Clean targpath in
      if targ = base then Some ''.''
      else if IsAbs base \<noteq> IsAbs targ then None
      else (case strip_common (components base) (components targ) of
              (bs, ts) \<Rightarrow>
                if bs \<noteq> [] \<and> hd bs = ''..'' then None
                else Some (Join (replicate (length bs) ''..'' @ ts) ''/'')))"

lemma Base_simple:
  assumes "CHR ''/'' \<notin> set b" and "b \<noteq> []"
  shows "Base (d @ CHR ''/'' # b) = b"
proof -
  have "hd (rev b) \<noteq> CHR ''/''"
    using assms by (metis hd_in_set rev_is_Nil_conv set_rev)
  then have "dropWhile (\<lambda>c. c = CHR ''/'') (rev b @ CHR ''/'' # rev d) = rev b @ CHR ''/'' # rev d"
    using assms(2) by (cases "rev b") auto
  then have "strip_slashes (d @ CHR ''/'' # b) = d @ CHR ''/'' # b"
    by (simp add: strip_slashes_def)
  then show ?thesis
    using LastIndexByte_append [OF assms(1), of d] by (simp add: Base_def)
qed

lemma Base_name: "CHR ''/'' \<notin> set b \<Longrightarrow> b \<noteq> [] \<Longrightarrow> Base b = b"
proof -
  assume b: "CHR ''/'' \<notin> set b" "b \<noteq> []"
  then have "hd (rev b) \<noteq> CHR ''/''" by (metis hd_in_set rev_is_Nil_conv set_rev)
  then have "strip_slashes b = b"
    using b(2) by (cases "rev b") (auto simp: strip_slashes_def)
  then show ?thesis using b LastIndexByte_None [of b "CHR ''/''"] by (simp add: Base_def)
qed

end
