(* ===== verification/Catalog.thy ===== *)
theory Catalog
  imports Paths TopoOrder Views
begin

text \<open>
  The engine's unit catalog: \<^verbatim>\<open>internal/starlark/engine.go\<close> (\<^verbatim>\<open>storeByModule\<close>),
  \<^verbatim>\<open>synthetic_module.go\<close> (\<^verbatim>\<open>RegisterSyntheticModule\<close>), the registration of a unit in
  \<^verbatim>\<open>builtins.go\<close>, and the closure walk of \<^verbatim>\<open>closure.go\<close> that materializes feed units on
  first reference. The engine is passed through as explicit state.
\<close>

section \<open>State\<close>

record Engine =
  eProject :: "Project option"
  eMachines :: "(name, Machine) gomap"
  eUnits :: "(name, Unit) gomap"
  eUnitsByModule :: catalog
  eCurrentModule :: name
  eCurrentModuleIndex :: int
  eCurrentFile :: string
  eAllowDuplicateProvides :: bool
  eShadows :: "ShadowEvent list"
  eSyntheticModules :: "SyntheticModule list"

datatype EngineError =
    SynthMissingName
  | SynthMissingCallbacks
  | SynthDuplicate name
  | UnitAlreadyDefined name name
  | VirtualProvidedTwice name name name
  | LookupFailed name name string
  | Unresolved name
  | UnresolvedDep name name
  | EmptyDistro

definition NewEngine :: Engine where
  "NewEngine = \<lparr>eProject = None, eMachines = [], eUnits = [], eUnitsByModule = [],
     eCurrentModule = [], eCurrentModuleIndex = 0, eCurrentFile = [],
     eAllowDuplicateProvides = False, eShadows = [], eSyntheticModules = []\<rparr>"

definition SetCurrentModule :: "Engine \<Rightarrow> name \<Rightarrow> int \<Rightarrow> Engine" where
  "SetCurrentModule e name index = e\<lparr>eCurrentModule := name, eCurrentModuleIndex := index\<rparr>"

definition storeByModule :: "Engine \<Rightarrow> Unit \<Rightarrow> Engine" where
  "storeByModule e u = e\<lparr>eUnitsByModule :=
     gm_put (uModule u)
       (gm_put (uName u) u (gm_get [] (eUnitsByModule e) (uModule u)))
       (eUnitsByModule e)\<rparr>"

definition RegisterSyntheticModule :: "Engine \<Rightarrow> SyntheticModule option \<Rightarrow> EngineError + Engine" where
  "RegisterSyntheticModule e sm =
     (case sm of
        None \<Rightarrow> Inl SynthMissingName
      | Some s \<Rightarrow>
          if smName s = [] then Inl SynthMissingName
          else if smLookup s = None \<or> smNames s = None then Inl SynthMissingCallbacks
          else if list_ex (\<lambda>existing. smName existing = smName s) (eSyntheticModules e)
            then Inl (SynthDuplicate (smName s))
          else Inr (e\<lparr>eSyntheticModules := eSyntheticModules e @ [s]\<rparr>))"

section \<open>Registration of a unit\<close>

definition shadow :: "name \<Rightarrow> Unit \<Rightarrow> Unit \<Rightarrow> ShadowEvent" where
  "shadow name winner loser = \<lparr>seUnit = name, seWinnerModule = uModule winner,
     seWinnerDir = uDefinedIn winner, seLoserModule = uModule loser, seLoserDir = uDefinedIn loser\<rparr>"

text \<open>
  \<^verbatim>\<open>registerUnit\<close> from the point where the unit has been filled from its keyword
  arguments: the unit that answers to the name and the engine afterwards.
\<close>

definition stamp_unit :: "Engine \<Rightarrow> Unit \<Rightarrow> Unit" where
  "stamp_unit e r = r\<lparr>uModule := eCurrentModule e, uModuleIndex := eCurrentModuleIndex e,
     uDefinedIn := (if eCurrentFile e \<noteq> [] then Dir (eCurrentFile e) else uDefinedIn r)\<rparr>"

definition register :: "Engine \<Rightarrow> Unit \<Rightarrow> EngineError + Engine \<times> Unit" where
  "register e r0 =
     (let r = stamp_unit e r0; name = uName r in
      case map_of (eUnits e) name of
        None \<Rightarrow> Inr (storeByModule (e\<lparr>eUnits := gm_put name r (eUnits e)\<rparr>) r, r)
      | Some existing \<Rightarrow>
          if uDistro r \<noteq> [] \<and> uDistro existing \<noteq> [] \<and> uDistro r \<noteq> uDistro existing
          then Inr (storeByModule e r, r)
          else if uModuleIndex r = uModuleIndex existing
          then Inl (UnitAlreadyDefined name (uModule existing))
          else if uModuleIndex r < uModuleIndex existing
          then Inr (e\<lparr>eShadows := eShadows e @ [shadow name existing r]\<rparr>, existing)
          else Inr (storeByModule
                      (e\<lparr>eShadows := eShadows e @ [shadow name r existing],
                         eUnits := gm_put name r (eUnits e)\<rparr>) r, r))"

section \<open>The provides table\<close>

text \<open>
  The loader's merge of the units' \<^verbatim>\<open>provides\<close> into one table, units in name order.
\<close>

fun merge_virtuals ::
  "Engine \<Rightarrow> Unit \<Rightarrow> name list \<Rightarrow> (name, name) gomap \<Rightarrow> EngineError + (name, name) gomap" where
  "merge_virtuals e u [] provides = Inr provides"
| "merge_virtuals e u (virt # virts) provides =
     (if virt = [] then merge_virtuals e u virts provides
      else case map_of provides virt of
        None \<Rightarrow> merge_virtuals e u virts (gm_put virt (uName u) provides)
      | Some existingName \<Rightarrow>
          (case map_of (eUnits e) existingName of
             None \<Rightarrow>
               if \<not> eAllowDuplicateProvides e
               then Inl (VirtualProvidedTwice virt existingName (uName u))
               else merge_virtuals e u virts provides
           | Some existingUnit \<Rightarrow>
               if uDistro u \<noteq> [] \<and> uDistro existingUnit \<noteq> [] \<and> uDistro u \<noteq> uDistro existingUnit
               then merge_virtuals e u virts provides
               else if uModuleIndex u = uModuleIndex existingUnit
               then (if \<not> eAllowDuplicateProvides e
                     then Inl (VirtualProvidedTwice virt existingName (uName u))
                     else merge_virtuals e u virts provides)
               else if uModuleIndex u > uModuleIndex existingUnit
               then merge_virtuals e u virts (gm_put virt (uName u) provides)
               else merge_virtuals e u virts provides))"

fun merge_provides ::
  "Engine \<Rightarrow> name list \<Rightarrow> (name, name) gomap \<Rightarrow> EngineError + (name, name) gomap" where
  "merge_provides e [] provides = Inr provides"
| "merge_provides e (uname # unames) provides =
     (case map_of (eUnits e) uname of
        None \<Rightarrow> merge_provides e unames provides
      | Some u \<Rightarrow>
          (case merge_virtuals e u (uProvides u) provides of
             Inl err \<Rightarrow> Inl err
           | Inr provides' \<Rightarrow> merge_provides e unames provides'))"

definition collect_provides :: "Engine \<Rightarrow> (name, name) gomap \<Rightarrow> EngineError + (name, name) gomap" where
  "collect_provides e provides = merge_provides e (sort (gm_keys (eUnits e))) provides"

section \<open>Lookup and materialization\<close>

definition visibleToDistro :: "Unit option \<Rightarrow> name \<Rightarrow> bool" where
  "visibleToDistro u effectiveDistro \<longleftrightarrow>
     (case u of
        None \<Rightarrow> False
      | Some v \<Rightarrow> if effectiveDistro = [] then True
                  else uDistro v = [] \<or> uDistro v = effectiveDistro)"

definition engine_resolveProvides :: "Engine \<Rightarrow> name \<Rightarrow> name" where
  "engine_resolveProvides e name =
     (case eProject e of
        None \<Rightarrow> name
      | Some p \<Rightarrow> (case map_of (pProvides p) name of
                    None \<Rightarrow> name
                  | Some mapped \<Rightarrow> if mapped \<noteq> [] then mapped else name))"

definition engine_resolveProvidesForDistro :: "Engine \<Rightarrow> name \<Rightarrow> name \<Rightarrow> name" where
  "engine_resolveProvidesForDistro e name effectiveDistro =
     (case eProject e of
        None \<Rightarrow> name
      | Some p \<Rightarrow> (let mapped = ResolveProvidesForDistro p name effectiveDistro
                  in if mapped \<noteq> [] then mapped else name))"

definition findVisibleByName :: "Engine \<Rightarrow> name \<Rightarrow> name \<Rightarrow> Unit option" where
  "findVisibleByName e name effectiveDistro =
     scan_best (\<lambda>u. visibleToDistro (Some u) effectiveDistro) name (eUnitsByModule e) None"

definition findInModuleByName :: "Engine \<Rightarrow> name \<Rightarrow> name \<Rightarrow> Unit option" where
  "findInModuleByName e name moduleName =
     (case map_of (eUnitsByModule e) moduleName of
        None \<Rightarrow> None
      | Some byName \<Rightarrow> map_of byName name)"

text \<open>A registered feed has both callbacks; a missing one answers nothing.\<close>

definition feed_lookup :: "SyntheticModule \<Rightarrow> name \<Rightarrow> string + Unit option" where
  "feed_lookup sm name = (case smLookup sm of None \<Rightarrow> Inr None | Some f \<Rightarrow> f name)"

definition stamp_feed_unit :: "SyntheticModule \<Rightarrow> Unit \<Rightarrow> Unit" where
  "stamp_feed_unit sm u = u\<lparr>uModuleIndex := smPriority sm, uModule := smName sm\<rparr>"

fun lookup_pinned ::
  "SyntheticModule list \<Rightarrow> Engine \<Rightarrow> name \<Rightarrow> name \<Rightarrow> name \<Rightarrow> EngineError + Engine \<times> Unit option" where
  "lookup_pinned [] e name moduleName effectiveDistro =
     (case findInModuleByName e name moduleName of
        None \<Rightarrow> Inr (e, None)
      | Some u \<Rightarrow> if visibleToDistro (Some u) effectiveDistro then Inr (e, Some u) else Inr (e, None))"
| "lookup_pinned (sm # sms) e name moduleName effectiveDistro =
     (if smName sm \<noteq> moduleName then lookup_pinned sms e name moduleName effectiveDistro
      else case feed_lookup sm name of
        Inl err \<Rightarrow> Inl (LookupFailed (smName sm) name err)
      | Inr None \<Rightarrow> Inr (e, None)
      | Inr (Some u) \<Rightarrow>
          if \<not> visibleToDistro (Some u) effectiveDistro then Inr (e, None)
          else Inr (storeByModule e (stamp_feed_unit sm u), Some (stamp_feed_unit sm u)))"

definition lookupInModule :: "Engine \<Rightarrow> name \<Rightarrow> name \<Rightarrow> name \<Rightarrow> EngineError + Engine \<times> Unit option" where
  "lookupInModule e name moduleName effectiveDistro =
     lookup_pinned (eSyntheticModules e) e name moduleName effectiveDistro"

text \<open>The walk over the feeds in registration order.\<close>

fun materialize ::
  "SyntheticModule list \<Rightarrow> Engine \<Rightarrow> name \<Rightarrow> name \<Rightarrow> EngineError + Engine \<times> Unit option" where
  "materialize [] e name effectiveDistro = Inr (e, None)"
| "materialize (sm # sms) e name effectiveDistro =
     (case feed_lookup sm name of
        Inl err \<Rightarrow> Inl (LookupFailed (smName sm) name err)
      | Inr None \<Rightarrow> materialize sms e name effectiveDistro
      | Inr (Some u) \<Rightarrow>
          if \<not> visibleToDistro (Some u) effectiveDistro then materialize sms e name effectiveDistro
          else
            let v = stamp_feed_unit sm u;
                e' = (if gm_has (eUnits e) name then e else e\<lparr>eUnits := gm_put name v (eUnits e)\<rparr>)
            in Inr (storeByModule e' v, Some v))"

definition pinned_module :: "Engine \<Rightarrow> name \<Rightarrow> name \<Rightarrow> name option" where
  "pinned_module e name effectiveDistro =
     (case eProject e of
        None \<Rightarrow> None
      | Some p \<Rightarrow>
          if effectiveDistro = [] then None
          else (case map_of (pPreferModules p) effectiveDistro of
                  None \<Rightarrow> None
                | Some pins \<Rightarrow> (case map_of pins name of
                                 None \<Rightarrow> None
                               | Some pinned \<Rightarrow> if pinned \<noteq> [] then Some pinned else None)))"

text \<open>Resolution after the pins: the flat catalog, its cross-distro siblings, the feeds.\<close>

definition lookup_default :: "Engine \<Rightarrow> name \<Rightarrow> name \<Rightarrow> EngineError + Engine \<times> Unit option" where
  "lookup_default e name effectiveDistro =
     (case map_of (eUnits e) name of
        None \<Rightarrow> materialize (eSyntheticModules e) e name effectiveDistro
      | Some u \<Rightarrow>
          if visibleToDistro (Some u) effectiveDistro then Inr (e, Some u)
          else (case findVisibleByName e name effectiveDistro of
                  Some alt \<Rightarrow> Inr (e, Some alt)
                | None \<Rightarrow> materialize (eSyntheticModules e) e name effectiveDistro))"

definition lookupOrMaterialize :: "Engine \<Rightarrow> name \<Rightarrow> name \<Rightarrow> EngineError + Engine \<times> Unit option" where
  "lookupOrMaterialize e rawName effectiveDistro =
     (let name = engine_resolveProvidesForDistro e rawName effectiveDistro in
      case pinned_module e name effectiveDistro of
        None \<Rightarrow> lookup_default e name effectiveDistro
      | Some pinned \<Rightarrow>
          (case lookupInModule e name pinned effectiveDistro of
             Inl err \<Rightarrow> Inl err
           | Inr (e', Some u) \<Rightarrow> Inr (e', Some u)
           | Inr (e', None) \<Rightarrow> lookup_default e' name effectiveDistro))"

section \<open>The closure walk\<close>

fun resolve_all ::
  "Engine \<Rightarrow> name \<Rightarrow> name \<Rightarrow> name list \<Rightarrow> name list \<Rightarrow> EngineError + Engine \<times> name list" where
  "resolve_all e owner d [] resolved = Inr (e, resolved)"
| "resolve_all e owner d (dep # ds) resolved =
     (case lookupOrMaterialize e dep d of
        Inl err \<Rightarrow> Inl err
      | Inr (e', None) \<Rightarrow> Inl (UnresolvedDep dep owner)
      | Inr (e', Some du) \<Rightarrow> resolve_all e' owner d ds (resolved @ [uName du]))"

text \<open>
  The feeds are arbitrary code, so the walk may not end; not returning is the value
  \<^const>\<open>None\<close>.
\<close>

partial_function (option) closure_walk ::
  "Engine \<Rightarrow> name \<Rightarrow> name list \<Rightarrow> graph \<Rightarrow> (EngineError + Engine \<times> graph) option" where
  "closure_walk e d queue deps =
     (case queue of
        [] \<Rightarrow> Some (Inr (e, deps))
      | name # queue' \<Rightarrow>
          (case lookupOrMaterialize e name d of
             Inl err \<Rightarrow> Some (Inl err)
           | Inr (e', None) \<Rightarrow> Some (Inl (Unresolved name))
           | Inr (e', Some u) \<Rightarrow>
               if gm_has deps (uName u) then closure_walk e' d queue' deps
               else (case resolve_all e' (uName u) d (RuntimeDepsForDistro u d) [] of
                       Inl err \<Rightarrow> Some (Inl err)
                     | Inr (e'', resolved) \<Rightarrow>
                         closure_walk e'' d (queue' @ resolved) (gm_put (uName u) resolved deps))))"

definition closure :: "Engine \<Rightarrow> name list \<Rightarrow> name \<Rightarrow> (EngineError + Engine \<times> name list) option" where
  "closure e roots effectiveDistro =
     (if effectiveDistro = [] then Some (Inl EmptyDistro)
      else (case closure_walk e effectiveDistro roots [] of
              None \<Rightarrow> None
            | Some (Inl err) \<Rightarrow> Some (Inl err)
            | Some (Inr (e', deps)) \<Rightarrow> Some (Inr (e', topoOrder deps))))"

end
