(* ===== verification/ClosureWalk.thy ===== *)
theory ClosureWalk
  imports Catalog
begin

text \<open>
  Properties of the catalog and of the closure walk of theory Catalog: visibility of what a
  lookup returns, termination and completeness of the walk, what registration does on every
  branch, and two consequences of the order in which the loader fills the project.
\<close>

section \<open>Lemmas on the catalog\<close>

definition module_unit :: "Engine \<Rightarrow> name \<Rightarrow> name \<Rightarrow> Unit option" where
  "module_unit e m n = (case map_of (eUnitsByModule e) m of None \<Rightarrow> None | Some b \<Rightarrow> map_of b n)"

lemma module_unit_store [simp]:
  "module_unit (storeByModule e u) m n =
     (if m = uModule u \<and> n = uName u then Some u else module_unit e m n)"
  by (auto simp: module_unit_def storeByModule_def gm_get_def split: option.splits)

lemma storeByModule_simps [simp]:
  "eProject (storeByModule e u) = eProject e"
  "eUnits (storeByModule e u) = eUnits e"
  "eSyntheticModules (storeByModule e u) = eSyntheticModules e"
  "eShadows (storeByModule e u) = eShadows e"
  by (simp_all add: storeByModule_def)

lemma module_unit_cong [simp]:
  "module_unit (e\<lparr>eUnits := us\<rparr>) = module_unit e"
  "module_unit (e\<lparr>eShadows := ss\<rparr>) = module_unit e"
  by (simp_all add: module_unit_def fun_eq_iff)

lemma findInModuleByName_eq: "findInModuleByName e n m = module_unit e m n"
  by (simp add: findInModuleByName_def module_unit_def)

lemma module_unit_Some:
  "module_unit e m n = Some u \<longleftrightarrow> (\<exists>b. map_of (eUnitsByModule e) m = Some b \<and> map_of b n = Some u)"
  by (cases "map_of (eUnitsByModule e) m") (simp_all add: module_unit_def)

text \<open>A unit is filed under its own name and module.\<close>

definition catalog_ok :: "Engine \<Rightarrow> bool" where
  "catalog_ok e \<longleftrightarrow> (\<forall>m n u. module_unit e m n = Some u \<longrightarrow> uModule u = m \<and> uName u = n)"

lemma catalog_ok_store: "catalog_ok e \<Longrightarrow> catalog_ok (storeByModule e u)"
  by (simp add: catalog_ok_def)

lemma candidates_module_unit:
  assumes "gm_ok (eUnitsByModule e)"
  shows "u \<in> candidates n (eUnitsByModule e) \<longleftrightarrow> (\<exists>m. module_unit e m n = Some u)"
proof -
  have "u \<in> candidates n (eUnitsByModule e) \<longleftrightarrow>
      (\<exists>m b. map_of (eUnitsByModule e) m = Some b \<and> map_of b n = Some u)"
    unfolding candidates_def map_of_eq_Some_iff [OF assms] by auto
  then show ?thesis by (simp only: module_unit_Some)
qed

text \<open>
  A condition on units that holds for everything in the catalog and everything the feeds
  return holds for everything a lookup returns, and stays true of the catalog.
\<close>

definition units_all :: "(Unit \<Rightarrow> bool) \<Rightarrow> Engine \<Rightarrow> bool" where
  "units_all P e \<longleftrightarrow> gm_ok (eUnitsByModule e) \<and>
     (\<forall>n u. map_of (eUnits e) n = Some u \<longrightarrow> P u) \<and>
     (\<forall>m n u. module_unit e m n = Some u \<longrightarrow> P u) \<and>
     (\<forall>sm \<in> set (eSyntheticModules e). \<forall>n u. feed_lookup sm n = Inr (Some u) \<longrightarrow> P (stamp_feed_unit sm u))"

lemma gm_ok_store: "gm_ok (eUnitsByModule e) \<Longrightarrow> gm_ok (eUnitsByModule (storeByModule e u))"
  by (simp add: storeByModule_def)

lemma units_all_store: "units_all P e \<Longrightarrow> P u \<Longrightarrow> units_all P (storeByModule e u)"
  by (simp add: units_all_def gm_ok_store)

lemma units_all_put: "units_all P e \<Longrightarrow> P u \<Longrightarrow> units_all P (e\<lparr>eUnits := gm_put n u (eUnits e)\<rparr>)"
  by (simp add: units_all_def)

lemma units_all_map_of: "units_all P e \<Longrightarrow> map_of (eUnits e) n = Some u \<Longrightarrow> P u"
  by (simp add: units_all_def)

lemma units_all_candidate: "units_all P e \<Longrightarrow> u \<in> candidates n (eUnitsByModule e) \<Longrightarrow> P u"
  using candidates_module_unit [of e u n] by (auto simp: units_all_def)

lemma materialize_units_all:
  "materialize sms e n d = Inr (e', r) \<Longrightarrow> set sms \<subseteq> set (eSyntheticModules e) \<Longrightarrow> units_all P e \<Longrightarrow>
   units_all P e' \<and> eSyntheticModules e' = eSyntheticModules e \<and> eProject e' = eProject e \<and>
   (\<forall>u. r = Some u \<longrightarrow> P u \<and> visibleToDistro (Some u) d)"
proof (induction sms e n d rule: materialize.induct)
  case (2 sm sms e n d)
  show ?case
  proof (cases "feed_lookup sm n")
    case (Inl err)
    with "2.prems"(1) show ?thesis by simp
  next
    case (Inr ru)
    show ?thesis
    proof (cases ru)
      case None
      with Inr "2.prems"(1) have "materialize sms e n d = Inr (e', r)" by simp
      from "2.IH"(1) [OF Inr None this] "2.prems"(2,3) show ?thesis by simp
    next
      case (Some u)
      have P: "P (stamp_feed_unit sm u)"
        using "2.prems"(2,3) Inr Some by (auto simp: units_all_def)
      have vis: "visibleToDistro (Some (stamp_feed_unit sm u)) d = visibleToDistro (Some u) d"
        by (simp add: visibleToDistro_def stamp_feed_unit_def)
      show ?thesis
      proof (cases "visibleToDistro (Some u) d")
        case False
        with Inr Some "2.prems"(1) have "materialize sms e n d = Inr (e', r)" by simp
        from "2.IH"(2) [OF Inr Some False this] "2.prems"(2,3) show ?thesis by simp
      next
        case True
        then show ?thesis
          using "2.prems" Inr Some P vis
          by (auto simp: Let_def split: if_splits intro!: units_all_store units_all_put)
      qed
    qed
  qed
qed simp

lemma lookup_pinned_units_all:
  "lookup_pinned sms e n m d = Inr (e', r) \<Longrightarrow> set sms \<subseteq> set (eSyntheticModules e) \<Longrightarrow> units_all P e \<Longrightarrow>
   units_all P e' \<and> eSyntheticModules e' = eSyntheticModules e \<and> eProject e' = eProject e \<and>
   (\<forall>u. r = Some u \<longrightarrow> P u \<and> visibleToDistro (Some u) d)"
proof (induction sms e n m d rule: lookup_pinned.induct)
  case (1 e n m d)
  have "P u" if "findInModuleByName e n m = Some u" for u
    using that "1.prems"(3) by (simp add: findInModuleByName_eq units_all_def)
  with 1 show ?case by (auto split: option.splits if_splits)
next
  case (2 sm sms e n m d)
  show ?case
  proof (cases "smName sm = m")
    case False
    with "2.prems"(1) have "lookup_pinned sms e n m d = Inr (e', r)" by simp
    from "2.IH" [OF False this] "2.prems"(2,3) show ?thesis by simp
  next
    case True
    have "P (stamp_feed_unit sm u)" if "feed_lookup sm n = Inr (Some u)" for u
      using that "2.prems"(2,3) by (auto simp: units_all_def)
    moreover have "visibleToDistro (Some (stamp_feed_unit sm u)) d = visibleToDistro (Some u) d" for u
      by (simp add: visibleToDistro_def stamp_feed_unit_def)
    ultimately show ?thesis
      using "2.prems" True
      by (auto split: sum.splits option.splits if_splits intro: units_all_store)
  qed
qed

lemma lookup_default_units_all:
  assumes "lookup_default e n d = Inr (e', r)" and "units_all P e"
  shows "units_all P e' \<and> eSyntheticModules e' = eSyntheticModules e \<and> eProject e' = eProject e \<and>
   (\<forall>u. r = Some u \<longrightarrow> P u \<and> visibleToDistro (Some u) d)"
proof -
  have "visibleToDistro (Some u) d \<and> P u" if "findVisibleByName e n d = Some u" for u
    using scan_best_mem [of _ n "eUnitsByModule e" None u] that units_all_candidate [OF assms(2)]
    unfolding findVisibleByName_def by blast
  then show ?thesis
    using assms materialize_units_all [of "eSyntheticModules e" e n d e' r P] units_all_map_of [OF assms(2)]
    by (auto simp: lookup_default_def split: option.splits if_splits)
qed

lemma lookupOrMaterialize_units_all:
  assumes "lookupOrMaterialize e n d = Inr (e', r)" and "units_all P e"
  shows "units_all P e' \<and> eSyntheticModules e' = eSyntheticModules e \<and> eProject e' = eProject e \<and>
   (\<forall>u. r = Some u \<longrightarrow> P u \<and> visibleToDistro (Some u) d)"
proof -
  let ?n = "engine_resolveProvidesForDistro e n d"
  show ?thesis
  proof (cases "pinned_module e ?n d")
    case None
    with assms lookup_default_units_all [of e ?n d e' r P] show ?thesis
      by (simp add: lookupOrMaterialize_def Let_def)
  next
    case (Some m)
    obtain e1 r1 where one: "lookupInModule e ?n m d = Inr (e1, r1)"
      using assms(1) Some by (auto simp: lookupOrMaterialize_def Let_def split: sum.splits)
    have 1: "units_all P e1 \<and> eSyntheticModules e1 = eSyntheticModules e \<and> eProject e1 = eProject e \<and>
      (\<forall>u. r1 = Some u \<longrightarrow> P u \<and> visibleToDistro (Some u) d)"
      using lookup_pinned_units_all [of "eSyntheticModules e" e ?n m d e1 r1 P] one assms(2)
      by (simp add: lookupInModule_def)
    show ?thesis
      using assms(1) Some one 1 lookup_default_units_all [of e1 ?n d e' r P]
      by (cases r1) (auto simp: lookupOrMaterialize_def Let_def)
  qed
qed

lemma resolve_all_units_all:
  "resolve_all e owner d ds acc = Inr (e', res) \<Longrightarrow> units_all P e \<Longrightarrow>
   units_all P e' \<and> (\<exists>new. res = acc @ new \<and> length new = length ds)"
proof (induction ds arbitrary: e acc)
  case (Cons dep ds)
  then obtain e1 u where one: "lookupOrMaterialize e dep d = Inr (e1, Some u)"
    and rest: "resolve_all e1 owner d ds (acc @ [uName u]) = Inr (e', res)"
    by (auto split: sum.splits option.splits)
  have "units_all P e1" using lookupOrMaterialize_units_all [OF one Cons.prems(2)] by blast
  from Cons.IH [OF rest this] show ?case by auto
qed simp

section \<open>The walk ends\<close>

text \<open>
  When the catalog and the feeds only know units with names in a finite set, the walk
  returns.
\<close>

lemma closure_walk_total:
  assumes fin: "finite N"
  shows "units_all (\<lambda>u. uName u \<in> N) e \<Longrightarrow> \<exists>r. closure_walk e d queue deps = Some r"
proof (induction "card (N - set (gm_keys deps))" arbitrary: e queue deps rule: less_induct)
  case less
  from less.prems show ?case
  proof (induction queue arbitrary: e)
    case Nil
    show ?case by (subst closure_walk.simps) simp
  next
    case (Cons name queue)
    show ?case
    proof (cases "lookupOrMaterialize e name d")
      case (Inl err)
      then show ?thesis by (subst closure_walk.simps) simp
    next
      case (Inr res)
      obtain e1 r where res: "res = (e1, r)" by (cases res)
      show ?thesis
      proof (cases r)
        case None
        with Inr res show ?thesis by (subst closure_walk.simps) simp
      next
        case (Some u)
        have all: "units_all (\<lambda>u. uName u \<in> N) e1" and u: "uName u \<in> N"
          using lookupOrMaterialize_units_all [OF _ Cons.prems, of name d e1 r] Inr res Some by auto
        show ?thesis
        proof (cases "gm_has deps (uName u)")
          case True
          with Cons.IH [OF all] Inr res Some show ?thesis by (subst closure_walk.simps) simp
        next
          case False
          show ?thesis
          proof (cases "resolve_all e1 (uName u) d (RuntimeDepsForDistro u d) []")
            case (Inl err)
            with False Inr res Some show ?thesis by (subst closure_walk.simps) simp
          next
            case (Inr res2)
            obtain e2 ds where res2: "res2 = (e2, ds)" by (cases res2)
            let ?deps = "gm_put (uName u) ds deps"
            have "N - set (gm_keys ?deps) \<subset> N - set (gm_keys deps)"
              using u False unfolding gm_has_iff set_keys_put by blast
            then have "card (N - set (gm_keys ?deps)) < card (N - set (gm_keys deps))"
              using fin by (intro psubset_card_mono) auto
            moreover have "units_all (\<lambda>u. uName u \<in> N) e2"
              using resolve_all_units_all [OF _ all] Inr res2 by blast
            ultimately have "\<exists>r. closure_walk e2 d (queue @ ds) ?deps = Some r" by (rule less.hyps)
            with \<open>lookupOrMaterialize e name d = Inr res\<close> res Some False Inr res2
            show ?thesis by (subst closure_walk.simps) simp
          qed
        qed
      qed
    qed
  qed
qed

section \<open>What the walk returns\<close>

text \<open>The engine states that lookups for one distro lead to.\<close>

inductive lookups :: "name \<Rightarrow> Engine \<Rightarrow> Engine \<Rightarrow> bool" for d :: name and e :: Engine where
  start: "lookups d e e"
| lookup: "lookups d e e1 \<Longrightarrow> lookupOrMaterialize e1 n d = Inr (e2, r) \<Longrightarrow> lookups d e e2"

inductive_cases lookupsE: "lookups d e e'"

lemma lookups_units_all:
  "lookups d e e' \<Longrightarrow> units_all P e \<Longrightarrow> units_all P e' \<and> eSyntheticModules e' = eSyntheticModules e \<and> eProject e' = eProject e"
  by (induction rule: lookups.induct) (auto dest: lookupOrMaterialize_units_all)

text \<open>A name is found as a unit: some lookup made on the way gave that unit.\<close>

definition found :: "name \<Rightarrow> Engine \<Rightarrow> name \<Rightarrow> Unit \<Rightarrow> bool" where
  "found d e x u \<longleftrightarrow> (\<exists>e1 e2. lookups d e e1 \<and> lookupOrMaterialize e1 x d = Inr (e2, Some u))"

lemma foundI: "lookups d e e1 \<Longrightarrow> lookupOrMaterialize e1 x d = Inr (e2, Some u) \<Longrightarrow> found d e x u"
  unfolding found_def by blast

definition resolves :: "name \<Rightarrow> Engine \<Rightarrow> name \<Rightarrow> name set \<Rightarrow> bool" where
  "resolves d e x ks \<longleftrightarrow> (\<exists>u. found d e x u \<and> uName u \<in> ks)"

text \<open>
  The names a walk from the roots looks up: the roots, and the names of the units that the
  runtime dependencies of a unit found that way are found as.
\<close>

inductive wanted :: "name \<Rightarrow> Engine \<Rightarrow> name list \<Rightarrow> name \<Rightarrow> bool" for d :: name and e :: Engine and roots :: "name list" where
  root: "r \<in> set roots \<Longrightarrow> wanted d e roots r"
| dep: "wanted d e roots r \<Longrightarrow> found d e r u \<Longrightarrow> x \<in> set (RuntimeDepsForDistro u d) \<Longrightarrow> found d e x v \<Longrightarrow>
    wanted d e roots (uName v)"

text \<open>The dependencies recorded for a unit are those its runtime dependencies are found as.\<close>

definition recorded :: "name \<Rightarrow> Engine \<Rightarrow> name list \<Rightarrow> name \<Rightarrow> name list \<Rightarrow> bool" where
  "recorded d e roots n ds \<longleftrightarrow>
     (\<exists>r u. wanted d e roots r \<and> found d e r u \<and> uName u = n \<and>
        list_all2 (\<lambda>x y. \<exists>v. found d e x v \<and> uName v = y) (RuntimeDepsForDistro u d) ds)"

lemma resolves_mono: "resolves d e x ks \<Longrightarrow> ks \<subseteq> ks' \<Longrightarrow> resolves d e x ks'"
  unfolding resolves_def by blast

lemma resolve_all_found:
  "resolve_all e1 owner d ds acc = Inr (e2, res) \<Longrightarrow> lookups d e e1 \<Longrightarrow>
   \<exists>new. res = acc @ new \<and> list_all2 (\<lambda>x y. \<exists>v. found d e x v \<and> uName v = y) ds new"
proof (induction ds arbitrary: e1 acc)
  case (Cons dep ds)
  then obtain e3 u where one: "lookupOrMaterialize e1 dep d = Inr (e3, Some u)"
    and rest: "resolve_all e3 owner d ds (acc @ [uName u]) = Inr (e2, res)"
    by (auto split: sum.splits option.splits)
  from Cons.IH [OF rest lookups.lookup [OF Cons.prems(2) one]] foundI [OF Cons.prems(2) one]
  show ?case by auto
qed simp

lemma resolve_all_lookups:
  "resolve_all e1 owner d ds acc = Inr (e2, res) \<Longrightarrow> lookups d e e1 \<Longrightarrow> lookups d e e2"
proof (induction ds arbitrary: e1 acc)
  case (Cons dep ds)
  then obtain e3 u where one: "lookupOrMaterialize e1 dep d = Inr (e3, Some u)"
    and rest: "resolve_all e3 owner d ds (acc @ [uName u]) = Inr (e2, res)"
    by (auto split: sum.splits option.splits)
  show ?case by (rule Cons.IH [OF rest lookups.lookup [OF Cons.prems(2) one]])
qed simp

definition walk_post_cond :: "name \<Rightarrow> Engine \<Rightarrow> name list \<Rightarrow> graph \<Rightarrow> graph \<Rightarrow> bool" where
  "walk_post_cond d e0 queue deps deps' \<longleftrightarrow>
     (gm_ok deps \<longrightarrow> gm_ok deps') \<and> set (gm_keys deps) \<subseteq> set (gm_keys deps') \<and>
     (\<forall>x \<in> set queue. resolves d e0 x (set (gm_keys deps'))) \<and>
     ((\<forall>n ds x. map_of deps n = Some ds \<and> x \<in> set ds \<longrightarrow> x \<in> set queue \<or> resolves d e0 x (set (gm_keys deps))) \<longrightarrow>
      (\<forall>n ds x. map_of deps' n = Some ds \<and> x \<in> set ds \<longrightarrow> resolves d e0 x (set (gm_keys deps')))) \<and>
     (\<forall>roots. (\<forall>x \<in> set queue. wanted d e0 roots x) \<and> (\<forall>n ds. map_of deps n = Some ds \<longrightarrow> recorded d e0 roots n ds) \<longrightarrow>
        (\<forall>n ds. map_of deps' n = Some ds \<longrightarrow> recorded d e0 roots n ds))"

lemma walk_post_cond_skip:
  assumes look: "lookups d e0 e" "lookupOrMaterialize e name d = Inr (e1, Some u)"
    and has: "gm_has deps (uName u)" and IH: "walk_post_cond d e0 queue deps deps'"
  shows "walk_post_cond d e0 (name # queue) deps deps'"
proof -
  have here: "resolves d e0 name (set (gm_keys deps))"
    using foundI [OF look] has unfolding resolves_def gm_has_iff by blast
  then have "resolves d e0 name (set (gm_keys deps'))"
    using IH resolves_mono unfolding walk_post_cond_def by blast
  moreover have "x \<in> set (name # queue) \<or> resolves d e0 x (set (gm_keys deps)) \<Longrightarrow>
      x \<in> set queue \<or> resolves d e0 x (set (gm_keys deps))" for x
    using here by auto
  ultimately show ?thesis using IH unfolding walk_post_cond_def by (simp del: set_map) blast
qed

lemma walk_post_cond_add:
  assumes look: "lookups d e0 e" "lookupOrMaterialize e name d = Inr (e1, Some u)"
    and new: "\<not> gm_has deps (uName u)"
    and ds: "list_all2 (\<lambda>x y. \<exists>v. found d e0 x v \<and> uName v = y) (RuntimeDepsForDistro u d) ds"
    and IH: "walk_post_cond d e0 (queue @ ds) (gm_put (uName u) ds deps) deps'"
  shows "walk_post_cond d e0 (name # queue) deps deps'"
proof -
  let ?deps = "gm_put (uName u) ds deps"
  have keys: "insert (uName u) (set (gm_keys deps)) \<subseteq> set (gm_keys deps')" and ok: "gm_ok deps \<Longrightarrow> gm_ok deps'"
    and q: "\<forall>x \<in> set (queue @ ds). resolves d e0 x (set (gm_keys deps'))"
    and closed: "(\<forall>n es x. map_of ?deps n = Some es \<and> x \<in> set es \<longrightarrow> x \<in> set (queue @ ds) \<or> resolves d e0 x (set (gm_keys ?deps))) \<longrightarrow>
      (\<forall>n es x. map_of deps' n = Some es \<and> x \<in> set es \<longrightarrow> resolves d e0 x (set (gm_keys deps')))"
    using IH unfolding walk_post_cond_def set_keys_put by auto
  have rec: "recorded d e0 roots n es"
    if "\<forall>x \<in> set (name # queue). wanted d e0 roots x" "\<forall>n ds. map_of deps n = Some ds \<longrightarrow> recorded d e0 roots n ds"
      "map_of deps' n = Some es" for roots n es
  proof -
    have "wanted d e0 roots name" using that(1) by simp
    have "wanted d e0 roots y" if y: "y \<in> set ds" for y
    proof -
      obtain x v where "x \<in> set (RuntimeDepsForDistro u d)" "found d e0 x v" "uName v = y"
        using ds y unfolding list_all2_conv_all_nth in_set_conv_nth by metis
      with wanted.dep [OF \<open>wanted d e0 roots name\<close> foundI [OF look]] show ?thesis by blast
    qed
    then have "\<forall>x \<in> set (queue @ ds). wanted d e0 roots x" using that(1) by auto
    moreover have "recorded d e0 roots (uName u) ds"
      using \<open>wanted d e0 roots name\<close> foundI [OF look] ds unfolding recorded_def by blast
    then have "\<forall>n ds. map_of ?deps n = Some ds \<longrightarrow> recorded d e0 roots n ds" using that(2) by simp
    moreover have "(\<forall>x \<in> set (queue @ ds). wanted d e0 roots x) \<and>
        (\<forall>n ds. map_of ?deps n = Some ds \<longrightarrow> recorded d e0 roots n ds) \<longrightarrow>
      (\<forall>n ds. map_of deps' n = Some ds \<longrightarrow> recorded d e0 roots n ds)"
      using IH unfolding walk_post_cond_def by blast
    ultimately show ?thesis using that(3) by blast
  qed
  have here: "resolves d e0 name (set (gm_keys ?deps))"
    using foundI [OF look] unfolding resolves_def set_keys_put by blast
  then have "resolves d e0 name (set (gm_keys deps'))"
    using keys resolves_mono unfolding set_keys_put by blast
  moreover have "x \<in> set (queue @ ds) \<or> resolves d e0 x (set (gm_keys ?deps))"
    if old: "\<forall>n es x. map_of deps n = Some es \<and> x \<in> set es \<longrightarrow> x \<in> set (name # queue) \<or> resolves d e0 x (set (gm_keys deps))"
      and "map_of ?deps n = Some es" "x \<in> set es" for n es x
  proof (cases "n = uName u")
    case True
    with that(2,3) show ?thesis by simp
  next
    case False
    with that(2) have "map_of deps n = Some es" by simp
    with old that(3) have "x = name \<or> x \<in> set queue \<or> resolves d e0 x (set (gm_keys deps))" by auto
    then show ?thesis using here resolves_mono [of d e0 x "set (gm_keys deps)" "set (gm_keys ?deps)"] by auto
  qed
  ultimately show ?thesis
    using keys ok q closed rec unfolding walk_post_cond_def by auto
qed

definition walk_result ::
  "Engine \<Rightarrow> Engine \<Rightarrow> name \<Rightarrow> name list \<Rightarrow> graph \<Rightarrow> EngineError + Engine \<times> graph \<Rightarrow> bool" where
  "walk_result e0 e d queue deps res \<longleftrightarrow>
     (lookups d e0 e \<longrightarrow> (\<forall>e' deps'. res = Inr (e', deps') \<longrightarrow> walk_post_cond d e0 queue deps deps' \<and> lookups d e0 e'))"

lemma walk_resultI:
  "(\<And>e' deps'. lookups d e0 e \<Longrightarrow> res = Inr (e', deps') \<Longrightarrow> walk_post_cond d e0 queue deps deps' \<and> lookups d e0 e') \<Longrightarrow>
   walk_result e0 e d queue deps res"
  by (simp add: walk_result_def)

lemma closure_walk_correct:
  assumes "closure_walk e d queue deps = Some res"
  shows "walk_result e0 e d queue deps res"
proof (rule closure_walk.raw_induct [where P = "walk_result e0", OF _ assms], rule walk_resultI)
  fix walk e d queue deps res e' deps'
  assume IH: "\<And>e d queue deps res. walk e d queue deps = Some res \<Longrightarrow> walk_result e0 e d queue deps res"
    and run: "(case queue of [] \<Rightarrow> Some (Inr (e, deps))
      | name # queue' \<Rightarrow>
          (case lookupOrMaterialize e name d of
             Inl err \<Rightarrow> Some (Inl err)
           | Inr (e', None) \<Rightarrow> Some (Inl (Unresolved name))
           | Inr (e', Some u) \<Rightarrow>
               if gm_has deps (uName u) then walk e' d queue' deps
               else (case resolve_all e' (uName u) d (RuntimeDepsForDistro u d) [] of
                       Inl err \<Rightarrow> Some (Inl err)
                     | Inr (e'', resolved) \<Rightarrow>
                         walk e'' d (queue' @ resolved) (gm_put (uName u) resolved deps)))) = Some res"
    and e: "lookups d e0 e" and res: "res = Inr (e', deps')"
  show "walk_post_cond d e0 queue deps deps' \<and> lookups d e0 e'"
  proof (cases queue)
    case Nil
    with run res e show ?thesis by (simp add: walk_post_cond_def)
  next
    case (Cons name queue')
    then obtain e1 u where look: "lookupOrMaterialize e name d = Inr (e1, Some u)"
      using run res by (auto split: sum.splits option.splits)
    have e1: "lookups d e0 e1" by (rule lookups.lookup [OF e look])
    show ?thesis
    proof (cases "gm_has deps (uName u)")
      case True
      with run Cons look have "walk e1 d queue' deps = Some res" by simp
      then have "walk_post_cond d e0 queue' deps deps' \<and> lookups d e0 e'"
        using IH e1 res unfolding walk_result_def by blast
      with walk_post_cond_skip [OF e look True] Cons show ?thesis by blast
    next
      case False
      then obtain e2 ds where ra: "resolve_all e1 (uName u) d (RuntimeDepsForDistro u d) [] = Inr (e2, ds)"
        and next': "walk e2 d (queue' @ ds) (gm_put (uName u) ds deps) = Some res"
        using run res Cons look by (auto split: sum.splits)
      have "lookups d e0 e2" by (rule resolve_all_lookups [OF ra e1])
      moreover have ds: "list_all2 (\<lambda>x y. \<exists>v. found d e0 x v \<and> uName v = y) (RuntimeDepsForDistro u d) ds"
        using resolve_all_found [OF ra e1] by simp
      ultimately have "walk_post_cond d e0 (queue' @ ds) (gm_put (uName u) ds deps) deps' \<and> lookups d e0 e'"
        using IH next' res unfolding walk_result_def by blast
      with walk_post_cond_add [OF e look False ds] Cons show ?thesis by blast
    qed
  qed
qed

section \<open>Properties\<close>

text \<open>
  C4. A lookup only returns units the distro of the walk may see: untagged ones and those
  tagged for that distro, whether they come from a pin, the catalog or a feed.
\<close>

theorem lookupOrMaterialize_visible:
  assumes "gm_ok (eUnitsByModule e)" and "lookupOrMaterialize e n d = Inr (e', Some u)" and "d \<noteq> []"
  shows "uDistro u = [] \<or> uDistro u = d"
proof -
  have "units_all (\<lambda>_. True) e" using assms(1) by (simp add: units_all_def)
  from lookupOrMaterialize_units_all [OF assms(2) this] assms(3) show ?thesis
    by (simp add: visibleToDistro_def)
qed

definition ex_feed :: "name \<Rightarrow> name \<Rightarrow> name list \<Rightarrow> SyntheticModule" where
  "ex_feed n d pkgs = \<lparr>smName = n, smParent = [], smSuite = [], smCodename = [], smDistro = d,
     smRelease = [], smPriority = 0,
     smLookup = Some (\<lambda>p. Inr (if p \<in> set pkgs then Some (zero_unit\<lparr>uName := p, uDistro := d\<rparr>) else None)),
     smNames = Some pkgs\<rparr>"

definition ex_engine :: Engine where
  "ex_engine = NewEngine\<lparr>
     eUnits := [(''app'', zero_unit\<lparr>uName := ''app'', uRuntimeDeps := [''libcap'']\<rparr>)],
     eUnitsByModule := [([], [(''app'', zero_unit\<lparr>uName := ''app'', uRuntimeDeps := [''libcap'']\<rparr>)])],
     eSyntheticModules := [ex_feed ''alpine.main'' ''alpine'' [''libcap''], ex_feed ''debian.main'' ''debian'' [''libcap'']]\<rparr>"

theorem lookupOrMaterialize_visible_witness:
  "\<exists>e' u. lookupOrMaterialize ex_engine ''libcap'' ''debian'' = Inr (e', Some u) \<and> uDistro u = ''debian'' \<and>
     (uDistro u = [] \<or> uDistro u = ''debian'')"
proof -
  obtain e' u where u: "lookupOrMaterialize ex_engine ''libcap'' ''debian'' = Inr (e', Some u)" "uDistro u = ''debian''"
    by (simp add: lookupOrMaterialize_def ex_engine_def NewEngine_def engine_resolveProvidesForDistro_def
        pinned_module_def lookup_default_def ex_feed_def feed_lookup_def visibleToDistro_def stamp_feed_unit_def
        gm_has_def Let_def)
  have "gm_ok (eUnitsByModule ex_engine)" by (simp add: ex_engine_def)
  from lookupOrMaterialize_visible [OF this u(1)] u show ?thesis by auto
qed

text \<open>The closure walk returns whenever the catalog and the feeds know finitely many unit
  names, cyclic runtime dependencies included.
\<close>

theorem closure_returns:
  assumes "finite N" and "units_all (\<lambda>u. uName u \<in> N) e"
  shows "\<exists>r. closure e roots d = Some r"
  using closure_walk_total [OF assms, of d roots "[]"]
  by (auto simp: closure_def split: sum.splits)

theorem closure_returns_witness: "\<exists>r. closure ex_engine [''app''] ''debian'' = Some r"
proof (rule closure_returns)
  show "finite {''app'', ''libcap''}" by simp
  show "units_all (\<lambda>u. uName u \<in> {''app'', ''libcap''}) ex_engine"
    by (auto simp: units_all_def module_unit_def ex_engine_def NewEngine_def ex_feed_def feed_lookup_def
        stamp_feed_unit_def zero_unit_def split: if_splits)
qed

text \<open>
  C10. A closure holds each unit once, in the artifact order of the recorded dependencies.
  Every root was found as a unit in it. Each unit in it was found by a lookup of a name
  wanted by the roots; the dependencies recorded for it are the units its runtime
  dependencies for the distro were found as, in order, and each of them was in turn found
  as a unit of the closure.
\<close>

theorem closure_complete:
  assumes "closure e roots d = Some (Inr (e', xs))"
  shows "distinct xs \<and> (\<forall>r \<in> set roots. resolves d e r (set xs)) \<and>
    (\<exists>deps. gm_ok deps \<and> xs = topoOrder deps \<and> set xs = set (gm_keys deps) \<and>
       (\<forall>n ds. map_of deps n = Some ds \<longrightarrow>
          recorded d e roots n ds \<and> (\<forall>x \<in> set ds. resolves d e x (set xs))))"
proof -
  obtain deps where run: "closure_walk e d roots [] = Some (Inr (e', deps))" and xs: "xs = topoOrder deps"
    using assms by (auto simp: closure_def split: if_splits option.splits sum.splits)
  have post: "walk_post_cond d e roots [] deps"
    using closure_walk_correct [OF run, of e] lookups.start [of d e] unfolding walk_result_def by blast
  then have ok: "gm_ok deps" unfolding walk_post_cond_def by simp
  have keys: "set xs = set (gm_keys deps)" and dist: "distinct xs"
    using topoOrder_facts(1,2) [OF ok] xs by auto
  have "recorded d e roots n ds" if "map_of deps n = Some ds" for n ds
    using post that wanted.root [of _ roots d e] unfolding walk_post_cond_def by simp
  then show ?thesis using post ok xs keys dist unfolding walk_post_cond_def by auto
qed

lemmas engine_eval =
  lookupOrMaterialize_def ex_engine_def NewEngine_def engine_resolveProvidesForDistro_def
  pinned_module_def lookup_default_def ex_feed_def feed_lookup_def visibleToDistro_def stamp_feed_unit_def
  gm_has_def Let_def storeByModule_def zero_unit_def RuntimeDepsForDistro_def

theorem closure_complete_witness:
  "\<exists>e'. closure ex_engine [''app''] ''debian'' = Some (Inr (e', [''libcap'', ''app''])) \<and>
     resolves ''debian'' ex_engine ''app'' {''libcap'', ''app''}"
proof -
  obtain e' where e': "closure_walk ex_engine ''debian'' [''app''] [] =
      Some (Inr (e', [(''app'', [''libcap'']), (''libcap'', [])]))"
    by (simp add: closure_walk.simps engine_eval)
  moreover have "topoOrder [(''app'', [''libcap'']), (''libcap'', [])] = [''libcap'', ''app'']"
    by (simp add: topoOrder_def gm_has_def waves.simps succs_def)
  ultimately have c: "closure ex_engine [''app''] ''debian'' = Some (Inr (e', [''libcap'', ''app'']))"
    by (simp add: closure_def)
  from closure_complete [OF c] c show ?thesis by auto
qed

text \<open>
  Registration of a unit. A name that is new is filed in both catalogs. Against a unit
  of the same name that is not tagged for another distro, equal priority is an error, and
  otherwise the unit of higher priority holds the name and the collision is recorded once.
  A unit tagged for another distro leaves the name to the first one. Every unit stays filed
  under its own module and name.
\<close>

theorem register_spec:
  assumes "catalog_ok e" and "r = stamp_unit e r0"
  shows "case map_of (eUnits e) (uName r0) of
      None \<Rightarrow> (\<exists>e'. register e r0 = Inr (e', r) \<and> catalog_ok e' \<and> eShadows e' = eShadows e \<and>
                map_of (eUnits e') (uName r0) = Some r \<and> module_unit e' (eCurrentModule e) (uName r0) = Some r)
    | Some w \<Rightarrow>
        if uDistro r0 \<noteq> [] \<and> uDistro w \<noteq> [] \<and> uDistro r0 \<noteq> uDistro w
        then (\<exists>e'. register e r0 = Inr (e', r) \<and> catalog_ok e' \<and> eShadows e' = eShadows e \<and>
               eUnits e' = eUnits e \<and> module_unit e' (eCurrentModule e) (uName r0) = Some r)
        else if eCurrentModuleIndex e = uModuleIndex w
        then register e r0 = Inl (UnitAlreadyDefined (uName r0) (uModule w))
        else (\<exists>e' v ev. register e r0 = Inr (e', v) \<and> catalog_ok e' \<and> eShadows e' = eShadows e @ [ev] \<and>
               map_of (eUnits e') (uName r0) = Some v \<and> v \<in> {r, w} \<and>
               uModuleIndex v = max (eCurrentModuleIndex e) (uModuleIndex w))"
proof -
  have r: "uName r = uName r0" "uDistro r = uDistro r0" "uModuleIndex r = eCurrentModuleIndex e"
    "uModule r = eCurrentModule e"
    using assms(2) by (simp_all add: stamp_unit_def)
  have ok: "catalog_ok (storeByModule (e\<lparr>eUnits := us\<rparr>) r)" "catalog_ok (storeByModule e r)"
    "catalog_ok (storeByModule (e\<lparr>eShadows := ss, eUnits := us\<rparr>) r)" "catalog_ok (e\<lparr>eShadows := ss\<rparr>)" for us ss
    using assms(1) by (auto simp: catalog_ok_def module_unit_def storeByModule_def gm_get_def split: option.splits)
  show ?thesis
    unfolding register_def Let_def assms(2) [symmetric] r
    using ok r by (auto simp: max_def split: option.split)
qed

theorem register_spec_witness:
  "register ex_engine (zero_unit\<lparr>uName := ''app''\<rparr>) = Inl (UnitAlreadyDefined ''app'' [])"
  using register_spec [of ex_engine "stamp_unit ex_engine (zero_unit\<lparr>uName := ''app''\<rparr>)" "zero_unit\<lparr>uName := ''app''\<rparr>"]
  by (simp add: ex_engine_def NewEngine_def catalog_ok_def module_unit_def zero_unit_def)

text \<open>While images are evaluated the project has no catalog and no views yet
  (\<^verbatim>\<open>LoadProjectFromRoot\<close> sets them after the image phase), so a virtual name resolves through
  the global table whatever the distro of the walk is.
\<close>

theorem image_phase_provides_distro_blind:
  assumes "pUnitsByModule p = []" and "pDistroViews p = []" and "pProvidesViews p = None"
  shows "ResolveProvidesForDistro p v d = (if v = [] then [] else gm_get [] (pProvides p) v)"
  using assms
  by (simp add: ResolveProvidesForDistro_def direct_provider_def tagged_provider_def LookupUnit_def AnyUnit_def AllUnits_def)

theorem image_phase_provides_distro_blind_witness:
  "ResolveProvidesForDistro (zero_project\<lparr>pProvides := [(''toolchain'', ''toolchain-musl'')]\<rparr>) ''toolchain'' ''debian'' =
   ''toolchain-musl''"
  using image_phase_provides_distro_blind
    [of "zero_project\<lparr>pProvides := [(''toolchain'', ''toolchain-musl'')]\<rparr>" "''toolchain''" "''debian''"]
  by (simp add: zero_project_def)

text \<open>Two units of one module with the same name and different distro tags are both
  accepted, but the per-module catalog keeps only the second: the first is no longer found
  by a lookup in its module.
\<close>

theorem register_drops_variant:
  "\<exists>e e1 e2 a b a' b'. catalog_ok e \<and> register e a = Inr (e1, a') \<and> register e1 b = Inr (e2, b') \<and>
     uName a = uName b \<and> module_unit e1 (eCurrentModule e) (uName a) = Some a' \<and>
     findVisibleByName e2 (uName a) (uDistro a) = None"
proof (intro exI conjI)
  let ?e = "NewEngine\<lparr>eCurrentModule := ''apt'', eCurrentModuleIndex := 1\<rparr>"
  let ?a = "zero_unit\<lparr>uName := ''img'', uDistro := ''debian''\<rparr>" and ?b = "zero_unit\<lparr>uName := ''img'', uDistro := ''ubuntu''\<rparr>"
  let ?a' = "stamp_unit ?e ?a" and ?b' = "stamp_unit ?e ?b"
  let ?e1 = "storeByModule (?e\<lparr>eUnits := [(''img'', ?a')]\<rparr>) ?a'"
  show "catalog_ok ?e" by (simp add: catalog_ok_def module_unit_def NewEngine_def)
  show "register ?e ?a = Inr (?e1, ?a')"
    by (simp add: register_def stamp_unit_def NewEngine_def Let_def)
  show "register ?e1 ?b = Inr (storeByModule ?e1 ?b', ?b')"
    by (simp add: register_def stamp_unit_def NewEngine_def storeByModule_def Let_def)
  show "uName ?a = uName ?b" by simp
  show "module_unit ?e1 (eCurrentModule ?e) (uName ?a) = Some ?a'"
    by (simp add: stamp_unit_def NewEngine_def)
  show "findVisibleByName (storeByModule ?e1 ?b') (uName ?a) (uDistro ?a) = None"
    by (simp add: findVisibleByName_def storeByModule_def stamp_unit_def NewEngine_def visibleToDistro_def)
qed

end
