(* ===== verification/ModuleWalk.thy ===== *)
theory ModuleWalk
  imports Paths Units Cycle "HOL-Library.Sublist"
begin

text \<open>
  \<^verbatim>\<open>internal/starlark/module_walk.go\<close>: the fixpoint that extends a project's module list by
  the modules its modules declare, with \<^verbatim>\<open>pathBasename\<close> and \<^verbatim>\<open>locateModulePath\<close> of
  \<^verbatim>\<open>loader.go\<close>. The outside world is passed in: \<open>evalSymlinks\<close> and \<open>stat\<close> of the file
  system, the cache directory from the environment, the sync callback of the caller, and
  \<open>peek\<close>, the evaluation of a \<^verbatim>\<open>MODULE.star\<close>; those that a sync may change take the number of
  the round.
\<close>

section \<open>Module references\<close>

definition pathBasename :: "ModuleRef \<Rightarrow> name" where
  "pathBasename m =
     (if mfPath m \<noteq> [] then Base (mfPath m) else Base (TrimSuffix (mfURL m) ''.git''))"

text \<open>The pair of module directory and clone root; \<^const>\<open>None\<close> when not synced yet.\<close>

definition locateModulePath ::
  "string \<Rightarrow> (string \<Rightarrow> bool) \<Rightarrow> ModuleRef \<Rightarrow> string \<Rightarrow> (string \<times> string) option" where
  "locateModulePath yoeCache stat m projectRoot =
     (if mfLocal m \<noteq> [] then
        let cloneDir = (if IsAbs (mfLocal m) then mfLocal m else PathJoin [projectRoot, mfLocal m])
        in Some (if mfPath m \<noteq> [] then PathJoin [cloneDir, mfPath m] else cloneDir, cloneDir)
      else
        let cacheDir = (if yoeCache = [] then ''cache'' else yoeCache);
            cloneDir = PathJoin [cacheDir, ''modules'', pathBasename m];
            modulePath = (if mfPath m \<noteq> [] then PathJoin [cloneDir, mfPath m] else cloneDir)
        in if stat modulePath then Some (modulePath, cloneDir) else None)"

definition canonicalIdentity :: "(string \<Rightarrow> string option) \<Rightarrow> ModuleRef \<Rightarrow> string \<Rightarrow> string" where
  "canonicalIdentity evalSymlinks m projectRoot =
     (if mfLocal m \<noteq> [] then
        let abs = (if IsAbs (mfLocal m) then mfLocal m else PathJoin [projectRoot, mfLocal m]);
            resolved = (case evalSymlinks abs of None \<Rightarrow> abs | Some r \<Rightarrow> r);
            resolved' = (if mfPath m \<noteq> [] then PathJoin [resolved, mfPath m] else resolved)
        in ''local:'' @ resolved'
      else ''git:'' @ TrimSuffix (mfURL m) ''.git'' @ ''@'' @ mfRef m @ ''#'' @ mfPath m)"

record moduleRecord =
  mrRef :: ModuleRef
  mrProjectLevel :: bool

definition refDesc :: "ModuleRef \<Rightarrow> string" where
  "refDesc m =
     (if mfLocal m \<noteq> [] then ''local='' @ mfLocal m
      else if mfRef m \<noteq> [] then mfURL m @ '' @ '' @ mfRef m
      else mfURL m)"

definition appendUnique :: "name list \<Rightarrow> name \<Rightarrow> name list" where
  "appendUnique ss s = (if s \<in> set ss then ss else ss @ [s])"

fun findNameConflict ::
  "(string \<Rightarrow> string option) \<Rightarrow> (string, moduleRecord) gomap \<Rightarrow> ModuleRef \<Rightarrow> name \<Rightarrow> moduleRecord option" where
  "findNameConflict ev [] candidate depName = None"
| "findNameConflict ev ((_, rec) # seen) candidate depName =
     (if depName = [] then None
      else if pathBasename (mrRef rec) = depName \<and>
              canonicalIdentity ev (mrRef rec) [] \<noteq> canonicalIdentity ev candidate []
      then Some rec
      else findNameConflict ev seen candidate depName)"

section \<open>The walk\<close>

datatype WalkError =
    SyncFailed string
  | IncompatibleRefs name string string
  | ModuleCycle CycleError

record walk_state =
  wsSeen :: "(string, moduleRecord) gomap"
  wsGraph :: graph
  wsNew :: "ModuleRef list"

text \<open>One dependency declared by the module \<open>parentName\<close>.\<close>

definition walk_dep ::
  "(string \<Rightarrow> string option) \<Rightarrow> string \<Rightarrow> name \<Rightarrow> ModuleRef \<Rightarrow> walk_state \<Rightarrow> WalkError + walk_state" where
  "walk_dep ev root parentName dep st =
     (let depID = canonicalIdentity ev dep root;
          depName = pathBasename dep;
          graph = gm_put parentName (appendUnique (gm_get [] (wsGraph st) parentName) depName) (wsGraph st);
          st' = st\<lparr>wsGraph := graph\<rparr>
      in if gm_has (wsSeen st) depID then Inr st'
         else case findNameConflict ev (wsSeen st) dep depName of
           Some conflict \<Rightarrow>
             if mrProjectLevel conflict then Inr st'
             else Inl (IncompatibleRefs depName (refDesc (mrRef conflict)) (refDesc dep))
         | None \<Rightarrow>
             Inr (st'\<lparr>wsSeen := gm_put depID \<lparr>mrRef = dep, mrProjectLevel = False\<rparr> (wsSeen st),
                      wsNew := wsNew st @ [dep]\<rparr>))"

fun walk_deps ::
  "(string \<Rightarrow> string option) \<Rightarrow> string \<Rightarrow> name \<Rightarrow> ModuleRef list \<Rightarrow> walk_state \<Rightarrow> WalkError + walk_state" where
  "walk_deps ev root parentName [] st = Inr st"
| "walk_deps ev root parentName (dep # deps) st =
     (case walk_dep ev root parentName dep st of
        Inl err \<Rightarrow> Inl err
      | Inr st' \<Rightarrow> walk_deps ev root parentName deps st')"

fun walk_refs ::
  "(string \<Rightarrow> string option) \<Rightarrow> string \<Rightarrow> (ModuleRef \<Rightarrow> ModuleInfo option) \<Rightarrow> ModuleRef list \<Rightarrow> walk_state \<Rightarrow>
   WalkError + walk_state" where
  "walk_refs ev root peek [] st = Inr st"
| "walk_refs ev root peek (ref # refs) st =
     (case peek ref of
        None \<Rightarrow> walk_refs ev root peek refs st
      | Some info \<Rightarrow>
          (let parentName = (if miName info = [] then pathBasename ref else miName info) in
           case walk_deps ev root parentName (miDeps info) st of
             Inl err \<Rightarrow> Inl err
           | Inr st' \<Rightarrow> walk_refs ev root peek refs st'))"

text \<open>The peek of a reference: located on disk, then evaluated.\<close>

definition peek_ref ::
  "string \<Rightarrow> string \<Rightarrow> (string \<Rightarrow> bool) \<Rightarrow> (string \<Rightarrow> ModuleInfo option) \<Rightarrow> ModuleRef \<Rightarrow> ModuleInfo option" where
  "peek_ref yoeCache root stat peek ref =
     (case locateModulePath yoeCache stat ref root of
        None \<Rightarrow> None
      | Some (modulePath, _) \<Rightarrow> peek modulePath)"

text \<open>The loop, with the rounds left of the sixteen and the number of the round.\<close>

fun expand_rounds ::
  "(string \<Rightarrow> string option) \<Rightarrow> string \<Rightarrow> (nat \<Rightarrow> ModuleRef list \<Rightarrow> string option) \<Rightarrow>
   (nat \<Rightarrow> ModuleRef \<Rightarrow> ModuleInfo option) \<Rightarrow> nat \<Rightarrow> nat \<Rightarrow> ModuleRef list \<Rightarrow>
   (string, moduleRecord) gomap \<Rightarrow> graph \<Rightarrow> WalkError + ModuleRef list \<times> graph" where
  "expand_rounds ev root sync peek 0 i combined seen graph = Inr (combined, graph)"
| "expand_rounds ev root sync peek (Suc n) i combined seen graph =
     (case sync i combined of
        Some err \<Rightarrow> Inl (SyncFailed err)
      | None \<Rightarrow>
          (case walk_refs ev root (peek i) combined \<lparr>wsSeen = seen, wsGraph = graph, wsNew = []\<rparr> of
             Inl err \<Rightarrow> Inl err
           | Inr st \<Rightarrow>
               if wsNew st = [] then Inr (combined, wsGraph st)
               else expand_rounds ev root sync peek n (Suc i) (combined @ wsNew st) (wsSeen st) (wsGraph st)))"

definition initial_seen ::
  "(string \<Rightarrow> string option) \<Rightarrow> string \<Rightarrow> ModuleRef list \<Rightarrow> (string, moduleRecord) gomap" where
  "initial_seen ev root initial =
     fold (\<lambda>m. gm_put (canonicalIdentity ev m root) \<lparr>mrRef = m, mrProjectLevel = True\<rparr>) initial []"

definition expandTransitiveDeps ::
  "(string \<Rightarrow> string option) \<Rightarrow> string \<Rightarrow> (nat \<Rightarrow> ModuleRef list \<Rightarrow> string option) \<Rightarrow>
   (nat \<Rightarrow> ModuleRef \<Rightarrow> ModuleInfo option) \<Rightarrow> ModuleRef list \<Rightarrow> WalkError + ModuleRef list" where
  "expandTransitiveDeps ev root sync peek initial =
     (case expand_rounds ev root sync peek 16 0 initial (initial_seen ev root initial) [] of
        Inl err \<Rightarrow> Inl err
      | Inr (combined, graph) \<Rightarrow>
          (case DetectCycles graph of
             Inl err \<Rightarrow> Inl (ModuleCycle err)
           | Inr _ \<Rightarrow> Inr combined))"

section \<open>What the walk keeps\<close>

text \<open>
  The identities seen are those of the project's modules and of the added ones; the added
  ones are recorded as not belonging to the project and clash with no name seen before.
\<close>

definition added_ok ::
  "(string \<Rightarrow> string option) \<Rightarrow> string \<Rightarrow> ModuleRef list \<Rightarrow> ModuleRef list \<Rightarrow> (string, moduleRecord) gomap \<Rightarrow> bool" where
  "added_ok ev root initial new seen \<longleftrightarrow>
     gm_ok seen \<and>
     set (gm_keys seen) = (\<lambda>m. canonicalIdentity ev m root) ` set (initial @ new) \<and>
     distinct (map (\<lambda>m. canonicalIdentity ev m root) new) \<and>
     (\<forall>m \<in> set new. canonicalIdentity ev m root \<notin> (\<lambda>m. canonicalIdentity ev m root) ` set initial) \<and>
     (\<forall>m \<in> set new. map_of seen (canonicalIdentity ev m root) = Some \<lparr>mrRef = m, mrProjectLevel = False\<rparr>) \<and>
     (\<forall>m \<in> set new. \<forall>m' \<in> set new. pathBasename m = pathBasename m' \<and> pathBasename m \<noteq> [] \<longrightarrow>
        canonicalIdentity ev m [] = canonicalIdentity ev m' []) \<and>
     (\<forall>k r. map_of seen k = Some r \<and> mrProjectLevel r \<longrightarrow> mrRef r \<in> set initial)"

lemma findNameConflict_None:
  "findNameConflict ev seen cand nm = None \<Longrightarrow> nm \<noteq> [] \<Longrightarrow> (k, rec) \<in> set seen \<Longrightarrow>
   pathBasename (mrRef rec) = nm \<Longrightarrow> canonicalIdentity ev (mrRef rec) [] = canonicalIdentity ev cand []"
  by (induction ev seen cand nm rule: findNameConflict.induct) (auto split: if_splits)

lemma findNameConflict_Some:
  "findNameConflict ev seen cand nm = Some c \<Longrightarrow> (\<exists>k. (k, c) \<in> set seen) \<and> nm \<noteq> [] \<and> pathBasename (mrRef c) = nm"
  by (induction ev seen cand nm rule: findNameConflict.induct) (auto split: if_splits)

lemma walk_dep_added:
  assumes "walk_dep ev root parent dep st = Inr st'" and "added_ok ev root initial (old @ wsNew st) (wsSeen st)"
  shows "added_ok ev root initial (old @ wsNew st') (wsSeen st')"
proof (cases "gm_has (wsSeen st) (canonicalIdentity ev dep root)")
  case True
  with assms show ?thesis by (auto simp: walk_dep_def Let_def)
next
  case False
  let ?id = "\<lambda>m. canonicalIdentity ev m root"
  show ?thesis
  proof (cases "findNameConflict ev (wsSeen st) dep (pathBasename dep)")
    case (Some c)
    with False assms show ?thesis by (auto simp: walk_dep_def Let_def split: if_splits)
  next
    case None
    have st': "wsNew st' = wsNew st @ [dep]"
      "wsSeen st' = gm_put (?id dep) \<lparr>mrRef = dep, mrProjectLevel = False\<rparr> (wsSeen st)"
      using assms(1) False None by (auto simp: walk_dep_def Let_def)
    have fresh: "?id dep \<notin> ?id ` set (initial @ old @ wsNew st)"
      using False assms(2) unfolding gm_has_iff added_ok_def by simp
    have names: "canonicalIdentity ev m [] = canonicalIdentity ev dep []"
      if "m \<in> set (old @ wsNew st)" "pathBasename m = pathBasename dep" "pathBasename dep \<noteq> []" for m
    proof -
      have "map_of (wsSeen st) (?id m) = Some \<lparr>mrRef = m, mrProjectLevel = False\<rparr>"
        using assms(2) that(1) unfolding added_ok_def by blast
      from findNameConflict_None [OF None that(3) map_of_SomeD [OF this]] that(2) show ?thesis by simp
    qed
    let ?old = "old @ wsNew st"
    have A: "gm_ok (wsSeen st)" "set (gm_keys (wsSeen st)) = ?id ` set (initial @ ?old)" "distinct (map ?id ?old)"
      "\<forall>m \<in> set ?old. ?id m \<notin> ?id ` set initial"
      "\<forall>m \<in> set ?old. map_of (wsSeen st) (?id m) = Some \<lparr>mrRef = m, mrProjectLevel = False\<rparr>"
      "\<forall>m \<in> set ?old. \<forall>m' \<in> set ?old. pathBasename m = pathBasename m' \<and> pathBasename m \<noteq> [] \<longrightarrow>
        canonicalIdentity ev m [] = canonicalIdentity ev m' []"
      "\<forall>k r. map_of (wsSeen st) k = Some r \<and> mrProjectLevel r \<longrightarrow> mrRef r \<in> set initial"
      using assms(2) unfolding added_ok_def by blast+
    have new: "old @ wsNew st' = ?old @ [dep]" using st'(1) by simp
    have "gm_ok (wsSeen st')" using A(1) st'(2) by simp
    moreover have "set (gm_keys (wsSeen st')) = ?id ` set (initial @ ?old @ [dep])"
      unfolding st'(2) set_keys_put A(2) by simp
    moreover have "distinct (map ?id (?old @ [dep]))" using A(3) fresh by auto
    moreover have "\<forall>m \<in> set (?old @ [dep]). ?id m \<notin> ?id ` set initial" using A(4) fresh by auto
    moreover have "\<forall>m \<in> set (?old @ [dep]). map_of (wsSeen st') (?id m) = Some \<lparr>mrRef = m, mrProjectLevel = False\<rparr>"
    proof
      fix m
      assume "m \<in> set (?old @ [dep])"
      then consider "m = dep" | "m \<in> set ?old" by auto
      then show "map_of (wsSeen st') (?id m) = Some \<lparr>mrRef = m, mrProjectLevel = False\<rparr>"
      proof cases
        case 2
        then have "?id dep \<noteq> ?id m" using fresh by auto
        then show ?thesis using 2 A(5) unfolding st'(2) by simp
      qed (simp add: st'(2))
    qed
    moreover have "\<forall>m \<in> set (?old @ [dep]). \<forall>m' \<in> set (?old @ [dep]). pathBasename m = pathBasename m' \<and> pathBasename m \<noteq> [] \<longrightarrow>
        canonicalIdentity ev m [] = canonicalIdentity ev m' []"
      using A(6) names by (metis append_Nil2 in_set_conv_decomp rotate1.simps(2) set_ConsD set_rotate1)
    moreover have "\<forall>k r. map_of (wsSeen st') k = Some r \<and> mrProjectLevel r \<longrightarrow> mrRef r \<in> set initial"
      using A(7) unfolding st'(2) by (auto split: if_splits)
    ultimately show ?thesis unfolding added_ok_def new by blast
  qed
qed

lemma walk_deps_added:
  "walk_deps ev root parent deps st = Inr st' \<Longrightarrow> added_ok ev root initial (old @ wsNew st) (wsSeen st) \<Longrightarrow>
   added_ok ev root initial (old @ wsNew st') (wsSeen st')"
  by (induction deps arbitrary: st) (auto split: sum.splits dest: walk_dep_added)

lemma walk_refs_added:
  "walk_refs ev root peek refs st = Inr st' \<Longrightarrow> added_ok ev root initial (old @ wsNew st) (wsSeen st) \<Longrightarrow>
   added_ok ev root initial (old @ wsNew st') (wsSeen st')"
  by (induction refs arbitrary: st) (auto simp: Let_def split: option.splits sum.splits dest: walk_deps_added)

lemma expand_rounds_added:
  "expand_rounds ev root sync peek n i (initial @ old) seen graph = Inr (combined, graph') \<Longrightarrow>
   added_ok ev root initial old seen \<Longrightarrow>
   \<exists>new seen'. combined = initial @ new \<and> added_ok ev root initial new seen'"
proof (induction n arbitrary: i old seen graph)
  case (Suc n)
  obtain st where walk: "walk_refs ev root (peek i) (initial @ old) \<lparr>wsSeen = seen, wsGraph = graph, wsNew = []\<rparr> = Inr st"
    using Suc.prems(1) by (auto split: option.splits sum.splits)
  have added: "added_ok ev root initial (old @ wsNew st) (wsSeen st)"
    using walk_refs_added [OF walk, of initial old] Suc.prems(2) by simp
  show ?case
  proof (cases "wsNew st = []")
    case True
    with Suc.prems walk show ?thesis by (auto split: option.splits)
  next
    case False
    with Suc.prems(1) walk have "expand_rounds ev root sync peek n (Suc i) (initial @ (old @ wsNew st)) (wsSeen st) (wsGraph st)
        = Inr (combined, graph')" by (auto split: option.splits)
    from Suc.IH [OF this added] show ?thesis .
  qed
qed auto

lemma fold_put:
  fixes f :: "'m \<Rightarrow> 'k"
  assumes "gm_ok acc" and "\<forall>k r. map_of acc k = Some r \<longrightarrow> P r" and "\<forall>m \<in> set ms. P (g m)"
  defines "res \<equiv> fold (\<lambda>m. gm_put (f m) (g m)) ms acc"
  shows "gm_ok res" "set (gm_keys res) = f ` set ms \<union> set (gm_keys acc)" "\<forall>k r. map_of res k = Some r \<longrightarrow> P r"
proof -
  have "gm_ok res \<and> set (gm_keys res) = f ` set ms \<union> set (gm_keys acc) \<and> (\<forall>k r. map_of res k = Some r \<longrightarrow> P r)"
    using assms(1-3) unfolding res_def
  proof (induction ms arbitrary: acc)
    case (Cons m ms)
    have "\<forall>k r. map_of (gm_put (f m) (g m) acc) k = Some r \<longrightarrow> P r" using Cons.prems(2,3) by simp
    with Cons.IH [of "gm_put (f m) (g m) acc"] Cons.prems show ?case by simp
  qed simp
  then show "gm_ok res" "set (gm_keys res) = f ` set ms \<union> set (gm_keys acc)" "\<forall>k r. map_of res k = Some r \<longrightarrow> P r"
    by blast+
qed

lemma initial_seen_added: "added_ok ev root initial [] (initial_seen ev root initial)"
proof -
  let ?g = "\<lambda>m. \<lparr>mrRef = m, mrProjectLevel = True\<rparr>"
  let ?f = "\<lambda>m. canonicalIdentity ev m root"
  have pre: "\<forall>k r. map_of ([] :: (string, moduleRecord) gomap) k = Some r \<longrightarrow> mrRef r \<in> set initial"
    "\<forall>m \<in> set initial. mrRef (?g m) \<in> set initial" by simp_all
  have ok: "gm_ok (initial_seen ev root initial)"
    and keys: "set (gm_keys (initial_seen ev root initial)) = ?f ` set initial \<union> set (gm_keys ([] :: (string, moduleRecord) gomap))"
    and own: "\<forall>k r. map_of (initial_seen ev root initial) k = Some r \<longrightarrow> mrRef r \<in> set initial"
    unfolding initial_seen_def by (rule fold_put [OF _ pre], simp)+
  have keys': "set (gm_keys (initial_seen ev root initial)) = ?f ` set (initial @ [])" unfolding keys by simp
  show ?thesis unfolding added_ok_def keys' using ok own by simp blast
qed

section \<open>Completeness\<close>

text \<open>
  A declared dependency is settled when its identity is among the modules or one of the
  project's own modules has its name.
\<close>

definition settled ::
  "(string \<Rightarrow> string option) \<Rightarrow> string \<Rightarrow> ModuleRef list \<Rightarrow> ModuleRef list \<Rightarrow> ModuleRef \<Rightarrow> bool" where
  "settled ev root initial mods dep \<longleftrightarrow>
     (\<exists>m \<in> set mods. canonicalIdentity ev m root = canonicalIdentity ev dep root) \<or>
     (\<exists>m \<in> set initial. pathBasename m = pathBasename dep)"

lemma walk_dep_settles:
  assumes "walk_dep ev root parent dep st = Inr st'" and "added_ok ev root initial new (wsSeen st)"
    and "wsNew st' = wsNew st"
  shows "wsSeen st' = wsSeen st \<and> settled ev root initial (initial @ new) dep"
proof (cases "gm_has (wsSeen st) (canonicalIdentity ev dep root)")
  case True
  then have "\<exists>m \<in> set (initial @ new). canonicalIdentity ev m root = canonicalIdentity ev dep root"
    using assms(2) unfolding gm_has_iff added_ok_def by auto
  with True assms(1) show ?thesis by (auto simp: walk_dep_def Let_def settled_def)
next
  case False
  then obtain c where c: "findNameConflict ev (wsSeen st) dep (pathBasename dep) = Some c"
    "mrProjectLevel c" "wsSeen st' = wsSeen st"
    using assms(1,3) by (auto simp: walk_dep_def Let_def split: option.splits if_splits)
  then obtain k where "(k, c) \<in> set (wsSeen st)" "pathBasename (mrRef c) = pathBasename dep"
    using findNameConflict_Some by blast
  moreover have "gm_ok (wsSeen st)" using assms(2) by (simp add: added_ok_def)
  ultimately have "mrRef c \<in> set initial"
    using assms(2) c(2) map_of_is_SomeI [of "wsSeen st" k c] unfolding added_ok_def by blast
  with c \<open>pathBasename (mrRef c) = _\<close> show ?thesis by (auto simp: settled_def)
qed

lemma walk_dep_grows: "walk_dep ev root parent dep st = Inr st' \<Longrightarrow> prefix (wsNew st) (wsNew st')"
  by (auto simp: walk_dep_def Let_def split: if_splits option.splits)

lemma walk_deps_grows: "walk_deps ev root parent deps st = Inr st' \<Longrightarrow> prefix (wsNew st) (wsNew st')"
  by (induction deps arbitrary: st) (auto split: sum.splits dest: walk_dep_grows intro: prefix_order.trans)

lemma walk_refs_grows: "walk_refs ev root peek refs st = Inr st' \<Longrightarrow> prefix (wsNew st) (wsNew st')"
  by (induction refs arbitrary: st)
    (auto simp: Let_def split: option.splits sum.splits dest: walk_deps_grows intro: prefix_order.trans)

lemma walk_deps_settles:
  assumes "walk_deps ev root parent deps st = Inr st'" and "added_ok ev root initial new (wsSeen st)"
    and "wsNew st' = wsNew st"
  shows "wsSeen st' = wsSeen st \<and> (\<forall>dep \<in> set deps. settled ev root initial (initial @ new) dep)"
  using assms
proof (induction deps arbitrary: st)
  case (Cons dep deps)
  obtain st1 where one: "walk_dep ev root parent dep st = Inr st1" and rest: "walk_deps ev root parent deps st1 = Inr st'"
    using Cons.prems(1) by (auto split: sum.splits)
  have same: "wsNew st1 = wsNew st"
    using walk_dep_grows [OF one] walk_deps_grows [OF rest] Cons.prems(3) by (simp add: prefix_order.eq_iff)
  with walk_dep_settles [OF one Cons.prems(2)] Cons.IH [OF rest] Cons.prems(2,3) show ?case by simp
qed simp

lemma walk_refs_settles:
  assumes "walk_refs ev root peek refs st = Inr st'" and "added_ok ev root initial new (wsSeen st)"
    and "wsNew st' = wsNew st"
  shows "\<forall>ref \<in> set refs. \<forall>info. peek ref = Some info \<longrightarrow>
    (\<forall>dep \<in> set (miDeps info). settled ev root initial (initial @ new) dep)"
  using assms
proof (induction refs arbitrary: st)
  case (Cons ref refs)
  show ?case
  proof (cases "peek ref")
    case None
    with Cons show ?thesis by simp
  next
    case (Some info)
    let ?parent = "if miName info = [] then pathBasename ref else miName info"
    obtain st1 where one: "walk_deps ev root ?parent (miDeps info) st = Inr st1"
      and rest: "walk_refs ev root peek refs st1 = Inr st'"
      using Cons.prems(1) Some by (auto simp: Let_def split: sum.splits)
    have same: "wsNew st1 = wsNew st"
      using walk_deps_grows [OF one] walk_refs_grows [OF rest] Cons.prems(3) by (simp add: prefix_order.eq_iff)
    with walk_deps_settles [OF one Cons.prems(2)] Cons.IH [OF rest] Cons.prems(2,3) Some show ?thesis by simp
  qed
qed simp

text \<open>A run that adds fewer modules than it has rounds ends on a round that adds none.\<close>

lemma expand_rounds_settles:
  "expand_rounds ev root sync peek n i (initial @ old) seen graph = Inr (combined, graph') \<Longrightarrow>
   added_ok ev root initial old seen \<Longrightarrow> length combined < length (initial @ old) + n \<Longrightarrow>
   \<exists>j < i + n. \<forall>ref \<in> set combined. \<forall>info. peek j ref = Some info \<longrightarrow>
     (\<forall>dep \<in> set (miDeps info). settled ev root initial combined dep)"
proof (induction n arbitrary: i old seen graph)
  case (Suc n)
  obtain st where walk: "walk_refs ev root (peek i) (initial @ old) \<lparr>wsSeen = seen, wsGraph = graph, wsNew = []\<rparr> = Inr st"
    using Suc.prems(1) by (auto split: option.splits sum.splits)
  show ?case
  proof (cases "wsNew st = []")
    case True
    with Suc.prems walk have "combined = initial @ old" by (auto split: option.splits)
    with walk_refs_settles [OF walk, of initial old] Suc.prems(2) True show ?thesis
      by (intro exI [of _ i]) simp
  next
    case False
    then have len: "length (wsNew st) \<ge> 1" by (cases "wsNew st") auto
    have added: "added_ok ev root initial (old @ wsNew st) (wsSeen st)"
      using walk_refs_added [OF walk, of initial old] Suc.prems(2) by simp
    have run: "expand_rounds ev root sync peek n (Suc i) (initial @ (old @ wsNew st)) (wsSeen st) (wsGraph st)
        = Inr (combined, graph')" using Suc.prems(1) walk False by (auto split: option.splits)
    show ?thesis using Suc.IH [OF run added] Suc.prems(3) len by auto
  qed
qed simp

section \<open>Properties\<close>

text \<open>
  The expanded module list starts with the project's own modules, unchanged and in
  order; a module added behind them has an identity that occurs nowhere else, and two added
  modules of one name are the same module. When fewer than sixteen modules were added the
  list is complete: in one of the rounds, every dependency declared by a module of the list
  is settled.
\<close>

theorem expandTransitiveDeps_spec:
  assumes "expandTransitiveDeps ev root sync peek initial = Inr combined"
  shows "\<exists>new. combined = initial @ new \<and> distinct (map (\<lambda>m. canonicalIdentity ev m root) new) \<and>
    (\<forall>m \<in> set new. \<forall>m' \<in> set initial. canonicalIdentity ev m root \<noteq> canonicalIdentity ev m' root) \<and>
    (\<forall>m \<in> set new. \<forall>m' \<in> set new. pathBasename m = pathBasename m' \<and> pathBasename m \<noteq> [] \<longrightarrow>
       canonicalIdentity ev m [] = canonicalIdentity ev m' []) \<and>
    (length new < 16 \<longrightarrow> (\<exists>j < 16. \<forall>ref \<in> set combined. \<forall>info. peek j ref = Some info \<longrightarrow>
       (\<forall>dep \<in> set (miDeps info). settled ev root initial combined dep)))"
proof -
  obtain graph where run: "expand_rounds ev root sync peek 16 0 (initial @ []) (initial_seen ev root initial) [] = Inr (combined, graph)"
    using assms unfolding expandTransitiveDeps_def by (auto split: sum.splits)
  obtain new seen where new: "combined = initial @ new" and added: "added_ok ev root initial new seen"
    using expand_rounds_added [OF run initial_seen_added] by blast
  have "length new < 16 \<longrightarrow> (\<exists>j < 16. \<forall>ref \<in> set combined. \<forall>info. peek j ref = Some info \<longrightarrow>
       (\<forall>dep \<in> set (miDeps info). settled ev root initial combined dep))"
    using expand_rounds_settles [OF run initial_seen_added] unfolding new by simp
  moreover have "\<forall>m \<in> set new. \<forall>m' \<in> set initial. canonicalIdentity ev m root \<noteq> canonicalIdentity ev m' root"
    using added unfolding added_ok_def image_iff by blast
  ultimately show ?thesis using new added unfolding added_ok_def by (intro exI [of _ new] conjI) blast+
qed

definition ex_ref :: "string \<Rightarrow> ModuleRef" where
  "ex_ref url = \<lparr>mfURL = url, mfRef = [], mfPath = [], mfLocal = []\<rparr>"

text \<open>Two modules that depend on each other, with declared names that are not their URL names.\<close>

definition ex_peek :: "ModuleRef \<Rightarrow> ModuleInfo option" where
  "ex_peek ref =
     (if mfURL ref = ''h/a'' then Some \<lparr>miName = ''alpha'', miDescription = [], miDeps = [ex_ref ''h/b'']\<rparr>
      else if mfURL ref = ''h/b'' then Some \<lparr>miName = ''beta'', miDescription = [], miDeps = [ex_ref ''h/a'']\<rparr>
      else None)"

lemma ex_expand:
  "expandTransitiveDeps (\<lambda>_. None) ''/p'' (\<lambda>_ _. None) (\<lambda>_. ex_peek) [ex_ref ''h/a''] = Inr [ex_ref ''h/a'', ex_ref ''h/b'']"
  by code_simp

theorem expandTransitiveDeps_spec_witness:
  "\<exists>new. [ex_ref ''h/a'', ex_ref ''h/b''] = [ex_ref ''h/a''] @ new \<and>
     distinct (map (\<lambda>m. canonicalIdentity (\<lambda>_. None) m ''/p'') new)"
  using expandTransitiveDeps_spec [OF ex_expand] by blast

text \<open>
  Cycle detection works on the declared name of a module but the URL name of its
  dependencies: modules that depend on each other are accepted when the two differ.
\<close>

theorem module_cycle_missed:
  "\<exists>peek a b. expandTransitiveDeps (\<lambda>_. None) ''/p'' (\<lambda>_ _. None) (\<lambda>_. peek) [a] = Inr [a, b] \<and>
     (\<exists>ia ib. peek a = Some ia \<and> b \<in> set (miDeps ia) \<and> peek b = Some ib \<and> a \<in> set (miDeps ib))"
  using ex_expand
  by (intro exI [of _ ex_peek] exI [of _ "ex_ref ''h/a''"] exI [of _ "ex_ref ''h/b''"])
    (simp add: ex_peek_def, simp add: ex_ref_def)

end
