(* ===== verification/Json.thy ===== *)
theory Json
  imports Units
begin

text \<open>
  \<^verbatim>\<open>json.Marshal\<close> on the values \<^verbatim>\<open>starlarkToGo\<close> produces, and \<^verbatim>\<open>sortedMap\<close> of
  \<^verbatim>\<open>internal/resolve/hash.go\<close>. Strings are ASCII; the decimal form of a float is a
  parameter, \<^const>\<open>None\<close> where encoding fails (NaN and the infinities).
\<close>

section \<open>Encoding\<close>

definition json_char :: "char \<Rightarrow> string" where
  "json_char c =
     (let n = (of_char c :: nat) in
      if n = 34 \<or> n = 92 then [char_of (92 :: nat), c]
      else if n = 8 then char_of (92 :: nat) # ''b''
      else if n = 12 then char_of (92 :: nat) # ''f''
      else if n = 10 then char_of (92 :: nat) # ''n''
      else if n = 13 then char_of (92 :: nat) # ''r''
      else if n = 9 then char_of (92 :: nat) # ''t''
      else if n < 32 \<or> n = 38 \<or> n = 60 \<or> n = 62
        then char_of (92 :: nat) # ''u00'' @ byte_hex c
      else [c])"

definition json_string :: "string \<Rightarrow> string" where
  "json_string s = CHR 0x22 # concat (map json_char s) @ [CHR 0x22]"

text \<open>All of a list of optional results, or none.\<close>

fun option_list :: "'a option list \<Rightarrow> 'a list option" where
  "option_list [] = Some []"
| "option_list (x # xs) =
     (case x of
        None \<Rightarrow> None
      | Some a \<Rightarrow> map_option (Cons a) (option_list xs))"

definition json_list :: "string option list \<Rightarrow> string option" where
  "json_list vs = map_option (\<lambda>es. ''['' @ Join es '','' @ '']'') (option_list vs)"

definition json_object :: "(string \<times> string option) list \<Rightarrow> string option" where
  "json_object kvs =
     map_option (\<lambda>es. ''{'' @ Join es '','' @ ''}'')
       (option_list (map (\<lambda>(k, v). map_option (\<lambda>e. json_string k @ '':'' @ e) v) (sort_key fst kvs)))"

fun json :: "(64 word \<Rightarrow> string option) \<Rightarrow> goany \<Rightarrow> string option" where
  "json ftoa GNil = Some ''null''"
| "json ftoa (GBool b) = Some (bool_str b)"
| "json ftoa (GString s) = Some (json_string s)"
| "json ftoa (GInt i) = Some (Itoa i)"
| "json ftoa (GFloat w) = ftoa w"
| "json ftoa (GList vs) = json_list (map (json ftoa) vs)"
| "json ftoa (GMap m) = json_object (map (\<lambda>p. (fst p, json ftoa (snd p))) m)"

section \<open>sortedMap\<close>

text \<open>It rebuilds every container of the tree.\<close>

fun sortedMap :: "goany \<Rightarrow> goany" where
  "sortedMap (GMap m) = GMap (map (\<lambda>p. (fst p, sortedMap (snd p))) m)"
| "sortedMap (GList vs) = GList (map sortedMap vs)"
| "sortedMap v = v"

lemma sortedMap_id [simp]: "sortedMap v = v"
  by (induction v rule: sortedMap.induct) (auto intro: map_idI)

section \<open>Map order\<close>

text \<open>Two values are the same data when they differ in the order of map entries only.\<close>

fun canon :: "goany \<Rightarrow> goany" where
  "canon (GMap m) = GMap (sort_key fst (map (\<lambda>p. (fst p, canon (snd p))) m))"
| "canon (GList vs) = GList (map canon vs)"
| "canon v = v"

lemma insort_key_map:
  "insort_key fst (k, f v) (map (\<lambda>p. (fst p, f (snd p))) xs) =
   map (\<lambda>p. (fst p, f (snd p))) (insort_key fst (k, v) xs)"
  by (induction xs) auto

lemma sort_key_map:
  "sort_key fst (map (\<lambda>p. (fst p, f (snd p))) xs) = map (\<lambda>p. (fst p, f (snd p))) (sort_key fst xs)"
  by (induction xs) (auto simp: insort_key_map)

lemma json_object_sort:
  "json_object (map (\<lambda>p. (fst p, f (snd p))) (sort_key fst m)) = json_object (map (\<lambda>p. (fst p, f (snd p))) m)"
proof -
  have "sort_key fst (map (\<lambda>p. (fst p, f (snd p))) (sort_key fst m)) = map (\<lambda>p. (fst p, f (snd p))) (sort_key fst m)"
    by (rule sort_key_id_if_sorted) (simp add: o_def)
  then show ?thesis unfolding json_object_def sort_key_map by simp
qed

lemma json_canon: "json ftoa (canon v) = json ftoa v"
proof (induction v rule: canon.induct)
  case (1 m)
  have same: "map (\<lambda>p. (fst p, json ftoa (canon (snd p)))) m = map (\<lambda>p. (fst p, json ftoa (snd p))) m"
    using 1 by auto
  have "json ftoa (canon (GMap m)) = json_object (map (\<lambda>p. (fst p, json ftoa (canon (snd p)))) (sort_key fst m))"
    by (simp add: sort_key_map o_def)
  also have "\<dots> = json ftoa (GMap m)"
    unfolding json_object_sort [of "\<lambda>v. json ftoa (canon v)"] same by simp
  finally show ?case .
qed (auto simp: o_def cong: map_cong)

lemma json_order: "canon v = canon w \<Longrightarrow> json ftoa v = json ftoa w"
  by (metis json_canon)

lemma canon_perm:
  assumes "gm_ok m" and "mset m = mset m'"
  shows "canon (GMap m) = canon (GMap m')"
proof -
  let ?f = "\<lambda>p :: string \<times> goany. (fst p, canon (snd p))"
  have "mset (map ?f m) = mset (map ?f m')" using assms(2) by simp
  moreover have "inj_on fst (set (map ?f m))" using assms(1) by (force simp: distinct_map inj_on_def)
  ultimately have "sort_key fst (map ?f m) = sort_key fst (map ?f m')"
    by (intro sort_key_inj_key_eq) simp_all
  then show ?thesis by simp
qed

end
