(* ===== verification/Hash.thy ===== *)
theory Hash
  imports Json Paths DagQuery
begin

text \<open>
  \<^verbatim>\<open>internal/resolve/hash.go\<close>: the content-addressed cache key of a unit and the pass that
  computes the keys of a whole graph. What the code reads of the outside world is passed
  in as a record: the digest function, the decimal form of floats and the file system.
\<close>

section \<open>The outside world\<close>

text \<open>
  \<open>hwSHA256\<close> maps bytes to the 32 bytes of their digest; \<open>hwIsDir\<close>, \<open>hwRead\<close> and \<open>hwWalk\<close>
  are \<^verbatim>\<open>os.Stat\<close>, \<^verbatim>\<open>os.ReadFile\<close> and the files that \<^verbatim>\<open>filepath.WalkDir\<close> collects.
\<close>

record HashWorld =
  hwSHA256 :: "string \<Rightarrow> string"
  hwFloat :: "64 word \<Rightarrow> string option"
  hwIsDir :: "string \<Rightarrow> bool"
  hwRead :: "string \<Rightarrow> string option"
  hwWalk :: "string \<Rightarrow> string list"

section \<open>The hashed text\<close>

text \<open>One \<^verbatim>\<open>Fprintf\<close> that ends in a newline.\<close>

definition line :: "string list \<Rightarrow> string" where
  "line parts = concat parts @ [CHR 0x0A]"

definition hashStringMap :: "string \<Rightarrow> (string, string) gomap \<Rightarrow> string" where
  "hashStringMap label m =
     (let keys = sort (gm_keys m);
          parts = map (\<lambda>k. k @ ''='' @ gm_get [] m k) keys
      in line [label, '':'', Join parts '',''])"

definition identity_lines :: "Unit \<Rightarrow> string \<Rightarrow> string" where
  "identity_lines u arch =
     line [''name:'', uName u] @
     line [''version:'', uVersion u] @
     line [''release:'', Itoa (uRelease u)] @
     line [''class:'', uClass u] @
     line [''scope:'', uScope u] @
     line [''arch:'', arch] @
     line [''description:'', uDescription u] @
     line [''license:'', uLicense u]"

definition source_lines :: "Unit \<Rightarrow> string" where
  "source_lines u =
     line [''source:'', uSource u] @
     line [''sha256:'', uSHA256 u] @
     (if uAPKChecksum u \<noteq> [] then line [''apk_checksum:'', uAPKChecksum u] else []) @
     line [''passthrough_apk:'', uPassthroughAPK u] @
     line [''tag:'', uTag u] @
     line [''branch:'', uBranch u] @
     line [''patches:'', Join (uPatches u) ''|'']"

definition context_lines :: "string \<Rightarrow> name \<Rightarrow> string" where
  "context_lines srcInputs effectiveDistro =
     (if srcInputs \<noteq> [] then line [''src_state:'', srcInputs] else []) @
     (if effectiveDistro \<noteq> [] then line [''effective_distro:'', effectiveDistro] else [])"

definition install_lines :: "HashWorld \<Rightarrow> InstallStep \<Rightarrow> string" where
  "install_lines w i =
     line [''step:install:'', isKind i, '':'', isSrc i, '':'', isDest i, '':'', octal (isMode i), '':'', isBaseDir i] @
     (let src = PathJoin [isBaseDir i, isSrc i] in
      if src \<noteq> [] then
        (case hwRead w src of
           None \<Rightarrow> []
         | Some data \<Rightarrow> line [''step:install:src-sha256:'', hex (hwSHA256 w data)])
      else [])"

definition step_lines :: "HashWorld \<Rightarrow> Step \<Rightarrow> string" where
  "step_lines w s =
     (if stCommand s \<noteq> [] then line [''step:cmd:'', stCommand s] else []) @
     (case stFn s of None \<Rightarrow> [] | Some f \<Rightarrow> line [''step:fn:'', f]) @
     (case stInstall s of None \<Rightarrow> [] | Some i \<Rightarrow> install_lines w i)"

definition task_lines :: "HashWorld \<Rightarrow> Task \<Rightarrow> string" where
  "task_lines w t =
     line [''task:'', tName t, '':'', tContainer t] @
     (if tDistros t \<noteq> [] then line [''task_distros:'', Join (tDistros t) '',''] else []) @
     concat (map (step_lines w) (tSteps t))"

definition distro_dep_lines :: "Unit \<Rightarrow> name \<Rightarrow> string" where
  "distro_dep_lines u effectiveDistro =
     (if effectiveDistro \<noteq> [] then
        (let extra = gm_get [] (uDistroDeps u) effectiveDistro in
         if extra \<noteq> [] then line [''distro_deps:'', effectiveDistro, '':'', Join extra '',''] else []) @
        (let extra = gm_get [] (uDistroRuntimeDeps u) effectiveDistro in
         if extra \<noteq> [] then line [''distro_runtime_deps:'', effectiveDistro, '':'', Join extra '',''] else [])
      else [])"

definition extra_line :: "HashWorld \<Rightarrow> Unit \<Rightarrow> string" where
  "extra_line w u =
     (if uExtra u \<noteq> [] then
        (case json (hwFloat w) (sortedMap (GMap (uExtra u))) of
           None \<Rightarrow> []
         | Some b \<Rightarrow> line [''extra:'', b])
      else [])"

definition config_lines :: "HashWorld \<Rightarrow> Unit \<Rightarrow> name \<Rightarrow> string" where
  "config_lines w u effectiveDistro =
     line [''container:'', uContainer u] @
     line [''container_arch:'', uContainerArch u] @
     line [''sandbox:'', bool_str (uSandbox u)] @
     line [''shell:'', uShell u] @
     line [''provides:'', Join (uProvides u) '',''] @
     line [''replaces:'', Join (uReplaces u) '',''] @
     line [''runtime_deps:'', Join (uRuntimeDeps u) '',''] @
     distro_dep_lines u effectiveDistro @
     line [''services:'', Join (uServices u) '',''] @
     line [''conffiles:'', Join (uConffiles u) '',''] @
     hashStringMap ''environment'' (uEnvironment u) @
     extra_line w u"

definition hashFilesDir :: "HashWorld \<Rightarrow> string \<Rightarrow> string" where
  "hashFilesDir w dir =
     (if \<not> hwIsDir w dir then []
      else concat (map (\<lambda>p.
             case hwRead w p of
               None \<Rightarrow> []
             | Some content \<Rightarrow>
                 line [''file:'', (case Rel dir p of None \<Rightarrow> [] | Some rel \<Rightarrow> rel), '':'', hex (hwSHA256 w content)])
           (sort (hwWalk w dir))))"

definition dep_line :: "(name, string) gomap \<Rightarrow> name \<Rightarrow> string" where
  "dep_line depHashes dep =
     (case map_of depHashes dep of
        None \<Rightarrow> []
      | Some dh \<Rightarrow> line [''dep:'', dep, '':'', dh])"

definition dep_lines :: "Unit \<Rightarrow> (name, string) gomap \<Rightarrow> name \<Rightarrow> string" where
  "dep_lines u depHashes effectiveDistro =
     concat (map (dep_line depHashes) (sort (DepsForDistro u effectiveDistro)))"

definition partition_line :: "nat \<Rightarrow> Partition \<Rightarrow> string" where
  "partition_line i p =
     line [''partition:'', Itoa (int i), '':'', ptLabel p, '':'', ptType p, '':'', ptSize p, '':'',
       bool_str (ptRoot p), '':'', Join (ptContents p) '','']"

definition image_lines :: "Unit \<Rightarrow> string" where
  "image_lines u =
     (if uClass u = ''image'' then
        line [''packages:'', Join (sort (uArtifacts u)) '',''] @
        line [''exclude:'', Join (uExclude u) '',''] @
        line [''hostname:'', uHostname u] @
        line [''timezone:'', uTimezone u] @
        line [''locale:'', uLocale u] @
        concat (map (\<lambda>(i, p). partition_line i p) (enumerate 0 (uPartitions u)))
      else [])"

text \<open>Everything written before the dependency hashes, and the whole text.\<close>

definition own_lines :: "HashWorld \<Rightarrow> Unit \<Rightarrow> string \<Rightarrow> string \<Rightarrow> name \<Rightarrow> string" where
  "own_lines w u arch srcInputs effectiveDistro =
     identity_lines u arch @ source_lines u @ context_lines srcInputs effectiveDistro @
     concat (map (task_lines w) (uTasks u)) @ config_lines w u effectiveDistro @
     (if uDefinedIn u \<noteq> [] then hashFilesDir w (PathJoin [uDefinedIn u, uName u]) else [])"

definition hash_text ::
  "HashWorld \<Rightarrow> Unit \<Rightarrow> string \<Rightarrow> (name, string) gomap \<Rightarrow> string \<Rightarrow> name \<Rightarrow> string" where
  "hash_text w u arch depHashes srcInputs effectiveDistro =
     own_lines w u arch srcInputs effectiveDistro @ dep_lines u depHashes effectiveDistro @ image_lines u"

definition UnitHash ::
  "HashWorld \<Rightarrow> Unit \<Rightarrow> string \<Rightarrow> (name, string) gomap \<Rightarrow> string \<Rightarrow> name \<Rightarrow> string" where
  "UnitHash w u arch depHashes srcInputs effectiveDistro =
     hex (hwSHA256 w (hash_text w u arch depHashes srcInputs effectiveDistro))"

section \<open>All hashes of a graph\<close>

text \<open>
  The architecture a unit is hashed for, and the loop over the build order; a name without
  a node is the panic of the nil dereference.
\<close>

definition unit_arch :: "string \<Rightarrow> name \<Rightarrow> Unit \<Rightarrow> string" where
  "unit_arch arch machine u = (if uScope u = ''machine'' then arch @ '':'' @ machine else arch)"

fun hash_order ::
  "HashWorld \<Rightarrow> nodes \<Rightarrow> string \<Rightarrow> name \<Rightarrow> (Unit \<Rightarrow> string) option \<Rightarrow> name \<Rightarrow> name list \<Rightarrow>
   (name, string) gomap \<Rightarrow> DagError + (name, string) gomap" where
  "hash_order w ns arch machine srcInputs d [] hashes = Inr hashes"
| "hash_order w ns arch machine srcInputs d (name # names) hashes =
     (case map_of ns name of
        None \<Rightarrow> Inl (NilNode name)
      | Some node \<Rightarrow>
          let src = (case srcInputs of None \<Rightarrow> [] | Some f \<Rightarrow> f (ndUnit node));
              h = UnitHash w (ndUnit node) (unit_arch arch machine (ndUnit node)) hashes src d
          in hash_order w ns arch machine srcInputs d names (gm_put name h hashes))"

definition ComputeAllHashes ::
  "HashWorld \<Rightarrow> DAG \<Rightarrow> string \<Rightarrow> name \<Rightarrow> (Unit \<Rightarrow> string) option \<Rightarrow> name \<Rightarrow>
   DagError + (name, string) gomap" where
  "ComputeAllHashes w dag arch machine srcInputs effectiveDistro =
     (case fst (TopologicalSort dag) of
        Inl err \<Rightarrow> Inl err
      | Inr order \<Rightarrow> hash_order w (dNodes dag) arch machine srcInputs effectiveDistro order [])"

section \<open>What the text depends on\<close>

lemma hashStringMap_perm: "gm_ok m \<Longrightarrow> mset m = mset m' \<Longrightarrow> hashStringMap l m = hashStringMap l m'"
  unfolding hashStringMap_def Let_def gm_get_def
  using sort_mset_cong [OF keys_perm [of m m']] map_of_perm [of m m'] by simp

lemma gm_get_perm: "gm_ok m \<Longrightarrow> mset m = mset m' \<Longrightarrow> gm_get d m = gm_get d m'"
  unfolding gm_get_def fun_eq_iff using map_of_perm [of m m'] by simp

lemma extra_line_order:
  assumes "canon (GMap e) = canon (GMap (uExtra u))"
  shows "extra_line w (u\<lparr>uExtra := e\<rparr>) = extra_line w u"
proof -
  have "length e = length (uExtra u)" using arg_cong [OF assms, of "case_goany 0 (\<lambda>_. 0) (\<lambda>_. 0) (\<lambda>_. 0) (\<lambda>_. 0) (\<lambda>_. 0) length"] by simp
  then have "e = [] \<longleftrightarrow> uExtra u = []" by auto
  then show ?thesis using json_order [OF assms, of "hwFloat w"] by (simp add: extra_line_def)
qed

text \<open>The dependency part only reads the hashes of declared names.\<close>

lemma dep_lines_cong:
  assumes "\<forall>x \<in> set (DepsForDistro u d). map_of h x = map_of h' x"
  shows "dep_lines u h d = dep_lines u h' d"
proof -
  have "map (dep_line h) (sort (DepsForDistro u d)) = map (dep_line h') (sort (DepsForDistro u d))"
    using assms by (simp add: dep_line_def)
  then show ?thesis by (simp only: dep_lines_def)
qed

lemma UnitHash_cong:
  assumes "\<forall>x \<in> set (DepsForDistro u d). map_of h x = map_of h' x"
  shows "UnitHash w u arch h s d = UnitHash w u arch h' s d"
  unfolding UnitHash_def hash_text_def dep_lines_cong [OF assms] ..

text \<open>Hashes of one length make the dependency part readable again.\<close>

lemma dep_line_inj:
  assumes "concat (map (dep_line h) xs) = concat (map (dep_line h') xs)"
    and "\<forall>x \<in> set xs. gm_has h x = gm_has h' x"
    and "\<forall>x y y'. map_of h x = Some y \<and> map_of h' x = Some y' \<longrightarrow> length y = length y'"
  shows "\<forall>x \<in> set xs. map_of h x = map_of h' x"
  using assms(1,2)
proof (induction xs)
  case (Cons x xs)
  have "length (dep_line h x) = length (dep_line h' x)"
    using Cons.prems(2) assms(3)
    by (auto simp: dep_line_def line_def gm_has_def split: option.splits)
  then have "dep_line h x = dep_line h' x" "concat (map (dep_line h) xs) = concat (map (dep_line h') xs)"
    using Cons.prems(1) by simp_all
  moreover from this have "map_of h x = map_of h' x"
    using Cons.prems(2) by (auto simp: dep_line_def line_def gm_has_def split: option.splits)
  ultimately show ?case using Cons.IH Cons.prems(2) by simp
qed simp

section \<open>The loop\<close>

text \<open>
  A declared dependency that is a unit of the graph is an edge of the graph. Graphs of
  \<^const>\<open>BuildDAG\<close> have this property unless a provider replaced the declared name.
\<close>

definition declared_linked :: "nodes \<Rightarrow> name \<Rightarrow> bool" where
  "declared_linked ns d \<longleftrightarrow>
     (\<forall>n nd. map_of ns n = Some nd \<longrightarrow>
        (\<forall>x \<in> set (DepsForDistro (ndUnit nd) d). gm_has ns x \<longrightarrow> x \<in> set (ndDeps nd)))"

definition node_hash ::
  "HashWorld \<Rightarrow> string \<Rightarrow> name \<Rightarrow> (Unit \<Rightarrow> string) option \<Rightarrow> name \<Rightarrow> (name, string) gomap \<Rightarrow> Unit \<Rightarrow> string" where
  "node_hash w arch machine srcInputs d hashes u =
     UnitHash w u (unit_arch arch machine u) hashes (case srcInputs of None \<Rightarrow> [] | Some f \<Rightarrow> f u) d"

lemma hash_order_keys:
  "hash_order w ns arch machine srcInputs d names hashes = Inr hs \<Longrightarrow>
   set (gm_keys hs) = set names \<union> set (gm_keys hashes) \<and> (gm_ok hashes \<longrightarrow> gm_ok hs)"
  by (induction names arbitrary: hashes) (auto simp: Let_def split: option.splits simp del: set_map)

lemma hash_order_keep:
  "hash_order w ns arch machine srcInputs d names hashes = Inr hs \<Longrightarrow> x \<notin> set names \<Longrightarrow> map_of hs x = map_of hashes x"
  by (induction names arbitrary: hashes) (auto simp: Let_def split: option.splits)

lemma hash_order_total:
  "set names \<subseteq> set (gm_keys ns) \<Longrightarrow> \<exists>hs. hash_order w ns arch machine srcInputs d names hashes = Inr hs"
proof (induction names arbitrary: hashes)
  case (Cons n names)
  then obtain nd where "map_of ns n = Some nd" using map_of_key_Some [of n ns] by auto
  with Cons show ?case by (simp add: Let_def)
qed simp

text \<open>A declared dependency that is hashed at all is hashed before the unit.\<close>

definition deps_early :: "nodes \<Rightarrow> name \<Rightarrow> name list \<Rightarrow> bool" where
  "deps_early ns d names \<longleftrightarrow>
     (\<forall>us n vs nd x. names = us @ n # vs \<longrightarrow> map_of ns n = Some nd \<longrightarrow>
        x \<in> set (DepsForDistro (ndUnit nd) d) \<longrightarrow> x \<in> set names \<longrightarrow> x \<in> set us)"

lemma deps_early_head:
  assumes "deps_early ns d (m # names)" and "map_of ns m = Some md" and "x \<in> set (DepsForDistro (ndUnit md) d)"
  shows "x \<notin> set (m # names)"
proof
  assume "x \<in> set (m # names)"
  with assms have "x \<in> set []" unfolding deps_early_def by (metis append_Nil)
  then show False by simp
qed

lemma deps_early_tail:
  assumes "deps_early ns d (m # names)" and "distinct (m # names)"
  shows "deps_early ns d names"
  unfolding deps_early_def
proof (intro allI impI)
  fix us n vs nd x
  assume "names = us @ n # vs" "map_of ns n = Some nd" "x \<in> set (DepsForDistro (ndUnit nd) d)" "x \<in> set names"
  moreover from this have "x \<in> set (m # us)"
    using assms(1) unfolding deps_early_def by (metis append_Cons list.set_intros(2))
  ultimately show "x \<in> set us" using assms(2) by auto
qed

text \<open>Each entry is the hash of its unit over the final hashes.\<close>

lemma hash_order_fixpoint:
  assumes "hash_order w ns arch machine srcInputs d names hashes = Inr hs"
    and "distinct names" and "set names \<inter> set (gm_keys hashes) = {}"
    and "deps_early ns d names"
    and "n \<in> set names" and "map_of ns n = Some nd"
  shows "map_of hs n = Some (node_hash w arch machine srcInputs d hs (ndUnit nd))"
  using assms
proof (induction names arbitrary: hashes)
  case (Cons m names)
  obtain md where md: "map_of ns m = Some md" using Cons.prems(1) by (auto split: option.splits)
  define h where "h = node_hash w arch machine srcInputs d hashes (ndUnit md)"
  have run: "hash_order w ns arch machine srcInputs d names (gm_put m h hashes) = Inr hs"
    using Cons.prems(1) md by (simp add: Let_def h_def node_hash_def)
  show ?case
  proof (cases "n = m")
    case True
    have "map_of hashes x = map_of hs x" if "x \<in> set (DepsForDistro (ndUnit md) d)" for x
      using deps_early_head [OF Cons.prems(4) md that] hash_order_keep [OF run, of x] by simp
    then have "h = node_hash w arch machine srcInputs d hs (ndUnit md)"
      unfolding h_def node_hash_def by (intro UnitHash_cong) blast
    moreover have "map_of hs m = Some h" using hash_order_keep [OF run, of m] Cons.prems(2) by simp
    ultimately show ?thesis using True md Cons.prems(6) by simp
  next
    case False
    have "set names \<inter> set (gm_keys (gm_put m h hashes)) = {}"
      using Cons.prems(2,3) unfolding set_keys_put by auto
    moreover have "distinct names" "n \<in> set names" using Cons.prems(2,5) False by auto
    ultimately show ?thesis
      using Cons.IH [OF run] deps_early_tail [OF Cons.prems(4,2)] Cons.prems(6) by blast
  qed
qed simp

text \<open>The memoized order is that of the sort.\<close>

definition memo_ok :: "DAG \<Rightarrow> bool" where
  "memo_ok g \<longleftrightarrow> (dSorted g \<longrightarrow> dOrder g = topologicalSort (dNodes g))"

lemma TopologicalSort_memo: "memo_ok g \<Longrightarrow> fst (TopologicalSort g) = topologicalSort (dNodes g)"
  by (simp add: TopologicalSort_def memo_ok_def Let_def)

lemma ComputeAllHashes_fixpoint:
  assumes ok: "dag_ok (dNodes g)" and memo: "memo_ok g" and linked: "declared_linked (dNodes g) d"
    and run: "ComputeAllHashes w g arch machine src d = Inr hs" and n: "map_of (dNodes g) n = Some nd"
  shows "map_of hs n = Some (node_hash w arch machine src d hs (ndUnit nd))"
proof -
  obtain order where order: "topologicalSort (dNodes g) = Inr order"
    and loop: "hash_order w (dNodes g) arch machine src d order [] = Inr hs"
    using run TopologicalSort_memo [OF memo] by (auto simp: ComputeAllHashes_def split: sum.splits)
  have topo: "topo_order (dNodes g) order" by (rule dag.sorted_ok [OF ok order])
  have "deps_early (dNodes g) d order"
    unfolding deps_early_def
  proof (intro allI impI)
    fix us m vs md x
    assume m: "order = us @ m # vs" "map_of (dNodes g) m = Some md" "x \<in> set (DepsForDistro (ndUnit md) d)"
      and "x \<in> set order"
    then have "gm_has (dNodes g) x" using topo unfolding topo_order_def gm_has_iff by blast
    with m(2,3) linked have "(m, x) \<in> edges (deps_graph (dNodes g))"
      unfolding declared_linked_def by (simp add: edges_iff succs_def gm_get_def)
    from dag.deps_before [OF ok order [unfolded m(1)] r_into_trancl [OF this]] show "x \<in> set us" .
  qed
  moreover have "n \<in> set order"
    using dag.order_covers [OF ok order] map_of_Some_key [OF n] by simp
  ultimately show ?thesis
    using hash_order_fixpoint [OF loop] topo n unfolding topo_order_def by simp
qed

lemma ComputeAllHashes_keys:
  assumes "dag_ok (dNodes g)" and "memo_ok g" and "ComputeAllHashes w g arch machine src d = Inr hs"
  shows "gm_ok hs \<and> set (gm_keys hs) = set (gm_keys (dNodes g))"
proof -
  obtain order where order: "topologicalSort (dNodes g) = Inr order"
    and loop: "hash_order w (dNodes g) arch machine src d order [] = Inr hs"
    using assms(3) TopologicalSort_memo [OF assms(2)] by (auto simp: ComputeAllHashes_def split: sum.splits)
  have "set order = set (gm_keys (dNodes g))" using dag.order_covers [OF assms(1) order] by blast
  with hash_order_keys [OF loop] show ?thesis by simp
qed

section \<open>Change propagation\<close>

text \<open>The texts hashed for the units of a graph, and the hash of a declared dependency read back.\<close>

definition texts ::
  "HashWorld \<Rightarrow> nodes \<Rightarrow> string \<Rightarrow> name \<Rightarrow> (Unit \<Rightarrow> string) option \<Rightarrow> name \<Rightarrow> (name, string) gomap \<Rightarrow> string set" where
  "texts w ns arch machine src d hs =
     (\<lambda>(n, nd). hash_text w (ndUnit nd) (unit_arch arch machine (ndUnit nd)) hs
        (case src of None \<Rightarrow> [] | Some f \<Rightarrow> f (ndUnit nd)) d) ` set ns"

lemma hash_text_dep:
  assumes "hash_text w u a hs s d = hash_text w u a hs' s d"
    and "set (gm_keys hs) = set (gm_keys hs')"
    and "\<forall>x y y'. map_of hs x = Some y \<and> map_of hs' x = Some y' \<longrightarrow> length y = length y'"
    and "x \<in> set (DepsForDistro u d)"
  shows "map_of hs x = map_of hs' x"
proof -
  have "dep_lines u hs d = dep_lines u hs' d" using assms(1) by (simp add: hash_text_def)
  then have "concat (map (dep_line hs) (sort (DepsForDistro u d))) = concat (map (dep_line hs') (sort (DepsForDistro u d)))"
    by (simp add: dep_lines_def)
  from dep_line_inj [OF this _ assms(3)] assms(2,4) show ?thesis by (simp add: gm_has_iff del: set_map)
qed

text \<open>
  The dependencies a unit declares, for units that two graphs share: the same unit with the
  same source state.
\<close>

definition shared_edges ::
  "nodes \<Rightarrow> nodes \<Rightarrow> (Unit \<Rightarrow> string) option \<Rightarrow> (Unit \<Rightarrow> string) option \<Rightarrow> name \<Rightarrow> (name \<times> name) set" where
  "shared_edges ns ns' src src' d =
     {(n, x). \<exists>nd nd'. map_of ns n = Some nd \<and> map_of ns' n = Some nd' \<and> ndUnit nd = ndUnit nd' \<and>
        map_option (\<lambda>f. f (ndUnit nd)) src = map_option (\<lambda>f. f (ndUnit nd)) src' \<and>
        x \<in> set (DepsForDistro (ndUnit nd) d)}"

lemma src_eq: "map_option (\<lambda>f. f u) src = map_option (\<lambda>f. f u) src' \<Longrightarrow>
  (case src of None \<Rightarrow> [] | Some f \<Rightarrow> f u) = (case src' of None \<Rightarrow> [] | Some f \<Rightarrow> f u)"
  by (cases src; cases src') auto

section \<open>Properties\<close>

text \<open>
  The pass over a well-formed graph without cycles returns a hash for exactly the units
  of the graph, and each is the hash of its unit over the final hashes: every declared
  dependency that is a unit contributes its own final hash.
\<close>

theorem ComputeAllHashes_spec:
  assumes "dag_ok (dNodes g)" and "memo_ok g" and "declared_linked (dNodes g) d"
    and "acyclic (edges (deps_graph (dNodes g)))"
  shows "\<exists>hs. ComputeAllHashes w g arch machine src d = Inr hs \<and> gm_ok hs \<and>
    set (gm_keys hs) = set (gm_keys (dNodes g)) \<and>
    (\<forall>n nd. map_of (dNodes g) n = Some nd \<longrightarrow>
       map_of hs n = Some (UnitHash w (ndUnit nd) (unit_arch arch machine (ndUnit nd)) hs
         (case src of None \<Rightarrow> [] | Some f \<Rightarrow> f (ndUnit nd)) d))"
proof -
  obtain order where order: "topologicalSort (dNodes g) = Inr order"
    using dag.sorted_total [OF assms(1,4)] by blast
  have "set order \<subseteq> set (gm_keys (dNodes g))" using dag.order_covers [OF assms(1) order] by blast
  then obtain hs where "ComputeAllHashes w g arch machine src d = Inr hs"
    using hash_order_total [of order "dNodes g" w arch machine src d "[]"] order
    unfolding ComputeAllHashes_def TopologicalSort_memo [OF assms(2)] by auto
  with ComputeAllHashes_keys [OF assms(1,2) this] ComputeAllHashes_fixpoint [OF assms(1-3) this]
  show ?thesis unfolding node_hash_def by blast
qed

text \<open>
  C2. A changed hash reaches every unit that depends on the changed one through declared
  dependencies. Take two passes over graphs with the same unit names and no digest
  collision among the texts they hash: when the hash of one unit differs, so does the hash
  of every unit with a chain of declared dependencies to it, even if each unit of the chain
  is unchanged itself.
\<close>

theorem hash_change_propagates:
  assumes g: "dag_ok (dNodes g)" "memo_ok g" "declared_linked (dNodes g) d"
      "ComputeAllHashes w g arch machine src d = Inr hs"
    and g': "dag_ok (dNodes g')" "memo_ok g'" "declared_linked (dNodes g') d"
      "ComputeAllHashes w g' arch machine src' d = Inr hs'"
    and names: "set (gm_keys (dNodes g)) = set (gm_keys (dNodes g'))"
    and digest: "\<forall>x. length (hwSHA256 w x) = 32"
      "inj_on (hwSHA256 w) (texts w (dNodes g) arch machine src d hs \<union> texts w (dNodes g') arch machine src' d hs')"
    and chain: "(n, m) \<in> (shared_edges (dNodes g) (dNodes g') src src' d)\<^sup>*"
    and changed: "map_of hs m \<noteq> map_of hs' m"
  shows "map_of hs n \<noteq> map_of hs' n"
  using chain changed
proof (induction rule: converse_rtrancl_induct)
  case (step n x)
  note hash = ComputeAllHashes_fixpoint [OF g(1-3) g(4)] and hash' = ComputeAllHashes_fixpoint [OF g'(1-3) g'(4)]
  have keys: "set (gm_keys hs) = set (gm_keys hs')"
    using ComputeAllHashes_keys [OF g(1,2,4)] ComputeAllHashes_keys [OF g'(1,2,4)] names by simp
  have len: "length y = 64" if "map_of hs z = Some y \<or> map_of hs' z = Some y" for z y
  proof -
    have "z \<in> set (gm_keys (dNodes g))"
      using that map_of_Some_key [of hs z y] map_of_Some_key [of hs' z y] keys
        ComputeAllHashes_keys [OF g(1,2,4)] by blast
    then obtain nd nd' where "map_of (dNodes g) z = Some nd" "map_of (dNodes g') z = Some nd'"
      using map_of_key_Some names by metis
    with hash hash' that digest(1) show ?thesis by (auto simp: node_hash_def UnitHash_def)
  qed
  obtain nd nd' where nd: "map_of (dNodes g) n = Some nd" "map_of (dNodes g') n = Some nd'" "ndUnit nd = ndUnit nd'"
    and src: "map_option (\<lambda>f. f (ndUnit nd)) src = map_option (\<lambda>f. f (ndUnit nd)) src'"
    and x: "x \<in> set (DepsForDistro (ndUnit nd) d)"
    using step.hyps(1) unfolding shared_edges_def by blast
  let ?text = "\<lambda>u s h. hash_text w u (unit_arch arch machine u) h (case s of None \<Rightarrow> [] | Some f \<Rightarrow> f u) d"
  have mem: "?text (ndUnit nd) src hs \<in> texts w (dNodes g) arch machine src d hs"
    "?text (ndUnit nd') src' hs' \<in> texts w (dNodes g') arch machine src' d hs'"
    unfolding texts_def using map_of_SomeD [OF nd(1)] map_of_SomeD [OF nd(2)] by (force)+
  show ?case
  proof
    assume "map_of hs n = map_of hs' n"
    then have "hwSHA256 w (?text (ndUnit nd) src hs) = hwSHA256 w (?text (ndUnit nd') src' hs')"
      using hash [OF nd(1)] hash' [OF nd(2)] by (simp add: node_hash_def UnitHash_def hex_inj)
    then have "?text (ndUnit nd) src hs = ?text (ndUnit nd') src' hs'"
      using inj_onD [OF digest(2)] mem by blast
    then have "?text (ndUnit nd) src hs = ?text (ndUnit nd) src hs'"
      unfolding nd(3) [symmetric] src_eq [OF src, symmetric] .
    from hash_text_dep [OF this keys _ x] len have "map_of hs x = map_of hs' x" by metis
    with step.IH step.prems show False by blast
  qed
qed

section \<open>A graph of two units\<close>

definition ex_hash_dag :: "string \<Rightarrow> DAG" where
  "ex_hash_dag v = \<lparr>dNodes = [
     (''a'', \<lparr>ndUnit = zero_unit\<lparr>uName := ''a'', uDeps := [''b'']\<rparr>, ndDeps = [''b''], ndRdeps = []\<rparr>),
     (''b'', \<lparr>ndUnit = zero_unit\<lparr>uName := ''b'', uVersion := v\<rparr>, ndDeps = [], ndRdeps = [''a'']\<rparr>)],
     dOrder = Inr [], dSorted = False\<rparr>"

definition checksum :: "string \<Rightarrow> string" where
  "checksum s = take 32 (take 16 (rev s) @ take 16 s @ replicate 32 CHR ''0'')"

definition ex_world :: HashWorld where
  "ex_world = \<lparr>hwSHA256 = checksum, hwFloat = (\<lambda>_. None), hwIsDir = (\<lambda>_. False), hwRead = (\<lambda>_. None), hwWalk = (\<lambda>_. [])\<rparr>"

definition ex_b :: "string \<Rightarrow> string" where
  "ex_b v = UnitHash ex_world (zero_unit\<lparr>uName := ''b'', uVersion := v\<rparr>) ''arm64'' [] [] ''debian''"

definition ex_hashes :: "string \<Rightarrow> (name, string) gomap" where
  "ex_hashes v = [(''b'', ex_b v),
     (''a'', UnitHash ex_world (zero_unit\<lparr>uName := ''a'', uDeps := [''b'']\<rparr>) ''arm64'' [(''b'', ex_b v)] [] ''debian'')]"

lemma ex_hash_dag_ok: "dag_ok (dNodes (ex_hash_dag v))" "memo_ok (ex_hash_dag v)"
  "declared_linked (dNodes (ex_hash_dag v)) ''debian''"
  by (auto simp: dag_ok_def ex_hash_dag_def deps_graph_def succs_def memo_ok_def declared_linked_def
      DepsForDistro_def zero_unit_def split: if_splits)

lemma ex_hash_dag_sort: "topologicalSort (dNodes (ex_hash_dag v)) = Inr [''b'', ''a'']"
  by (simp add: ex_hash_dag_def topologicalSort_def kahn.simps)

lemma ex_hash_dag_acyclic: "acyclic (edges (deps_graph (dNodes (ex_hash_dag v))))"
proof (rule precedes_acyclic [of "[''b'', ''a'']"])
  fix a b
  assume "(a, b) \<in> edges (deps_graph (dNodes (ex_hash_dag v)))"
  then have "[''b'', ''a''] = [] @ b # [] @ a # []"
    by (auto simp: edges_iff ex_hash_dag_def deps_graph_def succs_def split: if_splits)
  then show "precedes [''b'', ''a''] b a" unfolding precedes_def by blast
qed simp

lemma ex_hash_run: "ComputeAllHashes ex_world (ex_hash_dag v) ''arm64'' ''qemu'' None ''debian'' = Inr (ex_hashes v)"
  unfolding ComputeAllHashes_def TopologicalSort_memo [OF ex_hash_dag_ok(2)] ex_hash_dag_sort
  by (simp add: ex_hash_dag_def ex_hashes_def ex_b_def Let_def unit_arch_def zero_unit_def)

theorem ComputeAllHashes_spec_witness:
  "\<exists>hs. ComputeAllHashes ex_world (ex_hash_dag ''1'') ''arm64'' ''qemu'' None ''debian'' = Inr hs \<and>
     set (gm_keys hs) = {''a'', ''b''}"
  using ComputeAllHashes_spec [OF ex_hash_dag_ok [of "''1''"] ex_hash_dag_acyclic, where w = ex_world
    and arch = "''arm64''" and machine = "''qemu''" and src = None]
  by (auto simp: ex_hash_dag_def)

lemma ex_texts_distinct:
  "distinct (map checksum (map (\<lambda>(n, nd). hash_text ex_world (ndUnit nd) ''arm64'' (ex_hashes ''1'') [] ''debian'') (dNodes (ex_hash_dag ''1'')) @
     map (\<lambda>(n, nd). hash_text ex_world (ndUnit nd) ''arm64'' (ex_hashes ''2'') [] ''debian'') (dNodes (ex_hash_dag ''2''))))"
  by code_simp

lemma ex_b_change: "map_of (ex_hashes ''1'') ''b'' \<noteq> map_of (ex_hashes ''2'') ''b''"
  by code_simp

theorem hash_change_propagates_witness: "map_of (ex_hashes ''1'') ''a'' \<noteq> map_of (ex_hashes ''2'') ''a''"
proof (rule hash_change_propagates [OF ex_hash_dag_ok ex_hash_run ex_hash_dag_ok ex_hash_run])
  show "set (gm_keys (dNodes (ex_hash_dag ''1''))) = set (gm_keys (dNodes (ex_hash_dag ''2'')))"
    by (simp add: ex_hash_dag_def)
  show "\<forall>x. length (hwSHA256 ex_world x) = 32" by (simp add: ex_world_def checksum_def)
  have "texts ex_world (dNodes (ex_hash_dag v)) ''arm64'' ''qemu'' None ''debian'' (ex_hashes v) =
    set (map (\<lambda>(n, nd). hash_text ex_world (ndUnit nd) ''arm64'' (ex_hashes v) [] ''debian'') (dNodes (ex_hash_dag v)))" for v
    by (simp add: texts_def ex_hash_dag_def unit_arch_def zero_unit_def)
  then show "inj_on (hwSHA256 ex_world)
      (texts ex_world (dNodes (ex_hash_dag ''1'')) ''arm64'' ''qemu'' None ''debian'' (ex_hashes ''1'') \<union>
       texts ex_world (dNodes (ex_hash_dag ''2'')) ''arm64'' ''qemu'' None ''debian'' (ex_hashes ''2''))"
    using ex_texts_distinct unfolding distinct_map by (simp add: ex_world_def)
  have "(''a'', ''b'') \<in> shared_edges (dNodes (ex_hash_dag ''1'')) (dNodes (ex_hash_dag ''2'')) None None ''debian''"
    by (simp add: shared_edges_def ex_hash_dag_def DepsForDistro_def zero_unit_def)
  then show "(''a'', ''b'') \<in> (shared_edges (dNodes (ex_hash_dag ''1'')) (dNodes (ex_hash_dag ''2'')) None None ''debian'')\<^sup>*" ..
qed (rule ex_b_change)

text \<open>
  C11. The hash does not depend on the iteration order of any map it reads: the environment,
  the extra arguments with the maps nested in them, the per-distro dependencies and the
  hashes of the dependencies.
\<close>

theorem UnitHash_deterministic:
  assumes "gm_ok (uEnvironment u)" "gm_ok (uDistroDeps u)" "gm_ok (uDistroRuntimeDeps u)" "gm_ok hs"
    and "mset env = mset (uEnvironment u)" and "mset dd = mset (uDistroDeps u)"
    and "mset dr = mset (uDistroRuntimeDeps u)" and "mset hs' = mset hs"
    and "canon (GMap e) = canon (GMap (uExtra u))"
  shows "UnitHash w (u\<lparr>uEnvironment := env, uDistroDeps := dd, uDistroRuntimeDeps := dr, uExtra := e\<rparr>) arch hs' src d =
    UnitHash w u arch hs src d"
proof -
  let ?v = "u\<lparr>uEnvironment := env, uDistroDeps := dd, uDistroRuntimeDeps := dr, uExtra := e\<rparr>"
  have get: "gm_get [] dd = gm_get [] (uDistroDeps u)" "gm_get [] dr = gm_get [] (uDistroRuntimeDeps u)"
    using gm_get_perm [of "uDistroDeps u" dd "[]"] gm_get_perm [of "uDistroRuntimeDeps u" dr "[]"] assms by simp_all
  have deps: "DepsForDistro ?v d = DepsForDistro u d" by (simp add: DepsForDistro_eq get)
  have "map_of hs' = map_of hs" using map_of_perm [of hs hs'] assms by simp
  then have "dep_line hs' = dep_line hs" by (simp add: dep_line_def fun_eq_iff)
  then have 1: "dep_lines ?v hs' d = dep_lines u hs d" by (simp add: dep_lines_def deps)
  have "extra_line w ?v = extra_line w (u\<lparr>uExtra := e\<rparr>)" by (simp add: extra_line_def)
  moreover have "hashStringMap ''environment'' env = hashStringMap ''environment'' (uEnvironment u)"
    using hashStringMap_perm [of "uEnvironment u" env] assms by simp
  ultimately have "config_lines w ?v d = config_lines w u d"
    using extra_line_order [OF assms(9)] by (simp add: config_lines_def distro_dep_lines_def get)
  then have "own_lines w ?v arch src d = own_lines w u arch src d"
    by (simp add: own_lines_def identity_lines_def source_lines_def)
  then show ?thesis using 1 by (simp add: UnitHash_def hash_text_def image_lines_def)
qed

theorem UnitHash_deterministic_witness:
  "UnitHash ex_world (zero_unit\<lparr>uEnvironment := [(''B'', ''2''), (''A'', ''1'')], uDistroDeps := [], uDistroRuntimeDeps := [],
     uExtra := []\<rparr>) ''arm64'' [] [] ''debian'' =
   UnitHash ex_world (zero_unit\<lparr>uEnvironment := [(''A'', ''1''), (''B'', ''2'')]\<rparr>) ''arm64'' [] [] ''debian''"
  using UnitHash_deterministic [of "zero_unit\<lparr>uEnvironment := [(''A'', ''1''), (''B'', ''2'')]\<rparr>" "[]"
      "[(''B'', ''2''), (''A'', ''1'')]" "[]" "[]" "[]" "[]" ex_world "''arm64''" "[]" "''debian''"]
  by (simp add: zero_unit_def add_mset_commute)

text \<open>
  Fields that must not invalidate caches do not: the hash ignores the distro tag, the
  module a unit comes from, its mirrors, the deb it passes through, its cache directories,
  the explicit artifact list, the machine markers, and the dependencies declared for other
  distros than the one hashed for.
\<close>

theorem UnitHash_neutral:
  assumes "d \<noteq> [] \<longrightarrow> gm_get [] dd d = gm_get [] (uDistroDeps u) d \<and> gm_get [] dr d = gm_get [] (uDistroRuntimeDeps u) d"
  shows "UnitHash w (u\<lparr>uDistroDeps := dd, uDistroRuntimeDeps := dr, uDistro := dist, uModule := m, uModuleIndex := i,
      uMirrors := mirrors, uPassthroughDeb := deb, uCacheDirs := dirs, uArtifactsExplicit := arts,
      uUnbuildableMachine := um, uMachineKernelDistros := ks\<rparr>) arch hs src d =
    UnitHash w u arch hs src d"
proof -
  let ?v = "u\<lparr>uDistroDeps := dd, uDistroRuntimeDeps := dr, uDistro := dist, uModule := m, uModuleIndex := i,
      uMirrors := mirrors, uPassthroughDeb := deb, uCacheDirs := dirs, uArtifactsExplicit := arts,
      uUnbuildableMachine := um, uMachineKernelDistros := ks\<rparr>"
  have deps: "DepsForDistro ?v d = DepsForDistro u d" using assms by (simp add: DepsForDistro_eq)
  have "config_lines w ?v d = config_lines w u d"
    using assms by (simp add: config_lines_def distro_dep_lines_def extra_line_def)
  then have "own_lines w ?v arch src d = own_lines w u arch src d"
    by (simp add: own_lines_def identity_lines_def source_lines_def)
  moreover have "dep_lines ?v hs d = dep_lines u hs d" by (simp only: dep_lines_def deps)
  ultimately show ?thesis by (simp add: UnitHash_def hash_text_def image_lines_def)
qed

theorem UnitHash_neutral_witness:
  "UnitHash ex_world (zero_unit\<lparr>uDistroDeps := [(''alpine'', [''musl''])], uDistroRuntimeDeps := [], uDistro := ''debian'',
      uModule := ''m'', uModuleIndex := 3, uMirrors := [], uPassthroughDeb := [], uCacheDirs := [], uArtifactsExplicit := [],
      uUnbuildableMachine := [], uMachineKernelDistros := []\<rparr>) ''arm64'' [] [] ''debian'' =
   UnitHash ex_world zero_unit ''arm64'' [] [] ''debian''"
  by (rule UnitHash_neutral) (simp add: zero_unit_def)

definition ex_toolchain :: "string \<Rightarrow> Project" where
  "ex_toolchain v = zero_project\<lparr>pUnitsByModule := [([], [
     (''app'', zero_unit\<lparr>uName := ''app'', uContainer := ''tc''\<rparr>),
     (''tc'', zero_unit\<lparr>uName := ''tc'', uClass := ''container'', uVersion := v\<rparr>)])]\<rparr>"

text \<open>Not every edge of the graph is hashed. A unit depends on the unit of its toolchain
  container, so that one is built first, but a change of the container unit leaves the hash
  of the unit as it is.
\<close>

theorem container_change_not_hashed:
  "\<exists>p p' g g'. BuildDAG p [] = Inr g \<and> BuildDAG p' [] = Inr g' \<and>
     (\<exists>nd. map_of (dNodes g) ''app'' = Some nd \<and> ''tc'' \<in> set (ndDeps nd)) \<and>
     map_option ndUnit (map_of (dNodes g) ''tc'') \<noteq> map_option ndUnit (map_of (dNodes g') ''tc'') \<and>
     (\<forall>w arch machine src. (\<exists>hs hs'. ComputeAllHashes w g arch machine src [] = Inr hs \<and>
        ComputeAllHashes w g' arch machine src [] = Inr hs' \<and> map_of hs ''app'' = map_of hs' ''app''))"
proof -
  define g where "g = (\<lambda>v. \<lparr>dNodes = [
     (''app'', \<lparr>ndUnit = zero_unit\<lparr>uName := ''app'', uContainer := ''tc''\<rparr>, ndDeps = [''tc''], ndRdeps = []\<rparr>),
     (''tc'', \<lparr>ndUnit = zero_unit\<lparr>uName := ''tc'', uClass := ''container'', uVersion := v\<rparr>, ndDeps = [], ndRdeps = [''app'']\<rparr>)],
     dOrder = Inr [], dSorted = False\<rparr>)"
  have build: "BuildDAG (ex_toolchain v) [] = Inr (g v)" for v
    by (simp add: g_def BuildDAG_def ex_toolchain_def dag_units_def AllUnits_def gm_has_def
      unit_node_def DepsForDistro_def RuntimeDepsForDistro_def appendContainerDeps_def ContainerRefsOf_def
      ResolveContainer_def appendRuntimeClosureOfDeps_def resolveDeps_def ResolveProvidesForDistro_def
      Let_def Contains_def HasPrefix_def zero_unit_def zero_project_def)
  have sort: "topologicalSort (dNodes (g v)) = Inr [''tc'', ''app'']" for v
    by (simp add: g_def topologicalSort_def kahn.simps)
  have run: "\<exists>hs. ComputeAllHashes w (g v) arch machine src [] = Inr hs \<and> map_of hs ''app'' =
      Some (node_hash w arch machine src [] [] (zero_unit\<lparr>uName := ''app'', uContainer := ''tc''\<rparr>))" for v w arch machine src
  proof -
    have "UnitHash w (zero_unit\<lparr>uName := ''app'', uContainer := ''tc''\<rparr>) a [(''tc'', h)] s [] =
      UnitHash w (zero_unit\<lparr>uName := ''app'', uContainer := ''tc''\<rparr>) a [] s []" for a h s
      by (rule UnitHash_cong) (simp add: DepsForDistro_def zero_unit_def)
    then show ?thesis
      by (simp add: ComputeAllHashes_def TopologicalSort_def g_def sort [unfolded g_def, simplified] Let_def node_hash_def cong: option.case_cong)
  qed
  have "map_option ndUnit (map_of (dNodes (g ''1'')) ''tc'') \<noteq> map_option ndUnit (map_of (dNodes (g ''2'')) ''tc'')"
    by (simp add: g_def zero_unit_def)
  moreover have "\<exists>nd. map_of (dNodes (g ''1'')) ''app'' = Some nd \<and> ''tc'' \<in> set (ndDeps nd)" by (simp add: g_def)
  ultimately show ?thesis using build run by metis
qed

end
