(* ===== verification/Arch.thy ===== *)
theory Arch
  imports Units
begin

text \<open>
  \<^verbatim>\<open>internal/arch/arch.go\<close>: the architecture tokens of yoe and their spellings elsewhere. The
  output of \<^verbatim>\<open>uname -m\<close> is a parameter, \<^const>\<open>None\<close> when the command fails.
\<close>

definition apkTokens :: "(string, string) gomap" where
  "apkTokens = [(''x86_64'', ''x86_64''), (''arm64'', ''aarch64''), (''riscv64'', ''riscv64'')]"

definition debTokens :: "(string, string) gomap" where
  "debTokens = [(''x86_64'', ''amd64''), (''arm64'', ''arm64''), (''riscv64'', ''riscv64'')]"

definition multiarchTuples :: "(string, string) gomap" where
  "multiarchTuples = [(''x86_64'', ''x86_64-linux-gnu''), (''arm64'', ''aarch64-linux-gnu''),
     (''riscv64'', ''riscv64-linux-gnu'')]"

definition Supported :: "string list" where
  "Supported = sort (gm_keys apkTokens)"

definition IsSupported :: "string \<Rightarrow> bool" where
  "IsSupported a = gm_has apkTokens a"

text \<open>The error message, or \<^const>\<open>None\<close> for a supported architecture.\<close>

definition Validate :: "string \<Rightarrow> string option" where
  "Validate a =
     (if IsSupported a then None
      else Some (''unsupported arch '' @ Quote a @ '' (supported: '' @ Join Supported '', '' @ '')''))"

definition Apk :: "string \<Rightarrow> string" where
  "Apk a = (case map_of apkTokens a of Some v \<Rightarrow> v | None \<Rightarrow> a)"

definition Deb :: "string \<Rightarrow> string" where
  "Deb a = (case map_of debTokens a of Some v \<Rightarrow> v | None \<Rightarrow> a)"

definition Multiarch :: "string \<Rightarrow> string" where
  "Multiarch a = gm_get [] multiarchTuples a"

definition Binfmt :: "string \<Rightarrow> string" where
  "Binfmt a = ''qemu-'' @ Apk a"

definition DebRepoArches :: "string list" where
  "DebRepoArches = [''amd64'', ''arm64'']"

definition Host :: "string option \<Rightarrow> string" where
  "Host uname =
     (case uname of
        None \<Rightarrow> ''x86_64''
      | Some out \<Rightarrow>
          (let a = TrimSpace out in
           if a = ''aarch64'' then ''arm64'' else if a = [] then ''x86_64'' else a))"

section \<open>The tables agree\<close>

text \<open>The architectures a machine may declare are those every table knows.\<close>

lemma IsSupported_iff: "IsSupported a \<longleftrightarrow> a \<in> validArchitectures"
  by (auto simp: IsSupported_def apkTokens_def validArchitectures_def gm_has_def)

lemma supported_tables:
  "IsSupported a \<longleftrightarrow> gm_has debTokens a" "IsSupported a \<longleftrightarrow> gm_has multiarchTuples a"
  by (auto simp: IsSupported_def apkTokens_def debTokens_def multiarchTuples_def gm_has_def)

lemma validArchitectures_cases:
  "a \<in> validArchitectures \<Longrightarrow> (a = ''x86_64'' \<Longrightarrow> P) \<Longrightarrow> (a = ''arm64'' \<Longrightarrow> P) \<Longrightarrow> (a = ''riscv64'' \<Longrightarrow> P) \<Longrightarrow> P"
  by (auto simp: validArchitectures_def)

lemma Apk_inj: "inj_on Apk validArchitectures"
  by (rule inj_onI) (auto simp: Apk_def apkTokens_def validArchitectures_def)

lemma Deb_inj: "inj_on Deb validArchitectures"
  by (rule inj_onI) (auto simp: Deb_def debTokens_def validArchitectures_def)

lemma Multiarch_Apk: "a \<in> validArchitectures \<Longrightarrow> Multiarch a = Apk a @ ''-linux-gnu''"
  by (erule validArchitectures_cases) (simp_all add: Multiarch_def Apk_def apkTokens_def multiarchTuples_def)

end
