(* ===== verification/SourceState.thy ===== *)
theory SourceState
  imports GoStrings Paths
begin

text \<open>
  \<^verbatim>\<open>internal/source/state.go\<close> and \<^verbatim>\<open>internal/source/hash.go\<close>: the state of a unit's source
  checkout and what it contributes to the unit's hash. The git commands and the file system
  are a record: \<open>None\<close> is a command that fails.
\<close>

section \<open>States\<close>

type_synonym State = string

definition StateEmpty :: State where "StateEmpty = ''''"
definition StatePin :: State where "StatePin = ''pin''"
definition StateDev :: State where "StateDev = ''dev''"
definition StateDevMod :: State where "StateDevMod = ''dev-mod''"
definition StateDevDirty :: State where "StateDevDirty = ''dev-dirty''"
definition StateLocal :: State where "StateLocal = ''local''"

lemmas state_defs = StateEmpty_def StatePin_def StateDev_def StateDevMod_def StateDevDirty_def StateLocal_def

definition IsDev :: "State \<Rightarrow> bool" where
  "IsDev s \<longleftrightarrow> s = StateDev \<or> s = StateDevMod \<or> s = StateDevDirty"

datatype stat_result = StatOk | StatNotExist | StatError

record GitWorld =
  gwStat :: "string \<Rightarrow> stat_result"
  gwGit :: "string \<Rightarrow> string list \<Rightarrow> string option"
  gwSHA256 :: "string \<Rightarrow> string"

section \<open>Detection\<close>

text \<open>The state and whether an error accompanies it.\<close>

definition DetectState :: "GitWorld \<Rightarrow> string \<Rightarrow> State \<Rightarrow> State \<times> bool" where
  "DetectState w srcDir cached =
     (case gwStat w (PathJoin [srcDir, ''.git'']) of
        StatNotExist \<Rightarrow> (StateEmpty, False)
      | StatError \<Rightarrow> (StateEmpty, True)
      | StatOk \<Rightarrow>
          (case gwGit w srcDir [''status'', ''--porcelain''] of
             None \<Rightarrow> (StateDev, True)
           | Some dirty \<Rightarrow>
               if TrimSpace dirty \<noteq> [] then (StateDevDirty, False)
               else (case gwGit w srcDir [''rev-list'', ''--count'', ''yoe/pin..HEAD''] of
                  None \<Rightarrow> (StateDev, True)
                | Some ahead \<Rightarrow>
                    if TrimSpace ahead \<noteq> ''0'' then (StateDevMod, False)
                    else if cached = StatePin then (StatePin, False)
                    else if cached = StateDev then (StateDev, False)
                    else if TrimSpace (case gwGit w srcDir [''remote'', ''get-url'', ''origin''] of
                                         None \<Rightarrow> [] | Some remote \<Rightarrow> remote) = []
                    then (StatePin, False)
                    else (StateDev, False))))"

section \<open>The contribution to the hash\<close>

fun trim_rev :: "string \<Rightarrow> string" where
  "trim_rev [] = []"
| "trim_rev (c # cs) = (if c \<in> {CHR 0x0A, CHR 0x0D, CHR '' '', CHR 0x09} then trim_rev cs else c # cs)"

definition trim :: "string \<Rightarrow> string" where
  "trim s = rev (trim_rev (rev s))"

definition SrcHashInputs :: "GitWorld \<Rightarrow> string \<Rightarrow> State \<Rightarrow> string" where
  "SrcHashInputs w srcDir state =
     (if \<not> IsDev state then []
      else case gwGit w srcDir [''rev-parse'', ''HEAD''] of
        None \<Rightarrow> []
      | Some head \<Rightarrow>
          (let headSha = trim head in
           if state = StateDevDirty then
             (case gwGit w srcDir [''diff'', ''HEAD''] of
                None \<Rightarrow> ''head:'' @ headSha
              | Some diff \<Rightarrow>
                  (let porcelain = (case gwGit w srcDir [''status'', ''--porcelain''] of None \<Rightarrow> [] | Some p \<Rightarrow> p);
                       sum = gwSHA256 w (diff @ [CHR 0x00] @ porcelain)
                   in ''head:'' @ headSha @ '':dirty:'' @ hex (take 8 sum)))
           else ''head:'' @ headSha))"

definition SrcDescribe :: "GitWorld \<Rightarrow> string \<Rightarrow> string" where
  "SrcDescribe w srcDir =
     (case gwGit w srcDir [''describe'', ''--dirty'', ''--always'', ''--tags''] of
        None \<Rightarrow> []
      | Some out \<Rightarrow> trim out)"

section \<open>What detection and hashing guarantee\<close>

lemma trim_rev_split: "\<exists>ws. s = ws @ trim_rev s \<and> set ws \<subseteq> {CHR 0x0A, CHR 0x0D, CHR '' '', CHR 0x09}"
proof (induction s)
  case (Cons c s)
  then obtain ws where ws: "s = ws @ trim_rev s" "set ws \<subseteq> {CHR 0x0A, CHR 0x0D, CHR '' '', CHR 0x09}" by blast
  show ?case
  proof (cases "c \<in> {CHR 0x0A, CHR 0x0D, CHR '' '', CHR 0x09}")
    case True
    with ws have "c # s = (c # ws) @ trim_rev (c # s)" "set (c # ws) \<subseteq> {CHR 0x0A, CHR 0x0D, CHR '' '', CHR 0x09}" by auto
    then show ?thesis by blast
  next
    case False
    then have "c # s = [] @ trim_rev (c # s)" by simp
    then show ?thesis by (intro exI [of _ "[]"]) simp
  qed
qed simp

lemma DetectState_range:
  "fst (DetectState w dir cached) \<in> {StateEmpty, StatePin, StateDev, StateDevMod, StateDevDirty}"
  by (auto simp: DetectState_def split: stat_result.split option.split)

text \<open>A checkout that is not in dev mode contributes nothing.\<close>

lemma SrcHashInputs_neutral: "\<not> IsDev s \<Longrightarrow> SrcHashInputs w dir s = []"
  by (simp add: SrcHashInputs_def)

lemma IsDev_simps [simp]:
  "IsDev StateDev" "IsDev StateDevMod" "IsDev StateDevDirty" "\<not> IsDev StatePin" "\<not> IsDev StateEmpty" "\<not> IsDev StateLocal"
  by (simp_all add: IsDev_def state_defs)

end
