(* ===== verification/Plan.thy ===== *)
theory Plan
  imports Arch SourceState Hash
begin

text \<open>
  The planning half of \<^verbatim>\<open>internal/build/executor.go\<close>, with the paths of \<^verbatim>\<open>sandbox.go\<close> and
  \<^verbatim>\<open>internal/repo/local.go\<close> and the build record of \<^verbatim>\<open>meta.go\<close>: what is built, in which
  order, and what is served from the cache. Theory Schedule runs the plan.
\<close>

section \<open>Paths\<close>

definition ScopeDir :: "Unit \<Rightarrow> string \<Rightarrow> name \<Rightarrow> string" where
  "ScopeDir u arch machine =
     (if uScope u = ''machine'' then machine
      else if uScope u = ''noarch'' then ''noarch''
      else arch)"

definition RepoArchDir :: "Unit \<Rightarrow> string \<Rightarrow> string" where
  "RepoArchDir u a = (if uScope u = ''noarch'' then ''noarch'' else Apk a)"

text \<open>An empty distro is the panic \<^const>\<open>None\<close> of the two functions.\<close>

definition UnitBuildDir :: "string \<Rightarrow> string \<Rightarrow> name \<Rightarrow> name \<Rightarrow> string option" where
  "UnitBuildDir projectDir scopeDir unitName distro =
     (if distro = [] then None
      else Some (PathJoin [projectDir, ''build'', distro, unitName @ ''.'' @ scopeDir]))"

definition RepoDir :: "Project \<Rightarrow> string \<Rightarrow> string" where
  "RepoDir proj projectDir =
     (if pName proj \<noteq> [] then PathJoin [projectDir, ''repo'', pName proj]
      else PathJoin [projectDir, ''repo''])"

definition RepoDistroDir :: "Project \<Rightarrow> string \<Rightarrow> name \<Rightarrow> string option" where
  "RepoDistroDir proj projectDir distro =
     (if distro = [] then None else Some (PathJoin [RepoDir proj projectDir, distro]))"

section \<open>The build record\<close>

record BuildMeta =
  bmStatus :: string
  bmHash :: string
  bmError :: string
  bmSourceState :: State
  bmSourceDescribe :: string

text \<open>
  The disk as the planner sees it: the parsed \<^verbatim>\<open>build.json\<close> of a directory, whether a file
  exists, and whether a glob pattern has a match.
\<close>

record BuildWorld =
  bwMeta :: "string \<Rightarrow> BuildMeta option"
  bwExists :: "string \<Rightarrow> bool"
  bwGlob :: "string \<Rightarrow> string list"
  bwGit :: GitWorld

definition initBuildMeta :: "BuildWorld \<Rightarrow> string \<Rightarrow> string \<Rightarrow> BuildMeta" where
  "initBuildMeta w buildDir hash =
     (let meta = \<lparr>bmStatus = ''building'', bmHash = hash, bmError = [], bmSourceState = [], bmSourceDescribe = []\<rparr> in
      case bwMeta w buildDir of
        None \<Rightarrow> meta
      | Some prev \<Rightarrow> meta\<lparr>bmSourceState := bmSourceState prev, bmSourceDescribe := bmSourceDescribe prev\<rparr>)"

definition finalizeSourceState :: "BuildWorld \<Rightarrow> string \<Rightarrow> State \<Rightarrow> State" where
  "finalizeSourceState w srcDir cached =
     (if gwStat (bwGit w) (PathJoin [srcDir, ''.git'']) \<noteq> StatOk then StateEmpty
      else if IsDev cached then StateDev
      else if cached = StatePin then StatePin
      else StateEmpty)"

text \<open>The record that \<^verbatim>\<open>buildOne\<close> leaves when it returns.\<close>

definition finishBuildMeta :: "BuildWorld \<Rightarrow> string \<Rightarrow> BuildMeta \<Rightarrow> bool \<Rightarrow> string option \<Rightarrow> BuildMeta" where
  "finishBuildMeta w buildDir meta cancelled buildErr =
     (let cachedState = (if bmSourceState meta = StateEmpty then StatePin else bmSourceState meta);
          nxt = finalizeSourceState w (PathJoin [buildDir, ''src'']) cachedState;
          meta1 = (if nxt \<noteq> StateEmpty then meta\<lparr>bmSourceState := nxt\<rparr> else meta);
          meta2 = (if IsDev (bmSourceState meta1)
                   then meta1\<lparr>bmSourceDescribe := SrcDescribe (bwGit w) (PathJoin [buildDir, ''src''])\<rparr> else meta1)
      in if cancelled then meta2\<lparr>bmStatus := ''cancelled''\<rparr>
         else case buildErr of
           Some err \<Rightarrow> meta2\<lparr>bmStatus := ''failed'', bmError := err\<rparr>
         | None \<Rightarrow> meta2\<lparr>bmStatus := ''complete''\<rparr>)"

definition IsBuildCached :: "BuildWorld \<Rightarrow> string \<Rightarrow> string \<Rightarrow> name \<Rightarrow> string \<Rightarrow> name \<Rightarrow> bool option" where
  "IsBuildCached w projectDir arch name hash distro =
     (case UnitBuildDir projectDir arch name distro of
        None \<Rightarrow> None
      | Some dir \<Rightarrow>
          Some (case bwMeta w dir of
                  None \<Rightarrow> False
                | Some meta \<Rightarrow> bmStatus meta = ''complete'' \<and> bmHash meta = hash))"

definition IsBuildInProgress :: "BuildWorld \<Rightarrow> string \<Rightarrow> string \<Rightarrow> name \<Rightarrow> name \<Rightarrow> bool option" where
  "IsBuildInProgress w projectDir arch name distro =
     (case UnitBuildDir projectDir arch name distro of
        None \<Rightarrow> None
      | Some dir \<Rightarrow>
          Some (case bwMeta w dir of None \<Rightarrow> False | Some meta \<Rightarrow> bmStatus meta = ''building''))"

text \<open>The package a unit publishes must still be in the repository.\<close>

definition package_published :: "BuildWorld \<Rightarrow> string \<Rightarrow> Unit \<Rightarrow> string \<Rightarrow> name \<Rightarrow> bool" where
  "package_published w repoBase u a distro =
     (if IsAptFamily distro then
        (let base = Base (uPassthroughDeb u);
             debName = (if base = ''.'' \<or> base = [] then uName u @ ''_'' @ uVersion u @ ''_'' @ Deb a @ ''.deb'' else base)
         in bwGlob w (PathJoin [repoBase, ''pool'', ''*'', ''*'', ''*'', debName]) \<noteq> [])
      else
        (let apkName = uName u @ ''-'' @ uVersion u @ ''-r'' @ Itoa (uRelease u) @ ''.apk''
         in bwExists w (PathJoin [repoBase, RepoArchDir u a, apkName]) \<or>
            bwExists w (PathJoin [repoBase, ''noarch'', apkName])))"

definition CacheValid ::
  "BuildWorld \<Rightarrow> Project \<Rightarrow> string \<Rightarrow> Unit \<Rightarrow> string \<Rightarrow> string \<Rightarrow> string \<Rightarrow> name \<Rightarrow> bool option" where
  "CacheValid w proj projectDir u scopeDir a hash distro =
     (case IsBuildCached w projectDir scopeDir (uName u) hash distro of
        None \<Rightarrow> None
      | Some False \<Rightarrow> Some False
      | Some True \<Rightarrow>
          if uClass u = ''image'' \<or> uClass u = ''container'' then Some True
          else (case RepoDistroDir proj projectDir distro of
                  None \<Rightarrow> None
                | Some repoBase \<Rightarrow> Some (package_published w repoBase u a distro)))"

section \<open>Plans\<close>

record Options =
  opForce :: bool
  opClean :: bool
  opNoCache :: bool
  opProjectDir :: string
  opArch :: string
  opMachine :: name
  opParallel :: int
  opEffectiveDistro :: name

record unitPlan =
  plUnit :: Unit
  plHash :: string
  plScopeDir :: string
  plCached :: bool
  plForced :: bool
  plNoCache :: bool

definition reuseCache :: "unitPlan \<Rightarrow> bool" where
  "reuseCache p \<longleftrightarrow> plCached p \<and> \<not> plForced p \<and> \<not> plNoCache p"

datatype PlanError =
    PlanDag DagError
  | PlanDistro DistroError
  | NotBuildableTarget string
  | UnknownUnit name
  | PlanPanic name

definition plan_unit ::
  "BuildWorld \<Rightarrow> Project \<Rightarrow> (name, string) gomap \<Rightarrow> Options \<Rightarrow> name list \<Rightarrow> name \<Rightarrow> PlanError + unitPlan" where
  "plan_unit w proj hashes opts requested name =
     (case LookupUnit proj (opEffectiveDistro opts) name of
        None \<Rightarrow> Inl (PlanPanic name)
      | Some u \<Rightarrow>
          (let sd = ScopeDir u (opArch opts) (opMachine opts);
               hash = gm_get [] hashes name
           in case CacheValid w proj (opProjectDir opts) u sd (opArch opts) hash (opEffectiveDistro opts) of
                None \<Rightarrow> Inl (PlanPanic name)
              | Some cached \<Rightarrow>
                  Inr \<lparr>plUnit = u, plHash = hash, plScopeDir = sd, plCached = cached,
                    plForced = ((opForce opts \<or> opClean opts) \<and> (requested = [] \<or> name \<in> set requested)),
                    plNoCache = opNoCache opts\<rparr>))"

fun planUnits ::
  "BuildWorld \<Rightarrow> Project \<Rightarrow> name list \<Rightarrow> (name, string) gomap \<Rightarrow> Options \<Rightarrow> name list \<Rightarrow>
   (name, unitPlan) gomap \<Rightarrow> PlanError + (name, unitPlan) gomap" where
  "planUnits w proj [] hashes opts requested plans = Inr plans"
| "planUnits w proj (name # order) hashes opts requested plans =
     (case plan_unit w proj hashes opts requested name of
        Inl err \<Rightarrow> Inl err
      | Inr p \<Rightarrow> planUnits w proj order hashes opts requested (gm_put name p plans))"

section \<open>The build order\<close>

fun needed_units :: "nodes \<Rightarrow> name list \<Rightarrow> name list \<Rightarrow> PlanError + name list" where
  "needed_units ns [] needed = Inr needed"
| "needed_units ns (name # names) needed =
     (if \<not> gm_has ns name then Inl (UnknownUnit name)
      else (let deps = (case DepsOf ns name of Inl _ \<Rightarrow> [] | Inr ds \<Rightarrow> ds)
            in needed_units ns names (name # deps @ needed)))"

definition filterBuildOrder :: "nodes \<Rightarrow> name list \<Rightarrow> name list \<Rightarrow> PlanError + name list" where
  "filterBuildOrder ns fullOrder names =
     (case needed_units ns names [] of
        Inl err \<Rightarrow> Inl err
      | Inr needed \<Rightarrow> Inr (filter (\<lambda>n. n \<in> set needed) fullOrder))"

definition skipUnbuildable :: "Project \<Rightarrow> name \<Rightarrow> name list \<Rightarrow> name list" where
  "skipUnbuildable proj effectiveDistro order =
     filter (\<lambda>n. \<not> NotBuildable (LookupUnit proj effectiveDistro n)) order"

definition blockedUnits :: "nodes \<Rightarrow> name \<Rightarrow> name list \<Rightarrow> name list" where
  "blockedUnits ns failed order =
     (case RdepsOf ns failed of
        Inl _ \<Rightarrow> []
      | Inr rdeps \<Rightarrow> filter (\<lambda>n. n \<in> set rdeps) order)"

section \<open>Containers and packages\<close>

definition containerImageFor :: "string option \<Rightarrow> Project \<Rightarrow> Unit \<Rightarrow> string \<Rightarrow> string \<Rightarrow> name \<Rightarrow> string" where
  "containerImageFor uname proj unit ref targetArch effectiveDistro =
     (let r = ResolveContainer proj (Some unit) ref effectiveDistro in
      case crUnit r of
        None \<Rightarrow> crName r
      | Some u \<Rightarrow>
          if crName r = [] \<or> crExternal r then crName r
          else (let imageArch = (if uContainerArch unit = ''host'' then Host uname else targetArch)
                in ''yoe/'' @ crName r @ '':'' @ uVersion u @ ''-'' @ imageArch))"

definition debProvides :: "name list \<Rightarrow> string \<Rightarrow> string" where
  "debProvides provides version =
     Join (map (\<lambda>p. if Contains p ''('' then p else p @ '' (= '' @ version @ '')'')
             (filter (\<lambda>p. p \<noteq> []) (map TrimSpace provides))) '', ''"

text \<open>The callback that \<^verbatim>\<open>BuildUnits\<close> hands to the hash pass.\<close>

definition SrcInputsFn :: "BuildWorld \<Rightarrow> string \<Rightarrow> string \<Rightarrow> name \<Rightarrow> name \<Rightarrow> Unit \<Rightarrow> string option" where
  "SrcInputsFn w projectDir arch machine distro u =
     (case UnitBuildDir projectDir (ScopeDir u arch machine) (uName u) distro of
        None \<Rightarrow> None
      | Some buildDir \<Rightarrow>
          (let persisted = (case bwMeta w buildDir of None \<Rightarrow> StateEmpty | Some meta \<Rightarrow> bmSourceState meta) in
           if \<not> IsDev persisted then Some []
           else (let srcDir = PathJoin [buildDir, ''src''];
                     live = fst (DetectState (bwGit w) srcDir persisted);
                     liveState = (if \<not> IsDev live then persisted else live)
                 in Some (SrcHashInputs (bwGit w) srcDir liveState))))"

section \<open>From the project to the plan\<close>

text \<open>
  \<^verbatim>\<open>BuildUnits\<close> up to the point where workers start: the graph, the build order and the plans.
  A panic of \<^const>\<open>SrcInputsFn\<close> cannot happen here, the distro is not empty.
\<close>

definition prepare_distro :: "Project \<Rightarrow> Options \<Rightarrow> PlanError + name" where
  "prepare_distro proj opts =
     (if opEffectiveDistro opts \<noteq> [] then Inr (opEffectiveDistro opts)
      else (case EffectiveDistro proj of Inl err \<Rightarrow> Inl (PlanDistro err) | Inr d \<Rightarrow> Inr d))"

definition unbuildable_target :: "Project \<Rightarrow> name \<Rightarrow> name list \<Rightarrow> name option" where
  "unbuildable_target proj d names = List.find (\<lambda>n. NotBuildable (LookupUnit proj d n)) names"

definition prepare_order ::
  "Project \<Rightarrow> name list \<Rightarrow> name \<Rightarrow> DAG \<Rightarrow> name list \<Rightarrow> PlanError + name list" where
  "prepare_order proj names d g order =
     (case (if names \<noteq> [] then filterBuildOrder (dNodes g) order names else Inr order) of
        Inl err \<Rightarrow> Inl err
      | Inr kept \<Rightarrow> Inr (skipUnbuildable proj d kept))"

definition prepare_build ::
  "BuildWorld \<Rightarrow> HashWorld \<Rightarrow> Project \<Rightarrow> name list \<Rightarrow> Options \<Rightarrow>
   PlanError + DAG \<times> name list \<times> (name, unitPlan) gomap" where
  "prepare_build w hw proj names opts0 =
     (case prepare_distro proj opts0 of
        Inl err \<Rightarrow> Inl err
      | Inr d \<Rightarrow>
          (let opts = opts0\<lparr>opEffectiveDistro := d\<rparr> in
           case BuildDAG proj d of
             Inl err \<Rightarrow> Inl (PlanDag err)
           | Inr g0 \<Rightarrow>
               (case TopologicalSort g0 of
                  (Inl err, _) \<Rightarrow> Inl (PlanDag err)
                | (Inr order, g) \<Rightarrow>
                    (case unbuildable_target proj d names of
                       Some n \<Rightarrow> Inl (NotBuildableTarget (UnbuildableReason (LookupUnit proj d n)))
                     | None \<Rightarrow>
                         (let src = (\<lambda>u. case SrcInputsFn w (opProjectDir opts) (opArch opts) (opMachine opts) d u of
                                           None \<Rightarrow> [] | Some s \<Rightarrow> s) in
                          case ComputeAllHashes hw g (opArch opts) (opMachine opts) (Some src) d of
                            Inl err \<Rightarrow> Inl (PlanDag err)
                          | Inr hashes \<Rightarrow>
                              (case prepare_order proj names d g order of
                                 Inl err \<Rightarrow> Inl err
                               | Inr kept \<Rightarrow>
                                   (case planUnits w proj kept hashes opts names [] of
                                      Inl err \<Rightarrow> Inl err
                                    | Inr plans \<Rightarrow> Inr (g, kept, plans))))))))"

end
