(* ===== verification/Schedule.thy ===== *)
theory Schedule
  imports Plan
begin

text \<open>
  The scheduling half of \<^verbatim>\<open>BuildUnits\<close> in \<^verbatim>\<open>internal/build/executor.go\<close>: one worker per unit,
  started when the unit's dependencies have finished, a semaphore that bounds how many
  work at a time, and a mutex around the shared state. Every critical section of the code
  is one step, so the step relation has all interleavings of the workers. What a build does
  is left open: it may succeed or fail.
\<close>

section \<open>State\<close>

record build_cfg =
  bcOrder :: "name list"
  bcNodes :: nodes
  bcPlans :: "(name, unitPlan) gomap"
  bcParallel :: nat

text \<open>
  Where the worker of a unit is: waiting for the semaphore; holding it; past the critical
  section that reads \<^verbatim>\<open>rebuilt\<close> (with what it read); in \<^verbatim>\<open>buildOne\<close>; returned after marking the
  unit finished; returned early.
\<close>

datatype phase = Waiting | Admitted | Decided bool | Building | Finished | Quit

datatype BuildError = Cancelled | BuildFailed name

text \<open>
  The variables of \<^verbatim>\<open>BuildUnits\<close>; \<^verbatim>\<open>started\<close> is the domain of \<open>scPhase\<close>. The package pool and
  the package index are what the workers change on disk.
\<close>

record sched =
  scIndeg :: degrees
  scPhase :: "(name, phase) gomap"
  scRebuilt :: "name list"
  scPublishedPkg :: bool
  scImageRefreshed :: bool
  scFirstErr :: "BuildError option"
  scStop :: bool
  scCancelled :: bool
  scProgress :: nat
  scPool :: "name list"
  scIndex :: "name list"

definition DefaultParallel :: nat where
  "DefaultParallel = 5"

definition parallel_of :: "Options \<Rightarrow> nat" where
  "parallel_of opts = (if opParallel opts \<le> 0 then DefaultParallel else nat (opParallel opts))"

definition node_deps :: "build_cfg \<Rightarrow> name \<Rightarrow> name list" where
  "node_deps c n = succs (deps_graph (bcNodes c)) n"

definition node_rdeps :: "build_cfg \<Rightarrow> name \<Rightarrow> name list" where
  "node_rdeps c n = succs (rdeps_graph (bcNodes c)) n"

definition plan_of :: "build_cfg \<Rightarrow> name \<Rightarrow> unitPlan option" where
  "plan_of c n = map_of (bcPlans c) n"

definition reuses :: "build_cfg \<Rightarrow> name \<Rightarrow> bool" where
  "reuses c n \<longleftrightarrow> (case plan_of c n of None \<Rightarrow> False | Some p \<Rightarrow> reuseCache p)"

definition unit_class :: "build_cfg \<Rightarrow> name \<Rightarrow> string" where
  "unit_class c n = (case plan_of c n of None \<Rightarrow> [] | Some p \<Rightarrow> uClass (plUnit p))"

section \<open>Steps\<close>

definition initial_indeg :: "build_cfg \<Rightarrow> degrees" where
  "initial_indeg c =
     map (\<lambda>n. (n, int (length (filter (\<lambda>d. d \<in> set (bcOrder c)) (node_deps c n))))) (bcOrder c)"

definition launch_one :: "name \<Rightarrow> sched \<Rightarrow> sched" where
  "launch_one n s =
     (if \<not> gm_has (scPhase s) n \<and> gm_get 0 (scIndeg s) n = 0
      then s\<lparr>scPhase := gm_put n Waiting (scPhase s)\<rparr> else s)"

definition launchReady :: "build_cfg \<Rightarrow> sched \<Rightarrow> sched" where
  "launchReady c s = (if scStop s then s else fold launch_one (bcOrder c) s)"

definition start_state :: "build_cfg \<Rightarrow> name list \<Rightarrow> sched" where
  "start_state c pool = launchReady c
     \<lparr>scIndeg = initial_indeg c, scPhase = [], scRebuilt = [], scPublishedPkg = False, scImageRefreshed = False,
      scFirstErr = None, scStop = False, scCancelled = False, scProgress = 0, scPool = pool, scIndex = pool\<rparr>"

definition set_phase :: "name \<Rightarrow> phase \<Rightarrow> sched \<Rightarrow> sched" where
  "set_phase n p s = s\<lparr>scPhase := gm_put n p (scPhase s)\<rparr>"

fun holds_slot :: "phase \<Rightarrow> bool" where
  "holds_slot Admitted = True"
| "holds_slot (Decided b) = True"
| "holds_slot Building = True"
| "holds_slot Waiting = False"
| "holds_slot Finished = False"
| "holds_slot Quit = False"

definition running :: "sched \<Rightarrow> nat" where
  "running s = length (filter (\<lambda>(n, p). holds_slot p) (scPhase s))"

definition fail :: "BuildError \<Rightarrow> sched \<Rightarrow> sched" where
  "fail err s =
     s\<lparr>scFirstErr := (case scFirstErr s of None \<Rightarrow> Some err | Some e \<Rightarrow> Some e), scStop := True\<rparr>"

text \<open>The decrements of \<^verbatim>\<open>for _, rd := range dag.Nodes[name].Rdeps\<close>.\<close>

definition release_rdeps :: "build_cfg \<Rightarrow> name \<Rightarrow> degrees \<Rightarrow> degrees" where
  "release_rdeps c n deg =
     fold (\<lambda>rd deg. if rd \<in> set (bcOrder c) then gm_put rd (gm_get 0 deg rd - 1) deg else deg) (node_rdeps c n) deg"

definition mark_built :: "build_cfg \<Rightarrow> name \<Rightarrow> sched \<Rightarrow> sched" where
  "mark_built c n s =
     (let s' = s\<lparr>scRebuilt := n # scRebuilt s\<rparr> in
      if unit_class c n = ''image'' then s'\<lparr>scImageRefreshed := True\<rparr>
      else if unit_class c n = ''container'' then s'
      else s'\<lparr>scPublishedPkg := True\<rparr>)"

definition finish :: "build_cfg \<Rightarrow> name \<Rightarrow> bool \<Rightarrow> sched \<Rightarrow> sched" where
  "finish c n built s =
     (let s1 = (if built then mark_built c n s else s);
          s2 = s1\<lparr>scIndeg := release_rdeps c n (scIndeg s1)\<rparr>
      in launchReady c (set_phase n Finished s2))"

text \<open>
  What \<^verbatim>\<open>buildOne\<close> does to the repository: an image regenerates the index before it is
  assembled, a package is copied into the pool.
\<close>

definition begin_build :: "build_cfg \<Rightarrow> name \<Rightarrow> sched \<Rightarrow> sched" where
  "begin_build c n s = (if unit_class c n = ''image'' then s\<lparr>scIndex := scPool s\<rparr> else s)"

definition end_build :: "build_cfg \<Rightarrow> name \<Rightarrow> sched \<Rightarrow> sched" where
  "end_build c n s =
     (if unit_class c n \<noteq> ''image'' \<and> unit_class c n \<noteq> ''container'' then s\<lparr>scPool := n # scPool s\<rparr> else s)"

inductive step :: "build_cfg \<Rightarrow> sched \<Rightarrow> sched \<Rightarrow> bool" for c :: build_cfg where
  admit: "map_of (scPhase s) n = Some Waiting \<Longrightarrow> running s < bcParallel c \<Longrightarrow>
    step c s (set_phase n Admitted s)"
| quit: "map_of (scPhase s) n = Some Admitted \<Longrightarrow> scStop s \<Longrightarrow> step c s (set_phase n Quit s)"
| decide: "map_of (scPhase s) n = Some Admitted \<Longrightarrow> \<not> scStop s \<Longrightarrow>
    step c s (set_phase n (Decided (list_ex (\<lambda>d. d \<in> set (scRebuilt s)) (node_deps c n))) s)"
| give_up: "map_of (scPhase s) n = Some (Decided b) \<Longrightarrow> scCancelled s \<Longrightarrow>
    step c s (set_phase n Quit (fail Cancelled s))"
| serve: "map_of (scPhase s) n = Some (Decided False) \<Longrightarrow> \<not> scCancelled s \<Longrightarrow> reuses c n \<Longrightarrow>
    step c s (finish c n False (s\<lparr>scProgress := Suc (scProgress s)\<rparr>))"
| build: "map_of (scPhase s) n = Some (Decided b) \<Longrightarrow> \<not> scCancelled s \<Longrightarrow> \<not> (reuses c n \<and> \<not> b) \<Longrightarrow>
    step c s (begin_build c n (set_phase n Building (s\<lparr>scProgress := Suc (scProgress s)\<rparr>)))"
| build_ok: "map_of (scPhase s) n = Some Building \<Longrightarrow> step c s (finish c n True (end_build c n s))"
| build_failed: "map_of (scPhase s) n = Some Building \<Longrightarrow> step c s (set_phase n Quit (fail (BuildFailed n) s))"
| cancel: "\<not> scCancelled s \<Longrightarrow> step c s (s\<lparr>scCancelled := True\<rparr>)"

inductive_cases stepE: "step c s s'"

inductive reachable :: "build_cfg \<Rightarrow> name list \<Rightarrow> sched \<Rightarrow> bool" for c :: build_cfg and pool :: "name list" where
  start: "reachable c pool (start_state c pool)"
| more: "reachable c pool s \<Longrightarrow> step c s s' \<Longrightarrow> reachable c pool s'"

text \<open>
  The end of \<^verbatim>\<open>BuildUnits\<close>: \<^verbatim>\<open>wg.Wait()\<close> returns once every worker has returned, then the error
  is reported or the index refreshed.
\<close>

definition all_returned :: "sched \<Rightarrow> bool" where
  "all_returned s \<longleftrightarrow> (\<forall>(n, p) \<in> set (scPhase s). p = Finished \<or> p = Quit)"

definition end_of_build :: "sched \<Rightarrow> BuildError + sched" where
  "end_of_build s =
     (case scFirstErr s of
        Some err \<Rightarrow> Inl err
      | None \<Rightarrow> Inr (if scPublishedPkg s \<and> \<not> scImageRefreshed s then s\<lparr>scIndex := scPool s\<rparr> else s))"

section \<open>Well-formed configurations\<close>

definition build_ok :: "build_cfg \<Rightarrow> bool" where
  "build_ok c \<longleftrightarrow> dag_ok (bcNodes c) \<and> acyclic (edges (deps_graph (bcNodes c))) \<and>
     distinct (bcOrder c) \<and> set (bcOrder c) \<subseteq> set (gm_keys (bcNodes c)) \<and> 0 < bcParallel c"

text \<open>The dependencies of a unit that are part of this build.\<close>

definition build_deps :: "build_cfg \<Rightarrow> name \<Rightarrow> name set" where
  "build_deps c n = set (node_deps c n) \<inter> set (bcOrder c)"

definition finished :: "sched \<Rightarrow> name set" where
  "finished s = {n. map_of (scPhase s) n = Some Finished}"

lemma build_deps_finite [simp]: "finite (build_deps c n)"
  by (simp add: build_deps_def)

lemma build_deps_distinct:
  assumes "build_ok c"
  shows "length (filter (\<lambda>d. d \<in> set (bcOrder c)) (node_deps c n)) = card (build_deps c n)"
proof -
  have "distinct (node_deps c n)"
    using assms dag_okD(1) [of "bcNodes c" n] unfolding build_ok_def node_deps_def succs_def gm_get_def
    by (cases "map_of (bcNodes c) n") auto
  then have "distinct (filter (\<lambda>d. d \<in> set (bcOrder c)) (node_deps c n))" by simp
  moreover have "set (filter (\<lambda>d. d \<in> set (bcOrder c)) (node_deps c n)) = build_deps c n"
    by (auto simp: build_deps_def)
  ultimately show ?thesis using distinct_card by metis
qed

lemma rdeps_iff:
  assumes "build_ok c" and "n \<in> set (bcOrder c)"
  shows "distinct (node_rdeps c n)" "m \<in> set (node_rdeps c n) \<longleftrightarrow> n \<in> set (node_deps c m)"
proof -
  have ok: "dag_ok (bcNodes c)" and mem: "n \<in> set (gm_keys (bcNodes c))"
    using assms by (auto simp: build_ok_def)
  then obtain nd where nd: "map_of (bcNodes c) n = Some nd" using map_of_key_Some by metis
  then show "distinct (node_rdeps c n)" "m \<in> set (node_rdeps c n) \<longleftrightarrow> n \<in> set (node_deps c m)"
    using dag_okD [OF ok nd] unfolding node_rdeps_def node_deps_def by (simp_all add: succs_def gm_get_def)
qed

lemma build_deps_acyclic:
  assumes "build_ok c"
  shows "n \<notin> build_deps c n"
proof
  assume "n \<in> build_deps c n"
  then have "(n, n) \<in> edges (deps_graph (bcNodes c))"
    unfolding build_deps_def node_deps_def edges_iff by simp
  then show False using assms unfolding build_ok_def acyclic_def by blast
qed

section \<open>The invariant\<close>

text \<open>
  The counters count the unfinished dependencies; started units have none; a unit that is
  rebuilt is finished; a decision reflects the rebuilt dependencies; a unit that was not
  rebuilt was cached and none of its dependencies was rebuilt; no error without a stop.
\<close>

definition sched_pre :: "build_cfg \<Rightarrow> sched \<Rightarrow> bool" where
  "sched_pre c s \<longleftrightarrow>
     gm_ok (scPhase s) \<and> set (gm_keys (scPhase s)) \<subseteq> set (bcOrder c) \<and>
     (\<forall>n \<in> set (bcOrder c). gm_get 0 (scIndeg s) n = int (card (build_deps c n - finished s))) \<and>
     (\<forall>n. gm_has (scPhase s) n \<longrightarrow> build_deps c n \<subseteq> finished s) \<and>
     set (scRebuilt s) \<subseteq> finished s \<and>
     (\<forall>n b. map_of (scPhase s) n = Some (Decided b) \<longrightarrow> (b \<longleftrightarrow> build_deps c n \<inter> set (scRebuilt s) \<noteq> {})) \<and>
     (\<forall>n \<in> finished s - set (scRebuilt s). reuses c n \<and> build_deps c n \<inter> set (scRebuilt s) = {}) \<and>
     running s \<le> bcParallel c \<and>
     (if scStop s then scFirstErr s \<noteq> None
      else scFirstErr s = None \<and> (\<forall>n. map_of (scPhase s) n \<noteq> Some Quit))"

text \<open>Unless the build stops, every unit whose dependencies have finished is started.\<close>

definition sched_inv :: "build_cfg \<Rightarrow> sched \<Rightarrow> bool" where
  "sched_inv c s \<longleftrightarrow> sched_pre c s \<and>
     (\<not> scStop s \<longrightarrow> (\<forall>n \<in> set (bcOrder c). build_deps c n \<subseteq> finished s \<longrightarrow> gm_has (scPhase s) n))"

lemma sched_preD:
  assumes "sched_pre c s"
  shows "gm_ok (scPhase s)" "set (gm_keys (scPhase s)) \<subseteq> set (bcOrder c)"
    "n \<in> set (bcOrder c) \<Longrightarrow> gm_get 0 (scIndeg s) n = int (card (build_deps c n - finished s))"
    "gm_has (scPhase s) n \<Longrightarrow> build_deps c n \<subseteq> finished s"
    "set (scRebuilt s) \<subseteq> finished s"
    "map_of (scPhase s) n = Some (Decided b) \<Longrightarrow> b \<longleftrightarrow> build_deps c n \<inter> set (scRebuilt s) \<noteq> {}"
    "n \<in> finished s \<Longrightarrow> n \<notin> set (scRebuilt s) \<Longrightarrow> reuses c n \<and> build_deps c n \<inter> set (scRebuilt s) = {}"
    "running s \<le> bcParallel c"
    "scStop s \<Longrightarrow> scFirstErr s \<noteq> None"
    "\<not> scStop s \<Longrightarrow> scFirstErr s = None"
    "\<not> scStop s \<Longrightarrow> map_of (scPhase s) n \<noteq> Some Quit"
  using assms unfolding sched_pre_def by (simp_all split: if_splits del: set_map)

lemma sched_invD:
  assumes "sched_inv c s"
  shows "sched_pre c s"
    "\<not> scStop s \<Longrightarrow> n \<in> set (bcOrder c) \<Longrightarrow> build_deps c n \<subseteq> finished s \<Longrightarrow> gm_has (scPhase s) n"
  using assms unfolding sched_inv_def by simp_all

text \<open>Phases change by point updates.\<close>

lemma set_phase_simps [simp]:
  "scPhase (set_phase n p s) = gm_put n p (scPhase s)" "scIndeg (set_phase n p s) = scIndeg s"
  "scRebuilt (set_phase n p s) = scRebuilt s" "scFirstErr (set_phase n p s) = scFirstErr s"
  "scStop (set_phase n p s) = scStop s" "scCancelled (set_phase n p s) = scCancelled s"
  "scPublishedPkg (set_phase n p s) = scPublishedPkg s" "scImageRefreshed (set_phase n p s) = scImageRefreshed s"
  "scPool (set_phase n p s) = scPool s" "scIndex (set_phase n p s) = scIndex s"
  by (simp_all add: set_phase_def)

lemma finished_set_phase:
  "finished (set_phase n p s) = (if p = Finished then insert n (finished s) else finished s - {n})"
  by (auto simp: finished_def)

lemma running_put:
  assumes "gm_ok m" and "map_of m n = Some q"
  shows "length (filter (\<lambda>(n, p). holds_slot p) (gm_put n p m)) + (if holds_slot q then 1 else 0) =
     length (filter (\<lambda>(n, p). holds_slot p) m) + (if holds_slot p then 1 else 0)"
  using assms
proof (induction m)
  case (Cons kv m)
  obtain k v where kv: "kv = (k, v)" by (cases kv)
  show ?case
  proof (cases "k = n")
    case True
    with Cons.prems kv show ?thesis by simp
  next
    case False
    with Cons kv show ?thesis by simp
  qed
qed simp

lemma running_set_phase:
  "gm_ok (scPhase s) \<Longrightarrow> map_of (scPhase s) n = Some q \<Longrightarrow>
   running (set_phase n p s) + (if holds_slot q then 1 else 0) = running s + (if holds_slot p then 1 else 0)"
  unfolding running_def set_phase_simps by (rule running_put)

text \<open>A worker that moves on without finishing keeps the invariant.\<close>

lemma sched_inv_move:
  assumes inv: "sched_inv c s" and n: "map_of (scPhase s) n = Some q" and q: "q \<noteq> Finished" and p: "p \<noteq> Finished"
    and slot: "holds_slot p \<Longrightarrow> holds_slot q \<or> running s < bcParallel c"
    and quit: "p = Quit \<Longrightarrow> scStop s"
    and dec: "\<And>b. p = Decided b \<Longrightarrow> b \<longleftrightarrow> build_deps c n \<inter> set (scRebuilt s) \<noteq> {}"
  shows "sched_inv c (set_phase n p s)"
proof -
  note pre = sched_invD(1) [OF inv]
  have fin: "finished (set_phase n p s) = finished s"
    using n q p unfolding finished_set_phase by (auto simp: finished_def)
  have has: "gm_has (gm_put n p (scPhase s)) m \<longleftrightarrow> gm_has (scPhase s) m" for m
    using map_of_Some_key [OF n] by (auto simp: gm_has_iff simp del: set_map)
  have "running (set_phase n p s) \<le> bcParallel c"
    using running_set_phase [OF sched_preD(1) [OF pre] n, of p] sched_preD(8) [OF pre] slot
    by (auto split: if_splits)
  moreover have "set (gm_keys (gm_put n p (scPhase s))) \<subseteq> set (bcOrder c)"
    using sched_preD(2) [OF pre] map_of_Some_key [OF n] unfolding set_keys_put by blast
  ultimately show ?thesis
    using inv dec quit unfolding sched_inv_def sched_pre_def fin set_phase_simps has by (auto simp del: set_map split: if_splits)
qed

section \<open>Launching\<close>

lemma launch_frame: "\<exists>ps. fold launch_one xs s = s\<lparr>scPhase := ps\<rparr>"
proof (induction xs arbitrary: s)
  case (Cons x xs)
  have "launch_one x s = s\<lparr>scPhase := scPhase (launch_one x s)\<rparr>" by (simp add: launch_one_def)
  then obtain ps where "launch_one x s = s\<lparr>scPhase := ps\<rparr>" by blast
  with Cons.IH [of "launch_one x s"] show ?case by auto
next
  case Nil
  have "fold launch_one [] s = s\<lparr>scPhase := scPhase s\<rparr>" by simp
  then show ?case by blast
qed

lemma launch_fold:
  "gm_ok (scPhase s) \<Longrightarrow> gm_ok (scPhase (fold launch_one xs s))"
  "running (fold launch_one xs s) = running s"
  "map_of (scPhase (fold launch_one xs s)) m =
     (if \<not> gm_has (scPhase s) m \<and> m \<in> set xs \<and> gm_get 0 (scIndeg s) m = 0 then Some Waiting else map_of (scPhase s) m)"
proof -
  have new: "running (s\<lparr>scPhase := gm_put n Waiting (scPhase s)\<rparr>) = running s" if "\<not> gm_has (scPhase s) n" for n s
  proof -
    have "length (filter (\<lambda>(n, p). holds_slot p) (gm_put n Waiting ps)) = length (filter (\<lambda>(n, p). holds_slot p) ps)"
      if "\<not> gm_has ps n" for ps
      using that by (induction ps) (auto simp: gm_has_def split: if_splits)
    then show ?thesis using that by (simp add: running_def)
  qed
  show "running (fold launch_one xs s) = running s"
    by (induction xs arbitrary: s) (auto simp: launch_one_def new)
  show "map_of (scPhase (fold launch_one xs s)) m =
      (if \<not> gm_has (scPhase s) m \<and> m \<in> set xs \<and> gm_get 0 (scIndeg s) m = 0 then Some Waiting else map_of (scPhase s) m)"
    by (induction xs arbitrary: s) (auto simp: launch_one_def gm_has_def)
  show "gm_ok (scPhase s) \<Longrightarrow> gm_ok (scPhase (fold launch_one xs s))"
    by (induction xs arbitrary: s) (auto simp: launch_one_def simp del: set_map)
qed

lemma launchReady_simps [simp]:
  "scIndeg (launchReady c s) = scIndeg s" "scRebuilt (launchReady c s) = scRebuilt s"
  "scFirstErr (launchReady c s) = scFirstErr s" "scStop (launchReady c s) = scStop s"
  "scCancelled (launchReady c s) = scCancelled s" "scPool (launchReady c s) = scPool s"
  "scIndex (launchReady c s) = scIndex s" "scPublishedPkg (launchReady c s) = scPublishedPkg s"
  "scImageRefreshed (launchReady c s) = scImageRefreshed s" "running (launchReady c s) = running s"
  "gm_ok (scPhase s) \<Longrightarrow> gm_ok (scPhase (launchReady c s))"
  using launch_frame [of "bcOrder c" s] launch_fold(1,2) [where s = s and xs = "bcOrder c"] unfolding launchReady_def by auto

lemma launchReady_phase:
  "map_of (scPhase (launchReady c s)) m =
     (if \<not> scStop s \<and> \<not> gm_has (scPhase s) m \<and> m \<in> set (bcOrder c) \<and> gm_get 0 (scIndeg s) m = 0
      then Some Waiting else map_of (scPhase s) m)"
  unfolding launchReady_def by (simp add: launch_fold(3))

lemma finished_launchReady [simp]: "finished (launchReady c s) = finished s"
  by (auto simp: finished_def launchReady_phase gm_has_def split: if_splits)

lemma launchReady_inv:
  assumes pre: "sched_pre c s"
  shows "sched_inv c (launchReady c s)"
proof -
  let ?s = "launchReady c s"
  have has: "gm_has (scPhase ?s) m \<longleftrightarrow> gm_has (scPhase s) m \<or>
      (\<not> scStop s \<and> m \<in> set (bcOrder c) \<and> gm_get 0 (scIndeg s) m = 0)" for m
    by (auto simp: gm_has_def launchReady_phase)
  have zero: "gm_get 0 (scIndeg s) m = 0 \<longleftrightarrow> build_deps c m \<subseteq> finished s" if "m \<in> set (bcOrder c)" for m
    using sched_preD(3) [OF pre that] by simp
  have "set (gm_keys (scPhase ?s)) \<subseteq> set (bcOrder c)"
    using has sched_preD(2) [OF pre] unfolding gm_has_iff by blast
  moreover have "build_deps c m \<subseteq> finished s" if "gm_has (scPhase ?s) m" for m
    using that zero sched_preD(4) [OF pre] unfolding has by blast
  moreover have "map_of (scPhase s) m = Some (Decided b)" if "map_of (scPhase ?s) m = Some (Decided b)" for m b
    using that by (auto simp: launchReady_phase split: if_splits)
  moreover have "map_of (scPhase ?s) m \<noteq> Some Quit" if "\<not> scStop s" for m
    using sched_preD(11) [OF pre that] by (auto simp: launchReady_phase)
  ultimately have "sched_pre c ?s"
    using pre unfolding sched_pre_def by (simp del: set_map split: if_splits)
  moreover have "gm_has (scPhase ?s) m" if "\<not> scStop s" "m \<in> set (bcOrder c)" "build_deps c m \<subseteq> finished s" for m
    using that zero unfolding has by blast
  ultimately show ?thesis unfolding sched_inv_def by simp
qed

lemma start_inv: "build_ok c \<Longrightarrow> sched_inv c (start_state c pool)"
  unfolding start_state_def
proof (rule launchReady_inv)
  assume ok: "build_ok c"
  let ?s = "\<lparr>scIndeg = initial_indeg c, scPhase = [], scRebuilt = [], scPublishedPkg = False, scImageRefreshed = False,
      scFirstErr = None, scStop = False, scCancelled = False, scProgress = 0, scPool = pool, scIndex = pool\<rparr>"
  have "gm_get 0 (initial_indeg c) n = int (card (build_deps c n))" if "n \<in> set (bcOrder c)" for n
  proof -
    have "map_of (map (\<lambda>n. (n, f n)) xs) n = Some (f n)" if "n \<in> set xs" for xs and f :: "name \<Rightarrow> int"
      using that by (induction xs) auto
    then show ?thesis using that build_deps_distinct [OF ok] by (simp add: initial_indeg_def gm_get_def)
  qed
  then show "sched_pre c ?s" unfolding sched_pre_def by (simp add: finished_def running_def gm_has_def)
qed

section \<open>Finishing\<close>

lemma release_rdeps_get:
  assumes "distinct (node_rdeps c n)" and "m \<in> set (bcOrder c)"
  shows "gm_get 0 (release_rdeps c n deg) m = gm_get 0 deg m - (if m \<in> set (node_rdeps c n) then 1 else 0)"
proof -
  let ?f = "\<lambda>rd deg. if rd \<in> set (bcOrder c) then gm_put rd (gm_get 0 deg rd - 1) deg else deg"
  have "gm_get 0 (fold ?f rs deg) m = gm_get 0 deg m - (if m \<in> set rs then 1 else 0)" if "distinct rs" for rs
    using that assms(2) by (induction rs arbitrary: deg) auto
  then show ?thesis using assms(1) by (simp add: release_rdeps_def)
qed

lemma card_diff_insert:
  assumes "finite A" and "n \<notin> F"
  shows "int (card (A - insert n F)) = int (card (A - F)) - (if n \<in> A then 1 else 0)"
proof (cases "n \<in> A")
  case True
  then have split: "A - F = insert n (A - insert n F)" using assms(2) by blast
  have "card (A - F) = Suc (card (A - insert n F))"
    unfolding split using assms(1) by (intro card_insert_disjoint) auto
  with True show ?thesis by simp
next
  case False
  then have "A - insert n F = A - F" by blast
  with False show ?thesis by simp
qed

lemma finished_sub: "sched_pre c s \<Longrightarrow> finished s \<subseteq> set (bcOrder c)"
proof
  fix n
  assume pre: "sched_pre c s" and "n \<in> finished s"
  then have "map_of (scPhase s) n = Some Finished" by (simp add: finished_def)
  from subsetD [OF sched_preD(2) [OF pre] map_of_Some_key [OF this]] show "n \<in> set (bcOrder c)" .
qed

lemma mark_built_simps [simp]:
  "scPhase (mark_built c n s) = scPhase s" "scIndeg (mark_built c n s) = scIndeg s"
  "scRebuilt (mark_built c n s) = n # scRebuilt s" "scFirstErr (mark_built c n s) = scFirstErr s"
  "scStop (mark_built c n s) = scStop s" "scPool (mark_built c n s) = scPool s" "scIndex (mark_built c n s) = scIndex s"
  "scCancelled (mark_built c n s) = scCancelled s"
  by (simp_all add: mark_built_def Let_def)

lemma finish_inv:
  assumes ok: "build_ok c" and inv: "sched_inv c s" and n: "map_of (scPhase s) n = Some q"
    and q: "q = Building \<and> built \<or> q = Decided False \<and> \<not> built \<and> reuses c n"
  shows "sched_inv c (finish c n built s)"
proof -
  let ?s1 = "if built then mark_built c n s else s"
  let ?s2 = "set_phase n Finished (?s1\<lparr>scIndeg := release_rdeps c n (scIndeg ?s1)\<rparr>)"
  note pre = sched_invD(1) [OF inv]
  have order: "n \<in> set (bcOrder c)" using map_of_Some_key [OF n] sched_preD(2) [OF pre] by blast
  have ph: "scPhase ?s2 = gm_put n Finished (scPhase s)" by simp
  have fin: "finished ?s2 = insert n (finished s)" unfolding finished_def ph by auto
  have notin: "n \<notin> finished s" using n q by (auto simp: finished_def)
  have started: "gm_has (scPhase s) n" using map_of_Some_key [OF n] unfolding gm_has_iff .
  have free: "n \<notin> build_deps c m" if "gm_has (scPhase s) m" for m
    using sched_preD(4) [OF pre that] notin by blast
  have finfree: "n \<notin> build_deps c m" if "m \<in> finished s" for m
    using that by (intro free) (auto simp: finished_def gm_has_def)
  have keys: "set (gm_keys (scPhase ?s2)) \<subseteq> set (bcOrder c)"
    using sched_preD(2) [OF pre] order by (simp del: set_map)
  have indeg: "gm_get 0 (scIndeg ?s2) m = int (card (build_deps c m - finished ?s2))" if m: "m \<in> set (bcOrder c)" for m
  proof -
    have "n \<in> build_deps c m \<longleftrightarrow> m \<in> set (node_rdeps c n)"
      using rdeps_iff(2) [OF ok order] order by (simp add: build_deps_def)
    then have "int (card (build_deps c m - finished ?s2)) =
        int (card (build_deps c m - finished s)) - (if m \<in> set (node_rdeps c n) then 1 else 0)"
      unfolding fin using card_diff_insert [OF build_deps_finite notin, of c m] by simp
    then show ?thesis
      using release_rdeps_get [OF rdeps_iff(1) [OF ok order] m] sched_preD(3) [OF pre m] by simp
  qed
  have has: "build_deps c m \<subseteq> finished ?s2" if "gm_has (scPhase ?s2) m" for m
    using that sched_preD(4) [OF pre, of m] sched_preD(4) [OF pre started] unfolding fin ph gm_has_put by blast
  have reb: "set (scRebuilt ?s2) \<subseteq> finished ?s2"
    using sched_preD(5) [OF pre] unfolding fin by auto
  have dec: "b \<longleftrightarrow> build_deps c m \<inter> set (scRebuilt ?s2) \<noteq> {}" if "map_of (scPhase ?s2) m = Some (Decided b)" for m b
  proof -
    have "map_of (scPhase s) m = Some (Decided b)" using that by (simp split: if_splits)
    moreover from this have "n \<notin> build_deps c m" by (intro free) (simp add: gm_has_def)
    ultimately show ?thesis using sched_preD(6) [OF pre] by auto
  qed
  have cached: "reuses c m \<and> build_deps c m \<inter> set (scRebuilt ?s2) = {}"
    if m: "m \<in> finished ?s2" "m \<notin> set (scRebuilt ?s2)" for m
  proof (cases "m = n")
    case True
    with m(2) q have "q = Decided False" "\<not> built" "reuses c n" by (auto split: if_splits)
    moreover from this have "build_deps c n \<inter> set (scRebuilt s) = {}" using sched_preD(6) [OF pre, of n False] n by simp
    ultimately show ?thesis using True by simp
  next
    case False
    then have fm: "m \<in> finished s" using m(1) unfolding fin by simp
    then show ?thesis using sched_preD(7) [OF pre fm] finfree [OF fm] m(2) by (auto split: if_splits)
  qed
  have run: "running ?s2 \<le> bcParallel c"
  proof -
    have "running ?s2 = running (set_phase n Finished s)" by (simp add: running_def)
    then show ?thesis using running_set_phase [OF sched_preD(1) [OF pre] n, of Finished] sched_preD(8) [OF pre] by (auto split: if_splits)
  qed
  have err: "if scStop ?s2 then scFirstErr ?s2 \<noteq> None
      else scFirstErr ?s2 = None \<and> (\<forall>m. map_of (scPhase ?s2) m \<noteq> Some Quit)"
    using sched_preD(9,10,11) [OF pre] by auto
  have "gm_ok (scPhase ?s2)" using sched_preD(1) [OF pre] by simp
  then have "sched_pre c ?s2"
    unfolding sched_pre_def using keys indeg has reb dec cached run err by blast
  then have "sched_inv c (launchReady c ?s2)" by (rule launchReady_inv)
  then show ?thesis unfolding finish_def Let_def .
qed

lemma sched_inv_frame:
  assumes inv: "sched_inv c s"
    and same: "scPhase s' = scPhase s" "scIndeg s' = scIndeg s" "scRebuilt s' = scRebuilt s"
      "scFirstErr s' = scFirstErr s" "scStop s' = scStop s"
  shows "sched_inv c s'"
proof -
  have eq: "finished s' = finished s" "running s' = running s" by (simp_all only: finished_def running_def same)
  show ?thesis using inv unfolding sched_inv_def sched_pre_def same eq .
qed

lemma fail_inv:
  assumes inv: "sched_inv c s"
  shows "sched_inv c (fail err s)"
proof -
  have same: "finished (fail err s) = finished s" "running (fail err s) = running s" "scPhase (fail err s) = scPhase s"
    "scIndeg (fail err s) = scIndeg s" "scRebuilt (fail err s) = scRebuilt s"
    by (simp_all add: finished_def running_def fail_def)
  have err: "scStop (fail err s)" "scFirstErr (fail err s) \<noteq> None" by (simp_all add: fail_def split: option.split)
  show ?thesis using inv err unfolding sched_inv_def sched_pre_def same by simp
qed

lemma step_inv:
  assumes ok: "build_ok c" and step: "step c s s'" and inv: "sched_inv c s"
  shows "sched_inv c s'"
  using step
proof cases
  case (admit n)
  then show ?thesis using sched_inv_move [OF inv, of n Waiting Admitted] by simp
next
  case (quit n)
  then show ?thesis using sched_inv_move [OF inv, of n Admitted Quit] by simp
next
  case (decide n)
  have "list_ex (\<lambda>d. d \<in> set (scRebuilt s)) (node_deps c n) \<longleftrightarrow> build_deps c n \<inter> set (scRebuilt s) \<noteq> {}"
  proof -
    have "set (scRebuilt s) \<subseteq> set (bcOrder c)"
      using sched_preD(5) [OF sched_invD(1) [OF inv]] finished_sub [OF sched_invD(1) [OF inv]] by blast
    then show ?thesis by (auto simp: list_ex_iff build_deps_def)
  qed
  then show ?thesis unfolding decide(1) by (intro sched_inv_move [OF inv decide(2)]) auto
next
  case (give_up n b)
  have "scPhase (fail Cancelled s) = scPhase s" "scStop (fail Cancelled s)" by (simp_all add: fail_def)
  then show ?thesis using give_up sched_inv_move [OF fail_inv [OF inv, of Cancelled], of n "Decided b" Quit] by simp
next
  case (serve n)
  have "sched_inv c (s\<lparr>scProgress := Suc (scProgress s)\<rparr>)" by (rule sched_inv_frame [OF inv]) simp_all
  from finish_inv [OF ok this, of n "Decided False" False] serve show ?thesis by simp
next
  case (build n b)
  have "sched_inv c (s\<lparr>scProgress := Suc (scProgress s)\<rparr>)" by (rule sched_inv_frame [OF inv]) simp_all
  from sched_inv_move [OF this, of n "Decided b" Building] build
  have "sched_inv c (set_phase n Building (s\<lparr>scProgress := Suc (scProgress s)\<rparr>))" by simp
  then show ?thesis unfolding build(1) by (rule sched_inv_frame) (simp_all add: begin_build_def)
next
  case (build_ok n)
  have "sched_inv c (end_build c n s)" by (rule sched_inv_frame [OF inv]) (simp_all add: end_build_def)
  from finish_inv [OF ok this, of n Building True] build_ok show ?thesis by (simp add: end_build_def)
next
  case (build_failed n)
  have "scPhase (fail (BuildFailed n) s) = scPhase s" "scStop (fail (BuildFailed n) s)" by (simp_all add: fail_def)
  then show ?thesis using build_failed sched_inv_move [OF fail_inv [OF inv, of "BuildFailed n"], of n Building Quit] by simp
next
  case cancel
  then show ?thesis using sched_inv_frame [OF inv] by simp
qed

lemma reachable_inv: "reachable c pool s \<Longrightarrow> build_ok c \<Longrightarrow> sched_inv c s"
  by (induction rule: reachable.induct) (auto intro: start_inv step_inv)

section \<open>What is rebuilt\<close>

text \<open>
  The specification of a build: units finish one at a time, each after its dependencies; a
  unit is taken from the cache when it may be and none of its dependencies was rebuilt.
\<close>

inductive spec_step :: "build_cfg \<Rightarrow> name set \<times> name set \<Rightarrow> name set \<times> name set \<Rightarrow> bool" for c :: build_cfg where
  keep: "n \<in> set (bcOrder c) \<Longrightarrow> n \<notin> F \<Longrightarrow> build_deps c n \<subseteq> F \<Longrightarrow> reuses c n \<Longrightarrow> build_deps c n \<inter> B = {} \<Longrightarrow>
    spec_step c (F, B) (insert n F, B)"
| rebuild: "n \<in> set (bcOrder c) \<Longrightarrow> n \<notin> F \<Longrightarrow> build_deps c n \<subseteq> F \<Longrightarrow> \<not> reuses c n \<or> build_deps c n \<inter> B \<noteq> {} \<Longrightarrow>
    spec_step c (F, B) (insert n F, insert n B)"

definition abs_state :: "sched \<Rightarrow> name set \<times> name set" where
  "abs_state s = (finished s, set (scRebuilt s))"

inductive must_rebuild :: "build_cfg \<Rightarrow> name \<Rightarrow> bool" for c :: build_cfg where
  stale: "\<not> reuses c n \<Longrightarrow> must_rebuild c n"
| dep: "d \<in> build_deps c n \<Longrightarrow> must_rebuild c d \<Longrightarrow> must_rebuild c n"

text \<open>A build in progress has a reason.\<close>

definition reasons :: "build_cfg \<Rightarrow> sched \<Rightarrow> bool" where
  "reasons c s \<longleftrightarrow> (\<forall>n. map_of (scPhase s) n = Some Building \<or> n \<in> set (scRebuilt s) \<longrightarrow>
     \<not> reuses c n \<or> build_deps c n \<inter> set (scRebuilt s) \<noteq> {})"

lemma reasons_frame:
  assumes "reasons c s" and "set (scRebuilt s) \<subseteq> set (scRebuilt s')"
    and "\<And>n. map_of (scPhase s') n = Some Building \<or> n \<in> set (scRebuilt s') \<Longrightarrow>
      map_of (scPhase s) n = Some Building \<or> n \<in> set (scRebuilt s) \<or> \<not> reuses c n \<or> build_deps c n \<inter> set (scRebuilt s) \<noteq> {}"
  shows "reasons c s'"
  using assms unfolding reasons_def by blast

lemma finish_phase:
  "map_of (scPhase (finish c n built s)) m = Some Building \<Longrightarrow> map_of (scPhase s) m = Some Building \<and> m \<noteq> n"
  by (auto simp: finish_def Let_def launchReady_phase split: if_splits)

lemma finish_rebuilt: "scRebuilt (finish c n built s) = (if built then n # scRebuilt s else scRebuilt s)"
  by (simp add: finish_def Let_def)

lemma finish_finished: "finished (finish c n built s) = insert n (finished s)"
  unfolding finish_def Let_def finished_launchReady finished_set_phase by (auto simp: finished_def)

lemma step_reasons:
  assumes "step c s s'" and "sched_inv c s" and "reasons c s"
  shows "reasons c s'"
  using assms(1)
proof cases
  case (admit n)
  show ?thesis unfolding admit(1) by (rule reasons_frame [OF assms(3)]) (auto split: if_splits)
next
  case (quit n)
  show ?thesis unfolding quit(1) by (rule reasons_frame [OF assms(3)]) (auto split: if_splits)
next
  case (decide n)
  show ?thesis unfolding decide(1) by (rule reasons_frame [OF assms(3)]) (auto split: if_splits)
next
  case (give_up n b)
  show ?thesis unfolding give_up(1) by (rule reasons_frame [OF assms(3)]) (auto simp: fail_def split: if_splits)
next
  case (serve n)
  show ?thesis unfolding serve(1)
    by (rule reasons_frame [OF assms(3)]) (auto simp: finish_rebuilt dest: finish_phase)
next
  case (build n b)
  have "\<not> reuses c n \<or> build_deps c n \<inter> set (scRebuilt s) \<noteq> {}"
    using build sched_preD(6) [OF sched_invD(1) [OF assms(2)], of n b] by blast
  then show ?thesis unfolding build(1)
    by (intro reasons_frame [OF assms(3)]) (auto simp: begin_build_def split: if_splits)
next
  case (build_ok n)
  show ?thesis unfolding build_ok(1)
    by (rule reasons_frame [OF assms(3)]) (use build_ok(2) in \<open>auto simp: finish_rebuilt end_build_def dest: finish_phase split: if_splits\<close>)
next
  case (build_failed n)
  show ?thesis unfolding build_failed(1) by (rule reasons_frame [OF assms(3)]) (auto simp: fail_def split: if_splits)
next
  case cancel
  show ?thesis unfolding cancel(1) by (rule reasons_frame [OF assms(3)]) auto
qed

lemma reachable_reasons: "reachable c pool s \<Longrightarrow> build_ok c \<Longrightarrow> reasons c s"
proof (induction rule: reachable.induct)
  case start
  have "map_of (scPhase (start_state c pool)) n \<noteq> Some Building" for n
    by (simp add: start_state_def launchReady_phase)
  then show ?case by (simp add: reasons_def start_state_def)
next
  case (more s s')
  then show ?case using step_reasons reachable_inv by blast
qed

lemma finite_edges: "finite (edges g)"
proof (rule finite_subset)
  show "edges g \<subseteq> (\<Union>(n, ds) \<in> set g. {n} \<times> set ds)"
  proof
    fix e
    assume "e \<in> edges g"
    then obtain a b where e: "e = (a, b)" and b: "b \<in> set (succs g a)" by (cases e) (auto simp: edges_iff)
    then obtain ds where "map_of g a = Some ds" "b \<in> set ds"
      by (cases "map_of g a") (auto simp: succs_def gm_get_def)
    with e show "e \<in> (\<Union>(n, ds) \<in> set g. {n} \<times> set ds)" using map_of_SomeD by fastforce
  qed
qed auto

section \<open>Progress\<close>

fun rank :: "phase option \<Rightarrow> nat" where
  "rank None = 6"
| "rank (Some Waiting) = 5"
| "rank (Some Admitted) = 4"
| "rank (Some (Decided b)) = 3"
| "rank (Some Building) = 2"
| "rank (Some Finished) = 0"
| "rank (Some Quit) = 0"

definition work_left :: "build_cfg \<Rightarrow> sched \<Rightarrow> nat" where
  "work_left c s = (\<Sum>n \<in> set (bcOrder c). rank (map_of (scPhase s) n)) + (if scCancelled s then 0 else 1)"

lemma work_left_less:
  assumes inv: "sched_inv c s" and n: "map_of (scPhase s) n = Some q"
    and less: "rank (map_of (scPhase s') n) < rank (Some q)"
    and le: "\<And>m. rank (map_of (scPhase s') m) \<le> rank (map_of (scPhase s) m)" and canc: "scCancelled s' = scCancelled s"
  shows "work_left c s' < work_left c s"
proof -
  have "n \<in> set (bcOrder c)"
    by (rule subsetD [OF sched_preD(2) [OF sched_invD(1) [OF inv]] map_of_Some_key [OF n]])
  then have "(\<Sum>n \<in> set (bcOrder c). rank (map_of (scPhase s') n)) < (\<Sum>n \<in> set (bcOrder c). rank (map_of (scPhase s) n))"
    using less le n by (intro sum_strict_mono_ex1) (auto intro!: bexI [of _ n])
  then show ?thesis unfolding work_left_def canc by simp
qed

lemma finish_rank:
  "rank (map_of (scPhase (finish c n built s)) m) \<le> rank (map_of (scPhase s) m)"
  "map_of (scPhase (finish c n built s)) n = Some Finished" "scCancelled (finish c n built s) = scCancelled s"
  by (auto simp: finish_def Let_def launchReady_phase gm_has_def split: option.splits)

lemma step_work_left:
  assumes "step c s s'" and inv: "sched_inv c s"
  shows "work_left c s' < work_left c s"
  using assms(1)
proof cases
  case (admit n)
  then show ?thesis by (intro work_left_less [OF inv admit(2)]) auto
next
  case (quit n)
  then show ?thesis by (intro work_left_less [OF inv quit(2)]) auto
next
  case (decide n)
  then show ?thesis by (intro work_left_less [OF inv decide(2)]) auto
next
  case (give_up n b)
  then show ?thesis by (intro work_left_less [OF inv give_up(2)]) (auto simp: fail_def)
next
  case (serve n)
  show ?thesis unfolding serve(1)
    using finish_rank(1) [of c n False "s\<lparr>scProgress := Suc (scProgress s)\<rparr>"]
    by (intro work_left_less [OF inv serve(2)]) (simp_all add: finish_rank(2,3))
next
  case (build n b)
  then show ?thesis by (intro work_left_less [OF inv build(2)]) (auto simp: begin_build_def)
next
  case (build_ok n)
  have "scPhase (end_build c n s) = scPhase s" "scCancelled (end_build c n s) = scCancelled s" by (simp_all add: end_build_def)
  then show ?thesis unfolding build_ok(1)
    using finish_rank(1) [of c n True "end_build c n s"]
    by (intro work_left_less [OF inv build_ok(2)]) (simp_all add: finish_rank(2,3))
next
  case (build_failed n)
  then show ?thesis by (intro work_left_less [OF inv build_failed(2)]) (auto simp: fail_def)
next
  case cancel
  then show ?thesis by (simp add: work_left_def)
qed

lemma running_zero: "running s = 0 \<longleftrightarrow> (\<forall>(n, p) \<in> set (scPhase s). \<not> holds_slot p)"
  by (auto simp: running_def filter_empty_conv)

text \<open>Until every worker has returned, one of them can move.\<close>

lemma worker_moves:
  assumes ok: "build_ok c" and inv: "sched_inv c s" and "\<not> all_returned s"
  shows "\<exists>s'. step c s s' \<and> scCancelled s' = scCancelled s"
proof -
  have dist: "gm_ok (scPhase s)" using sched_preD(1) [OF sched_invD(1) [OF inv]] .
  obtain n p where np: "(n, p) \<in> set (scPhase s)" "p \<noteq> Finished" "p \<noteq> Quit"
    using assms(3) unfolding all_returned_def by auto
  have lookup: "map_of (scPhase s) m = Some q" if "(m, q) \<in> set (scPhase s)" for m q
    using map_of_is_SomeI [OF dist that] .
  have move: "\<exists>s'. step c s s' \<and> scCancelled s' = scCancelled s" if "(m, q) \<in> set (scPhase s)" "holds_slot q" for m q
  proof (cases q)
    case Admitted
    note m = lookup [OF that(1), unfolded Admitted]
    show ?thesis
    proof (cases "scStop s")
      case True
      then show ?thesis using step.quit [OF m] by (metis set_phase_simps(6))
    next
      case False
      then show ?thesis using step.decide [OF m] by (metis set_phase_simps(6))
    qed
  next
    case (Decided b)
    note m = lookup [OF that(1), unfolded Decided]
    show ?thesis
    proof (cases "scCancelled s")
      case True
      have "scCancelled (set_phase m Quit (fail Cancelled s)) = scCancelled s" by (simp add: fail_def)
      with step.give_up [OF m True] show ?thesis by blast
    next
      case False
      show ?thesis
      proof (cases "reuses c m \<and> \<not> b")
        case True
        then have "map_of (scPhase s) m = Some (Decided False)" using m by simp
        from step.serve [OF this False] True show ?thesis using finish_rank(3) by fastforce
      next
        case build: False
        have "scCancelled (begin_build c m (set_phase m Building (s\<lparr>scProgress := Suc (scProgress s)\<rparr>))) = scCancelled s"
          by (simp add: begin_build_def)
        with step.build [OF m False build] show ?thesis by blast
      qed
    qed
  next
    case Building
    have "scCancelled (finish c m True (end_build c m s)) = scCancelled s" by (simp add: finish_rank(3) end_build_def)
    with step.build_ok [OF lookup [OF that(1), unfolded Building]] show ?thesis by blast
  qed (use that(2) in simp_all)
  show ?thesis
  proof (cases "running s = 0")
    case True
    then have "p = Waiting" using np unfolding running_zero by (cases p) auto
    moreover have "running s < bcParallel c" using True ok by (simp add: build_ok_def)
    ultimately have "step c s (set_phase n Admitted s)" using step.admit [of s n c] lookup [OF np(1)] by simp
    then show ?thesis by (metis set_phase_simps(6))
  next
    case False
    then obtain m q where "(m, q) \<in> set (scPhase s)" "holds_slot q" unfolding running_zero by auto
    then show ?thesis by (rule move)
  qed
qed

text \<open>Once every worker has returned without an error, every unit is finished.\<close>

lemma all_finished:
  assumes ok: "build_ok c" and inv: "sched_inv c s" and ret: "all_returned s" and err: "scFirstErr s = None"
  shows "set (bcOrder c) \<subseteq> finished s"
proof (rule ccontr)
  note pre = sched_invD(1) [OF inv]
  have stop: "\<not> scStop s" using sched_preD(9) [OF pre] err by blast
  assume "\<not> set (bcOrder c) \<subseteq> finished s"
  then obtain n where n: "n \<in> set (bcOrder c)" "n \<notin> finished s" by blast
  have "\<exists>d. d \<in> build_deps c m \<and> d \<notin> finished s" if "m \<in> set (bcOrder c)" "m \<notin> finished s" for m
  proof (rule ccontr)
    assume "\<nexists>d. d \<in> build_deps c m \<and> d \<notin> finished s"
    then have "gm_has (scPhase s) m" using sched_invD(2) [OF inv stop that(1)] by blast
    then obtain p where p: "map_of (scPhase s) m = Some p" by (auto simp: gm_has_def)
    then have "p = Finished \<or> p = Quit" using ret map_of_SomeD unfolding all_returned_def by fastforce
    with p sched_preD(11) [OF pre stop, of m] that(2) show False by (auto simp: finished_def)
  qed
  then have "\<forall>m \<in> set (bcOrder c) - finished s. \<exists>d \<in> set (bcOrder c) - finished s. (m, d) \<in> edges (deps_graph (bcNodes c))"
    by (auto simp: build_deps_def node_deps_def edges_iff)
  moreover have "finite (set (bcOrder c) - finished s)" by simp
  moreover have "acyclic (edges (deps_graph (bcNodes c)))" using ok by (simp add: build_ok_def)
  ultimately show False using finite_succ_cycle [of "set (bcOrder c) - finished s"] n unfolding acyclic_def by blast
qed

section \<open>Properties\<close>


text \<open>
  C7. The parallel scheduler implements the sequential specification: each of its steps
  either leaves the finished and the rebuilt units alone or is one step of the
  specification, and a build starts with nothing finished and nothing rebuilt.
\<close>

theorem schedule_refines:
  assumes "build_ok c" and "reachable c pool s" and "step c s s'"
  shows "abs_state (start_state c pool) = ({}, {}) \<and>
    (abs_state s' = abs_state s \<or> spec_step c (abs_state s) (abs_state s'))"
proof -
  have inv: "sched_inv c s" using reachable_inv [OF assms(2,1)] .
  note pre = sched_invD(1) [OF inv]
  have ready: "n \<in> set (bcOrder c)" "n \<notin> finished s" "build_deps c n \<subseteq> finished s"
    if "map_of (scPhase s) n = Some p" "p \<noteq> Finished" for n p
    using that subsetD [OF sched_preD(2) [OF pre] map_of_Some_key [OF that(1)]] sched_preD(4) [OF pre, of n]
    by (auto simp: finished_def gm_has_def)
  have same: "abs_state (set_phase n p t) = abs_state s"
    if "map_of (scPhase s) n = Some q" "q \<noteq> Finished" "p \<noteq> Finished" "scPhase t = scPhase s" "scRebuilt t = scRebuilt s" for n p q t
    using that by (auto simp: abs_state_def finished_def)
  have start: "abs_state (start_state c pool) = ({}, {})"
    by (auto simp: abs_state_def finished_def start_state_def launchReady_phase)
  show ?thesis
    using assms(3)
  proof cases
    case (admit n)
    then show ?thesis using start same [of n Waiting Admitted s] by simp
  next
    case (quit n)
    then show ?thesis using start same [of n Admitted Quit s] by simp
  next
    case (decide n)
    then show ?thesis using start same [of n Admitted _ s] by simp
  next
    case (give_up n b)
    then show ?thesis using start same [of n "Decided b" Quit "fail Cancelled s"] by (simp add: fail_def)
  next
    case (serve n)
    have "build_deps c n \<inter> set (scRebuilt s) = {}" using sched_preD(6) [OF pre serve(2)] by simp
    from spec_step.keep [OF ready [OF serve(2)] serve(4) this] start
    show ?thesis unfolding serve(1) abs_state_def finish_finished finish_rebuilt by (simp add: finished_def)
  next
    case (build n b)
    then have "abs_state s' = abs_state (set_phase n Building s)"
      by (simp add: abs_state_def finished_def begin_build_def)
    then show ?thesis using build start same [of n "Decided b" Building s] by simp
  next
    case (build_ok n)
    have "\<not> reuses c n \<or> build_deps c n \<inter> set (scRebuilt s) \<noteq> {}"
      using reachable_reasons [OF assms(2,1)] build_ok(2) unfolding reasons_def by blast
    from spec_step.rebuild [OF ready [OF build_ok(2)] this] start
    show ?thesis unfolding build_ok(1) abs_state_def finish_finished finish_rebuilt by (simp add: finished_def end_build_def)
  next
    case (build_failed n)
    then show ?thesis using start same [of n Building Quit "fail (BuildFailed n) s"] by (simp add: fail_def)
  next
    case cancel
    then show ?thesis using start by (simp add: abs_state_def finished_def)
  qed
qed


text \<open>
  C8. Every build ends. No schedule runs forever; as long as a worker has not returned, some
  worker can move; and when all have returned without an error, every unit of the build is
  finished.
\<close>

theorem build_ends:
  assumes "build_ok c"
  shows "wf {(s', s). reachable c pool s \<and> step c s s'} \<and>
    (\<forall>s. reachable c pool s \<longrightarrow>
       (\<not> all_returned s \<longrightarrow> (\<exists>s'. step c s s' \<and> scCancelled s' = scCancelled s)) \<and>
       (all_returned s \<and> scFirstErr s = None \<longrightarrow>
          (\<forall>n \<in> set (bcOrder c). map_of (scPhase s) n = Some Finished)))"
proof -
  have "{(s', s). reachable c pool s \<and> step c s s'} \<subseteq> measure (work_left c)"
    using step_work_left reachable_inv assms by auto
  then have "wf {(s', s). reachable c pool s \<and> step c s s'}" by (rule wf_subset [OF wf_measure])
  moreover have "\<exists>s'. step c s s' \<and> scCancelled s' = scCancelled s" if "reachable c pool s" "\<not> all_returned s" for s
    by (rule worker_moves [OF assms reachable_inv [OF that(1) assms] that(2)])
  moreover have "map_of (scPhase s) n = Some Finished"
    if "reachable c pool s" "all_returned s" "scFirstErr s = None" "n \<in> set (bcOrder c)" for s n
    using all_finished [OF assms reachable_inv [OF that(1) assms] that(2,3)] that(4) by (auto simp: finished_def)
  ultimately show ?thesis by blast
qed

section \<open>A build of two units\<close>

definition ex_plan :: "name \<Rightarrow> string \<Rightarrow> unitPlan" where
  "ex_plan n cls = \<lparr>plUnit = zero_unit\<lparr>uName := n, uClass := cls\<rparr>, plHash = [], plScopeDir = [],
     plCached = False, plForced = False, plNoCache = False\<rparr>"

text \<open>An image and a package that is not part of it.\<close>

definition ex_cfg :: build_cfg where
  "ex_cfg = \<lparr>bcOrder = [''img'', ''pkg''],
     bcNodes = [(''img'', \<lparr>ndUnit = zero_unit, ndDeps = [], ndRdeps = []\<rparr>),
                (''pkg'', \<lparr>ndUnit = zero_unit, ndDeps = [], ndRdeps = []\<rparr>)],
     bcPlans = [(''img'', ex_plan ''img'' ''image''), (''pkg'', ex_plan ''pkg'' ''unit'')],
     bcParallel = 1\<rparr>"

lemma ex_cfg_ok: "build_ok ex_cfg"
proof -
  have "edges (deps_graph (bcNodes ex_cfg)) = {}"
    by (auto simp: ex_cfg_def edges_iff succs_def gm_get_def deps_graph_def split: if_splits)
  then have "acyclic (edges (deps_graph (bcNodes ex_cfg)))" by (simp add: acyclic_def)
  then show ?thesis
    by (auto simp: build_ok_def ex_cfg_def dag_ok_def deps_graph_def succs_def split: if_splits)
qed

lemma ex_cfg_simps:
  "bcOrder ex_cfg = [''img'', ''pkg'']" "bcParallel ex_cfg = 1" "node_deps ex_cfg n = []" "node_rdeps ex_cfg n = []"
  "reuses ex_cfg n = False" "unit_class ex_cfg ''img'' = ''image''" "unit_class ex_cfg ''pkg'' = ''unit''"
  by (auto simp: ex_cfg_def node_deps_def node_rdeps_def succs_def gm_get_def deps_graph_def rdeps_graph_def
      reuses_def plan_of_def reuseCache_def unit_class_def ex_plan_def split: option.split)

lemmas sched_eval = ex_cfg_simps launchReady_def launch_one_def gm_has_def gm_get_def initial_indeg_def set_phase_def
  running_def finish_def mark_built_def release_rdeps_def begin_build_def end_build_def Let_def

definition ex_state :: "(name \<times> phase) list \<Rightarrow> name list \<Rightarrow> bool \<Rightarrow> bool \<Rightarrow> nat \<Rightarrow> name list \<Rightarrow> sched" where
  "ex_state ps rb pub ref k pool =
     \<lparr>scIndeg = [(''img'', 0), (''pkg'', 0)], scPhase = ps, scRebuilt = rb, scPublishedPkg = pub, scImageRefreshed = ref,
      scFirstErr = None, scStop = False, scCancelled = False, scProgress = k, scPool = pool, scIndex = []\<rparr>"

lemma ex_start: "start_state ex_cfg [] = ex_state [(''img'', Waiting), (''pkg'', Waiting)] [] False False 0 []"
  by (simp add: start_state_def sched_eval ex_state_def)

lemma ex_step_admit:
  "step ex_cfg (ex_state [(''img'', Waiting), (''pkg'', Waiting)] [] False False 0 [])
     (ex_state [(''img'', Admitted), (''pkg'', Waiting)] [] False False 0 [])"
  using step.admit [of "ex_state [(''img'', Waiting), (''pkg'', Waiting)] [] False False 0 []" "''img''" ex_cfg]
  by (simp add: sched_eval ex_state_def)

lemma ex_run:
  "reachable ex_cfg [] (ex_state [(''img'', Finished), (''pkg'', Finished)] [''pkg'', ''img''] True True (Suc 1) [''pkg''])"
proof -
  let ?s = "\<lambda>p q. ex_state [(''img'', p), (''pkg'', q)]"
  have 0: "reachable ex_cfg [] (?s Waiting Waiting [] False False 0 [])"
    using reachable.start [of ex_cfg "[]"] by (simp add: ex_start)
  have 1: "reachable ex_cfg [] (?s Admitted Waiting [] False False 0 [])"
    by (rule reachable.more [OF 0 ex_step_admit])
  have 2: "reachable ex_cfg [] (?s (Decided False) Waiting [] False False 0 [])"
    using reachable.more [OF 1 step.decide [of _ "''img''"]] by (simp add: sched_eval ex_state_def)
  have 3: "reachable ex_cfg [] (?s Building Waiting [] False False 1 [])"
    using reachable.more [OF 2 step.build [of _ "''img''" False]] by (simp add: sched_eval ex_state_def)
  have 4: "reachable ex_cfg [] (?s Finished Waiting [''img''] False True 1 [])"
    using reachable.more [OF 3 step.build_ok [of _ "''img''"]] by (simp add: sched_eval ex_state_def)
  have 5: "reachable ex_cfg [] (?s Finished Admitted [''img''] False True 1 [])"
    using reachable.more [OF 4 step.admit [of _ "''pkg''"]] by (simp add: sched_eval ex_state_def)
  have 6: "reachable ex_cfg [] (?s Finished (Decided False) [''img''] False True 1 [])"
    using reachable.more [OF 5 step.decide [of _ "''pkg''"]] by (simp add: sched_eval ex_state_def)
  have 7: "reachable ex_cfg [] (?s Finished Building [''img''] False True (Suc 1) [])"
    using reachable.more [OF 6 step.build [of _ "''pkg''" False]] by (simp add: sched_eval ex_state_def)
  show ?thesis
    using reachable.more [OF 7 step.build_ok [of _ "''pkg''"]] by (simp add: sched_eval ex_state_def)
qed


theorem schedule_refines_witness:
  "abs_state (start_state ex_cfg []) = ({}, {})"
  using schedule_refines [OF ex_cfg_ok reachable.start [of ex_cfg "[]"]] ex_step_admit unfolding ex_start by blast


theorem build_ends_witness: "wf {(s', s). reachable ex_cfg [] s \<and> step ex_cfg s s'}"
  using build_ends [OF ex_cfg_ok, of "[]"] by blast

text \<open>
  A build can end without error and leave a package it has just published out of the
  package index. The index is only refreshed at the end when no image was rebuilt, and an
  image refreshes it before packages that finish after it.
\<close>

theorem index_can_lag:
  "\<exists>c s s' n. build_ok c \<and> reachable c [] s \<and> all_returned s \<and> end_of_build s = Inr s' \<and>
     n \<in> set (scRebuilt s') \<and> n \<in> set (scPool s') \<and> n \<notin> set (scIndex s')"
proof -
  let ?s = "ex_state [(''img'', Finished), (''pkg'', Finished)] [''pkg'', ''img''] True True (Suc 1) [''pkg'']"
  have "all_returned ?s" "end_of_build ?s = Inr ?s" "''pkg'' \<in> set (scRebuilt ?s)" "''pkg'' \<in> set (scPool ?s)"
    "''pkg'' \<notin> set (scIndex ?s)"
    by (simp_all add: all_returned_def end_of_build_def ex_state_def)
  then show ?thesis using ex_cfg_ok ex_run by blast
qed

end
