(* ===== verification/Build.thy ===== *)
theory Build
  imports Schedule
begin

text \<open>
  From a project to a finished build: the plan that \<^verbatim>\<open>BuildUnits\<close> computes is one the scheduler
  of theory Schedule can run, and it covers what was asked for.
\<close>

section \<open>The planned order\<close>

lemma BuildDAG_dag_ok:
  assumes "views_ok p" and "BuildDAG p d = Inr g"
  shows "dag_ok (dNodes g)" "memo_ok g"
proof -
  have ok: "gm_ok (raw_nodes p d)" using dag_units_ok [OF assms(1), of d] by simp
  have "dNodes g = map (\<lambda>(x, nd). (x, final_node (raw_nodes p d) x nd)) (raw_nodes p d)"
    using BuildDAG_eq [OF assms(1), of d] assms(2) by simp
  then show "dag_ok (dNodes g)" using dag_ok_final [OF ok raw_node(1)] by simp
  show "memo_ok g" using assms(2) by (auto simp: BuildDAG_def memo_ok_def Let_def split: prod.splits sum.splits)
qed

lemma topo_order_acyclic: "topo_order ns xs \<Longrightarrow> acyclic (edges (deps_graph ns))"
  unfolding topo_order_def by (blast intro: precedes_acyclic)

text \<open>The units a list of targets needs: the targets and all their dependencies.\<close>

definition closure_of :: "nodes \<Rightarrow> name list \<Rightarrow> name set" where
  "closure_of ns names = (\<Union>n \<in> set names. insert n {d. (n, d) \<in> (edges (deps_graph ns))\<^sup>+})"

lemma needed_units_spec:
  assumes "dag_ok ns"
  shows "needed_units ns names acc =
    (case List.find (\<lambda>n. \<not> gm_has ns n) names of
       Some n \<Rightarrow> Inl (UnknownUnit n)
     | None \<Rightarrow> Inr (concat (rev (map (\<lambda>n. n # (case DepsOf ns n of Inl _ \<Rightarrow> [] | Inr ds \<Rightarrow> ds)) names)) @ acc))"
  by (induction names arbitrary: acc) (auto simp: Let_def split: option.splits)

lemma set_needed_units:
  assumes ok: "dag_ok ns" and "needed_units ns names [] = Inr needed"
  shows "set needed = closure_of ns names"
proof -
  have known: "\<forall>n \<in> set names. gm_has ns n"
    using assms(2) unfolding needed_units_spec [OF ok] by (auto simp: find_None_iff split: option.splits)
  define f where "f n = n # (case DepsOf ns n of Inl _ \<Rightarrow> [] | Inr ds \<Rightarrow> ds)" for n
  have "needed = concat (rev (map f names))"
    using assms(2) unfolding needed_units_spec [OF ok] f_def
    by (cases "List.find (\<lambda>n. \<not> gm_has ns n) names") simp_all
  then have "set needed = (\<Union>n \<in> set names. set (f n))" by auto
  also have "\<dots> = closure_of ns names"
  proof -
    have "set (case DepsOf ns n of Inl _ \<Rightarrow> [] | Inr ds \<Rightarrow> ds) = {d. (n, d) \<in> (edges (deps_graph ns))\<^sup>+}" if "n \<in> set names" for n
      using deps.answer [OF ok, of n] known that unfolding gm_has_iff by fastforce
    then show ?thesis unfolding closure_of_def f_def by simp
  qed
  finally show ?thesis .
qed

lemma closure_of_closed: "n \<in> closure_of ns names \<Longrightarrow> (n, d) \<in> edges (deps_graph ns) \<Longrightarrow> d \<in> closure_of ns names"
  unfolding closure_of_def by (auto intro: r_into_trancl trancl_into_trancl)

lemma planUnits_spec:
  "planUnits w proj order hashes opts requested acc = Inr plans \<Longrightarrow>
   (\<forall>n. n \<notin> set order \<longrightarrow> map_of plans n = map_of acc n) \<and>
   (\<forall>n \<in> set order. \<exists>p. map_of plans n = Some p \<and> plan_unit w proj hashes opts requested n = Inr p)"
proof (induction order arbitrary: acc)
  case (Cons m order)
  then obtain p where p: "plan_unit w proj hashes opts requested m = Inr p"
    and rest: "planUnits w proj order hashes opts requested (gm_put m p acc) = Inr plans"
    by (auto split: sum.splits)
  from Cons.IH [OF rest] p show ?case by (cases "m \<in> set order") auto
qed simp

lemma prepare_buildE:
  assumes "prepare_build w hw proj names opts = Inr (g, kept, plans)"
  obtains d g0 order hashes where "prepare_distro proj opts = Inr d" "BuildDAG proj d = Inr g0"
    "TopologicalSort g0 = (Inr order, g)" "unbuildable_target proj d names = None"
    "prepare_order proj names d g order = Inr kept"
    "planUnits w proj kept hashes (opts\<lparr>opEffectiveDistro := d\<rparr>) names [] = Inr plans"
  using assms unfolding prepare_build_def Let_def
  by (auto split: sum.splits option.splits prod.splits)

lemma TopologicalSort_ok:
  assumes "dag_ok (dNodes g0)" and "memo_ok g0" and "TopologicalSort g0 = (Inr order, g)"
  shows "dNodes g = dNodes g0" "topo_order (dNodes g) order"
proof -
  show nodes: "dNodes g = dNodes g0" using assms(3) by (auto simp: TopologicalSort_def Let_def split: if_splits)
  have "topologicalSort (dNodes g0) = Inr order" using TopologicalSort_memo [OF assms(2)] assms(3) by simp
  with dag.sorted_ok [OF assms(1)] show "topo_order (dNodes g) order" unfolding nodes by blast
qed

lemma prepare_order_spec:
  assumes ok: "dag_ok (dNodes g)" and topo: "topo_order (dNodes g) order"
    and kept: "prepare_order proj names d g order = Inr kept"
  shows "kept = filter (\<lambda>n. (names = [] \<or> n \<in> closure_of (dNodes g) names) \<and> \<not> NotBuildable (LookupUnit proj d n)) order"
    and "\<forall>n \<in> set names. gm_has (dNodes g) n"
proof -
  have "\<exists>needed. needed_units (dNodes g) names [] = Inr needed \<and>
      kept = skipUnbuildable proj d (filter (\<lambda>n. n \<in> set needed) order)" if "names \<noteq> []"
    using kept that by (auto simp: prepare_order_def filterBuildOrder_def split: sum.splits)
  then show "kept = filter (\<lambda>n. (names = [] \<or> n \<in> closure_of (dNodes g) names) \<and> \<not> NotBuildable (LookupUnit proj d n)) order"
    using kept set_needed_units [OF ok] by (cases "names = []") (auto simp: prepare_order_def skipUnbuildable_def)
  show "\<forall>n \<in> set names. gm_has (dNodes g) n"
  proof (cases "names = []")
    case False
    then obtain needed where "needed_units (dNodes g) names [] = Inr needed"
      using kept by (auto simp: prepare_order_def filterBuildOrder_def split: sum.splits)
    then show ?thesis unfolding needed_units_spec [OF ok] by (auto simp: find_None_iff split: option.splits)
  qed simp
qed

section \<open>The planned units\<close>

text \<open>
  What a plan that reuses the cache rests on: a record of a complete build at this very
  hash, and for a package its file in the repository.
\<close>

definition cache_current :: "BuildWorld \<Rightarrow> Project \<Rightarrow> Options \<Rightarrow> name \<Rightarrow> unitPlan \<Rightarrow> bool" where
  "cache_current w proj opts d p \<longleftrightarrow>
     (\<exists>dir meta. UnitBuildDir (opProjectDir opts) (plScopeDir p) (uName (plUnit p)) d = Some dir \<and>
        bwMeta w dir = Some meta \<and> bmStatus meta = ''complete'' \<and> bmHash meta = plHash p) \<and>
     (uClass (plUnit p) = ''image'' \<or> uClass (plUnit p) = ''container'' \<or>
        (\<exists>base. RepoDistroDir proj (opProjectDir opts) d = Some base \<and>
           package_published w base (plUnit p) (opArch opts) d))"

lemma plan_unit_spec:
  assumes "plan_unit w proj hashes opts requested n = Inr p" and "opEffectiveDistro opts = d"
  shows "LookupUnit proj d n = Some (plUnit p)" and "plHash p = gm_get [] hashes n"
    and "reuseCache p \<Longrightarrow> cache_current w proj opts d p \<and> \<not> opNoCache opts \<and>
      ((opForce opts \<or> opClean opts) \<longrightarrow> requested \<noteq> [] \<and> n \<notin> set requested)"
proof -
  obtain u cached where u: "LookupUnit proj d n = Some u"
    and valid: "CacheValid w proj (opProjectDir opts) u (ScopeDir u (opArch opts) (opMachine opts)) (opArch opts)
      (gm_get [] hashes n) d = Some cached"
    and p: "p = \<lparr>plUnit = u, plHash = gm_get [] hashes n, plScopeDir = ScopeDir u (opArch opts) (opMachine opts),
      plCached = cached, plForced = ((opForce opts \<or> opClean opts) \<and> (requested = [] \<or> n \<in> set requested)),
      plNoCache = opNoCache opts\<rparr>"
    using assms by (auto simp: plan_unit_def Let_def split: option.splits)
  show "LookupUnit proj d n = Some (plUnit p)" "plHash p = gm_get [] hashes n" using u p by simp_all
  assume reuse: "reuseCache p"
  then have "cached" using p by (simp add: reuseCache_def)
  then have "cache_current w proj opts d p"
    using valid p unfolding cache_current_def CacheValid_def IsBuildCached_def
    by (auto split: option.splits bool.splits if_splits)
  then show "cache_current w proj opts d p \<and> \<not> opNoCache opts \<and>
      ((opForce opts \<or> opClean opts) \<longrightarrow> requested \<noteq> [] \<and> n \<notin> set requested)"
    using reuse p by (auto simp: reuseCache_def)
qed

section \<open>Properties\<close>


definition ex_app :: Project where
  "ex_app = zero_project\<lparr>pUnitsByModule := [([], [(''app'', zero_unit\<lparr>uName := ''app''\<rparr>)])]\<rparr>"

definition ex_disk :: BuildWorld where
  "ex_disk = \<lparr>bwMeta = (\<lambda>_. None), bwExists = (\<lambda>_. False), bwGlob = (\<lambda>_. []),
     bwGit = \<lparr>gwStat = (\<lambda>_. StatNotExist), gwGit = (\<lambda>_ _. None), gwSHA256 = (\<lambda>_. [])\<rparr>\<rparr>"

definition ex_opts :: Options where
  "ex_opts = \<lparr>opForce = False, opClean = False, opNoCache = False, opProjectDir = ''/p'', opArch = ''arm64'',
     opMachine = ''qemu'', opParallel = 0, opEffectiveDistro = ''alpine''\<rparr>"

lemma ex_app_dag:
  "BuildDAG ex_app ''alpine'' = Inr \<lparr>dNodes = [(''app'', \<lparr>ndUnit = zero_unit\<lparr>uName := ''app''\<rparr>, ndDeps = [], ndRdeps = []\<rparr>)],
     dOrder = Inr [], dSorted = False\<rparr>"
  by (simp add: BuildDAG_def ex_app_def dag_units_def AllUnits_def gm_has_def
      unit_node_def DepsForDistro_def RuntimeDepsForDistro_def appendContainerDeps_def ContainerRefsOf_def
      ResolveContainer_def appendRuntimeClosureOfDeps_def resolveDeps_def zero_unit_def zero_project_def)

lemma ex_app_lookup: "LookupUnit ex_app ''alpine'' ''app'' = Some (zero_unit\<lparr>uName := ''app''\<rparr>)"
  by (simp add: LookupUnit_def resolveForDistro_def pinned_unit_def AnyUnit_def better_def unitVisibleToDistro_def
      ex_app_def zero_project_def zero_unit_def)

lemma ex_prepare:
  "\<exists>g plans. prepare_build ex_disk ex_world ex_app [''app''] ex_opts = Inr (g, [''app''], plans)"
proof -
  have sort: "topologicalSort [(''app'', \<lparr>ndUnit = zero_unit\<lparr>uName := ''app''\<rparr>, ndDeps = [], ndRdeps = []\<rparr>)] = Inr [''app'']"
    by (simp add: topologicalSort_def kahn.simps)
  have "\<not> NotBuildable (LookupUnit ex_app ''alpine'' ''app'')"
    by (simp add: ex_app_lookup NotBuildable_def zero_unit_def)
  then show ?thesis
    by (simp add: prepare_build_def prepare_distro_def ex_opts_def ex_app_dag sort unbuildable_target_def
        ComputeAllHashes_def TopologicalSort_def prepare_order_def filterBuildOrder_def gm_has_def DepsOf_def walk_sorted_def
        skipUnbuildable_def plan_unit_def ex_app_lookup CacheValid_def IsBuildCached_def UnitBuildDir_def ex_disk_def Let_def
        deps_graph_def succs_def)
qed


end
