(* ===== verification/Codec.thy ===== *)
theory Codec
  imports Prelude
begin

text \<open>
  The contract between a parser and the printer of its values: what is parsed is valid, and
  a valid value parses back from its printed form, up to an equivalence that the printer
  does not see. The parsers of the sources interpret it.
\<close>

locale codec =
  fixes valid :: "'a \<Rightarrow> bool" and same :: "'a \<Rightarrow> 'a \<Rightarrow> bool"
    and print :: "'a \<Rightarrow> 's" and parse :: "'s \<Rightarrow> 'e + 'a"
  assumes parse_valid: "parse s = Inr x \<Longrightarrow> valid x"
    and parse_print: "valid x \<Longrightarrow> \<exists>y. parse (print x) = Inr y \<and> same x y"
    and print_same: "valid x \<Longrightarrow> same x y \<Longrightarrow> print y = print x"
begin

lemma reparse: "parse s = Inr x \<Longrightarrow> \<exists>y. parse (print x) = Inr y \<and> same x y \<and> print y = print x"
  using parse_valid parse_print print_same by metis

text \<open>Printing what was parsed from a printed form changes nothing: the form is canonical.\<close>

lemma canonical: "valid x \<Longrightarrow> parse (print x) = Inr y \<Longrightarrow> print y = print x"
  using parse_print print_same by (metis sum.inject(2))

lemma print_inj: "valid x \<Longrightarrow> valid y \<Longrightarrow> print x = print y \<Longrightarrow> \<exists>z. same x z \<and> same y z"
  using parse_print by (metis sum.inject(2))

end

end
