(* ===== verification/Query.thy ===== *)
theory Query
  imports Codec RuntimeClosure
begin

text \<open>
  The search language of the terminal interface, \<^verbatim>\<open>internal/tui/query\<close>: \<^verbatim>\<open>parser.go\<close>, \<^verbatim>\<open>match.go\<close>,
  \<^verbatim>\<open>complete.go\<close> and \<^verbatim>\<open>closure.go\<close>.
\<close>

section \<open>Parser\<close>

record Query =
  qFields :: "(string, string list) gomap"
  qBareTerms :: "string list"

datatype QueryError =
    EmptyFieldName string
  | UnknownField string
  | NeedsValue string

definition emptyQuery :: Query where
  "emptyQuery = \<lparr>qFields = [], qBareTerms = []\<rparr>"

definition knownFields :: "string set" where
  "knownFields = {''type'', ''module'', ''status'', ''in''}"

definition viewShortcuts :: "(string, string \<times> string) gomap" where
  "viewShortcuts =
     [(''images'', (''type'', ''image'')), (''containers'', (''type'', ''container'')),
      (''failed'', (''status'', ''failed'')), (''building'', (''status'', ''building''))]"

definition appendField :: "string \<Rightarrow> string \<Rightarrow> (string, string list) gomap \<Rightarrow> (string, string list) gomap" where
  "appendField k v fs = gm_put k (gm_get [] fs k @ [v]) fs"

definition parse_token :: "string \<Rightarrow> Query \<Rightarrow> QueryError + Query" where
  "parse_token raw q =
     (let tok = ToLower raw in
      case map_of viewShortcuts tok of
        Some (field, val) \<Rightarrow> Inr (q\<lparr>qFields := appendField field val (qFields q)\<rparr>)
      | None \<Rightarrow>
          (case IndexByte tok (CHR '':'') of
             None \<Rightarrow> Inr (q\<lparr>qBareTerms := qBareTerms q @ [tok]\<rparr>)
           | Some i \<Rightarrow>
               (let field = take i tok; val = drop (i + 1) tok in
                if field = [] then Inl (EmptyFieldName raw)
                else if field \<notin> knownFields then Inl (UnknownField field)
                else if val = [] then Inl (NeedsValue field)
                else Inr (q\<lparr>qFields := appendField field val (qFields q)\<rparr>))))"

fun parse_tokens :: "string list \<Rightarrow> Query \<Rightarrow> QueryError + Query" where
  "parse_tokens [] q = Inr q"
| "parse_tokens (raw # tokens) q =
     (case parse_token raw q of Inl err \<Rightarrow> Inl err | Inr q' \<Rightarrow> parse_tokens tokens q')"

definition Parse :: "string \<Rightarrow> QueryError + Query" where
  "Parse input = parse_tokens (Fields input) emptyQuery"

definition IsEmpty :: "Query \<Rightarrow> bool" where
  "IsEmpty q \<longleftrightarrow> qFields q = [] \<and> qBareTerms q = []"

definition InRoot :: "Query \<Rightarrow> string" where
  "InRoot q = (case gm_get [] (qFields q) ''in'' of [v] \<Rightarrow> v | _ \<Rightarrow> [])"

definition FiltersStatus :: "Query \<Rightarrow> bool" where
  "FiltersStatus q \<longleftrightarrow> 0 < length (gm_get [] (qFields q) ''status'')"

definition field_parts :: "(string, string list) gomap \<Rightarrow> string list \<Rightarrow> string list" where
  "field_parts fs keys = concat (map (\<lambda>k. map (\<lambda>v. k @ '':'' @ v) (gm_get [] fs k)) keys)"

definition QueryString :: "Query \<Rightarrow> string" where
  "QueryString q =
     (if IsEmpty q then []
      else Join (field_parts (qFields q) (sort (gm_keys (qFields q))) @ qBareTerms q) '' '')"

section \<open>Matching\<close>

definition anyEquals :: "string \<Rightarrow> string list \<Rightarrow> bool" where
  "anyEquals got vals \<longleftrightarrow> list_ex (\<lambda>v. got = v) vals"

definition field_value :: "string \<Rightarrow> Unit option \<Rightarrow> string \<Rightarrow> string" where
  "field_value field unit status =
     (if field = ''type'' then (case unit of None \<Rightarrow> [] | Some u \<Rightarrow> ToLower (uClass u))
      else if field = ''module'' then
        (case unit of None \<Rightarrow> ''project''
         | Some u \<Rightarrow> (let got = ToLower (uModule u) in if got = [] then ''project'' else got))
      else if field = ''status'' then ToLower status
      else [])"

fun match_fields :: "(string, string list) gomap \<Rightarrow> string \<Rightarrow> Unit option \<Rightarrow> string \<Rightarrow> name list option \<Rightarrow> bool" where
  "match_fields [] name unit status inSet = True"
| "match_fields ((field, vals) # fs) name unit status inSet =
     (if field = ''in'' then
        (case inSet of
           None \<Rightarrow> False
         | Some s \<Rightarrow> if name \<notin> set s then False else match_fields fs name unit status inSet)
      else if \<not> anyEquals (field_value field unit status) vals then False
      else match_fields fs name unit status inSet)"

definition Matches :: "Query \<Rightarrow> string \<Rightarrow> Unit option \<Rightarrow> string \<Rightarrow> name list option \<Rightarrow> bool" where
  "Matches q name unit status inSet =
     (if IsEmpty q then True
      else if list_ex (\<lambda>term. \<not> Contains (ToLower name) term) (qBareTerms q) then False
      else match_fields (qFields q) name unit status inSet)"

section \<open>The closure behind an in: filter\<close>

definition find_unit :: "Project \<Rightarrow> name \<Rightarrow> name \<Rightarrow> Unit option" where
  "find_unit proj distro name =
     (case LookupUnit proj distro name of Some u \<Rightarrow> Some u | None \<Rightarrow> AnyUnit proj name)"

definition in_resolve :: "Project \<Rightarrow> name \<Rightarrow> name \<Rightarrow> name" where
  "in_resolve proj distro name =
     (if distro \<noteq> [] then
        (let real = ResolveProvidesForDistro proj name distro in if real \<noteq> [] then real else name)
      else (case map_of (pProvides proj) name of Some real \<Rightarrow> real | None \<Rightarrow> name))"

definition in_deps :: "Unit \<Rightarrow> name \<Rightarrow> name list" where
  "in_deps u distro = DepsForDistro u distro @ (if uClass u = ''image'' then uArtifacts u else [])"

definition unit_names :: "Project \<Rightarrow> name \<Rightarrow> name set" where
  "unit_names p d = {n. find_unit p d n \<noteq> None}"

lemma finite_unit_names: "finite (unit_names p d)"
proof -
  have "n \<in> lookup_names p d \<union> fst ` set (AllUnits p)" if "n \<in> unit_names p d" for n
  proof (cases "LookupUnit p d n")
    case None
    with that obtain u where "AnyUnit p n = Some u" by (auto simp: unit_names_def find_unit_def)
    then have "u \<in> candidates n (pUnitsByModule p)" unfolding AnyUnit_def by (auto dest: scan_best_mem)
    from candidates_AllUnits [OF this] show ?thesis by (auto intro: rev_image_eqI)
  qed (simp add: lookup_names_def)
  then show ?thesis
    using finite_subset [of "unit_names p d" "lookup_names p d \<union> fst ` set (AllUnits p)"] finite_lookup_names by blast
qed

text \<open>The recursion of \<^verbatim>\<open>walk\<close>, with the calls that are still to be made as a stack.\<close>

function in_walk :: "Project \<Rightarrow> name \<Rightarrow> name list \<Rightarrow> name list \<Rightarrow> name list" where
  "in_walk proj distro [] seen = seen"
| "in_walk proj distro (name # todo) seen =
     (let real = in_resolve proj distro name in
      case find_unit proj distro real of
        None \<Rightarrow> in_walk proj distro todo seen
      | Some u \<Rightarrow>
          if real \<in> set seen then in_walk proj distro todo seen
          else in_walk proj distro (in_deps u distro @ todo) (real # seen))"
  by pat_completeness auto

termination in_walk
proof (relation "measures [\<lambda>(p, d, todo, seen). card (unit_names p d - set seen), \<lambda>(p, d, todo, seen). length todo]",
    goal_cases)
  case (4 p d name todo seen real u)
  then have "real \<in> unit_names p d - set seen" by (simp add: unit_names_def)
  then have "card (unit_names p d - set (real # seen)) < card (unit_names p d - set seen)"
    by (intro psubset_card_mono finite_Diff finite_unit_names) auto
  then show ?case by simp
qed auto

definition BuildInClosure :: "Project \<Rightarrow> name \<Rightarrow> name list option" where
  "BuildInClosure proj root =
     (let distro = (case EffectiveDistro proj of Inl _ \<Rightarrow> [] | Inr d \<Rightarrow> d) in
      case find_unit proj distro root of
        None \<Rightarrow> None
      | Some _ \<Rightarrow>
          (let seen = in_walk proj distro [root] [] in
           if distro \<noteq> [] then
             (case RuntimeClosure proj seen distro of None \<Rightarrow> None | Some out \<Rightarrow> Some (List.union out seen))
           else Some seen))"

section \<open>Completion\<close>

record Context =
  cxModules :: "string list"
  cxUnits :: "string list"

definition fieldCompletions :: "string list" where
  "fieldCompletions = [''in:'', ''module:'', ''status:'', ''type:'']"

definition shortcutCompletions :: "string list" where
  "shortcutCompletions = [''building'', ''containers'', ''failed'', ''images'']"

definition typeValues :: "string list" where
  "typeValues = [''container'', ''image'', ''unit'']"

definition statusValues :: "string list" where
  "statusValues = [''building'', ''cached'', ''failed'', ''pending'']"

fun span_start :: "string \<Rightarrow> nat \<Rightarrow> nat" where
  "span_start input 0 = 0"
| "span_start input (Suc i) = (if input ! i \<noteq> CHR '' '' then span_start input i else Suc i)"

definition lastTokenSpan :: "string \<Rightarrow> nat \<times> nat" where
  "lastTokenSpan input = (span_start input (length input), length input)"

definition prefixMatch :: "string list \<Rightarrow> string \<Rightarrow> string list" where
  "prefixMatch pool prefix =
     (if prefix = [] then sort pool else sort (filter (\<lambda>s. HasPrefix (ToLower s) prefix) pool))"

definition substringMatch :: "string list \<Rightarrow> string \<Rightarrow> string list" where
  "substringMatch pool needle =
     (if needle = [] then [] else sort (filter (\<lambda>s. Contains (ToLower s) needle) pool))"

definition complete_value :: "Context \<Rightarrow> string \<Rightarrow> string \<Rightarrow> string list" where
  "complete_value ctx field val =
     (if field = ''type'' then prefixMatch typeValues val
      else if field = ''status'' then prefixMatch statusValues val
      else if field = ''module'' then prefixMatch (cxModules ctx) val
      else if field = ''in'' then prefixMatch (cxUnits ctx) val
      else [])"

definition Complete :: "string \<Rightarrow> Context \<Rightarrow> nat \<times> nat \<times> string list" where
  "Complete input ctx =
     (let (start, end) = lastTokenSpan input;
          tok = ToLower (take (end - start) (drop start input))
      in case IndexByte tok (CHR '':'') of
           Some i \<Rightarrow> (start, end, complete_value ctx (take i tok) (drop (i + 1) tok))
         | None \<Rightarrow>
             (let out = filter (\<lambda>c. HasPrefix c tok) fieldCompletions @
                        filter (\<lambda>c. HasPrefix c tok) shortcutCompletions
              in if 0 < length out then (start, end, sort out)
                 else (start, end, substringMatch (cxUnits ctx) tok)))"


section \<open>What the parser returns\<close>

text \<open>
  A query as the parser builds it: known fields with values, and bare terms that are neither
  shortcuts nor field filters.
\<close>

definition field_ok :: "string \<Rightarrow> string list \<Rightarrow> bool" where
  "field_ok k vs \<longleftrightarrow> k \<in> knownFields \<and> vs \<noteq> [] \<and> (\<forall>v \<in> set vs. plain v \<and> ToLower v = v)"

definition bare_ok :: "string \<Rightarrow> bool" where
  "bare_ok t \<longleftrightarrow> plain t \<and> ToLower t = t \<and> CHR '':'' \<notin> set t \<and> map_of viewShortcuts t = None"

definition query_ok :: "Query \<Rightarrow> bool" where
  "query_ok q \<longleftrightarrow> gm_ok (qFields q) \<and> (\<forall>(k, vs) \<in> set (qFields q). field_ok k vs) \<and>
     (\<forall>t \<in> set (qBareTerms q). bare_ok t)"

lemma query_okD:
  assumes "query_ok q"
  shows "gm_ok (qFields q)" "(k, vs) \<in> set (qFields q) \<Longrightarrow> field_ok k vs"
    "map_of (qFields q) k = Some vs \<Longrightarrow> field_ok k vs" "t \<in> set (qBareTerms q) \<Longrightarrow> bare_ok t"
  using assms unfolding query_ok_def by (simp, blast, blast dest: map_of_SomeD, simp)

lemma isSpace_lower [simp]: "isSpace (lower_char c) \<longleftrightarrow> isSpace c"
  by (auto simp: isSpace_nat lower_char_def Let_def)

lemma plain_ToLower: "plain w \<Longrightarrow> plain (ToLower w)"
  by (auto simp: ToLower_def)

lemma ToLower_take [simp]: "ToLower (take n s) = take n (ToLower s)"
  and ToLower_drop [simp]: "ToLower (drop n s) = drop n (ToLower s)"
  by (simp_all add: ToLower_def take_map drop_map)

lemma map_of_appendField:
  "map_of (appendField k v fs) j = (if j = k then Some (gm_get [] fs k @ [v]) else map_of fs j)"
  by (simp add: appendField_def)

lemma gm_ok_appendField: "gm_ok fs \<Longrightarrow> gm_ok (appendField k v fs)"
  unfolding appendField_def by (rule gm_ok_put)

lemma query_ok_field:
  assumes "query_ok q" and "k \<in> knownFields" and "plain v" and "ToLower v = v"
  shows "query_ok (q\<lparr>qFields := appendField k v (qFields q)\<rparr>)"
proof -
  have "field_ok j vs" if "(j, vs) \<in> set (appendField k v (qFields q))" for j vs
  proof -
    note ok = query_okD(1) [OF assms(1)] and all = query_okD(3) [OF assms(1)]
    have m: "map_of (appendField k v (qFields q)) j = Some vs"
      using that gm_ok_appendField [OF ok] by (rule map_of_is_SomeI [rotated])
    show ?thesis
    proof (cases "j = k")
      case True
      with m have "vs = gm_get [] (qFields q) k @ [v]" by (simp add: map_of_appendField)
      with True assms(2-4) all [of k] show ?thesis
        by (cases "map_of (qFields q) k") (auto simp: gm_get_def field_ok_def)
    qed (use m all in \<open>simp add: map_of_appendField\<close>)
  qed
  then show ?thesis
    using assms(1) gm_ok_appendField unfolding query_ok_def by auto
qed

lemma query_ok_bare:
  "query_ok q \<Longrightarrow> bare_ok t \<Longrightarrow> query_ok (q\<lparr>qBareTerms := qBareTerms q @ [t]\<rparr>)"
  by (simp add: query_ok_def ball_Un)

lemma viewShortcuts_ok:
  "map_of viewShortcuts t = Some (f, v) \<Longrightarrow> f \<in> knownFields \<and> plain v \<and> ToLower v = v"
  by (auto simp: viewShortcuts_def knownFields_def isSpace_def ToLower_def lower_char_def split: if_splits)

lemma parse_token_ok:
  assumes "parse_token raw q = Inr q'" and "query_ok q" and "plain raw"
  shows "query_ok q'"
proof (cases "map_of viewShortcuts (ToLower raw)")
  case (Some fv)
  obtain f v where fv: "fv = (f, v)" by (cases fv)
  with Some assms(1) have "q' = q\<lparr>qFields := appendField f v (qFields q)\<rparr>" by (simp add: parse_token_def)
  with viewShortcuts_ok Some fv query_ok_field assms(2) show ?thesis by blast
next
  case None
  show ?thesis
  proof (cases "IndexByte (ToLower raw) (CHR '':'')")
    case None
    have "CHR '':'' \<notin> set (ToLower raw)" using IndexByte_None None by blast
    moreover from plain_ToLower [OF assms(3)] have "plain (ToLower raw)" .
    ultimately show ?thesis
      using None \<open>map_of viewShortcuts _ = None\<close> assms(1,2) query_ok_bare [of q "ToLower raw"]
      by (simp add: parse_token_def bare_ok_def)
  next
    case (Some i)
    have "plain (drop (i + 1) (ToLower raw))" if "drop (i + 1) (ToLower raw) \<noteq> []"
      using that plain_ToLower [OF assms(3)] in_set_dropD by fast
    with Some \<open>map_of viewShortcuts _ = None\<close> assms(1,2) show ?thesis
      by (auto simp: parse_token_def Let_def split: if_splits intro!: query_ok_field)
  qed
qed

lemma parse_tokens_ok:
  "parse_tokens ts q = Inr q' \<Longrightarrow> query_ok q \<Longrightarrow> \<forall>t \<in> set ts. plain t \<Longrightarrow> query_ok q'"
proof (induction ts arbitrary: q)
  case (Cons t ts)
  then obtain q1 where q1: "parse_token t q = Inr q1" "parse_tokens ts q1 = Inr q'" by (auto split: sum.splits)
  then have "query_ok q1" using parse_token_ok Cons.prems by simp
  with Cons q1 show ?case by simp
qed simp

lemma Parse_ok: "Parse s = Inr q \<Longrightarrow> query_ok q"
  unfolding Parse_def
  by (rule parse_tokens_ok) (use Fields_plain in \<open>auto simp: query_ok_def emptyQuery_def\<close>)

section \<open>Printing and parsing back\<close>

lemma in_field_parts:
  "w \<in> set (field_parts fs ks) \<longleftrightarrow> (\<exists>k \<in> set ks. \<exists>v \<in> set (gm_get [] fs k). w = k @ '':'' @ v)"
  by (auto simp: field_parts_def)

lemma parse_token_field:
  assumes "k \<in> knownFields" and "plain v" and "ToLower v = v"
  shows "parse_token (k @ '':'' @ v) q = Inr (q\<lparr>qFields := appendField k v (qFields q)\<rparr>)"
proof -
  have k: "ToLower k = k" "CHR '':'' \<notin> set k" "k \<noteq> []"
    using assms(1) by (auto simp: knownFields_def ToLower_def lower_char_def)
  have low: "ToLower (k @ '':'' @ v) = k @ CHR '':'' # v"
    using k(1) assms(3) by (simp add: ToLower_def lower_char_def)
  have "\<forall>(t, _) \<in> set viewShortcuts. CHR '':'' \<notin> set t" by (simp add: viewShortcuts_def)
  then have "map_of viewShortcuts (k @ CHR '':'' # v) = None"
    unfolding map_of_eq_None_iff by force
  with k assms low show ?thesis
    by (simp add: parse_token_def Let_def IndexByte_append)
qed

lemma parse_token_bare:
  "ToLower t = t \<Longrightarrow> CHR '':'' \<notin> set t \<Longrightarrow> map_of viewShortcuts t = None \<Longrightarrow>
   parse_token t q = Inr (q\<lparr>qBareTerms := qBareTerms q @ [t]\<rparr>)"
  by (simp add: parse_token_def Let_def iffD2 [OF IndexByte_None])

lemma parse_tokens_append:
  "parse_tokens (as @ bs) q = (case parse_tokens as q of Inl e \<Rightarrow> Inl e | Inr q' \<Rightarrow> parse_tokens bs q')"
  by (induction as arbitrary: q) (auto split: sum.splits)

lemma parse_tokens_bare:
  "\<forall>t \<in> set ts. ToLower t = t \<and> CHR '':'' \<notin> set t \<and> map_of viewShortcuts t = None \<Longrightarrow>
   parse_tokens ts q = Inr (q\<lparr>qBareTerms := qBareTerms q @ ts\<rparr>)"
  by (induction ts arbitrary: q) (simp_all add: parse_token_bare)

text \<open>The tokens of one field, in a query that does not have the field yet.\<close>

lemma put_new: "k \<notin> set (gm_keys m) \<Longrightarrow> gm_put k v m = m @ [(k, v)]"
  by (induction m) auto

lemma put_last: "k \<notin> set (gm_keys m) \<Longrightarrow> gm_put k v (m @ [(k, w)]) = m @ [(k, v)]"
  by (induction m) auto

lemma gm_get_last: "k \<notin> set (gm_keys m) \<Longrightarrow> gm_get z (m @ [(k, v)]) k = v"
  by (induction m) (auto simp: gm_get_def)

lemma parse_tokens_more_values:
  "k \<in> knownFields \<Longrightarrow> \<forall>v \<in> set vs. plain v \<and> ToLower v = v \<Longrightarrow> k \<notin> set (gm_keys fs) \<Longrightarrow>
   parse_tokens (map (\<lambda>v. k @ '':'' @ v) vs) \<lparr>qFields = fs @ [(k, us)], qBareTerms = ts\<rparr> =
     Inr \<lparr>qFields = fs @ [(k, us @ vs)], qBareTerms = ts\<rparr>"
proof (induction vs arbitrary: us)
  case (Cons v vs)
  then have "appendField k v (fs @ [(k, us)]) = fs @ [(k, us @ [v])]"
    by (simp add: appendField_def put_last gm_get_last del: set_map)
  with Cons show ?case by (simp add: parse_token_field del: set_map append.simps)
qed simp

lemma parse_tokens_values:
  assumes "k \<in> knownFields" and "\<forall>v \<in> set vs. plain v \<and> ToLower v = v" and "k \<notin> set (gm_keys fs)" and "vs \<noteq> []"
  shows "parse_tokens (map (\<lambda>v. k @ '':'' @ v) vs) \<lparr>qFields = fs, qBareTerms = ts\<rparr> =
     Inr \<lparr>qFields = fs @ [(k, vs)], qBareTerms = ts\<rparr>"
proof -
  obtain v vs' where vs: "vs = v # vs'" using assms(4) by (cases vs) auto
  have "gm_get [] fs k = []" using assms(3) unfolding gm_get_def by (simp add: iffD2 [OF map_of_eq_None_iff])
  then have "appendField k v fs = fs @ [(k, [v])]"
    using put_new [OF assms(3)] by (simp add: appendField_def)
  then show ?thesis
    using assms parse_tokens_more_values [of k vs' fs "[v]" ts] unfolding vs
    by (simp add: parse_token_field del: set_map append.simps)
qed

lemma parse_tokens_fields:
  "distinct ks \<Longrightarrow> set ks \<inter> set (gm_keys fs) = {} \<Longrightarrow>
   \<forall>k \<in> set ks. k \<in> knownFields \<and> gm_get [] m k \<noteq> [] \<and> (\<forall>v \<in> set (gm_get [] m k). plain v \<and> ToLower v = v) \<Longrightarrow>
   parse_tokens (field_parts m ks) \<lparr>qFields = fs, qBareTerms = ts\<rparr> =
     Inr \<lparr>qFields = fs @ map (\<lambda>k. (k, gm_get [] m k)) ks, qBareTerms = ts\<rparr>"
proof (induction ks arbitrary: fs)
  case Nil
  then show ?case by (simp add: field_parts_def)
next
  case (Cons k ks)
  have 1: "parse_tokens (map (\<lambda>v. k @ '':'' @ v) (gm_get [] m k)) \<lparr>qFields = fs, qBareTerms = ts\<rparr> =
      Inr \<lparr>qFields = fs @ [(k, gm_get [] m k)], qBareTerms = ts\<rparr>"
    by (rule parse_tokens_values) (use Cons.prems in auto)
  have 2: "parse_tokens (field_parts m ks) \<lparr>qFields = fs @ [(k, gm_get [] m k)], qBareTerms = ts\<rparr> =
      Inr \<lparr>qFields = (fs @ [(k, gm_get [] m k)]) @ map (\<lambda>k. (k, gm_get [] m k)) ks, qBareTerms = ts\<rparr>"
    by (rule Cons.IH) (use Cons.prems in auto)
  have "field_parts m (k # ks) = map (\<lambda>v. k @ '':'' @ v) (gm_get [] m k) @ field_parts m ks"
    by (simp add: field_parts_def)
  then show ?case using 1 2 by (simp add: parse_tokens_append)
qed

text \<open>Two queries that differ only in the iteration order of the fields.\<close>

definition same_query :: "Query \<Rightarrow> Query \<Rightarrow> bool" where
  "same_query q q' \<longleftrightarrow> mset (gm_keys (qFields q)) = mset (gm_keys (qFields q')) \<and>
     map_of (qFields q) = map_of (qFields q') \<and> qBareTerms q = qBareTerms q'"

lemma QueryString_same: "same_query q q' \<Longrightarrow> QueryString q' = QueryString q"
proof -
  assume s: "same_query q q'"
  then have "sort (gm_keys (qFields q)) = sort (gm_keys (qFields q'))"
    using properties_for_sort [of "sort (gm_keys (qFields q))" "gm_keys (qFields q')"]
    by (simp add: same_query_def)
  moreover have "gm_get [] (qFields q) = gm_get [] (qFields q')"
    using s by (auto simp: same_query_def gm_get_def)
  moreover have "IsEmpty q \<longleftrightarrow> IsEmpty q'"
    using s by (auto simp: same_query_def IsEmpty_def dest: arg_cong [of _ _ size])
  ultimately show ?thesis
    using s by (simp add: QueryString_def field_parts_def same_query_def)
qed

lemma Parse_QueryString:
  assumes ok: "query_ok q"
  shows "\<exists>q'. Parse (QueryString q) = Inr q' \<and> same_query q q'"
proof (cases "IsEmpty q")
  case True
  then show ?thesis
    by (simp add: QueryString_def Parse_def Fields_def IsEmpty_def same_query_def emptyQuery_def)
next
  case False
  let ?fs = "qFields q" let ?ks = "sort (gm_keys ?fs)"
  let ?canon = "map (\<lambda>k. (k, gm_get [] ?fs k)) ?ks"
  note fok = query_okD(1) [OF ok]
  have bare: "\<forall>t \<in> set (qBareTerms q). plain t \<and> ToLower t = t \<and> CHR '':'' \<notin> set t \<and> map_of viewShortcuts t = None"
    using query_okD(4) [OF ok] by (simp add: bare_ok_def)
  have field: "k \<in> knownFields \<and> gm_get [] ?fs k \<noteq> [] \<and> (\<forall>v \<in> set (gm_get [] ?fs k). plain v \<and> ToLower v = v)"
    if k: "k \<in> set ?ks" for k
  proof -
    obtain vs where "map_of ?fs k = Some vs" using k map_of_key_Some [of k ?fs] unfolding set_sort by blast
    with query_okD(3) [OF ok this] show ?thesis by (simp add: gm_get_def field_ok_def)
  qed
  have known: "plain k" if "k \<in> knownFields" for k
    using that by (auto simp: knownFields_def isSpace_def)
  have "plain w" if w: "w \<in> set (field_parts ?fs ?ks)" for w
  proof -
    obtain k v where kv: "k \<in> set ?ks" "v \<in> set (gm_get [] ?fs k)" "w = k @ '':'' @ v"
      using w unfolding in_field_parts by blast
    with field [OF kv(1)] known [of k] show ?thesis by (auto simp: isSpace_nat)
  qed
  with bare have "\<forall>w \<in> set (field_parts ?fs ?ks @ qBareTerms q). plain w" unfolding set_append by blast
  from Fields_Join [OF this] have "Fields (QueryString q) = field_parts ?fs ?ks @ qBareTerms q"
    using False by (simp add: QueryString_def)
  moreover have "parse_tokens (field_parts ?fs ?ks) emptyQuery = Inr \<lparr>qFields = ?canon, qBareTerms = []\<rparr>"
    using parse_tokens_fields [of ?ks "[]" ?fs "[]"] fok field by (simp add: emptyQuery_def)
  moreover have "parse_tokens (qBareTerms q) \<lparr>qFields = ?canon, qBareTerms = []\<rparr> = Inr \<lparr>qFields = ?canon, qBareTerms = qBareTerms q\<rparr>"
    using parse_tokens_bare [of "qBareTerms q"] bare by simp
  ultimately have "Parse (QueryString q) = Inr \<lparr>qFields = ?canon, qBareTerms = qBareTerms q\<rparr>"
    by (simp add: Parse_def parse_tokens_append)
  moreover have "map_of ?fs k = map_of ?canon k" for k
  proof (cases "k \<in> set (gm_keys ?fs)")
    case True
    then show ?thesis using map_of_key_Some [OF True] by (auto simp: map_of_map_restrict gm_get_def restrict_map_def)
  next
    case False
    then have "map_of ?fs k = None" "map_of ?canon k = None"
      unfolding map_of_eq_None_iff by (simp_all add: image_image)
    then show ?thesis by simp
  qed
  moreover have "gm_keys ?canon = ?ks" by (simp add: comp_def)
  then have "mset (gm_keys ?fs) = mset (gm_keys ?canon)" by (metis mset_sort)
  ultimately show ?thesis by (auto simp: same_query_def simp del: mset_map)
qed

interpretation query: codec query_ok same_query QueryString Parse
  by unfold_locales (use Parse_ok Parse_QueryString QueryString_same in blast)+


section \<open>The tokens of a query\<close>

text \<open>The filter a token stands for, if it is not a bare term.\<close>

definition filter_of :: "string \<Rightarrow> (string \<times> string) option" where
  "filter_of raw =
     (let tok = ToLower raw in
      case map_of viewShortcuts tok of
        Some fv \<Rightarrow> Some fv
      | None \<Rightarrow> (case IndexByte tok (CHR '':'') of None \<Rightarrow> None | Some i \<Rightarrow> Some (take i tok, drop (i + 1) tok)))"

definition filter_valid :: "string \<times> string \<Rightarrow> bool" where
  "filter_valid fv \<longleftrightarrow> fst fv \<in> knownFields \<and> snd fv \<noteq> []"

definition values_of :: "string \<Rightarrow> string list \<Rightarrow> string list" where
  "values_of f toks = map snd (filter (\<lambda>fv. fst fv = f) (List.map_filter filter_of toks))"

definition bare_of :: "string list \<Rightarrow> string list" where
  "bare_of toks = map ToLower (filter (\<lambda>t. filter_of t = None) toks)"

lemma parse_token_filter:
  "parse_token raw q =
     (case filter_of raw of
        None \<Rightarrow> Inr (q\<lparr>qBareTerms := qBareTerms q @ [ToLower raw]\<rparr>)
      | Some (f, v) \<Rightarrow>
          if f = [] then Inl (EmptyFieldName raw) else if f \<notin> knownFields then Inl (UnknownField f)
          else if v = [] then Inl (NeedsValue f) else Inr (q\<lparr>qFields := appendField f v (qFields q)\<rparr>))"
proof (cases "map_of viewShortcuts (ToLower raw)")
  case (Some fv)
  obtain f v where "fv = (f, v)" by (cases fv)
  with Some viewShortcuts_ok [of "ToLower raw" f v] show ?thesis
    by (auto simp: parse_token_def filter_of_def knownFields_def)
qed (simp add: parse_token_def filter_of_def Let_def split: option.split)

lemma knownFields_nonempty: "f \<in> knownFields \<Longrightarrow> f \<noteq> []"
  by (auto simp: knownFields_def)

lemma values_of_simps [simp]:
  "values_of f [] = []"
  "values_of f (t # ts) = (case filter_of t of Some (g, v) \<Rightarrow> if g = f then v # values_of f ts else values_of f ts | None \<Rightarrow> values_of f ts)"
  by (auto simp: values_of_def map_filter_simps split: option.split)

lemma bare_of_simps [simp]:
  "bare_of [] = []" "bare_of (t # ts) = (if filter_of t = None then ToLower t # bare_of ts else bare_of ts)"
  by (simp_all add: bare_of_def)

lemma parse_tokens_spec:
  "(\<exists>q'. parse_tokens ts q = Inr q') \<longleftrightarrow> (\<forall>t \<in> set ts. \<forall>fv. filter_of t = Some fv \<longrightarrow> filter_valid fv)"
proof (induction ts arbitrary: q)
  case (Cons t ts)
  show ?case
  proof (cases "filter_of t")
    case None
    with Cons show ?thesis by (simp add: parse_token_filter)
  next
    case (Some fv)
    obtain f v where fv: "fv = (f, v)" by (cases fv)
    show ?thesis
    proof (cases "filter_valid fv")
      case True
      with Some fv Cons show ?thesis
        by (auto simp: parse_token_filter filter_valid_def dest: knownFields_nonempty)
    next
      case False
      with Some fv show ?thesis by (auto simp: parse_token_filter filter_valid_def)
    qed
  qed
qed simp

lemma parse_tokens_values_of:
  "parse_tokens ts q = Inr q' \<Longrightarrow>
   gm_get [] (qFields q') f = gm_get [] (qFields q) f @ values_of f ts \<and> qBareTerms q' = qBareTerms q @ bare_of ts"
proof (induction ts arbitrary: q)
  case (Cons t ts)
  then obtain q1 where q1: "parse_token t q = Inr q1" "parse_tokens ts q1 = Inr q'" by (auto split: sum.splits)
  show ?case
    using q1(1) Cons.IH [OF q1(2)]
    by (auto simp: parse_token_filter appendField_def split: option.splits if_splits)
qed simp

section \<open>What a match means\<close>

definition filter_holds :: "string \<Rightarrow> string list \<Rightarrow> string \<Rightarrow> Unit option \<Rightarrow> string \<Rightarrow> name list option \<Rightarrow> bool" where
  "filter_holds f vals name unit status inSet \<longleftrightarrow>
     (if f = ''in'' then (\<exists>s. inSet = Some s \<and> name \<in> set s) else field_value f unit status \<in> set vals)"

lemma match_fields_iff:
  "match_fields fs name unit status inSet \<longleftrightarrow> (\<forall>(f, vals) \<in> set fs. filter_holds f vals name unit status inSet)"
  by (induction fs name unit status inSet rule: match_fields.induct)
    (auto simp: filter_holds_def anyEquals_def list_ex_iff split: option.splits)

lemma Matches_iff:
  "Matches q name unit status inSet \<longleftrightarrow>
     (\<forall>t \<in> set (qBareTerms q). Contains (ToLower name) t) \<and>
     (\<forall>(f, vals) \<in> set (qFields q). filter_holds f vals name unit status inSet)"
  by (auto simp: Matches_def IsEmpty_def list_ex_iff match_fields_iff)

lemma query_ok_fields:
  assumes "query_ok q"
  shows "(\<forall>(f, vals) \<in> set (qFields q). P f vals) \<longleftrightarrow>
    (\<forall>f. gm_get [] (qFields q) f \<noteq> [] \<longrightarrow> P f (gm_get [] (qFields q) f))"
proof -
  have ok: "gm_ok (qFields q)" and ne: "\<And>f vals. (f, vals) \<in> set (qFields q) \<Longrightarrow> vals \<noteq> []"
    using query_okD [OF assms] by (simp, auto simp: field_ok_def)
  have "(f, vals) \<in> set (qFields q) \<longleftrightarrow> gm_get [] (qFields q) f = vals \<and> vals \<noteq> []" for f vals
    using map_of_eq_Some_iff [OF ok, of f vals] ne [of f vals]
    by (cases "map_of (qFields q) f") (auto simp: gm_get_def)
  then show ?thesis by (metis (no_types, lifting) case_prodD case_prodI2)
qed

section \<open>What the closure holds\<close>

definition in_visit :: "Project \<Rightarrow> name \<Rightarrow> name \<Rightarrow> name option" where
  "in_visit p d name = (let real = in_resolve p d name in if find_unit p d real = None then None else Some real)"

abbreviation in_visits :: "Project \<Rightarrow> name \<Rightarrow> name list \<Rightarrow> name set" where
  "in_visits p d ns \<equiv> {b. \<exists>n \<in> set ns. in_visit p d n = Some b}"

definition in_edges :: "Project \<Rightarrow> name \<Rightarrow> (name \<times> name) set" where
  "in_edges p d = {(a, b). \<exists>u. find_unit p d a = Some u \<and> b \<in> in_visits p d (in_deps u d)}"

lemma in_walk_reach:
  "in_edges p d `` set seen \<subseteq> set seen \<union> in_visits p d todo \<Longrightarrow> distinct seen \<Longrightarrow>
   distinct (in_walk p d todo seen) \<and>
   set (in_walk p d todo seen) = (in_edges p d)\<^sup>* `` (set seen \<union> in_visits p d todo)"
proof (induction p d todo seen rule: in_walk.induct)
  case (1 p d seen)
  then show ?case using rtrancl_Image_closed [of "in_edges p d" "set seen"] by simp
next
  case (2 p d name todo seen)
  let ?n = "in_resolve p d name"
  show ?case
  proof (cases "find_unit p d ?n")
    case None
    then have "in_visits p d (name # todo) = in_visits p d todo" by (auto simp: in_visit_def)
    with 2 None show ?thesis by (simp add: Let_def)
  next
    case (Some u)
    then have vis: "in_visits p d (name # todo) = insert ?n (in_visits p d todo)" by (auto simp: in_visit_def)
    show ?thesis
    proof (cases "?n \<in> set seen")
      case True
      then have "set seen \<union> in_visits p d (name # todo) = set seen \<union> in_visits p d todo"
        unfolding vis by blast
      with 2 Some True show ?thesis by (simp add: Let_def)
    next
      case False
      let ?D = "in_visits p d (in_deps u d)"
      have n: "in_edges p d `` {?n} = ?D" using Some by (auto simp: in_edges_def)
      have app: "in_visits p d (in_deps u d @ todo) = ?D \<union> in_visits p d todo" by auto
      have "in_edges p d `` set (?n # seen) \<subseteq> set (?n # seen) \<union> in_visits p d (in_deps u d @ todo)"
        using "2.prems"(1) n unfolding app vis by auto
      then have IH: "distinct (in_walk p d (in_deps u d @ todo) (?n # seen))"
        "set (in_walk p d (in_deps u d @ todo) (?n # seen)) =
          (in_edges p d)\<^sup>* `` (set (?n # seen) \<union> in_visits p d (in_deps u d @ todo))"
        using "2.IH"(3) [OF refl Some False] "2.prems"(2) False by simp_all
      let ?S = "insert ?n (set seen \<union> in_visits p d todo)"
      have "?D \<subseteq> (in_edges p d)\<^sup>* `` ?S" using n by auto
      then have "(in_edges p d)\<^sup>* `` (?S \<union> ?D) = (in_edges p d)\<^sup>* `` ?S" by (rule rtrancl_Image_grow)
      moreover have "set (?n # seen) \<union> in_visits p d (in_deps u d @ todo) = ?S \<union> ?D" unfolding app by auto
      moreover have "set seen \<union> in_visits p d (name # todo) = ?S" unfolding vis by auto
      ultimately show ?thesis using IH Some False by (simp add: Let_def)
    qed
  qed
qed

lemma RuntimeClosure_set:
  "d \<noteq> [] \<Longrightarrow> \<exists>out. RuntimeClosure p roots d = Some out \<and>
    set out = (runtime_edges p d)\<^sup>* `` {n. \<exists>r \<in> set roots. visit_name p d r = Some n}"
  using closure_loop_reach [of "visit_all p d roots []" "visit_all p d roots []" p d] visit_all_spec [of p d roots "[]"]
  by (auto simp: RuntimeClosure_def Let_def)


lemma field_query_empty: "query_ok q \<Longrightarrow> gm_get [] (qFields q) f = values_of f ts \<Longrightarrow> f \<notin> knownFields \<Longrightarrow> values_of f ts = []"
  using query_okD(3) [of q f] by (cases "map_of (qFields q) f") (auto simp: gm_get_def field_ok_def)

section \<open>Properties\<close>

text \<open>
  C33. The printed form of a parsed query parses back to the same query, and printing that
  gives the same text again: the form that the interface saves as the default query is
  canonical and always parses.
\<close>

theorem Parse_roundtrip:
  assumes "Parse s = Inr q"
  shows "\<exists>q'. Parse (QueryString q) = Inr q' \<and> map_of (qFields q') = map_of (qFields q) \<and>
    qBareTerms q' = qBareTerms q \<and> QueryString q' = QueryString q"
  using query.reparse [OF assms] by (auto simp: same_query_def)

theorem Parse_roundtrip_witness:
  "\<exists>q'. Parse ''status:failed type:image zlib'' = Inr q' \<and> qBareTerms q' = [''zlib'']"
proof -
  let ?q = "\<lparr>qFields = [(''type'', [''image'']), (''status'', [''failed''])], qBareTerms = [''zlib'']\<rparr>"
  have "Parse ''images ZLIB failed'' = Inr ?q" and "QueryString ?q = ''status:failed type:image zlib''"
    by code_simp+
  with Parse_roundtrip [of "''images ZLIB failed''" ?q] show ?thesis by auto
qed

text \<open>
  A query parses exactly when each of its field filters names a known field and has a
  value. Then a unit matches exactly when its name contains every bare term and every
  field that occurs in the query has a value among the ones given for that field: values of
  one field are alternatives, fields and terms must all hold.
\<close>

theorem Matches_Parse:
  "(case Parse s of
      Inl err \<Rightarrow> \<exists>t \<in> set (Fields s). \<exists>fv. filter_of t = Some fv \<and> \<not> filter_valid fv
    | Inr q \<Rightarrow>
        (\<forall>t \<in> set (Fields s). \<forall>fv. filter_of t = Some fv \<longrightarrow> filter_valid fv) \<and>
        (\<forall>name unit status inSet. Matches q name unit status inSet \<longleftrightarrow>
           (\<forall>t \<in> set (bare_of (Fields s)). Contains (ToLower name) t) \<and>
           (\<forall>f \<in> knownFields. values_of f (Fields s) \<noteq> [] \<longrightarrow>
              filter_holds f (values_of f (Fields s)) name unit status inSet)))"
proof (cases "Parse s")
  case (Inl err)
  then show ?thesis using parse_tokens_spec [of "Fields s" emptyQuery] by (auto simp: Parse_def)
next
  case (Inr q)
  have ok: "query_ok q" using Parse_ok Inr by blast
  have vals: "gm_get [] (qFields q) f = values_of f (Fields s)" "qBareTerms q = bare_of (Fields s)" for f
    using parse_tokens_values_of [of "Fields s" emptyQuery q f] Inr by (simp_all add: Parse_def emptyQuery_def)
  have "Matches q name unit status inSet \<longleftrightarrow>
      (\<forall>t \<in> set (bare_of (Fields s)). Contains (ToLower name) t) \<and>
      (\<forall>f. values_of f (Fields s) \<noteq> [] \<longrightarrow> filter_holds f (values_of f (Fields s)) name unit status inSet)"
    for name unit status inSet
    unfolding Matches_iff query_ok_fields [OF ok] vals ..
  moreover have "f \<in> knownFields" if "values_of f (Fields s) \<noteq> []" for f
    using field_query_empty [OF ok vals(1)] that by blast
  ultimately have "\<forall>name unit status inSet. Matches q name unit status inSet \<longleftrightarrow>
      (\<forall>t \<in> set (bare_of (Fields s)). Contains (ToLower name) t) \<and>
      (\<forall>f \<in> knownFields. values_of f (Fields s) \<noteq> [] \<longrightarrow> filter_holds f (values_of f (Fields s)) name unit status inSet)"
    by blast
  then show ?thesis using parse_tokens_spec [of "Fields s" emptyQuery] Inr by (simp add: Parse_def)
qed

theorem Matches_Parse_witness:
  "\<exists>q. Parse ''type:image type:unit lib'' = Inr q \<and>
     Matches q ''zLib'' (Some (zero_unit\<lparr>uClass := ''unit''\<rparr>)) [] None"
proof -
  let ?q = "\<lparr>qFields = [(''type'', [''image'', ''unit''])], qBareTerms = [''lib'']\<rparr>"
  have p: "Parse ''type:image type:unit lib'' = Inr ?q" by code_simp
  have f: "Fields ''type:image type:unit lib'' = [''type:image'', ''type:unit'', ''lib'']"
    "filter_of ''type:image'' = Some (''type'', ''image'')" "filter_of ''type:unit'' = Some (''type'', ''unit'')"
    "filter_of ''lib'' = None" "ToLower ''lib'' = ''lib''" "Contains (ToLower ''zLib'') ''lib''" "ToLower ''unit'' = ''unit''"
    by code_simp+
  have "Matches ?q ''zLib'' (Some (zero_unit\<lparr>uClass := ''unit''\<rparr>)) [] None"
    using Matches_Parse [of "''type:image type:unit lib''"] unfolding p
    by (simp add: f knownFields_def filter_holds_def field_value_def)
  with p show ?thesis by blast
qed

text \<open>
  The set behind an \<^verbatim>\<open>in:\<close> filter exists exactly when a unit has the name of the root. It holds
  exactly the units reachable from the routed root over build dependencies and image
  artifacts, and, when the project has a distro, what runtime dependencies reach from these.
  The walk ends on cyclic dependencies.
\<close>

theorem BuildInClosure_spec:
  "let d = (case EffectiveDistro p of Inl _ \<Rightarrow> [] | Inr d \<Rightarrow> d);
       walked = (in_edges p d)\<^sup>* `` in_visits p d [root]
   in case BuildInClosure p root of
        None \<Rightarrow> find_unit p d root = None
      | Some out \<Rightarrow> find_unit p d root \<noteq> None \<and>
          set out = walked \<union>
            (if d = [] then {} else (runtime_edges p d)\<^sup>* `` {n. \<exists>r \<in> walked. visit_name p d r = Some n})"
proof -
  define d where "d = (case EffectiveDistro p of Inl _ \<Rightarrow> [] | Inr d \<Rightarrow> d)"
  let ?W = "in_walk p d [root] []"
  have W: "set ?W = (in_edges p d)\<^sup>* `` in_visits p d [root]"
    using in_walk_reach [of p d "[]" "[root]"] by simp
  show ?thesis
  proof (cases "find_unit p d root = None \<or> d = []")
    case True
    then show ?thesis unfolding W [symmetric] BuildInClosure_def Let_def d_def [symmetric]
      by (auto simp del: in_walk.simps split: option.split)
  next
    case False
    then obtain out where "RuntimeClosure p ?W d = Some out"
      "set out = (runtime_edges p d)\<^sup>* `` {n. \<exists>r \<in> set ?W. visit_name p d r = Some n}"
      using RuntimeClosure_set [of d p ?W] by blast
    with False show ?thesis unfolding W [symmetric] BuildInClosure_def Let_def d_def [symmetric]
      by (auto simp del: in_walk.simps)
  qed
qed

text \<open>
  A unit that another unit provides is routed away: the closure of such a root does not hold
  the root itself.
\<close>

definition ex_routed :: Project where
  "ex_routed = zero_project\<lparr>
     pUnitsByModule := [([], [(''libcrypto3'', zero_unit\<lparr>uName := ''libcrypto3''\<rparr>),
                              (''openssl'', zero_unit\<lparr>uName := ''openssl''\<rparr>)])],
     pProvides := [(''libcrypto3'', ''openssl'')]\<rparr>"

lemma in_root_not_included: "BuildInClosure ex_routed ''libcrypto3'' = Some [''openssl'']"
  by (simp add: BuildInClosure_def ex_routed_def EffectiveDistro_def find_unit_def LookupUnit_def AnyUnit_def
      better_def in_resolve_def in_deps_def DepsForDistro_def zero_unit_def zero_project_def)

end
