(* ===== verification/ApkVersion.thy ===== *)
theory ApkVersion
  imports GoStrings "HOL-Library.Product_Lexorder" "HOL-Library.Word"
begin

text \<open>
  The version comparison of \<^verbatim>\<open>internal/apkindex/provides.go\<close> and the release splitting of
  \<^verbatim>\<open>provides.go\<close> and \<^verbatim>\<open>materialize.go\<close>. Versions are ASCII, where a rune is a byte. Go's \<^verbatim>\<open>int\<close> has
  64 bits and its arithmetic wraps.
\<close>

section \<open>Splitting\<close>

definition allDigits :: "string \<Rightarrow> bool" where
  "allDigits s \<longleftrightarrow> s \<noteq> [] \<and> list_all isDigit s"

text \<open>\<^verbatim>\<open>strings.LastIndex(v, "-r")\<close>.\<close>

fun LastIndex :: "string \<Rightarrow> string \<Rightarrow> nat option" where
  "LastIndex [] sub = (if sub = [] then Some 0 else None)"
| "LastIndex (c # s) sub =
     (case LastIndex s sub of
        Some i \<Rightarrow> Some (Suc i)
      | None \<Rightarrow> if HasPrefix (c # s) sub then Some 0 else None)"

definition digit_word :: "char \<Rightarrow> 64 word" where
  "digit_word c = word_of_int (int (of_char c) - 48)"

definition parse_int :: "string \<Rightarrow> 64 word" where
  "parse_int s = foldl (\<lambda>n c. n * 10 + digit_word c) 0 s"

definition splitRelease :: "string \<Rightarrow> string \<times> int" where
  "splitRelease v =
     (case LastIndex v ''-r'' of
        None \<Rightarrow> (v, 0)
      | Some i \<Rightarrow>
          (let tail = drop (i + 2) v in
           if tail = [] \<or> \<not> allDigits tail then (v, 0) else (take i v, sint (parse_int tail))))"

text \<open>
  The early return inside the loop of \<^verbatim>\<open>splitPkgver\<close> leaves the loop without a result, so testing
  the whole tail first is the same.
\<close>

definition splitPkgver :: "string \<Rightarrow> string \<times> int" where
  "splitPkgver pkgver =
     (case LastIndex pkgver ''-r'' of
        None \<Rightarrow> (pkgver, 0)
      | Some i \<Rightarrow>
          (let tail = drop (i + 2) pkgver in
           if tail = [] then (pkgver, 0)
           else if list_ex (\<lambda>c. of_char c < (48 :: nat) \<or> (57 :: nat) < of_char c) tail then (pkgver, 0)
           else (take i pkgver, sint (parse_int tail))))"

definition seg_flush :: "string list \<Rightarrow> string \<Rightarrow> string list" where
  "seg_flush out cur = (if 0 < length cur then out @ [cur] else out)"

fun seg_loop :: "string \<Rightarrow> string list \<Rightarrow> string \<Rightarrow> nat \<Rightarrow> string list" where
  "seg_loop [] out cur prevKind = seg_flush out cur"
| "seg_loop (r # v) out cur prevKind =
     (if r = CHR ''.'' \<or> r = CHR ''_'' \<or> r = CHR ''+'' \<or> r = CHR ''-'' then
        seg_loop v (if r = CHR ''_'' then seg_flush out cur @ [''_''] else seg_flush out cur) [] 0
      else if isDigit r then
        (if prevKind = 2 then seg_loop v (seg_flush out cur) [r] 1 else seg_loop v out (cur @ [r]) 1)
      else (if prevKind = 1 then seg_loop v (seg_flush out cur) [r] 2 else seg_loop v out (cur @ [r]) 2))"

definition splitVerSegments :: "string \<Rightarrow> string list" where
  "splitVerSegments v = (if v = [] then [] else seg_loop v [] [] 0)"

section \<open>Comparison\<close>

definition Compare :: "string \<Rightarrow> string \<Rightarrow> int" where
  "Compare a b = (if a < b then -1 else if b < a then 1 else 0)"

definition isPrereleaseSegment :: "string \<Rightarrow> bool" where
  "isPrereleaseSegment s \<longleftrightarrow>
     s \<in> {''alpha'', ''beta'', ''pre'', ''rc'', ''_''} \<or>
     HasPrefix s ''alpha'' \<or> HasPrefix s ''beta'' \<or> HasPrefix s ''pre'' \<or> HasPrefix s ''rc''"

definition compareNumericString :: "string \<Rightarrow> string \<Rightarrow> int" where
  "compareNumericString a b =
     (let a' = dropWhile (\<lambda>c. c = CHR ''0'') a; b' = dropWhile (\<lambda>c. c = CHR ''0'') b in
      if length a' < length b' then -1 else if length b' < length a' then 1 else Compare a' b')"

definition compareInts :: "int \<Rightarrow> int \<Rightarrow> int" where
  "compareInts a b = (if a < b then -1 else if b < a then 1 else 0)"

definition compareSegment :: "string \<Rightarrow> string \<Rightarrow> int" where
  "compareSegment a b =
     (let aPre = isPrereleaseSegment a; bPre = isPrereleaseSegment b in
      if aPre \<and> \<not> bPre then -1
      else if bPre \<and> \<not> aPre then 1
      else if allDigits a \<and> allDigits b then compareNumericString a b
      else Compare a b)"

fun compare_segs :: "string list \<Rightarrow> string list \<Rightarrow> int" where
  "compare_segs [] [] = 0"
| "compare_segs [] (b # bs) = (if isPrereleaseSegment b then 1 else -1)"
| "compare_segs (a # as) [] = (if isPrereleaseSegment a then -1 else 1)"
| "compare_segs (a # as) (b # bs) =
     (let c = compareSegment a b in if c \<noteq> 0 then c else compare_segs as bs)"

definition comparePkgver :: "string \<Rightarrow> string \<Rightarrow> int" where
  "comparePkgver a b = compare_segs (splitVerSegments a) (splitVerSegments b)"

definition compareVersions :: "string \<Rightarrow> string \<Rightarrow> int" where
  "compareVersions a b =
     (if a = b then 0
      else (let (av, ar) = splitRelease a; (bv, br) = splitRelease b; c = comparePkgver av bv in
            if c \<noteq> 0 then c else compareInts ar br))"

section \<open>Decimal strings\<close>

lemma digits_val_Nil [simp]: "digits_val [] = 0"
  by (simp add: digits_val_def)

lemma digits_val_snoc: "digits_val (s @ [c]) = 10 * digits_val s + digit_val c"
  by (simp add: digits_val_def)

lemma digits_val_Cons: "digits_val (c # s) = digit_val c * 10 ^ length s + digits_val s"
proof (induction s rule: rev_induct)
  case (snoc d s)
  then show ?case using digits_val_snoc [of "c # s" d] by (simp add: digits_val_snoc algebra_simps)
qed (simp add: digits_val_def)

lemma digit_val_le: "isDigit c \<Longrightarrow> digit_val c \<le> 9"
  unfolding isDigit_def digit_val_def by linarith

lemma digits_val_bound: "list_all isDigit s \<Longrightarrow> digits_val s < 10 ^ length s"
proof (induction s)
  case (Cons c s)
  then have "digit_val c \<le> 9" "digits_val s < 10 ^ length s" by (simp_all add: digit_val_le)
  then have "digit_val c * 10 ^ length s + digits_val s < 9 * 10 ^ length s + 10 ^ length s"
    by (intro add_le_less_mono mult_right_mono) simp_all
  then show ?case by (simp add: digits_val_Cons)
qed simp

lemma digit_less_iff: "isDigit c \<Longrightarrow> isDigit d \<Longrightarrow> c < d \<longleftrightarrow> digit_val c < digit_val d"
  by (auto simp: less_char_def isDigit_def digit_val_def)

lemma digit_eq_iff: "isDigit c \<Longrightarrow> isDigit d \<Longrightarrow> c = d \<longleftrightarrow> digit_val c = digit_val d"
proof -
  assume "isDigit c" "isDigit d"
  then have "digit_val c = digit_val d \<longleftrightarrow> (of_char c :: nat) = of_char d"
    unfolding isDigit_def digit_val_def by linarith
  then show ?thesis by simp
qed

lemma digits_less_iff:
  "length a = length b \<Longrightarrow> list_all isDigit a \<Longrightarrow> list_all isDigit b \<Longrightarrow> a < b \<longleftrightarrow> digits_val a < digits_val b"
proof (induction a b rule: list_induct2)
  case (Cons c a d b)
  let ?p = "10 ^ length a :: nat"
  have bounds: "digits_val a < ?p" "digits_val b < ?p"
    using Cons.prems Cons.hyps digits_val_bound [of a] digits_val_bound [of b] by simp_all
  have "digit_val c * ?p + digits_val a < digit_val d * ?p + digits_val b \<longleftrightarrow>
      digit_val c < digit_val d \<or> digit_val c = digit_val d \<and> digits_val a < digits_val b"
  proof (cases "digit_val c" "digit_val d" rule: linorder_cases)
    case less
    then have "Suc (digit_val c) * ?p \<le> digit_val d * ?p" by (intro mult_right_mono) simp_all
    with bounds less show ?thesis by simp
  next
    case greater
    then have "Suc (digit_val d) * ?p \<le> digit_val c * ?p" by (intro mult_right_mono) simp_all
    with bounds greater show ?thesis by simp
  qed simp
  with Cons show ?case
    by (auto simp: digits_val_Cons digit_less_iff digit_eq_iff)
qed simp

lemma digits_val_trim: "digits_val (dropWhile (\<lambda>c. c = CHR ''0'') s) = digits_val s"
  by (induction s) (simp_all add: digits_val_Cons digit_val_def)

lemma trim_lower_bound:
  assumes "list_all isDigit s" and "s \<noteq> []" and "hd s \<noteq> CHR ''0''"
  shows "10 ^ (length s - 1) \<le> digits_val s"
proof -
  obtain c t where s: "s = c # t" using assms(2) by (cases s) auto
  have "isDigit c" "c \<noteq> CHR ''0''" using assms s by auto
  then have "digit_val c \<noteq> digit_val (CHR ''0'')" using digit_eq_iff [of c "CHR ''0''"] by (simp add: isDigit_def)
  then have "1 \<le> digit_val c" by (simp add: digit_val_def)
  then have "1 * 10 ^ length t \<le> digit_val c * 10 ^ length t" by (intro mult_right_mono) simp_all
  then have "10 ^ length t \<le> digit_val c * 10 ^ length t + digits_val t" by linarith
  then show ?thesis by (simp add: s digits_val_Cons)
qed

lemma trimmed_shorter:
  assumes "list_all isDigit a" and "list_all isDigit b" and "length a < length b" and "b \<noteq> [] \<Longrightarrow> hd b \<noteq> CHR ''0''"
  shows "digits_val a < digits_val b"
proof -
  have "(10 :: nat) ^ length a \<le> 10 ^ (length b - 1)" using assms(3) by (intro power_increasing) simp_all
  also have "\<dots> \<le> digits_val b" using assms(2,3,4) by (intro trim_lower_bound) force+
  finally show ?thesis using digits_val_bound [OF assms(1)] by simp
qed

definition cmp_sign :: "'a::linorder \<Rightarrow> 'a \<Rightarrow> int" where
  "cmp_sign a b = (if a < b then -1 else if b < a then 1 else 0)"

lemma compareNumericString_val:
  assumes "list_all isDigit a" and "list_all isDigit b"
  shows "compareNumericString a b = cmp_sign (digits_val a) (digits_val b)"
proof -
  let ?z = "\<lambda>c. c = CHR ''0''"
  let ?a = "dropWhile ?z a" and ?b = "dropWhile ?z b"
  have d: "list_all isDigit ?a" "list_all isDigit ?b"
    using assms set_dropWhileD unfolding list_all_iff by metis+
  have h: "?a \<noteq> [] \<Longrightarrow> hd ?a \<noteq> CHR ''0''" "?b \<noteq> [] \<Longrightarrow> hd ?b \<noteq> CHR ''0''"
    using hd_dropWhile by blast+
  show ?thesis
  proof (cases "length ?a" "length ?b" rule: linorder_cases)
    case less
    from trimmed_shorter [OF d this h(2)] have "digits_val a < digits_val b" by (simp add: digits_val_trim)
    with less show ?thesis by (simp add: compareNumericString_def cmp_sign_def)
  next
    case equal
    with digits_less_iff [OF equal d] digits_less_iff [OF equal [symmetric] d(2,1)] show ?thesis
      by (simp add: compareNumericString_def cmp_sign_def Compare_def digits_val_trim)
  next
    case greater
    from trimmed_shorter [OF d(2,1) this h(1)] have "digits_val b < digits_val a" by (simp add: digits_val_trim)
    with greater show ?thesis by (simp add: compareNumericString_def cmp_sign_def)
  qed
qed


section \<open>The order behind the comparison\<close>

text \<open>
  Every version has a key in a linear order, and \<^const>\<open>compareVersions\<close> compares keys. Segments
  are ranked prerelease tags, end of the version, letters below the digits, numbers, other
  letters; numbers by value, the others as strings.
\<close>

definition seg_ok :: "string \<Rightarrow> bool" where
  "seg_ok s \<longleftrightarrow> s \<noteq> [] \<and> (list_all isDigit s \<or> list_all (\<lambda>c. \<not> isDigit c) s)"

definition seg_key :: "string \<Rightarrow> nat \<times> nat \<times> string" where
  "seg_key s =
     (if isPrereleaseSegment s then (0, 0, s)
      else if allDigits s then (3, digits_val s, [])
      else if s < ''0'' then (2, 0, s) else (4, 0, s))"

definition end_key :: "nat \<times> nat \<times> string" where
  "end_key = (1, 0, [])"

definition version_key :: "string \<Rightarrow> (nat \<times> nat \<times> string) list \<times> int" where
  "version_key v = (let (pkgver, release) = splitRelease v in (map seg_key (splitVerSegments pkgver) @ [end_key], release))"

lemma seg_flush_ok: "\<forall>s \<in> set out. seg_ok s \<Longrightarrow> cur = [] \<or> seg_ok cur \<Longrightarrow> \<forall>s \<in> set (seg_flush out cur). seg_ok s"
  by (auto simp: seg_flush_def)

text \<open>The kind of the run being collected.\<close>

definition run_ok :: "nat \<Rightarrow> string \<Rightarrow> bool" where
  "run_ok k cur \<longleftrightarrow>
     k = 0 \<and> cur = [] \<or> k = 1 \<and> cur \<noteq> [] \<and> list_all isDigit cur \<or> k = 2 \<and> cur \<noteq> [] \<and> list_all (\<lambda>c. \<not> isDigit c) cur"

lemma run_ok_seg: "run_ok k cur \<Longrightarrow> cur = [] \<or> seg_ok cur"
  by (auto simp: run_ok_def seg_ok_def)

lemma run_ok_simps:
  "run_ok 0 []" "isDigit r \<Longrightarrow> run_ok 1 [r]" "\<not> isDigit r \<Longrightarrow> run_ok 2 [r]"
  "run_ok k cur \<Longrightarrow> k \<noteq> 2 \<Longrightarrow> isDigit r \<Longrightarrow> run_ok 1 (cur @ [r])"
  "run_ok k cur \<Longrightarrow> k \<noteq> 1 \<Longrightarrow> \<not> isDigit r \<Longrightarrow> run_ok 2 (cur @ [r])"
  by (auto simp: run_ok_def)

lemma seg_loop_ok:
  "\<forall>s \<in> set out. seg_ok s \<Longrightarrow> run_ok k cur \<Longrightarrow>
   \<forall>s \<in> set (seg_loop v out cur k). seg_ok s"
proof (induction v out cur k rule: seg_loop.induct)
  case (1 out cur k)
  then show ?case using seg_flush_ok [of out cur] run_ok_seg by simp
next
  case (2 r v out cur k)
  have flush: "\<forall>s \<in> set (seg_flush out cur). seg_ok s"
    using "2.prems" run_ok_seg by (intro seg_flush_ok) simp_all
  moreover have "seg_ok ''_''" by (simp add: seg_ok_def isDigit_def)
  ultimately have "\<forall>s \<in> set (if r = CHR ''_'' then seg_flush out cur @ [''_''] else seg_flush out cur). seg_ok s" by simp
  note sep = this
  show ?case
  proof (cases "r = CHR ''.'' \<or> r = CHR ''_'' \<or> r = CHR ''+'' \<or> r = CHR ''-''")
    case True
    from "2.IH"(1) [OF True sep run_ok_simps(1)] show ?thesis using True by (simp only: seg_loop.simps if_True)
  next
    case sep: False
    show ?thesis
    proof (cases "isDigit r")
      case True
      show ?thesis
      proof (cases "k = 2")
        case k: True
        from "2.IH"(2) [OF sep True k flush run_ok_simps(2) [OF True]] show ?thesis
          using sep True k by (simp only: seg_loop.simps if_True if_False simp_thms)
      next
        case k: False
        from "2.IH"(3) [OF sep True k "2.prems"(1) run_ok_simps(4) [OF "2.prems"(2) k True]] show ?thesis
          using sep True k by (simp only: seg_loop.simps if_True if_False simp_thms)
      qed
    next
      case False
      show ?thesis
      proof (cases "k = 1")
        case k: True
        from "2.IH"(4) [OF sep False k flush run_ok_simps(3) [OF False]] show ?thesis
          using sep False k by (simp only: seg_loop.simps if_True if_False simp_thms)
      next
        case k: False
        from "2.IH"(5) [OF sep False k "2.prems"(1) run_ok_simps(5) [OF "2.prems"(2) k False]] show ?thesis
          using sep False k by (simp only: seg_loop.simps if_True if_False simp_thms)
      qed
    qed
  qed
qed

lemma splitVerSegments_ok: "s \<in> set (splitVerSegments v) \<Longrightarrow> seg_ok s"
  using seg_loop_ok [of "[]" 0 "[]" v] by (auto simp: splitVerSegments_def run_ok_simps split: if_splits)

lemma prerelease_not_digits: "isPrereleaseSegment s \<Longrightarrow> \<not> allDigits s"
  by (auto simp: isPrereleaseSegment_def allDigits_def isDigit_def HasPrefix_iff)

lemma digit_char_less: "isDigit d \<Longrightarrow> \<not> isDigit c \<Longrightarrow> c < d \<longleftrightarrow> c < CHR ''0''"
  by (auto simp: less_char_def isDigit_def)

lemma digits_vs_letters:
  assumes "allDigits a" and "seg_ok b" and "\<not> allDigits b"
  shows "b < a \<longleftrightarrow> b < ''0''" "a < b \<longleftrightarrow> \<not> b < ''0''" "a \<noteq> b"
proof -
  obtain d a' where a: "a = d # a'" "isDigit d" using assms(1) by (cases a) (auto simp: allDigits_def)
  obtain c b' where b: "b = c # b'" "\<not> isDigit c" using assms(2,3) by (cases b) (auto simp: allDigits_def seg_ok_def)
  have ne: "c \<noteq> d" "c \<noteq> CHR ''0''" using a(2) b(2) by (auto simp: isDigit_def)
  show "b < a \<longleftrightarrow> b < ''0''" using a b ne digit_char_less [of d c] by simp
  show "a < b \<longleftrightarrow> \<not> b < ''0''" using a b ne digit_char_less [of d c] by auto
  show "a \<noteq> b" using a b ne by simp
qed

lemma compareSegment_key:
  assumes "seg_ok a" and "seg_ok b"
  shows "compareSegment a b = cmp_sign (seg_key a) (seg_key b)"
proof (cases "isPrereleaseSegment a \<or> isPrereleaseSegment b")
  case True
  then show ?thesis
    using prerelease_not_digits [of a] prerelease_not_digits [of b]
    by (auto simp: compareSegment_def seg_key_def cmp_sign_def Compare_def Let_def)
next
  case False
  show ?thesis
  proof (cases "allDigits a"; cases "allDigits b")
    assume "allDigits a" "allDigits b"
    with False compareNumericString_val [of a b] show ?thesis
      by (simp add: compareSegment_def seg_key_def cmp_sign_def allDigits_def)
  next
    assume "allDigits a" "\<not> allDigits b"
    with False digits_vs_letters [of a b] assms show ?thesis
      by (auto simp: compareSegment_def seg_key_def cmp_sign_def Compare_def)
  next
    assume "\<not> allDigits a" "allDigits b"
    with False digits_vs_letters [of b a] assms show ?thesis
      by (auto simp: compareSegment_def seg_key_def cmp_sign_def Compare_def)
  next
    assume "\<not> allDigits a" "\<not> allDigits b"
    with False show ?thesis
      by (auto simp: compareSegment_def seg_key_def cmp_sign_def Compare_def)
  qed
qed

lemma end_key_less: "end_key < seg_key s \<longleftrightarrow> \<not> isPrereleaseSegment s" "seg_key s < end_key \<longleftrightarrow> isPrereleaseSegment s"
  "seg_key s \<noteq> end_key" "end_key \<noteq> seg_key s"
  by (auto simp: end_key_def seg_key_def)

lemma cmp_sign_Cons: "cmp_sign (x # xs) (y # ys) = (let c = cmp_sign x y in if c \<noteq> 0 then c else cmp_sign xs ys)"
  by (auto simp: cmp_sign_def)

lemma cmp_sign_simps [simp]: "cmp_sign x x = 0"
  by (simp add: cmp_sign_def)

lemma compare_segs_key:
  "\<forall>s \<in> set as. seg_ok s \<Longrightarrow> \<forall>s \<in> set bs. seg_ok s \<Longrightarrow>
   compare_segs as bs = cmp_sign (map seg_key as @ [end_key]) (map seg_key bs @ [end_key])"
proof (induction as bs rule: compare_segs.induct)
  case (4 a as b bs)
  then have "compareSegment a b = cmp_sign (seg_key a) (seg_key b)" by (intro compareSegment_key) simp_all
  with 4 show ?case by (simp add: cmp_sign_Cons Let_def del: append_Cons add: append_Cons)
qed (auto simp: cmp_sign_Cons cmp_sign_def end_key_less)

lemma cmp_sign_pair: "cmp_sign (x, i) (y, j) = (let c = cmp_sign x y in if c \<noteq> 0 then c else cmp_sign i j)"
  by (auto simp: cmp_sign_def)

lemma comparePkgver_key:
  "comparePkgver a b = cmp_sign (map seg_key (splitVerSegments a) @ [end_key]) (map seg_key (splitVerSegments b) @ [end_key])"
  unfolding comparePkgver_def by (intro compare_segs_key) (simp_all add: splitVerSegments_ok)

lemma compareInts_cmp: "compareInts a b = cmp_sign a b"
  by (simp add: compareInts_def cmp_sign_def)

lemma compareVersions_cmp: "compareVersions a b = cmp_sign (version_key a) (version_key b)"
proof (cases "a = b")
  case False
  obtain av ar bv br where "splitRelease a = (av, ar)" "splitRelease b = (bv, br)" by (cases "splitRelease a"; cases "splitRelease b") auto
  with False show ?thesis
    by (simp add: compareVersions_def version_key_def cmp_sign_pair comparePkgver_key compareInts_cmp Let_def)
qed (simp add: compareVersions_def)


section \<open>Releases\<close>

lemma LastIndex_digits: "list_all isDigit s \<Longrightarrow> LastIndex s ''-r'' = None"
  by (induction s) (auto simp: HasPrefix_def isDigit_def)

lemma LastIndex_tail: "list_all isDigit s \<Longrightarrow> LastIndex (v @ ''-r'' @ s) ''-r'' = Some (length v)"
proof (induction v)
  case Nil
  then show ?case by (simp add: LastIndex_digits HasPrefix_def)
qed simp

lemma parse_int_val: "list_all isDigit s \<Longrightarrow> parse_int s = word_of_int (int (digits_val s))"
proof (induction s rule: rev_induct)
  case (snoc c s)
  then have "int (of_char c) - 48 = int (digit_val c)" by (auto simp: digit_val_def isDigit_def)
  then have "digit_word c = of_nat (digit_val c)" by (simp add: digit_word_def del: of_int_diff)
  with snoc show ?case by (simp add: parse_int_def digits_val_snoc)
qed (simp add: parse_int_def)

lemma not_isDigit_iff: "\<not> isDigit c \<longleftrightarrow> of_char c < (48 :: nat) \<or> (57 :: nat) < of_char c"
  by (auto simp: isDigit_def)

lemma splitPkgver_tail:
  assumes "list_all isDigit tail" and "tail \<noteq> []"
  shows "splitPkgver (v @ ''-r'' @ tail) = (v, signed_take_bit 63 (int (digits_val tail)))"
proof -
  have "\<not> list_ex (\<lambda>c. of_char c < (48 :: nat) \<or> (57 :: nat) < of_char c) tail"
    using assms(1) by (auto simp: list_ex_iff list_all_iff isDigit_def)
  then show ?thesis
    using assms LastIndex_tail [OF assms(1), of v]
    by (simp add: splitPkgver_def parse_int_val sint_sbintrunc' [where 'a = 64, of "int n" for n, simplified])
qed

text \<open>Both splitting functions agree.\<close>

lemma splitRelease_splitPkgver: "splitRelease v = splitPkgver v"
  by (auto simp: splitRelease_def splitPkgver_def allDigits_def list_ex_iff list_all_iff isDigit_def Let_def not_le not_less
      split: option.split)

section \<open>Properties\<close>

text \<open>
  The comparison of package versions is a total preorder: it returns -1, 0 or 1, swapping the
  versions negates it, and it is transitive, whatever the versions look like.
\<close>

theorem compareVersions_preorder:
  "compareVersions a b \<in> {-1, 0, 1} \<and> compareVersions b a = - compareVersions a b \<and>
   (compareVersions a b \<le> 0 \<longrightarrow> compareVersions b c \<le> 0 \<longrightarrow> compareVersions a c \<le> 0)"
  by (auto simp: compareVersions_cmp cmp_sign_def)

theorem compareVersions_preorder_witness:
  "compareVersions ''1.2_rc1-r0'' ''1.2-r0'' = -1 \<and> compareVersions ''1.2_rc1-r0'' ''1.10-r1'' \<le> 0"
proof -
  have "compareVersions ''1.2_rc1-r0'' ''1.2-r0'' = -1" "compareVersions ''1.2-r0'' ''1.10-r1'' = -1" by code_simp+
  with compareVersions_preorder [of "''1.2_rc1-r0''" "''1.2-r0''" "''1.10-r1''"] show ?thesis by simp
qed

text \<open>
  A package version ends in \<^verbatim>\<open>-r\<close> and a release. Splitting it gives back the version and the
  release exactly when the release fits a signed 64-bit integer; a larger number wraps around.
\<close>

theorem splitPkgver_release:
  assumes "list_all isDigit tail" and "tail \<noteq> []"
  shows "fst (splitPkgver (v @ ''-r'' @ tail)) = v \<and>
    - (2 ^ 63) \<le> snd (splitPkgver (v @ ''-r'' @ tail)) \<and> snd (splitPkgver (v @ ''-r'' @ tail)) < 2 ^ 63 \<and>
    (snd (splitPkgver (v @ ''-r'' @ tail)) = int (digits_val tail) \<longleftrightarrow> digits_val tail < 2 ^ 63) \<and>
    (snd (splitPkgver (v @ ''-r'' @ tail)) - int (digits_val tail)) mod 2 ^ 64 = 0"
proof -
  let ?n = "int (digits_val tail)"
  have "- (2 ^ 63) \<le> signed_take_bit 63 ?n" "signed_take_bit 63 ?n < 2 ^ 63"
    by (rule signed_take_bit_int_greater_eq_minus_exp, rule signed_take_bit_int_less_exp)
  moreover have "signed_take_bit 63 ?n = ?n \<longleftrightarrow> digits_val tail < 2 ^ 63"
    by (subst signed_take_bit_int_eq_self_iff) simp
  moreover have "take_bit 64 (signed_take_bit 63 ?n) = take_bit 64 ?n"
    by (simp add: take_bit_signed_take_bit)
  then have "(signed_take_bit 63 ?n - ?n) mod 2 ^ 64 = 0"
    unfolding take_bit_eq_mod by (simp add: mod_eq_dvd_iff)
  ultimately show ?thesis unfolding splitPkgver_tail [OF assms] by simp
qed

theorem splitPkgver_release_witness:
  "splitPkgver ''3.2.1-r4'' = (''3.2.1'', 4) \<and> snd (splitPkgver ''1-r9223372036854775808'') \<noteq> 9223372036854775808"
proof -
  have v: "digits_val ''9223372036854775808'' = 9223372036854775808" "digits_val ''4'' = 4"
    by (simp_all add: digits_val_def digit_val_def)
  have d: "list_all isDigit ''9223372036854775808''" "list_all isDigit ''4''" by code_simp+
  have "fst (splitPkgver ''3.2.1-r4'') = ''3.2.1''" "snd (splitPkgver ''3.2.1-r4'') = 4"
    using splitPkgver_release [of "''4''" "''3.2.1''"] v d by simp_all
  moreover have "snd (splitPkgver ''1-r9223372036854775808'') \<noteq> 9223372036854775808"
    using splitPkgver_release [of "''9223372036854775808''" "''1''"] v d by simp
  ultimately show ?thesis by (simp add: prod_eq_iff)
qed

end
