(* ===== verification/Base64.thy ===== *)
theory Base64
  imports GoStrings
begin

text \<open>
  \<^verbatim>\<open>base64.StdEncoding\<close> and \<^verbatim>\<open>strconv.ParseInt(s, 10, 64)\<close> on byte strings, as far as the sources
  use them: the encoder, and the decoder, which skips line breaks and requires padding.
\<close>

section \<open>Base64\<close>

definition b64_char :: "nat \<Rightarrow> char" where
  "b64_char n =
     char_of (if n < 26 then 65 + n else if n < 52 then 71 + n else if n < 62 then n - 4 else if n = 62 then 43 else 47)"

definition b64_val :: "char \<Rightarrow> nat option" where
  "b64_val c =
     (let n = (of_char c :: nat) in
      if 65 \<le> n \<and> n \<le> 90 then Some (n - 65)
      else if 97 \<le> n \<and> n \<le> 122 then Some (n - 71)
      else if 48 \<le> n \<and> n \<le> 57 then Some (n + 4)
      else if n = 43 then Some 62
      else if n = 47 then Some 63
      else None)"

fun EncodeToString :: "string \<Rightarrow> string" where
  "EncodeToString [] = []"
| "EncodeToString [a] =
     (let x = (of_char a :: nat) in [b64_char (x div 4), b64_char (x mod 4 * 16), CHR ''='', CHR ''=''])"
| "EncodeToString [a, b] =
     (let x = (of_char a :: nat); y = (of_char b :: nat)
      in [b64_char (x div 4), b64_char (x mod 4 * 16 + y div 16), b64_char (y mod 16 * 4), CHR ''=''])"
| "EncodeToString (a # b # c # s) =
     (let x = (of_char a :: nat); y = (of_char b :: nat); z = (of_char c :: nat)
      in b64_char (x div 4) # b64_char (x mod 4 * 16 + y div 16) #
         b64_char (y mod 16 * 4 + z div 64) # b64_char (z mod 64) # EncodeToString s)"

fun decode_quads :: "string \<Rightarrow> string option" where
  "decode_quads [] = Some []"
| "decode_quads (a # b # c # d # s) =
     (case (b64_val a, b64_val b) of
        (Some i, Some j) \<Rightarrow>
          if c = CHR ''='' then
            (if d = CHR ''='' \<and> s = [] then Some [char_of (i * 4 + j div 16)] else None)
          else (case b64_val c of
                  None \<Rightarrow> None
                | Some k \<Rightarrow>
                    if d = CHR ''='' then
                      (if s = [] then Some [char_of (i * 4 + j div 16), char_of (j mod 16 * 16 + k div 4)] else None)
                    else (case b64_val d of
                            None \<Rightarrow> None
                          | Some l \<Rightarrow>
                              map_option (\<lambda>t. char_of (i * 4 + j div 16) # char_of (j mod 16 * 16 + k div 4) #
                                              char_of (k mod 4 * 64 + l) # t) (decode_quads s)))
      | _ \<Rightarrow> None)"
| "decode_quads s = None"

definition DecodeString :: "string \<Rightarrow> string option" where
  "DecodeString s = decode_quads (filter (\<lambda>c. c \<noteq> CHR 0x0A \<and> c \<noteq> CHR 0x0D) s)"

lemma b64_val_char [simp]:
  assumes "n < 64"
  shows "b64_val (b64_char n) = Some n"
proof -
  consider "n < 26" | "26 \<le> n" "n < 52" | "52 \<le> n" "n < 62" | "n = 62" | "n = 63" using assms by linarith
  then show ?thesis by cases (simp_all add: b64_val_def b64_char_def Let_def, linarith?)
qed

lemma b64_char_plain [simp]:
  assumes "n < 64"
  shows "b64_char n \<noteq> CHR ''=''" "b64_char n \<noteq> CHR 0x0A" "b64_char n \<noteq> CHR 0x0D"
proof -
  have "b64_val (CHR ''='') = None" "b64_val (CHR 0x0A) = None" "b64_val (CHR 0x0D) = None"
    by (simp_all add: b64_val_def)
  then show "b64_char n \<noteq> CHR ''=''" "b64_char n \<noteq> CHR 0x0A" "b64_char n \<noteq> CHR 0x0D"
    using b64_val_char [OF assms] by fastforce+
qed

lemma byte_bound [simp]: "(of_char c :: nat) div 4 < 64" "(of_char c :: nat) mod 4 * 16 < 64"
  "(of_char b :: nat) mod 16 * 4 < 64"
  "(of_char c :: nat) mod 4 * 16 + of_char b div 16 < 64" "(of_char b :: nat) mod 16 * 4 + of_char d div 64 < 64"
  "(of_char d :: nat) mod 64 < 64"
proof -
  have "(of_char c :: nat) < 64 * 4" "(of_char b :: nat) < 16 * 16" "(of_char d :: nat) < 4 * 64" by simp_all
  then have d: "(of_char c :: nat) div 4 < 64" "(of_char b :: nat) div 16 < 16" "(of_char d :: nat) div 64 < 4"
    by (simp_all only: less_mult_imp_div_less)
  have m: "(of_char c :: nat) mod 4 < 4" "(of_char b :: nat) mod 16 < 16" "(of_char d :: nat) mod 64 < 64" by simp_all
  from d(1) show "(of_char c :: nat) div 4 < 64" .
  from m(3) show "(of_char d :: nat) mod 64 < 64" .
  show "(of_char c :: nat) mod 4 * 16 < 64" "(of_char b :: nat) mod 16 * 4 < 64"
    "(of_char c :: nat) mod 4 * 16 + of_char b div 16 < 64" "(of_char b :: nat) mod 16 * 4 + of_char d div 64 < 64"
    using d m by linarith+
qed

text \<open>The bytes of a group come back from its four digits.\<close>

lemma group_bytes:
  fixes x y z :: nat
  assumes "y < 256" and "z < 256"
  shows "x div 4 * 4 + (x mod 4 * 16 + y div 16) div 16 = x"
    "(x mod 4 * 16 + y div 16) mod 16 * 16 + (y mod 16 * 4 + z div 64) div 4 = y"
    "(y mod 16 * 4 + z div 64) mod 4 * 64 + z mod 64 = z"
    "x div 4 * 4 + x mod 4 * 16 div 16 = x"
    "(x mod 4 * 16 + y div 16) mod 16 * 16 + y mod 16 * 4 div 4 = y"
proof -
  have s: "y div 16 < 16" "z div 64 < 4" using assms by (simp_all add: less_mult_imp_div_less)
  have d: "(x mod 4 * 16 + y div 16) div 16 = x mod 4" "(x mod 4 * 16 + y div 16) mod 16 = y div 16"
    "(y mod 16 * 4 + z div 64) div 4 = y mod 16" "(y mod 16 * 4 + z div 64) mod 4 = z div 64"
    using s by simp_all
  show "x div 4 * 4 + (x mod 4 * 16 + y div 16) div 16 = x"
    "(x mod 4 * 16 + y div 16) mod 16 * 16 + (y mod 16 * 4 + z div 64) div 4 = y"
    "(y mod 16 * 4 + z div 64) mod 4 * 64 + z mod 64 = z"
    "x div 4 * 4 + x mod 4 * 16 div 16 = x"
    "(x mod 4 * 16 + y div 16) mod 16 * 16 + y mod 16 * 4 div 4 = y"
    unfolding d by simp_all
qed

lemma decode_quads_Encode: "decode_quads (EncodeToString s) = Some s"
proof (induction s rule: EncodeToString.induct)
  case (2 a)
  show ?case using group_bytes(4) [where x = "of_char a" and y = 0 and z = 0] by (simp add: Let_def)
next
  case (3 a b)
  show ?case using group_bytes(1,5) [where y = "of_char b" and z = 0 and x = "of_char a"] by (simp add: Let_def)
next
  case (4 a b c s)
  then show ?case using group_bytes(1,2) [where y = "of_char b" and z = "of_char c" and x = "of_char a"]
      group_bytes(3) [where y = "of_char b" and z = "of_char c"] by (simp add: Let_def)
qed simp

lemma Encode_no_breaks: "filter (\<lambda>c. c \<noteq> CHR 0x0A \<and> c \<noteq> CHR 0x0D) (EncodeToString s) = EncodeToString s"
  by (induction s rule: EncodeToString.induct) (simp_all add: Let_def)

lemma DecodeString_Encode: "DecodeString (EncodeToString s) = Some s"
  by (simp add: DecodeString_def Encode_no_breaks decode_quads_Encode)

section \<open>Integers\<close>

definition ParseInt64 :: "string \<Rightarrow> int option" where
  "ParseInt64 s =
     (let (neg, body) =
        (case s of [] \<Rightarrow> (False, [])
         | c # t \<Rightarrow> if c = CHR ''+'' then (False, t) else if c = CHR ''-'' then (True, t) else (False, s))
      in if body = [] \<or> \<not> list_all isDigit body then None
         else (let v = (if neg then - int (digits_val body) else int (digits_val body))
               in if - (2 ^ 63) \<le> v \<and> v < 2 ^ 63 then Some v else None))"

lemma ParseInt64_Itoa:
  assumes "- (2 ^ 63) \<le> i" and "i < 2 ^ 63"
  shows "ParseInt64 (Itoa i) = Some i"
proof -
  have digits: "list_all isDigit (nat_digits n)" for n
    using nat_digits_digits by (auto simp: list_all_iff)
  show ?thesis
  proof (cases "i < 0")
    case True
    with assms digits show ?thesis by (simp add: ParseInt64_def Itoa_def)
  next
    case False
    obtain c t where ct: "nat_digits (nat i) = c # t" by (cases "nat_digits (nat i)") auto
    then have "isDigit c" using digits [of "nat i"] by simp
    then have "c \<noteq> CHR ''+''" "c \<noteq> CHR ''-''" by (auto simp: isDigit_def)
    moreover have "digits_val (c # t) = nat i" "list_all isDigit (c # t)"
      using digits_val_nat_digits [of "nat i"] digits [of "nat i"] unfolding ct by simp_all
    ultimately show ?thesis using False assms unfolding ParseInt64_def Itoa_def by (simp add: ct)
  qed
qed

end
