(* ===== verification/Newest.thy ===== *)
theory Newest
  imports GoStrings
begin

text \<open>
  The provides tables of the two feed formats keep, for each token, the newest of the entries
  registered for it. Both tables are a fold of one registration step; what they promise rests
  only on the comparison being a strict weak order on the entries, which the two formats
  provide in different ways.
\<close>

definition keep_newer :: "('e \<Rightarrow> 'e \<Rightarrow> bool) \<Rightarrow> string \<times> 'e \<Rightarrow> (string, 'e) gomap \<Rightarrow> (string, 'e) gomap" where
  "keep_newer newer te t =
     (case map_of t (fst te) of
        Some cur \<Rightarrow> if newer (snd te) cur then gm_put (fst te) (snd te) t else t
      | None \<Rightarrow> gm_put (fst te) (snd te) t)"

text \<open>The entries registered for a token, in order, and the one that stays.\<close>

definition registered :: "string \<Rightarrow> (string \<times> 'e) list \<Rightarrow> 'e list" where
  "registered tok regs = map snd (filter (\<lambda>te. fst te = tok) regs)"

definition first_newest :: "('e \<Rightarrow> 'e \<Rightarrow> bool) \<Rightarrow> 'e list \<Rightarrow> 'e \<Rightarrow> bool" where
  "first_newest newer es e \<longleftrightarrow>
     (\<exists>before after. es = before @ e # after \<and> (\<forall>x \<in> set before. newer e x) \<and> (\<forall>x \<in> set after. \<not> newer x e))"

lemma first_newest_single: "first_newest newer [e] e"
  unfolding first_newest_def by (intro exI [of _ "[]"]) simp

lemma registered_simps [simp]:
  "registered tok [] = []"
  "registered tok (te # regs) = (if fst te = tok then snd te # registered tok regs else registered tok regs)"
  "registered tok (regs @ regs') = registered tok regs @ registered tok regs'"
  by (simp_all add: registered_def)

lemma registered_mem: "e \<in> set (registered tok regs) \<longleftrightarrow> (tok, e) \<in> set regs"
  by (force simp: registered_def)

lemma keep_newer_other: "fst te \<noteq> tok \<Longrightarrow> map_of (keep_newer newer te t) tok = map_of t tok"
  by (auto simp: keep_newer_def split: option.split)

lemma keep_newer_same:
  "map_of (keep_newer newer te t) (fst te) =
     Some (case map_of t (fst te) of None \<Rightarrow> snd te | Some cur \<Rightarrow> if newer (snd te) cur then snd te else cur)"
  by (auto simp: keep_newer_def split: option.split)

text \<open>Whatever the comparison, the table answers with something registered for the token.\<close>

lemma fold_keep_newer_mem:
  "map_of (fold (keep_newer newer) regs t) tok = Some e \<Longrightarrow> (tok, e) \<in> set regs \<or> map_of t tok = Some e"
proof (induction regs arbitrary: t)
  case (Cons te regs)
  then have "(tok, e) \<in> set regs \<or> map_of (keep_newer newer te t) tok = Some e" by simp
  then show ?case
    by (cases "fst te = tok") (auto simp: keep_newer_other keep_newer_def split: option.splits if_splits)
qed simp

locale newest =
  fixes good :: "'e \<Rightarrow> bool" and newer :: "'e \<Rightarrow> 'e \<Rightarrow> bool"
  assumes irrefl: "good a \<Longrightarrow> \<not> newer a a"
    and trans: "good a \<Longrightarrow> good b \<Longrightarrow> good c \<Longrightarrow> newer a b \<Longrightarrow> newer b c \<Longrightarrow> newer a c"
    and neg_trans: "good a \<Longrightarrow> good b \<Longrightarrow> good c \<Longrightarrow> \<not> newer a b \<Longrightarrow> \<not> newer b c \<Longrightarrow> \<not> newer a c"
begin

lemma asym: "good a \<Longrightarrow> good b \<Longrightarrow> newer a b \<Longrightarrow> \<not> newer b a"
  using irrefl trans by blast

lemma first_newest_snoc:
  assumes "first_newest newer es e" and "\<forall>x \<in> set es. good x" and "good a"
  shows "first_newest newer (es @ [a]) (if newer a e then a else e)"
proof -
  obtain before after where es: "es = before @ e # after" and before: "\<forall>x \<in> set before. newer e x"
    and after: "\<forall>x \<in> set after. \<not> newer x e"
    using assms(1) unfolding first_newest_def by blast
  have good: "good e" "\<forall>x \<in> set before. good x" "\<forall>x \<in> set after. good x" using assms(2) unfolding es by auto
  show ?thesis
  proof (cases "newer a e")
    case True
    have "newer a x" if "x \<in> set before" for x
      using that before good True trans assms(3) by blast
    moreover have "newer a x" if "x \<in> set after" for x
      using that after good True neg_trans [of a x e] assms(3) by blast
    ultimately have "\<forall>x \<in> set es. newer a x" using True unfolding es by auto
    with True show ?thesis unfolding first_newest_def by (intro exI [of _ es] exI [of _ "[]"]) simp
  next
    case False
    with before after show ?thesis unfolding first_newest_def es
      by (intro exI [of _ before] exI [of _ "after @ [a]"]) auto
  qed
qed

text \<open>Folding the registrations leaves the first newest entry of every token.\<close>

lemma fold_keep_newer:
  "\<forall>te \<in> set regs. good (snd te) \<Longrightarrow>
   (case map_of (fold (keep_newer newer) regs []) tok of
      None \<Rightarrow> registered tok regs = []
    | Some e \<Rightarrow> first_newest newer (registered tok regs) e)"
proof (induction regs rule: rev_induct)
  case (snoc te regs)
  let ?t = "fold (keep_newer newer) regs []"
  have IH: "case map_of ?t tok of None \<Rightarrow> registered tok regs = [] | Some e \<Rightarrow> first_newest newer (registered tok regs) e"
    using snoc by simp
  show ?case
  proof (cases "fst te = tok")
    case True
    show ?thesis
    proof (cases "map_of ?t tok")
      case None
      with IH True keep_newer_same [of newer te ?t] show ?thesis by (simp add: first_newest_single)
    next
      case (Some e)
      have "\<forall>x \<in> set (registered tok regs). good x" using snoc.prems by (force simp: registered_mem)
      with first_newest_snoc [of "registered tok regs" e "snd te"] IH Some True snoc.prems
        keep_newer_same [of newer te ?t] show ?thesis by simp
    qed
  next
    case False
    then have reg: "registered tok (regs @ [te]) = registered tok regs" by simp
    show ?thesis unfolding reg using IH False by (simp add: keep_newer_other)
  qed
qed simp

lemma first_newest_max: "first_newest newer es e \<Longrightarrow> \<forall>x \<in> set es. good x \<Longrightarrow> e \<in> set es \<and> (\<forall>x \<in> set es. \<not> newer x e)"
  using asym irrefl unfolding first_newest_def by force

lemma table_spec:
  assumes "\<forall>te \<in> set regs. good (snd te)"
  shows "case map_of (fold (keep_newer newer) regs []) tok of
      None \<Rightarrow> \<forall>e. (tok, e) \<notin> set regs
    | Some e \<Rightarrow> (tok, e) \<in> set regs \<and> (\<forall>e'. (tok, e') \<in> set regs \<longrightarrow> \<not> newer e' e) \<and>
        first_newest newer (registered tok regs) e"
proof (cases "map_of (fold (keep_newer newer) regs []) tok")
  case None
  then have "registered tok regs = []" using fold_keep_newer [OF assms, of tok] by simp
  then show ?thesis using None registered_mem [of _ tok regs] by simp
next
  case (Some e)
  then have fn: "first_newest newer (registered tok regs) e" using fold_keep_newer [OF assms, of tok] by simp
  moreover have "\<forall>x \<in> set (registered tok regs). good x" using assms by (force simp: registered_mem)
  ultimately show ?thesis using Some first_newest_max registered_mem [of _ tok regs] by fastforce
qed

end

end
