(* ===== verification/ApkIndex.thy ===== *)
theory ApkIndex
  imports ApkVersion Base64 Codec Newest Units
begin

text \<open>
  \<^verbatim>\<open>internal/apkindex\<close>: the parser of APKINDEX files (\<^verbatim>\<open>parse.go\<close>), dependency tokens (\<^verbatim>\<open>deps.go\<close>),
  the provides table (\<^verbatim>\<open>provides.go\<close>) and the units made from entries (\<^verbatim>\<open>materialize.go\<close>).
\<close>

section \<open>Entries\<close>

record ApkEntry =
  aeName :: name
  aeVersion :: string
  aeDescription :: string
  aeURL :: string
  aeLicense :: string
  aeArch :: string
  aeSize :: int
  aeInstalledSize :: int
  aeOrigin :: string
  aeMaintainer :: string
  aeBuildTime :: int
  aeCommit :: string
  aeChecksum :: string
  aeChecksumText :: string
  aeDeps :: "string list"
  aeProvides :: "string list"
  aeReplaces :: "string list"
  aeInstallIf :: "string list"

definition zero_entry :: ApkEntry where
  "zero_entry = \<lparr>aeName = [], aeVersion = [], aeDescription = [], aeURL = [], aeLicense = [], aeArch = [],
     aeSize = 0, aeInstalledSize = 0, aeOrigin = [], aeMaintainer = [], aeBuildTime = 0, aeCommit = [],
     aeChecksum = [], aeChecksumText = [], aeDeps = [], aeProvides = [], aeReplaces = [], aeInstallIf = []\<rparr>"

datatype ChecksumError = NotQ1 string | BadBase64 | WrongLength nat

definition DecodeChecksum :: "string \<Rightarrow> ChecksumError + string" where
  "DecodeChecksum s =
     (if \<not> HasPrefix s ''Q1'' then Inl (NotQ1 s)
      else case DecodeString (drop 2 s) of
        None \<Rightarrow> Inl BadBase64
      | Some raw \<Rightarrow> if length raw \<noteq> 20 then Inl (WrongLength (length raw)) else Inr raw)"

datatype IndexError =
    BadNumber nat char
  | NoPackageName nat
  | BadChecksum nat name ChecksumError
  | LineTooLong

definition set_number :: "nat \<Rightarrow> char \<Rightarrow> string \<Rightarrow> (int \<Rightarrow> ApkEntry) \<Rightarrow> IndexError + ApkEntry" where
  "set_number lineNum key val put =
     (case ParseInt64 val of None \<Rightarrow> Inl (BadNumber lineNum key) | Some n \<Rightarrow> Inr (put n))"

definition setField :: "ApkEntry \<Rightarrow> char \<Rightarrow> string \<Rightarrow> nat \<Rightarrow> IndexError + ApkEntry" where
  "setField cur key val lineNum =
     (if key = CHR ''P'' then Inr (cur\<lparr>aeName := val\<rparr>)
      else if key = CHR ''V'' then Inr (cur\<lparr>aeVersion := val\<rparr>)
      else if key = CHR ''T'' then Inr (cur\<lparr>aeDescription := val\<rparr>)
      else if key = CHR ''U'' then Inr (cur\<lparr>aeURL := val\<rparr>)
      else if key = CHR ''L'' then Inr (cur\<lparr>aeLicense := val\<rparr>)
      else if key = CHR ''A'' then Inr (cur\<lparr>aeArch := val\<rparr>)
      else if key = CHR ''S'' then set_number lineNum key val (\<lambda>n. cur\<lparr>aeSize := n\<rparr>)
      else if key = CHR ''I'' then set_number lineNum key val (\<lambda>n. cur\<lparr>aeInstalledSize := n\<rparr>)
      else if key = CHR ''o'' then Inr (cur\<lparr>aeOrigin := val\<rparr>)
      else if key = CHR ''m'' then Inr (cur\<lparr>aeMaintainer := val\<rparr>)
      else if key = CHR ''t'' then set_number lineNum key val (\<lambda>n. cur\<lparr>aeBuildTime := n\<rparr>)
      else if key = CHR ''c'' then Inr (cur\<lparr>aeCommit := val\<rparr>)
      else if key = CHR ''C'' then Inr (cur\<lparr>aeChecksumText := val\<rparr>)
      else if key = CHR ''D'' then Inr (cur\<lparr>aeDeps := Fields val\<rparr>)
      else if key = CHR ''p'' then Inr (cur\<lparr>aeProvides := Fields val\<rparr>)
      else if key = CHR ''r'' then Inr (cur\<lparr>aeReplaces := Fields val\<rparr>)
      else if key = CHR ''i'' then Inr (cur\<lparr>aeInstallIf := Fields val\<rparr>)
      else Inr cur)"

section \<open>The index parser\<close>

text \<open>
  The lines of a \<^verbatim>\<open>bufio.Scanner\<close>: no empty line after the last line break, one trailing
  carriage return dropped, and an error at a line that does not fit the buffer of \<^verbatim>\<open>1<<20\<close> bytes.
\<close>

definition raw_lines :: "string \<Rightarrow> string list" where
  "raw_lines text = (let ls = Split text (CHR 0x0A) in if last ls = [] then butlast ls else ls)"

definition drop_cr :: "string \<Rightarrow> string" where
  "drop_cr line = (if line \<noteq> [] \<and> last line = CHR 0x0D then butlast line else line)"

definition max_line :: nat where
  "max_line = 1048576"

record index_state =
  isEntries :: "ApkEntry list"
  isCur :: ApkEntry
  isCurHas :: bool
  isBlockLn :: nat

definition flush_entry :: "index_state \<Rightarrow> IndexError + index_state" where
  "flush_entry st =
     (if \<not> isCurHas st then Inr st
      else if aeName (isCur st) = [] then Inl (NoPackageName (isBlockLn st))
      else case (if aeChecksumText (isCur st) \<noteq> [] then DecodeChecksum (aeChecksumText (isCur st))
                 else Inr (aeChecksum (isCur st))) of
        Inl err \<Rightarrow> Inl (BadChecksum (isBlockLn st) (aeName (isCur st)) err)
      | Inr raw \<Rightarrow> Inr (st\<lparr>isEntries := isEntries st @ [(isCur st)\<lparr>aeChecksum := raw\<rparr>],
                          isCur := zero_entry, isCurHas := False\<rparr>))"

fun index_lines :: "string list \<Rightarrow> nat \<Rightarrow> index_state \<Rightarrow> IndexError + index_state" where
  "index_lines [] lineNum st = Inr st"
| "index_lines (raw # rest) lineNum st =
     (if max_line \<le> length raw then Inl LineTooLong
      else (let line = drop_cr raw; ln = lineNum + 1 in
        if line = [] then
          (case flush_entry st of Inl err \<Rightarrow> Inl err | Inr st' \<Rightarrow> index_lines rest ln st')
        else if length line < 2 \<or> line ! 1 \<noteq> CHR '':'' then index_lines rest ln st
        else (let st' = (if isCurHas st then st else st\<lparr>isBlockLn := ln, isCurHas := True\<rparr>) in
          case setField (isCur st') (line ! 0) (drop 2 line) ln of
            Inl err \<Rightarrow> Inl err
          | Inr cur' \<Rightarrow> index_lines rest ln (st'\<lparr>isCur := cur'\<rparr>))))"

definition init_index :: index_state where
  "init_index = \<lparr>isEntries = [], isCur = zero_entry, isCurHas = False, isBlockLn = 0\<rparr>"

definition ParseIndex :: "string \<Rightarrow> IndexError + ApkEntry list" where
  "ParseIndex text =
     (case index_lines (raw_lines text) 0 init_index of
        Inl err \<Rightarrow> Inl err
      | Inr st \<Rightarrow> (case flush_entry st of Inl err \<Rightarrow> Inl err | Inr st' \<Rightarrow> Inr (isEntries st')))"

section \<open>Dependency tokens\<close>

datatype DepKind = DepKindUnknown | DepKindName | DepKindSo | DepKindCmd | DepKindPc | DepKindPath | DepKindConflict

datatype Op = OpNone | OpEq | OpLt | OpLe | OpGt | OpGe | OpTilde

record Dep =
  dpKind :: DepKind
  dpName :: string
  dpVersion :: string
  dpOp :: Op
  dpConflict :: bool
  dpRaw :: string

datatype DepError = EmptyToken | EmptyAfterBang string | EmptyName string

fun split_from :: "string \<Rightarrow> string \<Rightarrow> string \<times> Op \<times> string" where
  "split_from name [] = (name, OpNone, [])"
| "split_from name (c # s) =
     (if c = CHR ''='' then (name, OpEq, s)
      else if c = CHR ''~'' then (name, OpTilde, s)
      else if c = CHR ''<'' then
        (if s \<noteq> [] \<and> hd s = CHR ''='' then (name, OpLe, tl s) else (name, OpLt, s))
      else if c = CHR ''>'' then
        (if s \<noteq> [] \<and> hd s = CHR ''='' then (name, OpGe, tl s) else (name, OpGt, s))
      else split_from (name @ [c]) s)"

definition splitConstraint :: "string \<Rightarrow> string \<times> Op \<times> string" where
  "splitConstraint s = split_from [] s"

definition name_kind :: "string \<Rightarrow> DepKind" where
  "name_kind name =
     (if HasPrefix name ''so:'' then DepKindSo
      else if HasPrefix name ''cmd:'' then DepKindCmd
      else if HasPrefix name ''pc:'' then DepKindPc
      else DepKindName)"

definition parse_rest :: "string \<Rightarrow> bool \<Rightarrow> string \<Rightarrow> DepError + Dep" where
  "parse_rest raw conflict s =
     (if hd s = CHR ''/'' then
        Inr \<lparr>dpKind = DepKindPath, dpName = s, dpVersion = [], dpOp = OpNone, dpConflict = conflict, dpRaw = raw\<rparr>
      else (let (name, op, ver) = splitConstraint s in
        if name = [] then Inl (EmptyName raw)
        else Inr \<lparr>dpKind = name_kind name, dpName = name, dpVersion = ver, dpOp = op,
               dpConflict = conflict, dpRaw = raw\<rparr>))"

definition ParseDep :: "string \<Rightarrow> DepError + Dep" where
  "ParseDep s =
     (if s = [] then Inl EmptyToken
      else if hd s = CHR ''!'' then
        (if tl s = [] then Inl (EmptyAfterBang s) else parse_rest s True (tl s))
      else parse_rest s False s)"

fun parse_deps_from :: "nat \<Rightarrow> string list \<Rightarrow> (nat \<times> DepError) + Dep list" where
  "parse_deps_from i [] = Inr []"
| "parse_deps_from i (t # ts) =
     (case ParseDep t of
        Inl err \<Rightarrow> Inl (i, err)
      | Inr d \<Rightarrow> (case parse_deps_from (i + 1) ts of Inl err \<Rightarrow> Inl err | Inr ds \<Rightarrow> Inr (d # ds)))"

definition ParseDeps :: "string list \<Rightarrow> (nat \<times> DepError) + Dep list" where
  "ParseDeps tokens = parse_deps_from 0 tokens"

section \<open>The provides table\<close>

type_synonym apk_table = "(string, ApkEntry) gomap"

definition strip_version :: "string \<Rightarrow> string" where
  "strip_version token = (case IndexByte token (CHR ''='') of Some i \<Rightarrow> take i token | None \<Rightarrow> token)"

definition apk_register :: "string \<Rightarrow> ApkEntry \<Rightarrow> apk_table \<Rightarrow> apk_table" where
  "apk_register token e t =
     (if token = [] then t
      else (let token' = strip_version token in
            case map_of t token' of
              Some cur \<Rightarrow> if 0 < compareVersions (aeVersion e) (aeVersion cur) then gm_put token' e t else t
            | None \<Rightarrow> gm_put token' e t))"

definition register_entry :: "ApkEntry \<Rightarrow> apk_table \<Rightarrow> apk_table" where
  "register_entry e t = fold (\<lambda>p. apk_register p e) (aeProvides e) (apk_register (aeName e) e t)"

definition apk_BuildProvidesTable :: "ApkEntry list \<Rightarrow> apk_table" where
  "apk_BuildProvidesTable entries = fold register_entry entries []"

definition apk_Lookup :: "apk_table option \<Rightarrow> string \<Rightarrow> ApkEntry option" where
  "apk_Lookup p name = (case p of None \<Rightarrow> None | Some t \<Rightarrow> map_of t name)"

section \<open>Units from entries\<close>

type_synonym providers = "string \<Rightarrow> name option"

definition TableProviders :: "apk_table option \<Rightarrow> providers" where
  "TableProviders t token = (case apk_Lookup t token of None \<Rightarrow> None | Some e \<Rightarrow> Some (aeName e))"

datatype MaterializeError =
    NilProviders
  | BadDep string DepError
  | NoProvider string string

fun resolve_deps :: "name \<Rightarrow> providers \<Rightarrow> string list \<Rightarrow> name list \<Rightarrow> MaterializeError + name list" where
  "resolve_deps self resolve [] out = Inr out"
| "resolve_deps self resolve (raw # deps) out =
     (case ParseDep raw of
        Inl err \<Rightarrow> Inl (BadDep raw err)
      | Inr d \<Rightarrow>
          if dpConflict d then resolve_deps self resolve deps out
          else if dpKind d = DepKindPath then resolve_deps self resolve deps out
          else if dpKind d = DepKindName \<and> dpName d = self then resolve_deps self resolve deps out
          else (case resolve (dpName d) of
                  None \<Rightarrow> Inl (NoProvider raw (dpName d))
                | Some pkg \<Rightarrow>
                    if pkg = self then resolve_deps self resolve deps out
                    else if pkg \<in> set out then resolve_deps self resolve deps out
                    else resolve_deps self resolve deps (out @ [pkg])))"

definition resolveRuntimeDeps :: "ApkEntry \<Rightarrow> providers option \<Rightarrow> MaterializeError + name list" where
  "resolveRuntimeDeps entry ps =
     (case ps of None \<Rightarrow> Inl NilProviders | Some resolve \<Rightarrow> resolve_deps (aeName entry) resolve (aeDeps entry) [])"

definition filterProvides :: "string list \<Rightarrow> name list" where
  "filterProvides ps =
     filter (\<lambda>p. p \<noteq> []) (map strip_version (filter (\<lambda>p. \<not> (HasPrefix p ''so:'' \<or> HasPrefix p ''cmd:'')) ps))"

definition apk_MaterializeUnit :: "ApkEntry \<Rightarrow> providers option \<Rightarrow> name \<Rightarrow> MaterializeError + Unit" where
  "apk_MaterializeUnit entry ps moduleName =
     (case resolveRuntimeDeps entry ps of
        Inl err \<Rightarrow> Inl err
      | Inr deps \<Rightarrow>
          (let (version, release) = splitPkgver (aeVersion entry) in
           Inr (zero_unit\<lparr>uName := aeName entry, uClass := ''unit'', uDescription := aeDescription entry,
             uLicense := aeLicense entry, uAPKChecksum := aeChecksumText entry, uRuntimeDeps := deps,
             uProvides := filterProvides (aeProvides entry), uReplaces := filterProvides (aeReplaces entry),
             uModule := moduleName, uVersion := version, uRelease := release\<rparr>)))"

section \<open>Printing dependency tokens\<close>

definition op_text :: "Op \<Rightarrow> string" where
  "op_text op = (case op of OpNone \<Rightarrow> [] | OpEq \<Rightarrow> ''='' | OpLt \<Rightarrow> ''<'' | OpLe \<Rightarrow> ''<='' | OpGt \<Rightarrow> ''>'' | OpGe \<Rightarrow> ''>='' | OpTilde \<Rightarrow> ''~'')"

definition dep_text :: "Dep \<Rightarrow> string" where
  "dep_text d = (if dpConflict d then ''!'' else []) @ dpName d @ op_text (dpOp d) @ dpVersion d"

abbreviation op_char :: "char \<Rightarrow> bool" where
  "op_char c \<equiv> c = CHR ''='' \<or> c = CHR ''~'' \<or> c = CHR ''<'' \<or> c = CHR ''>''"

definition constraint_ok :: "Op \<Rightarrow> string \<Rightarrow> bool" where
  "constraint_ok op ver \<longleftrightarrow> (op = OpNone \<longrightarrow> ver = []) \<and> (op = OpLt \<or> op = OpGt \<longrightarrow> ver = [] \<or> hd ver \<noteq> CHR ''='')"

text \<open>
  The dependencies a parse can return: a path with no constraint, or a name without operator
  characters whose kind follows from its prefix. A version after a bare less or greater sign
  does not start with an equals sign.
\<close>

definition dep_ok :: "Dep \<Rightarrow> bool" where
  "dep_ok d \<longleftrightarrow> dpRaw d = dep_text d \<and> dpName d \<noteq> [] \<and> (\<not> dpConflict d \<longrightarrow> hd (dpName d) \<noteq> CHR ''!'') \<and>
     (if hd (dpName d) = CHR ''/'' then dpKind d = DepKindPath \<and> dpOp d = OpNone
      else dpKind d = name_kind (dpName d) \<and> (\<forall>c \<in> set (dpName d). \<not> op_char c)) \<and>
     constraint_ok (dpOp d) (dpVersion d)"

lemma split_from_text:
  "split_from acc s = (n, op, v) \<Longrightarrow> \<exists>m. n = acc @ m \<and> s = m @ op_text op @ v \<and> (\<forall>c \<in> set m. \<not> op_char c) \<and> constraint_ok op v"
proof (induction acc s rule: split_from.induct)
  case (2 acc c s)
  show ?case
  proof (cases "op_char c")
    case True
    with "2.prems" have "n = acc \<and> c # s = op_text op @ v \<and> constraint_ok op v"
      by (cases s) (auto simp: op_text_def constraint_ok_def split: if_splits)
    then show ?thesis by auto
  next
    case False
    then have "split_from (acc @ [c]) s = (n, op, v)" using "2.prems" by auto
    with "2.IH" False obtain m where "n = (acc @ [c]) @ m" "s = m @ op_text op @ v" "\<forall>c \<in> set m. \<not> op_char c" "constraint_ok op v"
      by blast
    with False show ?thesis by (intro exI [of _ "c # m"]) auto
  qed
qed (auto simp: op_text_def constraint_ok_def)

lemma split_from_print:
  "\<forall>c \<in> set n. \<not> op_char c \<Longrightarrow> constraint_ok op v \<Longrightarrow> split_from acc (n @ op_text op @ v) = (acc @ n, op, v)"
proof (induction n arbitrary: acc)
  case Nil
  then show ?case by (cases op; cases v) (auto simp: op_text_def constraint_ok_def)
qed auto

lemma parse_rest_ok:
  assumes "parse_rest raw conflict s = Inr d" and "s \<noteq> []" and "raw = (if conflict then ''!'' else []) @ s"
    and "\<not> conflict \<Longrightarrow> hd s \<noteq> CHR ''!''"
  shows "dep_ok d"
proof (cases "hd s = CHR ''/''")
  case True
  then have "d = \<lparr>dpKind = DepKindPath, dpName = s, dpVersion = [], dpOp = OpNone, dpConflict = conflict, dpRaw = raw\<rparr>"
    using assms(1) by (simp add: parse_rest_def)
  with True assms(2,3) show ?thesis by (simp add: dep_ok_def dep_text_def op_text_def constraint_ok_def)
next
  case False
  obtain n op v where nov: "splitConstraint s = (n, op, v)" by (cases "splitConstraint s") auto
  from split_from_text [OF nov [unfolded splitConstraint_def]]
  have s: "s = n @ op_text op @ v" "\<forall>c \<in> set n. \<not> op_char c" "constraint_ok op v" by auto
  have d: "n \<noteq> []" "d = \<lparr>dpKind = name_kind n, dpName = n, dpVersion = v, dpOp = op, dpConflict = conflict, dpRaw = raw\<rparr>"
    using assms(1) False nov by (auto simp: parse_rest_def split: if_splits)
  then have h: "hd n \<noteq> CHR ''/''" "\<not> conflict \<Longrightarrow> hd n \<noteq> CHR ''!''" using s(1) False assms(4) by auto
  show ?thesis using d h s(2,3) assms(3) unfolding s(1) by (simp add: dep_ok_def dep_text_def)
qed

lemma ParseDep_ok: "ParseDep s = Inr d \<Longrightarrow> dep_ok d"
proof -
  assume p: "ParseDep s = Inr d"
  then obtain c t where s: "s = c # t" by (cases s) (auto simp: ParseDep_def)
  show ?thesis
  proof (cases "c = CHR ''!''")
    case True
    with p s have "t \<noteq> []" "parse_rest s True t = Inr d" by (auto simp: ParseDep_def split: if_splits)
    with parse_rest_ok [of s True t d] True s show ?thesis by simp
  next
    case False
    with p s have "parse_rest s False s = Inr d" by (simp add: ParseDep_def)
    with parse_rest_ok [of s False s d] False s show ?thesis by simp
  qed
qed

lemma parse_rest_print:
  assumes "dep_ok d" and "raw = dpRaw d"
  shows "parse_rest raw (dpConflict d) (dpName d @ op_text (dpOp d) @ dpVersion d) = Inr d"
proof (cases "hd (dpName d) = CHR ''/''")
  case True
  with assms show ?thesis by (auto simp: dep_ok_def parse_rest_def op_text_def constraint_ok_def)
next
  case False
  have c: "constraint_ok (dpOp d) (dpVersion d)" using assms by (simp add: dep_ok_def)
  have n: "\<forall>c \<in> set (dpName d). \<not> op_char c" "dpName d \<noteq> []" "dpKind d = name_kind (dpName d)"
    using assms False by (auto simp: dep_ok_def)
  from split_from_print [OF n(1) c, of "[]"]
  show ?thesis using n False assms(2) by (simp add: parse_rest_def splitConstraint_def)
qed

lemma ParseDep_dep_text:
  assumes "dep_ok d"
  shows "ParseDep (dep_text d) = Inr d"
proof -
  have raw: "dpRaw d = dep_text d" and n: "dpName d \<noteq> []" "\<not> dpConflict d \<longrightarrow> hd (dpName d) \<noteq> CHR ''!''"
    using assms by (auto simp: dep_ok_def)
  show ?thesis
    using parse_rest_print [OF assms, of "dep_text d"] raw n
    by (cases "dpConflict d") (simp_all add: ParseDep_def dep_text_def)
qed

interpretation dep: codec dep_ok "(=)" dep_text ParseDep
  by unfold_locales (auto simp: ParseDep_ok ParseDep_dep_text)

section \<open>The table holds the newest provider\<close>

definition provided_tokens :: "ApkEntry \<Rightarrow> string list" where
  "provided_tokens e = map strip_version (filter (\<lambda>p. p \<noteq> []) (aeName e # aeProvides e))"

definition registrations :: "ApkEntry list \<Rightarrow> (string \<times> ApkEntry) list" where
  "registrations es = concat (map (\<lambda>e. map (\<lambda>tok. (tok, e)) (provided_tokens e)) es)"

abbreviation newer_entry :: "ApkEntry \<Rightarrow> ApkEntry \<Rightarrow> bool" where
  "newer_entry a b \<equiv> 0 < compareVersions (aeVersion a) (aeVersion b)"

interpretation apk: newest "\<lambda>_. True" newer_entry
  by unfold_locales (auto simp: compareVersions_cmp cmp_sign_def split: if_splits)

lemma apk_register_keep:
  "apk_register tok e t = (if tok = [] then t else keep_newer newer_entry (strip_version tok, e) t)"
  by (auto simp: apk_register_def keep_newer_def Let_def split: option.split)

lemma register_all_keep:
  "fold (\<lambda>p. apk_register p e) ps t =
     fold (keep_newer newer_entry) (map (\<lambda>tok. (tok, e)) (map strip_version (filter (\<lambda>p. p \<noteq> []) ps))) t"
  by (induction ps arbitrary: t) (simp_all add: apk_register_keep)

lemma register_entry_keep:
  "register_entry e t = fold (keep_newer newer_entry) (map (\<lambda>tok. (tok, e)) (provided_tokens e)) t"
  using register_all_keep [of e "aeName e # aeProvides e" t] by (simp add: register_entry_def provided_tokens_def)

lemma BuildProvidesTable_keep: "apk_BuildProvidesTable es = fold (keep_newer newer_entry) (registrations es) []"
proof -
  have "fold register_entry es t = fold (keep_newer newer_entry) (registrations es) t" for t
    by (induction es arbitrary: t) (simp_all add: registrations_def register_entry_keep)
  then show ?thesis by (simp add: apk_BuildProvidesTable_def)
qed

lemma registrations_mem: "(tok, e) \<in> set (registrations es) \<longleftrightarrow> e \<in> set es \<and> tok \<in> set (provided_tokens e)"
  by (auto simp: registrations_def)

section \<open>Resolution of dependencies\<close>

text \<open>The package a dependency token needs, if it needs one.\<close>

definition needs :: "name \<Rightarrow> Dep \<Rightarrow> string option" where
  "needs self d =
     (if dpConflict d \<or> dpKind d = DepKindPath \<or> dpKind d = DepKindName \<and> dpName d = self then None
      else Some (dpName d))"

definition dep_failure :: "name \<Rightarrow> providers \<Rightarrow> string \<Rightarrow> MaterializeError option" where
  "dep_failure self resolve raw =
     (case ParseDep raw of
        Inl err \<Rightarrow> Some (BadDep raw err)
      | Inr d \<Rightarrow> (case needs self d of
                    None \<Rightarrow> None
                  | Some n \<Rightarrow> if resolve n = None then Some (NoProvider raw n) else None))"

definition needed_packages :: "name \<Rightarrow> providers \<Rightarrow> string list \<Rightarrow> name set" where
  "needed_packages self resolve deps =
     {pkg. pkg \<noteq> self \<and> (\<exists>raw \<in> set deps. \<exists>d n. ParseDep raw = Inr d \<and> needs self d = Some n \<and> resolve n = Some pkg)}"

definition dep_packages :: "name \<Rightarrow> providers \<Rightarrow> string \<Rightarrow> name list" where
  "dep_packages self resolve raw =
     (case ParseDep raw of Inl _ \<Rightarrow> [] | Inr d \<Rightarrow>
        (case needs self d of None \<Rightarrow> [] | Some n \<Rightarrow> (case resolve n of None \<Rightarrow> [] | Some p \<Rightarrow> if p = self then [] else [p])))"

lemma dep_packages_cases: "dep_packages self resolve raw = [] \<or> (\<exists>p. dep_packages self resolve raw = [p])"
  by (auto simp: dep_packages_def split: sum.split option.split)

lemma dep_packages_mem:
  "pkg \<in> set (dep_packages self resolve raw) \<longleftrightarrow>
     pkg \<noteq> self \<and> (\<exists>d n. ParseDep raw = Inr d \<and> needs self d = Some n \<and> resolve n = Some pkg)"
proof (cases "ParseDep raw")
  case (Inr d)
  show ?thesis
  proof (cases "needs self d")
    case (Some n)
    with Inr show ?thesis by (cases "resolve n") (auto simp: dep_packages_def)
  qed (simp add: Inr dep_packages_def)
qed (simp add: dep_packages_def)

lemma needed_packages_eq: "needed_packages self resolve deps = (\<Union>raw \<in> set deps. set (dep_packages self resolve raw))"
  unfolding needed_packages_def UN_iff set_eq_iff dep_packages_mem mem_Collect_eq by blast

lemma resolve_deps_step:
  "resolve_deps self resolve (raw # deps) out =
     (case dep_failure self resolve raw of
        Some err \<Rightarrow> Inl err
      | None \<Rightarrow> resolve_deps self resolve deps (out @ filter (\<lambda>p. p \<notin> set out) (dep_packages self resolve raw)))"
  by (auto simp: dep_failure_def dep_packages_def needs_def split: sum.split option.split)

declare resolve_deps.simps(2) [simp del]

lemma self_not_needed: "self \<notin> set (dep_packages self resolve raw)"
  by (auto simp: dep_packages_def split: sum.splits option.splits if_splits)

lemma resolve_deps_ok:
  "\<forall>raw \<in> set deps. dep_failure self resolve raw = None \<Longrightarrow> distinct out \<Longrightarrow>
   \<exists>new. resolve_deps self resolve deps out = Inr (out @ new) \<and> distinct (out @ new) \<and>
     set (out @ new) = set out \<union> needed_packages self resolve deps"
proof (induction deps arbitrary: out)
  case (Cons raw deps)
  let ?new = "filter (\<lambda>p. p \<notin> set out) (dep_packages self resolve raw)"
  have new: "distinct (out @ ?new)" "set (out @ ?new) = set out \<union> set (dep_packages self resolve raw)"
    using Cons.prems(2) dep_packages_cases [of self resolve raw] by auto
  have step: "resolve_deps self resolve (raw # deps) out = resolve_deps self resolve deps (out @ ?new)"
    using Cons.prems(1) by (simp add: resolve_deps_step)
  obtain more where more: "resolve_deps self resolve deps (out @ ?new) = Inr ((out @ ?new) @ more)"
    "distinct ((out @ ?new) @ more)"
    "set ((out @ ?new) @ more) = set (out @ ?new) \<union> needed_packages self resolve deps"
    using Cons.IH [of "out @ ?new"] Cons.prems(1) new(1) by auto
  have "set (out @ ?new @ more) = set out \<union> needed_packages self resolve (raw # deps)"
    using more(3) new(2) unfolding needed_packages_eq by auto
  then show ?case
    using step more(1,2) by (intro exI [of _ "?new @ more"]) simp
qed (simp add: needed_packages_def)

lemma first_failure_Cons:
  "(\<exists>before r after. x # xs = before @ r # after \<and> (\<forall>y \<in> set before. f y = None) \<and> f r = Some err) \<longleftrightarrow>
     f x = Some err \<or>
     f x = None \<and> (\<exists>before r after. xs = before @ r # after \<and> (\<forall>y \<in> set before. f y = None) \<and> f r = Some err)"
  (is "?L \<longleftrightarrow> ?H \<or> f x = None \<and> ?T")
proof
  assume ?L
  then obtain before r after where *: "x # xs = before @ r # after" "\<forall>y \<in> set before. f y = None" "f r = Some err"
    by blast
  then show "?H \<or> f x = None \<and> ?T" by (cases before) auto
next
  assume "?H \<or> f x = None \<and> ?T"
  then show ?L
  proof
    assume ?H
    then show ?L by (intro exI [of _ "[]"] exI [of _ x] exI [of _ xs]) simp
  next
    assume "f x = None \<and> ?T"
    then obtain before r after where "f x = None" "xs = before @ r # after" "\<forall>y \<in> set before. f y = None" "f r = Some err"
      by blast
    then show ?L by (intro exI [of _ "x # before"] exI [of _ r] exI [of _ after]) simp
  qed
qed

lemma resolve_deps_error:
  "resolve_deps self resolve deps out = Inl err \<longleftrightarrow>
   (\<exists>before raw after. deps = before @ raw # after \<and> (\<forall>r \<in> set before. dep_failure self resolve r = None) \<and>
      dep_failure self resolve raw = Some err)"
proof (induction deps arbitrary: out)
  case (Cons raw deps)
  show ?case unfolding first_failure_Cons
    by (cases "dep_failure self resolve raw") (simp_all add: resolve_deps_step Cons.IH)
qed simp

section \<open>Properties\<close>

text \<open>
  Parsing a dependency token loses nothing: conflict mark, name, operator and version
  spell the token, the name has no operator character unless it is a path, and a
  dependency in this form parses back to itself.
\<close>

theorem ParseDep_roundtrip:
  assumes "ParseDep s = Inr d"
  shows "dep_text d = s \<and> dep_ok d \<and> (\<forall>d'. dep_ok d' \<longrightarrow> ParseDep (dep_text d') = Inr d')"
proof -
  have "dpRaw d = s" using assms by (auto simp: ParseDep_def parse_rest_def Let_def split: if_splits prod.splits)
  moreover have "dep_ok d" using assms by (rule ParseDep_ok)
  moreover from this have "dpRaw d = dep_text d" by (simp add: dep_ok_def)
  ultimately show ?thesis using ParseDep_dep_text by simp
qed

theorem ParseDep_roundtrip_witness:
  "\<exists>d. ParseDep ''!so:libfoo.so.3>=1.2'' = Inr d \<and> dep_text d = ''!so:libfoo.so.3>=1.2'' \<and> dpKind d = DepKindSo \<and> dpOp d = OpGe"
proof -
  let ?d = "\<lparr>dpKind = DepKindSo, dpName = ''so:libfoo.so.3'', dpVersion = ''1.2'', dpOp = OpGe, dpConflict = True,
    dpRaw = ''!so:libfoo.so.3>=1.2''\<rparr>"
  have "ParseDep ''!so:libfoo.so.3>=1.2'' = Inr ?d" by code_simp
  with ParseDep_roundtrip [of "''!so:libfoo.so.3>=1.2''" ?d] show ?thesis by auto
qed

text \<open>
  The provides table answers for exactly the tokens that some entry provides, by its name
  or its provides list, and its answer is an entry of which no other provider has a higher
  version, the first such entry of the index.
\<close>

theorem apk_BuildProvidesTable_newest:
  "case apk_Lookup (Some (apk_BuildProvidesTable es)) tok of
     None \<Rightarrow> \<forall>e \<in> set es. tok \<notin> set (provided_tokens e)
   | Some e \<Rightarrow> e \<in> set es \<and> tok \<in> set (provided_tokens e) \<and>
       (\<forall>e' \<in> set es. tok \<in> set (provided_tokens e') \<longrightarrow> compareVersions (aeVersion e') (aeVersion e) \<le> 0) \<and>
       first_newest newer_entry (registered tok (registrations es)) e"
  using apk.table_spec [of "registrations es" tok]
  by (auto simp: apk_Lookup_def BuildProvidesTable_keep registrations_mem not_less split: option.splits)

theorem apk_BuildProvidesTable_newest_witness:
  "\<exists>e. apk_Lookup (Some (apk_BuildProvidesTable
       [zero_entry\<lparr>aeName := ''a'', aeVersion := ''1.9-r0'', aeProvides := [''so:x=1'']\<rparr>,
        zero_entry\<lparr>aeName := ''b'', aeVersion := ''1.10-r0'', aeProvides := [''so:x=1'']\<rparr>])) ''so:x'' = Some e \<and>
     compareVersions ''1.9-r0'' (aeVersion e) \<le> 0 \<and> aeName e = ''b''"
proof -
  let ?a = "zero_entry\<lparr>aeName := ''a'', aeVersion := ''1.9-r0'', aeProvides := [''so:x=1'']\<rparr>"
  let ?b = "zero_entry\<lparr>aeName := ''b'', aeVersion := ''1.10-r0'', aeProvides := [''so:x=1'']\<rparr>"
  have v: "compareVersions ''1.10-r0'' ''1.9-r0'' = 1" by code_simp
  have l: "apk_Lookup (Some (apk_BuildProvidesTable [?a, ?b])) ''so:x'' = Some ?b"
    by (simp add: apk_Lookup_def apk_BuildProvidesTable_def register_entry_def apk_register_def strip_version_def v Let_def)
  then show ?thesis
    using apk_BuildProvidesTable_newest [of "[?a, ?b]" "''so:x''"]
    by (auto simp: provided_tokens_def strip_version_def)
qed

text \<open>
  A unit is made from an entry exactly when each of its dependency tokens parses and,
  unless it is a conflict, a path or the package itself, has a provider; the unit then has
  each providing package once as a runtime dependency, never itself, and nothing else.
  Otherwise the error names the first token that fails.
\<close>

theorem apk_MaterializeUnit_spec:
  "case apk_MaterializeUnit entry (Some resolve) m of
     Inl err \<Rightarrow> \<exists>before raw after. aeDeps entry = before @ raw # after \<and>
       (\<forall>r \<in> set before. dep_failure (aeName entry) resolve r = None) \<and>
       dep_failure (aeName entry) resolve raw = Some err
   | Inr u \<Rightarrow> (\<forall>raw \<in> set (aeDeps entry). dep_failure (aeName entry) resolve raw = None) \<and>
       uName u = aeName entry \<and> uModule u = m \<and> (uVersion u, uRelease u) = splitPkgver (aeVersion entry) \<and>
       distinct (uRuntimeDeps u) \<and> aeName entry \<notin> set (uRuntimeDeps u) \<and>
       set (uRuntimeDeps u) = needed_packages (aeName entry) resolve (aeDeps entry)"
proof (cases "resolve_deps (aeName entry) resolve (aeDeps entry) []")
  case (Inl err)
  then show ?thesis using resolve_deps_error [of "aeName entry" resolve "aeDeps entry" "[]" err]
    by (simp add: apk_MaterializeUnit_def resolveRuntimeDeps_def)
next
  case (Inr deps)
  have ok: "\<forall>raw \<in> set (aeDeps entry). dep_failure (aeName entry) resolve raw = None"
  proof (rule ccontr)
    assume "\<not> ?thesis"
    then show False using Inr resolve_deps_error [of "aeName entry" resolve "aeDeps entry" "[]"]
      split_list_first_prop [of "aeDeps entry" "\<lambda>r. dep_failure (aeName entry) resolve r \<noteq> None"] by fastforce
  qed
  obtain v r where vr: "splitPkgver (aeVersion entry) = (v, r)" by (cases "splitPkgver (aeVersion entry)")
  from resolve_deps_ok [OF ok, of "[]"] Inr
  have "distinct deps" "set deps = needed_packages (aeName entry) resolve (aeDeps entry)" by auto
  moreover have "aeName entry \<notin> needed_packages (aeName entry) resolve (aeDeps entry)" by (simp add: needed_packages_def)
  ultimately show ?thesis using Inr ok vr by (simp add: apk_MaterializeUnit_def resolveRuntimeDeps_def)
qed

theorem apk_MaterializeUnit_spec_witness:
  "\<exists>u. apk_MaterializeUnit (zero_entry\<lparr>aeName := ''curl'', aeVersion := ''8.1-r2'', aeDeps := [''so:libz'', ''!wget'', ''curl'', ''zlib>1'']\<rparr>)
      (Some (\<lambda>t. if t \<in> {''so:libz'', ''zlib''} then Some ''zlib'' else None)) ''alpine.main'' = Inr u \<and>
     distinct (uRuntimeDeps u) \<and> ''curl'' \<notin> set (uRuntimeDeps u) \<and> uRelease u = 2"
proof -
  let ?e = "zero_entry\<lparr>aeName := ''curl'', aeVersion := ''8.1-r2'', aeDeps := [''so:libz'', ''!wget'', ''curl'', ''zlib>1'']\<rparr>"
  let ?r = "\<lambda>t. if t \<in> {''so:libz'', ''zlib''} then Some ''zlib'' else None"
  have p: "ParseDep ''so:libz'' = Inr \<lparr>dpKind = DepKindSo, dpName = ''so:libz'', dpVersion = [], dpOp = OpNone, dpConflict = False, dpRaw = ''so:libz''\<rparr>"
    "ParseDep ''!wget'' = Inr \<lparr>dpKind = DepKindName, dpName = ''wget'', dpVersion = [], dpOp = OpNone, dpConflict = True, dpRaw = ''!wget''\<rparr>"
    "ParseDep ''curl'' = Inr \<lparr>dpKind = DepKindName, dpName = ''curl'', dpVersion = [], dpOp = OpNone, dpConflict = False, dpRaw = ''curl''\<rparr>"
    "ParseDep ''zlib>1'' = Inr \<lparr>dpKind = DepKindName, dpName = ''zlib'', dpVersion = ''1'', dpOp = OpGt, dpConflict = False, dpRaw = ''zlib>1''\<rparr>"
    by code_simp+
  have v: "splitPkgver ''8.1-r2'' = (''8.1'', 2)" by code_simp
  have "resolve_deps ''curl'' ?r [''so:libz'', ''!wget'', ''curl'', ''zlib>1''] [] = Inr [''zlib'']"
    by (simp add: resolve_deps_step dep_failure_def dep_packages_def needs_def p)
  then obtain u where "apk_MaterializeUnit ?e (Some ?r) ''alpine.main'' = Inr u"
    by (auto simp: apk_MaterializeUnit_def resolveRuntimeDeps_def v)
  with apk_MaterializeUnit_spec [of ?e ?r "''alpine.main''"] v show ?thesis by auto
qed

end
