(* ===== verification/PkgIndex.thy ===== *)
theory PkgIndex
  imports ApkIndex
begin

text \<open>
  What a built package says about itself and how it comes back: the PKGINFO text of
  \<^verbatim>\<open>generatePKGINFO\<close> in \<^verbatim>\<open>internal/artifact/apk.go\<close>, its reader in \<^verbatim>\<open>internal/repo/index.go\<close>, the
  APKINDEX text of \<^verbatim>\<open>GenerateIndex\<close> there, and the reader of theory ApkIndex. The file system,
  the clock and the ELF scan are arguments; archives and compression are left out.
\<close>

section \<open>PKGINFO\<close>

record pkg_world =
  pwBuildDate :: int
  pwSize :: int
  pwSonames :: "string list option"

definition so_version :: "Unit \<Rightarrow> string" where
  "so_version u = uVersion u @ ''-r'' @ Itoa (uRelease u)"

definition provide_text :: "Unit \<Rightarrow> string \<Rightarrow> string" where
  "provide_text u p =
     (if list_ex (\<lambda>c. c \<in> set ''=<>~'') p then p else p @ ''='' @ so_version u)"

definition pkginfo_fields :: "pkg_world \<Rightarrow> Unit \<Rightarrow> string \<Rightarrow> string \<Rightarrow> string \<Rightarrow> (string \<times> string) list" where
  "pkginfo_fields w u dataHashHex arch commit =
     [(''pkgname'', uName u), (''pkgver'', so_version u)] @
     (if uDescription u \<noteq> [] then [(''pkgdesc'', uDescription u)] else []) @
     (if uLicense u \<noteq> [] then [(''license'', uLicense u)] else []) @
     [(''arch'', arch), (''builddate'', Itoa (pwBuildDate w)), (''origin'', uName u)] @
     (if commit \<noteq> [] then [(''commit'', commit)] else []) @
     [(''size'', Itoa (pwSize w))] @
     (if dataHashHex \<noteq> [] then [(''datahash'', dataHashHex)] else []) @
     map (\<lambda>dep. (''depend'', dep)) (uRuntimeDeps u) @
     map (\<lambda>p. (''provides'', provide_text u p)) (uProvides u) @
     (case pwSonames w of
        None \<Rightarrow> []
      | Some sonames \<Rightarrow> map (\<lambda>s. (''provides'', ''so:'' @ s @ ''='' @ so_version u)) sonames) @
     map (\<lambda>r. (''replaces'', r)) (uReplaces u)"

definition generatePKGINFO :: "pkg_world \<Rightarrow> Unit \<Rightarrow> string \<Rightarrow> string \<Rightarrow> string \<Rightarrow> string" where
  "generatePKGINFO w u dataHashHex arch commit =
     concat (map (\<lambda>(k, v). k @ '' = '' @ v @ [CHR 0x0A]) (pkginfo_fields w u dataHashHex arch commit))"

type_synonym pkginfoMap = "(string, string list) gomap"

definition pkg_values :: "pkginfoMap \<Rightarrow> string \<Rightarrow> string list" where
  "pkg_values p key = gm_get [] p key"

definition pkg_Get :: "pkginfoMap \<Rightarrow> string \<Rightarrow> string" where
  "pkg_Get p key = (case gm_get [] p key of [] \<Rightarrow> [] | v # _ \<Rightarrow> v)"

fun read_lines :: "string list \<Rightarrow> pkginfoMap \<Rightarrow> pkginfoMap" where
  "read_lines [] out = out"
| "read_lines (line # ls) out =
     (case Index line '' = '' of
        None \<Rightarrow> read_lines ls out
      | Some idx \<Rightarrow>
          (let key = take idx line; val = drop (idx + 3) line
           in read_lines ls (gm_put key (gm_get [] out key @ [val]) out)))"

definition extractPKGINFO :: "string \<Rightarrow> pkginfoMap" where
  "extractPKGINFO data = read_lines (Split data (CHR 0x0A)) []"

text \<open>\<^verbatim>\<open>fmt.Sscanf(val, "%d", &n)\<close>: spaces, a sign and digits; \<^verbatim>\<open>n\<close> stays 0 when they do not fit.\<close>

definition scan_int :: "string \<Rightarrow> int" where
  "scan_int val =
     (let s = dropWhile (\<lambda>c. c = CHR '' '' \<or> c = CHR 0x09) val;
          sign = (if s \<noteq> [] \<and> (hd s = CHR ''+'' \<or> hd s = CHR ''-'') then [hd s] else []);
          digits = takeWhile isDigit (drop (length sign) s)
      in case ParseInt64 (sign @ digits) of None \<Rightarrow> 0 | Some n \<Rightarrow> n)"

definition pkginfoSize :: "pkginfoMap \<Rightarrow> int" where
  "pkginfoSize p = (if pkg_Get p ''size'' = [] then 0 else scan_int (pkg_Get p ''size''))"

section \<open>APKINDEX\<close>

text \<open>A package file as the index generator sees it.\<close>

record apk_file =
  afName :: string
  afInfo :: pkginfoMap
  afSize :: int
  afSha1 :: string

definition opt_field :: "char \<Rightarrow> string \<Rightarrow> (char \<times> string) list" where
  "opt_field k v = (if v \<noteq> [] then [(k, v)] else [])"

definition index_fields :: "apk_file \<Rightarrow> (char \<times> string) list" where
  "index_fields f =
     (let i = afInfo f in
      [(CHR ''C'', ''Q1'' @ EncodeToString (afSha1 f)), (CHR ''P'', pkg_Get i ''pkgname''),
       (CHR ''V'', pkg_Get i ''pkgver''), (CHR ''A'', pkg_Get i ''arch''), (CHR ''S'', Itoa (afSize f)),
       (CHR ''I'', Itoa (pkginfoSize i)), (CHR ''T'', pkg_Get i ''pkgdesc'')] @
      opt_field (CHR ''U'') (pkg_Get i ''url'') @
      opt_field (CHR ''L'') (pkg_Get i ''license'') @
      opt_field (CHR ''o'') (pkg_Get i ''origin'') @
      opt_field (CHR ''t'') (pkg_Get i ''builddate'') @
      opt_field (CHR ''c'') (pkg_Get i ''commit'') @
      opt_field (CHR ''D'') (Join (pkg_values i ''depend'') '' '') @
      opt_field (CHR ''p'') (Join (pkg_values i ''provides'') '' '') @
      opt_field (CHR ''r'') (Join (pkg_values i ''replaces'') '' ''))"

definition field_text :: "char \<times> string \<Rightarrow> string" where
  "field_text kv = fst kv # '':'' @ snd kv"

definition unlines :: "string list \<Rightarrow> string" where
  "unlines ls = concat (map (\<lambda>l. l @ [CHR 0x0A]) ls)"

definition index_text :: "apk_file list \<Rightarrow> string" where
  "index_text fs = Join (map (\<lambda>f. unlines (map field_text (index_fields f))) fs) [CHR 0x0A]"

text \<open>The packages an index lists: its own directory and the shared one, by file name.\<close>

definition collect_apks :: "apk_file list \<Rightarrow> apk_file list" where
  "collect_apks dir = filter (\<lambda>f. HasSuffix (afName f) ''.apk'') dir"

definition GenerateIndex :: "string \<Rightarrow> apk_file list \<Rightarrow> apk_file list \<Rightarrow> string option" where
  "GenerateIndex arch_dir own noarch =
     (let apks = sort_key afName (collect_apks own @ (if arch_dir \<noteq> ''noarch'' then collect_apks noarch else []))
      in if apks = [] then None else Some (index_text apks))"

section \<open>Reading PKGINFO back\<close>

lemma HasPrefix_Cons: "HasPrefix (c # s) (d # p) \<longleftrightarrow> c = d \<and> HasPrefix s p"
  by (auto simp: HasPrefix_def)

lemma Index_key: "CHR '' '' \<notin> set k \<Longrightarrow> Index (k @ '' = '' @ v) '' = '' = Some (length k)"
proof (induction k)
  case Nil
  show ?case by (simp add: HasPrefix_def)
next
  case (Cons c k)
  then show ?case by (auto simp: HasPrefix_Cons)
qed

lemma Split_unlines: "\<forall>l \<in> set ls. CHR 0x0A \<notin> set l \<Longrightarrow> Split (unlines ls) (CHR 0x0A) = ls @ [[]]"
  by (induction ls) (simp_all add: unlines_def Split_append)

definition kv_ok :: "string \<times> string \<Rightarrow> bool" where
  "kv_ok kv \<longleftrightarrow> CHR '' '' \<notin> set (fst kv) \<and> CHR 0x0A \<notin> set (fst kv) \<and> CHR 0x0A \<notin> set (snd kv)"

lemma read_lines_kvs:
  "\<forall>kv \<in> set kvs. kv_ok kv \<Longrightarrow>
   gm_get [] (read_lines (map (\<lambda>(k, v). k @ '' = '' @ v) kvs) out) key =
     gm_get [] out key @ map snd (filter (\<lambda>kv. fst kv = key) kvs)"
proof (induction kvs arbitrary: out)
  case (Cons kv kvs)
  obtain k v where kv: "kv = (k, v)" by (cases kv)
  have "Index (k @ '' = '' @ v) '' = '' = Some (length k)" using Cons.prems kv by (intro Index_key) (simp add: kv_ok_def)
  with Cons kv show ?case by (simp add: Let_def)
qed simp

lemma read_lines_append: "read_lines (a @ b) out = read_lines b (read_lines a out)"
  by (induction a arbitrary: out) (simp_all add: Let_def split: option.split)

lemma extractPKGINFO_generate:
  assumes "\<forall>kv \<in> set (pkginfo_fields w u h a c). kv_ok kv"
  shows "pkg_values (extractPKGINFO (generatePKGINFO w u h a c)) key =
    map snd (filter (\<lambda>kv. fst kv = key) (pkginfo_fields w u h a c))"
proof -
  let ?kvs = "pkginfo_fields w u h a c" and ?line = "\<lambda>(k, v). k @ '' = '' @ v :: string"
  have lines_eq: "generatePKGINFO w u h a c = unlines (map ?line ?kvs)"
    unfolding generatePKGINFO_def unlines_def map_map by (rule arg_cong [of _ _ concat], rule map_cong) auto
  have "\<forall>l \<in> set (map ?line ?kvs). CHR 0x0A \<notin> set l" using assms by (auto simp: kv_ok_def)
  from Split_unlines [OF this] have "extractPKGINFO (generatePKGINFO w u h a c) = read_lines (map ?line ?kvs) []"
    unfolding lines_eq extractPKGINFO_def by (simp add: read_lines_append)
  then show ?thesis using read_lines_kvs [OF assms, of "[]" key] by (simp add: pkg_values_def)
qed

section \<open>Reading the index back\<close>

definition text_ok :: "string \<Rightarrow> bool" where
  "text_ok v \<longleftrightarrow> CHR 0x0A \<notin> set v \<and> (v \<noteq> [] \<longrightarrow> last v \<noteq> CHR 0x0D) \<and> length v + 2 < max_line"

text \<open>Reading lines changes the entry under construction from one value to another.\<close>

definition reads :: "string list \<Rightarrow> ApkEntry \<Rightarrow> ApkEntry \<Rightarrow> bool" where
  "reads ls cur cur' \<longleftrightarrow>
     (\<forall>rest n st. isCurHas st \<longrightarrow> isCur st = cur \<longrightarrow>
        (\<exists>n'. index_lines (ls @ rest) n st = index_lines rest n' (st\<lparr>isCur := cur'\<rparr>)))"

lemma reads_Nil: "reads [] cur cur"
  unfolding reads_def by (metis append_Nil index_state.surjective index_state.update_convs(2))

lemma readsD:
  "reads ls cur cur' \<Longrightarrow> isCurHas st \<Longrightarrow> isCur st = cur \<Longrightarrow>
   \<exists>n'. index_lines (ls @ rest) n st = index_lines rest n' (st\<lparr>isCur := cur'\<rparr>)"
  by (simp add: reads_def)

lemma reads_append:
  assumes "reads a x y" and "reads b y z"
  shows "reads (a @ b) x z"
  unfolding reads_def
proof (intro allI impI)
  fix rest n and st :: index_state
  assume st: "isCurHas st" "isCur st = x"
  from readsD [OF assms(1) st] obtain n1 where
    1: "index_lines (a @ b @ rest) n st = index_lines (b @ rest) n1 (st\<lparr>isCur := y\<rparr>)" by blast
  from readsD [OF assms(2), of "st\<lparr>isCur := y\<rparr>"] st obtain n2 where
    "index_lines (b @ rest) n1 (st\<lparr>isCur := y\<rparr>) = index_lines rest n2 (st\<lparr>isCur := z\<rparr>)" by auto
  then show "\<exists>n'. index_lines ((a @ b) @ rest) n st = index_lines rest n' (st\<lparr>isCur := z\<rparr>)" using 1 by auto
qed

lemma field_line:
  assumes "text_ok v"
  shows "\<not> max_line \<le> length (field_text (k, v))" "drop_cr (field_text (k, v)) = field_text (k, v)"
    "field_text (k, v) ! 0 = k" "field_text (k, v) ! 1 = CHR '':''" "drop 2 (field_text (k, v)) = v"
    "\<not> length (field_text (k, v)) < 2" "field_text (k, v) \<noteq> []"
  using assms by (auto simp: field_text_def text_ok_def drop_cr_def)

lemma index_lines_field:
  assumes "text_ok v" and "\<And>ln. setField (isCur st) k v ln = Inr cur'"
  shows "index_lines (field_text (k, v) # rest) n st =
    index_lines rest (n + 1) ((if isCurHas st then st else st\<lparr>isBlockLn := n + 1, isCurHas := True\<rparr>)\<lparr>isCur := cur'\<rparr>)"
  using assms field_line [OF assms(1), of k] by (simp add: Let_def)

lemma reads_field:
  assumes "text_ok v" and "\<And>ln. setField cur k v ln = Inr cur'"
  shows "reads (map field_text [(k, v)]) cur cur'"
  using index_lines_field [OF assms(1)] assms(2) unfolding reads_def by auto

lemma setField_line: "setField cur k v ln = Inr cur' \<Longrightarrow> setField cur k v ln' = Inr cur'"
  by (auto simp: setField_def set_number_def split: if_splits option.splits)

fun set_all :: "(char \<times> string) list \<Rightarrow> ApkEntry \<Rightarrow> IndexError + ApkEntry" where
  "set_all [] cur = Inr cur"
| "set_all ((k, v) # kvs) cur = (case setField cur k v 0 of Inl err \<Rightarrow> Inl err | Inr cur' \<Rightarrow> set_all kvs cur')"

lemma reads_set_all:
  "\<forall>kv \<in> set kvs. text_ok (snd kv) \<Longrightarrow> set_all kvs cur = Inr cur' \<Longrightarrow> reads (map field_text kvs) cur cur'"
proof (induction kvs cur rule: set_all.induct)
  case (1 cur)
  then show ?case using reads_Nil by simp
next
  case (2 k v kvs cur)
  then obtain c where c: "setField cur k v 0 = Inr c" "set_all kvs c = Inr cur'" by (auto split: sum.splits)
  have "reads (map field_text [(k, v)]) cur c" using 2(2) setField_line [OF c(1)] by (intro reads_field) simp_all
  moreover have "reads (map field_text kvs) c cur'" using 2 c by simp
  ultimately show ?case using reads_append [of "map field_text [(k, v)]" cur c "map field_text kvs" cur'] by simp
qed

definition index_entry :: "apk_file \<Rightarrow> ApkEntry" where
  "index_entry f =
     (let i = afInfo f in
      zero_entry\<lparr>aeChecksumText := ''Q1'' @ EncodeToString (afSha1 f), aeName := pkg_Get i ''pkgname'',
        aeVersion := pkg_Get i ''pkgver'', aeArch := pkg_Get i ''arch'', aeSize := afSize f,
        aeInstalledSize := pkginfoSize i, aeDescription := pkg_Get i ''pkgdesc'', aeURL := pkg_Get i ''url'',
        aeLicense := pkg_Get i ''license'', aeOrigin := pkg_Get i ''origin'',
        aeBuildTime := (case ParseInt64 (pkg_Get i ''builddate'') of None \<Rightarrow> 0 | Some n \<Rightarrow> n),
        aeCommit := pkg_Get i ''commit'', aeDeps := pkg_values i ''depend'',
        aeProvides := pkg_values i ''provides'', aeReplaces := pkg_values i ''replaces''\<rparr>)"

text \<open>The packages whose index entry can be read: the conditions a package of the build meets.\<close>

definition apk_file_ok :: "apk_file \<Rightarrow> bool" where
  "apk_file_ok f \<longleftrightarrow>
     (\<forall>kv \<in> set (index_fields f). text_ok (snd kv)) \<and> length (afSha1 f) = 20 \<and>
     - (2 ^ 63) \<le> afSize f \<and> afSize f < 2 ^ 63 \<and> pkg_Get (afInfo f) ''pkgname'' \<noteq> [] \<and>
     (pkg_Get (afInfo f) ''builddate'' = [] \<or> ParseInt64 (pkg_Get (afInfo f) ''builddate'') \<noteq> None) \<and>
     (\<forall>key \<in> {''depend'', ''provides'', ''replaces''}. \<forall>t \<in> set (pkg_values (afInfo f) key). plain t)"

lemma ParseInt64_range: "ParseInt64 s = Some n \<Longrightarrow> - (2 ^ 63) \<le> n \<and> n < 2 ^ 63"
  by (auto simp: ParseInt64_def Let_def split: if_splits list.splits)

lemma pkginfoSize_range: "- (2 ^ 63) \<le> pkginfoSize i \<and> pkginfoSize i < 2 ^ 63"
  using ParseInt64_range by (auto simp: pkginfoSize_def scan_int_def Let_def split: option.split)

lemma set_number_Itoa: "- (2 ^ 63) \<le> i \<Longrightarrow> i < 2 ^ 63 \<Longrightarrow> set_number ln k (Itoa i) put = Inr (put i)"
  by (simp add: set_number_def ParseInt64_Itoa)

lemma Join_plain_empty: "\<forall>t \<in> set ts. plain t \<Longrightarrow> Join ts '' '' = [] \<longleftrightarrow> ts = []"
  by (cases ts rule: list.exhaust; cases "tl ts") auto

text \<open>The key letters of the required fields, and of the optional ones when their value is there.\<close>

lemma set_all_required:
  "set_all ((CHR ''C'', v) # kvs) cur = set_all kvs (cur\<lparr>aeChecksumText := v\<rparr>)"
  "set_all ((CHR ''P'', v) # kvs) cur = set_all kvs (cur\<lparr>aeName := v\<rparr>)"
  "set_all ((CHR ''V'', v) # kvs) cur = set_all kvs (cur\<lparr>aeVersion := v\<rparr>)"
  "set_all ((CHR ''A'', v) # kvs) cur = set_all kvs (cur\<lparr>aeArch := v\<rparr>)"
  "set_all ((CHR ''T'', v) # kvs) cur = set_all kvs (cur\<lparr>aeDescription := v\<rparr>)"
  "- (2 ^ 63) \<le> i \<Longrightarrow> i < 2 ^ 63 \<Longrightarrow> set_all ((CHR ''S'', Itoa i) # kvs) cur = set_all kvs (cur\<lparr>aeSize := i\<rparr>)"
  "- (2 ^ 63) \<le> i \<Longrightarrow> i < 2 ^ 63 \<Longrightarrow> set_all ((CHR ''I'', Itoa i) # kvs) cur = set_all kvs (cur\<lparr>aeInstalledSize := i\<rparr>)"
  by (simp_all add: setField_def set_number_Itoa)

lemma set_all_opt:
  assumes "v \<noteq> [] \<Longrightarrow> setField cur k v 0 = Inr cur'" and "v = [] \<Longrightarrow> cur' = cur"
  shows "set_all (opt_field k v @ kvs) cur = set_all kvs cur'"
  using assms by (simp add: opt_field_def)

lemma set_all_optional:
  "aeURL cur = [] \<Longrightarrow> set_all (opt_field (CHR ''U'') v @ kvs) cur = set_all kvs (cur\<lparr>aeURL := v\<rparr>)"
  "aeLicense cur = [] \<Longrightarrow> set_all (opt_field (CHR ''L'') v @ kvs) cur = set_all kvs (cur\<lparr>aeLicense := v\<rparr>)"
  "aeOrigin cur = [] \<Longrightarrow> set_all (opt_field (CHR ''o'') v @ kvs) cur = set_all kvs (cur\<lparr>aeOrigin := v\<rparr>)"
  "aeCommit cur = [] \<Longrightarrow> set_all (opt_field (CHR ''c'') v @ kvs) cur = set_all kvs (cur\<lparr>aeCommit := v\<rparr>)"
  by (rule set_all_opt; cases cur; simp add: setField_def)+

lemma set_all_time:
  "aeBuildTime cur = 0 \<Longrightarrow> v = [] \<or> ParseInt64 v \<noteq> None \<Longrightarrow>
   set_all (opt_field (CHR ''t'') v @ kvs) cur =
     set_all kvs (cur\<lparr>aeBuildTime := (case ParseInt64 v of None \<Rightarrow> 0 | Some n \<Rightarrow> n)\<rparr>)"
proof (rule set_all_opt)
  assume "aeBuildTime cur = 0" "v = []"
  then show "cur\<lparr>aeBuildTime := (case ParseInt64 v of None \<Rightarrow> 0 | Some n \<Rightarrow> n)\<rparr> = cur"
    by (cases cur) (simp add: ParseInt64_def)
qed (auto simp: setField_def set_number_def)

lemma set_all_tokens:
  assumes "\<forall>t \<in> set ts. plain t"
  shows "aeDeps cur = [] \<Longrightarrow> set_all (opt_field (CHR ''D'') (Join ts '' '') @ kvs) cur = set_all kvs (cur\<lparr>aeDeps := ts\<rparr>)"
    "aeProvides cur = [] \<Longrightarrow> set_all (opt_field (CHR ''p'') (Join ts '' '') @ kvs) cur = set_all kvs (cur\<lparr>aeProvides := ts\<rparr>)"
    "aeReplaces cur = [] \<Longrightarrow> set_all (opt_field (CHR ''r'') (Join ts '' '')) cur = Inr (cur\<lparr>aeReplaces := ts\<rparr>)"
proof -
  note J = Fields_Join [OF assms] Join_plain_empty [OF assms]
  show "aeDeps cur = [] \<Longrightarrow> set_all (opt_field (CHR ''D'') (Join ts '' '') @ kvs) cur = set_all kvs (cur\<lparr>aeDeps := ts\<rparr>)"
    by (rule set_all_opt; cases cur; simp add: setField_def J)
  show "aeProvides cur = [] \<Longrightarrow> set_all (opt_field (CHR ''p'') (Join ts '' '') @ kvs) cur = set_all kvs (cur\<lparr>aeProvides := ts\<rparr>)"
    by (rule set_all_opt; cases cur; simp add: setField_def J)
  show "aeReplaces cur = [] \<Longrightarrow> set_all (opt_field (CHR ''r'') (Join ts '' '')) cur = Inr (cur\<lparr>aeReplaces := ts\<rparr>)"
    using set_all_opt [of "Join ts '' ''" cur "CHR ''r''" "cur\<lparr>aeReplaces := ts\<rparr>" "[]"]
    by (cases cur) (simp add: setField_def J)
qed

lemma set_all_index_fields:
  assumes "apk_file_ok f"
  shows "set_all (index_fields f) zero_entry = Inr (index_entry f)"
proof -
  note ok = assms [unfolded apk_file_ok_def]
  have plain: "\<forall>t \<in> set (pkg_values (afInfo f) ''depend''). plain t"
    "\<forall>t \<in> set (pkg_values (afInfo f) ''provides''). plain t" "\<forall>t \<in> set (pkg_values (afInfo f) ''replaces''). plain t"
    using ok by simp_all
  show ?thesis
    unfolding index_fields_def index_entry_def Let_def append.simps
    using ok pkginfoSize_range [of "afInfo f"]
    by (simp add: set_all_required set_all_optional set_all_time set_all_tokens [OF plain(1)] set_all_tokens [OF plain(2)]
        set_all_tokens [OF plain(3)] zero_entry_def del: set_all.simps)
qed

section \<open>The whole index\<close>

definition parsed_entry :: "apk_file \<Rightarrow> ApkEntry" where
  "parsed_entry f = (index_entry f)\<lparr>aeChecksum := afSha1 f\<rparr>"

abbreviation entry_lines :: "apk_file \<Rightarrow> string list" where
  "entry_lines f \<equiv> map field_text (index_fields f)"

fun all_lines :: "apk_file list \<Rightarrow> string list" where
  "all_lines [] = []"
| "all_lines [f] = entry_lines f"
| "all_lines (f # g # fs) = entry_lines f @ [] # all_lines (g # fs)"

lemma unlines_append: "unlines (a @ b) = unlines a @ unlines b"
  by (simp add: unlines_def)

lemma index_text_lines: "index_text fs = unlines (all_lines fs)"
  unfolding index_text_def
  by (induction fs rule: all_lines.induct) (simp_all add: unlines_append, simp_all add: unlines_def)

lemma raw_lines_unlines: "\<forall>l \<in> set ls. CHR 0x0A \<notin> set l \<Longrightarrow> raw_lines (unlines ls) = ls"
  by (simp add: raw_lines_def Split_unlines)

lemma key_chars: "(k, v) \<in> set (index_fields f) \<Longrightarrow> k \<noteq> CHR 0x0A"
  by (auto simp: index_fields_def opt_field_def Let_def split: if_splits)

lemma all_lines_no_break:
  "\<forall>f \<in> set fs. apk_file_ok f \<Longrightarrow> \<forall>l \<in> set (all_lines fs). CHR 0x0A \<notin> set l"
proof -
  have one: "CHR 0x0A \<notin> set l" if f: "apk_file_ok f" and l: "l \<in> set (entry_lines f)" for f l
  proof -
    obtain k v where kv: "(k, v) \<in> set (index_fields f)" "l = field_text (k, v)" using l by auto
    then have "text_ok v" using f unfolding apk_file_ok_def by force
    with kv key_chars show ?thesis by (auto simp: field_text_def text_ok_def)
  qed
  show "\<forall>f \<in> set fs. apk_file_ok f \<Longrightarrow> \<forall>l \<in> set (all_lines fs). CHR 0x0A \<notin> set l"
    using one by (induction fs rule: all_lines.induct) (auto simp del: set_map)
qed

lemma index_fields_head: "\<exists>v kvs. index_fields f = (CHR ''C'', v) # kvs"
  by (simp add: index_fields_def Let_def)

lemma index_lines_begin:
  "text_ok v \<Longrightarrow> \<not> isCurHas st \<Longrightarrow>
   index_lines (field_text (k, v) # rest) n st =
     index_lines (field_text (k, v) # rest) n (st\<lparr>isBlockLn := n + 1, isCurHas := True\<rparr>)"
  using field_line [of v k] by (simp add: Let_def)

lemma index_lines_entry:
  assumes ok: "apk_file_ok f" and st: "\<not> isCurHas st" "isCur st = zero_entry"
  shows "\<exists>n' b. index_lines (entry_lines f @ rest) n st =
    index_lines rest n' (st\<lparr>isBlockLn := b, isCurHas := True, isCur := index_entry f\<rparr>)"
proof -
  let ?st = "st\<lparr>isBlockLn := n + 1, isCurHas := True\<rparr>"
  obtain v kvs where head: "index_fields f = (CHR ''C'', v) # kvs" using index_fields_head by blast
  have texts: "\<forall>kv \<in> set (index_fields f). text_ok (snd kv)" using ok by (simp add: apk_file_ok_def)
  then have "index_lines (entry_lines f @ rest) n st = index_lines (entry_lines f @ rest) n ?st"
    using index_lines_begin [of v st "CHR ''C''" "map field_text kvs @ rest" n] st(1) unfolding head by simp
  moreover obtain n' where "index_lines (entry_lines f @ rest) n ?st = index_lines rest n' (?st\<lparr>isCur := index_entry f\<rparr>)"
    using readsD [OF reads_set_all [OF texts set_all_index_fields [OF ok]], of ?st rest n] st(2) by auto
  ultimately show ?thesis by auto
qed

lemma flush_index_entry:
  assumes "apk_file_ok f"
  shows "flush_entry (st\<lparr>isBlockLn := b, isCurHas := True, isCur := index_entry f\<rparr>) =
    Inr (st\<lparr>isBlockLn := b, isEntries := isEntries st @ [parsed_entry f], isCur := zero_entry, isCurHas := False\<rparr>)"
proof -
  have "DecodeChecksum (''Q1'' @ EncodeToString (afSha1 f)) = Inr (afSha1 f)"
    using assms by (simp add: DecodeChecksum_def HasPrefix_def DecodeString_Encode apk_file_ok_def)
  then show ?thesis
    using assms by (simp add: flush_entry_def index_entry_def Let_def apk_file_ok_def parsed_entry_def)
qed

lemma index_lines_blank:
  "index_lines ([] # rest) n st = (case flush_entry st of Inl err \<Rightarrow> Inl err | Inr st' \<Rightarrow> index_lines rest (Suc n) st')"
  by (simp add: max_line_def drop_cr_def Let_def)

lemma index_lines_all:
  "fs \<noteq> [] \<Longrightarrow> \<forall>f \<in> set fs. apk_file_ok f \<Longrightarrow> \<not> isCurHas st \<Longrightarrow> isCur st = zero_entry \<Longrightarrow>
   \<exists>st1 st2. index_lines (all_lines fs) n st = Inr st1 \<and> flush_entry st1 = Inr st2 \<and>
     isEntries st2 = isEntries st @ map parsed_entry fs"
proof (induction fs arbitrary: st n rule: all_lines.induct)
  case (2 f)
  then have ok: "apk_file_ok f" by simp
  obtain n' b where "index_lines (entry_lines f) n st = Inr (st\<lparr>isBlockLn := b, isCurHas := True, isCur := index_entry f\<rparr>)"
    using index_lines_entry [OF ok "2.prems"(3,4), of "[]" n] by auto
  then show ?case using flush_index_entry [OF ok, where st = st and b = b] by simp
next
  case (3 f g fs)
  then have ok: "apk_file_ok f" by simp
  obtain n' b where 1: "index_lines (all_lines (f # g # fs)) n st =
      index_lines ([] # all_lines (g # fs)) n' (st\<lparr>isBlockLn := b, isCurHas := True, isCur := index_entry f\<rparr>)"
    using index_lines_entry [OF ok "3.prems"(3,4), of "[] # all_lines (g # fs)" n] unfolding all_lines.simps by blast
  let ?st = "st\<lparr>isBlockLn := b, isEntries := isEntries st @ [parsed_entry f], isCur := zero_entry, isCurHas := False\<rparr>"
  have 2: "index_lines (all_lines (f # g # fs)) n st = index_lines (all_lines (g # fs)) (Suc n') ?st"
    unfolding 1 index_lines_blank flush_index_entry [OF ok] by simp
  show ?case unfolding 2 using "3.IH" [of ?st "Suc n'"] "3.prems"(2) by simp
qed simp

lemma ParseIndex_index_text:
  assumes "fs \<noteq> []" and "\<forall>f \<in> set fs. apk_file_ok f"
  shows "ParseIndex (index_text fs) = Inr (map parsed_entry fs)"
proof -
  have "raw_lines (index_text fs) = all_lines fs"
    unfolding index_text_lines by (rule raw_lines_unlines, rule all_lines_no_break, rule assms(2))
  with index_lines_all [OF assms, of init_index 0] show ?thesis
    by (auto simp: ParseIndex_def init_index_def)
qed

section \<open>Packages the build makes\<close>

text \<open>The index generator's view of the package of a unit.\<close>

definition built_file :: "pkg_world \<Rightarrow> Unit \<Rightarrow> string \<Rightarrow> string \<Rightarrow> string \<Rightarrow> int \<Rightarrow> string \<Rightarrow> apk_file" where
  "built_file w u dataHashHex arch commit sz sha =
     \<lparr>afName = uName u @ ''-'' @ so_version u @ ''.apk'',
      afInfo = extractPKGINFO (generatePKGINFO w u dataHashHex arch commit), afSize = sz, afSha1 = sha\<rparr>"

lemma filter_const_key: "filter (\<lambda>kv. fst kv = key) (map (\<lambda>x. (k, f x)) xs) = (if k = key then map (\<lambda>x. (k, f x)) xs else [])"
  by (induction xs) auto

lemma built_values:
  assumes "\<forall>kv \<in> set (pkginfo_fields w u h a c). kv_ok kv"
  shows "pkg_values (extractPKGINFO (generatePKGINFO w u h a c)) ''pkgname'' = [uName u]"
    "pkg_values (extractPKGINFO (generatePKGINFO w u h a c)) ''pkgver'' = [so_version u]"
    "pkg_values (extractPKGINFO (generatePKGINFO w u h a c)) ''arch'' = [a]"
    "pkg_values (extractPKGINFO (generatePKGINFO w u h a c)) ''depend'' = uRuntimeDeps u"
    "pkg_values (extractPKGINFO (generatePKGINFO w u h a c)) ''provides'' =
       map (provide_text u) (uProvides u) @
       (case pwSonames w of None \<Rightarrow> [] | Some ss \<Rightarrow> map (\<lambda>s. ''so:'' @ s @ ''='' @ so_version u) ss)"
    "pkg_values (extractPKGINFO (generatePKGINFO w u h a c)) ''replaces'' = uReplaces u"
  unfolding extractPKGINFO_generate [OF assms] pkginfo_fields_def
  by (simp_all add: filter_const_key comp_def split: option.split)

text \<open>An index entry tells about the package of a unit what the resolver needs.\<close>

definition describes :: "pkg_world \<Rightarrow> Unit \<Rightarrow> string \<Rightarrow> ApkEntry \<Rightarrow> bool" where
  "describes w u arch e \<longleftrightarrow>
     aeName e = uName u \<and> splitPkgver (aeVersion e) = (uVersion u, uRelease u) \<and> aeArch e = arch \<and>
     aeDeps e = uRuntimeDeps u \<and> aeReplaces e = uReplaces u \<and> uName u \<in> set (provided_tokens e) \<and>
     (\<forall>p \<in> set (uProvides u). p \<noteq> [] \<longrightarrow> strip_version p \<in> set (provided_tokens e)) \<and>
     (\<forall>ss s. pwSonames w = Some ss \<longrightarrow> s \<in> set ss \<longrightarrow> strip_version (''so:'' @ s) \<in> set (provided_tokens e))"

lemma strip_version_append: "strip_version (s @ ''='' @ v) = strip_version s"
proof (cases "IndexByte s (CHR ''='')")
  case None
  then have "CHR ''='' \<notin> set s" by (simp add: IndexByte_None)
  then show ?thesis using IndexByte_append [of "CHR ''=''" s v] None by (simp add: strip_version_def)
next
  case (Some i)
  have "IndexByte (s @ t) c = IndexByte s c" if "IndexByte s c = Some i" for t c
    using that by (induction s c arbitrary: i rule: IndexByte.induct) (auto split: if_splits)
  with Some have "IndexByte (s @ ''='' @ v) (CHR ''='') = Some i" by simp
  moreover have "i < length s" using IndexByte_Some [OF Some] by simp
  ultimately show ?thesis using Some by (simp add: strip_version_def)
qed

lemma strip_provide_text: "strip_version (provide_text u p) = strip_version p"
  using strip_version_append by (simp add: provide_text_def)

lemma parsed_fields:
  "aeName (parsed_entry f) = pkg_Get (afInfo f) ''pkgname''" "aeVersion (parsed_entry f) = pkg_Get (afInfo f) ''pkgver''"
  "aeArch (parsed_entry f) = pkg_Get (afInfo f) ''arch''" "aeDeps (parsed_entry f) = pkg_values (afInfo f) ''depend''"
  "aeProvides (parsed_entry f) = pkg_values (afInfo f) ''provides''" "aeReplaces (parsed_entry f) = pkg_values (afInfo f) ''replaces''"
  by (simp_all add: parsed_entry_def index_entry_def Let_def)

lemma pkg_Get_values: "pkg_Get p k = (case pkg_values p k of [] \<Rightarrow> [] | v # _ \<Rightarrow> v)"
  by (simp add: pkg_Get_def pkg_values_def)

lemma splitPkgver_so_version:
  assumes "0 \<le> uRelease u" and "uRelease u < 2 ^ 63"
  shows "splitPkgver (so_version u) = (uVersion u, uRelease u)"
proof -
  let ?d = "nat_digits (nat (uRelease u))"
  have "list_all isDigit ?d" using nat_digits_digits by (auto simp: list_all_iff)
  moreover have "signed_take_bit 63 (int (digits_val ?d)) = uRelease u"
    using assms signed_take_bit_int_eq_self [of 63 "uRelease u"] by simp
  ultimately show ?thesis
    using splitPkgver_tail [of ?d "uVersion u"] assms(1) by (simp add: so_version_def Itoa_def)
qed

lemma built_describes:
  assumes kv: "\<forall>kv \<in> set (pkginfo_fields w u h a c). kv_ok kv" and rel: "0 \<le> uRelease u" "uRelease u < 2 ^ 63"
    and name: "uName u \<noteq> []" "CHR ''='' \<notin> set (uName u)"
  shows "describes w u a (parsed_entry (built_file w u h a c sz sha))"
proof -
  let ?e = "parsed_entry (built_file w u h a c sz sha)"
  note vals = built_values [OF kv]
  have fields: "aeName ?e = uName u" "aeVersion ?e = so_version u" "aeArch ?e = a" "aeDeps ?e = uRuntimeDeps u"
    "aeReplaces ?e = uReplaces u" "aeProvides ?e = map (provide_text u) (uProvides u) @
       (case pwSonames w of None \<Rightarrow> [] | Some ss \<Rightarrow> map (\<lambda>s. ''so:'' @ s @ ''='' @ so_version u) ss)"
    unfolding parsed_fields pkg_Get_values by (simp_all add: built_file_def vals)
  have own: "strip_version (uName u) = uName u"
    using name(2) by (simp add: strip_version_def iffD2 [OF IndexByte_None])
  have "strip_version p \<in> set (provided_tokens ?e)" if "p \<in> set (uProvides u)" "p \<noteq> []" for p
  proof -
    have "provide_text u p \<noteq> []" using that(2) by (simp add: provide_text_def)
    with that(1) show ?thesis unfolding provided_tokens_def fields strip_provide_text [symmetric, of p u] by auto
  qed
  moreover have "strip_version (''so:'' @ s) \<in> set (provided_tokens ?e)" if "pwSonames w = Some ss" "s \<in> set ss" for ss s
    unfolding provided_tokens_def fields strip_version_append [symmetric, of "''so:'' @ s" "so_version u"]
    using that by auto
  moreover have "uName u \<in> set (provided_tokens ?e)"
    using name(1) own by (simp add: provided_tokens_def fields)
  ultimately show ?thesis
    using splitPkgver_so_version [OF rel] by (auto simp: describes_def fields)
qed

section \<open>Properties\<close>

text \<open>
  The checksum of an index line decodes to the digest it was made from, and the generated
  index of a set of packages parses to exactly one entry per package, in the order of the
  file names.
\<close>

theorem GenerateIndex_roundtrip:
  assumes "GenerateIndex dir own noarch = Some out" and "\<forall>f \<in> set (own @ noarch). apk_file_ok f"
  shows "\<exists>fs. ParseIndex out = Inr (map parsed_entry fs) \<and> sorted (map afName fs) \<and>
    mset fs = mset (collect_apks own @ (if dir \<noteq> ''noarch'' then collect_apks noarch else [])) \<and>
    (\<forall>f \<in> set fs. DecodeChecksum (aeChecksumText (parsed_entry f)) = Inr (afSha1 f))"
proof -
  let ?apks = "collect_apks own @ (if dir \<noteq> ''noarch'' then collect_apks noarch else [])"
  let ?fs = "sort_key afName ?apks"
  have "?fs \<noteq> []" "out = index_text ?fs" using assms(1) by (auto simp: GenerateIndex_def Let_def split: if_splits)
  moreover have ok: "\<forall>f \<in> set ?fs. apk_file_ok f" using assms(2) by (auto simp: collect_apks_def)
  ultimately have "ParseIndex out = Inr (map parsed_entry ?fs)" using ParseIndex_index_text by simp
  moreover have "DecodeChecksum (aeChecksumText (parsed_entry f)) = Inr (afSha1 f)" if "f \<in> set ?fs" for f
  proof -
    have "length (afSha1 f) = 20" using ok that by (simp add: apk_file_ok_def)
    then show ?thesis
      by (simp add: parsed_entry_def index_entry_def Let_def DecodeChecksum_def HasPrefix_def DecodeString_Encode)
  qed
  ultimately show ?thesis by (intro exI [of _ ?fs]) (auto simp del: set_sort)
qed


definition ex_sha :: string where
  "ex_sha = replicate 20 (CHR ''a'')"

definition ex_zlib :: Unit where
  "ex_zlib = zero_unit\<lparr>uName := ''zlib'', uVersion := ''1.3'', uRelease := 2, uRuntimeDeps := [''musl''], uProvides := [''z'']\<rparr>"

definition ex_pkg_world :: pkg_world where
  "ex_pkg_world = \<lparr>pwBuildDate = 7, pwSize = 9, pwSonames = Some [''libz.so.1'']\<rparr>"

lemma ex_fields: "pkginfo_fields ex_pkg_world ex_zlib [] ''x86_64'' [] =
  [(''pkgname'', ''zlib''), (''pkgver'', ''1.3-r2''), (''arch'', ''x86_64''), (''builddate'', ''7''), (''origin'', ''zlib''),
   (''size'', ''9''), (''depend'', ''musl''), (''provides'', ''z=1.3-r2''), (''provides'', ''so:libz.so.1=1.3-r2'')]"
  by code_simp

lemma ex_kv_ok: "\<forall>kv \<in> set (pkginfo_fields ex_pkg_world ex_zlib [] ''x86_64'' []). kv_ok kv"
  unfolding ex_fields by (simp add: kv_ok_def)

lemma ex_values: "pkg_values (afInfo (built_file ex_pkg_world ex_zlib [] ''x86_64'' [] 5 ex_sha)) key =
  map snd (filter (\<lambda>kv. fst kv = key) (pkginfo_fields ex_pkg_world ex_zlib [] ''x86_64'' []))"
  using extractPKGINFO_generate [OF ex_kv_ok] by (simp add: built_file_def)

lemma ex_index_fields:
  "index_fields (built_file ex_pkg_world ex_zlib [] ''x86_64'' [] 5 ex_sha) =
   [(CHR ''C'', ''Q1'' @ EncodeToString ex_sha), (CHR ''P'', ''zlib''), (CHR ''V'', ''1.3-r2''), (CHR ''A'', ''x86_64''),
    (CHR ''S'', ''5''), (CHR ''I'', ''9''), (CHR ''T'', []), (CHR ''o'', ''zlib''), (CHR ''t'', ''7''), (CHR ''D'', ''musl''),
    (CHR ''p'', ''z=1.3-r2 so:libz.so.1=1.3-r2'')]"
proof -
  have n: "Itoa 5 = ''5''" "Itoa 9 = ''9''" "scan_int ''9'' = 9" by code_simp+
  show ?thesis
    unfolding index_fields_def Let_def pkginfoSize_def pkg_Get_values ex_values ex_fields
    by (simp add: opt_field_def n built_file_def)
qed

lemma ex_sha_text: "EncodeToString ex_sha = ''YWFhYWFhYWFhYWFhYWFhYWFhYWE=''"
  by code_simp

lemma ex_file_ok: "apk_file_ok (built_file ex_pkg_world ex_zlib [] ''x86_64'' [] 5 ex_sha)"
proof -
  let ?f = "built_file ex_pkg_world ex_zlib [] ''x86_64'' [] 5 ex_sha"
  have "pkg_Get (afInfo ?f) ''builddate'' = ''7''" "pkg_Get (afInfo ?f) ''pkgname'' = ''zlib''"
    unfolding pkg_Get_values ex_values ex_fields by simp_all
  moreover have "ParseInt64 ''7'' \<noteq> None" by code_simp
  moreover have "\<forall>kv \<in> set (index_fields ?f). text_ok (snd kv)"
    unfolding ex_index_fields ex_sha_text by (simp add: text_ok_def max_line_def)
  moreover have "\<forall>key \<in> {''depend'', ''provides'', ''replaces''}. \<forall>t \<in> set (pkg_values (afInfo ?f) key). plain t"
    unfolding ex_values ex_fields by (simp add: isSpace_def)
  moreover have "length (afSha1 ?f) = 20" "afSize ?f = 5" by (simp_all add: built_file_def ex_sha_def)
  ultimately show ?thesis unfolding apk_file_ok_def by simp
qed

theorem GenerateIndex_roundtrip_witness:
  "\<exists>fs. ParseIndex (index_text [built_file ex_pkg_world ex_zlib [] ''x86_64'' [] 5 ex_sha]) = Inr (map parsed_entry fs) \<and>
     (\<forall>f \<in> set fs. DecodeChecksum (aeChecksumText (parsed_entry f)) = Inr (afSha1 f)) \<and> size fs = 1"
proof -
  let ?f = "built_file ex_pkg_world ex_zlib [] ''x86_64'' [] 5 ex_sha"
  have "afName ?f = ''zlib-1.3-r2.apk''" by code_simp
  then have "HasSuffix (afName ?f) ''.apk''" using HasSuffix_append [of "''zlib-1.3-r2''" "''.apk''"] by simp
  then have c: "collect_apks [?f] = [?f]" by (simp add: collect_apks_def)
  then have "GenerateIndex ''x86_64'' [?f] [] = Some (index_text [?f])" by (simp add: GenerateIndex_def collect_apks_def Let_def)
  from GenerateIndex_roundtrip [OF this] obtain fs where fs: "ParseIndex (index_text [?f]) = Inr (map parsed_entry fs)"
    "mset fs = mset [?f]" "\<forall>f \<in> set fs. DecodeChecksum (aeChecksumText (parsed_entry f)) = Inr (afSha1 f)"
    using ex_file_ok c by (auto simp: collect_apks_def)
  then have "size fs = 1" using arg_cong [OF fs(2), of size] by simp
  with fs show ?thesis by blast
qed


end
