(* ===== verification/Starlark.thy ===== *)
theory Starlark
  imports Units
begin

text \<open>
  Starlark values and the helpers of \<^verbatim>\<open>internal/starlark/builtins.go\<close> that read them: keyword
  arguments, struct attributes, and \<^verbatim>\<open>starlarkToGo\<close>. A Starlark integer is unbounded; what
  \<^verbatim>\<open>Int64\<close> of the interpreter returns for one that does not fit is not specified and is an
  argument of the one helper that uses it.
\<close>

section \<open>Values\<close>

datatype sval =
    SNone
  | SBool bool
  | SString string
  | SInt int
  | SFloat "64 word"
  | SList "sval list"
  | STuple "sval list"
  | SDict "(sval \<times> sval) list"
  | SStruct string "(string \<times> sval) list"
  | SInstall InstallStep
  | SCallable name
  | SOther string

type_synonym kwargs = "(string \<times> sval) list"

definition int64 :: "int \<Rightarrow> bool" where
  "int64 n \<longleftrightarrow> - (2 ^ 63) \<le> n \<and> n < 2 ^ 63"

definition strings_of :: "sval list \<Rightarrow> string list" where
  "strings_of xs = concat (map (\<lambda>v. case v of SString s \<Rightarrow> [s] | _ \<Rightarrow> []) xs)"

definition string_map :: "(sval \<times> sval) list \<Rightarrow> (string, string) gomap" where
  "string_map items =
     fold (\<lambda>kv m. case kv of (SString k, SString v) \<Rightarrow> gm_put k v m | _ \<Rightarrow> m) items []"

definition string_list_map :: "(sval \<times> sval) list \<Rightarrow> (string, string list) gomap" where
  "string_list_map items =
     fold (\<lambda>kv m. case kv of (SString k, SList vs) \<Rightarrow> gm_put k (strings_of vs) m | _ \<Rightarrow> m) items []"

section \<open>Keyword arguments\<close>

text \<open>Each loop returns at the first argument with the key and the type it wants.\<close>

fun kwString :: "kwargs \<Rightarrow> string \<Rightarrow> string" where
  "kwString [] key = []"
| "kwString ((k, v) # kws) key =
     (if k = key then (case v of SString s \<Rightarrow> s | _ \<Rightarrow> kwString kws key) else kwString kws key)"

fun kwBool :: "kwargs \<Rightarrow> string \<Rightarrow> bool" where
  "kwBool [] key = False"
| "kwBool ((k, v) # kws) key =
     (if k = key then (case v of SBool b \<Rightarrow> b | _ \<Rightarrow> kwBool kws key) else kwBool kws key)"

fun kwInt :: "(int \<Rightarrow> int) \<Rightarrow> kwargs \<Rightarrow> string \<Rightarrow> int" where
  "kwInt big [] key = 0"
| "kwInt big ((k, v) # kws) key =
     (if k = key then (case v of SInt n \<Rightarrow> if int64 n then n else big n | _ \<Rightarrow> kwInt big kws key) else kwInt big kws key)"

fun kwStringList :: "kwargs \<Rightarrow> string \<Rightarrow> string list" where
  "kwStringList [] key = []"
| "kwStringList ((k, v) # kws) key =
     (if k = key then (case v of SList xs \<Rightarrow> strings_of xs | _ \<Rightarrow> kwStringList kws key) else kwStringList kws key)"

fun kwStringListMap :: "kwargs \<Rightarrow> string \<Rightarrow> (string, string list) gomap" where
  "kwStringListMap [] key = []"
| "kwStringListMap ((k, v) # kws) key =
     (if k \<noteq> key then kwStringListMap kws key else case v of SDict items \<Rightarrow> string_list_map items | _ \<Rightarrow> [])"

fun kwStringMap :: "kwargs \<Rightarrow> string \<Rightarrow> (string, string) gomap" where
  "kwStringMap [] key = []"
| "kwStringMap ((k, v) # kws) key =
     (if k = key then (case v of SDict items \<Rightarrow> string_map items | _ \<Rightarrow> kwStringMap kws key) else kwStringMap kws key)"

fun kwStruct :: "kwargs \<Rightarrow> string \<Rightarrow> (string \<times> sval) list option" where
  "kwStruct [] key = None"
| "kwStruct ((k, v) # kws) key =
     (if k = key then (case v of SStruct n attrs \<Rightarrow> Some attrs | _ \<Rightarrow> kwStruct kws key) else kwStruct kws key)"

section \<open>Struct attributes\<close>

definition structString :: "(string \<times> sval) list option \<Rightarrow> string \<Rightarrow> string" where
  "structString s field =
     (case s of None \<Rightarrow> [] | Some attrs \<Rightarrow> (case map_of attrs field of Some (SString v) \<Rightarrow> v | _ \<Rightarrow> []))"

definition structInt :: "(string \<times> sval) list option \<Rightarrow> string \<Rightarrow> int option" where
  "structInt s field =
     (case s of None \<Rightarrow> None
      | Some attrs \<Rightarrow> (case map_of attrs field of Some (SInt n) \<Rightarrow> if int64 n then Some n else None | _ \<Rightarrow> None))"

definition structStringMap :: "(string \<times> sval) list option \<Rightarrow> string \<Rightarrow> (string, string) gomap" where
  "structStringMap s field =
     (case s of None \<Rightarrow> [] | Some attrs \<Rightarrow> (case map_of attrs field of Some (SDict items) \<Rightarrow> string_map items | _ \<Rightarrow> []))"

definition structStringList :: "(string \<times> sval) list option \<Rightarrow> string \<Rightarrow> string list" where
  "structStringList s field =
     (case s of None \<Rightarrow> [] | Some attrs \<Rightarrow> (case map_of attrs field of Some (SList xs) \<Rightarrow> strings_of xs | _ \<Rightarrow> []))"

definition structBool :: "(string \<times> sval) list \<Rightarrow> string \<Rightarrow> bool" where
  "structBool attrs field = (case map_of attrs field of Some (SBool b) \<Rightarrow> b | _ \<Rightarrow> False)"

definition makeStruct :: "string \<Rightarrow> kwargs \<Rightarrow> sval" where
  "makeStruct name kws = SStruct name (fold (\<lambda>kv d. gm_put (fst kv) (snd kv) d) kws [])"

section \<open>Conversion to Go values\<close>

datatype ValueError = IntOutOfRange int | KeyNotString sval | UnsupportedType sval

fun starlarkToGo :: "sval \<Rightarrow> ValueError + goany"
  and go_list :: "sval list \<Rightarrow> ValueError + goany list"
  and go_dict :: "(sval \<times> sval) list \<Rightarrow> (string, goany) gomap \<Rightarrow> ValueError + (string, goany) gomap" where
  "starlarkToGo SNone = Inr GNil"
| "starlarkToGo (SBool b) = Inr (GBool b)"
| "starlarkToGo (SString s) = Inr (GString s)"
| "starlarkToGo (SInt n) = (if int64 n then Inr (GInt n) else Inl (IntOutOfRange n))"
| "starlarkToGo (SFloat f) = Inr (GFloat f)"
| "starlarkToGo (SList xs) = (case go_list xs of Inl err \<Rightarrow> Inl err | Inr gs \<Rightarrow> Inr (GList gs))"
| "starlarkToGo (SDict items) = (case go_dict items [] of Inl err \<Rightarrow> Inl err | Inr m \<Rightarrow> Inr (GMap m))"
| "starlarkToGo (STuple xs) = Inl (UnsupportedType (STuple xs))"
| "starlarkToGo (SStruct n attrs) = Inl (UnsupportedType (SStruct n attrs))"
| "starlarkToGo (SInstall i) = Inl (UnsupportedType (SInstall i))"
| "starlarkToGo (SCallable f) = Inl (UnsupportedType (SCallable f))"
| "starlarkToGo (SOther t) = Inl (UnsupportedType (SOther t))"
| "go_list [] = Inr []"
| "go_list (x # xs) =
     (case starlarkToGo x of
        Inl err \<Rightarrow> Inl err
      | Inr g \<Rightarrow> (case go_list xs of Inl err \<Rightarrow> Inl err | Inr gs \<Rightarrow> Inr (g # gs)))"
| "go_dict [] out = Inr out"
| "go_dict ((k, v) # items) out =
     (case k of
        SString ks \<Rightarrow> (case starlarkToGo v of Inl err \<Rightarrow> Inl err | Inr g \<Rightarrow> go_dict items (gm_put ks g out))
      | _ \<Rightarrow> Inl (KeyNotString k))"

text \<open>The values that have a Go form: numbers in range, lists, and dicts with string keys.\<close>

fun convertible :: "sval \<Rightarrow> bool" where
  "convertible SNone = True"
| "convertible (SBool b) = True"
| "convertible (SString s) = True"
| "convertible (SInt n) = int64 n"
| "convertible (SFloat f) = True"
| "convertible (SList xs) = list_all convertible xs"
| "convertible (SDict items) = list_all (\<lambda>kv. (case fst kv of SString k \<Rightarrow> True | _ \<Rightarrow> False) \<and> convertible (snd kv)) items"
| "convertible (STuple xs) = False"
| "convertible (SStruct n attrs) = False"
| "convertible (SInstall i) = False"
| "convertible (SCallable f) = False"
| "convertible (SOther t) = False"

fun goany_ok :: "goany \<Rightarrow> bool" where
  "goany_ok (GInt n) = int64 n"
| "goany_ok (GList gs) = list_all goany_ok gs"
| "goany_ok (GMap m) = (gm_ok m \<and> list_all (\<lambda>kv. goany_ok (snd kv)) m)"
| "goany_ok _ = True"

lemma gm_put_mem: "kv \<in> set (gm_put k v m) \<Longrightarrow> kv = (k, v) \<or> kv \<in> set m"
  by (induction m) (auto split: if_splits)

lemma goany_put: "gm_ok m \<and> list_all (\<lambda>kv. goany_ok (snd kv)) m \<Longrightarrow> goany_ok g \<Longrightarrow>
    gm_ok (gm_put k g m) \<and> list_all (\<lambda>kv. goany_ok (snd kv)) (gm_put k g m)"
  by (simp add: list_all_iff) (metis gm_put_mem snd_conv)

lemma starlarkToGo_cases:
  "(case starlarkToGo v of Inl _ \<Rightarrow> \<not> convertible v | Inr g \<Rightarrow> convertible v \<and> goany_ok g)"
  "(case go_list xs of Inl _ \<Rightarrow> \<not> list_all convertible xs | Inr gs \<Rightarrow> list_all convertible xs \<and> list_all goany_ok gs)"
  "gm_ok out \<and> list_all (\<lambda>kv. goany_ok (snd kv)) out \<Longrightarrow>
   (case go_dict items out of
      Inl _ \<Rightarrow> \<not> convertible (SDict items)
    | Inr m \<Rightarrow> convertible (SDict items) \<and> gm_ok m \<and> list_all (\<lambda>kv. goany_ok (snd kv)) m)"
proof (induction v and xs and items out rule: starlarkToGo_go_list_go_dict.induct)
  case (16 k v items out)
  show ?case
  proof (cases k)
    case (SString ks)
    show ?thesis
    proof (cases "starlarkToGo v")
      case (Inl err)
      with 16(1) [OF SString] SString show ?thesis by simp
    next
      case (Inr g)
      then have "convertible v" "goany_ok g" using 16(1) [OF SString] by simp_all
      with 16(2) [OF SString Inr goany_put [OF 16(3)]] SString Inr show ?thesis by (auto split: sum.splits)
    qed
  qed simp_all
qed (auto split: sum.splits)

end
