(* ===== verification/Builtins.thy ===== *)
theory Builtins
  imports Starlark Catalog
begin

text \<open>
  The builtins of \<^verbatim>\<open>internal/starlark/builtins.go\<close> and \<^verbatim>\<open>install_step.go\<close>: what a call in a
  \<^verbatim>\<open>.star\<close> file makes of its arguments and does to the engine. Registration of a unit
  ends in \<^verbatim>\<open>register\<close> of theory Catalog. The file the interpreter says a call comes from is an
  argument.
\<close>

section \<open>Constructors of structs\<close>

datatype BuiltinError =
    RequiresName string
  | NeedsArgument string
  | ArgumentNotString string
  | UnexpectedKwarg string string
  | ModeNotInt string
  | ModeOutOfRange string
  | InvalidScope name string
  | BadKwarg string string ValueError
  | EngineFailed EngineError
  | ProjectTwice
  | PreferNotDict
  | PreferBadPair
  | PreferBadPin name
  | MirrorsNotList
  | MirrorNotPair
  | MirrorNotStrings
  | MirrorEmpty
  | InvalidArch name string
  | KernelAmbiguous name
  | SerialNotStruct name
  | SerialNoBaud name

text \<open>\<^verbatim>\<open>module(url, ...)\<close>, \<^verbatim>\<open>arg(name, ...)\<close> and \<^verbatim>\<open>task(name, ...)\<close>: one positional string, then attributes.\<close>

definition with_kwargs :: "(string \<times> sval) list \<Rightarrow> kwargs \<Rightarrow> (string \<times> sval) list" where
  "with_kwargs d kws = fold (\<lambda>kv d. gm_put (fst kv) (snd kv) d) kws d"

definition fnModule :: "sval list \<Rightarrow> kwargs \<Rightarrow> BuiltinError + sval" where
  "fnModule args kws =
     (case args of
        [] \<Rightarrow> Inl (NeedsArgument ''module'')
      | SString url # _ \<Rightarrow> Inr (SStruct ''module'' (with_kwargs [(''url'', SString url)] kws))
      | _ \<Rightarrow> Inl (ArgumentNotString ''module''))"

definition fnArg :: "sval list \<Rightarrow> kwargs \<Rightarrow> BuiltinError + sval" where
  "fnArg args kws =
     (case args of
        [] \<Rightarrow> Inl (NeedsArgument ''arg'')
      | SString n # _ \<Rightarrow> Inr (SStruct ''arg'' (with_kwargs [(''name'', SString n)] kws))
      | _ \<Rightarrow> Inl (ArgumentNotString ''arg''))"

definition fnTask :: "sval list \<Rightarrow> kwargs \<Rightarrow> BuiltinError + sval" where
  "fnTask args kws =
     (case args of
        [SString n] \<Rightarrow> Inr (SStruct ''task'' (with_kwargs [(''name'', SString n)] kws))
      | [v] \<Rightarrow> Inl (ArgumentNotString ''task'')
      | _ \<Rightarrow> Inl (NeedsArgument ''task''))"

section \<open>Install steps\<close>

definition Ext :: "string \<Rightarrow> string" where
  "Ext path = (case LastIndexByte (Base path) (CHR ''.'') of None \<Rightarrow> [] | Some i \<Rightarrow> drop i (Base path))"

definition callerBaseDir :: "string option \<Rightarrow> string" where
  "callerBaseDir caller =
     (case caller of
        None \<Rightarrow> []
      | Some file \<Rightarrow>
          if file = [] \<or> file = ''<builtin>'' then []
          else PathJoin [Dir file, TrimSuffix (Base file) (Ext (Base file))])"

fun install_mode :: "string \<Rightarrow> kwargs \<Rightarrow> int \<Rightarrow> BuiltinError + int" where
  "install_mode name [] mode = Inr mode"
| "install_mode name ((k, v) # kws) mode =
     (if k \<noteq> ''mode'' then Inl (UnexpectedKwarg name k)
      else case v of
             SInt n \<Rightarrow> if int64 n then install_mode name kws n else Inl (ModeOutOfRange name)
           | _ \<Rightarrow> Inl (ModeNotInt name))"

definition buildInstallStep :: "string option \<Rightarrow> string \<Rightarrow> string \<Rightarrow> sval list \<Rightarrow> kwargs \<Rightarrow> int \<Rightarrow> BuiltinError + sval" where
  "buildInstallStep caller name kind args kws defMode =
     (case args of
        [SString src, SString dest] \<Rightarrow>
          (case install_mode name kws defMode of
             Inl err \<Rightarrow> Inl err
           | Inr mode \<Rightarrow>
               Inr (SInstall \<lparr>isKind = kind, isSrc = src, isDest = dest, isMode = mode, isBaseDir = callerBaseDir caller\<rparr>))
      | [_, _] \<Rightarrow> Inl (ArgumentNotString name)
      | _ \<Rightarrow> Inl (NeedsArgument name))"

definition fnInstallFile :: "string option \<Rightarrow> sval list \<Rightarrow> kwargs \<Rightarrow> BuiltinError + sval" where
  "fnInstallFile caller args kws = buildInstallStep caller ''install_file'' ''file'' args kws 420"

definition fnInstallTemplate :: "string option \<Rightarrow> sval list \<Rightarrow> kwargs \<Rightarrow> BuiltinError + sval" where
  "fnInstallTemplate caller args kws = buildInstallStep caller ''install_template'' ''template'' args kws 420"

section \<open>Tasks and partitions\<close>

definition command_step :: "string \<Rightarrow> Step" where
  "command_step c = \<lparr>stCommand = c, stFn = None, stInstall = None\<rparr>"

definition fn_step :: "name \<Rightarrow> Step" where
  "fn_step f = \<lparr>stCommand = [], stFn = Some f, stInstall = None\<rparr>"

definition install_step :: "InstallStep \<Rightarrow> Step" where
  "install_step i = \<lparr>stCommand = [], stFn = None, stInstall = Some i\<rparr>"

definition listed_steps :: "sval list \<Rightarrow> Step list" where
  "listed_steps vs =
     concat (map (\<lambda>v. case v of SString c \<Rightarrow> [command_step c] | SInstall i \<Rightarrow> [install_step i]
                              | SCallable f \<Rightarrow> [fn_step f] | _ \<Rightarrow> []) vs)"

definition task_steps :: "(string \<times> sval) list \<Rightarrow> Step list" where
  "task_steps attrs =
     (let s1 = (case map_of attrs ''run'' of Some (SString c) \<Rightarrow> [command_step c] | _ \<Rightarrow> []);
          s2 = (case map_of attrs ''fn'' of Some (SCallable f) \<Rightarrow> [fn_step f] | _ \<Rightarrow> s1)
      in case map_of attrs ''steps'' of Some (SList vs) \<Rightarrow> s2 @ listed_steps vs | _ \<Rightarrow> s2)"

definition ParseTaskList :: "sval list \<Rightarrow> Task list" where
  "ParseTaskList vs =
     concat (map (\<lambda>v. case v of
         SStruct n attrs \<Rightarrow>
           [\<lparr>tName = structString (Some attrs) ''name'', tContainer = structString (Some attrs) ''container'',
             tDistros = structStringList (Some attrs) ''distros'', tSteps = task_steps attrs\<rparr>]
       | _ \<Rightarrow> []) vs)"

definition parsePartitions :: "sval \<Rightarrow> Partition list" where
  "parsePartitions v =
     (case v of
        SList vs \<Rightarrow>
          concat (map (\<lambda>item. case item of
              SStruct n st \<Rightarrow>
                [\<lparr>ptLabel = structString (Some st) ''label'', ptType = structString (Some st) ''type'',
                  ptSize = structString (Some st) ''size'', ptRoot = structBool st ''root'',
                  ptContents = structStringList (Some st) ''contents''\<rparr>]
            | _ \<Rightarrow> []) vs)
      | _ \<Rightarrow> [])"

section \<open>Units\<close>

text \<open>The values of every argument with a key, for the two fields that collect them all.\<close>

definition kwValues :: "kwargs \<Rightarrow> string \<Rightarrow> sval list" where
  "kwValues kws key = map snd (filter (\<lambda>kv. fst kv = key) kws)"

definition unitFields :: "(int \<Rightarrow> int) \<Rightarrow> (string \<times> (kwargs \<Rightarrow> Unit \<Rightarrow> Unit)) list" where
  "unitFields big =
    [(''version'', \<lambda>kw u. u\<lparr>uVersion := kwString kw ''version''\<rparr>),
     (''release'', \<lambda>kw u. u\<lparr>uRelease := kwInt big kw ''release''\<rparr>),
     (''scope'', \<lambda>kw u. u\<lparr>uScope := kwString kw ''scope''\<rparr>),
     (''description'', \<lambda>kw u. u\<lparr>uDescription := kwString kw ''description''\<rparr>),
     (''license'', \<lambda>kw u. u\<lparr>uLicense := kwString kw ''license''\<rparr>),
     (''distro'', \<lambda>kw u. u\<lparr>uDistro := kwString kw ''distro''\<rparr>),
     (''source'', \<lambda>kw u. u\<lparr>uSource := kwString kw ''source''\<rparr>),
     (''mirrors'', \<lambda>kw u. u\<lparr>uMirrors := kwStringList kw ''mirrors''\<rparr>),
     (''sha256'', \<lambda>kw u. u\<lparr>uSHA256 := kwString kw ''sha256''\<rparr>),
     (''apk_checksum'', \<lambda>kw u. u\<lparr>uAPKChecksum := kwString kw ''apk_checksum''\<rparr>),
     (''passthrough_apk'', \<lambda>kw u. u\<lparr>uPassthroughAPK := kwString kw ''passthrough_apk''\<rparr>),
     (''tag'', \<lambda>kw u. u\<lparr>uTag := kwString kw ''tag''\<rparr>),
     (''branch'', \<lambda>kw u. u\<lparr>uBranch := kwString kw ''branch''\<rparr>),
     (''patches'', \<lambda>kw u. u\<lparr>uPatches := kwStringList kw ''patches''\<rparr>),
     (''deps'', \<lambda>kw u. u\<lparr>uDeps := kwStringList kw ''deps''\<rparr>),
     (''runtime_deps'', \<lambda>kw u. u\<lparr>uRuntimeDeps := kwStringList kw ''runtime_deps''\<rparr>),
     (''distro_deps'', \<lambda>kw u. u\<lparr>uDistroDeps := kwStringListMap kw ''distro_deps''\<rparr>),
     (''distro_runtime_deps'', \<lambda>kw u. u\<lparr>uDistroRuntimeDeps := kwStringListMap kw ''distro_runtime_deps''\<rparr>),
     (''container'', \<lambda>kw u. u\<lparr>uContainer := kwString kw ''container''\<rparr>),
     (''container_arch'', \<lambda>kw u. u\<lparr>uContainerArch := kwString kw ''container_arch''\<rparr>),
     (''sandbox'', \<lambda>kw u. u\<lparr>uSandbox := kwBool kw ''sandbox''\<rparr>),
     (''shell'', \<lambda>kw u. u\<lparr>uShell := kwString kw ''shell''\<rparr>),
     (''provides'', \<lambda>kw u. u\<lparr>uProvides := kwStringList kw ''provides''\<rparr>),
     (''replaces'', \<lambda>kw u. u\<lparr>uReplaces := kwStringList kw ''replaces''\<rparr>),
     (''services'', \<lambda>kw u. u\<lparr>uServices := kwStringList kw ''services''\<rparr>),
     (''conffiles'', \<lambda>kw u. u\<lparr>uConffiles := kwStringList kw ''conffiles''\<rparr>),
     (''environment'', \<lambda>kw u. u\<lparr>uEnvironment := kwStringMap kw ''environment''\<rparr>),
     (''cache_dirs'', \<lambda>kw u. u\<lparr>uCacheDirs := kwStringMap kw ''cache_dirs''\<rparr>),
     (''artifacts'', \<lambda>kw u. u\<lparr>uArtifacts := kwStringList kw ''artifacts''\<rparr>),
     (''artifacts_explicit'', \<lambda>kw u. u\<lparr>uArtifactsExplicit := kwStringList kw ''artifacts_explicit''\<rparr>),
     (''exclude'', \<lambda>kw u. u\<lparr>uExclude := kwStringList kw ''exclude''\<rparr>),
     (''hostname'', \<lambda>kw u. u\<lparr>uHostname := kwString kw ''hostname''\<rparr>),
     (''timezone'', \<lambda>kw u. u\<lparr>uTimezone := kwString kw ''timezone''\<rparr>),
     (''locale'', \<lambda>kw u. u\<lparr>uLocale := kwString kw ''locale''\<rparr>),
     (''unbuildable_machine'', \<lambda>kw u. u\<lparr>uUnbuildableMachine := kwString kw ''unbuildable_machine''\<rparr>),
     (''machine_kernel_distros'', \<lambda>kw u. u\<lparr>uMachineKernelDistros := kwStringList kw ''machine_kernel_distros''\<rparr>),
     (''tasks'', \<lambda>kw u. u\<lparr>uTasks := uTasks u @
        concat (map (\<lambda>v. case v of SList vs \<Rightarrow> ParseTaskList vs | _ \<Rightarrow> []) (kwValues kw ''tasks''))\<rparr>),
     (''partitions'', \<lambda>kw u. u\<lparr>uPartitions := uPartitions u @
        concat (map parsePartitions (kwValues kw ''partitions''))\<rparr>)]"

definition reservedUnitKwargs :: "string set" where
  "reservedUnitKwargs = set ([''name'', ''unit_class''] @ map fst (unitFields id))"

fun extra_kwargs :: "string \<Rightarrow> kwargs \<Rightarrow> (string, goany) gomap \<Rightarrow> BuiltinError + (string, goany) gomap" where
  "extra_kwargs class [] extra = Inr extra"
| "extra_kwargs class ((k, v) # kws) extra =
     (if k \<in> reservedUnitKwargs then extra_kwargs class kws extra
      else case starlarkToGo v of
             Inl err \<Rightarrow> Inl (BadKwarg class k err)
           | Inr g \<Rightarrow> extra_kwargs class kws (gm_put k g extra))"

definition fill_unit :: "(int \<Rightarrow> int) \<Rightarrow> string \<Rightarrow> kwargs \<Rightarrow> Unit" where
  "fill_unit big class kws =
     (let cls = kwString kws ''unit_class'' in
      fold (\<lambda>f. snd f kws) (unitFields big)
        (zero_unit\<lparr>uName := kwString kws ''name'', uClass := (if cls = [] then class else cls)\<rparr>))"

definition registerUnit :: "(int \<Rightarrow> int) \<Rightarrow> string \<Rightarrow> kwargs \<Rightarrow> Engine \<Rightarrow> BuiltinError + Engine \<times> Unit" where
  "registerUnit big class kws e =
     (let name = kwString kws ''name''; scope = kwString kws ''scope'' in
      if name = [] then Inl (RequiresName class)
      else if scope \<notin> validScopes then Inl (InvalidScope name scope)
      else case extra_kwargs class kws [] of
             Inl err \<Rightarrow> Inl err
           | Inr extra \<Rightarrow>
               (case register e ((fill_unit big class kws)\<lparr>uExtra := extra\<rparr>) of
                  Inl err \<Rightarrow> Inl (EngineFailed err)
                | Inr r \<Rightarrow> Inr r))"

section \<open>Machines\<close>

definition kernel_config :: "kwargs \<Rightarrow> KernelConfig" where
  "kernel_config kws =
     (let kernelS = kwStruct kws ''kernel'' in
      \<lparr>kcDefconfig = structString kernelS ''defconfig'', kcUnit = structString kernelS ''unit'',
       kcCmdline = structString kernelS ''cmdline'', kcProvides = structString kernelS ''provides'',
       kcDistroUnit = structStringMap kernelS ''distro_unit''\<rparr>)"

definition qemu_config :: "(string \<times> sval) list \<Rightarrow> QEMUConfig" where
  "qemu_config s =
     \<lparr>qcMachine = structString (Some s) ''machine'', qcCPU = structString (Some s) ''cpu'',
      qcMemory = structString (Some s) ''memory'', qcFirmware = structString (Some s) ''firmware'',
      qcDisplay = structString (Some s) ''display'', qcPorts = structStringList (Some s) ''ports''\<rparr>"

fun machine_kwargs :: "name \<Rightarrow> kwargs \<Rightarrow> Machine \<Rightarrow> BuiltinError + Machine" where
  "machine_kwargs name [] m = Inr m"
| "machine_kwargs name ((k, v) # kws) m =
     (if k = ''qemu'' then
        (case v of SStruct n s \<Rightarrow> machine_kwargs name kws (m\<lparr>mQEMU := Some (qemu_config s)\<rparr>)
                 | _ \<Rightarrow> machine_kwargs name kws m)
      else if k = ''partitions'' then machine_kwargs name kws (m\<lparr>mPartitions := mPartitions m @ parsePartitions v\<rparr>)
      else if k = ''serial'' then
        (case v of
           SStruct n s \<Rightarrow>
             (case structInt (Some s) ''baud'' of
                Some baud \<Rightarrow> if baud \<le> 0 then Inl (SerialNoBaud name)
                             else machine_kwargs name kws (m\<lparr>mSerial := Some \<lparr>scBaud = baud\<rparr>\<rparr>)
              | None \<Rightarrow> Inl (SerialNoBaud name))
         | _ \<Rightarrow> Inl (SerialNotStruct name))
      else machine_kwargs name kws m)"

definition fnMachine :: "kwargs \<Rightarrow> Engine \<Rightarrow> BuiltinError + Engine" where
  "fnMachine kws e =
     (let name = kwString kws ''name''; arch = kwString kws ''arch''; kc = kernel_config kws in
      if name = [] then Inl (RequiresName ''machine'')
      else if arch \<notin> validArchitectures then Inl (InvalidArch name arch)
      else if kcUnit kc \<noteq> [] \<and> 0 < length (kcDistroUnit kc) then Inl (KernelAmbiguous name)
      else case machine_kwargs name kws
                 \<lparr>mName = name, mArch = arch, mDescription = kwString kws ''description'', mKernel = kc, mQEMU = None,
                  mPackages = kwStringList kws ''packages'', mDistroPackages = kwStringListMap kws ''distro_packages'',
                  mPartitions = [], mSerial = None\<rparr> of
             Inl err \<Rightarrow> Inl err
           | Inr m \<Rightarrow> Inr (e\<lparr>eMachines := gm_put name m (eMachines e)\<rparr>))"

section \<open>Projects\<close>

definition module_ref :: "(string \<times> sval) list \<Rightarrow> ModuleRef" where
  "module_ref s = \<lparr>mfURL = structString (Some s) ''url'', mfRef = structString (Some s) ''ref'',
     mfPath = structString (Some s) ''path'', mfLocal = structString (Some s) ''local''\<rparr>"

definition module_refs :: "sval \<Rightarrow> ModuleRef list" where
  "module_refs v =
     (case v of SList vs \<Rightarrow> concat (map (\<lambda>x. case x of SStruct n s \<Rightarrow> [module_ref s] | _ \<Rightarrow> []) vs) | _ \<Rightarrow> [])"

fun prefer_pins :: "name \<Rightarrow> (sval \<times> sval) list \<Rightarrow> (name, name) gomap \<Rightarrow> BuiltinError + (name, name) gomap" where
  "prefer_pins distro [] pins = Inr pins"
| "prefer_pins distro ((k, v) # items) pins =
     (case (k, v) of
        (SString ks, SString vs) \<Rightarrow> prefer_pins distro items (gm_put ks vs pins)
      | _ \<Rightarrow> Inl (PreferBadPin distro))"

fun prefer_pairs ::
  "(sval \<times> sval) list \<Rightarrow> (name, (name, name) gomap) gomap \<Rightarrow> BuiltinError + (name, (name, name) gomap) gomap" where
  "prefer_pairs [] prefer = Inr prefer"
| "prefer_pairs ((k, v) # items) prefer =
     (case (k, v) of
        (SString distro, SDict inner) \<Rightarrow>
          (case prefer_pins distro inner [] of
             Inl err \<Rightarrow> Inl err
           | Inr pins \<Rightarrow> prefer_pairs items (gm_put distro pins prefer))
      | _ \<Rightarrow> Inl PreferBadPair)"

text \<open>Each argument of that name starts a new table.\<close>

fun prefer_modules :: "sval list \<Rightarrow> (name, (name, name) gomap) gomap \<Rightarrow> BuiltinError + (name, (name, name) gomap) gomap" where
  "prefer_modules [] prefer = Inr prefer"
| "prefer_modules (v # vs) prefer =
     (case v of
        SDict items \<Rightarrow> (case prefer_pairs items [] of Inl err \<Rightarrow> Inl err | Inr p \<Rightarrow> prefer_modules vs p)
      | _ \<Rightarrow> Inl PreferNotDict)"

fun mirror_pairs :: "sval list \<Rightarrow> MirrorRule list \<Rightarrow> BuiltinError + MirrorRule list" where
  "mirror_pairs [] rules = Inr rules"
| "mirror_pairs (v # vs) rules =
     (case v of
        STuple [p, r] \<Rightarrow>
          (case (p, r) of
             (SString prefix, SString repl) \<Rightarrow>
               if prefix = [] \<or> repl = [] then Inl MirrorEmpty
               else mirror_pairs vs (rules @ [\<lparr>mrPrefix = prefix, mrReplacement = repl\<rparr>])
           | _ \<Rightarrow> Inl MirrorNotStrings)
      | _ \<Rightarrow> Inl MirrorNotPair)"

fun source_mirrors :: "sval list \<Rightarrow> MirrorRule list \<Rightarrow> BuiltinError + MirrorRule list" where
  "source_mirrors [] rules = Inr rules"
| "source_mirrors (v # vs) rules =
     (case v of
        SList pairs \<Rightarrow> (case mirror_pairs pairs rules of Inl err \<Rightarrow> Inl err | Inr rules' \<Rightarrow> source_mirrors vs rules')
      | _ \<Rightarrow> Inl MirrorsNotList)"

definition fnProject :: "kwargs \<Rightarrow> Engine \<Rightarrow> BuiltinError + Engine" where
  "fnProject kws e =
     (if eProject e \<noteq> None then Inl ProjectTwice
      else (let defs = kwStruct kws ''defaults''; cacheS = kwStruct kws ''cache'' in
        case prefer_modules (kwValues kws ''prefer_modules'') [] of
          Inl err \<Rightarrow> Inl err
        | Inr prefer \<Rightarrow>
            (case source_mirrors (kwValues kws ''source_mirrors'') [] of
               Inl err \<Rightarrow> Inl err
             | Inr rules \<Rightarrow>
                 Inr (e\<lparr>eProject := Some (zero_project\<lparr>pName := kwString kws ''name'', pVersion := kwString kws ''version'',
                    pDefaults := \<lparr>dfMachine = structString defs ''machine'', dfImage = structString defs ''image''\<rparr>,
                    pCache := \<lparr>ccPath = structString cacheS ''path''\<rparr>, pSigningKey := kwString kws ''signing_key'',
                    pDefaultDistro := structString defs ''distro'',
                    pModules := concat (map module_refs (kwValues kws ''modules'')),
                    pPreferModules := prefer, pSourceMirrors := rules\<rparr>)\<rparr>))))"

section \<open>Modules and commands\<close>

record CommandArg =
  caName :: name
  caHelp :: string
  caDefault :: string
  caRequired :: bool
  caIsBool :: bool

record Command =
  cmName :: name
  cmDescription :: string
  cmArgs :: "CommandArg list"
  cmRunFn :: string
  cmSourceFile :: string

definition dep_refs :: "sval \<Rightarrow> ModuleRef list" where
  "dep_refs v =
     (case v of
        SList vs \<Rightarrow> concat (map (\<lambda>x. case x of
            SStruct n s \<Rightarrow> [\<lparr>mfURL = structString (Some s) ''url'', mfRef = structString (Some s) ''ref'', mfPath = [], mfLocal = []\<rparr>]
          | _ \<Rightarrow> []) vs)
      | _ \<Rightarrow> [])"

definition fnModuleInfo :: "kwargs \<Rightarrow> BuiltinError + ModuleInfo" where
  "fnModuleInfo kws =
     (let name = kwString kws ''name'' in
      if name = [] then Inl (RequiresName ''module_info'')
      else Inr \<lparr>miName = name, miDescription = kwString kws ''description'',
                miDeps = concat (map dep_refs (kwValues kws ''deps''))\<rparr>)"

definition command_args :: "sval \<Rightarrow> CommandArg list" where
  "command_args v =
     (case v of
        SList vs \<Rightarrow> concat (map (\<lambda>x. case x of
            SStruct n s \<Rightarrow> [\<lparr>caName = structString (Some s) ''name'', caHelp = structString (Some s) ''help'',
                             caDefault = structString (Some s) ''default'', caRequired = structBool s ''required'',
                             caIsBool = (structString (Some s) ''type'' = ''bool'')\<rparr>]
          | _ \<Rightarrow> []) vs)
      | _ \<Rightarrow> [])"

definition fnCommand :: "string \<Rightarrow> kwargs \<Rightarrow> BuiltinError + Command" where
  "fnCommand sourceFile kws =
     (let name = kwString kws ''name'' in
      if name = [] then Inl (RequiresName ''command'')
      else Inr \<lparr>cmName = name, cmDescription = kwString kws ''description'',
                cmArgs = concat (map command_args (kwValues kws ''args'')), cmRunFn = [], cmSourceFile = sourceFile\<rparr>)"

section \<open>A file as a sequence of calls\<close>

record eval_state =
  esEngine :: Engine
  esModuleInfo :: "ModuleInfo option"
  esCommands :: "(name, Command) gomap"

datatype call =
    CallProject kwargs
  | CallMachine kwargs
  | CallUnit kwargs
  | CallImage kwargs
  | CallModuleInfo kwargs
  | CallCommand string kwargs

definition exec_call :: "(int \<Rightarrow> int) \<Rightarrow> call \<Rightarrow> eval_state \<Rightarrow> BuiltinError + eval_state" where
  "exec_call big c s =
     (case c of
        CallProject kws \<Rightarrow>
          (case fnProject kws (esEngine s) of Inl err \<Rightarrow> Inl err | Inr e \<Rightarrow> Inr (s\<lparr>esEngine := e\<rparr>))
      | CallMachine kws \<Rightarrow>
          (case fnMachine kws (esEngine s) of Inl err \<Rightarrow> Inl err | Inr e \<Rightarrow> Inr (s\<lparr>esEngine := e\<rparr>))
      | CallUnit kws \<Rightarrow>
          (case registerUnit big ''unit'' kws (esEngine s) of Inl err \<Rightarrow> Inl err | Inr (e, u) \<Rightarrow> Inr (s\<lparr>esEngine := e\<rparr>))
      | CallImage kws \<Rightarrow>
          (case registerUnit big ''image'' kws (esEngine s) of Inl err \<Rightarrow> Inl err | Inr (e, u) \<Rightarrow> Inr (s\<lparr>esEngine := e\<rparr>))
      | CallModuleInfo kws \<Rightarrow>
          (case fnModuleInfo kws of Inl err \<Rightarrow> Inl err | Inr i \<Rightarrow> Inr (s\<lparr>esModuleInfo := Some i\<rparr>))
      | CallCommand file kws \<Rightarrow>
          (case fnCommand file kws of
             Inl err \<Rightarrow> Inl err
           | Inr c \<Rightarrow> Inr (s\<lparr>esCommands := gm_put (cmName c) c (esCommands s)\<rparr>)))"

fun exec_calls :: "(int \<Rightarrow> int) \<Rightarrow> call list \<Rightarrow> eval_state \<Rightarrow> BuiltinError + eval_state" where
  "exec_calls big [] s = Inr s"
| "exec_calls big (c # cs) s = (case exec_call big c s of Inl err \<Rightarrow> Inl err | Inr s' \<Rightarrow> exec_calls big cs s')"

section \<open>What evaluation leaves in the engine\<close>

definition unit_ok :: "Unit \<Rightarrow> bool" where
  "unit_ok u \<longleftrightarrow> uName u \<noteq> [] \<and> uScope u \<in> validScopes \<and> gm_ok (uExtra u) \<and>
     set (gm_keys (uExtra u)) \<inter> reservedUnitKwargs = {} \<and> list_all (\<lambda>kv. goany_ok (snd kv)) (uExtra u)"

definition machine_ok :: "Machine \<Rightarrow> bool" where
  "machine_ok m \<longleftrightarrow> mName m \<noteq> [] \<and> mArch m \<in> validArchitectures \<and>
     (kcUnit (mKernel m) = [] \<or> kcDistroUnit (mKernel m) = []) \<and>
     (case mSerial m of None \<Rightarrow> True | Some sc \<Rightarrow> 0 < scBaud sc \<and> int64 (scBaud sc))"

definition mirror_ok :: "MirrorRule \<Rightarrow> bool" where
  "mirror_ok r \<longleftrightarrow> mrPrefix r \<noteq> [] \<and> mrReplacement r \<noteq> []"

definition units_ok :: "Engine \<Rightarrow> bool" where
  "units_ok e \<longleftrightarrow>
     (\<forall>n u. map_of (eUnits e) n = Some u \<longrightarrow> uName u = n \<and> unit_ok u) \<and>
     (\<forall>m us n u. map_of (eUnitsByModule e) m = Some us \<longrightarrow> map_of us n = Some u \<longrightarrow> uName u = n \<and> uModule u = m \<and> unit_ok u)"

definition state_ok :: "eval_state \<Rightarrow> bool" where
  "state_ok s \<longleftrightarrow>
     units_ok (esEngine s) \<and>
     (\<forall>n m. map_of (eMachines (esEngine s)) n = Some m \<longrightarrow> mName m = n \<and> machine_ok m) \<and>
     (case eProject (esEngine s) of None \<Rightarrow> True | Some p \<Rightarrow> list_all mirror_ok (pSourceMirrors p)) \<and>
     (case esModuleInfo s of None \<Rightarrow> True | Some i \<Rightarrow> miName i \<noteq> []) \<and>
     (\<forall>n c. map_of (esCommands s) n = Some c \<longrightarrow> cmName c = n \<and> n \<noteq> [])"

lemma extra_kwargs_ok:
  "extra_kwargs class kws extra = Inr ex \<Longrightarrow> gm_ok extra \<and> list_all (\<lambda>kv. goany_ok (snd kv)) extra \<Longrightarrow>
   gm_ok ex \<and> list_all (\<lambda>kv. goany_ok (snd kv)) ex \<and>
   set (gm_keys ex) = set (gm_keys extra) \<union> (fst ` set kws - reservedUnitKwargs)"
proof (induction "class" kws extra rule: extra_kwargs.induct)
  case (2 cl k v kws extra)
  show ?case
  proof (cases "k \<in> reservedUnitKwargs")
    case True
    then show ?thesis using 2 by auto
  next
    case False
    then obtain g where g: "starlarkToGo v = Inr g" and rest: "extra_kwargs cl kws (gm_put k g extra) = Inr ex"
      using "2.prems"(1) by (auto split: sum.splits)
    have "goany_ok g" using starlarkToGo_cases(1) [of v] g by simp
    from 2(2) [OF False g rest goany_put [OF "2.prems"(2) this]] False show ?thesis by auto
  qed
qed simp

lemma extra_kwargs_error:
  "extra_kwargs class kws extra = Inl err \<Longrightarrow>
   \<exists>k v ve. (k, v) \<in> set kws \<and> k \<notin> reservedUnitKwargs \<and> starlarkToGo v = Inl ve \<and> err = BadKwarg class k ve"
  by (induction "class" kws extra rule: extra_kwargs.induct) (auto split: if_splits sum.splits)

lemma extra_kwargs_value:
  "extra_kwargs class kws extra = Inr ex \<Longrightarrow> distinct (map fst kws) \<Longrightarrow>
   (\<forall>k \<in> set (map fst kws). k \<notin> reservedUnitKwargs \<longrightarrow> (\<exists>v g. map_of kws k = Some v \<and> starlarkToGo v = Inr g \<and> map_of ex k = Some g)) \<and>
   (\<forall>k. k \<notin> set (map fst kws) \<longrightarrow> map_of ex k = map_of extra k)"
proof (induction "class" kws extra rule: extra_kwargs.induct)
  case (2 cl k v kws extra)
  show ?case
  proof (cases "k \<in> reservedUnitKwargs")
    case True
    then show ?thesis using 2 by force
  next
    case False
    then obtain g where g: "starlarkToGo v = Inr g" and rest: "extra_kwargs cl kws (gm_put k g extra) = Inr ex"
      using "2.prems"(1) by (auto split: sum.splits)
    from 2(2) [OF False g rest] "2.prems"(2) g show ?thesis by force
  qed
qed simp

lemma fill_unit_fields:
  "uName (fill_unit big class kws) = kwString kws ''name''" "uScope (fill_unit big class kws) = kwString kws ''scope''"
  "uExtra (fill_unit big class kws) = []"
  by (simp_all add: fill_unit_def unitFields_def zero_unit_def Let_def)

lemma unit_ok_stamp [simp]: "unit_ok (stamp_unit e u) = unit_ok u" "uName (stamp_unit e u) = uName u" "uModule (stamp_unit e u) = eCurrentModule e"
  by (simp_all add: stamp_unit_def unit_ok_def)

lemma units_ok_store:
  assumes "units_ok e" and "unit_ok u"
  shows "units_ok (storeByModule e u)"
  using assms by (auto simp: units_ok_def storeByModule_def gm_get_def split: option.splits if_splits)

lemma units_ok_put:
  assumes "units_ok e" and "unit_ok u"
  shows "units_ok (e\<lparr>eUnits := gm_put (uName u) u (eUnits e)\<rparr>)"
  using assms by (auto simp: units_ok_def)

lemma units_ok_shadow: "units_ok (e\<lparr>eShadows := s\<rparr>) = units_ok e"
  by (simp add: units_ok_def)

text \<open>The four ways a registration can change the engine.\<close>

lemma register_result:
  assumes "register e r = Inr (e', u)"
  shows "e' = storeByModule (e\<lparr>eUnits := gm_put (uName r) (stamp_unit e r) (eUnits e)\<rparr>) (stamp_unit e r) \<or>
    e' = storeByModule e (stamp_unit e r) \<or> (\<exists>s. e' = e\<lparr>eShadows := s\<rparr>) \<or>
    (\<exists>s. e' = storeByModule (e\<lparr>eShadows := s, eUnits := gm_put (uName r) (stamp_unit e r) (eUnits e)\<rparr>) (stamp_unit e r))"
proof (cases "map_of (eUnits e) (uName r)")
  case None
  with assms show ?thesis by (auto simp: register_def Let_def)
next
  case (Some existing)
  with assms show ?thesis unfolding register_def Let_def by (simp split: if_splits) blast+
qed

lemma register_ok:
  assumes "units_ok e" and "unit_ok r" and "register e r = Inr (e', u)"
  shows "units_ok e'"
proof -
  let ?r = "stamp_unit e r"
  have r: "unit_ok ?r" using assms(2) by simp
  have put: "units_ok (e\<lparr>eUnits := gm_put (uName r) ?r (eUnits e)\<rparr>)" using units_ok_put [OF assms(1) r] by simp
  have "units_ok (storeByModule (e\<lparr>eShadows := s, eUnits := gm_put (uName r) ?r (eUnits e)\<rparr>) ?r)" for s
  proof -
    have eq: "e\<lparr>eShadows := s, eUnits := us\<rparr> = e\<lparr>eUnits := us, eShadows := s\<rparr>" for us by (cases e) simp
    show ?thesis unfolding eq by (rule units_ok_store [OF _ r]) (simp only: units_ok_shadow put)
  qed
  then have "units_ok e'" if "e' = storeByModule (e\<lparr>eShadows := s, eUnits := gm_put (uName r) ?r (eUnits e)\<rparr>) ?r" for s
    using that by simp
  moreover have "units_ok e'" if "e' = storeByModule (e\<lparr>eUnits := gm_put (uName r) ?r (eUnits e)\<rparr>) ?r"
    using that units_ok_store [OF put r] by simp
  moreover have "units_ok e'" if "e' = storeByModule e ?r" using that units_ok_store [OF assms(1) r] by simp
  moreover have "units_ok e'" if "e' = e\<lparr>eShadows := s\<rparr>" for s using that assms(1) by (simp add: units_ok_shadow)
  ultimately show ?thesis using register_result [OF assms(3)] by blast
qed

lemma registerUnit_ok:
  assumes "units_ok e" and "registerUnit big cl kws e = Inr (e', u)"
  shows "units_ok e'"
proof -
  obtain extra where x: "extra_kwargs cl kws [] = Inr extra" "kwString kws ''name'' \<noteq> []" "kwString kws ''scope'' \<in> validScopes"
    "register e ((fill_unit big cl kws)\<lparr>uExtra := extra\<rparr>) = Inr (e', u)"
    using assms(2) by (auto simp: registerUnit_def Let_def split: if_splits sum.splits)
  have "unit_ok ((fill_unit big cl kws)\<lparr>uExtra := extra\<rparr>)"
    using extra_kwargs_ok [OF x(1)] x(2,3) by (auto simp: unit_ok_def fill_unit_fields)
  from register_ok [OF assms(1) this x(4)] show ?thesis .
qed

lemma register_frame:
  assumes "register e r = Inr (e', u)"
  shows "eMachines e' = eMachines e" "eProject e' = eProject e"
  using register_result [OF assms] by (auto simp: storeByModule_def)

lemma registerUnit_frame:
  assumes "registerUnit big cl kws e = Inr (e', u)"
  shows "eMachines e' = eMachines e" "eProject e' = eProject e"
  using assms register_frame by (auto simp: registerUnit_def Let_def split: if_splits sum.splits)

lemma machine_kwargs_ok:
  "machine_kwargs name kws m = Inr m' \<Longrightarrow> machine_ok m \<Longrightarrow> machine_ok m' \<and> mName m' = mName m"
proof (induction kws arbitrary: m)
  case (Cons kv kws)
  obtain k v where kv: "kv = (k, v)" by (cases kv)
  have "\<exists>m1. machine_kwargs name kws m1 = Inr m' \<and> machine_ok m1 \<and> mName m1 = mName m"
  proof (cases "k = ''serial''")
    case True
    then obtain n st baud where v: "v = SStruct n st" "structInt (Some st) ''baud'' = Some baud" "0 < baud"
      and rest: "machine_kwargs name kws (m\<lparr>mSerial := Some \<lparr>scBaud = baud\<rparr>\<rparr>) = Inr m'"
      using Cons.prems(1) kv by (auto split: sval.splits option.splits if_splits)
    have "int64 baud" using v(2) by (auto simp: structInt_def split: option.splits sval.splits if_splits)
    with v Cons.prems(2) rest show ?thesis
      by (intro exI [of _ "m\<lparr>mSerial := Some \<lparr>scBaud = baud\<rparr>\<rparr>"]) (simp add: machine_ok_def)
  next
    case False
    have "machine_ok (m\<lparr>mQEMU := q\<rparr>) = machine_ok m" "machine_ok (m\<lparr>mPartitions := ps\<rparr>) = machine_ok m" for q ps
      by (simp_all add: machine_ok_def)
    then show ?thesis using False Cons.prems kv
      by (cases v) (fastforce split: if_splits)+
  qed
  then show ?case using Cons.IH by metis
qed simp

lemma fnMachine_ok:
  assumes "fnMachine kws e = Inr e'"
  shows "\<exists>m. e' = e\<lparr>eMachines := gm_put (mName m) m (eMachines e)\<rparr> \<and> machine_ok m"
proof -
  let ?m = "\<lparr>mName = kwString kws ''name'', mArch = kwString kws ''arch'', mDescription = kwString kws ''description'',
    mKernel = kernel_config kws, mQEMU = None, mPackages = kwStringList kws ''packages'',
    mDistroPackages = kwStringListMap kws ''distro_packages'', mPartitions = [], mSerial = None\<rparr>"
  obtain m where m: "machine_kwargs (kwString kws ''name'') kws ?m = Inr m"
    and e': "e' = e\<lparr>eMachines := gm_put (kwString kws ''name'') m (eMachines e)\<rparr>"
    and ok: "machine_ok ?m"
    using assms by (auto simp: fnMachine_def machine_ok_def Let_def split: if_splits sum.splits)
  from machine_kwargs_ok [OF m ok] e' show ?thesis by (intro exI [of _ m]) simp
qed

lemma mirror_pairs_ok: "mirror_pairs vs rules = Inr rules' \<Longrightarrow> list_all mirror_ok rules \<Longrightarrow> list_all mirror_ok rules'"
  by (induction vs rules rule: mirror_pairs.induct)
    (auto simp: mirror_ok_def split: sval.splits list.splits if_splits)

lemma source_mirrors_ok: "source_mirrors vs rules = Inr rules' \<Longrightarrow> list_all mirror_ok rules \<Longrightarrow> list_all mirror_ok rules'"
  by (induction vs rules rule: source_mirrors.induct) (auto split: sval.splits sum.splits dest: mirror_pairs_ok)

lemma fnProject_ok:
  assumes "fnProject kws e = Inr e'"
  shows "eProject e = None" "\<exists>p. e' = e\<lparr>eProject := Some p\<rparr> \<and> list_all mirror_ok (pSourceMirrors p)"
  using assms source_mirrors_ok [of "kwValues kws ''source_mirrors''" "[]"]
  by (auto simp: fnProject_def Let_def split: if_splits sum.splits)

lemma exec_call_ok:
  assumes "exec_call big c s = Inr s'" and "state_ok s"
  shows "state_ok s'"
proof (cases c)
  case (CallProject kws)
  then obtain p where "s' = s\<lparr>esEngine := (esEngine s)\<lparr>eProject := Some p\<rparr>\<rparr>" "list_all mirror_ok (pSourceMirrors p)"
    using assms(1) fnProject_ok(2) by (auto simp: exec_call_def split: sum.splits)
  with assms(2) show ?thesis by (simp add: state_ok_def units_ok_def)
next
  case (CallMachine kws)
  then obtain m where "s' = s\<lparr>esEngine := (esEngine s)\<lparr>eMachines := gm_put (mName m) m (eMachines (esEngine s))\<rparr>\<rparr>" "machine_ok m"
    using assms(1) fnMachine_ok by (fastforce simp: exec_call_def split: sum.splits)
  with assms(2) show ?thesis by (simp add: state_ok_def units_ok_def)
next
  case (CallUnit kws)
  then obtain e u where r: "registerUnit big ''unit'' kws (esEngine s) = Inr (e, u)" "s' = s\<lparr>esEngine := e\<rparr>"
    using assms(1) by (auto simp: exec_call_def split: sum.splits)
  with assms(2) registerUnit_ok [OF _ r(1)] registerUnit_frame [OF r(1)] show ?thesis by (simp add: state_ok_def)
next
  case (CallImage kws)
  then obtain e u where r: "registerUnit big ''image'' kws (esEngine s) = Inr (e, u)" "s' = s\<lparr>esEngine := e\<rparr>"
    using assms(1) by (auto simp: exec_call_def split: sum.splits)
  with assms(2) registerUnit_ok [OF _ r(1)] registerUnit_frame [OF r(1)] show ?thesis by (simp add: state_ok_def)
next
  case (CallModuleInfo kws)
  then obtain i where "s' = s\<lparr>esModuleInfo := Some i\<rparr>" "miName i \<noteq> []"
    using assms(1) by (auto simp: exec_call_def fnModuleInfo_def Let_def split: if_splits)
  with assms(2) show ?thesis by (simp add: state_ok_def)
next
  case (CallCommand src kws)
  then obtain cm where "fnCommand src kws = Inr cm" "s' = s\<lparr>esCommands := gm_put (cmName cm) cm (esCommands s)\<rparr>"
    using assms(1) by (auto simp: exec_call_def split: sum.splits)
  moreover from this have "cmName cm \<noteq> []" by (auto simp: fnCommand_def Let_def split: if_splits)
  ultimately have "s' = s\<lparr>esCommands := gm_put (cmName cm) cm (esCommands s)\<rparr>" "cmName cm \<noteq> []" by simp_all
  with assms(2) show ?thesis by (simp add: state_ok_def)
qed

definition start_eval :: "name \<Rightarrow> int \<Rightarrow> string \<Rightarrow> eval_state" where
  "start_eval md idx src =
     \<lparr>esEngine = (SetCurrentModule NewEngine md idx)\<lparr>eCurrentFile := src\<rparr>, esModuleInfo = None, esCommands = []\<rparr>"

lemma start_eval_ok: "state_ok (start_eval md idx src)"
  by (simp add: start_eval_def state_ok_def units_ok_def SetCurrentModule_def NewEngine_def)

lemma exec_calls_state: "exec_calls big cs s = Inr s' \<Longrightarrow> state_ok s \<Longrightarrow> state_ok s'"
  by (induction cs arbitrary: s) (auto split: sum.splits dest: exec_call_ok)

section \<open>Properties\<close>

text \<open>A Starlark value converts to a Go value exactly when it is built from None, booleans, strings, floats, integers of 64 bits, lists, and dicts with string keys; the result then holds only 64-bit integers and maps with one entry per key.\<close>

theorem starlarkToGo_spec:
  "(\<exists>g. starlarkToGo v = Inr g) = convertible v \<and> (case starlarkToGo v of Inl _ \<Rightarrow> True | Inr g \<Rightarrow> goany_ok g)"
  using starlarkToGo_cases(1) [of v] by (auto split: sum.splits)

text \<open>Whatever sequence of builtin calls a project's files make, if none fails then every unit in the catalog is stored under its own name and module with a known scope and extra arguments that no typed field reads, every machine has a known architecture, at most one spelling of its kernel unit and a positive serial speed, every mirror rule is non-empty, and module info and commands are named.\<close>

theorem exec_calls_ok:
  assumes "exec_calls big cs (start_eval md idx src) = Inr s"
  shows "state_ok s"
  using exec_calls_state [OF assms start_eval_ok] .

text \<open>A call that registers a unit reads each keyword argument once: into its typed field, or, if no field has its name, converted under the same name in the extra arguments. It fails without a name, with an unknown scope, on an extra argument that has no Go form, or when the engine refuses the unit.\<close>

theorem registerUnit_spec:
  assumes "distinct (map fst kws)"
  shows "case registerUnit big cl kws e of
      Inl err \<Rightarrow>
        kwString kws ''name'' = [] \<and> err = RequiresName cl \<or>
        kwString kws ''scope'' \<notin> validScopes \<and> err = InvalidScope (kwString kws ''name'') (kwString kws ''scope'') \<or>
        (\<exists>k v ve. (k, v) \<in> set kws \<and> k \<notin> reservedUnitKwargs \<and> starlarkToGo v = Inl ve \<and> err = BadKwarg cl k ve) \<or>
        (\<exists>r ee. register e r = Inl ee \<and> err = EngineFailed ee)
    | Inr (e', u) \<Rightarrow>
        (\<exists>extra. register e ((fill_unit big cl kws)\<lparr>uExtra := extra\<rparr>) = Inr (e', u) \<and>
           gm_ok extra \<and> set (gm_keys extra) = set (map fst kws) - reservedUnitKwargs \<and>
           (\<forall>k g. map_of extra k = Some g \<longrightarrow> (\<exists>v. map_of kws k = Some v \<and> starlarkToGo v = Inr g)))"
proof (cases "kwString kws ''name'' = [] \<or> kwString kws ''scope'' \<notin> validScopes")
  case True
  then show ?thesis by (auto simp: registerUnit_def Let_def)
next
  case False
  show ?thesis
  proof (cases "extra_kwargs cl kws []")
    case (Inl err)
    with False extra_kwargs_error [OF Inl] show ?thesis by (simp add: registerUnit_def Let_def)
  next
    case (Inr extra)
    have ok: "gm_ok extra" "set (gm_keys extra) = set (map fst kws) - reservedUnitKwargs"
      using extra_kwargs_ok [OF Inr] by auto
    have "\<exists>v. map_of kws k = Some v \<and> starlarkToGo v = Inr g" if "map_of extra k = Some g" for k g
    proof -
      have "k \<in> set (map fst kws)" "k \<notin> reservedUnitKwargs" using map_of_Some_key [OF that] ok(2) by auto
      with extra_kwargs_value [OF Inr assms] that show ?thesis by force
    qed
    with ok False Inr show ?thesis by (auto simp: registerUnit_def Let_def split: sum.split)
  qed
qed

section \<open>Concrete instances\<close>

definition ex_kwargs :: kwargs where
  "ex_kwargs = [(''name'', SString ''zlib''), (''version'', SString ''1.3''), (''release'', SInt 2),
     (''deps'', SList [SString ''toolchain'']), (''configure'', SList [SString ''--shared'', SInt 1])]"

definition ex_calls :: "call list" where
  "ex_calls =
     [CallMachine [(''name'', SString ''qemu''), (''arch'', SString ''x86_64''),
        (''serial'', SStruct ''serial_config'' [(''baud'', SInt 115200)])],
      CallProject [(''name'', SString ''demo''), (''source_mirrors'', SList [STuple [SString ''https://a'', SString ''https://b'']])],
      CallUnit ex_kwargs]"

theorem exec_calls_ok_witness:
  "\<exists>s. exec_calls id ex_calls (start_eval ''core'' 0 ''/m/units/zlib.star'') = Inr s \<and> state_ok s \<and>
     map_option uDeps (map_of (eUnits (esEngine s)) ''zlib'') = Some [''toolchain'']"
proof -
  have "map_sum id (\<lambda>s. map_option uDeps (map_of (eUnits (esEngine s)) ''zlib''))
      (exec_calls id ex_calls (start_eval ''core'' 0 ''/m/units/zlib.star'')) = Inr (Some [''toolchain''])"
    by code_simp
  then obtain s where "exec_calls id ex_calls (start_eval ''core'' 0 ''/m/units/zlib.star'') = Inr s"
    "map_option uDeps (map_of (eUnits (esEngine s)) ''zlib'') = Some [''toolchain'']"
    by (cases "exec_calls id ex_calls (start_eval ''core'' 0 ''/m/units/zlib.star'')") auto
  with exec_calls_ok show ?thesis by blast
qed

theorem registerUnit_spec_witness:
  "\<exists>e u extra. registerUnit id ''unit'' ex_kwargs NewEngine = Inr (e, u) \<and>
     register NewEngine ((fill_unit id ''unit'' ex_kwargs)\<lparr>uExtra := extra\<rparr>) = Inr (e, u) \<and>
     set (gm_keys extra) = {''configure''}"
proof -
  have d: "distinct (map fst ex_kwargs)" by (simp add: ex_kwargs_def)
  have "map_sum id (\<lambda>r. ()) (registerUnit id ''unit'' ex_kwargs NewEngine) = Inr ()" by code_simp
  then obtain e u where r: "registerUnit id ''unit'' ex_kwargs NewEngine = Inr (e, u)"
    by (cases "registerUnit id ''unit'' ex_kwargs NewEngine") auto
  have "set (map fst ex_kwargs) - reservedUnitKwargs = {''configure''}" by code_simp
  with registerUnit_spec [OF d, where big = id and cl = "''unit''" and e = NewEngine] r show ?thesis by auto
qed

end
