(* ===== verification/BuildDeps.thy ===== *)
theory BuildDeps
  imports ClosureWalk
begin

text \<open>
  The last stage of \<^verbatim>\<open>LoadProjectFromRoot\<close> that changes the catalog (\<^verbatim>\<open>internal/starlark/loader.go\<close>):
  build-time and runtime dependencies of every unit are looked up for every distro, feeds
  included, until a pass adds nothing. The loop is a partial function, so that a load that
  hangs has a value of its own.
\<close>

datatype DepError = MaterializeFailed name name name EngineError

text \<open>From the image phase on, the catalog of the project is the map of the engine.\<close>

definition alias_catalog :: "Engine \<Rightarrow> Engine" where
  "alias_catalog e =
     e\<lparr>eProject := map_option (\<lambda>p. p\<lparr>pUnitsByModule := eUnitsByModule e\<rparr>) (eProject e)\<rparr>"

fun mat_edges :: "name \<Rightarrow> name \<Rightarrow> name list \<Rightarrow> Engine \<Rightarrow> nat \<Rightarrow> DepError + Engine \<times> nat" where
  "mat_edges d owner [] e added = Inr (e, added)"
| "mat_edges d owner (dep # deps) e added =
     (let resolved = engine_resolveProvidesForDistro e dep d in
      if findVisibleByName e resolved d \<noteq> None then mat_edges d owner deps e added
      else case lookupOrMaterialize e resolved d of
             Inl err \<Rightarrow> Inl (MaterializeFailed dep owner d err)
           | Inr (e', u) \<Rightarrow> mat_edges d owner deps (alias_catalog e') (if u \<noteq> None then Suc added else added))"

fun mat_names :: "name \<Rightarrow> name list \<Rightarrow> Engine \<Rightarrow> nat \<Rightarrow> DepError + Engine \<times> nat" where
  "mat_names d [] e added = Inr (e, added)"
| "mat_names d (name # names) e added =
     (case findVisibleByName e name d of
        None \<Rightarrow> mat_names d names e added
      | Some unit \<Rightarrow>
          (case mat_edges d name (DepsForDistro unit d @ RuntimeDepsForDistro unit d) e added of
             Inl err \<Rightarrow> Inl err
           | Inr (e', added') \<Rightarrow> mat_names d names e' added'))"

text \<open>
  The iteration over the names of the catalog sees the names that were there when it
  started; Go leaves open whether it sees the ones added on the way.
\<close>

fun mat_pass :: "name list \<Rightarrow> Engine \<Rightarrow> nat \<Rightarrow> DepError + Engine \<times> nat" where
  "mat_pass [] e added = Inr (e, added)"
| "mat_pass (d # ds) e added =
     (case mat_names d (gm_keys (eUnits e)) e added of
        Inl err \<Rightarrow> Inl err
      | Inr (e', added') \<Rightarrow> mat_pass ds e' added')"

partial_function (option) materialize_deps :: "name list \<Rightarrow> Engine \<Rightarrow> (DepError + Engine) option" where
  "materialize_deps ds e =
     (case mat_pass ds e 0 of
        Inl err \<Rightarrow> Some (Inl err)
      | Inr (e', added) \<Rightarrow> if added = 0 then Some (Inr e') else materialize_deps ds e')"

declare materialize_deps.simps [code]

section \<open>What one lookup does\<close>

lemma materialize_cases:
  "materialize sms e n d = Inr (e', r) \<Longrightarrow>
   (case r of
      None \<Rightarrow> e' = e
    | Some v \<Rightarrow> \<exists>sm \<in> set sms. \<exists>u. feed_lookup sm n = Inr (Some u) \<and> visibleToDistro (Some u) d \<and> v = stamp_feed_unit sm u \<and>
        e' = storeByModule (if gm_has (eUnits e) n then e else e\<lparr>eUnits := gm_put n v (eUnits e)\<rparr>) v)"
  by (induction sms e n d rule: materialize.induct) (auto simp: Let_def split: sum.splits option.splits if_splits)

lemma lookup_pinned_cases:
  "lookup_pinned sms e n m d = Inr (e', r) \<Longrightarrow>
   (case r of
      None \<Rightarrow> e' = e
    | Some v \<Rightarrow> (e' = e \<and> module_unit e m n = Some v \<and> visibleToDistro (Some v) d) \<or>
        (\<exists>sm \<in> set sms. \<exists>u. feed_lookup sm n = Inr (Some u) \<and> visibleToDistro (Some u) d \<and> v = stamp_feed_unit sm u \<and>
          e' = storeByModule e v))"
  by (induction sms e n m d rule: lookup_pinned.induct)
    (auto simp: findInModuleByName_eq split: sum.splits option.splits if_splits)

text \<open>
  A lookup of a name that is its own resolution: a miss changes nothing, and a unit comes
  from the flat catalog, from the catalog by module, or from a feed.
\<close>

lemma lookup_cases:
  assumes "lookupOrMaterialize e x d = Inr (e', r)" and "n = engine_resolveProvidesForDistro e x d"
  shows "case r of
      None \<Rightarrow> e' = e
    | Some v \<Rightarrow>
        (e' = e \<and> visibleToDistro (Some v) d \<and> (map_of (eUnits e) n = Some v \<or> (\<exists>m. module_unit e m n = Some v) \<or> findVisibleByName e n d = Some v)) \<or>
        (\<exists>sm \<in> set (eSyntheticModules e). \<exists>u. feed_lookup sm n = Inr (Some u) \<and> visibleToDistro (Some u) d \<and> v = stamp_feed_unit sm u \<and>
          e' \<in> {storeByModule e v, storeByModule (e\<lparr>eUnits := gm_put n v (eUnits e)\<rparr>) v})"
proof -
  have vis: "visibleToDistro (Some v) d" if "findVisibleByName e n d = Some v" for v
    using that scan_best_mem unfolding findVisibleByName_def by fastforce
  have default: ?thesis if "lookup_default e n d = Inr (e', r)"
  proof (cases "map_of (eUnits e) n")
    case None
    then have "materialize (eSyntheticModules e) e n d = Inr (e', r)" using that by (simp add: lookup_default_def)
    from materialize_cases [OF this] None show ?thesis by (cases r) (auto simp: gm_has_def)
  next
    case (Some w)
    show ?thesis
    proof (cases "visibleToDistro (Some w) d \<or> findVisibleByName e n d \<noteq> None")
      case True
      then show ?thesis using that Some vis by (cases r) (auto simp: lookup_default_def split: if_splits option.splits)
    next
      case False
      then have "materialize (eSyntheticModules e) e n d = Inr (e', r)" using that Some by (simp add: lookup_default_def)
      from materialize_cases [OF this] Some show ?thesis by (cases r) (auto simp: gm_has_def)
    qed
  qed
  show ?thesis
  proof (cases "pinned_module e n d")
    case None
    then show ?thesis using default assms by (simp add: lookupOrMaterialize_def Let_def)
  next
    case (Some m)
    then obtain e1 r1 where 1: "lookup_pinned (eSyntheticModules e) e n m d = Inr (e1, r1)"
      using assms by (auto simp: lookupOrMaterialize_def lookupInModule_def Let_def split: sum.splits)
    from lookup_pinned_cases [OF this] show ?thesis
      using default assms Some 1
      by (cases r1) (fastforce simp: lookupOrMaterialize_def lookupInModule_def Let_def)+
  qed
qed


section \<open>What the last pass leaves\<close>

definition aliased :: "Engine \<Rightarrow> bool" where
  "aliased e \<longleftrightarrow> alias_catalog e = e"

lemma aliased_alias [simp]: "aliased (alias_catalog e)"
  by (simp add: aliased_def alias_catalog_def option.map_comp comp_def)

text \<open>A dependency is settled when the distro sees the unit it resolves to, or no feed has one.\<close>

definition settled_dep :: "Engine \<Rightarrow> name \<Rightarrow> name \<Rightarrow> bool" where
  "settled_dep e d dep \<longleftrightarrow>
     (let resolved = engine_resolveProvidesForDistro e dep d in
      findVisibleByName e resolved d \<noteq> None \<or> lookupOrMaterialize e resolved d = Inr (e, None))"

lemma mat_edges_quiet:
  "mat_edges d owner deps e a = Inr (e', a') \<Longrightarrow> aliased e \<Longrightarrow>
   a \<le> a' \<and> aliased e' \<and> (a' = a \<longrightarrow> e' = e \<and> (\<forall>dep \<in> set deps. settled_dep e d dep))"
proof (induction deps arbitrary: e a)
  case (Cons dep deps)
  let ?r = "engine_resolveProvidesForDistro e dep d"
  show ?case
  proof (cases "findVisibleByName e ?r d")
    case (Some v)
    then show ?thesis using Cons by (fastforce simp: settled_dep_def Let_def)
  next
    case None
    then obtain e1 u where l: "lookupOrMaterialize e ?r d = Inr (e1, u)"
      and rest: "mat_edges d owner deps (alias_catalog e1) (if u \<noteq> None then Suc a else a) = Inr (e', a')"
      using Cons.prems(1) by (auto simp: Let_def split: sum.splits)
    show ?thesis
    proof (cases u)
      case None
      with lookup_cases [OF l refl] have "e1 = e" by simp
      then have eq: "alias_catalog e1 = e" using Cons.prems(2) by (simp add: aliased_def)
      then show ?thesis using Cons.IH [of e a] rest None l \<open>e1 = e\<close> Cons.prems(2) by (auto simp: settled_dep_def Let_def)
    next
      case (Some v)
      then show ?thesis using Cons.IH [OF rest] by auto
    qed
  qed
qed simp

lemma mat_names_quiet:
  "mat_names d names e a = Inr (e', a') \<Longrightarrow> aliased e \<Longrightarrow>
   a \<le> a' \<and> aliased e' \<and> (a' = a \<longrightarrow> e' = e \<and>
     (\<forall>n \<in> set names. \<forall>u. findVisibleByName e n d = Some u \<longrightarrow>
        (\<forall>dep \<in> set (DepsForDistro u d) \<union> set (RuntimeDepsForDistro u d). settled_dep e d dep)))"
proof (induction names arbitrary: e a)
  case (Cons n names)
  show ?case
  proof (cases "findVisibleByName e n d")
    case None
    then show ?thesis using Cons by auto
  next
    case (Some u)
    then obtain e1 a1 where 1: "mat_edges d n (DepsForDistro u d @ RuntimeDepsForDistro u d) e a = Inr (e1, a1)"
      and rest: "mat_names d names e1 a1 = Inr (e', a')"
      using Cons.prems(1) by (auto split: sum.splits)
    note q = mat_edges_quiet [OF 1 Cons.prems(2)]
    then have "aliased e1" by blast
    from Cons.IH [OF rest this] q Some show ?thesis by (auto simp: ball_Un)
  qed
qed simp

lemma mat_pass_quiet:
  "mat_pass ds e a = Inr (e', a') \<Longrightarrow> aliased e \<Longrightarrow>
   a \<le> a' \<and> aliased e' \<and> (a' = a \<longrightarrow> e' = e \<and>
     (\<forall>d \<in> set ds. \<forall>n \<in> set (gm_keys (eUnits e)). \<forall>u. findVisibleByName e n d = Some u \<longrightarrow>
        (\<forall>dep \<in> set (DepsForDistro u d) \<union> set (RuntimeDepsForDistro u d). settled_dep e d dep)))"
proof (induction ds arbitrary: e a)
  case (Cons d ds)
  then obtain e1 a1 where 1: "mat_names d (gm_keys (eUnits e)) e a = Inr (e1, a1)" and rest: "mat_pass ds e1 a1 = Inr (e', a')"
    by (auto split: sum.splits)
  note q = mat_names_quiet [OF 1 Cons.prems(2)]
  then have "aliased e1" by blast
  from Cons.IH [OF rest this] q show ?case by auto
qed simp

definition deps_result :: "name list \<Rightarrow> Engine \<Rightarrow> DepError + Engine \<Rightarrow> bool" where
  "deps_result ds e r \<longleftrightarrow> (aliased e \<longrightarrow> (\<forall>e'. r = Inr e' \<longrightarrow> aliased e' \<and> mat_pass ds e' 0 = Inr (e', 0)))"

lemma materialize_deps_last:
  assumes "materialize_deps ds e = Some r"
  shows "deps_result ds e r"
proof (rule materialize_deps.raw_induct [where P = deps_result, OF _ assms])
  fix loop ds e r
  assume IH: "\<And>ds e r. loop ds e = Some r \<Longrightarrow> deps_result ds e r"
    and run: "(case mat_pass ds e 0 of
        Inl err \<Rightarrow> Some (Inl err)
      | Inr (e', added) \<Rightarrow> if added = 0 then Some (Inr e') else loop ds e') = Some r"
  show "deps_result ds e r"
  proof (cases "mat_pass ds e 0")
    case (Inl err)
    with run show ?thesis by (auto simp: deps_result_def)
  next
    case (Inr p)
    obtain e1 a1 where p: "p = (e1, a1)" by (cases p)
    show ?thesis unfolding deps_result_def
    proof (intro impI)
      assume al: "aliased e"
      note q = mat_pass_quiet [OF Inr [unfolded p] al]
      show "\<forall>e'. r = Inr e' \<longrightarrow> aliased e' \<and> mat_pass ds e' 0 = Inr (e', 0)"
      proof (cases "a1 = 0")
        case True
        then show ?thesis using run Inr p q by auto
      next
        case False
        then have "deps_result ds e1 r" using run Inr p IH by simp
        then show ?thesis using q by (simp add: deps_result_def)
      qed
    qed
  qed
qed

lemma materialize_deps_settled:
  assumes "materialize_deps ds e = Some (Inr e')" and "aliased e" and "d \<in> set ds" and "n \<in> set (gm_keys (eUnits e'))"
    and "findVisibleByName e' n d = Some u" and "dep \<in> set (DepsForDistro u d) \<union> set (RuntimeDepsForDistro u d)"
  shows "settled_dep e' d dep"
proof -
  have last: "aliased e'" "mat_pass ds e' 0 = Inr (e', 0)"
    using materialize_deps_last [OF assms(1)] assms(2) by (simp_all add: deps_result_def)
  from mat_pass_quiet [OF last(2,1)] assms(3-6) show ?thesis by blast
qed

section \<open>When the load hangs\<close>

text \<open>A pass that ends where it began but counts an addition repeats for ever.\<close>

lemma materialize_deps_hangs:
  assumes "mat_pass ds e 0 = Inr (e, Suc k)"
  shows "materialize_deps ds e = None"
proof -
  have "(ds', e') \<noteq> (ds, e)" if "materialize_deps ds' e' = Some r" for ds' e' r
    by (rule materialize_deps.raw_induct [where P = "\<lambda>ds' e' _. (ds', e') \<noteq> (ds, e)", OF _ that])
      (use assms in \<open>(auto split: sum.splits if_splits; blast)\<close>)
  then show ?thesis by (cases "materialize_deps ds e") auto
qed


definition ex_lib :: "name \<Rightarrow> Unit" where
  "ex_lib d = zero_unit\<lparr>uName := ''lib'', uDistro := d\<rparr>"

definition ex_app :: Unit where
  "ex_app = zero_unit\<lparr>uName := ''app'', uDeps := [''lib'']\<rparr>"

definition ex_start :: Engine where
  "ex_start = NewEngine\<lparr>eProject := Some (zero_project\<lparr>pDefaultDistro := ''debian''\<rparr>), eCurrentModule := ''m'', eCurrentModuleIndex := 1\<rparr>"

lemmas deps_eval =
  register_def stamp_unit_def storeByModule_def NewEngine_def zero_project_def zero_unit_def gm_get_def gm_has_def Let_def
  alias_catalog_def engine_resolveProvidesForDistro_def ResolveProvidesForDistro_def direct_provider_def tagged_provider_def
  LookupUnit_def AnyUnit_def AllUnits_def better_def findVisibleByName_def visibleToDistro_def lookupOrMaterialize_def pinned_module_def
  lookup_default_def DepsForDistro_def RuntimeDepsForDistro_def

text \<open>A virtual name whose provider is of another distro and has a provider of its own.\<close>

definition ex_chain :: "(name, name) gomap \<Rightarrow> Engine" where
  "ex_chain provides =
     (let b = zero_unit\<lparr>uName := ''b'', uDistro := ''alpine'', uProvides := [''a''], uModule := ''m'', uModuleIndex := 1\<rparr>;
          c = zero_unit\<lparr>uName := ''c'', uDistro := ''debian'', uProvides := [''b''], uModule := ''n'', uModuleIndex := 2\<rparr>;
          app = zero_unit\<lparr>uName := ''app'', uDeps := [''a''], uModule := ''n'', uModuleIndex := 2\<rparr>
      in NewEngine\<lparr>eProject := Some (zero_project\<lparr>pProvides := provides\<rparr>),
           eUnits := [(''b'', b), (''c'', c), (''app'', app)],
           eUnitsByModule := [(''m'', [(''b'', b)]), (''n'', [(''c'', c), (''app'', app)])]\<rparr>)"

lemma provides_chain_hangs:
  "collect_provides (ex_chain []) [] = Inr [(''a'', ''b''), (''b'', ''c'')]"
  "materialize_deps [''debian''] (alias_catalog (ex_chain [(''a'', ''b''), (''b'', ''c'')])) = None"
proof -
  show "collect_provides (ex_chain []) [] = Inr [(''a'', ''b''), (''b'', ''c'')]"
    by (simp add: collect_provides_def deps_eval ex_chain_def)
  have "mat_pass [''debian''] (alias_catalog (ex_chain [(''a'', ''b''), (''b'', ''c'')])) 0 =
      Inr (alias_catalog (ex_chain [(''a'', ''b''), (''b'', ''c'')]), Suc 0)"
    by (simp add: deps_eval ex_chain_def)
  then show "materialize_deps [''debian''] (alias_catalog (ex_chain [(''a'', ''b''), (''b'', ''c'')])) = None"
    by (rule materialize_deps_hangs)
qed

section \<open>When it ends\<close>

definition sees :: "Engine \<Rightarrow> name \<Rightarrow> name \<Rightarrow> bool" where
  "sees e n d \<longleftrightarrow> (\<exists>m u. module_unit e m n = Some u \<and> visibleToDistro (Some u) d)"

lemma visible_cong: "uDistro w = uDistro v \<Longrightarrow> visibleToDistro (Some v) d \<Longrightarrow> visibleToDistro (Some w) d"
  by (simp add: visibleToDistro_def)

lemma findVisible_iff:
  assumes "gm_ok (eUnitsByModule e)"
  shows "findVisibleByName e n d \<noteq> None \<longleftrightarrow> sees e n d"
  unfolding findVisibleByName_def scan_best_None [THEN arg_cong [of _ _ Not]] sees_def
  using candidates_module_unit [OF assms] by (metis (no_types, lifting))

text \<open>Feeds answer under the name they were asked for, and agree with what is filed under their name.\<close>

definition feeds_agree :: "Engine \<Rightarrow> bool" where
  "feeds_agree e \<longleftrightarrow>
     distinct (map smName (eSyntheticModules e)) \<and>
     (\<forall>sm \<in> set (eSyntheticModules e). \<forall>n u. feed_lookup sm n = Inr (Some u) \<longrightarrow>
        uName u = n \<and> (\<forall>v. module_unit e (smName sm) n = Some v \<longrightarrow> uDistro v = uDistro u))"

text \<open>The flat catalog holds nothing that the catalog by module has lost.\<close>

definition flat_filed :: "Engine \<Rightarrow> bool" where
  "flat_filed e \<longleftrightarrow>
     (\<forall>n u. map_of (eUnits e) n = Some u \<longrightarrow> (\<exists>m v. module_unit e m n = Some v \<and> uDistro v = uDistro u))"

text \<open>The provider of a virtual name is not a virtual name.\<close>

definition provides_flat :: "Project \<Rightarrow> Engine \<Rightarrow> bool" where
  "provides_flat p e \<longleftrightarrow>
     (\<forall>v r. map_of (pProvides p) v = Some r \<longrightarrow> gm_get [] (pProvides p) r \<in> {[], r}) \<and>
     units_all (\<lambda>u. \<forall>v r. map_of (pProvides p) v = Some r \<longrightarrow> r \<in> set (uProvides u) \<longrightarrow> uName u = r) e"

definition deps_ready :: "Project \<Rightarrow> name set \<Rightarrow> Engine \<Rightarrow> bool" where
  "deps_ready p N e \<longleftrightarrow>
     eProject e = Some (p\<lparr>pUnitsByModule := eUnitsByModule e\<rparr>) \<and> pDistroViews p = [] \<and> pProvidesViews p = None \<and>
     [] \<notin> N \<and> units_all (\<lambda>u. uName u \<in> N) e \<and> (\<forall>(m, b) \<in> set (eUnitsByModule e). gm_ok b) \<and> catalog_ok e \<and> feeds_agree e \<and> flat_filed e \<and> provides_flat p e"

lemma deps_ready_ok: "deps_ready p N e \<Longrightarrow> gm_ok (eUnitsByModule e)"
  by (simp add: deps_ready_def units_all_def)

lemma module_unit_alias [simp]: "module_unit (alias_catalog e) = module_unit e"
  by (simp add: alias_catalog_def module_unit_def fun_eq_iff)

lemma alias_simps [simp]:
  "eUnits (alias_catalog e) = eUnits e"
  "eUnitsByModule (alias_catalog e) = eUnitsByModule e"
  "eSyntheticModules (alias_catalog e) = eSyntheticModules e"
  by (simp_all add: alias_catalog_def)


lemma provides_scan_Some:
  "provides_scan d v us = Some n \<Longrightarrow> \<exists>(k, u) \<in> set us. uDistro u = d \<and> v \<in> set (uProvides u) \<and> n = uName u"
  by (induction d v us rule: provides_scan.induct) (auto split: if_splits)

lemma AllUnits_module_unit:
  assumes "deps_ready p N e" and "(k, u) \<in> set (AllUnits (p\<lparr>pUnitsByModule := eUnitsByModule e\<rparr>))"
  shows "\<exists>m. module_unit e m k = Some u"
proof -
  obtain m b where mb: "(m, b) \<in> set (eUnitsByModule e)" "(k, u) \<in> set b"
    using assms(2) by (auto simp: AllUnits_def)
  then have "gm_ok b" using assms(1) by (auto simp: deps_ready_def)
  then have "map_of b k = Some u" using mb(2) by simp
  moreover have "map_of (eUnitsByModule e) m = Some b" using mb(1) deps_ready_ok [OF assms(1)] by simp
  ultimately show ?thesis by (auto simp: module_unit_Some)
qed

lemma ready_name: "deps_ready p N e \<Longrightarrow> module_unit e m n = Some u \<Longrightarrow> uName u = n"
  by (simp add: deps_ready_def catalog_ok_def)

lemma direct_provider_seen:
  assumes "deps_ready p N e" and "direct_provider (p\<lparr>pUnitsByModule := eUnitsByModule e\<rparr>) v d = Some n"
  shows "n = v \<and> sees e n d"
proof -
  have views: "pDistroViews p = []" using assms(1) by (simp add: deps_ready_def)
  then obtain u where u: "scan_best (\<lambda>_. True) v (eUnitsByModule e) None = Some u" "uDistro u = d" "n = uName u"
    using assms(2) by (auto simp: direct_provider_def LookupUnit_def AnyUnit_def split: option.splits if_splits)
  from scan_best_mem [OF u(1)] obtain m where "module_unit e m v = Some u"
    by (auto simp: candidates_module_unit [OF deps_ready_ok [OF assms(1)]])
  then show ?thesis using ready_name [OF assms(1)] u by (auto simp: sees_def visibleToDistro_def)
qed

lemma tagged_provider_seen:
  assumes "deps_ready p N e" and "tagged_provider (p\<lparr>pUnitsByModule := eUnitsByModule e\<rparr>) v d = Some n"
  shows "sees e n d"
proof -
  have "provides_scan d v (AllUnits (p\<lparr>pUnitsByModule := eUnitsByModule e\<rparr>)) = Some n"
    using assms by (simp add: tagged_provider_def deps_ready_def)
  from provides_scan_Some [OF this] obtain k u where u: "(k, u) \<in> set (AllUnits (p\<lparr>pUnitsByModule := eUnitsByModule e\<rparr>))"
    "uDistro u = d" "n = uName u" by auto
  from AllUnits_module_unit [OF assms(1) u(1)] obtain m where "module_unit e m k = Some u" by blast
  then show ?thesis using ready_name [OF assms(1)] u by (auto simp: sees_def visibleToDistro_def)
qed

lemma units_all_module_unit: "units_all P e \<Longrightarrow> module_unit e m n = Some u \<Longrightarrow> P u"
  by (simp add: units_all_def)

lemma sees_named: "deps_ready p N e \<Longrightarrow> sees e n d \<Longrightarrow> n \<in> N \<and> n \<noteq> []"
proof -
  assume ready: "deps_ready p N e" and "sees e n d"
  then obtain m u where "module_unit e m n = Some u" by (auto simp: sees_def)
  moreover have "units_all (\<lambda>u. uName u \<in> N) e" "[] \<notin> N" using ready by (simp_all add: deps_ready_def)
  ultimately show "n \<in> N \<and> n \<noteq> []" using ready_name [OF ready] units_all_module_unit by metis
qed

text \<open>A resolution that the distro does not see resolves to itself.\<close>

lemma resolve_stable:
  assumes "deps_ready p N e" and "r = engine_resolveProvidesForDistro e dep d" and "\<not> sees e r d"
  shows "engine_resolveProvidesForDistro e r d = r"
proof -
  let ?q = "p\<lparr>pUnitsByModule := eUnitsByModule e\<rparr>" and ?g = "gm_get [] (pProvides p)"
  have proj: "eProject e = Some ?q" using assms(1) by (simp add: deps_ready_def)
  have flat: "?g r \<in> {[], r}" if "map_of (pProvides p) v = Some r" for v
    using assms(1) that by (simp add: deps_ready_def provides_flat_def)
  note seen = direct_provider_seen [OF assms(1)] tagged_provider_seen [OF assms(1)]
  note resolve = engine_resolveProvidesForDistro_def proj ResolveProvidesForDistro_def Let_def
  have unseen: "direct_provider ?q x d = None" "tagged_provider ?q x d = None"
    if x: "engine_resolveProvidesForDistro e x d = r" "x \<noteq> []" "d \<noteq> []" for x
  proof -
    show 1: "direct_provider ?q x d = None"
    proof (rule ccontr)
      assume "direct_provider ?q x d \<noteq> None"
      then obtain n where n: "direct_provider ?q x d = Some n" by blast
      note s = seen(1) [OF n]
      then have "n \<noteq> []" using sees_named [OF assms(1)] by blast
      then have "r = n" using x n by (simp add: resolve)
      with s assms(3) show False by blast
    qed
    show "tagged_provider ?q x d = None"
    proof (rule ccontr)
      assume "tagged_provider ?q x d \<noteq> None"
      then obtain n where n: "tagged_provider ?q x d = Some n" by blast
      note s = seen(2) [OF n]
      then have "n \<noteq> []" using sees_named [OF assms(1)] by blast
      then have "r = n" using x n 1 by (simp add: resolve)
      with s assms(3) show False by blast
    qed
  qed
  have r: "r = (if ?g dep \<noteq> [] \<and> dep \<noteq> [] then ?g dep else dep)"
    using assms(2) unseen [OF assms(2) [symmetric]] by (auto simp: resolve)
  show ?thesis
  proof (cases "r = dep")
    case True
    then show ?thesis using assms(2) by simp
  next
    case False
    then have m: "map_of (pProvides p) dep = Some r" using r by (auto simp: gm_get_def split: if_splits option.splits)
    have "tagged_provider ?q r d = None"
    proof (rule ccontr)
      assume "tagged_provider ?q r d \<noteq> None"
      then obtain n where n: "tagged_provider ?q r d = Some n" by blast
      then have scan: "provides_scan d r (AllUnits ?q) = Some n" using assms(1) by (simp add: tagged_provider_def deps_ready_def)
      from provides_scan_Some [OF scan] obtain k u where u: "(k, u) \<in> set (AllUnits ?q)" "r \<in> set (uProvides u)" "n = uName u" by auto
      obtain m' where "module_unit e m' k = Some u" using AllUnits_module_unit [OF assms(1) u(1)] by blast
      then have "n = r" using assms(1) m u by (auto simp: deps_ready_def provides_flat_def units_all_def)
      with seen(2) [OF n] assms(3) show False by simp
    qed
    moreover have "direct_provider ?q r d = None" using seen(1) [of r d] assms(3) by (cases "direct_provider ?q r d") auto
    ultimately show ?thesis using flat [OF m] by (auto simp: resolve)
  qed
qed


lemma alias_invs:
  "units_all P (alias_catalog e) = units_all P e" "catalog_ok (alias_catalog e) = catalog_ok e"
  "feeds_agree (alias_catalog e) = feeds_agree e" "flat_filed (alias_catalog e) = flat_filed e"
  "provides_flat p (alias_catalog e) = provides_flat p e" "sees (alias_catalog e) = sees e"
  by (simp_all add: units_all_def catalog_ok_def feeds_agree_def flat_filed_def provides_flat_def sees_def fun_eq_iff)

lemma put_mem: "x \<in> set (gm_put k v m) \<Longrightarrow> x = (k, v) \<or> x \<in> set m"
  by (induction m) (auto split: if_splits)

lemma stored_units [simp]: "eUnitsByModule (storeByModule (e\<lparr>eUnits := us\<rparr>) u) = eUnitsByModule (storeByModule e u)"
  by (simp add: storeByModule_def)

lemma gm_ok_stored:
  assumes "\<forall>(m, b) \<in> set (eUnitsByModule e). gm_ok b" and "(m, b) \<in> set (eUnitsByModule (storeByModule e u))"
  shows "gm_ok b"
proof -
  have "gm_ok (gm_get [] (eUnitsByModule e) (uModule u))"
    using assms(1) by (auto simp: gm_get_def split: option.splits dest!: map_of_SomeD)
  moreover have "(m, b) \<in> set (eUnitsByModule e) \<or> b = gm_put (uName u) u (gm_get [] (eUnitsByModule e) (uModule u))"
    using assms(2) by (auto simp: storeByModule_def dest: put_mem)
  ultimately show ?thesis using assms(1) by auto
qed

text \<open>
  A lookup that counts as an addition keeps what was seen, and its name is seen from then on.
\<close>

lemma store_feed_unit:
  assumes "deps_ready p N e" and sm: "sm \<in> set (eSyntheticModules e)" and u: "feed_lookup sm n = Inr (Some u)" "visibleToDistro (Some u) d"
    and e': "e' \<in> {storeByModule e v, storeByModule (e\<lparr>eUnits := gm_put n v (eUnits e)\<rparr>) v}" and v: "v = stamp_feed_unit sm u"
  shows "deps_ready p N (alias_catalog e')" and "sees e' n d" and "sees e x y \<Longrightarrow> sees e' x y"
proof -
  have agree: "feeds_agree e" and catalog: "catalog_ok e" and filed: "flat_filed e" and prov: "provides_flat p e"
    and names: "units_all (\<lambda>u. uName u \<in> N) e" and gm: "\<forall>(m, b) \<in> set (eUnitsByModule e). gm_ok b"
    using assms(1) by (simp_all add: deps_ready_def)
  have name: "uName v = n" "uModule v = smName sm" "uDistro v = uDistro u"
    using agree sm u(1) v by (auto simp: feeds_agree_def stamp_feed_unit_def)
  have same: "uDistro w = uDistro u" if "module_unit e (smName sm) n = Some w" for w
    using agree sm u(1) that by (auto simp: feeds_agree_def)
  have mu: "module_unit e' m k = (if m = smName sm \<and> k = n then Some v else module_unit e m k)" for m k
    using e' name by auto
  have keep: "\<exists>w'. module_unit e' m k = Some w' \<and> uDistro w' = uDistro w" if "module_unit e m k = Some w" for m k w
    using that same mu name by (cases "m = smName sm \<and> k = n") auto
  show "sees e' n d" using mu u(2) name(3) by (auto simp: sees_def visibleToDistro_def intro!: exI [of _ "smName sm"])
  show "sees e x y \<Longrightarrow> sees e' x y" using keep by (fastforce simp: sees_def visibleToDistro_def)
  have P: "units_all P e'" if "units_all P e" for P
  proof -
    have "P v" using that sm u(1) v by (auto simp: units_all_def)
    with that e' show ?thesis by (auto intro: units_all_store units_all_put)
  qed
  have synth: "eSyntheticModules e' = eSyntheticModules e" and proj: "eProject e' = eProject e" using e' by auto
  have gm': "\<forall>(m, b) \<in> set (eUnitsByModule e'). gm_ok b"
    using e' gm_ok_stored [OF gm] by auto
  have flat: "\<exists>m w. module_unit e' m k = Some w \<and> uDistro w = uDistro x" if "map_of (eUnits e') k = Some x" for k x
  proof (cases "map_of (eUnits e) k = Some x")
    case True
    then obtain m w where "module_unit e m k = Some w" "uDistro w = uDistro x" using filed unfolding flat_filed_def by blast
    with keep show ?thesis by metis
  next
    case False
    with that e' have "k = n \<and> x = v" by (auto split: if_splits)
    then show ?thesis using mu name(3) by auto
  qed
  have "feeds_agree e'"
    unfolding feeds_agree_def synth
  proof (intro conjI ballI allI impI)
    show "distinct (map smName (eSyntheticModules e))" using agree by (simp add: feeds_agree_def)
    fix sm' k w assume w: "sm' \<in> set (eSyntheticModules e)" "feed_lookup sm' k = Inr (Some w)"
    then show "uName w = k" using agree by (simp add: feeds_agree_def)
    fix z assume z: "module_unit e' (smName sm') k = Some z"
    show "uDistro z = uDistro w"
    proof (cases "smName sm' = smName sm \<and> k = n")
      case True
      then have "sm' = sm" using agree w(1) sm unfolding feeds_agree_def by (simp add: distinct_map inj_on_def)
      then show ?thesis using z mu True w(2) u(1) name(3) by simp
    next
      case False
      then show ?thesis using z mu w agree by (auto simp: feeds_agree_def)
    qed
  qed
  moreover have "catalog_ok e'" using catalog mu name by (auto simp: catalog_ok_def)
  moreover have "provides_flat p e'" using prov P by (simp add: provides_flat_def)
  moreover have "flat_filed e'" using flat by (simp add: flat_filed_def)
  ultimately show "deps_ready p N (alias_catalog e')"
    using assms(1) P [OF names] gm' proj
    by (simp add: deps_ready_def alias_invs) (simp add: alias_catalog_def)
qed


section \<open>Termination\<close>

text \<open>What is still unseen, over finitely many names and distros.\<close>

definition unseen :: "name set \<Rightarrow> name list \<Rightarrow> Engine \<Rightarrow> (name \<times> name) set" where
  "unseen N ds e = {(n, d). n \<in> N \<and> d \<in> set ds \<and> \<not> sees e n d}"

text \<open>Between two states of a ready engine, additions only shrink what is unseen.\<close>

definition progress :: "Project \<Rightarrow> name set \<Rightarrow> name list \<Rightarrow> Engine \<Rightarrow> nat \<Rightarrow> Engine \<Rightarrow> nat \<Rightarrow> bool" where
  "progress p N ds e a e' a' \<longleftrightarrow>
     deps_ready p N e' \<and> unseen N ds e' \<subseteq> unseen N ds e \<and> a \<le> a' \<and> (a < a' \<longrightarrow> unseen N ds e' \<subset> unseen N ds e)"

lemma progress_refl: "deps_ready p N e \<Longrightarrow> progress p N ds e a e a"
  by (simp add: progress_def)

lemma progress_trans: "progress p N ds e a e1 a1 \<Longrightarrow> progress p N ds e1 a1 e2 a2 \<Longrightarrow> progress p N ds e a e2 a2"
  unfolding progress_def by (metis le_trans order.strict_trans2 order.strict_trans1 order.trans nat_less_le)

lemma ready_aliased: "deps_ready p N e \<Longrightarrow> alias_catalog e = e"
  by (simp add: deps_ready_def alias_catalog_def)

lemma lookup_progress:
  assumes "deps_ready p N e" and "d \<in> set ds" and "r = engine_resolveProvidesForDistro e dep d"
    and "findVisibleByName e r d = None" and "lookupOrMaterialize e r d = Inr (e', u)"
  shows "progress p N ds e a (alias_catalog e') (if u \<noteq> None then Suc a else a)"
proof -
  have no: "\<not> sees e r d" using assms(4) findVisible_iff [OF deps_ready_ok [OF assms(1)]] by blast
  have r: "r = engine_resolveProvidesForDistro e r d" using resolve_stable [OF assms(1,3) no] by simp
  show ?thesis
  proof (cases u)
    case None
    with lookup_cases [OF assms(5) r] show ?thesis using assms(1) by (simp add: ready_aliased progress_refl)
  next
    case (Some v)
    have "\<not> (visibleToDistro (Some v) d \<and> (map_of (eUnits e) r = Some v \<or> (\<exists>m. module_unit e m r = Some v) \<or> findVisibleByName e r d = Some v))"
    proof
      assume v: "visibleToDistro (Some v) d \<and> (map_of (eUnits e) r = Some v \<or> (\<exists>m. module_unit e m r = Some v) \<or> findVisibleByName e r d = Some v)"
      then have "\<exists>m w. module_unit e m r = Some w \<and> uDistro w = uDistro v"
        using assms(1,4) by (auto simp: deps_ready_def flat_filed_def)
      with v no show False unfolding sees_def using visible_cong by blast
    qed
    with lookup_cases [OF assms(5) r] Some obtain sm w where f: "sm \<in> set (eSyntheticModules e)" "feed_lookup sm r = Inr (Some w)"
      "visibleToDistro (Some w) d" "v = stamp_feed_unit sm w" "e' \<in> {storeByModule e v, storeByModule (e\<lparr>eUnits := gm_put r v (eUnits e)\<rparr>) v}"
      by auto
    note s = store_feed_unit [OF assms(1) f(1-3,5,4)]
    have "r \<in> N" using sees_named [OF s(1)] s(2) by (simp add: alias_invs)
    then have "(r, d) \<in> unseen N ds e - unseen N ds (alias_catalog e')"
      using no s(2) assms(2) by (simp add: unseen_def alias_invs)
    moreover have "unseen N ds (alias_catalog e') \<subseteq> unseen N ds e" using s(3) by (auto simp: unseen_def alias_invs)
    ultimately show ?thesis using s(1) Some by (auto simp: progress_def)
  qed
qed

lemma mat_edges_progress:
  "mat_edges d owner deps e a = Inr (e', a') \<Longrightarrow> deps_ready p N e \<Longrightarrow> d \<in> set ds \<Longrightarrow> progress p N ds e a e' a'"
proof (induction deps arbitrary: e a)
  case (Cons dep deps)
  let ?r = "engine_resolveProvidesForDistro e dep d"
  show ?case
  proof (cases "findVisibleByName e ?r d")
    case (Some v)
    then show ?thesis using Cons by (simp add: Let_def)
  next
    case None
    then obtain e1 u where l: "lookupOrMaterialize e ?r d = Inr (e1, u)"
      and rest: "mat_edges d owner deps (alias_catalog e1) (if u \<noteq> None then Suc a else a) = Inr (e', a')"
      using Cons.prems(1) by (auto simp: Let_def split: sum.splits)
    note one = lookup_progress [OF Cons.prems(2,3) refl None l, of a]
    then have "deps_ready p N (alias_catalog e1)" by (simp add: progress_def)
    from progress_trans [OF one Cons.IH [OF rest this Cons.prems(3)]] show ?thesis .
  qed
qed (simp add: progress_refl)

lemma mat_names_progress:
  "mat_names d names e a = Inr (e', a') \<Longrightarrow> deps_ready p N e \<Longrightarrow> d \<in> set ds \<Longrightarrow> progress p N ds e a e' a'"
proof (induction names arbitrary: e a)
  case (Cons n names)
  show ?case
  proof (cases "findVisibleByName e n d")
    case (Some u)
    then obtain e1 a1 where 1: "mat_edges d n (DepsForDistro u d @ RuntimeDepsForDistro u d) e a = Inr (e1, a1)"
      and rest: "mat_names d names e1 a1 = Inr (e', a')"
      using Cons.prems(1) by (auto split: sum.splits)
    note one = mat_edges_progress [OF 1 Cons.prems(2,3)]
    then have "deps_ready p N e1" by (simp add: progress_def)
    from progress_trans [OF one Cons.IH [OF rest this Cons.prems(3)]] show ?thesis .
  qed (use Cons in auto)
qed (simp add: progress_refl)

lemma mat_pass_progress:
  "mat_pass ds' e a = Inr (e', a') \<Longrightarrow> deps_ready p N e \<Longrightarrow> set ds' \<subseteq> set ds \<Longrightarrow> progress p N ds e a e' a'"
proof (induction ds' arbitrary: e a)
  case (Cons d ds')
  then obtain e1 a1 where 1: "mat_names d (gm_keys (eUnits e)) e a = Inr (e1, a1)" and rest: "mat_pass ds' e1 a1 = Inr (e', a')"
    by (auto split: sum.splits)
  have d: "d \<in> set ds" "set ds' \<subseteq> set ds" using Cons.prems(3) by auto
  note one = mat_names_progress [OF 1 Cons.prems(2) d(1)]
  then have "deps_ready p N e1" by (simp add: progress_def)
  from progress_trans [OF one Cons.IH [OF rest this d(2)]] show ?case .
qed (simp add: progress_refl)

lemma materialize_deps_total:
  "finite N \<Longrightarrow> deps_ready p N e \<Longrightarrow> \<exists>r. materialize_deps ds e = Some r \<and> (\<forall>e'. r = Inr e' \<longrightarrow> deps_ready p N e')"
proof (induction "card (unseen N ds e)" arbitrary: e rule: less_induct)
  case less
  have fin: "finite (unseen N ds e)"
    by (rule finite_subset [of _ "N \<times> set ds"]) (use less.prems(1) in \<open>auto simp: unseen_def\<close>)
  show ?case
  proof (cases "mat_pass ds e 0")
    case (Inl err)
    then show ?thesis by (simp add: materialize_deps.simps)
  next
    case (Inr q)
    obtain e1 a1 where q: "q = (e1, a1)" by (cases q)
    from mat_pass_progress [OF Inr [unfolded q] less.prems(2), of ds]
    have pr: "deps_ready p N e1" "0 < a1 \<Longrightarrow> unseen N ds e1 \<subset> unseen N ds e" by (simp_all add: progress_def)
    show ?thesis
    proof (cases "a1 = 0")
      case True
      then show ?thesis using Inr q pr(1) by (simp add: materialize_deps.simps)
    next
      case False
      then have "card (unseen N ds e1) < card (unseen N ds e)" using psubset_card_mono [OF fin] pr(2) by simp
      from less.hyps [OF this less.prems(1) pr(1)] show ?thesis
        using Inr q False by (simp add: materialize_deps.simps [of ds e])
    qed
  qed
qed


section \<open>Properties\<close>


definition ex_source :: Engine where
  "ex_source = NewEngine\<lparr>
     eProject := Some (zero_project\<lparr>pUnitsByModule := [([], [(''app'', zero_unit\<lparr>uName := ''app'', uDeps := [''zlib'']\<rparr>)])]\<rparr>),
     eUnits := [(''app'', zero_unit\<lparr>uName := ''app'', uDeps := [''zlib'']\<rparr>)],
     eUnitsByModule := [([], [(''app'', zero_unit\<lparr>uName := ''app'', uDeps := [''zlib'']\<rparr>)])],
     eSyntheticModules := [ex_feed ''alpine.main'' ''alpine'' [''zlib''], ex_feed ''debian.main'' ''debian'' [''zlib'']]\<rparr>"


text \<open>
  Loading can hang. A module may register two units of one name for different distros; the
  catalog by module keeps the second only. When a unit depends on that name for the first
  distro, every pass finds the first one in the flat catalog, counts it as an addition and
  changes nothing, so the loop does not end.
\<close>

theorem variant_hangs:
  "\<exists>e1 e2 e3 a b c. register ex_start (ex_lib ''debian'') = Inr (e1, a) \<and> register e1 (ex_lib ''ubuntu'') = Inr (e2, b) \<and>
     register e2 ex_app = Inr (e3, c) \<and> materialize_deps [''debian''] (alias_catalog e3) = None"
proof -
  let ?s = "stamp_unit ex_start"
  let ?e1 = "storeByModule (ex_start\<lparr>eUnits := [(''lib'', ?s (ex_lib ''debian''))]\<rparr>) (?s (ex_lib ''debian''))"
  let ?e2 = "storeByModule ?e1 (?s (ex_lib ''ubuntu''))"
  let ?e3 = "storeByModule (?e2\<lparr>eUnits := [(''lib'', ?s (ex_lib ''debian'')), (''app'', ?s ex_app)]\<rparr>) (?s ex_app)"
  have "register ex_start (ex_lib ''debian'') = Inr (?e1, ?s (ex_lib ''debian''))"
    by (simp add: deps_eval ex_start_def ex_lib_def)
  moreover have "register ?e1 (ex_lib ''ubuntu'') = Inr (?e2, ?s (ex_lib ''ubuntu''))"
    by (simp add: deps_eval ex_start_def ex_lib_def)
  moreover have "register ?e2 ex_app = Inr (?e3, ?s ex_app)"
    by (simp add: deps_eval ex_start_def ex_lib_def ex_app_def)
  moreover have "mat_pass [''debian''] (alias_catalog ?e3) 0 = Inr (alias_catalog ?e3, Suc 0)"
    by (simp add: deps_eval ex_start_def ex_lib_def ex_app_def)
  ultimately show ?thesis using materialize_deps_hangs by blast
qed

definition pinned_engine :: Engine where
  "pinned_engine = alias_catalog (NewEngine\<lparr>
     eProject := Some (zero_project\<lparr>pPreferModules := [(''debian'', [(''foo'', ''debian.main'')])]\<rparr>),
     eUnits := [(''app'', zero_unit\<lparr>uName := ''app'', uDeps := [''foo'']\<rparr>)],
     eUnitsByModule := [([], [(''app'', zero_unit\<lparr>uName := ''app'', uDeps := [''foo'']\<rparr>)])],
     eSyntheticModules := [\<lparr>smName = ''debian.main'', smParent = [], smSuite = [], smCodename = [], smDistro = ''debian'',
       smRelease = [], smPriority = 0,
       smLookup = Some (\<lambda>n. Inr (map_of
         [(''foo'', zero_unit\<lparr>uName := ''foo'', uDistro := ''debian'', uRuntimeDeps := [''bar'']\<rparr>),
          (''bar'', zero_unit\<lparr>uName := ''bar'', uDistro := ''debian''\<rparr>)] n)),
       smNames = Some [''foo'', ''bar'']\<rparr>]\<rparr>)"

definition dep_probe :: "name \<Rightarrow> name \<Rightarrow> name \<Rightarrow> Engine \<Rightarrow> name list option \<times> bool \<times> (unit + name option)" where
  "dep_probe n dep d e =
     (let r = engine_resolveProvidesForDistro e dep d in
      (map_option (\<lambda>u. RuntimeDepsForDistro u d) (findVisibleByName e n d), findVisibleByName e r d = None,
       map_sum (\<lambda>_. ()) (\<lambda>(_, u). map_option uName u) (lookupOrMaterialize e r d)))"

text \<open>
  Dependencies of a pinned feed unit can be missed. A lookup that a pin answers files the unit
  in the catalog by module only, and the loop visits the names of the flat catalog. So a unit
  that is reached only through a pin is never visited: the loop ends although the distro does not
  see the dependency of that unit and a feed has it.
\<close>

theorem pinned_deps_missed:
  "\<exists>e foo. materialize_deps [''debian''] pinned_engine = Some (Inr e) \<and>
     findVisibleByName e ''foo'' ''debian'' = Some foo \<and> ''bar'' \<in> set (RuntimeDepsForDistro foo ''debian'') \<and>
     \<not> settled_dep e ''debian'' ''bar''"
proof -
  have "map_option (map_sum (\<lambda>_. ()) (dep_probe ''foo'' ''bar'' ''debian'')) (materialize_deps [''debian''] pinned_engine) =
      Some (Inr (Some [''bar''], True, Inr (Some ''bar'')))"
    by code_simp
  then obtain e where e: "materialize_deps [''debian''] pinned_engine = Some (Inr e)"
    "dep_probe ''foo'' ''bar'' ''debian'' e = (Some [''bar''], True, Inr (Some ''bar''))"
    by (cases "materialize_deps [''debian''] pinned_engine") (auto simp: map_sum_def split: sum.splits)
  from e(2) have "lookupOrMaterialize e (engine_resolveProvidesForDistro e ''bar'' ''debian'') ''debian'' \<noteq> Inr (e, None)"
    by (auto simp: dep_probe_def)
  with e show ?thesis by (auto simp: dep_probe_def settled_dep_def Let_def)
qed

end
