(* ===== verification/Loader.thy ===== *)
theory Loader
  imports Builtins ModuleWalk BuildDeps
begin

text \<open>
  \<^verbatim>\<open>LoadProjectFromRoot\<close> of \<^verbatim>\<open>internal/starlark/loader.go\<close>: the phases that turn the files of a
  project and its modules into a catalog. The Starlark interpreter is an oracle that says
  which built-ins a file calls, in order, given the state it starts in; what those calls do
  is modelled. A file tree, the network and git are oracles too. A load that does not end is
  \<^const>\<open>None\<close>.
\<close>

section \<open>Peeking at a module\<close>

text \<open>
  A module file is evaluated once in isolation, with a \<^verbatim>\<open>module\<close> that makes an opaque reference
  and feeds that do nothing, to learn its name and dependencies.
\<close>

datatype peek_value = PeekRef ModuleRef | PeekValue sval | PeekList "peek_value list"

fun peek_module_kwarg :: "string \<Rightarrow> sval \<Rightarrow> ModuleRef \<Rightarrow> ModuleRef" where
  "peek_module_kwarg key v ref =
     (case v of
        SString s \<Rightarrow>
          if key = ''url'' then ref\<lparr>mfURL := s\<rparr>
          else if key = ''ref'' then ref\<lparr>mfRef := s\<rparr>
          else if key = ''path'' then ref\<lparr>mfPath := s\<rparr>
          else if key = ''local'' then ref\<lparr>mfLocal := s\<rparr>
          else ref
      | _ \<Rightarrow> ref)"

definition peek_module :: "sval list \<Rightarrow> kwargs \<Rightarrow> ModuleRef" where
  "peek_module args kws =
     fold (\<lambda>(key, v). peek_module_kwarg key v) kws
       \<lparr>mfURL = (case args of SString s # _ \<Rightarrow> s | _ \<Rightarrow> []), mfRef = [], mfPath = [], mfLocal = []\<rparr>"

definition parsePeekDeps :: "peek_value \<Rightarrow> ModuleRef list" where
  "parsePeekDeps v =
     (case v of PeekList items \<Rightarrow> concat (map (\<lambda>item. case item of PeekRef ref \<Rightarrow> [ref] | _ \<Rightarrow> []) items) | _ \<Rightarrow> [])"

definition peek_info_kwarg :: "string \<Rightarrow> peek_value \<Rightarrow> ModuleInfo \<Rightarrow> ModuleInfo" where
  "peek_info_kwarg key v info =
     (if key = ''name'' then (case v of PeekValue (SString s) \<Rightarrow> info\<lparr>miName := s\<rparr> | _ \<Rightarrow> info)
      else if key = ''description'' then (case v of PeekValue (SString s) \<Rightarrow> info\<lparr>miDescription := s\<rparr> | _ \<Rightarrow> info)
      else if key = ''deps'' then info\<lparr>miDeps := parsePeekDeps v\<rparr>
      else info)"

text \<open>The calls of \<^verbatim>\<open>module_info\<close> a readable module file makes, up to its first error if it has one.\<close>

definition peekModuleInfo :: "(string \<times> peek_value) list list option \<Rightarrow> ModuleInfo option" where
  "peekModuleInfo calls =
     map_option (\<lambda>cs. fold (\<lambda>kws. fold (\<lambda>(key, v). peek_info_kwarg key v) kws) cs
       \<lparr>miName = [], miDescription = [], miDeps = []\<rparr>) calls"

definition peekModuleName :: "ModuleInfo option \<Rightarrow> name" where
  "peekModuleName info = (case info of None \<Rightarrow> [] | Some i \<Rightarrow> miName i)"

section \<open>Evaluating files\<close>

datatype load_call =
    Builtin call
  | ResolveClosure "sval list" kwargs
  | ExtraBuiltin string "sval list" kwargs
  | SetProvides name name

record load_state =
  lsEval :: eval_state
  lsModuleRoots :: "(name, string) gomap"
  lsActiveArch :: string
  lsCtx :: "(string \<times> sval) list option"
  lsProvides :: "(name, name) gomap"

datatype ExecError =
    BuiltinFailed BuiltinError
  | ClosureArgs string
  | ClosureFailed EngineError
  | ExtraFailed string
  | ScriptFailed string

record load_world =
  lwScript :: "string \<Rightarrow> load_state \<Rightarrow> load_call list \<times> string option"
  lwExtra :: "string \<Rightarrow> sval list \<Rightarrow> kwargs \<Rightarrow> Engine \<Rightarrow> string + Engine"
  lwBig :: "int \<Rightarrow> int"
  lwTree :: "string \<Rightarrow> string list \<times> string option"
  lwStat :: "nat \<Rightarrow> string \<Rightarrow> bool"
  lwPeek :: "nat \<Rightarrow> string \<Rightarrow> (string \<times> peek_value) list list option"
  lwSync :: "nat \<Rightarrow> ModuleRef list \<Rightarrow> string option"
  lwEvalSymlinks :: "string \<Rightarrow> string option"
  lwAbs :: "string \<Rightarrow> string option"
  lwCache :: string
  lwLocal :: "(name \<times> name) option"

definition with_engine :: "(Engine \<Rightarrow> Engine) \<Rightarrow> load_state \<Rightarrow> load_state" where
  "with_engine f s = s\<lparr>lsEval := (lsEval s)\<lparr>esEngine := f (esEngine (lsEval s))\<rparr>\<rparr>"

abbreviation ls_engine :: "load_state \<Rightarrow> Engine" where
  "ls_engine s \<equiv> esEngine (lsEval s)"

definition fnResolveClosure :: "sval list \<Rightarrow> kwargs \<Rightarrow> Engine \<Rightarrow> (ExecError + Engine \<times> sval) option" where
  "fnResolveClosure args kws e =
     (case args of
        [SList items] \<Rightarrow>
          if \<not> list_all (\<lambda>v. case v of SString _ \<Rightarrow> True | _ \<Rightarrow> False) items
          then Some (Inl (ClosureArgs ''list element must be string''))
          else if kwString kws ''distro'' = [] then Some (Inl (ClosureArgs ''distro kwarg required''))
          else (case closure e (strings_of items) (kwString kws ''distro'') of
                  None \<Rightarrow> None
                | Some (Inl err) \<Rightarrow> Some (Inl (ClosureFailed err))
                | Some (Inr (e', ordered)) \<Rightarrow> Some (Inr (e', SList (map SString ordered))))
      | [_] \<Rightarrow> Some (Inl (ClosureArgs ''argument must be a list of strings''))
      | _ \<Rightarrow> Some (Inl (ClosureArgs ''takes exactly one positional argument'')))"

definition exec_load_call :: "load_world \<Rightarrow> load_call \<Rightarrow> load_state \<Rightarrow> (ExecError + load_state) option" where
  "exec_load_call w c s =
     (case c of
        Builtin b \<Rightarrow>
          (case exec_call (lwBig w) b (lsEval s) of
             Inl err \<Rightarrow> Some (Inl (BuiltinFailed err))
           | Inr es \<Rightarrow> Some (Inr (s\<lparr>lsEval := es\<rparr>)))
      | ResolveClosure args kws \<Rightarrow>
          (case fnResolveClosure args kws (ls_engine s) of
             None \<Rightarrow> None
           | Some (Inl err) \<Rightarrow> Some (Inl err)
           | Some (Inr (e, _)) \<Rightarrow> Some (Inr (with_engine (\<lambda>_. e) s)))
      | ExtraBuiltin name args kws \<Rightarrow>
          (case lwExtra w name args kws (ls_engine s) of
             Inl err \<Rightarrow> Some (Inl (ExtraFailed err))
           | Inr e \<Rightarrow> Some (Inr (with_engine (\<lambda>_. e) s)))
      | SetProvides k v \<Rightarrow> Some (Inr (s\<lparr>lsProvides := gm_put k v (lsProvides s)\<rparr>)))"

fun exec_load_calls :: "load_world \<Rightarrow> load_call list \<Rightarrow> load_state \<Rightarrow> (ExecError + load_state) option" where
  "exec_load_calls w [] s = Some (Inr s)"
| "exec_load_calls w (c # cs) s =
     (case exec_load_call w c s of
        None \<Rightarrow> None
      | Some (Inl err) \<Rightarrow> Some (Inl err)
      | Some (Inr s') \<Rightarrow> exec_load_calls w cs s')"

datatype LoadError =
    EvalFailed string ExecError
  | WalkFailed string
  | ModulesFailed WalkError
  | MachineNotFound name
  | NoProject
  | PinsInvalid PinError
  | ProvidesFailed EngineError
  | NoContainer name
  | NoContainerArch name
  | DepsFailed DepError
  | NoAbsolutePath string
  | NoProjectRoot string

definition load_bind :: "('e + 'a) option \<Rightarrow> ('a \<Rightarrow> ('e + 'b) option) \<Rightarrow> ('e + 'b) option" where
  "load_bind m f = (case m of None \<Rightarrow> None | Some (Inl err) \<Rightarrow> Some (Inl err) | Some (Inr a) \<Rightarrow> f a)"

definition ExecFile :: "load_world \<Rightarrow> string \<Rightarrow> load_state \<Rightarrow> (LoadError + load_state) option" where
  "ExecFile w path s =
     (let prev = eCurrentFile (ls_engine s);
          s1 = with_engine (\<lambda>e. e\<lparr>eCurrentFile := path\<rparr>) s;
          (calls, failed) = lwScript w path s1
      in case exec_load_calls w calls s1 of
           None \<Rightarrow> None
         | Some (Inl err) \<Rightarrow> Some (Inl (EvalFailed path err))
         | Some (Inr s2) \<Rightarrow>
             (case failed of
                Some msg \<Rightarrow> Some (Inl (EvalFailed path (ScriptFailed msg)))
              | None \<Rightarrow> Some (Inr (with_engine (\<lambda>e. e\<lparr>eCurrentFile := prev\<rparr>) s2))))"

fun exec_files :: "load_world \<Rightarrow> string list \<Rightarrow> load_state \<Rightarrow> (LoadError + load_state) option" where
  "exec_files w [] s = Some (Inr s)"
| "exec_files w (path # paths) s = load_bind (ExecFile w path s) (exec_files w paths)"

text \<open>The walk visits the files in lexical order, until the tree stops it with an error; a missing directory has none.\<close>

definition evalDir :: "load_world \<Rightarrow> string \<Rightarrow> string \<Rightarrow> load_state \<Rightarrow> (LoadError + load_state) option" where
  "evalDir w root subdir s =
     (case lwTree w (PathJoin [root, subdir]) of
        (paths, err) \<Rightarrow>
          load_bind (exec_files w (filter (\<lambda>p. HasSuffix (Base p) ''.star'') paths) s)
            (\<lambda>s'. case err of None \<Rightarrow> Some (Inr s') | Some msg \<Rightarrow> Some (Inl (WalkFailed msg))))"

definition enter_module :: "name \<Rightarrow> int \<Rightarrow> load_state \<Rightarrow> load_state" where
  "enter_module m index = with_engine (\<lambda>e. SetCurrentModule e m index)"

fun eval_modules :: "load_world \<Rightarrow> string \<Rightarrow> (name \<times> string) list \<Rightarrow> int \<Rightarrow> load_state \<Rightarrow> (LoadError + load_state) option" where
  "eval_modules w dir [] i s = Some (Inr s)"
| "eval_modules w dir ((m, path) # ms) i s =
     load_bind (evalDir w path dir (enter_module m i s)) (eval_modules w dir ms (i + 1))"

definition evalPhase :: "load_world \<Rightarrow> string \<Rightarrow> (name \<times> string) list \<Rightarrow> string \<Rightarrow> load_state \<Rightarrow> (LoadError + load_state) option" where
  "evalPhase w root modules dir s =
     load_bind (evalDir w root dir (enter_module [] (int (length modules) + 1) s)) (eval_modules w dir modules 1)"


section \<open>The stages of a load\<close>

record load_config =
  cfMachine :: name
  cfDistroOverride :: name
  cfProjectFile :: string
  cfMachinesOnly :: bool
  cfAllowDuplicateProvides :: bool

definition project_file :: "string \<Rightarrow> string \<Rightarrow> string" where
  "project_file root projectFile =
     (if projectFile = [] then PathJoin [root, ''PROJECT.star'']
      else if IsAbs projectFile then projectFile else PathJoin [root, projectFile])"

definition start_load :: "load_config \<Rightarrow> load_state" where
  "start_load cfg = \<lparr>
     lsEval = \<lparr>esEngine = NewEngine\<lparr>eAllowDuplicateProvides := cfAllowDuplicateProvides cfg\<rparr>, esModuleInfo = None, esCommands = []\<rparr>,
     lsModuleRoots = [], lsActiveArch = [], lsCtx = None, lsProvides = []\<rparr>"

definition with_project :: "(Project \<Rightarrow> Project) \<Rightarrow> load_state \<Rightarrow> load_state" where
  "with_project f = with_engine (\<lambda>e. e\<lparr>eProject := map_option f (eProject e)\<rparr>)"

abbreviation ls_project :: "load_state \<Rightarrow> Project option" where
  "ls_project s \<equiv> eProject (ls_engine s)"

text \<open>The overrides of the developer's \<^verbatim>\<open>local.star\<close>, then the flag of the invocation.\<close>

definition apply_overrides :: "load_world \<Rightarrow> load_config \<Rightarrow> string \<Rightarrow> load_state \<Rightarrow> load_state" where
  "apply_overrides w cfg root =
     with_project (\<lambda>p.
       let p1 = p\<lparr>pRoot := root\<rparr>;
           p2 = (case lwLocal w of Some (d, _) \<Rightarrow> if d \<noteq> [] then p1\<lparr>pDefaultDistroOverride := d\<rparr> else p1 | None \<Rightarrow> p1)
       in if cfDistroOverride cfg \<noteq> [] then p2\<lparr>pDefaultDistroOverride := cfDistroOverride cfg\<rparr> else p2)"

definition expand_modules :: "load_world \<Rightarrow> string \<Rightarrow> load_state \<Rightarrow> (LoadError + load_state) option" where
  "expand_modules w root s =
     (case ls_project s of
        None \<Rightarrow> Some (Inr s)
      | Some p \<Rightarrow>
          (case expandTransitiveDeps (lwEvalSymlinks w) root (lwSync w)
                  (\<lambda>i. peek_ref (lwCache w) root (lwStat w i) (\<lambda>path. peekModuleInfo (lwPeek w i path))) (pModules p) of
             Inl err \<Rightarrow> Some (Inl (ModulesFailed err))
           | Inr refs \<Rightarrow> Some (Inr (with_project (\<lambda>p. p\<lparr>pModules := refs\<rparr>) s))))"

text \<open>Every answer about the modules is now that of the time after the last round.\<close>

definition resolve_module :: "load_world \<Rightarrow> string \<Rightarrow> ModuleRef \<Rightarrow> ResolvedModule" where
  "resolve_module w root m =
     (let rm = \<lparr>rmName = pathBasename m, rmURL = mfURL m, rmRef = mfRef m, rmPath = mfPath m, rmLocal = mfLocal m,
                rmDir = [], rmCloneDir = [], rmAvailable = False\<rparr>
      in case locateModulePath (lwCache w) (lwStat w 16) m root of
           None \<Rightarrow> rm
         | Some (modulePath, cloneDir) \<Rightarrow>
             (let name = peekModuleName (peekModuleInfo (lwPeek w 16 modulePath))
              in rm\<lparr>rmName := (if name = [] then pathBasename m else name), rmDir := modulePath, rmCloneDir := cloneDir,
                    rmAvailable := True\<rparr>))"

definition resolve_modules :: "load_world \<Rightarrow> string \<Rightarrow> load_state \<Rightarrow> ResolvedModule list" where
  "resolve_modules w root s = (case ls_project s of None \<Rightarrow> [] | Some p \<Rightarrow> map (resolve_module w root) (pModules p))"

text \<open>The modules that were found on disk, with their directories.\<close>

definition module_dirs :: "ResolvedModule list \<Rightarrow> (name \<times> string) list" where
  "module_dirs rms = map (\<lambda>rm. (rmName rm, rmDir rm)) (filter rmAvailable rms)"

definition set_module_roots :: "(name \<times> string) list \<Rightarrow> load_state \<Rightarrow> load_state" where
  "set_module_roots ms s = s\<lparr>lsModuleRoots := fold (\<lambda>(m, path). gm_put m path) ms (lsModuleRoots s)\<rparr>"

definition select_machine :: "load_config \<Rightarrow> load_state \<Rightarrow> (LoadError + load_state) option" where
  "select_machine cfg s =
     (if cfMachine cfg = [] then Some (Inr s)
      else if \<not> gm_has (eMachines (ls_engine s)) (cfMachine cfg) then Some (Inl (MachineNotFound (cfMachine cfg)))
      else Some (Inr (with_project (\<lambda>p. p\<lparr>pDefaults := (pDefaults p)\<lparr>dfMachine := cfMachine cfg\<rparr>\<rparr>) s)))"

definition active_machine :: "load_state \<Rightarrow> Machine option" where
  "active_machine s =
     (case ls_project s of None \<Rightarrow> None | Some p \<Rightarrow> map_of (eMachines (ls_engine s)) (dfMachine (pDefaults p)))"

definition active_arch :: "load_state \<Rightarrow> string" where
  "active_arch s = (case active_machine s of None \<Rightarrow> ''x86_64'' | Some m \<Rightarrow> mArch m)"

definition toStarlarkStringList :: "string list \<Rightarrow> sval" where
  "toStarlarkStringList ss = SList (map SString ss)"

definition partition_value :: "Partition \<Rightarrow> sval" where
  "partition_value p = SStruct ''partition''
     ([(''label'', SString (ptLabel p)), (''type'', SString (ptType p)), (''size'', SString (ptSize p)),
       (''root'', SBool (ptRoot p))] @
      (if ptContents p \<noteq> [] then [(''contents'', toStarlarkStringList (ptContents p))] else []))"

definition kernel_value :: "KernelConfig \<Rightarrow> sval" where
  "kernel_value k = SStruct ''kernel''
     ([(''unit'', SString (kcUnit k)), (''provides'', SString (kcProvides k)), (''defconfig'', SString (kcDefconfig k)),
       (''cmdline'', SString (kcCmdline k))] @
      (if kcDistroUnit k \<noteq> [] then [(''distro_unit'', SDict (map (\<lambda>(d, u). (SString d, SString u)) (kcDistroUnit k)))] else []))"

definition buildMachineConfigStruct :: "Machine \<Rightarrow> sval" where
  "buildMachineConfigStruct m = SStruct ''machine_config''
     ([(''name'', SString (mName m)), (''arch'', SString (mArch m)), (''packages'', toStarlarkStringList (mPackages m)),
       (''partitions'', SList (map partition_value (mPartitions m)))] @
      (if mDistroPackages m \<noteq> []
       then [(''distro_packages'', SDict (map (\<lambda>(d, ps). (SString d, toStarlarkStringList ps)) (mDistroPackages m)))] else []) @
      (if kcUnit (mKernel m) \<noteq> [] \<or> kcDistroUnit (mKernel m) \<noteq> [] then [(''kernel'', kernel_value (mKernel m))] else []))"

text \<open>
  The context struct that unit and image files see. Its \<^verbatim>\<open>provides\<close> is the dictionary of the
  state, shared and not copied, and so is not among its fields here.
\<close>

definition ctx_fields :: "load_state \<Rightarrow> (string \<times> sval) list" where
  "ctx_fields s =
     (let p = (case ls_project s of None \<Rightarrow> zero_project | Some p \<Rightarrow> p) in
      [(''arch'', SString (active_arch s)), (''machine'', SString (dfMachine (pDefaults p))),
       (''project_version'', SString (pVersion p)), (''default_distro'', SString (pDefaultDistro p)),
       (''default_distro_override'', SString (pDefaultDistroOverride p))] @
      (case active_machine s of None \<Rightarrow> [] | Some m \<Rightarrow> [(''machine_config'', buildMachineConfigStruct m)]))"

definition make_ctx :: "load_state \<Rightarrow> load_state" where
  "make_ctx s =
     s\<lparr>lsProvides := (case active_machine s of
                       None \<Rightarrow> []
                     | Some m \<Rightarrow> if kcProvides (mKernel m) \<noteq> [] then [(kcProvides (mKernel m), kcUnit (mKernel m))] else []),
       lsCtx := Some (ctx_fields s), lsActiveArch := active_arch s\<rparr>"

fun eval_module_files :: "load_world \<Rightarrow> (name \<times> string) list \<Rightarrow> int \<Rightarrow> load_state \<Rightarrow> (LoadError + load_state) option" where
  "eval_module_files w [] i s = Some (Inr s)"
| "eval_module_files w ((m, path) # ms) i s =
     (let modFile = PathJoin [path, ''MODULE.star''] in
      if \<not> lwStat w 16 modFile then eval_module_files w ms (i + 1) s
      else load_bind (ExecFile w modFile (enter_module m i s)) (eval_module_files w ms (i + 1)))"

definition check_pins :: "(name \<times> string) list \<Rightarrow> load_state \<Rightarrow> (LoadError + load_state) option" where
  "check_pins ms s =
     (case ls_project s of
        None \<Rightarrow> Some (Inr s)
      | Some p \<Rightarrow>
          if pPreferModules p = [] then Some (Inr s)
          else (case preflightPreferModules (pPreferModules p)
                       (fold (\<lambda>sm. add_key (smName sm)) (eSyntheticModules (ls_engine s)) (fold (\<lambda>(m, _). add_key m) ms [])) of
                  Some err \<Rightarrow> Some (Inl (PinsInvalid err))
                | None \<Rightarrow> Some (Inr s)))"

text \<open>Virtual names, after the unit files; the table is copied to the project for the closure walk.\<close>

definition link_provides :: "load_state \<Rightarrow> (LoadError + load_state) option" where
  "link_provides s =
     (case collect_provides (ls_engine s) (lsProvides s) of
        Inl err \<Rightarrow> Some (Inl (ProvidesFailed err))
      | Inr provides \<Rightarrow> Some (Inr (with_project (\<lambda>p. p\<lparr>pProvides := provides\<rparr>) (s\<lparr>lsProvides := provides\<rparr>))))"

section \<open>After evaluation\<close>

text \<open>Feeds rank below every module, in the order they were registered.\<close>

definition assign_priorities :: "SyntheticModule list \<Rightarrow> SyntheticModule list" where
  "assign_priorities sms = map (\<lambda>(i, sm). sm\<lparr>smPriority := - int i\<rparr>) (enumerate 0 sms)"

definition claimants :: "Project \<Rightarrow> name \<Rightarrow> name list" where
  "claimants p virt = concat (map (\<lambda>(_, u). map (\<lambda>_. uName u) (filter (\<lambda>v. v = virt) (uProvides u))) (AllUnits p))"

definition duplicate_provides :: "Project \<Rightarrow> ProvidesEvent list" where
  "duplicate_provides p =
     (let virts = fold (\<lambda>(_, u). fold (\<lambda>v vs. if v = [] then vs else add_key v vs) (uProvides u)) (AllUnits p) []
      in map (\<lambda>v. \<lparr>peVirtual = v, peActive = gm_get [] (pProvides p) v,
                    peOthers = filter (\<lambda>c. c \<noteq> gm_get [] (pProvides p) v) (sort (claimants p v))\<rparr>)
           (sort (filter (\<lambda>v. 1 < length (claimants p v)) virts)))"

definition assemble :: "ResolvedModule list \<Rightarrow> load_state \<Rightarrow> (LoadError + load_state) option" where
  "assemble rms s =
     (case ls_project s of
        None \<Rightarrow> Some (Inl NoProject)
      | Some p \<Rightarrow>
          (let e = ls_engine s; synths = assign_priorities (eSyntheticModules e);
               p1 = p\<lparr>pMachines := eMachines e, pUnitsByModule := eUnitsByModule e, pResolvedModules := rms,
                      pDiagnostics := (pDiagnostics p)\<lparr>dgShadows := eShadows e\<rparr>,
                      pSyntheticModules := (if synths \<noteq> [] then synths else pSyntheticModules p),
                      pProvides := lsProvides s\<rparr>;
               p2 = p1\<lparr>pDiagnostics := (pDiagnostics p1)\<lparr>dgDuplicateProvides :=
                        dgDuplicateProvides (pDiagnostics p1) @ duplicate_provides p1\<rparr>\<rparr>
           in Some (Inr (with_engine (\<lambda>e. e\<lparr>eProject := Some p2, eSyntheticModules := synths\<rparr>) s))))"

fun check_tasks :: "(name \<times> Unit) list \<Rightarrow> LoadError option" where
  "check_tasks [] = None"
| "check_tasks ((name, u) # us) =
     (if uTasks u = [] then check_tasks us
      else if uClass u = ''container'' then check_tasks us
      else if uContainer u = [] then Some (NoContainer name)
      else if uContainerArch u = [] then Some (NoContainerArch name)
      else check_tasks us)"

definition distro_set :: "Project \<Rightarrow> catalog \<Rightarrow> name list" where
  "distro_set p cat =
     fold (\<lambda>(_, byName). fold (\<lambda>(_, u) ds. if uClass u = ''image'' \<and> uDistro u \<noteq> [] then add_key (uDistro u) ds else ds) byName) cat
       ((if pDefaultDistroOverride p \<noteq> [] then add_key (pDefaultDistroOverride p) else id)
          (if pDefaultDistro p \<noteq> [] then [pDefaultDistro p] else []))"

definition finish_project :: "load_world \<Rightarrow> Engine \<Rightarrow> Project \<Rightarrow> (LoadError + Project) option" where
  "finish_project w e p =
     (case validatePreferModules p of
        Some err \<Rightarrow> Some (Inl (PinsInvalid err))
      | None \<Rightarrow>
          (let p1 = p\<lparr>pUnitsByModule := eUnitsByModule e\<rparr>;
               p2 = p1\<lparr>pDistroViews := buildDistroViews p1\<rparr>;
               p3 = p2\<lparr>pProvidesViews := Some (buildProvidesViews p2)\<rparr>
           in Some (Inr (case lwLocal w of
                           Some (_, img) \<Rightarrow>
                             if img \<noteq> [] \<and> AnyUnit p3 img \<noteq> None
                             then p3\<lparr>pDefaults := (pDefaults p3)\<lparr>dfImage := img\<rparr>\<rparr> else p3
                         | None \<Rightarrow> p3))))"

definition finish_load :: "load_world \<Rightarrow> load_state \<Rightarrow> (LoadError + Project) option" where
  "finish_load w s =
     (case ls_project s of
        None \<Rightarrow> Some (Inl NoProject)
      | Some p \<Rightarrow>
          (case check_tasks (AllUnits p) of
             Some err \<Rightarrow> Some (Inl err)
           | None \<Rightarrow>
               (case materialize_deps (distro_set p (eUnitsByModule (ls_engine s))) (ls_engine s) of
                  None \<Rightarrow> None
                | Some (Inl err) \<Rightarrow> Some (Inl (DepsFailed err))
                | Some (Inr e) \<Rightarrow>
                    (case eProject e of None \<Rightarrow> Some (Inl NoProject) | Some p' \<Rightarrow> finish_project w e p'))))"

definition machines_only :: "ResolvedModule list \<Rightarrow> load_state \<Rightarrow> (LoadError + Project) option" where
  "machines_only rms s =
     (case ls_project s of
        None \<Rightarrow> Some (Inl NoProject)
      | Some p \<Rightarrow> Some (Inr (p\<lparr>pMachines := eMachines (ls_engine s), pResolvedModules := rms\<rparr>)))"

text \<open>From the machines on; the list of modules is known.\<close>

definition load_units :: "load_world \<Rightarrow> string \<Rightarrow> ResolvedModule list \<Rightarrow> load_state \<Rightarrow> (LoadError + load_state) option" where
  "load_units w root rms s =
     load_bind (eval_module_files w (module_dirs rms) 1 (make_ctx s)) (\<lambda>s.
     load_bind (check_pins (module_dirs rms) s) (\<lambda>s.
     load_bind (evalPhase w root (module_dirs rms) ''containers'' s) (\<lambda>s.
     load_bind (evalPhase w root (module_dirs rms) ''units'' s) (\<lambda>s.
     load_bind (link_provides s) (\<lambda>s.
     load_bind (evalPhase w root (module_dirs rms) ''images'' s) (assemble rms))))))"

definition LoadProjectFromRoot :: "load_world \<Rightarrow> load_config \<Rightarrow> string \<Rightarrow> (LoadError + Project) option" where
  "LoadProjectFromRoot w cfg root =
     load_bind (ExecFile w (project_file root (cfProjectFile cfg)) (start_load cfg)) (\<lambda>s.
     load_bind (expand_modules w root (apply_overrides w cfg root s)) (\<lambda>s.
     let rms = resolve_modules w root s; ms = module_dirs rms in
     load_bind (evalPhase w root ms ''machines'' (set_module_roots ms s)) (\<lambda>s.
     load_bind (select_machine cfg s) (\<lambda>s.
     if cfMachinesOnly cfg then machines_only rms s
     else load_bind (load_units w root rms s) (finish_load w)))))"

section \<open>Finding the project\<close>

text \<open>The walk up the directories ends at one that is its own parent.\<close>

partial_function (option) find_root :: "(string \<Rightarrow> bool) \<Rightarrow> string \<Rightarrow> string option option" where
  "find_root exists dir =
     (if exists (PathJoin [dir, ''PROJECT.star'']) then Some (Some dir)
      else if Dir dir = dir then Some None
      else find_root exists (Dir dir))"

definition FindProjectRoot :: "load_world \<Rightarrow> string \<Rightarrow> (LoadError + string) option" where
  "FindProjectRoot w startDir =
     (case lwAbs w startDir of
        None \<Rightarrow> Some (Inl (NoAbsolutePath startDir))
      | Some dir \<Rightarrow>
          (case find_root (lwStat w 0) dir of
             None \<Rightarrow> None
           | Some None \<Rightarrow> Some (Inl (NoProjectRoot startDir))
           | Some (Some root) \<Rightarrow> Some (Inr root)))"

definition LoadProject :: "load_world \<Rightarrow> load_config \<Rightarrow> string \<Rightarrow> (LoadError + Project) option" where
  "LoadProject w cfg startDir = load_bind (FindProjectRoot w startDir) (LoadProjectFromRoot w cfg)"

text \<open>The modules that the project file declares, without a load.\<close>

definition ProjectModuleRefs :: "load_world \<Rightarrow> load_config \<Rightarrow> string \<Rightarrow> (LoadError + ModuleRef list) option" where
  "ProjectModuleRefs w cfg startDir =
     load_bind (FindProjectRoot w startDir) (\<lambda>root.
     load_bind (ExecFile w (project_file root (cfProjectFile cfg)) (start_load (cfg\<lparr>cfAllowDuplicateProvides := False\<rparr>))) (\<lambda>s.
     Some (Inr (case ls_project s of None \<Rightarrow> [] | Some p \<Rightarrow> pModules p))))"

end
