(* ===== verification/LoadedProject.thy ===== *)
theory LoadedProject
  imports Loader
begin

text \<open>
  What a loaded project satisfies, whatever its files do. An invariant of the engine that the
  operations of the engine keep is kept by a whole load (locale \<open>load_invariant\<close>); it is
  interpreted on the catalog, on the machines and on the feeds. The last section follows the
  stages after the evaluation, from the engine to the project that is returned.
\<close>

section \<open>The load keeps what the engine keeps\<close>

definition extras_keep :: "(Engine \<Rightarrow> bool) \<Rightarrow> load_world \<Rightarrow> bool" where
  "extras_keep I w \<longleftrightarrow> (\<forall>f args kws e e'. lwExtra w f args kws e = Inr e' \<longrightarrow> I e \<longrightarrow> I e')"

lemma load_bind_Some: "load_bind m f = Some (Inr b) \<Longrightarrow> \<exists>a. m = Some (Inr a) \<and> f a = Some (Inr b)"
  by (auto simp: load_bind_def split: option.splits sum.splits)

definition walk_keeps :: "(Engine \<Rightarrow> bool) \<Rightarrow> Engine \<Rightarrow> EngineError + Engine \<times> graph \<Rightarrow> bool" where
  "walk_keeps I e r \<longleftrightarrow> (I e \<longrightarrow> (\<forall>e' deps. r = Inr (e', deps) \<longrightarrow> I e'))"

text \<open>Entries of a list of modules: where the evaluation of a phase stands, with its rank.\<close>

definition ranked_from :: "int \<Rightarrow> (name \<times> string) list \<Rightarrow> (name \<times> int) set" where
  "ranked_from i ms = {(fst (ms ! k), i + int k) | k. k < length ms}"

lemma ranked_from_Cons: "ranked_from i ((m, path) # ms) = insert (m, i) (ranked_from (i + 1) ms)"
proof -
  have "(\<exists>k. k < Suc (length ms) \<and> x = (fst (((m, path) # ms) ! k), i + int k)) \<longleftrightarrow>
      x = (m, i) \<or> (\<exists>k < length ms. x = (fst (ms ! k), i + 1 + int k))" for x
    unfolding less_Suc_eq_0_disj by (auto simp: add.assoc)
  then show ?thesis by (auto simp: ranked_from_def)
qed

text \<open>What the lookups of the last stage keep.\<close>

definition deps_keep :: "(Engine \<Rightarrow> bool) \<Rightarrow> Engine \<Rightarrow> DepError + Engine \<Rightarrow> bool" where
  "deps_keep I e r \<longleftrightarrow> (I e \<longrightarrow> (\<forall>e'. r = Inr e' \<longrightarrow> I e'))"

locale lookup_invariant =
  fixes I :: "Engine \<Rightarrow> bool"
  assumes lookup: "lookupOrMaterialize e x d = Inr (e', r) \<Longrightarrow> I e \<Longrightarrow> I e'"
    and realias: "I e \<Longrightarrow> I (alias_catalog e)"
begin

lemma mat_edges: "mat_edges d owner deps e a = Inr (e', a') \<Longrightarrow> I e \<Longrightarrow> I e'"
proof (induction deps arbitrary: e a)
  case (Cons dep deps)
  let ?r = "engine_resolveProvidesForDistro e dep d"
  show ?case
  proof (cases "findVisibleByName e ?r d")
    case (Some v)
    then show ?thesis using Cons by (simp add: Let_def)
  next
    case None
    then obtain e1 u where l: "lookupOrMaterialize e ?r d = Inr (e1, u)"
      and rest: "mat_edges d owner deps (alias_catalog e1) (if u \<noteq> None then Suc a else a) = Inr (e', a')"
      using Cons.prems(1) by (auto simp: Let_def split: sum.splits)
    from Cons.IH [OF rest realias [OF lookup [OF l Cons.prems(2)]]] show ?thesis .
  qed
qed simp

lemma mat_names: "mat_names d names e a = Inr (e', a') \<Longrightarrow> I e \<Longrightarrow> I e'"
proof (induction names arbitrary: e a)
  case (Cons n names)
  then show ?case using mat_edges by (fastforce split: option.splits sum.splits)
qed simp

lemma mat_pass: "mat_pass ds e a = Inr (e', a') \<Longrightarrow> I e \<Longrightarrow> I e'"
  by (induction ds e a rule: mat_pass.induct) (auto split: sum.splits dest: mat_names)

lemma materialize_deps:
  assumes "materialize_deps ds e = Some r"
  shows "deps_keep I e r"
proof (rule materialize_deps.raw_induct [where P = "\<lambda>ds. deps_keep I", OF _ assms])
  fix loop ds e r
  assume IH: "\<And>ds e r. loop ds e = Some r \<Longrightarrow> deps_keep I e r"
    and run: "(case mat_pass ds e 0 of
        Inl err \<Rightarrow> Some (Inl err)
      | Inr (e', added) \<Rightarrow> if added = 0 then Some (Inr e') else loop ds e') = Some r"
  show "deps_keep I e r"
  proof (cases "mat_pass ds e 0")
    case (Inl err)
    with run show ?thesis by (auto simp: deps_keep_def)
  next
    case (Inr q)
    obtain e1 a1 where q: "q = (e1, a1)" by (cases q)
    have e1: "I e \<longrightarrow> I e1" using mat_pass Inr q by blast
    show ?thesis
    proof (cases "a1 = 0")
      case True
      then have "r = Inr e1" using run Inr q by simp
      then show ?thesis using e1 unfolding deps_keep_def by blast
    next
      case False
      then have "deps_keep I e1 r" using run Inr q IH by simp
      then show ?thesis using e1 unfolding deps_keep_def by blast
    qed
  qed
qed

end

locale load_invariant =
  fixes I :: "Engine \<Rightarrow> bool" and entries :: "(name \<times> int) set"
  assumes lookup: "lookupOrMaterialize e x d = Inr (e', r) \<Longrightarrow> I e \<Longrightarrow> I e'"
    and unit: "register e r0 = Inr (e', u) \<Longrightarrow> unit_ok r0 \<Longrightarrow> I e \<Longrightarrow> I e'"
    and machine: "machine_ok mc \<Longrightarrow> I e \<Longrightarrow> I (e\<lparr>eMachines := gm_put (mName mc) mc (eMachines e)\<rparr>)"
    and enter: "(m, i) \<in> entries \<Longrightarrow> I e \<Longrightarrow> I (e\<lparr>eCurrentModule := m, eCurrentModuleIndex := i\<rparr>)"
    and source: "I e \<Longrightarrow> I (e\<lparr>eCurrentFile := f\<rparr>)"
    and project: "I e \<Longrightarrow> I (e\<lparr>eProject := p\<rparr>)"
    and ranking: "I e \<Longrightarrow> I (e\<lparr>eSyntheticModules := assign_priorities (eSyntheticModules e)\<rparr>)"
begin

lemma registerUnit: "registerUnit big cl kws e = Inr (e', u) \<Longrightarrow> I e \<Longrightarrow> I e'"
proof -
  assume reg: "registerUnit big cl kws e = Inr (e', u)" and e: "I e"
  then obtain extra where x: "extra_kwargs cl kws [] = Inr extra" "kwString kws ''name'' \<noteq> []" "kwString kws ''scope'' \<in> validScopes"
    "register e ((fill_unit big cl kws)\<lparr>uExtra := extra\<rparr>) = Inr (e', u)"
    by (auto simp: registerUnit_def Let_def split: if_splits sum.splits)
  have "unit_ok ((fill_unit big cl kws)\<lparr>uExtra := extra\<rparr>)"
    using extra_kwargs_ok [OF x(1)] x(2,3) by (auto simp: unit_ok_def fill_unit_fields)
  from unit [OF x(4) this e] show "I e'" .
qed

lemma builtin: "exec_call big c s = Inr s' \<Longrightarrow> I (esEngine s) \<Longrightarrow> I (esEngine s')"
  using fnProject_ok(2) fnMachine_ok
  by (cases c) (fastforce simp: exec_call_def split: sum.splits intro: project machine dest: registerUnit)+

lemma resolve_all: "resolve_all e owner d ds acc = Inr (e', res) \<Longrightarrow> I e \<Longrightarrow> I e'"
  by (induction e owner d ds acc rule: resolve_all.induct) (auto split: sum.splits option.splits dest: lookup)

lemma closure_walk:
  assumes "closure_walk e d queue deps = Some r"
  shows "walk_keeps I e r"
proof (rule closure_walk.raw_induct [where P = "\<lambda>e d queue deps. walk_keeps I e", OF _ assms])
  fix walk e d queue deps r
  assume IH: "\<And>e d queue deps r. walk e d queue deps = Some r \<Longrightarrow> walk_keeps I e r"
    and run: "(case queue of
        [] \<Rightarrow> Some (Inr (e, deps))
      | name # queue' \<Rightarrow>
          (case lookupOrMaterialize e name d of
             Inl err \<Rightarrow> Some (Inl err)
           | Inr (e', None) \<Rightarrow> Some (Inl (Unresolved name))
           | Inr (e', Some u) \<Rightarrow>
               if gm_has deps (uName u) then walk e' d queue' deps
               else (case resolve_all e' (uName u) d (RuntimeDepsForDistro u d) [] of
                       Inl err \<Rightarrow> Some (Inl err)
                     | Inr (e'', resolved) \<Rightarrow> walk e'' d (queue' @ resolved) (gm_put (uName u) resolved deps)))) = Some r"
  have step: "walk_keeps I e r" if "I e \<longrightarrow> I e1" "walk e1 d q ds = Some r" for e1 q ds
    using IH [OF that(2)] that(1) unfolding walk_keeps_def by blast
  show "walk_keeps I e r"
  proof (cases queue)
    case Nil
    then show ?thesis using run by (auto simp: walk_keeps_def)
  next
    case (Cons name queue')
    show ?thesis
    proof (cases "lookupOrMaterialize e name d")
      case (Inl err)
      then show ?thesis using run Cons by (auto simp: walk_keeps_def)
    next
      case (Inr res)
      obtain e1 ru where res: "res = (e1, ru)" by (cases res)
      have e1: "I e \<longrightarrow> I e1" using Inr res lookup by blast
      show ?thesis
      proof (cases ru)
        case None
        then show ?thesis using run Cons Inr res by (auto simp: walk_keeps_def)
      next
        case (Some u)
        show ?thesis
        proof (cases "gm_has deps (uName u)")
          case True
          then show ?thesis using run Cons Inr res Some by (intro step [OF e1]) simp
        next
          case False
          show ?thesis
          proof (cases "resolve_all e1 (uName u) d (RuntimeDepsForDistro u d) []")
            case (Inl err)
            then show ?thesis using run Cons Inr res Some False by (auto simp: walk_keeps_def)
          next
            case (Inr res2)
            obtain e2 ds where res2: "res2 = (e2, ds)" by (cases res2)
            have "I e \<longrightarrow> I e2" using e1 resolve_all Inr res2 by blast
            then show ?thesis
              by (rule step) (use run Cons \<open>lookupOrMaterialize e name d = Inr res\<close> res Some False Inr res2 in simp)
          qed
        qed
      qed
    qed
  qed
qed

lemma closure: "closure e roots d = Some (Inr (e', xs)) \<Longrightarrow> I e \<Longrightarrow> I e'"
  using closure_walk by (fastforce simp: closure_def walk_keeps_def split: if_splits option.splits sum.splits)

lemma fnResolveClosure: "fnResolveClosure args kws e = Some (Inr (e', v)) \<Longrightarrow> I e \<Longrightarrow> I e'"
  using closure by (auto simp: fnResolveClosure_def split: list.splits sval.splits if_splits option.splits sum.splits)

lemma load_call: "exec_load_call w c s = Some (Inr s') \<Longrightarrow> extras_keep I w \<Longrightarrow> I (ls_engine s) \<Longrightarrow> I (ls_engine s')"
  by (cases c) (auto simp: exec_load_call_def with_engine_def extras_keep_def split: sum.splits option.splits
      dest: builtin fnResolveClosure)

lemma load_calls: "exec_load_calls w cs s = Some (Inr s') \<Longrightarrow> extras_keep I w \<Longrightarrow> I (ls_engine s) \<Longrightarrow> I (ls_engine s')"
  by (induction w cs s rule: exec_load_calls.induct) (auto split: sum.splits option.splits dest: load_call)

lemma exec_file: "ExecFile w path s = Some (Inr s') \<Longrightarrow> extras_keep I w \<Longrightarrow> I (ls_engine s) \<Longrightarrow> I (ls_engine s')"
proof -
  let ?s = "with_engine (\<lambda>e. e\<lparr>eCurrentFile := path\<rparr>) s"
  assume run: "ExecFile w path s = Some (Inr s')" and w: "extras_keep I w" and s: "I (ls_engine s)"
  obtain calls failed where "lwScript w path ?s = (calls, failed)" by (cases "lwScript w path ?s")
  with run obtain s2 where s2: "exec_load_calls w calls ?s = Some (Inr s2)"
    and s': "s' = with_engine (\<lambda>e. e\<lparr>eCurrentFile := eCurrentFile (ls_engine s)\<rparr>) s2"
    by (auto simp: ExecFile_def Let_def split: sum.splits option.splits)
  have "I (ls_engine ?s)" using s by (simp add: with_engine_def source)
  from load_calls [OF s2 w this] s' show "I (ls_engine s')" by (simp add: with_engine_def source)
qed

lemma exec_files: "exec_files w paths s = Some (Inr s') \<Longrightarrow> extras_keep I w \<Longrightarrow> I (ls_engine s) \<Longrightarrow> I (ls_engine s')"
  by (induction w paths s rule: exec_files.induct) (auto dest!: load_bind_Some dest: exec_file)

lemma eval_dir: "evalDir w root dir s = Some (Inr s') \<Longrightarrow> extras_keep I w \<Longrightarrow> I (ls_engine s) \<Longrightarrow> I (ls_engine s')"
  by (auto simp: evalDir_def split: prod.splits option.splits dest!: load_bind_Some dest: exec_files)

lemma entered: "(m, i) \<in> entries \<Longrightarrow> I (ls_engine s) \<Longrightarrow> I (ls_engine (enter_module m i s))"
  by (simp add: enter_module_def with_engine_def SetCurrentModule_def enter)

lemma modules: "eval_modules w dir ms i s = Some (Inr s') \<Longrightarrow> extras_keep I w \<Longrightarrow> ranked_from i ms \<subseteq> entries \<Longrightarrow>
    I (ls_engine s) \<Longrightarrow> I (ls_engine s')"
  by (induction w dir ms i s rule: eval_modules.induct)
    (auto simp: ranked_from_Cons dest!: load_bind_Some dest: eval_dir entered)

lemma phase: "evalPhase w root ms dir s = Some (Inr s') \<Longrightarrow> extras_keep I w \<Longrightarrow>
    insert ([], int (length ms) + 1) (ranked_from 1 ms) \<subseteq> entries \<Longrightarrow> I (ls_engine s) \<Longrightarrow> I (ls_engine s')"
  by (auto simp: evalPhase_def dest!: load_bind_Some dest: eval_dir entered intro: modules)

lemma module_files: "eval_module_files w ms i s = Some (Inr s') \<Longrightarrow> extras_keep I w \<Longrightarrow> ranked_from i ms \<subseteq> entries \<Longrightarrow>
    I (ls_engine s) \<Longrightarrow> I (ls_engine s')"
  by (induction w ms i s rule: eval_module_files.induct)
    (auto simp: ranked_from_Cons Let_def split: if_splits dest!: load_bind_Some dest: exec_file entered)

lemma machines_phase:
  assumes "ExecFile w path s = Some (Inr s1)" and "expand_modules w root (apply_overrides w cfg root s1) = Some (Inr s2)"
    and "evalPhase w root ms ''machines'' (set_module_roots ms s2) = Some (Inr s3)" and "select_machine cfg s3 = Some (Inr s4)"
    and "extras_keep I w" and "insert ([], int (length ms) + 1) (ranked_from 1 ms) \<subseteq> entries" and "I (ls_engine s)"
  shows "I (ls_engine s4)"
proof -
  note p = with_project_def with_engine_def
  have "I (ls_engine s1)" using exec_file assms by blast
  then have "I (ls_engine (apply_overrides w cfg root s1))" by (simp add: apply_overrides_def p project)
  then have "I (ls_engine s2)" using assms(2) by (auto simp: expand_modules_def p split: option.splits sum.splits intro: project)
  then have "I (ls_engine (set_module_roots ms s2))" by (simp add: set_module_roots_def)
  then have "I (ls_engine s3)" using phase assms by blast
  then show ?thesis using assms(4) by (auto simp: select_machine_def p split: if_splits intro: project)
qed

lemma assembled: "assemble rms s = Some (Inr s') \<Longrightarrow> I (ls_engine s) \<Longrightarrow> I (ls_engine s')"
proof -
  assume a: "assemble rms s = Some (Inr s')" and s: "I (ls_engine s)"
  obtain q where "s' = with_engine (\<lambda>e. e\<lparr>eProject := q, eSyntheticModules := assign_priorities (eSyntheticModules (ls_engine s))\<rparr>) s"
    using a by (auto simp: assemble_def Let_def split: option.splits)
  moreover have "e\<lparr>eProject := q, eSyntheticModules := x\<rparr> = e\<lparr>eSyntheticModules := x, eProject := q\<rparr>" for e :: Engine and x by simp
  ultimately show "I (ls_engine s')" using project [OF ranking [OF s]] by (simp add: with_engine_def)
qed

lemma units_phase:
  assumes "load_units w root rms s = Some (Inr s')" and "extras_keep I w"
    and "insert ([], int (length (module_dirs rms)) + 1) (ranked_from 1 (module_dirs rms)) \<subseteq> entries" and "I (ls_engine s)"
  shows "I (ls_engine s')"
proof -
  let ?ms = "module_dirs rms"
  obtain s1 s2 s3 s4 s5 s6 where r: "eval_module_files w ?ms 1 (make_ctx s) = Some (Inr s1)" "check_pins ?ms s1 = Some (Inr s2)"
    "evalPhase w root ?ms ''containers'' s2 = Some (Inr s3)" "evalPhase w root ?ms ''units'' s3 = Some (Inr s4)"
    "link_provides s4 = Some (Inr s5)" "evalPhase w root ?ms ''images'' s5 = Some (Inr s6)" "assemble rms s6 = Some (Inr s')"
    using assms(1) unfolding load_units_def by (auto dest!: load_bind_Some)
  have "I (ls_engine (make_ctx s))" using assms(4) by (simp add: make_ctx_def)
  then have "I (ls_engine s1)" using module_files [OF r(1) assms(2)] assms(3) by blast
  then have "I (ls_engine s2)" using r(2) by (auto simp: check_pins_def split: option.splits if_splits)
  then have "I (ls_engine s4)" using phase [OF r(3) assms(2,3)] phase [OF r(4) assms(2,3)] by blast
  then have "I (ls_engine s5)"
    using r(5) by (auto simp: link_provides_def with_project_def with_engine_def split: sum.splits intro: project)
  then have "I (ls_engine s6)" using phase [OF r(6) assms(2,3)] by blast
  with assembled [OF r(7)] show ?thesis .
qed

end

sublocale load_invariant \<subseteq> deps: lookup_invariant I
  by unfold_locales (auto simp: alias_catalog_def intro: lookup project)

section \<open>The catalog\<close>

definition ranked_unit :: "(name \<times> int) set \<Rightarrow> Unit \<Rightarrow> bool" where
  "ranked_unit es u \<longleftrightarrow> unit_ok u \<and> (uModuleIndex u \<le> 0 \<or> (uModule u, uModuleIndex u) \<in> es)"

definition filed :: "(name \<times> int) set \<Rightarrow> Engine \<Rightarrow> bool" where
  "filed es e \<longleftrightarrow> units_all (ranked_unit es) e \<and> catalog_ok e \<and> (\<forall>(m, b) \<in> set (eUnitsByModule e). gm_ok b) \<and>
     (eCurrentModuleIndex e \<le> 0 \<or> (eCurrentModule e, eCurrentModuleIndex e) \<in> es)"

lemma module_unit_update [simp]:
  "module_unit (e\<lparr>eMachines := a\<rparr>) = module_unit e" "module_unit (e\<lparr>eProject := b\<rparr>) = module_unit e"
  "module_unit (e\<lparr>eCurrentModule := c\<rparr>) = module_unit e" "module_unit (e\<lparr>eCurrentModuleIndex := d\<rparr>) = module_unit e"
  "module_unit (e\<lparr>eCurrentFile := f\<rparr>) = module_unit e" "module_unit (e\<lparr>eSyntheticModules := g\<rparr>) = module_unit e"
  by (simp_all add: module_unit_def fun_eq_iff)

lemma filed_store:
  assumes "filed es e" and "ranked_unit es u"
  shows "filed es (storeByModule e u)" "filed es (storeByModule (e\<lparr>eUnits := gm_put n u (eUnits e)\<rparr>) u)"
proof -
  have gm: "\<forall>(m, b) \<in> set (eUnitsByModule (storeByModule e u)). gm_ok b"
    using gm_ok_stored assms(1) unfolding filed_def by blast
  have frame: "eCurrentModule (storeByModule e' u) = eCurrentModule e'" "eCurrentModuleIndex (storeByModule e' u) = eCurrentModuleIndex e'" for e'
    by (simp_all add: storeByModule_def)
  from gm assms show "filed es (storeByModule e u)"
    by (simp add: filed_def frame units_all_store catalog_ok_store)
  have "units_all (ranked_unit es) (storeByModule (e\<lparr>eUnits := gm_put n u (eUnits e)\<rparr>) u)"
    using assms by (intro units_all_store units_all_put) (simp_all add: filed_def)
  moreover have "catalog_ok (storeByModule (e\<lparr>eUnits := gm_put n u (eUnits e)\<rparr>) u)"
    using assms by (simp add: filed_def catalog_ok_def)
  ultimately show "filed es (storeByModule (e\<lparr>eUnits := gm_put n u (eUnits e)\<rparr>) u)"
    using gm assms by (simp add: filed_def frame)
qed

lemma filed_frame [simp]:
  "filed es (e\<lparr>eMachines := a\<rparr>) = filed es e" "filed es (e\<lparr>eProject := b\<rparr>) = filed es e"
  "filed es (e\<lparr>eCurrentFile := f\<rparr>) = filed es e" "filed es (e\<lparr>eShadows := s\<rparr>) = filed es e"
  by (simp_all add: filed_def units_all_def catalog_ok_def)

lemma unit_ok_feed [simp]: "unit_ok (stamp_feed_unit sm u) = unit_ok u"
  by (simp add: unit_ok_def stamp_feed_unit_def)

lemma units_all_priorities:
  assumes "units_all (ranked_unit es) e"
  shows "units_all (ranked_unit es) (e\<lparr>eSyntheticModules := assign_priorities (eSyntheticModules e)\<rparr>)"
proof -
  have "ranked_unit es (stamp_feed_unit (sm\<lparr>smPriority := - int i\<rparr>) u)" if "unit_ok u" for sm i u
    using that by (simp add: ranked_unit_def) (simp add: stamp_feed_unit_def)
  moreover have "unit_ok u" if "sm \<in> set (eSyntheticModules e)" "feed_lookup sm n = Inr (Some u)" for sm n u
    using assms that by (auto simp: units_all_def ranked_unit_def)
  moreover have lookup: "feed_lookup (sm\<lparr>smPriority := i\<rparr>) = feed_lookup sm" for sm i by (simp add: feed_lookup_def fun_eq_iff)
  ultimately have "ranked_unit es (stamp_feed_unit ((eSyntheticModules e ! i)\<lparr>smPriority := - int i\<rparr>) u)"
    if "i < length (eSyntheticModules e)" "feed_lookup (eSyntheticModules e ! i) n = Inr (Some u)" for i n u
    using that nth_mem by blast
  with assms lookup show ?thesis by (auto simp: units_all_def assign_priorities_def in_set_enumerate_eq)
qed

interpretation catalog: load_invariant "filed es" es for es
proof unfold_locales
  fix e e' :: Engine and x d r
  assume l: "lookupOrMaterialize e x d = Inr (e', r)" and e: "filed es e"
  show "filed es e'"
  proof (cases r)
    case None
    with lookup_cases [OF l refl] e show ?thesis by simp
  next
    case (Some v)
    have "ranked_unit es v" using lookupOrMaterialize_units_all [OF l, of "ranked_unit es"] e Some by (simp add: filed_def)
    with lookup_cases [OF l refl] e Some filed_store show ?thesis by fastforce
  qed
next
  fix e e' :: Engine and r u
  assume r: "register e r = Inr (e', u)" "unit_ok r" and e: "filed es e"
  have ranked: "ranked_unit es (stamp_unit e r)"
    using e r(2) by (auto simp: ranked_unit_def filed_def) (simp_all add: stamp_unit_def)
  have "storeByModule (e\<lparr>eShadows := s, eUnits := us\<rparr>) v = (storeByModule (e\<lparr>eUnits := us\<rparr>) v)\<lparr>eShadows := s\<rparr>" for s us v
    by (simp add: storeByModule_def)
  then show "filed es e'"
    using register_result [OF r(1)] filed_store [OF e ranked] e by (elim disjE exE) simp_all
next
  fix e :: Engine and m i
  assume "(m, i) \<in> es" and "filed es e"
  then show "filed es (e\<lparr>eCurrentModule := m, eCurrentModuleIndex := i\<rparr>)"
    by (simp add: filed_def units_all_def catalog_ok_def)
next
  fix e :: Engine
  assume "filed es e"
  then show "filed es (e\<lparr>eSyntheticModules := assign_priorities (eSyntheticModules e)\<rparr>)"
    by (simp add: filed_def catalog_ok_def units_all_priorities)
qed simp_all

section \<open>The machines\<close>

definition machines_filed :: "Engine \<Rightarrow> bool" where
  "machines_filed e \<longleftrightarrow> (\<forall>n m. map_of (eMachines e) n = Some m \<longrightarrow> mName m = n \<and> machine_ok m)"

interpretation machines: load_invariant machines_filed UNIV
proof unfold_locales
  fix e e' :: Engine and x d r
  assume l: "lookupOrMaterialize e x d = Inr (e', r)" and e: "machines_filed e"
  show "machines_filed e'"
    using lookup_cases [OF l refl] e by (cases r) (auto simp: machines_filed_def storeByModule_def)
next
  fix e e' :: Engine and r u
  assume "register e r = Inr (e', u)" and "machines_filed e"
  then show "machines_filed e'" by (simp add: machines_filed_def register_frame)
qed (simp_all add: machines_filed_def)

section \<open>From the engine to the project\<close>

text \<open>What the last stage leaves alone: all of the engine but its catalog of units.\<close>

definition frame :: "Engine \<Rightarrow> (name, Machine) gomap \<times> SyntheticModule list \<times> Project option" where
  "frame e = (eMachines e, eSyntheticModules e, map_option (\<lambda>p. p\<lparr>pUnitsByModule := []\<rparr>) (eProject e))"

interpretation frame: lookup_invariant "\<lambda>e. frame e = c" for c
proof unfold_locales
  fix e e' :: Engine and x d r
  assume l: "lookupOrMaterialize e x d = Inr (e', r)" and e: "frame e = c"
  show "frame e' = c"
    using lookup_cases [OF l refl] e by (cases r) (auto simp: frame_def storeByModule_def)
next
  fix e :: Engine
  assume "frame e = c"
  then show "frame (alias_catalog e) = c" by (auto simp: frame_def alias_catalog_def option.map_comp comp_def)
qed

lemma load_runs:
  assumes "LoadProjectFromRoot w cfg root = Some (Inr p)" and "\<not> cfMachinesOnly cfg"
  obtains s1 s2 s3 s4 s5 rms where "rms = resolve_modules w root s2"
    "ExecFile w (project_file root (cfProjectFile cfg)) (start_load cfg) = Some (Inr s1)"
    "expand_modules w root (apply_overrides w cfg root s1) = Some (Inr s2)"
    "evalPhase w root (module_dirs rms) ''machines'' (set_module_roots (module_dirs rms) s2) = Some (Inr s3)"
    "select_machine cfg s3 = Some (Inr s4)" "load_units w root rms s4 = Some (Inr s5)" "finish_load w s5 = Some (Inr p)"
  using assms unfolding LoadProjectFromRoot_def Let_def by (auto dest!: load_bind_Some)

text \<open>The project at the end of the evaluation shares the catalog of the engine and its machines.\<close>

lemma load_units_project:
  assumes "load_units w root rms s = Some (Inr s')"
  shows "\<exists>p. ls_project s' = Some p \<and> pUnitsByModule p = eUnitsByModule (ls_engine s') \<and> pMachines p = eMachines (ls_engine s') \<and>
    pResolvedModules p = rms"
proof -
  obtain s6 where "assemble rms s6 = Some (Inr s')" using assms unfolding load_units_def by (auto dest!: load_bind_Some)
  then show ?thesis by (auto simp: assemble_def with_engine_def Let_def split: option.splits)
qed

text \<open>The end of a load: the engine after the last stage, and the project made of it.\<close>

lemma finish_runs:
  assumes "finish_load w s = Some (Inr p)" and "ls_project s = Some p0" and "pUnitsByModule p0 = eUnitsByModule (ls_engine s)"
  obtains e where "materialize_deps (distro_set p0 (eUnitsByModule (ls_engine s))) (ls_engine s) = Some (Inr e)" "aliased (ls_engine s)"
    "aliased e" "frame e = frame (ls_engine s)" "eProject e = Some (p0\<lparr>pUnitsByModule := eUnitsByModule e\<rparr>)"
    "finish_project w e (p0\<lparr>pUnitsByModule := eUnitsByModule e\<rparr>) = Some (Inr p)" "check_tasks (AllUnits p0) = None"
proof -
  obtain e q where m: "materialize_deps (distro_set p0 (eUnitsByModule (ls_engine s))) (ls_engine s) = Some (Inr e)"
    and q: "eProject e = Some q" "finish_project w e q = Some (Inr p)" "check_tasks (AllUnits p0) = None"
    using assms(1,2) by (auto simp: finish_load_def split: option.splits sum.splits)
  have al: "aliased (ls_engine s)"
  proof -
    have "p0\<lparr>pUnitsByModule := eUnitsByModule (ls_engine s)\<rparr> = p0" using assms(3) by simp
    then show ?thesis using assms(2) by (simp add: aliased_def alias_catalog_def)
  qed
  have al': "aliased e" using materialize_deps_last [OF m] al by (simp add: deps_result_def)
  have fr: "frame e = frame (ls_engine s)" using frame.materialize_deps [OF m] by (simp add: deps_keep_def)
  then have "q\<lparr>pUnitsByModule := []\<rparr> = p0\<lparr>pUnitsByModule := []\<rparr>" using q(1) assms(2) by (simp add: frame_def)
  then have "q\<lparr>pUnitsByModule := []\<rparr>\<lparr>pUnitsByModule := eUnitsByModule e\<rparr> = p0\<lparr>pUnitsByModule := []\<rparr>\<lparr>pUnitsByModule := eUnitsByModule e\<rparr>"
    by (rule arg_cong)
  moreover have "q\<lparr>pUnitsByModule := eUnitsByModule e\<rparr> = q"
  proof -
    have "Some (q\<lparr>pUnitsByModule := eUnitsByModule e\<rparr>) = eProject (alias_catalog e)" using q(1) by (simp add: alias_catalog_def)
    then show ?thesis using al' q(1) by (simp add: aliased_def)
  qed
  ultimately have "q = p0\<lparr>pUnitsByModule := eUnitsByModule e\<rparr>" by simp
  with that m al al' fr q show thesis by blast
qed

lemma finish_project_fields:
  assumes "finish_project w e p0 = Some (Inr p)"
  shows "pUnitsByModule p = eUnitsByModule e" "pMachines p = pMachines p0" "pResolvedModules p = pResolvedModules p0"
    "pDefaultDistro p = pDefaultDistro p0" "pDefaultDistroOverride p = pDefaultDistroOverride p0"
    "pDistroViews p = buildDistroViews p" "validatePreferModules p = None"
proof -
  let ?p1 = "p0\<lparr>pUnitsByModule := eUnitsByModule e\<rparr>"
  let ?p2 = "?p1\<lparr>pDistroViews := buildDistroViews ?p1\<rparr>"
  obtain d where v: "validatePreferModules p0 = None"
    and p: "p = ?p2\<lparr>pProvidesViews := Some (buildProvidesViews ?p2), pDefaults := d\<rparr>"
  proof -
    have "\<exists>d. p = ?p2\<lparr>pProvidesViews := Some (buildProvidesViews ?p2), pDefaults := d\<rparr>"
      using assms by (auto simp: finish_project_def Let_def split: option.splits if_splits intro!: Project.equality)
    with that show thesis using assms by (auto simp: finish_project_def split: option.splits)
  qed
  show "pUnitsByModule p = eUnitsByModule e" "pMachines p = pMachines p0" "pResolvedModules p = pResolvedModules p0"
    "pDefaultDistro p = pDefaultDistro p0" "pDefaultDistroOverride p = pDefaultDistroOverride p0" using p by simp_all
  have res: "resolveForDistro p = resolveForDistro ?p1"
    using p by (simp add: resolveForDistro_def pinned_unit_def fun_eq_iff cong: option.case_cong if_cong)
  have all: "AllUnits p = AllUnits ?p1" using p by (simp add: AllUnits_def)
  have "distro_view p = distro_view ?p1" by (simp add: distro_view_def all_names_def res all fun_eq_iff)
  moreover have "view_distros p = view_distros ?p1" using p by (simp add: view_distros_def AllUnits_def)
  ultimately show "pDistroViews p = buildDistroViews p" using p by (simp add: buildDistroViews_def)
  have "validatePreferModules p = validatePreferModules p0" using p by (simp add: validatePreferModules_def)
  with v show "validatePreferModules p = None" by simp
qed

section \<open>Properties\<close>

text \<open>
  The two feed builtins register one feed when they succeed, at priority zero; the units that
  the feed makes are well-formed.
\<close>

definition extras_register :: "load_world \<Rightarrow> bool" where
  "extras_register w \<longleftrightarrow>
     (\<forall>f args kws e e'. lwExtra w f args kws e = Inr e' \<longrightarrow>
        (\<exists>sm. RegisterSyntheticModule e (Some sm) = Inr e' \<and> smPriority sm = 0 \<and>
           (\<forall>n u. feed_lookup sm n = Inr (Some u) \<longrightarrow> unit_ok u)))"

lemma RegisterSyntheticModule_result: "RegisterSyntheticModule e (Some sm) = Inr e' \<Longrightarrow> e' = e\<lparr>eSyntheticModules := eSyntheticModules e @ [sm]\<rparr>"
  by (auto simp: RegisterSyntheticModule_def split: if_splits)

lemma extras_filed: "extras_register w \<Longrightarrow> extras_keep (filed es) w"
proof -
  have "filed es (e\<lparr>eSyntheticModules := eSyntheticModules e @ [sm]\<rparr>)"
    if "filed es e" "smPriority sm = 0" "\<forall>n u. feed_lookup sm n = Inr (Some u) \<longrightarrow> unit_ok u" for e sm
  proof -
    have "ranked_unit es (stamp_feed_unit sm u)" if "feed_lookup sm n = Inr (Some u)" for n u
      using \<open>smPriority sm = 0\<close> \<open>\<forall>n u. _ n u\<close> that by (auto simp: ranked_unit_def) (simp add: stamp_feed_unit_def)
    then show ?thesis using that(1) by (auto simp: filed_def units_all_def catalog_ok_def)
  qed
  then show "extras_register w \<Longrightarrow> extras_keep (filed es) w"
    unfolding extras_register_def extras_keep_def using RegisterSyntheticModule_result by blast
qed

lemma extras_machines: "extras_register w \<Longrightarrow> extras_keep machines_filed w"
  unfolding extras_register_def extras_keep_def using RegisterSyntheticModule_result by (fastforce simp: machines_filed_def)


lemma default_distros: "pDefaultDistro p \<noteq> [] \<Longrightarrow> pDefaultDistro p \<in> set (distro_set p cat)"
    "pDefaultDistroOverride p \<noteq> [] \<Longrightarrow> pDefaultDistroOverride p \<in> set (distro_set p cat)"
proof -
  have inner: "x \<in> set ds \<Longrightarrow> x \<in> set (fold (\<lambda>(_, u) ds. if uClass u = ''image'' \<and> uDistro u \<noteq> [] then add_key (uDistro u) ds else ds) us ds)" for x ds us
    by (induction us arbitrary: ds) auto
  have outer: "x \<in> set ds \<Longrightarrow> x \<in> set (fold (\<lambda>(_, byName). fold (\<lambda>(_, u) ds. if uClass u = ''image'' \<and> uDistro u \<noteq> [] then add_key (uDistro u) ds else ds) byName) cat ds)" for x ds
    by (induction cat arbitrary: ds) (auto dest: inner)
  show "pDefaultDistro p \<noteq> [] \<Longrightarrow> pDefaultDistro p \<in> set (distro_set p cat)"
    "pDefaultDistroOverride p \<noteq> [] \<Longrightarrow> pDefaultDistroOverride p \<in> set (distro_set p cat)"
    unfolding distro_set_def by (rule outer, simp)+
qed

text \<open>
  In a project that loads, the dependencies of every unit of the flat catalog are settled for
  the default distro and its override: the distro sees the unit that the dependency resolves
  to, or the lookup finds none. The table of pins names modules that exist only, and lookups by
  distro agree with the resolution of pins and ranks for every distro that has a view.
\<close>

theorem loaded_dependencies:
  assumes "LoadProjectFromRoot w cfg root = Some (Inr p)" and "\<not> cfMachinesOnly cfg"
  shows "\<exists>e. eUnitsByModule e = pUnitsByModule p \<and>
       (\<forall>d n u dep. d \<in> {pDefaultDistro p, pDefaultDistroOverride p} - {[]} \<longrightarrow> n \<in> set (gm_keys (eUnits e)) \<longrightarrow>
          findVisibleByName e n d = Some u \<longrightarrow> dep \<in> set (DepsForDistro u d) \<union> set (RuntimeDepsForDistro u d) \<longrightarrow> settled_dep e d dep) \<and>
       validatePreferModules p = None \<and>
       (\<forall>d \<in> set (view_distros p). \<forall>n. LookupUnit p d n = resolveForDistro p d n)"
proof -
  obtain s4 s5 rms where run: "load_units w root rms s4 = Some (Inr s5)" "finish_load w s5 = Some (Inr p)"
    using load_runs [OF assms] by metis
  obtain p0 where p0: "ls_project s5 = Some p0" "pUnitsByModule p0 = eUnitsByModule (ls_engine s5)"
    using load_units_project [OF run(1)] by blast
  obtain e where e: "materialize_deps (distro_set p0 (eUnitsByModule (ls_engine s5))) (ls_engine s5) = Some (Inr e)"
    "aliased (ls_engine s5)" "finish_project w e (p0\<lparr>pUnitsByModule := eUnitsByModule e\<rparr>) = Some (Inr p)"
    using finish_runs [OF run(2) p0] by metis
  note p = finish_project_fields [OF e(3)]
  have "LookupUnit p d n = resolveForDistro p d n" if "d \<in> set (view_distros p)" for d n
    using that p(6) by (simp add: LookupUnit_def map_of_buildDistroViews map_of_distro_view split: option.splits)
  moreover have "settled_dep e d dep"
    if "d \<in> {pDefaultDistro p, pDefaultDistroOverride p} - {[]}" "n \<in> set (gm_keys (eUnits e))"
      "findVisibleByName e n d = Some u" "dep \<in> set (DepsForDistro u d) \<union> set (RuntimeDepsForDistro u d)" for d n u dep
  proof -
    have "d \<in> set (distro_set p0 (eUnitsByModule (ls_engine s5)))" using that(1) p(4,5) default_distros [of p0] by auto
    from materialize_deps_settled [OF e(1,2) this that(2-4)] show ?thesis .
  qed
  ultimately show ?thesis using p(1,7) by (intro exI [of _ e]) auto
qed

section \<open>A concrete load\<close>

text \<open>A project with one unit file, one machine file, and a feed that has the dependency of the unit.\<close>

definition ex_world :: load_world where
  "ex_world = \<lparr>
     lwScript = (\<lambda>path s.
       if path = ''/p/PROJECT.star'' then
         ([Builtin (CallProject [(''name'', SString ''demo''),
             (''defaults'', SStruct ''defaults'' [(''machine'', SString ''qemu''), (''distro'', SString ''debian'')])])], None)
       else if path = ''/p/machines/qemu.star'' then
         ([Builtin (CallMachine [(''name'', SString ''qemu''), (''arch'', SString ''arm64'')])], None)
       else ([ExtraBuiltin ''apt_feed'' [] [], Builtin (CallUnit [(''name'', SString ''app''), (''deps'', SList [SString ''zlib''])])], None)),
     lwExtra = (\<lambda>f args kws e. map_sum (\<lambda>_. f) id (RegisterSyntheticModule e (Some (ex_feed ''debian.main'' ''debian'' [''zlib''])))),
     lwBig = id,
     lwTree = (\<lambda>dir. (if dir = ''/p/machines'' then [''/p/machines/qemu.star''] else if dir = ''/p/units'' then [''/p/units/app.star''] else [], None)),
     lwStat = (\<lambda>_ _. False), lwPeek = (\<lambda>_ _. None), lwSync = (\<lambda>_ _. None), lwEvalSymlinks = (\<lambda>_. None), lwAbs = Some, lwCache = [], lwLocal = None\<rparr>"

definition ex_config :: load_config where
  "ex_config = \<lparr>cfMachine = [], cfDistroOverride = [], cfProjectFile = [], cfMachinesOnly = False, cfAllowDuplicateProvides = False\<rparr>"

definition load_summary :: "Project \<Rightarrow> (name \<times> name \<times> int) list \<times> name list \<times> name list" where
  "load_summary p = (map (\<lambda>(n, u). (n, uModule u, uModuleIndex u)) (AllUnits p), gm_keys (pMachines p), view_distros p)"

lemma ex_load: "map_option (map_sum (\<lambda>_. ()) load_summary) (LoadProjectFromRoot ex_world ex_config ''/p'') =
    Some (Inr ([(''app'', [], 1), (''zlib'', ''debian.main'', 0)], [''qemu''], [''debian'']))"
  by code_simp

lemma ex_loaded: obtains p where "LoadProjectFromRoot ex_world ex_config ''/p'' = Some (Inr p)"
    "map (\<lambda>(n, u). (n, uModule u, uModuleIndex u)) (AllUnits p) = [(''app'', [], 1), (''zlib'', ''debian.main'', 0)]"
    "gm_keys (pMachines p) = [''qemu'']" "view_distros p = [''debian'']"
proof -
  obtain p where "LoadProjectFromRoot ex_world ex_config ''/p'' = Some (Inr p)"
    "load_summary p = ([(''app'', [], 1), (''zlib'', ''debian.main'', 0)], [''qemu''], [''debian''])"
    using ex_load by (cases "LoadProjectFromRoot ex_world ex_config ''/p''") (auto simp: map_sum_def split: sum.splits)
  with that show thesis by (simp add: load_summary_def)
qed

lemma ex_world_extras: "extras_register ex_world"
proof -
  let ?sm = "ex_feed ''debian.main'' ''debian'' [''zlib'']"
  have "unit_ok u" if "feed_lookup ?sm n = Inr (Some u)" for n u
    using that by (auto simp: ex_feed_def feed_lookup_def unit_ok_def zero_unit_def validScopes_def split: if_splits)
  moreover have "smPriority ?sm = 0" by (simp add: ex_feed_def)
  ultimately show ?thesis unfolding extras_register_def
    by (auto simp: ex_world_def map_sum_def split: sum.splits intro!: exI [of _ ?sm])
qed


theorem loaded_dependencies_witness:
  "\<exists>p (e :: Engine). LoadProjectFromRoot ex_world ex_config ''/p'' = Some (Inr p) \<and> eUnitsByModule e = pUnitsByModule p \<and>
     map fst (AllUnits p) = [''app'', ''zlib''] \<and> LookupUnit p ''debian'' ''app'' = resolveForDistro p ''debian'' ''app''"
proof -
  obtain p where p: "LoadProjectFromRoot ex_world ex_config ''/p'' = Some (Inr p)" "view_distros p = [''debian'']"
    "map (\<lambda>(n, u). (n, uModule u, uModuleIndex u)) (AllUnits p) = [(''app'', [], 1), (''zlib'', ''debian.main'', 0)]"
    by (rule ex_loaded)
  have full: "\<not> cfMachinesOnly ex_config" by (simp add: ex_config_def)
  obtain e :: Engine where e: "eUnitsByModule e = pUnitsByModule p"
    "\<forall>d \<in> set (view_distros p). \<forall>n. LookupUnit p d n = resolveForDistro p d n"
    using loaded_dependencies [OF p(1) full] by blast
  from arg_cong [OF p(3), of "map fst"] have "map fst (AllUnits p) = [''app'', ''zlib'']"
    by (simp add: comp_def case_prod_beta)
  with e p(1,2) show ?thesis by (intro exI [of _ p] exI [of _ e]) simp
qed

end
