(* ===== verification/Loads.thy ===== *)
theory Loads
  imports Paths
begin

text \<open>
  The \<^verbatim>\<open>load\<close> statement of \<^verbatim>\<open>.star\<close> files (\<^verbatim>\<open>internal/starlark/load.go\<close>, \<^verbatim>\<open>ExecFile\<close> of
  \<^verbatim>\<open>engine.go\<close>): how a reference resolves to a path, and how the cache of loaded files is kept.
  A file is its list of top-level statements, since Starlark has no top-level control flow;
  what the statements other than loads do is a parameter.
\<close>

section \<open>Paths of references\<close>

datatype LoadPathError = InvalidReference string | UnknownModule name string | NoRoot string string

text \<open>The first root that holds the file; Go ranges over a map, so the order of the roots is open.\<close>

fun rootForFile :: "(string \<Rightarrow> string) \<Rightarrow> (name \<times> string) list \<Rightarrow> string \<Rightarrow> string \<Rightarrow> string" where
  "rootForFile absPath [] projectRoot src = projectRoot"
| "rootForFile absPath ((_, root) # roots) projectRoot src =
     (if HasPrefix (absPath src) (absPath root @ ''/'') then absPath root else rootForFile absPath roots projectRoot src)"

definition resolveLoadPath ::
  "(string \<Rightarrow> string) \<Rightarrow> (name \<times> string) list \<Rightarrow> string \<Rightarrow> string \<Rightarrow> string \<Rightarrow> LoadPathError + string" where
  "resolveLoadPath absPath roots projectRoot fromFile m =
     (if HasPrefix m ''@'' then
        (case Index m ''//'' of
           None \<Rightarrow> Inl (InvalidReference m)
         | Some idx \<Rightarrow>
             (let moduleName = take (idx - 1) (drop 1 m); relPath = drop (idx + 2) m in
              case map_of roots moduleName of
                None \<Rightarrow> Inl (UnknownModule moduleName m)
              | Some root \<Rightarrow> Inr (PathJoin [root, relPath])))
      else if HasPrefix m ''//'' then
        (let root = rootForFile absPath roots projectRoot fromFile in
         if root = [] then Inl (NoRoot m fromFile) else Inr (PathJoin [root, drop 2 m]))
      else Inr (PathJoin [Dir fromFile, m]))"

section \<open>Running files\<close>

datatype 'a stmt = Effect 'a | LoadStmt string | FailStmt string

datatype RunError = Unreadable string | ScriptError string | BadPath LoadPathError | Loading string RunError

text \<open>
  A slot of the cache is reserved while its file runs. A load that finds it reserved reads the
  fields of a null result, which ends the process.
\<close>

datatype slot = Reserved | Loaded "RunError option"

datatype outcome = Fine | Fault RunError | Crash

datatype 'a event = Entered string | Did 'a

type_synonym 'a program = "string \<Rightarrow> 'a stmt list option"
type_synonym load_cache = "(string, slot) gomap"

text \<open>The fuel bounds the depth of nested loads.\<close>

function run_stmts ::
  "(string \<Rightarrow> string \<Rightarrow> LoadPathError + string) \<Rightarrow> 'a program \<Rightarrow> nat \<Rightarrow> string \<Rightarrow> 'a stmt list \<Rightarrow> load_cache \<Rightarrow>
   (load_cache \<times> 'a event list \<times> outcome) option" where
  "run_stmts rs P n src [] c = Some (c, [], Fine)"
| "run_stmts rs P n src (Effect a # ss) c =
     (case run_stmts rs P n src ss c of None \<Rightarrow> None | Some (c', evs, out) \<Rightarrow> Some (c', Did a # evs, out))"
| "run_stmts rs P n src (FailStmt msg # ss) c = Some (c, [], Fault (ScriptError msg))"
| "run_stmts rs P n src (LoadStmt m # ss) c =
     (case rs src m of
        Inl err \<Rightarrow> Some (c, [], Fault (BadPath err))
      | Inr path \<Rightarrow>
          (case map_of c path of
             Some Reserved \<Rightarrow> Some (c, [], Crash)
           | Some (Loaded (Some err)) \<Rightarrow> Some (c, [], Fault err)
           | Some (Loaded None) \<Rightarrow> run_stmts rs P n src ss c
           | None \<Rightarrow>
               (case P path of
                  None \<Rightarrow> Some (gm_put path (Loaded (Some (Unreadable path))) c, [], Fault (Loading m (Unreadable path)))
                | Some body \<Rightarrow>
                    (case n of
                       0 \<Rightarrow> None
                     | Suc k \<Rightarrow>
                         (case run_stmts rs P k path body (gm_put path Reserved c) of
                            None \<Rightarrow> None
                          | Some (c1, evs, Crash) \<Rightarrow> Some (c1, Entered path # evs, Crash)
                          | Some (c1, evs, Fault err) \<Rightarrow>
                              Some (gm_put path (Loaded (Some err)) c1, Entered path # evs, Fault (Loading m err))
                          | Some (c1, evs, Fine) \<Rightarrow>
                              (case run_stmts rs P n src ss (gm_put path (Loaded None) c1) of
                                 None \<Rightarrow> None
                               | Some (c2, evs2, out) \<Rightarrow> Some (c2, Entered path # evs @ evs2, out)))))))"
  by pat_completeness auto
termination
  by (relation "measures [\<lambda>(rs, P, n, src, ss, c). n, \<lambda>(rs, P, n, src, ss, c). length ss]") auto

text \<open>A file run from the engine is not looked up in the cache; it is entered there when it succeeds.\<close>

definition run_file ::
  "(string \<Rightarrow> string \<Rightarrow> LoadPathError + string) \<Rightarrow> (string \<Rightarrow> string) \<Rightarrow> 'a program \<Rightarrow> nat \<Rightarrow> string \<Rightarrow> load_cache \<Rightarrow>
   (load_cache \<times> 'a event list \<times> outcome) option" where
  "run_file rs absPath P n path c =
     (case P path of
        None \<Rightarrow> Some (c, [], Fault (Unreadable path))
      | Some body \<Rightarrow>
          (case run_stmts rs P n path body c of
             Some (c', evs, Fine) \<Rightarrow> Some (if absPath path \<noteq> [] then gm_put (absPath path) (Loaded None) c' else c', evs, Fine)
           | r \<Rightarrow> r))"

section \<open>The runs as a relation\<close>

inductive runs ::
  "(string \<Rightarrow> string \<Rightarrow> LoadPathError + string) \<Rightarrow> 'a program \<Rightarrow> string \<Rightarrow> 'a stmt list \<Rightarrow> load_cache \<Rightarrow>
   load_cache \<Rightarrow> 'a event list \<Rightarrow> outcome \<Rightarrow> bool"
  for rs :: "string \<Rightarrow> string \<Rightarrow> LoadPathError + string" and P :: "'a program" where
  last: "runs rs P src [] c c [] Fine"
| effect: "runs rs P src ss c c' evs out \<Longrightarrow> runs rs P src (Effect a # ss) c c' (Did a # evs) out"
| fails: "runs rs P src (FailStmt msg # ss) c c [] (Fault (ScriptError msg))"
| bad_path: "rs src m = Inl err \<Longrightarrow> runs rs P src (LoadStmt m # ss) c c [] (Fault (BadPath err))"
| busy: "rs src m = Inr path \<Longrightarrow> map_of c path = Some Reserved \<Longrightarrow> runs rs P src (LoadStmt m # ss) c c [] Crash"
| failed: "rs src m = Inr path \<Longrightarrow> map_of c path = Some (Loaded (Some err)) \<Longrightarrow> runs rs P src (LoadStmt m # ss) c c [] (Fault err)"
| loaded: "rs src m = Inr path \<Longrightarrow> map_of c path = Some (Loaded None) \<Longrightarrow> runs rs P src ss c c' evs out \<Longrightarrow>
    runs rs P src (LoadStmt m # ss) c c' evs out"
| unreadable: "rs src m = Inr path \<Longrightarrow> map_of c path = None \<Longrightarrow> P path = None \<Longrightarrow>
    runs rs P src (LoadStmt m # ss) c (gm_put path (Loaded (Some (Unreadable path))) c) [] (Fault (Loading m (Unreadable path)))"
| nested_crash: "rs src m = Inr path \<Longrightarrow> map_of c path = None \<Longrightarrow> P path = Some body \<Longrightarrow>
    runs rs P path body (gm_put path Reserved c) c1 evs Crash \<Longrightarrow>
    runs rs P src (LoadStmt m # ss) c c1 (Entered path # evs) Crash"
| nested_fault: "rs src m = Inr path \<Longrightarrow> map_of c path = None \<Longrightarrow> P path = Some body \<Longrightarrow>
    runs rs P path body (gm_put path Reserved c) c1 evs (Fault err) \<Longrightarrow>
    runs rs P src (LoadStmt m # ss) c (gm_put path (Loaded (Some err)) c1) (Entered path # evs) (Fault (Loading m err))"
| nested: "rs src m = Inr path \<Longrightarrow> map_of c path = None \<Longrightarrow> P path = Some body \<Longrightarrow>
    runs rs P path body (gm_put path Reserved c) c1 evs Fine \<Longrightarrow> runs rs P src ss (gm_put path (Loaded None) c1) c2 evs2 out \<Longrightarrow>
    runs rs P src (LoadStmt m # ss) c c2 (Entered path # evs @ evs2) out"

lemma run_stmts_runs: "run_stmts rs P n src ss c = Some (c', evs, out) \<Longrightarrow> runs rs P src ss c c' evs out"
proof (induction rs P n src ss c arbitrary: c' evs out rule: run_stmts.induct)
  case (4 rs P n src m ss c)
  show ?case
  proof (cases "rs src m")
    case (Inl err)
    with "4.prems" show ?thesis by (auto intro: runs.bad_path)
  next
    case (Inr path)
    show ?thesis
    proof (cases "map_of c path")
      case None
      show ?thesis
      proof (cases "P path")
        case N: None
        with "4.prems" Inr None show ?thesis by (auto intro: runs.unreadable)
      next
        case (Some body)
        then obtain k where n: "n = Suc k" using "4.prems" Inr None by (cases n) auto
        obtain c1 evs1 out1 where r: "run_stmts rs P k path body (gm_put path Reserved c) = Some (c1, evs1, out1)"
          using "4.prems" Inr None Some n by (auto split: option.splits)
        note inner = "4.IH"(1) [OF Inr None Some n r]
        show ?thesis
        proof (cases out1)
          case Fine
          then obtain c2 evs2 where "run_stmts rs P n src ss (gm_put path (Loaded None) c1) = Some (c2, evs2, out)"
            "c' = c2" "evs = Entered path # evs1 @ evs2"
            using "4.prems" Inr None Some n r by (auto split: option.splits)
          with "4.IH"(2) [OF Inr None Some n r refl refl Fine] inner Fine Inr None Some show ?thesis by (auto intro: runs.nested)
        next
          case (Fault err)
          then show ?thesis using "4.prems" Inr None Some n r inner by (auto intro: runs.nested_fault)
        next
          case Crash
          then show ?thesis using "4.prems" Inr None Some n r inner by (auto intro: runs.nested_crash)
        qed
      qed
    next
      case (Some sl)
      show ?thesis
      proof (cases "sl = Loaded None")
        case True
        then have "run_stmts rs P n src ss c = Some (c', evs, out)" using "4.prems" Inr Some by simp
        from "4.IH"(3) [OF Inr Some True refl this] Inr Some True show ?thesis by (auto intro: runs.loaded)
      next
        case False
        then show ?thesis using "4.prems" Inr Some
          by (auto split: slot.splits option.splits intro: runs.busy runs.failed)
      qed
    qed
  qed
qed (auto split: option.splits intro: runs.intros)

section \<open>What a run does to the cache\<close>

definition entered :: "'a event list \<Rightarrow> string list" where
  "entered evs = concat (map (\<lambda>e. case e of Entered p \<Rightarrow> [p] | Did a \<Rightarrow> []) evs)"

lemma entered_simps [simp]:
  "entered [] = []" "entered (Did a # evs) = entered evs" "entered (Entered p # evs) = p # entered evs"
  "entered (evs @ evs') = entered evs @ entered evs'"
  by (simp_all add: entered_def)

text \<open>A slot once taken stays as it is; the files that run are new to the cache and run once.\<close>

definition slots_kept :: "load_cache \<Rightarrow> load_cache \<Rightarrow> 'a event list \<Rightarrow> bool" where
  "slots_kept c c' evs \<longleftrightarrow>
     (\<forall>p s. map_of c p = Some s \<longrightarrow> map_of c' p = Some s) \<and> distinct (entered evs) \<and>
     (\<forall>p \<in> set (entered evs). map_of c p = None \<and> map_of c' p \<noteq> None)"

lemma enter_kept:
  assumes "map_of c path = None" and "slots_kept (gm_put path Reserved c) c1 evs"
  shows "map_of c p = Some s \<Longrightarrow> p \<noteq> path \<and> map_of c1 p = Some s"
    and "distinct (path # entered evs)" and "p \<in> set (entered evs) \<Longrightarrow> map_of c p = None \<and> map_of c1 p \<noteq> None"
    and "map_of c1 path \<noteq> None"
proof -
  note k = assms(2) [unfolded slots_kept_def map_of_put]
  show "map_of c p = Some s \<Longrightarrow> p \<noteq> path \<and> map_of c1 p = Some s" using k assms(1) by (cases "p = path") auto
  have "path \<notin> set (entered evs)" using k by fastforce
  then show "distinct (path # entered evs)" using k by simp
  show "p \<in> set (entered evs) \<Longrightarrow> map_of c p = None \<and> map_of c1 p \<noteq> None" using k by (auto split: if_splits)
  show "map_of c1 path \<noteq> None" using k by simp
qed

lemma runs_slots:
  "runs rs P src ss c c' evs out \<Longrightarrow> slots_kept c c' evs"
proof (induction rule: runs.induct)
  case (nested_crash src m path c body c1 evs ss)
  from enter_kept [OF nested_crash.hyps(2) nested_crash.IH] nested_crash.hyps(2) show ?case
    by (auto simp: slots_kept_def)
next
  case (nested_fault src m path c body c1 evs err ss)
  from enter_kept [OF nested_fault.hyps(2) nested_fault.IH] nested_fault.hyps(2) show ?case
    by (auto simp: slots_kept_def)
next
  case (nested src m path c body c1 evs ss c2 evs2 out)
  note inner = enter_kept [OF nested.hyps(2) nested.IH(1)] and rest = nested.IH(2) [unfolded slots_kept_def map_of_put]
  have keep2: "map_of c2 p = Some s" if "map_of c p = Some s" for p s
    using inner(1) [OF that] rest by simp
  have "map_of c p = None \<and> p \<noteq> path \<and> p \<notin> set (entered evs)" if "p \<in> set (entered evs2)" for p
  proof -
    have n: "p \<noteq> path" "map_of c1 p = None" using rest that by (auto split: if_splits)
    moreover have "map_of c p = None" using inner(1) [of p] n(2) by (cases "map_of c p") auto
    moreover have "p \<notin> set (entered evs)" using inner(3) n(2) by blast
    ultimately show ?thesis by blast
  qed
  moreover have "map_of c2 p \<noteq> None" if "map_of c1 p \<noteq> None \<or> p = path" for p
  proof (cases "p = path")
    case False
    with that obtain s where "map_of c1 p = Some s" by auto
    with False rest show ?thesis by simp
  qed (use rest in simp)
  ultimately show ?case
    using keep2 inner(2,3) rest nested.hyps(2) unfolding slots_kept_def by auto
qed (auto simp: slots_kept_def)

text \<open>A run that does not end the process gives back every slot it reserved.\<close>

lemma runs_reserved:
  "runs rs P src ss c c' evs out \<Longrightarrow> out \<noteq> Crash \<Longrightarrow> map_of c' p = Some Reserved \<Longrightarrow> map_of c p = Some Reserved"
  by (induction rule: runs.induct) (auto split: if_splits)

section \<open>Cycles of loads\<close>

definition loads_to :: "(string \<Rightarrow> string \<Rightarrow> LoadPathError + string) \<Rightarrow> 'a program \<Rightarrow> (string \<times> string) set" where
  "loads_to rs P = {(q, p). \<exists>body m. P p = Some body \<and> LoadStmt m \<in> set body \<and> rs p m = Inr q}"

text \<open>A file is grounded when no chain of loads from it is infinite.\<close>

definition grounded :: "(string \<Rightarrow> string \<Rightarrow> LoadPathError + string) \<Rightarrow> 'a program \<Rightarrow> string \<Rightarrow> bool" where
  "grounded rs P p \<longleftrightarrow> p \<in> Wellfounded.acc (loads_to rs P)"

definition sound_cache :: "(string \<Rightarrow> string \<Rightarrow> LoadPathError + string) \<Rightarrow> 'a program \<Rightarrow> load_cache \<Rightarrow> bool" where
  "sound_cache rs P c \<longleftrightarrow> (\<forall>p. map_of c p = Some (Loaded None) \<longrightarrow> grounded rs P p)"

lemma groundedI:
  assumes "P p = Some body" and "\<And>m. LoadStmt m \<in> set body \<Longrightarrow> \<exists>q. rs p m = Inr q \<and> grounded rs P q"
  shows "grounded rs P p"
  unfolding grounded_def
proof (rule acc.intros)
  fix q assume "(q, p) \<in> loads_to rs P"
  then obtain m where "LoadStmt m \<in> set body" "rs p m = Inr q" using assms(1) by (auto simp: loads_to_def)
  then show "q \<in> Wellfounded.acc (loads_to rs P)" using assms(2) by (fastforce simp: grounded_def)
qed

lemma acc_no_cycle: "p \<in> Wellfounded.acc r \<Longrightarrow> (p, p) \<notin> r\<^sup>+"
proof (induction rule: acc.induct)
  case (accI x)
  show ?case
  proof
    assume "(x, x) \<in> r\<^sup>+"
    then obtain z where "(x, z) \<in> r\<^sup>*" "(z, x) \<in> r" by (meson tranclD2)
    then have "(z, z) \<in> r\<^sup>+" by (meson rtrancl_into_trancl2)
    with accI \<open>(z, x) \<in> r\<close> show False by blast
  qed
qed

lemma grounded_no_cycle: "grounded rs P p \<Longrightarrow> (r, p) \<in> (loads_to rs P)\<^sup>* \<Longrightarrow> (r, r) \<notin> (loads_to rs P)\<^sup>+"
  unfolding grounded_def using acc_no_cycle acc_downwards by metis

lemma runs_grounded:
  "runs rs P src ss c c' evs out \<Longrightarrow> sound_cache rs P c \<Longrightarrow>
   sound_cache rs P c' \<and> (out = Fine \<longrightarrow> (\<forall>m. LoadStmt m \<in> set ss \<longrightarrow> (\<exists>q. rs src m = Inr q \<and> grounded rs P q)))"
proof (induction rule: runs.induct)
  case (nested src m path c body c1 evs ss c2 evs2 out)
  have "sound_cache rs P (gm_put path Reserved c)" using nested.prems by (simp add: sound_cache_def)
  note inner = nested.IH(1) [OF this]
  have path: "grounded rs P path" using groundedI [of P path body rs] nested.hyps(3) inner by blast
  then have "sound_cache rs P (gm_put path (Loaded None) c1)" using inner by (simp add: sound_cache_def)
  note rest = nested.IH(2) [OF this]
  show ?case
  proof (intro conjI impI allI)
    show "sound_cache rs P c2" using rest by blast
    fix m' assume "out = Fine" "LoadStmt m' \<in> set (LoadStmt m # ss)"
    then show "\<exists>q. rs src m' = Inr q \<and> grounded rs P q"
      using rest path nested.hyps(1) by (cases "m' = m") simp_all
  qed
next
  case (loaded src m path c ss c' evs out)
  then have "grounded rs P path" by (simp add: sound_cache_def)
  with loaded.IH [OF loaded.prems] loaded.hyps(1) show ?case by simp
next
  case (nested_crash src m path c body c1 evs ss)
  have "sound_cache rs P (gm_put path Reserved c)" using nested_crash.prems by (simp add: sound_cache_def)
  from nested_crash.IH [OF this] show ?case by simp
next
  case (nested_fault src m path c body c1 evs err ss)
  have "sound_cache rs P (gm_put path Reserved c)" using nested_fault.prems by (simp add: sound_cache_def)
  from nested_fault.IH [OF this] show ?case by (simp add: sound_cache_def)
next
  case (effect src ss c c' evs out a)
  then show ?case by simp
qed (simp_all add: sound_cache_def)

lemma runs_crash:
  "runs rs P src ss c c' evs out \<Longrightarrow> out = Crash \<Longrightarrow>
   (\<forall>r. map_of c r = Some Reserved \<longrightarrow> (src, r) \<in> (loads_to rs P)\<^sup>*) \<Longrightarrow>
   (\<forall>m q. LoadStmt m \<in> set ss \<longrightarrow> rs src m = Inr q \<longrightarrow> (q, src) \<in> loads_to rs P) \<Longrightarrow>
   \<exists>r. (r, r) \<in> (loads_to rs P)\<^sup>+ \<and> (r, src) \<in> (loads_to rs P)\<^sup>*"
proof (induction rule: runs.induct)
  case (busy src m path c ss)
  then have "(path, src) \<in> loads_to rs P" "(src, path) \<in> (loads_to rs P)\<^sup>*" by auto
  then show ?case by (meson r_into_rtrancl rtrancl_into_trancl2)
next
  case (nested_crash src m path c body c1 evs ss)
  have edge: "(path, src) \<in> loads_to rs P" using nested_crash by auto
  have "\<forall>r. map_of (gm_put path Reserved c) r = Some Reserved \<longrightarrow> (path, r) \<in> (loads_to rs P)\<^sup>*"
    using nested_crash.prems(2) edge by (auto intro: converse_rtrancl_into_rtrancl)
  moreover have "\<forall>m q. LoadStmt m \<in> set body \<longrightarrow> rs path m = Inr q \<longrightarrow> (q, path) \<in> loads_to rs P"
    using nested_crash.hyps(3) by (auto simp: loads_to_def)
  ultimately obtain r where "(r, r) \<in> (loads_to rs P)\<^sup>+" "(r, path) \<in> (loads_to rs P)\<^sup>*" using nested_crash.IH by blast
  then show ?case using edge by (meson rtrancl.rtrancl_into_rtrancl)
next
  case (nested src m path c body c1 evs ss c2 evs2 out)
  have "\<forall>r. map_of (gm_put path (Loaded None) c1) r = Some Reserved \<longrightarrow> (src, r) \<in> (loads_to rs P)\<^sup>*"
  proof (intro allI impI)
    fix r assume r: "map_of (gm_put path (Loaded None) c1) r = Some Reserved"
    then have "r \<noteq> path" "map_of c1 r = Some Reserved" by (auto split: if_splits)
    with runs_reserved [OF nested.hyps(4), of r] nested.prems(2) show "(src, r) \<in> (loads_to rs P)\<^sup>*" by simp
  qed
  with nested.IH(2) nested.prems show ?case by simp
qed auto

section \<open>Termination\<close>

definition files :: "'a program \<Rightarrow> string set" where
  "files P = {p. P p \<noteq> None}"

lemma run_stmts_total:
  "finite (files P) \<Longrightarrow> card (files P - dom (map_of c)) \<le> n \<Longrightarrow> \<exists>r. run_stmts rs P n src ss c = Some r"
proof (induction rs P n src ss c rule: run_stmts.induct)
  case (4 rs P n src m ss c)
  show ?case
  proof (cases "\<exists>path body. rs src m = Inr path \<and> map_of c path = None \<and> P path = Some body")
    case False
    show ?thesis
    proof (cases "\<exists>path. rs src m = Inr path \<and> map_of c path = Some (Loaded None)")
      case True
      then obtain path where p: "rs src m = Inr path" "map_of c path = Some (Loaded None)" by blast
      from "4.IH"(3) [OF p refl refl "4.prems"] p show ?thesis by simp
    next
      case no: False
      with False show ?thesis
        by (cases "rs src m") (auto split: option.split slot.split)
    qed
  next
    case True
    then obtain path body where p: "rs src m = Inr path" "map_of c path = None" "P path = Some body" by blast
    have "path \<in> files P - dom (map_of c)" using p by (auto simp: files_def)
    moreover have "files P - dom (map_of (gm_put path Reserved c)) = files P - dom (map_of c) - {path}"
      by auto
    moreover have "finite (files P - dom (map_of c))" using "4.prems"(1) by (rule finite_Diff)
    ultimately have "card (files P - dom (map_of c)) = Suc (card (files P - dom (map_of (gm_put path Reserved c))))"
      using card_Suc_Diff1 by metis
    with "4.prems"(2) have "Suc (card (files P - dom (map_of (gm_put path Reserved c)))) \<le> n" by (simp only:)
    then obtain k where k: "n = Suc k" "card (files P - dom (map_of (gm_put path Reserved c))) \<le> k"
      using Suc_le_D Suc_le_mono by metis
    from "4.IH"(1) [OF p k(1) "4.prems"(1) k(2)] obtain c1 evs1 out1
      where r: "run_stmts rs P k path body (gm_put path Reserved c) = Some (c1, evs1, out1)" by auto
    have "dom (map_of c) \<subseteq> dom (map_of (gm_put path (Loaded None) c1))"
      using enter_kept(1) [OF p(2) runs_slots [OF run_stmts_runs [OF r]]] by auto
    then have "card (files P - dom (map_of (gm_put path (Loaded None) c1))) \<le> n"
      using "4.prems" by (meson Diff_mono card_mono finite_Diff le_trans order_refl)
    note card = this
    show ?thesis
    proof (cases out1)
      case Fine
      from "4.IH"(2) [OF p k(1) r refl refl Fine "4.prems"(1) card]
      obtain c2 evs2 out2 where "run_stmts rs P n src ss (gm_put path (Loaded None) c1) = Some (c2, evs2, out2)" by auto
      with Fine p k(1) r show ?thesis by simp
    qed (use p k(1) r in simp_all)
  qed
qed (auto split: option.splits)

section \<open>Properties\<close>

definition idle :: "load_cache \<Rightarrow> bool" where
  "idle c \<longleftrightarrow> (\<forall>p. map_of c p \<noteq> Some Reserved)"

text \<open>
  C38. Running a file returns, whatever the files load. Each file that is loaded on the way runs
  once, and not at all if the cache has it. When the run succeeds, no chain of loads from the
  file meets a cycle, and the same holds of every file that the cache calls loaded. When the
  process ends, a chain of loads from the file meets a cycle. Otherwise no slot is left reserved.
\<close>

theorem run_file_spec:
  assumes "finite (files P)" and "card (files P) \<le> n" and "idle c" and "sound_cache rs P c" and "absPath path = path"
  shows "\<exists>c' evs out. run_file rs absPath P n path c = Some (c', evs, out) \<and>
    distinct (entered evs) \<and> (\<forall>p \<in> set (entered evs). map_of c p = None) \<and>
    (case out of
       Crash \<Rightarrow> \<exists>r. (r, r) \<in> (loads_to rs P)\<^sup>+ \<and> (r, path) \<in> (loads_to rs P)\<^sup>*
     | Fault err \<Rightarrow> idle c' \<and> sound_cache rs P c'
     | Fine \<Rightarrow> idle c' \<and> sound_cache rs P c' \<and> (\<forall>r. (r, path) \<in> (loads_to rs P)\<^sup>* \<longrightarrow> (r, r) \<notin> (loads_to rs P)\<^sup>+))"
proof (cases "P path")
  case None
  then show ?thesis using assms(3,4) by (simp add: run_file_def)
next
  case (Some body)
  have "card (files P - dom (map_of c)) \<le> n" using assms(1,2) by (meson Diff_subset card_mono le_trans)
  then obtain c1 evs out where run: "run_stmts rs P n path body c = Some (c1, evs, out)"
    using run_stmts_total [OF assms(1)] by (metis prod_cases3)
  note r = run_stmts_runs [OF run]
  have once: "distinct (entered evs)" "\<forall>p \<in> set (entered evs). map_of c p = None"
    using runs_slots [OF r] by (simp_all add: slots_kept_def)
  have idle: "idle c1" if "out \<noteq> Crash" using runs_reserved [OF r that] assms(3) by (auto simp: idle_def)
  note sound = runs_grounded [OF r assms(4)]
  show ?thesis
  proof (cases out)
    case Fine
    have g: "grounded rs P path" using groundedI [of P path body rs] Some sound Fine by blast
    let ?c = "if path \<noteq> [] then gm_put path (Loaded None) c1 else c1"
    have "run_file rs absPath P n path c = Some (?c, evs, Fine)" using Some run Fine assms(5) by (simp add: run_file_def)
    moreover have "idle ?c" using idle Fine by (simp add: idle_def)
    moreover have "sound_cache rs P ?c" using sound g by (simp add: sound_cache_def)
    ultimately show ?thesis using once grounded_no_cycle [OF g]
      by (intro exI [of _ ?c] exI [of _ evs] exI [of _ Fine]) simp
  next
    case (Fault err)
    then show ?thesis using Some run once idle sound by (simp add: run_file_def)
  next
    case Crash
    have "\<forall>m q. LoadStmt m \<in> set body \<longrightarrow> rs path m = Inr q \<longrightarrow> (q, path) \<in> loads_to rs P"
      using Some by (auto simp: loads_to_def)
    with runs_crash [OF r Crash] assms(3) Some run once Crash show ?thesis by (auto simp: run_file_def idle_def)
  qed
qed

text \<open>Files in one directory: references are names of siblings.\<close>

definition ex_sibling :: "string \<Rightarrow> string \<Rightarrow> LoadPathError + string" where
  "ex_sibling src m = resolveLoadPath id [] ''/p'' src m"

definition ex_files :: "nat program" where
  "ex_files = map_of [(''/p/a.star'', [LoadStmt ''b.star'', Effect 1]), (''/p/b.star'', [Effect 2]),
     (''/p/x.star'', [LoadStmt ''y.star'']), (''/p/y.star'', [LoadStmt ''//x.star''])]"

lemma ex_finite: "files ex_files = {''/p/a.star'', ''/p/b.star'', ''/p/x.star'', ''/p/y.star''}"
  by (auto simp: files_def ex_files_def split: if_splits)

theorem run_file_spec_witness:
  "run_file ex_sibling id ex_files 4 ''/p/a.star'' [] =
     Some ([(''/p/b.star'', Loaded None), (''/p/a.star'', Loaded None)], [Entered ''/p/b.star'', Did 2, Did 1], Fine) \<and>
   {r. (r, ''/p/a.star'') \<in> (loads_to ex_sibling ex_files)\<^sup>* \<and> (r, r) \<in> (loads_to ex_sibling ex_files)\<^sup>+} = {}"
proof -
  have run: "run_file ex_sibling id ex_files 4 ''/p/a.star'' [] =
     Some ([(''/p/b.star'', Loaded None), (''/p/a.star'', Loaded None)], [Entered ''/p/b.star'', Did 2, Did 1], Fine)"
    by code_simp
  have "finite (files ex_files)" "card (files ex_files) \<le> 4" by (simp_all add: ex_finite)
  moreover have "idle []" "sound_cache ex_sibling ex_files []" by (simp_all add: idle_def sound_cache_def)
  ultimately show ?thesis using run_file_spec [of ex_files 4 "[]" ex_sibling id "''/p/a.star''"] run by auto
qed

text \<open>Two files that load each other end the process with a null dereference instead of an error.\<close>

lemma load_cycle_crashes: "\<exists>c evs. run_file ex_sibling id ex_files 4 ''/p/x.star'' [] = Some (c, evs, Crash)"
proof -
  have "map_option (\<lambda>(_, _, out). out) (run_file ex_sibling id ex_files 4 ''/p/x.star'' []) = Some Crash" by code_simp
  then show ?thesis by auto
qed

text \<open>
  A file that another file has loaded is run again when its own turn comes, and everything it
  registers is registered twice; in the other order it runs once.
\<close>

lemma loaded_file_runs_again:
  "\<exists>c. run_file ex_sibling id ex_files 4 ''/p/a.star'' [] = Some (c, [Entered ''/p/b.star'', Did 2, Did 1], Fine) \<and>
     (\<exists>c'. run_file ex_sibling id ex_files 4 ''/p/b.star'' c = Some (c', [Did 2], Fine))"
  "\<exists>c. run_file ex_sibling id ex_files 4 ''/p/b.star'' [] = Some (c, [Did 2], Fine) \<and>
     (\<exists>c'. run_file ex_sibling id ex_files 4 ''/p/a.star'' c = Some (c', [Did 1], Fine))"
proof -
  let ?c = "[(''/p/b.star'', Loaded None), (''/p/a.star'', Loaded None)]"
  have "run_file ex_sibling id ex_files 4 ''/p/a.star'' [] = Some (?c, [Entered ''/p/b.star'', Did 2, Did 1], Fine)"
    "run_file ex_sibling id ex_files 4 ''/p/b.star'' ?c = Some (?c, [Did 2], Fine)"
    "run_file ex_sibling id ex_files 4 ''/p/b.star'' [] = Some ([(''/p/b.star'', Loaded None)], [Did 2], Fine)"
    "run_file ex_sibling id ex_files 4 ''/p/a.star'' [(''/p/b.star'', Loaded None)] = Some (?c, [Did 1], Fine)"
    by code_simp+
  then show "\<exists>c. run_file ex_sibling id ex_files 4 ''/p/a.star'' [] = Some (c, [Entered ''/p/b.star'', Did 2, Did 1], Fine) \<and>
     (\<exists>c'. run_file ex_sibling id ex_files 4 ''/p/b.star'' c = Some (c', [Did 2], Fine))"
    "\<exists>c. run_file ex_sibling id ex_files 4 ''/p/b.star'' [] = Some (c, [Did 2], Fine) \<and>
     (\<exists>c'. run_file ex_sibling id ex_files 4 ''/p/a.star'' c = Some (c', [Did 1], Fine))"
    by blast+
qed

text \<open>With one module inside the tree of another, the root of a file depends on the order of the roots.\<close>

lemma nested_roots_ambiguous:
  "rootForFile id [(''m'', ''/p/m''), (''n'', ''/p/m/n'')] ''/p'' ''/p/m/n/u.star'' = ''/p/m''"
  "rootForFile id [(''n'', ''/p/m/n''), (''m'', ''/p/m'')] ''/p'' ''/p/m/n/u.star'' = ''/p/m/n''"
  by code_simp+

lemma rootForFile_cases:
  "rootForFile absPath roots pr src \<in> insert pr {absPath root | m root. (m, root) \<in> set roots \<and> HasPrefix (absPath src) (absPath root @ ''/'')}"
  by (induction absPath roots pr src rule: rootForFile.induct) auto

end
