(* ===== verification/Dpkg.thy ===== *)
theory Dpkg
  imports Newest Units ApkVersion
begin

text \<open>
  \<^verbatim>\<open>internal/dpkg\<close>: Debian package indexes. The deb822 reader, the dependency parser and the
  version order are third-party packages (\<^verbatim>\<open>pault.ag/go/debian\<close>) and are arguments here; the
  theory models what yoe makes of them: entries (\<^verbatim>\<open>packages.go\<close>), dependencies (\<^verbatim>\<open>deps.go\<close>), the
  version comparison with its fall-back (\<^verbatim>\<open>provides.go\<close>, \<^verbatim>\<open>version.go\<close>), the provides table and the
  units made from entries (\<^verbatim>\<open>materialize.go\<close>).
\<close>

section \<open>Data\<close>

record DebEntry =
  dePackage :: name
  deSource :: string
  deVersion :: string
  deArchitecture :: string
  deMultiArch :: string
  deMaintainer :: string
  deDescription :: string
  deSection :: string
  dePriority :: string
  deHomepage :: string
  deInstalledSize :: int
  deSize :: int
  deFilename :: string
  deSHA256 :: string
  deSHA1 :: string
  deMD5sum :: string
  deDepends :: string
  dePreDepends :: string
  deRecommends :: string
  deSuggests :: string
  deEnhances :: string
  deConflicts :: string
  deBreaks :: string
  deReplaces :: string
  deProvides :: string

text \<open>What the third-party dependency parser returns for one alternative.\<close>

record parsed_possi =
  ppName :: string
  ppArch :: "string option"
  ppVersion :: "(string \<times> string) option"

text \<open>
  The third-party functions: the deb822 reader (stanzas as entries), the dependency parser,
  the version parser and the comparison of parsed versions.
\<close>

record 'v deb_lib =
  dlUnmarshal :: "string \<Rightarrow> DebEntry list option"
  dlDependency :: "string \<Rightarrow> parsed_possi list list option"
  dlVersion :: "string \<Rightarrow> 'v option"
  dlCompare :: "'v \<Rightarrow> 'v \<Rightarrow> int"

datatype DebError =
    BadPackages
  | MissingPackage nat
  | BadDependency string
  | BadVersion string
  | DebNilProviders

section \<open>The index\<close>

fun check_stanzas :: "nat \<Rightarrow> DebEntry list \<Rightarrow> DebError + DebEntry list" where
  "check_stanzas i [] = Inr []"
| "check_stanzas i (s # ss) =
     (if dePackage s = [] then Inl (MissingPackage i)
      else case check_stanzas (i + 1) ss of Inl err \<Rightarrow> Inl err | Inr es \<Rightarrow> Inr (s # es))"

definition deb_ParseIndex :: "'v deb_lib \<Rightarrow> string \<Rightarrow> DebError + DebEntry list" where
  "deb_ParseIndex lib data = (case dlUnmarshal lib data of None \<Rightarrow> Inl BadPackages | Some raw \<Rightarrow> check_stanzas 0 raw)"

section \<open>Dependencies\<close>

record Possibility =
  poName :: name
  poArch :: string
  poVersion :: string
  poOp :: string
  poRaw :: string

definition possibility :: "parsed_possi \<Rightarrow> Possibility" where
  "possibility p =
     \<lparr>poName = ppName p, poArch = (case ppArch p of None \<Rightarrow> [] | Some a \<Rightarrow> a),
      poVersion = (case ppVersion p of None \<Rightarrow> [] | Some (number, operator) \<Rightarrow> number),
      poOp = (case ppVersion p of None \<Rightarrow> [] | Some (number, operator) \<Rightarrow> operator), poRaw = ppName p\<rparr>"

text \<open>A dependency line is a list of relations, each a list of alternatives.\<close>

type_synonym Relation = "Possibility list"

type_synonym Dependency = "Relation list"

definition ParseDependency :: "'v deb_lib \<Rightarrow> string \<Rightarrow> DebError + Dependency" where
  "ParseDependency lib line =
     (let s = TrimSpace line in
      if s = [] then Inr []
      else case dlDependency lib s of
             None \<Rightarrow> Inl (BadDependency s)
           | Some parsed \<Rightarrow> Inr (map (map possibility) parsed))"

definition ParseProvides :: "'v deb_lib \<Rightarrow> string \<Rightarrow> DebError + Possibility list" where
  "ParseProvides lib s = (case ParseDependency lib s of Inl err \<Rightarrow> Inl err | Inr dep \<Rightarrow> Inr (concat dep))"

definition FlattenNames :: "Dependency \<Rightarrow> name list" where
  "FlattenNames d = map (\<lambda>rel. poName (hd rel)) (filter (\<lambda>rel. rel \<noteq> []) d)"

section \<open>Versions\<close>

definition ParseVersion :: "'v deb_lib \<Rightarrow> string \<Rightarrow> DebError + 'v" where
  "ParseVersion lib s = (case dlVersion lib s of None \<Rightarrow> Inl (BadVersion s) | Some v \<Rightarrow> Inr v)"

definition CompareVersions :: "'v deb_lib \<Rightarrow> string \<Rightarrow> string \<Rightarrow> DebError + int" where
  "CompareVersions lib a b =
     (case ParseVersion lib a of
        Inl err \<Rightarrow> Inl err
      | Inr av \<Rightarrow> (case ParseVersion lib b of Inl err \<Rightarrow> Inl err | Inr bv \<Rightarrow> Inr (dlCompare lib av bv)))"

definition newerVersion :: "'v deb_lib \<Rightarrow> string \<Rightarrow> string \<Rightarrow> bool" where
  "newerVersion lib a b =
     (case (dlVersion lib a, dlVersion lib b) of
        (Some av, Some bv) \<Rightarrow> 0 < dlCompare lib av bv
      | _ \<Rightarrow> 0 < Compare a b)"

section \<open>The provides table\<close>

type_synonym deb_table = "(string, DebEntry) gomap"

definition deb_register :: "'v deb_lib \<Rightarrow> string \<Rightarrow> string \<Rightarrow> DebEntry \<Rightarrow> deb_table \<Rightarrow> deb_table" where
  "deb_register lib token ver e t =
     (let token' = TrimSpace token in
      if token' = [] then t
      else case map_of t token' of
             Some cur \<Rightarrow> if newerVersion lib ver (deVersion cur) then gm_put token' e t else t
           | None \<Rightarrow> gm_put token' e t)"

definition deb_register_entry :: "'v deb_lib \<Rightarrow> DebEntry \<Rightarrow> deb_table \<Rightarrow> deb_table" where
  "deb_register_entry lib e t =
     (let t' = deb_register lib (dePackage e) (deVersion e) e t in
      if deProvides e = [] then t'
      else case ParseProvides lib (deProvides e) of
             Inl _ \<Rightarrow> t'
           | Inr ps \<Rightarrow> fold (\<lambda>p. deb_register lib (poName p) (deVersion e) e) ps t')"

definition deb_BuildProvidesTable :: "'v deb_lib \<Rightarrow> DebEntry list \<Rightarrow> deb_table" where
  "deb_BuildProvidesTable lib entries = fold (deb_register_entry lib) entries []"

definition deb_Lookup :: "deb_table option \<Rightarrow> string \<Rightarrow> DebEntry option" where
  "deb_Lookup p name = (case p of None \<Rightarrow> None | Some t \<Rightarrow> map_of t name)"

section \<open>Units from entries\<close>

definition deb_TableProviders :: "deb_table option \<Rightarrow> string \<Rightarrow> name option" where
  "deb_TableProviders t token = (case deb_Lookup t token of None \<Rightarrow> None | Some e \<Rightarrow> Some (dePackage e))"

definition relation_token :: "Relation \<Rightarrow> name list" where
  "relation_token rel = (case filter (\<lambda>p. poName p \<noteq> []) rel of [] \<Rightarrow> [] | p # _ \<Rightarrow> [poName p])"

definition relationTokens :: "'v deb_lib \<Rightarrow> string \<Rightarrow> DebError + name list" where
  "relationTokens lib line =
     (case ParseDependency lib line of Inl err \<Rightarrow> Inl err | Inr dep \<Rightarrow> Inr (concat (map relation_token dep)))"

definition bareProvides :: "'v deb_lib \<Rightarrow> string \<Rightarrow> DebError + name list" where
  "bareProvides lib line =
     (if line = [] then Inr []
      else case ParseProvides lib line of
             Inl err \<Rightarrow> Inl err
           | Inr provs \<Rightarrow> Inr (filter (\<lambda>n. n \<noteq> []) (map poName provs)))"

fun runtime_deps :: "name \<Rightarrow> (string \<Rightarrow> name option) \<Rightarrow> name list \<Rightarrow> name list \<Rightarrow> name list" where
  "runtime_deps self resolve [] out = out"
| "runtime_deps self resolve (t # ts) out =
     (case resolve t of
        None \<Rightarrow> runtime_deps self resolve ts out
      | Some pkg \<Rightarrow>
          if pkg = self then runtime_deps self resolve ts out
          else if pkg \<in> set out then runtime_deps self resolve ts out
          else runtime_deps self resolve ts (out @ [pkg]))"

definition deb_MaterializeUnit ::
  "'v deb_lib \<Rightarrow> DebEntry \<Rightarrow> (string \<Rightarrow> name option) option \<Rightarrow> name \<Rightarrow> name \<Rightarrow> DebError + Unit" where
  "deb_MaterializeUnit lib entry ps moduleName distro =
     (case ps of
        None \<Rightarrow> Inl DebNilProviders
      | Some resolve \<Rightarrow>
          (case relationTokens lib (dePreDepends entry @ '', '' @ deDepends entry) of
             Inl err \<Rightarrow> Inl err
           | Inr depTokens \<Rightarrow>
               (let runtimeDeps = runtime_deps (dePackage entry) resolve depTokens [] in
                case bareProvides lib (deProvides entry) of
                  Inl err \<Rightarrow> Inl err
                | Inr provides \<Rightarrow>
                    Inr (zero_unit\<lparr>uName := dePackage entry, uClass := ''unit'', uDescription := deDescription entry,
                      uVersion := deVersion entry, uRuntimeDeps := runtimeDeps, uProvides := provides,
                      uModule := moduleName, uDistro := distro\<rparr>))))"

section \<open>The table holds the newest provider\<close>

definition deb_provided :: "'v deb_lib \<Rightarrow> DebEntry \<Rightarrow> string list" where
  "deb_provided lib e =
     filter (\<lambda>tok. tok \<noteq> []) (map TrimSpace
       (dePackage e # (if deProvides e = [] then [] else case ParseProvides lib (deProvides e) of Inl _ \<Rightarrow> [] | Inr ps \<Rightarrow> map poName ps)))"

definition deb_registrations :: "'v deb_lib \<Rightarrow> DebEntry list \<Rightarrow> (string \<times> DebEntry) list" where
  "deb_registrations lib es = concat (map (\<lambda>e. map (\<lambda>tok. (tok, e)) (deb_provided lib e)) es)"

abbreviation newer_deb :: "'v deb_lib \<Rightarrow> DebEntry \<Rightarrow> DebEntry \<Rightarrow> bool" where
  "newer_deb lib a b \<equiv> newerVersion lib (deVersion a) (deVersion b)"

lemma deb_register_keep:
  "deb_register lib tok (deVersion e) e t =
     (if TrimSpace tok = [] then t else keep_newer (newer_deb lib) (TrimSpace tok, e) t)"
  by (auto simp: deb_register_def keep_newer_def Let_def split: option.split)

lemma deb_register_all_keep:
  "fold (\<lambda>tok. deb_register lib tok (deVersion e) e) toks t =
     fold (keep_newer (newer_deb lib)) (map (\<lambda>tok. (tok, e)) (filter (\<lambda>tok. tok \<noteq> []) (map TrimSpace toks))) t"
  by (induction toks arbitrary: t) (simp_all add: deb_register_keep)

lemma deb_register_entry_keep:
  "deb_register_entry lib e t = fold (keep_newer (newer_deb lib)) (map (\<lambda>tok. (tok, e)) (deb_provided lib e)) t"
proof -
  let ?more = "if deProvides e = [] then [] else case ParseProvides lib (deProvides e) of Inl _ \<Rightarrow> [] | Inr ps \<Rightarrow> map poName ps"
  have "deb_register_entry lib e t = fold (\<lambda>tok. deb_register lib tok (deVersion e) e) (dePackage e # ?more) t"
    by (simp add: deb_register_entry_def Let_def fold_map comp_def split: sum.split)
  then show ?thesis unfolding deb_register_all_keep deb_provided_def .
qed

lemma deb_BuildProvidesTable_keep:
  "deb_BuildProvidesTable lib es = fold (keep_newer (newer_deb lib)) (deb_registrations lib es) []"
proof -
  have "fold (deb_register_entry lib) es t = fold (keep_newer (newer_deb lib)) (deb_registrations lib es) t" for t
    by (induction es arbitrary: t) (simp_all add: deb_registrations_def deb_register_entry_keep)
  then show ?thesis by (simp add: deb_BuildProvidesTable_def)
qed

lemma deb_registrations_mem:
  "(tok, e) \<in> set (deb_registrations lib es) \<longleftrightarrow> e \<in> set es \<and> tok \<in> set (deb_provided lib e)"
  by (auto simp: deb_registrations_def)

text \<open>What the Debian version order promises: a total preorder given by the sign of the comparison.\<close>

definition version_order :: "'v deb_lib \<Rightarrow> bool" where
  "version_order lib \<longleftrightarrow>
     (\<forall>a b. 0 < dlCompare lib a b \<longleftrightarrow> dlCompare lib b a < 0) \<and>
     (\<forall>a b c. 0 \<le> dlCompare lib a b \<longrightarrow> 0 \<le> dlCompare lib b c \<longrightarrow> 0 \<le> dlCompare lib a c)"

abbreviation versioned :: "'v deb_lib \<Rightarrow> DebEntry \<Rightarrow> bool" where
  "versioned lib e \<equiv> dlVersion lib (deVersion e) \<noteq> None"

lemma newest_deb:
  assumes "version_order lib"
  shows "newest (versioned lib) (newer_deb lib)"
proof -
  let ?ge = "\<lambda>a b. 0 \<le> dlCompare lib (the (dlVersion lib (deVersion a))) (the (dlVersion lib (deVersion b)))"
  have sign: "0 < dlCompare lib a b \<longleftrightarrow> \<not> 0 \<le> dlCompare lib b a" for a b
    using assms unfolding version_order_def by (simp add: not_le)
  have newer: "newer_deb lib a b \<longleftrightarrow> \<not> ?ge b a" if "versioned lib a" "versioned lib b" for a b
    using that sign by (auto simp: newerVersion_def)
  have trans: "?ge a b \<Longrightarrow> ?ge b c \<Longrightarrow> ?ge a c" for a b c
    using assms unfolding version_order_def by blast
  have total: "?ge a b \<or> ?ge b a" for a b using sign by (meson less_le)
  show ?thesis
  proof unfold_locales
    fix a b c
    assume v: "versioned lib a" "versioned lib b" "versioned lib c"
    show "\<not> newer_deb lib a a" using newer v total by blast
    show "newer_deb lib a c" if "newer_deb lib a b" "newer_deb lib b c" using that newer v total trans by meson
    show "\<not> newer_deb lib a c" if "\<not> newer_deb lib a b" "\<not> newer_deb lib b c" using that newer v trans by meson
  qed
qed

section \<open>Runtime dependencies\<close>

lemma remdups_snoc: "remdups (xs @ [x]) = remdups (filter (\<lambda>y. y \<noteq> x) xs) @ [x]"
  by (induction xs) auto

text \<open>The packages the tokens resolve to, without the package itself, first mention first.\<close>

definition resolved_packages :: "name \<Rightarrow> (string \<Rightarrow> name option) \<Rightarrow> name list \<Rightarrow> name list" where
  "resolved_packages self resolve ts = rev (remdups (rev (filter (\<lambda>p. p \<noteq> self) (List.map_filter resolve ts))))"

lemma runtime_deps_eq:
  "runtime_deps self resolve ts out =
     out @ rev (remdups (rev (filter (\<lambda>p. p \<noteq> self \<and> p \<notin> set out) (List.map_filter resolve ts))))"
proof (induction ts arbitrary: out)
  case (Cons t ts)
  show ?case
  proof (cases "resolve t")
    case (Some pkg)
    show ?thesis
    proof (cases "pkg = self \<or> pkg \<in> set out")
      case False
      then have "filter (\<lambda>y. y \<noteq> pkg) (filter (\<lambda>p. p \<noteq> self \<and> p \<notin> set out) xs) =
          filter (\<lambda>p. p \<noteq> self \<and> p \<notin> set (out @ [pkg])) xs" for xs
        by (auto intro: filter_cong)
      with False Some show ?thesis
        by (simp add: Cons.IH map_filter_simps remdups_snoc rev_filter del: filter_filter)
    qed (use Some in \<open>auto simp: Cons.IH map_filter_simps\<close>)
  qed (simp add: Cons.IH map_filter_simps)
qed (simp add: map_filter_simps)

lemma runtime_deps_resolved: "runtime_deps self resolve ts [] = resolved_packages self resolve ts"
  by (simp add: runtime_deps_eq resolved_packages_def)

lemma resolved_packages_mem:
  "set (resolved_packages self resolve ts) = {pkg. pkg \<noteq> self \<and> (\<exists>t \<in> set ts. resolve t = Some pkg)}"
  "distinct (resolved_packages self resolve ts)"
  by (force simp: resolved_packages_def List.map_filter_def image_iff)+

lemma deb_MaterializeUnit_fields:
  assumes "deb_MaterializeUnit lib entry (Some resolve) m d = Inr u"
  shows "uName u = dePackage entry" "distinct (uRuntimeDeps u)" "dePackage entry \<notin> set (uRuntimeDeps u)" "uDistro u = d"
    "\<forall>pkg \<in> set (uRuntimeDeps u). \<exists>t. resolve t = Some pkg" "uVersion u = deVersion entry"
  using assms
  by (auto simp: deb_MaterializeUnit_def runtime_deps_resolved resolved_packages_mem split: sum.splits)

section \<open>Properties\<close>

text \<open>When every version in a Debian index parses, the provides table answers for exactly the names some entry has or provides, with the first entry of highest version.\<close>

theorem deb_BuildProvidesTable_newest:
  assumes "version_order lib" and "\<forall>e \<in> set es. versioned lib e"
  shows "case deb_Lookup (Some (deb_BuildProvidesTable lib es)) tok of
      None \<Rightarrow> \<forall>e \<in> set es. tok \<notin> set (deb_provided lib e)
    | Some e \<Rightarrow> e \<in> set es \<and> tok \<in> set (deb_provided lib e) \<and>
        (\<forall>e' \<in> set es. tok \<in> set (deb_provided lib e') \<longrightarrow> \<not> newer_deb lib e' e) \<and>
        first_newest (newer_deb lib) (registered tok (deb_registrations lib es)) e"
proof -
  have "\<forall>te \<in> set (deb_registrations lib es). versioned lib (snd te)"
    using assms(2) by (auto simp: deb_registrations_def)
  from newest.table_spec [OF newest_deb [OF assms(1)] this, of tok] show ?thesis
    by (auto simp: deb_Lookup_def deb_BuildProvidesTable_keep deb_registrations_mem split: option.splits)
qed

text \<open>A unit made from a Debian entry depends on the packages that the first named alternative of each relation resolves to, in the order of first mention, once each and never on itself; a relation whose alternative nobody provides is skipped. Making the unit fails only on a dependency or provides line that does not parse.\<close>

theorem deb_MaterializeUnit_spec:
  "case deb_MaterializeUnit lib entry (Some resolve) m d of
     Inl err \<Rightarrow>
       ParseDependency lib (dePreDepends entry @ '', '' @ deDepends entry) = Inl err \<or>
       deProvides entry \<noteq> [] \<and> ParseDependency lib (deProvides entry) = Inl err
   | Inr u \<Rightarrow>
       (\<exists>rels. ParseDependency lib (dePreDepends entry @ '', '' @ deDepends entry) = Inr rels \<and>
          uRuntimeDeps u = resolved_packages (dePackage entry) resolve (concat (map relation_token rels)) \<and>
          set (uRuntimeDeps u) = {pkg. pkg \<noteq> dePackage entry \<and> (\<exists>rel \<in> set rels. \<exists>t \<in> set (relation_token rel). resolve t = Some pkg)}) \<and>
       distinct (uRuntimeDeps u) \<and> uName u = dePackage entry \<and> uVersion u = deVersion entry \<and> uModule u = m \<and> uDistro u = d"
proof (cases "ParseDependency lib (dePreDepends entry @ '', '' @ deDepends entry)")
  case (Inl err)
  then show ?thesis by (simp add: deb_MaterializeUnit_def relationTokens_def)
next
  case (Inr rels)
  show ?thesis
  proof (cases "bareProvides lib (deProvides entry)")
    case (Inl err)
    then have "deProvides entry \<noteq> [] \<and> ParseDependency lib (deProvides entry) = Inl err"
      by (auto simp: bareProvides_def ParseProvides_def split: if_splits sum.splits)
    with Inl Inr show ?thesis by (simp add: deb_MaterializeUnit_def relationTokens_def)
  next
    case (Inr provides)
    with \<open>ParseDependency lib (dePreDepends entry @ '', '' @ deDepends entry) = Inr rels\<close> show ?thesis
      by (auto simp: deb_MaterializeUnit_def relationTokens_def runtime_deps_resolved resolved_packages_mem)
  qed
qed

section \<open>Concrete instances\<close>

text \<open>A library whose versions are numbers and whose lines are names between commas and bars.\<close>

definition ex_possi :: "string \<Rightarrow> parsed_possi" where
  "ex_possi s = \<lparr>ppName = TrimSpace s, ppArch = None, ppVersion = None\<rparr>"

definition ex_deb_lib :: "int deb_lib" where
  "ex_deb_lib =
     \<lparr>dlUnmarshal = (\<lambda>s. None),
      dlDependency = (\<lambda>s. Some (map (\<lambda>rel. map ex_possi (Split rel (CHR ''|''))) (Split s (CHR '','')))),
      dlVersion = (\<lambda>s. if s \<noteq> [] \<and> list_all isDigit s then Some (int (digits_val s)) else None),
      dlCompare = (\<lambda>a b. a - b)\<rparr>"

definition ex_deb :: "name \<Rightarrow> string \<Rightarrow> string \<Rightarrow> string \<Rightarrow> DebEntry" where
  "ex_deb n v dep prov =
     \<lparr>dePackage = n, deSource = [], deVersion = v, deArchitecture = ''amd64'', deMultiArch = [], deMaintainer = [],
      deDescription = [], deSection = [], dePriority = [], deHomepage = [], deInstalledSize = 0, deSize = 0,
      deFilename = [], deSHA256 = [], deSHA1 = [], deMD5sum = [], deDepends = dep, dePreDepends = [], deRecommends = [],
      deSuggests = [], deEnhances = [], deConflicts = [], deBreaks = [], deReplaces = [], deProvides = prov\<rparr>"

lemma ex_version_order: "version_order ex_deb_lib"
  by (auto simp: version_order_def ex_deb_lib_def)

theorem deb_BuildProvidesTable_newest_witness:
  "version_order ex_deb_lib \<and>
   deb_Lookup (Some (deb_BuildProvidesTable ex_deb_lib [ex_deb ''exim'' ''9'' [] ''mta'', ex_deb ''postfix'' ''10'' [] ''mta''])) ''mta'' =
     Some (ex_deb ''postfix'' ''10'' [] ''mta'') \<and>
   \<not> newer_deb ex_deb_lib (ex_deb ''exim'' ''9'' [] ''mta'') (ex_deb ''postfix'' ''10'' [] ''mta'')"
proof -
  let ?a = "ex_deb ''exim'' ''9'' [] ''mta''" and ?b = "ex_deb ''postfix'' ''10'' [] ''mta''"
  have l: "deb_Lookup (Some (deb_BuildProvidesTable ex_deb_lib [?a, ?b])) ''mta'' = Some ?b" by code_simp
  have v: "\<forall>e \<in> set [?a, ?b]. versioned ex_deb_lib e" by code_simp
  have "''mta'' \<in> set (deb_provided ex_deb_lib ?a)" by code_simp
  with deb_BuildProvidesTable_newest [OF ex_version_order v, of "''mta''"] l ex_version_order show ?thesis by simp
qed

theorem deb_MaterializeUnit_spec_witness:
  "\<exists>u. deb_MaterializeUnit ex_deb_lib (ex_deb ''app'' ''1'' ''libc6, mta | exim, app, libc6'' [])
         (Some (\<lambda>t. if t = ''mta'' then Some ''postfix'' else if t = [] then None else Some t)) ''debian.main'' ''debian'' = Inr u \<and>
       distinct (uRuntimeDeps u) \<and> uRuntimeDeps u = [''libc6'', ''postfix'']"
proof -
  let ?r = "deb_MaterializeUnit ex_deb_lib (ex_deb ''app'' ''1'' ''libc6, mta | exim, app, libc6'' [])
         (Some (\<lambda>t. if t = ''mta'' then Some ''postfix'' else if t = [] then None else Some t)) ''debian.main'' ''debian''"
  have r: "map_sum id uRuntimeDeps ?r = Inr [''libc6'', ''postfix'']" by code_simp
  then obtain u where u: "?r = Inr u" "uRuntimeDeps u = [''libc6'', ''postfix'']" by (cases ?r) auto
  with deb_MaterializeUnit_spec [of ex_deb_lib "ex_deb ''app'' ''1'' ''libc6, mta | exim, app, libc6'' []"
      "\<lambda>t. if t = ''mta'' then Some ''postfix'' else if t = [] then None else Some t" "''debian.main''" "''debian''"]
  show ?thesis by auto
qed

text \<open>An alternative that the providers know is not used when it is not the first one.\<close>

lemma alternative_ignored:
  "map_sum id uRuntimeDeps (deb_MaterializeUnit ex_deb_lib (ex_deb ''app'' ''1'' ''mta-a | mta-b'' [])
       (Some (\<lambda>t. if t = ''mta-b'' then Some ''mta-b'' else None)) ''debian.main'' ''debian'') = Inr []"
  by code_simp

text \<open>
  One malformed version between two good ones is compared as a string with both, so the
  table can end with the lower of the two good versions.
\<close>

lemma malformed_version_breaks_newest:
  "map_option deVersion (deb_Lookup (Some (deb_BuildProvidesTable ex_deb_lib
     [ex_deb ''a'' ''10'' [] ''mta'', ex_deb ''b'' ''5x'' [] ''mta'', ex_deb ''c'' ''9'' [] ''mta''])) ''mta'') = Some ''9''"
  by code_simp

end
