(* ===== verification/FeedCore.thy ===== *)
theory FeedCore
  imports ClosureWalk
begin

text \<open>
  What the two kinds of package feed share. \<^verbatim>\<open>feeds/alpine/builtin.go\<close> and \<^verbatim>\<open>feeds/apt/builtin.go\<close>
  are two copies of one design over two index formats: a per-architecture cache, a table by
  name, a provides table, and resolution through the feed itself and then its siblings. The
  definitions here take the format as arguments; the two feed theories instantiate them.
\<close>

section \<open>Tables and siblings\<close>

definition by_name :: "('e \<Rightarrow> name) \<Rightarrow> 'e list \<Rightarrow> (name, 'e) gomap" where
  "by_name pname entries = fold (\<lambda>e m. gm_put (pname e) e m) entries []"

fun resolve_in :: "('e \<Rightarrow> name) \<Rightarrow> (string, 'e) gomap list \<Rightarrow> string \<Rightarrow> name option" where
  "resolve_in pname [] token = None"
| "resolve_in pname (t # ts) token =
     (case map_of t token of Some e \<Rightarrow> Some (pname e) | None \<Rightarrow> resolve_in pname ts token)"

text \<open>The tables of the other feeds, in registration order; the feed itself is skipped.\<close>

definition sibling_tables :: "('s \<Rightarrow> 't option) \<Rightarrow> 's list \<Rightarrow> nat \<Rightarrow> 't list" where
  "sibling_tables provides states self =
     List.map_filter (\<lambda>i. if i = self then None else provides (states ! i)) [0..<length states]"

lemma sibling_tables_mem: "t \<in> set (sibling_tables provides states self) \<Longrightarrow> \<exists>s \<in> set states. provides s = Some t"
  by (auto simp: sibling_tables_def List.map_filter_def split: if_splits intro: nth_mem)

lemma provider_tables_mem:
  assumes "t \<in> set (t0 # sibling_tables provides states self)" and "self < length states" and "provides (states ! self) = Some t0"
  shows "\<exists>s \<in> set states. provides s = Some t"
  using assms sibling_tables_mem [of t provides states self] nth_mem [OF assms(2)] by auto

locale feed_index =
  fixes pname :: "'e \<Rightarrow> name" and table :: "'e list \<Rightarrow> (string, 'e) gomap"
  assumes table_mem: "map_of (table es) tok = Some e \<Longrightarrow> e \<in> set es"
begin

lemma fold_put_last:
  "map_of (fold (\<lambda>e m. gm_put (pname e) e m) es m) n =
     (case filter (\<lambda>e. pname e = n) (rev es) of [] \<Rightarrow> map_of m n | e # _ \<Rightarrow> Some e)"
  by (induction es arbitrary: m) (auto simp: filter_empty_conv split: list.splits)

lemma by_name_mem:
  assumes "map_of (by_name pname es) n = Some e"
  shows "e \<in> set es" "pname e = n"
proof -
  obtain es' where "filter (\<lambda>e. pname e = n) (rev es) = e # es'"
    using assms by (auto simp: by_name_def fold_put_last split: list.splits)
  then have "e \<in> set (filter (\<lambda>e. pname e = n) (rev es))" by simp
  then show "e \<in> set es" "pname e = n" by auto
qed

lemma by_name_None: "map_of (by_name pname es) n = None \<longleftrightarrow> n \<notin> pname ` set es"
proof -
  have "map_of (by_name pname es) n = None \<longleftrightarrow> filter (\<lambda>e. pname e = n) (rev es) = []"
    by (cases "filter (\<lambda>e. pname e = n) (rev es)") (simp_all add: by_name_def fold_put_last)
  then show ?thesis by (auto simp: filter_empty_conv)
qed

lemma resolve_in_mem:
  assumes "resolve_in pname ts tok = Some n" and "\<And>t. t \<in> set ts \<Longrightarrow> \<exists>es \<in> E. t = table es"
  shows "\<exists>es \<in> E. n \<in> pname ` set es"
proof -
  have "\<exists>t \<in> set ts. \<exists>e. map_of t tok = Some e \<and> pname e = n"
    using assms(1) by (induction ts) (auto split: option.splits)
  then obtain t e where t: "t \<in> set ts" "map_of t tok = Some e" "pname e = n" by blast
  obtain es where "es \<in> E" "t = table es" using assms(2) [OF t(1)] by blast
  with t table_mem show ?thesis by blast
qed

end

section \<open>The cache of parsed indexes\<close>

text \<open>
  An index is loaded once per architecture and kept. As long as the files do not change the
  cache is transparent.
\<close>

definition cached :: "(string \<Rightarrow> 'x + 'c) \<Rightarrow> string \<Rightarrow> (string, 'c) gomap \<Rightarrow> ('x + 'c) \<times> (string, 'c) gomap" where
  "cached load arch byArch =
     (case map_of byArch arch of
        Some c \<Rightarrow> (Inr c, byArch)
      | None \<Rightarrow> (case load arch of Inl err \<Rightarrow> (Inl err, byArch) | Inr c \<Rightarrow> (Inr c, gm_put arch c byArch)))"

definition cache_ok :: "(string \<Rightarrow> 'x + 'c) \<Rightarrow> (string, 'c) gomap \<Rightarrow> bool" where
  "cache_ok load byArch \<longleftrightarrow> (\<forall>arch c. map_of byArch arch = Some c \<longrightarrow> load arch = Inr c)"

lemma cached_transparent:
  assumes "cache_ok load byArch"
  shows "fst (cached load arch byArch) = load arch" "cache_ok load (snd (cached load arch byArch))"
  using assms by (auto simp: cached_def cache_ok_def split: option.splits sum.splits)

section \<open>Walks over feeds\<close>

text \<open>
  A walk can only reach names of the catalog and names under which some feed makes a unit,
  so it ends when the feeds know finitely many packages.
\<close>

lemma closure_over_feeds:
  assumes "finite P" and "gm_ok (eUnitsByModule e)"
    and "\<And>sm n u. sm \<in> set (eSyntheticModules e) \<Longrightarrow> feed_lookup sm n = Inr (Some u) \<Longrightarrow> uName u \<in> P"
  shows "\<exists>r. closure e roots d = Some r"
proof -
  let ?N = "uName ` (snd ` set (eUnits e)) \<union> uName ` (\<Union>mu \<in> set (eUnitsByModule e). snd ` set (snd mu)) \<union> P"
  have "finite ?N" using assms(1) by auto
  moreover have "units_all (\<lambda>u. uName u \<in> ?N) e"
    unfolding units_all_def
  proof (intro conjI allI impI ballI)
    show "gm_ok (eUnitsByModule e)" by (rule assms(2))
  next
    fix n u
    assume "map_of (eUnits e) n = Some u"
    then have "(n, u) \<in> set (eUnits e)" by (rule map_of_SomeD)
    then show "uName u \<in> ?N" by force
  next
    fix m n u
    assume "module_unit e m n = Some u"
    then obtain b where "(m, b) \<in> set (eUnitsByModule e)" "(n, u) \<in> set b"
      by (auto simp: module_unit_def dest: map_of_SomeD split: option.splits)
    then show "uName u \<in> ?N" by force
  next
    fix sm n u
    assume "sm \<in> set (eSyntheticModules e)" and "feed_lookup sm n = Inr (Some u)"
    then have "uName u \<in> P" by (rule assms(3))
    then show "uName (stamp_feed_unit sm u) \<in> ?N" by (simp add: stamp_feed_unit_def)
  qed
  ultimately show ?thesis
    using closure_walk_total [of ?N e d roots "[]"] by (auto simp: closure_def split: sum.splits)
qed

end
