(* ===== verification/AlpineFeed.thy ===== *)
theory AlpineFeed
  imports ApkIndex Arch FeedCore Starlark
begin

text \<open>
  \<^verbatim>\<open>internal/feeds/alpine/builtin.go\<close>: the feeds that turn an Alpine package index into units on
  demand, over the shared parts of theory FeedCore. The index files are read through an
  argument.
\<close>

section \<open>Declaration of a feed\<close>

record alpineFeedArgs =
  faName :: name
  faUrl :: string
  faBranch :: string
  faSection :: string
  faIndex :: string
  faKeys :: "string list"

datatype FeedError =
    FieldRequired string
  | NotInModule
  | NoActiveArch
  | UnsupportedArch string
  | IndexMissing string
  | IndexMalformed string IndexError
  | CannotMaterialize name MaterializeError
  | NotRegistered EngineError

definition StringList :: "sval list \<Rightarrow> string list" where
  "StringList xs = concat (map (\<lambda>v. case v of SString s \<Rightarrow> [s] | _ \<Rightarrow> []) xs)"

definition set_kwarg :: "string \<times> sval \<Rightarrow> alpineFeedArgs \<Rightarrow> alpineFeedArgs" where
  "set_kwarg kv a =
     (case snd kv of
        SString v \<Rightarrow>
          (if fst kv = ''name'' then a\<lparr>faName := v\<rparr>
           else if fst kv = ''url'' then a\<lparr>faUrl := v\<rparr>
           else if fst kv = ''branch'' then a\<lparr>faBranch := v\<rparr>
           else if fst kv = ''section'' then a\<lparr>faSection := v\<rparr>
           else if fst kv = ''index'' then a\<lparr>faIndex := v\<rparr>
           else a)
      | SList xs \<Rightarrow> if fst kv = ''keys'' then a\<lparr>faKeys := StringList xs\<rparr> else a
      | _ \<Rightarrow> a)"

definition parseKwargs :: "(string \<times> sval) list \<Rightarrow> FeedError + alpineFeedArgs" where
  "parseKwargs kwargs =
     (let a = fold set_kwarg kwargs \<lparr>faName = [], faUrl = [], faBranch = [], faSection = [], faIndex = [], faKeys = []\<rparr> in
      if faName a = [] then Inl (FieldRequired ''name'')
      else if faUrl a = [] then Inl (FieldRequired ''url'')
      else if faBranch a = [] then Inl (FieldRequired ''branch'')
      else if faSection a = [] then Inl (FieldRequired ''section'')
      else if faIndex a = [] then Inl (FieldRequired ''index'')
      else Inr a)"

record archState =
  asModule :: name
  asParent :: name
  asIndexRoot :: string
  asArgs :: alpineFeedArgs

section \<open>The index of an architecture\<close>

record archCache =
  acEntries :: "ApkEntry list"
  acProvides :: apk_table
  acByName :: "(name, ApkEntry) gomap"

type_synonym file_reader = "string \<Rightarrow> string option"

text \<open>The index of an architecture; the cache around it is transparent (FeedCore).\<close>

definition cacheFor :: "file_reader \<Rightarrow> archState \<Rightarrow> string \<Rightarrow> FeedError + archCache" where
  "cacheFor rd s arch =
     (if Validate arch \<noteq> None then Inl (UnsupportedArch arch)
      else (let indexPath = PathJoin [asIndexRoot s, Apk arch, ''APKINDEX''] in
            case rd indexPath of
              None \<Rightarrow> Inl (IndexMissing indexPath)
            | Some data \<Rightarrow>
                (case ParseIndex data of
                   Inl err \<Rightarrow> Inl (IndexMalformed indexPath err)
                 | Inr entries \<Rightarrow>
                     Inr \<lparr>acEntries = entries, acProvides = apk_BuildProvidesTable entries,
                          acByName = by_name aeName entries\<rparr>)))"

definition feed_provides :: "file_reader \<Rightarrow> archState \<Rightarrow> string \<Rightarrow> apk_table option" where
  "feed_provides rd s arch = (case cacheFor rd s arch of Inl _ \<Rightarrow> None | Inr c \<Rightarrow> Some (acProvides c))"

definition feed_names :: "file_reader \<Rightarrow> archState \<Rightarrow> string \<Rightarrow> name list" where
  "feed_names rd s arch =
     (if arch = [] then []
      else case cacheFor rd s arch of Inl _ \<Rightarrow> [] | Inr c \<Rightarrow> map aeName (acEntries c))"

section \<open>Providers across feeds\<close>

definition multi_Resolve :: "apk_table \<Rightarrow> apk_table list \<Rightarrow> providers" where
  "multi_Resolve primary siblings token = resolve_in aeName (primary # siblings) token"

section \<open>Lookup\<close>

definition install_steps :: "string \<Rightarrow> Step list" where
  "install_steps asset =
     [\<lparr>stCommand = ''mkdir -p $DESTDIR'', stFn = None, stInstall = None\<rparr>,
      \<lparr>stCommand = ''tar -xzpf ./'' @ asset @ '' -C $DESTDIR '' @
         ''--exclude=.PKGINFO '' @ ''--exclude=.pre-install --exclude=.post-install '' @
         ''--exclude=.pre-upgrade --exclude=.post-upgrade '' @ ''--exclude=.pre-deinstall --exclude=.post-deinstall '' @
         ''--exclude=.trigger '' @ ''--exclude=.SIGN.*'', stFn = None, stInstall = None\<rparr>]"

definition populateBuildFields :: "archState \<Rightarrow> ApkEntry \<Rightarrow> string \<Rightarrow> Unit \<Rightarrow> Unit" where
  "populateBuildFields s entry arch u =
     (let asset = aeName entry @ ''-'' @ aeVersion entry @ ''.apk'' in
      u\<lparr>uSource := TrimSuffix (faUrl (asArgs s)) ''/'' @ ''/'' @ faBranch (asArgs s) @ ''/'' @
           faSection (asArgs s) @ ''/'' @ Apk arch @ ''/'' @ asset,
        uPassthroughAPK := asset, uContainer := ''toolchain-musl'', uContainerArch := ''target'', uSandbox := False,
        uDistro := ''alpine'',
        uTasks := [\<lparr>tName = ''install'', tContainer = [], tDistros = [], tSteps = install_steps asset\<rparr>]\<rparr>)"

definition alpine_lookup :: "file_reader \<Rightarrow> archState list \<Rightarrow> nat \<Rightarrow> string \<Rightarrow> name \<Rightarrow> FeedError + Unit option" where
  "alpine_lookup rd states self arch name =
     (if arch = [] then Inl NoActiveArch
      else (let s = states ! self in
            case cacheFor rd s arch of
              Inl err \<Rightarrow> Inl err
            | Inr c \<Rightarrow>
                (case map_of (acByName c) name of
                   None \<Rightarrow> Inr None
                 | Some entry \<Rightarrow>
                     (case apk_MaterializeUnit entry
                             (Some (multi_Resolve (acProvides c) (sibling_tables (\<lambda>s. feed_provides rd s arch) states self))) (asModule s) of
                        Inl err \<Rightarrow> Inl (CannotMaterialize name err)
                      | Inr u \<Rightarrow> Inr (Some (populateBuildFields s entry arch u))))))"

definition feed_error_text :: "FeedError \<Rightarrow> string" where
  "feed_error_text err =
     (case err of
        FieldRequired f \<Rightarrow> f @ '' is required''
      | NotInModule \<Rightarrow> ''alpine_feed: must be called from a module''
      | NoActiveArch \<Rightarrow> ''alpine_feed: no active arch''
      | UnsupportedArch a \<Rightarrow> ''alpine_feed: unsupported arch '' @ a
      | IndexMissing p \<Rightarrow> ''alpine_feed: load '' @ p
      | IndexMalformed p _ \<Rightarrow> ''alpine_feed: load '' @ p
      | CannotMaterialize n _ \<Rightarrow> ''apkindex: materialize '' @ n
      | NotRegistered _ \<Rightarrow> ''alpine_feed'')"

definition buildSyntheticModule :: "file_reader \<Rightarrow> archState list \<Rightarrow> nat \<Rightarrow> string \<Rightarrow> SyntheticModule" where
  "buildSyntheticModule rd states self arch =
     (let s = states ! self in
      \<lparr>smName = asModule s, smParent = asParent s, smSuite = [], smCodename = [], smDistro = ''alpine'',
       smRelease = faBranch (asArgs s), smPriority = 0,
       smLookup = Some (\<lambda>name. case alpine_lookup rd states self arch name of
                                 Inl err \<Rightarrow> Inl (feed_error_text err) | Inr r \<Rightarrow> Inr r),
       smNames = Some (feed_names rd s arch)\<rparr>)"

text \<open>
  The feeds declared so far, and the positions of those whose module the engine accepted.
  The callbacks of a module run after every declaration, so they see all the feeds.
\<close>

record feed_state =
  fsStates :: "archState list"
  fsRegistered :: "nat list"

definition registerFeedState :: "archState \<Rightarrow> feed_state \<Rightarrow> feed_state" where
  "registerFeedState s fs = fs\<lparr>fsStates := fsStates fs @ [s]\<rparr>"

definition feed_modules :: "file_reader \<Rightarrow> string \<Rightarrow> feed_state \<Rightarrow> SyntheticModule list" where
  "feed_modules rd arch fs = map (\<lambda>i. buildSyntheticModule rd (fsStates fs) i arch) (fsRegistered fs)"

definition makeAlpineFeed ::
  "file_reader \<Rightarrow> string \<Rightarrow> Engine \<Rightarrow> string \<Rightarrow> kwargs \<Rightarrow> feed_state \<Rightarrow> feed_state \<times> FeedError option" where
  "makeAlpineFeed rd arch eng moduleDir kwargs fs =
     (case parseKwargs kwargs of
        Inl err \<Rightarrow> (fs, Some err)
      | Inr args \<Rightarrow>
          (let parent = eCurrentModule eng in
           if parent = [] then (fs, Some NotInModule)
           else (let s = \<lparr>asModule = parent @ ''.'' @ faName args, asParent = parent,
                         asIndexRoot = (if IsAbs (faIndex args) then faIndex args else PathJoin [moduleDir, faIndex args]),
                         asArgs = args\<rparr>;
                     self = length (fsStates fs);
                     fs' = registerFeedState s fs;
                     sm = buildSyntheticModule rd (fsStates fs') self arch
                 in case RegisterSyntheticModule
                           (eng\<lparr>eSyntheticModules := eSyntheticModules eng @ feed_modules rd arch fs'\<rparr>) (Some sm) of
                      Inl err \<Rightarrow> (fs', Some (NotRegistered err))
                    | Inr _ \<Rightarrow> (fs'\<lparr>fsRegistered := fsRegistered fs' @ [self]\<rparr>, None))))"

section \<open>Declarations keep module names apart\<close>

definition feeds_ok :: "file_reader \<Rightarrow> string \<Rightarrow> Engine \<Rightarrow> feed_state \<Rightarrow> bool" where
  "feeds_ok rd arch eng fs \<longleftrightarrow>
     list_all (\<lambda>i. i < length (fsStates fs)) (fsRegistered fs) \<and>
     distinct (map smName (eSyntheticModules eng @ feed_modules rd arch fs))"

lemma smName_build [simp]: "smName (buildSyntheticModule rd states i arch) = asModule (states ! i)"
  by (simp add: buildSyntheticModule_def Let_def)

lemma feed_modules_registered:
  assumes "list_all (\<lambda>i. i < length (fsStates fs)) (fsRegistered fs)"
  shows "map smName (feed_modules rd arch (registerFeedState s fs)) = map smName (feed_modules rd arch fs)"
  using assms by (simp add: feed_modules_def registerFeedState_def list_all_iff nth_append)

lemma makeAlpineFeed_ok:
  assumes "feeds_ok rd arch eng fs"
  shows "feeds_ok rd arch eng (fst (makeAlpineFeed rd arch eng moduleDir kwargs fs))"
proof -
  have step: "feeds_ok rd arch eng (registerFeedState s fs)" for s
  proof -
    have "list_all (\<lambda>i. i < length (fsStates (registerFeedState s fs))) (fsRegistered (registerFeedState s fs))"
      using assms by (auto simp: feeds_ok_def registerFeedState_def list_all_iff)
    then show ?thesis using assms feed_modules_registered [of fs rd arch s] by (simp add: feeds_ok_def)
  qed
  have new: "feeds_ok rd arch eng ((registerFeedState s fs)\<lparr>fsRegistered := fsRegistered (registerFeedState s fs) @ [length (fsStates fs)]\<rparr>)"
    if "RegisterSyntheticModule (eng\<lparr>eSyntheticModules := eSyntheticModules eng @ feed_modules rd arch (registerFeedState s fs)\<rparr>)
          (Some (buildSyntheticModule rd (fsStates (registerFeedState s fs)) (length (fsStates fs)) arch)) = Inr e'" for s e'
  proof -
    let ?fs = "registerFeedState s fs"
    have "\<not> list_ex (\<lambda>m. smName m = asModule (fsStates ?fs ! length (fsStates fs))) (eSyntheticModules eng @ feed_modules rd arch ?fs)"
      using that by (auto simp: RegisterSyntheticModule_def split: if_splits)
    moreover have "length (fsStates fs) < length (fsStates ?fs)" by (simp add: registerFeedState_def)
    ultimately show ?thesis using step [of s] by (auto simp: feeds_ok_def feed_modules_def list_all_iff list_ex_iff ball_Un)
  qed
  show ?thesis using assms step new by (simp add: makeAlpineFeed_def Let_def split: sum.split)
qed

section \<open>What a lookup finds\<close>

definition feed_packages :: "file_reader \<Rightarrow> archState list \<Rightarrow> string \<Rightarrow> name set" where
  "feed_packages rd states arch = (\<Union>s \<in> set states. set (feed_names rd s arch))"

lemma finite_feed_packages: "finite (feed_packages rd states arch)"
  by (simp add: feed_packages_def)

text \<open>What the table of a feed answers is an entry of that feed.\<close>

interpretation apk_feed: feed_index aeName apk_BuildProvidesTable
proof unfold_locales
  fix es tok e
  assume "map_of (apk_BuildProvidesTable es) tok = Some e"
  then show "e \<in> set es"
    using fold_keep_newer_mem [of newer_entry "registrations es" "[]" tok e] by (simp add: BuildProvidesTable_keep registrations_mem)
qed

lemma cacheFor_fields:
  assumes "cacheFor rd s arch = Inr c"
  shows "acByName c = by_name aeName (acEntries c)" "acProvides c = apk_BuildProvidesTable (acEntries c)"
  using assms by (auto simp: cacheFor_def Let_def split: if_splits option.splits sum.splits)

lemma multi_Resolve_packages:
  assumes "self < length states" and "cacheFor rd (states ! self) arch = Inr c" and "arch \<noteq> []"
    and "multi_Resolve (acProvides c) (sibling_tables (\<lambda>s. feed_provides rd s arch) states self) tok = Some n"
  shows "n \<in> feed_packages rd states arch"
proof -
  let ?E = "{acEntries c | s c. s \<in> set states \<and> cacheFor rd s arch = Inr c}"
  have "\<exists>es \<in> ?E. t = apk_BuildProvidesTable es" if t: "t \<in> set (acProvides c # sibling_tables (\<lambda>s. feed_provides rd s arch) states self)" for t
  proof -
    have "\<exists>s \<in> set states. feed_provides rd s arch = Some t"
      using provider_tables_mem [OF t assms(1)] assms(2) by (simp add: feed_provides_def)
    then obtain s where s: "s \<in> set states" "feed_provides rd s arch = Some t" by blast
    moreover obtain c' where "cacheFor rd s arch = Inr c'" "t = acProvides c'"
      using s(2) by (cases "cacheFor rd s arch") (auto simp: feed_provides_def)
    ultimately have "s \<in> set states" "cacheFor rd s arch = Inr c'" "t = acProvides c'" by auto
    then show ?thesis using cacheFor_fields(2) by blast
  qed
  then obtain es where "es \<in> ?E" "n \<in> aeName ` set es"
    using apk_feed.resolve_in_mem [of _ tok n ?E] assms(4) unfolding multi_Resolve_def by blast
  then obtain s c' where "s \<in> set states" "cacheFor rd s arch = Inr c'" "n \<in> aeName ` set (acEntries c')" by blast
  then show ?thesis using assms(3) unfolding feed_packages_def by (intro UN_I [of s]) (simp_all add: feed_names_def)
qed

lemma MaterializeUnit_fields:
  assumes "apk_MaterializeUnit entry (Some resolve) m = Inr u"
  shows "uName u = aeName entry" "distinct (uRuntimeDeps u)" "aeName entry \<notin> set (uRuntimeDeps u)"
    "set (uRuntimeDeps u) = needed_packages (aeName entry) resolve (aeDeps entry)"
proof -
  obtain deps where deps: "resolve_deps (aeName entry) resolve (aeDeps entry) [] = Inr deps"
    "uName u = aeName entry" "uRuntimeDeps u = deps"
    using assms by (auto simp: apk_MaterializeUnit_def resolveRuntimeDeps_def Let_def split: sum.splits prod.splits)
  have "\<forall>raw \<in> set (aeDeps entry). dep_failure (aeName entry) resolve raw = None"
    using deps(1) resolve_deps_error [of "aeName entry" resolve "aeDeps entry" "[]"]
      split_list_first_prop [of "aeDeps entry" "\<lambda>r. dep_failure (aeName entry) resolve r \<noteq> None"] by fastforce
  from resolve_deps_ok [OF this, of "[]"] deps
  show "uName u = aeName entry" "distinct (uRuntimeDeps u)"
    "set (uRuntimeDeps u) = needed_packages (aeName entry) resolve (aeDeps entry)" by auto
  then show "aeName entry \<notin> set (uRuntimeDeps u)" by (simp add: needed_packages_def)
qed

text \<open>The case of a lookup that finds a package.\<close>

lemma alpine_lookup_Some:
  assumes "alpine_lookup rd states self arch name = Inr (Some u)"
  obtains c entry v where "arch \<noteq> []" "cacheFor rd (states ! self) arch = Inr c" "map_of (acByName c) name = Some entry"
    "apk_MaterializeUnit entry (Some (multi_Resolve (acProvides c) (sibling_tables (\<lambda>s. feed_provides rd s arch) states self)))
       (asModule (states ! self)) = Inr v" "u = populateBuildFields (states ! self) entry arch v"
  using assms by (auto simp: alpine_lookup_def Let_def split: if_splits sum.splits option.splits)

lemma populate_fields [simp]:
  "uName (populateBuildFields s entry arch u) = uName u" "uDistro (populateBuildFields s entry arch u) = ''alpine''"
  "uRuntimeDeps (populateBuildFields s entry arch u) = uRuntimeDeps u"
  by (simp_all add: populateBuildFields_def Let_def)

lemma alpine_lookup_found:
  assumes "alpine_lookup rd states self arch name = Inr (Some u)" and "self < length states"
  shows "uName u = name" "name \<in> set (feed_names rd (states ! self) arch)" "uDistro u = ''alpine''"
    "distinct (uRuntimeDeps u)" "name \<notin> set (uRuntimeDeps u)" "set (uRuntimeDeps u) \<subseteq> feed_packages rd states arch"
proof -
  obtain c entry v where *: "arch \<noteq> []" "cacheFor rd (states ! self) arch = Inr c" "map_of (acByName c) name = Some entry"
    "apk_MaterializeUnit entry (Some (multi_Resolve (acProvides c) (sibling_tables (\<lambda>s. feed_provides rd s arch) states self)))
       (asModule (states ! self)) = Inr v" "u = populateBuildFields (states ! self) entry arch v"
    using alpine_lookup_Some [OF assms(1)] by metis
  note mem = apk_feed.by_name_mem [OF *(3) [unfolded cacheFor_fields(1) [OF *(2)]]] and mat = MaterializeUnit_fields [OF *(4)]
  from mem mat *(5) show "uName u = name" "distinct (uRuntimeDeps u)" "name \<notin> set (uRuntimeDeps u)" "uDistro u = ''alpine''"
    by simp_all
  show "name \<in> set (feed_names rd (states ! self) arch)" using mem *(1,2) by (auto simp: feed_names_def)
  show "set (uRuntimeDeps u) \<subseteq> feed_packages rd states arch"
    using mat(4) *(5) multi_Resolve_packages [OF assms(2) *(2,1)] by (auto simp: needed_packages_def)
qed

section \<open>Properties\<close>

text \<open>
  A unit that an Alpine feed makes has the name that was looked up and belongs to the
  distro \<^verbatim>\<open>alpine\<close>; each of its runtime dependencies is a package of one of the feeds, listed
  once and never the unit itself. Where the index can be read, a lookup misses exactly the
  names that the feed does not list.
\<close>

theorem alpine_lookup_spec:
  assumes "self < length states" and "arch \<noteq> []" and "cacheFor rd (states ! self) arch = Inr c"
  shows "case alpine_lookup rd states self arch name of
      Inl err \<Rightarrow> name \<in> set (feed_names rd (states ! self) arch) \<and> (\<exists>e. err = CannotMaterialize name e)
    | Inr None \<Rightarrow> name \<notin> set (feed_names rd (states ! self) arch)
    | Inr (Some u) \<Rightarrow> uName u = name \<and> name \<in> set (feed_names rd (states ! self) arch) \<and> uDistro u = ''alpine'' \<and>
        distinct (uRuntimeDeps u) \<and> name \<notin> set (uRuntimeDeps u) \<and>
        set (uRuntimeDeps u) \<subseteq> feed_packages rd states arch"
proof (cases "map_of (acByName c) name")
  case None
  then have "name \<notin> aeName ` set (acEntries c)" using apk_feed.by_name_None cacheFor_fields(1) [OF assms(3)] by metis
  with None assms show ?thesis by (simp add: alpine_lookup_def feed_names_def Let_def)
next
  case (Some entry)
  have listed: "name \<in> set (feed_names rd (states ! self) arch)"
    using apk_feed.by_name_mem [OF Some [unfolded cacheFor_fields(1) [OF assms(3)]]] assms by (auto simp: feed_names_def)
  show ?thesis
  proof (cases "alpine_lookup rd states self arch name")
    case (Inl err)
    then have "\<exists>e. err = CannotMaterialize name e"
      using Some assms by (auto simp: alpine_lookup_def Let_def split: sum.splits)
    with Inl listed show ?thesis by simp
  next
    case (Inr r)
    then obtain u where "r = Some u"
      using Some assms by (auto simp: alpine_lookup_def Let_def split: sum.splits)
    with Inr alpine_lookup_found [of rd states self arch name u] assms(1) listed show ?thesis by simp
  qed
qed

text \<open>
  Over Alpine feeds the closure walk of an image always returns, whatever the indexes
  hold: the names a walk can reach are those of the catalog and of the index entries.
\<close>

theorem alpine_closure_returns:
  assumes "eSyntheticModules e = map (\<lambda>i. (buildSyntheticModule rd states i arch)\<lparr>smPriority := prio i\<rparr>) [0..<length states]"
    and "gm_ok (eUnitsByModule e)"
  shows "\<exists>r. closure e roots d = Some r"
proof (rule closure_over_feeds [OF finite_feed_packages assms(2)])
  fix sm n u
  assume "sm \<in> set (eSyntheticModules e)" and f: "feed_lookup sm n = Inr (Some u)"
  then obtain i where i: "i < length states" "sm = (buildSyntheticModule rd states i arch)\<lparr>smPriority := prio i\<rparr>"
    using assms(1) by auto
  then have "alpine_lookup rd states i arch n = Inr (Some u)"
    using f by (auto simp: feed_lookup_def buildSyntheticModule_def Let_def split: sum.splits)
  from alpine_lookup_found(1,2) [OF this i(1)] show "uName u \<in> feed_packages rd states arch"
    using i(1) nth_mem unfolding feed_packages_def by blast
qed

definition ex_feeds :: "archState list" where
  "ex_feeds = [\<lparr>asModule = ''alpine.main'', asParent = ''alpine'', asIndexRoot = ''/idx'',
     asArgs = \<lparr>faName = ''main'', faUrl = ''https://m/'', faBranch = ''v3'', faSection = ''main'', faIndex = ''/idx'', faKeys = []\<rparr>\<rparr>]"

definition ex_text :: string where
  "ex_text = ''P:a'' @ [CHR 0x0A] @ ''D:b'' @ [CHR 0x0A, CHR 0x0A] @ ''P:b'' @ [CHR 0x0A] @ ''D:a'' @ [CHR 0x0A]"

definition ex_reader :: file_reader where
  "ex_reader path = Some ex_text"

lemma ex_index:
  "ParseIndex ex_text =
     Inr [zero_entry\<lparr>aeName := ''a'', aeDeps := [''b'']\<rparr>, zero_entry\<lparr>aeName := ''b'', aeDeps := [''a'']\<rparr>]"
  by (simp add: ex_text_def ParseIndex_def raw_lines_def init_index_def max_line_def drop_cr_def setField_def flush_entry_def
      zero_entry_def Fields_def isSpace_def)

lemma ex_cache:
  "cacheFor ex_reader (ex_feeds ! 0) ''x86_64'' =
     (let a = zero_entry\<lparr>aeName := ''a'', aeDeps := [''b'']\<rparr>; b = zero_entry\<lparr>aeName := ''b'', aeDeps := [''a'']\<rparr>
      in Inr \<lparr>acEntries = [a, b], acProvides = [(''a'', a), (''b'', b)], acByName = [(''a'', a), (''b'', b)]\<rparr>)"
proof -
  have v: "Validate ''x86_64'' = None" by (simp add: Validate_def IsSupported_def apkTokens_def gm_has_def)
  show ?thesis
    unfolding cacheFor_def ex_reader_def v
    by (simp add: ex_index apk_BuildProvidesTable_def register_entry_def apk_register_def strip_version_def zero_entry_def Let_def by_name_def)
qed

theorem alpine_lookup_spec_witness:
  "\<exists>u. alpine_lookup ex_reader ex_feeds 0 ''x86_64'' ''a'' = Inr (Some u) \<and> uRuntimeDeps u = [''b''] \<and> uDistro u = ''alpine''"
proof -
  have d: "ParseDep ''b'' = Inr \<lparr>dpKind = DepKindName, dpName = ''b'', dpVersion = [], dpOp = OpNone, dpConflict = False, dpRaw = ''b''\<rparr>"
    by code_simp
  obtain v r where vr: "splitPkgver [] = (v, r)" by (cases "splitPkgver []")
  have "length ex_feeds = 1" by (simp add: ex_feeds_def)
  then obtain u where u: "alpine_lookup ex_reader ex_feeds 0 ''x86_64'' ''a'' = Inr (Some u)" "uRuntimeDeps u = [''b'']"
    by (simp add: alpine_lookup_def ex_cache Let_def apk_MaterializeUnit_def resolveRuntimeDeps_def resolve_deps_step
        dep_failure_def dep_packages_def needs_def d multi_Resolve_def apk_Lookup_def vr zero_entry_def)
  obtain c where "cacheFor ex_reader (ex_feeds ! 0) ''x86_64'' = Inr c" using ex_cache by (simp add: Let_def)
  from alpine_lookup_spec [OF _ _ this, of "''a''"] u show ?thesis by (simp add: ex_feeds_def)
qed

theorem alpine_closure_returns_witness:
  "\<exists>r. closure (NewEngine\<lparr>eSyntheticModules := [(buildSyntheticModule ex_reader ex_feeds 0 ''x86_64'')\<lparr>smPriority := -1\<rparr>]\<rparr>)
     [''a''] ''alpine'' = Some r"
  by (rule alpine_closure_returns [where rd = ex_reader and states = ex_feeds and arch = "''x86_64''" and prio = "\<lambda>_. -1"])
    (simp_all add: NewEngine_def ex_feeds_def)

end
