(* ===== verification/AptFeed.thy ===== *)
theory AptFeed
  imports Dpkg Arch FeedCore AlpineFeed
begin

text \<open>
  \<^verbatim>\<open>internal/feeds/apt/builtin.go\<close>: the feeds of the Debian family, over the shared parts of theory
  FeedCore and the Debian index of theory Dpkg. One builtin serves every distro of the
  family; the distro a feed declares is stamped on its units. The last section joins the two
  kinds of feed in one engine.
\<close>

section \<open>Declaration of a feed\<close>

record aptFeedArgs =
  paName :: name
  paDistro :: name
  paUrl :: string
  paArchURLs :: "(string, string) gomap"
  paSuite :: string
  paCodename :: string
  paComponent :: string
  paArches :: "string list"
  paIndex :: string
  paKeyring :: string

datatype AptError =
    AptFieldRequired string
  | AptNotInModule
  | AptNoActiveArch
  | AptUnsupportedArch string
  | AptIndexMissing string
  | AptIndexMalformed string DebError
  | AptCannotMaterialize name DebError
  | AptNotRegistered EngineError

definition stringDictFrom :: "(sval \<times> sval) list \<Rightarrow> (string, string) gomap" where
  "stringDictFrom d = string_map d"

definition baseURLFor :: "aptFeedArgs \<Rightarrow> string \<Rightarrow> string" where
  "baseURLFor a arch =
     (case map_of (paArchURLs a) arch of Some u \<Rightarrow> if u \<noteq> [] then u else paUrl a | None \<Rightarrow> paUrl a)"

definition apt_set_kwarg :: "string \<times> sval \<Rightarrow> aptFeedArgs \<Rightarrow> aptFeedArgs" where
  "apt_set_kwarg kv a =
     (case snd kv of
        SString v \<Rightarrow>
          (if fst kv = ''name'' then a\<lparr>paName := v\<rparr>
           else if fst kv = ''distro'' then a\<lparr>paDistro := v\<rparr>
           else if fst kv = ''url'' then a\<lparr>paUrl := v\<rparr>
           else if fst kv = ''suite'' then a\<lparr>paSuite := v\<rparr>
           else if fst kv = ''codename'' then a\<lparr>paCodename := v\<rparr>
           else if fst kv = ''component'' then a\<lparr>paComponent := v\<rparr>
           else if fst kv = ''index'' then a\<lparr>paIndex := v\<rparr>
           else if fst kv = ''keyring'' then a\<lparr>paKeyring := v\<rparr>
           else a)
      | SDict d \<Rightarrow> if fst kv = ''arch_urls'' then a\<lparr>paArchURLs := stringDictFrom d\<rparr> else a
      | SList xs \<Rightarrow> if fst kv = ''arches'' then a\<lparr>paArches := StringList xs\<rparr> else a
      | _ \<Rightarrow> a)"

definition apt_parseKwargs :: "(string \<times> sval) list \<Rightarrow> AptError + aptFeedArgs" where
  "apt_parseKwargs kwargs =
     (let a = fold apt_set_kwarg kwargs
                \<lparr>paName = [], paDistro = [], paUrl = [], paArchURLs = [], paSuite = [], paCodename = [],
                 paComponent = [], paArches = [], paIndex = [], paKeyring = []\<rparr> in
      if paName a = [] then Inl (AptFieldRequired ''name'')
      else if paDistro a = [] then Inl (AptFieldRequired ''distro'')
      else if paUrl a = [] then Inl (AptFieldRequired ''url'')
      else if paSuite a = [] then Inl (AptFieldRequired ''suite'')
      else if paCodename a = [] then Inl (AptFieldRequired ''codename'')
      else if paComponent a = [] then Inl (AptFieldRequired ''component'')
      else if paIndex a = [] then Inl (AptFieldRequired ''index'')
      else if paArches a = [] then Inl (AptFieldRequired ''arches'')
      else Inr a)"

record aptState =
  ptModule :: name
  ptParent :: name
  ptIndexRoot :: string
  ptArgs :: aptFeedArgs

section \<open>The index of an architecture\<close>

record aptCache =
  pcEntries :: "DebEntry list"
  pcProvides :: deb_table
  pcByName :: "(name, DebEntry) gomap"

definition apt_cacheFor :: "'v deb_lib \<Rightarrow> file_reader \<Rightarrow> aptState \<Rightarrow> string \<Rightarrow> AptError + aptCache" where
  "apt_cacheFor lib rd s arch =
     (if Validate arch \<noteq> None then Inl (AptUnsupportedArch arch)
      else (let indexPath = PathJoin [ptIndexRoot s, Deb arch, ''Packages''] in
            case rd indexPath of
              None \<Rightarrow> Inl (AptIndexMissing indexPath)
            | Some data \<Rightarrow>
                (case deb_ParseIndex lib data of
                   Inl err \<Rightarrow> Inl (AptIndexMalformed indexPath err)
                 | Inr entries \<Rightarrow>
                     Inr \<lparr>pcEntries = entries, pcProvides = deb_BuildProvidesTable lib entries,
                          pcByName = by_name dePackage entries\<rparr>)))"

definition apt_provides :: "'v deb_lib \<Rightarrow> file_reader \<Rightarrow> string \<Rightarrow> aptState \<Rightarrow> deb_table option" where
  "apt_provides lib rd arch s = (case apt_cacheFor lib rd s arch of Inl _ \<Rightarrow> None | Inr c \<Rightarrow> Some (pcProvides c))"

definition apt_names :: "'v deb_lib \<Rightarrow> file_reader \<Rightarrow> aptState \<Rightarrow> string \<Rightarrow> name list" where
  "apt_names lib rd s arch =
     (if arch = [] then []
      else case apt_cacheFor lib rd s arch of Inl _ \<Rightarrow> [] | Inr c \<Rightarrow> map dePackage (pcEntries c))"

definition apt_Resolve :: "deb_table \<Rightarrow> deb_table list \<Rightarrow> string \<Rightarrow> name option" where
  "apt_Resolve primary siblings token = resolve_in dePackage (primary # siblings) token"

section \<open>Lookup\<close>

definition deb_asset :: "DebEntry \<Rightarrow> string" where
  "deb_asset entry =
     (let asset = Base (deFilename entry) in
      if asset = ''.'' \<or> asset = []
      then dePackage entry @ ''_'' @ deVersion entry @ ''_'' @ deArchitecture entry @ ''.deb'' else asset)"

definition apt_populateBuildFields :: "aptState \<Rightarrow> DebEntry \<Rightarrow> string \<Rightarrow> Unit \<Rightarrow> Unit" where
  "apt_populateBuildFields s entry arch u =
     (let asset = deb_asset entry in
      u\<lparr>uSource := TrimSuffix (baseURLFor (ptArgs s) arch) ''/'' @ ''/'' @ deFilename entry,
        uSHA256 := deSHA256 entry, uPassthroughAPK := [], uPassthroughDeb := asset,
        uContainer := ''toolchain'', uContainerArch := ''target'', uSandbox := False,
        uTasks := [\<lparr>tName = ''install'', tContainer = [], tDistros = [],
          tSteps = [\<lparr>stCommand = ''mkdir -p $DESTDIR'', stFn = None, stInstall = None\<rparr>,
                    \<lparr>stCommand = ''dpkg-deb --fsys-tarfile ./'' @ asset @ '' | tar -xpf - -C $DESTDIR'',
                     stFn = None, stInstall = None\<rparr>]\<rparr>]\<rparr>)"

definition apt_lookup :: "'v deb_lib \<Rightarrow> file_reader \<Rightarrow> aptState list \<Rightarrow> nat \<Rightarrow> string \<Rightarrow> name \<Rightarrow> AptError + Unit option" where
  "apt_lookup lib rd states self arch name =
     (if arch = [] then Inl AptNoActiveArch
      else (let s = states ! self in
            case apt_cacheFor lib rd s arch of
              Inl err \<Rightarrow> Inl err
            | Inr c \<Rightarrow>
                (case map_of (pcByName c) name of
                   None \<Rightarrow> Inr None
                 | Some entry \<Rightarrow>
                     (case deb_MaterializeUnit lib entry
                             (Some (apt_Resolve (pcProvides c) (sibling_tables (apt_provides lib rd arch) states self)))
                             (ptModule s) (paDistro (ptArgs s)) of
                        Inl err \<Rightarrow> Inl (AptCannotMaterialize name err)
                      | Inr u \<Rightarrow> Inr (Some (apt_populateBuildFields s entry arch u))))))"

definition apt_error_text :: "AptError \<Rightarrow> string" where
  "apt_error_text err =
     (case err of
        AptFieldRequired f \<Rightarrow> f @ '' is required''
      | AptNotInModule \<Rightarrow> ''apt_feed: must be called from a module''
      | AptNoActiveArch \<Rightarrow> ''apt_feed: no active arch''
      | AptUnsupportedArch a \<Rightarrow> ''apt_feed: unsupported arch '' @ a
      | AptIndexMissing p \<Rightarrow> ''apt_feed: load '' @ p
      | AptIndexMalformed p _ \<Rightarrow> ''apt_feed: load '' @ p
      | AptCannotMaterialize n _ \<Rightarrow> ''dpkg: materialize '' @ n
      | AptNotRegistered _ \<Rightarrow> ''apt_feed'')"

definition apt_buildSyntheticModule :: "'v deb_lib \<Rightarrow> file_reader \<Rightarrow> aptState list \<Rightarrow> nat \<Rightarrow> string \<Rightarrow> SyntheticModule" where
  "apt_buildSyntheticModule lib rd states self arch =
     (let s = states ! self in
      \<lparr>smName = ptModule s, smParent = ptParent s, smSuite = paSuite (ptArgs s), smCodename = paCodename (ptArgs s),
       smDistro = paDistro (ptArgs s), smRelease = [], smPriority = 0,
       smLookup = Some (\<lambda>name. case apt_lookup lib rd states self arch name of
                                 Inl err \<Rightarrow> Inl (apt_error_text err) | Inr r \<Rightarrow> Inr r),
       smNames = Some (apt_names lib rd s arch)\<rparr>)"

record apt_feed_state =
  pfStates :: "aptState list"
  pfRegistered :: "nat list"

definition apt_registerFeedState :: "aptState \<Rightarrow> apt_feed_state \<Rightarrow> apt_feed_state" where
  "apt_registerFeedState s fs = fs\<lparr>pfStates := pfStates fs @ [s]\<rparr>"

definition apt_feed_modules :: "'v deb_lib \<Rightarrow> file_reader \<Rightarrow> string \<Rightarrow> apt_feed_state \<Rightarrow> SyntheticModule list" where
  "apt_feed_modules lib rd arch fs = map (\<lambda>i. apt_buildSyntheticModule lib rd (pfStates fs) i arch) (pfRegistered fs)"

definition makeAptFeed ::
  "'v deb_lib \<Rightarrow> file_reader \<Rightarrow> string \<Rightarrow> Engine \<Rightarrow> string \<Rightarrow> kwargs \<Rightarrow> apt_feed_state \<Rightarrow> apt_feed_state \<times> AptError option" where
  "makeAptFeed lib rd arch eng moduleDir kwargs fs =
     (case apt_parseKwargs kwargs of
        Inl err \<Rightarrow> (fs, Some err)
      | Inr args \<Rightarrow>
          (let parent = eCurrentModule eng in
           if parent = [] then (fs, Some AptNotInModule)
           else (let s = \<lparr>ptModule = parent @ ''.'' @ paName args, ptParent = parent,
                         ptIndexRoot = (if IsAbs (paIndex args) then paIndex args else PathJoin [moduleDir, paIndex args]),
                         ptArgs = args\<rparr>;
                     self = length (pfStates fs);
                     fs' = apt_registerFeedState s fs;
                     sm = apt_buildSyntheticModule lib rd (pfStates fs') self arch
                 in case RegisterSyntheticModule
                           (eng\<lparr>eSyntheticModules := eSyntheticModules eng @ apt_feed_modules lib rd arch fs'\<rparr>) (Some sm) of
                      Inl err \<Rightarrow> (fs', Some (AptNotRegistered err))
                    | Inr _ \<Rightarrow> (fs'\<lparr>pfRegistered := pfRegistered fs' @ [self]\<rparr>, None))))"

section \<open>What a lookup finds\<close>

interpretation deb_feed: feed_index dePackage "deb_BuildProvidesTable lib" for lib :: "'v deb_lib"
proof unfold_locales
  fix es tok e
  assume "map_of (deb_BuildProvidesTable lib es) tok = Some e"
  then show "e \<in> set es"
    using fold_keep_newer_mem [of "newer_deb lib" "deb_registrations lib es" "[]" tok e]
    by (simp add: deb_BuildProvidesTable_keep deb_registrations_mem)
qed

definition apt_packages :: "'v deb_lib \<Rightarrow> file_reader \<Rightarrow> aptState list \<Rightarrow> string \<Rightarrow> name set" where
  "apt_packages lib rd states arch = (\<Union>s \<in> set states. set (apt_names lib rd s arch))"

lemma apt_cacheFor_fields:
  assumes "apt_cacheFor lib rd s arch = Inr c"
  shows "pcByName c = by_name dePackage (pcEntries c)" "pcProvides c = deb_BuildProvidesTable lib (pcEntries c)"
  using assms by (auto simp: apt_cacheFor_def Let_def split: if_splits option.splits sum.splits)

lemma apt_Resolve_packages:
  assumes "self < length states" and "apt_cacheFor lib rd (states ! self) arch = Inr c" and "arch \<noteq> []"
    and "apt_Resolve (pcProvides c) (sibling_tables (apt_provides lib rd arch) states self) tok = Some n"
  shows "n \<in> apt_packages lib rd states arch"
proof -
  let ?E = "{pcEntries c | s c. s \<in> set states \<and> apt_cacheFor lib rd s arch = Inr c}"
  have "\<exists>es \<in> ?E. t = deb_BuildProvidesTable lib es"
    if t: "t \<in> set (pcProvides c # sibling_tables (apt_provides lib rd arch) states self)" for t
  proof -
    have "\<exists>s \<in> set states. apt_provides lib rd arch s = Some t"
      using provider_tables_mem [OF t assms(1)] assms(2) by (simp add: apt_provides_def)
    then obtain s where s: "s \<in> set states" "apt_provides lib rd arch s = Some t" by blast
    moreover obtain c' where "apt_cacheFor lib rd s arch = Inr c'" "t = pcProvides c'"
      using s(2) by (cases "apt_cacheFor lib rd s arch") (auto simp: apt_provides_def)
    ultimately show ?thesis using apt_cacheFor_fields(2) by blast
  qed
  then obtain es where "es \<in> ?E" "n \<in> dePackage ` set es"
    using deb_feed.resolve_in_mem [of _ tok n ?E lib] assms(4) unfolding apt_Resolve_def by blast
  then obtain s c' where "s \<in> set states" "apt_cacheFor lib rd s arch = Inr c'" "n \<in> dePackage ` set (pcEntries c')" by blast
  then show ?thesis using assms(3) unfolding apt_packages_def by (intro UN_I [of s]) (simp_all add: apt_names_def)
qed

lemma apt_lookup_Some:
  assumes "apt_lookup lib rd states self arch name = Inr (Some u)"
  obtains c entry v where "arch \<noteq> []" "apt_cacheFor lib rd (states ! self) arch = Inr c" "map_of (pcByName c) name = Some entry"
    "deb_MaterializeUnit lib entry (Some (apt_Resolve (pcProvides c) (sibling_tables (apt_provides lib rd arch) states self)))
       (ptModule (states ! self)) (paDistro (ptArgs (states ! self))) = Inr v"
    "u = apt_populateBuildFields (states ! self) entry arch v"
  using assms by (auto simp: apt_lookup_def Let_def split: if_splits sum.splits option.splits)

lemma apt_populate_fields [simp]:
  "uName (apt_populateBuildFields s entry arch u) = uName u" "uDistro (apt_populateBuildFields s entry arch u) = uDistro u"
  "uRuntimeDeps (apt_populateBuildFields s entry arch u) = uRuntimeDeps u"
  "uSHA256 (apt_populateBuildFields s entry arch u) = deSHA256 entry"
  by (simp_all add: apt_populateBuildFields_def Let_def)

lemma apt_lookup_found:
  assumes "apt_lookup lib rd states self arch name = Inr (Some u)" and "self < length states"
  shows "uName u = name" "name \<in> set (apt_names lib rd (states ! self) arch)" "uDistro u = paDistro (ptArgs (states ! self))"
    "distinct (uRuntimeDeps u)" "name \<notin> set (uRuntimeDeps u)" "set (uRuntimeDeps u) \<subseteq> apt_packages lib rd states arch"
    "\<exists>c entry. apt_cacheFor lib rd (states ! self) arch = Inr c \<and> entry \<in> set (pcEntries c) \<and> dePackage entry = name \<and>
       uVersion u = deVersion entry \<and> uSHA256 u = deSHA256 entry"
proof -
  obtain c entry v where *: "arch \<noteq> []" "apt_cacheFor lib rd (states ! self) arch = Inr c" "map_of (pcByName c) name = Some entry"
    "deb_MaterializeUnit lib entry (Some (apt_Resolve (pcProvides c) (sibling_tables (apt_provides lib rd arch) states self)))
       (ptModule (states ! self)) (paDistro (ptArgs (states ! self))) = Inr v"
    "u = apt_populateBuildFields (states ! self) entry arch v"
    using apt_lookup_Some [OF assms(1)] by metis
  note mem = deb_feed.by_name_mem [OF *(3) [unfolded apt_cacheFor_fields(1) [OF *(2)]]] and mat = deb_MaterializeUnit_fields [OF *(4)]
  from mem mat *(5) show "uName u = name" "distinct (uRuntimeDeps u)" "name \<notin> set (uRuntimeDeps u)"
    "uDistro u = paDistro (ptArgs (states ! self))" by simp_all
  show "name \<in> set (apt_names lib rd (states ! self) arch)" using mem *(1,2) by (auto simp: apt_names_def)
  show "set (uRuntimeDeps u) \<subseteq> apt_packages lib rd states arch"
    using mat(5) *(5) apt_Resolve_packages [OF assms(2) *(2,1)] by auto
  show "\<exists>c entry. apt_cacheFor lib rd (states ! self) arch = Inr c \<and> entry \<in> set (pcEntries c) \<and> dePackage entry = name \<and>
       uVersion u = deVersion entry \<and> uSHA256 u = deSHA256 entry"
    using mem mat(6) *(2,5) by (intro exI [of _ c] exI [of _ entry]) (simp add: apt_populateBuildFields_def Let_def)
qed

section \<open>Properties\<close>

text \<open>A unit that a Debian-family feed makes has the name that was looked up, the distro the feed declares, and the version and checksum of an index entry of that name; its runtime dependencies are packages of the feeds, listed once and never the unit itself. Where the index can be read, a lookup misses exactly the names the feed does not list.\<close>

theorem apt_lookup_spec:
  assumes "self < length states" and "arch \<noteq> []" and "apt_cacheFor lib rd (states ! self) arch = Inr c"
  shows "case apt_lookup lib rd states self arch name of
      Inl err \<Rightarrow> name \<in> set (apt_names lib rd (states ! self) arch) \<and> (\<exists>e. err = AptCannotMaterialize name e)
    | Inr None \<Rightarrow> name \<notin> set (apt_names lib rd (states ! self) arch)
    | Inr (Some u) \<Rightarrow> uName u = name \<and> uDistro u = paDistro (ptArgs (states ! self)) \<and>
        (\<exists>entry \<in> set (pcEntries c). dePackage entry = name \<and> uVersion u = deVersion entry \<and> uSHA256 u = deSHA256 entry) \<and>
        distinct (uRuntimeDeps u) \<and> name \<notin> set (uRuntimeDeps u) \<and> set (uRuntimeDeps u) \<subseteq> apt_packages lib rd states arch"
proof (cases "map_of (pcByName c) name")
  case None
  then have "name \<notin> dePackage ` set (pcEntries c)" using deb_feed.by_name_None apt_cacheFor_fields(1) [OF assms(3)] by metis
  with None assms show ?thesis by (simp add: apt_lookup_def apt_names_def Let_def)
next
  case (Some entry)
  have listed: "name \<in> set (apt_names lib rd (states ! self) arch)"
    using deb_feed.by_name_mem [OF Some [unfolded apt_cacheFor_fields(1) [OF assms(3)]]] assms by (auto simp: apt_names_def)
  show ?thesis
  proof (cases "apt_lookup lib rd states self arch name")
    case (Inl err)
    then have "\<exists>e. err = AptCannotMaterialize name e"
      using Some assms by (auto simp: apt_lookup_def Let_def split: sum.splits)
    with Inl listed show ?thesis by simp
  next
    case (Inr r)
    then obtain u where "r = Some u"
      using Some assms by (auto simp: apt_lookup_def Let_def split: sum.splits)
    with Inr apt_lookup_found [of lib rd states self arch name u] assms(1,3) show ?thesis by auto
  qed
qed

section \<open>Both kinds of feed in one engine\<close>

text \<open>The closure walk of an image returns over any mixture of Alpine and Debian-family feeds, whatever their indexes hold: cyclic dependencies, broken entries and dependencies across feeds included.\<close>

theorem feeds_closure_returns:
  assumes "\<forall>sm \<in> set (eSyntheticModules e).
      (\<exists>i < length alpine. \<exists>prio. sm = (buildSyntheticModule rd alpine i arch)\<lparr>smPriority := prio\<rparr>) \<or>
      (\<exists>i < length apt. \<exists>prio. sm = (apt_buildSyntheticModule lib rd apt i arch)\<lparr>smPriority := prio\<rparr>)"
    and "gm_ok (eUnitsByModule e)"
  shows "\<exists>r. closure e roots d = Some r"
proof (rule closure_over_feeds [OF _ assms(2)])
  show "finite (feed_packages rd alpine arch \<union> apt_packages lib rd apt arch)"
    by (simp add: finite_feed_packages apt_packages_def)
next
  fix sm n u
  assume sm: "sm \<in> set (eSyntheticModules e)" and f: "feed_lookup sm n = Inr (Some u)"
  from bspec [OF assms(1) sm] show "uName u \<in> feed_packages rd alpine arch \<union> apt_packages lib rd apt arch"
  proof (elim disjE exE conjE)
    fix i prio
    assume i: "i < length alpine" "sm = (buildSyntheticModule rd alpine i arch)\<lparr>smPriority := prio\<rparr>"
    then have "alpine_lookup rd alpine i arch n = Inr (Some u)"
      using f by (auto simp: feed_lookup_def buildSyntheticModule_def Let_def split: sum.splits)
    from alpine_lookup_found(1,2) [OF this i(1)] show ?thesis using i(1) nth_mem unfolding feed_packages_def by blast
  next
    fix i prio
    assume i: "i < length apt" "sm = (apt_buildSyntheticModule lib rd apt i arch)\<lparr>smPriority := prio\<rparr>"
    then have "apt_lookup lib rd apt i arch n = Inr (Some u)"
      using f by (auto simp: feed_lookup_def apt_buildSyntheticModule_def Let_def split: sum.splits)
    from apt_lookup_found(1,2) [OF this i(1)] show ?thesis using i(1) nth_mem unfolding apt_packages_def by blast
  qed
qed

section \<open>Concrete instances\<close>

definition ex_apt_lib :: "int deb_lib" where
  "ex_apt_lib = ex_deb_lib\<lparr>dlUnmarshal := (\<lambda>s. Some [ex_deb ''app'' ''1'' ''libc6'' [], ex_deb ''libc6'' ''2'' ''app'' []])\<rparr>"

definition ex_apt :: "aptState list" where
  "ex_apt = [\<lparr>ptModule = ''debian.main'', ptParent = ''debian'', ptIndexRoot = ''/idx'',
     ptArgs = \<lparr>paName = ''main'', paDistro = ''debian'', paUrl = ''https://d/'', paArchURLs = [], paSuite = ''trixie'',
       paCodename = ''trixie'', paComponent = ''main'', paArches = [''amd64''], paIndex = ''/idx'', paKeyring = []\<rparr>\<rparr>]"

theorem apt_lookup_spec_witness:
  "\<exists>u. apt_lookup ex_apt_lib (\<lambda>p. Some []) ex_apt 0 ''x86_64'' ''app'' = Inr (Some u) \<and> uDistro u = ''debian'' \<and>
     uRuntimeDeps u = [''libc6''] \<and> set (uRuntimeDeps u) \<subseteq> apt_packages ex_apt_lib (\<lambda>p. Some []) ex_apt ''x86_64''"
proof -
  let ?r = "apt_lookup ex_apt_lib (\<lambda>p. Some []) ex_apt 0 ''x86_64'' ''app''"
  have "map_sum id (map_option uRuntimeDeps) ?r = Inr (Some [''libc6''])" by code_simp
  then obtain u where u: "?r = Inr (Some u)" "uRuntimeDeps u = [''libc6'']" by (cases ?r) auto
  have len: "(0 :: nat) < length ex_apt" and d: "paDistro (ptArgs (ex_apt ! 0)) = ''debian''" by (simp_all add: ex_apt_def)
  obtain c where "apt_cacheFor ex_apt_lib (\<lambda>p. Some []) (ex_apt ! 0) ''x86_64'' = Inr c"
    using u(1) by (auto simp: apt_lookup_def Let_def split: sum.splits)
  from apt_lookup_spec [OF len _ this, of "''app''"] u d show ?thesis by simp
qed

theorem feeds_closure_returns_witness:
  "\<exists>r. closure (NewEngine\<lparr>eSyntheticModules := [(buildSyntheticModule ex_reader ex_feeds 0 ''x86_64'')\<lparr>smPriority := -1\<rparr>,
       (apt_buildSyntheticModule ex_apt_lib ex_reader ex_apt 0 ''x86_64'')\<lparr>smPriority := -2\<rparr>]\<rparr>) [''app''] ''debian'' = Some r"
  by (rule feeds_closure_returns [where rd = ex_reader and alpine = ex_feeds and apt = ex_apt and lib = ex_apt_lib and arch = "''x86_64''"])
    (auto simp: NewEngine_def ex_feeds_def ex_apt_def)

end
