(* ===== verification/Retry.thy ===== *)
theory Retry
  imports GoStrings
begin

text \<open>
  Repeating a network operation. \<^verbatim>\<open>gitutil/retry.go\<close> and \<^verbatim>\<open>source/fetch.go\<close> hold two copies of one
  loop: run the operation, stop at a success or at a failure that another attempt cannot
  clear, otherwise pause and try again until a budget is spent. The loop and its lemmas
  come first, then \<^verbatim>\<open>retry.go\<close> and \<^verbatim>\<open>commit.go\<close> on top of it.
\<close>

section \<open>The loop\<close>

datatype 'e RetryFailure =
    GaveUp 'e
  | AfterAttempts "'e option" nat

text \<open>
  \<open>left\<close> attempts remain of a budget; before every attempt but the first one
  pauses.
\<close>

definition paused :: "(nat \<Rightarrow> 's \<Rightarrow> 's) \<Rightarrow> nat \<Rightarrow> 's \<Rightarrow> 's" where
  "paused pause attempt s = (if 1 < attempt then pause (attempt - 1) s else s)"

fun retry_loop ::
  "(nat \<Rightarrow> 's \<Rightarrow> 's) \<Rightarrow> ('s \<Rightarrow> ('e + 'a) \<times> 's) \<Rightarrow> ('e \<Rightarrow> bool) \<Rightarrow> nat \<Rightarrow> nat \<Rightarrow> 'e option \<Rightarrow> 's \<Rightarrow> ('e RetryFailure + 'a) \<times> 's" where
  "retry_loop pause op permanent budget 0 lastErr s = (Inl (AfterAttempts lastErr budget), s)"
| "retry_loop pause op permanent budget (Suc left) lastErr s =
     (case op (paused pause (budget - left) s) of
        (Inr a, s') \<Rightarrow> (Inr a, s')
      | (Inl e, s') \<Rightarrow>
          if permanent e then (Inl (GaveUp e), s')
          else retry_loop pause op permanent budget left (Some e) s')"

text \<open>What the attempts would answer if none of them ended the loop.\<close>

fun attempts :: "(nat \<Rightarrow> 's \<Rightarrow> 's) \<Rightarrow> ('s \<Rightarrow> ('e + 'a) \<times> 's) \<Rightarrow> nat \<Rightarrow> nat \<Rightarrow> 's \<Rightarrow> (('e + 'a) \<times> 's) list" where
  "attempts pause op budget 0 s = []"
| "attempts pause op budget (Suc left) s =
     (let r = op (paused pause (budget - left) s) in r # attempts pause op budget left (snd r))"

definition transient :: "('e \<Rightarrow> bool) \<Rightarrow> ('e + 'a) \<times> 's \<Rightarrow> bool" where
  "transient permanent r = (case fst r of Inl e \<Rightarrow> \<not> permanent e | Inr _ \<Rightarrow> False)"

definition decided :: "('e + 'a) \<times> 's \<Rightarrow> ('e RetryFailure + 'a) \<times> 's" where
  "decided r = (case fst r of Inl e \<Rightarrow> (Inl (GaveUp e), snd r) | Inr a \<Rightarrow> (Inr a, snd r))"

definition spent :: "nat \<Rightarrow> 'e option \<Rightarrow> 's \<Rightarrow> (('e + 'a) \<times> 's) list \<Rightarrow> ('e RetryFailure + 'a) \<times> 's" where
  "spent budget lastErr s rs =
     (Inl (AfterAttempts (if rs = [] then lastErr else Some (projl (fst (last rs)))) budget),
      if rs = [] then s else snd (last rs))"

lemma length_attempts [simp]: "length (attempts pause op budget left s) = left"
  by (induction left arbitrary: s) (simp_all add: Let_def)

text \<open>The loop answers with the first attempt that is not a transient failure.\<close>

lemma retry_loop_attempts:
  "retry_loop pause op permanent budget left lastErr s =
     (let rs = attempts pause op budget left s in
      case dropWhile (transient permanent) rs of [] \<Rightarrow> spent budget lastErr s rs | r # _ \<Rightarrow> decided r)"
proof (induction left arbitrary: lastErr s)
  case 0
  show ?case by (simp add: spent_def)
next
  case (Suc left)
  obtain r s' where op: "op (paused pause (budget - left) s) = (r, s')" by (cases "op (paused pause (budget - left) s)")
  show ?case
  proof (cases r)
    case (Inl e)
    show ?thesis
    proof (cases "permanent e")
      case True
      with op Inl show ?thesis by (simp add: transient_def decided_def Let_def)
    next
      case False
      have "spent budget (Some e) s' (attempts pause op budget left s') =
          spent budget lastErr s ((r, s') # attempts pause op budget left s')"
        using Inl by (simp add: spent_def)
      moreover have "transient permanent (r, s')" using False Inl by (simp add: transient_def)
      ultimately show ?thesis using op Inl False by (simp add: Suc.IH Let_def split: list.split del: dropWhile_eq_Nil_conv)
    qed
  next
    case (Inr a)
    with op show ?thesis by (simp add: transient_def decided_def Let_def)
  qed
qed

lemma retry_loop_Inr:
  "fst (retry_loop pause op permanent budget left lastErr s) = Inr a \<longleftrightarrow>
   (\<exists>before r after. attempts pause op budget left s = before @ r # after \<and> list_all (transient permanent) before \<and> fst r = Inr a)"
proof -
  let ?rs = "attempts pause op budget left s" and ?t = "transient permanent"
  have split: "?rs = takeWhile ?t ?rs @ dropWhile ?t ?rs" by simp
  show ?thesis
  proof
    assume "fst (retry_loop pause op permanent budget left lastErr s) = Inr a"
    then obtain r after where "dropWhile ?t ?rs = r # after" "fst r = Inr a"
      by (auto simp: retry_loop_attempts Let_def spent_def decided_def split: list.splits sum.splits)
    then show "\<exists>before r after. ?rs = before @ r # after \<and> list_all ?t before \<and> fst r = Inr a"
      using split by (intro exI [of _ "takeWhile ?t ?rs"] exI [of _ r] exI [of _ after]) (auto simp: list_all_iff dest: set_takeWhileD)
  next
    assume "\<exists>before r after. ?rs = before @ r # after \<and> list_all ?t before \<and> fst r = Inr a"
    then obtain before r after where rs: "?rs = before @ r # after" "list_all ?t before" "fst r = Inr a" by blast
    then have "dropWhile ?t ?rs = r # after" by (simp add: dropWhile_append list_all_iff transient_def)
    with rs(3) show "fst (retry_loop pause op permanent budget left lastErr s) = Inr a"
      by (simp add: retry_loop_attempts Let_def decided_def)
  qed
qed

text \<open>What the operation keeps until it succeeds, and what it establishes then.\<close>

lemma retry_loop_invariant:
  assumes "I s" and "\<And>n s. I s \<Longrightarrow> I (pause n s)"
    and "\<And>s e s'. I s \<Longrightarrow> op s = (Inl e, s') \<Longrightarrow> I s'" and "\<And>s a s'. I s \<Longrightarrow> op s = (Inr a, s') \<Longrightarrow> Q a s'"
  shows "case retry_loop pause op permanent budget left lastErr s of (Inl _, s') \<Rightarrow> I s' | (Inr a, s') \<Rightarrow> Q a s'"
  using assms(1)
proof (induction left arbitrary: lastErr s)
  case (Suc left)
  obtain r s' where op: "op (paused pause (budget - left) s) = (r, s')" by (cases "op (paused pause (budget - left) s)")
  have I: "I (paused pause (budget - left) s)" using Suc.prems assms(2) by (simp add: paused_def)
  show ?case
  proof (cases r)
    case (Inl e)
    then have "I s'" using assms(3) [OF I] op by blast
    with op Inl Suc.IH show ?thesis by simp
  next
    case (Inr a)
    then show ?thesis using assms(4) [OF I] op by simp
  qed
qed simp

section \<open>Git operations\<close>

text \<open>
  What git and the file system answer may depend on everything done before: the world is an
  oracle over the history of operations. A reply is whether the operation succeeded and
  what it printed.
\<close>

datatype git_op =
    GitCommand string "string list"
  | RemoveAll string
  | Sleep nat
  | AcquireLock string
  | ReleaseLock string
  | Stat string
  | RemoveMatching string
  | MkdirTemp string
  | Chmod string nat
  | Rename string string

type_synonym git_world = "git_op list \<Rightarrow> git_op \<Rightarrow> bool \<times> string"

datatype GitError =
    GitFailed string
  | PermanentFailed string

definition Retries :: nat where
  "Retries = 4"

text \<open>Seconds.\<close>

definition Backoff :: "nat \<Rightarrow> nat" where
  "Backoff attempt = attempt * 2"

definition permanentMessages :: "string list list" where
  "permanentMessages =
     [[''fatal: repository'', ''not found''],
      [''not found in upstream origin''],
      [''couldn'' @ [CHR 0x27] @ ''t find remote ref''],
      [''not our ref''],
      [''does not allow request for unadvertised object''],
      [''could not read username''],
      [''authentication failed''],
      [''does not appear to be a git repository''],
      [''permission denied'']]"

definition isPermanentMessage :: "string \<Rightarrow> bool" where
  "isPermanentMessage out =
     list_ex (\<lambda>msg. list_all (\<lambda>part. Contains (ToLower out) part) msg) permanentMessages"

definition IsPermanent :: "GitError \<Rightarrow> bool" where
  "IsPermanent err = (case err of PermanentFailed _ \<Rightarrow> True | GitFailed _ \<Rightarrow> False)"

type_synonym git_action = "git_op list \<Rightarrow> (string \<times> GitError + string) \<times> git_op list"

text \<open>An action returns its output with its error; the history is the state.\<close>

definition git_permanent :: "string \<times> GitError \<Rightarrow> bool" where
  "git_permanent oe \<longleftrightarrow> IsPermanent (snd oe) \<or> isPermanentMessage (fst oe)"

definition git_pause :: "nat \<Rightarrow> git_op list \<Rightarrow> git_op list" where
  "git_pause attempt h = h @ [Sleep (Backoff attempt)]"

definition RetryGit :: "git_action \<Rightarrow> git_op list \<Rightarrow> ((string \<times> GitError) RetryFailure + string) \<times> git_op list" where
  "RetryGit fn h = retry_loop git_pause fn git_permanent Retries Retries None h"

definition run_git :: "git_world \<Rightarrow> git_op \<Rightarrow> (string \<Rightarrow> GitError) \<Rightarrow> git_action" where
  "run_git w op failed h =
     (case w h op of
        (True, out) \<Rightarrow> (Inr out, h @ [op])
      | (False, out) \<Rightarrow> (Inl (out, failed out), h @ [op]))"

definition and_then :: "git_action \<Rightarrow> git_action \<Rightarrow> git_action" where
  "and_then f g h = (case f h of (Inl err, h') \<Rightarrow> (Inl err, h') | (Inr _, h') \<Rightarrow> g h')"

section \<open>Clone and fetch\<close>

record CloneOptions =
  coURL :: string
  coRef :: string
  coDest :: string
  coBare :: bool
  coDepth :: int

definition isCommitSHA :: "string \<Rightarrow> bool" where
  "isCommitSHA ref \<longleftrightarrow>
     (length ref = 40 \<or> length ref = 64) \<and>
     list_all (\<lambda>c. isDigit c \<or> (97 \<le> (of_char c :: nat) \<and> (of_char c :: nat) \<le> 102) \<or>
                   (65 \<le> (of_char c :: nat) \<and> (of_char c :: nat) \<le> 70)) ref"

definition clone_args :: "CloneOptions \<Rightarrow> string list" where
  "clone_args opts =
     [''clone''] @ (if coBare opts then [''--bare''] else []) @
     (if 0 < coDepth opts then [''--depth'', Itoa (coDepth opts)] else []) @
     (if coRef opts \<noteq> [] then [''--branch'', coRef opts] else []) @ [coURL opts, coDest opts]"

definition init_args :: "CloneOptions \<Rightarrow> string list" where
  "init_args opts = [''init''] @ (if coBare opts then [''--bare''] else []) @ [coDest opts]"

definition fetch_args :: "CloneOptions \<Rightarrow> string list" where
  "fetch_args opts =
     [''fetch''] @ (if 0 < coDepth opts then [''--depth'', Itoa (coDepth opts)] else []) @ [''origin'', coRef opts]"

definition head_args :: "CloneOptions \<Rightarrow> string list" where
  "head_args opts =
     (if coBare opts then [''update-ref'', ''--no-deref'', ''HEAD'', coRef opts]
      else [''checkout'', ''--detach'', coRef opts])"

text \<open>
  The variable \<^verbatim>\<open>first\<close> of the closures is false exactly when the history has grown: an attempt
  records at least one operation. Every attempt but the first clears the destination.
\<close>

definition clearing :: "git_world \<Rightarrow> CloneOptions \<Rightarrow> git_op list \<Rightarrow> git_action \<Rightarrow> git_action" where
  "clearing w opts h0 body h =
     (if h = h0 then body h
      else and_then (\<lambda>h. case w h (RemoveAll (coDest opts)) of
                           (True, out) \<Rightarrow> (Inr [], h @ [RemoveAll (coDest opts)])
                         | (False, out) \<Rightarrow> (Inl ([], PermanentFailed out), h @ [RemoveAll (coDest opts)])) body h)"

definition cloneCommit :: "git_world \<Rightarrow> CloneOptions \<Rightarrow> git_op list \<Rightarrow> ((string \<times> GitError) RetryFailure + string) \<times> git_op list" where
  "cloneCommit w opts h0 =
     RetryGit (clearing w opts h0
       (and_then (run_git w (GitCommand [] (init_args opts)) PermanentFailed)
       (and_then (run_git w (GitCommand (coDest opts) [''remote'', ''add'', ''origin'', coURL opts]) PermanentFailed)
       (and_then (run_git w (GitCommand (coDest opts) (fetch_args opts)) GitFailed)
                 (run_git w (GitCommand (coDest opts) (head_args opts)) PermanentFailed))))) h0"

definition Clone :: "git_world \<Rightarrow> CloneOptions \<Rightarrow> git_op list \<Rightarrow> ((string \<times> GitError) RetryFailure + string) \<times> git_op list" where
  "Clone w opts h0 =
     (if isCommitSHA (coRef opts) then cloneCommit w opts h0
      else RetryGit (clearing w opts h0 (run_git w (GitCommand [] (clone_args opts)) GitFailed)) h0)"

definition FetchRef :: "git_world \<Rightarrow> string \<Rightarrow> string \<Rightarrow> string \<Rightarrow> git_op list \<Rightarrow> ((string \<times> GitError) RetryFailure + string) \<times> git_op list" where
  "FetchRef w dir remote ref h0 = RetryGit (run_git w (GitCommand dir [''fetch'', remote, ref]) GitFailed) h0"

section \<open>What the operations are\<close>

text \<open>A run that only appends operations of a kind.\<close>

definition appends :: "(git_op \<Rightarrow> bool) \<Rightarrow> git_op list \<Rightarrow> git_op list \<Rightarrow> bool" where
  "appends P h h' \<longleftrightarrow> (\<exists>ops. h' = h @ ops \<and> list_all P ops)"

lemma appends_refl [simp]: "appends P h h"
  by (simp add: appends_def)

lemma appends_snoc [simp]: "appends P h (h' @ [op])" if "appends P h h'" "P op"
  using that by (auto simp: appends_def)

lemma appends_trans: "appends P h h1 \<Longrightarrow> appends P h1 h2 \<Longrightarrow> appends P h h2"
  by (auto simp: appends_def)

definition action_appends :: "(git_op \<Rightarrow> bool) \<Rightarrow> git_action \<Rightarrow> bool" where
  "action_appends P f \<longleftrightarrow> (\<forall>h. appends P h (snd (f h)))"

lemma action_appends_run: "P op \<Longrightarrow> action_appends P (run_git w op failed)"
  by (auto simp: action_appends_def run_git_def split: prod.split bool.split)

lemma action_appends_then: "action_appends P f \<Longrightarrow> action_appends P g \<Longrightarrow> action_appends P (and_then f g)"
  unfolding action_appends_def and_then_def by (auto split: prod.split sum.split intro: appends_trans)

lemma action_appends_clearing:
  assumes "P (RemoveAll (coDest opts))" and "action_appends P body"
  shows "action_appends P (clearing w opts h0 body)"
proof -
  let ?rm = "\<lambda>h. case w h (RemoveAll (coDest opts)) of
      (True, out) \<Rightarrow> (Inr [], h @ [RemoveAll (coDest opts)])
    | (False, out) \<Rightarrow> (Inl ([], PermanentFailed out), h @ [RemoveAll (coDest opts)])"
  have "action_appends P ?rm" using assms(1) by (auto simp: action_appends_def split: prod.split bool.split)
  from action_appends_then [OF this assms(2)] assms(2) show ?thesis by (simp add: action_appends_def clearing_def)
qed

lemma RetryGit_appends:
  assumes "action_appends P f" and "\<And>n. P (Sleep n)"
  shows "appends P h (snd (RetryGit f h))"
proof -
  have step: "appends P h s'" if "appends P h s" "f s = (r, s')" for r s s'
    using that assms(1) appends_trans unfolding action_appends_def by (metis snd_conv)
  have "case RetryGit f h of (Inl _, s') \<Rightarrow> appends P h s' | (Inr a, s') \<Rightarrow> appends P h s'"
    unfolding RetryGit_def
    by (rule retry_loop_invariant [where I = "appends P h" and Q = "\<lambda>a. appends P h"])
      (use step assms(2) in \<open>auto simp: git_pause_def\<close>)
  then show ?thesis by (auto split: prod.splits sum.splits)
qed

lemma Clone_appends:
  assumes "\<And>d args. P (GitCommand d args)" and "\<And>d. P (RemoveAll d)" and "\<And>n. P (Sleep n)"
  shows "appends P h (snd (Clone w opts h))"
proof -
  note intro = RetryGit_appends action_appends_clearing action_appends_then action_appends_run
  show ?thesis unfolding Clone_def cloneCommit_def using assms by (auto intro!: intro)
qed

section \<open>What a clone does\<close>

text \<open>The operations of n attempts after the first, the next of which is number k + 1.\<close>

fun later_attempts :: "string \<Rightarrow> git_op \<Rightarrow> nat \<Rightarrow> nat \<Rightarrow> git_op list" where
  "later_attempts dest c k 0 = []"
| "later_attempts dest c k (Suc n) = Sleep (Backoff k) # RemoveAll dest # c # later_attempts dest c (Suc k) n"

text \<open>
  A history that the later attempts can leave: n complete attempts, the answer being that
  of the last operation, or n complete attempts and then a destination that cannot be
  cleared.
\<close>

definition later_outcome :: "git_world \<Rightarrow> string \<Rightarrow> git_op \<Rightarrow> nat \<Rightarrow> nat \<Rightarrow> git_op list \<Rightarrow> ('x + string) \<times> git_op list \<Rightarrow> nat \<Rightarrow> bool" where
  "later_outcome w dest c k left h res n \<longleftrightarrow>
     n \<le> left \<and>
     (snd res = h @ later_attempts dest c k n \<and>
        (if n = 0 then \<forall>out. fst res \<noteq> Inr out else \<forall>out. fst res = Inr out \<longleftrightarrow> w (butlast (snd res)) c = (True, out)) \<or>
      n < left \<and> snd res = h @ later_attempts dest c k n @ [Sleep (Backoff (k + n)), RemoveAll dest] \<and> (\<forall>out. fst res \<noteq> Inr out))"

lemma later_outcome_Suc:
  assumes "later_outcome w dest c (Suc k) left (h @ [Sleep (Backoff k), RemoveAll dest, c]) res n"
    and "\<And>out. w (h @ [Sleep (Backoff k), RemoveAll dest]) c \<noteq> (True, out)"
  shows "later_outcome w dest c k (Suc left) h res (Suc n)"
proof (cases n)
  case 0
  with assms show ?thesis by (auto simp: later_outcome_def butlast_append)
next
  case (Suc m)
  with assms show ?thesis by (auto simp: later_outcome_def)
qed

lemma clone_later:
  assumes "length h0 < length h" and "left < budget"
  shows "\<exists>n. later_outcome w (coDest opts) c (budget - left) left h
    (retry_loop git_pause (clearing w opts h0 (run_git w c GitFailed)) git_permanent budget left lastErr h) n"
  using assms
proof (induction left arbitrary: h lastErr)
  case 0
  then show ?case by (intro exI [of _ 0]) (simp add: later_outcome_def)
next
  case (Suc left)
  let ?k = "budget - Suc left" and ?op = "clearing w opts h0 (run_git w c GitFailed)"
  let ?h1 = "h @ [Sleep (Backoff ?k)]" and ?h2 = "h @ [Sleep (Backoff ?k), RemoveAll (coDest opts)]" and ?h3 = "h @ [Sleep (Backoff ?k), RemoveAll (coDest opts), c]"
  let ?loop = "retry_loop git_pause ?op git_permanent budget"
  have k: "budget - left = Suc ?k" "1 < budget - left" using Suc.prems(2) by simp_all
  have start: "paused git_pause (budget - left) h = ?h1" using k by (simp add: paused_def git_pause_def)
  have new: "?h1 \<noteq> h0" using Suc.prems(1) by auto
  obtain ok out where rm: "w ?h1 (RemoveAll (coDest opts)) = (ok, out)" by (cases "w ?h1 (RemoveAll (coDest opts))")
  show ?case
  proof (cases ok)
    case False
    then have "?loop (Suc left) lastErr h = (Inl (GaveUp ([], PermanentFailed out)), ?h2)"
      using start new rm by (simp add: clearing_def and_then_def git_permanent_def IsPermanent_def)
    then show ?thesis by (intro exI [of _ 0]) (simp add: later_outcome_def)
  next
    case True
    obtain ok' out' where c: "w ?h2 c = (ok', out')" by (cases "w ?h2 c")
    have op: "?op ?h1 = (if ok' then (Inr out', ?h3) else (Inl (out', GitFailed out'), ?h3))"
      using True rm new c by (simp add: clearing_def and_then_def run_git_def)
    show ?thesis
    proof (cases ok')
      case True
      then have "?loop (Suc left) lastErr h = (Inr out', ?h3)" using start op by simp
      then show ?thesis using c True by (intro exI [of _ 1]) (simp add: later_outcome_def butlast_append)
    next
      case False
      show ?thesis
      proof (cases "git_permanent (out', GitFailed out')")
        case True
        then have "?loop (Suc left) lastErr h = (Inl (GaveUp (out', GitFailed out')), ?h3)" using start op False by simp
        then show ?thesis using c False by (intro exI [of _ 1]) (simp add: later_outcome_def butlast_append)
      next
        case go: False
        then have eq: "?loop (Suc left) lastErr h = ?loop left (Some (out', GitFailed out')) ?h3" using start op False by simp
        obtain n where "later_outcome w (coDest opts) c (budget - left) left ?h3 (?loop left (Some (out', GitFailed out')) ?h3) n"
          using Suc.IH [of ?h3] Suc.prems by force
        then have n: "later_outcome w (coDest opts) c (Suc ?k) left ?h3 (?loop left (Some (out', GitFailed out')) ?h3) n"
          unfolding k(1) .
        have "w ?h2 c \<noteq> (True, x)" for x using c False by simp
        from later_outcome_Suc [OF n this] show ?thesis unfolding eq by blast
      qed
    qed
  qed
qed

text \<open>Cloning a tag or branch runs \<^verbatim>\<open>git clone\<close> at most four times, each time after the first into a destination that has just been cleared, with pauses of two, four and six seconds between attempts. It succeeds exactly when the last clone succeeded, and a destination that cannot be cleared ends it.\<close>

theorem Clone_attempts:
  assumes "\<not> isCommitSHA (coRef opts)" and "Clone w opts h0 = (r, h)"
  shows "\<exists>n \<le> 3.
      h = h0 @ GitCommand [] (clone_args opts) # later_attempts (coDest opts) (GitCommand [] (clone_args opts)) 1 n \<and>
        ((\<exists>out. r = Inr out) \<longleftrightarrow> fst (w (butlast h) (GitCommand [] (clone_args opts)))) \<or>
      n < 3 \<and> (\<forall>out. r \<noteq> Inr out) \<and>
        h = h0 @ GitCommand [] (clone_args opts) # later_attempts (coDest opts) (GitCommand [] (clone_args opts)) 1 n @
              [Sleep (Backoff (n + 1)), RemoveAll (coDest opts)]"
proof -
  let ?c = "GitCommand [] (clone_args opts)"
  let ?op = "clearing w opts h0 (run_git w ?c GitFailed)"
  obtain ok out where c: "w h0 ?c = (ok, out)" by (cases "w h0 ?c")
  have R: "Retries = Suc 3" by (simp add: Retries_def)
  have op: "?op (paused git_pause (Suc 3 - 3) h0) = (if ok then (Inr out, h0 @ [?c]) else (Inl (out, GitFailed out), h0 @ [?c]))"
    using c by (simp add: paused_def clearing_def run_git_def)
  have loop: "(r, h) = retry_loop git_pause ?op git_permanent (Suc 3) (Suc 3) None h0"
    using assms by (simp add: Clone_def RetryGit_def R)
  note step = loop [unfolded retry_loop.simps(2) op]
  show ?thesis
  proof (cases "ok \<or> git_permanent (out, GitFailed out)")
    case True
    then have "h = h0 @ [?c]" "(\<exists>out. r = Inr out) \<longleftrightarrow> ok" using step by (auto split: if_splits)
    then show ?thesis using c by (intro exI [of _ 0]) (simp add: butlast_append)
  next
    case False
    then have eq: "(r, h) = retry_loop git_pause ?op git_permanent (Suc 3) 3 (Some (out, GitFailed out)) (h0 @ [?c])"
      using step by simp
    obtain n where "later_outcome w (coDest opts) ?c 1 3 (h0 @ [?c]) (r, h) n"
      using clone_later [of h0 "h0 @ [?c]" 3 "Suc 3" w opts ?c] unfolding eq by auto
    then show ?thesis using c False
      by (intro exI [of _ n]) (cases "n = 0", auto simp: later_outcome_def butlast_append prod_eq_iff)
  qed
qed

definition ex_clone :: CloneOptions where
  "ex_clone = \<lparr>coURL = ''https://g/r.git'', coRef = ''v1'', coDest = ''/tmp/c'', coBare = True, coDepth = 1\<rparr>"

text \<open>A remote that resets the first connection.\<close>

definition ex_git :: git_world where
  "ex_git h op = (case op of GitCommand d args \<Rightarrow> if length h < 2 then (False, ''connection reset'') else (True, ''done'') | _ \<Rightarrow> (True, []))"

theorem Clone_attempts_witness:
  "\<not> isCommitSHA (coRef ex_clone) \<and>
   (\<exists>h. Clone ex_git ex_clone [] = (Inr ''done'', h) \<and> fst (ex_git (butlast h) (GitCommand [] (clone_args ex_clone))))"
proof -
  let ?c = "GitCommand [] (clone_args ex_clone)"
  have ref: "\<not> isCommitSHA (coRef ex_clone)" by (simp add: ex_clone_def isCommitSHA_def)
  have "\<not> isPermanentMessage ''connection reset''" by code_simp
  then have run: "Clone ex_git ex_clone [] = (Inr ''done'', [?c, Sleep 2, RemoveAll ''/tmp/c'', ?c])"
    using ref by (simp add: Clone_def RetryGit_def Retries_def eval_nat_numeral clearing_def run_git_def and_then_def ex_git_def
        git_permanent_def IsPermanent_def paused_def git_pause_def Backoff_def) (simp add: ex_clone_def)
  from Clone_attempts [OF ref run] run ref show ?thesis by auto
qed

end
