(* ===== verification/GzipFrame.thy ===== *)
theory GzipFrame
  imports Paths Units
begin

text \<open>
  \<^verbatim>\<open>internal/gzipframe/gzipframe.go\<close>, which finds the gzip streams a file is made of, and
  \<^verbatim>\<open>RepackAPK\<close> of \<^verbatim>\<open>internal/artifact/apk.go\<close>, which replaces the signature stream of a package.
  The deflate decoder is an argument: from the bytes that follow a header it says how many
  it consumes, or that they are corrupt. Offsets inside a stream are relative to its start.
\<close>

section \<open>Headers\<close>

datatype GzipError =
    TruncatedExtra
  | TruncatedHeader
  | DeflateFailed nat
  | TruncatedTrailer
  | TrailingBytes nat nat
  | NoSuchStream int nat

type_synonym inflater = "string \<Rightarrow> nat option"

definition byte_at :: "string \<Rightarrow> nat \<Rightarrow> nat" where
  "byte_at s i = of_char (s ! i)"

definition skip_text :: "string \<Rightarrow> nat \<Rightarrow> nat" where
  "skip_text s h = h + length (takeWhile (\<lambda>c. c \<noteq> CHR 0x00) (drop h s)) + 1"

definition has_magic :: "string \<Rightarrow> bool" where
  "has_magic s \<longleftrightarrow> 10 \<le> length s \<and> byte_at s 0 = 0x1f \<and> byte_at s 1 = 0x8b"

definition extra_end :: "string \<Rightarrow> nat" where
  "extra_end s = (if bit (byte_at s 3) 2 then 10 + 2 + (byte_at s 10 + 256 * byte_at s 11) else 10)"

definition name_end :: "string \<Rightarrow> nat" where
  "name_end s = (if bit (byte_at s 3) 3 then skip_text s (extra_end s) else extra_end s)"

definition comment_end :: "string \<Rightarrow> nat" where
  "comment_end s = (if bit (byte_at s 3) 4 then skip_text s (name_end s) else name_end s)"

definition header_end :: "string \<Rightarrow> nat" where
  "header_end s = (if bit (byte_at s 3) 1 then comment_end s + 2 else comment_end s)"

definition header_len :: "string \<Rightarrow> GzipError + nat" where
  "header_len s =
     (if bit (byte_at s 3) 2 \<and> length s < 12 then Inl TruncatedExtra
      else if length s < header_end s then Inl TruncatedHeader
      else Inr (header_end s))"

section \<open>Streams\<close>

record Bound =
  bdStart :: nat
  bdEnd :: nat

definition Bytes :: "Bound \<Rightarrow> string \<Rightarrow> string" where
  "Bytes b data = take (bdEnd b - bdStart b) (drop (bdStart b) data)"

function scan_streams :: "inflater \<Rightarrow> string \<Rightarrow> nat \<Rightarrow> Bound list \<Rightarrow> GzipError + Bound list" where
  "scan_streams inflate data pos out =
     (if pos < length data \<and> has_magic (drop pos data) then
        (case header_len (drop pos data) of
           Inl err \<Rightarrow> Inl err
         | Inr h \<Rightarrow>
             (case inflate (drop (pos + h) data) of
                None \<Rightarrow> Inl (DeflateFailed (length out))
              | Some n \<Rightarrow>
                  if length data < pos + h + n + 8 then Inl TruncatedTrailer
                  else scan_streams inflate data (pos + h + n + 8) (out @ [\<lparr>bdStart = pos, bdEnd = pos + h + n + 8\<rparr>])))
      else Inr out)"
  by pat_completeness auto

termination scan_streams
  by (relation "measure (\<lambda>(inflate, data, pos, out). length data - pos)") auto

declare scan_streams.simps [simp del]

definition Boundaries :: "inflater \<Rightarrow> string \<Rightarrow> GzipError + Bound list" where
  "Boundaries inflate data = scan_streams inflate data 0 []"

definition Streams :: "inflater \<Rightarrow> string \<Rightarrow> GzipError + string list" where
  "Streams inflate data =
     (case Boundaries inflate data of
        Inl err \<Rightarrow> Inl err
      | Inr bounds \<Rightarrow>
          (let consumed = (if bounds = [] then 0 else bdEnd (last bounds)) in
           if consumed \<noteq> length data then Inl (TrailingBytes (length data - consumed) consumed)
           else Inr (map (\<lambda>b. Bytes b data) bounds)))"

text \<open>A negative index panics in the source: \<^const>\<open>None\<close>.\<close>

definition Stream :: "inflater \<Rightarrow> string \<Rightarrow> int \<Rightarrow> (GzipError + string) option" where
  "Stream inflate data n =
     (case Boundaries inflate data of
        Inl err \<Rightarrow> Some (Inl err)
      | Inr bounds \<Rightarrow>
          if int (length bounds) \<le> n then Some (Inl (NoSuchStream n (length bounds)))
          else if n < 0 then None
          else Some (Inr (Bytes (bounds ! nat n) data)))"

section \<open>Headers do not depend on what follows them\<close>

lemma skip_text_append:
  assumes "skip_text s h \<le> length s \<or> (skip_text (s @ t) h \<le> length s \<and> h \<le> length s)"
  shows "skip_text (s @ t) h = skip_text s h"
proof -
  let ?P = "\<lambda>c. c \<noteq> CHR 0x00"
  have h: "h \<le> length s" using assms by (auto simp: skip_text_def)
  have "CHR 0x00 \<in> set (drop h s)"
  proof (rule ccontr)
    assume "CHR 0x00 \<notin> set (drop h s)"
    then have all: "\<And>c. c \<in> set (drop h s) \<Longrightarrow> ?P c" by auto
    then have "takeWhile ?P (drop h s) = drop h s" "takeWhile ?P (drop h s @ t) = drop h s @ takeWhile ?P t"
      by (auto simp: takeWhile_eq_all_conv intro: takeWhile_append2)
    with h assms show False by (simp add: skip_text_def)
  qed
  then have "takeWhile ?P (drop h s @ t) = takeWhile ?P (drop h s)" by (intro takeWhile_append1) simp_all
  then show ?thesis using h by (simp add: skip_text_def)
qed

lemma skip_text_le: "h \<le> skip_text s h"
  by (simp add: skip_text_def)

lemma header_ends_le: "10 \<le> extra_end s" "extra_end s \<le> name_end s" "name_end s \<le> comment_end s" "comment_end s \<le> header_end s"
  by (simp_all add: extra_end_def name_end_def comment_end_def header_end_def skip_text_le)

lemma byte_at_append [simp]: "i < length s \<Longrightarrow> byte_at (s @ t) i = byte_at s i"
  by (simp add: byte_at_def nth_append)

lemma has_magic_append: "10 \<le> length s \<Longrightarrow> has_magic (s @ t) = has_magic s"
  by (simp add: has_magic_def del: length_greater_0_conv)

lemma header_end_append:
  assumes "10 \<le> length s" and "bit (byte_at s 3) 2 \<Longrightarrow> 12 \<le> length s"
    and "header_end s \<le> length s \<or> header_end (s @ t) \<le> length s"
  shows "header_end (s @ t) = header_end s"
proof -
  have f: "byte_at (s @ t) 3 = byte_at s 3" using assms(1) by simp
  have e: "extra_end (s @ t) = extra_end s"
    using assms(2) by (cases "bit (byte_at s 3) 2") (simp_all add: extra_end_def f)
  have "extra_end s \<le> length s"
    using assms(3) header_ends_le [of s] header_ends_le [of "s @ t"] e by linarith
  moreover have "name_end s \<le> length s \<or> name_end (s @ t) \<le> length s"
    using assms(3) header_ends_le [of s] header_ends_le [of "s @ t"] by linarith
  ultimately have n: "name_end (s @ t) = name_end s" using skip_text_append by (auto simp: name_end_def f e)
  have "name_end s \<le> length s"
    using assms(3) header_ends_le [of s] header_ends_le [of "s @ t"] n by linarith
  moreover have "comment_end s \<le> length s \<or> comment_end (s @ t) \<le> length s"
    using assms(3) header_ends_le [of s] header_ends_le [of "s @ t"] by linarith
  ultimately have "comment_end (s @ t) = comment_end s" using skip_text_append by (auto simp: comment_end_def f n)
  then show ?thesis by (simp add: header_end_def f)
qed

lemma header_len_Inr: "header_len s = Inr h \<longleftrightarrow> (bit (byte_at s 3) 2 \<longrightarrow> 12 \<le> length s) \<and> h = header_end s \<and> h \<le> length s"
  by (auto simp: header_len_def)

lemma header_len_append: "has_magic s \<Longrightarrow> header_len s = Inr h \<Longrightarrow> header_len (s @ t) = Inr h"
  using header_end_append [of s t]
  by (auto simp: header_len_Inr has_magic_def)

lemma header_len_prefix:
  assumes "header_len (s @ t) = Inr h" and "h \<le> length s"
  shows "header_len s = Inr h"
proof -
  have "10 \<le> length s" using assms header_ends_le [of "s @ t"] by (simp add: header_len_Inr)
  then have f: "byte_at (s @ t) 3 = byte_at s 3" by simp
  have "12 \<le> extra_end (s @ t)" if "bit (byte_at s 3) 2" using that by (simp add: extra_end_def f)
  then have e: "12 \<le> length s" if "bit (byte_at s 3) 2"
    using that assms header_ends_le [of "s @ t"] unfolding header_len_Inr by linarith
  then show ?thesis using header_end_append [of s t] \<open>10 \<le> length s\<close> assms by (simp add: header_len_Inr)
qed

lemma header_len_ge: "header_len s = Inr h \<Longrightarrow> 10 \<le> h"
  using header_ends_le [of s] by (simp add: header_len_Inr)

section \<open>The streams are the members\<close>

text \<open>
  What a deflate decoder promises: it stops inside its input, and where it stops is decided
  by the bytes it read.
\<close>

definition local_inflater :: "inflater \<Rightarrow> bool" where
  "local_inflater inflate \<longleftrightarrow>
     (\<forall>s n. inflate s = Some n \<longrightarrow> n \<le> length s \<and> (\<forall>t. inflate (take n s @ t) = Some n))"

text \<open>One whole gzip member: header, deflate stream and the eight bytes of the trailer.\<close>

definition member :: "inflater \<Rightarrow> string \<Rightarrow> bool" where
  "member inflate m \<longleftrightarrow>
     has_magic m \<and>
     (case header_len m of
        Inl _ \<Rightarrow> False
      | Inr h \<Rightarrow> (case inflate (drop h m) of None \<Rightarrow> False | Some n \<Rightarrow> length m = h + n + 8))"

lemma member_iff:
  "member inflate m \<longleftrightarrow>
     (\<exists>h n. has_magic m \<and> header_len m = Inr h \<and> inflate (drop h m) = Some n \<and> length m = h + n + 8)"
  by (auto simp: member_def split: sum.splits option.splits)

lemma inflate_local:
  assumes "local_inflater inflate" and "inflate s = Some n" and "take n s' = take n s" and "n \<le> length s'"
  shows "inflate s' = Some n"
proof -
  have "s' = take n s @ drop n s'" by (metis append_take_drop_id assms(3))
  with assms(1,2) show ?thesis unfolding local_inflater_def by metis
qed

lemma member_append:
  assumes "local_inflater inflate" and "member inflate m"
  obtains h n where "has_magic (m @ t)" "header_len (m @ t) = Inr h" "inflate (drop h (m @ t)) = Some n" "length m = h + n + 8"
proof -
  obtain h n where m: "has_magic m" "header_len m = Inr h" "inflate (drop h m) = Some n" "length m = h + n + 8"
    using assms(2) unfolding member_iff by blast
  have "inflate (drop h (m @ t)) = Some n" using inflate_local [OF assms(1) m(3)] m(4) by simp
  moreover have "has_magic (m @ t)" using m(1) has_magic_append [of m t] by (simp add: has_magic_def)
  ultimately show thesis using that header_len_append [OF m(1,2)] m(4) by blast
qed

lemma member_take:
  assumes "local_inflater inflate" and "has_magic s" and "header_len s = Inr h" and "inflate (drop h s) = Some n"
    and "h + n + 8 \<le> length s"
  shows "member inflate (take (h + n + 8) s)"
proof -
  let ?m = "take (h + n + 8) s"
  have s: "?m @ drop (h + n + 8) s = s" and len: "length ?m = h + n + 8" using assms(5) by simp_all
  have "10 \<le> h" using header_len_ge [OF assms(3)] .
  then have "has_magic ?m" using has_magic_append [of ?m "drop (h + n + 8) s"] assms(2) s len by simp
  moreover have "header_len ?m = Inr h" using header_len_prefix [of ?m "drop (h + n + 8) s"] assms(3) s len by simp
  moreover have "inflate (drop h ?m) = Some n"
    using inflate_local [OF assms(1,4), of "drop h ?m"] len assms(5) by (simp add: drop_take)
  ultimately show ?thesis using len unfolding member_iff by blast
qed

fun bounds_from :: "nat \<Rightarrow> string list \<Rightarrow> Bound list" where
  "bounds_from p [] = []"
| "bounds_from p (m # ms) = \<lparr>bdStart = p, bdEnd = p + length m\<rparr> # bounds_from (p + length m) ms"

lemma bounds_from_end: "bounds_from p ms \<noteq> [] \<Longrightarrow> bdEnd (last (bounds_from p ms)) = p + length (concat ms)"
proof (induction ms arbitrary: p)
  case (Cons m ms)
  then show ?case by (cases "bounds_from (p + length m) ms = []") (auto elim: bounds_from.elims)
qed simp

lemma bounds_from_Nil [simp]: "bounds_from p ms = [] \<longleftrightarrow> ms = []"
  by (cases ms) simp_all

lemma bounds_from_Bytes: "map (\<lambda>b. Bytes b (pre @ concat ms @ rest)) (bounds_from (length pre) ms) = ms"
proof (induction ms arbitrary: pre)
  case (Cons m ms)
  show ?case using Cons [of "pre @ m"] by (simp add: Bytes_def)
qed simp

lemma scan_streams_step:
  assumes "pos < length data" and "has_magic (drop pos data)" and "header_len (drop pos data) = Inr h"
    and "inflate (drop (pos + h) data) = Some n" and "pos + h + n + 8 \<le> length data"
  shows "scan_streams inflate data pos out =
           scan_streams inflate data (pos + h + n + 8) (out @ [\<lparr>bdStart = pos, bdEnd = pos + h + n + 8\<rparr>])"
  using assms by (subst scan_streams.simps) simp

lemma scan_members:
  assumes "local_inflater inflate" and "\<forall>m \<in> set ms. member inflate m" and "\<not> has_magic rest"
  shows "scan_streams inflate (pre @ concat ms @ rest) (length pre) out = Inr (out @ bounds_from (length pre) ms)"
  using assms(2)
proof (induction ms arbitrary: pre out)
  case Nil
  then show ?case using assms(3) by (simp add: scan_streams.simps)
next
  case (Cons m ms)
  let ?r = "concat ms @ rest"
  obtain h n where m: "has_magic (m @ ?r)" "header_len (m @ ?r) = Inr h" "inflate (drop h (m @ ?r)) = Some n" "length m = h + n + 8"
    using member_append assms(1) Cons.prems by (metis list.set_intros(1))
  have d: "drop (length pre + h) (pre @ m @ ?r) = drop h (m @ ?r)" by simp
  have "scan_streams inflate (pre @ m @ ?r) (length pre) out =
      scan_streams inflate (pre @ m @ ?r) (length pre + h + n + 8) (out @ [\<lparr>bdStart = length pre, bdEnd = length pre + h + n + 8\<rparr>])"
    using scan_streams_step [of "length pre" "pre @ m @ ?r" h inflate n out] m d by simp
  also have "length pre + h + n + 8 = length (pre @ m)" using m(4) by simp
  finally show ?case using Cons.IH [of "pre @ m" "out @ [\<lparr>bdStart = length pre, bdEnd = length (pre @ m)\<rparr>]"] Cons.prems by simp
qed

lemma scan_sound:
  assumes "local_inflater inflate" and "scan_streams inflate data pos out = Inr bs" and "pos \<le> length data"
  shows "\<exists>ms rest. drop pos data = concat ms @ rest \<and> bs = out @ bounds_from pos ms \<and>
           (\<forall>m \<in> set ms. member inflate m) \<and> \<not> has_magic rest"
  using assms
proof (induction inflate data pos out rule: scan_streams.induct)
  case (1 inflate data pos out)
  show ?case
  proof (cases "pos < length data \<and> has_magic (drop pos data)")
    case False
    then have "\<not> has_magic (drop pos data)" by (cases "pos < length data") (simp_all add: has_magic_def)
    moreover from this have "bs = out" using 1(3) by (simp add: scan_streams.simps)
    ultimately show ?thesis by (intro exI [of _ "[]"] exI [of _ "drop pos data"]) simp
  next
    case True
    then obtain h n where h: "header_len (drop pos data) = Inr h" "inflate (drop (pos + h) data) = Some n" "pos + h + n + 8 \<le> length data"
      and rec: "scan_streams inflate data (pos + h + n + 8) (out @ [\<lparr>bdStart = pos, bdEnd = pos + h + n + 8\<rparr>]) = Inr bs"
      using 1(3) by (subst (asm) scan_streams.simps) (auto split: sum.splits option.splits if_splits)
    let ?m = "take (h + n + 8) (drop pos data)"
    obtain ms rest where IH: "drop (pos + h + n + 8) data = concat ms @ rest"
        "bs = (out @ [\<lparr>bdStart = pos, bdEnd = pos + h + n + 8\<rparr>]) @ bounds_from (pos + h + n + 8) ms"
        "\<forall>m \<in> set ms. member inflate m" "\<not> has_magic rest"
      using 1(1) [OF True h(1,2) _ 1(2) rec] h(3) by auto
    have "member inflate ?m" using member_take [OF 1(2), of "drop pos data"] True h by (simp add: add.commute)
    moreover have "drop pos data = concat (?m # ms) @ rest"
      using IH(1) append_take_drop_id [of "h + n + 8" "drop pos data"] by (simp add: ac_simps)
    moreover have "bs = out @ bounds_from pos (?m # ms)" using IH(2) h(3) by (simp add: add.assoc)
    ultimately show ?thesis using IH(3,4) by (intro exI [of _ "?m # ms"] exI [of _ rest]) simp
  qed
qed

lemma Streams_split:
  assumes "local_inflater inflate" and "\<forall>m \<in> set ms. member inflate m"
  shows "Streams inflate (concat ms) = Inr ms"
proof -
  have "Boundaries inflate (concat ms) = Inr (bounds_from 0 ms)"
    using scan_members [OF assms, of "[]" "[]" "[]"] by (simp add: Boundaries_def has_magic_def)
  then show ?thesis
    using bounds_from_end [of 0 ms] bounds_from_Bytes [of "[]" ms "[]"] by (auto simp: Streams_def Let_def)
qed


section \<open>Repacking a package\<close>

datatype RepackError =
    NoSigner
  | MkdirFailed
  | ReadFailed
  | SplitFailed GzipError
  | TooFewStreams nat
  | MissingStream
  | SignFailed
  | CreateFailed

text \<open>
  What the routine calls outside itself: the deflate decoder, the name of the first tar
  entry of a compressed stream when it can be read, the signer's stream (absent for a nil
  signer), the source file, and whether the directory and the file can be created.
  Once open, the file takes every byte written to it.
\<close>

record repack_world =
  rwInflate :: inflater
  rwFirstEntry :: "string \<Rightarrow> string option"
  rwSigner :: "(string \<Rightarrow> string option) option"
  rwRead :: "string \<Rightarrow> string option"
  rwMkdir :: "string \<Rightarrow> bool"
  rwCreate :: "string \<Rightarrow> bool"

definition isSignatureStream :: "repack_world \<Rightarrow> string \<Rightarrow> bool" where
  "isSignatureStream w s = (case rwFirstEntry w s of None \<Rightarrow> False | Some n \<Rightarrow> HasPrefix n ''.SIGN.RSA.'')"

definition apk_name :: "Unit \<Rightarrow> string" where
  "apk_name u = uName u @ ''-'' @ uVersion u @ ''-r'' @ Itoa (uRelease u) @ ''.apk''"

text \<open>The streams of a package without a leading signature, at least two of them.\<close>

definition payload_streams :: "repack_world \<Rightarrow> string \<Rightarrow> RepackError + string list" where
  "payload_streams w raw =
     (case Streams (rwInflate w) raw of
        Inl err \<Rightarrow> Inl (SplitFailed err)
      | Inr streams \<Rightarrow>
          if length streams < 2 then Inl (TooFewStreams (length streams))
          else (let idx = (if isSignatureStream w (streams ! 0) then 1 else 0) in
            if length streams - idx < 2 then Inl MissingStream else Inr (drop idx streams)))"

definition RepackAPK :: "repack_world \<Rightarrow> Unit \<Rightarrow> string \<Rightarrow> string \<Rightarrow> RepackError + (string \<times> string)" where
  "RepackAPK w u srcAPK outputDir =
     (case rwSigner w of
        None \<Rightarrow> Inl NoSigner
      | Some SignStream \<Rightarrow>
          if \<not> rwMkdir w outputDir then Inl MkdirFailed
          else (let apkPath = PathJoin [outputDir, apk_name u] in
            case rwRead w srcAPK of
              None \<Rightarrow> Inl ReadFailed
            | Some raw \<Rightarrow>
                (case payload_streams w raw of
                   Inl err \<Rightarrow> Inl err
                 | Inr payload \<Rightarrow>
                     (let control = hd payload; data = concat (tl payload) in
                      case SignStream control of
                        None \<Rightarrow> Inl SignFailed
                      | Some sigGz \<Rightarrow>
                          if rwCreate w apkPath then Inr (apkPath, sigGz @ control @ data) else Inl CreateFailed))))"

lemma payload_streams_members:
  assumes "local_inflater (rwInflate w)" and "\<forall>m \<in> set (sigs @ control # datas). member (rwInflate w) m"
    and "sigs = [] \<or> (\<exists>s. sigs = [s] \<and> isSignatureStream w s)" and "\<not> isSignatureStream w control" and "datas \<noteq> []"
  shows "payload_streams w (concat sigs @ control @ concat datas) = Inr (control # datas)"
proof -
  have "Streams (rwInflate w) (concat sigs @ control @ concat datas) = Inr (sigs @ control # datas)"
    using Streams_split [OF assms(1), of "sigs @ control # datas"] assms(2) by simp
  moreover have "1 \<le> length datas" using assms(5) by (cases datas) simp_all
  ultimately show ?thesis using assms(3,4) by (auto simp: payload_streams_def)
qed

text \<open>Repacking replaces the signature and nothing else. For a package made of an optional signature stream, a control stream and data streams, the file written is the new signature over that control stream followed by the control and data streams byte for byte; and repacking that file with the same signer gives the same bytes again.\<close>

theorem RepackAPK_payload:
  assumes "local_inflater (rwInflate w)" and "\<forall>m \<in> set (sigs @ control # datas). member (rwInflate w) m"
    and "sigs = [] \<or> (\<exists>s. sigs = [s] \<and> isSignatureStream w s)" and "\<not> isSignatureStream w control" and "datas \<noteq> []"
    and "rwSigner w = Some sign" and "sign control = Some sg" and "member (rwInflate w) sg" and "isSignatureStream w sg"
    and "rwMkdir w dir" and "rwCreate w (PathJoin [dir, apk_name u])"
    and "rwRead w src = Some (concat sigs @ control @ concat datas)"
  shows "RepackAPK w u src dir = Inr (PathJoin [dir, apk_name u], sg @ control @ concat datas) \<and>
         RepackAPK (w\<lparr>rwRead := (rwRead w)(src := Some (sg @ control @ concat datas))\<rparr>) u src dir = RepackAPK w u src dir"
proof -
  let ?w = "w\<lparr>rwRead := (rwRead w)(src := Some (sg @ control @ concat datas))\<rparr>"
  have one: "payload_streams w (concat sigs @ control @ concat datas) = Inr (control # datas)"
    using payload_streams_members assms(1-5) by blast
  have "payload_streams w (concat [sg] @ control @ concat datas) = Inr (control # datas)"
    by (rule payload_streams_members) (use assms in auto)
  moreover have "isSignatureStream ?w = isSignatureStream w" by (rule ext) (simp add: isSignatureStream_def)
  then have "payload_streams ?w = payload_streams w" by (intro ext) (simp add: payload_streams_def split: sum.split)
  ultimately have two: "payload_streams ?w (sg @ control @ concat datas) = Inr (control # datas)" by simp
  show ?thesis using one two assms(6-12) by (simp add: RepackAPK_def)
qed

section \<open>Concrete instances\<close>

text \<open>A decoder for bodies that state their length in their first byte.\<close>

definition ex_inflate :: inflater where
  "ex_inflate s = (case s of [] \<Rightarrow> None | c # r \<Rightarrow> if of_char c \<le> length r then Some (of_char c + 1) else None)"

definition ex_member :: "char \<Rightarrow> string" where
  "ex_member c = [CHR 0x1F, CHR 0x8B, CHR 0x08, CHR 0x00, CHR 0x00, CHR 0x00, CHR 0x00, CHR 0x00, CHR 0x00, CHR 0x03, CHR 0x01, c] @ replicate 8 CHR 0x00"

lemma local_ex_inflate: "local_inflater ex_inflate"
  by (auto simp: local_inflater_def ex_inflate_def split: list.splits if_splits)

lemma member_ex: "member ex_inflate (ex_member c)"
  by (simp add: member_def has_magic_def header_len_def header_end_def comment_end_def name_end_def extra_end_def
      byte_at_def ex_member_def ex_inflate_def eval_nat_numeral)


definition ex_repack :: repack_world where
  "ex_repack =
     \<lparr>rwInflate = ex_inflate,
      rwFirstEntry = (\<lambda>s. if s = ex_member CHR ''c'' then Some ''.PKGINFO'' else if s = ex_member CHR ''d'' then None else Some ''.SIGN.RSA.k.pub''),
      rwSigner = Some (\<lambda>c. Some (ex_member CHR ''n'')),
      rwRead = (\<lambda>p. if p = ''a.apk'' then Some (ex_member CHR ''s'' @ ex_member CHR ''c'' @ ex_member CHR ''d'') else None),
      rwMkdir = (\<lambda>d. True),
      rwCreate = (\<lambda>p. True)\<rparr>"

theorem RepackAPK_payload_witness:
  "\<exists>p. RepackAPK ex_repack zero_unit ''a.apk'' ''out'' = Inr (p, ex_member CHR ''n'' @ ex_member CHR ''c'' @ ex_member CHR ''d'')"
proof -
  have ne: "ex_member CHR ''s'' \<noteq> ex_member CHR ''c''" "ex_member CHR ''s'' \<noteq> ex_member CHR ''d''"
    "ex_member CHR ''n'' \<noteq> ex_member CHR ''c''" "ex_member CHR ''n'' \<noteq> ex_member CHR ''d''"
    by (simp_all add: ex_member_def)
  have sg: "isSignatureStream ex_repack (ex_member CHR ''s'')" "isSignatureStream ex_repack (ex_member CHR ''n'')"
    and ct: "\<not> isSignatureStream ex_repack (ex_member CHR ''c'')"
    using ne by (simp_all add: isSignatureStream_def ex_repack_def HasPrefix_def)
  have i: "rwInflate ex_repack = ex_inflate" by (simp add: ex_repack_def)
  show ?thesis
    using RepackAPK_payload [of ex_repack "[ex_member CHR ''s'']" "ex_member CHR ''c''" "[ex_member CHR ''d'']"
        "\<lambda>c. Some (ex_member CHR ''n'')" "ex_member CHR ''n''" "''out''" zero_unit "''a.apk''"]
      sg ct local_ex_inflate member_ex i by (auto simp: ex_repack_def)
qed

end
