(* ===== verification/Fetch.thy ===== *)
theory Fetch
  imports Retry Paths GzipFrame ApkIndex
begin

text \<open>
  \<^verbatim>\<open>internal/source/fetch.go\<close>: how the source of a unit gets into the cache. The network, git and
  the file system answer as oracles over the history of what was asked; the hash functions
  and the deflate decoder are arguments.
\<close>

section \<open>Where to fetch from\<close>

definition IsGitURL :: "string \<Rightarrow> bool" where
  "IsGitURL url \<longleftrightarrow>
     HasSuffix url ''.git'' \<or> HasPrefix url ''git://'' \<or> HasPrefix url ''git@'' \<or> HasPrefix url ''ssh://'' \<or>
     Contains url ''github.com/'' \<and> \<not> Contains url ''/archive/'' \<and> \<not> Contains url ''/releases/''"

definition archive_exts :: "string list" where
  "archive_exts = [''.tar.gz'', ''.tar.bz2'', ''.tar.xz'', ''.tgz'', ''.tbz2'', ''.tar'', ''.zip'', ''.apk'', ''.deb'']"

definition guessExt :: "string \<Rightarrow> string" where
  "guessExt url = (case filter (HasSuffix url) archive_exts of [] \<Rightarrow> [] | ext # _ \<Rightarrow> ext)"

fun add_mirrors :: "string \<Rightarrow> MirrorRule list \<Rightarrow> string list \<Rightarrow> string list" where
  "add_mirrors source [] urls = urls"
| "add_mirrors source (r # rules) urls =
     (case MirrorApply r source of (rewritten, ok) \<Rightarrow>
        if \<not> ok \<or> rewritten \<in> set urls then add_mirrors source rules urls
        else add_mirrors source rules (urls @ [rewritten]))"

definition sourceURLs :: "Unit \<Rightarrow> MirrorRule list \<Rightarrow> string list" where
  "sourceURLs u rules = add_mirrors (uSource u) rules (uSource u # uMirrors u)"

section \<open>Downloads\<close>

text \<open>The possible answers to one GET, as far as the code tells them apart.\<close>

datatype response =
    NoResponse
  | Status nat
  | NoTempFile
  | BodyCut
  | Body string

datatype http_op = Get string | Wait nat

record fetch_world =
  fwSHA256 :: "string \<Rightarrow> string"
  fwSHA1 :: "string \<Rightarrow> string"
  fwInflate :: inflater
  fwServe :: "http_op list \<Rightarrow> string \<Rightarrow> response"
  fwTemp :: "string \<Rightarrow> http_op list \<Rightarrow> string"
  fwRename :: bool

record fetch_state =
  fsFiles :: "(string, string) gomap"
  fsOps :: "http_op list"

datatype DownloadError =
    TransportFailed
  | StatusError nat
  | TempFailed
  | CopyFailed

definition downloadRetries :: nat where
  "downloadRetries = 4"

definition retryDelay :: "nat \<Rightarrow> nat" where
  "retryDelay attempt = attempt * 2"

definition transientStatus :: "nat \<Rightarrow> bool" where
  "transientStatus code \<longleftrightarrow> 500 \<le> code \<or> code = 408 \<or> code = 429"

definition downloadOnce :: "fetch_world \<Rightarrow> string \<Rightarrow> string \<Rightarrow> fetch_state \<Rightarrow> (DownloadError + string \<times> string) \<times> fetch_state" where
  "downloadOnce w cacheDir url s =
     (let s' = s\<lparr>fsOps := fsOps s @ [Get url]\<rparr>; tmp = fwTemp w cacheDir (fsOps s) in
      case fwServe w (fsOps s) url of
        NoResponse \<Rightarrow> (Inl TransportFailed, s')
      | Status code \<Rightarrow> (Inl (StatusError code), s')
      | NoTempFile \<Rightarrow> (Inl TempFailed, s')
      | BodyCut \<Rightarrow> (Inl CopyFailed, s'\<lparr>fsFiles := AList.delete tmp (gm_put tmp [] (fsFiles s))\<rparr>)
      | Body body \<Rightarrow> (Inr (tmp, fwSHA256 w body), s'\<lparr>fsFiles := gm_put tmp body (fsFiles s)\<rparr>))"

definition http_permanent :: "DownloadError \<Rightarrow> bool" where
  "http_permanent err = (case err of StatusError code \<Rightarrow> \<not> transientStatus code | _ \<Rightarrow> False)"

definition http_pause :: "nat \<Rightarrow> fetch_state \<Rightarrow> fetch_state" where
  "http_pause attempt s = s\<lparr>fsOps := fsOps s @ [Wait (retryDelay attempt)]\<rparr>"

definition downloadWithRetry ::
  "fetch_world \<Rightarrow> string \<Rightarrow> string \<Rightarrow> fetch_state \<Rightarrow> (DownloadError RetryFailure + string \<times> string) \<times> fetch_state" where
  "downloadWithRetry w cacheDir url s =
     retry_loop http_pause (downloadOnce w cacheDir url) http_permanent downloadRetries downloadRetries None s"

text \<open>The first failure is the one reported.\<close>

fun fetch_any ::
  "fetch_world \<Rightarrow> string \<Rightarrow> string list \<Rightarrow> (string \<times> DownloadError RetryFailure) option \<Rightarrow> fetch_state \<Rightarrow>
   ((string \<times> DownloadError RetryFailure) option + string \<times> string) \<times> fetch_state" where
  "fetch_any w cacheDir [] firstErr s = (Inl firstErr, s)"
| "fetch_any w cacheDir (url # urls) firstErr s =
     (case downloadWithRetry w cacheDir url s of
        (Inr r, s') \<Rightarrow> (Inr r, s')
      | (Inl err, s') \<Rightarrow> fetch_any w cacheDir urls (if firstErr = None then Some (url, err) else firstErr) s')"

definition fetchFromAny ::
  "fetch_world \<Rightarrow> string \<Rightarrow> Unit \<Rightarrow> MirrorRule list \<Rightarrow> fetch_state \<Rightarrow>
   ((string \<times> DownloadError RetryFailure) option + string \<times> string) \<times> fetch_state" where
  "fetchFromAny w cacheDir u rules s = fetch_any w cacheDir (sourceURLs u rules) None s"

section \<open>Archives\<close>

datatype FetchError =
    NoSource name
  | BadApkChecksum name ChecksumError
  | DownloadFailed "(string \<times> DownloadError RetryFailure) option"
  | SHA256Mismatch string string
  | ApkUnreadable
  | ApkFraming GzipError
  | ApkMismatch string string
  | PublishFailed
  | LockFailed
  | ClearFailed string
  | TempDirFailed
  | CloneFailed "(string \<times> GitError) RetryFailure"
  | RefMissing string
  | ChmodFailed
  | NotCached
  | NoCacheDir

text \<open>The second stream of a package; its index is not negative, so the lookup cannot panic.\<close>

definition apkControlSegment :: "inflater \<Rightarrow> string \<Rightarrow> GzipError + string" where
  "apkControlSegment inflate data = (case Stream inflate data 1 of None \<Rightarrow> Inl (NoSuchStream 1 0) | Some r \<Rightarrow> r)"

definition cached_path :: "fetch_world \<Rightarrow> string \<Rightarrow> Unit \<Rightarrow> string" where
  "cached_path w cacheDir u = PathJoin [cacheDir, hex (fwSHA256 w (uSource u)) @ guessExt (uSource u)]"

text \<open>What makes a downloaded file unacceptable, if anything.\<close>

definition verify_download :: "fetch_world \<Rightarrow> Unit \<Rightarrow> string \<Rightarrow> string \<Rightarrow> string option \<Rightarrow> FetchError option" where
  "verify_download w u sum256 apkExpected raw =
     (if uSHA256 u \<noteq> [] then
        (let actual = hex sum256 in if actual \<noteq> uSHA256 u then Some (SHA256Mismatch (uSHA256 u) actual) else None)
      else if uAPKChecksum u \<noteq> [] then
        (case raw of
           None \<Rightarrow> Some ApkUnreadable
         | Some data \<Rightarrow>
             (case apkControlSegment (fwInflate w) data of
                Inl err \<Rightarrow> Some (ApkFraming err)
              | Inr ctrl \<Rightarrow>
                  (let actualRaw = fwSHA1 w ctrl in
                   if actualRaw \<noteq> apkExpected then Some (ApkMismatch apkExpected actualRaw) else None)))
      else None)"

definition fetchHTTP :: "fetch_world \<Rightarrow> string \<Rightarrow> Unit \<Rightarrow> MirrorRule list \<Rightarrow> fetch_state \<Rightarrow> (FetchError + string) \<times> fetch_state" where
  "fetchHTTP w cacheDir u mirrors s =
     (let cachedPath = cached_path w cacheDir u in
      if gm_has (fsFiles s) cachedPath then (Inr cachedPath, s)
      else case (if uAPKChecksum u \<noteq> [] then DecodeChecksum (uAPKChecksum u) else Inr []) of
             Inl err \<Rightarrow> (Inl (BadApkChecksum (uName u) err), s)
           | Inr apkExpected \<Rightarrow>
               (case fetchFromAny w cacheDir u mirrors s of
                  (Inl err, s1) \<Rightarrow> (Inl (DownloadFailed err), s1)
                | (Inr (tmpPath, sum256), s1) \<Rightarrow>
                    (case verify_download w u sum256 apkExpected (map_of (fsFiles s1) tmpPath) of
                       Some err \<Rightarrow> (Inl err, s1\<lparr>fsFiles := AList.delete tmpPath (fsFiles s1)\<rparr>)
                     | None \<Rightarrow>
                         if fwRename w
                         then (Inr cachedPath,
                               s1\<lparr>fsFiles := gm_put cachedPath (gm_get [] (fsFiles s1) tmpPath) (AList.delete tmpPath (fsFiles s1))\<rparr>)
                         else (Inl PublishFailed, s1\<lparr>fsFiles := AList.delete tmpPath (fsFiles s1)\<rparr>))))"

text \<open>Checking a cached file again.\<close>

definition Verify :: "fetch_world \<Rightarrow> string \<Rightarrow> Unit \<Rightarrow> fetch_state \<Rightarrow> FetchError option" where
  "Verify w cacheDir u s =
     (if uSHA256 u = [] then None
      else if IsGitURL (uSource u) then None
      else case map_of (fsFiles s) (cached_path w cacheDir u) of
             None \<Rightarrow> Some NotCached
           | Some data \<Rightarrow>
               (let actual = hex (fwSHA256 w data) in
                if actual \<noteq> uSHA256 u then Some (SHA256Mismatch (uSHA256 u) actual) else None))"

section \<open>Repositories\<close>

definition git_do :: "git_world \<Rightarrow> git_op \<Rightarrow> git_op list \<Rightarrow> (bool \<times> string) \<times> git_op list" where
  "git_do w op h = (w h op, h @ [op])"

definition ref_check :: "string \<Rightarrow> string \<Rightarrow> git_op" where
  "ref_check dir ref = GitCommand dir [''rev-parse'', ''--verify'', ''--quiet'', ref @ ''^{commit}'']"

definition gitHasRef :: "git_world \<Rightarrow> string \<Rightarrow> string \<Rightarrow> git_op list \<Rightarrow> bool \<times> git_op list" where
  "gitHasRef w dir ref h =
     (case git_do w (Stat dir) h of ((ok, _), h1) \<Rightarrow>
        if \<not> ok then (False, h1)
        else (case git_do w (ref_check dir ref) h1 of ((ok2, _), h2) \<Rightarrow> (ok2, h2)))"

definition unit_ref :: "Unit \<Rightarrow> string" where
  "unit_ref u = (if uTag u \<noteq> [] then uTag u else if uBranch u \<noteq> [] then uBranch u else ''HEAD'')"

definition cloneUnitSource :: "git_world \<Rightarrow> string \<Rightarrow> string \<Rightarrow> string \<Rightarrow> Unit \<Rightarrow> git_op list \<Rightarrow> (FetchError + string) \<times> git_op list" where
  "cloneUnitSource w cacheDir urlHash ref u h =
     (case git_do w (MkdirTemp (PathJoin [cacheDir, urlHash @ ''.tmp-''])) h of
        ((False, _), h1) \<Rightarrow> (Inl TempDirFailed, h1)
      | ((True, tmpPath), h1) \<Rightarrow>
          (case Clone w \<lparr>coURL = uSource u, coRef = (if uTag u = [] then uBranch u else uTag u), coDest = tmpPath,
                         coBare = True, coDepth = 1\<rparr> h1 of
             (Inl err, h2) \<Rightarrow> (Inl (CloneFailed err), snd (git_do w (RemoveAll tmpPath) h2))
           | (Inr _, h2) \<Rightarrow>
               (case gitHasRef w tmpPath ref h2 of
                  (False, h3) \<Rightarrow> (Inl (RefMissing ref), snd (git_do w (RemoveAll tmpPath) h3))
                | (True, h3) \<Rightarrow> (Inr tmpPath, h3))))"

definition publish_clone :: "git_world \<Rightarrow> string \<Rightarrow> string \<Rightarrow> git_op list \<Rightarrow> (FetchError + string) \<times> git_op list" where
  "publish_clone w tmpPath barePath h =
     (case git_do w (Chmod tmpPath 493) h of
        ((False, _), h1) \<Rightarrow> (Inl ChmodFailed, h1)
      | ((True, _), h1) \<Rightarrow>
          (case git_do w (Rename tmpPath barePath) h1 of
             ((False, _), h2) \<Rightarrow> (Inl PublishFailed, h2)
           | ((True, _), h2) \<Rightarrow> (Inr barePath, h2)))"

text \<open>The part of \<^verbatim>\<open>fetchGit\<close> that runs under the lock.\<close>

definition fetch_locked :: "git_world \<Rightarrow> string \<Rightarrow> string \<Rightarrow> string \<Rightarrow> string \<Rightarrow> Unit \<Rightarrow> git_op list \<Rightarrow> (FetchError + string) \<times> git_op list" where
  "fetch_locked w cacheDir urlHash barePath ref u h =
     (case gitHasRef w barePath ref h of
        (True, h1) \<Rightarrow> (Inr barePath, h1)
      | (False, h1) \<Rightarrow>
          (case (case git_do w (Stat barePath) h1 of
                   ((False, _), h2) \<Rightarrow> (None, h2)
                 | ((True, _), h2) \<Rightarrow>
                     (case git_do w (RemoveAll barePath) h2 of
                        ((False, _), h3) \<Rightarrow> (Some (ClearFailed barePath), h3) | ((True, _), h3) \<Rightarrow> (None, h3))) of
             (Some err, h4) \<Rightarrow> (Inl err, h4)
           | (None, h4) \<Rightarrow>
               (case cloneUnitSource w cacheDir urlHash ref u
                       (snd (git_do w (RemoveMatching (PathJoin [cacheDir, urlHash @ ''.tmp-*''])) h4)) of
                  (Inl err, h5) \<Rightarrow> (Inl err, h5)
                | (Inr tmpPath, h5) \<Rightarrow>
                    (case publish_clone w tmpPath barePath h5 of
                       (r, h6) \<Rightarrow> (r, snd (git_do w (RemoveAll tmpPath) h6))))))"

definition fetchGit :: "git_world \<Rightarrow> (string \<Rightarrow> string) \<Rightarrow> string \<Rightarrow> Unit \<Rightarrow> git_op list \<Rightarrow> (FetchError + string) \<times> git_op list" where
  "fetchGit w sha256 cacheDir u h =
     (let ref = unit_ref u; urlHash = hex (sha256 (uSource u @ ''#'' @ ref));
          barePath = PathJoin [cacheDir, urlHash @ ''.git'']; lock = barePath @ ''.lock''
      in case git_do w (AcquireLock lock) h of
           ((False, _), h1) \<Rightarrow> (Inl LockFailed, h1)
         | ((True, _), h1) \<Rightarrow>
             (case fetch_locked w cacheDir urlHash barePath ref u h1 of
                (r, h2) \<Rightarrow> (r, snd (git_do w (ReleaseLock lock) h2))))"

section \<open>Fetch\<close>

definition CacheDir :: "string \<Rightarrow> bool \<Rightarrow> FetchError + string" where
  "CacheDir env mkdir =
     (let dir = PathJoin [if env = [] then ''cache'' else env, ''sources''] in
      if mkdir then Inr dir else Inl NoCacheDir)"

definition Fetch ::
  "fetch_world \<Rightarrow> git_world \<Rightarrow> string \<Rightarrow> bool \<Rightarrow> Unit \<Rightarrow> MirrorRule list \<Rightarrow> fetch_state \<times> git_op list \<Rightarrow>
   (FetchError + string) \<times> fetch_state \<times> git_op list" where
  "Fetch fw gw env mkdir u mirrors st =
     (case CacheDir env mkdir of
        Inl err \<Rightarrow> (Inl err, st)
      | Inr cacheDir \<Rightarrow>
          if uSource u = [] then (Inl (NoSource (uName u)), st)
          else if IsGitURL (uSource u)
          then (case fetchGit gw (fwSHA256 fw) cacheDir u (snd st) of (r, h) \<Rightarrow> (r, fst st, h))
          else (case fetchHTTP fw cacheDir u mirrors (fst st) of (r, s) \<Rightarrow> (r, s, snd st)))"

section \<open>Downloads leave nothing behind\<close>

text \<open>A file that was just downloaded: where it came from and what it changed.\<close>

definition downloaded :: "fetch_world \<Rightarrow> string \<Rightarrow> string list \<Rightarrow> (string \<rightharpoonup> string) \<Rightarrow> string \<times> string \<Rightarrow> fetch_state \<Rightarrow> bool" where
  "downloaded w cacheDir urls files r s \<longleftrightarrow>
     (\<exists>ops url body. url \<in> set urls \<and> fwServe w ops url = Body body \<and> fst r = fwTemp w cacheDir ops \<and>
        snd r = fwSHA256 w body \<and> map_of (fsFiles s) = files(fst r \<mapsto> body))"

lemma delete_fresh: "m k = None \<Longrightarrow> m(k := None) = m"
  by (simp add: fun_upd_idem)

lemma downloadOnce_effect:
  assumes "\<And>ops. files (fwTemp w cacheDir ops) = None" and "map_of (fsFiles s) = files" and "downloadOnce w cacheDir url s = (r, s')"
  shows "case r of Inl _ \<Rightarrow> map_of (fsFiles s') = files | Inr a \<Rightarrow> downloaded w cacheDir [url] files a s'"
proof -
  have "fwServe w (fsOps s) url = Body body \<Longrightarrow>
      downloaded w cacheDir [url] files (fwTemp w cacheDir (fsOps s), fwSHA256 w body)
        (s\<lparr>fsOps := fsOps s @ [Get url], fsFiles := gm_put (fwTemp w cacheDir (fsOps s)) body (fsFiles s)\<rparr>)" for body
    unfolding downloaded_def using assms(2) by (auto intro!: exI [of _ "fsOps s"])
  with assms show ?thesis
    by (auto simp: downloadOnce_def Let_def delete_conv' delete_fresh split: response.splits)
qed

lemma downloadWithRetry_effect:
  assumes "\<And>ops. files (fwTemp w cacheDir ops) = None" and "map_of (fsFiles s) = files"
  shows "case downloadWithRetry w cacheDir url s of
      (Inl _, s') \<Rightarrow> map_of (fsFiles s') = files | (Inr a, s') \<Rightarrow> downloaded w cacheDir [url] files a s'"
  unfolding downloadWithRetry_def
  by (rule retry_loop_invariant [where I = "\<lambda>s. map_of (fsFiles s) = files" and Q = "downloaded w cacheDir [url] files"])
    (use assms(2) downloadOnce_effect [where files = files, OF assms(1)] in \<open>fastforce simp: http_pause_def\<close>)+

lemma fetch_any_effect:
  assumes "\<And>ops. files (fwTemp w cacheDir ops) = None" and "map_of (fsFiles s) = files"
  shows "case fetch_any w cacheDir urls firstErr s of
      (Inl _, s') \<Rightarrow> map_of (fsFiles s') = files | (Inr a, s') \<Rightarrow> downloaded w cacheDir urls files a s'"
  using assms(2)
proof (induction urls arbitrary: firstErr s)
  case (Cons url urls)
  obtain r s' where r: "downloadWithRetry w cacheDir url s = (r, s')" by (cases "downloadWithRetry w cacheDir url s")
  show ?case
  proof (cases r)
    case (Inl err)
    then have "map_of (fsFiles s') = files" using downloadWithRetry_effect [OF assms(1) Cons.prems, of url] r by simp
    from Cons.IH [OF this, of "if firstErr = None then Some (url, err) else firstErr"] r Inl show ?thesis
      by (fastforce simp: downloaded_def split: prod.splits sum.splits)
  next
    case (Inr a)
    then show ?thesis using downloadWithRetry_effect [OF assms(1) Cons.prems, of url] r by (auto simp: downloaded_def)
  qed
qed simp

text \<open>What a verified download has to satisfy.\<close>

definition accepted :: "fetch_world \<Rightarrow> Unit \<Rightarrow> string \<Rightarrow> bool" where
  "accepted w u body \<longleftrightarrow>
     (uSHA256 u \<noteq> [] \<longrightarrow> hex (fwSHA256 w body) = uSHA256 u) \<and>
     (uSHA256 u = [] \<longrightarrow> uAPKChecksum u \<noteq> [] \<longrightarrow>
        (\<exists>ctrl. Stream (fwInflate w) body 1 = Some (Inr ctrl) \<and> DecodeChecksum (uAPKChecksum u) = Inr (fwSHA1 w ctrl)))"

lemma verify_download_accepted:
  assumes "verify_download w u (fwSHA256 w body) expected (Some body) = None"
    and "(if uAPKChecksum u \<noteq> [] then DecodeChecksum (uAPKChecksum u) else Inr []) = Inr expected"
  shows "accepted w u body"
  using assms
  by (auto simp: verify_download_def accepted_def Let_def apkControlSegment_def split: if_splits option.splits sum.splits)

lemma fetch_any_downloaded:
  assumes "\<And>ops. map_of (fsFiles s) (fwTemp w cacheDir ops) = None" and "fetchFromAny w cacheDir u rules s = (r, s')"
  shows "case r of Inl _ \<Rightarrow> map_of (fsFiles s') = map_of (fsFiles s)
    | Inr a \<Rightarrow> downloaded w cacheDir (sourceURLs u rules) (map_of (fsFiles s)) a s'"
  using fetch_any_effect [where files = "map_of (fsFiles s)" and s = s and w = w and cacheDir = cacheDir
      and urls = "sourceURLs u rules" and firstErr = None, OF assms(1) refl] assms(2)
  by (simp add: fetchFromAny_def)

lemma add_mirrors_set:
  "set (add_mirrors source rules urls) \<subseteq> set urls \<union> (\<lambda>m. fst (MirrorApply m source)) ` set rules"
proof (induction rules arbitrary: urls)
  case (Cons r rules)
  obtain rewritten ok where "MirrorApply r source = (rewritten, ok)" by (cases "MirrorApply r source")
  then show ?case using Cons.IH [of urls] Cons.IH [of "urls @ [rewritten]"] by (auto split: if_splits)
qed simp

lemma sourceURLs_set:
  "set (sourceURLs u rules) \<subseteq> set (uSource u # uMirrors u @ map (\<lambda>m. fst (MirrorApply m (uSource u))) rules)"
  using add_mirrors_set [of "uSource u" rules "uSource u # uMirrors u"] by (auto simp: sourceURLs_def)


definition ex_fetch :: fetch_world where
  "ex_fetch = \<lparr>fwSHA256 = id, fwSHA1 = id, fwInflate = (\<lambda>_. None),
     fwServe = (\<lambda>ops url. if url = ''http://m/a.zip'' then if length ops < 9 then NoResponse else Body ''data'' else NoResponse),
     fwTemp = (\<lambda>dir ops. ''/c/tmp''), fwRename = True\<rparr>"

definition ex_archive :: Unit where
  "ex_archive = zero_unit\<lparr>uName := ''a'', uSource := ''http://h/a.zip'', uMirrors := [''http://m/a.zip''], uSHA256 := hex ''data''\<rparr>"


section \<open>Published clones carry their reference\<close>

text \<open>The operation was done, with success, after the history h.\<close>

definition done_in :: "git_world \<Rightarrow> git_op list \<Rightarrow> git_op \<Rightarrow> git_op list \<Rightarrow> bool" where
  "done_in w h op h' \<longleftrightarrow> (\<exists>i \<ge> length h. i < length h' \<and> h' ! i = op \<and> fst (w (take i h') op))"

abbreviation no_rename :: "git_op \<Rightarrow> bool" where
  "no_rename op \<equiv> \<forall>a b. op \<noteq> Rename a b"

abbreviation quiet :: "git_op list \<Rightarrow> git_op list \<Rightarrow> bool" where
  "quiet \<equiv> appends no_rename"

lemma quiet_length: "appends P h h' \<Longrightarrow> length h \<le> length h'"
  by (auto simp: appends_def)

lemma quiet_nth: "quiet h h' \<Longrightarrow> length h \<le> i \<Longrightarrow> i < length h' \<Longrightarrow> h' ! i \<noteq> Rename a b"
  by (auto simp: appends_def nth_append list_all_length)

lemma done_in_append: "done_in w h op h' \<Longrightarrow> done_in w h op (h' @ ops)"
  unfolding done_in_def by (elim exE conjE) (rule_tac x = i in exI, simp add: nth_append)

lemma done_in_earlier: "done_in w (h @ ops) op h' \<Longrightarrow> done_in w h op h'"
  unfolding done_in_def by (metis add_leD1 length_append)

lemma done_in_last: "appends P h h' \<Longrightarrow> fst (w h' op) \<Longrightarrow> done_in w h op (h' @ op # ops)"
  by (auto simp: done_in_def intro!: exI [of _ "length h'"] quiet_length)

lemma not_done_quiet: "quiet h h' \<Longrightarrow> \<not> done_in w h (Rename a b) h'"
  by (auto simp: done_in_def dest: quiet_nth)

text \<open>Every directory that is renamed is renamed to the cache entry and was checked before.\<close>

definition checked :: "git_world \<Rightarrow> string \<Rightarrow> string \<Rightarrow> git_op list \<Rightarrow> git_op list \<Rightarrow> bool" where
  "checked w ref barePath h h' \<longleftrightarrow>
     (\<forall>i a b. length h \<le> i \<longrightarrow> i < length h' \<longrightarrow> h' ! i = Rename a b \<longrightarrow>
        b = barePath \<and> done_in w h (ref_check a ref) (take i h'))"

lemma checked_quiet: "quiet h h' \<Longrightarrow> checked w ref barePath h h'"
  by (auto simp: checked_def dest: quiet_nth)

lemma nth_publish:
  assumes "quiet h h1" and "quiet [] rest" and "length h \<le> i" and "i < length (h1 @ Rename tmp bare # rest)"
    and "(h1 @ Rename tmp bare # rest) ! i = Rename a b"
  shows "i = length h1 \<and> a = tmp \<and> b = bare"
proof -
  have "\<not> i < length h1" using assms(5) quiet_nth [OF assms(1,3)] by (auto simp: nth_append)
  moreover have "i = length h1" if "length h1 \<le> i"
    using that assms(4,5) quiet_nth [OF assms(2), of "i - Suc (length h1)"] by (auto simp: nth_append nth_Cons' split: if_splits)
  ultimately show ?thesis using assms(5) by (auto simp: nth_append)
qed

lemma checked_publish:
  assumes "quiet h h1" and "done_in w h (ref_check tmp ref) h1" and "quiet [] rest"
  shows "checked w ref bare h (h1 @ Rename tmp bare # rest)"
  unfolding checked_def
proof (intro allI impI)
  fix i a b
  assume "length h \<le> i" "i < length (h1 @ Rename tmp bare # rest)" "(h1 @ Rename tmp bare # rest) ! i = Rename a b"
  from nth_publish [OF assms(1,3) this]
  show "b = bare \<and> done_in w h (ref_check a ref) (take i (h1 @ Rename tmp bare # rest))" using assms(2) by simp
qed

lemma not_done_publish:
  assumes "quiet h h1" and "\<not> fst (w h1 (Rename tmp bare))" and "quiet [] rest"
  shows "\<not> done_in w h (Rename a b) (h1 @ Rename tmp bare # rest)"
proof
  assume "done_in w h (Rename a b) (h1 @ Rename tmp bare # rest)"
  then obtain i where i: "length h \<le> i" "i < length (h1 @ Rename tmp bare # rest)" "(h1 @ Rename tmp bare # rest) ! i = Rename a b"
    and ok: "fst (w (take i (h1 @ Rename tmp bare # rest)) (Rename a b))" by (auto simp: done_in_def)
  from nth_publish [OF assms(1,3) i] ok assms(2) show False by simp
qed



lemma quiet_snoc: "quiet h h' \<Longrightarrow> no_rename op \<Longrightarrow> quiet h (h' @ [op])"
  by (rule appends_snoc)

lemma gitHasRef_run:
  assumes "gitHasRef w dir ref h = (ok, h')"
  shows "quiet h h'" and "ok \<Longrightarrow> done_in w h (ref_check dir ref) h'"
  using assms
  by (auto simp: gitHasRef_def git_do_def ref_check_def appends_def done_in_def nth_append take_Cons'
      intro!: exI [of _ "Suc (length h)"] split: prod.splits if_splits)

lemma cloneUnitSource_run:
  assumes "cloneUnitSource w cacheDir urlHash ref u h = (r, h')"
  shows "quiet h h'" and "r = Inr tmp \<Longrightarrow> done_in w h (ref_check tmp ref) h'"
proof -
  note simps = cloneUnitSource_def git_do_def
  obtain ok tmp0 where t: "w h (MkdirTemp (PathJoin [cacheDir, urlHash @ ''.tmp-''])) = (ok, tmp0)"
    by (cases "w h (MkdirTemp (PathJoin [cacheDir, urlHash @ ''.tmp-'']))")
  let ?h1 = "h @ [MkdirTemp (PathJoin [cacheDir, urlHash @ ''.tmp-''])]"
  let ?opts = "\<lparr>coURL = uSource u, coRef = (if uTag u = [] then uBranch u else uTag u), coDest = tmp0, coBare = True, coDepth = 1\<rparr>"
  obtain c h2 where c: "Clone w ?opts ?h1 = (c, h2)" by (cases "Clone w ?opts ?h1")
  obtain ok3 h3 where g: "gitHasRef w tmp0 ref h2 = (ok3, h3)" by (cases "gitHasRef w tmp0 ref h2")
  have "quiet ?h1 h2" using Clone_appends [where P = no_rename and w = w and opts = ?opts and h = ?h1] c by simp
  then have q2: "quiet h h2" by (rule appends_trans [rotated]) (simp add: appends_def)
  from gitHasRef_run(1) [OF g] have q3: "quiet h h3" by (rule appends_trans [OF q2])
  show "quiet h h'" using assms t c g q2 q3
    by (auto simp: simps appends_snoc [OF appends_refl] split: sum.splits bool.splits if_splits intro!: quiet_snoc)
  have "done_in w h (ref_check tmp0 ref) h3" if ok3
    using gitHasRef_run(2) [OF g that] q2 by (auto simp: appends_def intro: done_in_earlier)
  then show "r = Inr tmp \<Longrightarrow> done_in w h (ref_check tmp ref) h'" using assms t c g
    by (auto simp: simps split: sum.splits bool.splits if_splits)
qed


text \<open>What happens between taking and releasing the lock.\<close>

lemma fetch_locked_run:
  assumes "fetch_locked w cacheDir urlHash bare ref u h = (r, h')"
  shows "quiet h h' \<and> (\<forall>path. r = Inr path \<longrightarrow> path = bare \<and> done_in w h (ref_check bare ref) h') \<or>
    (\<exists>tmp h1. quiet h h1 \<and> done_in w h (ref_check tmp ref) h1 \<and> h' = h1 @ [Rename tmp bare, RemoveAll tmp] \<and>
      (if fst (w h1 (Rename tmp bare)) then r = Inr bare else r = Inl PublishFailed))"
proof -
  obtain ok h1 where g: "gitHasRef w bare ref h = (ok, h1)" by (cases "gitHasRef w bare ref h")
  note q1 = gitHasRef_run(1) [OF g]
  let ?clear = "case git_do w (Stat bare) h1 of
                   ((False, _), h2) \<Rightarrow> (None, h2)
                 | ((True, _), h2) \<Rightarrow>
                     (case git_do w (RemoveAll bare) h2 of
                        ((False, _), h3) \<Rightarrow> (Some (ClearFailed bare), h3) | ((True, _), h3) \<Rightarrow> (None, h3))"
  obtain e h4 where c: "?clear = (e, h4)" by (cases ?clear)
  then have "quiet h1 h4" by (auto simp: git_do_def appends_def split: prod.splits bool.splits)
  with q1 have q4: "quiet h h4" by (rule appends_trans)
  let ?h5 = "h4 @ [RemoveMatching (PathJoin [cacheDir, urlHash @ ''.tmp-*''])]"
  obtain t h6 where t: "cloneUnitSource w cacheDir urlHash ref u ?h5 = (t, h6)" by (cases "cloneUnitSource w cacheDir urlHash ref u ?h5")
  have "quiet h ?h5" using q4 by simp
  with cloneUnitSource_run(1) [OF t] have q6: "quiet h h6" by (rule appends_trans [rotated])
  consider (hit) "ok" | (stuck) err where "\<not> ok" "e = Some err" | (lost) err where "\<not> ok" "e = None" "t = Inl err"
    | (got) tmp where "\<not> ok" "e = None" "t = Inr tmp"
    by (cases e; cases t) auto
  then show ?thesis
  proof cases
    case hit
    then show ?thesis using assms g q1 gitHasRef_run(2) [OF g] by (auto simp: fetch_locked_def)
  next
    case stuck
    then show ?thesis using assms g q4 c by (auto simp: fetch_locked_def git_do_def)
  next
    case lost
    then show ?thesis using assms g q6 c t by (auto simp: fetch_locked_def git_do_def)
  next
    case got
    note tmp = got(3)
    have "done_in w ?h5 (ref_check tmp ref) h6" by (rule cloneUnitSource_run(2) [OF t tmp])
    then have d: "done_in w h (ref_check tmp ref) h6" using q4 by (auto simp: appends_def intro: done_in_earlier)
    obtain p h7 where p: "publish_clone w tmp bare h6 = (p, h7)" by (cases "publish_clone w tmp bare h6")
    have res: "r = p" "h' = h7 @ [RemoveAll tmp]" using assms g c t got p
      by (auto simp: fetch_locked_def git_do_def)
    show ?thesis
    proof (cases "fst (w h6 (Chmod tmp 493))")
      case True
      let ?h = "h6 @ [Chmod tmp 493]"
      have "quiet h ?h" using q6 by simp
      moreover have "done_in w h (ref_check tmp ref) ?h" using d by (rule done_in_append)
      moreover have "h7 = ?h @ [Rename tmp bare]" "if fst (w ?h (Rename tmp bare)) then p = Inr bare else p = Inl PublishFailed"
        using p True by (auto simp: publish_clone_def git_do_def split: prod.splits bool.splits)
      ultimately show ?thesis using res by (intro disjI2 exI [of _ tmp] exI [of _ ?h]) simp
    next
      case False
      then have "h7 = h6 @ [Chmod tmp 493]" "p = Inl ChmodFailed"
        using p by (auto simp: publish_clone_def git_do_def split: prod.splits bool.splits)
      then show ?thesis using res q6 quiet_snoc [OF quiet_snoc [OF q6, of "Chmod tmp 493"], of "RemoveAll tmp"] by simp
    qed
  qed
qed

text \<open>
  Under the lock of its cache entry, a fetch of a repository publishes only clones that have
  what the unit asked for: every directory it renames is renamed to the cache entry, after
  \<^verbatim>\<open>git rev-parse\<close> found the reference in it. When it succeeds, the entry was complete already or
  a checked clone was renamed to it; when it fails, no clone was. The lock is the first thing
  taken and, once taken, the last thing released.
\<close>

theorem fetchGit_publishes:
  assumes "fetchGit w sha256 cacheDir u h = (r, h')" and "ref = unit_ref u"
    and "bare = PathJoin [cacheDir, hex (sha256 (uSource u @ ''#'' @ ref)) @ ''.git'']" and "lock = bare @ ''.lock''"
  shows "checked w ref bare h h' \<and>
    (case r of
       Inr path \<Rightarrow> path = bare \<and> (done_in w h (ref_check bare ref) h' \<or> (\<exists>tmp. done_in w h (Rename tmp bare) h'))
     | Inl _ \<Rightarrow> \<forall>tmp. \<not> done_in w h (Rename tmp bare) h') \<and>
    (if fst (w h (AcquireLock lock)) then \<exists>ops. h' = h @ AcquireLock lock # ops @ [ReleaseLock lock]
     else r = Inl LockFailed \<and> h' = h @ [AcquireLock lock])"
proof (cases "fst (w h (AcquireLock lock))")
  case True
  let ?h1 = "h @ [AcquireLock lock]" and ?hash = "hex (sha256 (uSource u @ ''#'' @ ref))"
  obtain p h2 where p: "fetch_locked w cacheDir ?hash bare ref u ?h1 = (p, h2)" by (cases "fetch_locked w cacheDir ?hash bare ref u ?h1")
  have res: "r = p" "h' = h2 @ [ReleaseLock lock]"
    using assms True p by (auto simp: fetchGit_def Let_def git_do_def split: prod.splits)
  from fetch_locked_run [OF p] consider
      (kept) "quiet ?h1 h2" "\<forall>path. p = Inr path \<longrightarrow> path = bare \<and> done_in w ?h1 (ref_check bare ref) h2"
    | (renamed) tmp h3 where "quiet ?h1 h3" "done_in w ?h1 (ref_check tmp ref) h3" "h2 = h3 @ [Rename tmp bare, RemoveAll tmp]"
        "if fst (w h3 (Rename tmp bare)) then p = Inr bare else p = Inl PublishFailed"
    by blast
  then show ?thesis
  proof cases
    case kept
    then have "quiet h (h2 @ [ReleaseLock lock])" by (auto simp: appends_def)
    moreover have "done_in w h (ref_check bare ref) (h2 @ [ReleaseLock lock])" if "p = Inr path" for path
      using kept(2) that by (blast intro: done_in_append done_in_earlier)
    moreover have "\<exists>ops. h2 @ [ReleaseLock lock] = h @ AcquireLock lock # ops @ [ReleaseLock lock]"
      using kept(1) by (auto simp: appends_def)
    ultimately show ?thesis using kept(2) True res
      by (simp add: checked_quiet not_done_quiet split: sum.split)
  next
    case renamed
    have q: "quiet h h3" "quiet [] [RemoveAll tmp, ReleaseLock lock]" using renamed(1) by (auto simp: appends_def)
    have h': "h' = h3 @ Rename tmp bare # [RemoveAll tmp, ReleaseLock lock]" using res renamed(3) by simp
    have "checked w ref bare h h'" unfolding h' by (rule checked_publish [OF q(1) done_in_earlier [OF renamed(2)] q(2)])
    moreover have "\<exists>ops. h' = h @ AcquireLock lock # ops @ [ReleaseLock lock]" using renamed(1) h' by (auto simp: appends_def)
    moreover have "done_in w h (Rename tmp bare) h'" if "fst (w h3 (Rename tmp bare))"
      unfolding h' using q(1) that by (rule done_in_last)
    moreover have "\<not> done_in w h (Rename a bare) h'" if "\<not> fst (w h3 (Rename tmp bare))" for a
      unfolding h' using q(1) that q(2) by (rule not_done_publish)
    ultimately show ?thesis using True res(1) renamed(4) by (auto split: if_splits)
  qed
next
  case False
  then have "r = Inl LockFailed" "h' = h @ [AcquireLock lock]"
    using assms by (auto simp: fetchGit_def Let_def git_do_def split: prod.splits)
  then show ?thesis using False checked_quiet not_done_quiet by (auto simp: appends_def)
qed


text \<open>A server that resets the first connection, and a cache without the entry.\<close>

definition ex_host :: git_world where
  "ex_host h op = (case op of
      Stat d \<Rightarrow> (d = ''/c/tmp'', [])
    | MkdirTemp pattern \<Rightarrow> (True, ''/c/tmp'')
    | GitCommand d args \<Rightarrow> (d = ''/c/tmp'' \<or> 6 < length h, ''connection reset'')
    | _ \<Rightarrow> (True, []))"

theorem fetchGit_publishes_witness:
  "\<exists>h'. fetchGit ex_host id ''/c'' (zero_unit\<lparr>uSource := ''g'', uTag := ''v1''\<rparr>) [] = (Inr (PathJoin [''/c'', hex ''g#v1'' @ ''.git'']), h') \<and>
     Rename ''/c/tmp'' (PathJoin [''/c'', hex ''g#v1'' @ ''.git'']) \<in> set h' \<and>
     checked ex_host ''v1'' (PathJoin [''/c'', hex ''g#v1'' @ ''.git'']) [] h'"
proof -
  let ?u = "zero_unit\<lparr>uSource := ''g'', uTag := ''v1''\<rparr>" and ?bare = "PathJoin [''/c'', hex ''g#v1'' @ ''.git'']"
  obtain r h' where run: "fetchGit ex_host id ''/c'' ?u [] = (r, h')" by (cases "fetchGit ex_host id ''/c'' ?u []")
  have "map_sum (\<lambda>_. ()) id (fst (fetchGit ex_host id ''/c'' ?u [])) = Inr ?bare \<and>
      Rename ''/c/tmp'' ?bare \<in> set (snd (fetchGit ex_host id ''/c'' ?u []))" by code_simp
  then have res: "r = Inr ?bare" "Rename ''/c/tmp'' ?bare \<in> set h'" using run by (cases r; simp)+
  have "''v1'' = unit_ref ?u" "?bare = PathJoin [''/c'', hex (id (uSource ?u @ ''#'' @ ''v1'')) @ ''.git'']"
    by (simp_all add: unit_ref_def)
  from fetchGit_publishes [OF run this refl] res run show ?thesis by auto
qed

end
