(* ===== verification/ConsoleLog.thy ===== *)
theory ConsoleLog
  imports GoStrings
begin

text \<open>
  The line log of a serial console (\<^verbatim>\<open>internal/serial/logwriter.go\<close>): raw bytes become lines
  with the time of their first byte, without escape sequences. Calls hold the lock of the
  writer, so a log is a sequence of operations; the idle timer is one of them. The clock and
  the failures of the output are oracles.
\<close>

section \<open>State\<close>

datatype esc_state = EscNone | EscESC | EscCSI | EscOSC

datatype entry = LogLine nat string | LogMarker nat string

record log_writer =
  lgOut :: "entry list"
  lgWrites :: nat
  lgClock :: nat
  lgLine :: string
  lgStart :: nat
  lgCrFlushed :: bool
  lgEsc :: esc_state
  lgIdle :: bool
  lgClosed :: bool

record log_env =
  leNow :: "nat \<Rightarrow> nat"
  leFails :: "nat \<Rightarrow> bool"

definition NewLogWriter :: log_writer where
  "NewLogWriter = \<lparr>lgOut = [], lgWrites = 0, lgClock = 0, lgLine = [], lgStart = 0, lgCrFlushed = False, lgEsc = EscNone,
     lgIdle = False, lgClosed = False\<rparr>"

definition entry_text :: "(nat \<Rightarrow> string) \<Rightarrow> entry \<Rightarrow> string" where
  "entry_text format e =
     (case e of
        LogLine t s \<Rightarrow> ''['' @ format t @ ''] '' @ s @ ''\<newline>''
      | LogMarker t s \<Rightarrow> ''['' @ format t @ ''] --- '' @ s @ '' ---\<newline>'')"

section \<open>Operations\<close>

text \<open>Each reading of the clock gives its next value; a write that fails leaves no entry.\<close>

definition now :: "log_env \<Rightarrow> log_writer \<Rightarrow> nat \<times> log_writer" where
  "now env l = (leNow env (lgClock l), l\<lparr>lgClock := Suc (lgClock l)\<rparr>)"

definition emit :: "log_env \<Rightarrow> entry \<Rightarrow> log_writer \<Rightarrow> log_writer \<times> bool" where
  "emit env e l =
     (let failed = leFails env (lgWrites l) in
      (l\<lparr>lgWrites := Suc (lgWrites l), lgOut := (if failed then lgOut l else lgOut l @ [e])\<rparr>, failed))"

definition flushLine :: "log_env \<Rightarrow> log_writer \<Rightarrow> log_writer \<times> bool" where
  "flushLine env l =
     (let (ts, l1) = (if lgLine l = [] then now env l else (lgStart l, l));
          (l2, failed) = emit env (LogLine ts (lgLine l)) l1
      in (l2\<lparr>lgLine := [], lgIdle := False\<rparr>, failed))"

definition isText :: "char \<Rightarrow> bool" where
  "isText b \<longleftrightarrow> b = CHR 0x09 \<or> 0x20 \<le> (of_char b :: nat) \<and> b \<noteq> CHR 0x7F"

definition feed_text :: "log_env \<Rightarrow> char \<Rightarrow> log_writer \<Rightarrow> log_writer \<times> bool" where
  "feed_text env b l =
     (if b = CHR 0x1B then (l\<lparr>lgEsc := EscESC\<rparr>, False)
      else if b = CHR 0x0A then (if lgCrFlushed l then (l\<lparr>lgCrFlushed := False\<rparr>, False) else flushLine env l)
      else if b = CHR 0x0D then
        (if lgLine l \<noteq> [] then
           (case flushLine env l of (l1, failed) \<Rightarrow> if failed then (l1, True) else (l1\<lparr>lgCrFlushed := True\<rparr>, False))
         else (l, False))
      else if isText b then
        (let l1 = l\<lparr>lgCrFlushed := False\<rparr>;
             l2 = (if lgLine l1 = [] then (case now env l1 of (t, l') \<Rightarrow> l'\<lparr>lgStart := t\<rparr>) else l1)
         in (l2\<lparr>lgLine := lgLine l2 @ [b]\<rparr>, False))
      else (l, False))"

definition feed :: "log_env \<Rightarrow> char \<Rightarrow> log_writer \<Rightarrow> log_writer \<times> bool" where
  "feed env b l =
     (case lgEsc l of
        EscESC \<Rightarrow>
          (l\<lparr>lgEsc := (if b = CHR 0x5B then EscCSI else if b = CHR 0x5D then EscOSC else EscNone)\<rparr>, False)
      | EscCSI \<Rightarrow>
          (if 0x40 \<le> (of_char b :: nat) \<and> (of_char b :: nat) \<le> 0x7E then l\<lparr>lgEsc := EscNone\<rparr> else l, False)
      | EscOSC \<Rightarrow>
          (if b = CHR 0x07 then l\<lparr>lgEsc := EscNone\<rparr> else if b = CHR 0x1B then l\<lparr>lgEsc := EscESC\<rparr> else l, False)
      | EscNone \<Rightarrow> feed_text env b l)"

fun feed_all :: "log_env \<Rightarrow> string \<Rightarrow> log_writer \<Rightarrow> log_writer \<times> bool" where
  "feed_all env [] l = (l, False)"
| "feed_all env (b # bs) l = (case feed env b l of (l1, failed) \<Rightarrow> if failed then (l1, True) else feed_all env bs l1)"

definition armIdle :: "log_writer \<Rightarrow> log_writer" where
  "armIdle l = (if lgClosed l then l else l\<lparr>lgIdle := True\<rparr>)"

text \<open>The number of bytes taken is none after an error, all otherwise.\<close>

definition Write :: "log_env \<Rightarrow> string \<Rightarrow> log_writer \<Rightarrow> log_writer \<times> nat \<times> bool" where
  "Write env p l =
     (case feed_all env p l of
        (l1, True) \<Rightarrow> (l1, 0, True)
      | (l1, False) \<Rightarrow> (if lgLine l1 \<noteq> [] then armIdle l1 else l1, length p, False))"

definition flush_pending :: "log_env \<Rightarrow> log_writer \<Rightarrow> log_writer \<times> bool" where
  "flush_pending env l = (if lgLine l = [] then (l, False) else flushLine env l)"

definition idleFire :: "log_env \<Rightarrow> log_writer \<Rightarrow> log_writer" where
  "idleFire env l = fst (flush_pending env l)"

definition Flush :: "log_env \<Rightarrow> log_writer \<Rightarrow> log_writer \<times> bool" where
  "Flush env l = flush_pending env l"

definition Marker :: "log_env \<Rightarrow> string \<Rightarrow> log_writer \<Rightarrow> log_writer \<times> bool" where
  "Marker env text l =
     (case flush_pending env l of
        (l1, True) \<Rightarrow> (l1, True)
      | (l1, False) \<Rightarrow> (case now env l1 of (t, l2) \<Rightarrow> emit env (LogMarker t text) l2))"

definition Close :: "log_env \<Rightarrow> log_writer \<Rightarrow> log_writer \<times> bool" where
  "Close env l = flush_pending env (l\<lparr>lgClosed := True, lgIdle := False\<rparr>)"

datatype log_op = OpWrite string | OpIdle | OpFlush | OpMarker string | OpClose

definition log_step :: "log_env \<Rightarrow> log_op \<Rightarrow> log_writer \<Rightarrow> log_writer" where
  "log_step env c l =
     (case c of
        OpWrite p \<Rightarrow> fst (Write env p l)
      | OpIdle \<Rightarrow> idleFire env l
      | OpFlush \<Rightarrow> fst (Flush env l)
      | OpMarker t \<Rightarrow> fst (Marker env t l)
      | OpClose \<Rightarrow> fst (Close env l))"

definition log_run :: "log_env \<Rightarrow> log_op list \<Rightarrow> log_writer" where
  "log_run env ops = fold (log_step env) ops NewLogWriter"

section \<open>The text of a stream\<close>

text \<open>What the stream shows: the text bytes outside escape sequences.\<close>

definition esc_next :: "esc_state \<Rightarrow> char \<Rightarrow> esc_state" where
  "esc_next s b =
     (case s of
        EscNone \<Rightarrow> if b = CHR 0x1B then EscESC else EscNone
      | EscESC \<Rightarrow> if b = CHR 0x5B then EscCSI else if b = CHR 0x5D then EscOSC else EscNone
      | EscCSI \<Rightarrow> if 0x40 \<le> (of_char b :: nat) \<and> (of_char b :: nat) \<le> 0x7E then EscNone else EscCSI
      | EscOSC \<Rightarrow> if b = CHR 0x07 then EscNone else if b = CHR 0x1B then EscESC else EscOSC)"

fun shown :: "esc_state \<Rightarrow> string \<Rightarrow> string" where
  "shown s [] = []"
| "shown s (b # bs) = (if s = EscNone \<and> isText b then b # shown s bs else shown (esc_next s b) bs)"

definition line_texts :: "entry list \<Rightarrow> string" where
  "line_texts out = concat (map (\<lambda>e. case e of LogLine _ s \<Rightarrow> s | LogMarker _ _ \<Rightarrow> []) out)"

definition entry_time :: "entry \<Rightarrow> nat" where
  "entry_time e = (case e of LogLine t _ \<Rightarrow> t | LogMarker t _ \<Rightarrow> t)"

section \<open>Nothing is lost\<close>

definition esc_after :: "esc_state \<Rightarrow> string \<Rightarrow> esc_state" where
  "esc_after s p = fold (\<lambda>b s. esc_next s b) p s"

lemma esc_after_simps [simp]: "esc_after s [] = s" "esc_after s (b # bs) = esc_after (esc_next s b) bs"
  by (simp_all add: esc_after_def)

lemma isText_not_esc: "isText b \<Longrightarrow> b \<noteq> CHR 0x1B \<and> b \<noteq> CHR 0x0A \<and> b \<noteq> CHR 0x0D"
  by (auto simp: isText_def)

lemma shown_append: "shown s (p @ q) = shown s p @ shown (esc_after s p) q"
  by (induction s p rule: shown.induct) (auto simp: esc_next_def dest: isText_not_esc)

lemma esc_after_append: "esc_after s (p @ q) = esc_after (esc_after s p) q"
  by (simp add: esc_after_def)

lemma shown_text: "c \<in> set (shown s p) \<Longrightarrow> isText c"
  by (induction s p rule: shown.induct) (auto split: if_splits)

lemma line_texts_append [simp]:
  "line_texts (out @ [LogLine t s]) = line_texts out @ s" "line_texts (out @ [LogMarker t s]) = line_texts out"
  by (simp_all add: line_texts_def)

text \<open>The state of a log that has been given some bytes, when no write of the output fails.\<close>

definition log_inv :: "log_env \<Rightarrow> string \<Rightarrow> log_writer \<Rightarrow> bool" where
  "log_inv env bs l \<longleftrightarrow>
     lgEsc l = esc_after EscNone bs \<and> line_texts (lgOut l) @ lgLine l = shown EscNone bs \<and>
     sorted (map entry_time (lgOut l)) \<and> (\<forall>e \<in> set (lgOut l). entry_time e \<le> leNow env (lgClock l)) \<and>
     (lgLine l \<noteq> [] \<longrightarrow> lgStart l \<le> leNow env (lgClock l) \<and> (\<forall>e \<in> set (lgOut l). entry_time e \<le> lgStart l))"

definition calm :: "log_env \<Rightarrow> bool" where
  "calm env \<longleftrightarrow> (\<forall>k. \<not> leFails env k) \<and> mono (leNow env)"

lemma clock_step: "calm env \<Longrightarrow> leNow env k \<le> leNow env (Suc k)"
  by (simp add: calm_def monoD)

lemma flushLine_inv:
  assumes "calm env" and "log_inv env bs l"
  shows "\<exists>l'. flushLine env l = (l', False) \<and> log_inv env bs l' \<and> lgLine l' = [] \<and> \<not> lgIdle l' \<and> lgClosed l' = lgClosed l"
  using assms clock_step [OF assms(1), of "lgClock l"]
  by (fastforce simp: flushLine_def emit_def now_def log_inv_def calm_def sorted_append entry_time_def
      split: if_splits intro: order_trans)

lemma flush_pending_inv:
  assumes "calm env" and "log_inv env bs l"
  shows "\<exists>l'. flush_pending env l = (l', False) \<and> log_inv env bs l' \<and> lgLine l' = [] \<and> lgClosed l' = lgClosed l"
  using flushLine_inv [OF assms] assms(2) by (auto simp: flush_pending_def)

lemma log_inv_cr [simp]: "log_inv env bs (l\<lparr>lgCrFlushed := b\<rparr>) = log_inv env bs l"
  by (simp add: log_inv_def)

lemma log_inv_byte:
  "log_inv env bs l \<Longrightarrow> \<not> (lgEsc l = EscNone \<and> isText b) \<Longrightarrow> log_inv env (bs @ [b]) (l\<lparr>lgEsc := esc_next (lgEsc l) b\<rparr>)"
  by (simp add: log_inv_def shown_append esc_after_append)

lemma feed_inv:
  assumes "calm env" and "log_inv env bs l"
  shows "\<exists>l'. feed env b l = (l', False) \<and> log_inv env (bs @ [b]) l' \<and> lgClosed l' = lgClosed l"
proof (cases "lgEsc l = EscNone")
  case False
  then have "log_inv env (bs @ [b]) (l\<lparr>lgEsc := esc_next (lgEsc l) b\<rparr>)" using log_inv_byte assms(2) by blast
  moreover have "feed env b l = (l\<lparr>lgEsc := esc_next (lgEsc l) b\<rparr>, False)"
    using False by (cases "lgEsc l") (simp_all add: feed_def esc_next_def)
  ultimately show ?thesis by simp
next
  case True
  show ?thesis
  proof (cases "isText b")
    case False
    have stay: "log_inv env (bs @ [b]) (l'\<lparr>lgEsc := esc_next EscNone b\<rparr>)" if "log_inv env bs l'" "lgEsc l' = EscNone" for l'
      using log_inv_byte [OF that(1)] that(2) False by simp
    obtain l1 where fl: "flushLine env l = (l1, False)" "log_inv env bs l1" "lgClosed l1 = lgClosed l"
      using flushLine_inv [OF assms] by blast
    have "lgEsc l1 = EscNone" using fl(2) assms(2) True by (simp add: log_inv_def)
    note s1 = stay [OF fl(2) this]
    have same: "l'\<lparr>lgEsc := EscNone\<rparr> = l'" if "lgEsc l' = EscNone" for l' using that by simp
    consider "b = CHR 0x1B" | "b = CHR 0x0A" | "b = CHR 0x0D" | "b \<notin> {CHR 0x1B, CHR 0x0A, CHR 0x0D}" by blast
    then show ?thesis
    proof cases
      case 1
      then show ?thesis using True stay [OF assms(2) True] by (simp add: feed_def feed_text_def esc_next_def)
    next
      case 2
      then show ?thesis using True stay [OF assms(2) True] s1 fl same [of l] same [of l1] \<open>lgEsc l1 = EscNone\<close>
        by (simp add: feed_def feed_text_def esc_next_def)
    next
      case 3
      then show ?thesis using True stay [OF assms(2) True] s1 fl same [of l] same [of l1] \<open>lgEsc l1 = EscNone\<close>
        by (simp add: feed_def feed_text_def esc_next_def)
    next
      case 4
      then show ?thesis using True stay [OF assms(2) True] same [of l] False by (simp add: feed_def feed_text_def esc_next_def)
    qed
  next
    case True_text: True
    note n = isText_not_esc [OF True_text]
    have "esc_after EscNone bs = EscNone" using True assms(2) by (simp add: log_inv_def)
    then show ?thesis
      using True True_text n assms clock_step [OF assms(1), of "lgClock l"]
      by (fastforce simp: feed_def feed_text_def now_def Let_def log_inv_def shown_append esc_after_append esc_next_def
          intro: order_trans)
  qed
qed

lemma feed_all_inv:
  "calm env \<Longrightarrow> log_inv env bs l \<Longrightarrow> \<exists>l'. feed_all env p l = (l', False) \<and> log_inv env (bs @ p) l' \<and> lgClosed l' = lgClosed l"
proof (induction p arbitrary: bs l)
  case (Cons b p)
  obtain l1 where l1: "feed env b l = (l1, False)" "log_inv env (bs @ [b]) l1" "lgClosed l1 = lgClosed l"
    using feed_inv [OF Cons.prems] by blast
  from Cons.IH [OF Cons.prems(1) l1(2)] l1 show ?case by simp
qed simp

lemma log_inv_idle [simp]: "log_inv env bs (l\<lparr>lgIdle := b\<rparr>) = log_inv env bs l" "log_inv env bs (l\<lparr>lgClosed := b\<rparr>) = log_inv env bs l"
  by (simp_all add: log_inv_def)

definition written :: "log_op \<Rightarrow> string" where
  "written c = (case c of OpWrite p \<Rightarrow> p | _ \<Rightarrow> [])"

text \<open>A partial line waits for the timer, unless the log is closed.\<close>

definition pending_due :: "log_writer \<Rightarrow> bool" where
  "pending_due l \<longleftrightarrow> lgLine l \<noteq> [] \<longrightarrow> lgIdle l \<or> lgClosed l"

lemma log_step_inv:
  assumes "calm env" and "log_inv env bs l" and "pending_due l"
  shows "log_inv env (bs @ written c) (log_step env c l) \<and> pending_due (log_step env c l)"
proof -
  obtain l1 where l1: "flush_pending env l = (l1, False)" "log_inv env bs l1" "lgLine l1 = []"
    using flush_pending_inv [OF assms(1,2)] by blast
  show ?thesis
  proof (cases c)
    case (OpWrite p)
    obtain l2 where "feed_all env p l = (l2, False)" "log_inv env (bs @ p) l2" using feed_all_inv [OF assms(1,2)] by blast
    with OpWrite show ?thesis by (auto simp: log_step_def Write_def written_def armIdle_def pending_due_def)
  next
    case (OpMarker t)
    let ?l = "l1\<lparr>lgClock := Suc (lgClock l1), lgWrites := Suc (lgWrites l1), lgOut := lgOut l1 @ [LogMarker (leNow env (lgClock l1)) t]\<rparr>"
    have "log_step env c l = ?l" using OpMarker l1(1) assms(1) by (simp add: log_step_def Marker_def now_def emit_def calm_def Let_def)
    moreover have "log_inv env bs ?l"
      using l1(2,3) clock_step [OF assms(1), of "lgClock l1"]
      by (auto simp: log_inv_def sorted_append entry_time_def intro: order_trans)
    ultimately show ?thesis using OpMarker l1(3) by (simp add: written_def pending_due_def)
  next
    case OpClose
    obtain l2 where "flush_pending env (l\<lparr>lgClosed := True, lgIdle := False\<rparr>) = (l2, False)" "log_inv env bs l2" "lgLine l2 = []"
      using flush_pending_inv [OF assms(1), of bs "l\<lparr>lgClosed := True, lgIdle := False\<rparr>"] assms(2) by auto
    with OpClose show ?thesis by (simp add: log_step_def Close_def written_def pending_due_def)
  qed (use l1 in \<open>simp_all add: log_step_def idleFire_def Flush_def written_def pending_due_def\<close>)
qed

lemma log_run_inv:
  assumes "calm env"
  shows "log_inv env (concat (map written ops)) (log_run env ops) \<and> pending_due (log_run env ops)"
proof (induction ops rule: rev_induct)
  case Nil
  then show ?case by (simp add: log_run_def log_inv_def NewLogWriter_def line_texts_def pending_due_def)
next
  case (snoc c ops)
  then show ?case using log_step_inv [OF assms, of "concat (map written ops)" "log_run env ops" c] by (simp add: log_run_def)
qed

section \<open>Properties\<close>

text \<open>
  C39. Whatever is done to a log whose output works, the lines written and the line still pending
  are together exactly the text the console showed: the printable bytes outside escape
  sequences, in order, none lost and none added. Lines hold such bytes only, entries are in the
  order of their times, and a pending line waits for the timer.
\<close>

theorem log_run_spec:
  assumes "calm env"
  shows "line_texts (lgOut (log_run env ops)) @ lgLine (log_run env ops) = shown EscNone (concat (map written ops)) \<and>
     (\<forall>t s. LogLine t s \<in> set (lgOut (log_run env ops)) \<longrightarrow> list_all isText s) \<and>
     sorted (map entry_time (lgOut (log_run env ops))) \<and>
     (lgLine (log_run env ops) \<noteq> [] \<longrightarrow> lgIdle (log_run env ops) \<or> lgClosed (log_run env ops))"
proof -
  have inv: "log_inv env (concat (map written ops)) (log_run env ops)" "pending_due (log_run env ops)"
    using log_run_inv [OF assms] by auto
  then have content: "line_texts (lgOut (log_run env ops)) @ lgLine (log_run env ops) = shown EscNone (concat (map written ops))"
    by (simp add: log_inv_def)
  have "isText c" if "LogLine t s \<in> set (lgOut (log_run env ops))" "c \<in> set s" for t s c
  proof -
    have "c \<in> set (line_texts (lgOut (log_run env ops)))" using that by (force simp: line_texts_def)
    then have "c \<in> set (shown EscNone (concat (map written ops)))" using content by (metis UnI1 set_append)
    then show ?thesis by (rule shown_text)
  qed
  with inv content show ?thesis by (auto simp: log_inv_def pending_due_def list_all_iff)
qed

definition ex_env :: log_env where
  "ex_env = \<lparr>leNow = (\<lambda>k. 10 * k), leFails = (\<lambda>_. False)\<rparr>"

theorem log_run_spec_witness:
  "lgOut (log_run ex_env [OpWrite [CHR ''a'', CHR 0x1B, CHR ''['', CHR ''m'', CHR ''b'', CHR 0x0D], OpWrite [CHR 0x0A, CHR ''c''], OpIdle]) =
     [LogLine 0 ''ab'', LogLine 10 ''c''] \<and>
   sorted (map entry_time (lgOut (log_run ex_env
     [OpWrite [CHR ''a'', CHR 0x1B, CHR ''['', CHR ''m'', CHR ''b'', CHR 0x0D], OpWrite [CHR 0x0A, CHR ''c''], OpIdle])))"
proof -
  have "calm ex_env" by (simp add: calm_def ex_env_def mono_def)
  moreover have "lgOut (log_run ex_env [OpWrite [CHR ''a'', CHR 0x1B, CHR ''['', CHR ''m'', CHR ''b'', CHR 0x0D], OpWrite [CHR 0x0A, CHR ''c''], OpIdle]) =
     [LogLine 0 ''ab'', LogLine 10 ''c'']"
    by code_simp
  ultimately show ?thesis using log_run_spec [of ex_env] by blast
qed

text \<open>How a stream is cut into writes does not matter.\<close>

lemma feed_all_append: "feed_all env (p @ q) l = (case feed_all env p l of (l1, True) \<Rightarrow> (l1, True) | (l1, False) \<Rightarrow> feed_all env q l1)"
  by (induction env p l rule: feed_all.induct) (auto split: prod.splits bool.splits)

end
