(* ===== verification/Trace.thy ===== *)
theory Trace
  imports Prelude
begin

text \<open>
  Computations with effects outside the program (commands, files, containers), shared by the
  components that run them. A computation extends the history of its actions and returns a value
  or an error; what an action comes to is answered by an oracle of the component, a function of
  the history that ends with it. A contract \<open>only P\<close> says which actions a computation may take.
\<close>

type_synonym ('e, 'a, 'x) trace = "'a list \<Rightarrow> ('e + 'x) \<times> 'a list"

definition ret :: "'x \<Rightarrow> ('e, 'a, 'x) trace" where
  "ret x h = (Inr x, h)"

definition throw :: "'e \<Rightarrow> ('e, 'a, 'x) trace" where
  "throw e h = (Inl e, h)"

definition bnd :: "('e, 'a, 'x) trace \<Rightarrow> ('x \<Rightarrow> ('e, 'a, 'y) trace) \<Rightarrow> ('e, 'a, 'y) trace" where
  "bnd m f h = (case m h of (Inl e, h') \<Rightarrow> (Inl e, h') | (Inr x, h') \<Rightarrow> f x h')"

text \<open>An action whose outcome ends the computation, is handed on, or is ignored.\<close>

definition attempt :: "('a list \<Rightarrow> 'e option) \<Rightarrow> 'a \<Rightarrow> ('e, 'a, unit) trace" where
  "attempt err a h = (case err (h @ [a]) of None \<Rightarrow> (Inr (), h @ [a]) | Some e \<Rightarrow> (Inl e, h @ [a]))"

definition asking :: "('a list \<Rightarrow> 'x) \<Rightarrow> 'a \<Rightarrow> ('e, 'a, 'x) trace" where
  "asking ans a h = (Inr (ans (h @ [a])), h @ [a])"

definition tell :: "'a \<Rightarrow> ('e, 'a, unit) trace" where
  "tell a h = (Inr (), h @ [a])"

fun each :: "('b \<Rightarrow> ('e, 'a, unit) trace) \<Rightarrow> 'b list \<Rightarrow> ('e, 'a, unit) trace" where
  "each f [] = ret ()"
| "each f (x # xs) = bnd (f x) (\<lambda>_. each f xs)"

definition wrapping :: "('e \<Rightarrow> 'f) \<Rightarrow> ('e, 'a, 'x) trace \<Rightarrow> ('f, 'a, 'x) trace" where
  "wrapping g m h = (case m h of (Inl e, h') \<Rightarrow> (Inl (g e), h') | (Inr x, h') \<Rightarrow> (Inr x, h'))"

section \<open>Sequencing\<close>

lemma bnd_Inr:
  assumes "bnd m f h = (Inr y, h')"
  obtains x h1 where "m h = (Inr x, h1)" "f x h1 = (Inr y, h')"
proof (cases "m h")
  case (Pair r h1)
  with assms that show thesis by (cases r) (simp_all add: bnd_def)
qed

lemma bnd_result:
  assumes "fst (bnd m f h) = Inr y"
  obtains x h' where "fst (f x h') = Inr y"
proof (cases "m h")
  case (Pair r h')
  with assms that show thesis by (cases r) (simp_all add: bnd_def)
qed

lemma bnd_ret [simp]: "bnd (ret x) f = f x"
  by (simp add: bnd_def ret_def fun_eq_iff)

lemma bnd_throw [simp]: "bnd (throw e) f = throw e"
  by (simp add: bnd_def throw_def fun_eq_iff)

lemma bnd_assoc: "bnd (bnd m f) g = bnd m (\<lambda>x. bnd (f x) g)"
  by (simp add: bnd_def fun_eq_iff split: prod.split sum.split)

lemma attempt_Inr: "attempt err a h = (Inr x, h') \<longleftrightarrow> err (h @ [a]) = None \<and> h' = h @ [a]"
  by (auto simp: attempt_def split: option.split)

lemma snd_wrapping [simp]: "snd (wrapping g m h) = snd (m h)"
  by (simp add: wrapping_def split: prod.split sum.split)

lemma fst_wrapping: "fst (wrapping g m h) = Inr x \<longleftrightarrow> fst (m h) = Inr x"
  by (simp add: wrapping_def split: prod.split sum.split)

section \<open>Contracts on the actions taken\<close>

named_theorems only_rules

definition only :: "('a \<Rightarrow> bool) \<Rightarrow> ('e, 'a, 'x) trace \<Rightarrow> bool" where
  "only P m \<longleftrightarrow> (\<forall>h. \<exists>xs. snd (m h) = h @ xs \<and> list_all P xs)"

lemma onlyE:
  assumes "only P m"
  obtains xs where "snd (m h) = h @ xs" "list_all P xs"
  using assms unfolding only_def by blast

lemma only_ret [only_rules]: "only P (ret x)"
  by (simp add: only_def ret_def)

lemma only_throw [only_rules]: "only P (throw e)"
  by (simp add: only_def throw_def)

lemma only_attempt [only_rules]: "P a \<Longrightarrow> only P (attempt err a)"
  by (auto simp: only_def attempt_def split: option.split)

lemma only_asking [only_rules]: "P a \<Longrightarrow> only P (asking ans a)"
  by (simp add: only_def asking_def)

lemma only_tell [only_rules]: "P a \<Longrightarrow> only P (tell a)"
  by (simp add: only_def tell_def)

lemma only_bnd [only_rules]:
  assumes "only P m" and "\<And>x. only P (f x)"
  shows "only P (bnd m f)"
  unfolding only_def
proof
  fix h
  obtain xs where xs: "snd (m h) = h @ xs" "list_all P xs" using assms(1) by (rule onlyE)
  show "\<exists>xs. snd (bnd m f h) = h @ xs \<and> list_all P xs"
  proof (cases "fst (m h)")
    case (Inl e)
    with xs show ?thesis by (auto simp: bnd_def split: prod.split)
  next
    case (Inr x)
    obtain ys where "snd (f x (h @ xs)) = (h @ xs) @ ys" "list_all P ys" using assms(2) by (rule onlyE)
    with Inr xs show ?thesis by (intro exI [of _ "xs @ ys"]) (auto simp: bnd_def split: prod.split)
  qed
qed

lemma only_each [only_rules]: "(\<And>x. x \<in> set xs \<Longrightarrow> only P (f x)) \<Longrightarrow> only P (each f xs)"
  by (induction xs) (simp_all add: only_ret only_bnd)

lemma only_wrapping [only_rules]: "only P m \<Longrightarrow> only P (wrapping g m)"
  by (simp add: only_def)

lemma only_case_sum [only_rules]:
  "(\<And>e. only P (f e)) \<Longrightarrow> (\<And>x. only P (g x)) \<Longrightarrow> only P (case s of Inl e \<Rightarrow> f e | Inr x \<Rightarrow> g x)"
  by (cases s) simp_all

lemma only_case_option [only_rules]:
  "only P m \<Longrightarrow> (\<And>x. only P (g x)) \<Longrightarrow> only P (case s of None \<Rightarrow> m | Some x \<Rightarrow> g x)"
  by (cases s) simp_all

lemma only_if [only_rules]: "only P m \<Longrightarrow> only P n \<Longrightarrow> only P (if c then m else n)"
  by simp

text \<open>The same for a computation that looks at the history it starts from.\<close>

lemma only_history: "(\<And>k. only P (F k)) \<Longrightarrow> only P (\<lambda>h. F h h)"
  unfolding only_def by blast

lemma only_mono: "only P m \<Longrightarrow> (\<And>a. P a \<Longrightarrow> Q a) \<Longrightarrow> only Q m"
  unfolding only_def list_all_iff by meson

end
