(* ===== verification/DebRepo.thy ===== *)
theory DebRepo
  imports Trace Paths
begin

text \<open>
  The Debian side of the project repository: \<^verbatim>\<open>WriteControl\<close> of \<^verbatim>\<open>internal/deb/control.go\<close>,
  the files that \<^verbatim>\<open>conffiles.go\<close> and \<^verbatim>\<open>services.go\<close> add to a package, and the pool and index of
  \<^verbatim>\<open>internal/repo/deb_emitter.go\<close>. Reading a package, hashing, compressing, signing and the
  clock are parameters.
\<close>

section \<open>Control paragraphs\<close>

record Control =
  ctPackage :: string
  ctSource :: string
  ctVersion :: string
  ctArchitecture :: string
  ctMaintainer :: string
  ctDescription :: string
  ctSection :: string
  ctPriority :: string
  ctInstalledSize :: int
  ctMultiArch :: string
  ctHomepage :: string
  ctDepends :: string
  ctPreDepends :: string
  ctRecommends :: string
  ctSuggests :: string
  ctEnhances :: string
  ctConflicts :: string
  ctBreaks :: string
  ctReplaces :: string
  ctProvides :: string

definition zero_control :: Control where
  "zero_control = \<lparr>ctPackage = [], ctSource = [], ctVersion = [], ctArchitecture = [], ctMaintainer = [], ctDescription = [],
     ctSection = [], ctPriority = [], ctInstalledSize = 0, ctMultiArch = [], ctHomepage = [], ctDepends = [], ctPreDepends = [],
     ctRecommends = [], ctSuggests = [], ctEnhances = [], ctConflicts = [], ctBreaks = [], ctReplaces = [], ctProvides = []\<rparr>"

definition nl :: string where
  "nl = [CHR 0x0A]"

definition emit :: "string \<Rightarrow> string \<Rightarrow> string" where
  "emit key value = (if value = [] then [] else key @ '': '' @ value @ nl)"

definition TrimNewlines :: "string \<Rightarrow> string" where
  "TrimNewlines s = rev (dropWhile (\<lambda>c. c = CHR 0x0A) (rev s))"

definition writeDescription :: "string \<Rightarrow> string" where
  "writeDescription desc =
     (let ls = Split (TrimNewlines desc) CHR 0x0A in
      ''Description: '' @ hd ls @ nl @
      concat (map (\<lambda>l. if l = [] then '' .'' @ nl else CHR '' '' # l @ nl) (tl ls)))"

definition WriteControl :: "Control \<Rightarrow> string + string" where
  "WriteControl c =
     (if ctPackage c = [] then Inl ''Package''
      else if ctVersion c = [] then Inl ''Version''
      else if ctArchitecture c = [] then Inl ''Architecture''
      else if ctMaintainer c = [] then Inl ''Maintainer''
      else if ctDescription c = [] then Inl ''Description''
      else Inr (emit ''Package'' (ctPackage c) @ emit ''Source'' (ctSource c) @ emit ''Version'' (ctVersion c) @
        emit ''Architecture'' (ctArchitecture c) @ emit ''Maintainer'' (ctMaintainer c) @
        (if ctInstalledSize c > 0 then ''Installed-Size: '' @ Itoa (ctInstalledSize c) @ nl else []) @
        emit ''Multi-Arch'' (ctMultiArch c) @ emit ''Section'' (ctSection c) @ emit ''Priority'' (ctPriority c) @
        emit ''Homepage'' (ctHomepage c) @ emit ''Pre-Depends'' (ctPreDepends c) @ emit ''Depends'' (ctDepends c) @
        emit ''Recommends'' (ctRecommends c) @ emit ''Suggests'' (ctSuggests c) @ emit ''Enhances'' (ctEnhances c) @
        emit ''Conflicts'' (ctConflicts c) @ emit ''Breaks'' (ctBreaks c) @ emit ''Replaces'' (ctReplaces c) @
        emit ''Provides'' (ctProvides c) @ writeDescription (ctDescription c)))"

section \<open>Files added to a package\<close>

text \<open>The text of the list of config files, \<^const>\<open>None\<close> when there is none to write.\<close>

definition conffile_path :: "string \<Rightarrow> string" where
  "conffile_path p = (if HasPrefix p ''/'' then p else CHR ''/'' # p)"

definition conffile_paths :: "string list \<Rightarrow> string list" where
  "conffile_paths conffiles = map conffile_path (filter (\<lambda>p. p \<noteq> []) (map TrimSpace conffiles))"

definition WriteConffiles_text :: "(string \<Rightarrow> bool) \<Rightarrow> string \<Rightarrow> string list \<Rightarrow> string + string option" where
  "WriteConffiles_text lstat destDir conffiles =
     (let paths = conffile_paths conffiles in
      case List.find (\<lambda>p. \<not> lstat (PathJoin [destDir, TrimPrefix p ''/''])) paths of
        Some p \<Rightarrow> Inl p
      | None \<Rightarrow> Inr (if paths = [] then None else Some (Join (sort paths) nl @ nl)))"

definition service_candidates :: "string \<Rightarrow> string list" where
  "service_candidates unitFile =
     [PathJoin [''lib'', ''systemd'', ''system'', unitFile], PathJoin [''usr'', ''lib'', ''systemd'', ''system'', unitFile],
      PathJoin [''etc'', ''systemd'', ''system'', unitFile]]"

definition serviceFileAvailable :: "(string \<Rightarrow> bool) \<Rightarrow> string \<Rightarrow> string \<Rightarrow> string \<Rightarrow> bool" where
  "serviceFileAvailable stat destDir sysroot unitFile \<longleftrightarrow>
     list_ex (\<lambda>c. stat (PathJoin [destDir, c])) (service_candidates unitFile) \<or>
     (sysroot \<noteq> [] \<and> list_ex (\<lambda>c. stat (PathJoin [sysroot, c])) (service_candidates unitFile))"

text \<open>
  The links made, in order, each with its target: the directory of what exists grows with each.
  The error names the service whose file is nowhere.
\<close>

fun service_links :: "(string \<Rightarrow> bool) \<Rightarrow> string \<Rightarrow> string \<Rightarrow> string list \<Rightarrow> (string \<times> string) list \<Rightarrow>
    (string option \<times> (string \<times> string) list)" where
  "service_links stat destDir sysroot [] made = (None, made)"
| "service_links stat destDir sysroot (svc # svcs) made =
     (let unitFile = svc @ ''.service'';
          linkPath = PathJoin [PathJoin [destDir, ''etc'', ''systemd'', ''system'', ''multi-user.target.wants''], unitFile]
      in if \<not> serviceFileAvailable stat destDir sysroot unitFile then (Some svc, made)
         else if stat linkPath \<or> linkPath \<in> fst ` set made then service_links stat destDir sysroot svcs made
         else service_links stat destDir sysroot svcs (made @ [(linkPath, ''/lib/systemd/system/'' @ unitFile)]))"

definition MaterializeSystemdServiceSymlinks ::
  "(string \<Rightarrow> bool) \<Rightarrow> string \<Rightarrow> string \<Rightarrow> string list \<Rightarrow> string option \<times> (string \<times> string) list" where
  "MaterializeSystemdServiceSymlinks stat destDir sysroot services = service_links stat destDir sysroot services []"

section \<open>The pool\<close>

definition sourceNameOf :: "Control \<Rightarrow> string" where
  "sourceNameOf c = (if ctSource c = [] then ctPackage c else ctSource c)"

definition initialOf :: "string \<Rightarrow> string" where
  "initialOf src =
     (if HasPrefix src ''lib'' \<and> length src > 3 then ''lib'' @ [src ! 3]
      else if src = [] then ''_'' else [hd src])"

text \<open>Where a package is published.\<close>

definition pool_path :: "string \<Rightarrow> string \<Rightarrow> Control \<Rightarrow> string \<Rightarrow> string" where
  "pool_path repoDir component c debPath =
     PathJoin [PathJoin [repoDir, ''pool'', component, initialOf (sourceNameOf c), sourceNameOf c], Base debPath]"

definition VerifyMirrorSHA256 :: "(string \<Rightarrow> string) \<Rightarrow> string option \<Rightarrow> string \<Rightarrow> bool" where
  "VerifyMirrorSHA256 sha256 raw upstream \<longleftrightarrow>
     upstream \<noteq> [] \<and> (case raw of None \<Rightarrow> False | Some bytes \<Rightarrow> ToLower (hex (sha256 bytes)) = ToLower upstream)"

section \<open>The index\<close>

text \<open>A file of the pool: its path, its control paragraph if it can be read, and its bytes.\<close>

record pool_file =
  pfPath :: string
  pfControl :: "Control option"
  pfBytes :: string

record pooledDeb =
  pdArch :: string
  pdPath :: string
  pdStanza :: string

datatype IndexFailure = NoRepoDir | NoCodenameGiven | NoArches | BadDeb string | WriteFailed string | SignFailed

record DebRepoOptions =
  doRepoDir :: string
  doCodename :: string
  doComponents :: "string list"
  doArches :: "string list"
  doValidUntilDays :: nat
  doGPGHomedir :: string
  doGPGKeyID :: string

record emitter_world =
  ewSHA256 :: "string \<Rightarrow> string"
  ewSHA512 :: "string \<Rightarrow> string"
  ewGzip :: "string \<Rightarrow> string"
  ewDates :: "nat \<Rightarrow> string \<times> string"
  ewPool :: "string \<Rightarrow> pool_file list"
  ewWrites :: "(string \<times> string) list \<Rightarrow> bool"
  ewSign :: "string \<Rightarrow> string \<Rightarrow> string \<Rightarrow> string option"

definition stanzaForDeb :: "emitter_world \<Rightarrow> string \<Rightarrow> pool_file \<Rightarrow> IndexFailure + pooledDeb" where
  "stanzaForDeb w repoDir f =
     (case pfControl f of
        None \<Rightarrow> Inl (BadDeb (pfPath f))
      | Some c \<Rightarrow>
          (case Rel repoDir (pfPath f) of
             None \<Rightarrow> Inl (BadDeb (pfPath f))
           | Some rel \<Rightarrow>
               (case WriteControl c of
                  Inl _ \<Rightarrow> Inl (BadDeb (pfPath f))
                | Inr text' \<Rightarrow>
                    Inr \<lparr>pdArch = ctArchitecture c, pdPath = pfPath f,
                      pdStanza = text' @ ''Filename: '' @ rel @ nl @ ''Size: '' @ Itoa (int (length (pfBytes f))) @ nl @
                        ''SHA256: '' @ hex (ewSHA256 w (pfBytes f)) @ nl\<rparr>)))"

fun scanPool :: "emitter_world \<Rightarrow> string \<Rightarrow> pool_file list \<Rightarrow> IndexFailure + pooledDeb list" where
  "scanPool w repoDir [] = Inr []"
| "scanPool w repoDir (f # fs) =
     (if \<not> HasSuffix (pfPath f) ''.deb'' then scanPool w repoDir fs
      else case stanzaForDeb w repoDir f of
        Inl err \<Rightarrow> Inl err
      | Inr d \<Rightarrow> (case scanPool w repoDir fs of Inl err \<Rightarrow> Inl err | Inr ds \<Rightarrow> Inr (d # ds)))"

definition index_debs :: "pooledDeb list \<Rightarrow> string \<Rightarrow> pooledDeb list" where
  "index_debs pooled arch =
     sort_key pdPath (filter (\<lambda>d. pdArch d = arch) pooled @ filter (\<lambda>d. pdArch d = ''all'') pooled)"

definition packages_body :: "pooledDeb list \<Rightarrow> string" where
  "packages_body ds = concat (map (\<lambda>d. pdStanza d @ nl) ds)"

text \<open>The two files of an architecture, by their path below the suite.\<close>

definition arch_files :: "emitter_world \<Rightarrow> string \<Rightarrow> pooledDeb list \<Rightarrow> string \<Rightarrow> (string \<times> string) list" where
  "arch_files w part pooled arch =
     (let body = packages_body (index_debs pooled arch); rel = PathJoin [part, ''binary-'' @ arch, ''Packages''] in
      [(rel, body), (rel @ ''.gz'', ewGzip w body)])"

definition dists_dir :: "DebRepoOptions \<Rightarrow> string" where
  "dists_dir opts = PathJoin [doRepoDir opts, ''dists'', doCodename opts]"

text \<open>The writes are the history; a write is a path with its bytes.\<close>

definition write_file :: "emitter_world \<Rightarrow> string \<times> string \<Rightarrow> (IndexFailure, string \<times> string, unit) trace" where
  "write_file w = attempt (\<lambda>h. if ewWrites w h then None else Some (WriteFailed (fst (last h))))"

fun component_files :: "emitter_world \<Rightarrow> DebRepoOptions \<Rightarrow> string list \<Rightarrow> (string \<times> string) list \<Rightarrow>
    (IndexFailure, string \<times> string, (string \<times> string) list) trace" where
  "component_files w opts [] indices = ret indices"
| "component_files w opts (part # parts) indices =
     (case scanPool w (doRepoDir opts) (ewPool w (PathJoin [doRepoDir opts, ''pool'', part])) of
        Inl err \<Rightarrow> throw err
      | Inr pooled \<Rightarrow>
          (let files = concat (map (arch_files w part pooled) (doArches opts)) in
           bnd (each (write_file w) (map (\<lambda>(rel, body). (PathJoin [dists_dir opts, rel], body)) files)) (\<lambda>_.
             component_files w opts parts (indices @ files))))"

definition hash_line :: "(string \<Rightarrow> string) \<Rightarrow> string \<times> string \<Rightarrow> string" where
  "hash_line digest f = CHR '' '' # hex (digest (snd f)) @ CHR '' '' # Itoa (int (length (snd f))) @ CHR '' '' # fst f"

definition release_lines :: "emitter_world \<Rightarrow> DebRepoOptions \<Rightarrow> (string \<times> string) list \<Rightarrow> string list" where
  "release_lines w opts indices =
     [''Origin: '' @ doCodename opts, ''Label: '' @ doCodename opts, ''Suite: '' @ doCodename opts, ''Codename: '' @ doCodename opts,
      ''Date: '' @ fst (ewDates w (doValidUntilDays opts)), ''Valid-Until: '' @ snd (ewDates w (doValidUntilDays opts)),
      ''Components: '' @ Join (doComponents opts) '' '', ''Architectures: '' @ Join (doArches opts) '' '',
      ''Acquire-By-Hash: no'', ''SHA256:''] @ map (hash_line (ewSHA256 w)) indices @
     [''SHA512:''] @ map (hash_line (ewSHA512 w)) indices"

definition buildRelease :: "emitter_world \<Rightarrow> DebRepoOptions \<Rightarrow> (string \<times> string) list \<Rightarrow> string" where
  "buildRelease w opts indices = concat (map (\<lambda>l. l @ nl) (release_lines w opts indices))"

definition with_defaults :: "DebRepoOptions \<Rightarrow> DebRepoOptions" where
  "with_defaults opts =
     opts\<lparr>doComponents := (if doComponents opts = [] then [''main''] else doComponents opts),
          doValidUntilDays := (if doValidUntilDays opts = 0 then 30 else doValidUntilDays opts)\<rparr>"

definition GenerateDebianIndex :: "emitter_world \<Rightarrow> DebRepoOptions \<Rightarrow> (IndexFailure, string \<times> string, unit) trace" where
  "GenerateDebianIndex w opts0 =
     (let opts = with_defaults opts0 in
      if doRepoDir opts = [] then throw NoRepoDir
      else if doCodename opts = [] then throw NoCodenameGiven
      else if doArches opts = [] then throw NoArches
      else bnd (component_files w opts (doComponents opts) []) (\<lambda>indices.
           let release = buildRelease w opts indices in
           bnd (write_file w (PathJoin [dists_dir opts, ''Release''], release)) (\<lambda>_.
             if doGPGHomedir opts = [] then ret ()
             else case ewSign w release (doGPGHomedir opts) (doGPGKeyID opts) of
               None \<Rightarrow> throw SignFailed
             | Some signed \<Rightarrow> write_file w (PathJoin [dists_dir opts, ''InRelease''], signed))))"

section \<open>Stanzas\<close>

lemma Split_lines: "l \<in> set (Split s CHR 0x0A) \<Longrightarrow> CHR 0x0A \<notin> set l"
  by (rule Split_elems)

text \<open>Text made of lines that are neither empty nor contain a line end.\<close>

definition is_lines :: "string list \<Rightarrow> bool" where
  "is_lines ls \<longleftrightarrow> list_all (\<lambda>l. l \<noteq> [] \<and> CHR 0x0A \<notin> set l) ls"

definition unlines :: "string list \<Rightarrow> string" where
  "unlines ls = concat (map (\<lambda>l. l @ nl) ls)"

lemma unlines_simps [simp]: "unlines [] = []" "unlines (l # ls) = l @ nl @ unlines ls" "unlines (ls @ ks) = unlines ls @ unlines ks"
  by (simp_all add: unlines_def)

definition field_lines :: "string \<Rightarrow> string \<Rightarrow> string list" where
  "field_lines key value = (if value = [] then [] else [key @ '': '' @ value])"

lemma emit_lines: "emit key value = unlines (field_lines key value)"
  by (simp add: emit_def field_lines_def)

definition description_lines :: "string \<Rightarrow> string list" where
  "description_lines desc =
     (let ls = Split (TrimNewlines desc) CHR 0x0A in
      (''Description: '' @ hd ls) # map (\<lambda>l. if l = [] then '' .'' else CHR '' '' # l) (tl ls))"

lemma writeDescription_lines: "writeDescription desc = unlines (description_lines desc)"
proof -
  have "concat (map (\<lambda>l. if l = [] then '' .'' @ nl else CHR '' '' # l @ nl) ls) =
      unlines (map (\<lambda>l. if l = [] then '' .'' else CHR '' '' # l) ls)" for ls
    by (induction ls) auto
  then show ?thesis by (simp add: writeDescription_def description_lines_def Let_def)
qed

lemma is_lines_description: "is_lines (description_lines desc)"
proof -
  have "Split (TrimNewlines desc) CHR 0x0A \<noteq> []" by simp
  then obtain l ls where "Split (TrimNewlines desc) CHR 0x0A = l # ls" by (cases "Split (TrimNewlines desc) CHR 0x0A") auto
  moreover have "CHR 0x0A \<notin> set k" if "k \<in> set (l # ls)" for k
    using that Split_lines calculation by metis
  ultimately show ?thesis by (auto simp: is_lines_def description_lines_def Let_def list_all_iff)
qed

text \<open>How a reader gets the description back: the folded lines lose a space, a lone dot is an empty line.\<close>

definition unfold_description :: "string list \<Rightarrow> string" where
  "unfold_description ls =
     Join (TrimPrefix (hd ls) ''Description: '' # map (\<lambda>l. if l = '' .'' then [] else tl l) (tl ls)) nl"

lemma unfold_description_lines:
  assumes "''.'' \<notin> set (tl (Split (TrimNewlines desc) CHR 0x0A))"
  shows "unfold_description (description_lines desc) = TrimNewlines desc"
proof -
  obtain l ls where sp: "Split (TrimNewlines desc) CHR 0x0A = l # ls" by (cases "Split (TrimNewlines desc) CHR 0x0A") auto
  have "map (\<lambda>k. if k = '' .'' then [] else tl k) (map (\<lambda>l. if l = [] then '' .'' else CHR '' '' # l) ks) = ks"
    if "''.'' \<notin> set ks" for ks
    using that by (induction ks) auto
  with assms sp have "unfold_description (description_lines desc) = Join (l # ls) nl"
    using TrimPrefix_append [of "''Description: ''" l]
    by (simp add: unfold_description_def description_lines_def sp del: map_map)
  also have "\<dots> = TrimNewlines desc" using Join_Split [of "TrimNewlines desc" "CHR 0x0A"] by (simp add: sp nl_def)
  finally show ?thesis .
qed

definition control_lines :: "Control \<Rightarrow> string list" where
  "control_lines c =
     field_lines ''Package'' (ctPackage c) @ field_lines ''Source'' (ctSource c) @ field_lines ''Version'' (ctVersion c) @
     field_lines ''Architecture'' (ctArchitecture c) @ field_lines ''Maintainer'' (ctMaintainer c) @
     (if ctInstalledSize c > 0 then [''Installed-Size: '' @ Itoa (ctInstalledSize c)] else []) @
     field_lines ''Multi-Arch'' (ctMultiArch c) @ field_lines ''Section'' (ctSection c) @ field_lines ''Priority'' (ctPriority c) @
     field_lines ''Homepage'' (ctHomepage c) @ field_lines ''Pre-Depends'' (ctPreDepends c) @ field_lines ''Depends'' (ctDepends c) @
     field_lines ''Recommends'' (ctRecommends c) @ field_lines ''Suggests'' (ctSuggests c) @ field_lines ''Enhances'' (ctEnhances c) @
     field_lines ''Conflicts'' (ctConflicts c) @ field_lines ''Breaks'' (ctBreaks c) @ field_lines ''Replaces'' (ctReplaces c) @
     field_lines ''Provides'' (ctProvides c)"

definition plain_fields :: "Control \<Rightarrow> bool" where
  "plain_fields c \<longleftrightarrow> list_all (\<lambda>v. CHR 0x0A \<notin> set v)
     [ctPackage c, ctSource c, ctVersion c, ctArchitecture c, ctMaintainer c, ctMultiArch c, ctSection c, ctPriority c, ctHomepage c,
      ctPreDepends c, ctDepends c, ctRecommends c, ctSuggests c, ctEnhances c, ctConflicts c, ctBreaks c, ctReplaces c, ctProvides c]"

lemma WriteControl_lines:
  assumes "WriteControl c = Inr s"
  shows "s = unlines (control_lines c @ description_lines (ctDescription c))"
  using assms by (simp add: WriteControl_def control_lines_def emit_lines writeDescription_lines split: if_splits)

lemma is_lines_append [simp]: "is_lines (ls @ ks) \<longleftrightarrow> is_lines ls \<and> is_lines ks"
  by (simp add: is_lines_def)

lemma is_lines_field: "CHR 0x0A \<notin> set key \<Longrightarrow> CHR 0x0A \<notin> set value \<Longrightarrow> is_lines (field_lines key value)"
  by (simp add: is_lines_def field_lines_def)

lemma Itoa_no_newline: "CHR 0x0A \<notin> set (Itoa i)"
proof -
  have "CHR 0x0A \<notin> set (nat_digits n)" for n
    using nat_digits_digits [of "CHR 0x0A" n] by (auto simp: isDigit_def)
  then show ?thesis by (simp add: Itoa_def)
qed

lemma is_lines_control: "plain_fields c \<Longrightarrow> is_lines (control_lines c)"
  unfolding control_lines_def plain_fields_def
  by (auto simp: is_lines_field Itoa_no_newline) (simp_all add: is_lines_def Itoa_no_newline)


definition ex_control :: Control where
  "ex_control = zero_control\<lparr>ctPackage := ''libssl3'', ctVersion := ''3.4'', ctArchitecture := ''amd64'', ctMaintainer := ''Y <y>'',
     ctDepends := ''libc6'', ctDescription := ''TLS'' @ nl @ ''line'' @ nl @ nl @ ''end'' @ nl\<rparr>"


text \<open>A description with a line of one dot comes back with an empty line.\<close>

lemma description_dot_lost:
  "unfold_description (description_lines (''a'' @ nl @ ''.'')) = ''a'' @ nl"
  by code_simp

text \<open>A service file in \<^verbatim>\<open>/etc\<close> counts as present, and the link made for it points to \<^verbatim>\<open>/lib\<close>.\<close>

lemma service_link_dangles:
  "MaterializeSystemdServiceSymlinks (\<lambda>p. p = ''/d/etc/systemd/system/x.service'') ''/d'' [] [''x''] =
     (None, [(''/d/etc/systemd/system/multi-user.target.wants/x.service'', ''/lib/systemd/system/x.service'')])"
  by code_simp

section \<open>What the index lists\<close>

lemma scanPool_iff:
  "scanPool w r fs = Inr ds \<longleftrightarrow> map (stanzaForDeb w r) (filter (\<lambda>f. HasSuffix (pfPath f) ''.deb'') fs) = map Inr ds"
proof (induction fs arbitrary: ds)
  case (Cons f fs)
  consider "\<not> HasSuffix (pfPath f) ''.deb''"
    | e where "HasSuffix (pfPath f) ''.deb''" "stanzaForDeb w r f = Inl e"
    | d where "HasSuffix (pfPath f) ''.deb''" "stanzaForDeb w r f = Inr d"
    by (cases "stanzaForDeb w r f") auto
  then show ?case
  proof cases
    case 1
    with Cons.IH show ?thesis by simp
  next
    case 2
    then show ?thesis by (cases ds) simp_all
  next
    case (3 d)
    have "scanPool w r (f # fs) = Inr ds \<longleftrightarrow> (\<exists>es. ds = d # es \<and> scanPool w r fs = Inr es)"
      using 3 by (cases "scanPool w r fs") auto
    also have "\<dots> \<longleftrightarrow> (\<exists>es. ds = d # es \<and> map (stanzaForDeb w r) (filter (\<lambda>f. HasSuffix (pfPath f) ''.deb'') fs) = map Inr es)"
      unfolding Cons.IH ..
    also have "\<dots> \<longleftrightarrow> map (stanzaForDeb w r) (filter (\<lambda>f. HasSuffix (pfPath f) ''.deb'') (f # fs)) = map Inr ds"
      using 3 by (cases ds) auto
    finally show ?thesis .
  qed
qed auto

lemma index_debs_mset:
  assumes "arch \<noteq> ''all''"
  shows "mset (index_debs pooled arch) = mset (filter (\<lambda>d. pdArch d = arch \<or> pdArch d = ''all'') pooled)"
  unfolding index_debs_def using assms by (induction pooled) auto

lemma concat_member: "x \<in> set xs \<Longrightarrow> \<exists>a b. concat (map f xs) = a @ f x @ b"
proof -
  assume "x \<in> set xs"
  then obtain ys zs where "xs = ys @ x # zs" by (auto dest: split_list)
  then have "concat (map f xs) = concat (map f ys) @ f x @ concat (map f zs)" by simp
  then show ?thesis by blast
qed

lemma each_write:
  assumes "each (write_file w) fs h = (Inr x, h')"
  shows "h' = h @ fs"
  using assms
proof (induction fs arbitrary: h)
  case (Cons f fs)
  from Cons.prems obtain y h1 where f: "write_file w f h = (Inr y, h1)" and fs: "each (write_file w) fs h1 = (Inr x, h')"
    unfolding each.simps by (rule bnd_Inr)
  from f have "h1 = h @ [f]" by (simp add: write_file_def attempt_Inr)
  with Cons.IH [OF fs] show ?case by simp
qed (simp add: ret_def)

lemma component_files_success:
  assumes "component_files w opts parts indices h = (Inr all', h')" and "part \<in> set parts"
  shows "\<exists>pooled. scanPool w (doRepoDir opts) (ewPool w (PathJoin [doRepoDir opts, ''pool'', part])) = Inr pooled \<and>
    (\<forall>f \<in> set (concat (map (arch_files w part pooled) (doArches opts))).
       f \<in> set all' \<and> (PathJoin [dists_dir opts, fst f], snd f) \<in> set h')"
proof -
  have "set h \<subseteq> set h' \<and> set indices \<subseteq> set all' \<and>
    (\<forall>part \<in> set parts. \<exists>pooled. scanPool w (doRepoDir opts) (ewPool w (PathJoin [doRepoDir opts, ''pool'', part])) = Inr pooled \<and>
      (\<forall>f \<in> set (concat (map (arch_files w part pooled) (doArches opts))).
         f \<in> set all' \<and> (PathJoin [dists_dir opts, fst f], snd f) \<in> set h'))"
    using assms(1)
  proof (induction parts arbitrary: indices h)
    case Nil
    then show ?case by (simp add: ret_def)
  next
    case (Cons p parts)
    then obtain pooled where pooled: "scanPool w (doRepoDir opts) (ewPool w (PathJoin [doRepoDir opts, ''pool'', p])) = Inr pooled"
      by (cases "scanPool w (doRepoDir opts) (ewPool w (PathJoin [doRepoDir opts, ''pool'', p]))") (simp_all add: throw_def)
    let ?files = "concat (map (arch_files w p pooled) (doArches opts))"
    let ?writes = "map (\<lambda>(rel, body). (PathJoin [dists_dir opts, rel], body)) ?files"
    from Cons.prems pooled have "bnd (each (write_file w) ?writes) (\<lambda>_. component_files w opts parts (indices @ ?files)) h = (Inr all', h')"
      by (simp add: Let_def)
    then obtain y h1 where w: "each (write_file w) ?writes h = (Inr y, h1)"
      and rest: "component_files w opts parts (indices @ ?files) h1 = (Inr all', h')"
      by (rule bnd_Inr)
    have h1: "h1 = h @ ?writes" using w by (rule each_write)
    note IH = Cons.IH [OF rest]
    have "f \<in> set all' \<and> (PathJoin [dists_dir opts, fst f], snd f) \<in> set h'" if "f \<in> set ?files" for f
    proof -
      have "(PathJoin [dists_dir opts, fst f], snd f) \<in> set ?writes" using that by (force simp: case_prod_beta)
      then have "(PathJoin [dists_dir opts, fst f], snd f) \<in> set h1" unfolding h1 by simp
      moreover have "f \<in> set (indices @ ?files)" using that by simp
      ultimately show ?thesis using IH by blast
    qed
    with IH h1 pooled show ?case by auto
  qed
  with assms(2) show ?thesis by blast
qed

text \<open>
  C22. When the index is written without error, the package list of each architecture of each
  component holds exactly the packages of the component's pool that are built for the
  architecture or for all of them, each once, in the order of their paths, and the release file
  names the list with its length and both digests.
\<close>

theorem GenerateDebianIndex_spec:
  assumes "GenerateDebianIndex w opts0 [] = (Inr (), h)" and "opts = with_defaults opts0"
    and "part \<in> set (doComponents opts)" and "arch \<in> set (doArches opts)" and "arch \<noteq> ''all''"
  shows "\<exists>pooled ds release rel. rel = PathJoin [part, ''binary-'' @ arch, ''Packages''] \<and>
    map (stanzaForDeb w (doRepoDir opts))
      (filter (\<lambda>f. HasSuffix (pfPath f) ''.deb'') (ewPool w (PathJoin [doRepoDir opts, ''pool'', part]))) = map Inr pooled \<and>
    mset ds = mset (filter (\<lambda>d. pdArch d = arch \<or> pdArch d = ''all'') pooled) \<and> sorted (map pdPath ds) \<and>
    (PathJoin [dists_dir opts, rel], packages_body ds) \<in> set h \<and> (PathJoin [dists_dir opts, ''Release''], release) \<in> set h \<and>
    (\<forall>digest \<in> {ewSHA256 w, ewSHA512 w}. \<exists>a b. release = a @ hash_line digest (rel, packages_body ds) @ nl @ b)"
proof -
  have "bnd (component_files w opts (doComponents opts) []) (\<lambda>indices.
           let release = buildRelease w opts indices in
           bnd (write_file w (PathJoin [dists_dir opts, ''Release''], release)) (\<lambda>_.
             if doGPGHomedir opts = [] then ret ()
             else case ewSign w release (doGPGHomedir opts) (doGPGKeyID opts) of
               None \<Rightarrow> throw SignFailed
             | Some signed \<Rightarrow> write_file w (PathJoin [dists_dir opts, ''InRelease''], signed))) [] = (Inr (), h)"
    using assms(1) unfolding GenerateDebianIndex_def Let_def assms(2) [symmetric] by (simp add: throw_def split: if_splits)
  then obtain indices h1 where files: "component_files w opts (doComponents opts) [] [] = (Inr indices, h1)"
    and tail: "(let release = buildRelease w opts indices in
           bnd (write_file w (PathJoin [dists_dir opts, ''Release''], release)) (\<lambda>_.
             if doGPGHomedir opts = [] then ret ()
             else case ewSign w release (doGPGHomedir opts) (doGPGKeyID opts) of
               None \<Rightarrow> throw SignFailed
             | Some signed \<Rightarrow> write_file w (PathJoin [dists_dir opts, ''InRelease''], signed))) h1 = (Inr (), h)"
    by (rule bnd_Inr)
  let ?release = "buildRelease w opts indices"
  have h: "set h1 \<subseteq> set h \<and> (PathJoin [dists_dir opts, ''Release''], ?release) \<in> set h"
    using tail unfolding Let_def
    by (rule bnd_Inr) (auto simp: write_file_def attempt_Inr ret_def throw_def split: if_splits option.splits)
  obtain pooled where pooled: "scanPool w (doRepoDir opts) (ewPool w (PathJoin [doRepoDir opts, ''pool'', part])) = Inr pooled"
    and listed: "\<forall>f \<in> set (concat (map (arch_files w part pooled) (doArches opts))).
       f \<in> set indices \<and> (PathJoin [dists_dir opts, fst f], snd f) \<in> set h1"
    using component_files_success [OF files assms(3)] by blast
  let ?ds = "index_debs pooled arch" and ?rel = "PathJoin [part, ''binary-'' @ arch, ''Packages'']"
  have "(?rel, packages_body ?ds) \<in> set (concat (map (arch_files w part pooled) (doArches opts)))"
    using assms(4) by (auto simp: arch_files_def Let_def)
  from listed [rule_format, OF this]
  have f: "(?rel, packages_body ?ds) \<in> set indices" "(PathJoin [dists_dir opts, ?rel], packages_body ?ds) \<in> set h1" by simp_all
  have "\<exists>a b. ?release = a @ hash_line digest (?rel, packages_body ?ds) @ nl @ b" if "digest \<in> {ewSHA256 w, ewSHA512 w}" for digest
  proof -
    have "hash_line digest (?rel, packages_body ?ds) \<in> set (release_lines w opts indices)"
      using that f(1) by (auto simp: release_lines_def)
    from concat_member [OF this, of "\<lambda>l. l @ nl"] show ?thesis by (simp add: buildRelease_def)
  qed
  moreover have "sorted (map pdPath ?ds)" by (simp add: index_debs_def)
  ultimately show ?thesis
    using pooled [unfolded scanPool_iff] index_debs_mset [OF assms(5)] f(2) h by blast
qed

definition ex_emitter :: emitter_world where
  "ex_emitter = \<lparr>ewSHA256 = take 2, ewSHA512 = take 3, ewGzip = rev, ewDates = (\<lambda>_. (''today'', ''later'')),
     ewPool = (\<lambda>_. [\<lparr>pfPath = ''/r/pool/main/b/b/b_1_all.deb'', pfControl = Some (ex_control\<lparr>ctPackage := ''b'', ctArchitecture := ''all''\<rparr>), pfBytes = ''BB''\<rparr>,
       \<lparr>pfPath = ''/r/pool/main/a/a/a_1_amd64.deb'', pfControl = Some ex_control, pfBytes = ''AAA''\<rparr>,
       \<lparr>pfPath = ''/r/pool/main/README'', pfControl = None, pfBytes = []\<rparr>]),
     ewWrites = (\<lambda>_. True), ewSign = (\<lambda>_ _ _. None)\<rparr>"

definition ex_repo_options :: DebRepoOptions where
  "ex_repo_options = \<lparr>doRepoDir = ''/r'', doCodename = ''trixie'', doComponents = [], doArches = [''amd64'', ''arm64''],
     doValidUntilDays = 0, doGPGHomedir = [], doGPGKeyID = []\<rparr>"

lemma ex_index_runs: "fst (GenerateDebianIndex ex_emitter ex_repo_options []) = Inr ()"
  by code_simp

theorem GenerateDebianIndex_spec_witness:
  "\<exists>ds release. (''/r/dists/trixie/main/binary-amd64/Packages'', packages_body ds) \<in>
       set (snd (GenerateDebianIndex ex_emitter ex_repo_options [])) \<and> sorted (map pdPath ds) \<and>
     (\<exists>a b. release = a @ hash_line (take 2) (''main/binary-amd64/Packages'', packages_body ds) @ nl @ b)"
proof -
  have run: "GenerateDebianIndex ex_emitter ex_repo_options [] = (Inr (), snd (GenerateDebianIndex ex_emitter ex_repo_options []))"
    using ex_index_runs by (metis prod.collapse)
  have opts: "doComponents (with_defaults ex_repo_options) = [''main'']" "doArches (with_defaults ex_repo_options) = [''amd64'', ''arm64'']"
    by (simp_all add: with_defaults_def ex_repo_options_def)
  have part: "''main'' \<in> set (doComponents (with_defaults ex_repo_options))" unfolding opts by simp
  have arch: "''amd64'' \<in> set (doArches (with_defaults ex_repo_options))" unfolding opts by simp
  have paths: "PathJoin [''main'', ''binary-'' @ ''amd64'', ''Packages''] = ''main/binary-amd64/Packages''"
    "PathJoin [dists_dir (with_defaults ex_repo_options), ''main/binary-amd64/Packages''] = ''/r/dists/trixie/main/binary-amd64/Packages''"
    by code_simp+
  have w: "ewSHA256 ex_emitter = take 2" by (simp add: ex_emitter_def)
  have "''amd64'' \<noteq> ''all''" by simp
  from GenerateDebianIndex_spec [OF run refl part arch this, unfolded paths w]
  obtain ds release rel where rel: "rel = ''main/binary-amd64/Packages''" and "sorted (map pdPath ds)"
    and "(PathJoin [dists_dir (with_defaults ex_repo_options), rel], packages_body ds) \<in> set (snd (GenerateDebianIndex ex_emitter ex_repo_options []))"
    and "\<forall>digest \<in> {take 2, ewSHA512 ex_emitter}. \<exists>a b. release = a @ hash_line digest (rel, packages_body ds) @ nl @ b"
    by blast
  then show ?thesis unfolding rel paths by blast
qed

end
