(* ===== verification/Sandbox.thy ===== *)
theory Sandbox
  imports Plan
begin

text \<open>
  The sandbox of a build step: the command line that \<^verbatim>\<open>internal/build/sandbox.go\<close> composes and
  the container invocation of \<^verbatim>\<open>internal/container/container.go\<close> and \<^verbatim>\<open>remove.go\<close>. What a
  container does is an oracle; a shell is modelled as far as quoting needs it.
\<close>

section \<open>Container runs\<close>

record Mount =
  moHost :: string
  moContainer :: string
  moReadOnly :: bool

record RunConfig =
  rcShell :: string
  rcArch :: string
  rcImage :: string
  rcCommand :: string
  rcProjectDir :: string
  rcMounts :: "Mount list"
  rcEnv :: "(string, string) gomap"
  rcInteractive :: bool
  rcNoUser :: bool

text \<open>The machine: its architecture, its user and group, and which programs it has.\<close>

record container_world =
  cwUname :: "string option"
  cwUser :: "(string \<times> string) option"
  cwHas :: "string \<Rightarrow> bool"
  cwImages :: "string option"
  cwStat :: "string \<Rightarrow> bool"

datatype ContainerError = NoImage | NoRuntime | NoUser | BinfmtMissing string

definition containerRunArgs :: "container_world \<Rightarrow> RunConfig \<Rightarrow> ContainerError + string list" where
  "containerRunArgs w cfg =
     (let arch = (if rcArch cfg = [] then Host (cwUname w) else rcArch cfg);
          args1 = [''run'', ''--rm'', ''--privileged''] @ (if HasPrefix (rcImage cfg) ''yoe/'' then [''--pull=never''] else []) @
                  [''--platform'', ''linux/'' @ arch];
          rest = (if rcProjectDir cfg \<noteq> [] then [''-v'', rcProjectDir cfg @ '':/project''] else []) @
                 concat (map (\<lambda>m. [''-v'', moHost m @ '':'' @ moContainer m @ (if moReadOnly m then '':ro'' else [])]) (rcMounts cfg)) @
                 concat (map (\<lambda>(k, v). [''-e'', k @ ''='' @ v]) (rcEnv cfg)) @
                 (if rcInteractive cfg then [''-it''] else []) @
                 [''-w'', ''/project'', rcImage cfg, if rcShell cfg = [] then ''sh'' else rcShell cfg, ''-c'']
      in if rcNoUser cfg then Inr (args1 @ rest)
         else case cwUser w of
           None \<Rightarrow> Inl NoUser
         | Some (uid, gid) \<Rightarrow> Inr (args1 @ [''--user'', uid @ '':'' @ gid] @ rest))"

definition detectRuntime :: "container_world \<Rightarrow> ContainerError + string" where
  "detectRuntime w =
     (case List.find (cwHas w) [''docker'', ''podman''] of None \<Rightarrow> Inl NoRuntime | Some rt \<Rightarrow> Inr rt)"

text \<open>The argument vector of the process that runs a command, under a fresh container name.\<close>

definition RunInContainer :: "container_world \<Rightarrow> string \<Rightarrow> RunConfig \<Rightarrow> ContainerError + string list" where
  "RunInContainer w fresh cfg =
     (if rcImage cfg = [] then Inl NoImage
      else case detectRuntime w of
        Inl err \<Rightarrow> Inl err
      | Inr rt \<Rightarrow>
          (case containerRunArgs w cfg of
             Inl err \<Rightarrow> Inl err
           | Inr args \<Rightarrow> Inr (rt # take 1 args @ [''--name'', fresh] @ drop 1 args @ [rcCommand cfg])))"

definition DefaultContainerImage :: "container_world \<Rightarrow> Project option \<Rightarrow> string" where
  "DefaultContainerImage w proj =
     (let arch = Host (cwUname w) in
      case (case proj of None \<Rightarrow> None | Some p \<Rightarrow> AnyUnit p ''toolchain-musl'') of
        Some cu \<Rightarrow> ''yoe/toolchain-musl:'' @ uVersion cu @ ''-'' @ arch
      | None \<Rightarrow> ''yoe/toolchain-musl:15-'' @ arch)"

text \<open>The first image of the runtime's listing that is a toolchain for the architecture.\<close>

definition LocalToolchainImage :: "container_world \<Rightarrow> string \<Rightarrow> string" where
  "LocalToolchainImage w arch =
     (case detectRuntime w of
        Inl _ \<Rightarrow> []
      | Inr _ \<Rightarrow>
          (case cwImages w of
             None \<Rightarrow> []
           | Some out \<Rightarrow>
               (case List.find (\<lambda>l. HasPrefix l ''yoe/toolchain'' \<and> HasSuffix l (''-'' @ arch))
                       (map TrimSpace (Split (TrimSpace out) CHR 0x0A)) of
                  None \<Rightarrow> []
                | Some l \<Rightarrow> l)))"

definition CheckBinfmt :: "container_world \<Rightarrow> string \<Rightarrow> ContainerError option" where
  "CheckBinfmt w arch =
     (if arch = [] \<or> arch = Host (cwUname w) then None
      else if cwStat w (PathJoin [''/proc/sys/fs/binfmt_misc'', Binfmt arch]) then None
      else Some (BinfmtMissing arch))"

section \<open>Removing trees\<close>

text \<open>
  A removal may fail on files of other users; their ownership is then taken over in a
  container and the removal is tried once more. The actions and their outcomes so far are
  what the oracle answers from.
\<close>

datatype remove_action = RemoveAll string | Chown string string

datatype RemoveError = RemoveFailed | OwnershipFailed | StillThere

definition RemoveDir :: "(remove_action list \<Rightarrow> bool) \<Rightarrow> (remove_action list \<Rightarrow> bool) \<Rightarrow> string \<Rightarrow> string \<Rightarrow> string \<Rightarrow>
    RemoveError option \<times> remove_action list" where
  "RemoveDir works there toolchain dir tag =
     (let h1 = [RemoveAll dir]; img = (if tag = [] then toolchain else tag) in
      if works h1 then (None, h1)
      else if \<not> there h1 then (None, h1)
      else if img = [] then (Some OwnershipFailed, h1)
      else let h2 = h1 @ [Chown dir img] in
        if \<not> works h2 then (Some OwnershipFailed, h2)
        else let h3 = h2 @ [RemoveAll dir] in if works h3 then (None, h3) else (Some StillThere, h3))"

section \<open>Commands\<close>

record SandboxConfig =
  sxArch :: string
  sxContainer :: string
  sxSandbox :: bool
  sxShell :: string
  sxSrcDir :: string
  sxDestDir :: string
  sxSysroot :: string
  sxEnv :: "(string, string) gomap"
  sxProjectDir :: string
  sxNoUser :: bool
  sxHostDir :: string
  sxCacheDirs :: "(string, string) gomap"

definition resolveShell :: "SandboxConfig \<Rightarrow> string" where
  "resolveShell cfg = (if sxShell cfg \<noteq> [] then sxShell cfg else ''sh'')"

definition shellQuote :: "string \<Rightarrow> string" where
  "shellQuote s = CHR 0x27 # concat (map (\<lambda>c. if c = CHR 0x27 then [CHR 0x27, CHR 0x5C, CHR 0x27, CHR 0x27] else [c]) s) @ [CHR 0x27]"

definition env_exports :: "(string, string) gomap \<Rightarrow> string list" where
  "env_exports env = map (\<lambda>(k, v). ''export '' @ k @ ''='' @ Quote v) env"

definition containerMountsForBuild :: "SandboxConfig \<Rightarrow> Mount list" where
  "containerMountsForBuild cfg =
     (if sxSrcDir cfg \<noteq> [] then [\<lparr>moHost = sxSrcDir cfg, moContainer = ''/build/src'', moReadOnly = False\<rparr>] else []) @
     (if sxDestDir cfg \<noteq> [] then [\<lparr>moHost = sxDestDir cfg, moContainer = ''/build/destdir'', moReadOnly = False\<rparr>] else []) @
     (if sxSysroot cfg \<noteq> [] then [\<lparr>moHost = sxSysroot cfg, moContainer = ''/build/sysroot'', moReadOnly = True\<rparr>] else []) @
     map (\<lambda>(h, c). \<lparr>moHost = h, moContainer = c, moReadOnly = False\<rparr>) (sxCacheDirs cfg)"

definition native_path :: string where
  "native_path = ''/usr/local/sbin:/usr/local/bin:/usr/sbin:/usr/bin:/sbin:/bin''"

definition RunSimple :: "SandboxConfig \<Rightarrow> string \<Rightarrow> RunConfig" where
  "RunSimple cfg command =
     (let exports = env_exports (sxEnv cfg) @ (if sxNoUser cfg then [''export PATH='' @ Quote native_path] else []);
          pre = Join exports ''; ''
      in \<lparr>rcShell = resolveShell cfg, rcArch = sxArch cfg, rcImage = sxContainer cfg,
          rcCommand = (if pre \<noteq> [] then pre @ ''; '' else []) @ ''cd /build/src && '' @ command,
          rcProjectDir = sxProjectDir cfg, rcMounts = containerMountsForBuild cfg, rcEnv = [], rcInteractive = False,
          rcNoUser = sxNoUser cfg\<rparr>)"

definition bwrap_prefix :: "SandboxConfig \<Rightarrow> string list" where
  "bwrap_prefix cfg =
     [''bwrap'', ''--die-with-parent'', ''--bind'', ''/'', ''/''] @
     (if sxSysroot cfg \<noteq> [] then [''--ro-bind'', ''/build/sysroot'', ''/build/sysroot''] else []) @
     [''--bind'', ''/build/src'', ''/build/src'', ''--bind'', ''/build/destdir'', ''/build/destdir'',
      ''--dev-bind'', ''/dev'', ''/dev'', ''--ro-bind'', ''/proc'', ''/proc'', ''--tmpfs'', ''/tmp'', ''--chdir'', ''/build/src'']"

definition bwrapCommand :: "SandboxConfig \<Rightarrow> string \<Rightarrow> string" where
  "bwrapCommand cfg command =
     (let envStr = Join (env_exports (sxEnv cfg)) ''; '';
          fullCmd = (if envStr \<noteq> [] then envStr @ ''; '' else []) @ command
      in Join (bwrap_prefix cfg @ [''--'', resolveShell cfg, ''-c'', shellQuote fullCmd]) '' '')"

definition BwrapShellCommand :: "SandboxConfig \<Rightarrow> string" where
  "BwrapShellCommand cfg =
     (let shell = resolveShell cfg; envStr = Join (env_exports (sxEnv cfg)) ''; '';
          fullCmd = (if envStr \<noteq> [] then envStr @ ''; '' else []) @ ''exec '' @ shell
      in Join (bwrap_prefix cfg @ [''--'', shell, ''-c'', shellQuote fullCmd]) '' '')"

text \<open>The run that a step asks the container for.\<close>

definition RunInSandbox :: "container_world \<Rightarrow> SandboxConfig \<Rightarrow> string \<Rightarrow> RunConfig" where
  "RunInSandbox w cfg command =
     (if \<not> sxSandbox cfg \<or> (sxArch cfg \<noteq> [] \<and> sxArch cfg \<noteq> Host (cwUname w)) then RunSimple cfg command
      else \<lparr>rcShell = resolveShell cfg, rcArch = sxArch cfg, rcImage = sxContainer cfg, rcCommand = bwrapCommand cfg command,
            rcProjectDir = sxProjectDir cfg, rcMounts = containerMountsForBuild cfg, rcEnv = [], rcInteractive = False,
            rcNoUser = False\<rparr>)"

section \<open>Quoting\<close>

text \<open>
  How a shell splits a command line into words, as far as single quotes, escaped characters
  and plain characters go: a word in progress is \<^term>\<open>Some w\<close>, and a special character
  outside quotes makes the line no list of plain words.
\<close>

definition sh_special :: "char \<Rightarrow> bool" where
  "sh_special c \<longleftrightarrow> c \<in> set ''|&;<>()$`*?[]#~=%!{}'' \<or> c \<in> {CHR 0x22, CHR 0x09, CHR 0x0A}"

definition sh_add :: "string option \<Rightarrow> string \<Rightarrow> string option" where
  "sh_add cur s = Some ((case cur of None \<Rightarrow> [] | Some w \<Rightarrow> w) @ s)"

definition sh_close :: "string option \<Rightarrow> string list" where
  "sh_close cur = (case cur of None \<Rightarrow> [] | Some w \<Rightarrow> [w])"

fun sh_words :: "bool \<Rightarrow> string option \<Rightarrow> string \<Rightarrow> string list option" where
  "sh_words q cur [] = (if q then None else Some (sh_close cur))"
| "sh_words q cur (c # cs) =
     (if q then (if c = CHR 0x27 then sh_words False cur cs else sh_words True (sh_add cur [c]) cs)
      else if c = CHR 0x27 then sh_words True (sh_add cur []) cs
      else if c = CHR 0x5C then (case cs of [] \<Rightarrow> None | d # ds \<Rightarrow> sh_words False (sh_add cur [d]) ds)
      else if c = CHR 0x20 then map_option ((@) (sh_close cur)) (sh_words False None cs)
      else if sh_special c then None
      else sh_words False (sh_add cur [c]) cs)"

definition sh_plain_word :: "string \<Rightarrow> bool" where
  "sh_plain_word w \<longleftrightarrow> w \<noteq> [] \<and> list_all (\<lambda>c. \<not> sh_special c \<and> c \<notin> {CHR 0x27, CHR 0x5C, CHR 0x20}) w"

lemma sh_add_simps [simp]:
  "sh_add (sh_add cur s) t = sh_add cur (s @ t)"
  "sh_add (Some w) s = Some (w @ s)" "sh_add None s = Some s"
  by (simp_all add: sh_add_def)

lemma sh_words_plain:
  "list_all (\<lambda>c. \<not> sh_special c \<and> c \<notin> {CHR 0x27, CHR 0x5C, CHR 0x20}) w \<Longrightarrow>
     sh_words False (Some v) (w @ rest) = sh_words False (Some (v @ w)) rest"
  by (induction w arbitrary: v) auto

lemma sh_words_plain_word:
  assumes "sh_plain_word w"
  shows "sh_words False None (w @ CHR 0x20 # rest) = map_option ((#) w) (sh_words False None rest)"
proof -
  from assms obtain c cs where w: "w = c # cs" "\<not> sh_special c" "c \<notin> {CHR 0x27, CHR 0x5C, CHR 0x20}"
    and cs: "list_all (\<lambda>c. \<not> sh_special c \<and> c \<notin> {CHR 0x27, CHR 0x5C, CHR 0x20}) cs"
    unfolding sh_plain_word_def by (cases w) auto
  have "sh_words False None (w @ CHR 0x20 # rest) = sh_words False (Some [c]) (cs @ CHR 0x20 # rest)"
    using w by simp
  also have "\<dots> = sh_words False (Some ([c] @ cs)) (CHR 0x20 # rest)" using cs by (rule sh_words_plain)
  also have "\<dots> = map_option ((#) w) (sh_words False None rest)"
    by (simp add: w sh_close_def append_Cons [abs_def] option.map_comp comp_def)
  finally show ?thesis .
qed

lemma sh_words_quoted:
  "sh_words True (Some v) (concat (map (\<lambda>c. if c = CHR 0x27 then [CHR 0x27, CHR 0x5C, CHR 0x27, CHR 0x27] else [c]) s) @ CHR 0x27 # rest) =
     sh_words False (Some (v @ s)) rest"
  by (induction s arbitrary: v) auto

lemma sh_words_shellQuote: "sh_words False None (shellQuote s) = Some [s]"
  using sh_words_quoted [of "[]" s "[]"] by (simp add: shellQuote_def sh_close_def)

lemma sh_words_Join:
  "list_all sh_plain_word ws \<Longrightarrow> final \<noteq> [] \<Longrightarrow>
     sh_words False None (Join (ws @ [final]) '' '') = map_option ((@) ws) (sh_words False None final)"
proof (induction ws)
  case Nil
  then show ?case by (simp add: option.map_id0 [unfolded id_def] append_Nil [abs_def] option.map_ident)
next
  case (Cons w ws)
  have "Join (w # ws @ [final]) '' '' = w @ CHR 0x20 # Join (ws @ [final]) '' ''"
    by (cases ws) auto
  with Cons show ?case
    by (simp add: sh_words_plain_word option.map_comp comp_def)
qed

lemma bwrap_prefix_plain: "list_all sh_plain_word (bwrap_prefix cfg)"
  by (simp add: bwrap_prefix_def sh_plain_word_def sh_special_def)

text \<open>
  C21. The command line that enters the sandbox splits, in the container's shell, into the
  sandbox program and its mounts followed by the shell, its flag and ONE argument, which is
  the environment's exports and the step's command exactly as written, quotes included: no
  character of a command or of an environment value can end the argument or add another.
\<close>

theorem bwrapCommand_words:
  assumes "sh_plain_word (resolveShell cfg)"
  shows "sh_words False None (bwrapCommand cfg command) =
           Some (bwrap_prefix cfg @ [''--'', resolveShell cfg, ''-c'',
             (if sxEnv cfg = [] then [] else Join (env_exports (sxEnv cfg)) ''; '' @ ''; '') @ command])"
proof -
  let ?full = "(if sxEnv cfg = [] then [] else Join (env_exports (sxEnv cfg)) ''; '' @ ''; '') @ command"
  have env: "(Join (env_exports (sxEnv cfg)) ''; '' = []) \<longleftrightarrow> sxEnv cfg = []"
    by (cases "sxEnv cfg"; cases "tl (sxEnv cfg)") (auto simp: env_exports_def)
  have full: "(if Join (env_exports (sxEnv cfg)) ''; '' \<noteq> [] then Join (env_exports (sxEnv cfg)) ''; '' @ ''; '' else []) @ command = ?full"
    using env by simp
  have plain: "list_all sh_plain_word (bwrap_prefix cfg @ [''--'', resolveShell cfg, ''-c''])"
    using bwrap_prefix_plain [of cfg] assms by (simp add: sh_plain_word_def sh_special_def)
  have "sh_words False None (Join ((bwrap_prefix cfg @ [''--'', resolveShell cfg, ''-c'']) @ [shellQuote ?full]) '' '') =
      map_option ((@) (bwrap_prefix cfg @ [''--'', resolveShell cfg, ''-c''])) (sh_words False None (shellQuote ?full))"
    by (rule sh_words_Join [OF plain]) (simp add: shellQuote_def)
  then show ?thesis
    unfolding bwrapCommand_def Let_def full by (simp add: sh_words_shellQuote)
qed

definition sx_example :: SandboxConfig where
  "sx_example = \<lparr>sxArch = [], sxContainer = ''yoe/toolchain-musl:15-x86_64'', sxSandbox = True, sxShell = [], sxSrcDir = ''/s'',
     sxDestDir = ''/d'', sxSysroot = ''/r'', sxEnv = [(''P'', ''it's'')], sxProjectDir = ''/p'', sxNoUser = False,
     sxHostDir = [], sxCacheDirs = []\<rparr>"

theorem bwrapCommand_words_witness:
  "sh_words False None (bwrapCommand sx_example ''echo 'a b' && x'') =
     Some (bwrap_prefix sx_example @ [''--'', ''sh'', ''-c'', ''export P='' @ [CHR 0x22] @ ''it's'' @ [CHR 0x22] @ ''; echo 'a b' && x''])"
proof -
  have "sh_plain_word (resolveShell sx_example)" by code_simp
  from bwrapCommand_words [OF this, of "''echo 'a b' && x''"] show ?thesis
    by (simp add: sx_example_def resolveShell_def env_exports_def Quote_def quote_char_def)
qed

text \<open>
  The exports are in double quotes inside that argument. How a shell reads the rest of a
  double-quoted word; an expansion has no value of its own here.
\<close>

fun sh_dquote :: "string \<Rightarrow> string option" where
  "sh_dquote [] = None"
| "sh_dquote (c # cs) =
     (if c = CHR 0x22 then (if cs = [] then Some [] else None)
      else if c = CHR 0x5C then
        (case cs of
           [] \<Rightarrow> None
         | d # ds \<Rightarrow>
             if d \<in> {CHR 0x24, CHR 0x60, CHR 0x22, CHR 0x5C} then map_option ((#) d) (sh_dquote ds)
             else if d = CHR 0x0A then sh_dquote ds
             else map_option (\<lambda>r. c # d # r) (sh_dquote ds))
      else if c = CHR 0x24 \<or> c = CHR 0x60 then None
      else map_option ((#) c) (sh_dquote cs))"

definition sh_plain :: "char \<Rightarrow> bool" where
  "sh_plain c \<longleftrightarrow> 32 \<le> (of_char c :: nat) \<and> (of_char c :: nat) < 127 \<and> c \<noteq> CHR 0x24 \<and> c \<noteq> CHR 0x60"

lemma sh_dquote_Quote:
  assumes "list_all sh_plain v"
  shows "sh_dquote (tl (Quote v)) = Some v"
proof -
  have quote: "quote_char (CHR 0x22) = [CHR 0x5C, CHR 0x22]" "quote_char (CHR 0x5C) = [CHR 0x5C, CHR 0x5C]"
    by code_simp+
  have "sh_dquote (concat (map quote_char v) @ [CHR 0x22]) = Some v"
    using assms
  proof (induction v)
    case Nil
    then show ?case by simp
  next
    case (Cons c v)
    consider "c = CHR 0x22" | "c = CHR 0x5C" | "c \<noteq> CHR 0x22" "c \<noteq> CHR 0x5C" by blast
    then show ?case
    proof cases
      case 3
      have "(of_char c :: nat) \<noteq> of_char (CHR 0x22)" "(of_char c :: nat) \<noteq> of_char (CHR 0x5C)"
        using 3 by (metis of_char_eq_iff)+
      then have "quote_char c = [c]" using Cons.prems by (simp add: quote_char_def sh_plain_def Let_def)
      then show ?thesis using Cons 3 by (simp add: sh_plain_def)
    qed (use Cons in \<open>simp_all add: quote\<close>)
  qed
  then show ?thesis by (simp add: Quote_def)
qed

text \<open>
  Beyond plain characters the exports are not what was written: the quoting is Go's, and a
  shell keeps the backslash of a newline or tab escape and expands a dollar.
\<close>

lemma env_export_mangled:
  "sh_dquote (tl (Quote [CHR 0x0A])) = Some [CHR 0x5C, CHR ''n'']"
  "sh_dquote (tl (Quote [CHR 0x09])) = Some [CHR 0x5C, CHR ''t'']"
  "sh_dquote (tl (Quote ''$HOME'')) = None"
  by code_simp+

end
