(* ===== verification/Templates.thy ===== *)
theory Templates
  imports Units Paths
begin

text \<open>
  Install steps, from \<^verbatim>\<open>internal/build/templates.go\<close>: where the file of a step comes from,
  where it goes and what is written. The standard library's \<^verbatim>\<open>os.Expand\<close> is modelled, its
  template engine is a parameter. The confinement of a step's source to its base directory
  rests on the shape of clean paths.
\<close>

section \<open>Variables\<close>

definition isShellSpecialVar :: "char \<Rightarrow> bool" where
  "isShellSpecialVar c \<longleftrightarrow> c \<in> set ''*#$@!?-0123456789''"

definition isAlphaNum :: "char \<Rightarrow> bool" where
  "isAlphaNum c \<longleftrightarrow>
     (let n = (of_char c :: nat) in
      c = CHR ''_'' \<or> 48 \<le> n \<and> n \<le> 57 \<or> 97 \<le> n \<and> n \<le> 122 \<or> 65 \<le> n \<and> n \<le> 90)"

text \<open>The name at the start of a text that follows a dollar, and how many bytes it takes.\<close>

definition getShellName :: "string \<Rightarrow> string \<times> nat" where
  "getShellName s =
     (case s of
        [] \<Rightarrow> ([], 0)
      | c # t \<Rightarrow>
          if c = CHR ''{'' then
            (if 2 < length s \<and> isShellSpecialVar (t ! 0) \<and> t ! 1 = CHR ''}'' then ([t ! 0], 3)
             else case IndexByte t CHR ''}'' of
               None \<Rightarrow> ([], 1)
             | Some i \<Rightarrow> if i = 0 then ([], 2) else (take i t, i + 2))
          else if isShellSpecialVar c then ([c], 1)
          else (takeWhile isAlphaNum s, length (takeWhile isAlphaNum s)))"

function Expand :: "(string \<Rightarrow> string) \<Rightarrow> string \<Rightarrow> string" where
  "Expand f [] = []"
| "Expand f (c # cs) =
     (if c = CHR ''$'' \<and> cs \<noteq> []
      then (let (name, w) = getShellName cs in
            (if name = [] \<and> w > 0 then [] else if name = [] then [c] else f name) @ Expand f (drop w cs))
      else c # Expand f cs)"
  by pat_completeness auto
termination by (relation "measure (\<lambda>(f, s). length s)") auto

definition expandEnv :: "string \<Rightarrow> (string, string) gomap \<Rightarrow> string" where
  "expandEnv s env = Expand (\<lambda>key. gm_get [] env key) s"

section \<open>Install steps\<close>

definition BuildTemplateContext ::
  "Unit \<Rightarrow> string \<Rightarrow> name \<Rightarrow> string \<Rightarrow> name \<Rightarrow> string \<Rightarrow> name \<Rightarrow> string \<Rightarrow> (string, goany) gomap" where
  "BuildTemplateContext u arch machine console project projectVersion baseDistro baseVersion =
     fold (\<lambda>(k, v) m. gm_put k v m) (uExtra u)
       [(''name'', GString (uName u)), (''version'', GString (uVersion u)), (''release'', GInt (uRelease u)),
        (''arch'', GString arch), (''machine'', GString machine), (''console'', GString console),
        (''project'', GString project), (''project_version'', GString projectVersion),
        (''base_distro'', GString baseDistro), (''base_version'', GString baseVersion)]"

datatype InstallError =
    EscapesBase string | NoRelativePath string | Unreadable string | TemplateError string string
  | UnknownKind string | NotWritten string

definition install_base :: "Unit \<Rightarrow> InstallStep \<Rightarrow> string" where
  "install_base u step = (if isBaseDir step = [] then PathJoin [uDefinedIn u, uName u] else isBaseDir step)"

definition resolveTemplatePath :: "Unit \<Rightarrow> InstallStep \<Rightarrow> InstallError + string" where
  "resolveTemplatePath u step =
     (let baseDir = install_base u step; resolved = PathJoin [baseDir, isSrc step] in
      case Rel baseDir resolved of
        None \<Rightarrow> Inl (NoRelativePath (isSrc step))
      | Some rel \<Rightarrow>
          if rel = ''..'' \<or> HasPrefix rel ''../'' then Inl (EscapesBase (isSrc step)) else Inr resolved)"

text \<open>
  What the step does to the disk is one file written, whose place, bytes and mode the result
  holds; the parameters read a file, render a template and create the file.
\<close>

record install_world =
  iwRead :: "string \<Rightarrow> string option"
  iwRender :: "string \<Rightarrow> string \<Rightarrow> (string, goany) gomap \<Rightarrow> string + string"
  iwWrite :: "string \<Rightarrow> string \<Rightarrow> int \<Rightarrow> bool"

definition doInstallStep ::
  "install_world \<Rightarrow> Unit \<Rightarrow> InstallStep \<Rightarrow> (string, goany) gomap \<Rightarrow> (string, string) gomap \<Rightarrow>
   InstallError + string \<times> string \<times> int" where
  "doInstallStep w u step data env =
     (case resolveTemplatePath u step of
        Inl err \<Rightarrow> Inl err
      | Inr srcPath \<Rightarrow>
          (let destPath = expandEnv (isDest step) env in
           case iwRead w srcPath of
             None \<Rightarrow> Inl (Unreadable srcPath)
           | Some raw \<Rightarrow>
               (case (if isKind step = ''file'' then Inr raw
                      else if isKind step = ''template''
                        then (case iwRender w (Base srcPath) raw data of
                                Inl err \<Rightarrow> Inl (TemplateError srcPath err) | Inr out \<Rightarrow> Inr out)
                      else Inl (UnknownKind (isKind step))) of
                  Inl err \<Rightarrow> Inl err
                | Inr out \<Rightarrow>
                    if iwWrite w destPath out (isMode step) then Inr (destPath, out, isMode step)
                    else Inl (NotWritten destPath))))"

definition installStepLabel :: "InstallStep \<Rightarrow> string" where
  "installStepLabel s =
     (if isKind s = ''template'' then ''install_template'' else ''install_file'') @ '': '' @ isSrc s @ '' -> '' @ isDest s"

section \<open>Clean paths\<close>

text \<open>A stack of components that cleaning leaves as it is: parent steps only at the bottom.\<close>

definition normal_comp :: "string \<Rightarrow> bool" where
  "normal_comp c \<longleftrightarrow> c \<noteq> [] \<and> c \<noteq> ''.'' \<and> CHR ''/'' \<notin> set c"

definition normal_stack :: "bool \<Rightarrow> string list \<Rightarrow> bool" where
  "normal_stack rooted cs \<longleftrightarrow>
     (\<exists>k xs. cs = xs @ replicate k ''..'' \<and> ''..'' \<notin> set xs \<and> (rooted \<longrightarrow> k = 0) \<and> list_all normal_comp xs)"

lemma normal_stackE:
  assumes "normal_stack rooted cs"
  obtains k xs where "cs = xs @ replicate k ''..''" "''..'' \<notin> set xs" "rooted \<longrightarrow> k = 0" "list_all normal_comp xs"
  using assms unfolding normal_stack_def by blast

lemma normal_comp_dots: "normal_comp ''..''"
  by (simp add: normal_comp_def)

lemma normal_stack_comp:
  assumes "normal_stack rooted cs" and "c \<in> set cs"
  shows "normal_comp c"
proof -
  from assms(1) obtain k xs where "cs = xs @ replicate k ''..''" "list_all normal_comp xs" by (rule normal_stackE)
  with assms(2) show ?thesis by (auto simp: list_all_iff normal_comp_dots)
qed

lemma normal_stackI:
  "cs = xs @ replicate k ''..'' \<Longrightarrow> ''..'' \<notin> set xs \<Longrightarrow> (rooted \<Longrightarrow> k = 0) \<Longrightarrow>
   list_all normal_comp xs \<Longrightarrow> normal_stack rooted cs"
  unfolding normal_stack_def by blast

lemma normal_stack_push:
  assumes "normal_stack rooted cs" and "CHR ''/'' \<notin> set c"
  shows "normal_stack rooted (clean_push rooted c cs)"
proof -
  from assms(1) obtain k xs where cs: "cs = xs @ replicate k ''..''" "''..'' \<notin> set xs" "rooted \<longrightarrow> k = 0"
    and ok: "list_all normal_comp xs"
    by (rule normal_stackE)
  consider "c = [] \<or> c = ''.''" | "c = ''..''" "xs = []" "k = 0" | "c = ''..''" "xs = []" "k > 0"
    | x xs' where "c = ''..''" "xs = x # xs'" | "c \<noteq> []" "c \<noteq> ''.''" "c \<noteq> ''..''"
    by (cases xs) auto
  then show ?thesis
  proof cases
    case 1
    then show ?thesis using assms(1) by (auto simp: clean_push_def)
  next
    case 2
    then show ?thesis using cs
      by (cases rooted)
        (auto simp: clean_push_def intro: normal_stackI [of _ "[]" 1] normal_stackI [of _ "[]" 0])
  next
    case 3
    then have eq: "clean_push rooted c cs = [] @ replicate (Suc k) ''..''" and "\<not> rooted"
      using cs by (cases k; simp add: clean_push_def)+
    then show ?thesis by (intro normal_stackI [OF eq]) (auto simp: list_all_iff)
  next
    case (4 x xs')
    then have eq: "clean_push rooted c cs = xs' @ replicate k ''..''" using cs by (auto simp: clean_push_def)
    show ?thesis using ok cs 4 by (intro normal_stackI [OF eq]) auto
  next
    case 5
    then have eq: "clean_push rooted c cs = (c # xs) @ replicate k ''..''" using cs by (auto simp: clean_push_def)
    show ?thesis using ok cs 5 assms(2) by (intro normal_stackI [OF eq]) (auto simp: normal_comp_def)
  qed
qed

lemma normal_stack_fold:
  "list_all (\<lambda>c. CHR ''/'' \<notin> set c) cs \<Longrightarrow> normal_stack rooted st \<Longrightarrow> normal_stack rooted (fold (clean_push rooted) cs st)"
  by (induction cs arbitrary: st) (auto intro: normal_stack_push)

definition clean_stack :: "string \<Rightarrow> string list" where
  "clean_stack p = fold (clean_push (IsAbs p)) (Split p CHR ''/'') []"

lemma normal_clean_stack: "normal_stack (IsAbs p) (clean_stack p)"
  unfolding clean_stack_def
  by (rule normal_stack_fold) (auto simp: list_all_iff normal_stack_def dest: Split_elems)

lemma Clean_stack:
  "Clean p = (let out = Join (rev (clean_stack p)) ''/'' in
              if IsAbs p then CHR ''/'' # out else if out = [] then ''.'' else out)"
  by (simp add: Clean_def clean_stack_def Let_def)

lemma clean_stack_comps: "c \<in> set (clean_stack p) \<Longrightarrow> c \<noteq> [] \<and> c \<noteq> ''.'' \<and> CHR ''/'' \<notin> set c"
  using normal_stack_comp [OF normal_clean_stack] by (simp add: normal_comp_def)

lemma filter_clean_stack: "filter (\<lambda>c. c \<noteq> [] \<and> c \<noteq> ''.'') (rev (clean_stack p)) = rev (clean_stack p)"
  by (rule filter_True) (simp add: clean_stack_comps)

lemma Split_clean_out:
  "clean_stack p \<noteq> [] \<Longrightarrow> Split (Join (rev (clean_stack p)) ''/'') CHR ''/'' = rev (clean_stack p)"
  by (rule Split_Join) (auto simp: clean_stack_comps)

lemma Join_Nil: "Join (c # cs) sep = [] \<Longrightarrow> c = []"
  by (cases cs) auto

lemma Join_clean_Nil: "Join (rev (clean_stack p)) ''/'' = [] \<longleftrightarrow> clean_stack p = []"
proof (cases "rev (clean_stack p)")
  case (Cons c cs)
  then have "c \<in> set (clean_stack p)" by (metis list.set_intros(1) set_rev)
  then have "Join (rev (clean_stack p)) ''/'' \<noteq> []" unfolding Cons using Join_Nil clean_stack_comps by blast
  with Cons show ?thesis by auto
qed simp

lemma components_Clean: "components (Clean p) = rev (clean_stack p)"
proof (cases "clean_stack p = []")
  case True
  then show ?thesis by (simp add: Clean_stack components_def)
next
  case False
  then show ?thesis
    using Split_clean_out [OF False] filter_clean_stack [of p] Join_clean_Nil [of p]
    by (simp add: Clean_stack components_def Let_def)
qed

lemma IsAbs_Clean: "IsAbs (Clean p) = IsAbs p"
proof (cases "IsAbs p \<or> clean_stack p = []")
  case True
  then show ?thesis by (auto simp: Clean_stack IsAbs_def HasPrefix_def Let_def)
next
  case False
  then obtain c cs where st: "rev (clean_stack p) = c # cs" by (cases "rev (clean_stack p)") auto
  then have "c \<in> set (clean_stack p)" by (metis list.set_intros(1) set_rev)
  from clean_stack_comps [OF this] obtain x xs where "c = x # xs" "x \<noteq> CHR ''/''" by (cases c) auto
  then have "\<not> IsAbs (Join (rev (clean_stack p)) ''/'')" unfolding st by (cases cs) (auto simp: IsAbs_def HasPrefix_def)
  then show ?thesis using False Join_clean_Nil [of p] by (simp add: Clean_stack Let_def)
qed

lemma fold_clean_components:
  "fold (clean_push r) (filter (\<lambda>c. c \<noteq> [] \<and> c \<noteq> ''.'') cs) st = fold (clean_push r) cs st"
  by (induction cs arbitrary: st) (auto simp: clean_push_def)

lemma clean_stack_components: "clean_stack p = fold (clean_push (IsAbs p)) (components p) []"
  by (simp add: clean_stack_def components_def fold_clean_components)

lemma fold_push_names:
  "list_all normal_comp ys \<Longrightarrow> ''..'' \<notin> set ys \<Longrightarrow> fold (clean_push r) ys st = rev ys @ st"
  by (induction ys arbitrary: st) (auto simp: clean_push_def normal_comp_def)

lemma push_dots: "clean_push False ''..'' (replicate k ''..'') = replicate (Suc k) ''..''"
  by (cases k) (simp_all add: clean_push_def)

lemma fold_push_dots: "fold (clean_push False) (replicate n ''..'') (replicate k ''..'') = replicate (n + k) ''..''"
proof (induction n arbitrary: k)
  case (Suc n)
  have "fold (clean_push False) (replicate (Suc n) ''..'') (replicate k ''..'') =
      fold (clean_push False) (replicate n ''..'') (replicate (Suc k) ''..'')"
    unfolding replicate_Suc [of n] fold_Cons comp_apply push_dots ..
  also have "\<dots> = replicate (Suc n + k) ''..''" unfolding Suc by simp
  finally show ?case .
qed simp

lemma fold_push_normal:
  assumes "normal_stack r st"
  shows "fold (clean_push r) (rev st) [] = st"
proof -
  from assms obtain k xs where st: "st = xs @ replicate k ''..''" "''..'' \<notin> set xs" "r \<longrightarrow> k = 0" "list_all normal_comp xs"
    by (rule normal_stackE)
  have "fold (clean_push r) (replicate k ''..'') [] = replicate k ''..''"
    using st(3) fold_push_dots [of k 0] by (cases r) simp_all
  then show ?thesis using st by (simp add: fold_push_names list_all_iff)
qed

lemma clean_stack_Clean: "clean_stack (Clean p) = clean_stack p"
  unfolding clean_stack_components [of "Clean p"] components_Clean IsAbs_Clean
  by (rule fold_push_normal [OF normal_clean_stack])

lemma Clean_Clean: "Clean (Clean p) = Clean p"
  unfolding Clean_stack [of "Clean p"] clean_stack_Clean IsAbs_Clean by (rule Clean_stack [symmetric])

lemma Clean_PathJoin: "PathJoin es = [] \<or> Clean (PathJoin es) = PathJoin es"
  by (simp add: PathJoin_def Let_def Clean_Clean)

section \<open>Confinement\<close>

lemma strip_common_split: "strip_common bs ts = (bs', ts') \<Longrightarrow> \<exists>cs. bs = cs @ bs' \<and> ts = cs @ ts'"
  by (induction bs ts rule: strip_common.induct) (auto split: if_splits)

lemma Join_dots: "Join (''..'' # cs) ''/'' = ''..'' \<or> HasPrefix (Join (''..'' # cs) ''/'') ''../''"
  by (cases cs) (simp_all add: HasPrefix_def)

lemma replicate_suffix:
  assumes "replicate k d @ ys = cs @ ts" "d \<in> set ts" "d \<notin> set ys"
  obtains ts' where "ts = d # ts'"
proof -
  have ts: "ts = drop (length cs) (replicate k d) @ drop (length cs - k) ys"
    using arg_cong [OF assms(1), of "drop (length cs)"] by simp
  have "length cs < k"
  proof (rule ccontr)
    assume "\<not> length cs < k"
    with ts have "set ts \<subseteq> set ys" by (simp add: set_drop_subset)
    with assms(2,3) show False by blast
  qed
  then have "replicate (k - length cs) d = d # replicate (k - length cs - 1) d" by (cases "k - length cs") simp_all
  with ts that show thesis by simp
qed

text \<open>A relative path that does not climb is below its base.\<close>

lemma Rel_confined:
  assumes "Rel base targ = Some rel" and "\<not> (rel = ''..'' \<or> HasPrefix rel ''../'')"
  shows "\<exists>ts. components (Clean targ) = components (Clean base) @ ts \<and> ''..'' \<notin> set ts"
proof (cases "Clean targ = Clean base")
  case True
  then show ?thesis by simp
next
  case False
  obtain bs ts where strip: "strip_common (components (Clean base)) (components (Clean targ)) = (bs, ts)" by fastforce
  with assms(1) False have rel: "rel = Join (replicate (length bs) ''..'' @ ts) ''/''"
    by (auto simp: Rel_def Let_def split: if_splits)
  have bs: "bs = []"
  proof (rule ccontr)
    assume "bs \<noteq> []"
    then have "replicate (length bs) ''..'' @ ts = ''..'' # replicate (length bs - 1) ''..'' @ ts" by (cases bs) simp_all
    with rel assms(2) Join_dots show False by metis
  qed
  with strip_common_split [OF strip] have eq: "components (Clean targ) = components (Clean base) @ ts" by auto
  have "''..'' \<notin> set ts"
  proof
    assume "''..'' \<in> set ts"
    from normal_clean_stack obtain k xs where st: "clean_stack targ = xs @ replicate k ''..''" "''..'' \<notin> set xs"
      by (rule normal_stackE)
    have "replicate k ''..'' @ rev xs = components (Clean base) @ ts" using eq st(1) by (simp add: components_Clean)
    moreover have "''..'' \<notin> set (rev xs)" using st(2) by simp
    ultimately obtain ts' where "ts = ''..'' # ts'" using \<open>''..'' \<in> set ts\<close> by (metis replicate_suffix)
    with rel bs assms(2) Join_dots show False by (metis append_Nil list.size(3) replicate_0)
  qed
  with eq show ?thesis by blast
qed

text \<open>
  C20. The file that an install step copies or renders lies below the step's base directory:
  whatever the source path of the step, with parent steps, absolute or empty, the resolved path
  is the clean base extended by components none of which is a parent step.
\<close>

theorem resolveTemplatePath_confined:
  assumes "resolveTemplatePath u step = Inr p"
  shows "IsAbs p = IsAbs (install_base u step) \<and>
    (\<exists>ts. components (Clean p) = components (Clean (install_base u step)) @ ts \<and> ''..'' \<notin> set ts)"
proof -
  let ?base = "install_base u step"
  from assms obtain rel where p: "p = PathJoin [?base, isSrc step]" and rel: "Rel ?base p = Some rel"
    and stays: "\<not> (rel = ''..'' \<or> HasPrefix rel ''../'')"
    by (auto simp: resolveTemplatePath_def Let_def split: option.splits if_splits)
  have "IsAbs (Clean p) = IsAbs (Clean ?base)"
    using rel by (auto simp: Rel_def Let_def split: if_splits)
  with Rel_confined [OF rel stays] show ?thesis by (simp add: IsAbs_Clean)
qed

definition ex_install :: "string \<Rightarrow> InstallStep" where
  "ex_install src = \<lparr>isKind = ''file'', isSrc = src, isDest = ''$DESTDIR/etc/${NAME}'', isMode = 420, isBaseDir = ''/m/units/base''\<rparr>"

theorem resolveTemplatePath_confined_witness:
  "IsAbs ''/m/units/base/b'' = IsAbs (install_base zero_unit (ex_install ''a/../b'')) \<and>
    (\<exists>ts. components (Clean ''/m/units/base/b'') = components (Clean (install_base zero_unit (ex_install ''a/../b''))) @ ts \<and> ''..'' \<notin> set ts)"
proof -
  have "resolveTemplatePath zero_unit (ex_install ''a/../b'') = Inr ''/m/units/base/b''" by code_simp
  then show ?thesis by (rule resolveTemplatePath_confined)
qed

lemma resolveTemplatePath_rejects:
  "resolveTemplatePath zero_unit (ex_install ''../../etc/passwd'') = Inl (EscapesBase ''../../etc/passwd'')"
  "expandEnv (isDest (ex_install [])) [(''DESTDIR'', ''/d''), (''NAME'', ''x'')] = ''/d/etc/x''"
  by code_simp+

section \<open>Joining below a directory\<close>

lemma Split_append_sep: "Split (s @ c # t) c = Split s c @ Split t c"
proof (induction s)
  case (Cons x s)
  then show ?case by (cases "Split s c") auto
qed simp

lemma components_no_climb:
  assumes "\<not> IsAbs p" and "\<not> (Clean p = ''..'' \<or> HasPrefix (Clean p) ''../'')"
  shows "''..'' \<notin> set (components (Clean p)) \<and> list_all normal_comp (components (Clean p))"
proof -
  from normal_clean_stack obtain k xs where st: "clean_stack p = xs @ replicate k ''..''" "''..'' \<notin> set xs" "list_all normal_comp xs"
    by (rule normal_stackE)
  have "k = 0"
  proof (rule ccontr)
    assume "k \<noteq> 0"
    then have eq: "rev (clean_stack p) = ''..'' # replicate (k - 1) ''..'' @ rev xs" using st(1) by (cases k) (simp_all add: replicate_append_same)
    have "Join (rev (clean_stack p)) ''/'' \<noteq> []" unfolding eq using Join_Nil by blast
    then have "Clean p = Join (''..'' # replicate (k - 1) ''..'' @ rev xs) ''/''"
      using assms(1) unfolding eq by (simp add: Clean_stack eq Let_def)
    with Join_dots assms(2) show False by metis
  qed
  with st show ?thesis by (simp add: components_Clean list_all_iff)
qed

text \<open>A clean relative path that does not climb, joined to a directory, extends its components.\<close>

lemma PathJoin_below:
  assumes "d \<noteq> []" and "\<not> IsAbs p" and "\<not> (Clean p = ''..'' \<or> HasPrefix (Clean p) ''../'')"
  shows "Clean (PathJoin [d, Clean p]) = PathJoin [d, Clean p] \<and>
    components (PathJoin [d, Clean p]) = components (Clean d) @ components (Clean p)"
proof -
  let ?X = "d @ CHR ''/'' # Clean p"
  have ne: "Clean p \<noteq> []" by (simp add: Clean_def Let_def)
  have join: "PathJoin [d, Clean p] = Clean ?X" using assms(1) ne by (simp add: PathJoin_def)
  have abs: "IsAbs ?X = IsAbs d" using assms(1) by (cases d) (simp_all add: IsAbs_def HasPrefix_def)
  have "clean_stack ?X = fold (clean_push (IsAbs d)) (components (Clean p)) (clean_stack d)"
    unfolding clean_stack_def abs Split_append_sep by (simp add: components_def fold_clean_components)
  also have "\<dots> = rev (components (Clean p)) @ clean_stack d"
    using components_no_climb [OF assms(2,3)] by (simp add: fold_push_names)
  finally have "components (Clean ?X) = components (Clean d) @ components (Clean p)"
    by (simp add: components_Clean)
  with join show ?thesis by (simp add: Clean_Clean)
qed

end
