(* ===== verification/BuildUnit.thy ===== *)
theory BuildUnit
  imports DebRepo Sandbox Templates DagQuery "HOL-Library.Sublist"
begin

text \<open>
  The build of one unit: \<^verbatim>\<open>buildOne\<close>, \<^verbatim>\<open>packageAPK\<close>, \<^verbatim>\<open>packageDeb\<close> and \<^verbatim>\<open>refreshRepoIndex\<close> of
  \<^verbatim>\<open>internal/build/executor.go\<close> and \<^verbatim>\<open>AssembleSysroot\<close> of \<^verbatim>\<open>sandbox.go\<close>. A build is the list of the
  actions it takes on the disk, in containers and on the repository, in the order the code takes
  them; what an action comes to is answered by an oracle that sees all actions before it.
\<close>

section \<open>Actions\<close>

datatype repo_index = DebIndex string string "string list" | ApkIndexes string

datatype build_action =
    MakeDir string
  | WriteMeta string BuildMeta
  | CreateLog string
  | RemoveTree string string
  | PrepareSource string string
  | ClearTree string
  | CopyTree string string string
  | RefreshIndex repo_index
  | BeginTask name nat nat
  | DoInstall InstallStep "(string, string) gomap"
  | RunCommand RunConfig
  | CallFn name SandboxConfig
  | ReportFailure name
  | RepackUpstream string string
  | CreatePackage string string string
  | VerifyDigest string string
  | CopyDeb string string
  | LinkServices string "name list"
  | WriteConffiles string "string list"
  | BuildDeb string Control string
  | PublishApk string string string
  | PublishDeb string string string
  | WarnStaging

text \<open>
  The oracle: the error of the last action of a history, whether the build is cancelled, what the
  disk looks like, the path a package was written to, the architecture a package names (empty
  when there is none to read), the files install steps see, and the texts of error values.
\<close>

record build_oracle =
  orErr :: "build_action list \<Rightarrow> string option"
  orCancelled :: "build_action list \<Rightarrow> bool"
  orWorld :: "build_action list \<Rightarrow> BuildWorld"
  orPath :: "build_action list \<Rightarrow> string"
  orApkArch :: "build_action list \<Rightarrow> string \<Rightarrow> string"
  orInstall :: "build_action list \<Rightarrow> install_world"
  orInstallText :: "InstallError \<Rightarrow> string"
  orCodenameText :: "CodenameError \<Rightarrow> string"
  orHost :: container_world
  orNproc :: "string option"

record BuildOptions = Options +
  boKeyName :: "string option"

type_synonym 'a build = "(string, build_action, 'a) trace"

text \<open>An action whose error ends the build, with a text in front.\<close>

definition act :: "build_oracle \<Rightarrow> string \<Rightarrow> build_action \<Rightarrow> unit build" where
  "act o' wrap = attempt (\<lambda>h. map_option (\<lambda>e. wrap @ e) (orErr o' h))"

declare act_def [code del]

lemma act_code [code]:
  "act o' wrap a h =
     (case orErr o' (h @ [a]) of None \<Rightarrow> (Inr (), h @ [a]) | Some e \<Rightarrow> (Inl (wrap @ e), h @ [a]))"
  by (simp add: act_def attempt_def split: option.split)

section \<open>The failure report\<close>

definition buildLogTailLines :: nat where
  "buildLogTailLines = 50"

definition TrimRightNewlines :: "string \<Rightarrow> string" where
  "TrimRightNewlines s = rev (dropWhile (\<lambda>c. c = CHR 0x0A) (rev s))"

text \<open>
  The lines the report prints of the log, and whether its header counts them. The report names
  the unit, the task and the log first.
\<close>

definition failure_tail :: "bool \<Rightarrow> string option \<Rightarrow> (bool \<times> string list) option" where
  "failure_tail verbose data =
     (if verbose then None
      else case data of
        None \<Rightarrow> None
      | Some s \<Rightarrow>
          (let ls = Split (TrimRightNewlines s) CHR 0x0A in
           if length ls = 1 \<and> ls ! 0 = [] then None
           else if length ls > buildLogTailLines then Some (True, drop (length ls - buildLogTailLines) ls)
           else Some (False, ls)))"

section \<open>The repository index\<close>

definition repo_dir :: "Project \<Rightarrow> BuildOptions \<Rightarrow> string build" where
  "repo_dir proj opts =
     (case RepoDistroDir proj (opProjectDir opts) (opEffectiveDistro opts) of
        None \<Rightarrow> throw ''RepoDistroDir: distro must not be empty''
      | Some d \<Rightarrow> ret d)"

definition refreshRepoIndex :: "build_oracle \<Rightarrow> Project \<Rightarrow> BuildOptions \<Rightarrow> unit build" where
  "refreshRepoIndex o' proj opts =
     bnd (repo_dir proj opts) (\<lambda>repoDir.
       let wrap = ''refresh '' @ opEffectiveDistro opts @ '' index: '' in
       if IsAptFamily (opEffectiveDistro opts) then
         (case CodenameForDistro proj (opEffectiveDistro opts) of
            Inl err \<Rightarrow> throw (wrap @ orCodenameText o' err)
          | Inr codename \<Rightarrow> act o' wrap (RefreshIndex (DebIndex repoDir codename DebRepoArches)))
       else act o' wrap (RefreshIndex (ApkIndexes repoDir)))"

section \<open>The sysroot\<close>

text \<open>
  The stage of a dependency is looked for under the target architecture; a stage that is not
  there is skipped, a hard-linked copy that fails is retried as a plain one.
\<close>

definition merge_stage :: "build_oracle \<Rightarrow> string \<Rightarrow> BuildOptions \<Rightarrow> name \<Rightarrow> unit build" where
  "merge_stage o' sysrootDir opts dep h =
     (case UnitBuildDir (opProjectDir opts) (opArch opts) dep (opEffectiveDistro opts) of
        None \<Rightarrow> throw ''UnitBuildDir: distro must not be empty (R14a)'' h
      | Some dir \<Rightarrow>
          (let stageDir = PathJoin [dir, ''sysroot-stage''] in
           if \<not> bwExists (orWorld o' h) stageDir then ret () h
           else (let h1 = h @ [CopyTree ''-al'' stageDir sysrootDir] in
                 if orErr o' h1 = None then (Inr (), h1)
                 else act o' (''merging sysroot from '' @ dep @ '': '') (CopyTree ''-a'' stageDir sysrootDir) h1)))"

definition AssembleSysroot :: "build_oracle \<Rightarrow> string \<Rightarrow> nodes \<Rightarrow> name \<Rightarrow> BuildOptions \<Rightarrow> unit build" where
  "AssembleSysroot o' sysrootDir ns unit opts =
     bnd (tell (ClearTree sysrootDir)) (\<lambda>_.
     bnd (act o' [] (MakeDir sysrootDir)) (\<lambda>_.
       each (merge_stage o' sysrootDir opts) (TransitiveDeps ns unit)))"

definition StageSysroot :: "build_oracle \<Rightarrow> string \<Rightarrow> string \<Rightarrow> unit build" where
  "StageSysroot o' destDir buildDir =
     (let stageDir = PathJoin [buildDir, ''sysroot-stage''] in
      bnd (tell (ClearTree stageDir)) (\<lambda>_.
      bnd (act o' [] (MakeDir stageDir)) (\<lambda>_ h.
        let h1 = h @ [CopyTree ''-al'' destDir stageDir] in
        if orErr o' h1 = None then (Inr (), h1) else act o' [] (CopyTree ''-a'' destDir stageDir) h1)))"

section \<open>The environment of the steps\<close>

text \<open>What a build is of, and the directories it works in.\<close>

record unit_build =
  ubProj :: Project
  ubNodes :: nodes
  ubUnit :: Unit
  ubOpts :: BuildOptions
  ubDir :: string

definition srcDir :: "unit_build \<Rightarrow> string" where
  "srcDir b = PathJoin [ubDir b, ''src'']"

definition destDir :: "unit_build \<Rightarrow> string" where
  "destDir b = PathJoin [ubDir b, ''destdir'']"

definition sysrootDir :: "unit_build \<Rightarrow> string" where
  "sysrootDir b = PathJoin [ubDir b, ''sysroot'']"

fun console_of :: "string list \<Rightarrow> string" where
  "console_of [] = []"
| "console_of (part # parts) =
     (if HasPrefix part ''console='' then
        (let c = TrimPrefix part ''console='' in
         case IndexByte c CHR '','' of None \<Rightarrow> c | Some i \<Rightarrow> if i > 0 then take i c else c)
      else console_of parts)"

definition build_console :: "unit_build \<Rightarrow> string" where
  "build_console b =
     (case map_of (pMachines (ubProj b)) (opMachine (ubOpts b)) of
        None \<Rightarrow> []
      | Some m \<Rightarrow> if kcCmdline (mKernel m) = [] then [] else console_of (Split (kcCmdline (mKernel m)) CHR '' ''))"

definition repoRelPath :: "Project \<Rightarrow> string \<Rightarrow> string" where
  "repoRelPath proj projectDir =
     (case Rel projectDir (RepoDir proj projectDir) of None \<Rightarrow> ''repo'' | Some rel \<Rightarrow> rel)"

definition base_env :: "build_oracle \<Rightarrow> unit_build \<Rightarrow> (string, string) gomap" where
  "base_env o' b =
     (let opts = ubOpts b; tuple = Multiarch (opArch opts);
          inc = ''-I/build/sysroot/usr/include -I/build/sysroot/usr/include/'' @ tuple in
      [(''PREFIX'', ''/usr''), (''DESTDIR'', ''/build/destdir''),
       (''NPROC'', case orNproc o' of None \<Rightarrow> ''1'' | Some out \<Rightarrow> TrimSpace out),
       (''ARCH'', opArch opts), (''MACHINE'', opMachine opts), (''DISTRO'', opEffectiveDistro opts),
       (''CONSOLE'', build_console b), (''HOME'', ''/tmp''),
       (''PATH'', ''/build/sysroot/usr/bin:/usr/local/sbin:/usr/local/bin:/usr/sbin:/usr/bin:/sbin:/bin''),
       (''PKG_CONFIG_PATH'', ''/build/sysroot/usr/lib/pkgconfig:/build/sysroot/usr/lib/'' @ tuple @
          ''/pkgconfig:/usr/lib/pkgconfig:/usr/lib/'' @ tuple @ ''/pkgconfig''),
       (''CFLAGS'', inc), (''CPPFLAGS'', inc),
       (''LDFLAGS'', ''-L/build/sysroot/usr/lib -L/build/sysroot/usr/lib/'' @ tuple @ '' -L/build/sysroot/lib/'' @ tuple),
       (''LD_LIBRARY_PATH'', ''/build/sysroot/usr/lib:/build/sysroot/usr/lib/'' @ tuple @ '':/build/sysroot/lib/'' @ tuple),
       (''PYTHONPATH'', ''/build/sysroot/usr/lib/python3.12/site-packages''),
       (''REPO'', PathJoin [''/project'', repoRelPath (ubProj b) (opProjectDir opts), opEffectiveDistro opts])])"

definition build_env :: "build_oracle \<Rightarrow> unit_build \<Rightarrow> CodenameError + (string, string) gomap" where
  "build_env o' b =
     (let opts = ubOpts b;
          keys = (\<lambda>env. case boKeyName opts of
                          None \<Rightarrow> env
                        | Some k \<Rightarrow> gm_put ''YOE_KEY_NAME'' k (gm_put ''YOE_KEYS_DIR''
                            (PathJoin [''/project'', repoRelPath (ubProj b) (opProjectDir opts), opEffectiveDistro opts, ''keys'']) env));
          own = (\<lambda>env. fold (\<lambda>(k, v) env. gm_put k v env) (uEnvironment (ubUnit b)) env)
      in if IsAptFamily (opEffectiveDistro opts) then
           (case CodenameForDistro (ubProj b) (opEffectiveDistro opts) of
              Inl err \<Rightarrow> Inl err
            | Inr codename \<Rightarrow> Inr (own (keys (gm_put ''CODENAME'' codename (base_env o' b)))))
         else Inr (own (keys (base_env o' b))))"

definition cache_host :: "unit_build \<Rightarrow> string \<Rightarrow> string" where
  "cache_host b subdir = PathJoin [opProjectDir (ubOpts b), ''cache'', subdir]"

definition cache_dirs :: "unit_build \<Rightarrow> (string, string) gomap" where
  "cache_dirs b = fold (\<lambda>(container, subdir) m. gm_put (cache_host b subdir) container m) (uCacheDirs (ubUnit b)) []"

definition build_context :: "unit_build \<Rightarrow> (string, goany) gomap" where
  "build_context b =
     BuildTemplateContext (ubUnit b) (opArch (ubOpts b)) (opMachine (ubOpts b)) (build_console b) (pName (ubProj b))
       (pVersion (ubProj b)) (opEffectiveDistro (ubOpts b)) (BaseVersionForDistro (ubProj b) (opEffectiveDistro (ubOpts b)))"

definition container_image :: "build_oracle \<Rightarrow> unit_build \<Rightarrow> string \<Rightarrow> string" where
  "container_image o' b ref =
     containerImageFor (cwUname (orHost o')) (ubProj b) (ubUnit b) ref (opArch (ubOpts b)) (opEffectiveDistro (ubOpts b))"

definition task_image :: "build_oracle \<Rightarrow> unit_build \<Rightarrow> Task \<Rightarrow> string" where
  "task_image o' b t =
     (if tContainer t \<noteq> [] then container_image o' b (tContainer t) else container_image o' b (uContainer (ubUnit b)))"

definition task_config :: "build_oracle \<Rightarrow> unit_build \<Rightarrow> (string, string) gomap \<Rightarrow> Task \<Rightarrow> SandboxConfig" where
  "task_config o' b env t =
     (let u = ubUnit b in
      \<lparr>sxArch = (if uContainerArch u = ''host'' then Host (cwUname (orHost o')) else opArch (ubOpts b)),
       sxContainer = task_image o' b t, sxSandbox = uSandbox u, sxShell = uShell u,
       sxSrcDir = srcDir b, sxDestDir = destDir b, sxSysroot = sysrootDir b, sxEnv = env,
       sxProjectDir = opProjectDir (ubOpts b), sxNoUser = False,
       sxHostDir = (if uClass u = ''container'' \<and> uDefinedIn u \<noteq> [] then uDefinedIn u else []),
       sxCacheDirs = cache_dirs b\<rparr>)"

section \<open>Tasks\<close>

definition host_env :: "unit_build \<Rightarrow> (string, string) gomap \<Rightarrow> (string, string) gomap" where
  "host_env b env =
     gm_put ''SYSROOT'' (sysrootDir b) (gm_put ''SRCDIR'' (srcDir b) (gm_put ''DESTDIR'' (destDir b) env))"

text \<open>The action of a step, if it has one, and the error it comes to.\<close>

definition step_action :: "build_oracle \<Rightarrow> unit_build \<Rightarrow> (string, string) gomap \<Rightarrow> Task \<Rightarrow> Step \<Rightarrow> build_action option" where
  "step_action o' b env t s =
     (case stInstall s of
        Some ins \<Rightarrow> Some (DoInstall ins (host_env b env))
      | None \<Rightarrow>
          if stCommand s \<noteq> [] then Some (RunCommand (RunInSandbox (orHost o') (task_config o' b env t) (stCommand s)))
          else (case stFn s of None \<Rightarrow> None | Some f \<Rightarrow> Some (CallFn f (task_config o' b env t))))"

definition action_error :: "build_oracle \<Rightarrow> unit_build \<Rightarrow> build_action list \<Rightarrow> build_action \<Rightarrow> string option" where
  "action_error o' b h a =
     (case a of
        DoInstall ins env \<Rightarrow>
          (case doInstallStep (orInstall o' h) (ubUnit b) ins (build_context b) env of
             Inl err \<Rightarrow> Some (orInstallText o' err) | Inr _ \<Rightarrow> None)
      | _ \<Rightarrow> orErr o' (h @ [a]))"

definition run_step :: "build_oracle \<Rightarrow> unit_build \<Rightarrow> (string, string) gomap \<Rightarrow> Task \<Rightarrow> Step \<Rightarrow> unit build" where
  "run_step o' b env t s h =
     (if orCancelled o' h then throw ''build cancelled'' h
      else case step_action o' b env t s of
        None \<Rightarrow> ret () h
      | Some a \<Rightarrow>
          (case action_error o' b h a of
             None \<Rightarrow> (Inr (), h @ [a])
           | Some err \<Rightarrow>
               (Inl ((case a of RunCommand _ \<Rightarrow> [] | _ \<Rightarrow> ''task '' @ tName t @ '': '') @ err),
                h @ [a, ReportFailure (tName t)])))"

definition unit_tasks :: "unit_build \<Rightarrow> Task list" where
  "unit_tasks b = filter (\<lambda>t. AppliesToDistro t (opEffectiveDistro (ubOpts b))) (uTasks (ubUnit b))"

definition run_task :: "build_oracle \<Rightarrow> unit_build \<Rightarrow> (string, string) gomap \<Rightarrow> nat \<times> Task \<Rightarrow> unit build" where
  "run_task o' b env it =
     (case it of (i, t) \<Rightarrow>
       bnd (tell (BeginTask (tName t) (Suc i) (length (unit_tasks b)))) (\<lambda>_. each (run_step o' b env t) (tSteps t)))"

definition run_tasks :: "build_oracle \<Rightarrow> unit_build \<Rightarrow> (string, string) gomap \<Rightarrow> unit build" where
  "run_tasks o' b env = each (run_task o' b env) (enumerate 0 (unit_tasks b))"

section \<open>Packages\<close>

definition pkgDir :: "unit_build \<Rightarrow> string" where
  "pkgDir b = PathJoin [ubDir b, ''pkg'']"

definition packageAPK :: "build_oracle \<Rightarrow> unit_build \<Rightarrow> unit build" where
  "packageAPK o' b =
     (let u = ubUnit b; archDir = RepoArchDir u (opArch (ubOpts b)); srcAPK = PathJoin [srcDir b, uPassthroughAPK u];
          publish = (\<lambda>archDir h. bnd (repo_dir (ubProj b) (ubOpts b))
            (\<lambda>repoDir. act o' ''publishing to repo: '' (PublishApk (orPath o' h) repoDir archDir)) h)
      in if uPassthroughAPK u \<noteq> [] then
           bnd (act o' ''repacking upstream apk: '' (RepackUpstream srcAPK (pkgDir b))) (\<lambda>_ h.
             publish (if orApkArch o' h srcAPK \<noteq> [] then orApkArch o' h srcAPK else archDir) h)
         else bnd (act o' ''creating apk: '' (CreatePackage (destDir b) (pkgDir b) archDir)) (\<lambda>_. publish archDir))"

definition deb_control :: "unit_build \<Rightarrow> Control" where
  "deb_control b =
     (let u = ubUnit b in
      zero_control\<lparr>ctPackage := uName u, ctVersion := uVersion u, ctArchitecture := Deb (opArch (ubOpts b)),
        ctMaintainer := ''Yoe <build@yoe.local>'', ctDescription := (if uDescription u = [] then uName u else uDescription u),
        ctDepends := Join (uRuntimeDeps u) '', '', ctProvides := debProvides (uProvides u) (uVersion u)\<rparr>)"

definition deb_path :: "unit_build \<Rightarrow> string" where
  "deb_path b =
     (let u = ubUnit b in
      PathJoin [pkgDir b, if uPassthroughDeb u \<noteq> [] then uPassthroughDeb u
                          else uName u @ ''_'' @ uVersion u @ ''_'' @ Deb (opArch (ubOpts b)) @ ''.deb''])"

definition make_deb :: "build_oracle \<Rightarrow> unit_build \<Rightarrow> unit build" where
  "make_deb o' b =
     (let u = ubUnit b; src = PathJoin [srcDir b, uPassthroughDeb u] in
      if uPassthroughDeb u \<noteq> [] then
        bnd (if uSHA256 u \<noteq> [] then act o' [] (VerifyDigest src (uSHA256 u)) else ret ()) (\<lambda>_.
          act o' ''copy passthrough deb: '' (CopyDeb src (deb_path b)))
      else
        bnd (act o' ''service symlinks: '' (LinkServices (destDir b) (uServices u))) (\<lambda>_.
        bnd (act o' [] (WriteConffiles (destDir b) (uConffiles u))) (\<lambda>_.
          act o' ''BuildDeb: '' (BuildDeb (destDir b) (deb_control b) (deb_path b)))))"

definition packageDeb :: "build_oracle \<Rightarrow> unit_build \<Rightarrow> unit build" where
  "packageDeb o' b =
     bnd (act o' ''mkdir pkg: '' (MakeDir (pkgDir b))) (\<lambda>_.
     bnd (make_deb o' b) (\<lambda>_.
       case CodenameForDistro (ubProj b) (opEffectiveDistro (ubOpts b)) of
         Inl err \<Rightarrow> throw (''packaging deb: '' @ orCodenameText o' err)
       | Inr codename \<Rightarrow>
           bnd (repo_dir (ubProj b) (ubOpts b)) (\<lambda>repoDir.
             act o' ''PublishDeb: '' (PublishDeb (deb_path b) repoDir codename))))"

text \<open>A stage that cannot be made is a warning.\<close>

definition stage_sysroot :: "build_oracle \<Rightarrow> unit_build \<Rightarrow> unit build" where
  "stage_sysroot o' b h =
     (case StageSysroot o' (destDir b) (ubDir b) h of (Inl _, h') \<Rightarrow> (Inr (), h' @ [WarnStaging]) | (Inr x, h') \<Rightarrow> (Inr x, h'))"

definition produces_package :: "unit_build \<Rightarrow> bool" where
  "produces_package b \<longleftrightarrow> uClass (ubUnit b) \<noteq> ''image'' \<and> uClass (ubUnit b) \<noteq> ''container''"

definition package_output :: "build_oracle \<Rightarrow> unit_build \<Rightarrow> unit build" where
  "package_output o' b =
     (if produces_package b then
        bnd (if IsAptFamily (opEffectiveDistro (ubOpts b)) then wrapping ((@) ''packaging deb: '') (packageDeb o' b)
             else packageAPK o' b) (\<lambda>_. stage_sysroot o' b)
      else ret ())"

section \<open>The build\<close>

text \<open>
  The record of the earlier build is read before the source is prepared, from the record that
  the build itself has just written.
\<close>

definition prepare_source :: "build_oracle \<Rightarrow> unit_build \<Rightarrow> unit build" where
  "prepare_source o' b h =
     (if uSource (ubUnit b) = [] then tell (MakeDir (srcDir b)) h
      else act o' ''preparing source: '' (PrepareSource (srcDir b)
             (case bwMeta (orWorld o' h) (ubDir b) of None \<Rightarrow> [] | Some meta \<Rightarrow> bmSourceState meta)) h)"

definition prepare_dirs :: "build_oracle \<Rightarrow> unit_build \<Rightarrow> unit build" where
  "prepare_dirs o' b =
     (let img = container_image o' b (uContainer (ubUnit b)) in
      bnd (act o' ''creating output log: '' (CreateLog (PathJoin [ubDir b, ''executor.log'']))) (\<lambda>_.
      bnd (act o' ''creating build log: '' (CreateLog (PathJoin [ubDir b, ''build.log'']))) (\<lambda>_.
      bnd (if opClean (ubOpts b) then act o' ''removing srcdir: '' (RemoveTree (srcDir b) img) else ret ()) (\<lambda>_.
      bnd (act o' ''removing destdir: '' (RemoveTree (destDir b) img)) (\<lambda>_.
      bnd (act o' ''creating destdir: '' (MakeDir (destDir b))) (\<lambda>_.
        prepare_source o' b))))))"

definition prepare_env :: "build_oracle \<Rightarrow> unit_build \<Rightarrow> (string, string) gomap build" where
  "prepare_env o' b =
     bnd (wrapping ((@) ''assembling sysroot: '') (AssembleSysroot o' (sysrootDir b) (ubNodes b) (uName (ubUnit b)) (ubOpts b))) (\<lambda>_.
       case build_env o' b of
         Inl err \<Rightarrow> throw (''resolving '' @ opEffectiveDistro (ubOpts b) @ '' release: '' @ orCodenameText o' err)
       | Inr env \<Rightarrow>
           bnd (each (\<lambda>(_, subdir). tell (MakeDir (cache_host b subdir))) (uCacheDirs (ubUnit b))) (\<lambda>_.
           bnd (if uClass (ubUnit b) = ''image'' then refreshRepoIndex o' (ubProj b) (ubOpts b) else ret ()) (\<lambda>_.
             ret env)))"

definition nothing_to_do :: "unit_build \<Rightarrow> bool" where
  "nothing_to_do b \<longleftrightarrow> uTasks (ubUnit b) = [] \<and> uServices (ubUnit b) = []"

definition build_body :: "build_oracle \<Rightarrow> unit_build \<Rightarrow> unit build" where
  "build_body o' b =
     bnd (prepare_dirs o' b) (\<lambda>_.
       if nothing_to_do b then ret ()
       else bnd (prepare_env o' b) (\<lambda>env. bnd (run_tasks o' b env) (\<lambda>_. package_output o' b)))"

text \<open>
  The whole build: the record is written before and, whatever happens, after. An empty distro is
  the panic of \<^verbatim>\<open>UnitBuildDir\<close>.
\<close>

definition the_build :: "Project \<Rightarrow> nodes \<Rightarrow> Unit \<Rightarrow> BuildOptions \<Rightarrow> unit_build option" where
  "the_build proj ns u opts =
     (case UnitBuildDir (opProjectDir opts) (ScopeDir u (opArch opts) (opMachine opts)) (uName u) (opEffectiveDistro opts) of
        None \<Rightarrow> None
      | Some dir \<Rightarrow> Some \<lparr>ubProj = proj, ubNodes = ns, ubUnit = u, ubOpts = opts, ubDir = dir\<rparr>)"

definition first_record :: "build_oracle \<Rightarrow> unit_build \<Rightarrow> string \<Rightarrow> BuildMeta" where
  "first_record o' b hash = initBuildMeta (orWorld o' [MakeDir (ubDir b)]) (ubDir b) hash"

definition last_record :: "build_oracle \<Rightarrow> unit_build \<Rightarrow> string \<Rightarrow> string + unit \<Rightarrow> build_action list \<Rightarrow> BuildMeta" where
  "last_record o' b hash r h =
     finishBuildMeta (orWorld o' h) (ubDir b) (first_record o' b hash) (orCancelled o' h)
       (case r of Inl e \<Rightarrow> Some e | Inr _ \<Rightarrow> None)"

definition buildOne ::
  "build_oracle \<Rightarrow> Project \<Rightarrow> nodes \<Rightarrow> Unit \<Rightarrow> string \<Rightarrow> BuildOptions \<Rightarrow> (string option \<times> build_action list) option" where
  "buildOne o' proj ns u hash opts =
     (case the_build proj ns u opts of
        None \<Rightarrow> None
      | Some b \<Rightarrow>
          (case build_body o' b [MakeDir (ubDir b), WriteMeta (ubDir b) (first_record o' b hash)] of
             (r, h) \<Rightarrow> Some ((case r of Inl e \<Rightarrow> Some e | Inr _ \<Rightarrow> None),
                             h @ [WriteMeta (ubDir b) (last_record o' b hash r h)])))"

section \<open>What a build does, in which order\<close>

fun is_step :: "build_action \<Rightarrow> bool" where
  "is_step (DoInstall _ _) = True"
| "is_step (RunCommand _) = True"
| "is_step (CallFn _ _) = True"
| "is_step _ = False"

fun is_publish :: "build_action \<Rightarrow> bool" where
  "is_publish (PublishApk _ _ _) = True"
| "is_publish (PublishDeb _ _ _) = True"
| "is_publish _ = False"

fun is_record :: "build_action \<Rightarrow> bool" where
  "is_record (WriteMeta _ _) = True"
| "is_record _ = False"

text \<open>The steps a unit is to run, and that the steps of a history came to no error.\<close>

definition planned_steps :: "build_oracle \<Rightarrow> unit_build \<Rightarrow> (string, string) gomap \<Rightarrow> build_action list" where
  "planned_steps o' b env =
     concat (map (\<lambda>t. concat (map (\<lambda>s. case step_action o' b env t s of None \<Rightarrow> [] | Some a \<Rightarrow> [a]) (tSteps t))) (unit_tasks b))"

fun ok_steps :: "build_oracle \<Rightarrow> unit_build \<Rightarrow> build_action list \<Rightarrow> build_action list \<Rightarrow> bool" where
  "ok_steps o' b h [] = True"
| "ok_steps o' b h (a # xs) = ((is_step a \<longrightarrow> action_error o' b h a = None) \<and> ok_steps o' b (h @ [a]) xs)"

lemma ok_steps_append: "ok_steps o' b h (xs @ ys) \<longleftrightarrow> ok_steps o' b h xs \<and> ok_steps o' b (h @ xs) ys"
  by (induction xs arbitrary: h) simp_all

lemma ok_steps_none: "list_all (\<lambda>a. \<not> is_step a) xs \<Longrightarrow> ok_steps o' b h xs"
  by (induction xs arbitrary: h) simp_all

lemma only_act [only_rules]: "P a \<Longrightarrow> only P (act o' w a)"
  unfolding act_def by (rule only_attempt)

lemma only_repo_dir [only_rules]: "only P (repo_dir proj opts)"
  by (auto simp: repo_dir_def only_rules split: option.split)

lemma only_copy:
  assumes "P (CopyTree ''-al'' a b)" and "P (CopyTree ''-a'' a b)"
  shows "only P (\<lambda>h. let h1 = h @ [CopyTree ''-al'' a b] in
           if orErr o' h1 = None then (Inr (), h1) else act o' w (CopyTree ''-a'' a b) h1)"
  using assms by (auto simp: only_def act_def attempt_def Let_def split: option.split)


text \<open>The preparation and the packages run no step; the preparation publishes nothing.\<close>

definition quiet :: "build_action \<Rightarrow> bool" where
  "quiet a \<longleftrightarrow> \<not> is_step a \<and> \<not> is_publish a \<and> \<not> is_record a"

lemma quiet_simps [simp]:
  "quiet (MakeDir d)" "quiet (CreateLog d)" "quiet (RemoveTree d i)" "quiet (PrepareSource d s)" "quiet (ClearTree d)"
  "quiet (CopyTree m d d')" "quiet (RefreshIndex r)" "quiet (BeginTask n j k)" "quiet (RepackUpstream p d)"
  "quiet (CreatePackage p q s)" "quiet (VerifyDigest p d)" "quiet (CopyDeb p d)" "quiet (LinkServices d ns)"
  "quiet (WriteConffiles d cs)" "quiet (BuildDeb d c p)" "quiet WarnStaging" "quiet (ReportFailure n)"
  by (simp_all add: quiet_def)

lemma quiet_merge_stage: "only quiet (merge_stage o' s opts dep)"
  by (auto simp: only_def merge_stage_def act_def attempt_def throw_def ret_def Let_def split: option.split)

lemma quiet_prepare_source: "only quiet (prepare_source o' b)"
  by (auto simp: only_def prepare_source_def act_def attempt_def tell_def split: option.split)

lemma quiet_refresh: "only quiet (refreshRepoIndex o' proj opts)"
  unfolding refreshRepoIndex_def Let_def by (intro only_rules) simp_all

lemma quiet_prepare_dirs: "only quiet (prepare_dirs o' b)"
  unfolding prepare_dirs_def Let_def by (intro only_rules quiet_prepare_source) simp_all

lemma quiet_prepare_env: "only quiet (prepare_env o' b)"
  unfolding prepare_env_def AssembleSysroot_def
  by (intro only_rules quiet_merge_stage quiet_refresh) (auto intro: only_rules)

text \<open>
  Computations that end with one publication: when they succeed there is exactly one, when they
  fail there is at most one, the last action. Staging comes after it and is quiet.
\<close>

definition publishes :: "unit build \<Rightarrow> bool" where
  "publishes m \<longleftrightarrow>
     (\<forall>h. \<exists>xs. snd (m h) = h @ xs \<and> list_all (\<lambda>a. \<not> is_step a \<and> \<not> is_record a) xs \<and>
        length (filter is_publish xs) \<le> 1 \<and> (fst (m h) = Inr () \<longrightarrow> length (filter is_publish xs) = 1))"

lemma publishesE:
  assumes "publishes m"
  obtains xs where "snd (m h) = h @ xs" "list_all (\<lambda>a. \<not> is_step a \<and> \<not> is_record a) xs"
    "length (filter is_publish xs) \<le> 1" "fst (m h) = Inr () \<longrightarrow> length (filter is_publish xs) = 1"
  using assms unfolding publishes_def by blast

lemma quiet_filter: "list_all quiet xs \<Longrightarrow> filter is_publish xs = [] \<and> filter is_step xs = [] \<and>
    list_all (\<lambda>a. \<not> is_step a \<and> \<not> is_record a) xs"
  by (induction xs) (auto simp: quiet_def)

lemma publishes_act: "is_publish a \<Longrightarrow> publishes (act o' w a)"
  by (cases a) (auto simp: publishes_def act_def attempt_def split: option.split)

lemma publishes_throw: "publishes (throw e)"
  by (simp add: publishes_def throw_def)

lemma publishes_bnd:
  assumes "only quiet m" and "\<And>x. publishes (f x)"
  shows "publishes (bnd m f)"
  unfolding publishes_def
proof
  fix h
  obtain xs where xs: "snd (m h) = h @ xs" "list_all quiet xs" using assms(1) by (rule onlyE)
  note q = quiet_filter [OF xs(2)]
  show "\<exists>xs. snd (bnd m f h) = h @ xs \<and> list_all (\<lambda>a. \<not> is_step a \<and> \<not> is_record a) xs \<and>
      length (filter is_publish xs) \<le> 1 \<and> (fst (bnd m f h) = Inr () \<longrightarrow> length (filter is_publish xs) = 1)"
  proof (cases "fst (m h)")
    case (Inl e)
    with xs q show ?thesis by (intro exI [of _ xs]) (auto simp: bnd_def split: prod.split)
  next
    case (Inr x)
    obtain ys where "snd (f x (h @ xs)) = (h @ xs) @ ys" "list_all (\<lambda>a. \<not> is_step a \<and> \<not> is_record a) ys"
      "length (filter is_publish ys) \<le> 1" "fst (f x (h @ xs)) = Inr () \<longrightarrow> length (filter is_publish ys) = 1"
      using assms(2) by (rule publishesE)
    with Inr xs q show ?thesis by (intro exI [of _ "xs @ ys"]) (auto simp: bnd_def split: prod.split)
  qed
qed

lemma publishes_then:
  assumes "publishes m" and "only quiet n" and "\<And>h. fst (n h) = Inr ()"
  shows "publishes (bnd m (\<lambda>_. n))"
  unfolding publishes_def
proof
  fix h
  obtain xs where xs: "snd (m h) = h @ xs" "list_all (\<lambda>a. \<not> is_step a \<and> \<not> is_record a) xs"
    "length (filter is_publish xs) \<le> 1" "fst (m h) = Inr () \<longrightarrow> length (filter is_publish xs) = 1"
    using assms(1) by (rule publishesE)
  obtain ys where ys: "snd (n (h @ xs)) = (h @ xs) @ ys" "list_all quiet ys" using assms(2) by (rule onlyE)
  note q = quiet_filter [OF ys(2)]
  show "\<exists>xs. snd (bnd m (\<lambda>_. n) h) = h @ xs \<and> list_all (\<lambda>a. \<not> is_step a \<and> \<not> is_record a) xs \<and>
      length (filter is_publish xs) \<le> 1 \<and> (fst (bnd m (\<lambda>_. n) h) = Inr () \<longrightarrow> length (filter is_publish xs) = 1)"
  proof (cases "fst (m h)")
    case (Inl e)
    with xs show ?thesis by (intro exI [of _ xs]) (auto simp: bnd_def split: prod.split)
  next
    case (Inr x)
    with xs ys q show ?thesis by (intro exI [of _ "xs @ ys"]) (auto simp: bnd_def split: prod.split)
  qed
qed

lemma publishes_case_sum:
  "(\<And>e. publishes (f e)) \<Longrightarrow> (\<And>x. publishes (g x)) \<Longrightarrow> publishes (case s of Inl e \<Rightarrow> f e | Inr x \<Rightarrow> g x)"
  by (cases s) simp_all

lemma publishes_wrapping: "publishes m \<Longrightarrow> publishes (wrapping w m)"
  by (simp add: publishes_def fst_wrapping)

lemma publishes_self: "(\<And>k. publishes (F k)) \<Longrightarrow> publishes (\<lambda>h. F h h)"
  unfolding publishes_def by blast

lemma quiet_make_deb: "only quiet (make_deb o' b)"
  unfolding make_deb_def Let_def by (intro only_rules) simp_all

lemma publishes_packageDeb: "publishes (packageDeb o' b)"
  unfolding packageDeb_def
  by (intro publishes_bnd publishes_case_sum publishes_throw publishes_act only_act only_repo_dir quiet_make_deb) simp_all

lemma publishes_to_repo:
  "publishes (\<lambda>h. bnd (repo_dir proj opts) (\<lambda>repoDir. act o' w (PublishApk (orPath o' h) repoDir (g h))) h)"
  by (rule publishes_self [of "\<lambda>k. bnd (repo_dir proj opts) (\<lambda>repoDir. act o' w (PublishApk (orPath o' k) repoDir (g k)))"])
    (simp add: publishes_bnd publishes_act only_repo_dir)

lemma publishes_packageAPK: "publishes (packageAPK o' b)"
proof (cases "uPassthroughAPK (ubUnit b) = []")
  case True
  then show ?thesis unfolding packageAPK_def Let_def
    by (simp add: publishes_bnd only_act publishes_to_repo)
next
  case False
  then show ?thesis unfolding packageAPK_def Let_def
    by (simp add: publishes_bnd only_act publishes_to_repo)
qed

lemma quiet_stage: "only quiet (stage_sysroot o' b)"
proof -
  have "only quiet (StageSysroot o' d e)" for d e
    unfolding StageSysroot_def Let_def by (intro only_rules only_copy [unfolded Let_def]) simp_all
  then have *: "only quiet (StageSysroot o' (destDir b) (ubDir b))" .
  show ?thesis
    unfolding only_def
  proof
    fix h
    obtain xs where "snd (StageSysroot o' (destDir b) (ubDir b) h) = h @ xs" "list_all quiet xs" using * by (rule onlyE)
    then show "\<exists>xs. snd (stage_sysroot o' b h) = h @ xs \<and> list_all quiet xs"
      by (cases "StageSysroot o' (destDir b) (ubDir b) h"; cases "fst (StageSysroot o' (destDir b) (ubDir b) h)")
        (auto simp: stage_sysroot_def)
  qed
qed

lemma package_output_spec:
  "\<exists>xs. snd (package_output o' b h) = h @ xs \<and> list_all (\<lambda>a. \<not> is_step a \<and> \<not> is_record a) xs \<and>
     length (filter is_publish xs) \<le> 1 \<and> (filter is_publish xs \<noteq> [] \<longrightarrow> produces_package b) \<and>
     (fst (package_output o' b h) = Inr () \<and> produces_package b \<longrightarrow> length (filter is_publish xs) = 1)"
proof (cases "produces_package b")
  case True
  have "publishes (package_output o' b)"
    unfolding package_output_def if_P [OF True]
    by (rule publishes_then [OF _ quiet_stage])
      (auto simp: publishes_wrapping publishes_packageDeb publishes_packageAPK stage_sysroot_def split: prod.split sum.split)
  with True show ?thesis unfolding publishes_def by blast
next
  case False
  then show ?thesis by (simp add: package_output_def ret_def)
qed

text \<open>Computations that run a list of steps in order, stopping at the first error.\<close>

definition runs_steps :: "build_oracle \<Rightarrow> unit_build \<Rightarrow> unit build \<Rightarrow> build_action list \<Rightarrow> bool" where
  "runs_steps o' b m ss \<longleftrightarrow>
     (\<forall>h. \<exists>xs. snd (m h) = h @ xs \<and> list_all (\<lambda>a. \<not> is_publish a \<and> \<not> is_record a) xs \<and>
        prefix (filter is_step xs) ss \<and>
        (fst (m h) = Inr () \<longrightarrow> filter is_step xs = ss \<and> ok_steps o' b h xs))"

lemma runs_stepsE:
  assumes "runs_steps o' b m ss"
  obtains xs where "snd (m h) = h @ xs" "list_all (\<lambda>a. \<not> is_publish a \<and> \<not> is_record a) xs"
    "prefix (filter is_step xs) ss" "fst (m h) = Inr () \<longrightarrow> filter is_step xs = ss \<and> ok_steps o' b h xs"
  using assms unfolding runs_steps_def by blast

lemma runs_steps_ret: "runs_steps o' b (ret ()) []"
  by (simp add: runs_steps_def ret_def)

lemma runs_steps_tell: "quiet a \<Longrightarrow> runs_steps o' b (tell a) []"
  by (simp add: runs_steps_def tell_def quiet_def)

lemma runs_steps_bnd:
  assumes "runs_steps o' b m ss" and "runs_steps o' b n ts"
  shows "runs_steps o' b (bnd m (\<lambda>_. n)) (ss @ ts)"
  unfolding runs_steps_def
proof
  fix h
  obtain xs where xs: "snd (m h) = h @ xs" "list_all (\<lambda>a. \<not> is_publish a \<and> \<not> is_record a) xs"
    "prefix (filter is_step xs) ss" "fst (m h) = Inr () \<longrightarrow> filter is_step xs = ss \<and> ok_steps o' b h xs"
    using assms(1) by (rule runs_stepsE)
  obtain ys where ys: "snd (n (h @ xs)) = (h @ xs) @ ys" "list_all (\<lambda>a. \<not> is_publish a \<and> \<not> is_record a) ys"
    "prefix (filter is_step ys) ts" "fst (n (h @ xs)) = Inr () \<longrightarrow> filter is_step ys = ts \<and> ok_steps o' b (h @ xs) ys"
    using assms(2) by (rule runs_stepsE)
  let ?r = "bnd m (\<lambda>_. n) h"
  show "\<exists>xs. snd ?r = h @ xs \<and> list_all (\<lambda>a. \<not> is_publish a \<and> \<not> is_record a) xs \<and> prefix (filter is_step xs) (ss @ ts) \<and>
      (fst ?r = Inr () \<longrightarrow> filter is_step xs = ss @ ts \<and> ok_steps o' b h xs)"
  proof (cases "fst (m h)")
    case (Inl e)
    with xs show ?thesis by (intro exI [of _ xs]) (auto simp: bnd_def prefix_append split: prod.split)
  next
    case (Inr x)
    with xs ys show ?thesis
      by (intro exI [of _ "xs @ ys"]) (auto simp: bnd_def ok_steps_append split: prod.split)
  qed
qed

lemma runs_steps_each:
  "(\<And>x. x \<in> set xs \<Longrightarrow> runs_steps o' b (f x) (g x)) \<Longrightarrow> runs_steps o' b (each f xs) (concat (map g xs))"
  by (induction xs) (simp_all add: runs_steps_ret runs_steps_bnd)

lemma step_action_is_step: "step_action o' b env t s = Some a \<Longrightarrow> is_step a \<and> \<not> is_publish a \<and> \<not> is_record a"
  by (auto simp: step_action_def split: option.splits if_splits)

lemma runs_steps_run_step:
  "runs_steps o' b (run_step o' b env t s) (case step_action o' b env t s of None \<Rightarrow> [] | Some a \<Rightarrow> [a])"
  unfolding runs_steps_def run_step_def
  by (auto simp: throw_def ret_def dest!: step_action_is_step split: option.splits)

lemma runs_steps_run_tasks: "runs_steps o' b (run_tasks o' b env) (planned_steps o' b env)"
proof -
  let ?g = "\<lambda>t. concat (map (\<lambda>s. case step_action o' b env t s of None \<Rightarrow> [] | Some a \<Rightarrow> [a]) (tSteps t))"
  have task: "runs_steps o' b (run_task o' b env it) (?g (snd it))" for it
  proof -
    have "runs_steps o' b (each (run_step o' b env (snd it)) (tSteps (snd it))) (?g (snd it))"
      by (rule runs_steps_each) (rule runs_steps_run_step)
    from runs_steps_bnd [OF runs_steps_tell [of "BeginTask (tName (snd it)) (Suc (fst it)) (length (unit_tasks b))"] this]
    show ?thesis by (cases it) (simp add: run_task_def)
  qed
  have "runs_steps o' b (run_tasks o' b env) (concat (map (\<lambda>it. ?g (snd it)) (enumerate 0 (unit_tasks b))))"
    unfolding run_tasks_def by (rule runs_steps_each) (rule task)
  moreover have "map (\<lambda>it. ?g (snd it)) (enumerate 0 (unit_tasks b)) = map ?g (unit_tasks b)"
    using map_map [of ?g snd "enumerate 0 (unit_tasks b)", symmetric] by (simp only: map_snd_enumerate comp_def)
  ultimately show ?thesis by (simp add: planned_steps_def)
qed

lemma prepare_env_result: "fst (prepare_env o' b h) = Inr env \<Longrightarrow> build_env o' b = Inr env"
  unfolding prepare_env_def
  by (elim bnd_result; cases "build_env o' b"; simp add: throw_def; elim bnd_result; simp add: ret_def)

text \<open>The steps of a history are the unit's, all of them, in order, and came to no error.\<close>

definition all_steps_ok :: "build_oracle \<Rightarrow> unit_build \<Rightarrow> build_action list \<Rightarrow> build_action list \<Rightarrow> bool" where
  "all_steps_ok o' b h xs \<longleftrightarrow>
     (\<exists>env. build_env o' b = Inr env \<and> filter is_step xs = planned_steps o' b env \<and> ok_steps o' b h xs)"

lemma body_after_env:
  assumes env: "build_env o' b = Inr env"
  shows "\<exists>xs. snd (bnd (run_tasks o' b env) (\<lambda>_. package_output o' b) h) = h @ xs \<and> list_all (\<lambda>a. \<not> is_record a) xs \<and>
     length (filter is_publish xs) \<le> 1 \<and>
     (filter is_publish xs \<noteq> [] \<longrightarrow> produces_package b \<and> all_steps_ok o' b h xs) \<and>
     (fst (bnd (run_tasks o' b env) (\<lambda>_. package_output o' b) h) = Inr () \<longrightarrow>
        all_steps_ok o' b h xs \<and> (produces_package b \<longrightarrow> length (filter is_publish xs) = 1))"
proof -
  obtain xs where xs: "snd (run_tasks o' b env h) = h @ xs" "list_all (\<lambda>a. \<not> is_publish a \<and> \<not> is_record a) xs"
    "fst (run_tasks o' b env h) = Inr () \<longrightarrow> filter is_step xs = planned_steps o' b env \<and> ok_steps o' b h xs"
    using runs_steps_run_tasks [of o' b env] unfolding runs_steps_def by blast
  obtain ys where ys: "snd (package_output o' b (h @ xs)) = (h @ xs) @ ys" "list_all (\<lambda>a. \<not> is_step a \<and> \<not> is_record a) ys"
     "length (filter is_publish ys) \<le> 1" "filter is_publish ys \<noteq> [] \<longrightarrow> produces_package b"
     "fst (package_output o' b (h @ xs)) = Inr () \<and> produces_package b \<longrightarrow> length (filter is_publish ys) = 1"
    using package_output_spec [of o' b "h @ xs"] by blast
  have nopub: "filter is_publish xs = []" "list_all (\<lambda>a. \<not> is_record a) xs"
    using xs(2) by (auto simp: list_all_iff filter_empty_conv)
  have nostep: "filter is_step ys = []" "list_all (\<lambda>a. \<not> is_step a) ys" "list_all (\<lambda>a. \<not> is_record a) ys"
    using ys(2) by (auto simp: list_all_iff filter_empty_conv)
  show ?thesis
  proof (cases "fst (run_tasks o' b env h)")
    case (Inl e)
    with xs nopub show ?thesis by (intro exI [of _ xs]) (auto simp: bnd_def split: prod.split)
  next
    case (Inr u)
    with xs have ok: "filter is_step xs = planned_steps o' b env" "ok_steps o' b h xs" by simp_all
    have "all_steps_ok o' b h (xs @ ys)"
      unfolding all_steps_ok_def using env ok nostep by (auto simp: ok_steps_append ok_steps_none)
    with Inr xs ys nopub nostep show ?thesis
      by (intro exI [of _ "xs @ ys"]) (auto simp: bnd_def split: prod.split)
  qed
qed

lemma all_steps_ok_quiet:
  assumes "list_all quiet qs" and "all_steps_ok o' b (h @ qs) xs"
  shows "all_steps_ok o' b h (qs @ xs)"
proof -
  have "ok_steps o' b h qs" using assms(1) by (intro ok_steps_none) (auto simp: list_all_iff quiet_def)
  with assms quiet_filter [OF assms(1)] show ?thesis by (auto simp: all_steps_ok_def ok_steps_append)
qed

lemma build_body_spec:
  "\<exists>xs. snd (build_body o' b h) = h @ xs \<and> list_all (\<lambda>a. \<not> is_record a) xs \<and>
     length (filter is_publish xs) \<le> 1 \<and>
     (filter is_publish xs \<noteq> [] \<longrightarrow> produces_package b \<and> all_steps_ok o' b h xs) \<and>
     (fst (build_body o' b h) = Inr () \<and> \<not> nothing_to_do b \<longrightarrow>
        all_steps_ok o' b h xs \<and> (produces_package b \<longrightarrow> length (filter is_publish xs) = 1))"
    (is "\<exists>xs. ?P xs")
proof -
  have rec: "list_all (\<lambda>a. \<not> is_record a) qs" if "list_all quiet qs" for qs
    using that by (auto simp: list_all_iff quiet_def)
  obtain ds where ds: "snd (prepare_dirs o' b h) = h @ ds" "list_all quiet ds" using quiet_prepare_dirs by (rule onlyE)
  note qd = quiet_filter [OF ds(2)] rec [OF ds(2)]
  show ?thesis
  proof (cases "(\<exists>e. fst (prepare_dirs o' b h) = Inl e) \<or> nothing_to_do b")
    case True
    have "snd (build_body o' b h) = h @ ds \<and> (fst (build_body o' b h) = Inr () \<longrightarrow> nothing_to_do b)"
      using True ds by (auto simp: build_body_def bnd_def ret_def split: prod.split sum.split)
    with qd show ?thesis by (intro exI [of _ ds]) auto
  next
    case False
    then have dirs: "fst (prepare_dirs o' b h) = Inr ()" by (cases "fst (prepare_dirs o' b h)") auto
    obtain es where es: "snd (prepare_env o' b (h @ ds)) = (h @ ds) @ es" "list_all quiet es"
      using quiet_prepare_env by (rule onlyE)
    note qe = quiet_filter [OF es(2)] rec [OF es(2)]
    have q: "list_all quiet (ds @ es)" using ds es by simp
    show ?thesis
    proof (cases "fst (prepare_env o' b (h @ ds))")
      case (Inl e)
      then have "snd (build_body o' b h) = h @ ds @ es" "fst (build_body o' b h) = Inl e"
        using False dirs ds es by (auto simp: build_body_def bnd_def ret_def split: prod.split)
      with qd qe show ?thesis by (intro exI [of _ "ds @ es"]) auto
    next
      case (Inr env)
      then have env: "build_env o' b = Inr env" by (rule prepare_env_result)
      have body: "build_body o' b h = bnd (run_tasks o' b env) (\<lambda>_. package_output o' b) (h @ ds @ es)"
        using Inr False dirs ds es unfolding build_body_def
        by (cases "prepare_dirs o' b h"; cases "prepare_env o' b (h @ ds)") (simp add: bnd_def)
      obtain xs where xs: "snd (build_body o' b h) = (h @ ds @ es) @ xs" "list_all (\<lambda>a. \<not> is_record a) xs"
         "length (filter is_publish xs) \<le> 1"
         "filter is_publish xs \<noteq> [] \<longrightarrow> produces_package b \<and> all_steps_ok o' b (h @ ds @ es) xs"
         "fst (build_body o' b h) = Inr () \<longrightarrow>
            all_steps_ok o' b (h @ ds @ es) xs \<and> (produces_package b \<longrightarrow> length (filter is_publish xs) = 1)"
        using body_after_env [OF env, of "h @ ds @ es"] unfolding body [symmetric] by blast
      have "all_steps_ok o' b (h @ ds @ es) xs \<longrightarrow> all_steps_ok o' b h ((ds @ es) @ xs)"
        using all_steps_ok_quiet [OF q] by simp
      with xs qd qe show ?thesis by (intro exI [of _ "(ds @ es) @ xs"]) auto
    qed
  qed
qed

lemma initBuildMeta_fields: "bmStatus (initBuildMeta w d hash) = ''building''" "bmHash (initBuildMeta w d hash) = hash"
  by (simp_all add: initBuildMeta_def Let_def split: option.split)

lemma finishBuildMeta_fields:
  "bmStatus (finishBuildMeta w d m c e) = (if c then ''cancelled'' else if e = None then ''complete'' else ''failed'')"
  "bmHash (finishBuildMeta w d m c e) = bmHash m"
  "\<not> c \<Longrightarrow> e = Some t \<Longrightarrow> bmError (finishBuildMeta w d m c e) = t"
  by (simp_all add: finishBuildMeta_def Let_def split: option.split)

lemma buildOne_body:
  assumes "the_build proj ns u opts = Some b" and "buildOne o' proj ns u hash opts = Some (err, h)"
  obtains mid r where "h = [MakeDir (ubDir b), WriteMeta (ubDir b) (first_record o' b hash)] @ mid @
        [WriteMeta (ubDir b) (last_record o' b hash r (butlast h))]"
    and "err = (case r of Inl e \<Rightarrow> Some e | Inr _ \<Rightarrow> None)"
    and "list_all (\<lambda>a. \<not> is_record a) mid" and "length (filter is_publish mid) \<le> 1"
    and "filter is_publish mid \<noteq> [] \<longrightarrow> produces_package b \<and>
         all_steps_ok o' b [MakeDir (ubDir b), WriteMeta (ubDir b) (first_record o' b hash)] mid"
    and "r = Inr () \<and> \<not> nothing_to_do b \<longrightarrow>
         all_steps_ok o' b [MakeDir (ubDir b), WriteMeta (ubDir b) (first_record o' b hash)] mid \<and>
         (produces_package b \<longrightarrow> length (filter is_publish mid) = 1)"
proof -
  let ?h0 = "[MakeDir (ubDir b), WriteMeta (ubDir b) (first_record o' b hash)]"
  obtain r h1 where body: "build_body o' b ?h0 = (r, h1)" by fastforce
  from assms body have err: "err = (case r of Inl e \<Rightarrow> Some e | Inr _ \<Rightarrow> None)"
    and h: "h = h1 @ [WriteMeta (ubDir b) (last_record o' b hash r h1)]"
    by (auto simp: buildOne_def)
  from build_body_spec [of o' b ?h0] body obtain mid where "h1 = ?h0 @ mid" "list_all (\<lambda>a. \<not> is_record a) mid"
     "length (filter is_publish mid) \<le> 1"
     "filter is_publish mid \<noteq> [] \<longrightarrow> produces_package b \<and> all_steps_ok o' b ?h0 mid"
     "r = Inr () \<and> \<not> nothing_to_do b \<longrightarrow>
        all_steps_ok o' b ?h0 mid \<and> (produces_package b \<longrightarrow> length (filter is_publish mid) = 1)" by auto
  with h err show thesis by (intro that [of mid r]) simp_all
qed

lemma all_steps_ok_frame:
  assumes "all_steps_ok o' b hs mid" and "list_all (\<lambda>a. \<not> is_step a) hs" and "\<not> is_step a"
  shows "all_steps_ok o' b [] (hs @ mid @ [a])"
proof -
  have "filter is_step hs = []" "ok_steps o' b [] hs"
    using assms(2) by (auto simp: list_all_iff filter_empty_conv intro: ok_steps_none)
  with assms(1,3) show ?thesis by (auto simp: all_steps_ok_def ok_steps_append)
qed


text \<open>
  C18. The record of a build is written twice: before anything else as being built, and as the
  very last action, whatever the build came to. The last record has the hash of the build, is
  complete exactly for a build that was not cancelled and ended without error, and carries the
  error of a build that failed.
\<close>

theorem buildOne_record:
  assumes "the_build proj ns u opts = Some b" and "buildOne o' proj ns u hash opts = Some (err, h)"
  shows "\<exists>first mid final. h = [MakeDir (ubDir b), WriteMeta (ubDir b) first] @ mid @ [WriteMeta (ubDir b) final] \<and>
    list_all (\<lambda>a. \<not> is_record a) mid \<and> bmStatus first = ''building'' \<and> bmHash first = hash \<and> bmHash final = hash \<and>
    bmStatus final = (if orCancelled o' (butlast h) then ''cancelled'' else if err = None then ''complete'' else ''failed'') \<and>
    (\<forall>e. err = Some e \<and> \<not> orCancelled o' (butlast h) \<longrightarrow> bmError final = e)"
proof -
  obtain mid r where h: "h = [MakeDir (ubDir b), WriteMeta (ubDir b) (first_record o' b hash)] @ mid @
        [WriteMeta (ubDir b) (last_record o' b hash r (butlast h))]"
    and err: "err = (case r of Inl e \<Rightarrow> Some e | Inr _ \<Rightarrow> None)" and mid: "list_all (\<lambda>a. \<not> is_record a) mid"
    by (rule buildOne_body [OF assms])
  let ?f = "first_record o' b hash" let ?l = "last_record o' b hash r (butlast h)"
  have "bmStatus ?f = ''building''" "bmHash ?f = hash" by (simp_all add: first_record_def initBuildMeta_fields)
  moreover have "bmHash ?l = hash"
      "bmStatus ?l = (if orCancelled o' (butlast h) then ''cancelled'' else if err = None then ''complete'' else ''failed'')"
      "\<forall>e. err = Some e \<and> \<not> orCancelled o' (butlast h) \<longrightarrow> bmError ?l = e"
    by (simp_all add: last_record_def finishBuildMeta_fields first_record_def initBuildMeta_fields err [symmetric])
  ultimately show ?thesis using h mid by blast
qed

section \<open>Examples\<close>

definition ex_disk :: "string list \<Rightarrow> BuildWorld" where
  "ex_disk paths = \<lparr>bwMeta = (\<lambda>_. None), bwExists = (\<lambda>p. p \<in> set paths), bwGlob = (\<lambda>_. []),
     bwGit = \<lparr>gwStat = (\<lambda>_. StatNotExist), gwGit = (\<lambda>_ _. None), gwSHA256 = id\<rparr>\<rparr>"

definition ex_host :: container_world where
  "ex_host = \<lparr>cwUname = Some ''x86_64'', cwUser = Some (''1000'', ''1000''), cwHas = (\<lambda>_. True), cwImages = None, cwStat = (\<lambda>_. True)\<rparr>"

text \<open>An oracle on which an action fails when its predicate says so.\<close>

definition ex_oracle :: "(build_action \<Rightarrow> bool) \<Rightarrow> string list \<Rightarrow> build_oracle" where
  "ex_oracle bad paths = \<lparr>orErr = (\<lambda>h. if bad (last h) then Some ''exit status 1'' else None), orCancelled = (\<lambda>_. False),
     orWorld = (\<lambda>_. ex_disk paths), orPath = (\<lambda>_. ''/p/x.apk''), orApkArch = (\<lambda>_ _. []),
     orInstall = (\<lambda>_. \<lparr>iwRead = (\<lambda>_. Some ''hi''), iwRender = (\<lambda>_ s _. Inr s), iwWrite = (\<lambda>_ _ _. True)\<rparr>),
     orInstallText = (\<lambda>_. ''install''), orCodenameText = (\<lambda>_. ''codename''), orHost = ex_host, orNproc = Some ''4''\<rparr>"

definition ex_step :: "string \<Rightarrow> Step" where
  "ex_step c = \<lparr>stCommand = c, stFn = None, stInstall = None\<rparr>"

definition ex_task :: "name \<Rightarrow> name list \<Rightarrow> Step list \<Rightarrow> Task" where
  "ex_task n ds steps = \<lparr>tName = n, tContainer = [], tDistros = ds, tSteps = steps\<rparr>"

definition ex_unit :: Unit where
  "ex_unit = zero_unit\<lparr>uName := ''hello'', uVersion := ''1.0'', uDescription := ''d'', uRuntimeDeps := [''libc''],
     uDistroRuntimeDeps := [(''alpine'', [''openrc''])],
     uTasks := [ex_task ''build'' [] [ex_step ''make'', \<lparr>stCommand = [], stFn = None, stInstall = Some (ex_install ''conf'')\<rparr>],
                ex_task ''deb'' [''debian''] [ex_step ''debian only''],
                ex_task ''install'' [''alpine''] [\<lparr>stCommand = [], stFn = Some ''f'', stInstall = None\<rparr>]]\<rparr>"

definition ex_options :: BuildOptions where
  "ex_options = \<lparr>opForce = False, opClean = False, opNoCache = False, opProjectDir = ''/p'', opArch = ''x86_64'', opMachine = ''m'',
     opParallel = 1, opEffectiveDistro = ''alpine'', boKeyName = None\<rparr>"

definition ex_nodes :: nodes where
  "ex_nodes = [(''hello'', \<lparr>ndUnit = ex_unit, ndDeps = [''data''], ndRdeps = []\<rparr>),
               (''data'', \<lparr>ndUnit = zero_unit\<lparr>uName := ''data'', uScope := ''noarch''\<rparr>, ndDeps = [], ndRdeps = [''hello'']\<rparr>)]"

definition ex_built :: unit_build where
  "ex_built = \<lparr>ubProj = zero_project, ubNodes = ex_nodes, ubUnit = ex_unit, ubOpts = ex_options, ubDir = ''/p/build/alpine/hello.x86_64''\<rparr>"

definition ex_run :: "(build_action \<Rightarrow> bool) \<Rightarrow> string list \<Rightarrow> string option \<times> build_action list" where
  "ex_run bad paths =
     (case buildOne (ex_oracle bad paths) zero_project ex_nodes ex_unit ''0123456789abcdef'' ex_options of None \<Rightarrow> (None, []) | Some r \<Rightarrow> r)"

lemma ex_build: "the_build zero_project ex_nodes ex_unit ex_options = Some ex_built"
proof -
  have "UnitBuildDir (opProjectDir ex_options) (ScopeDir ex_unit (opArch ex_options) (opMachine ex_options)) (uName ex_unit)
      (opEffectiveDistro ex_options) = Some ''/p/build/alpine/hello.x86_64''"
    by code_simp
  then show ?thesis by (simp add: the_build_def ex_built_def)
qed

lemma ex_buildOne:
  "buildOne (ex_oracle bad paths) zero_project ex_nodes ex_unit ''0123456789abcdef'' ex_options =
     Some (fst (ex_run bad paths), snd (ex_run bad paths))"
  by (simp add: ex_run_def buildOne_def ex_build split: prod.split)

lemma ex_run_ok:
  "fst (ex_run (\<lambda>_. False) []) = None \<and> length (filter is_step (snd (ex_run (\<lambda>_. False) []))) = 3"
  by code_simp


theorem buildOne_record_witness:
  "\<exists>first mid final. snd (ex_run is_step []) = [MakeDir (ubDir ex_built), WriteMeta (ubDir ex_built) first] @ mid @
       [WriteMeta (ubDir ex_built) final] \<and> bmStatus first = ''building'' \<and> bmStatus final = ''failed'' \<and> bmError final = ''exit status 1''"
proof -
  have err: "fst (ex_run is_step []) = Some ''exit status 1''" by code_simp
  have c: "orCancelled (ex_oracle is_step []) h = False" for h by (simp add: ex_oracle_def)
  from buildOne_record [OF ex_build ex_buildOne, of is_step "[]", unfolded c err] show ?thesis
    by (elim exE conjE) (intro exI conjI, assumption+, simp_all)
qed

text \<open>
  The stage of a dependency of another scope is not found: the build of a unit looks under the
  target architecture, the dependency has staged under its own scope.
\<close>

fun copied :: "build_action \<Rightarrow> string list" where
  "copied (CopyTree _ s _) = [s]"
| "copied _ = []"

lemma noarch_stage:
  "UnitBuildDir ''/p'' (ScopeDir (zero_unit\<lparr>uName := ''data'', uScope := ''noarch''\<rparr>) ''x86_64'' ''m'') ''data'' ''alpine'' =
     Some ''/p/build/alpine/data.noarch''"
  by code_simp

lemma noarch_stage_missed:
  "concat (map copied (snd (AssembleSysroot (ex_oracle (\<lambda>_. False) [''/p/build/alpine/data.noarch/sysroot-stage''])
     ''/s'' ex_nodes ''hello'' ex_options []))) = []"
  by code_simp

lemma arch_stage_found:
  "concat (map copied (snd (AssembleSysroot (ex_oracle (\<lambda>_. False) [''/p/build/alpine/data.x86_64/sysroot-stage''])
     ''/s'' ex_nodes ''hello'' ex_options []))) = [''/p/build/alpine/data.x86_64/sysroot-stage'']"
  by code_simp

text \<open>A Debian package does not name the runtime dependencies that its unit has on the distro alone.\<close>

lemma deb_control_distro_deps:
  "RuntimeDepsForDistro ex_unit ''alpine'' = [''libc'', ''openrc'']" "ctDepends (deb_control ex_built) = ''libc''"
  by code_simp+

text \<open>
  A unit with neither tasks nor services, not an image or container, publishes nothing; its
  complete record is then no cache entry, so that it is rebuilt by every build.
\<close>

lemma empty_unit_uncached:
  assumes "the_build proj ns u opts = Some b" and "nothing_to_do b"
    and "buildOne o' proj ns u hash opts = Some (err, h)"
  shows "filter is_publish h = []"
proof -
  have "\<exists>xs. snd (build_body o' b k) = k @ xs \<and> filter is_publish xs = []" for k
  proof -
    obtain xs where "snd (prepare_dirs o' b k) = k @ xs" "list_all quiet xs" using quiet_prepare_dirs by (rule onlyE)
    with assms(2) quiet_filter [of xs] show ?thesis
      by (intro exI [of _ xs]) (auto simp: build_body_def bnd_def ret_def split: prod.split sum.split)
  qed
  from this [of "[MakeDir (ubDir b), WriteMeta (ubDir b) (first_record o' b hash)]"] assms(1,3) show ?thesis
    by (auto simp: buildOne_def split: prod.splits)
qed

end
