(* ===== verification/BuildTasks.thy ===== *)
theory BuildTasks
  imports Sandbox Templates Starlark "HOL-Library.Signed_Division"
begin

text \<open>
  The built-ins of build-time Starlark, from \<^verbatim>\<open>internal/build/starlark_exec.go\<close> and
  \<^verbatim>\<open>starlark_dir.go\<close>: \<^verbatim>\<open>run()\<close> and \<^verbatim>\<open>dir_size_mb()\<close>. What a process prints and how it ends, and
  what a directory holds, are arguments.
\<close>

section \<open>Running commands\<close>

record ExecResult =
  exExitCode :: int
  exStdout :: string
  exStderr :: string

text \<open>The container run that a call asks for; the caller's configuration is copied.\<close>

definition exec_config :: "container_world \<Rightarrow> SandboxConfig \<Rightarrow> string \<Rightarrow> bool \<Rightarrow> RunConfig" where
  "exec_config w cfg command privileged =
     (if privileged then RunSimple (cfg\<lparr>sxNoUser := True\<rparr>) command else RunInSandbox w cfg command)"

text \<open>The outcome of a process: what it printed and its error, if any.\<close>

record outcome =
  ouStdout :: string
  ouStderr :: string
  ouErr :: "string option"

definition exec_result :: "outcome \<Rightarrow> ExecResult \<times> string option" where
  "exec_result out =
     (\<lparr>exExitCode = (if ouErr out = None then 0 else 1), exStdout = ouStdout out, exStderr = ouStderr out\<rparr>, ouErr out)"

record execer =
  exRun :: "RunConfig \<Rightarrow> outcome"
  exHost :: "string \<Rightarrow> string \<Rightarrow> outcome"

definition RealExecer_Run :: "execer \<Rightarrow> container_world \<Rightarrow> SandboxConfig \<Rightarrow> string \<Rightarrow> bool \<Rightarrow> ExecResult \<times> string option" where
  "RealExecer_Run e w cfg command privileged = exec_result (exRun e (exec_config w cfg command privileged))"

definition RealExecer_RunHost :: "execer \<Rightarrow> string \<Rightarrow> string \<Rightarrow> ExecResult \<times> string option" where
  "RealExecer_RunHost e command dir = exec_result (exHost e command dir)"

datatype RunError = RunArgs | RunFailed string bool int string

text \<open>The loop over the keyword arguments: the last one of the right type counts.\<close>

fun run_flags :: "kwargs \<Rightarrow> bool \<times> bool \<times> bool \<Rightarrow> bool \<times> bool \<times> bool" where
  "run_flags [] flags = flags"
| "run_flags ((k, v) # kws) (check, privileged, host) =
     (case v of
        SBool b \<Rightarrow>
          run_flags kws (if k = ''check'' then b else check, if k = ''privileged'' then b else privileged,
                         if k = ''host'' then b else host)
      | _ \<Rightarrow> run_flags kws (check, privileged, host))"

definition run_struct :: "ExecResult \<Rightarrow> sval" where
  "run_struct r =
     SStruct ''result'' [(''exit_code'', SInt (exExitCode r)), (''stdout'', SString (exStdout r)), (''stderr'', SString (exStderr r))]"

definition fnRun :: "execer \<Rightarrow> container_world \<Rightarrow> SandboxConfig \<Rightarrow> sval list \<Rightarrow> kwargs \<Rightarrow> RunError + sval" where
  "fnRun e w cfg args kws =
     (case args of
        [SString command] \<Rightarrow>
          (case run_flags kws (True, False, False) of (check, privileged, host) \<Rightarrow>
             (case (if host then RealExecer_RunHost e command (sxHostDir cfg) else RealExecer_Run e w cfg command privileged) of
                (result, err) \<Rightarrow>
                  if err \<noteq> None \<and> check then Inl (RunFailed command host (exExitCode result) (exStderr result))
                  else Inr (run_struct result)))
      | _ \<Rightarrow> Inl RunArgs)"

section \<open>Sizes of directories\<close>

text \<open>What the walk of a directory meets: an error, of permission or not, or an entry with its size.\<close>

datatype walk_entry = WalkError bool | WalkFile bool int

definition mib :: "64 word" where
  "mib = 1024 * 1024"

fun walk_total :: "64 word \<Rightarrow> walk_entry list \<Rightarrow> 64 word option" where
  "walk_total t [] = Some t"
| "walk_total t (WalkError permission # es) = (if permission then walk_total t es else None)"
| "walk_total t (WalkFile regular n # es) = walk_total (if regular then t + word_of_int n else t) es"

datatype DirError = DirArgs | NoDestDir | DirAbsolute string | DirEscapes string | DirStat string | DirWalk string

text \<open>The path that is walked; a directory that does not exist is empty.\<close>

definition dir_path :: "SandboxConfig \<Rightarrow> string \<Rightarrow> DirError + string" where
  "dir_path cfg subpath =
     (let clean = Clean subpath in
      if sxDestDir cfg = [] then Inl NoDestDir
      else if IsAbs clean then Inl (DirAbsolute subpath)
      else if clean = ''..'' \<or> HasPrefix clean ''../'' then Inl (DirEscapes subpath)
      else Inr (PathJoin [sxDestDir cfg, clean]))"

datatype dir_stat = DirMissing | DirStatError | DirThere

definition fnDirSizeMB ::
  "(string \<Rightarrow> dir_stat) \<Rightarrow> (string \<Rightarrow> walk_entry list) \<Rightarrow> SandboxConfig \<Rightarrow> sval list \<Rightarrow> DirError + 64 word" where
  "fnDirSizeMB stat walk cfg args =
     (case args of
        [SString subpath] \<Rightarrow>
          (case dir_path cfg subpath of
             Inl err \<Rightarrow> Inl err
           | Inr hostPath \<Rightarrow>
               (case stat hostPath of
                  DirMissing \<Rightarrow> Inr 0
                | DirStatError \<Rightarrow> Inl (DirStat hostPath)
                | DirThere \<Rightarrow>
                    (case walk_total 0 (walk hostPath) of
                       None \<Rightarrow> Inl (DirWalk hostPath)
                     | Some t \<Rightarrow> Inr (word_of_int (sint (t + mib - 1) sdiv sint mib)))))
      | _ \<Rightarrow> Inl DirArgs)"

section \<open>What the two calls guarantee\<close>

text \<open>The flag of a name: its last keyword argument with a truth value.\<close>

definition last_bool :: "bool \<Rightarrow> kwargs \<Rightarrow> string \<Rightarrow> bool" where
  "last_bool d kws key = last (d # concat (map (\<lambda>(k, v). case v of SBool b \<Rightarrow> if k = key then [b] else [] | _ \<Rightarrow> []) kws))"

lemma last_bool_Cons:
  "last_bool d ((k, v) # kws) key = last_bool (case v of SBool b \<Rightarrow> if k = key then b else d | _ \<Rightarrow> d) kws key"
proof (cases v)
  case (SBool b)
  then show ?thesis by (cases "k = key") (simp_all add: last_bool_def)
qed (simp_all add: last_bool_def)

lemma run_flags_last:
  "run_flags kws (c, p, h) = (last_bool c kws ''check'', last_bool p kws ''privileged'', last_bool h kws ''host'')"
proof (induction kws arbitrary: c p h)
  case Nil
  show ?case by (simp add: last_bool_def)
next
  case (Cons kv kws)
  show ?case
  proof (cases kv)
    case (Pair k v)
    show ?thesis unfolding Pair last_bool_Cons run_flags.simps Cons.IH by (cases v) (simp_all only: sval.case)
  qed
qed

text \<open>The answer of \<^verbatim>\<open>run\<close> on every branch.\<close>

lemma fnRun_spec:
  "fnRun e w cfg [SString c] kws =
     (let host = last_bool False kws ''host'';
          out = (if host then exHost e c (sxHostDir cfg) else exRun e (exec_config w cfg c (last_bool False kws ''privileged'')));
          code = (if ouErr out = None then 0 else 1)
      in if ouErr out \<noteq> None \<and> last_bool True kws ''check'' then Inl (RunFailed c host code (ouStderr out))
         else Inr (SStruct ''result'' [(''exit_code'', SInt code), (''stdout'', SString (ouStdout out)), (''stderr'', SString (ouStderr out))]))"
  by (simp add: fnRun_def run_flags_last RealExecer_Run_def RealExecer_RunHost_def exec_result_def run_struct_def Let_def)

text \<open>A privileged command is run as root and never inside the sandbox, whatever the unit says.\<close>

lemma exec_config_privileged:
  "rcNoUser (exec_config w cfg c True)" "exec_config w cfg c True = exec_config w (cfg\<lparr>sxSandbox := sb\<rparr>) c True"
  by (simp_all add: exec_config_def RunSimple_def Let_def resolveShell_def containerMountsForBuild_def)

definition regular_sum :: "walk_entry list \<Rightarrow> int" where
  "regular_sum es = sum_list (map (\<lambda>e. case e of WalkFile True n \<Rightarrow> n | _ \<Rightarrow> 0) es)"

lemma walk_total_sum: "walk_total (word_of_int t) es = Some r \<Longrightarrow> r = word_of_int (t + regular_sum es)"
proof (induction es arbitrary: t)
  case Nil
  then show ?case by (simp add: regular_sum_def)
next
  case (Cons e es)
  show ?case
  proof (cases e)
    case (WalkError p)
    with Cons show ?thesis by (auto simp: regular_sum_def split: if_splits)
  next
    case (WalkFile reg n)
    show ?thesis
    proof (cases reg)
      case True
      with Cons.prems WalkFile have "walk_total (word_of_int (t + n)) es = Some r" by simp
      from Cons.IH [OF this] show ?thesis using WalkFile True by (simp add: regular_sum_def add.assoc)
    qed (use Cons WalkFile in \<open>simp add: regular_sum_def\<close>)
  qed
qed

lemma sint_small: "0 \<le> n \<Longrightarrow> n < 2 ^ 63 \<Longrightarrow> sint (word_of_int n :: 64 word) = n"
  by (simp add: sint_sbintrunc' signed_take_bit_int_eq_self)

lemma ceiling_div:
  assumes "0 < (m :: int)"
  shows "m * ((s + (m - 1)) div m - 1) < s \<and> s \<le> m * ((s + (m - 1)) div m)"
proof -
  define q r where "q = (s + (m - 1)) div m" and "r = (s + (m - 1)) mod m"
  have "m * q + r = s + (m - 1)" "0 \<le> r" "r < m" using assms by (simp_all add: q_def r_def)
  then have "m * (q - 1) < s \<and> s \<le> m * q" by (simp add: algebra_simps)
  then show ?thesis by (simp add: q_def)
qed

lemma mib_ceiling:
  assumes "0 \<le> n" and "n < 2 ^ 63 - 2 ^ 20"
  shows "sint (word_of_int (sint (word_of_int n + mib - 1) sdiv sint mib) :: 64 word) = (n + (2 ^ 20 - 1)) div 2 ^ 20"
proof -
  have sum: "word_of_int n + mib - 1 = (word_of_int (n + (2 ^ 20 - 1)) :: 64 word)" by (simp add: mib_def)
  have s1: "sint (word_of_int n + mib - 1) = n + (2 ^ 20 - 1)"
    unfolding sum by (rule sint_small) (use assms in simp_all)
  have s2: "sint mib = 2 ^ 20" by (simp add: mib_def)
  have div: "(n + (2 ^ 20 - 1)) sdiv 2 ^ 20 = (n + (2 ^ 20 - 1)) div 2 ^ 20"
    using assms by (simp add: signed_divide_int_def sgn_if)
  have "(n + (2 ^ 20 - 1)) div 2 ^ 20 \<le> n + (2 ^ 20 - 1)" using assms by (intro int_div_le_self) simp_all
  then show ?thesis unfolding s1 s2 div using assms by (intro sint_small) simp_all
qed

text \<open>
  The path that \<^verbatim>\<open>dir_size_mb\<close> walks is below the destination directory, whatever sub-path is
  asked for; a directory that is not there has size 0, and otherwise the answer is the total size of
  the regular files in whole mebibytes, rounded up.
\<close>

theorem fnDirSizeMB_spec:
  assumes "fnDirSizeMB stat walk cfg [SString subpath] = Inr mb"
    and "\<And>p. 0 \<le> regular_sum (walk p) \<and> regular_sum (walk p) < 2 ^ 63 - 2 ^ 20"
  shows "\<exists>path ts. dir_path cfg subpath = Inr path \<and>
    components (Clean path) = components (Clean (sxDestDir cfg)) @ ts \<and> ''..'' \<notin> set ts \<and>
    (stat path = DirMissing \<longrightarrow> mb = 0) \<and>
    (stat path = DirThere \<longrightarrow>
       2 ^ 20 * (sint mb - 1) < regular_sum (walk path) \<and> regular_sum (walk path) \<le> 2 ^ 20 * sint mb)"
proof -
  from assms(1) obtain path where path: "dir_path cfg subpath = Inr path"
    by (auto simp: fnDirSizeMB_def split: sum.splits)
  have clean: "Clean path = path" "components path = components (Clean (sxDestDir cfg)) @ components (Clean subpath)"
    "''..'' \<notin> set (components (Clean subpath))"
    using path PathJoin_below [of "sxDestDir cfg" subpath] components_no_climb [of subpath]
    by (auto simp: dir_path_def Let_def IsAbs_Clean split: if_splits)
  have missing: "stat path = DirMissing \<longrightarrow> mb = 0" using assms(1) path by (auto simp: fnDirSizeMB_def)
  have there: "2 ^ 20 * (sint mb - 1) < regular_sum (walk path) \<and> regular_sum (walk path) \<le> 2 ^ 20 * sint mb"
    if "stat path = DirThere"
  proof -
    from assms(1) path that obtain t where t: "walk_total 0 (walk path) = Some t"
      and mb: "mb = word_of_int (sint (t + mib - 1) sdiv sint mib)"
      by (auto simp: fnDirSizeMB_def split: option.splits)
    from walk_total_sum [of 0] t have "t = word_of_int (regular_sum (walk path))" by simp
    with mb mib_ceiling assms(2) [of path] have "sint mb = (regular_sum (walk path) + (2 ^ 20 - 1)) div 2 ^ 20" by simp
    moreover have "2 ^ 20 * ((s + (2 ^ 20 - 1)) div 2 ^ 20 - 1) < s \<and> s \<le> 2 ^ 20 * ((s + (2 ^ 20 - 1)) div 2 ^ 20)" for s :: int
      by (rule ceiling_div) simp
    ultimately show ?thesis by metis
  qed
  show ?thesis
  proof (intro exI conjI)
    show "dir_path cfg subpath = Inr path" by (rule path)
    show "components (Clean path) = components (Clean (sxDestDir cfg)) @ components (Clean subpath)" using clean by simp
  qed (use clean missing there in blast)+
qed

definition ex_dir_cfg :: SandboxConfig where
  "ex_dir_cfg = sx_example\<lparr>sxDestDir := ''/p/destdir''\<rparr>"

theorem fnDirSizeMB_spec_witness:
  "\<exists>path ts. dir_path ex_dir_cfg ''a/../rootfs'' = Inr path \<and>
    components (Clean path) = components (Clean (sxDestDir ex_dir_cfg)) @ ts \<and> ''..'' \<notin> set ts \<and>
    2 ^ 20 * (sint (2 :: 64 word) - 1) < (1048577 :: int)"
proof -
  let ?walk = "\<lambda>_. [WalkFile True 1048576, WalkError True, WalkFile False 4096, WalkFile True 1]"
  have "fnDirSizeMB (\<lambda>_. DirThere) ?walk ex_dir_cfg [SString ''a/../rootfs''] = Inr 2" by code_simp
  from fnDirSizeMB_spec [OF this] show ?thesis by (fastforce simp: regular_sum_def)
qed

lemma fnDirSizeMB_rejects:
  "fnDirSizeMB (\<lambda>_. DirThere) (\<lambda>_. []) ex_dir_cfg [SString ''a/../../etc''] = Inl (DirEscapes ''a/../../etc'')"
  "fnDirSizeMB (\<lambda>_. DirThere) (\<lambda>_. []) ex_dir_cfg [SString ''/etc''] = Inl (DirAbsolute ''/etc'')"
  by code_simp+

end
