(* ===== verification/Workspace.thy ===== *)
theory Workspace
  imports Trace SourceState Fetch Templates
begin

text \<open>
  The source tree of a unit, from \<^verbatim>\<open>internal/source/workspace.go\<close>: when an existing tree is kept,
  how a fresh one is made and patched, and where archives put their entries. The commands that
  change the disk are recorded; the answers of git and the outcome of each command come from a
  world that sees the commands before it. Fetching is theory Fetch.
\<close>

section \<open>Commands\<close>

datatype ws_action =
    MakeRemovable string
  | RemoveSource string
  | MakeSource string
  | GitDo string "string list"
  | GitCommitting string "string list"
  | UnpackTar string string
  | UnpackZip string string
  | CopyBare string string string

datatype SourceError =
    EmptyDistro name
  | NoUnitSource name
  | NotFetched FetchError
  | CannotRemove string
  | CannotCreate string
  | CloneSource string
  | CheckoutSource string
  | TagSource
  | SniffFailed string
  | UnpackFailed string
  | InitSource string
  | PatchMissing string
  | PatchFailed string
  | PatchCommit string

record ws_world =
  wsStat :: "string \<Rightarrow> stat_result"
  wsGit :: "string \<Rightarrow> string list \<Rightarrow> string option"
  wsDoes :: "ws_action list \<Rightarrow> bool"
  wsFetch :: "Unit \<Rightarrow> MirrorRule list \<Rightarrow> FetchError + string"
  wsBytes :: "string \<Rightarrow> string option"
  wsAbs :: "string \<Rightarrow> string"

text \<open>\<^const>\<open>wsStat\<close> and \<^const>\<open>wsGit\<close> are asked before anything is changed, but for the patch files.\<close>

definition PinTag :: string where
  "PinTag = ''yoe/pin''"

definition upstreamMatchesTag :: "ws_world \<Rightarrow> string \<Rightarrow> string \<Rightarrow> bool" where
  "upstreamMatchesTag w srcDir tag =
     (case wsGit w srcDir [''rev-parse'', PinTag @ ''^{commit}''] of
        None \<Rightarrow> False
      | Some upstream \<Rightarrow>
          (case wsGit w srcDir [''rev-parse'', tag @ ''^{commit}''] of
             None \<Rightarrow> False
           | Some pin \<Rightarrow> TrimSpace upstream = TrimSpace pin))"

definition hasLocalCommits :: "ws_world \<Rightarrow> string \<Rightarrow> bool" where
  "hasLocalCommits w srcDir =
     (if wsStat w (PathJoin [srcDir, ''.git'']) = StatNotExist then False
      else case wsGit w srcDir [''rev-list'', ''--count'', PinTag @ ''..HEAD''] of
        None \<Rightarrow> False
      | Some out \<Rightarrow> TrimSpace out \<noteq> ''0'')"

text \<open>A command that must succeed, and one whose outcome is looked at.\<close>

type_synonym 'a ws = "(SourceError, ws_action, 'a) trace"

definition ws_run :: "ws_world \<Rightarrow> SourceError \<Rightarrow> ws_action \<Rightarrow> unit ws" where
  "ws_run w e = attempt (\<lambda>h. if wsDoes w h then None else Some e)"

definition ws_try :: "ws_world \<Rightarrow> ws_action \<Rightarrow> bool ws" where
  "ws_try w = asking (wsDoes w)"

section \<open>Making a tree\<close>

definition checkoutGit :: "ws_world \<Rightarrow> string \<Rightarrow> string \<Rightarrow> Unit \<Rightarrow> unit ws" where
  "checkoutGit w barePath srcDir u =
     (let ref = (if uTag u \<noteq> [] then uTag u else if uBranch u \<noteq> [] then uBranch u else ''HEAD'') in
      bnd (ws_run w (CloneSource barePath) (GitDo [] [''clone'', ''--shared'', barePath, srcDir])) (\<lambda>_.
        ws_run w (CheckoutSource ref) (GitDo srcDir [''checkout'', ref])))"

definition tagUpstream :: "ws_world \<Rightarrow> string \<Rightarrow> unit ws" where
  "tagUpstream w srcDir =
     bnd (ws_try w (GitDo srcDir [''checkout'', ''-b'', ''yoe-work''])) (\<lambda>_.
       ws_run w TagSource (GitDo srcDir [''tag'', ''-f'', PinTag]))"

datatype compression = compressionNone | compressionGzip | compressionBzip2 | compressionXz | compressionZip

definition sniffCompression :: "string \<Rightarrow> compression" where
  "sniffCompression file' =
     (let magic = take 6 file' in
      if HasPrefix magic [CHR 0x1F, CHR 0x8B] then compressionGzip
      else if HasPrefix magic ''BZh'' then compressionBzip2
      else if HasPrefix magic [CHR 0xFD, CHR ''7'', CHR ''z'', CHR ''X'', CHR ''Z'', CHR 0x00] then compressionXz
      else if HasPrefix magic [CHR ''P'', CHR ''K'', CHR 0x03, CHR 0x04] then compressionZip
      else compressionNone)"

definition urlBasename :: "string \<Rightarrow> string" where
  "urlBasename url =
     (let u = (case IndexByte url CHR ''?'' of None \<Rightarrow> url | Some i \<Rightarrow> take i url) in
      case LastIndexByte u CHR ''/'' of None \<Rightarrow> u | Some i \<Rightarrow> drop (Suc i) u)"

definition tar_suffixes :: "string list" where
  "tar_suffixes = [''.tar.gz'', ''.tgz'', ''.tar.xz'', ''.tar.bz2'', ''.tbz2'', ''.tar'']"

definition bare_name :: "string \<Rightarrow> string \<Rightarrow> string" where
  "bare_name cachedPath sourceURL = (if urlBasename sourceURL = [] then Base cachedPath else urlBasename sourceURL)"

text \<open>How a fetched file is unpacked; \<^const>\<open>None\<close> when the file cannot be read.\<close>

definition unpack_action :: "ws_world \<Rightarrow> string \<Rightarrow> string \<Rightarrow> string \<Rightarrow> ws_action option" where
  "unpack_action w cachedPath destDir sourceURL =
     (if list_ex (HasSuffix cachedPath) tar_suffixes then Some (UnpackTar cachedPath destDir)
      else if HasSuffix cachedPath ''.zip'' then Some (UnpackZip cachedPath destDir)
      else if HasSuffix cachedPath ''.apk'' \<or> HasSuffix cachedPath ''.deb''
        then Some (CopyBare cachedPath destDir (bare_name cachedPath sourceURL))
      else case wsBytes w cachedPath of
        None \<Rightarrow> None
      | Some bytes \<Rightarrow>
          (case sniffCompression bytes of
             compressionZip \<Rightarrow> Some (UnpackZip cachedPath destDir)
           | compressionNone \<Rightarrow> Some (CopyBare cachedPath destDir (bare_name cachedPath sourceURL))
           | _ \<Rightarrow> Some (UnpackTar cachedPath destDir)))"

definition prepareNonGitSource :: "ws_world \<Rightarrow> string \<Rightarrow> string \<Rightarrow> string \<Rightarrow> unit ws" where
  "prepareNonGitSource w cachedPath destDir sourceURL =
     (case unpack_action w cachedPath destDir sourceURL of
        None \<Rightarrow> throw (SniffFailed cachedPath)
      | Some a \<Rightarrow> ws_run w (UnpackFailed cachedPath) a)"

definition init_commands :: "string list list" where
  "init_commands = [[''init''], [''config'', ''user.email'', ''yoe@yoe.local''], [''config'', ''user.name'', ''yoe''],
     [''add'', ''-A''], [''commit'', ''-m'', ''upstream source''], [''tag'', PinTag]]"

definition initGitRepo :: "ws_world \<Rightarrow> string \<Rightarrow> unit ws" where
  "initGitRepo w srcDir = each (\<lambda>args. ws_run w (InitSource (hd args)) (GitDo srcDir args)) init_commands"

text \<open>A patch is applied as a commit, or applied and then committed.\<close>

definition patch_base :: "string \<Rightarrow> Unit \<Rightarrow> string" where
  "patch_base projectDir u = (if uDefinedIn u = [] then projectDir else uDefinedIn u)"

definition apply_patch :: "ws_world \<Rightarrow> string \<Rightarrow> string \<Rightarrow> Unit \<Rightarrow> string \<Rightarrow> unit ws" where
  "apply_patch w projectDir srcDir u patchFile =
     (let patchPath = PathJoin [patch_base projectDir u, patchFile] in
      if wsStat w patchPath = StatNotExist then throw (PatchMissing patchFile)
      else bnd (ws_try w (GitCommitting srcDir [''am'', ''--3way'', wsAbs w patchPath])) (\<lambda>ok.
        if ok then ret ()
        else bnd (ws_run w (PatchFailed patchFile) (GitDo srcDir [''apply'', wsAbs w patchPath])) (\<lambda>_.
             bnd (ws_run w (PatchCommit patchFile) (GitCommitting srcDir [''add'', ''-A''])) (\<lambda>_.
               ws_run w (PatchCommit patchFile) (GitCommitting srcDir [''commit'', ''-m'', ''patch: '' @ Base patchFile])))))"

definition applyPatches :: "ws_world \<Rightarrow> string \<Rightarrow> string \<Rightarrow> Unit \<Rightarrow> unit ws" where
  "applyPatches w projectDir srcDir u = each (apply_patch w projectDir srcDir u) (uPatches u)"

section \<open>Prepare\<close>

definition src_dir :: "string \<Rightarrow> string \<Rightarrow> name \<Rightarrow> Unit \<Rightarrow> string" where
  "src_dir projectDir scopeDir distro u = PathJoin [projectDir, ''build'', distro, uName u @ ''.'' @ scopeDir, ''src'']"

text \<open>The three reasons to keep the tree that is there.\<close>

definition keeps_tree :: "ws_world \<Rightarrow> string \<Rightarrow> Unit \<Rightarrow> State \<Rightarrow> bool" where
  "keeps_tree w srcDir u cached \<longleftrightarrow>
     (let git = (wsStat w (PathJoin [srcDir, ''.git'']) = StatOk) in
      (IsDev cached \<and> git) \<or>
      (cached = StatePin \<and> uTag u \<noteq> [] \<and> git \<and> upstreamMatchesTag w srcDir (uTag u)) \<or>
      hasLocalCommits w srcDir)"

definition fresh_tree :: "ws_world \<Rightarrow> string \<Rightarrow> string \<Rightarrow> Unit \<Rightarrow> string \<Rightarrow> string ws" where
  "fresh_tree w projectDir srcDir u cachedPath =
     bnd (if wsStat w srcDir = StatOk then ws_try w (MakeRemovable srcDir) else ret True) (\<lambda>_.
     bnd (ws_run w (CannotRemove srcDir) (RemoveSource srcDir)) (\<lambda>_.
     bnd (ws_run w (CannotCreate srcDir) (MakeSource srcDir)) (\<lambda>_.
     bnd (if IsGitURL (uSource u)
              then bnd (checkoutGit w cachedPath srcDir u) (\<lambda>_. tagUpstream w srcDir)
              else bnd (prepareNonGitSource w cachedPath srcDir (uSource u)) (\<lambda>_. initGitRepo w srcDir)) (\<lambda>_.
     bnd (applyPatches w projectDir srcDir u) (\<lambda>_. ret srcDir)))))"

definition Prepare ::
  "ws_world \<Rightarrow> string \<Rightarrow> string \<Rightarrow> name \<Rightarrow> Unit \<Rightarrow> State \<Rightarrow> MirrorRule list \<Rightarrow> string ws" where
  "Prepare w projectDir scopeDir distro u cached mirrors =
     (let srcDir = src_dir projectDir scopeDir distro u in
      if distro = [] then throw (EmptyDistro (uName u))
      else if keeps_tree w srcDir u cached then ret srcDir
      else if uSource u = [] then throw (NoUnitSource (uName u))
      else case wsFetch w u mirrors of
        Inl err \<Rightarrow> throw (NotFetched err)
      | Inr cachedPath \<Rightarrow> fresh_tree w projectDir srcDir u cachedPath)"

section \<open>Archives\<close>

text \<open>
  Where the entries of an archive go: the headers of the archive, in order, are an argument. A
  tar archive loses the first component of its first entry with one; a zip archive loses it only
  when all entries have the same.
\<close>

datatype tar_kind = TarDir | TarReg | TarSymlink string | TarOther

definition top_dir :: "string \<Rightarrow> string option" where
  "top_dir name = (case IndexByte name CHR ''/'' of None \<Rightarrow> None | Some i \<Rightarrow> Some (take (Suc i) name))"

fun tar_targets :: "string \<Rightarrow> string \<Rightarrow> (string \<times> tar_kind) list \<Rightarrow> (string \<times> tar_kind) list" where
  "tar_targets destDir strip [] = []"
| "tar_targets destDir strip ((hdr, kind) # hdrs) =
     (let top = (if strip = [] then (case top_dir hdr of None \<Rightarrow> [] | Some t \<Rightarrow> t) else strip);
          name = TrimPrefix hdr top
      in if name = [] \<or> name = ''.'' \<or> kind = TarOther then tar_targets destDir top hdrs
         else (PathJoin [destDir, name], kind) # tar_targets destDir top hdrs)"

definition extractTarball :: "string \<Rightarrow> (string \<times> tar_kind) list \<Rightarrow> (string \<times> tar_kind) list" where
  "extractTarball destDir hdrs = tar_targets destDir [] hdrs"

fun zip_prefix_from :: "string \<Rightarrow> string list \<Rightarrow> string" where
  "zip_prefix_from strip [] = strip"
| "zip_prefix_from strip (name # names) = (if top_dir name = Some strip then zip_prefix_from strip names else [])"

definition zip_prefix :: "string list \<Rightarrow> string" where
  "zip_prefix names =
     (case names of [] \<Rightarrow> [] | n # ns \<Rightarrow> (case top_dir n of None \<Rightarrow> [] | Some t \<Rightarrow> zip_prefix_from t ns))"

definition extractZip :: "string \<Rightarrow> string list \<Rightarrow> string list" where
  "extractZip destDir names =
     map (\<lambda>name. PathJoin [destDir, name])
       (filter (\<lambda>name. name \<noteq> [] \<and> name \<noteq> ''.'') (map (\<lambda>name. TrimPrefix name (zip_prefix names)) names))"

text \<open>Neither refuses an entry that climbs out of the source directory.\<close>

lemma archives_escape:
  "extractTarball ''/p/build/src'' [(''x-1.0/'', TarDir), (''x-1.0/../../../../etc/cron.d/x'', TarReg)] =
     [(''/etc/cron.d/x'', TarReg)]"
  "extractZip ''/p/build/src'' [''x-1.0/a'', ''x-1.0/../../../../etc/cron.d/x''] = [''/p/build/src/a'', ''/etc/cron.d/x'']"
  by code_simp+

section \<open>What preparing a source does\<close>

lemma only_ws_run [only_rules]: "P a \<Longrightarrow> only P (ws_run w e a)"
  unfolding ws_run_def by (rule only_attempt)

lemma only_ws_try [only_rules]: "P a \<Longrightarrow> only P (ws_try w a)"
  unfolding ws_try_def by (rule only_asking)

lemma ws_run_Inr: "ws_run w e a h = (Inr x, h') \<longleftrightarrow> wsDoes w (h @ [a]) \<and> h' = h @ [a]"
  by (simp add: ws_run_def attempt_Inr)

text \<open>The attempts to apply a patch, and the commands that set the pin tag.\<close>

fun am_of :: "ws_action \<Rightarrow> string list" where
  "am_of (GitCommitting _ [c, _, p]) = (if c = ''am'' then [p] else [])"
| "am_of _ = []"

fun sets_pin :: "ws_action \<Rightarrow> bool" where
  "sets_pin (GitDo _ args) = (args = [''tag'', ''-f'', PinTag] \<or> args = [''tag'', PinTag])"
| "sets_pin _ = False"

fun commits :: "ws_action \<Rightarrow> bool" where
  "commits (GitCommitting _ _) = True"
| "commits _ = False"

definition patch_paths :: "ws_world \<Rightarrow> string \<Rightarrow> Unit \<Rightarrow> string list" where
  "patch_paths w projectDir u = map (\<lambda>p. wsAbs w (PathJoin [patch_base projectDir u, p])) (uPatches u)"

lemma apply_patch_am:
  assumes "apply_patch w projectDir srcDir u p h = (Inr x, h')"
  shows "\<exists>xs. h' = h @ xs \<and> concat (map am_of xs) = [wsAbs w (PathJoin [patch_base projectDir u, p])] \<and> list_all (\<lambda>a. \<not> sets_pin a) xs"
  using assms
  by (auto simp: apply_patch_def Let_def bnd_def ws_try_def asking_def ws_run_def attempt_def throw_def ret_def PinTag_def
      split: if_splits prod.splits sum.splits)

lemma applyPatches_am:
  assumes "applyPatches w projectDir srcDir u h = (Inr x, h')"
  shows "\<exists>xs. h' = h @ xs \<and> concat (map am_of xs) = patch_paths w projectDir u \<and> list_all (\<lambda>a. \<not> sets_pin a) xs"
proof -
  have "\<exists>xs. h' = h @ xs \<and> concat (map am_of xs) = map (\<lambda>p. wsAbs w (PathJoin [patch_base projectDir u, p])) ps \<and>
      list_all (\<lambda>a. \<not> sets_pin a) xs" if "each (apply_patch w projectDir srcDir u) ps h = (Inr x, h')" for ps
    using that
  proof (induction ps arbitrary: h)
    case Nil
    then show ?case by (simp add: ret_def)
  next
    case (Cons p ps)
    from Cons.prems obtain y h1 where p: "apply_patch w projectDir srcDir u p h = (Inr y, h1)"
      and ps: "each (apply_patch w projectDir srcDir u) ps h1 = (Inr x, h')"
      unfolding each.simps by (rule bnd_Inr)
    from apply_patch_am [OF p] Cons.IH [OF ps] obtain xs ys where
      "h1 = h @ xs" "concat (map am_of xs) = [wsAbs w (PathJoin [patch_base projectDir u, p])]" "list_all (\<lambda>a. \<not> sets_pin a) xs"
      "h' = h1 @ ys" "concat (map am_of ys) = map (\<lambda>p. wsAbs w (PathJoin [patch_base projectDir u, p])) ps"
      "list_all (\<lambda>a. \<not> sets_pin a) ys" by blast
    then show ?case by (intro exI [of _ "xs @ ys"]) simp
  qed
  with assms show ?thesis by (simp add: applyPatches_def patch_paths_def)
qed

lemma checkout_pins:
  assumes "bnd (checkoutGit w c srcDir u) (\<lambda>_. tagUpstream w srcDir) h = (Inr x, h')"
  shows "\<exists>xs a. h' = h @ xs @ [a] \<and> sets_pin a \<and> list_all (\<lambda>a. \<not> commits a) xs"
  using assms
  by (auto simp: checkoutGit_def tagUpstream_def Let_def ws_run_Inr ws_try_def asking_def elim!: bnd_Inr)

lemma initGitRepo_pins:
  assumes "initGitRepo w srcDir h = (Inr x, h')"
  shows "\<exists>xs a. h' = h @ xs @ [a] \<and> sets_pin a \<and> list_all (\<lambda>a. \<not> commits a) xs"
proof -
  from assms have "h' = h @ map (GitDo srcDir) init_commands"
    by (auto simp: initGitRepo_def init_commands_def ws_run_Inr ret_def elim!: bnd_Inr)
  then have "h' = h @ map (GitDo srcDir) (butlast init_commands) @ [GitDo srcDir [''tag'', PinTag]]"
    by (simp add: init_commands_def)
  then show ?thesis
    by (intro exI [of _ "map (GitDo srcDir) (butlast init_commands)"] exI [of _ "GitDo srcDir [''tag'', PinTag]"])
      (simp add: list_all_iff)
qed

lemma unpack_pins:
  assumes "bnd (prepareNonGitSource w c srcDir url) (\<lambda>_. initGitRepo w srcDir) h = (Inr x, h')"
  shows "\<exists>xs a. h' = h @ xs @ [a] \<and> sets_pin a \<and> list_all (\<lambda>a. \<not> commits a) xs"
proof -
  from assms obtain y h1 where un: "prepareNonGitSource w c srcDir url h = (Inr y, h1)" and "initGitRepo w srcDir h1 = (Inr x, h')"
    by (rule bnd_Inr)
  then obtain xs a where xs: "h' = h1 @ xs @ [a]" "sets_pin a" "list_all (\<lambda>a. \<not> commits a) xs"
    using initGitRepo_pins by blast
  from un obtain b where "h1 = h @ [b]" "\<not> commits b"
    by (auto simp: prepareNonGitSource_def unpack_action_def ws_run_Inr throw_def split: option.splits if_splits compression.splits)
  with xs show ?thesis by (intro exI [of _ "b # xs"] exI [of _ a]) simp
qed

lemma fresh_tree_success:
  assumes "fresh_tree w projectDir srcDir u c h = (Inr p, h')"
  shows "p = srcDir \<and> (\<exists>pre a post. h' = h @ pre @ a # post \<and> sets_pin a \<and> list_all (\<lambda>a. \<not> commits a) pre \<and>
    concat (map am_of post) = patch_paths w projectDir u \<and> list_all (\<lambda>a. \<not> sets_pin a) post)"
proof -
  let ?make = "if IsGitURL (uSource u) then bnd (checkoutGit w c srcDir u) (\<lambda>_. tagUpstream w srcDir)
      else bnd (prepareNonGitSource w c srcDir (uSource u)) (\<lambda>_. initGitRepo w srcDir)"
  from assms obtain z0 z1 z2 z3 z4 h0 h1 h2 h3 k where
    h0: "(if wsStat w srcDir = StatOk then ws_try w (MakeRemovable srcDir) else ret True) h = (Inr z0, h0)" and
    h1: "ws_run w (CannotRemove srcDir) (RemoveSource srcDir) h0 = (Inr z1, h1)" and
    h2: "ws_run w (CannotCreate srcDir) (MakeSource srcDir) h1 = (Inr z2, h2)" and
    h3: "?make h2 = (Inr z3, h3)" and
    k: "applyPatches w projectDir srcDir u h3 = (Inr z4, k)" and last: "(ret srcDir :: string ws) k = (Inr p, h')"
    unfolding fresh_tree_def by (elim bnd_Inr) (rule that)
  from last k have h4: "applyPatches w projectDir srcDir u h3 = (Inr z4, h')" and p: "p = srcDir"
    by (simp_all add: ret_def)
  from h0 obtain xs0 where "h0 = h @ xs0" "list_all (\<lambda>a. \<not> commits a) xs0"
    by (cases "wsStat w srcDir = StatOk") (auto simp: ws_try_def asking_def ret_def)
  with h1 h2 obtain xs where xs: "h2 = h @ xs" "list_all (\<lambda>a. \<not> commits a) xs" by (auto simp: ws_run_Inr)
  from h3 obtain ys a where ys: "h3 = h2 @ ys @ [a]" "sets_pin a" "list_all (\<lambda>a. \<not> commits a) ys"
    using checkout_pins unpack_pins by (cases "IsGitURL (uSource u)") (auto, blast+)
  from applyPatches_am [OF h4] obtain zs where
    "h' = h3 @ zs" "concat (map am_of zs) = patch_paths w projectDir u" "list_all (\<lambda>a. \<not> sets_pin a) zs" by blast
  with xs ys p show ?thesis by (intro conjI exI [of _ "xs @ ys"] exI [of _ a] exI [of _ zs]) simp_all
qed

definition harmless :: "string \<Rightarrow> ws_action \<Rightarrow> bool" where
  "harmless srcDir a \<longleftrightarrow> (case a of RemoveSource d \<Rightarrow> d = srcDir | MakeRemovable d \<Rightarrow> d = srcDir | _ \<Rightarrow> True)"

lemma unpack_harmless: "only (harmless srcDir) (prepareNonGitSource w c d url)"
  unfolding prepareNonGitSource_def unpack_action_def
  by (auto simp: harmless_def only_throw intro!: only_ws_run split: option.split compression.split)

lemma fresh_tree_harmless: "only (harmless srcDir) (fresh_tree w projectDir srcDir u c)"
  unfolding fresh_tree_def checkoutGit_def tagUpstream_def initGitRepo_def applyPatches_def apply_patch_def Let_def
  by (intro only_rules unpack_harmless) (auto simp: harmless_def intro!: only_rules)


definition ex_ws :: "string list \<Rightarrow> ws_world" where
  "ex_ws present = \<lparr>wsStat = (\<lambda>p. if p \<in> set present then StatOk else StatNotExist),
     wsGit = (\<lambda>d args. if args = [''rev-list'', ''--count'', ''yoe/pin..HEAD''] then Some ''2'' else None),
     wsDoes = (\<lambda>h. last h \<noteq> GitCommitting ''/p/build/alpine/x.x86_64/src'' [''am'', ''--3way'', ''/p/b.patch'']),
     wsFetch = (\<lambda>_ _. Inr ''/c/x.tar.gz''), wsBytes = (\<lambda>_. None), wsAbs = id\<rparr>"

definition ex_source :: Unit where
  "ex_source = zero_unit\<lparr>uName := ''x'', uSource := ''https://e.org/x.tar.gz'', uPatches := [''a.patch'', ''b.patch'']\<rparr>"

definition ex_prepared :: "string list \<Rightarrow> State \<Rightarrow> (SourceError + string) \<times> ws_action list" where
  "ex_prepared present cached = Prepare (ex_ws present) ''/p'' ''x86_64'' ''alpine'' ex_source cached [] []"

lemma ex_prepared_runs:
  "\<not> keeps_tree (ex_ws [''/p/a.patch'', ''/p/b.patch'']) ''/p/build/alpine/x.x86_64/src'' ex_source []"
  "fst (ex_prepared [''/p/a.patch'', ''/p/b.patch''] []) = Inr ''/p/build/alpine/x.x86_64/src''"
  "src_dir ''/p'' ''x86_64'' ''alpine'' ex_source = ''/p/build/alpine/x.x86_64/src''"
  "patch_paths (ex_ws []) ''/p'' ex_source = [''/p/a.patch'', ''/p/b.patch'']"
  by code_simp+


text \<open>
  A fresh tree ends with its patches as commits beyond the pin, which is what the check for local
  commits counts: from then on the tree is kept, whatever source, tag or patches the unit declares.
\<close>

lemma patched_tree_kept:
  "ex_prepared [''/p/build/alpine/x.x86_64/src/.git''] StatePin = (Inr ''/p/build/alpine/x.x86_64/src'', [])"
  "Prepare (ex_ws [''/p/build/alpine/x.x86_64/src/.git'']) ''/p'' ''x86_64'' ''alpine''
     (ex_source\<lparr>uSource := ''https://e.org/x-2.tar.gz'', uVersion := ''2'', uPatches := []\<rparr>) StatePin [] [] =
     (Inr ''/p/build/alpine/x.x86_64/src'', [])"
  by code_simp+

end
