(* ===== verification/Guarded.thy ===== *)
theory Guarded
  imports Trace
begin

text \<open>
  Contracts that depend on what was done before: a guard says of an action whether it may be
  taken after a history, and a computation is careful when each of its actions is one its guard
  allows, whatever the history it starts from and also when it ends with an error.
\<close>

type_synonym 'a guard = "'a list \<Rightarrow> 'a \<Rightarrow> bool"

definition guarded :: "'a guard \<Rightarrow> 'a list \<Rightarrow> 'a list \<Rightarrow> bool" where
  "guarded G h xs \<longleftrightarrow> (\<forall>ys a zs. xs = ys @ a # zs \<longrightarrow> G (h @ ys) a)"

lemma guardedD: "guarded G h (ys @ a # zs) \<Longrightarrow> G (h @ ys) a"
  unfolding guarded_def by blast

lemma guarded_all: "list_all (\<lambda>a. \<forall>k. G k a) xs \<Longrightarrow> guarded G h xs"
  by (auto simp: guarded_def)

lemma guarded_one: "G h a \<Longrightarrow> guarded G h [a]"
  by (auto simp: guarded_def Cons_eq_append_conv)

lemma append_middle:
  assumes "xs @ ys = as @ b # bs"
  shows "(\<exists>cs. xs = as @ b # cs) \<or> (\<exists>cs. as = xs @ cs \<and> ys = cs @ b # bs)"
proof (cases "length xs \<le> length as")
  case True
  from assms have "xs @ ys = as @ (b # bs)" by simp
  then have "as = xs @ drop (length xs) as" using True by (metis append_eq_append_conv_if append_take_drop_id)
  with assms have "ys = drop (length xs) as @ b # bs" by (metis append.assoc same_append_eq)
  with \<open>as = xs @ drop (length xs) as\<close> show ?thesis by blast
next
  case False
  with assms have "as = take (length as) xs" by (metis append_eq_append_conv_if nle_le)
  with False assms obtain c cs where "xs = as @ c # cs"
    by (metis append_take_drop_id drop_eq_Nil list.exhaust)
  with assms show ?thesis by auto
qed

lemma guarded_append:
  assumes "guarded G h xs" and "guarded G (h @ xs) ys"
  shows "guarded G h (xs @ ys)"
  unfolding guarded_def
proof (intro allI impI)
  fix as a bs
  assume eq: "xs @ ys = as @ a # bs"
  from append_middle [OF eq]
  consider (left) cs where "xs = as @ a # cs" | (right) cs where "as = xs @ cs" "ys = cs @ a # bs"
    by blast
  then show "G (h @ as) a"
  proof cases
    case left
    with guardedD [of G h as a cs] assms(1) show ?thesis by simp
  next
    case right
    with guardedD [of G "h @ xs" cs a bs] assms(2) show ?thesis by simp
  qed
qed

text \<open>What is done after a history is done after it.\<close>

lemma guarded_after: "guarded G h xs \<Longrightarrow> guarded (\<lambda>k a. G k a \<and> (\<exists>vs. k = h @ vs)) h xs"
  by (auto simp: guarded_def)

lemma guarded_mono: "guarded G h xs \<Longrightarrow> (\<And>k a. G k a \<Longrightarrow> G' k a) \<Longrightarrow> guarded G' h xs"
  unfolding guarded_def by blast

section \<open>Careful computations\<close>

definition careful :: "'a guard \<Rightarrow> ('e, 'a, 'x) trace \<Rightarrow> bool" where
  "careful G m \<longleftrightarrow> (\<forall>h. \<exists>xs. snd (m h) = h @ xs \<and> guarded G h xs)"

lemma carefulE:
  assumes "careful G m"
  obtains xs where "snd (m h) = h @ xs" "guarded G h xs"
  using assms unfolding careful_def by blast

named_theorems careful_rules

lemma careful_only: "only (\<lambda>a. \<forall>k. G k a) m \<Longrightarrow> careful G m"
  unfolding only_def careful_def using guarded_all by blast

text \<open>One computation after another, at the history the first was started from.\<close>

lemma careful_bnd_at:
  assumes "snd (m h) = h @ xs" and "guarded G h xs"
    and "\<And>x. m h = (Inr x, h @ xs) \<Longrightarrow> \<exists>ys. snd (f x (h @ xs)) = (h @ xs) @ ys \<and> guarded G (h @ xs) ys"
  shows "\<exists>xs. snd (bnd m f h) = h @ xs \<and> guarded G h xs"
proof (cases "fst (m h)")
  case (Inl e)
  with assms(1,2) show ?thesis by (auto simp: bnd_def split: prod.split)
next
  case (Inr x)
  with assms(1) have "m h = (Inr x, h @ xs)" by (simp add: prod_eq_iff)
  with assms(3) obtain ys where "snd (f x (h @ xs)) = (h @ xs) @ ys" "guarded G (h @ xs) ys" by blast
  with \<open>m h = (Inr x, h @ xs)\<close> guarded_append [OF assms(2)] show ?thesis
    by (intro exI [of _ "xs @ ys"]) (auto simp: bnd_def)
qed

lemma careful_bnd [careful_rules]:
  assumes "careful G m" and "\<And>x. careful G (f x)"
  shows "careful G (bnd m f)"
  unfolding careful_def
proof
  fix h
  obtain xs where xs: "snd (m h) = h @ xs" "guarded G h xs" using assms(1) by (rule carefulE)
  show "\<exists>xs. snd (bnd m f h) = h @ xs \<and> guarded G h xs"
    by (rule careful_bnd_at [where m = m, OF xs]) (rule carefulE [OF assms(2)], blast)
qed

lemma careful_ret [careful_rules]: "careful G (ret x)"
  by (rule careful_only) (rule only_ret)

lemma careful_throw [careful_rules]: "careful G (throw e)"
  by (rule careful_only) (rule only_throw)

lemma careful_attempt [careful_rules]: "(\<And>h. G h a) \<Longrightarrow> careful G (attempt err a)"
  using guarded_one [of G] by (auto simp: careful_def attempt_def split: option.split)

lemma careful_asking [careful_rules]: "(\<And>h. G h a) \<Longrightarrow> careful G (asking f a)"
  using guarded_one [of G] by (auto simp: careful_def asking_def)

lemma careful_wrapping [careful_rules]: "careful G m \<Longrightarrow> careful G (wrapping g m)"
  by (simp add: careful_def)

lemma careful_each [careful_rules]: "(\<And>x. x \<in> set xs \<Longrightarrow> careful G (f x)) \<Longrightarrow> careful G (each f xs)"
  by (induction xs) (simp_all add: careful_ret careful_bnd)

lemma careful_if [careful_rules]:
  "(c \<Longrightarrow> careful G m) \<Longrightarrow> (\<not> c \<Longrightarrow> careful G n) \<Longrightarrow> careful G (if c then m else n)"
  by simp

lemma careful_case_option [careful_rules]:
  "careful G m \<Longrightarrow> (\<And>x. s = Some x \<Longrightarrow> careful G (g x)) \<Longrightarrow> careful G (case s of None \<Rightarrow> m | Some x \<Rightarrow> g x)"
  by (cases s) simp_all

lemma careful_case_sum [careful_rules]:
  "(\<And>e. s = Inl e \<Longrightarrow> careful G (f e)) \<Longrightarrow> (\<And>x. s = Inr x \<Longrightarrow> careful G (g x)) \<Longrightarrow> careful G (case s of Inl e \<Rightarrow> f e | Inr x \<Rightarrow> g x)"
  by (cases s) simp_all

lemma careful_history: "(\<And>k. careful G (F k)) \<Longrightarrow> careful G (\<lambda>h. F h h)"
  unfolding careful_def by blast

lemma careful_mono: "careful G m \<Longrightarrow> (\<And>h a. G h a \<Longrightarrow> G' h a) \<Longrightarrow> careful G' m"
  unfolding careful_def guarded_def by meson

text \<open>A run over a list that succeeds has a run of each of its elements that succeeds, in order.\<close>

lemma each_Inr:
  assumes "each f xs h = (Inr u, h')" and "x \<in> set xs" and "\<And>x. x \<in> set xs \<Longrightarrow> only (\<lambda>_. True) (f x)"
  shows "\<exists>h1 h2 ys. f x h1 = (Inr (), h2) \<and> h' = h2 @ ys"
  using assms
proof (induction xs arbitrary: h)
  case (Cons y xs)
  from Cons.prems(1) obtain h1 where first: "f y h = (Inr (), h1)" and rest: "each f xs h1 = (Inr u, h')"
    by (auto elim!: bnd_Inr)
  show ?case
  proof (cases "x = y")
    case True
    have "only (\<lambda>_. True) (each f xs)" by (intro only_each Cons.prems(3)) simp
    from onlyE [OF this, of h1] rest obtain ys where "h' = h1 @ ys" by (metis snd_conv)
    with first True show ?thesis by blast
  next
    case False
    with Cons.IH [OF rest] Cons.prems(2,3) show ?thesis by simp
  qed
qed simp

end
