(* ===== verification/GitTree.thy ===== *)
theory GitTree
  imports Guarded Retry Workspace Plan
begin

text \<open>
  Work trees that a person may own, from \<^verbatim>\<open>internal/gitutil/gitutil.go\<close>: commands in a tree, the
  two forms of a clone URL and the fetch from origin. What is done to a tree is recorded; git
  answers as a function of what was done before. Theories ModuleTree and DevMode use it for the
  clones of modules and the sources of units.
\<close>

section \<open>Actions\<close>

datatype tree_action =
    Git string "string list"
  | Pause nat
  | Patching ws_action
  | Cloning git_op
  | MakeDirectory string
  | SaveState string State
  | DropState string
  | AppendLine string string
  | SaveMeta string BuildMeta
  | SaveText string string
  | RemoveFile string

datatype TreeError =
    NotARepository string
  | NotGitSource name string
  | BranchWithoutTag name
  | NoTag name
  | UncommittedEdits name
  | LocalCommits name
  | NotInDevMode name State
  | LocallyOverridden name
  | NoCloneDir name
  | GitFailure string "string list" string
  | FetchFailure string
  | CloneFailure name
  | PullRefused State string
  | PatchFailure SourceError
  | FileFailure string
  | NoStarFile name
  | StarRewrite string
  | NoBuildDir name
  | NoSuchUnit name

text \<open>
  The world: the text of a failure or the output of the command a history ends with; what stat
  and the commands of the state detection see after a history; whether the last file action
  succeeded; the worlds of patches and clones; the state files, build records, texts and
  directories that are read, and the paths that exist; the parts of a URL.
\<close>

record tree_world =
  twGit :: "tree_action list \<Rightarrow> string + string"
  twTree :: "tree_action list \<Rightarrow> GitWorld"
  twDoes :: "tree_action list \<Rightarrow> bool"
  twPatch :: "tree_action list \<Rightarrow> ws_world"
  twClone :: "tree_action list \<Rightarrow> git_world"
  twState :: "tree_action list \<Rightarrow> string \<Rightarrow> State option"
  twMeta :: "tree_action list \<Rightarrow> string \<Rightarrow> BuildMeta option"
  twRead :: "tree_action list \<Rightarrow> string \<Rightarrow> string option"
  twDir :: "tree_action list \<Rightarrow> string \<Rightarrow> (string \<times> bool) list option"
  twPaths :: "tree_action list \<Rightarrow> string list"
  twURL :: "string \<Rightarrow> (string \<times> string \<times> string) option"

type_synonym 'x tree = "(TreeError, tree_action, 'x) trace"

text \<open>A look at the world that changes nothing, and a computation whose error is ignored.\<close>

definition looking :: "(tree_action list \<Rightarrow> 'x) \<Rightarrow> 'x tree" where
  "looking f h = (Inr (f h), h)"

definition quietly :: "'x tree \<Rightarrow> unit tree" where
  "quietly m h = (Inr (), snd (m h))"

definition git :: "tree_world \<Rightarrow> string \<Rightarrow> string list \<Rightarrow> (string + string) tree" where
  "git w dir args = asking (twGit w) (Git dir args)"

definition git_must :: "tree_world \<Rightarrow> string \<Rightarrow> string list \<Rightarrow> string tree" where
  "git_must w dir args =
     bnd (git w dir args) (\<lambda>r. case r of Inl err \<Rightarrow> throw (GitFailure dir args err) | Inr out \<Rightarrow> ret out)"

definition file_must :: "tree_world \<Rightarrow> string \<Rightarrow> tree_action \<Rightarrow> unit tree" where
  "file_must w file = attempt (\<lambda>h. if twDoes w h then None else Some (FileFailure file))"

definition is_repo :: "tree_world \<Rightarrow> string \<Rightarrow> tree_action list \<Rightarrow> bool" where
  "is_repo w dir h \<longleftrightarrow> gwStat (twTree w h) (PathJoin [dir, ''.git'']) = StatOk"

section \<open>URLs\<close>

definition HTTPSToSSH :: "(string \<Rightarrow> (string \<times> string \<times> string) option) \<Rightarrow> string \<Rightarrow> string \<times> bool" where
  "HTTPSToSSH parse url =
     (case parse url of
        None \<Rightarrow> (url, False)
      | Some (scheme, host, p) \<Rightarrow>
          (let path = TrimPrefix p ''/'' in
           if scheme \<noteq> ''https'' \<or> path = [] then (url, False)
           else (''git@'' @ host @ '':'' @ path, True)))"

definition Cut :: "string \<Rightarrow> char \<Rightarrow> (string \<times> string) option" where
  "Cut s c = (case IndexByte s c of None \<Rightarrow> None | Some i \<Rightarrow> Some (take i s, drop (Suc i) s))"

text \<open>A host without the user in front of it.\<close>

definition host_of :: "string \<Rightarrow> string" where
  "host_of s = (case Cut s CHR ''@'' of None \<Rightarrow> s | Some (_, h) \<Rightarrow> h)"

definition https_url :: "string \<Rightarrow> string \<Rightarrow> string" where
  "https_url host path = ''https://'' @ host @ ''/'' @ path"

definition SSHToHTTPS :: "string \<Rightarrow> string \<times> bool" where
  "SSHToHTTPS url =
     (if HasPrefix url ''ssh://'' then
        (case Cut (TrimPrefix url ''ssh://'') CHR ''/'' of
           None \<Rightarrow> (url, False)
         | Some (host, path) \<Rightarrow>
             if path = [] \<or> host_of host = [] then (url, False) else (https_url (host_of host) path, True))
      else if Contains url ''://'' then (url, False)
      else case Cut url CHR '':'' of
        None \<Rightarrow> (url, False)
      | Some (host, path) \<Rightarrow>
          if CHR ''/'' \<in> set host \<or> host_of host = [] \<or> path = [] then (url, False)
          else (https_url (host_of host) path, True))"

section \<open>Fetching\<close>

record FetchOptions =
  foDepth :: int
  foWidenRefspec :: bool
  foPinnedRef :: string
  foSkipWhenFull :: bool

definition all_branches :: string where
  "all_branches = ''+refs/heads/*:refs/remotes/origin/*''"

definition widenRefspec :: "tree_world \<Rightarrow> string \<Rightarrow> unit tree" where
  "widenRefspec w dir =
     bnd (git w dir [''config'', ''--get-all'', ''remote.origin.fetch'']) (\<lambda>r.
       if (case r of Inl _ \<Rightarrow> False | Inr current \<Rightarrow> list_ex (\<lambda>l. TrimSpace l = all_branches) (Split current CHR 0x0A)) then ret ()
       else bnd (git_must w dir [''config'', ''--replace-all'', ''remote.origin.fetch'', all_branches]) (\<lambda>_. ret ()))"

definition fetch_plan :: "FetchOptions \<Rightarrow> bool \<Rightarrow> string list option" where
  "fetch_plan opts shallow =
     (if foDepth opts > 0
      then Some ([''fetch'', ''--depth='' @ Itoa (foDepth opts), ''--filter=blob:none'', ''origin''] @
                 (if foPinnedRef opts = [] then [] else [foPinnedRef opts]))
      else if shallow then Some [''fetch'', ''--unshallow'', ''origin'']
      else if foSkipWhenFull opts then None
      else Some [''fetch'', ''origin''])"

text \<open>A command on the network, under the retries of theory Retry.\<close>

definition git_attempt :: "tree_world \<Rightarrow> string \<Rightarrow> string list \<Rightarrow> tree_action list \<Rightarrow> (string \<times> GitError + string) \<times> tree_action list" where
  "git_attempt w dir args h =
     (let h' = h @ [Git dir args] in
      case twGit w h' of Inl out \<Rightarrow> (Inl (out, GitFailed out), h') | Inr out \<Rightarrow> (Inr out, h'))"

definition git_retrying :: "tree_world \<Rightarrow> string \<Rightarrow> string list \<Rightarrow> unit tree" where
  "git_retrying w dir args h =
     (case retry_loop (\<lambda>n h. h @ [Pause (Backoff n)]) (git_attempt w dir args) git_permanent Retries Retries None h of
        (Inl _, h') \<Rightarrow> (Inl (FetchFailure dir), h')
      | (Inr _, h') \<Rightarrow> (Inr (), h'))"

definition FetchOrigin :: "tree_world \<Rightarrow> string \<Rightarrow> FetchOptions \<Rightarrow> unit tree" where
  "FetchOrigin w dir opts =
     bnd (if foWidenRefspec opts then widenRefspec w dir else ret ()) (\<lambda>_.
     bnd (git w dir [''rev-parse'', ''--is-shallow-repository'']) (\<lambda>r.
       case fetch_plan opts (case r of Inl _ \<Rightarrow> False | Inr out \<Rightarrow> TrimSpace out = ''true'') of
         None \<Rightarrow> ret ()
       | Some args \<Rightarrow> git_retrying w dir args))"

section \<open>Contracts\<close>

lemma only_looking [only_rules]: "only P (looking f)"
  by (simp add: only_def looking_def)

lemma only_quietly [only_rules]: "only P m \<Longrightarrow> only P (quietly m)"
  by (simp add: only_def quietly_def)

lemma only_git [only_rules]: "P (Git dir args) \<Longrightarrow> only P (git w dir args)"
  unfolding git_def by (rule only_asking)

lemma only_git_must [only_rules]: "P (Git dir args) \<Longrightarrow> only P (git_must w dir args)"
  unfolding git_must_def by (intro only_rules)

lemma only_file_must [only_rules]: "P a \<Longrightarrow> only P (file_must w f a)"
  unfolding file_must_def by (rule only_attempt)

lemma only_git_retrying [only_rules]:
  assumes "P (Git dir args)" and "\<And>n. P (Pause n)"
  shows "only P (git_retrying w dir args)"
  unfolding only_def
proof
  fix h
  let ?I = "\<lambda>k. \<exists>xs. k = h @ xs \<and> list_all P xs"
  have step: "?I k'" if "?I k" "git_attempt w dir args k = (r, k')" for k r k'
    using that assms(1) by (fastforce simp: git_attempt_def Let_def split: sum.splits)
  have "case retry_loop (\<lambda>n h. h @ [Pause (Backoff n)]) (git_attempt w dir args) git_permanent Retries Retries None h of
      (Inl _, k) \<Rightarrow> ?I k | (Inr a, k) \<Rightarrow> ?I k"
    by (rule retry_loop_invariant [where I = ?I and Q = "\<lambda>_. ?I"]) (use step assms(2) in auto)
  then show "?I (snd (git_retrying w dir args h))"
    by (simp add: git_retrying_def split: prod.splits sum.splits)
qed

lemma only_widenRefspec [only_rules]: "(\<And>args. P (Git dir (''config'' # args))) \<Longrightarrow> only P (widenRefspec w dir)"
  unfolding widenRefspec_def by (intro only_rules)

text \<open>Fetching from origin changes no work tree.\<close>

lemma only_FetchOrigin [only_rules]:
  assumes "\<And>c args. c \<in> {''config'', ''rev-parse'', ''fetch''} \<Longrightarrow> P (Git dir (c # args))" and "\<And>n. P (Pause n)"
  shows "only P (FetchOrigin w dir opts)"
proof -
  have "only P (case fetch_plan opts b of None \<Rightarrow> ret () | Some args \<Rightarrow> git_retrying w dir args)" for b
    by (simp add: fetch_plan_def only_ret only_git_retrying assms)
  moreover have "only P (widenRefspec w dir)" by (intro only_widenRefspec assms) simp
  moreover have "only P (git w dir [''rev-parse'', ''--is-shallow-repository''])" by (intro only_git assms) simp
  ultimately show ?thesis unfolding FetchOrigin_def by (intro only_bnd only_if only_ret) simp_all
qed

section \<open>Who moves a tree\<close>

text \<open>A command that moves the work tree or drops commits.\<close>

definition moves_tree :: "string list \<Rightarrow> bool" where
  "moves_tree args \<longleftrightarrow> args \<noteq> [] \<and> hd args \<in> {''checkout'', ''reset'', ''clean'', ''switch'', ''rebase''}"

fun moving :: "tree_action \<Rightarrow> bool" where
  "moving (Git d args) = moves_tree args"
| "moving _ = False"

text \<open>
  Work trees are guarded by what may move them: a command that moves a tree must be one that a
  guard allows after the history before it, and everything else is free.
\<close>

definition tree_guard :: "(tree_action list \<Rightarrow> string \<Rightarrow> string list \<Rightarrow> bool) \<Rightarrow> tree_action guard" where
  "tree_guard G k a \<longleftrightarrow> (\<forall>d args. a = Git d args \<and> moves_tree args \<longrightarrow> G k d args)"

lemma tree_guard_still [simp]: "\<not> moving a \<Longrightarrow> tree_guard G k a"
  by (auto simp: tree_guard_def)

lemma tree_guard_Git [simp]: "tree_guard G k (Git d args) \<longleftrightarrow> (moves_tree args \<longrightarrow> G k d args)"
  by (simp add: tree_guard_def)

lemma tree_guardedD: "guarded (tree_guard G) h (ys @ Git d args # zs) \<Longrightarrow> moves_tree args \<Longrightarrow> G (h @ ys) d args"
  by (drule guardedD) simp

lemma guarded_still: "list_all (\<lambda>a. \<not> moving a) xs \<Longrightarrow> guarded (tree_guard G) h xs"
  by (rule guarded_all) (simp add: list_all_iff)

lemma careful_still: "only (\<lambda>a. \<not> moving a) m \<Longrightarrow> careful (tree_guard G) m"
  by (rule careful_only, erule only_mono) simp

lemma careful_looking [careful_rules]: "careful G (looking f)"
  by (rule careful_only) (rule only_looking)

lemma careful_quietly [careful_rules]: "careful G m \<Longrightarrow> careful G (quietly m)"
  by (simp add: careful_def quietly_def)

lemma careful_git [careful_rules]: "(\<And>h. moves_tree args \<Longrightarrow> G h dir args) \<Longrightarrow> careful (tree_guard G) (git w dir args)"
  unfolding git_def by (rule careful_asking) simp

lemma careful_git_must [careful_rules]:
  "(\<And>h. moves_tree args \<Longrightarrow> G h dir args) \<Longrightarrow> careful (tree_guard G) (git_must w dir args)"
  unfolding git_must_def by (intro careful_rules)

lemma careful_file_must [careful_rules]: "\<not> moving a \<Longrightarrow> careful (tree_guard G) (file_must w f a)"
  unfolding file_must_def by (rule careful_attempt) simp

lemma careful_FetchOrigin [careful_rules]: "careful (tree_guard G) (FetchOrigin w dir opts)"
  by (rule careful_still, rule only_FetchOrigin) (auto simp: moves_tree_def)

section \<open>The two forms of a URL\<close>

lemma Cut_append: "c \<notin> set s \<Longrightarrow> Cut (s @ c # t) c = Some (s, t)"
  by (simp add: Cut_def IndexByte_append)

lemma host_of_user: "CHR ''@'' \<notin> set u \<Longrightarrow> host_of (u @ CHR ''@'' # h) = h"
  by (simp add: host_of_def Cut_append)

text \<open>
  Switching an https remote to ssh and back gives the same URL, for a host without port whose
  URL the parser splits as written.
\<close>

lemma https_ssh_roundtrip:
  assumes "parse (https_url host path) = Some (''https'', host, CHR ''/'' # path)" and "path \<noteq> []" and "host \<noteq> []"
    and "CHR '':'' \<notin> set host" and "CHR ''/'' \<notin> set host" and "\<not> Contains (''git@'' @ host @ '':'' @ path) ''://''"
  shows "HTTPSToSSH parse (https_url host path) = (''git@'' @ host @ '':'' @ path, True)"
    and "SSHToHTTPS (''git@'' @ host @ '':'' @ path) = (https_url host path, True)"
proof -
  have "TrimPrefix (CHR ''/'' # path) ''/'' = path" by (simp add: TrimPrefix_def HasPrefix_def)
  with assms(1,2) show "HTTPSToSSH parse (https_url host path) = (''git@'' @ host @ '':'' @ path, True)"
    by (simp add: HTTPSToSSH_def Let_def)
  have "Cut ((''git@'' @ host) @ CHR '':'' # path) CHR '':'' = Some (''git@'' @ host, path)"
    by (rule Cut_append) (use assms(4) in simp)
  moreover have "host_of (''git'' @ CHR ''@'' # host) = host" by (rule host_of_user) simp
  moreover have "\<not> HasPrefix (''git@'' @ host @ '':'' @ path) ''ssh://''" by (simp add: HasPrefix_def)
  ultimately show "SSHToHTTPS (''git@'' @ host @ '':'' @ path) = (https_url host path, True)"
    using assms(2,3,5,6) by (simp add: SSHToHTTPS_def)
qed

text \<open>A port in the URL becomes part of the path of the ssh form, which is then no URL of the host.\<close>

lemma https_port_mangled:
  "fst (HTTPSToSSH (\<lambda>_. Some (''https'', ''h:8443'', ''/p'')) ''https://h:8443/p'') = ''git@h:8443:p''"
  "SSHToHTTPS ''git@h:8443:p'' = (''https://h/8443:p'', True)"
  by code_simp+

end
