(* ===== verification/ModuleTree.thy ===== *)
theory ModuleTree
  imports GitTree Units
begin

text \<open>
  The clones of modules, from \<^verbatim>\<open>internal/module\<close>: fetching them, the two switches between pin and
  development mode, and the pull of a clone in development mode. A clone in development mode is
  its user's, and every command that could move its work tree is guarded.
\<close>

section \<open>State files\<close>

definition stateFile :: string where
  "stateFile = ''.yoe-state.json''"

definition StatePath :: "string \<Rightarrow> string" where
  "StatePath moduleDir = PathJoin [moduleDir, stateFile]"

definition ReadState :: "tree_world \<Rightarrow> tree_action list \<Rightarrow> string \<Rightarrow> State" where
  "ReadState w h moduleDir = (case twState w h (StatePath moduleDir) of None \<Rightarrow> StateEmpty | Some s \<Rightarrow> s)"

definition WriteState :: "tree_world \<Rightarrow> string \<Rightarrow> State \<Rightarrow> unit tree" where
  "WriteState w moduleDir s =
     file_must w (StatePath moduleDir)
       (if s = StateEmpty then DropState (StatePath moduleDir) else SaveState (StatePath moduleDir) s)"

definition moduleState :: "tree_world \<Rightarrow> tree_action list \<Rightarrow> string \<Rightarrow> State" where
  "moduleState w h moduleDir =
     (let cached = ReadState w h moduleDir in
      case DetectState (twTree w h) moduleDir cached of
        (s, err) \<Rightarrow> if err then (if IsDev cached then cached else StateEmpty) else s)"

section \<open>Fetching\<close>

definition module_CacheDir :: "string \<Rightarrow> string" where
  "module_CacheDir env = PathJoin [if env = [] then ''cache'' else env, ''modules'']"

definition ModuleName :: "ModuleRef \<Rightarrow> name" where
  "ModuleName m = (if mfPath m \<noteq> [] then Base (mfPath m) else Base (TrimSuffix (mfURL m) ''.git''))"

definition declared_ref :: "string \<Rightarrow> string" where
  "declared_ref ref = (if ref = [] then ''main'' else ref)"

definition module_root :: "string \<Rightarrow> ModuleRef \<Rightarrow> string" where
  "module_root moduleDir m = (if mfPath m \<noteq> [] then PathJoin [moduleDir, mfPath m] else moduleDir)"

definition cloneModule :: "tree_world \<Rightarrow> name \<Rightarrow> string \<Rightarrow> string \<Rightarrow> string \<Rightarrow> unit tree" where
  "cloneModule w name url ref dest h =
     (case Clone (twClone w h) \<lparr>coURL = url, coRef = ref, coDest = dest, coBare = False, coDepth = 1\<rparr> [] of
        (Inl _, ops) \<Rightarrow> (Inl (CloneFailure name), h @ map Cloning ops)
      | (Inr _, ops) \<Rightarrow> (Inr (), h @ map Cloning ops))"

definition firstLine :: "string \<Rightarrow> string" where
  "firstLine s =
     (let t = TrimSpace s in case IndexByte t CHR 0x0A of None \<Rightarrow> t | Some i \<Rightarrow> TrimSpace (take i t))"

definition pullDevClone :: "tree_world \<Rightarrow> string \<Rightarrow> State \<Rightarrow> string tree" where
  "pullDevClone w repo s =
     bnd (git w repo [''pull'', ''--ff-only'']) (\<lambda>r.
       case r of
         Inl err \<Rightarrow> throw (PullRefused s (firstLine err))
       | Inr out \<Rightarrow>
           bnd (if s = StateDev then quietly (git w repo [''tag'', ''-f'', PinTag, ''HEAD'']) else ret ()) (\<lambda>_.
             ret (firstLine out)))"

definition sync_tree :: "tree_world \<Rightarrow> string \<Rightarrow> ModuleRef \<Rightarrow> unit tree" where
  "sync_tree w moduleDir m =
     bnd (looking (\<lambda>h. (gwStat (twTree w h) (PathJoin [moduleDir, ''.git'']), moduleState w h moduleDir))) (\<lambda>(st, s).
       let ref = declared_ref (mfRef m) in
       if st = StatNotExist then cloneModule w (ModuleName m) (mfURL m) ref moduleDir
       else if IsDev s then quietly (pullDevClone w moduleDir s)
       else bnd (git_retrying w moduleDir [''fetch'', ''origin'', ref]) (\<lambda>_.
              bnd (git_must w moduleDir [''checkout'', ''FETCH_HEAD'']) (\<lambda>_. ret ())))"

definition sync_module :: "tree_world \<Rightarrow> string \<Rightarrow> ModuleRef \<Rightarrow> string tree" where
  "sync_module w cacheDir m =
     (let moduleDir = PathJoin [cacheDir, ModuleName m] in
      if mfLocal m \<noteq> [] then ret (mfLocal m)
      else bnd (sync_tree w moduleDir m) (\<lambda>_. ret (module_root moduleDir m)))"

fun sync_modules :: "tree_world \<Rightarrow> string \<Rightarrow> ModuleRef list \<Rightarrow> (name, string) gomap \<Rightarrow> (name, string) gomap tree" where
  "sync_modules w cacheDir [] result = ret result"
| "sync_modules w cacheDir (m # ms) result =
     bnd (sync_module w cacheDir m) (\<lambda>dir. sync_modules w cacheDir ms (gm_put (ModuleName m) dir result))"

definition Sync :: "tree_world \<Rightarrow> string \<Rightarrow> ModuleRef list \<Rightarrow> (name, string) gomap tree" where
  "Sync w env ms =
     bnd (file_must w (module_CacheDir env) (MakeDirectory (module_CacheDir env))) (\<lambda>_. sync_modules w (module_CacheDir env) ms [])"

definition clone_missing :: "tree_world \<Rightarrow> string \<Rightarrow> ModuleRef \<Rightarrow> unit tree" where
  "clone_missing w cacheDir m =
     (let moduleDir = PathJoin [cacheDir, ModuleName m] in
      if mfLocal m \<noteq> [] then ret ()
      else bnd (looking (is_repo w moduleDir)) (\<lambda>there.
             if there then ret () else cloneModule w (ModuleName m) (mfURL m) (declared_ref (mfRef m)) moduleDir))"

definition SyncIfNeeded :: "tree_world \<Rightarrow> string \<Rightarrow> ModuleRef list \<Rightarrow> unit tree" where
  "SyncIfNeeded w env ms =
     bnd (file_must w (module_CacheDir env) (MakeDirectory (module_CacheDir env))) (\<lambda>_. each (clone_missing w (module_CacheDir env)) ms)"

text \<open>Where the modules of a project are: local overrides, and what the cache has.\<close>

definition module_path :: "(string \<Rightarrow> bool) \<Rightarrow> string \<Rightarrow> string \<Rightarrow> ModuleRef \<Rightarrow> string option" where
  "module_path exists cacheDir projectRoot m =
     (if mfLocal m \<noteq> [] then Some (if IsAbs (mfLocal m) then mfLocal m else PathJoin [projectRoot, mfLocal m])
      else (let moduleDir = PathJoin [cacheDir, ModuleName m] in
            if exists moduleDir then Some (module_root moduleDir m) else None))"

definition ResolveModulePaths :: "(string \<Rightarrow> bool) \<Rightarrow> string \<Rightarrow> string \<Rightarrow> ModuleRef list \<Rightarrow> (name, string) gomap" where
  "ResolveModulePaths exists cacheDir projectRoot ms =
     fold (\<lambda>m result. case module_path exists cacheDir projectRoot m of
                          None \<Rightarrow> result | Some p \<Rightarrow> gm_put (ModuleName m) p result) ms []"

section \<open>Development mode\<close>

definition clone_dir :: "ResolvedModule \<Rightarrow> string" where
  "clone_dir m = (if rmCloneDir m = [] then rmDir m else rmCloneDir m)"

text \<open>What every operation on one module checks first.\<close>

definition with_clone :: "ResolvedModule \<Rightarrow> (string \<Rightarrow> 'x tree) \<Rightarrow> 'x tree" where
  "with_clone m f =
     (if rmLocal m \<noteq> [] then throw (LocallyOverridden (rmName m))
      else if clone_dir m = [] then throw (NoCloneDir (rmName m))
      else f (clone_dir m))"

definition PullDev :: "tree_world \<Rightarrow> ResolvedModule \<Rightarrow> string tree" where
  "PullDev w m =
     with_clone m (\<lambda>repo. bnd (looking (\<lambda>h. moduleState w h repo)) (\<lambda>s.
       if \<not> IsDev s then throw (NotInDevMode (rmName m) s) else pullDevClone w repo s))"

definition excludeFromGit :: "tree_world \<Rightarrow> string \<Rightarrow> string \<Rightarrow> unit tree" where
  "excludeFromGit w gitDir entry =
     (let excludePath = PathJoin [gitDir, ''.git'', ''info'', ''exclude''] in
      bnd (looking (\<lambda>h. twRead w h excludePath)) (\<lambda>existing.
        if (case existing of None \<Rightarrow> False | Some s \<Rightarrow> list_ex (\<lambda>l. TrimSpace l = entry) (Split s CHR 0x0A)) then ret ()
        else bnd (file_must w excludePath (MakeDirectory (Dir excludePath))) (\<lambda>_.
               file_must w excludePath (AppendLine excludePath entry))))"

definition set_scheme :: "tree_world \<Rightarrow> bool \<Rightarrow> string \<Rightarrow> unit tree" where
  "set_scheme w ssh repo =
     bnd (git w repo [''remote'', ''get-url'', ''origin'']) (\<lambda>r.
       case r of
         Inl _ \<Rightarrow> ret ()
       | Inr out \<Rightarrow>
           (case (if ssh then HTTPSToSSH (twURL w) (TrimSpace out) else SSHToHTTPS (TrimSpace out)) of
              (rewrote, ok) \<Rightarrow>
                if ok then bnd (git_must w repo [''remote'', ''set-url'', ''origin'', rewrote]) (\<lambda>_. ret ()) else ret ()))"

definition ModuleToUpstream :: "tree_world \<Rightarrow> ResolvedModule \<Rightarrow> bool \<Rightarrow> int \<Rightarrow> unit tree" where
  "ModuleToUpstream w m ssh depth =
     with_clone m (\<lambda>repo. bnd (looking (is_repo w repo)) (\<lambda>there.
       if \<not> there then throw (NotARepository repo)
       else bnd (set_scheme w ssh repo) (\<lambda>_.
            bnd (FetchOrigin w repo \<lparr>foDepth = depth, foWidenRefspec = True, foPinnedRef = rmRef m, foSkipWhenFull = True\<rparr>) (\<lambda>_.
            bnd (git_must w repo [''tag'', ''-f'', PinTag, ''HEAD'']) (\<lambda>_.
            bnd (quietly (excludeFromGit w repo stateFile)) (\<lambda>_.
              WriteState w repo StateDev))))))"

definition refuse_work :: "name \<Rightarrow> State \<Rightarrow> unit tree" where
  "refuse_work name s =
     (if s = StateDevDirty then throw (UncommittedEdits name)
      else if s = StateDevMod then throw (LocalCommits name)
      else ret ())"

definition ModuleToPin :: "tree_world \<Rightarrow> ResolvedModule \<Rightarrow> bool \<Rightarrow> unit tree" where
  "ModuleToPin w m force =
     with_clone m (\<lambda>repo.
       bnd (looking (\<lambda>h. fst (DetectState (twTree w h) repo (ReadState w h repo)))) (\<lambda>s.
       bnd (if force then ret () else refuse_work (rmName m) s) (\<lambda>_.
       bnd (git_must w repo [''fetch'', ''origin'', declared_ref (rmRef m)]) (\<lambda>_.
       bnd (git_must w repo [''reset'', ''--hard'', ''FETCH_HEAD'']) (\<lambda>_.
       bnd (quietly (git w repo [''tag'', ''-f'', PinTag, ''HEAD''])) (\<lambda>_.
         WriteState w repo StateEmpty))))))"

section \<open>Whose tree is moved\<close>

text \<open>
  The commands that fetching may put between the look at a clone and the command that moves its
  tree, and the guard of synchronisation: a tree moves only to what was just fetched, in a clone
  that was not in development mode when the fetch began.
\<close>

fun fetching :: "string \<Rightarrow> tree_action \<Rightarrow> bool" where
  "fetching d (Git d' args) = (d' = d \<and> args \<noteq> [] \<and> hd args = ''fetch'')"
| "fetching d (Pause n) = True"
| "fetching d _ = False"

definition sync_guard :: "tree_world \<Rightarrow> tree_action list \<Rightarrow> string \<Rightarrow> string list \<Rightarrow> bool" where
  "sync_guard w k d args \<longleftrightarrow>
     args = [''checkout'', ''FETCH_HEAD''] \<and>
     (\<exists>us vs. k = us @ vs \<and> \<not> IsDev (moduleState w us d) \<and> list_all (fetching d) vs)"

lemma still_cloneModule: "only (\<lambda>a. \<not> moving a) (cloneModule w name url ref dest)"
  by (auto simp: only_def cloneModule_def list_all_iff split: prod.split sum.split)

lemma still_pullDevClone: "only (\<lambda>a. \<not> moving a) (pullDevClone w repo s)"
  unfolding pullDevClone_def by (intro only_rules) (simp_all add: moves_tree_def)

lemma fetching_git_retrying: "only (fetching d) (git_retrying w d [''fetch'', ''origin'', ref])"
  by (rule only_git_retrying) simp_all

text \<open>The look at the tree is what makes the checkout after it a careful one.\<close>

lemma sync_checkout:
  assumes "\<not> IsDev (moduleState w h d)"
  shows "\<exists>xs. snd (bnd (git_retrying w d [''fetch'', ''origin'', ref]) (\<lambda>_.
            bnd (git_must w d [''checkout'', ''FETCH_HEAD'']) (\<lambda>_. ret ())) h) = h @ xs \<and> guarded (tree_guard (sync_guard w)) h xs"
proof -
  let ?co = "Git d [''checkout'', ''FETCH_HEAD'']"
  obtain vs where vs: "snd (git_retrying w d [''fetch'', ''origin'', ref] h) = h @ vs" "list_all (fetching d) vs"
    using fetching_git_retrying by (rule onlyE)
  then have still: "list_all (\<lambda>a. \<not> moving a) vs" by (auto simp: list_all_iff moves_tree_def elim!: fetching.elims)
  have "guarded (tree_guard (sync_guard w)) (h @ vs) [?co]"
    by (rule guarded_one) (use assms vs(2) in \<open>auto simp: sync_guard_def\<close>)
  then have one: "guarded (tree_guard (sync_guard w)) h (vs @ [?co])" by (rule guarded_append [OF guarded_still [OF still]])
  show ?thesis
  proof (cases "fst (git_retrying w d [''fetch'', ''origin'', ref] h)")
    case (Inl e)
    with vs guarded_still [OF still] show ?thesis by (auto simp: bnd_def split: prod.split)
  next
    case (Inr x)
    with vs one show ?thesis
      by (intro exI [of _ "vs @ [?co]"])
        (auto simp: bnd_def git_must_def git_def asking_def throw_def ret_def split: prod.split sum.split)
  qed
qed

lemma careful_sync_tree: "careful (tree_guard (sync_guard w)) (sync_tree w moduleDir m)"
  unfolding careful_def
proof
  fix h
  let ?s = "moduleState w h moduleDir"
  note unfolded = sync_tree_def bnd_def [of "looking _"] looking_def Let_def
  consider (clone) "gwStat (twTree w h) (PathJoin [moduleDir, ''.git'']) = StatNotExist"
    | (dev) "gwStat (twTree w h) (PathJoin [moduleDir, ''.git'']) \<noteq> StatNotExist" "IsDev ?s"
    | (pin) "gwStat (twTree w h) (PathJoin [moduleDir, ''.git'']) \<noteq> StatNotExist" "\<not> IsDev ?s" by blast
  then show "\<exists>xs. snd (sync_tree w moduleDir m h) = h @ xs \<and> guarded (tree_guard (sync_guard w)) h xs"
  proof cases
    case clone
    then show ?thesis using careful_still [OF still_cloneModule] by (auto simp: unfolded careful_def)
  next
    case dev
    then show ?thesis using careful_still [OF only_quietly [OF still_pullDevClone]] by (auto simp: unfolded careful_def)
  next
    case pin
    with sync_checkout [OF pin(2)] show ?thesis by (simp add: unfolded)
  qed
qed

lemma careful_sync_modules: "careful (tree_guard (sync_guard w)) (sync_modules w cacheDir ms result)"
proof (induction ms arbitrary: result)
  case Nil
  then show ?case by (simp add: careful_ret)
next
  case (Cons m ms)
  have "careful (tree_guard (sync_guard w)) (sync_module w cacheDir m)"
    by (simp add: sync_module_def Let_def careful_ret careful_bnd careful_sync_tree)
  with Cons show ?case by (simp add: careful_bnd)
qed


text \<open>
  Returning a module to its pin discards nothing unless it is forced: with uncommitted edits
  or commits of its own the operation ends before its first command. It moves the tree only by
  one reset to what it fetched, and when it succeeds the state file is gone and the pin tag was
  set after the reset.
\<close>

theorem ModuleToPin_keeps_work:
  assumes "ModuleToPin w m force h = (r, h')"
    and "s = fst (DetectState (twTree w h) (clone_dir m) (ReadState w h (clone_dir m)))"
  shows "(\<not> force \<and> s \<in> {StateDevDirty, StateDevMod} \<longrightarrow> h' = h \<and> (\<exists>e. r = Inl e)) \<and>
    (\<exists>xs. h' = h @ xs \<and> xs = take (length xs)
       [Git (clone_dir m) [''fetch'', ''origin'', declared_ref (rmRef m)], Git (clone_dir m) [''reset'', ''--hard'', ''FETCH_HEAD''],
        Git (clone_dir m) [''tag'', ''-f'', PinTag, ''HEAD''], DropState (StatePath (clone_dir m))] \<and>
       (r = Inr () \<longrightarrow> length xs = 4))"
  using assms
  by (auto simp: ModuleToPin_def with_clone_def bnd_def looking_def refuse_work_def throw_def ret_def git_must_def git_def
      asking_def quietly_def WriteState_def file_must_def attempt_def state_defs
      split: if_splits sum.splits option.splits prod.splits)

section \<open>Examples\<close>

text \<open>A world in which every command succeeds; the tree of one clone has edits when asked for.\<close>

definition ex_trees :: "string \<Rightarrow> tree_world" where
  "ex_trees dirty = \<lparr>twGit = (\<lambda>h. Inr []),
     twTree = (\<lambda>h. \<lparr>gwStat = (\<lambda>_. StatOk),
       gwGit = (\<lambda>d args. if hd args = ''status'' then Some (if d = dirty then '' M x'' else []) else Some ''0''), gwSHA256 = id\<rparr>),
     twDoes = (\<lambda>_. True), twPatch = (\<lambda>_. \<lparr>wsStat = (\<lambda>_. StatOk), wsGit = (\<lambda>_ _. None), wsDoes = (\<lambda>_. True),
       wsFetch = (\<lambda>_ _. Inr []), wsBytes = (\<lambda>_. None), wsAbs = id\<rparr>),
     twClone = (\<lambda>_ _ _. (True, [])), twState = (\<lambda>_ p. if p = ''cache/modules/b/.yoe-state.json'' then Some StateDev else Some StatePin),
     twMeta = (\<lambda>_ _. None), twRead = (\<lambda>_ _. None), twDir = (\<lambda>_ _. None), twPaths = (\<lambda>_. []), twURL = (\<lambda>_. None)\<rparr>"

definition ex_modules :: "ModuleRef list" where
  "ex_modules = [\<lparr>mfURL = ''https://e.org/b.git'', mfRef = [], mfPath = [], mfLocal = []\<rparr>,
     \<lparr>mfURL = ''https://e.org/a.git'', mfRef = ''v1'', mfPath = ''mods/x'', mfLocal = []\<rparr>]"

lemma ex_sync:
  "Sync (ex_trees []) [] ex_modules [] =
     (Inr [(''b'', ''cache/modules/b''), (''x'', ''cache/modules/x/mods/x'')],
      [MakeDirectory ''cache/modules'', Git ''cache/modules/b'' [''pull'', ''--ff-only''],
       Git ''cache/modules/b'' [''tag'', ''-f'', ''yoe/pin'', ''HEAD''], Git ''cache/modules/x'' [''fetch'', ''origin'', ''v1''],
       Git ''cache/modules/x'' [''checkout'', ''FETCH_HEAD'']])"
  by code_simp


definition ex_module :: ResolvedModule where
  "ex_module = \<lparr>rmName = ''b'', rmURL = ''https://e.org/b.git'', rmRef = [], rmPath = [], rmLocal = [],
     rmDir = ''cache/modules/b'', rmCloneDir = [], rmAvailable = True\<rparr>"

theorem ModuleToPin_keeps_work_witness:
  "snd (ModuleToPin (ex_trees ''cache/modules/b'') ex_module False []) = [] \<and>
     (\<exists>e. fst (ModuleToPin (ex_trees ''cache/modules/b'') ex_module False []) = Inl e)"
proof -
  let ?w = "ex_trees ''cache/modules/b''"
  have run: "ModuleToPin ?w ex_module False [] = (fst (ModuleToPin ?w ex_module False []), snd (ModuleToPin ?w ex_module False []))"
    by simp
  have dirty: "StateDevDirty = fst (DetectState (twTree ?w []) (clone_dir ex_module) (ReadState ?w [] (clone_dir ex_module)))"
    by code_simp
  from ModuleToPin_keeps_work [OF run dirty] show ?thesis by simp
qed

text \<open>A clone in development mode is pulled or refused, never moved.\<close>

lemma PullDev_still: "only (\<lambda>a. \<not> moving a) (PullDev w m)"
  unfolding PullDev_def with_clone_def by (intro only_rules still_pullDevClone)

lemma ModuleToUpstream_still: "only (\<lambda>a. \<not> moving a) (ModuleToUpstream w m ssh depth)"
  unfolding ModuleToUpstream_def with_clone_def set_scheme_def excludeFromGit_def WriteState_def Let_def
  by (intro only_rules only_FetchOrigin allI impI) (auto simp: moves_tree_def intro!: only_rules split: prod.split)

text \<open>
  A state that git cannot tell counts as development mode without work of its own, and the
  error is dropped: a clone that has commits but no pin tag, such as one that was never
  switched to development mode, is reset without being asked for.
\<close>

definition ex_untagged :: tree_world where
  "ex_untagged = (ex_trees [])\<lparr>twTree := (\<lambda>h. \<lparr>gwStat = (\<lambda>_. StatOk),
     gwGit = (\<lambda>d args. if hd args = ''status'' then Some [] else None), gwSHA256 = id\<rparr>)\<rparr>"

lemma unprobed_commits_discarded:
  "DetectState (twTree ex_untagged []) (clone_dir ex_module) StateEmpty = (StateDev, True)"
  "Git (clone_dir ex_module) [''reset'', ''--hard'', ''FETCH_HEAD''] \<in> set (snd (ModuleToPin ex_untagged ex_module False []))"
  by code_simp+

end
