(* ===== verification/StarEdit.thy ===== *)
theory StarEdit
  imports GoStrings
begin

text \<open>
  The rewriting of one field of a unit in its .star file, from \<^verbatim>\<open>internal/starlark/edit.go\<close>. The
  regular expressions of the source are matchers here: each looks at the text from one line
  start on and answers with what its groups matched, and the search for the leftmost match goes
  from line start to line start.
\<close>

section \<open>Line starts\<close>

definition newline :: char where
  "newline = CHR 0x0A"

text \<open>\<^verbatim>\<open>\s\<close> of a regular expression.\<close>

definition reSpace :: "char \<Rightarrow> bool" where
  "reSpace c \<longleftrightarrow> c \<in> {CHR 0x09, CHR 0x0A, CHR 0x0C, CHR 0x0D, CHR '' ''}"

definition skip_space :: "string \<Rightarrow> string" where
  "skip_space s = dropWhile reSpace s"

definition expect :: "char \<Rightarrow> string \<Rightarrow> string option" where
  "expect x s = (case s of [] \<Rightarrow> None | c # t \<Rightarrow> if c = x then Some t else None)"

text \<open>The first line start at which a matcher answers, with the text before it.\<close>

fun first_line :: "(string \<Rightarrow> 'a option) \<Rightarrow> bool \<Rightarrow> string \<Rightarrow> (string \<times> 'a) option" where
  "first_line f bol [] = None"
| "first_line f bol (c # cs) =
     (case (if bol then f (c # cs) else None) of
        Some a \<Rightarrow> Some ([], a)
      | None \<Rightarrow> (case first_line f (c = newline) cs of None \<Rightarrow> None | Some (pre, a) \<Rightarrow> Some (c # pre, a)))"

section \<open>The block of a unit\<close>

definition openers :: "string list" where
  "openers = [''unit'', ''autotools'', ''cmake'', ''go_binary'', ''alpine_pkg'', ''binary'', ''image'', ''container'']"

text \<open>The text of an opener, up to its parenthesis, and what follows from the parenthesis on.\<close>

definition opener_at :: "string \<Rightarrow> (string \<times> string) option" where
  "opener_at s =
     (case List.find (HasPrefix s) openers of
        None \<Rightarrow> None
      | Some w \<Rightarrow>
          (let r = drop (length w) s in
           if expect CHR ''('' (skip_space r) = None then None else Some (w @ takeWhile reSpace r, skip_space r)))"

text \<open>Where the scan for the closing parenthesis is.\<close>

datatype scan_mode = Code | InString char | Escaped char | Comment

fun scan_char :: "scan_mode \<times> nat \<Rightarrow> char \<Rightarrow> scan_mode \<times> nat" where
  "scan_char (InString q, d) c = (if c = CHR 0x5C then (Escaped q, d) else if c = q then (Code, d) else (InString q, d))"
| "scan_char (Escaped q, d) c = (InString q, d)"
| "scan_char (Comment, d) c = (if c = newline then (Code, d) else (Comment, d))"
| "scan_char (Code, d) c =
     (if c = CHR 0x22 \<or> c = CHR 0x27 then (InString c, d)
      else if c = CHR ''#'' then (Comment, d)
      else if c = CHR ''('' then (Code, Suc d)
      else if c = CHR '')'' then (Code, d - 1)
      else (Code, d))"

text \<open>The text up to the parenthesis that closes the depth, and the text after it.\<close>

fun close_paren :: "scan_mode \<times> nat \<Rightarrow> string \<Rightarrow> (string \<times> string) option" where
  "close_paren s [] = None"
| "close_paren s (c # cs) =
     (if fst s = Code \<and> c = CHR '')'' \<and> snd s = 1 then Some ([c], cs)
      else case close_paren (scan_char s c) cs of None \<Rightarrow> None | Some (body, after) \<Rightarrow> Some (c # body, after))"

definition name_at :: "string \<Rightarrow> string \<Rightarrow> unit option" where
  "name_at unitName s =
     (let r = skip_space s in
      if \<not> HasPrefix r ''name'' then None
      else case expect CHR ''='' (skip_space (drop 4 r)) of
        Some t \<Rightarrow> if HasPrefix (skip_space t) (CHR 0x22 # unitName @ [CHR 0x22]) then Some () else None
      | None \<Rightarrow> None)"

definition has_name :: "string \<Rightarrow> string \<Rightarrow> bool" where
  "has_name block unitName \<longleftrightarrow> first_line (name_at unitName) True block \<noteq> None"

definition block_at :: "string \<Rightarrow> string \<Rightarrow> (string \<times> string) option" where
  "block_at unitName s =
     (case opener_at s of
        None \<Rightarrow> None
      | Some (w, r) \<Rightarrow>
          (case close_paren (Code, 0) r of
             None \<Rightarrow> None
           | Some (body, after) \<Rightarrow>
               (let nl = takeWhile (\<lambda>c. c = newline) (take 1 after); block = w @ body @ nl in
                if has_name block unitName then Some (block, drop (length nl) after) else None)))"

text \<open>The text before the block, the block and the text after it.\<close>

definition findUnitBlock :: "string \<Rightarrow> string \<Rightarrow> (string \<times> string \<times> string) option" where
  "findUnitBlock content unitName = first_line (block_at unitName) True content"

section \<open>The field\<close>

text \<open>
  What a field line matches: its indent, the spacing around the equals sign, the value, the
  comma and the comment with the spaces before them if they are there, and the rest of the text.
  A comma that does not lead to the end of a line is not part of the line.
\<close>

record field_line =
  flIndent :: string
  flEq :: string
  flValue :: string
  flComma :: "string option"
  flComment :: "string option"
  flRest :: string

definition end_of_line :: "string \<Rightarrow> bool" where
  "end_of_line s \<longleftrightarrow> s = [] \<or> hd s = newline"

definition comment_at :: "string \<Rightarrow> (string option \<times> string) option" where
  "comment_at s =
     (case expect CHR ''#'' (skip_space s) of
        Some t \<Rightarrow>
          Some (Some (takeWhile reSpace s @ CHR ''#'' # takeWhile (\<lambda>c. c \<noteq> newline) t), dropWhile (\<lambda>c. c \<noteq> newline) t)
      | None \<Rightarrow> if end_of_line s then Some (None, s) else None)"

definition tail_at :: "string \<Rightarrow> (string option \<times> string option \<times> string) option" where
  "tail_at s =
     (case expect CHR '','' (skip_space s) of
        Some t \<Rightarrow>
          (case comment_at t of
             Some (comment, rest) \<Rightarrow> Some (Some (takeWhile reSpace s @ '',''), comment, rest)
           | None \<Rightarrow> if end_of_line s then Some (None, None, s) else None)
      | None \<Rightarrow> (case comment_at s of Some (comment, rest) \<Rightarrow> Some (None, comment, rest) | None \<Rightarrow> None))"

definition blank :: "char \<Rightarrow> bool" where
  "blank c \<longleftrightarrow> c = CHR '' '' \<or> c = CHR 0x09"

text \<open>\<^verbatim>\<open>= "value"\<close> with its spaces: the text up to the quote, the value and what follows.\<close>

definition quoted_at :: "string \<Rightarrow> (string \<times> string \<times> string) option" where
  "quoted_at s =
     (case expect CHR ''='' (skip_space s) of
        None \<Rightarrow> None
      | Some t \<Rightarrow>
          (case expect CHR 0x22 (skip_space t) of
             None \<Rightarrow> None
           | Some v \<Rightarrow>
               (case expect CHR 0x22 (dropWhile (\<lambda>c. c \<noteq> CHR 0x22) v) of
                  None \<Rightarrow> None
                | Some r \<Rightarrow> Some (takeWhile reSpace s @ CHR ''='' # takeWhile reSpace t, takeWhile (\<lambda>c. c \<noteq> CHR 0x22) v, r))))"

definition field_at :: "string \<Rightarrow> string \<Rightarrow> field_line option" where
  "field_at field s =
     (let indent = takeWhile blank s; r = dropWhile blank s in
      if indent = [] \<or> \<not> HasPrefix r field then None
      else case quoted_at (drop (length field) r) of
        None \<Rightarrow> None
      | Some (eq, v, t) \<Rightarrow>
          (case tail_at t of
             None \<Rightarrow> None
           | Some (comma, comment, rest) \<Rightarrow>
               Some \<lparr>flIndent = indent, flEq = eq, flValue = v, flComma = comma, flComment = comment, flRest = rest\<rparr>))"

definition option_text :: "string option \<Rightarrow> string" where
  "option_text o' = (case o' of None \<Rightarrow> [] | Some s \<Rightarrow> s)"

text \<open>The line as it was, and with another value: a missing comma is added.\<close>

definition old_line :: "string \<Rightarrow> field_line \<Rightarrow> string" where
  "old_line field l =
     flIndent l @ field @ flEq l @ CHR 0x22 # flValue l @ CHR 0x22 # option_text (flComma l) @ option_text (flComment l)"

definition new_line :: "string \<Rightarrow> string \<Rightarrow> field_line \<Rightarrow> string" where
  "new_line field v l =
     flIndent l @ field @ flEq l @ CHR 0x22 # v @ CHR 0x22 #
     (case flComma l of None \<Rightarrow> '','' | Some c \<Rightarrow> c) @ option_text (flComment l)"

text \<open>
  The name line: its indent, its text to the end of the line and what follows. The spaces after
  the name may reach over line ends; they reach as far as a line end still follows.
\<close>

definition line_end :: "string \<Rightarrow> (string \<times> string) option" where
  "line_end s =
     (case dropWhile (\<lambda>c. c \<noteq> newline) s of [] \<Rightarrow> None | c # r \<Rightarrow> Some (takeWhile (\<lambda>c. c \<noteq> newline) s @ [c], r))"

definition name_tail :: "string \<Rightarrow> (string \<times> string) option" where
  "name_tail s =
     (case line_end (skip_space s) of
        Some (l, r) \<Rightarrow> Some (takeWhile reSpace s @ l, r)
      | None \<Rightarrow>
          (let ws = takeWhile reSpace s; after = rev (takeWhile (\<lambda>c. c \<noteq> newline) (rev ws)) in
           if newline \<notin> set ws then None else Some (take (length ws - length after) ws, after @ skip_space s)))"

definition name_line_at :: "string \<Rightarrow> (string \<times> string \<times> string) option" where
  "name_line_at s =
     (let indent = takeWhile blank s; r = dropWhile blank s in
      if indent = [] \<or> \<not> HasPrefix r ''name'' then None
      else case quoted_at (drop 4 r) of
        None \<Rightarrow> None
      | Some (eq, v, t) \<Rightarrow>
          (case name_tail t of
             None \<Rightarrow> None
           | Some (l, rest) \<Rightarrow> Some (indent, indent @ ''name'' @ eq @ CHR 0x22 # v @ CHR 0x22 # l, rest)))"

definition inserted :: "string \<Rightarrow> string \<Rightarrow> string \<Rightarrow> string" where
  "inserted indent field v = indent @ field @ '' = '' @ CHR 0x22 # v @ [CHR 0x22, CHR '','', newline]"

definition rewriteFieldInBlock :: "string \<Rightarrow> string \<Rightarrow> string \<Rightarrow> string option" where
  "rewriteFieldInBlock block field v =
     (case first_line (field_at field) True block of
        Some (pre, l) \<Rightarrow> Some (pre @ new_line field v l @ flRest l)
      | None \<Rightarrow>
          (case first_line name_line_at True block of
             None \<Rightarrow> None
           | Some (pre, indent, l, rest) \<Rightarrow> Some (pre @ l @ inserted indent field v @ rest)))"

datatype EditError = UnitNotFound string | NoNameLine string

definition RewriteUnitField :: "string \<Rightarrow> string \<Rightarrow> string \<Rightarrow> string \<Rightarrow> EditError + string" where
  "RewriteUnitField content unitName field v =
     (case findUnitBlock content unitName of
        None \<Rightarrow> Inl (UnitNotFound unitName)
      | Some (pre, block, after) \<Rightarrow>
          (case rewriteFieldInBlock block field v of
             None \<Rightarrow> Inl (NoNameLine field)
           | Some block' \<Rightarrow> Inr (pre @ block' @ after)))"

section \<open>What a rewriting changes\<close>

lemma expect_Some [simp]: "expect x s = Some t \<longleftrightarrow> s = x # t"
  by (auto simp: expect_def split: list.splits)

lemma expect_Cons [simp]: "expect x (c # t) = (if c = x then Some t else None)"
  by (simp add: expect_def)

lemma skip_space_split: "takeWhile reSpace s @ skip_space s = s"
  by (simp add: skip_space_def)

lemma skip_spaceE:
  assumes "skip_space s = t"
  obtains "s = takeWhile reSpace s @ t"
  using assms skip_space_split [of s] by metis

lemma first_line_split:
  "first_line f bol s = Some (pre, a) \<Longrightarrow> \<exists>t. s = pre @ t \<and> f t = Some a"
  by (induction f bol s arbitrary: pre rule: first_line.induct) (auto split: option.splits if_splits)

lemma close_paren_split: "close_paren st s = Some (body, after) \<Longrightarrow> s = body @ after"
proof (induction s arbitrary: st body)
  case (Cons c s)
  show ?case
  proof (cases "fst st = Code \<and> c = CHR '')'' \<and> snd st = 1")
    case True
    with Cons.prems show ?thesis by simp
  next
    case False
    with Cons.prems obtain b where "close_paren (scan_char st c) s = Some (b, after)" "body = c # b"
      by (auto split: option.splits)
    with Cons.IH show ?thesis by simp
  qed
qed simp

lemma opener_at_split:
  assumes "opener_at s = Some (w, r)"
  shows "s = w @ r"
proof -
  from assms obtain k where k: "List.find (HasPrefix s) openers = Some k"
    and w: "w = k @ takeWhile reSpace (drop (length k) s)" and r: "r = skip_space (drop (length k) s)"
    by (auto simp: opener_at_def Let_def split: option.splits if_splits)
  from k have "HasPrefix s k" by (auto simp: find_Some_iff)
  then have "s = k @ drop (length k) s" by (auto simp: HasPrefix_iff)
  then show ?thesis using skip_space_split [of "drop (length k) s"] by (simp add: w r)
qed

lemma block_at_split:
  assumes "block_at unitName s = Some (block, after)"
  shows "s = block @ after \<and> has_name block unitName"
proof -
  from assms obtain w r body rest where w: "opener_at s = Some (w, r)" and b: "close_paren (Code, 0) r = Some (body, rest)"
    and blk: "block = w @ body @ takeWhile (\<lambda>c. c = newline) (take 1 rest)" "has_name block unitName"
      "after = drop (length (takeWhile (\<lambda>c. c = newline) (take 1 rest))) rest"
    by (auto simp: block_at_def Let_def split: option.splits if_splits)
  have "rest = takeWhile (\<lambda>c. c = newline) (take 1 rest) @ after"
    unfolding blk(3) by (cases rest) auto
  with opener_at_split [OF w] close_paren_split [OF b] blk show ?thesis by simp
qed

lemma findUnitBlock_split:
  assumes "findUnitBlock content unitName = Some (pre, block, after)"
  shows "content = pre @ block @ after \<and> has_name block unitName"
  using first_line_split [OF assms [unfolded findUnitBlock_def]] block_at_split by blast

lemma comment_at_text: "comment_at s = Some (comment, rest) \<Longrightarrow> s = option_text comment @ rest"
  unfolding comment_at_def option_text_def
  by (auto split: option.splits if_splits elim!: skip_spaceE)

lemma tail_at_text: "tail_at s = Some (comma, comment, rest) \<Longrightarrow> s = option_text comma @ option_text comment @ rest"
  unfolding tail_at_def
  by (auto simp: option_text_def split: option.splits if_splits dest!: comment_at_text elim!: skip_spaceE)

lemma quoted_at_Some:
  "quoted_at s = Some (eq, v, r) \<longleftrightarrow>
     (\<exists>t u. skip_space s = CHR ''='' # t \<and> skip_space t = CHR 0x22 # u \<and> dropWhile (\<lambda>c. c \<noteq> CHR 0x22) u = CHR 0x22 # r \<and>
        eq = takeWhile reSpace s @ CHR ''='' # takeWhile reSpace t \<and> v = takeWhile (\<lambda>c. c \<noteq> CHR 0x22) u)"
  by (auto simp: quoted_at_def split: option.splits)

lemma quoted_at_text:
  assumes "quoted_at s = Some (eq, v, r)"
  shows "s = eq @ CHR 0x22 # v @ CHR 0x22 # r"
proof -
  from assms obtain t u where t: "skip_space s = CHR ''='' # t" and u: "skip_space t = CHR 0x22 # u"
    and r: "dropWhile (\<lambda>c. c \<noteq> CHR 0x22) u = CHR 0x22 # r"
    and eq: "eq = takeWhile reSpace s @ CHR ''='' # takeWhile reSpace t" "v = takeWhile (\<lambda>c. c \<noteq> CHR 0x22) u"
    unfolding quoted_at_Some by blast
  have "s = takeWhile reSpace s @ CHR ''='' # takeWhile reSpace t @ CHR 0x22 # u"
    using skip_space_split [of s] skip_space_split [of t] t u by simp
  also have "u = v @ CHR 0x22 # r" using r eq(2) takeWhile_dropWhile_id [of "\<lambda>c. c \<noteq> CHR 0x22" u] by simp
  finally show ?thesis by (simp add: eq(1))
qed

text \<open>A line that was matched, and the line put in its place.\<close>

lemma field_at_text:
  assumes "field_at field s = Some l"
  shows "s = old_line field l @ flRest l"
proof -
  let ?r = "dropWhile blank s"
  from assms obtain eq v t comma comment rest where p: "HasPrefix ?r field"
    and q: "quoted_at (drop (length field) ?r) = Some (eq, v, t)" and tl: "tail_at t = Some (comma, comment, rest)"
    and l: "l = \<lparr>flIndent = takeWhile blank s, flEq = eq, flValue = v, flComma = comma, flComment = comment, flRest = rest\<rparr>"
    by (auto simp: field_at_def Let_def split: option.splits if_splits)
  from p have "?r = field @ drop (length field) ?r" by (auto simp: HasPrefix_iff)
  with quoted_at_text [OF q] tail_at_text [OF tl]
  have "?r = field @ eq @ CHR 0x22 # v @ CHR 0x22 # option_text comma @ option_text comment @ rest" by simp
  then show ?thesis using takeWhile_dropWhile_id [of blank s] by (simp add: old_line_def l)
qed

lemma quoted_at_build:
  assumes "\<forall>c \<in> set a. reSpace c" and "\<forall>c \<in> set b. reSpace c" and "CHR 0x22 \<notin> set v"
  shows "quoted_at (a @ CHR ''='' # b @ CHR 0x22 # v @ CHR 0x22 # r) = Some (a @ CHR ''='' # b, v, r)"
proof -
  have sp: "skip_space (x @ c # y) = c # y" "takeWhile reSpace (x @ c # y) = x"
    if "\<forall>c \<in> set x. reSpace c" "\<not> reSpace c" for x c y
    using that by (simp_all add: skip_space_def)
  have "takeWhile (\<lambda>c. c \<noteq> CHR 0x22) (v @ CHR 0x22 # r) = v" using assms(3) by (induction v) auto
  moreover have "dropWhile (\<lambda>c. c \<noteq> CHR 0x22) (v @ CHR 0x22 # r) = CHR 0x22 # r" using assms(3) by (induction v) auto
  moreover have "\<not> reSpace CHR ''=''" "\<not> reSpace CHR 0x22" by (simp_all add: reSpace_def)
  ultimately show ?thesis unfolding quoted_at_Some using sp assms(1,2) by simp
qed

lemma tail_at_again:
  assumes "tail_at t = Some (comma, comment, rest)"
  shows "\<exists>c. tail_at ((case comma of None \<Rightarrow> '','' | Some c \<Rightarrow> c) @ option_text comment @ rest) = Some (Some c, comment, rest)"
proof (cases comma)
  case (Some c)
  with tail_at_text [OF assms] assms show ?thesis by (intro exI [of _ c]) (simp add: option_text_def)
next
  case None
  have "comment_at t = Some (comment, rest)"
    using assms None unfolding tail_at_def
    by (auto simp: comment_at_def expect_def split: option.splits if_splits list.splits)
  then have "comment_at (option_text comment @ rest) = Some (comment, rest)" using comment_at_text by metis
  moreover have "skip_space (CHR '','' # u) = CHR '','' # u" "takeWhile reSpace (CHR '','' # u) = []" for u
    by (simp_all add: skip_space_def reSpace_def)
  ultimately show ?thesis using None by (intro exI [of _ "'',''"]) (simp add: tail_at_def)
qed

text \<open>Reading the field from a line that holds it.\<close>

lemma field_at_build:
  assumes "indent \<noteq> []" and "\<forall>c \<in> set indent. blank c" and "field \<noteq> []" and "\<not> blank (hd field)"
    and "quoted_at r = Some (eq, v, t)" and "tail_at t = Some (comma, comment, rest)"
  shows "field_at field (indent @ field @ r) =
    Some \<lparr>flIndent = indent, flEq = eq, flValue = v, flComma = comma, flComment = comment, flRest = rest\<rparr>"
proof -
  obtain c f where f: "field = c # f" "\<not> blank c" using assms(3,4) by (cases field) auto
  have "takeWhile blank (indent @ field @ r) = indent" "dropWhile blank (indent @ field @ r) = field @ r"
    using assms(2) f by simp_all
  then show ?thesis using assms(1,5,6) by (simp add: field_at_def Let_def)
qed

lemma new_line_read:
  assumes "field_at field s = Some l" and "field \<noteq> []" and "CHR 0x22 \<notin> set v"
  shows "\<exists>c. field_at field (new_line field v l @ flRest l) = Some (l\<lparr>flValue := v, flComma := Some c\<rparr>)"
proof -
  let ?r = "dropWhile blank s"
  from assms(1) obtain eq v' t comma comment rest where ind: "takeWhile blank s \<noteq> []" and p: "HasPrefix ?r field"
    and q: "quoted_at (drop (length field) ?r) = Some (eq, v', t)" and tl: "tail_at t = Some (comma, comment, rest)"
    and l: "l = \<lparr>flIndent = takeWhile blank s, flEq = eq, flValue = v', flComma = comma, flComment = comment, flRest = rest\<rparr>"
    by (auto simp: field_at_def Let_def split: option.splits if_splits)
  from p obtain u where u: "?r = field @ u" by (auto simp: HasPrefix_iff)
  have "?r \<noteq> []" "hd ?r = hd field" unfolding u using assms(2) by simp_all
  then have hd: "\<not> blank (hd field)" using hd_dropWhile [of blank s] by simp
  obtain c where tl': "tail_at ((case comma of None \<Rightarrow> '','' | Some c \<Rightarrow> c) @ option_text comment @ rest) = Some (Some c, comment, rest)"
    using tail_at_again [OF tl] by blast
  from q obtain a b where eq: "eq = a @ CHR ''='' # b" "\<forall>c \<in> set a. reSpace c" "\<forall>c \<in> set b. reSpace c"
    unfolding quoted_at_Some by (auto dest: set_takeWhileD)
  have "quoted_at (eq @ CHR 0x22 # v @ CHR 0x22 # (case comma of None \<Rightarrow> '','' | Some c \<Rightarrow> c) @ option_text comment @ rest) =
      Some (eq, v, (case comma of None \<Rightarrow> '','' | Some c \<Rightarrow> c) @ option_text comment @ rest)"
    using quoted_at_build [OF eq(2,3) assms(3)] by (simp add: eq(1))
  from field_at_build [OF ind _ assms(2) hd this tl'] have
    "field_at field (takeWhile blank s @ field @ eq @ CHR 0x22 # v @ CHR 0x22 # (case comma of None \<Rightarrow> '','' | Some c \<Rightarrow> c) @ option_text comment @ rest) =
      Some (l\<lparr>flValue := v, flComma := Some c\<rparr>)"
    by (auto simp: l dest: set_takeWhileD)
  then show ?thesis by (intro exI [of _ c]) (simp add: new_line_def l)
qed

lemma inserted_read:
  assumes "indent \<noteq> []" and "\<forall>c \<in> set indent. blank c" and "field \<noteq> []" and "\<not> blank (hd field)" and "CHR 0x22 \<notin> set v"
  shows "\<exists>l. field_at field (inserted indent field v @ rest) = Some l \<and> flValue l = v"
proof -
  have "quoted_at ('' '' @ CHR ''='' # '' '' @ CHR 0x22 # v @ CHR 0x22 # CHR '','' # newline # rest) =
      Some ('' '' @ CHR ''='' # '' '', v, CHR '','' # newline # rest)"
    by (rule quoted_at_build) (use assms(5) in \<open>simp_all add: reSpace_def\<close>)
  moreover obtain comma comment r where "tail_at (CHR '','' # newline # rest) = Some (comma, comment, r)"
    by (cases "comment_at (newline # rest)")
      (auto simp: tail_at_def comment_at_def end_of_line_def skip_space_def reSpace_def split: option.splits)
  ultimately show ?thesis using field_at_build [OF assms(1-4)] by (simp add: inserted_def)
qed

lemma line_end_text: "line_end s = Some (l, r) \<Longrightarrow> s = l @ r"
  by (auto simp: line_end_def split: list.splits) (metis takeWhile_dropWhile_id)

lemma name_tail_text:
  assumes "name_tail s = Some (l, r)"
  shows "s = l @ r"
proof (cases "line_end (skip_space s)")
  case (Some p)
  with assms line_end_text skip_space_split [of s] show ?thesis by (cases p) (auto simp: name_tail_def)
next
  case None
  define ws where "ws = takeWhile reSpace s"
  define after where "after = rev (takeWhile (\<lambda>c. c \<noteq> newline) (rev ws))"
  from None assms have l: "l = take (length ws - length after) ws" "r = after @ skip_space s"
    by (auto simp: name_tail_def Let_def ws_def after_def split: if_splits)
  have "rev ws = rev after @ dropWhile (\<lambda>c. c \<noteq> newline) (rev ws)"
    by (simp add: after_def)
  then have "ws = rev (dropWhile (\<lambda>c. c \<noteq> newline) (rev ws)) @ after" by (metis rev_append rev_rev_ident)
  then have "ws = l @ after" unfolding l(1) by (metis append_eq_conv_conj append_take_drop_id diff_add_inverse2 length_append)
  then show ?thesis using skip_space_split [of s] by (simp add: l(2) ws_def)
qed

lemma name_line_at_text:
  assumes "name_line_at s = Some (indent, l, rest)"
  shows "s = l @ rest \<and> indent \<noteq> [] \<and> (\<forall>c \<in> set indent. blank c)"
proof -
  let ?r = "dropWhile blank s"
  from assms obtain eq v t k where i: "indent = takeWhile blank s" "indent \<noteq> []" and p: "HasPrefix ?r ''name''"
    and q: "quoted_at (drop 4 ?r) = Some (eq, v, t)" and nt: "name_tail t = Some (k, rest)"
    and l: "l = indent @ ''name'' @ eq @ CHR 0x22 # v @ CHR 0x22 # k"
    by (auto simp: name_line_at_def Let_def split: option.splits if_splits)
  from p have "?r = ''name'' @ drop 4 ?r" by (auto simp: HasPrefix_iff)
  with quoted_at_text [OF q] name_tail_text [OF nt] have "?r = ''name'' @ eq @ CHR 0x22 # v @ CHR 0x22 # k @ rest" by simp
  then have "s = l @ rest" using takeWhile_dropWhile_id [of blank s] by (simp add: l i(1))
  with i show ?thesis by (auto dest: set_takeWhileD)
qed

text \<open>
  One line of a block, \<open>old\<close> between \<open>a\<close> and \<open>c\<close>, is replaced by \<open>new\<close>, which reads as the value
  and keeps the indent and the comment; or, when no line of the block holds the field, \<open>new\<close> is
  put in.
\<close>

definition one_edit :: "string \<Rightarrow> string \<Rightarrow> string \<Rightarrow> string \<Rightarrow> string \<Rightarrow> string \<Rightarrow> string \<Rightarrow> bool" where
  "one_edit field v block a old new c \<longleftrightarrow>
     block = a @ old @ c \<and>
     (\<exists>l. field_at field (new @ c) = Some l \<and> flValue l = v \<and>
        (if old = [] then first_line (field_at field) True block = None \<and> (\<exists>indent. new = inserted indent field v)
         else \<exists>k. field_at field (old @ c) = Some k \<and> flIndent k = flIndent l \<and> flComment k = flComment l))"

lemma rewriteFieldInBlock_edit:
  assumes "rewriteFieldInBlock block field v = Some block'"
    and "field \<noteq> []" and "\<not> blank (hd field)" and "CHR 0x22 \<notin> set v"
  shows "\<exists>a old new c. one_edit field v block a old new c \<and> block' = a @ new @ c"
proof (cases "first_line (field_at field) True block")
  case (Some al)
  then obtain a k where ak: "first_line (field_at field) True block = Some (a, k)" by (cases al) simp
  from first_line_split [OF ak] obtain t where t: "block = a @ t" "field_at field t = Some k" by blast
  obtain c where read: "field_at field (new_line field v k @ flRest k) = Some (k\<lparr>flValue := v, flComma := Some c\<rparr>)"
    using new_line_read [OF t(2) assms(2,4)] by blast
  let ?old = "old_line field k" and ?new = "new_line field v k"
  have "?old \<noteq> []" by (simp add: old_line_def)
  moreover have "block = a @ ?old @ flRest k" "field_at field (?old @ flRest k) = Some k"
    using t field_at_text [OF t(2)] by simp_all
  ultimately have "one_edit field v block a ?old ?new (flRest k)" using read by (simp add: one_edit_def)
  moreover have "block' = a @ ?new @ flRest k" using assms(1) ak by (simp add: rewriteFieldInBlock_def)
  ultimately show ?thesis by blast
next
  case None
  with assms(1) obtain a indent nl rest where nm: "first_line name_line_at True block = Some (a, indent, nl, rest)"
    and b': "block' = a @ nl @ inserted indent field v @ rest"
    by (auto simp: rewriteFieldInBlock_def split: option.splits)
  from first_line_split [OF nm] obtain t where t: "block = a @ t" "name_line_at t = Some (indent, nl, rest)" by blast
  have parts: "t = nl @ rest" "indent \<noteq> []" "\<forall>c \<in> set indent. blank c" using name_line_at_text [OF t(2)] by blast+
  obtain l where "field_at field (inserted indent field v @ rest) = Some l" "flValue l = v"
    using inserted_read [OF parts(2,3) assms(2-4)] by blast
  with None t(1) parts(1) have "one_edit field v block (a @ nl) [] (inserted indent field v) rest"
    by (auto simp: one_edit_def)
  moreover have "block' = (a @ nl) @ inserted indent field v @ rest" using b' by simp
  ultimately show ?thesis by blast
qed


text \<open>An example file with two units.\<close>

definition ln :: "string \<Rightarrow> string" where
  "ln s = s @ [newline]"

definition quoted :: "string \<Rightarrow> string" where
  "quoted s = CHR 0x22 # s @ [CHR 0x22]"

definition ex_file :: string where
  "ex_file = ln ''# two (units'' @ ln ''unit('' @ ln (''    name = '' @ quoted ''b'' @ '','') @ ln '')'' @
     ln ''cmake('' @ ln (''    name = '' @ quoted ''a'' @ '','') @ ln (''    tag = '' @ quoted ''v1'' @ '',  # the pin)'') @
     ln (''    branch = '' @ quoted ''main)('' @ '','') @ ln '')''"

lemma ex_rewritten:
  "RewriteUnitField ex_file ''a'' ''tag'' ''v2'' = Inr (ln ''# two (units'' @ ln ''unit('' @
     ln (''    name = '' @ quoted ''b'' @ '','') @ ln '')'' @
     ln ''cmake('' @ ln (''    name = '' @ quoted ''a'' @ '','') @ ln (''    tag = '' @ quoted ''v2'' @ '',  # the pin)'') @
     ln (''    branch = '' @ quoted ''main)('' @ '','') @ ln '')'')"
  "RewriteUnitField ex_file ''b'' ''tag'' ''v2'' = Inr (ln ''# two (units'' @ ln ''unit('' @
     ln (''    name = '' @ quoted ''b'' @ '','') @ ln (''    tag = '' @ quoted ''v2'' @ '','') @ ln '')'' @
     ln ''cmake('' @ ln (''    name = '' @ quoted ''a'' @ '','') @ ln (''    tag = '' @ quoted ''v1'' @ '',  # the pin)'') @
     ln (''    branch = '' @ quoted ''main)('' @ '','') @ ln '')'')"
  by code_simp+


text \<open>
  A name that is the last argument and has no comma: the spaces the name line's pattern allows
  after the name reach over the line end, and the new field comes after the closing parenthesis.
\<close>

lemma field_after_call:
  "RewriteUnitField (ln ''unit('' @ ln (''    name = '' @ quoted ''a'') @ ln '')'') ''a'' ''tag'' ''v2'' =
     Inr (ln ''unit('' @ ln (''    name = '' @ quoted ''a'') @ ln '')'' @ ln (''    tag = '' @ quoted ''v2'' @ '',''))"
  by code_simp

text \<open>A field of a nested call that comes before the unit's own is the one rewritten.\<close>

lemma nested_field_rewritten:
  "RewriteUnitField (ln ''unit('' @ ln (''    name = '' @ quoted ''a'' @ '','') @ ln ''    extra = dict('' @
       ln (''        tag = '' @ quoted ''x'' @ '','') @ ln ''    ),'' @ ln (''    tag = '' @ quoted ''v1'' @ '','') @ ln '')'') ''a'' ''tag'' ''v2'' =
     Inr (ln ''unit('' @ ln (''    name = '' @ quoted ''a'' @ '','') @ ln ''    extra = dict('' @
       ln (''        tag = '' @ quoted ''v2'' @ '','') @ ln ''    ),'' @ ln (''    tag = '' @ quoted ''v1'' @ '','') @ ln '')'')"
  by code_simp

end
