(* ===== verification/DevMode.thy ===== *)
theory DevMode
  imports ModuleTree StarEdit Views
begin

text \<open>
  The development mode of units, from \<^verbatim>\<open>internal/dev.go\<close>: the switch of a source tree to its
  upstream, the return to the pin, the promotion of what is checked out to the pin, and the
  commands that show or extract local commits. The switches are what theories SourceState,
  Workspace and Plan read the persisted state for.
\<close>

section \<open>Where the sources are\<close>

text \<open>Patterns with stars, which match no slash; question marks and classes do not occur here.\<close>

fun Match :: "string \<Rightarrow> string \<Rightarrow> bool" where
  "Match [] s \<longleftrightarrow> s = []"
| "Match (p # ps) [] \<longleftrightarrow> p = CHR ''*'' \<and> Match ps []"
| "Match (p # ps) (c # s) \<longleftrightarrow>
     (if p = CHR ''*'' then Match ps (c # s) \<or> (c \<noteq> CHR ''/'' \<and> Match (p # ps) s)
      else p = c \<and> Match ps s)"

definition Glob :: "string list \<Rightarrow> string \<Rightarrow> string list" where
  "Glob paths pattern = filter (Match pattern) paths"

definition find_src_dir :: "string list \<Rightarrow> string \<Rightarrow> name \<Rightarrow> string option" where
  "find_src_dir paths projectDir unitName =
     (case sort (Glob paths (PathJoin [projectDir, ''build'', ''*'', unitName @ ''.*'', ''src''])) of
        [] \<Rightarrow> None | p # _ \<Rightarrow> Some p)"

definition findUnitSrcDir :: "tree_world \<Rightarrow> string \<Rightarrow> name \<Rightarrow> string tree" where
  "findUnitSrcDir w projectDir unitName =
     bnd (looking (\<lambda>h. find_src_dir (twPaths w h) projectDir unitName)) (\<lambda>r.
       case r of None \<Rightarrow> throw (NoBuildDir unitName) | Some p \<Rightarrow> ret p)"

text \<open>The build directory of a unit; without a distro the source panics.\<close>

definition in_build_dir :: "string \<Rightarrow> string \<Rightarrow> name \<Rightarrow> name \<Rightarrow> (string \<Rightarrow> 'x tree) \<Rightarrow> 'x tree" where
  "in_build_dir projectDir scopeDir distro unitName f =
     (case UnitBuildDir projectDir scopeDir unitName distro of None \<Rightarrow> throw (NoBuildDir unitName) | Some d \<Rightarrow> f d)"

definition dev_src :: "string \<Rightarrow> string" where
  "dev_src buildDir = PathJoin [buildDir, ''src'']"

section \<open>Showing and extracting commits\<close>

definition unless_missing :: "tree_world \<Rightarrow> string \<Rightarrow> 'x tree \<Rightarrow> 'x tree" where
  "unless_missing w srcDir m =
     bnd (looking (\<lambda>h. gwStat (twTree w h) (PathJoin [srcDir, ''.git'']))) (\<lambda>st.
       if st = StatNotExist then throw (NotARepository srcDir) else m)"

text \<open>The patches a unit should list, by their paths relative to the unit.\<close>

definition DevExtract :: "tree_world \<Rightarrow> Project \<Rightarrow> string \<Rightarrow> name \<Rightarrow> string list tree" where
  "DevExtract w proj projectDir unitName =
     (case AnyUnit proj unitName of
        None \<Rightarrow> throw (NoSuchUnit unitName)
      | Some u \<Rightarrow>
          bnd (findUnitSrcDir w projectDir unitName) (\<lambda>srcDir. unless_missing w srcDir (
          bnd (git_must w srcDir [''rev-list'', PinTag @ ''..HEAD'']) (\<lambda>out.
            if TrimSpace out = [] then ret []
            else (let unitDir = (if uDefinedIn u = [] then projectDir else uDefinedIn u);
                      patchDir = PathJoin [unitDir, unitName];
                      patches = (\<lambda>h. Glob (twPaths w h) (PathJoin [patchDir, ''*.patch''])) in
              bnd (file_must w patchDir (MakeDirectory patchDir)) (\<lambda>_.
              bnd (looking patches) (\<lambda>old.
              bnd (each (\<lambda>p. tell (RemoveFile p)) old) (\<lambda>_.
              bnd (git_must w srcDir [''format-patch'', ''--output-directory'', patchDir, PinTag @ ''..HEAD'']) (\<lambda>_.
              bnd (looking patches) (\<lambda>new.
                ret (map (\<lambda>p. case Rel unitDir p of None \<Rightarrow> [] | Some rel \<Rightarrow> rel) new)))))))))))"

definition DevDiff :: "tree_world \<Rightarrow> string \<Rightarrow> name \<Rightarrow> string tree" where
  "DevDiff w projectDir unitName =
     bnd (findUnitSrcDir w projectDir unitName) (\<lambda>srcDir. unless_missing w srcDir (
       bnd (git_must w srcDir [''log'', ''--oneline'', PinTag @ ''..HEAD'']) (\<lambda>out.
         ret (if TrimSpace out = [] then [] else out))))"

text \<open>The units with local commits: the count and the distro of the copy that is shown.\<close>

definition status_name :: "string \<Rightarrow> name" where
  "status_name base = (case IndexByte base CHR ''.'' of None \<Rightarrow> base | Some i \<Rightarrow> if i > 0 then take i base else base)"

definition status_entry :: "string \<Rightarrow> string \<Rightarrow> (name, string \<times> name) gomap \<Rightarrow> (name, string \<times> name) gomap" where
  "status_entry gitPath ahead byUnit =
     (let unitDir = Dir (Dir gitPath); name = status_name (Base unitDir) in
      if ahead = ''0'' then byUnit
      else if (case map_of byUnit name of None \<Rightarrow> True | Some prev \<Rightarrow> ahead > fst prev)
           then gm_put name (ahead, Base (Dir unitDir)) byUnit
           else byUnit)"

fun dev_status :: "tree_world \<Rightarrow> string list \<Rightarrow> (name, string \<times> name) gomap \<Rightarrow> (name, string \<times> name) gomap tree" where
  "dev_status w [] byUnit = ret byUnit"
| "dev_status w (p # ps) byUnit =
     bnd (git w (Dir p) [''rev-list'', ''--count'', PinTag @ ''..HEAD'']) (\<lambda>r.
       dev_status w ps (case r of Inl _ \<Rightarrow> byUnit | Inr out \<Rightarrow> status_entry p (TrimSpace out) byUnit))"

definition DevStatus :: "tree_world \<Rightarrow> string \<Rightarrow> (name \<times> string \<times> name) list tree" where
  "DevStatus w projectDir =
     bnd (looking (\<lambda>h. Glob (twPaths w h) (PathJoin [projectDir, ''build'', ''*'', ''*.*'', ''src'', ''.git'']))) (\<lambda>ps.
     bnd (dev_status w ps []) (\<lambda>byUnit. ret (sort_key fst byUnit)))"

section \<open>The persisted state\<close>

definition readUnitSourceState :: "tree_world \<Rightarrow> string \<Rightarrow> tree_action list \<Rightarrow> State" where
  "readUnitSourceState w buildDir h = (case twMeta w h buildDir of None \<Rightarrow> StateEmpty | Some meta \<Rightarrow> bmSourceState meta)"

definition with_state :: "State \<Rightarrow> BuildMeta option \<Rightarrow> BuildMeta" where
  "with_state s meta =
     (let m = (case meta of None \<Rightarrow> \<lparr>bmStatus = [], bmHash = [], bmError = [], bmSourceState = [], bmSourceDescribe = []\<rparr> | Some m \<Rightarrow> m)
      in m\<lparr>bmSourceState := s, bmSourceDescribe := (if s = StateEmpty then [] else bmSourceDescribe m)\<rparr>)"

definition writeUnitSourceState :: "tree_world \<Rightarrow> string \<Rightarrow> State \<Rightarrow> unit tree" where
  "writeUnitSourceState w buildDir s =
     bnd (file_must w buildDir (MakeDirectory buildDir)) (\<lambda>_.
     bnd (looking (\<lambda>h. twMeta w h buildDir)) (\<lambda>meta.
       file_must w buildDir (SaveMeta buildDir (with_state s meta))))"

definition dev_state :: "tree_world \<Rightarrow> string \<Rightarrow> tree_action list \<Rightarrow> State" where
  "dev_state w buildDir h = fst (DetectState (twTree w h) (dev_src buildDir) (readUnitSourceState w buildDir h))"

section \<open>To the upstream\<close>

definition devPinnedRef :: "Unit \<Rightarrow> string" where
  "devPinnedRef u = (if uTag u \<noteq> [] then uTag u else uBranch u)"

definition devFetchOrigin :: "tree_world \<Rightarrow> string \<Rightarrow> int \<Rightarrow> string \<Rightarrow> unit tree" where
  "devFetchOrigin w srcDir depth pinnedRef =
     FetchOrigin w srcDir \<lparr>foDepth = depth, foWidenRefspec = False, foPinnedRef = pinnedRef, foSkipWhenFull = False\<rparr>"

text \<open>A local branch that exists is checked out as it is; only a missing one is created.\<close>

definition checkout_branch :: "tree_world \<Rightarrow> string \<Rightarrow> string \<Rightarrow> unit tree" where
  "checkout_branch w srcDir branch =
     bnd (git w srcDir [''rev-parse'', ''--verify'', ''refs/heads/'' @ branch]) (\<lambda>r.
       bnd (case r of
              Inr _ \<Rightarrow> git_must w srcDir [''checkout'', branch]
            | Inl _ \<Rightarrow> git_must w srcDir [''checkout'', ''-B'', branch, ''FETCH_HEAD'']) (\<lambda>_. ret ()))"

definition track_branch :: "tree_world \<Rightarrow> string \<Rightarrow> Unit \<Rightarrow> unit tree" where
  "track_branch w srcDir u =
     bnd (git_must w srcDir [''fetch'', ''--depth=2147483647'', ''origin'', uBranch u]) (\<lambda>_.
     bnd (quietly (git w srcDir [''update-ref'', ''refs/remotes/origin/'' @ uBranch u, ''FETCH_HEAD''])) (\<lambda>_.
     bnd (checkout_branch w srcDir (uBranch u)) (\<lambda>_.
     bnd (quietly (git w srcDir [''branch'', ''--set-upstream-to=origin/'' @ uBranch u, uBranch u])) (\<lambda>_.
     bnd (git_must w srcDir [''tag'', ''-f'', PinTag, uTag u]) (\<lambda>_. ret ())))))"

definition set_origin :: "tree_world \<Rightarrow> string \<Rightarrow> bool \<Rightarrow> string \<Rightarrow> unit tree" where
  "set_origin w srcDir ssh source =
     (let target = (if ssh then fst (HTTPSToSSH (twURL w) source) else source) in
      bnd (quietly (git w srcDir [''remote'', ''remove'', ''origin''])) (\<lambda>_.
      bnd (git_must w srcDir [''remote'', ''add'', ''origin'', target]) (\<lambda>_. ret ())))"

definition to_upstream :: "tree_world \<Rightarrow> string \<Rightarrow> Unit \<Rightarrow> bool \<Rightarrow> int \<Rightarrow> unit tree" where
  "to_upstream w buildDir u ssh depth =
     (let srcDir = dev_src buildDir in
      bnd (looking (is_repo w srcDir)) (\<lambda>there.
        if \<not> there then throw (NotARepository srcDir)
        else if \<not> IsGitURL (uSource u) then throw (NotGitSource (uName u) (uSource u))
        else if uBranch u \<noteq> [] \<and> uTag u = [] then throw (BranchWithoutTag (uName u))
        else bnd (set_origin w srcDir ssh (uSource u)) (\<lambda>_.
             bnd (devFetchOrigin w srcDir depth (devPinnedRef u)) (\<lambda>_.
             bnd (if uBranch u \<noteq> [] then track_branch w srcDir u else ret ()) (\<lambda>_.
               writeUnitSourceState w buildDir StateDev)))))"

definition DevToUpstream :: "tree_world \<Rightarrow> string \<Rightarrow> string \<Rightarrow> name \<Rightarrow> Unit \<Rightarrow> bool \<Rightarrow> int \<Rightarrow> unit tree" where
  "DevToUpstream w projectDir scopeDir distro u ssh depth =
     in_build_dir projectDir scopeDir distro (uName u) (\<lambda>d. to_upstream w d u ssh depth)"

section \<open>Back to the pin\<close>

definition re_patch :: "tree_world \<Rightarrow> string \<Rightarrow> string \<Rightarrow> Unit \<Rightarrow> unit tree" where
  "re_patch w projectDir srcDir u h =
     (case applyPatches (twPatch w h) projectDir srcDir u [] of
        (Inl err, xs) \<Rightarrow> (Inl (PatchFailure err), h @ map Patching xs)
      | (Inr _, xs) \<Rightarrow> (Inr (), h @ map Patching xs))"

definition to_pin :: "tree_world \<Rightarrow> string \<Rightarrow> string \<Rightarrow> Unit \<Rightarrow> bool \<Rightarrow> unit tree" where
  "to_pin w projectDir buildDir u force =
     (let srcDir = dev_src buildDir in
      bnd (looking (is_repo w srcDir)) (\<lambda>there.
        if \<not> there then throw (NotARepository srcDir)
        else bnd (looking (dev_state w buildDir)) (\<lambda>s.
             bnd (if force then ret () else refuse_work (uName u) s) (\<lambda>_.
             bnd (if uTag u = [] then throw (NoTag (uName u)) else ret ()) (\<lambda>_.
             bnd (git_must w srcDir [''checkout'', ''--detach'', ''--force'', uTag u]) (\<lambda>_.
             bnd (re_patch w projectDir srcDir u) (\<lambda>_.
             bnd (git_must w srcDir [''tag'', ''-f'', PinTag, uTag u]) (\<lambda>_.
               writeUnitSourceState w buildDir StatePin))))))))"

definition DevToPin :: "tree_world \<Rightarrow> string \<Rightarrow> string \<Rightarrow> name \<Rightarrow> Unit \<Rightarrow> bool \<Rightarrow> unit tree" where
  "DevToPin w projectDir scopeDir distro u force =
     in_build_dir projectDir scopeDir distro (uName u) (\<lambda>d. to_pin w projectDir d u force)"

section \<open>Promotion to the pin\<close>

text \<open>\<^verbatim>\<open>name = "unit"\<close> anywhere in a text.\<close>

fun anywhere :: "(string \<Rightarrow> bool) \<Rightarrow> string \<Rightarrow> bool" where
  "anywhere f [] = f []"
| "anywhere f (c # cs) = (f (c # cs) \<or> anywhere f cs)"

definition name_here :: "name \<Rightarrow> string \<Rightarrow> bool" where
  "name_here unitName s \<longleftrightarrow>
     HasPrefix s ''name'' \<and>
     (case expect CHR ''='' (skip_space (drop 4 s)) of
        None \<Rightarrow> False | Some t \<Rightarrow> HasPrefix (skip_space t) (CHR 0x22 # unitName @ [CHR 0x22]))"

definition names_unit :: "name \<Rightarrow> string option \<Rightarrow> bool" where
  "names_unit unitName data = (case data of None \<Rightarrow> False | Some s \<Rightarrow> anywhere (name_here unitName) s)"

definition star_file :: "(string \<Rightarrow> string option) \<Rightarrow> (string \<Rightarrow> (string \<times> bool) list option) \<Rightarrow> string \<Rightarrow> name \<Rightarrow> string option" where
  "star_file read dir d unitName =
     (if d = [] then None
      else if names_unit unitName (read (PathJoin [d, unitName @ ''.star''])) then Some (PathJoin [d, unitName @ ''.star''])
      else case dir d of
        None \<Rightarrow> None
      | Some entries \<Rightarrow>
          map_option (\<lambda>(n, _). PathJoin [d, n])
            (List.find (\<lambda>(n, isDir). \<not> isDir \<and> HasSuffix n ''.star'' \<and> names_unit unitName (read (PathJoin [d, n]))) entries))"

definition findUnitStarFile :: "tree_world \<Rightarrow> string \<Rightarrow> name \<Rightarrow> string tree" where
  "findUnitStarFile w d unitName =
     bnd (looking (\<lambda>h. star_file (twRead w h) (twDir w h) d unitName)) (\<lambda>r.
       case r of None \<Rightarrow> throw (NoStarFile unitName) | Some p \<Rightarrow> ret p)"

definition upstream_tags :: "string \<Rightarrow> string list" where
  "upstream_tags out = filter (\<lambda>t. \<not> HasPrefix t ''yoe/'') (Fields out)"

definition pin_value :: "tree_world \<Rightarrow> string \<Rightarrow> string tree" where
  "pin_value w srcDir =
     bnd (git w srcDir [''tag'', ''--points-at'', ''HEAD'']) (\<lambda>r.
       case (case r of Inl _ \<Rightarrow> [] | Inr out \<Rightarrow> upstream_tags out) of
         t # _ \<Rightarrow> ret t
       | [] \<Rightarrow> bnd (git_must w srcDir [''rev-parse'', ''HEAD'']) (\<lambda>out. ret (TrimSpace out)))"

definition rewrite_star :: "tree_world \<Rightarrow> string \<Rightarrow> name \<Rightarrow> string \<Rightarrow> string \<Rightarrow> unit tree" where
  "rewrite_star w starPath unitName field value =
     bnd (looking (\<lambda>h. twRead w h starPath)) (\<lambda>data.
       case data of
         None \<Rightarrow> throw (StarRewrite starPath)
       | Some content \<Rightarrow>
           (case RewriteUnitField content unitName field value of
              Inl _ \<Rightarrow> throw (StarRewrite starPath)
            | Inr content' \<Rightarrow> file_must w starPath (SaveText starPath content')))"

definition promote :: "tree_world \<Rightarrow> string \<Rightarrow> Unit \<Rightarrow> unit tree" where
  "promote w buildDir u =
     (let srcDir = dev_src buildDir in
      bnd (looking (dev_state w buildDir)) (\<lambda>s.
        if s = StateDevDirty then throw (UncommittedEdits (uName u))
        else if s \<noteq> StateDev \<and> s \<noteq> StateDevMod then throw (NotInDevMode (uName u) s)
        else bnd (findUnitStarFile w (uDefinedIn u) (uName u)) (\<lambda>starPath.
             bnd (pin_value w srcDir) (\<lambda>value.
             bnd (rewrite_star w starPath (uName u) ''tag'' value) (\<lambda>_.
             bnd (git_must w srcDir [''tag'', ''-f'', PinTag, ''HEAD'']) (\<lambda>_.
               writeUnitSourceState w buildDir StatePin))))))"

definition DevPromoteToPin :: "tree_world \<Rightarrow> string \<Rightarrow> string \<Rightarrow> name \<Rightarrow> Unit \<Rightarrow> unit tree" where
  "DevPromoteToPin w projectDir scopeDir distro u =
     in_build_dir projectDir scopeDir distro (uName u) (\<lambda>d. promote w d u)"

section \<open>Nothing is lost\<close>

lemma writeUnitSourceState_Inr:
  assumes "writeUnitSourceState w d s h = (Inr x, h')"
  shows "h' = h @ [MakeDirectory d, SaveMeta d (with_state s (twMeta w (h @ [MakeDirectory d]) d))]"
  using assms
  by (auto simp: writeUnitSourceState_def file_must_def looking_def attempt_Inr elim!: bnd_Inr)

lemma git_must_Inr: "git_must w d args h = (Inr x, h') \<Longrightarrow> h' = h @ [Git d args]"
  by (auto simp: git_must_def git_def asking_def throw_def ret_def bnd_def split: sum.splits)

lemma git_must_moves: "snd (git_must w d args h) = h @ [Git d args]"
  by (auto simp: git_must_def git_def asking_def throw_def ret_def bnd_def split: sum.split)

lemma careful_writeUnitSourceState [careful_rules]: "careful (tree_guard G) (writeUnitSourceState w d s)"
  unfolding writeUnitSourceState_def by (intro careful_rules) simp_all

lemma careful_re_patch [careful_rules]: "careful (tree_guard G) (re_patch w projectDir srcDir u)"
proof (rule careful_still)
  have "\<exists>xs. snd (applyPatches v projectDir srcDir u []) = [] @ xs" for v
    unfolding applyPatches_def apply_patch_def Let_def
    using onlyE [of "\<lambda>_. True" "each _ (uPatches u)" "[]"] by blast
  show "only (\<lambda>a. \<not> moving a) (re_patch w projectDir srcDir u)"
    by (auto simp: only_def re_patch_def list_all_iff split: prod.split sum.split)
qed

lemma re_patch_Inr:
  assumes "re_patch w projectDir srcDir u h = (Inr x, h')"
  shows "\<exists>ps. h' = h @ map Patching ps \<and> concat (map am_of ps) = patch_paths (twPatch w h) projectDir u"
proof -
  from assms obtain ps where "applyPatches (twPatch w h) projectDir srcDir u [] = (Inr (), ps)" "h' = h @ map Patching ps"
    by (auto simp: re_patch_def split: prod.splits sum.splits)
  with applyPatches_am [of "twPatch w h" projectDir srcDir u "[]"] show ?thesis by auto
qed

text \<open>The one command of a return that moves the tree, after which everything else comes.\<close>

definition forced_checkout :: "string \<Rightarrow> Unit \<Rightarrow> tree_action" where
  "forced_checkout d u = Git (dev_src d) [''checkout'', ''--detach'', ''--force'', uTag u]"

definition pin_guard :: "string \<Rightarrow> Unit \<Rightarrow> tree_action list \<Rightarrow> string \<Rightarrow> string list \<Rightarrow> bool" where
  "pin_guard d u k d' args \<longleftrightarrow> Git d' args = forced_checkout d u"

lemma careful_refuse_work [careful_rules]: "careful G (refuse_work n s)"
  unfolding refuse_work_def by (intro careful_rules)

lemma careful_to_pin: "careful (tree_guard (pin_guard d u)) (to_pin w projectDir d u force)"
  unfolding to_pin_def Let_def
  by (intro careful_rules) (simp_all add: pin_guard_def forced_checkout_def moves_tree_def)

lemma to_pin_refused:
  assumes "\<not> is_repo w (dev_src d) h \<or> uTag u = [] \<or> \<not> force \<and> dev_state w d h \<in> {StateDevDirty, StateDevMod}"
  shows "\<exists>e. to_pin w projectDir d u force h = (Inl e, h)"
  using assms
  by (auto simp: to_pin_def Let_def bnd_def looking_def throw_def ret_def refuse_work_def)

lemma to_pin_success:
  assumes "to_pin w projectDir d u force h = (Inr x, h')"
  shows "\<exists>ps meta. h' = h @ [forced_checkout d u] @ map Patching ps @
      [Git (dev_src d) [''tag'', ''-f'', PinTag, uTag u], MakeDirectory d, SaveMeta d (with_state StatePin meta)] \<and>
    concat (map am_of ps) = patch_paths (twPatch w (h @ [forced_checkout d u])) projectDir u"
proof -
  have there: "is_repo w (dev_src d) h" "uTag u \<noteq> []"
    using to_pin_refused [of w d h u force projectDir] assms by auto
  with assms obtain y1 y2 y3 h1 h2 h3 where
    1: "git_must w (dev_src d) [''checkout'', ''--detach'', ''--force'', uTag u] h = (Inr y1, h1)" and
    2: "re_patch w projectDir (dev_src d) u h1 = (Inr y2, h2)" and
    3: "git_must w (dev_src d) [''tag'', ''-f'', PinTag, uTag u] h2 = (Inr y3, h3)" and
    4: "writeUnitSourceState w d StatePin h3 = (Inr x, h')"
    by (auto simp: to_pin_def Let_def looking_def throw_def ret_def refuse_work_def elim!: bnd_Inr split: if_splits)
  have h1: "h1 = h @ [forced_checkout d u]" using git_must_Inr [OF 1] by (simp add: forced_checkout_def)
  from re_patch_Inr [OF 2] obtain ps where ps: "h2 = h1 @ map Patching ps"
    "concat (map am_of ps) = patch_paths (twPatch w h1) projectDir u" by blast
  show ?thesis
    using h1 ps git_must_Inr [OF 3] writeUnitSourceState_Inr [OF 4]
    by (intro exI [of _ ps] exI [of _ "twMeta w (h3 @ [MakeDirectory d]) d"]) simp
qed


text \<open>The switch to the upstream: a branch that exists is never reset.\<close>

definition branch_guard :: "tree_world \<Rightarrow> string \<Rightarrow> Unit \<Rightarrow> tree_action list \<Rightarrow> string \<Rightarrow> string list \<Rightarrow> bool" where
  "branch_guard w d u k d' args \<longleftrightarrow>
     d' = dev_src d \<and> uBranch u \<noteq> [] \<and>
     (args = [''checkout'', uBranch u] \<or>
      args = [''checkout'', ''-B'', uBranch u, ''FETCH_HEAD''] \<and>
        (\<exists>k'. k = k' @ [Git (dev_src d) [''rev-parse'', ''--verify'', ''refs/heads/'' @ uBranch u]]) \<and> (\<exists>e. twGit w k = Inl e))"

lemma careful_checkout_branch:
  assumes "uBranch u \<noteq> []"
  shows "careful (tree_guard (branch_guard w d u)) (checkout_branch w (dev_src d) (uBranch u))"
  unfolding careful_def
proof
  fix h
  let ?q = "Git (dev_src d) [''rev-parse'', ''--verify'', ''refs/heads/'' @ uBranch u]"
  let ?G = "branch_guard w d u"
  have q: "guarded (tree_guard ?G) h [?q]" by (rule guarded_still) (simp add: moves_tree_def)
  show "\<exists>xs. snd (checkout_branch w (dev_src d) (uBranch u) h) = h @ xs \<and> guarded (tree_guard ?G) h xs"
  proof (cases "twGit w (h @ [?q])")
    case (Inl e)
    let ?co = "Git (dev_src d) [''checkout'', ''-B'', uBranch u, ''FETCH_HEAD'']"
    have "guarded (tree_guard ?G) (h @ [?q]) [?co]" by (rule guarded_one) (use assms Inl in \<open>auto simp: branch_guard_def\<close>)
    from guarded_append [OF q this] Inl show ?thesis
      by (intro exI [of _ "[?q, ?co]"])
        (auto simp: checkout_branch_def bnd_def git_def asking_def git_must_def throw_def ret_def split: sum.split)
  next
    case (Inr out)
    let ?co = "Git (dev_src d) [''checkout'', uBranch u]"
    have "guarded (tree_guard ?G) (h @ [?q]) [?co]" by (rule guarded_one) (use assms in \<open>simp add: branch_guard_def\<close>)
    from guarded_append [OF q this] Inr show ?thesis
      by (intro exI [of _ "[?q, ?co]"])
        (auto simp: checkout_branch_def bnd_def git_def asking_def git_must_def throw_def ret_def split: sum.split)
  qed
qed

lemma careful_track_branch: "uBranch u \<noteq> [] \<Longrightarrow> careful (tree_guard (branch_guard w d u)) (track_branch w (dev_src d) u)"
  unfolding track_branch_def by (intro careful_rules careful_checkout_branch) (simp_all add: moves_tree_def)

lemma careful_to_upstream: "careful (tree_guard (branch_guard w d u)) (to_upstream w d u ssh depth)"
  unfolding to_upstream_def Let_def set_origin_def devFetchOrigin_def
  by (intro careful_rules careful_track_branch) (simp_all add: moves_tree_def)

lemma to_upstream_success:
  assumes "to_upstream w d u ssh depth h = (Inr x, h')"
  shows "is_repo w (dev_src d) h \<and> IsGitURL (uSource u) \<and> (uBranch u \<noteq> [] \<longrightarrow> uTag u \<noteq> []) \<and>
    (\<exists>xs meta. h' = xs @ [SaveMeta d (with_state StateDev meta)])"
  using assms
  by (auto simp: to_upstream_def Let_def looking_def throw_def elim!: bnd_Inr split: if_splits dest!: writeUnitSourceState_Inr) blast+

text \<open>
  C25. Switching a unit to its upstream loses no local work: the only commands that move a tree
  are checkouts of the unit's branch in its own source directory, and the one that would reset
  a local branch runs only directly after git has said that there is no such branch. When the
  switch succeeds, the source is a git repository with a tag to come back to, and the last
  thing done is the record of the development state.
\<close>

theorem DevToUpstream_keeps_work:
  assumes "DevToUpstream w projectDir scopeDir distro u ssh depth h = (r, h')"
    and "UnitBuildDir projectDir scopeDir (uName u) distro = Some d"
  shows "(\<exists>xs. h' = h @ xs \<and> (\<forall>ys d' args zs. xs = ys @ Git d' args # zs \<and> moves_tree args \<longrightarrow> branch_guard w d u (h @ ys) d' args)) \<and>
    (r = Inr () \<longrightarrow> is_repo w (dev_src d) h \<and> IsGitURL (uSource u) \<and> (uBranch u \<noteq> [] \<longrightarrow> uTag u \<noteq> []) \<and>
       (\<exists>xs meta. h' = xs @ [SaveMeta d (with_state StateDev meta)]))"
proof -
  from assms have run: "to_upstream w d u ssh depth h = (r, h')" by (simp add: DevToUpstream_def in_build_dir_def)
  obtain xs where "snd (to_upstream w d u ssh depth h) = h @ xs" "guarded (tree_guard (branch_guard w d u)) h xs"
    by (rule carefulE [OF careful_to_upstream])
  moreover from this(2) have "\<forall>ys d' args zs. xs = ys @ Git d' args # zs \<and> moves_tree args \<longrightarrow> branch_guard w d u (h @ ys) d' args"
    using tree_guardedD by blast
  ultimately have "\<exists>xs. h' = h @ xs \<and>
      (\<forall>ys d' args zs. xs = ys @ Git d' args # zs \<and> moves_tree args \<longrightarrow> branch_guard w d u (h @ ys) d' args)"
    using run by auto
  with to_upstream_success [of w d u ssh depth h] run show ?thesis by simp
qed

text \<open>The promotion: what is pinned, and that no tree moves.\<close>

definition points_at :: "string \<Rightarrow> tree_action" where
  "points_at d = Git (dev_src d) [''tag'', ''--points-at'', ''HEAD'']"

definition head_commit :: "string \<Rightarrow> tree_action" where
  "head_commit d = Git (dev_src d) [''rev-parse'', ''HEAD'']"

text \<open>The commands that find the value of a pin after a history, and the value.\<close>

definition pins :: "tree_world \<Rightarrow> string \<Rightarrow> tree_action list \<Rightarrow> tree_action list \<Rightarrow> string \<Rightarrow> bool" where
  "pins w d h k v \<longleftrightarrow>
     k = [points_at d] \<and> (\<exists>out ts. twGit w (h @ k) = Inr out \<and> upstream_tags out = v # ts) \<or>
     k = [points_at d, head_commit d] \<and> (\<exists>out. twGit w (h @ k) = Inr out \<and> v = TrimSpace out) \<and>
       (\<forall>out. twGit w (h @ [points_at d]) = Inr out \<longrightarrow> upstream_tags out = [])"

lemma pin_value_Inr:
  assumes "pin_value w (dev_src d) h = (Inr v, h')"
  shows "\<exists>k. h' = h @ k \<and> pins w d h k v"
proof (cases "twGit w (h @ [points_at d])")
  case (Inl e)
  then show ?thesis
    using assms
    by (intro exI [of _ "[points_at d, head_commit d]"])
      (auto simp: pin_value_def pins_def points_at_def head_commit_def git_def asking_def git_must_def throw_def ret_def bnd_def
        split: sum.splits)
next
  case (Inr out)
  show ?thesis
  proof (cases "upstream_tags out")
    case Nil
    then show ?thesis
      using assms Inr
      by (intro exI [of _ "[points_at d, head_commit d]"])
        (auto simp: pin_value_def pins_def points_at_def head_commit_def git_def asking_def git_must_def throw_def ret_def bnd_def
          split: sum.splits)
  next
    case (Cons t ts)
    then show ?thesis
      using assms Inr
      by (intro exI [of _ "[points_at d]"])
        (auto simp: pin_value_def pins_def points_at_def git_def asking_def ret_def bnd_def)
  qed
qed

lemma rewrite_star_Inr:
  assumes "rewrite_star w path n field v h = (Inr x, h')"
  shows "\<exists>content content'. twRead w h path = Some content \<and> RewriteUnitField content n field v = Inr content' \<and>
    h' = h @ [SaveText path content']"
  using assms
  by (auto simp: rewrite_star_def looking_def throw_def file_must_def attempt_Inr elim!: bnd_Inr split: option.splits sum.splits)

lemma findUnitStarFile_Inr: "findUnitStarFile w d n h = (Inr p, h') \<Longrightarrow> h' = h"
  by (auto simp: findUnitStarFile_def looking_def throw_def ret_def bnd_def split: option.splits)

lemma still_promote: "careful (tree_guard (\<lambda>_ _ _. False)) (promote w d u)"
  unfolding promote_def Let_def findUnitStarFile_def pin_value_def rewrite_star_def
  by (intro careful_rules) (auto simp: moves_tree_def intro!: careful_rules split: list.split sum.split)

lemma promote_refused:
  assumes "dev_state w d h \<notin> {StateDev, StateDevMod}"
  shows "\<exists>e. promote w d u h = (Inl e, h)"
  using assms by (auto simp: promote_def Let_def bnd_def looking_def throw_def)

lemma promote_success:
  assumes "promote w d u h = (Inr x, h')"
  shows "\<exists>k path content content' v meta. pins w d h k v \<and> twRead w (h @ k) path = Some content \<and>
    RewriteUnitField content (uName u) ''tag'' v = Inr content' \<and>
    h' = h @ k @ [SaveText path content', Git (dev_src d) [''tag'', ''-f'', PinTag, ''HEAD''], MakeDirectory d,
      SaveMeta d (with_state StatePin meta)]"
proof -
  have "dev_state w d h \<in> {StateDev, StateDevMod}" using promote_refused [of w d h u] assms by auto
  with assms obtain path v y1 y2 h0 h1 h2 h3 where
    0: "findUnitStarFile w (uDefinedIn u) (uName u) h = (Inr path, h0)" and
    1: "pin_value w (dev_src d) h0 = (Inr v, h1)" and
    2: "rewrite_star w path (uName u) ''tag'' v h1 = (Inr y1, h2)" and
    3: "git_must w (dev_src d) [''tag'', ''-f'', PinTag, ''HEAD''] h2 = (Inr y2, h3)" and
    4: "writeUnitSourceState w d StatePin h3 = (Inr x, h')"
    by (auto simp: promote_def Let_def looking_def throw_def state_defs elim!: bnd_Inr split: if_splits)
  have h0: "h0 = h" by (rule findUnitStarFile_Inr [OF 0])
  from pin_value_Inr [OF 1] obtain k where k: "h1 = h @ k" "pins w d h k v" unfolding h0 by blast
  from rewrite_star_Inr [OF 2] obtain content content' where
    c: "twRead w h1 path = Some content" "RewriteUnitField content (uName u) ''tag'' v = Inr content'" "h2 = h1 @ [SaveText path content']"
    by blast
  show ?thesis
    using k c git_must_Inr [OF 3] writeUnitSourceState_Inr [OF 4]
    by (intro exI [of _ k] exI [of _ path] exI [of _ content] exI [of _ content'] exI [of _ v]
        exI [of _ "twMeta w (h3 @ [MakeDirectory d]) d"]) simp
qed

text \<open>
  C26. Promoting what is checked out to the pin moves no work tree and runs no command at all
  unless the source is in development mode without uncommitted edits. When it succeeds, the
  unit's file was rewritten with a tag that points at the checked-out commit and is none of the
  program's own, or with the commit when there is no such tag; only then the pin tag was moved
  and, last, the state recorded as pin.
\<close>

theorem DevPromoteToPin_spec:
  assumes "DevPromoteToPin w projectDir scopeDir distro u h = (r, h')"
    and "UnitBuildDir projectDir scopeDir (uName u) distro = Some d"
  shows "(dev_state w d h \<notin> {StateDev, StateDevMod} \<longrightarrow> h' = h \<and> (\<exists>e. r = Inl e)) \<and>
    (\<exists>xs. h' = h @ xs \<and> list_all (\<lambda>a. \<not> moving a) xs) \<and>
    (r = Inr () \<longrightarrow> (\<exists>k path content content' v meta. pins w d h k v \<and> twRead w (h @ k) path = Some content \<and>
       RewriteUnitField content (uName u) ''tag'' v = Inr content' \<and>
       h' = h @ k @ [SaveText path content', Git (dev_src d) [''tag'', ''-f'', PinTag, ''HEAD''], MakeDirectory d,
         SaveMeta d (with_state StatePin meta)]))"
proof -
  from assms have run: "promote w d u h = (r, h')" by (simp add: DevPromoteToPin_def in_build_dir_def)
  obtain xs where xs: "snd (promote w d u h) = h @ xs" "guarded (tree_guard (\<lambda>_ _ _. False)) h xs" by (rule carefulE [OF still_promote])
  have "\<not> moving a" if "a \<in> set xs" for a
  proof
    assume "moving a"
    then obtain d' args where a: "a = Git d' args" "moves_tree args" by (cases a) auto
    with that obtain ys zs where "xs = ys @ Git d' args # zs" by (meson split_list)
    from tree_guardedD [OF xs(2) [unfolded this] a(2)] show False .
  qed
  then have "\<exists>xs. h' = h @ xs \<and> list_all (\<lambda>a. \<not> moving a) xs" using xs(1) run by (auto simp: list_all_iff)
  moreover have "dev_state w d h \<notin> {StateDev, StateDevMod} \<longrightarrow> h' = h \<and> (\<exists>e. r = Inl e)"
    using promote_refused [of w d h u] run by auto
  ultimately show ?thesis using promote_success [of w d u h] run by blast
qed

section \<open>Examples\<close>

definition ex_dev :: tree_world where
  "ex_dev = (ex_trees [])\<lparr>
     twGit := (\<lambda>h. case last h of Git _ args \<Rightarrow> Inr (if take 2 args = [''tag'', ''--points-at''] then ''yoe/pin v2'' else []) | _ \<Rightarrow> Inr []),
     twRead := (\<lambda>_ p. if p = ''/m/a.star'' then Some ex_file else None)\<rparr>"

definition ex_dev_unit :: Unit where
  "ex_dev_unit = zero_unit\<lparr>uName := ''a'', uSource := ''https://e.org/a.git'', uTag := ''v1'', uBranch := ''main'',
     uDefinedIn := ''/m'', uPatches := [''x.patch'']\<rparr>"

definition ex_dev_dir :: string where
  "ex_dev_dir = ''/p/build/alpine/a.x86_64''"

lemma ex_dev_build: "UnitBuildDir ''/p'' ''x86_64'' (uName ex_dev_unit) ''alpine'' = Some ex_dev_dir"
  by code_simp

lemma ex_pinned:
  "DevToPin ex_dev ''/p'' ''x86_64'' ''alpine'' ex_dev_unit False [] =
     (Inr (), snd (DevToPin ex_dev ''/p'' ''x86_64'' ''alpine'' ex_dev_unit False []))"
  by code_simp


lemma ex_upstream:
  "DevToUpstream ex_dev ''/p'' ''x86_64'' ''alpine'' ex_dev_unit False 0 [] =
     (Inr (), snd (DevToUpstream ex_dev ''/p'' ''x86_64'' ''alpine'' ex_dev_unit False 0 []))"
  by code_simp

theorem DevToUpstream_keeps_work_witness:
  "\<exists>xs meta. snd (DevToUpstream ex_dev ''/p'' ''x86_64'' ''alpine'' ex_dev_unit False 0 []) =
     xs @ [SaveMeta ex_dev_dir (with_state StateDev meta)]"
  using DevToUpstream_keeps_work [OF ex_upstream ex_dev_build] by blast

lemma ex_promoted:
  "DevPromoteToPin ex_dev ''/p'' ''x86_64'' ''alpine'' ex_dev_unit [] =
     (Inr (), snd (DevPromoteToPin ex_dev ''/p'' ''x86_64'' ''alpine'' ex_dev_unit []))"
  by code_simp

theorem DevPromoteToPin_spec_witness:
  "\<exists>k path content content' v meta. pins ex_dev ex_dev_dir [] k v \<and> RewriteUnitField content ''a'' ''tag'' v = Inr content' \<and>
     snd (DevPromoteToPin ex_dev ''/p'' ''x86_64'' ''alpine'' ex_dev_unit []) =
       k @ [SaveText path content', Git (dev_src ex_dev_dir) [''tag'', ''-f'', PinTag, ''HEAD''], MakeDirectory ex_dev_dir,
         SaveMeta ex_dev_dir (with_state StatePin meta)]"
proof -
  have n: "uName ex_dev_unit = ''a''" by (simp add: ex_dev_unit_def)
  from DevPromoteToPin_spec [OF ex_promoted ex_dev_build, unfolded n append_Nil] show ?thesis by blast
qed

text \<open>
  The pattern of the source directory of a unit matches that of every unit whose name goes on
  after a dot, and the first in order is taken: here the extraction of one unit reads the tree
  of another.
\<close>

lemma other_unit_found:
  "find_src_dir [''/p/build/debian/python3.11.x86_64/src'', ''/p/build/debian/python3.x86_64/src''] ''/p'' ''python3'' =
     Some ''/p/build/debian/python3.11.x86_64/src''"
  "status_name ''python3.11.x86_64'' = ''python3''"
  by code_simp+

text \<open>Of two copies of a unit the status shows the one with the greater count, compared as text.\<close>

lemma status_counts_as_text:
  "status_entry ''/p/build/debian/x.x86_64/src/.git'' ''9'' [(''x'', ''10'', ''alpine'')] = [(''x'', ''9'', ''debian'')]"
  by code_simp

end
