(* ===== verification/FeedUpdate.thy ===== *)
theory FeedUpdate
  imports Guarded GzipFrame AptFeed
begin

text \<open>
  The update of package feeds, from \<^verbatim>\<open>internal/feeds/alpine\<close> and \<^verbatim>\<open>internal/feeds/apt\<close>, and the checks
  of signatures it relies on, \<^verbatim>\<open>internal/apkindex/verify.go\<close> and \<^verbatim>\<open>internal/dpkg/verify.go\<close>. The
  downloads and the files written are recorded. The network, the disk, the readers of tar, PEM,
  OpenPGP and dates, the digests and the check of a signature are parameters.
\<close>

section \<open>The world\<close>

datatype feed_action =
    FeedGet string
  | FeedDir string
  | FeedWrite string string
  | FeedAppend string string

text \<open>The answer to a GET, what opening a file gives, and the errors of an update.\<close>

datatype reply = NoReply | Refused nat | BodyLost | Reply string

datatype opened = Missing | Unreadable | Contents string

datatype StreamError = GzipUnopened | TarBroken | EntryCut string

datatype KeyError = KeyUnreadable | NotPEM | KeyMalformed | NotRSA | UnsupportedPEM string

datatype VerifyError =
    FrameError GzipError
  | NoSignature
  | SignatureUnreadable StreamError
  | UntrustedKey string
  | KeyUnusable string KeyError
  | SignatureMismatch string

datatype ReleaseError =
    NotClearsigned
  | KeyringMalformed
  | SignerUntrusted
  | ValidUntilMalformed string
  | ValidUntilExpired int

datatype ExtractError = BadFrame GzipError | BadStream StreamError | NoIndexEntry

datatype UpdateError =
    NoModuleDir
  | PeekFailed
  | NoFeedName
  | DuplicateFeed name
  | NoFeeds
  | NoArches name
  | KeyFileMissing string
  | NoKeys name
  | BadArch string
  | GetFailed
  | GetStatus nat
  | GetCut
  | BadSignature VerifyError
  | BadIndex ExtractError
  | DiskError string
  | NoKeyring
  | KeyringUnreadable string
  | AllowListUnreadable
  | ReleaseRejected ReleaseError
  | NotGzip
  | EmptyFingerprint

text \<open>
  The entries of a tar stream up to its end or its first error; an entry whose contents cannot
  be read has none. \<^const>\<open>None\<close> for a stream that gzip does not open.
\<close>

type_synonym tar_read = "(string \<times> string option) list \<times> bool"

record feed_world =
  fdGet :: "feed_action list \<Rightarrow> reply"
  fdDoes :: "feed_action list \<Rightarrow> bool"
  fdFile :: "feed_action list \<Rightarrow> string \<Rightarrow> opened"
  fdExists :: "string \<Rightarrow> bool"
  fdDirs :: "string \<Rightarrow> (string \<times> bool) list option"
  fdCalls :: "string \<Rightarrow> (string \<times> sval) list list option"
  fdInflate :: inflater
  fdTar :: "string \<Rightarrow> tar_read option"
  fdGunzip :: "string \<Rightarrow> string option"
  fdSHA1 :: "string \<Rightarrow> string"
  fdRSA :: "string \<Rightarrow> string \<Rightarrow> string \<Rightarrow> bool"
  fdPEM :: "string \<Rightarrow> (string \<times> string) option"
  fdPKIX :: "string \<Rightarrow> string option option"
  fdPKCS1 :: "string \<Rightarrow> string option"
  fdClearsign :: "string \<Rightarrow> (string \<times> string \<times> string) option"
  fdArmored :: "string \<Rightarrow> string option"
  fdBinary :: "string \<Rightarrow> string option"
  fdCheck :: "string \<Rightarrow> string \<Rightarrow> string \<Rightarrow> bool"
  fdTime :: "string \<Rightarrow> string \<Rightarrow> int option"
  fdNow :: int

type_synonym 'x update = "(UpdateError, feed_action, 'x) trace"

definition feed_seen :: "(feed_action list \<Rightarrow> 'x) \<Rightarrow> 'x update" where
  "feed_seen f h = (Inr (f h), h)"

definition or_fail :: "('e \<Rightarrow> UpdateError) \<Rightarrow> 'e + 'x \<Rightarrow> 'x update" where
  "or_fail g r = (case r of Inl e \<Rightarrow> throw (g e) | Inr x \<Rightarrow> ret x)"

definition httpGet :: "feed_world \<Rightarrow> string \<Rightarrow> string update" where
  "httpGet w url =
     bnd (asking (fdGet w) (FeedGet url)) (\<lambda>r.
       case r of
         NoReply \<Rightarrow> throw GetFailed
       | Refused code \<Rightarrow> throw (GetStatus code)
       | BodyLost \<Rightarrow> throw GetCut
       | Reply body \<Rightarrow> ret body)"

definition disk_must :: "feed_world \<Rightarrow> string \<Rightarrow> feed_action \<Rightarrow> unit update" where
  "disk_must w p = attempt (\<lambda>h. if fdDoes w h then None else Some (DiskError p))"

text \<open>An index goes to its place, under a directory that is made first.\<close>

definition write_index :: "feed_world \<Rightarrow> string \<Rightarrow> string \<Rightarrow> unit update" where
  "write_index w dst data =
     bnd (disk_must w (Dir dst) (FeedDir (Dir dst))) (\<lambda>_. disk_must w dst (FeedWrite dst data))"

section \<open>The signature of an Alpine index\<close>

definition tar_entry :: "(string \<Rightarrow> bool) \<Rightarrow> tar_read option \<Rightarrow> StreamError + (string \<times> string) option" where
  "tar_entry p t =
     (case t of
        None \<Rightarrow> Inl GzipUnopened
      | Some (entries, ended) \<Rightarrow>
          (case List.find (\<lambda>e. p (fst e)) entries of
             Some (n, Some data) \<Rightarrow> Inr (Some (n, data))
           | Some (n, None) \<Rightarrow> Inl (EntryCut n)
           | None \<Rightarrow> if ended then Inr None else Inl TarBroken))"

definition sign_prefix :: string where
  "sign_prefix = ''.SIGN.RSA.''"

definition readSignatureEntry :: "feed_world \<Rightarrow> string \<Rightarrow> StreamError + (string \<times> string)" where
  "readSignatureEntry w stream =
     (case tar_entry (\<lambda>n. HasPrefix n sign_prefix) (fdTar w stream) of
        Inl err \<Rightarrow> Inl err
      | Inr None \<Rightarrow> Inr ([], [])
      | Inr (Some (n, sig)) \<Rightarrow> Inr (drop (length sign_prefix) n, sig))"

definition loadPublicKey :: "feed_world \<Rightarrow> feed_action list \<Rightarrow> string \<Rightarrow> KeyError + string" where
  "loadPublicKey w h path =
     (case fdFile w h path of
        Contents data \<Rightarrow>
          (case fdPEM w data of
             None \<Rightarrow> Inl NotPEM
           | Some (kind, body) \<Rightarrow>
               if kind = ''PUBLIC KEY'' then
                 (case fdPKIX w body of
                    None \<Rightarrow> Inl KeyMalformed | Some None \<Rightarrow> Inl NotRSA | Some (Some k) \<Rightarrow> Inr k)
               else if kind = ''RSA PUBLIC KEY'' then
                 (case fdPKCS1 w body of None \<Rightarrow> Inl KeyMalformed | Some k \<Rightarrow> Inr k)
               else Inl (UnsupportedPEM kind))
      | _ \<Rightarrow> Inl KeyUnreadable)"

text \<open>The empty path stands for no key in the source.\<close>

definition trusted_key :: "string list \<Rightarrow> string \<Rightarrow> string" where
  "trusted_key trustedKeys keyName =
     (case List.find (\<lambda>p. Base p = keyName) trustedKeys of None \<Rightarrow> [] | Some p \<Rightarrow> p)"

definition VerifySignatureBytes :: "feed_world \<Rightarrow> feed_action list \<Rightarrow> string \<Rightarrow> string list \<Rightarrow> VerifyError + unit" where
  "VerifySignatureBytes w h data trustedKeys =
     (case Boundaries (fdInflate w) data of
        Inl err \<Rightarrow> Inl (FrameError err)
      | Inr bounds \<Rightarrow>
          if length bounds < 2 then Inl NoSignature
          else case readSignatureEntry w (Bytes (hd bounds) data) of
            Inl err \<Rightarrow> Inl (SignatureUnreadable err)
          | Inr (keyName, signature) \<Rightarrow>
              (let matched = trusted_key trustedKeys keyName in
               if keyName = [] then Inl NoSignature
               else if matched = [] then Inl (UntrustedKey keyName)
               else case loadPublicKey w h matched of
                 Inl err \<Rightarrow> Inl (KeyUnusable matched err)
               | Inr pub \<Rightarrow>
                   if fdRSA w pub (fdSHA1 w (drop (bdEnd (hd bounds)) data)) signature then Inr ()
                   else Inl (SignatureMismatch keyName)))"

section \<open>Alpine feeds\<close>

text \<open>The calls of a feed built-in in a module file, in the order of the names of the feeds.\<close>

fun peek_calls :: "('c \<Rightarrow> 'd) \<Rightarrow> ('d \<Rightarrow> name) \<Rightarrow> 'c list \<Rightarrow> 'd list \<Rightarrow> UpdateError + 'd list" where
  "peek_calls parse nm [] decls = Inr (sort_key nm decls)"
| "peek_calls parse nm (c # cs) decls =
     (if nm (parse c) = [] then Inl NoFeedName
      else if nm (parse c) \<in> nm ` set decls then Inl (DuplicateFeed (nm (parse c)))
      else peek_calls parse nm cs (decls @ [parse c]))"

definition alpine_decl :: "(string \<times> sval) list \<Rightarrow> alpineFeedArgs" where
  "alpine_decl kwargs =
     fold set_kwarg kwargs \<lparr>faName = [], faUrl = [], faBranch = [], faSection = [], faIndex = [], faKeys = []\<rparr>"

definition alpine_PeekFeedDecls :: "feed_world \<Rightarrow> string \<Rightarrow> UpdateError + alpineFeedArgs list" where
  "alpine_PeekFeedDecls w moduleDir =
     (case fdCalls w (PathJoin [moduleDir, ''MODULE.star'']) of
        None \<Rightarrow> Inl PeekFailed
      | Some calls \<Rightarrow> peek_calls alpine_decl faName calls [])"

text \<open>The architectures that have a directory of their own already, by their tokens.\<close>

definition dir_arches :: "feed_world \<Rightarrow> (string \<Rightarrow> string) \<Rightarrow> string \<Rightarrow> string list" where
  "dir_arches w token indexDir =
     (case fdDirs w indexDir of
        None \<Rightarrow> []
      | Some entries \<Rightarrow>
          sort (concat (map (\<lambda>(n, isDir). if isDir then take 1 (filter (\<lambda>a. token a = n) Supported) else []) entries)))"

definition alpine_pickArches :: "feed_world \<Rightarrow> string \<Rightarrow> string list \<Rightarrow> alpineFeedArgs \<Rightarrow> string list" where
  "alpine_pickArches w moduleDir arches d =
     (let existing = dir_arches w Apk (PathJoin [moduleDir, faIndex d]) in
      if arches \<noteq> [] then arches else if existing \<noteq> [] then existing else Supported)"

definition key_path :: "string \<Rightarrow> string \<Rightarrow> string" where
  "key_path moduleDir rel = (if IsAbs rel then rel else PathJoin [moduleDir, rel])"

definition resolveKeyPaths :: "feed_world \<Rightarrow> string \<Rightarrow> string list \<Rightarrow> UpdateError + string list" where
  "resolveKeyPaths w moduleDir relPaths =
     (case List.find (\<lambda>rel. \<not> fdExists w (key_path moduleDir rel)) relPaths of
        Some rel \<Rightarrow> Inl (KeyFileMissing rel)
      | None \<Rightarrow> Inr (map (key_path moduleDir) relPaths))"

definition extractAPKINDEXFromStream :: "feed_world \<Rightarrow> string \<Rightarrow> StreamError + string option" where
  "extractAPKINDEXFromStream w stream =
     map_sum id (map_option snd) (tar_entry (\<lambda>n. n = ''APKINDEX'') (fdTar w stream))"

fun first_index :: "feed_world \<Rightarrow> string list \<Rightarrow> ExtractError + string" where
  "first_index w [] = Inl NoIndexEntry"
| "first_index w (s # ss) =
     (case extractAPKINDEXFromStream w s of
        Inl err \<Rightarrow> Inl (BadStream err)
      | Inr None \<Rightarrow> first_index w ss
      | Inr (Some index) \<Rightarrow> Inr index)"

definition extractInnerAPKINDEX :: "feed_world \<Rightarrow> string \<Rightarrow> ExtractError + string" where
  "extractInnerAPKINDEX w tarball =
     (case Boundaries (fdInflate w) tarball of
        Inl err \<Rightarrow> Inl (BadFrame err)
      | Inr bounds \<Rightarrow> first_index w (map (\<lambda>b. Bytes b tarball) bounds))"

definition alpine_url :: "alpineFeedArgs \<Rightarrow> string \<Rightarrow> string" where
  "alpine_url d alpineArch =
     faUrl d @ ''/'' @ faBranch d @ ''/'' @ faSection d @ ''/'' @ alpineArch @ ''/APKINDEX.tar.gz''"

definition alpine_dst :: "string \<Rightarrow> alpineFeedArgs \<Rightarrow> string \<Rightarrow> string" where
  "alpine_dst moduleDir d alpineArch = PathJoin [moduleDir, faIndex d, alpineArch, ''APKINDEX'']"

definition fetchOne :: "feed_world \<Rightarrow> string \<Rightarrow> alpineFeedArgs \<Rightarrow> string \<Rightarrow> string list \<Rightarrow> unit update" where
  "fetchOne w moduleDir d alpineArch trustedKeys =
     bnd (httpGet w (alpine_url d alpineArch)) (\<lambda>tarball.
     bnd (feed_seen (\<lambda>h. VerifySignatureBytes w h tarball trustedKeys)) (\<lambda>v.
     bnd (or_fail BadSignature v) (\<lambda>_.
     bnd (or_fail BadIndex (extractInnerAPKINDEX w tarball)) (\<lambda>indexBytes.
       write_index w (alpine_dst moduleDir d alpineArch) indexBytes))))"

text \<open>One feed: its architectures, its keys, and one index after the other.\<close>

definition update_arch :: "(string \<Rightarrow> unit update) \<Rightarrow> string \<Rightarrow> unit update" where
  "update_arch fetch yoeArch = (case Validate yoeArch of Some msg \<Rightarrow> throw (BadArch yoeArch) | None \<Rightarrow> fetch yoeArch)"

definition alpine_update_feed :: "feed_world \<Rightarrow> string \<Rightarrow> string list \<Rightarrow> alpineFeedArgs \<Rightarrow> unit update" where
  "alpine_update_feed w moduleDir arches d =
     (let picked = alpine_pickArches w moduleDir arches d in
      if picked = [] then throw (NoArches (faName d))
      else bnd (or_fail id (resolveKeyPaths w moduleDir (faKeys d))) (\<lambda>trustedKeys.
             if trustedKeys = [] then throw (NoKeys (faName d))
             else each (update_arch (\<lambda>a. fetchOne w moduleDir d (Apk a) trustedKeys)) picked))"

definition alpine_UpdateFeeds :: "feed_world \<Rightarrow> string \<Rightarrow> string list \<Rightarrow> unit update" where
  "alpine_UpdateFeeds w moduleDir arches =
     (if moduleDir = [] then throw NoModuleDir
      else bnd (or_fail id (alpine_PeekFeedDecls w moduleDir)) (\<lambda>decls.
             if decls = [] then throw NoFeeds else each (alpine_update_feed w moduleDir arches) decls))"

section \<open>Release files\<close>

definition time_layouts :: "string list" where
  "time_layouts = [''Mon, 02 Jan 2006 15:04:05 MST'', ''Mon, 02 Jan 2006 15:04:05 -0700'',
     ''Mon, 02 Jan 2006 15:04:05 MST'', ''Mon, 02 Jan 2006 15:04:05 -0700'']"

definition parse_time :: "feed_world \<Rightarrow> string \<Rightarrow> int option" where
  "parse_time w v =
     (case List.find (\<lambda>l. fdTime w l v \<noteq> None) time_layouts of None \<Rightarrow> None | Some l \<Rightarrow> fdTime w l v)"

text \<open>The date the first line of the field has, if there is one.\<close>

definition ParseValidUntil :: "feed_world \<Rightarrow> string \<Rightarrow> ReleaseError + int option" where
  "ParseValidUntil w body =
     (case List.find (\<lambda>l. HasPrefix l ''Valid-Until:'') (Split body CHR 0x0A) of
        None \<Rightarrow> Inr None
      | Some l \<Rightarrow>
          (let v = TrimSpace (drop (length ''Valid-Until:'') l) in
           case parse_time w v of None \<Rightarrow> Inl (ValidUntilMalformed v) | Some t \<Rightarrow> Inr (Some t)))"

definition release_keyring :: "feed_world \<Rightarrow> string \<Rightarrow> ReleaseError + string" where
  "release_keyring w keyring =
     (case fdArmored w keyring of
        Some el \<Rightarrow> Inr el
      | None \<Rightarrow> (case fdBinary w keyring of None \<Rightarrow> Inl KeyringMalformed | Some el \<Rightarrow> Inr el))"

definition VerifyInRelease :: "feed_world \<Rightarrow> string \<Rightarrow> string \<Rightarrow> ReleaseError + string" where
  "VerifyInRelease w inRelease keyring =
     (case fdClearsign w inRelease of
        None \<Rightarrow> Inl NotClearsigned
      | Some (bytes, body, signature) \<Rightarrow>
          (case release_keyring w keyring of
             Inl err \<Rightarrow> Inl err
           | Inr el \<Rightarrow>
               if \<not> fdCheck w el bytes signature then Inl SignerUntrusted
               else case ParseValidUntil w body of
                 Inl err \<Rightarrow> Inl err
               | Inr None \<Rightarrow> Inr body
               | Inr (Some t) \<Rightarrow> if t < fdNow w then Inl (ValidUntilExpired t) else Inr body))"

section \<open>Apt feeds\<close>

definition apt_decl :: "(string \<times> sval) list \<Rightarrow> aptFeedArgs" where
  "apt_decl kwargs =
     fold apt_set_kwarg kwargs
       \<lparr>paName = [], paDistro = [], paUrl = [], paArchURLs = [], paSuite = [], paCodename = [],
        paComponent = [], paArches = [], paIndex = [], paKeyring = []\<rparr>"

definition apt_PeekFeedDecls :: "feed_world \<Rightarrow> string \<Rightarrow> UpdateError + aptFeedArgs list" where
  "apt_PeekFeedDecls w moduleDir =
     (case fdCalls w (PathJoin [moduleDir, ''MODULE.star'']) of
        None \<Rightarrow> Inl PeekFailed
      | Some calls \<Rightarrow> peek_calls apt_decl paName calls [])"

definition declared_arches :: "aptFeedArgs \<Rightarrow> string list" where
  "declared_arches d = sort (concat (map (\<lambda>declArch. take 1 (filter (\<lambda>a. Deb a = declArch) Supported)) (paArches d)))"

definition apt_pickArches :: "feed_world \<Rightarrow> string \<Rightarrow> string list \<Rightarrow> aptFeedArgs \<Rightarrow> string list" where
  "apt_pickArches w moduleDir arches d =
     (let existing = dir_arches w Deb (PathJoin [moduleDir, paIndex d]) in
      if arches \<noteq> [] then arches
      else if existing \<noteq> [] then existing
      else if declared_arches d \<noteq> [] then declared_arches d
      else Supported)"

definition packages_url :: "aptFeedArgs \<Rightarrow> string \<Rightarrow> string" where
  "packages_url d yoeArch =
     TrimSuffix (baseURLFor d yoeArch) ''/'' @ ''/dists/'' @ paSuite d @ ''/'' @ paComponent d @ ''/binary-'' @ Deb yoeArch @
     ''/Packages.gz''"

definition release_url :: "aptFeedArgs \<Rightarrow> string" where
  "release_url d = TrimSuffix (paUrl d) ''/'' @ ''/dists/'' @ paSuite d @ ''/InRelease''"

definition packages_dst :: "string \<Rightarrow> aptFeedArgs \<Rightarrow> string \<Rightarrow> string" where
  "packages_dst moduleDir d yoeArch = PathJoin [moduleDir, paIndex d, Deb yoeArch, ''Packages'']"

definition fetchPackages :: "feed_world \<Rightarrow> string \<Rightarrow> aptFeedArgs \<Rightarrow> string \<Rightarrow> unit update" where
  "fetchPackages w moduleDir d yoeArch =
     bnd (httpGet w (packages_url d yoeArch)) (\<lambda>gz.
       case fdGunzip w gz of
         None \<Rightarrow> throw NotGzip
       | Some raw \<Rightarrow> write_index w (packages_dst moduleDir d yoeArch) raw)"

definition readKeyring :: "feed_world \<Rightarrow> feed_action list \<Rightarrow> string \<Rightarrow> string \<Rightarrow> UpdateError + string" where
  "readKeyring w h moduleDir rel =
     (if rel = [] then Inl NoKeyring
      else case fdFile w h (key_path moduleDir rel) of Contents s \<Rightarrow> Inr s | _ \<Rightarrow> Inl (KeyringUnreadable rel))"

definition upper :: "char \<Rightarrow> char" where
  "upper c = (if CHR ''a'' \<le> c \<and> c \<le> CHR ''z'' then char_of (of_char c - (32 :: nat)) else c)"

definition normal_fingerprint :: "string \<Rightarrow> string" where
  "normal_fingerprint s = map upper (filter (\<lambda>c. c \<noteq> CHR '' '') (TrimSpace s))"

definition allow_list_path :: "string \<Rightarrow> string" where
  "allow_list_path moduleDir = PathJoin [moduleDir, ''keys'', ''allowed-fingerprints'']"

text \<open>The longest line a scanner of the library takes is 65535 bytes.\<close>

definition readAllowedFingerprints :: "feed_world \<Rightarrow> feed_action list \<Rightarrow> string \<Rightarrow> UpdateError + string set" where
  "readAllowedFingerprints w h moduleDir =
     (case fdFile w h (allow_list_path moduleDir) of
        Missing \<Rightarrow> Inr {}
      | Unreadable \<Rightarrow> Inl AllowListUnreadable
      | Contents s \<Rightarrow>
          (let ls = Split s CHR 0x0A in
           if list_ex (\<lambda>l. 65536 \<le> length l) ls then Inl AllowListUnreadable
           else Inr (normal_fingerprint ` set (filter (\<lambda>l. TrimSpace l \<noteq> [] \<and> \<not> HasPrefix (TrimSpace l) ''#'') ls))))"

text \<open>The source leaves the check of the fingerprint for later: every release file passes.\<close>

definition enforceAllowList :: "string \<Rightarrow> string set \<Rightarrow> UpdateError + unit" where
  "enforceAllowList inRelease allowed = Inr ()"

definition appendAllowedFingerprint :: "feed_world \<Rightarrow> string \<Rightarrow> string \<Rightarrow> unit update" where
  "appendAllowedFingerprint w moduleDir fpr =
     (let f = normal_fingerprint fpr; nl = [CHR 0x0A]; p = allow_list_path moduleDir in
      if f = [] then throw EmptyFingerprint
      else bnd (disk_must w p (FeedDir (PathJoin [moduleDir, ''keys'']))) (\<lambda>_.
             disk_must w p (FeedAppend p (nl @ ''# Added via --allow-key-update'' @ nl @ f @ nl))))"

definition apt_update_feed :: "feed_world \<Rightarrow> string \<Rightarrow> string list \<Rightarrow> aptFeedArgs \<Rightarrow> unit update" where
  "apt_update_feed w moduleDir arches d =
     (let picked = apt_pickArches w moduleDir arches d in
      if picked = [] then throw (NoArches (paName d))
      else bnd (feed_seen (\<lambda>h. readKeyring w h moduleDir (paKeyring d))) (\<lambda>k.
           bnd (or_fail id k) (\<lambda>keyring.
           bnd (feed_seen (\<lambda>h. readAllowedFingerprints w h moduleDir)) (\<lambda>l.
           bnd (or_fail id l) (\<lambda>allowed.
           bnd (httpGet w (release_url d)) (\<lambda>inRelease.
           bnd (or_fail id (enforceAllowList inRelease allowed)) (\<lambda>_.
           bnd (or_fail ReleaseRejected (VerifyInRelease w inRelease keyring)) (\<lambda>_.
             each (update_arch (fetchPackages w moduleDir d)) picked))))))))"

definition apt_UpdateFeeds :: "feed_world \<Rightarrow> string \<Rightarrow> string list \<Rightarrow> string \<Rightarrow> unit update" where
  "apt_UpdateFeeds w moduleDir arches allowKey =
     (if moduleDir = [] then throw NoModuleDir
      else bnd (or_fail id (apt_PeekFeedDecls w moduleDir)) (\<lambda>decls.
             if decls = [] then throw NoFeeds
             else bnd (if allowKey = [] then ret () else appendAllowedFingerprint w moduleDir allowKey) (\<lambda>_.
                    each (apt_update_feed w moduleDir arches) decls)))"

section \<open>What a signature covers\<close>

text \<open>The bytes after a signature stream are signed by a key that is trusted and was loaded.\<close>

definition signed_by :: "feed_world \<Rightarrow> feed_action list \<Rightarrow> string list \<Rightarrow> string \<Rightarrow> string \<Rightarrow> bool" where
  "signed_by w h trustedKeys sigStream content \<longleftrightarrow>
     (\<exists>keyName sig path key. readSignatureEntry w sigStream = Inr (keyName, sig) \<and> keyName \<noteq> [] \<and>
        path \<in> set trustedKeys \<and> Base path = keyName \<and> loadPublicKey w h path = Inr key \<and>
        fdRSA w key (fdSHA1 w content) sig)"

lemma trusted_key_Some: "trusted_key ks n \<noteq> [] \<Longrightarrow> trusted_key ks n \<in> set ks \<and> Base (trusted_key ks n) = n"
proof (cases "List.find (\<lambda>p. Base p = n) ks")
  case (Some p)
  then have "p \<in> set ks \<and> Base p = n" by (auto simp: find_Some_iff)
  with Some show ?thesis by (simp add: trusted_key_def)
qed (simp add: trusted_key_def)

lemma VerifySignatureBytes_signed:
  assumes "local_inflater (fdInflate w)" and "VerifySignatureBytes w h data trustedKeys = Inr ()"
  shows "\<exists>s ms rest. data = s @ concat ms @ rest \<and> Boundaries (fdInflate w) data = Inr (bounds_from 0 (s # ms)) \<and>
    (\<forall>m \<in> set (s # ms). member (fdInflate w) m) \<and> signed_by w h trustedKeys s (concat ms @ rest)"
proof -
  from assms(2) obtain bounds keyName sig key where b: "Boundaries (fdInflate w) data = Inr bounds" "2 \<le> length bounds"
    and e: "readSignatureEntry w (Bytes (hd bounds) data) = Inr (keyName, sig)" "keyName \<noteq> []"
    and k: "trusted_key trustedKeys keyName \<noteq> []" "loadPublicKey w h (trusted_key trustedKeys keyName) = Inr key"
    and v: "fdRSA w key (fdSHA1 w (drop (bdEnd (hd bounds)) data)) sig"
    by (auto simp: VerifySignatureBytes_def Let_def split: sum.splits if_splits)
  from scan_sound [OF assms(1) b(1) [unfolded Boundaries_def]] obtain ms rest where
    d: "data = concat ms @ rest" "bounds = bounds_from 0 ms" "\<forall>m \<in> set ms. member (fdInflate w) m" by auto
  from d(2) b(2) obtain s ms' where ms: "ms = s # ms'" by (cases ms) auto
  have "Bytes (hd bounds) data = s" "drop (bdEnd (hd bounds)) data = concat ms' @ rest"
    by (simp_all add: d ms Bytes_def)
  then have "signed_by w h trustedKeys s (concat ms' @ rest)"
    unfolding signed_by_def using e k v trusted_key_Some [OF k(1)] by metis
  then show ?thesis using b(1) d ms by auto
qed

lemma first_index_from:
  "first_index w ss = Inr idx \<Longrightarrow> \<exists>m \<in> set ss. extractAPKINDEXFromStream w m = Inr (Some idx)"
  by (induction ss) (auto split: sum.splits option.splits)

lemma extractInnerAPKINDEX_members:
  assumes "Boundaries (fdInflate w) (concat ms @ rest) = Inr (bounds_from 0 ms)"
  shows "extractInnerAPKINDEX w (concat ms @ rest) = first_index w ms"
  using bounds_from_Bytes [of "[]" ms rest] by (simp add: extractInnerAPKINDEX_def assms)

text \<open>
  Where an index that was accepted comes from: a gzip member of the signed part, unless the
  signature stream itself has an entry of that name.
\<close>

definition index_from :: "feed_world \<Rightarrow> string \<Rightarrow> string \<Rightarrow> string \<Rightarrow> bool" where
  "index_from w sigStream content idx \<longleftrightarrow>
     extractAPKINDEXFromStream w sigStream = Inr (Some idx) \<or>
     extractAPKINDEXFromStream w sigStream = Inr None \<and>
       (\<exists>pre m post. content = pre @ m @ post \<and> member (fdInflate w) m \<and> extractAPKINDEXFromStream w m = Inr (Some idx))"

lemma accepted_index:
  assumes "local_inflater (fdInflate w)" and "VerifySignatureBytes w h data trustedKeys = Inr ()"
    and "extractInnerAPKINDEX w data = Inr idx"
  shows "\<exists>s content. data = s @ content \<and> member (fdInflate w) s \<and> signed_by w h trustedKeys s content \<and> index_from w s content idx"
proof -
  from VerifySignatureBytes_signed [OF assms(1,2)] obtain s ms rest where
    d: "data = s @ concat ms @ rest" "Boundaries (fdInflate w) data = Inr (bounds_from 0 (s # ms))"
      "\<forall>m \<in> set (s # ms). member (fdInflate w) m" "signed_by w h trustedKeys s (concat ms @ rest)" by blast
  from d(1,2) assms(3) extractInnerAPKINDEX_members [of w "s # ms" rest] have fi: "first_index w (s # ms) = Inr idx" by simp
  have "index_from w s (concat ms @ rest) idx"
  proof (cases "extractAPKINDEXFromStream w s = Inr (Some idx)")
    case False
    with fi have none: "extractAPKINDEXFromStream w s = Inr None" and "first_index w ms = Inr idx"
      by (auto split: sum.splits option.splits)
    from first_index_from [OF this(2)] obtain m where m: "m \<in> set ms" "extractAPKINDEXFromStream w m = Inr (Some idx)" by blast
    then obtain as bs where "ms = as @ m # bs" by (meson split_list)
    then have "concat ms @ rest = concat as @ m @ (concat bs @ rest)" by simp
    with none m d(3) show ?thesis unfolding index_from_def by (metis list.set_intros(2))
  qed (simp add: index_from_def)
  with d show ?thesis by auto
qed

section \<open>What is written\<close>

lemma only_feed_seen [only_rules]: "only P (feed_seen f)"
  by (simp add: only_def feed_seen_def)

lemma only_or_fail [only_rules]: "only P (or_fail g r)"
  by (simp add: or_fail_def only_ret only_throw split: sum.split)

lemma only_httpGet [only_rules]: "P (FeedGet url) \<Longrightarrow> only P (httpGet w url)"
  unfolding httpGet_def by (intro only_rules) (auto simp: only_ret only_throw split: reply.split)

lemma only_write_index [only_rules]: "P (FeedDir (Dir dst)) \<Longrightarrow> P (FeedWrite dst data) \<Longrightarrow> only P (write_index w dst data)"
  unfolding write_index_def disk_must_def by (intro only_rules)

lemma only_update_arch [only_rules]: "(\<And>a. only P (f a)) \<Longrightarrow> only P (update_arch f a)"
  by (simp add: update_arch_def only_throw split: option.split)

lemma feed_seen_bnd [simp]: "bnd (feed_seen f) g h = g (f h) h"
  by (simp add: feed_seen_def bnd_def)

lemma or_fail_bnd: "bnd (or_fail g r) f = (case r of Inl e \<Rightarrow> throw (g e) | Inr x \<Rightarrow> f x)"
  by (simp add: or_fail_def split: sum.split)

text \<open>An answered GET is the last action before what is done with its body.\<close>

lemma httpGet_at:
  "httpGet w url h =
     ((case fdGet w (h @ [FeedGet url]) of
         NoReply \<Rightarrow> Inl GetFailed | Refused code \<Rightarrow> Inl (GetStatus code) | BodyLost \<Rightarrow> Inl GetCut | Reply body \<Rightarrow> Inr body),
      h @ [FeedGet url])"
  by (simp add: httpGet_def bnd_def asking_def throw_def ret_def split: reply.split)

fun writes :: "feed_action \<Rightarrow> bool" where
  "writes (FeedWrite p data) = True"
| "writes _ = False"

text \<open>A guard on writes alone, and a write of an index that was just fetched.\<close>

definition write_guard :: "(feed_action list \<Rightarrow> string \<Rightarrow> string \<Rightarrow> bool) \<Rightarrow> feed_action guard" where
  "write_guard G k a \<longleftrightarrow> (\<forall>p data. a = FeedWrite p data \<longrightarrow> G k p data)"

lemma write_guard_simps [simp]:
  "write_guard G k (FeedWrite p data) = G k p data" "write_guard G k (FeedGet url)" "write_guard G k (FeedDir d)"
  "write_guard G k (FeedAppend p s)"
  by (auto simp: write_guard_def)

lemma careful_or_fail [careful_rules]: "careful G (or_fail g r)"
  by (rule careful_only) (rule only_or_fail)

lemma careful_httpGet [careful_rules]: "careful (write_guard G) (httpGet w url)"
  by (rule careful_only) (rule only_httpGet, simp)

lemma careful_update_arch [careful_rules]:
  "(Validate a = None \<Longrightarrow> careful G (f a)) \<Longrightarrow> careful G (update_arch f a)"
  by (simp add: update_arch_def careful_throw split: option.split)

lemma guarded_write_index:
  assumes "G (h @ [FeedDir (Dir dst)]) dst data"
  shows "\<exists>xs. snd (write_index w dst data h) = h @ xs \<and> guarded (write_guard G) h xs"
proof -
  have 1: "guarded (write_guard G) h [FeedDir (Dir dst)]" by (rule guarded_one) simp
  have 2: "guarded (write_guard G) (h @ [FeedDir (Dir dst)]) [FeedWrite dst data]" by (rule guarded_one) (simp add: assms)
  from 1 guarded_append [OF 1 2] show ?thesis
    by (cases "fdDoes w (h @ [FeedDir (Dir dst)])")
      (auto simp: write_index_def disk_must_def bnd_def attempt_def split: option.split)
qed

lemma write_index_Inr: "write_index w dst data h = (Inr u, h') \<Longrightarrow> h' = h @ [FeedDir (Dir dst), FeedWrite dst data]"
  by (auto simp: write_index_def disk_must_def attempt_Inr elim!: bnd_Inr)

section \<open>Alpine indexes are signed\<close>

text \<open>The index of a feed for an architecture that was fetched and verified just before.\<close>

definition verified_index :: "feed_world \<Rightarrow> string \<Rightarrow> alpineFeedArgs \<Rightarrow> string list \<Rightarrow> string \<Rightarrow> feed_action list \<Rightarrow> string \<Rightarrow> string \<Rightarrow> bool" where
  "verified_index w moduleDir d keys a k p idx \<longleftrightarrow>
     p = alpine_dst moduleDir d (Apk a) \<and>
     (\<exists>us s content. let asked = us @ [FeedGet (alpine_url d (Apk a))] in
        k = asked @ [FeedDir (Dir p)] \<and> fdGet w asked = Reply (s @ content) \<and> member (fdInflate w) s \<and>
        signed_by w asked keys s content \<and> index_from w s content idx)"

lemma careful_fetchOne:
  assumes "local_inflater (fdInflate w)"
  shows "careful (write_guard (verified_index w moduleDir d keys a)) (fetchOne w moduleDir d (Apk a) keys)"
  unfolding careful_def
proof
  fix h
  let ?G = "verified_index w moduleDir d keys a"
  let ?url = "alpine_url d (Apk a)" and ?dst = "alpine_dst moduleDir d (Apk a)"
  let ?h1 = "h @ [FeedGet ?url]"
  show "\<exists>xs. snd (fetchOne w moduleDir d (Apk a) keys h) = h @ xs \<and> guarded (write_guard ?G) h xs"
    unfolding fetchOne_def
  proof (rule careful_bnd_at [where xs = "[FeedGet ?url]"])
    fix data
    assume "httpGet w ?url h = (Inr data, ?h1)"
    then have got: "fdGet w ?h1 = Reply data" by (auto simp: httpGet_at split: reply.splits)
    show "\<exists>ys. snd (bnd (feed_seen (\<lambda>h. VerifySignatureBytes w h data keys)) (\<lambda>v. bnd (or_fail BadSignature v) (\<lambda>_.
        bnd (or_fail BadIndex (extractInnerAPKINDEX w data)) (write_index w ?dst))) ?h1) = ?h1 @ ys \<and> guarded (write_guard ?G) ?h1 ys"
    proof (cases "VerifySignatureBytes w ?h1 data keys")
      case (Inr u)
      show ?thesis
      proof (cases "extractInnerAPKINDEX w data")
        case (Inr idx)
        from accepted_index [OF assms _ this, of ?h1 keys] \<open>VerifySignatureBytes w ?h1 data keys = Inr u\<close> obtain s content where
          s: "data = s @ content" "member (fdInflate w) s" "signed_by w ?h1 keys s content" "index_from w s content idx" by auto
        have "?G (?h1 @ [FeedDir (Dir ?dst)]) ?dst idx"
          unfolding verified_index_def Let_def using got s by blast
        from guarded_write_index [of ?G ?h1 ?dst idx, OF this] Inr \<open>VerifySignatureBytes w ?h1 data keys = Inr u\<close>
        show ?thesis by (simp add: or_fail_bnd)
      qed (use \<open>VerifySignatureBytes w ?h1 data keys = Inr u\<close> in \<open>auto simp: or_fail_bnd throw_def guarded_def\<close>)
    qed (auto simp: or_fail_bnd throw_def guarded_def)
  qed (auto simp: httpGet_at intro: guarded_one)
qed

lemma Validate_None: "Validate a = None \<Longrightarrow> IsSupported a"
  by (simp add: Validate_def split: if_splits)

definition alpine_guard :: "feed_world \<Rightarrow> string \<Rightarrow> alpineFeedArgs list \<Rightarrow> feed_action list \<Rightarrow> string \<Rightarrow> string \<Rightarrow> bool" where
  "alpine_guard w moduleDir decls k p idx \<longleftrightarrow>
     (\<exists>d \<in> set decls. \<exists>keys a. resolveKeyPaths w moduleDir (faKeys d) = Inr keys \<and> IsSupported a \<and>
        verified_index w moduleDir d keys a k p idx)"

lemma careful_alpine_feed:
  assumes "local_inflater (fdInflate w)" and "d \<in> set decls"
  shows "careful (write_guard (alpine_guard w moduleDir decls)) (alpine_update_feed w moduleDir arches d)"
proof -
  have step: "careful (write_guard (alpine_guard w moduleDir decls)) (fetchOne w moduleDir d (Apk a) keys)"
    if "resolveKeyPaths w moduleDir (faKeys d) = Inr keys" "Validate a = None" for keys a
  proof -
    have "alpine_guard w moduleDir decls k p idx" if v: "verified_index w moduleDir d keys a k p idx" for k p idx
      using v assms(2) \<open>resolveKeyPaths w moduleDir (faKeys d) = Inr keys\<close> Validate_None [OF \<open>Validate a = None\<close>]
      unfolding alpine_guard_def by blast
    then show ?thesis by (intro careful_mono [OF careful_fetchOne [OF assms(1)]]) (auto simp: write_guard_def)
  qed
  show ?thesis unfolding alpine_update_feed_def Let_def or_fail_bnd by (intro careful_rules step)
qed

lemma only_alpine_arch: "only (\<lambda>_. True) (update_arch (\<lambda>a. fetchOne w moduleDir d (Apk a) keys) a)"
  unfolding fetchOne_def by (intro only_rules) simp_all

lemma only_alpine_feed: "only (\<lambda>_. True) (alpine_update_feed w moduleDir arches d)"
  unfolding alpine_update_feed_def Let_def fetchOne_def by (intro only_rules) simp_all

lemma fetchOne_writes:
  assumes "fetchOne w moduleDir d alpineArch keys h = (Inr u, h')"
  shows "\<exists>idx. FeedWrite (alpine_dst moduleDir d alpineArch) idx \<in> set h'"
proof -
  from assms obtain data h1 idx where "write_index w (alpine_dst moduleDir d alpineArch) idx h1 = (Inr u, h')"
    by (auto simp: fetchOne_def or_fail_bnd throw_def elim!: bnd_Inr split: sum.splits)
  from write_index_Inr [OF this] show ?thesis by auto
qed

lemma alpine_feed_writes:
  assumes "alpine_update_feed w moduleDir arches d h = (Inr u, h')" and "a \<in> set (alpine_pickArches w moduleDir arches d)"
  shows "\<exists>idx. FeedWrite (alpine_dst moduleDir d (Apk a)) idx \<in> set h'"
proof -
  from assms obtain keys where
    "each (update_arch (\<lambda>a. fetchOne w moduleDir d (Apk a) keys)) (alpine_pickArches w moduleDir arches d) h = (Inr u, h')"
    by (auto simp: alpine_update_feed_def Let_def or_fail_bnd throw_def split: sum.splits if_splits)
  from each_Inr [OF this assms(2) only_alpine_arch] obtain h1 h2 ys where
    "fetchOne w moduleDir d (Apk a) keys h1 = (Inr (), h2)" "h' = h2 @ ys"
    by (auto simp: update_arch_def throw_def split: option.splits)
  from fetchOne_writes [OF this(1)] this(2) show ?thesis by auto
qed


text \<open>A mirror with one feed, whose signature stream has the entries given besides the signature.\<close>

definition ex_mirror :: "(string \<times> string option) list \<Rightarrow> feed_world" where
  "ex_mirror extra =
     \<lparr>fdGet = (\<lambda>h. Reply (ex_member CHR ''s'' @ ex_member CHR ''c'')), fdDoes = (\<lambda>h. True),
      fdFile = (\<lambda>h p. if p = ''m/k.pub'' then Contents ''pem'' else Missing), fdExists = (\<lambda>p. True), fdDirs = (\<lambda>p. None),
      fdCalls = (\<lambda>f. Some [[(''name'', SString ''main''), (''url'', SString ''u''), (''branch'', SString ''v''),
        (''section'', SString ''s''), (''index'', SString ''i''), (''keys'', SList [SString ''k.pub''])]]),
      fdInflate = ex_inflate,
      fdTar = (\<lambda>s. if s = ex_member CHR ''c'' then Some ([(''APKINDEX'', Some ''P:x'')], True)
                  else Some ((''.SIGN.RSA.k.pub'', Some ''sig'') # extra, True)),
      fdGunzip = (\<lambda>s. None), fdSHA1 = id,
      fdRSA = (\<lambda>key digest sig. key = ''key'' \<and> digest = ex_member CHR ''c'' \<and> sig = ''sig''),
      fdPEM = (\<lambda>s. Some (''PUBLIC KEY'', ''der'')), fdPKIX = (\<lambda>s. Some (Some ''key'')), fdPKCS1 = (\<lambda>s. None),
      fdClearsign = (\<lambda>s. None), fdArmored = (\<lambda>s. None), fdBinary = (\<lambda>s. None), fdCheck = (\<lambda>_ _ _. False),
      fdTime = (\<lambda>_ _. None), fdNow = 0\<rparr>"

lemma ex_mirror_run:
  "alpine_UpdateFeeds (ex_mirror []) ''m'' [''x86_64''] [] =
     (Inr (), [FeedGet ''u/v/s/x86_64/APKINDEX.tar.gz'', FeedDir ''m/i/x86_64'', FeedWrite ''m/i/x86_64/APKINDEX'' ''P:x''])"
  "alpine_PeekFeedDecls (ex_mirror []) ''m'' =
     Inr [\<lparr>faName = ''main'', faUrl = ''u'', faBranch = ''v'', faSection = ''s'', faIndex = ''i'', faKeys = [''k.pub'']\<rparr>]"
  by code_simp+


text \<open>
  An index in the signature stream is taken before the signed one, and nothing signs it: the
  search for the index does not begin after the signature stream.
\<close>

lemma unsigned_index_accepted:
  "alpine_UpdateFeeds (ex_mirror [(''APKINDEX'', Some ''P:evil'')]) ''m'' [''x86_64''] [] =
     (Inr (), [FeedGet ''u/v/s/x86_64/APKINDEX.tar.gz'', FeedDir ''m/i/x86_64'', FeedWrite ''m/i/x86_64/APKINDEX'' ''P:evil''])"
  by code_simp

section \<open>Package lists of apt feeds\<close>

lemma only_fetchPackages: "only (\<lambda>_. True) (update_arch (fetchPackages w moduleDir d) a)"
  unfolding fetchPackages_def by (intro only_rules) simp_all

lemma only_apt_feed: "only (\<lambda>_. True) (apt_update_feed w moduleDir arches d)"
  unfolding apt_update_feed_def Let_def fetchPackages_def by (intro only_rules) simp_all

text \<open>The list of a feed for an architecture that was downloaded just before.\<close>

definition downloaded_list :: "feed_world \<Rightarrow> string \<Rightarrow> aptFeedArgs \<Rightarrow> string \<Rightarrow> feed_action list \<Rightarrow> string \<Rightarrow> string \<Rightarrow> bool" where
  "downloaded_list w moduleDir d a k p raw \<longleftrightarrow>
     p = packages_dst moduleDir d a \<and>
     (\<exists>us gz. let asked = us @ [FeedGet (packages_url d a)] in
        k = asked @ [FeedDir (Dir p)] \<and> fdGet w asked = Reply gz \<and> fdGunzip w gz = Some raw)"

text \<open>The release file of a feed that was downloaded and verified at some point before.\<close>

definition verified_release :: "feed_world \<Rightarrow> string \<Rightarrow> aptFeedArgs \<Rightarrow> feed_action list \<Rightarrow> bool" where
  "verified_release w moduleDir d k \<longleftrightarrow>
     (\<exists>us vs keyring inRelease body. k = us @ FeedGet (release_url d) # vs \<and> readKeyring w us moduleDir (paKeyring d) = Inr keyring \<and>
        fdGet w (us @ [FeedGet (release_url d)]) = Reply inRelease \<and> VerifyInRelease w inRelease keyring = Inr body)"

definition apt_guard :: "feed_world \<Rightarrow> string \<Rightarrow> aptFeedArgs list \<Rightarrow> feed_action list \<Rightarrow> string \<Rightarrow> string \<Rightarrow> bool" where
  "apt_guard w moduleDir decls k p raw \<longleftrightarrow>
     (\<exists>d \<in> set decls. \<exists>a. IsSupported a \<and> verified_release w moduleDir d k \<and> downloaded_list w moduleDir d a k p raw)"

lemma careful_fetchPackages: "careful (write_guard (downloaded_list w moduleDir d a)) (fetchPackages w moduleDir d a)"
  unfolding careful_def
proof
  fix h
  let ?G = "downloaded_list w moduleDir d a"
  let ?h1 = "h @ [FeedGet (packages_url d a)]"
  show "\<exists>xs. snd (fetchPackages w moduleDir d a h) = h @ xs \<and> guarded (write_guard ?G) h xs"
    unfolding fetchPackages_def
  proof (rule careful_bnd_at [where xs = "[FeedGet (packages_url d a)]"])
    fix gz
    assume "httpGet w (packages_url d a) h = (Inr gz, ?h1)"
    then have got: "fdGet w ?h1 = Reply gz" by (auto simp: httpGet_at split: reply.splits)
    show "\<exists>ys. snd ((case fdGunzip w gz of None \<Rightarrow> throw NotGzip | Some raw \<Rightarrow> write_index w (packages_dst moduleDir d a) raw) ?h1) =
        ?h1 @ ys \<and> guarded (write_guard ?G) ?h1 ys"
    proof (cases "fdGunzip w gz")
      case (Some raw)
      have "?G (?h1 @ [FeedDir (Dir (packages_dst moduleDir d a))]) (packages_dst moduleDir d a) raw"
        unfolding downloaded_list_def Let_def using got Some by blast
      from guarded_write_index [of ?G ?h1 _ raw, OF this] Some show ?thesis by simp
    qed (simp add: throw_def guarded_def)
  qed (auto simp: httpGet_at intro: guarded_one)
qed

lemma careful_packages:
  "careful (write_guard (\<lambda>k p raw. \<exists>a. IsSupported a \<and> downloaded_list w moduleDir d a k p raw)) (each (update_arch (fetchPackages w moduleDir d)) as)"
proof (intro careful_rules)
  fix a
  assume "Validate a = None"
  then show "careful (write_guard (\<lambda>k p raw. \<exists>a. IsSupported a \<and> downloaded_list w moduleDir d a k p raw)) (fetchPackages w moduleDir d a)"
    by (intro careful_mono [OF careful_fetchPackages [of w moduleDir d a]]) (auto simp: write_guard_def dest: Validate_None)
qed

lemma careful_apt_feed:
  assumes "d \<in> set decls"
  shows "careful (write_guard (apt_guard w moduleDir decls)) (apt_update_feed w moduleDir arches d)"
  unfolding careful_def
proof
  fix h
  let ?G = "apt_guard w moduleDir decls" and ?as = "apt_pickArches w moduleDir arches d"
  let ?h1 = "h @ [FeedGet (release_url d)]"
  show "\<exists>xs. snd (apt_update_feed w moduleDir arches d h) = h @ xs \<and> guarded (write_guard ?G) h xs"
  proof (cases "?as \<noteq> [] \<and> (\<exists>keyring allowed. readKeyring w h moduleDir (paKeyring d) = Inr keyring \<and>
      readAllowedFingerprints w h moduleDir = Inr allowed)")
    case False
    then show ?thesis
      by (cases "readKeyring w h moduleDir (paKeyring d)"; cases "readAllowedFingerprints w h moduleDir")
        (auto simp: apt_update_feed_def Let_def or_fail_bnd throw_def guarded_def)
  next
    case True
    then obtain keyring allowed where k: "readKeyring w h moduleDir (paKeyring d) = Inr keyring"
      and l: "readAllowedFingerprints w h moduleDir = Inr allowed" and as: "?as \<noteq> []" by blast
    let ?rest = "\<lambda>inRelease. bnd (or_fail ReleaseRejected (VerifyInRelease w inRelease keyring)) (\<lambda>_.
        each (update_arch (fetchPackages w moduleDir d)) ?as)"
    have "\<exists>xs. snd (bnd (httpGet w (release_url d)) ?rest h) = h @ xs \<and> guarded (write_guard ?G) h xs"
    proof (rule careful_bnd_at [where xs = "[FeedGet (release_url d)]"])
      fix inRelease
      assume "httpGet w (release_url d) h = (Inr inRelease, ?h1)"
      then have got: "fdGet w ?h1 = Reply inRelease" by (auto simp: httpGet_at split: reply.splits)
      show "\<exists>ys. snd (?rest inRelease ?h1) = ?h1 @ ys \<and> guarded (write_guard ?G) ?h1 ys"
      proof (cases "VerifyInRelease w inRelease keyring")
        case (Inr body)
        obtain ys where ys: "snd (each (update_arch (fetchPackages w moduleDir d)) ?as ?h1) = ?h1 @ ys"
          "guarded (write_guard (\<lambda>k p raw. \<exists>a. IsSupported a \<and> downloaded_list w moduleDir d a k p raw)) ?h1 ys"
          by (rule carefulE [OF careful_packages])
        have vr: "verified_release w moduleDir d (?h1 @ vs)" for vs
          unfolding verified_release_def using k got Inr by auto
        have "guarded (write_guard ?G) ?h1 ys"
          by (rule guarded_mono [OF guarded_after [OF ys(2)]])
            (use assms vr in \<open>fastforce simp: write_guard_def apt_guard_def\<close>)
        with ys(1) Inr show ?thesis by (simp add: or_fail_bnd)
      qed (simp add: or_fail_bnd throw_def guarded_def)
    qed (auto simp: httpGet_at intro: guarded_one)
    with as k l show ?thesis by (simp add: apt_update_feed_def Let_def or_fail_bnd enforceAllowList_def)
  qed
qed

lemma careful_appendAllowedFingerprint: "careful (write_guard G) (appendAllowedFingerprint w moduleDir fpr)"
  unfolding appendAllowedFingerprint_def Let_def disk_must_def by (intro careful_rules) simp_all

lemma fetchPackages_writes:
  assumes "fetchPackages w moduleDir d a h = (Inr u, h')"
  shows "\<exists>raw. FeedWrite (packages_dst moduleDir d a) raw \<in> set h'"
proof -
  from assms obtain raw h1 where "write_index w (packages_dst moduleDir d a) raw h1 = (Inr u, h')"
    by (auto simp: fetchPackages_def throw_def elim!: bnd_Inr split: option.splits)
  from write_index_Inr [OF this] show ?thesis by auto
qed

lemma apt_feed_writes:
  assumes "apt_update_feed w moduleDir arches d h = (Inr u, h')" and "a \<in> set (apt_pickArches w moduleDir arches d)"
  shows "\<exists>raw. FeedWrite (packages_dst moduleDir d a) raw \<in> set h'"
proof -
  from assms obtain h0 where "each (update_arch (fetchPackages w moduleDir d)) (apt_pickArches w moduleDir arches d) h0 = (Inr u, h')"
    by (auto simp: apt_update_feed_def Let_def or_fail_bnd throw_def elim!: bnd_Inr split: sum.splits if_splits)
  from each_Inr [OF this assms(2) only_fetchPackages] obtain h1 h2 ys where
    "fetchPackages w moduleDir d a h1 = (Inr (), h2)" "h' = h2 @ ys"
    by (auto simp: update_arch_def throw_def split: option.splits)
  from fetchPackages_writes [OF this(1)] this(2) show ?thesis by auto
qed


text \<open>
  A mirror with a verified release file that serves whatever it likes as package lists: the
  digests of the release file are not compared with them.
\<close>

definition ex_suite :: "string \<Rightarrow> feed_world" where
  "ex_suite raw = (ex_mirror [])\<lparr>
      fdGet := (\<lambda>h. if h = [FeedGet ''u/dists/t/InRelease''] then Reply ''signed'' else Reply raw),
      fdFile := (\<lambda>h p. if p = ''m/k.gpg'' then Contents ''ring'' else Missing),
      fdCalls := (\<lambda>f. Some [[(''name'', SString ''main''), (''url'', SString ''u''), (''suite'', SString ''t''),
        (''component'', SString ''c''), (''index'', SString ''i''), (''keyring'', SString ''k.gpg'')]]),
      fdGunzip := Some, fdArmored := Some, fdClearsign := (\<lambda>s. Some (''bytes'', ''Suite: t'', ''sig'')),
      fdCheck := (\<lambda>el bytes sig. el = ''ring'' \<and> bytes = ''bytes'' \<and> sig = ''sig'')\<rparr>"

definition ex_suite_decl :: aptFeedArgs where
  "ex_suite_decl = \<lparr>paName = ''main'', paDistro = [], paUrl = ''u'', paArchURLs = [], paSuite = ''t'', paCodename = [],
     paComponent = ''c'', paArches = [], paIndex = ''i'', paKeyring = ''k.gpg''\<rparr>"

lemma ex_suite_run:
  "apt_UpdateFeeds (ex_suite ''Package: x'') ''m'' [''arm64''] [] [] =
     (Inr (), [FeedGet ''u/dists/t/InRelease'', FeedGet ''u/dists/t/c/binary-arm64/Packages.gz'', FeedDir ''m/i/arm64'',
       FeedWrite ''m/i/arm64/Packages'' ''Package: x''])"
  "apt_PeekFeedDecls (ex_suite ''Package: x'') ''m'' = Inr [ex_suite_decl]"
  by code_simp+


lemma packages_unverified:
  "snd (apt_UpdateFeeds (ex_suite raw) ''m'' [''arm64''] [] []) =
     [FeedGet ''u/dists/t/InRelease'', FeedGet ''u/dists/t/c/binary-arm64/Packages.gz'', FeedDir ''m/i/arm64'',
      FeedWrite ''m/i/arm64/Packages'' raw]"
  by code_simp

end
