(* ===== verification/Flash.thy ===== *)
theory Flash
  imports Guarded Views Paths Base64 "HOL-Library.Word"
begin

text \<open>
  Writing an image to a block device, from \<^verbatim>\<open>internal/device/flash.go\<close>, \<^verbatim>\<open>flash_mount.go\<close>,
  \<^verbatim>\<open>flash_write.go\<close> and \<^verbatim>\<open>flash_list.go\<close> (the Linux build): which devices are offered, which are refused, what is
  asked first, and the bytes that are written. The device tree of the kernel, the mount tables,
  the answers of the user and the outcome of each write are parameters.
\<close>

section \<open>The machine\<close>

datatype flash_action =
    AskConfirm string
  | WriteImage string string
  | AskChown string string
  | SudoChown string string

datatype write_end = WriteDone | WritePermission | WriteBusy | WriteFailed

text \<open>What stat says of a path (whether it is a device), links, directories and files.\<close>

record flash_world =
  fhStat :: "string \<Rightarrow> bool option"
  fhEval :: "string \<Rightarrow> string option"
  fhLink :: "string \<Rightarrow> string option"
  fhList :: "string \<Rightarrow> string list option"
  fhText :: "string \<Rightarrow> string option"
  fhUser :: "string option"
  fhAnswer :: "flash_action list \<Rightarrow> string"
  fhWrite :: "flash_action list \<Rightarrow> write_end"
  fhChown :: "flash_action list \<Rightarrow> bool"

definition there :: "flash_world \<Rightarrow> string \<Rightarrow> bool" where
  "there w p \<longleftrightarrow> fhStat w p \<noteq> None"

datatype FlashError =
    NoSuchImage name
  | NotImageClass name
  | NoMachine name
  | NoDistro DistroError
  | NotBuilt name
  | NoDevicePath
  | NoDevice string
  | NotBlockDevice string
  | NotResolved string
  | NoMountTable
  | SystemDisk string
  | ImageGone string
  | DiskMounted string
  | NoUserName
  | NotPermitted string
  | ChownRefused
  | DeviceBusy string
  | DeviceFailed
  | Endless

section \<open>Disks and what lies on them\<close>

definition block_dir :: "string \<Rightarrow> string" where
  "block_dir devicePath = ''/sys/class/block/'' @ Base devicePath"

definition parentDisk :: "flash_world \<Rightarrow> string \<Rightarrow> string" where
  "parentDisk w devicePath =
     (if \<not> there w (PathJoin [block_dir devicePath, ''partition'']) then devicePath
      else case fhLink w (block_dir devicePath) of
        None \<Rightarrow> devicePath
      | Some target \<Rightarrow> ''/dev/'' @ Base (Dir target))"

text \<open>The devices a mapped device is made of, one level down.\<close>

definition slaves_of :: "flash_world \<Rightarrow> string \<Rightarrow> string list" where
  "slaves_of w devicePath =
     (case fhList w (PathJoin [''/sys/class/block'', Base devicePath, ''slaves'']) of
        None \<Rightarrow> [] | Some names \<Rightarrow> map (\<lambda>n. ''/dev/'' @ n) names)"

text \<open>
  The leaves below a list of devices, in the order of the recursion of the source, which ends
  only if no device is below itself.
\<close>

partial_function (option) leaves_below :: "(string \<Rightarrow> string list) \<Rightarrow> string list \<Rightarrow> string list option" where
  "leaves_below slaves ds =
     (case ds of
        [] \<Rightarrow> Some []
      | d # rest \<Rightarrow>
          if slaves d = [] then Option.bind (leaves_below slaves rest) (\<lambda>r. Some (d # r))
          else leaves_below slaves (slaves d @ rest))"

declare leaves_below.simps [code]

definition underlyingDevices :: "flash_world \<Rightarrow> string \<Rightarrow> string list option" where
  "underlyingDevices w devicePath = leaves_below (slaves_of w) [devicePath]"

definition critical_mounts :: "string list" where
  "critical_mounts = [''/'', ''/boot'', ''/boot/efi'', ''/usr'']"

text \<open>The disks a line of the mount table needs, if it mounts a part of the running system.\<close>

definition mount_disks :: "flash_world \<Rightarrow> string \<Rightarrow> string list option" where
  "mount_disks w line =
     (case Fields line of
        src # mountpoint # _ \<Rightarrow>
          if mountpoint \<notin> set critical_mounts \<or> \<not> HasPrefix src ''/dev/'' then Some []
          else (case fhEval w src of
                  None \<Rightarrow> Some []
                | Some resolved \<Rightarrow> map_option (map (parentDisk w)) (underlyingDevices w resolved))
      | _ \<Rightarrow> Some [])"

fun add_disks :: "flash_world \<Rightarrow> string list \<Rightarrow> string list \<Rightarrow> string list option" where
  "add_disks w [] disks = Some disks"
| "add_disks w (line # ls) disks =
     (case mount_disks w line of
        None \<Rightarrow> None
      | Some ds \<Rightarrow> add_disks w ls (fold (\<lambda>d acc. if d \<in> set acc then acc else acc @ [d]) ds disks))"

definition systemDisks :: "flash_world \<Rightarrow> string \<Rightarrow> string list option" where
  "systemDisks w mountsContent = add_disks w (Split mountsContent CHR 0x0A) []"

definition validateDevice :: "flash_world \<Rightarrow> string \<Rightarrow> FlashError + unit" where
  "validateDevice w devicePath =
     (if devicePath = [] then Inl NoDevicePath
      else case fhStat w devicePath of
        None \<Rightarrow> Inl (NoDevice devicePath)
      | Some isDevice \<Rightarrow>
          if \<not> isDevice then Inl (NotBlockDevice devicePath)
          else (case fhEval w devicePath of
            None \<Rightarrow> Inl (NotResolved devicePath)
          | Some resolved \<Rightarrow>
              (case fhText w ''/proc/mounts'' of
                 None \<Rightarrow> Inl NoMountTable
               | Some mounts \<Rightarrow>
                   (case systemDisks w mounts of
                      None \<Rightarrow> Inl Endless
                    | Some disks \<Rightarrow>
                        if parentDisk w resolved \<in> set disks then Inl (SystemDisk devicePath) else Inr ()))))"

section \<open>Mounted partitions\<close>

definition sourceMatchesDisk :: "string \<Rightarrow> string \<Rightarrow> bool" where
  "sourceMatchesDisk source devicePath \<longleftrightarrow>
     HasPrefix source ''/dev/'' \<and>
     (source = devicePath \<or>
      HasPrefix source devicePath \<and>
        (let suffix = drop (length devicePath) source; digits = TrimPrefix suffix ''p'' in
         suffix = [] \<or> digits \<noteq> [] \<and> list_all isDigit digits))"

definition mounted_from :: "string \<Rightarrow> string \<Rightarrow> (string \<times> string) list" where
  "mounted_from devicePath line =
     (case Index line '' - '' of
        None \<Rightarrow> []
      | Some dash \<Rightarrow>
          (let hd_fields = Fields (take dash line); tl_fields = Fields (drop (dash + 3) line) in
           if length hd_fields < 5 \<or> length tl_fields < 2 then []
           else if sourceMatchesDisk (tl_fields ! 1) devicePath then [(tl_fields ! 1, hd_fields ! 4)] else []))"

text \<open>\<^const>\<open>None\<close> where the source has an error: no table, or a line too long for the scanner.\<close>

definition MountedPartitionsFor :: "flash_world \<Rightarrow> string \<Rightarrow> (string \<times> string) list option" where
  "MountedPartitionsFor w devicePath =
     (case fhText w ''/proc/self/mountinfo'' of
        None \<Rightarrow> None
      | Some s \<Rightarrow>
          (let ls = Split s CHR 0x0A in
           if list_ex (\<lambda>l. 65536 \<le> int (length l)) ls then None
           else Some (fold (\<lambda>m acc. if m \<in> set acc then acc else acc @ [m]) (concat (map (mounted_from devicePath) ls)) [])))"

section \<open>Flashing\<close>

type_synonym 'x flash = "(FlashError, flash_action, 'x) trace"

datatype flash_end = WouldFlash | Aborted | Flashed

definition findImage :: "flash_world \<Rightarrow> string \<Rightarrow> string \<Rightarrow> name \<Rightarrow> name \<Rightarrow> string" where
  "findImage w projectDir scopeDir unitName distro =
     (let p = PathJoin [PathJoin [projectDir, ''build'', distro, unitName @ ''.'' @ scopeDir, ''destdir''], unitName @ ''.img''] in
      if there w p then p else [])"

text \<open>The image that would be written, and the disk it goes to once everything was checked.\<close>

definition flash_image :: "flash_world \<Rightarrow> Project \<Rightarrow> name \<Rightarrow> string \<Rightarrow> FlashError + string" where
  "flash_image w proj unitName projectDir =
     (case AnyUnit proj unitName of
        None \<Rightarrow> Inl (NoSuchImage unitName)
      | Some u \<Rightarrow>
          if uClass u \<noteq> ''image'' then Inl (NotImageClass unitName)
          else (case map_of (pMachines proj) (dfMachine (pDefaults proj)) of
            None \<Rightarrow> Inl (NoMachine (dfMachine (pDefaults proj)))
          | Some machine \<Rightarrow>
              (case EffectiveDistroForImage proj unitName of
                 Inl err \<Rightarrow> Inl (NoDistro err)
               | Inr distro \<Rightarrow>
                   (let imgPath = findImage w projectDir (mName machine) unitName distro in
                    if imgPath = [] then Inl (NotBuilt unitName) else Inr imgPath))))"

definition target_disk :: "flash_world \<Rightarrow> string \<Rightarrow> string \<Rightarrow> FlashError + string" where
  "target_disk w imgPath devicePath =
     (case validateDevice w devicePath of
        Inl err \<Rightarrow> Inl err
      | Inr _ \<Rightarrow>
          if \<not> there w imgPath then Inl (ImageGone imgPath)
          else (case fhEval w devicePath of
            None \<Rightarrow> Inl (NotResolved devicePath)
          | Some resolved \<Rightarrow>
              (let disk = parentDisk w resolved in
               case MountedPartitionsFor w disk of
                 Some (m # ms) \<Rightarrow> Inl (DiskMounted disk)
               | _ \<Rightarrow> Inr disk)))"

definition says_yes :: "string \<Rightarrow> bool" where
  "says_yes answer \<longleftrightarrow> ToLower (TrimSpace answer) = ''y''"

definition offerChown :: "flash_world \<Rightarrow> string \<Rightarrow> unit flash" where
  "offerChown w devicePath =
     (case fhUser w of
        None \<Rightarrow> throw NoUserName
      | Some user \<Rightarrow>
          bnd (asking (fhAnswer w) (AskChown user devicePath)) (\<lambda>answer.
            if \<not> says_yes answer then throw (NotPermitted devicePath)
            else attempt (\<lambda>h. if fhChown w h then None else Some ChownRefused) (SudoChown user devicePath)))"

definition write_image :: "flash_world \<Rightarrow> string \<Rightarrow> string \<Rightarrow> write_end flash" where
  "write_image w imgPath devicePath = asking (fhWrite w) (WriteImage imgPath devicePath)"

definition flash_write :: "flash_world \<Rightarrow> string \<Rightarrow> string \<Rightarrow> string \<Rightarrow> flash_end flash" where
  "flash_write w imgPath devicePath disk =
     bnd (write_image w imgPath devicePath) (\<lambda>first.
     bnd (if first = WritePermission then bnd (offerChown w devicePath) (\<lambda>_. write_image w imgPath devicePath) else ret first) (\<lambda>r.
       case r of
         WriteDone \<Rightarrow> ret Flashed
       | WriteBusy \<Rightarrow> throw (DeviceBusy disk)
       | _ \<Rightarrow> throw DeviceFailed))"

definition Flash :: "flash_world \<Rightarrow> Project \<Rightarrow> name \<Rightarrow> string \<Rightarrow> string \<Rightarrow> bool \<Rightarrow> bool \<Rightarrow> flash_end flash" where
  "Flash w proj unitName devicePath projectDir dryRun assumeYes =
     (case flash_image w proj unitName projectDir of
        Inl err \<Rightarrow> throw err
      | Inr imgPath \<Rightarrow>
          (case target_disk w imgPath devicePath of
             Inl err \<Rightarrow> throw err
           | Inr disk \<Rightarrow>
               if dryRun then ret WouldFlash
               else bnd (if assumeYes then ret True
                         else bnd (asking (fhAnswer w) (AskConfirm devicePath)) (\<lambda>answer. ret (says_yes answer))) (\<lambda>go.
                 if \<not> go then ret Aborted else flash_write w imgPath devicePath disk)))"

section \<open>The bytes written\<close>

definition blockSize :: nat where
  "blockSize = 512"

definition alignUp :: "nat \<Rightarrow> nat \<Rightarrow> nat" where
  "alignUp n align = (n + align - 1) div align * align"

datatype CopyError = DeviceWrite | ImageRead

definition padded :: "string \<Rightarrow> string" where
  "padded chunk = chunk @ replicate (alignUp (length chunk) blockSize - length chunk) CHR 0x00"

text \<open>
  The copy through a buffer of a given size: a write may fail, and after the bytes of the image
  the reader may fail instead of ending. It returns the number of bytes of the image written, and
  the writes to the device. A buffer is never empty.
\<close>

function copyAligned :: "nat \<Rightarrow> (string list \<Rightarrow> bool) \<Rightarrow> bool \<Rightarrow> string \<Rightarrow> nat \<Rightarrow> string list \<Rightarrow> (CopyError + nat) \<times> string list" where
  "copyAligned buf works readable src written out =
     (if src = [] \<or> buf = 0 then (if readable then Inr written else Inl ImageRead, out)
      else let chunk = take buf src; out' = out @ [padded chunk] in
        if works out' then copyAligned buf works readable (drop buf src) (written + length chunk) out'
        else (Inl DeviceWrite, out'))"
  by pat_completeness auto

termination copyAligned
  by (relation "measure (\<lambda>(buf, works, readable, src, written, out). length src)") auto

declare copyAligned.simps [simp del]

section \<open>Candidates\<close>

record Candidate =
  cdPath :: string
  cdID :: string
  cdSize :: int
  cdBus :: string
  cdVendor :: string
  cdModel :: string
  cdReadOnly :: bool

definition IgnoreKey :: "Candidate \<Rightarrow> string" where
  "IgnoreKey c = (if cdID c \<noteq> [] then cdID c else cdPath c)"

definition skipByName :: "string \<Rightarrow> bool" where
  "skipByName n \<longleftrightarrow> list_ex (HasPrefix n) [''loop'', ''sr'', ''ram'', ''dm-'', ''md'', ''zram'', ''fd'']"

definition readString :: "flash_world \<Rightarrow> string list \<Rightarrow> string" where
  "readString w p = (case fhText w (PathJoin p) of None \<Rightarrow> [] | Some s \<Rightarrow> s)"

definition readUint :: "flash_world \<Rightarrow> string list \<Rightarrow> nat" where
  "readUint w p =
     (let s = TrimSpace (readString w p) in
      if s = [] \<or> \<not> list_all isDigit s then 0 else min (digits_val s) (2 ^ 64 - 1))"

text \<open>A number that does not fit is the nearest one that does.\<close>

definition readInt64 :: "flash_world \<Rightarrow> string list \<Rightarrow> int" where
  "readInt64 w p =
     (let s = TrimSpace (readString w p);
          neg = HasPrefix s ''-'';
          body = (if neg then TrimPrefix s ''-'' else TrimPrefix s ''+'') in
      if body = [] \<or> \<not> list_all isDigit body then 0
      else if neg then max (- int (digits_val body)) (- (2 ^ 63))
      else min (int (digits_val body)) (2 ^ 63 - 1))"

text \<open>The first directory on the way up from a device that answers.\<close>

fun climb :: "nat \<Rightarrow> (string \<Rightarrow> 'a option) \<Rightarrow> string \<Rightarrow> 'a option" where
  "climb 0 f cur = None"
| "climb (Suc n) f cur =
     (if cur = ''/'' \<or> cur = ''.'' then None
      else case f cur of Some x \<Rightarrow> Some x | None \<Rightarrow> climb n f (Dir cur))"

definition walk_up :: "(string \<Rightarrow> 'a option) \<Rightarrow> string \<Rightarrow> 'a option" where
  "walk_up f dev = climb (Suc (Suc (length dev))) f dev"

definition known_bus :: "flash_world \<Rightarrow> string \<Rightarrow> string option" where
  "known_bus w cur =
     (case fhLink w (PathJoin [cur, ''subsystem'']) of
        None \<Rightarrow> None
      | Some sub \<Rightarrow> if Base sub \<in> {''usb'', ''mmc'', ''scsi'', ''ata'', ''nvme'', ''sdio''} then Some (Base sub) else None)"

definition readBus :: "flash_world \<Rightarrow> string \<Rightarrow> string" where
  "readBus w blockDir =
     (case fhEval w (PathJoin [blockDir, ''device'']) of
        None \<Rightarrow> []
      | Some dev \<Rightarrow> (case walk_up (known_bus w) dev of None \<Rightarrow> [] | Some bus \<Rightarrow> bus))"

definition scsiLUN :: "string \<Rightarrow> string" where
  "scsiLUN n = (let parts = Split n CHR '':'' in if length parts \<noteq> 4 then [] else parts ! 3)"

definition usb_id :: "flash_world \<Rightarrow> string \<Rightarrow> string \<Rightarrow> string option" where
  "usb_id w lun cur =
     (let vid = TrimSpace (readString w [cur, ''idVendor'']); pid = TrimSpace (readString w [cur, ''idProduct'']);
          serial = TrimSpace (readString w [cur, ''serial'']) in
      if vid = [] then None
      else if serial = [] then Some []
      else Some (''usb:'' @ vid @ '':'' @ pid @ '':'' @ serial @ (if lun = [] then [] else '':'' @ lun)))"

definition readUSBIdentity :: "flash_world \<Rightarrow> string \<Rightarrow> string" where
  "readUSBIdentity w blockDir =
     (case fhEval w (PathJoin [blockDir, ''device'']) of
        None \<Rightarrow> []
      | Some dev \<Rightarrow> (case walk_up (usb_id w (scsiLUN (Base dev))) dev of None \<Rightarrow> [] | Some i \<Rightarrow> i))"

definition readIdentity :: "flash_world \<Rightarrow> string \<Rightarrow> string" where
  "readIdentity w blockDir =
     (let value = (\<lambda>rel. TrimSpace (readString w [blockDir, rel])) in
      case List.find (\<lambda>rel. value rel \<noteq> []) [''wwid'', ''device/wwid'', ''device/serial''] of
        Some rel \<Rightarrow> (if HasSuffix rel ''serial'' then ''serial'' else ''wwid'') @ '':'' @ value rel
      | None \<Rightarrow> readUSBIdentity w blockDir)"

definition candidate :: "flash_world \<Rightarrow> string \<Rightarrow> (string \<Rightarrow> bool) \<Rightarrow> string \<Rightarrow> Candidate option" where
  "candidate w sysroot systemBlocked n =
     (let blockDir = PathJoin [sysroot, ''class'', ''block'', n];
          sectors = readInt64 w [blockDir, ''size'']; bus = readBus w blockDir in
      if skipByName n \<or> there w (PathJoin [blockDir, ''partition'']) then None
      else if \<not> (readUint w [blockDir, ''removable''] = 1 \<or> bus = ''usb'' \<or> bus = ''mmc'') then None
      else if sectors = 0 \<or> readUint w [blockDir, ''ro''] = 1 \<or> systemBlocked (''/dev/'' @ n) then None
      else Some \<lparr>cdPath = ''/dev/'' @ n, cdID = readIdentity w blockDir, cdSize = signed_take_bit 63 (sectors * 512), cdBus = bus,
             cdVendor = TrimSpace (readString w [blockDir, ''device'', ''vendor'']),
             cdModel = TrimSpace (readString w [blockDir, ''device'', ''model'']),
             cdReadOnly = (readUint w [blockDir, ''ro''] = 1)\<rparr>)"

definition list_candidates :: "flash_world \<Rightarrow> string \<Rightarrow> (string \<Rightarrow> bool) \<Rightarrow> Candidate list option" where
  "list_candidates w sysroot systemBlocked =
     map_option (\<lambda>names. sort_key cdPath (concat (map (\<lambda>n. case candidate w sysroot systemBlocked n of None \<Rightarrow> [] | Some c \<Rightarrow> [c]) names)))
       (fhList w (PathJoin [sysroot, ''class'', ''block'']))"

text \<open>\<^const>\<open>None\<close> also when the recursion over mapped devices does not end.\<close>

definition ListCandidates :: "flash_world \<Rightarrow> Candidate list option" where
  "ListCandidates w =
     (case fhText w ''/proc/mounts'' of
        None \<Rightarrow> list_candidates w ''/sys'' (\<lambda>_. False)
      | Some mounts \<Rightarrow>
          (case systemDisks w mounts of None \<Rightarrow> None | Some disks \<Rightarrow> list_candidates w ''/sys'' (\<lambda>d. d \<in> set disks)))"

section \<open>Which disks the system needs\<close>

text \<open>The leaves below a device.\<close>

definition leaf_below :: "(string \<Rightarrow> string list) \<Rightarrow> string \<Rightarrow> string \<Rightarrow> bool" where
  "leaf_below slaves d e \<longleftrightarrow> (d, e) \<in> {(x, y). y \<in> set (slaves x)}\<^sup>* \<and> slaves e = []"

lemma leaf_below_leaf: "slaves d = [] \<Longrightarrow> leaf_below slaves d e \<longleftrightarrow> e = d"
  by (auto simp: leaf_below_def elim: converse_rtranclE)

lemma leaf_below_step: "slaves d \<noteq> [] \<Longrightarrow> leaf_below slaves d e \<longleftrightarrow> (\<exists>x \<in> set (slaves d). leaf_below slaves x e)"
  by (auto simp: leaf_below_def elim: converse_rtranclE intro: converse_rtrancl_into_rtrancl)

lemma leaves_below_sound:
  assumes "leaves_below slaves ds = Some r"
  shows "set r = {e. \<exists>d \<in> set ds. leaf_below slaves d e}"
proof (rule leaves_below.raw_induct [where P = "\<lambda>slaves ds r. set r = {e. \<exists>d \<in> set ds. leaf_below slaves d e}", OF _ assms])
  fix f :: "(string \<Rightarrow> string list) \<Rightarrow> string list \<Rightarrow> string list option" and slaves ds r
  assume IH: "\<And>slaves ds r. f slaves ds = Some r \<Longrightarrow> set r = {e. \<exists>d \<in> set ds. leaf_below slaves d e}"
    and run: "(case ds of [] \<Rightarrow> Some []
      | d # rest \<Rightarrow> if slaves d = [] then Option.bind (f slaves rest) (\<lambda>r. Some (d # r)) else f slaves (slaves d @ rest)) = Some r"
  show "set r = {e. \<exists>d \<in> set ds. leaf_below slaves d e}"
  proof (cases ds)
    case Nil
    with run show ?thesis by simp
  next
    case (Cons d rest)
    show ?thesis
    proof (cases "slaves d = []")
      case True
      with run Cons obtain r' where "f slaves rest = Some r'" "r = d # r'" by (auto simp: bind_eq_Some_conv)
      with IH [of slaves rest r'] True Cons show ?thesis by (auto simp: leaf_below_leaf)
    next
      case False
      with run Cons have "f slaves (slaves d @ rest) = Some r" by simp
      with IH False Cons show ?thesis by (auto simp: leaf_below_step)
    qed
  qed
qed

lemma leaves_below_returns:
  assumes "\<And>x y. y \<in> set (slaves x) \<Longrightarrow> rank y < (rank x :: nat)"
  shows "\<exists>r. leaves_below slaves ds = Some r"
proof -
  let ?R = "{(y, x). y \<in> set (slaves x)}"
  have wf: "wf ?R" by (rule wf_subset [OF wf_measure [of rank]]) (use assms in auto)
  have one: "\<forall>rest r. leaves_below slaves rest = Some r \<longrightarrow> (\<exists>r'. leaves_below slaves (d # rest) = Some r')" for d
    using wf
  proof (induction d rule: wf_induct_rule)
    case (less d)
    show ?case
    proof (cases "slaves d = []")
      case True
      then show ?thesis by (simp add: leaves_below.simps [of slaves "d # _"])
    next
      case False
      have many: "\<exists>r'. leaves_below slaves (xs @ rest) = Some r'"
        if "set xs \<subseteq> set (slaves d)" "leaves_below slaves rest = Some r" for xs rest r
        using that(1)
      proof (induction xs)
        case Nil
        with that(2) show ?case by simp
      next
        case (Cons x xs)
        then obtain r' where "leaves_below slaves (xs @ rest) = Some r'" by auto
        with less Cons.prems show ?case by auto
      qed
      show ?thesis using False many [of "slaves d"] by (simp add: leaves_below.simps [of slaves "d # _"])
    qed
  qed
  show ?thesis
  proof (induction ds)
    case Nil
    then show ?case by (simp add: leaves_below.simps [of slaves "[]"])
  next
    case (Cons d ds)
    with one show ?case by blast
  qed
qed

lemma fold_distinct_set: "set (fold (\<lambda>d acc. if d \<in> set acc then acc else acc @ [d]) ds acc) = set acc \<union> set ds"
  by (induction ds arbitrary: acc) auto

lemma add_disks_set:
  "add_disks w ls disks = Some r \<Longrightarrow> set r = set disks \<union> {d. \<exists>l \<in> set ls. \<exists>ds. mount_disks w l = Some ds \<and> d \<in> set ds}"
  by (induction w ls disks rule: add_disks.induct) (fastforce simp: fold_distinct_set split: option.splits)+

text \<open>A disk the running system needs: it is below something a critical directory is mounted from.\<close>

definition needed_by_system :: "flash_world \<Rightarrow> string \<Rightarrow> string \<Rightarrow> bool" where
  "needed_by_system w mounts disk \<longleftrightarrow>
     (\<exists>line src mountpoint rest resolved e. line \<in> set (Split mounts CHR 0x0A) \<and> Fields line = src # mountpoint # rest \<and>
        mountpoint \<in> set critical_mounts \<and> HasPrefix src ''/dev/'' \<and> fhEval w src = Some resolved \<and>
        leaf_below (slaves_of w) resolved e \<and> disk = parentDisk w e)"

lemma mount_disks_needed:
  assumes "mount_disks w line = Some ds"
  shows "d \<in> set ds \<longleftrightarrow>
    (\<exists>src mountpoint rest resolved e. Fields line = src # mountpoint # rest \<and>
        mountpoint \<in> set critical_mounts \<and> HasPrefix src ''/dev/'' \<and> fhEval w src = Some resolved \<and>
        leaf_below (slaves_of w) resolved e \<and> d = parentDisk w e)"
  using assms
  by (auto simp: mount_disks_def underlyingDevices_def dest!: leaves_below_sound split: list.splits option.splits if_splits)

lemma systemDisks_needed:
  assumes "systemDisks w mounts = Some disks"
  shows "d \<in> set disks \<longleftrightarrow> needed_by_system w mounts d"
proof -
  have some: "\<exists>ds. mount_disks w l = Some ds" if "l \<in> set ls" "add_disks w ls acc = Some r" for l ls acc r
    using that by (induction w ls acc rule: add_disks.induct) (auto split: option.splits)
  have "set disks = {d. \<exists>l \<in> set (Split mounts CHR 0x0A). \<exists>ds. mount_disks w l = Some ds \<and> d \<in> set ds}"
    using add_disks_set [OF assms [unfolded systemDisks_def]] by simp
  also have "d \<in> \<dots> \<longleftrightarrow> needed_by_system w mounts d"
    unfolding needed_by_system_def using mount_disks_needed some [OF _ assms [unfolded systemDisks_def]] by blast
  finally show ?thesis .
qed

lemma validateDevice_spares_system:
  assumes "validateDevice w devicePath = Inr ()"
  shows "fhStat w devicePath = Some True \<and>
    (\<exists>resolved mounts. fhEval w devicePath = Some resolved \<and> fhText w ''/proc/mounts'' = Some mounts \<and>
       \<not> needed_by_system w mounts (parentDisk w resolved))"
  using assms systemDisks_needed
  by (auto simp: validateDevice_def split: if_splits option.splits)

section \<open>What flashing writes\<close>

text \<open>What the first write, the question, the change of owner and the second write depend on.\<close>

definition write_run :: "flash_world \<Rightarrow> string \<Rightarrow> string \<Rightarrow> flash_action list \<Rightarrow> flash_action list \<Rightarrow> bool" where
  "write_run w img dev k xs \<longleftrightarrow>
     xs = [WriteImage img dev] \<or>
     fhWrite w (k @ [WriteImage img dev]) = WritePermission \<and>
     (\<exists>user. xs = [WriteImage img dev, AskChown user dev] \<or>
        says_yes (fhAnswer w (k @ [WriteImage img dev, AskChown user dev])) \<and>
        (xs = [WriteImage img dev, AskChown user dev, SudoChown user dev] \<or>
         fhChown w (k @ [WriteImage img dev, AskChown user dev, SudoChown user dev]) \<and>
         xs = [WriteImage img dev, AskChown user dev, SudoChown user dev, WriteImage img dev]))"

lemma flash_write_run:
  assumes "flash_write w img dev disk k = (r, h)"
  shows "\<exists>xs. h = k @ xs \<and> write_run w img dev k xs \<and>
    (r = Inr Flashed \<longrightarrow> last h = WriteImage img dev \<and> fhWrite w h = WriteDone)"
  using assms
  by (auto simp: flash_write_def write_image_def offerChown_def bnd_def asking_def attempt_def ret_def throw_def write_run_def
      split: if_splits option.splits write_end.splits)

lemma target_disk_checked:
  assumes "target_disk w img dev = Inr disk"
  shows "fhStat w dev = Some True \<and>
    (\<exists>resolved mounts. fhEval w dev = Some resolved \<and> fhText w ''/proc/mounts'' = Some mounts \<and>
       disk = parentDisk w resolved \<and> \<not> needed_by_system w mounts disk \<and> MountedPartitionsFor w disk \<in> {None, Some []})"
  using assms validateDevice_spares_system [of w dev]
  by (auto simp: target_disk_def Let_def split: sum.splits if_splits option.splits list.splits)

lemma Flash_run:
  assumes "Flash w proj unitName dev projectDir dryRun assumeYes [] = (r, h)" and "h \<noteq> [] \<or> r = Inr Flashed"
  obtains img disk where "flash_image w proj unitName projectDir = Inr img" "target_disk w img dev = Inr disk" "\<not> dryRun"
    and "h = [AskConfirm dev] \<and> r = Inr Aborted \<and> \<not> assumeYes \<or>
      (\<exists>k xs. h = k @ xs \<and> write_run w img dev k xs \<and> (r = Inr Flashed \<longrightarrow> last h = WriteImage img dev \<and> fhWrite w h = WriteDone) \<and>
         (assumeYes \<and> k = [] \<or> \<not> assumeYes \<and> k = [AskConfirm dev] \<and> says_yes (fhAnswer w [AskConfirm dev])))"
proof -
  from assms obtain img disk where 1: "flash_image w proj unitName projectDir = Inr img" "target_disk w img dev = Inr disk" "\<not> dryRun"
    by (auto simp: Flash_def throw_def ret_def split: sum.splits if_splits)
  show thesis
  proof (cases "assumeYes \<or> says_yes (fhAnswer w [AskConfirm dev])")
    case True
    let ?k = "if assumeYes then [] else [AskConfirm dev]"
    from True 1 assms(1) have "flash_write w img dev disk ?k = (r, h)"
      by (auto simp: Flash_def bnd_def asking_def ret_def split: if_splits)
    from flash_write_run [OF this] True that [OF 1] show thesis by (cases assumeYes) auto
  next
    case False
    with 1 assms(1) have "h = [AskConfirm dev] \<and> r = Inr Aborted \<and> \<not> assumeYes"
      by (auto simp: Flash_def bnd_def asking_def ret_def split: if_splits)
    with that [OF 1] show thesis by blast
  qed
qed

text \<open>A write of an image that follows a history, in the light of what was checked and asked.\<close>

definition second_write_allowed :: "flash_world \<Rightarrow> string \<Rightarrow> string \<Rightarrow> flash_action list \<Rightarrow> bool" where
  "second_write_allowed w img d ys \<longleftrightarrow>
     (\<exists>as user. ys = as @ [WriteImage img d, AskChown user d, SudoChown user d] \<and>
        fhWrite w (as @ [WriteImage img d]) = WritePermission \<and>
        says_yes (fhAnswer w (as @ [WriteImage img d, AskChown user d])) \<and> fhChown w ys)"

lemma write_run_second:
  assumes "write_run w img' dev k xs" and "k @ xs = ys @ WriteImage img d # zs" and "k = [] \<or> k = [AskConfirm dev]"
  shows "img = img' \<and> d = dev \<and> (k \<noteq> [] \<longrightarrow> ys \<noteq> [] \<and> hd ys = AskConfirm dev) \<and>
    (WriteImage img d \<in> set ys \<longrightarrow> second_write_allowed w img d ys)"
proof -
  from assms(1) obtain ts where xs: "xs = WriteImage img' dev # ts" and
    ts: "ts = [] \<or> fhWrite w (k @ [WriteImage img' dev]) = WritePermission \<and>
     (\<exists>user. ts = [AskChown user dev] \<or>
        says_yes (fhAnswer w (k @ [WriteImage img' dev, AskChown user dev])) \<and>
        (ts = [AskChown user dev, SudoChown user dev] \<or>
         fhChown w (k @ [WriteImage img' dev, AskChown user dev, SudoChown user dev]) \<and>
         ts = [AskChown user dev, SudoChown user dev, WriteImage img' dev]))"
    unfolding write_run_def by blast
  from assms(2) [unfolded xs] assms(3) consider (first) "ys = k" "img = img'" "d = dev"
    | (later) us where "ys = k @ WriteImage img' dev # us" "ts = us @ WriteImage img d # zs"
    by (auto simp: Cons_eq_append_conv append_eq_Cons_conv)
  then show ?thesis
  proof cases
    case first
    with assms(3) show ?thesis by auto
  next
    case later
    from later(2) ts obtain user where "us = [AskChown user dev, SudoChown user dev]" "img = img'" "d = dev"
      "fhWrite w (k @ [WriteImage img' dev]) = WritePermission"
      "says_yes (fhAnswer w (k @ [WriteImage img' dev, AskChown user dev]))"
      "fhChown w (k @ [WriteImage img' dev, AskChown user dev, SudoChown user dev])"
      by (auto simp: Cons_eq_append_conv append_eq_Cons_conv)
    with later(1) assms(3) show ?thesis unfolding second_write_allowed_def by auto
  qed
qed


section \<open>What the device holds\<close>

lemma alignUp_block: "512 dvd alignUp n blockSize \<and> n \<le> alignUp n blockSize \<and> alignUp n blockSize < n + 512"
  by (auto simp: alignUp_def blockSize_def)

lemma padded_length: "512 dvd length (padded c) \<and> (\<exists>z < 512. padded c = c @ replicate z CHR 0x00)"
  using alignUp_block [of "length c"] by (auto simp: padded_def)

lemma padded_full: "512 dvd length c \<Longrightarrow> padded c = c"
  by (auto simp: padded_def alignUp_def blockSize_def)

text \<open>The writes that a complete copy makes.\<close>

function image_writes :: "nat \<Rightarrow> string \<Rightarrow> string list" where
  "image_writes buf src = (if src = [] \<or> buf = 0 then [] else padded (take buf src) # image_writes buf (drop buf src))"
  by pat_completeness auto

termination image_writes
  by (relation "measure (\<lambda>(buf, src). length src)") auto

declare image_writes.simps [simp del]

lemma copyAligned_writes:
  "copyAligned buf works readable src written out = (r, outs) \<Longrightarrow> 0 < buf \<Longrightarrow>
     \<exists>done rest. image_writes buf src = done @ rest \<and> outs = out @ done \<and>
       (\<forall>n. r = Inr n \<longrightarrow> rest = [] \<and> readable \<and> n = written + length src) \<and> (r = Inl ImageRead \<longrightarrow> rest = [])"
proof (induction buf works readable src written out arbitrary: r outs rule: copyAligned.induct)
  case (1 buf works readable src written out)
  let ?out = "out @ [padded (take buf src)]"
  show ?case
  proof (cases "src = []")
    case True
    with 1(2) show ?thesis by (auto simp: copyAligned.simps [of _ _ _ _ written] image_writes.simps split: if_splits)
  next
    case ne: False
    show ?thesis
    proof (cases "works ?out")
      case False
      with ne 1(2,3) have "outs = ?out" "r = Inl DeviceWrite" by (auto simp: copyAligned.simps [of _ _ _ _ written])
      with ne 1(3) show ?thesis by (simp add: image_writes.simps [of buf src])
    next
      case True
      with ne 1(2,3) have "copyAligned buf works readable (drop buf src) (written + length (take buf src)) ?out = (r, outs)"
        by (simp add: copyAligned.simps [of _ _ _ src written])
      from 1(1) [OF _ refl refl True this] ne 1(3) obtain xs rest where xs:
        "image_writes buf (drop buf src) = xs @ rest" "outs = ?out @ xs"
        "\<forall>n. r = Inr n \<longrightarrow> rest = [] \<and> readable \<and> n = written + length (take buf src) + length (drop buf src)"
        "r = Inl ImageRead \<longrightarrow> rest = []" by auto
      have "image_writes buf src = (padded (take buf src) # xs) @ rest"
        using ne 1(3) xs(1) by (simp add: image_writes.simps [of buf src])
      moreover have "outs = out @ padded (take buf src) # xs" using xs(2) by simp
      moreover have "length (take buf src) + length (drop buf src) = length src" by simp
      ultimately show ?thesis using xs(3,4) by (metis add.assoc)
    qed
  qed
qed

lemma image_writes_bytes:
  assumes "0 < buf" and "512 dvd buf"
  shows "(\<exists>z < 512. concat (image_writes buf src) = src @ replicate z CHR 0x00) \<and>
    (\<forall>c \<in> set (image_writes buf src). 512 dvd length c \<and> length c \<le> buf)"
  using assms
proof (induction buf src rule: image_writes.induct)
  case (1 buf src)
  show ?case
  proof (cases "length src \<le> buf")
    case True
    then have last: "image_writes buf src = (if src = [] then [] else [padded src])"
      using 1(2) by (simp add: image_writes.simps [of buf src] image_writes.simps [of buf "[]"])
    obtain q where q: "buf = 512 * q" using 1(3) by auto
    have "length (padded src) \<le> buf"
    proof -
      have "(length src + 511) div 512 \<le> q" using True q by linarith
      then have "(length src + 511) div 512 * 512 \<le> buf" using q by linarith
      moreover have "length src \<le> (length src + 511) div 512 * 512" by linarith
      ultimately show ?thesis by (simp add: padded_def alignUp_def blockSize_def add.commute)
    qed
    with last padded_length [of src] show ?thesis by auto
  next
    case False
    then have "src \<noteq> []" by auto
    with 1(2) have step: "image_writes buf src = padded (take buf src) # image_writes buf (drop buf src)"
      by (subst image_writes.simps) simp
    from False have "length (take buf src) = buf" by simp
    with 1(3) have full: "padded (take buf src) = take buf src" by (simp add: padded_full)
    have "\<not> (src = [] \<or> buf = 0)" using False 1(2) by auto
    from 1(1) [OF this 1(2,3)] step full \<open>length (take buf src) = buf\<close> 1(3) show ?thesis by auto
  qed
qed

text \<open>
  C40. A copy that reports success has written the image to the device byte for byte, followed
  by less than one block of zeros, and counts the bytes of the image. Whatever happens, every
  write is a whole number of blocks and no longer than the buffer, and what was written is a
  beginning of what a complete copy writes.
\<close>

theorem copyAligned_spec:
  assumes "copyAligned buf works readable src 0 [] = (r, outs)" and "0 < buf" and "512 dvd buf"
  shows "(\<forall>c \<in> set outs. 512 dvd length c \<and> length c \<le> buf) \<and>
    (\<exists>z < 512. \<exists>rest. concat outs @ rest = src @ replicate z CHR 0x00 \<and> (\<forall>n. r = Inr n \<longrightarrow> rest = [] \<and> n = length src))"
proof -
  from copyAligned_writes [OF assms(1,2)] obtain xs where xs: "image_writes buf src = outs @ xs"
    "\<forall>n. r = Inr n \<longrightarrow> xs = [] \<and> n = length src" by auto
  from image_writes_bytes [OF assms(2,3), of src] obtain z where z: "z < 512"
    "concat (image_writes buf src) = src @ replicate z CHR 0x00"
    "\<forall>c \<in> set (image_writes buf src). 512 dvd length c \<and> length c \<le> buf" by blast
  from z(2) xs have "concat outs @ concat xs = src @ replicate z CHR 0x00" by simp
  moreover have "\<forall>n. r = Inr n \<longrightarrow> concat xs = [] \<and> n = length src" using xs(2) by auto
  moreover have "\<forall>c \<in> set outs. 512 dvd length c \<and> length c \<le> buf" using z(3) xs(1) by auto
  ultimately show ?thesis using z(1) by blast
qed

lemma ex_copy: "copyAligned 512 (\<lambda>_. True) True ''image'' 0 [] = (Inr 5, [padded ''image''])"
  by (simp add: copyAligned.simps [of 512 "\<lambda>_. True" True "''image''"] copyAligned.simps [of 512 "\<lambda>_. True" True "[]"])

theorem copyAligned_spec_witness:
  "512 dvd length (padded ''image'') \<and> (\<exists>z. z < 512 \<and> padded ''image'' = ''image'' @ replicate z CHR 0x00)"
  using copyAligned_spec [OF ex_copy] by auto

section \<open>The way up\<close>

lemma length_Split: "sum_list (map (\<lambda>c. Suc (length c)) (Split p x)) = Suc (length p)"
  by (induction p) (auto split: list.splits)

lemma length_clean_push: "sum_list (map (\<lambda>c. Suc (length c)) (clean_push r c st)) \<le>
    sum_list (map (\<lambda>c. Suc (length c)) st) + (if c = [] then 0 else Suc (length c))"
  by (auto simp: clean_push_def split: list.split)

lemma length_clean_fold:
  "sum_list (map (\<lambda>c. Suc (length c)) (fold (clean_push r) cs st)) \<le>
     sum_list (map (\<lambda>c. Suc (length c)) st) + sum_list (map (\<lambda>c. if c = [] then 0 else Suc (length c)) cs)"
proof (induction cs arbitrary: st)
  case (Cons c cs)
  show ?case using Cons [of "clean_push r c st"] length_clean_push [of r c st] by simp
qed simp

lemma length_Join_slash: "ws \<noteq> [] \<Longrightarrow> Suc (length (Join ws ''/'')) = sum_list (map (\<lambda>c. Suc (length c)) ws)"
  by (induction ws "''/''" rule: Join.induct) auto

lemma length_Clean_slash: "length (Clean (p @ ''/'')) \<le> Suc (length p) \<and> (p \<noteq> [] \<longrightarrow> length (Clean (p @ ''/'')) \<le> length p)"
proof -
  let ?r = "IsAbs (p @ ''/'')" and ?n = "\<lambda>ws. sum_list (map (\<lambda>c. Suc (length c)) ws)"
  let ?st = "rev (fold (clean_push ?r) (Split (p @ ''/'') CHR ''/'') [])"
  have split: "Split (p @ ''/'') CHR ''/'' = Split p CHR ''/'' @ [[]]"
  proof (induction p)
    case (Cons c p)
    show ?case unfolding append_Cons Split.simps Cons by (cases "Split p CHR ''/''") simp_all
  qed simp
  have ne: "sum_list (map (\<lambda>c. if c = [] then 0 else Suc (length c)) ws) \<le> ?n ws" for ws :: "string list"
    by (induction ws) auto
  have backwards: "?n (rev ws) = ?n ws" for ws :: "string list"
    by (simp add: rev_map [symmetric] sum_list.rev)
  have "?n ?st \<le> sum_list (map (\<lambda>c. if c = [] then 0 else Suc (length c)) (Split p CHR ''/''))"
    using length_clean_fold [of ?r "Split p CHR ''/'' @ [[]]" "[]"] unfolding split backwards by simp
  moreover have "sum_list (map (\<lambda>c. if c = [] then 0 else Suc (length c)) (Split p CHR ''/'')) \<le> (if ?r then length p else Suc (length p))"
  proof (cases "?r")
    case True
    show ?thesis
    proof (cases p)
      case (Cons c q)
      with True have "c = CHR ''/''" by (simp add: IsAbs_def HasPrefix_def)
      with Cons ne [of "Split q CHR ''/''"] length_Split [of q "CHR ''/''"] True show ?thesis by simp
    qed simp
  next
    case False
    with ne [of "Split p CHR ''/''"] length_Split [of p "CHR ''/''"] show ?thesis by simp
  qed
  ultimately have b: "?n ?st \<le> (if ?r then length p else Suc (length p))" by linarith
  show ?thesis
  proof (cases "?st = []")
    case True
    then show ?thesis by (cases p) (auto simp: Clean_def Let_def)
  next
    case False
    have "Suc (length (Join ?st ''/'')) \<le> (if ?r then length p else Suc (length p))"
      using b length_Join_slash [OF False] by simp
    then show ?thesis by (cases p) (auto simp: Clean_def Let_def split: if_splits)
  qed
qed

lemma Dir_shorter: "Dir p = ''/'' \<or> Dir p = ''.'' \<or> length (Dir p) < length p"
proof (cases "LastIndexByte p CHR ''/''")
  case None
  then show ?thesis by (simp add: Dir_def)
next
  case (Some i)
  then have i: "i < length p" "p ! i = CHR ''/''" using LastIndexByte_Some by blast+
  then have d: "Dir p = Clean (take i p @ ''/'')" using Some by (simp add: Dir_def take_Suc_conv_app_nth)
  show ?thesis
  proof (cases "take i p = []")
    case True
    have "Clean ''/'' = ''/''" by code_simp
    then show ?thesis unfolding d True by simp
  next
    case False
    with length_Clean_slash [of "take i p"] i(1) show ?thesis unfolding d by simp
  qed
qed

text \<open>The walk of the source ends by itself: one step more changes nothing.\<close>

lemma climb_more: "length cur < n \<Longrightarrow> climb (Suc n) f cur = climb n f cur"
proof (induction n arbitrary: cur)
  case (Suc n)
  have "climb (Suc n) f (Dir cur) = climb n f (Dir cur)"
  proof (cases "length (Dir cur) < n")
    case True
    with Suc.IH show ?thesis by blast
  next
    case False
    with Suc.prems Dir_shorter [of cur] have "Dir cur = ''/'' \<or> Dir cur = ''.''" by linarith
    then show ?thesis by (cases n) auto
  qed
  then show ?case by (simp only: climb.simps)
qed simp

lemma walk_up_enough: "walk_up f dev = climb (Suc (Suc (length dev)) + k) f dev"
  by (induction k) (simp_all add: walk_up_def climb_more del: climb.simps)

section \<open>What is offered\<close>

text \<open>
  A candidate is a whole disk that is removable or on a bus of removable media, has a size, can
  be written, and is none of the disks the running system needs when the mount table was read.
\<close>

lemma ListCandidates_safe:
  assumes "ListCandidates w = Some cs" and "c \<in> set cs" and "fhText w ''/proc/mounts'' = Some mounts"
  shows "\<not> needed_by_system w mounts (cdPath c) \<and>
    (\<exists>n. cdPath c = ''/dev/'' @ n \<and> \<not> skipByName n \<and> \<not> there w (PathJoin [PathJoin [''/sys'', ''class'', ''block'', n], ''partition'']) \<and>
       readUint w [PathJoin [''/sys'', ''class'', ''block'', n], ''ro''] \<noteq> 1)"
proof -
  from assms(1,3) obtain disks names where d: "systemDisks w mounts = Some disks"
    and cs: "cs = sort_key cdPath (concat (map (\<lambda>n. case candidate w ''/sys'' (\<lambda>d. d \<in> set disks) n of None \<Rightarrow> [] | Some c \<Rightarrow> [c]) names))"
    by (auto simp: ListCandidates_def list_candidates_def split: option.splits)
  from cs assms(2) obtain n where "candidate w ''/sys'' (\<lambda>d. d \<in> set disks) n = Some c" by (auto split: option.splits)
  then show ?thesis
    using systemDisks_needed [OF d, of "''/dev/'' @ n"] by (auto simp: candidate_def Let_def split: if_splits)
qed

section \<open>Examples\<close>

text \<open>
  A machine with a root file system on an encrypted partition of one disk, and a second disk.
  The second write is the first that succeeds.
\<close>

definition ex_machine :: flash_world where
  "ex_machine =
     \<lparr>fhStat = (\<lambda>p. if p \<in> {''/dev/sdb'', ''/dev/mapper/root'', ''/dev/nvme0n1''} then Some True
                  else if p = ''/p/build/alpine/img.m/destdir/img.img'' \<or> p = ''/sys/class/block/nvme0n1p2/partition'' then Some False else None),
      fhEval = (\<lambda>p. if p = ''/dev/mapper/root'' then Some ''/dev/dm-0'' else Some p),
      fhLink = (\<lambda>p. if p = ''/sys/class/block/nvme0n1p2'' then Some ''../devices/nvme0n1/nvme0n1p2'' else None),
      fhList = (\<lambda>p. if p = ''/sys/class/block/dm-0/slaves'' then Some [''nvme0n1p2''] else None),
      fhText = (\<lambda>p. if p = ''/proc/mounts'' then Some ''/dev/mapper/root / ext4 rw 0 0''
                  else if p = ''/proc/self/mountinfo'' then Some ''36 35 98:0 / / rw - ext4 /dev/mapper/root rw'' else None),
      fhUser = Some ''me'', fhAnswer = (\<lambda>_. ''y''),
      fhWrite = (\<lambda>h. if length h = 2 then WritePermission else WriteDone), fhChown = (\<lambda>_. True)\<rparr>"

definition ex_flash_project :: Project where
  "ex_flash_project = zero_project\<lparr>pDefaults := \<lparr>dfMachine = ''m'', dfImage = []\<rparr>, pDefaultDistro := ''alpine'',
     pMachines := [(''m'', \<lparr>mName = ''m'', mArch = ''x86_64'', mDescription = [],
        mKernel = \<lparr>kcDefconfig = [], kcUnit = [], kcCmdline = [], kcProvides = [], kcDistroUnit = []\<rparr>, mQEMU = None,
        mPackages = [], mDistroPackages = [], mPartitions = [], mSerial = None\<rparr>)],
     pUnitsByModule := [(''x'', [(''img'', zero_unit\<lparr>uName := ''img'', uClass := ''image''\<rparr>)])]\<rparr>"

lemma ex_flashed:
  "Flash ex_machine ex_flash_project ''img'' ''/dev/sdb'' ''/p'' False False [] =
     (Inr Flashed, [AskConfirm ''/dev/sdb'', WriteImage ''/p/build/alpine/img.m/destdir/img.img'' ''/dev/sdb'',
        AskChown ''me'' ''/dev/sdb'', SudoChown ''me'' ''/dev/sdb'', WriteImage ''/p/build/alpine/img.m/destdir/img.img'' ''/dev/sdb''])"
  "validateDevice ex_machine ''/dev/nvme0n1'' = Inl (SystemDisk ''/dev/nvme0n1'')"
  by code_simp+


text \<open>
  The mapped device that holds the root file system is accepted: only the disks below it are in
  the set of system disks, and the mount table names it by another path than the resolved one.
  What is left is the refusal of the kernel.
\<close>

lemma mapped_system_device_accepted:
  "validateDevice ex_machine ''/dev/mapper/root'' = Inr ()"
  "target_disk ex_machine ''/p/build/alpine/img.m/destdir/img.img'' ''/dev/mapper/root'' = Inr ''/dev/dm-0''"
  by code_simp+

end
