(* ===== verification/Qemu.thy ===== *)
theory Qemu
  imports Flash Sandbox DevMode Builtins
begin

text \<open>
  Running an image in an emulator, from \<^verbatim>\<open>internal/device/qemu.go\<close> and \<^verbatim>\<open>boottest.go\<close>: the
  forwarded ports, the copy of the image that is grown, the kernel that is booted directly, the
  command line, and the boot test. Files, ports, programs and the guest itself are parameters.
\<close>

section \<open>The machine that runs the guest\<close>

datatype qemu_action =
    RemoveFile string
  | CpSparse string string
  | CopyBytes string string
  | TruncateFile string int
  | StartQEMU string "string list"
  | RunGuest string "string list"
  | RunContainer "string list"
  | BootGuest string "string list"
  | WaitLogin
  | DialGuest int
  | HealthCheck
  | StopGuest
  | Verdict bool

text \<open>How the wait for the console of a guest ends; times are nanoseconds since the start.\<close>

datatype boot_event = LoginSeen nat | GuestExited | NoLogin

text \<open>
  Sizes and times of files, all paths there are, the ports that cannot be bound, what a run
  prints when it fails, and the outcomes of copies, of the wait and of connections.
\<close>

record qemu_world =
  qwDisk :: flash_world
  qwContainer :: container_world
  qwInfo :: "string \<Rightarrow> (int \<times> int) option"
  qwPaths :: "string list"
  qwBound :: "string \<Rightarrow> bool"
  qwFresh :: string
  qwDo :: "qemu_action list \<Rightarrow> bool"
  qwRun :: "qemu_action list \<Rightarrow> string option"
  qwBoot :: "qemu_action list \<Rightarrow> boot_event"
  qwDial :: "qemu_action list \<Rightarrow> bool \<times> nat"

datatype GrowError = BadDiskSize string | NoSourceImage string | CopyFailed | TruncateFailed

datatype QemuError =
    NoImageUnit name
  | NotAnImage name
  | NoSuchMachine name
  | ImageDistro DistroError
  | ImageNotBuilt name
  | PortTaken string
  | GrowFailed GrowError
  | FirmwareMissing string
  | NoSSHForward name
  | BadHostPort string
  | GuestNotStarted
  | GuestFailed string
  | GuestGone
  | LoginTimeout
  | NoSSH int
  | Unhealthy
  | BootTestNeedsHost string
  | NotUnderProject string
  | ContainerRefused ContainerError
  | ContainerFailed

type_synonym 'x qemu = "(QemuError, qemu_action, 'x) trace"

record QEMUOptions =
  qoMemory :: string
  qoPorts :: "string list"
  qoDisplay :: bool
  qoDaemon :: bool
  qoDiskSize :: string
  qoBootTest :: bool
  qoBootTestTimeout :: int

section \<open>Forwarded ports\<close>

definition hostPort :: "string \<Rightarrow> string" where
  "hostPort p = (case Cut p CHR '':'' of None \<Rightarrow> [] | Some (host, _) \<Rightarrow> host)"

definition guestPort :: "string \<Rightarrow> string option" where
  "guestPort p = (case Cut p CHR '':'' of None \<Rightarrow> None | Some (_, guest) \<Rightarrow> if guest = [] then None else Some guest)"

definition checkQEMUPortsFree :: "qemu_world \<Rightarrow> string list \<Rightarrow> QemuError + unit" where
  "checkQEMUPortsFree w ports =
     (case List.find (\<lambda>host. host \<noteq> [] \<and> qwBound w host) (map hostPort ports) of
        None \<Rightarrow> Inr () | Some host \<Rightarrow> Inl (PortTaken host))"

text \<open>A forward takes the place of the first one for the same guest port, or comes last.\<close>

fun merge_at :: "string \<Rightarrow> string \<Rightarrow> string list \<Rightarrow> string list" where
  "merge_at guest cp [] = [cp]"
| "merge_at guest cp (mp # merged) = (if guestPort mp = Some guest then cp # merged else mp # merge_at guest cp merged)"

definition merge_port :: "string \<Rightarrow> string list \<Rightarrow> string list" where
  "merge_port cp merged = (case guestPort cp of None \<Rightarrow> merged @ [cp] | Some guest \<Rightarrow> merge_at guest cp merged)"

definition MergeQEMUPorts :: "string list \<Rightarrow> string list \<Rightarrow> string list" where
  "MergeQEMUPorts machinePorts cliPorts = fold merge_port cliPorts machinePorts"

definition CheckQEMUPortsAvailable :: "qemu_world \<Rightarrow> Machine \<Rightarrow> string list \<Rightarrow> QemuError + unit" where
  "CheckQEMUPortsAvailable w machine extraPorts = checkQEMUPortsFree w (MergeQEMUPorts (QEMUPorts machine) extraPorts)"

definition sshHostPort :: "Machine \<Rightarrow> QEMUOptions \<Rightarrow> QemuError + int" where
  "sshHostPort machine opts =
     (case List.find (\<lambda>p. map_option snd (Cut p CHR '':'') = Some ''22'') (MergeQEMUPorts (QEMUPorts machine) (qoPorts opts)) of
        None \<Rightarrow> Inl (NoSSHForward (mName machine))
      | Some p \<Rightarrow> (case ParseInt64 (hostPort p) of None \<Rightarrow> Inl (BadHostPort p) | Some n \<Rightarrow> Inr n))"

section \<open>The grown image\<close>

definition size_mult :: "char \<Rightarrow> int option" where
  "size_mult c =
     (if c \<in> set ''Kk'' then Some (2 ^ 10) else if c \<in> set ''Mm'' then Some (2 ^ 20)
      else if c \<in> set ''Gg'' then Some (2 ^ 30) else if c \<in> set ''Tt'' then Some (2 ^ 40) else None)"

text \<open>The product is one of 64-bit integers.\<close>

definition parseSizeBytes :: "string \<Rightarrow> int option" where
  "parseSizeBytes s =
     (if s = [] then None
      else case size_mult (last s) of
        None \<Rightarrow> ParseInt64 s
      | Some factor \<Rightarrow> map_option (\<lambda>n. signed_take_bit 63 (n * factor)) (ParseInt64 (butlast s)))"

definition run_copy :: "string \<Rightarrow> string" where
  "run_copy src = TrimSuffix src (Ext src) @ ''.run'' @ Ext src"

definition copySparse :: "qemu_world \<Rightarrow> string \<Rightarrow> string \<Rightarrow> (GrowError, qemu_action, unit) trace" where
  "copySparse w src dst =
     bnd (if cwHas (qwContainer w) ''cp'' then asking (qwDo w) (CpSparse src dst) else ret False) (\<lambda>copied.
       if copied then ret ()
       else attempt (\<lambda>h. if qwDo w h then None else Some CopyFailed) (CopyBytes src dst))"

text \<open>A computation whose file is removed when it fails.\<close>

definition cleaning :: "string \<Rightarrow> (GrowError, qemu_action, 'x) trace \<Rightarrow> (GrowError, qemu_action, 'x) trace" where
  "cleaning dst m h = (case m h of (Inl e, h') \<Rightarrow> (Inl e, h' @ [RemoveFile dst]) | (Inr x, h') \<Rightarrow> (Inr x, h'))"

definition grow_copy :: "qemu_world \<Rightarrow> string \<Rightarrow> string \<Rightarrow> int \<Rightarrow> (GrowError, qemu_action, string) trace" where
  "grow_copy w src dst targetBytes =
     cleaning dst
       (bnd (copySparse w src dst) (\<lambda>_.
        bnd (attempt (\<lambda>h. if qwDo w h then None else Some TruncateFailed) (TruncateFile dst targetBytes)) (\<lambda>_.
        ret dst)))"

definition ensureGrownQEMUImage :: "qemu_world \<Rightarrow> string \<Rightarrow> string \<Rightarrow> (GrowError, qemu_action, string) trace" where
  "ensureGrownQEMUImage w src targetSize =
     (case parseSizeBytes targetSize of
        None \<Rightarrow> throw (BadDiskSize targetSize)
      | Some targetBytes \<Rightarrow>
          (case qwInfo w src of
             None \<Rightarrow> throw (NoSourceImage src)
           | Some (bytes, mtime) \<Rightarrow>
               if targetBytes \<le> bytes then ret src
               else (case qwInfo w (run_copy src) of
                       None \<Rightarrow> grow_copy w src (run_copy src) targetBytes
                     | Some (dbytes, dmtime) \<Rightarrow>
                         if targetBytes \<le> dbytes \<and> mtime < dmtime then ret (run_copy src)
                         else bnd (tell (RemoveFile (run_copy src))) (\<lambda>_. grow_copy w src (run_copy src) targetBytes))))"

section \<open>The kernel and its firmware\<close>

definition firstGlob :: "qemu_world \<Rightarrow> string \<Rightarrow> string list \<Rightarrow> string" where
  "firstGlob w dir patterns =
     (case List.find (there (qwDisk w)) (concat (map (\<lambda>pat. rev (sort (Glob (qwPaths w) (PathJoin [dir, pat])))) patterns)) of
        None \<Rightarrow> [] | Some p \<Rightarrow> p)"

definition findBootKernel :: "qemu_world \<Rightarrow> string \<Rightarrow> string \<times> string" where
  "findBootKernel w imgPath =
     (let bootDir = PathJoin [Dir imgPath, ''rootfs'', ''boot''] in
      (firstGlob w bootDir [''vmlinuz'', ''vmlinuz-*'', ''Image'', ''Image-*''],
       firstGlob w bootDir [''initrd.img'', ''initrd.img-*'', ''initramfs'', ''initramfs-*'']))"

definition arm64BareImage :: "qemu_world \<Rightarrow> string \<Rightarrow> bool" where
  "arm64BareImage w path =
     (case fhText (qwDisk w) path of
        None \<Rightarrow> True
      | Some s \<Rightarrow> length s < 60 \<or> take 4 (drop 56 s) = ''ARMd'')"

definition aarch64UEFIFirmware :: "qemu_world \<Rightarrow> string" where
  "aarch64UEFIFirmware w =
     (case List.find (there (qwDisk w))
             [''/usr/share/qemu-efi-aarch64/QEMU_EFI.fd'', ''/usr/share/edk2/aarch64/QEMU_EFI.fd'',
              ''/usr/share/edk2-armvirt/aarch64/QEMU_EFI.fd'', ''/usr/share/AAVMF/AAVMF_CODE.fd'',
              ''/usr/share/qemu/edk2-aarch64-code.fd''] of
        None \<Rightarrow> [] | Some p \<Rightarrow> p)"

definition needsDirectBoot :: "Machine \<Rightarrow> bool" where
  "needsDirectBoot machine \<longleftrightarrow> (case mQEMU machine of None \<Rightarrow> True | Some q \<Rightarrow> qcFirmware q = [])"

section \<open>The command line\<close>

definition qemuBinary :: "string \<Rightarrow> string" where
  "qemuBinary arch =
     (if arch = ''arm64'' then ''qemu-system-aarch64'' else if arch = ''riscv64'' then ''qemu-system-riscv64'' else ''qemu-system-x86_64'')"

definition kvmAvailable :: "qemu_world \<Rightarrow> bool" where
  "kvmAvailable w \<longleftrightarrow> there (qwDisk w) ''/dev/kvm''"

definition qemuCPU :: "string \<Rightarrow> string \<Rightarrow> bool \<Rightarrow> string" where
  "qemuCPU configured arch useKVM =
     (if useKVM then configured
      else if configured = [] \<or> configured = ''host'' then (if arch = ''arm64'' then ''neoverse-n1'' else ''max'')
      else configured)"

definition cpu_args :: "Machine \<Rightarrow> bool \<Rightarrow> string list" where
  "cpu_args machine useKVM =
     (case mQEMU machine of
        Some q \<Rightarrow>
          (let cpu = qemuCPU (qcCPU q) (mArch machine) useKVM in
           (if qcMachine q \<noteq> [] then [''-machine'', qcMachine q] else []) @ (if cpu \<noteq> [] then [''-cpu'', cpu] else []))
      | None \<Rightarrow>
          [''-machine'', if mArch machine \<in> {''arm64'', ''riscv64''} then ''virt'' else ''q35'',
           ''-cpu'', qemuCPU ''host'' (mArch machine) useKVM])"

definition memory_arg :: "Machine \<Rightarrow> QEMUOptions \<Rightarrow> string" where
  "memory_arg machine opts =
     (if qoMemory opts \<noteq> [] then qoMemory opts
      else case mQEMU machine of
        Some q \<Rightarrow> if qcMemory q \<noteq> [] then qcMemory q else ''1G''
      | None \<Rightarrow> ''1G'')"

definition firmware_args :: "qemu_world \<Rightarrow> Machine \<Rightarrow> string list" where
  "firmware_args w machine =
     (case mQEMU machine of
        None \<Rightarrow> []
      | Some q \<Rightarrow>
          if qcFirmware q = ''ovmf'' then [''-bios'', ''/usr/share/OVMF/OVMF.fd'']
          else if qcFirmware q = ''aavmf'' \<and> aarch64UEFIFirmware w \<noteq> [] then [''-bios'', aarch64UEFIFirmware w]
          else [])"

definition baseQEMUArgs :: "qemu_world \<Rightarrow> Machine \<Rightarrow> QEMUOptions \<Rightarrow> string list" where
  "baseQEMUArgs w machine opts =
     (let useKVM = (mArch machine = Host (cwUname (qwContainer w)) \<and> kvmAvailable w) in
      cpu_args machine useKVM @ (if useKVM then [''-enable-kvm''] else []) @ [''-m'', memory_arg machine opts] @
      (if qoDisplay opts then [''-device'', ''virtio-vga,xres=1280,yres=800'', ''-serial'', ''mon:stdio''] else [''-nographic'']) @
      firmware_args w machine)"

text \<open>A forward as the emulator writes it: the first colon becomes a dash and a colon.\<close>

definition hostfwd :: "string \<Rightarrow> string" where
  "hostfwd port =
     '',hostfwd=tcp::'' @ (case Cut port CHR '':'' of None \<Rightarrow> port | Some (host, guest) \<Rightarrow> host @ ''-:'' @ guest)"

definition efi_only :: "qemu_world \<Rightarrow> Machine \<Rightarrow> string \<Rightarrow> bool" where
  "efi_only w machine kernelPath \<longleftrightarrow> mArch machine = ''arm64'' \<and> \<not> arm64BareImage w kernelPath"

definition direct_boot_args :: "qemu_world \<Rightarrow> Machine \<Rightarrow> string \<Rightarrow> string \<Rightarrow> string list" where
  "direct_boot_args w machine kernelPath initrdPath =
     (if needsDirectBoot machine \<and> HasKernel (mKernel machine) \<and> kernelPath \<noteq> [] then
        (if efi_only w machine kernelPath \<and> aarch64UEFIFirmware w \<noteq> [] then [''-bios'', aarch64UEFIFirmware w] else []) @
        [''-kernel'', kernelPath] @
        (if initrdPath \<noteq> [] then [''-initrd'', initrdPath] else []) @
        (if kcCmdline (mKernel machine) \<noteq> [] then [''-append'', kcCmdline (mKernel machine)] else [])
      else [])"

definition BuildQEMUArgs :: "qemu_world \<Rightarrow> Machine \<Rightarrow> QEMUOptions \<Rightarrow> string \<Rightarrow> string \<Rightarrow> string \<Rightarrow> string list" where
  "BuildQEMUArgs w machine opts imgPath kernelPath initrdPath =
     baseQEMUArgs w machine opts @ [''-drive'', ''file='' @ imgPath @ '',format=raw,if=virtio''] @
     [''-netdev'', ''user,id=net0'' @ concat (map hostfwd (MergeQEMUPorts (QEMUPorts machine) (qoPorts opts)))] @
     [''-device'', ''virtio-net-pci,netdev=net0''] @ direct_boot_args w machine kernelPath initrdPath"

text \<open>The last line with text of what the emulator printed, on a line of its own.\<close>

definition qemuStderrTail :: "string \<Rightarrow> string" where
  "qemuStderrTail s =
     (let lines = Split (rev (dropWhile (\<lambda>c. c = CHR 0x0A) (rev s))) CHR 0x0A in
      case List.find (\<lambda>l. l \<noteq> []) (map TrimSpace (rev lines)) of None \<Rightarrow> [] | Some l \<Rightarrow> CHR 0x0A # l)"

section \<open>The console of a boot test\<close>

text \<open>What a scanner retains of the stream, and whether it has seen its marker.\<close>

definition scan_write :: "string \<Rightarrow> string \<Rightarrow> string \<times> bool \<Rightarrow> string \<times> bool" where
  "scan_write marker p m =
     (let tail = fst m @ p; room = length marker + 256 in
      (if room < length tail then drop (length tail - room) tail else tail, snd m \<or> Contains tail marker))"

definition scan_writes :: "string \<Rightarrow> string list \<Rightarrow> string \<times> bool" where
  "scan_writes marker ps = fold (scan_write marker) ps ([], False)"

section \<open>The boot test\<close>

definition defaultBootTestTimeout :: int where
  "defaultBootTestTimeout = 300 * 10 ^ 9"

text \<open>Connections are tried until the deadline, with two seconds between them.\<close>

function ssh_dial :: "qemu_world \<Rightarrow> int \<Rightarrow> nat \<Rightarrow> nat \<Rightarrow> unit qemu" where
  "ssh_dial w port deadline now =
     (if now < deadline then
        bnd (asking (qwDial w) (DialGuest port)) (\<lambda>(connected, took).
          if connected then ret () else ssh_dial w port deadline (now + took + 2 * 10 ^ 9))
      else throw (NoSSH port))"
  by pat_completeness auto

termination ssh_dial
  by (relation "measure (\<lambda>(w, port, deadline, now). deadline - now)") auto

declare ssh_dial.simps [simp del]

definition sshHealthCheck :: "qemu_world \<Rightarrow> int \<Rightarrow> nat \<Rightarrow> nat \<Rightarrow> unit qemu" where
  "sshHealthCheck w port deadline now =
     bnd (ssh_dial w port deadline now) (\<lambda>_. attempt (\<lambda>h. if qwDo w h then None else Some Unhealthy) HealthCheck)"

text \<open>What happens while the guest runs.\<close>

definition boot_stages :: "qemu_world \<Rightarrow> int \<Rightarrow> nat \<Rightarrow> unit qemu" where
  "boot_stages w sshPort deadline =
     bnd (asking (qwBoot w) WaitLogin) (\<lambda>e.
       case e of
         LoginSeen now \<Rightarrow> sshHealthCheck w sshPort deadline now
       | GuestExited \<Rightarrow> throw GuestGone
       | NoLogin \<Rightarrow> throw LoginTimeout)"

text \<open>
  The guest is stopped on every path; a pass is printed before it is stopped, a failure after.
\<close>

definition runBootTest :: "qemu_world \<Rightarrow> string \<Rightarrow> string list \<Rightarrow> int \<Rightarrow> int \<Rightarrow> unit qemu" where
  "runBootTest w qemuBin args sshPort timeout h =
     (let deadline = nat (if timeout \<le> 0 then defaultBootTestTimeout else timeout); h1 = h @ [BootGuest qemuBin args] in
      if qwRun w h1 \<noteq> None then (Inl GuestNotStarted, h1 @ [Verdict False])
      else case boot_stages w sshPort deadline h1 of
        (Inl e, h2) \<Rightarrow> (Inl e, h2 @ [StopGuest, Verdict False])
      | (Inr x, h2) \<Rightarrow> (Inr x, h2 @ [Verdict True, StopGuest]))"

section \<open>Running an image\<close>

definition qemu_image :: "qemu_world \<Rightarrow> Project \<Rightarrow> name \<Rightarrow> name \<Rightarrow> string \<Rightarrow> QemuError + Machine \<times> string" where
  "qemu_image w proj unitName machineName projectDir =
     (let machineName' = (if machineName = [] then dfMachine (pDefaults proj) else machineName) in
      case AnyUnit proj unitName of
        None \<Rightarrow> Inl (NoImageUnit unitName)
      | Some u \<Rightarrow>
          if uClass u \<noteq> ''image'' then Inl (NotAnImage unitName)
          else (case map_of (pMachines proj) machineName' of
                  None \<Rightarrow> Inl (NoSuchMachine machineName')
                | Some machine \<Rightarrow>
                    (case EffectiveDistroForImage proj unitName of
                       Inl err \<Rightarrow> Inl (ImageDistro err)
                     | Inr distro \<Rightarrow>
                         (let imgPath = findImage (qwDisk w) projectDir (mName machine) unitName distro in
                          if imgPath = [] then Inl (ImageNotBuilt unitName) else Inr (machine, imgPath)))))"

definition host_boot_files :: "qemu_world \<Rightarrow> Machine \<Rightarrow> string \<Rightarrow> string \<times> string" where
  "host_boot_files w machine imgPath =
     (if needsDirectBoot machine \<and> HasKernel (mKernel machine) then findBootKernel w imgPath else ([], []))"

definition host_run :: "qemu_world \<Rightarrow> Machine \<Rightarrow> QEMUOptions \<Rightarrow> string \<Rightarrow> string \<Rightarrow> string \<Rightarrow> unit qemu" where
  "host_run w machine opts imgPath hostKernel hostInitrd =
     (let bin = qemuBinary (mArch machine); args = BuildQEMUArgs w machine opts imgPath hostKernel hostInitrd in
      if needsDirectBoot machine \<and> hostKernel \<noteq> [] \<and> efi_only w machine hostKernel \<and> aarch64UEFIFirmware w = []
      then throw (FirmwareMissing (Base hostKernel))
      else if qoBootTest opts
      then (case sshHostPort machine opts of
              Inl err \<Rightarrow> throw err
            | Inr sshPort \<Rightarrow> runBootTest w bin args sshPort (qoBootTestTimeout opts))
      else if qoDaemon opts then attempt (\<lambda>h. if qwRun w h = None then None else Some GuestNotStarted) (StartQEMU bin args)
      else attempt (\<lambda>h. map_option (\<lambda>s. GuestFailed (qemuStderrTail s)) (qwRun w h)) (RunGuest bin args))"

definition toContainer :: "string \<Rightarrow> string \<Rightarrow> string" where
  "toContainer projectDir p =
     (if p = [] then [] else case Rel projectDir p of None \<Rightarrow> p | Some r \<Rightarrow> PathJoin [''/project'', r])"

definition container_command :: "qemu_world \<Rightarrow> Machine \<Rightarrow> QEMUOptions \<Rightarrow> string \<Rightarrow> string \<Rightarrow> string \<Rightarrow> string" where
  "container_command w machine opts imgPath kernelPath initrdPath =
     qemuBinary (mArch machine) @ '' '' @ Join (BuildQEMUArgs w machine opts imgPath kernelPath initrdPath) '' ''"

definition container_run :: "qemu_world \<Rightarrow> Project \<Rightarrow> Machine \<Rightarrow> QEMUOptions \<Rightarrow> string \<Rightarrow> string \<Rightarrow> string \<Rightarrow> string \<Rightarrow> unit qemu" where
  "container_run w proj machine opts projectDir imgPath hostKernel hostInitrd =
     (if qoBootTest opts then throw (BootTestNeedsHost (qemuBinary (mArch machine)))
      else case Rel projectDir imgPath of
        None \<Rightarrow> throw (NotUnderProject imgPath)
      | Some rel \<Rightarrow>
          (case RunInContainer (qwContainer w) (qwFresh w)
                  \<lparr>rcShell = [], rcArch = [], rcImage = DefaultContainerImage (qwContainer w) (Some proj),
                   rcCommand = container_command w machine opts (PathJoin [''/project'', rel]) (toContainer projectDir hostKernel) (toContainer projectDir hostInitrd),
                   rcProjectDir = projectDir, rcMounts = [], rcEnv = [], rcInteractive = (\<not> qoDaemon opts), rcNoUser = True\<rparr> of
             Inl err \<Rightarrow> throw (ContainerRefused err)
           | Inr argv \<Rightarrow> attempt (\<lambda>h. if qwRun w h = None then None else Some ContainerFailed) (RunContainer argv)))"

definition launch :: "qemu_world \<Rightarrow> Project \<Rightarrow> Machine \<Rightarrow> QEMUOptions \<Rightarrow> string \<Rightarrow> string \<Rightarrow> unit qemu" where
  "launch w proj machine opts projectDir imgPath =
     (let (hostKernel, hostInitrd) = host_boot_files w machine imgPath in
      if cwHas (qwContainer w) (qemuBinary (mArch machine)) then host_run w machine opts imgPath hostKernel hostInitrd
      else container_run w proj machine opts projectDir imgPath hostKernel hostInitrd)"

definition RunQEMU :: "qemu_world \<Rightarrow> Project \<Rightarrow> name \<Rightarrow> name \<Rightarrow> string \<Rightarrow> QEMUOptions \<Rightarrow> unit qemu" where
  "RunQEMU w proj unitName machineName projectDir opts =
     (case qemu_image w proj unitName machineName projectDir of
        Inl err \<Rightarrow> throw err
      | Inr (machine, built) \<Rightarrow>
          (case checkQEMUPortsFree w (MergeQEMUPorts (QEMUPorts machine) (qoPorts opts)) of
             Inl err \<Rightarrow> throw err
           | Inr _ \<Rightarrow>
               bnd (if qoDiskSize opts \<noteq> [] then wrapping GrowFailed (ensureGrownQEMUImage w built (qoDiskSize opts)) else ret built)
                 (launch w proj machine opts projectDir)))"

section \<open>Which forwards are in force\<close>

lemma find_merge_at:
  "List.find (\<lambda>p. guestPort p = Some g) (merge_at guest cp ms) =
     (if g = guest \<and> guestPort cp = Some guest then Some cp else List.find (\<lambda>p. guestPort p = Some g) ms)"
  if "guestPort cp = Some guest"
  using that by (induction ms) auto

lemma find_merge_port:
  "List.find (\<lambda>p. guestPort p = Some g) (merge_port cp ms) =
     (if guestPort cp = Some g then Some cp else List.find (\<lambda>p. guestPort p = Some g) ms)"
proof (cases "guestPort cp")
  case None
  then show ?thesis by (induction ms) (auto simp: merge_port_def)
next
  case (Some guest)
  then show ?thesis by (auto simp: merge_port_def find_merge_at)
qed

text \<open>Of the overrides the last one counts, and a forward of the machine only without any.\<close>

lemma MergeQEMUPorts_find:
  "List.find (\<lambda>p. guestPort p = Some g) (MergeQEMUPorts machinePorts cliPorts) =
     (case List.find (\<lambda>p. guestPort p = Some g) (rev cliPorts) of
        Some p \<Rightarrow> Some p | None \<Rightarrow> List.find (\<lambda>p. guestPort p = Some g) machinePorts)"
proof -
  have app: "List.find P (xs @ ys) = (case List.find P xs of Some x \<Rightarrow> Some x | None \<Rightarrow> List.find P ys)" for P :: "string \<Rightarrow> bool" and xs ys
    by (induction xs) auto
  show ?thesis
    unfolding MergeQEMUPorts_def
    by (induction cliPorts arbitrary: machinePorts) (auto simp: find_merge_port app split: option.split)
qed

lemma merge_port_distinct:
  assumes "distinct (filter (\<lambda>g. g \<noteq> None) (map guestPort ms))"
  shows "distinct (filter (\<lambda>g. g \<noteq> None) (map guestPort (merge_port cp ms)))"
proof (cases "guestPort cp")
  case None
  with assms show ?thesis by (simp add: merge_port_def)
next
  case (Some guest)
  have "set (map guestPort (merge_at guest cp ms)) = insert (Some guest) (set (map guestPort ms))"
    using Some by (induction ms) auto
  moreover have "distinct (filter (\<lambda>g. g \<noteq> None) (map guestPort (merge_at guest cp ms)))"
    using assms Some
  proof (induction ms)
    case (Cons m ms)
    have set: "set (map guestPort (merge_at guest cp ms)) = insert (Some guest) (set (map guestPort ms))"
      using Some by (induction ms) auto
    from Cons set show ?case by (auto split: if_splits)
  qed simp
  ultimately show ?thesis using Some by (simp add: merge_port_def)
qed

text \<open>A guest port that was forwarded once by the machine is forwarded once.\<close>

lemma MergeQEMUPorts_distinct:
  "distinct (filter (\<lambda>g. g \<noteq> None) (map guestPort machinePorts)) \<Longrightarrow>
     distinct (filter (\<lambda>g. g \<noteq> None) (map guestPort (MergeQEMUPorts machinePorts cliPorts)))"
  unfolding MergeQEMUPorts_def by (induction cliPorts arbitrary: machinePorts) (simp_all add: merge_port_distinct del: not_None_eq)

text \<open>The port of the boot test is the host side of the override, when there is one.\<close>

lemma sshHostPort_override:
  assumes "List.find (\<lambda>p. guestPort p = Some ''22'') (rev (qoPorts opts)) = Some p"
  shows "sshHostPort machine opts = (case ParseInt64 (hostPort p) of None \<Rightarrow> Inl (BadHostPort p) | Some n \<Rightarrow> Inr n)"
proof -
  have "(\<lambda>p. map_option snd (Cut p CHR '':'') = Some ''22'') = (\<lambda>p. guestPort p = Some ''22'')"
    by (auto simp: guestPort_def fun_eq_iff split: option.splits)
  with assms show ?thesis by (simp add: sshHostPort_def MergeQEMUPorts_find)
qed

lemma checkQEMUPortsFree_iff:
  "checkQEMUPortsFree w ports = Inr () \<longleftrightarrow> (\<forall>p \<in> set ports. hostPort p = [] \<or> \<not> qwBound w (hostPort p))"
proof -
  have "checkQEMUPortsFree w ports = Inr () \<longleftrightarrow> List.find (\<lambda>host. host \<noteq> [] \<and> qwBound w host) (map hostPort ports) = None"
    by (simp add: checkQEMUPortsFree_def split: option.split)
  then show ?thesis by (auto simp: find_None_iff)
qed

section \<open>The scanner misses nothing\<close>

lemma Contains_iff: "Contains s sub \<longleftrightarrow> (\<exists>a b. s = a @ sub @ b)"
proof (induction s)
  case Nil
  show ?case by (auto simp: Contains_def)
next
  case (Cons c s)
  show ?case
  proof (cases "HasPrefix (c # s) sub")
    case True
    then have "\<exists>a b. c # s = a @ sub @ b" unfolding HasPrefix_iff by (metis append_Nil)
    with True show ?thesis by (simp add: Contains_def)
  next
    case False
    then have "(\<exists>a b. c # s = a @ sub @ b) \<longleftrightarrow> (\<exists>a b. s = a @ sub @ b)"
      unfolding HasPrefix_iff by (metis append_Cons append_Nil append_eq_Cons_conv)
    with False Cons show ?thesis by (simp add: Contains_def)
  qed
qed

text \<open>
  An occurrence that is new with the last bytes lies in any part of the stream that ends with
  them and begins a marker before them.
\<close>

lemma new_occurrence:
  assumes "Contains (old @ p) marker" and "\<not> Contains old marker" and "old = front @ tail"
    and "front = [] \<or> length marker \<le> length tail"
  shows "Contains (tail @ p) marker"
proof -
  from assms(1) obtain a b where ab: "old @ p = a @ marker @ b" by (auto simp: Contains_iff)
  have "\<not> length (a @ marker) \<le> length old"
  proof
    assume "length (a @ marker) \<le> length old"
    then have "take (length (a @ marker)) (old @ p) = take (length (a @ marker)) old" by simp
    moreover have "take (length (a @ marker)) (old @ p) = a @ marker" unfolding ab by simp
    ultimately have "old = a @ marker @ drop (length (a @ marker)) old"
      by (metis append.assoc append_take_drop_id)
    with assms(2) show False unfolding Contains_iff by blast
  qed
  then have "length front \<le> length a" using assms(3,4) by auto
  moreover have "front @ (tail @ p) = a @ marker @ b" using ab assms(3) by simp
  ultimately obtain c where "a = front @ c"
    by (metis append_eq_append_conv_if append_eq_conv_conj append_take_drop_id take_append le_add_diff_inverse)
  with \<open>front @ (tail @ p) = a @ marker @ b\<close> have "tail @ p = c @ marker @ b" by simp
  then show ?thesis unfolding Contains_iff by blast
qed

lemma Contains_prefix: "Contains s m \<Longrightarrow> Contains (s @ t) m" and Contains_suffix: "Contains s m \<Longrightarrow> Contains (t @ s) m"
  unfolding Contains_iff by (metis append.assoc)+

definition scanned :: "string \<Rightarrow> string \<Rightarrow> string \<times> bool \<Rightarrow> bool" where
  "scanned marker old m \<longleftrightarrow>
     (\<exists>front. old = front @ fst m \<and> (front = [] \<or> length marker \<le> length (fst m))) \<and>
     length (fst m) \<le> length marker + 256 \<and> (snd m \<longleftrightarrow> Contains old marker)"

lemma scan_write_scanned:
  assumes "scanned marker old m"
  shows "scanned marker (old @ p) (scan_write marker p m)"
proof -
  from assms obtain front where f: "old = front @ fst m" "front = [] \<or> length marker \<le> length (fst m)"
    and s: "snd m \<longleftrightarrow> Contains old marker"
    unfolding scanned_def by auto
  have found: "snd m \<or> Contains (fst m @ p) marker \<longleftrightarrow> Contains (old @ p) marker"
    using new_occurrence [OF _ _ f] s f(1) Contains_prefix [of old marker p] Contains_suffix [of "fst m @ p" marker front] by auto
  let ?t = "fst m @ p" and ?room = "length marker + 256"
  have "\<exists>front'. old @ p = front' @ fst (scan_write marker p m) \<and>
      (front' = [] \<or> length marker \<le> length (fst (scan_write marker p m)))"
  proof (cases "?room < length ?t")
    case True
    then have kept: "fst (scan_write marker p m) = drop (length ?t - ?room) ?t" by (simp add: scan_write_def Let_def)
    have "old @ p = (front @ take (length ?t - ?room) ?t) @ drop (length ?t - ?room) ?t"
      unfolding f(1) append.assoc append_take_drop_id by simp
    moreover have "length (drop (length ?t - ?room) ?t) = ?room" using True by simp
    ultimately show ?thesis unfolding kept by (metis le_add1)
  next
    case False
    then show ?thesis using f by (intro exI [of _ front]) (auto simp: scan_write_def Let_def)
  qed
  moreover have "snd (scan_write marker p m) \<longleftrightarrow> Contains (old @ p) marker"
    using found by (simp add: scan_write_def Let_def)
  moreover have "length (fst (scan_write marker p m)) \<le> ?room"
    by (simp add: scan_write_def Let_def del: length_append drop_append)
  ultimately show ?thesis unfolding scanned_def by blast
qed

text \<open>
  C37. However the console of a guest is cut into writes, the scanner has seen its marker exactly
  when the stream so far contains it, also across writes, and it never retains more than the
  length of the marker and 256 bytes.
\<close>

theorem scan_writes_spec:
  assumes "marker \<noteq> []"
  shows "(snd (scan_writes marker ps) \<longleftrightarrow> Contains (concat ps) marker) \<and>
    length (fst (scan_writes marker ps)) \<le> length marker + 256"
proof -
  have run: "scanned marker old m \<Longrightarrow> scanned marker (old @ concat ps) (fold (scan_write marker) ps m)" for old m
  proof (induction ps arbitrary: old m)
    case (Cons p ps)
    from Cons.IH [OF scan_write_scanned [OF Cons.prems]] show ?case by simp
  qed simp
  have "scanned marker [] ([], False)"
    using assms by (auto simp: scanned_def Contains_iff)
  from run [OF this] show ?thesis unfolding scan_writes_def scanned_def by simp
qed

theorem scan_writes_spec_witness:
  "snd (scan_writes ''login:'' [''alpine log'', ''in'', '': '']) \<and> \<not> snd (scan_writes ''login:'' [''log'', ''on: ''])"
proof -
  have "Contains (concat [''alpine log'', ''in'', '': '']) ''login:''" "\<not> Contains (concat [''log'', ''on: '']) ''login:''"
    by code_simp+
  then show ?thesis using scan_writes_spec [of "''login:''"] by blast
qed

section \<open>Growing the image\<close>

lemma length_run_copy: "length src < length (run_copy src)"
  by (auto simp: run_copy_def TrimSuffix_def HasSuffix_def)

text \<open>What may be done to files: only the copy is written, and it is made from the image.\<close>

definition grows :: "qemu_world \<Rightarrow> string \<Rightarrow> qemu_action \<Rightarrow> bool" where
  "grows w src a \<longleftrightarrow>
     a \<in> {RemoveFile (run_copy src), CpSparse src (run_copy src), CopyBytes src (run_copy src)} \<or>
     (\<exists>n bytes mtime. a = TruncateFile (run_copy src) n \<and> qwInfo w src = Some (bytes, mtime) \<and> bytes < n)"

lemma only_cleaning [only_rules]: "only P m \<Longrightarrow> P (RemoveFile dst) \<Longrightarrow> only P (cleaning dst m)"
  unfolding only_def
proof
  fix h
  assume m: "\<forall>h. \<exists>xs. snd (m h) = h @ xs \<and> list_all P xs" and "P (RemoveFile dst)"
  from m obtain xs where "snd (m h) = h @ xs" "list_all P xs" by blast
  with \<open>P (RemoveFile dst)\<close> show "\<exists>xs. snd (cleaning dst m h) = h @ xs \<and> list_all P xs"
    by (cases "m h"; cases "fst (m h)") (auto simp: cleaning_def)
qed

lemma ensureGrown_only: "only (grows w src) (ensureGrownQEMUImage w src targetSize)"
  unfolding ensureGrownQEMUImage_def grow_copy_def copySparse_def
  by (auto simp: grows_def intro!: only_rules split: option.split)

text \<open>
  A copy that was just made: the image was copied whole, the last thing done is that the copy
  was set to its size, and both succeeded.
\<close>

definition just_grown :: "qemu_world \<Rightarrow> string \<Rightarrow> int \<Rightarrow> qemu_action list \<Rightarrow> bool" where
  "just_grown w src n h \<longleftrightarrow>
     (\<exists>k a. h = k @ [a, TruncateFile (run_copy src) n] \<and> a \<in> {CpSparse src (run_copy src), CopyBytes src (run_copy src)} \<and>
        qwDo w (k @ [a]) \<and> qwDo w h)"

lemma grow_copy_grown:
  assumes "grow_copy w src (run_copy src) n h = (Inr p, h')"
  shows "p = run_copy src \<and> just_grown w src n h'"
  using assms
  by (auto simp: grow_copy_def cleaning_def copySparse_def bnd_def asking_def attempt_def ret_def just_grown_def
      split: if_splits option.splits)

text \<open>
  The image that is run has the size asked for: it is the built one, or a copy that was
  newer than it and large enough, or one that was just made.
\<close>

definition right_size :: "qemu_world \<Rightarrow> string \<Rightarrow> string \<Rightarrow> qemu_action list \<Rightarrow> qemu_action list \<Rightarrow> string \<Rightarrow> bool" where
  "right_size w src targetSize h h' p \<longleftrightarrow>
     (\<exists>n bytes mtime. parseSizeBytes targetSize = Some n \<and> qwInfo w src = Some (bytes, mtime) \<and>
        (p = src \<and> n \<le> bytes \<and> h' = h \<or>
         p = run_copy src \<and> bytes < n \<and> h' = h \<and> (\<exists>b t. qwInfo w p = Some (b, t) \<and> n \<le> b \<and> mtime < t) \<or>
         p = run_copy src \<and> bytes < n \<and> just_grown w src n h'))"

lemma ensureGrown_size:
  assumes "ensureGrownQEMUImage w src targetSize h = (Inr p, h')"
  shows "right_size w src targetSize h h' p"
  using assms unfolding right_size_def
  by (auto simp: ensureGrownQEMUImage_def throw_def ret_def bnd_def tell_def dest!: grow_copy_grown split: option.splits if_splits)

section \<open>The boot test ends, and stops its guest\<close>

lemma div_step:
  assumes "0 < u" and "a + u \<le> b"
  shows "Suc (a div u) \<le> b div (u :: nat)"
  using div_le_mono [OF assms(2), of u] assms(1) by (simp add: le_div_geq)

lemma ssh_dial_attempts:
  "\<exists>k. snd (ssh_dial w port deadline now h) = h @ replicate k (DialGuest port) \<and> k \<le> (deadline - now + (2 * 10 ^ 9 - 1)) div (2 * 10 ^ 9)"
proof (induction w port deadline now arbitrary: h rule: ssh_dial.induct)
  case (1 w port deadline now)
  show ?case
  proof (cases "now < deadline")
    case False
    then show ?thesis by (intro exI [of _ 0]) (simp add: ssh_dial.simps throw_def)
  next
    case True
    obtain connected took where d: "qwDial w (h @ [DialGuest port]) = (connected, took)" by fastforce
    let ?u = "2 * 10 ^ 9 :: nat"
    have one: "Suc ((deadline - (now + took + ?u) + (?u - 1)) div ?u) \<le> (deadline - now + (?u - 1)) div ?u"
    proof -
      have "deadline - (now + took + ?u) + (?u - 1) + ?u \<le> deadline - now + (?u - 1) \<or> deadline - (now + took + ?u) = 0" by linarith
      then show ?thesis
      proof
        assume "deadline - (now + took + ?u) + (?u - 1) + ?u \<le> deadline - now + (?u - 1)"
        then show ?thesis by (rule div_step [rotated]) simp
      next
        assume z: "deadline - (now + took + ?u) = 0"
        have "0 + ?u \<le> deadline - now + (?u - 1)" using True by simp
        then have "Suc (0 div ?u) \<le> (deadline - now + (?u - 1)) div ?u" by (rule div_step [rotated]) simp
        with z show ?thesis by simp
      qed
    qed
    show ?thesis
    proof (cases connected)
      case True
      then have "snd (ssh_dial w port deadline now h) = h @ replicate 1 (DialGuest port)"
        using \<open>now < deadline\<close> d by (simp add: ssh_dial.simps [of w port deadline now] bnd_def asking_def ret_def)
      with one show ?thesis by (intro exI [of _ 1]) simp
    next
      case False
      from "1.IH" [OF True False, of took "h @ [DialGuest port]"]
      obtain k where k: "snd (ssh_dial w port deadline (now + took + ?u) (h @ [DialGuest port])) =
          (h @ [DialGuest port]) @ replicate k (DialGuest port)"
        "k \<le> (deadline - (now + took + ?u) + (?u - 1)) div ?u" by auto
      have "snd (ssh_dial w port deadline now h) = h @ replicate (Suc k) (DialGuest port)"
        using True False d k(1) by (simp add: ssh_dial.simps [of w port deadline now] bnd_def asking_def)
      moreover have "Suc k \<le> (deadline - now + (?u - 1)) div ?u" using k(2) one by linarith
      ultimately show ?thesis by blast
    qed
  qed
qed

definition stage_action :: "int \<Rightarrow> qemu_action \<Rightarrow> bool" where
  "stage_action port a \<longleftrightarrow> a \<in> {WaitLogin, DialGuest port, HealthCheck}"

lemma only_ssh_dial: "only (stage_action port) (ssh_dial w port deadline now)"
  unfolding only_def
proof
  fix h
  obtain k where "snd (ssh_dial w port deadline now h) = h @ replicate k (DialGuest port)"
    using ssh_dial_attempts by blast
  then show "\<exists>xs. snd (ssh_dial w port deadline now h) = h @ xs \<and> list_all (stage_action port) xs"
    by (auto simp: stage_action_def list_all_iff)
qed

lemma only_boot_stages: "only (stage_action port) (boot_stages w port deadline)"
proof -
  have a: "stage_action port WaitLogin" "stage_action port HealthCheck" by (simp_all add: stage_action_def)
  have "only (stage_action port) (case e of LoginSeen now \<Rightarrow> sshHealthCheck w port deadline now | GuestExited \<Rightarrow> throw GuestGone | NoLogin \<Rightarrow> throw LoginTimeout)" for e
    by (cases e) (auto simp: sshHealthCheck_def a intro!: only_rules only_ssh_dial)
  with a show ?thesis unfolding boot_stages_def by (intro only_rules) auto
qed

text \<open>What follows the start of a guest in a boot test with a given result.\<close>

definition tested :: "qemu_world \<Rightarrow> int \<Rightarrow> qemu_action list \<Rightarrow> bool \<Rightarrow> qemu_action list \<Rightarrow> bool" where
  "tested w port h passed after \<longleftrightarrow>
     (qwRun w h \<noteq> None \<and> \<not> passed \<and> after = [Verdict False] \<or>
      qwRun w h = None \<and>
        (\<exists>stages. list_all (stage_action port) stages \<and>
           after = stages @ (if passed then [Verdict True, StopGuest] else [StopGuest, Verdict False])))"

lemma runBootTest_tested:
  assumes "runBootTest w bin args port timeout h = (r, h')"
  shows "\<exists>after. h' = h @ BootGuest bin args # after \<and> tested w port (h @ [BootGuest bin args]) (r = Inr ()) after"
proof (cases "qwRun w (h @ [BootGuest bin args])")
  case (Some s)
  with assms show ?thesis by (auto simp: runBootTest_def tested_def Let_def)
next
  case None
  let ?d = "nat (if timeout \<le> 0 then defaultBootTestTimeout else timeout)"
  obtain r1 h1 where b: "boot_stages w port ?d (h @ [BootGuest bin args]) = (r1, h1)" by fastforce
  obtain stages where "h1 = (h @ [BootGuest bin args]) @ stages" "list_all (stage_action port) stages"
    using only_boot_stages [of port w ?d] b by (auto elim: onlyE [of _ _ "h @ [BootGuest bin args]"])
  with None b assms show ?thesis by (cases r1) (auto simp: runBootTest_def tested_def Let_def)
qed

section \<open>What is run\<close>

text \<open>
  A command line that runs an image: the program for the machine with the arguments built for it,
  and firmware in front of a kernel that cannot start without.
\<close>

definition host_command :: "qemu_world \<Rightarrow> Machine \<Rightarrow> QEMUOptions \<Rightarrow> string \<Rightarrow> string \<Rightarrow> string list \<Rightarrow> bool" where
  "host_command w machine opts img bin args \<longleftrightarrow>
     bin = qemuBinary (mArch machine) \<and> cwHas (qwContainer w) bin \<and>
     (\<exists>kernelPath initrdPath. host_boot_files w machine img = (kernelPath, initrdPath) \<and>
        args = BuildQEMUArgs w machine opts img kernelPath initrdPath \<and>
        (kernelPath \<noteq> [] \<and> efi_only w machine kernelPath \<longrightarrow>
           (\<exists>firmware front rest. firmware \<noteq> [] \<and> args = front @ [''-bios'', firmware, ''-kernel'', kernelPath] @ rest)))"

definition launched :: "qemu_world \<Rightarrow> Machine \<Rightarrow> QEMUOptions \<Rightarrow> string \<Rightarrow> string \<Rightarrow> qemu_action \<Rightarrow> bool" where
  "launched w machine opts projectDir img l \<longleftrightarrow>
     (case l of
        BootGuest bin args \<Rightarrow> qoBootTest opts \<and> host_command w machine opts img bin args
      | StartQEMU bin args \<Rightarrow> \<not> qoBootTest opts \<and> qoDaemon opts \<and> host_command w machine opts img bin args
      | RunGuest bin args \<Rightarrow> \<not> qoBootTest opts \<and> \<not> qoDaemon opts \<and> host_command w machine opts img bin args
      | RunContainer argv \<Rightarrow> \<not> qoBootTest opts \<and> \<not> cwHas (qwContainer w) (qemuBinary (mArch machine)) \<and>
          (\<exists>rel kernelPath initrdPath. Rel projectDir img = Some rel \<and> host_boot_files w machine img = (kernelPath, initrdPath) \<and>
             last argv = container_command w machine opts (PathJoin [''/project'', rel])
               (toContainer projectDir kernelPath) (toContainer projectDir initrdPath))
      | _ \<Rightarrow> False)"

text \<open>A launch that follows a history, with what comes after it and its result.\<close>

definition launch_run :: "qemu_world \<Rightarrow> Machine \<Rightarrow> QEMUOptions \<Rightarrow> string \<Rightarrow> string \<Rightarrow> qemu_action list \<Rightarrow> bool \<Rightarrow> qemu_action list \<Rightarrow> bool" where
  "launch_run w machine opts projectDir img h ok xs \<longleftrightarrow>
     xs = [] \<and> \<not> ok \<or>
     (\<exists>l after. xs = l # after \<and> launched w machine opts projectDir img l \<and>
        (if qoBootTest opts then \<exists>port. sshHostPort machine opts = Inr port \<and> tested w port (h @ [l]) ok after
         else after = [] \<and> (ok \<longleftrightarrow> qwRun w (h @ [l]) = None)))"

lemma host_command_built:
  assumes "cwHas (qwContainer w) (qemuBinary (mArch machine))" and "host_boot_files w machine img = (kernelPath, initrdPath)"
    and "\<not> (needsDirectBoot machine \<and> kernelPath \<noteq> [] \<and> efi_only w machine kernelPath \<and> aarch64UEFIFirmware w = [])"
  shows "host_command w machine opts img (qemuBinary (mArch machine)) (BuildQEMUArgs w machine opts img kernelPath initrdPath)"
proof -
  have "\<exists>front rest. BuildQEMUArgs w machine opts img kernelPath initrdPath = front @ [''-bios'', aarch64UEFIFirmware w, ''-kernel'', kernelPath] @ rest"
    if k: "kernelPath \<noteq> []" "efi_only w machine kernelPath"
  proof -
    from k(1) assms(2) have d: "needsDirectBoot machine" "HasKernel (mKernel machine)"
      by (auto simp: host_boot_files_def split: if_splits)
    with assms(3) k have "direct_boot_args w machine kernelPath initrdPath =
        [''-bios'', aarch64UEFIFirmware w, ''-kernel'', kernelPath] @
        (if initrdPath \<noteq> [] then [''-initrd'', initrdPath] else []) @
        (if kcCmdline (mKernel machine) \<noteq> [] then [''-append'', kcCmdline (mKernel machine)] else [])"
      by (simp add: direct_boot_args_def)
    then show ?thesis unfolding BuildQEMUArgs_def by (metis append.assoc)
  qed
  moreover have "kernelPath \<noteq> [] \<Longrightarrow> efi_only w machine kernelPath \<Longrightarrow> aarch64UEFIFirmware w \<noteq> []"
    using assms(2,3) by (auto simp: host_boot_files_def split: if_splits)
  ultimately show ?thesis using assms(1,2) unfolding host_command_def by blast
qed

lemma host_run_launches:
  assumes "host_run w machine opts img kernelPath initrdPath h = (r, h')"
    and "cwHas (qwContainer w) (qemuBinary (mArch machine))" and "host_boot_files w machine img = (kernelPath, initrdPath)"
  shows "\<exists>xs. h' = h @ xs \<and> launch_run w machine opts projectDir img h (r = Inr ()) xs"
proof (cases "needsDirectBoot machine \<and> kernelPath \<noteq> [] \<and> efi_only w machine kernelPath \<and> aarch64UEFIFirmware w = []")
  case True
  with assms(1) show ?thesis by (auto simp: host_run_def throw_def launch_run_def)
next
  case False
  note cmd = host_command_built [OF assms(2,3) False]
  show ?thesis
  proof (cases "qoBootTest opts")
    case True
    with assms(1) False cmd show ?thesis
      by (cases "sshHostPort machine opts")
        (auto simp: host_run_def Let_def throw_def launch_run_def launched_def dest!: runBootTest_tested)
  next
    case False
    with assms(1) \<open>\<not> (needsDirectBoot machine \<and> _)\<close> cmd show ?thesis
      by (auto simp: host_run_def Let_def attempt_def launch_run_def launched_def split: if_splits option.splits)
  qed
qed

lemma container_run_launches:
  assumes "container_run w proj machine opts projectDir img kernelPath initrdPath h = (r, h')"
    and "\<not> cwHas (qwContainer w) (qemuBinary (mArch machine))" and "host_boot_files w machine img = (kernelPath, initrdPath)"
  shows "\<exists>xs. h' = h @ xs \<and> launch_run w machine opts projectDir img h (r = Inr ()) xs"
  using assms
  by (auto simp: container_run_def throw_def attempt_def launch_run_def launched_def RunInContainer_def
      split: if_splits option.splits sum.splits)

lemma launch_launches:
  assumes "launch w proj machine opts projectDir img h = (r, h')"
  shows "\<exists>xs. h' = h @ xs \<and> launch_run w machine opts projectDir img h (r = Inr ()) xs"
proof -
  obtain k i where b: "host_boot_files w machine img = (k, i)" by fastforce
  with assms show ?thesis
    using host_run_launches [OF _ _ b] container_run_launches [OF _ _ b] by (simp add: launch_def split: if_splits)
qed


section \<open>Examples\<close>

text \<open>
  The machine of the flashing example with an emulator, and another machine whose image has a kernel
  that only firmware can start and that is run in a container.
\<close>

definition ex_image :: string where
  "ex_image = ''/p/build/alpine/img.m/destdir/img.img''"

definition ex_qemu :: qemu_world where
  "ex_qemu =
     \<lparr>qwDisk = ex_machine,
      qwContainer = \<lparr>cwUname = None, cwUser = None, cwHas = (\<lambda>p. p \<in> {''cp'', ''qemu-system-x86_64''}), cwImages = None, cwStat = (\<lambda>_. False)\<rparr>,
      qwInfo = (\<lambda>p. if p = ex_image then Some (100, 5) else None), qwPaths = [],
      qwBound = (\<lambda>p. p = ''2222''), qwFresh = ''yoe-1'', qwDo = (\<lambda>_. True), qwRun = (\<lambda>_. None),
      qwBoot = (\<lambda>_. LoginSeen 1), qwDial = (\<lambda>_. (True, 0))\<rparr>"

definition ex_qemu_options :: QEMUOptions where
  "ex_qemu_options =
     \<lparr>qoMemory = [], qoPorts = [''2300:22''], qoDisplay = False, qoDaemon = False, qoDiskSize = ''1K'', qoBootTest = True, qoBootTestTimeout = 2\<rparr>"

lemma ex_tested:
  "RunQEMU ex_qemu ex_flash_project ''img'' [] ''/p'' ex_qemu_options [] =
     (Inr (), [CpSparse ex_image (run_copy ex_image), TruncateFile (run_copy ex_image) 1024,
        BootGuest ''qemu-system-x86_64''
          [''-machine'', ''q35'', ''-cpu'', ''max'', ''-m'', ''1G'', ''-nographic'',
           ''-drive'', ''file=/p/build/alpine/img.m/destdir/img.run.img,format=raw,if=virtio'',
           ''-netdev'', ''user,id=net0,hostfwd=tcp::2300-:22'', ''-device'', ''virtio-net-pci,netdev=net0''],
        WaitLogin, DialGuest 2300, HealthCheck, Verdict True, StopGuest])"
  by code_simp


text \<open>A disk size that overflows is negative: the image is run as it is, without a word.\<close>

lemma disk_size_wraps: "parseSizeBytes ''8388608T'' = Some (- (2 ^ 63))"
proof -
  have "ParseInt64 ''8388608'' = Some 8388608"
    by (simp add: ParseInt64_def isDigit_def digits_val_def digit_val_def)
  moreover have "signed_take_bit 63 (8388608 * 2 ^ 40 :: int) = - (2 ^ 63)"
    by (simp add: signed_take_bit_eq_take_bit_shift take_bit_eq_mod)
  ultimately show ?thesis by (simp add: parseSizeBytes_def size_mult_def)
qed

lemma overflow_not_grown: "ensureGrownQEMUImage ex_qemu ex_image ''8388608T'' h = (Inr ex_image, h)"
  by (simp add: ensureGrownQEMUImage_def disk_size_wraps ex_qemu_def ret_def)

text \<open>A kernel command line with a space is two arguments to the shell of the container.\<close>

lemma Join_space: "Join (front @ [a @ '' '' @ b]) '' '' = Join (front @ [a, b]) '' ''"
  by (induction front "'' ''" rule: Join.induct) auto

lemma container_command_splits:
  assumes "BuildQEMUArgs w machine opts img kernelPath initrdPath = front @ [''-append'', a @ '' '' @ b]"
  shows "container_command w machine opts img kernelPath initrdPath =
    qemuBinary (mArch machine) @ '' '' @ Join (front @ [''-append'', a, b]) '' ''"
  using assms Join_space [of "front @ [''-append'']" a b] by (simp add: container_command_def)

text \<open>
  A kernel that only firmware can start, run in a container: its header is looked for on the host
  at the path it has in the container, so the firmware that is there is left out.
\<close>

definition ex_arm_machine :: Machine where
  "ex_arm_machine =
     \<lparr>mName = ''m'', mArch = ''arm64'', mDescription = [],
      mKernel = \<lparr>kcDefconfig = [], kcUnit = ''linux'', kcCmdline = ''console=ttyAMA0 root=/dev/vda2'', kcProvides = [], kcDistroUnit = []\<rparr>,
      mQEMU = None, mPackages = [], mDistroPackages = [], mPartitions = [], mSerial = None\<rparr>"

definition ex_zboot :: qemu_world where
  "ex_zboot = ex_qemu
     \<lparr>qwDisk := ex_machine
        \<lparr>fhStat := (\<lambda>p. if p \<in> {ex_image, ''/p/build/alpine/img.m/destdir/rootfs/boot/vmlinuz'', ''/usr/share/AAVMF/AAVMF_CODE.fd''} then Some False else None),
         fhText := (\<lambda>p. if p = ''/p/build/alpine/img.m/destdir/rootfs/boot/vmlinuz'' then Some (replicate 60 CHR ''M'') else None)\<rparr>,
      qwContainer := (qwContainer ex_qemu)\<lparr>cwHas := (\<lambda>p. p = ''docker'')\<rparr>,
      qwPaths := [''/p/build/alpine/img.m/destdir/rootfs/boot/vmlinuz'']\<rparr>"

definition ex_arm_project :: Project where
  "ex_arm_project = ex_flash_project\<lparr>pMachines := [(''m'', ex_arm_machine)]\<rparr>"

definition ex_plain_options :: QEMUOptions where
  "ex_plain_options = ex_qemu_options\<lparr>qoDiskSize := [], qoBootTest := False\<rparr>"

lemma container_firmware_missing:
  "host_boot_files ex_zboot ex_arm_machine ex_image = (''/p/build/alpine/img.m/destdir/rootfs/boot/vmlinuz'', [])"
  "efi_only ex_zboot ex_arm_machine ''/p/build/alpine/img.m/destdir/rootfs/boot/vmlinuz''"
  "aarch64UEFIFirmware ex_zboot = ''/usr/share/AAVMF/AAVMF_CODE.fd''"
  "RunQEMU ex_zboot ex_arm_project ''img'' [] ''/p'' ex_plain_options [] =
     (Inr (), [RunContainer
        [''docker'', ''run'', ''--name'', ''yoe-1'', ''--rm'', ''--privileged'', ''--pull=never'', ''--platform'', ''linux/x86_64'',
         ''-v'', ''/p:/project'', ''-it'', ''-w'', ''/project'', ''yoe/toolchain-musl:15-x86_64'', ''sh'', ''-c'',
         ''qemu-system-aarch64 -machine virt -cpu neoverse-n1 -m 1G -nographic '' @
         ''-drive file=/project/build/alpine/img.m/destdir/img.img,format=raw,if=virtio '' @
         ''-netdev user,id=net0,hostfwd=tcp::2300-:22 -device virtio-net-pci,netdev=net0 '' @
         ''-kernel /project/build/alpine/img.m/destdir/rootfs/boot/vmlinuz -append console=ttyAMA0 root=/dev/vda2'']])"
  by code_simp+

end
