(* ===== verification/Spec2Isabelle.thy ===== *)
theory Spec2Isabelle
  imports Cycle DagQuery RuntimeClosure TopoOrder ClosureWalk ModuleWalk Hash Build Query PkgIndex LoadedProject Loads AptFeed Fetch ConsoleLog
    BuildUnit BuildTasks Workspace DevMode FeedUpdate Flash Qemu
begin

text \<open>
  Verification of yoe, a tool that builds Linux images from units described in Starlark.

  \<^bold>\<open>The program.\<close> A project names modules; each module holds unit files. The loader
  (\<^verbatim>\<open>src/internal/starlark\<close>) extends the module list by what modules depend on, evaluates the
  unit files into a catalog, precomputes one view of the catalog per distribution, and walks
  the closure of every image, materializing units from package feeds on demand. The resolver
  (\<^verbatim>\<open>src/internal/resolve\<close>) turns a view into a dependency graph, sorts it, answers queries about
  it and computes a content-addressed hash per unit. The builder (\<^verbatim>\<open>src/internal/build\<close>) plans
  which units a request needs, decides from the hashes which are cached, and runs the rest
  with one goroutine per unit. Packages that come out are described in PKGINFO
  (\<^verbatim>\<open>src/internal/artifact\<close>), indexed (\<^verbatim>\<open>src/internal/repo\<close>), and the same index format is read back
  when it comes from an Alpine mirror (\<^verbatim>\<open>src/internal/apkindex\<close>, \<^verbatim>\<open>src/internal/feeds\<close>); Debian mirrors
  have their own index (\<^verbatim>\<open>src/internal/dpkg\<close>). Sources are fetched over HTTP or cloned into a
  cache (\<^verbatim>\<open>src/internal/source\<close>, \<^verbatim>\<open>src/internal/gitutil\<close>). The terminal interface filters units with a small query language (\<^verbatim>\<open>src/internal/tui/query\<close>).

  \<^bold>\<open>Shared theories.\<close> Prelude has the Go map as an association list with distinct keys, nil
  as \<^const>\<open>None\<close>, sums for errors and the lemmas on lists all components use. GoStrings, Paths, Json
  and Base64 model the standard library functions the sources call, on byte strings (names
  and index texts are ASCII). Walks has depth-first search over a graph in a Go map,
  once for all the recursive closures of the sources. Trace has computations with effects: each
  extends the history of its actions, and what an action comes to is answered by an oracle of the
  component, a function of the history that ends with it; a contract \<^const>\<open>only\<close> says which
  actions a computation may take, and Guarded adds contracts that depend on what was done before
  (\<^const>\<open>careful\<close>). They hold for runs that end with an error as well. Several theories state
  interfaces as locales: Codec (a printer and the parser that reads it back), Newest (a table that
  keeps the newest of what was registered for a key), FeedCore (an index with a table of names and a
  table of what they provide, and resolution over several of them), DagQuery (reachability queries,
  build orders) and LoadedProject (invariants of lookups and of the stages of a load). Each is interpreted on the
  definitions of the component that provides it.

  \<^bold>\<open>Loading.\<close> Cycle models \<^verbatim>\<open>cycle.go\<close>: the search accepts exactly the acyclic module graphs and
  a reported path is a cycle. ModuleWalk models \<^verbatim>\<open>module_walk.go\<close>: the expansion to a
  fixpoint, whose sixteen rounds suffice when fewer than sixteen modules are added. Units has
  the structs of \<^verbatim>\<open>types.go\<close>; Views the per-distro views of \<^verbatim>\<open>loader.go\<close> and their agreement
  with resolution against the catalog. Catalog and ClosureWalk model the engine, registration and
  \<^verbatim>\<open>closure.go\<close>: lookups return only units visible to the distro, the walk ends when finitely
  many names exist, and its result is exactly what runtime dependencies pull in. The walk
  is a \<^theory_text>\<open>partial_function\<close> on options, so that ending is a theorem. TopoOrder models the order of
  the artifact list, cycles of runtime dependencies included.

  Starlark has the values of the language as a datatype, with the readers of arguments and
  struct fields; Builtins the functions of \<^verbatim>\<open>builtins.go\<close> and \<^verbatim>\<open>install_step.go\<close> that a file calls, and a file as
  a sequence of such calls: whatever they are, the engine they leave is well formed. Loader has the
  stages of \<^verbatim>\<open>loader.go\<close>, BuildDeps its fixpoint over build dependencies, with the conditions under which it
  ends and examples on which it does not, and LoadedProject what a project that was loaded without error
  satisfies. Loads models \<^verbatim>\<open>load.go\<close>: files are lists of statements an oracle gives, and the fuel of
  the interpreter, one per file, is enough because a file on the stack of running loads cannot be
  entered again.

  \<^bold>\<open>Resolving.\<close> Dag builds the graph of \<^verbatim>\<open>dag.go\<close> and shows its invariant: closed, with reverse edges
  the converse of edges. DagSort shows the sort returns the lexicographically least
  topological order or names the units that depend on a cycle. DagQuery and RuntimeClosure
  characterise the transitive queries. Hash models \<^verbatim>\<open>hash.go\<close> to the byte of the hashed text: the
  hash does not depend on map order, ignores what must stay cache neutral, and without
  digest collisions a changed unit changes the hash of everything that declares it,
  transitively. Arch and SourceState model the tables and the git state the hash reads.

  \<^bold>\<open>Building.\<close> Plan models the planning half of \<^verbatim>\<open>executor.go\<close> and the build record; Schedule
  the parallel half as a step relation over the shared state (counters, slots, rebuilt and
  failed sets), one step per critical section. Its invariant gives safety for every
  interleaving, a simulation to an abstract build machine gives the set of rebuilt units, and
  a measure gives that every run ends. Build joins the two: the plan of a project satisfies what
  the scheduler relies on. What a worker does is in BuildUnit: one unit from its first record to its
  last as a sequence of recorded actions, with the source it prepares (Workspace, \<^verbatim>\<open>source/workspace.go\<close>),
  the sysroot it assembles, the environment and command line of each step (Sandbox: the containers of
  \<^verbatim>\<open>internal/container\<close> and the quoting of \<^verbatim>\<open>sandbox.go\<close>), the steps that install files (Templates) and the built-ins of
  a task (BuildTasks). A package is published only after every step ran.

  \<^bold>\<open>Development mode.\<close> GitTree models git in a tree a person may own (\<^verbatim>\<open>gitutil.go\<close>); which commands may move
  such a tree is a guard on the history. ModuleTree is \<^verbatim>\<open>internal/module\<close>, the clones of modules, and DevMode
  \<^verbatim>\<open>internal/dev.go\<close>, the sources of units: local work is refused, kept, or discarded by force only. The promotion of a
  commit to the pin rewrites a .star file by regular expressions, which StarEdit models as
  matchers (\<^verbatim>\<open>edit.go\<close>): it changes one line of the unit's block and no other byte.

  \<^bold>\<open>Packages.\<close> ApkVersion is the version order, a preorder through an explicit key, and the
  64-bit release number with its wrap-around. ApkIndex has the index parser (lines of at most
  1048576 bytes), dependency tokens, the provides table and the units made from
  entries. PkgIndex joins writer and reader: the index of a repository parses back, and what a unit
  says of itself survives PKGINFO, index and parser. AlpineFeed declares feeds and resolves
  dependencies across them; Dpkg and AptFeed do so for Debian indexes; a closure over any
  mixture of feeds ends. Retry models the retries of \<^verbatim>\<open>gitutil\<close> over an oracle for git, and Fetch the
  source cache: downloads are verified before they are named, clones checked before they are
  published, and what fails leaves the cache as it was. GzipFrame splits files into gzip streams and repacks packages.
  DebRepo writes control paragraphs, package lists and release files. FeedUpdate brings the indexes of
  feeds up to date: nothing is written that was not downloaded and verified before, as far as the
  sources verify it (for apt only the release file). ConsoleLog is the log of a serial console as a
  state machine over bytes, timer and markers. Query is the search language: parser and
  printer, matching, completion and the closure behind \<^verbatim>\<open>in:\<close>.

  \<^bold>\<open>Devices.\<close> Flash is the flashing of an image to a block device (\<^verbatim>\<open>internal/device/flash.go\<close> and the files beside
  it): the disks below mapped devices, the mount tables, the devices that are offered, the questions
  before a write and the padded blocks that are written. The disks the system runs from are spared.
  Qemu runs an image in an emulator (\<^verbatim>\<open>qemu.go\<close>, \<^verbatim>\<open>boottest.go\<close>): forwarded ports, the grown copy of the image,
  kernel, firmware and command line, and the boot test with its scanner of the console, which
  misses no marker and stops every guest it starts.

  \<^bold>\<open>Conventions.\<close> Errors of the sources are constructors of a datatype per component, panics an
  explicit value. A Go map has no iteration order; a definition that iterates over
  one takes the order of the list, and where the source claims a result independent of the
  order there is a theorem that permuting the list changes nothing. Loops are structural
  recursion or functions with a measure. What lies outside the sources is an argument:
  SHA-256 and SHA-1, the deflate decoder, the signer, floating-point output of the JSON
  encoder, the readers of Debian control files and versions, git, HTTP, the file system, uname
  and the clock. Git and HTTP answer as functions of the history of what was asked. Theorems that rely on one state what
  they assume of it, and a witness instantiates it.

  \<^bold>\<open>Not modelled.\<close> The Starlark interpreter; what a command does inside its container; the formats of tar, ar and
  PEM, compression and signatures themselves; the terminal interface apart from its query language; ssh and
  deployment, serial sessions, servers, and the command line. They are I/O around the components above or
  rest on frameworks outside the sources.
\<close>

end
